(* ===== verification/Prelude.thy ===== *)
theory Prelude
  imports
    Main
    "HOL-Library.Char_ord"
    "HOL-Library.List_Lexorder"
    "HOL-Library.Option_ord"
    "HOL-Library.Product_Lexorder"
    "HOL-Library.Sublist"
    "HOL-Library.Multiset"
begin

text \<open>
  The shared layer of the development: the Rust constructs that every component uses.

  \<^item> \<open>Result\<close> values are sums, \<open>Inl\<close> the error; \<open>bind_res\<close> is the operator \<open>?\<close> and
    \<open>try_all\<close>, \<open>try_map\<close> and \<open>try_foldl\<close> are the fallible iterator adaptors.
  \<^item> \<open>u64\<close> values are natural numbers with the overflow of \<open>checked_add\<close> and \<open>checked_mul\<close>
    written out.
  \<^item> \<open>BTreeMap\<close> and \<open>BTreeSet\<close> are strictly sorted association lists and lists, so that
    iteration order is the key order; the locales \<open>ordered_map\<close> and \<open>ordered_set\<close> state
    what the components rely on, and both are interpreted on these lists.
  \<^item> decimal printing and parsing of \<open>u64\<close> (\<open>to_string\<close> and \<open>parse::<u64>\<close>).
\<close>

named_theorems res_simps "unfolding of the result operators"
named_theorems exec_simps "evaluation of the model on concrete values"

section \<open>Results\<close>

type_synonym ('e, 'a) result = "'e + 'a"

definition bind_res :: "'e + 'a \<Rightarrow> ('a \<Rightarrow> 'e + 'b) \<Rightarrow> 'e + 'b" where
  "bind_res r f = (case r of Inl e \<Rightarrow> Inl e | Inr a \<Rightarrow> f a)"

lemma bind_res_Inl [simp]: "bind_res (Inl e) f = Inl e"
  by (simp add: bind_res_def)

lemma bind_res_Inr [simp]: "bind_res (Inr a) f = f a"
  by (simp add: bind_res_def)

lemma bind_res_Inr_right [simp]: "bind_res r Inr = r"
  by (cases r) auto

lemma bind_res_cong [fundef_cong]:
  assumes "r = r'" and "\<And>a. r' = Inr a \<Longrightarrow> f a = g a"
  shows "bind_res r f = bind_res r' g"
  using assms by (cases r') auto

lemma bind_res_eq_Inr [res_simps]:
  "bind_res r f = Inr b \<longleftrightarrow> (\<exists>a. r = Inr a \<and> f a = Inr b)"
  by (cases r) auto

lemma bind_res_eq_Inl [res_simps]:
  "bind_res r f = Inl e \<longleftrightarrow> r = Inl e \<or> (\<exists>a. r = Inr a \<and> f a = Inl e)"
  by (cases r) auto

lemma bind_resE:
  assumes "bind_res r f = Inr b"
  obtains a where "r = Inr a" and "f a = Inr b"
  using assms by (auto simp: bind_res_eq_Inr)

lemma bind_res_assoc: "bind_res (bind_res r f) g = bind_res r (\<lambda>a. bind_res (f a) g)"
  by (cases r) auto

definition ok_or :: "'e \<Rightarrow> 'a option \<Rightarrow> 'e + 'a" where
  "ok_or e x = (case x of None \<Rightarrow> Inl e | Some a \<Rightarrow> Inr a)"

lemma ok_or_simps [simp]: "ok_or e None = Inl e" "ok_or e (Some a) = Inr a"
  by (simp_all add: ok_or_def)

lemma ok_or_eq_Inr [res_simps]: "ok_or e x = Inr a \<longleftrightarrow> x = Some a"
  by (cases x) auto

fun try_all :: "('a \<Rightarrow> 'e + unit) \<Rightarrow> 'a list \<Rightarrow> 'e + unit" where
  "try_all f [] = Inr ()"
| "try_all f (x # xs) = bind_res (f x) (\<lambda>_. try_all f xs)"

lemma try_all_cong [fundef_cong]:
  assumes "xs = ys" and "\<And>x. x \<in> set ys \<Longrightarrow> f x = g x"
  shows "try_all f xs = try_all g ys"
  using assms(2) unfolding assms(1) by (induction ys) auto

lemma try_all_ok: "try_all f xs = Inr u \<longleftrightarrow> (\<forall>x \<in> set xs. f x = Inr ())"
  by (induction xs) (auto simp: bind_res_eq_Inr)

lemma try_all_enumerate:
  assumes "\<And>i x u. f i x = Inr u \<longleftrightarrow> Q x"
  shows "try_all (\<lambda>(i, x). f i x) (enumerate n xs) = Inr u \<longleftrightarrow> (\<forall>x \<in> set xs. Q x)"
  using assms by (induction xs arbitrary: n) (auto simp: bind_res_eq_Inr)

fun try_map :: "('a \<Rightarrow> 'e + 'b) \<Rightarrow> 'a list \<Rightarrow> 'e + 'b list" where
  "try_map f [] = Inr []"
| "try_map f (x # xs) = bind_res (f x) (\<lambda>y. bind_res (try_map f xs) (\<lambda>ys. Inr (y # ys)))"

lemma try_map_cong [fundef_cong]:
  assumes "xs = ys" and "\<And>x. x \<in> set ys \<Longrightarrow> f x = g x"
  shows "try_map f xs = try_map g ys"
  using assms(2) unfolding assms(1) by (induction ys) auto

lemma try_map_ok: "try_map f xs = Inr ys \<longleftrightarrow> list_all2 (\<lambda>x y. f x = Inr y) xs ys"
  by (induction xs arbitrary: ys) (auto simp: bind_res_eq_Inr list_all2_Cons1)

fun try_foldl :: "('s \<Rightarrow> 'a \<Rightarrow> 'e + 's) \<Rightarrow> 's \<Rightarrow> 'a list \<Rightarrow> 'e + 's" where
  "try_foldl f s [] = Inr s"
| "try_foldl f s (x # xs) = bind_res (f s x) (\<lambda>s'. try_foldl f s' xs)"

lemma try_foldl_cong [fundef_cong]:
  assumes "xs = ys" and "s = t" and "\<And>x s. x \<in> set ys \<Longrightarrow> f s x = g s x"
  shows "try_foldl f s xs = try_foldl g t ys"
  using assms(3) unfolding assms(1,2) by (induction ys arbitrary: t) (auto intro: bind_res_cong)

lemma try_foldl_append:
  "try_foldl f s (xs @ ys) = bind_res (try_foldl f s xs) (\<lambda>s'. try_foldl f s' ys)"
  by (induction xs arbitrary: s) (auto simp: bind_res_assoc)

text \<open>An invariant of a fallible loop: every accepted step keeps it.\<close>

lemma try_foldl_invariant:
  assumes "try_foldl f s xs = Inr t" and "I s"
    and "\<And>s x s'. x \<in> set xs \<Longrightarrow> I s \<Longrightarrow> f s x = Inr s' \<Longrightarrow> I s'"
  shows "I t"
  using assms by (induction xs arbitrary: s) (auto simp: bind_res_eq_Inr)

text \<open>The same for a relation between the first and the last state.\<close>

lemma try_foldl_relation:
  assumes "try_foldl f s xs = Inr t"
    and "\<And>s. R s s" and "\<And>a b c. R a b \<Longrightarrow> R b c \<Longrightarrow> R a c"
    and "\<And>s x s'. x \<in> set xs \<Longrightarrow> f s x = Inr s' \<Longrightarrow> R s s'"
  shows "R s t"
  using assms(1,4)
proof (induction xs arbitrary: s)
  case Nil
  then show ?case by (simp add: assms(2))
next
  case (Cons x xs)
  then obtain s' where "f s x = Inr s'" and "try_foldl f s' xs = Inr t"
    by (auto simp: bind_res_eq_Inr)
  moreover from this Cons have "R s s'" and "R s' t" by auto
  ultimately show ?case by (blast intro: assms(3))
qed

fun opt_foldl :: "('s \<Rightarrow> 'a \<Rightarrow> 's option) \<Rightarrow> 's \<Rightarrow> 'a list \<Rightarrow> 's option" where
  "opt_foldl f s [] = Some s"
| "opt_foldl f s (x # xs) = (case f s x of None \<Rightarrow> None | Some s' \<Rightarrow> opt_foldl f s' xs)"

lemma opt_foldl_cong [fundef_cong]:
  assumes "xs = ys" and "s = t" and "\<And>x s. x \<in> set ys \<Longrightarrow> f s x = g s x"
  shows "opt_foldl f s xs = opt_foldl g t ys"
  using assms(3) unfolding assms(1,2)
  by (induction ys arbitrary: t) (auto split: option.splits)

section \<open>Unsigned 64-bit integers\<close>

type_synonym u64 = nat

definition u64_max :: u64 where
  "u64_max = 18446744073709551615"

definition i64_max :: u64 where
  "i64_max = 9223372036854775807"

definition checked_add :: "u64 \<Rightarrow> u64 \<Rightarrow> u64 option" where
  "checked_add a b = (if a + b \<le> u64_max then Some (a + b) else None)"

definition checked_mul :: "u64 \<Rightarrow> u64 \<Rightarrow> u64 option" where
  "checked_mul a b = (if a * b \<le> u64_max then Some (a * b) else None)"

definition saturating_add :: "u64 \<Rightarrow> u64 \<Rightarrow> u64" where
  "saturating_add a b = min u64_max (a + b)"

text \<open>The unchecked \<open>+\<close> of a release build wraps.\<close>

definition wrapping_add :: "u64 \<Rightarrow> u64 \<Rightarrow> u64" where
  "wrapping_add a b = (a + b) mod (u64_max + 1)"

lemma checked_add_Some: "checked_add a b = Some c \<longleftrightarrow> c = a + b \<and> a + b \<le> u64_max"
  by (auto simp: checked_add_def)

lemma wrapping_add_exact: "a + b \<le> u64_max \<Longrightarrow> wrapping_add a b = a + b"
  by (simp add: wrapping_add_def)

section \<open>Ordered maps (\<open>BTreeMap\<close>)\<close>

type_synonym ('k, 'v) btree_map = "('k \<times> 'v) list"

fun bm_insert :: "'k::linorder \<Rightarrow> 'v \<Rightarrow> ('k, 'v) btree_map \<Rightarrow> ('k, 'v) btree_map" where
  "bm_insert k v [] = [(k, v)]"
| "bm_insert k v ((k', v') # m) =
     (if k < k' then (k, v) # (k', v') # m
      else if k = k' then (k, v) # m
      else (k', v') # bm_insert k v m)"

definition bm_get :: "('k, 'v) btree_map \<Rightarrow> 'k \<Rightarrow> 'v option" where
  "bm_get m k = map_of m k"

definition bm_retain :: "('k \<Rightarrow> 'v \<Rightarrow> bool) \<Rightarrow> ('k, 'v) btree_map \<Rightarrow> ('k, 'v) btree_map" where
  "bm_retain P m = filter (\<lambda>(k, v). P k v) m"

definition bm_extend ::
    "('k::linorder, 'v) btree_map \<Rightarrow> ('k, 'v) btree_map \<Rightarrow> ('k, 'v) btree_map" where
  "bm_extend m n = fold (\<lambda>(k, v). bm_insert k v) n m"

definition bm_keys :: "('k, 'v) btree_map \<Rightarrow> 'k list" where
  "bm_keys m = map fst m"

definition bm_wf :: "('k::linorder, 'v) btree_map \<Rightarrow> bool" where
  "bm_wf m \<longleftrightarrow> sorted_wrt (<) (map fst m)"

lemma bm_get_Nil [simp]: "bm_get [] k = None"
  by (simp add: bm_get_def)

lemma bm_get_Cons [simp]: "bm_get ((k', v) # m) k = (if k' = k then Some v else bm_get m k)"
  by (simp add: bm_get_def)

lemma bm_get_insert [simp]:
  "bm_get (bm_insert k v m) k' = (if k' = k then Some v else bm_get m k')"
  by (induction m) auto

lemma keys_bm_insert [simp]: "fst ` set (bm_insert k v m) = insert k (fst ` set m)"
  by (induction k v m rule: bm_insert.induct) (simp_all add: insert_commute)

lemma bm_wf_Nil [simp]: "bm_wf []"
  by (simp add: bm_wf_def)

lemma bm_wf_Cons: "bm_wf ((k, v) # m) \<longleftrightarrow> (\<forall>k' \<in> fst ` set m. k < k') \<and> bm_wf m"
  by (simp add: bm_wf_def)

lemma bm_wf_insert [intro, simp]: "bm_wf m \<Longrightarrow> bm_wf (bm_insert k v m)"
  by (induction m) (fastforce simp: bm_wf_Cons intro: less_trans)+

lemma bm_wf_retain [intro, simp]: "bm_wf m \<Longrightarrow> bm_wf (bm_retain P m)"
  by (auto simp: bm_wf_def bm_retain_def sorted_wrt_map intro: sorted_wrt_filter)

lemma bm_wf_extend [intro, simp]: "bm_wf m \<Longrightarrow> bm_wf (bm_extend m n)"
  unfolding bm_extend_def by (induction n arbitrary: m) auto

lemma bm_wf_distinct: "bm_wf m \<Longrightarrow> distinct (map fst m)"
  by (simp add: bm_wf_def strict_sorted_iff)

lemma bm_get_iff: "bm_wf m \<Longrightarrow> bm_get m k = Some v \<longleftrightarrow> (k, v) \<in> set m"
  by (simp add: bm_get_def bm_wf_distinct)

lemma bm_get_None: "bm_get m k = None \<longleftrightarrow> k \<notin> fst ` set m"
  by (simp add: bm_get_def map_of_eq_None_iff)

lemma bm_get_SomeD: "bm_get m k = Some v \<Longrightarrow> (k, v) \<in> set m"
  by (simp add: bm_get_def map_of_SomeD)

lemma set_bm_insert_subset: "set (bm_insert k v m) \<subseteq> insert (k, v) (set m)"
  by (induction m) (auto split: if_splits)

lemma set_bm_insert: "bm_wf m \<Longrightarrow> set (bm_insert k v m) = insert (k, v) {p \<in> set m. fst p \<noteq> k}"
  by (induction k v m rule: bm_insert.induct) (auto simp: bm_wf_Cons)

lemma bm_get_retain:
  "bm_wf m \<Longrightarrow> bm_get (bm_retain P m) k =
     (case bm_get m k of None \<Rightarrow> None | Some v \<Rightarrow> if P k v then Some v else None)"
  by (induction m)
    (fastforce simp: bm_retain_def bm_wf_Cons bm_get_def split: option.splits dest: map_of_SomeD)+

lemma bm_get_extend:
  "bm_wf n \<Longrightarrow> bm_get (bm_extend m n) k = (case bm_get n k of None \<Rightarrow> bm_get m k | Some v \<Rightarrow> Some v)"
proof (induction n arbitrary: m)
  case Nil
  then show ?case by (simp add: bm_extend_def)
next
  case (Cons p n)
  obtain k' v' where p: "p = (k', v')" by (cases p)
  from Cons.prems p have wf: "bm_wf n" and "k' \<notin> fst ` set n"
    by (auto simp: bm_wf_Cons)
  then have "bm_get n k' = None" by (simp add: bm_get_None)
  moreover have "bm_extend m (p # n) = bm_extend (bm_insert k' v' m) n"
    by (simp add: bm_extend_def p)
  ultimately show ?case by (auto simp: Cons.IH[OF wf] p split: option.splits)
qed

text \<open>Two ordered maps with the same lookups are the same list.\<close>

lemma bm_wf_unique:
  assumes "bm_wf m" "bm_wf n" "bm_get m = bm_get n"
  shows "m = n"
proof -
  have "set m = set n"
    using assms by (auto simp flip: bm_get_iff)
  moreover have "sorted (map fst m)" "sorted (map fst n)"
    using assms by (simp_all add: bm_wf_def strict_sorted_iff)
  ultimately show ?thesis
    using assms(1,2) map_sorted_distinct_set_unique[of fst m n]
    by (auto dest!: bm_wf_distinct simp: inj_on_def distinct_map eq_key_imp_eq_value)
qed

locale ordered_map =
  fixes empty :: "'m"
    and insert :: "'k::linorder \<Rightarrow> 'v \<Rightarrow> 'm \<Rightarrow> 'm"
    and get :: "'m \<Rightarrow> 'k \<Rightarrow> 'v option"
    and keys :: "'m \<Rightarrow> 'k list"
    and wf :: "'m \<Rightarrow> bool"
  assumes get_empty: "get empty k = None"
    and get_insert: "get (insert k v m) k' = (if k' = k then Some v else get m k')"
    and keys_get: "wf m \<Longrightarrow> k \<in> set (keys m) \<longleftrightarrow> get m k \<noteq> None"
    and keys_sorted: "wf m \<Longrightarrow> sorted_wrt (<) (keys m)"
    and wf_empty: "wf empty"
    and wf_insert: "wf m \<Longrightarrow> wf (insert k v m)"
begin

definition of_pairs :: "('k \<times> 'v) list \<Rightarrow> 'm" where
  "of_pairs ps = fold (\<lambda>(k, v). insert k v) ps empty"

lemma get_fold_insert:
  "get (fold (\<lambda>(k, v). insert k v) ps m) k =
     (case map_of (rev ps) k of None \<Rightarrow> get m k | Some v \<Rightarrow> Some v)"
  by (induction ps arbitrary: m) (auto simp: get_insert map_add_def split: option.splits)

lemma wf_fold_insert: "wf m \<Longrightarrow> wf (fold (\<lambda>(k, v). insert k v) ps m)"
  by (induction ps arbitrary: m) (auto simp: wf_insert)

lemma get_of_pairs: "get (of_pairs ps) k = map_of (rev ps) k"
  by (auto simp: of_pairs_def get_fold_insert get_empty split: option.splits)

lemma keys_of_pairs: "set (keys (of_pairs ps)) = fst ` set ps"
proof -
  have "k \<in> set (keys (of_pairs ps)) \<longleftrightarrow> map_of (rev ps) k \<noteq> None" for k
    by (simp add: keys_get of_pairs_def wf_fold_insert wf_empty flip: get_of_pairs)
  then show ?thesis by (simp add: map_of_eq_None_iff set_eq_iff)
qed

end

interpretation bm: ordered_map "[]" bm_insert bm_get bm_keys bm_wf
  by unfold_locales (auto simp: bm_keys_def bm_get_None bm_wf_def[symmetric])

section \<open>Ordered sets (\<open>BTreeSet\<close>)\<close>

type_synonym 'a btree_set = "'a list"

fun bs_insert :: "'a::linorder \<Rightarrow> 'a btree_set \<Rightarrow> 'a btree_set" where
  "bs_insert x [] = [x]"
| "bs_insert x (y # ys) =
     (if x < y then x # y # ys else if x = y then y # ys else y # bs_insert x ys)"

definition bs_of_list :: "'a::linorder list \<Rightarrow> 'a btree_set" where
  "bs_of_list xs = fold bs_insert xs []"

definition bs_extend :: "'a::linorder btree_set \<Rightarrow> 'a btree_set \<Rightarrow> 'a btree_set" where
  "bs_extend s t = fold bs_insert t s"

definition bs_wf :: "'a::linorder btree_set \<Rightarrow> bool" where
  "bs_wf s \<longleftrightarrow> sorted_wrt (<) s"

lemma set_bs_insert [simp]: "set (bs_insert x s) = insert x (set s)"
  by (induction s) auto

lemma bs_wf_insert [intro, simp]: "bs_wf s \<Longrightarrow> bs_wf (bs_insert x s)"
  by (induction s) (auto simp: bs_wf_def intro: less_trans)

lemma bs_wf_Nil [simp]: "bs_wf []"
  by (simp add: bs_wf_def)

lemma set_bs_extend [simp]: "set (bs_extend s t) = set s \<union> set t"
  unfolding bs_extend_def by (induction t arbitrary: s) auto

lemma bs_wf_extend [intro, simp]: "bs_wf s \<Longrightarrow> bs_wf (bs_extend s t)"
  unfolding bs_extend_def by (induction t arbitrary: s) auto

lemma set_bs_of_list [simp]: "set (bs_of_list xs) = set xs"
  using set_bs_extend[of "[]" xs] by (simp add: bs_of_list_def bs_extend_def)

lemma bs_wf_of_list [simp]: "bs_wf (bs_of_list xs)"
  using bs_wf_extend[of "[]" xs] by (simp add: bs_of_list_def bs_extend_def)

lemma bs_wf_distinct: "bs_wf s \<Longrightarrow> distinct s"
  by (simp add: bs_wf_def strict_sorted_iff)

lemma bs_wf_unique: "bs_wf s \<Longrightarrow> bs_wf t \<Longrightarrow> set s = set t \<Longrightarrow> s = t"
  by (simp add: bs_wf_def strict_sorted_equal)

locale ordered_set =
  fixes empty :: "'s"
    and insert :: "'a::linorder \<Rightarrow> 's \<Rightarrow> 's"
    and elems :: "'s \<Rightarrow> 'a list"
    and wf :: "'s \<Rightarrow> bool"
  assumes elems_empty: "elems empty = []"
    and elems_insert: "set (elems (insert x s)) = Set.insert x (set (elems s))"
    and elems_sorted: "wf s \<Longrightarrow> sorted_wrt (<) (elems s)"
    and wf_empty: "wf empty"
    and wf_insert: "wf s \<Longrightarrow> wf (insert x s)"
begin

lemma elems_fold: "set (elems (fold insert xs s)) = set xs \<union> set (elems s)"
  by (induction xs arbitrary: s) (auto simp: elems_insert)

lemma wf_fold: "wf s \<Longrightarrow> wf (fold insert xs s)"
  by (induction xs arbitrary: s) (auto simp: wf_insert)

text \<open>Collecting an iterator into the set gives its elements in order, each once.\<close>

lemma elems_collect: "elems (fold insert xs empty) = sorted_list_of_set (set xs)"
proof (rule strict_sorted_equal)
  show "sorted_wrt (<) (elems (fold insert xs empty))"
    by (intro elems_sorted wf_fold wf_empty)
  show "set (elems (fold insert xs empty)) = set (sorted_list_of_set (set xs))"
    by (simp add: elems_fold elems_empty)
qed simp

end

interpretation bs: ordered_set "[]" bs_insert "\<lambda>s. s" bs_wf
  by unfold_locales (simp_all, simp add: bs_wf_def)

lemma bs_of_list_sorted: "bs_of_list xs = sorted_list_of_set (set xs)"
  unfolding bs_of_list_def by (rule bs.elems_collect)

section \<open>Decimal text of \<open>u64\<close>\<close>

definition digit_char :: "nat \<Rightarrow> char" where
  "digit_char d = char_of (48 + d)"

definition is_digit_char :: "char \<Rightarrow> bool" where
  "is_digit_char c \<longleftrightarrow> 48 \<le> (of_char c :: nat) \<and> (of_char c :: nat) \<le> 57"

definition digit_value :: "char \<Rightarrow> nat" where
  "digit_value c = of_char c - 48"

fun u64_to_string :: "u64 \<Rightarrow> string" where
  "u64_to_string n =
     (if n < 10 then [digit_char n] else u64_to_string (n div 10) @ [digit_char (n mod 10)])"

declare u64_to_string.simps [simp del]

definition digits_value :: "string \<Rightarrow> nat" where
  "digits_value s = foldl (\<lambda>n c. n * 10 + digit_value c) 0 s"

text \<open>\<open>str::parse::<u64>\<close>: an optional \<open>+\<close>, at least one digit, no overflow.\<close>

definition parse_u64 :: "string \<Rightarrow> u64 option" where
  "parse_u64 s =
     (let ds = (case s of c # r \<Rightarrow> if c = CHR ''+'' then r else s | [] \<Rightarrow> [])
      in if ds = [] \<or> \<not> list_all is_digit_char ds then None
         else if digits_value ds \<le> u64_max then Some (digits_value ds) else None)"

lemma digit_char_props [simp]:
  assumes "d < 10"
  shows "is_digit_char (digit_char d)" and "digit_value (digit_char d) = d"
    and "digit_char d \<noteq> CHR ''+''"
proof -
  have code: "(of_char (digit_char d) :: nat) = 48 + d"
    using assms by (simp add: digit_char_def)
  then show "is_digit_char (digit_char d)" and "digit_value (digit_char d) = d"
    using assms by (simp_all add: is_digit_char_def digit_value_def)
  have "(of_char (CHR ''+'') :: nat) = 43" by simp
  with code show "digit_char d \<noteq> CHR ''+''" by force
qed

lemma u64_to_string_nonempty [simp]: "u64_to_string n \<noteq> []"
  by (subst u64_to_string.simps) simp

lemma u64_to_string_digits: "list_all is_digit_char (u64_to_string n)"
proof (induction n rule: u64_to_string.induct)
  case (1 n)
  then show ?case by (subst u64_to_string.simps) simp
qed

lemma digits_value_to_string [simp]: "digits_value (u64_to_string n) = n"
proof (induction n rule: u64_to_string.induct)
  case (1 n)
  show ?case
  proof (cases "n < 10")
    case True
    then show ?thesis by (subst u64_to_string.simps) (simp add: digits_value_def)
  next
    case False
    with 1 have "digits_value (u64_to_string (n div 10)) = n div 10" by simp
    with False show ?thesis
      by (subst u64_to_string.simps) (simp add: digits_value_def)
  qed
qed

lemma u64_to_string_hd: "u64_to_string n = c # r \<Longrightarrow> c \<noteq> CHR ''+''"
proof -
  assume "u64_to_string n = c # r"
  then have "is_digit_char c" using u64_to_string_digits[of n] by simp
  then show ?thesis by (auto simp: is_digit_char_def)
qed

text \<open>Printing and parsing back.\<close>

lemma parse_u64_to_string: "n \<le> u64_max \<Longrightarrow> parse_u64 (u64_to_string n) = Some n"
  using u64_to_string_digits[of n]
  by (auto simp: parse_u64_def Let_def dest: u64_to_string_hd split: list.splits)
    (metis digits_value_to_string u64_to_string_hd)+

lemma u64_to_string_inj: "u64_to_string m = u64_to_string n \<Longrightarrow> m = n"
  by (metis digits_value_to_string)

section \<open>Sorting by a key\<close>

text \<open>
  \<open>sort_by_key\<close> is a stable sort; \<open>sort_key\<close> of the library is one too, and the equations
  below evaluate it by insertion.
\<close>

lemma sort_key_mset [simp]: "mset (sort_key f xs) = mset xs"
  by simp

lemma sort_key_nth_order:
  assumes "i < j" and "j < length xs"
  shows "f (sort_key f xs ! i) \<le> f (sort_key f xs ! j)"
  using assms sorted_nth_mono[OF sorted_sort_key[of f xs], of i j] by simp

lemma distinct_map_filter_set: "distinct (map f xs) \<Longrightarrow> distinct (map f (filter P xs))"
  by (induction xs) auto

end
