(* ===== verification/Payload.thy ===== *)
theory Payload
  imports Prelude
begin

text \<open>
  The closed payload algebra of the Cluster Protocol
  (\<^verbatim>\<open>crates/openengine-cluster-protocol/src/payload.rs\<close> and \<^verbatim>\<open>payload_value.rs\<close>): checked
  identifiers, paths and counters, payload types with their subtype relation, JSON values
  (\<^verbatim>\<open>serde_json::Value\<close>), value validation and the materialisation of missing fields.

  JSON objects and record types are ordered maps. A JSON number keeps the three variants of
  \<^verbatim>\<open>serde_json::Number\<close>; a finite \<^verbatim>\<open>f64\<close> is its mantissa and binary exponent. Strings are
  byte lists, as \<open>len\<close> counts them.

  Declarative counterparts: \<open>conforms\<close> (closed records, what \<open>validate_value\<close> decides) and
  \<open>conforms_open\<close> (records that may carry undeclared fields, what a consumer that reads only
  the declared fields needs).
\<close>

section \<open>Checked scalars\<close>

definition MAX_SAFE_GENERATION :: u64 where
  "MAX_SAFE_GENERATION = 9007199254740991"

definition MAX_IDENTIFIER_LENGTH :: nat where "MAX_IDENTIFIER_LENGTH = 128"
definition MAX_PATH_SEGMENTS :: nat where "MAX_PATH_SEGMENTS = 64"
definition MAX_COLLECTION_ITEMS :: nat where "MAX_COLLECTION_ITEMS = 4096"

datatype contract_value_error =
    CEmpty string
  | CTooLong string nat
  | CInvalidCharacters string string
  | CDuplicate string
  | CNotPositive

definition is_ascii_alphabetic :: "char \<Rightarrow> bool" where
  "is_ascii_alphabetic c \<longleftrightarrow>
     (let n = (of_char c :: nat) in (65 \<le> n \<and> n \<le> 90) \<or> (97 \<le> n \<and> n \<le> 122))"

definition is_ascii_alphanumeric :: "char \<Rightarrow> bool" where
  "is_ascii_alphanumeric c \<longleftrightarrow> is_ascii_alphabetic c \<or> is_digit_char c"

definition validate_identifier :: "string \<Rightarrow> string \<Rightarrow> contract_value_error + unit" where
  "validate_identifier value kind =
     (if length value > MAX_IDENTIFIER_LENGTH then Inl (CTooLong kind MAX_IDENTIFIER_LENGTH)
      else case value of
        [] \<Rightarrow> Inl (CEmpty kind)
      | first # characters \<Rightarrow>
          if \<not> (is_ascii_alphabetic first \<or> first = CHR ''_'')
             \<or> \<not> list_all (\<lambda>c. is_ascii_alphanumeric c \<or> c \<in> {CHR ''_'', CHR ''-'', CHR ''.''})
                   characters
          then Inl (CInvalidCharacters kind value)
          else Inr ())"

type_synonym node_name = string
type_synonym field_name = string
type_synonym enum_label = string
type_synonym field_path = "field_name list"
type_synonym positive_integer = u64

definition NodeName_new :: "string \<Rightarrow> contract_value_error + node_name" where
  "NodeName_new value = bind_res (validate_identifier value ''node name'') (\<lambda>_. Inr value)"

definition FieldName_new :: "string \<Rightarrow> contract_value_error + field_name" where
  "FieldName_new value = bind_res (validate_identifier value ''field name'') (\<lambda>_. Inr value)"

definition EnumLabel_new :: "string \<Rightarrow> contract_value_error + enum_label" where
  "EnumLabel_new value = bind_res (validate_identifier value ''enum label'') (\<lambda>_. Inr value)"

definition FieldPath_new :: "field_name list \<Rightarrow> contract_value_error + field_path" where
  "FieldPath_new segments =
     (if segments = [] then Inl (CEmpty ''field path'')
      else if length segments > MAX_PATH_SEGMENTS
      then Inl (CTooLong ''field path'' MAX_PATH_SEGMENTS)
      else Inr segments)"

definition PositiveInteger_new :: "u64 \<Rightarrow> contract_value_error + positive_integer" where
  "PositiveInteger_new value =
     (if value = 0 \<or> value > MAX_SAFE_GENERATION then Inl CNotPositive else Inr value)"

definition NonEmptyVec_new :: "'a list \<Rightarrow> contract_value_error + 'a list" where
  "NonEmptyVec_new values =
     (if values = [] then Inl (CEmpty ''non-empty collection'')
      else if length values > MAX_COLLECTION_ITEMS
      then Inl (CTooLong ''collection'' MAX_COLLECTION_ITEMS)
      else Inr values)"

type_synonym enum_set = "enum_label list"

definition NonEmptyEnumSet_new :: "enum_label list \<Rightarrow> contract_value_error + enum_set" where
  "NonEmptyEnumSet_new values =
     (let values = bs_of_list values
      in if values = [] then Inl (CEmpty ''enum set'')
         else if length values > MAX_COLLECTION_ITEMS
         then Inl (CTooLong ''enum set'' MAX_COLLECTION_ITEMS)
         else Inr values)"

definition NonEmptyEnumSet_deserialize ::
    "enum_label list \<Rightarrow> contract_value_error + enum_set" where
  "NonEmptyEnumSet_deserialize values =
     (let distinct_values = bs_of_list values
      in if length distinct_values \<noteq> length values then Inl (CDuplicate ''enum set'')
         else NonEmptyEnumSet_new values)"

definition enum_is_subset :: "enum_set \<Rightarrow> enum_set \<Rightarrow> bool" where
  "enum_is_subset self other = list_all (\<lambda>value. value \<in> set other) self"

lemma PositiveInteger_new_ok:
  "PositiveInteger_new v = Inr n \<longleftrightarrow> n = v \<and> 1 \<le> v \<and> v \<le> MAX_SAFE_GENERATION"
  by (auto simp: PositiveInteger_new_def)

lemma enum_is_subset_iff: "enum_is_subset a b \<longleftrightarrow> set a \<subseteq> set b"
  by (auto simp: enum_is_subset_def list_all_iff)

lemma length_bs_of_list_eq: "length (bs_of_list xs) = length xs \<longleftrightarrow> distinct xs"
proof -
  have "length (bs_of_list xs) = card (set xs)"
    by (simp add: bs_of_list_sorted)
  then show ?thesis by (metis card_distinct distinct_card)
qed

lemma NonEmptyEnumSet_new_ok:
  assumes "NonEmptyEnumSet_new xs = Inr ys"
  shows "bs_wf ys" "set ys = set xs" "ys \<noteq> []" "length ys \<le> MAX_COLLECTION_ITEMS"
  using assms by (auto simp: NonEmptyEnumSet_new_def Let_def split: if_splits)

section \<open>JSON values\<close>

datatype json_number = PosInt u64 | NegInt int | Float int int

datatype json =
    VNull
  | VBool bool
  | VNumber json_number
  | VString string
  | VArray "json list"
  | VObject "(string, json) btree_map"

definition as_object :: "json \<Rightarrow> (string, json) btree_map option" where
  "as_object v = (case v of VObject m \<Rightarrow> Some m | _ \<Rightarrow> None)"

definition as_array :: "json \<Rightarrow> json list option" where
  "as_array v = (case v of VArray xs \<Rightarrow> Some xs | _ \<Rightarrow> None)"

definition as_str :: "json \<Rightarrow> string option" where
  "as_str v = (case v of VString s \<Rightarrow> Some s | _ \<Rightarrow> None)"

lemma as_object_Some [simp]: "as_object v = Some m \<longleftrightarrow> v = VObject m"
  by (cases v) (auto simp: as_object_def)

lemma as_object_VObject [simp]: "as_object (VObject m) = Some m"
  by simp

lemma as_array_Some [simp]: "as_array v = Some xs \<longleftrightarrow> v = VArray xs"
  by (cases v) (auto simp: as_array_def)

lemma as_array_VArray [simp]: "as_array (VArray xs) = Some xs"
  by simp

lemma as_str_Some [simp]: "as_str v = Some s \<longleftrightarrow> v = VString s"
  by (cases v) (auto simp: as_str_def)

text \<open>\<open>m * 2 ^ e\<close> has no fractional part.\<close>

definition float_integral :: "int \<Rightarrow> int \<Rightarrow> bool" where
  "float_integral m e \<longleftrightarrow> 0 \<le> e \<or> m mod (2 ^ nat (- e)) = 0"

text \<open>
  \<open>is_i64\<close>, \<open>is_u64\<close> or a finite float without fraction: the integer variants of
  \<^verbatim>\<open>Number\<close> always hold an \<open>i64\<close> or a \<open>u64\<close>, and its float variant is always finite.
\<close>

definition is_json_integer :: "json \<Rightarrow> bool" where
  "is_json_integer v =
     (case v of
        VNumber (PosInt n) \<Rightarrow> True
      | VNumber (NegInt i) \<Rightarrow> True
      | VNumber (Float m e) \<Rightarrow> float_integral m e
      | _ \<Rightarrow> False)"

definition is_json_number :: "json \<Rightarrow> bool" where
  "is_json_number v = (case v of VNumber n \<Rightarrow> True | _ \<Rightarrow> False)"

section \<open>Payload types and the subtype relation\<close>

datatype payload_type =
    PNull
  | PBoolean
  | PInteger
  | PNumber
  | PString
  | PRecord "(field_name \<times> record_field) list"
  | PArray payload_type
  | PEnum enum_set
and record_field = RecordField (value_type: payload_type) (required: bool)

lemma size_value_type: "size (value_type f) < size f"
  by (cases f) simp

lemma size_record_member:
  assumes "(n, f) \<in> set fs"
  shows "size (value_type f) < size (PRecord fs)"
proof -
  have "size f \<le> size_list (size_prod (\<lambda>_. 0) size) fs"
    using assms by (induction fs) auto
  then show ?thesis using size_value_type[of f] by simp
qed

function is_subtype_of :: "payload_type \<Rightarrow> payload_type \<Rightarrow> bool" where
  "is_subtype_of self target =
     (case (self, target) of
        (PNull, PNull) \<Rightarrow> True
      | (PBoolean, PBoolean) \<Rightarrow> True
      | (PInteger, PInteger) \<Rightarrow> True
      | (PInteger, PNumber) \<Rightarrow> True
      | (PNumber, PNumber) \<Rightarrow> True
      | (PString, PString) \<Rightarrow> True
      | (PArray source, PArray tgt) \<Rightarrow> is_subtype_of source tgt
      | (PEnum source, PEnum tgt) \<Rightarrow> enum_is_subset source tgt
      | (PRecord source, PRecord tgt) \<Rightarrow>
          list_all (\<lambda>(name, target_field).
            case bm_get source name of
              Some source_field \<Rightarrow>
                (\<not> required target_field \<or> required source_field)
                \<and> is_subtype_of (value_type source_field) (value_type target_field)
            | None \<Rightarrow> \<not> required target_field) tgt
      | _ \<Rightarrow> False)"
  by pat_completeness auto
termination
  by (relation "measure (\<lambda>(s, t). size t)") (auto dest: size_record_member)

declare is_subtype_of.simps [simp del]

lemma subtype_simps [simp]:
  "is_subtype_of PNull t \<longleftrightarrow> t = PNull"
  "is_subtype_of PBoolean t \<longleftrightarrow> t = PBoolean"
  "is_subtype_of PInteger t \<longleftrightarrow> t = PInteger \<or> t = PNumber"
  "is_subtype_of PNumber t \<longleftrightarrow> t = PNumber"
  "is_subtype_of PString t \<longleftrightarrow> t = PString"
  "is_subtype_of (PArray a) t \<longleftrightarrow> (\<exists>b. t = PArray b \<and> is_subtype_of a b)"
  "is_subtype_of (PEnum xs) t \<longleftrightarrow> (\<exists>ys. t = PEnum ys \<and> set xs \<subseteq> set ys)"
  by (subst is_subtype_of.simps, (cases t; simp add: enum_is_subset_iff))+

definition field_subtype :: "(field_name \<times> record_field) list \<Rightarrow> field_name \<Rightarrow> record_field \<Rightarrow> bool" where
  "field_subtype source name tf =
     (case bm_get source name of
        Some sf \<Rightarrow> (required tf \<longrightarrow> required sf) \<and> is_subtype_of (value_type sf) (value_type tf)
      | None \<Rightarrow> \<not> required tf)"

lemma subtype_record:
  "is_subtype_of (PRecord source) t \<longleftrightarrow>
     (\<exists>tgt. t = PRecord tgt
       \<and> (\<forall>name tf. (name, tf) \<in> set tgt \<longrightarrow> field_subtype source name tf))"
  by (subst is_subtype_of.simps, cases t)
    (fastforce simp: list_all_iff field_subtype_def split: option.splits)+

text \<open>Well-formed types: record fields form an ordered map, at every depth.\<close>

fun payload_wf :: "payload_type \<Rightarrow> bool" and field_wf :: "record_field \<Rightarrow> bool" where
  "payload_wf (PRecord fs) \<longleftrightarrow> bm_wf fs \<and> list_all (\<lambda>(n, f). field_wf f) fs"
| "payload_wf (PArray t) = payload_wf t"
| "payload_wf _ = True"
| "field_wf (RecordField t r) = payload_wf t"

lemma field_wf_iff [simp]: "field_wf f \<longleftrightarrow> payload_wf (value_type f)"
  by (cases f) simp

lemma payload_wf_member: "payload_wf (PRecord fs) \<Longrightarrow> (n, f) \<in> set fs \<Longrightarrow> payload_wf (value_type f)"
  by (auto simp: list_all_iff)

text \<open>Induction over payload types through the fields of a record.\<close>

lemma payload_induct [case_names PNull PBoolean PInteger PNumber PString PRecord PArray PEnum]:
  assumes "P PNull" "P PBoolean" "P PInteger" "P PNumber" "P PString"
    and "\<And>fs. (\<And>n f. (n, f) \<in> set fs \<Longrightarrow> P (value_type f)) \<Longrightarrow> P (PRecord fs)"
    and "\<And>t. P t \<Longrightarrow> P (PArray t)"
    and "\<And>vs. P (PEnum vs)"
  shows "P t"
proof (induction t rule: measure_induct_rule[of size])
  case (less t)
  show ?case
  proof (cases t)
    case (PRecord fs)
    then show ?thesis using assms(6) less size_record_member by metis
  next
    case (PArray a)
    then show ?thesis using assms(7) less by auto
  qed (use assms in auto)
qed

lemma subtype_refl:
  assumes "payload_wf t"
  shows "is_subtype_of t t"
  using assms
proof (induction t rule: payload_induct)
  case (PRecord fs)
  have "field_subtype fs n f" if "(n, f) \<in> set fs" for n f
  proof -
    have "bm_get fs n = Some f" using PRecord.prems that by (simp add: bm_get_iff)
    moreover have "is_subtype_of (value_type f) (value_type f)"
      using PRecord.IH[OF that] payload_wf_member[OF PRecord.prems that] by simp
    ultimately show ?thesis by (simp add: field_subtype_def)
  qed
  then show ?case by (auto simp: subtype_record)
qed auto

section \<open>Value validation\<close>

datatype payload_value_error =
    TypeMismatch string string
  | MissingRequiredField string string
  | UnknownField string string
  | UnknownEnumLabel string string

definition expect_type :: "bool \<Rightarrow> string \<Rightarrow> string \<Rightarrow> payload_value_error + unit" where
  "expect_type ok path expected = (if ok then Inr () else Inl (TypeMismatch path expected))"

definition validate_enum :: "enum_set \<Rightarrow> json \<Rightarrow> string \<Rightarrow> payload_value_error + unit" where
  "validate_enum values value path =
     bind_res (ok_or (TypeMismatch path ''enum'') (as_str value)) (\<lambda>label.
       if list_ex (\<lambda>v. v = label) values then Inr ()
       else Inl (UnknownEnumLabel path label))"

definition validate_array ::
    "(json \<Rightarrow> string \<Rightarrow> payload_value_error + unit) \<Rightarrow> json \<Rightarrow> string \<Rightarrow> payload_value_error + unit" where
  "validate_array validate_item value path =
     bind_res (ok_or (TypeMismatch path ''array'') (as_array value)) (\<lambda>values.
       try_all (\<lambda>(index, item). validate_item item (path @ ''['' @ u64_to_string index @ '']''))
         (enumerate 0 values))"

definition validate_record_field ::
    "(record_field \<Rightarrow> json \<Rightarrow> string \<Rightarrow> payload_value_error + unit) \<Rightarrow> field_name \<Rightarrow> record_field
     \<Rightarrow> json option \<Rightarrow> string \<Rightarrow> payload_value_error + unit" where
  "validate_record_field validate_field name field value path =
     (case value of
        Some v \<Rightarrow> validate_field field v (path @ ''.'' @ name)
      | None \<Rightarrow> if required field then Inl (MissingRequiredField path name) else Inr ())"

definition validate_record ::
    "(record_field \<Rightarrow> json \<Rightarrow> string \<Rightarrow> payload_value_error + unit)
     \<Rightarrow> (field_name \<times> record_field) list \<Rightarrow> json \<Rightarrow> string \<Rightarrow> payload_value_error + unit" where
  "validate_record validate_field fields value path =
     bind_res (ok_or (TypeMismatch path ''record'') (as_object value)) (\<lambda>object.
       bind_res
         (try_all (\<lambda>(name, field).
            validate_record_field validate_field name field (bm_get object name) path) fields)
         (\<lambda>_. case find (\<lambda>name. name \<notin> set (bm_keys fields)) (bm_keys object) of
              Some name \<Rightarrow> Inl (UnknownField path name)
            | None \<Rightarrow> Inr ()))"

lemma validate_record_cong [fundef_cong]:
  assumes "fields = fields'" "value = value'" "path = path'"
    and "\<And>n f v p. (n, f) \<in> set fields' \<Longrightarrow> vf f v p = vf' f v p"
  shows "validate_record vf fields value path = validate_record vf' fields' value' path'"
proof -
  have "try_all (\<lambda>(n, f). validate_record_field vf n f (bm_get m n) path') fields'
      = try_all (\<lambda>(n, f). validate_record_field vf' n f (bm_get m n) path') fields'" for m
    by (rule try_all_cong) (auto simp: validate_record_field_def assms(4) split: option.splits)
  with assms(1-3) show ?thesis by (simp add: validate_record_def)
qed

function validate_value_at :: "payload_type \<Rightarrow> json \<Rightarrow> string \<Rightarrow> payload_value_error + unit" where
  "validate_value_at self value path =
     (case self of
        PNull \<Rightarrow> expect_type (value = VNull) path ''null''
      | PBoolean \<Rightarrow> expect_type (case value of VBool b \<Rightarrow> True | _ \<Rightarrow> False) path ''boolean''
      | PInteger \<Rightarrow> expect_type (is_json_integer value) path ''integer''
      | PNumber \<Rightarrow> expect_type (is_json_number value) path ''number''
      | PString \<Rightarrow> expect_type (as_str value \<noteq> None) path ''string''
      | PEnum values \<Rightarrow> validate_enum values value path
      | PArray items \<Rightarrow> validate_array (validate_value_at items) value path
      | PRecord fields \<Rightarrow>
          validate_record (\<lambda>field. validate_value_at (value_type field)) fields value path)"
  by pat_completeness auto
termination
  by (relation "measure (\<lambda>(t, v, p). size t)") (auto dest: size_record_member)

declare validate_value_at.simps [simp del]

definition validate_value :: "payload_type \<Rightarrow> json \<Rightarrow> payload_value_error + unit" where
  "validate_value self value = validate_value_at self value ''$''"

text \<open>What a valid value is, declaratively: closed records.\<close>

inductive conforms :: "payload_type \<Rightarrow> json \<Rightarrow> bool" where
  conf_null: "conforms PNull VNull"
| conf_bool: "conforms PBoolean (VBool b)"
| conf_integer: "is_json_integer v \<Longrightarrow> conforms PInteger v"
| conf_number: "conforms PNumber (VNumber n)"
| conf_string: "conforms PString (VString s)"
| conf_enum: "s \<in> set values \<Longrightarrow> conforms (PEnum values) (VString s)"
| conf_array: "(\<And>x. x \<in> set xs \<Longrightarrow> conforms t x) \<Longrightarrow> conforms (PArray t) (VArray xs)"
| conf_record:
    "(\<And>n f v. (n, f) \<in> set fields \<Longrightarrow> bm_get object n = Some v \<Longrightarrow> conforms (value_type f) v) \<Longrightarrow>
     (\<And>n f. (n, f) \<in> set fields \<Longrightarrow> required f \<Longrightarrow> bm_get object n \<noteq> None) \<Longrightarrow>
     fst ` set object \<subseteq> fst ` set fields \<Longrightarrow>
     conforms (PRecord fields) (VObject object)"

inductive_simps conforms_simps [simp]:
  "conforms PNull v"
  "conforms PBoolean v"
  "conforms PInteger v"
  "conforms PNumber v"
  "conforms PString v"
  "conforms (PEnum values) v"
  "conforms (PArray t) v"
  "conforms (PRecord fields) v"

lemma is_json_number_iff [simp]: "is_json_number v \<longleftrightarrow> (\<exists>n. v = VNumber n)"
  by (cases v) (auto simp: is_json_number_def)

lemma find_None_subset: "find (\<lambda>x. x \<notin> S) xs = None \<longleftrightarrow> set xs \<subseteq> S"
  by (induction xs) auto

lemma validate_record_object:
  "validate_record vf fields (VObject object) path = Inr u \<longleftrightarrow>
     (\<forall>n f. (n, f) \<in> set fields \<longrightarrow>
        validate_record_field vf n f (bm_get object n) path = Inr ())
     \<and> fst ` set object \<subseteq> fst ` set fields"
proof -
  have "validate_record vf fields (VObject object) path = Inr u \<longleftrightarrow>
      try_all (\<lambda>(n, f). validate_record_field vf n f (bm_get object n) path) fields = Inr ()
      \<and> find (\<lambda>n. n \<notin> set (bm_keys fields)) (bm_keys object) = None"
    by (simp add: validate_record_def bind_res_eq_Inr split: option.splits)
  then show ?thesis
    by (auto simp: try_all_ok find_None_subset bm_keys_def)
qed

lemma validate_record_other:
  "as_object v = None \<Longrightarrow> validate_record vf fields v path = Inl (TypeMismatch path ''record'')"
  by (simp add: validate_record_def)

lemma validate_record_field_ok:
  assumes "\<And>v p u. vf f v p = Inr u \<longleftrightarrow> Q v"
  shows "validate_record_field vf n f x path = Inr () \<longleftrightarrow>
    (\<forall>v. x = Some v \<longrightarrow> Q v) \<and> (required f \<longrightarrow> x \<noteq> None)"
  using assms by (cases x) (auto simp: validate_record_field_def)

lemma validate_value_at_iff:
  "validate_value_at t v path = Inr u \<longleftrightarrow> conforms t v"
proof (induction t arbitrary: v path u rule: payload_induct)
  case (PRecord fs)
  note step = validate_value_at.simps[of "PRecord fs"]
  show ?case
  proof (cases "as_object v")
    case None
    then have "\<not> conforms (PRecord fs) v" by auto
    with None show ?thesis by (simp add: step validate_record_other)
  next
    case (Some object)
    have "validate_record_field (\<lambda>f. validate_value_at (value_type f)) n f x path = Inr () \<longleftrightarrow>
        (\<forall>w. x = Some w \<longrightarrow> conforms (value_type f) w) \<and> (required f \<longrightarrow> x \<noteq> None)"
      if "(n, f) \<in> set fs" for n f x
      using PRecord.IH[OF that] by (intro validate_record_field_ok) simp
    with Some show ?thesis
      by (auto simp: step validate_record_object)
  qed
next
  case (PArray t)
  note step = validate_value_at.simps[of "PArray t"]
  show ?case
    by (cases "as_array v")
      (auto simp: step validate_array_def PArray.IH try_all_enumerate[where Q = "conforms t"])
next
  case (PEnum vs)
  show ?case
    by (subst validate_value_at.simps)
      (auto simp: validate_enum_def bind_res_eq_Inr ok_or_eq_Inr list_ex_iff split: if_splits)
qed (subst validate_value_at.simps; auto simp: expect_type_def split: json.splits if_splits)+

text \<open>
  Open records: what a reader of the declared fields needs. Undeclared fields are ignored.
\<close>

inductive conforms_open :: "payload_type \<Rightarrow> json \<Rightarrow> bool" where
  open_null: "conforms_open PNull VNull"
| open_bool: "conforms_open PBoolean (VBool b)"
| open_integer: "is_json_integer v \<Longrightarrow> conforms_open PInteger v"
| open_number: "conforms_open PNumber (VNumber n)"
| open_string: "conforms_open PString (VString s)"
| open_enum: "s \<in> set values \<Longrightarrow> conforms_open (PEnum values) (VString s)"
| open_array: "(\<And>x. x \<in> set xs \<Longrightarrow> conforms_open t x) \<Longrightarrow> conforms_open (PArray t) (VArray xs)"
| open_record:
    "(\<And>n f v. (n, f) \<in> set fields \<Longrightarrow> bm_get object n = Some v \<Longrightarrow> conforms_open (value_type f) v) \<Longrightarrow>
     (\<And>n f. (n, f) \<in> set fields \<Longrightarrow> required f \<Longrightarrow> bm_get object n \<noteq> None) \<Longrightarrow>
     conforms_open (PRecord fields) (VObject object)"

inductive_simps conforms_open_simps [simp]:
  "conforms_open PNull v"
  "conforms_open PBoolean v"
  "conforms_open PInteger v"
  "conforms_open PNumber v"
  "conforms_open PString v"
  "conforms_open (PEnum values) v"
  "conforms_open (PArray t) v"
  "conforms_open (PRecord fields) v"

lemma conforms_imp_open: "conforms t v \<Longrightarrow> conforms_open t v"
  by (induction rule: conforms.induct) auto

lemma is_json_integer_number: "is_json_integer v \<Longrightarrow> \<exists>n. v = VNumber n"
  by (cases v) (auto simp: is_json_integer_def)

text \<open>A closed value of a subtype is an open value of the supertype.\<close>

lemma subtype_conforms_open:
  assumes "conforms s v" and "is_subtype_of s t"
  shows "conforms_open t v"
  using assms
proof (induction arbitrary: t rule: conforms.induct)
  case (conf_record fields object)
  then obtain tgt where t: "t = PRecord tgt"
    and sub: "\<And>n tf. (n, tf) \<in> set tgt \<Longrightarrow> field_subtype fields n tf"
    unfolding subtype_record by blast
  have "conforms_open (value_type tf) v" if "(n, tf) \<in> set tgt" "bm_get object n = Some v" for n tf v
  proof (cases "bm_get fields n")
    case None
    with conf_record.hyps(3) that(2) show ?thesis
      by (force simp: bm_get_None dest!: bm_get_SomeD)
  next
    case (Some sf)
    with sub[OF that(1)] have "is_subtype_of (value_type sf) (value_type tf)"
      by (simp add: field_subtype_def)
    with conf_record.IH[OF bm_get_SomeD[OF Some] that(2)] show ?thesis by simp
  qed
  moreover have "bm_get object n \<noteq> None" if "(n, tf) \<in> set tgt" "required tf" for n tf
    using sub[OF that(1)] that(2) conf_record.hyps(2)
    by (auto simp: field_subtype_def dest: bm_get_SomeD split: option.splits)
  ultimately show ?case by (auto simp: t)
qed (auto dest: is_json_integer_number)

section \<open>Materialisation of missing fields\<close>

function implicit_empty_value :: "payload_type \<Rightarrow> json option" where
  "implicit_empty_value payload =
     (case payload of
        PNull \<Rightarrow> Some VNull
      | PString \<Rightarrow> Some (VString [])
      | PArray items \<Rightarrow> Some (VArray [])
      | PRecord fields \<Rightarrow>
          map_option VObject
            (opt_foldl (\<lambda>object (name, field).
               if required field
               then (case implicit_empty_value (value_type field) of
                       None \<Rightarrow> None
                     | Some v \<Rightarrow> Some (bm_insert name v object))
               else Some object) [] fields)
      | _ \<Rightarrow> None)"
  by pat_completeness auto
termination
  by (relation "measure size") (auto dest: size_record_member)

declare implicit_empty_value.simps [simp del]

lemma implicit_empty_simps [simp]:
  "implicit_empty_value PNull = Some VNull"
  "implicit_empty_value PBoolean = None"
  "implicit_empty_value PInteger = None"
  "implicit_empty_value PNumber = None"
  "implicit_empty_value PString = Some (VString [])"
  "implicit_empty_value (PArray t) = Some (VArray [])"
  "implicit_empty_value (PEnum vs) = None"
  by (subst implicit_empty_value.simps, simp)+

function materialize_missing_fields :: "payload_type \<Rightarrow> json \<Rightarrow> json" where
  "materialize_missing_fields self value =
     (case (self, value) of
        (PRecord fields, VObject object) \<Rightarrow>
          VObject (fold (\<lambda>(name, field) object.
            case bm_get object name of
              Some v \<Rightarrow> bm_insert name (materialize_missing_fields (value_type field) v) object
            | None \<Rightarrow>
                if required field
                then (case implicit_empty_value (value_type field) of
                        Some v \<Rightarrow> bm_insert name v object
                      | None \<Rightarrow> object)
                else object) fields object)
      | _ \<Rightarrow> value)"
  by pat_completeness auto
termination
  by (relation "measure (\<lambda>(t, v). size t)") (auto dest: size_record_member)

declare materialize_missing_fields.simps [simp del]

text \<open>The type a source has once the empties that the target owns are added.\<close>

definition materialize_record_field ::
    "(payload_type \<Rightarrow> payload_type \<Rightarrow> payload_type option)
     \<Rightarrow> (field_name \<times> record_field) list \<Rightarrow> field_name \<Rightarrow> record_field
     \<Rightarrow> (field_name \<times> record_field) list option" where
  "materialize_record_field msource materialized name target =
     (case bm_get materialized name of
        None \<Rightarrow>
          if required target
          then (case implicit_empty_value (value_type target) of
                  None \<Rightarrow> None
                | Some _ \<Rightarrow> Some (bm_insert name target materialized))
          else Some materialized
      | Some source \<Rightarrow>
          (case msource (value_type source) (value_type target) of
             None \<Rightarrow> None
           | Some materialized_type \<Rightarrow>
               if required target \<and> \<not> required source
               then (case implicit_empty_value (value_type target) of
                       None \<Rightarrow> None
                     | Some _ \<Rightarrow>
                         Some (bm_insert name (RecordField (value_type target) True) materialized))
               else Some (bm_insert name
                           (RecordField materialized_type (required source)) materialized)))"

definition materialized_record_fields ::
    "(payload_type \<Rightarrow> payload_type \<Rightarrow> payload_type option)
     \<Rightarrow> (field_name \<times> record_field) list \<Rightarrow> (field_name \<times> record_field) list
     \<Rightarrow> (field_name \<times> record_field) list option" where
  "materialized_record_fields msource source target =
     opt_foldl (\<lambda>materialized (name, target_field).
       materialize_record_field msource materialized name target_field) source target"

lemma materialized_record_fields_cong [fundef_cong]:
  assumes "source = source'" "target = target'"
    and "\<And>n f s. (n, f) \<in> set target' \<Longrightarrow> ms s (value_type f) = ms' s (value_type f)"
  shows "materialized_record_fields ms source target = materialized_record_fields ms' source' target'"
  unfolding materialized_record_fields_def
  by (rule opt_foldl_cong)
    (auto simp: assms materialize_record_field_def split: option.splits)

function materialized_source_type :: "payload_type \<Rightarrow> payload_type \<Rightarrow> payload_type option" where
  "materialized_source_type source target =
     (case (source, target) of
        (PRecord fs, PRecord ft) \<Rightarrow>
          map_option PRecord (materialized_record_fields materialized_source_type fs ft)
      | _ \<Rightarrow> if is_subtype_of source target then Some source else None)"
  by pat_completeness auto
termination
  by (relation "measure (\<lambda>(s, t). size t)") (auto dest: size_record_member)

declare materialized_source_type.simps [simp del]

definition materialized_subtype_of :: "payload_type \<Rightarrow> payload_type \<Rightarrow> payload_type option" where
  "materialized_subtype_of self target =
     (case materialized_source_type self target of
        Some source \<Rightarrow> if is_subtype_of source target then Some source else None
      | None \<Rightarrow> None)"


text \<open>What the loops do to one slot, when the field names of the type are distinct.\<close>

definition materialized_slot :: "record_field \<Rightarrow> json option \<Rightarrow> json option" where
  "materialized_slot f x =
     (case x of
        Some v \<Rightarrow> Some (materialize_missing_fields (value_type f) v)
      | None \<Rightarrow> if required f then implicit_empty_value (value_type f) else None)"

lemma materialize_object:
  "materialize_missing_fields (PRecord fs) (VObject m) =
     VObject (fold (\<lambda>(n, f) m. case materialized_slot f (bm_get m n) of
                      Some v \<Rightarrow> bm_insert n v m | None \<Rightarrow> m) fs m)"
  by (subst materialize_missing_fields.simps, simp)
    (rule fold_cong; auto simp: materialized_slot_def split: option.splits)

lemma materialize_other:
  "(\<And>fs. t \<noteq> PRecord fs) \<Longrightarrow> materialize_missing_fields t v = v"
  by (subst materialize_missing_fields.simps) (auto split: payload_type.splits)

lemma fold_slots_lookup:
  assumes "distinct (map fst fs)"
  shows "bm_get (fold (\<lambda>(n, f) m. case slot f (bm_get m n) of
                   Some v \<Rightarrow> bm_insert n v m | None \<Rightarrow> m) fs m) k =
    (case map_of fs k of None \<Rightarrow> bm_get m k
     | Some f \<Rightarrow> (case slot f (bm_get m k) of Some v \<Rightarrow> Some v | None \<Rightarrow> bm_get m k))"
  using assms
proof (induction fs arbitrary: m)
  case (Cons p fs)
  obtain n f where p: "p = (n, f)" by (cases p)
  with Cons.prems have "map_of fs n = None" by (simp add: map_of_eq_None_iff)
  with Cons p show ?case by (auto split: option.splits)
qed simp

lemma materialize_lookup:
  assumes "distinct (map fst fs)" and "(n, f) \<in> set fs"
    and "materialize_missing_fields (PRecord fs) (VObject m) = VObject m'"
  shows "bm_get m' n = materialized_slot f (bm_get m n)"
proof -
  have "map_of fs n = Some f" using assms(1,2) by simp
  with assms(3) have "bm_get m' n =
      (case materialized_slot f (bm_get m n) of Some v \<Rightarrow> Some v | None \<Rightarrow> bm_get m n)"
    by (auto simp: materialize_object fold_slots_lookup[OF assms(1)])
  then show ?thesis by (auto simp: materialized_slot_def split: option.splits)
qed

definition field_materialized ::
    "record_field option \<Rightarrow> record_field \<Rightarrow> record_field option \<Rightarrow> bool" where
  "field_materialized s tf r \<longleftrightarrow>
     (case s of
        None \<Rightarrow>
          if required tf then implicit_empty_value (value_type tf) \<noteq> None \<and> r = Some tf
          else r = None
      | Some sf \<Rightarrow>
          (\<exists>mt. materialized_source_type (value_type sf) (value_type tf) = Some mt
            \<and> (if required tf \<and> \<not> required sf
               then implicit_empty_value (value_type tf) \<noteq> None
                 \<and> r = Some (RecordField (value_type tf) True)
               else r = Some (RecordField mt (required sf)))))"

lemma materialize_record_field_lookup:
  assumes "materialize_record_field materialized_source_type m n tf = Some m'"
  shows "field_materialized (bm_get m n) tf (bm_get m' n)"
    and "k \<noteq> n \<Longrightarrow> bm_get m' k = bm_get m k"
  using assms
  by (auto simp: materialize_record_field_def field_materialized_def split: option.splits if_splits)

lemma materialized_record_fields_lookup:
  assumes "materialized_record_fields materialized_source_type src tgt = Some res"
    and "distinct (map fst tgt)" and "(n, tf) \<in> set tgt"
  shows "field_materialized (bm_get src n) tf (bm_get res n)"
proof -
  have keep: "bm_get res k = bm_get src k"
    if "opt_foldl (\<lambda>m (n, tf). materialize_record_field materialized_source_type m n tf) src tgt
        = Some res" "k \<notin> fst ` set tgt" for k src tgt
    using that
    by (induction tgt arbitrary: src)
      (auto simp: materialize_record_field_lookup(2) split: option.splits)
  from assms show ?thesis unfolding materialized_record_fields_def
  proof (induction tgt arbitrary: src)
    case (Cons p tgt)
    obtain n' f' where p: "p = (n', f')" by (cases p)
    with Cons.prems(1) obtain m where
      m: "materialize_record_field materialized_source_type src n' f' = Some m"
      and rest: "opt_foldl (\<lambda>m (n, tf). materialize_record_field materialized_source_type m n tf)
        m tgt = Some res"
      by (auto split: option.splits)
    show ?case
    proof (cases "n = n'")
      case True
      with Cons.prems(2,3) p have "tf = f'" and "n \<notin> fst ` set tgt"
        by (auto simp: rev_image_eqI)
      with True keep[OF rest] materialize_record_field_lookup(1)[OF m] show ?thesis by simp
    next
      case False
      with Cons.prems p have "(n, tf) \<in> set tgt" "distinct (map fst tgt)" by auto
      from Cons.IH[OF rest this(2,1)] False materialize_record_field_lookup(2)[OF m] show ?thesis
        by simp
    qed
  qed simp
qed

lemma materialized_record_eq:
  "materialized_source_type (PRecord fs) (PRecord ft) =
     map_option PRecord (materialized_record_fields materialized_source_type fs ft)"
  by (subst materialized_source_type.simps) simp

lemma materialized_other:
  assumes "materialized_source_type s t = Some s'" and "\<not> (\<exists>fs ft. s = PRecord fs \<and> t = PRecord ft)"
  shows "s' = s \<and> is_subtype_of s t"
  using assms
  by (subst (asm) materialized_source_type.simps)
    (auto split: payload_type.splits if_splits)

text \<open>The effective source type is a subtype of the target.\<close>

lemma materialized_source_subtype:
  assumes "materialized_source_type s t = Some s'" and "payload_wf t"
  shows "is_subtype_of s' t"
  using assms
proof (induction t arbitrary: s s' rule: payload_induct)
  case (PRecord ft)
  show ?case
  proof (cases "\<exists>fs. s = PRecord fs")
    case True
    then obtain fs where s: "s = PRecord fs" ..
    with PRecord.prems(1) obtain fs' where s': "s' = PRecord fs'"
      and m: "materialized_record_fields materialized_source_type fs ft = Some fs'"
      by (auto simp: materialized_record_eq)
    have "field_subtype fs' n tf" if mem: "(n, tf) \<in> set ft" for n tf
    proof -
      have "field_materialized (bm_get fs n) tf (bm_get fs' n)"
        using materialized_record_fields_lookup[OF m] PRecord.prems(2) mem
        by (simp add: bm_wf_distinct)
      moreover have wf: "payload_wf (value_type tf)"
        by (rule payload_wf_member[OF PRecord.prems(2) mem])
      moreover have "is_subtype_of mt (value_type tf)"
        if "materialized_source_type u (value_type tf) = Some mt" for u mt
        by (rule PRecord.IH[OF mem that wf])
      ultimately show ?thesis
        by (auto simp: field_materialized_def field_subtype_def subtype_refl
            split: option.splits if_splits)
    qed
    then show ?thesis by (simp add: s' subtype_record)
  next
    case False
    with materialized_other[OF PRecord.prems(1)] show ?thesis by auto
  qed
qed (auto dest!: materialized_other)

lemma materialized_subtype_eq:
  "payload_wf t \<Longrightarrow> materialized_subtype_of s t = materialized_source_type s t"
  by (auto simp: materialized_subtype_of_def dest: materialized_source_subtype split: option.splits)

lemma implicit_empty_record:
  assumes "implicit_empty_value (PRecord fs) = Some e" and "distinct (map fst fs)"
  obtains m where "e = VObject m"
    and "\<And>n. bm_get m n = (case map_of fs n of
           Some f \<Rightarrow> if required f then implicit_empty_value (value_type f) else None
         | None \<Rightarrow> None)"
    and "\<And>n f. (n, f) \<in> set fs \<Longrightarrow> required f \<Longrightarrow> implicit_empty_value (value_type f) \<noteq> None"
proof -
  let ?step = "\<lambda>object (name, field). if required field
    then (case implicit_empty_value (value_type field) of
            None \<Rightarrow> None | Some v \<Rightarrow> Some (bm_insert name v object))
    else Some object"
  have gen: "(\<forall>n. bm_get m' n = (case map_of fs n of
           Some f \<Rightarrow> if required f then implicit_empty_value (value_type f) else bm_get m n
         | None \<Rightarrow> bm_get m n))
      \<and> (\<forall>n f. (n, f) \<in> set fs \<longrightarrow> required f \<longrightarrow> implicit_empty_value (value_type f) \<noteq> None)"
    if "opt_foldl ?step m fs = Some m'" "distinct (map fst fs)" for m m' fs
    using that
  proof (induction fs arbitrary: m)
    case (Cons p fs)
    obtain k g where p: "p = (k, g)" by (cases p)
    have none: "map_of fs k = None" using Cons.prems(2) p by (simp add: map_of_eq_None_iff)
    show ?case
    proof (cases "required g")
      case True
      with Cons.prems(1) p obtain v where v: "implicit_empty_value (value_type g) = Some v"
        and rest: "opt_foldl ?step (bm_insert k v m) fs = Some m'"
        by (auto split: option.splits)
      from Cons.IH[OF rest] Cons.prems(2) p none True v show ?thesis
        by (auto split: option.splits)
    next
      case False
      with Cons.prems p have "opt_foldl ?step m fs = Some m'" by simp
      from Cons.IH[OF this] Cons.prems(2) p none False show ?thesis
        by (auto split: option.splits)
    qed
  qed simp
  from assms(1) obtain m where e: "e = VObject m" and m: "opt_foldl ?step [] fs = Some m"
    by (subst (asm) implicit_empty_value.simps) auto
  from gen[OF m assms(2)] have get: "bm_get m n = (case map_of fs n of
         Some f \<Rightarrow> if required f then implicit_empty_value (value_type f) else None
       | None \<Rightarrow> None)" for n
    by (simp split: option.splits)
  from gen[OF m assms(2)] show ?thesis
    by (intro that[OF e get]) blast
qed

lemma implicit_empty_conforms:
  assumes "implicit_empty_value t = Some e" and "payload_wf t"
  shows "conforms t e"
  using assms
proof (induction t arbitrary: e rule: payload_induct)
  case (PRecord fs)
  then have dist: "distinct (map fst fs)" by (simp add: bm_wf_distinct)
  from implicit_empty_record[OF PRecord.prems(1) dist] obtain m where e: "e = VObject m"
    and get: "\<And>n. bm_get m n = (case map_of fs n of
         Some f \<Rightarrow> if required f then implicit_empty_value (value_type f) else None | None \<Rightarrow> None)"
    and req: "\<And>n f. (n, f) \<in> set fs \<Longrightarrow> required f \<Longrightarrow> implicit_empty_value (value_type f) \<noteq> None"
    by blast
  have "conforms (value_type f) v" if "(n, f) \<in> set fs" "bm_get m n = Some v" for n f v
    using PRecord.IH[OF that(1)] payload_wf_member[OF PRecord.prems(2) that(1)] that dist get[of n]
    by (auto split: if_splits)
  moreover have "bm_get m n \<noteq> None" if "(n, f) \<in> set fs" "required f" for n f
    using req[OF that] that dist get[of n] by auto
  moreover have "fst ` set m \<subseteq> fst ` set fs"
  proof
    fix n assume "n \<in> fst ` set m"
    then have "bm_get m n \<noteq> None" by (auto simp: bm_get_None)
    with get[of n] show "n \<in> fst ` set fs"
      by (auto split: option.splits dest!: map_of_SomeD intro: rev_image_eqI)
  qed
  ultimately show ?case by (auto simp: e)
qed auto

lemma materialize_sound_leaf:
  assumes "conforms s v" and "materialized_source_type s t = Some s'" and "\<And>fs. t \<noteq> PRecord fs"
  shows "conforms_open t (materialize_missing_fields t v)"
proof -
  have "is_subtype_of s t" using materialized_other[OF assms(2)] assms(3) by blast
  with assms(1,3) show ?thesis by (simp add: materialize_other subtype_conforms_open)
qed

text \<open>Materialising a valid source value gives a value the target can be read from.\<close>

lemma materialize_sound:
  assumes "conforms s v" and "materialized_source_type s t = Some s'" and "payload_wf t"
  shows "conforms_open t (materialize_missing_fields t v)"
  using assms
proof (induction t arbitrary: s s' v rule: payload_induct)
  case (PRecord ft)
  show ?case
  proof (cases "\<exists>fs. s = PRecord fs")
    case True
    then obtain fs where s: "s = PRecord fs" ..
    with PRecord.prems(1) obtain m where v: "v = VObject m"
      and typed: "\<And>n f w. (n, f) \<in> set fs \<Longrightarrow> bm_get m n = Some w \<Longrightarrow> conforms (value_type f) w"
      and present: "\<And>n f. (n, f) \<in> set fs \<Longrightarrow> required f \<Longrightarrow> bm_get m n \<noteq> None"
      and closed: "fst ` set m \<subseteq> fst ` set fs"
      by auto
    from PRecord.prems(2) s obtain fs' where
      mat: "materialized_record_fields materialized_source_type fs ft = Some fs'"
      by (auto simp: materialized_record_eq)
    have dist: "distinct (map fst ft)" using PRecord.prems(3) by (simp add: bm_wf_distinct)
    obtain m' where m': "materialize_missing_fields (PRecord ft) (VObject m) = VObject m'"
      by (simp add: materialize_object)
    have slot: "(\<forall>w. bm_get m' n = Some w \<longrightarrow> conforms_open (value_type tf) w)
        \<and> (required tf \<longrightarrow> bm_get m' n \<noteq> None)" if mem: "(n, tf) \<in> set ft" for n tf
    proof -
      have get: "bm_get m' n = materialized_slot tf (bm_get m n)"
        by (rule materialize_lookup[OF dist mem m'])
      have fm: "field_materialized (bm_get fs n) tf (bm_get fs' n)"
        by (rule materialized_record_fields_lookup[OF mat dist mem])
      have wf: "payload_wf (value_type tf)"
        by (rule payload_wf_member[OF PRecord.prems(3) mem])
      show ?thesis
      proof (cases "bm_get m n")
        case None
        have "required tf \<longrightarrow> implicit_empty_value (value_type tf) \<noteq> None"
          using fm None present[OF bm_get_SomeD, of n]
          by (cases "bm_get fs n") (auto simp: field_materialized_def split: if_splits)
        with get None implicit_empty_conforms[OF _ wf] show ?thesis
          by (auto simp: materialized_slot_def conforms_imp_open split: if_splits)
      next
        case (Some w)
        then have "n \<in> fst ` set fs" using closed by (force dest!: bm_get_SomeD)
        then obtain sf where sf: "bm_get fs n = Some sf"
          by (cases "bm_get fs n") (simp_all add: bm_get_None)
        with fm obtain mt where "materialized_source_type (value_type sf) (value_type tf) = Some mt"
          by (auto simp: field_materialized_def)
        from PRecord.IH[OF mem typed[OF bm_get_SomeD[OF sf] Some] this wf] get Some show ?thesis
          by (simp add: materialized_slot_def)
      qed
    qed
    then show ?thesis by (auto simp: v m')
  next
    case False
    with materialized_other[OF PRecord.prems(2)] show ?thesis
      using subtype_conforms_open[OF PRecord.prems(1)] by (cases s) auto
  qed
qed (rule materialize_sound_leaf; simp)+

end
