(* ===== verification/Graph.thy ===== *)
theory Graph
  imports Payload
begin

text \<open>
  The graph language of the Cluster Protocol
  (\<^verbatim>\<open>crates/openengine-cluster-protocol/src/graph.rs\<close>): stable references, guards, joins and
  the nine node kinds, with the tree traversal shared by the verifier and the reducer
  (\<^verbatim>\<open>effects_tree.rs\<close>), and the worker outcomes a node execution ends with
  (\<^verbatim>\<open>worker/outcome.rs\<close>).

  The structs of leaf nodes are records. The group nodes contain nodes, so their fields are the
  arguments of the \<open>graph_node\<close> constructors, in the order of the Rust struct.
\<close>

section \<open>Stable references\<close>

datatype stable_ref_error = Malformed_Ref | InvalidName string | InvalidVersion

definition rsplit_once :: "char \<Rightarrow> string \<Rightarrow> (string \<times> string) option" where
  "rsplit_once c s =
     (let r = rev s
      in case dropWhile (\<lambda>x. x \<noteq> c) r of
           [] \<Rightarrow> None
         | _ # name \<Rightarrow> Some (rev name, rev (takeWhile (\<lambda>x. x \<noteq> c) r)))"

definition ref_name_char :: "char \<Rightarrow> bool" where
  "ref_name_char c \<longleftrightarrow> is_ascii_alphanumeric c \<or> c \<in> {CHR ''_'', CHR ''-'', CHR ''.''}"

definition validate_stable_ref :: "string \<Rightarrow> stable_ref_error + unit" where
  "validate_stable_ref value =
     (if length value > 256 then Inl Malformed_Ref
      else bind_res (ok_or Malformed_Ref (rsplit_once (CHR ''@'') value)) (\<lambda>(name, version).
        if name = []
           \<or> \<not> (case name of c # _ \<Rightarrow> is_ascii_alphabetic c \<or> c = CHR ''_'' | [] \<Rightarrow> False)
           \<or> \<not> list_all ref_name_char name
        then Inl (InvalidName name)
        else if version = []
           \<or> (case version of c # _ \<Rightarrow> c = CHR ''0'' | [] \<Rightarrow> False)
           \<or> \<not> list_all is_digit_char version
        then Inl InvalidVersion
        else Inr ()))"

type_synonym worker_ref = string
type_synonym policy_ref = string

definition WorkerRef_new :: "string \<Rightarrow> stable_ref_error + worker_ref" where
  "WorkerRef_new value = bind_res (validate_stable_ref value) (\<lambda>_. Inr value)"

lemma rsplit_once_Some:
  "rsplit_once c s = Some (n, v) \<longleftrightarrow> s = n @ c # v \<and> c \<notin> set v"
proof
  assume h: "rsplit_once c s = Some (n, v)"
  then obtain d m where dw: "dropWhile (\<lambda>x. x \<noteq> c) (rev s) = d # m" and n: "n = rev m"
    and v: "v = rev (takeWhile (\<lambda>x. x \<noteq> c) (rev s))"
    by (auto simp: rsplit_once_def Let_def split: list.splits)
  from dw have "d = c" using hd_dropWhile[of "\<lambda>x. x \<noteq> c" "rev s"] by auto
  have "rev s = takeWhile (\<lambda>x. x \<noteq> c) (rev s) @ c # m"
    using takeWhile_dropWhile_id[of "\<lambda>x. x \<noteq> c" "rev s"] dw \<open>d = c\<close> by simp
  then have "s = rev m @ c # rev (takeWhile (\<lambda>x. x \<noteq> c) (rev s))"
    by (metis append.assoc append_Cons append_Nil rev.simps(2) rev_append rev_rev_ident)
  moreover have "c \<notin> set v" using v by (auto dest: set_takeWhileD)
  ultimately show "s = n @ c # v \<and> c \<notin> set v" using n v by simp
next
  assume h: "s = n @ c # v \<and> c \<notin> set v"
  then have all: "\<forall>x \<in> set (rev v). x \<noteq> c" by auto
  have r: "rev s = rev v @ c # rev n" using h by simp
  have "dropWhile (\<lambda>x. x \<noteq> c) (rev s) = c # rev n"
    unfolding r using all by (subst dropWhile_append2) auto
  moreover have "takeWhile (\<lambda>x. x \<noteq> c) (rev s) = rev v"
    unfolding r using all by (subst takeWhile_append2) auto
  ultimately show "rsplit_once c s = Some (n, v)"
    by (simp add: rsplit_once_def)
qed

lemma digit_not_at: "is_digit_char c \<Longrightarrow> c \<noteq> CHR ''@''"
  by (auto simp: is_digit_char_def)

section \<open>Selectors, bindings, guards and joins\<close>

datatype data_selector = SelState field_path | SelItem field_path

record input_binding =
  ib_target :: field_path
  ib_value :: data_selector

datatype node_output_channel = ChannelOut | ChannelSignal | ChannelDiagnostic

record node_output_selector =
  nos_node :: node_name
  nos_channel :: node_output_channel
  nos_path :: field_path

record write_binding =
  wb_value :: node_output_selector
  wb_target :: field_path

datatype worker_error_code = Timeout | Crash | Malformed | Refusal

fun worker_error_code_str :: "worker_error_code \<Rightarrow> string" where
  "worker_error_code_str Timeout = ''timeout''"
| "worker_error_code_str Crash = ''crash''"
| "worker_error_code_str Malformed = ''malformed''"
| "worker_error_code_str Refusal = ''refusal''"

datatype control_source = SourceSignal | SourceError | SourceGroup

fun control_source_rank :: "control_source \<Rightarrow> nat" where
  "control_source_rank SourceSignal = 0"
| "control_source_rank SourceError = 1"
| "control_source_rank SourceGroup = 2"

lemma control_source_rank_inj: "control_source_rank a = control_source_rank b \<longleftrightarrow> a = b"
  by (cases a; cases b) auto

instantiation control_source :: linorder
begin

definition less_eq_control_source :: "control_source \<Rightarrow> control_source \<Rightarrow> bool" where
  "a \<le> b \<longleftrightarrow> control_source_rank a \<le> control_source_rank b"

definition less_control_source :: "control_source \<Rightarrow> control_source \<Rightarrow> bool" where
  "a < b \<longleftrightarrow> control_source_rank a < control_source_rank b"

instance
  by standard (auto simp: less_eq_control_source_def less_control_source_def
      simp flip: control_source_rank_inj)

end

record control_selector =
  cs_name :: node_name
  cs_source :: control_source
  cs_field :: "field_name option"

datatype guard =
    GIn control_selector enum_set
  | GAll "guard list"
  | GAny "guard list"
  | GNot guard
  | GKOfN positive_integer "control_selector list" enum_set
  | GKOfMap positive_integer control_selector enum_set

datatype join = JAll | JAny | JQuorum positive_integer | JFirst guard

section \<open>Nodes\<close>

record step_node =
  st_name :: node_name
  st_worker :: worker_ref
  st_instructions :: "string option"
  st_input :: payload_type
  st_output :: payload_type
  st_input_bindings :: "input_binding list"
  st_write_bindings :: "write_binding list"
  st_timeout_ms :: "positive_integer option"
  st_attempts :: positive_integer

record verifier_node =
  vn_name :: node_name
  vn_worker :: worker_ref
  vn_input :: payload_type
  vn_output :: payload_type
  vn_input_bindings :: "input_binding list"
  vn_write_bindings :: "write_binding list"
  vn_timeout_ms :: "positive_integer option"
  vn_attempts :: positive_integer
  vn_signals :: "(field_name, enum_set) btree_map"
  vn_diagnostic :: payload_type
  vn_instructions :: "string option"

record succeed_node =
  su_name :: node_name
  su_output :: payload_type
  su_bindings :: "input_binding list"

record fail_node =
  fa_name :: node_name
  fa_reason :: enum_label

datatype graph_node =
    StepNode step_node
  | VerifierNode verifier_node
  | SeqNode node_name payload_type "graph_node list" "field_path list"
  | ChoiceNode node_name payload_type "(guard \<times> graph_node) list" "graph_node option" "field_path list"
  | ParNode node_name payload_type "graph_node list" "field_path list" join
  | LoopNode node_name payload_type graph_node "guard option" positive_integer "field_path option"
      "field_path list"
  | MapNode node_name payload_type graph_node data_selector positive_integer "field_path list"
  | SucceedNode succeed_node
  | FailNode fail_node

fun node_name :: "graph_node \<Rightarrow> node_name" where
  "node_name (StepNode n) = st_name n"
| "node_name (VerifierNode n) = vn_name n"
| "node_name (SeqNode n _ _ _) = n"
| "node_name (ChoiceNode n _ _ _ _) = n"
| "node_name (ParNode n _ _ _ _) = n"
| "node_name (LoopNode n _ _ _ _ _ _) = n"
| "node_name (MapNode n _ _ _ _ _) = n"
| "node_name (SucceedNode n) = su_name n"
| "node_name (FailNode n) = fa_name n"

fun node_state :: "graph_node \<Rightarrow> payload_type option" where
  "node_state (SeqNode _ s _ _) = Some s"
| "node_state (ChoiceNode _ s _ _ _) = Some s"
| "node_state (ParNode _ s _ _ _) = Some s"
| "node_state (LoopNode _ s _ _ _ _ _) = Some s"
| "node_state (MapNode _ s _ _ _ _) = Some s"
| "node_state _ = None"

fun child_nodes :: "graph_node \<Rightarrow> graph_node list" where
  "child_nodes (SeqNode _ _ children _) = children"
| "child_nodes (ChoiceNode _ _ branches otherwise _) =
     map snd branches @ (case otherwise of None \<Rightarrow> [] | Some n \<Rightarrow> [n])"
| "child_nodes (ParNode _ _ branches _ _) = branches"
| "child_nodes (LoopNode _ _ body _ _ _ _) = [body]"
| "child_nodes (MapNode _ _ body _ _ _) = [body]"
| "child_nodes _ = []"

definition is_map_node :: "graph_node \<Rightarrow> bool" where
  "is_map_node n = (case n of MapNode _ _ _ _ _ _ \<Rightarrow> True | _ \<Rightarrow> False)"

definition is_executable :: "graph_node \<Rightarrow> bool" where
  "is_executable n = (case n of StepNode _ \<Rightarrow> True | VerifierNode _ \<Rightarrow> True | _ \<Rightarrow> False)"

lemma size_member_list: "x \<in> set xs \<Longrightarrow> size x \<le> size_list size xs"
  by (induction xs) auto

lemma size_member_branches:
  "(g, n) \<in> set bs \<Longrightarrow> size n \<le> size_list (size_prod (\<lambda>_. 0) size) bs"
  by (induction bs) auto

lemma child_nodes_size: "c \<in> set (child_nodes n) \<Longrightarrow> size c < size n"
  by (cases n)
    (auto dest!: size_member_list size_member_branches split: option.splits intro: le_imp_less_Suc)

text \<open>Induction over the graph through the children of a node.\<close>

lemma graph_induct [case_names node]:
  assumes "\<And>n. (\<And>c. c \<in> set (child_nodes n) \<Longrightarrow> P c) \<Longrightarrow> P n"
  shows "P n"
  by (induction n rule: measure_induct_rule[of size]) (blast intro: assms child_nodes_size)

text \<open>The nodes of a subtree, in authored order.\<close>

function all_nodes :: "graph_node \<Rightarrow> graph_node list" where
  "all_nodes n = n # concat (map all_nodes (child_nodes n))"
  by pat_completeness auto
termination
  by (relation "measure size") (auto dest: child_nodes_size)

declare all_nodes.simps [simp del]

lemma all_nodes_self: "n \<in> set (all_nodes n)"
  by (subst all_nodes.simps) simp

lemma all_nodes_child: "c \<in> set (child_nodes n) \<Longrightarrow> set (all_nodes c) \<subseteq> set (all_nodes n)"
  by (subst (2) all_nodes.simps) auto

lemma all_nodes_closed:
  "n \<in> set (all_nodes root) \<Longrightarrow> c \<in> set (child_nodes n) \<Longrightarrow> c \<in> set (all_nodes root)"
proof (induction root rule: graph_induct)
  case (node root)
  show ?case
  proof (cases "n = root")
    case True
    then show ?thesis using node.prems(2) all_nodes_child all_nodes_self by blast
  next
    case False
    with node.prems(1) obtain k where "k \<in> set (child_nodes root)" "n \<in> set (all_nodes k)"
      by (subst (asm) all_nodes.simps) auto
    then show ?thesis using node.IH node.prems(2) all_nodes_child by blast
  qed
qed

text \<open>All names of a subtree (\<open>collect_names\<close>).\<close>

function collect_names :: "graph_node \<Rightarrow> node_name btree_set \<Rightarrow> node_name btree_set" where
  "collect_names node names = fold collect_names (child_nodes node) (bs_insert (node_name node) names)"
  by pat_completeness auto
termination
  by (relation "measure (\<lambda>(n, _). size n)") (auto dest: child_nodes_size)

declare collect_names.simps [simp del]

section \<open>Specified and compiled graphs\<close>

datatype graph_profile = FullProfile | SingleWorkerProfile

definition graph_profile_str :: "graph_profile \<Rightarrow> string" where
  "graph_profile_str self =
     (case self of
        FullProfile \<Rightarrow> ''openengine.graph.full/v1''
      | SingleWorkerProfile \<Rightarrow> ''openengine.graph.single-worker/v1'')"

datatype policy_default = PolicyDeny

record policy_binding =
  po_policy :: policy_ref
  po_default :: policy_default

record graph_spec =
  gs_profile :: graph_profile
  gs_initial_input :: payload_type
  gs_policy :: policy_binding
  gs_root :: graph_node

datatype termination_witness =
    Acyclic "node_name list"
  | Bounded "field_path list" positive_integer

record structural_bounds =
  sb_termination :: termination_witness
  sb_max_node_executions :: positive_integer
  sb_peak_concurrency :: positive_integer
  sb_attempts_per_node :: "(node_name, positive_integer) btree_map"

record compiled_graph_ir =
  cg_profile :: graph_profile
  cg_initial_input :: payload_type
  cg_policy :: policy_binding
  cg_root :: graph_node
  cg_bounds :: structural_bounds

section \<open>Fail reasons and worker outcomes\<close>

definition reserved_fail_reasons :: "string list" where
  "reserved_fail_reasons =
     [''unhandled'', ''runtime_failed'', ''runtime_lost'', ''environment_setup_failed'',
      ''environment_startup_failed'', ''environment_preparation_timeout'']"

definition FailReason_new :: "enum_label \<Rightarrow> unit + enum_label" where
  "FailReason_new value = (if value \<in> set reserved_fail_reasons then Inl () else Inr value)"

datatype worker_failure_reason =
    DeclaredFailure
  | PolicyDenied
  | InteractiveInputRequired
  | AuthenticationRequired
  | MalformedResult

datatype redaction_class = Public | Internal | Confidential | Restricted

record artifact_ref =
  ar_artifact_id :: string
  ar_sha256 :: string
  ar_byte_length :: u64
  ar_media_type :: string
  ar_type_id :: string
  ar_producer_node :: node_name
  ar_producer_worker :: worker_ref
  ar_lineage_generation :: u64
  ar_lineage_run_id :: string
  ar_lineage_attempt :: positive_integer
  ar_redaction :: redaction_class

datatype worker_outcome =
    Verified json "artifact_ref list"
  | Verifier json "(field_name, enum_label) btree_map" json "artifact_ref list"
  | OutcomeError worker_error_code worker_failure_reason

datatype worker_contract_error =
    UnsupportedProtocolBinding
  | InvalidProtocolBindingComponent string
  | InvalidOpaqueHandle
  | ContractEmpty string
  | ContractDuplicate string
  | IncompleteRuntimeErrors
  | InvalidBuiltinBinding
  | InvalidFailurePair

definition valid_failure_pair :: "worker_error_code \<Rightarrow> worker_failure_reason \<Rightarrow> bool" where
  "valid_failure_pair code reason \<longleftrightarrow>
     reason = DeclaredFailure
     \<or> (case (code, reason) of
          (Refusal, PolicyDenied) \<Rightarrow> True
        | (Refusal, InteractiveInputRequired) \<Rightarrow> True
        | (Refusal, AuthenticationRequired) \<Rightarrow> True
        | (Malformed, MalformedResult) \<Rightarrow> True
        | _ \<Rightarrow> False)"

definition outcome_validate :: "worker_outcome \<Rightarrow> worker_contract_error + unit" where
  "outcome_validate o' =
     (case o' of
        OutcomeError code reason \<Rightarrow>
          if \<not> valid_failure_pair code reason then Inl InvalidFailurePair else Inr ()
      | _ \<Rightarrow> Inr ())"

definition declared_failure :: "worker_error_code \<Rightarrow> worker_outcome" where
  "declared_failure code = OutcomeError code DeclaredFailure"

definition policy_refusal :: worker_outcome where
  "policy_refusal = OutcomeError Refusal PolicyDenied"

definition interactive_refusal :: worker_outcome where
  "interactive_refusal = OutcomeError Refusal InteractiveInputRequired"

definition authentication_refusal :: worker_outcome where
  "authentication_refusal = OutcomeError Refusal AuthenticationRequired"

definition malformed_outcome :: worker_outcome where
  "malformed_outcome = OutcomeError Malformed MalformedResult"

definition error_code :: "worker_outcome \<Rightarrow> worker_error_code option" where
  "error_code o' = (case o' of OutcomeError code _ \<Rightarrow> Some code | _ \<Rightarrow> None)"

end
