(* ===== verification/Observation.thy ===== *)
theory Observation
  imports Graph
begin

text \<open>
  Public-safe observation values: the text filters that turn provider output into a bounded log
  message (\<^verbatim>\<open>visible_text\<close> of \<^verbatim>\<open>zeroshot/src/native_v2_contract.rs\<close>, \<^verbatim>\<open>bounded_log_text\<close> of
  \<^verbatim>\<open>native_v2_runner/output.rs\<close>, \<^verbatim>\<open>BoundedLogMessage\<close> of the protocol's \<^verbatim>\<open>logs.rs\<close>), failure
  evidence (\<^verbatim>\<open>native_v2_observation/failure.rs\<close>), terminal results and token counters.

  Text is a list of Unicode scalar values; \<open>utf8_length\<close> is \<^verbatim>\<open>str::len\<close>. Cutting at a char
  boundary is cutting the list.
\<close>

section \<open>Unicode text\<close>

type_synonym utext = "nat list"

definition utf8_char_len :: "nat \<Rightarrow> nat" where
  "utf8_char_len c = (if c < 128 then 1 else if c < 2048 then 2 else if c < 65536 then 3 else 4)"

definition utf8_length :: "utext \<Rightarrow> nat" where
  "utf8_length s = sum_list (map utf8_char_len s)"

definition text_of_string :: "string \<Rightarrow> utext" where
  "text_of_string s = map of_char s"

definition is_control :: "nat \<Rightarrow> bool" where
  "is_control c \<longleftrightarrow> c < 32 \<or> (127 \<le> c \<and> c \<le> 159)"

lemma utf8_length_simps [simp]:
  "utf8_length [] = 0"
  "utf8_length (c # s) = utf8_char_len c + utf8_length s"
  "utf8_length (s @ t) = utf8_length s + utf8_length t"
  "utf8_length (rev s) = utf8_length s"
  by (simp_all add: utf8_length_def flip: rev_map)

definition hex_digit_code :: "nat \<Rightarrow> nat" where
  "hex_digit_code d = (if d < 10 then 48 + d else 87 + d)"

fun hex_text :: "nat \<Rightarrow> utext" where
  "hex_text n =
     (if n < 16 then [hex_digit_code n] else hex_text (n div 16) @ [hex_digit_code (n mod 16)])"

declare hex_text.simps [simp del]

text \<open>\<^verbatim>\<open>char::escape_default\<close>.\<close>

definition escape_default :: "nat \<Rightarrow> utext" where
  "escape_default c =
     (if c = 9 then text_of_string [CHR 0x5C, CHR ''t'']
      else if c = 13 then text_of_string [CHR 0x5C, CHR ''r'']
      else if c = 10 then text_of_string [CHR 0x5C, CHR ''n'']
      else if c = 39 \<or> c = 34 \<or> c = 92 then [92, c]
      else if 32 \<le> c \<and> c \<le> 126 then [c]
      else [92, 117, 123] @ hex_text c @ [125])"

definition visible_text :: "utext \<Rightarrow> utext" where
  "visible_text text = concat (map (\<lambda>c. if is_control c then escape_default c else [c]) text)"

definition DIAGNOSTIC_TRUNCATION_MARKER :: utext where
  "DIAGNOSTIC_TRUNCATION_MARKER = text_of_string '' ... [middle truncated] ... ''"

fun utf8_prefix :: "utext \<Rightarrow> nat \<Rightarrow> utext" where
  "utf8_prefix [] maximum = []"
| "utf8_prefix (c # s) maximum =
     (if utf8_char_len c \<le> maximum then c # utf8_prefix s (maximum - utf8_char_len c) else [])"

definition utf8_suffix :: "utext \<Rightarrow> nat \<Rightarrow> utext" where
  "utf8_suffix s maximum = rev (utf8_prefix (rev s) maximum)"

definition log_char :: "nat \<Rightarrow> nat" where
  "log_char c = (if c = 0 then 65533 else if is_control c \<and> c \<notin> {10, 9} then 32 else c)"

definition bounded_log_text :: "utext \<Rightarrow> nat \<Rightarrow> utext" where
  "bounded_log_text text maximum_bytes =
     (let diagnostic = map log_char text
      in if utf8_length diagnostic \<le> maximum_bytes then diagnostic
         else
           let content_bytes = maximum_bytes - utf8_length DIAGNOSTIC_TRUNCATION_MARKER;
               prefix = utf8_prefix diagnostic (content_bytes div 2);
               suffix = utf8_suffix diagnostic (content_bytes - utf8_length prefix)
           in prefix @ DIAGNOSTIC_TRUNCATION_MARKER @ suffix)"

definition MAX_LOG_MESSAGE_BYTES :: nat where "MAX_LOG_MESSAGE_BYTES = 16384"

definition REDACTED_LOG_MESSAGE :: utext where
  "REDACTED_LOG_MESSAGE = text_of_string ''<redacted: message exceeded bounds>''"

definition BoundedLogMessage_new :: "utext \<Rightarrow> unit + utext" where
  "BoundedLogMessage_new value =
     (if utf8_length value > MAX_LOG_MESSAGE_BYTES \<or> list_ex is_control value then Inl ()
      else Inr value)"

definition unwrap_or_redacted :: "unit + utext \<Rightarrow> utext" where
  "unwrap_or_redacted r = (case r of Inr m \<Rightarrow> m | Inl _ \<Rightarrow> REDACTED_LOG_MESSAGE)"

lemma utf8_prefix_bound: "utf8_length (utf8_prefix s n) \<le> n"
  by (induction s n rule: utf8_prefix.induct) auto

lemma utf8_suffix_bound: "utf8_length (utf8_suffix s n) \<le> n"
  unfolding utf8_suffix_def using utf8_prefix_bound[of "rev s" n] by simp

lemma utf8_prefix_prefix: "prefix (utf8_prefix s n) s"
  by (induction s n rule: utf8_prefix.induct) auto

lemma utf8_suffix_suffix: "suffix (utf8_suffix s n) s"
  using utf8_prefix_prefix[of "rev s" n] by (simp add: utf8_suffix_def suffix_to_prefix)

lemma marker_length: "utf8_length DIAGNOSTIC_TRUNCATION_MARKER = 28"
  by (simp add: DIAGNOSTIC_TRUNCATION_MARKER_def text_of_string_def utf8_length_def utf8_char_len_def)

lemma bounded_log_text_bound:
  assumes "28 \<le> maximum"
  shows "utf8_length (bounded_log_text text maximum) \<le> maximum"
proof -
  define d where "d = map log_char text"
  define pre where "pre = utf8_prefix d ((maximum - 28) div 2)"
  define suf where "suf = utf8_suffix d (maximum - 28 - utf8_length pre)"
  have "utf8_length pre \<le> (maximum - 28) div 2"
    unfolding pre_def by (rule utf8_prefix_bound)
  moreover have "utf8_length suf \<le> maximum - 28 - utf8_length pre"
    unfolding suf_def by (rule utf8_suffix_bound)
  ultimately have cut: "utf8_length pre + (28 + utf8_length suf) \<le> maximum"
    using assms by linarith
  have "bounded_log_text text maximum =
      (if utf8_length d \<le> maximum then d else pre @ DIAGNOSTIC_TRUNCATION_MARKER @ suf)"
    by (simp add: bounded_log_text_def Let_def marker_length d_def pre_def suf_def)
  then show ?thesis using cut by (simp add: marker_length)
qed

lemma hex_text_visible: "c \<in> set (hex_text n) \<Longrightarrow> 48 \<le> c \<and> c \<le> 102"
proof (induction n rule: hex_text.induct)
  case (1 n)
  then show ?case
    by (subst (asm) (2) hex_text.simps) (auto simp: hex_digit_code_def split: if_splits)
qed

lemma escape_default_visible: "is_control c \<Longrightarrow> d \<in> set (escape_default c) \<Longrightarrow> 32 \<le> d \<and> d \<le> 126"
  by (auto simp: escape_default_def text_of_string_def is_control_def
      dest!: hex_text_visible split: if_splits)

lemma visible_text_no_control:
  assumes "c \<in> set (visible_text s)"
  shows "\<not> is_control c"
proof -
  obtain d where d: "c \<in> set (if is_control d then escape_default d else [d])"
    using assms unfolding visible_text_def set_concat set_map by blast
  then show ?thesis
    using escape_default_visible[of d c] by (cases "is_control d") (auto simp: is_control_def)
qed

lemma log_char_visible: "\<not> is_control c \<Longrightarrow> log_char c = c"
  by (auto simp: log_char_def is_control_def)

lemma bounded_log_text_chars:
  assumes "c \<in> set (bounded_log_text text maximum)" and "\<And>d. d \<in> set text \<Longrightarrow> \<not> is_control d"
  shows "\<not> is_control c"
proof -
  have eq: "map log_char text = text"
    using assms(2) by (simp add: log_char_visible map_idI)
  have marker: "\<not> is_control d" if "d \<in> set DIAGNOSTIC_TRUNCATION_MARKER" for d
    using that by (auto simp: DIAGNOSTIC_TRUNCATION_MARKER_def text_of_string_def is_control_def)
  have "c \<in> set text \<union> set DIAGNOSTIC_TRUNCATION_MARKER"
    using assms(1) set_mono_prefix[OF utf8_prefix_prefix] set_mono_suffix[OF utf8_suffix_suffix]
    by (auto simp: bounded_log_text_def Let_def eq split: if_splits) blast+
  with assms(2) marker show ?thesis by auto
qed

section \<open>Failure evidence and terminal results\<close>

type_synonym cursor = string
type_synonym run_id = string

record active_execution =
  ae_execution :: string
  ae_node :: node_name

datatype failure_diagnostic_kind = Failure | Incomplete

record failure_diagnostic =
  fd_message :: utext
  fd_execution :: "active_execution option"
  fd_cursor :: "cursor option"

record failure_context =
  fc_primary :: "failure_diagnostic option"
  fc_recorded :: "failure_diagnostic list"
  fc_incomplete :: bool

definition MAX_RECORDED_FAILURES :: nat where "MAX_RECORDED_FAILURES = 5"

definition failure_context_default :: failure_context where
  "failure_context_default = \<lparr>fc_primary = None, fc_recorded = [], fc_incomplete = False\<rparr>"

definition failure_context_record :: "failure_context \<Rightarrow> failure_diagnostic \<Rightarrow> failure_context" where
  "failure_context_record self diagnostic =
     (let self = (if length (fc_recorded self) = MAX_RECORDED_FAILURES
                  then self\<lparr>fc_recorded := tl (fc_recorded self), fc_incomplete := True\<rparr>
                  else self)
      in self\<lparr>fc_recorded := fc_recorded self @ [diagnostic]\<rparr>)"

datatype terminal_result =
    Succeeded json
  | Failed enum_label "failure_context option"

lemma failure_context_record_bound:
  "length (fc_recorded c) \<le> MAX_RECORDED_FAILURES \<Longrightarrow>
   length (fc_recorded (failure_context_record c d)) \<le> MAX_RECORDED_FAILURES"
  by (auto simp: failure_context_record_def Let_def MAX_RECORDED_FAILURES_def)

section \<open>Token counters\<close>

type_synonym token_count = u64

definition TokenCount_new :: "u64 \<Rightarrow> u64 + token_count" where
  "TokenCount_new value = (if value \<le> MAX_SAFE_GENERATION then Inr value else Inl value)"

definition token_checked_add :: "token_count \<Rightarrow> token_count \<Rightarrow> token_count option" where
  "token_checked_add a b =
     (case checked_add a b of
        None \<Rightarrow> None
      | Some value \<Rightarrow> (case TokenCount_new value of Inr t \<Rightarrow> Some t | Inl _ \<Rightarrow> None))"

record token_usage_delta =
  td_input_tokens :: token_count
  td_output_tokens :: token_count
  td_cache_read_input_tokens :: "token_count option"
  td_cache_creation_input_tokens :: "token_count option"

record token_usage =
  tu_input_tokens :: token_count
  tu_output_tokens :: token_count
  tu_cache_read_input_tokens :: "token_count option"
  tu_cache_creation_input_tokens :: "token_count option"
  tu_complete :: bool

text \<open>A sum of counters is the exact sum, and stays exact in JavaScript.\<close>

lemma token_checked_add_iff:
  "token_checked_add a b = Some c \<longleftrightarrow> c = a + b \<and> a + b \<le> MAX_SAFE_GENERATION"
  by (auto simp: token_checked_add_def checked_add_def TokenCount_new_def u64_max_def
      MAX_SAFE_GENERATION_def split: option.splits sum.splits if_splits)

definition delta_add_optional_tokens ::
    "token_count option \<Rightarrow> token_count option \<Rightarrow> token_count option option" where
  "delta_add_optional_tokens left right =
     (case (left, right) of
        (Some l, Some r) \<Rightarrow> map_option Some (token_checked_add l r)
      | _ \<Rightarrow> Some None)"

definition delta_checked_add :: "token_usage_delta \<Rightarrow> token_usage_delta \<Rightarrow> token_usage_delta option" where
  "delta_checked_add self right =
     (case token_checked_add (td_input_tokens self) (td_input_tokens right) of
        None \<Rightarrow> None
      | Some input \<Rightarrow>
     (case token_checked_add (td_output_tokens self) (td_output_tokens right) of
        None \<Rightarrow> None
      | Some output \<Rightarrow>
     (case delta_add_optional_tokens (td_cache_read_input_tokens self)
             (td_cache_read_input_tokens right) of
        None \<Rightarrow> None
      | Some cread \<Rightarrow>
     (case delta_add_optional_tokens (td_cache_creation_input_tokens self)
             (td_cache_creation_input_tokens right) of
        None \<Rightarrow> None
      | Some ccreate \<Rightarrow>
          Some \<lparr>td_input_tokens = input, td_output_tokens = output,
                td_cache_read_input_tokens = cread,
                td_cache_creation_input_tokens = ccreate\<rparr>))))"

end
