(* ===== verification/Reducer_Values.thy ===== *)
theory Reducer_Values
  imports Observation
begin

text \<open>
  The values the full-v1 reducer works on: the normalized execution history
  (\<^verbatim>\<open>full_v1_reducer/history.rs\<close>), the evaluation context of \<^verbatim>\<open>full_v1_reducer.rs\<close> and the
  pure operations of \<^verbatim>\<open>full_v1_reducer/values.rs\<close> (payload paths, bindings, promotion, the
  validation of the history). A function that mutates its argument returns the new value; on an
  error the caller propagates, so the partly mutated value is never read again.
\<close>

section \<open>History facts\<close>

type_synonym history_position = u64
type_synonym node_instance_id = u64
type_synonym execution_id = u64

definition HistoryPosition_ZERO :: history_position where "HistoryPosition_ZERO = 0"
definition HistoryPosition_MAX :: history_position where "HistoryPosition_MAX = i64_max"

datatype history_position_error = OutOfRange

definition HistoryPosition_new :: "u64 \<Rightarrow> history_position_error + history_position" where
  "HistoryPosition_new value = (if value > HistoryPosition_MAX then Inl OutOfRange else Inr value)"

datatype identity_error = IdentityError

definition PositiveIdentity_new :: "u64 \<Rightarrow> identity_error + u64" where
  "PositiveIdentity_new value = (if value = 0 then Inl IdentityError else Inr value)"

datatype structural_occurrence =
  StructuralOccurrence (so_node: node_name) (so_map_indices: "u64 list")

definition occurrence_tuple :: "structural_occurrence \<Rightarrow> node_name \<times> u64 list" where
  "occurrence_tuple o' = (so_node o', so_map_indices o')"

lemma occurrence_tuple_inj: "occurrence_tuple a = occurrence_tuple b \<longleftrightarrow> a = b"
  by (cases a; cases b) (auto simp: occurrence_tuple_def)

instantiation structural_occurrence :: linorder
begin

definition less_eq_structural_occurrence :: "structural_occurrence \<Rightarrow> structural_occurrence \<Rightarrow> bool" where
  "a \<le> b \<longleftrightarrow> occurrence_tuple a \<le> occurrence_tuple b"

definition less_structural_occurrence :: "structural_occurrence \<Rightarrow> structural_occurrence \<Rightarrow> bool" where
  "a < b \<longleftrightarrow> occurrence_tuple a < occurrence_tuple b"

instance
  by standard (auto simp: less_eq_structural_occurrence_def less_structural_occurrence_def
      less_le_not_le simp flip: occurrence_tuple_inj)

end

datatype execution_void_reason = ParallelJoin | MapTerminal

datatype durable_execution_state =
    ExecActive
  | ExecSettled history_position worker_outcome
  | ExecVoided history_position execution_void_reason

record durable_execution =
  de_dispatch_position :: history_position
  de_node_instance :: node_instance_id
  de_execution :: execution_id
  de_occurrence :: structural_occurrence
  de_attempt :: positive_integer
  de_input :: json
  de_state :: durable_execution_state

section \<open>Errors, modes and the evaluation context\<close>

definition INITIAL_ATTEMPT :: u64 where "INITIAL_ATTEMPT = 1"

datatype reducer_error =
    InconsistentHistory
  | IdentityOutOfRange
  | MissingSelectedValue
  | InvalidDurableValue
  | MissingChoiceRoute
  | Encoding
  | TraceLimit

datatype execution_mode = LegacyAttempts | NativeV2

datatype eval_mode = Decide | Probe

record promoted_value_entry =
  pv_path :: field_path
  pv_value :: json

datatype decision =
    Dispatch (dp_node_instance: node_instance_id) (dp_execution: execution_id)
      (dp_occurrence: structural_occurrence) (dp_attempt: positive_integer) (dp_iteration: u64)
      (dp_worker: worker_ref) (dp_input: json)
  | VoidLoser execution_id execution_void_reason
  | ContinueDecision node_name
  | Promote node_name "u64 list" "promoted_value_entry list"
  | TerminalDecision terminal_result

record channels =
  chan_output :: json
  chan_signals :: "(string, string) btree_map"
  chan_diagnostic :: "json option"

datatype control_key =
  ControlKey (ck_node: node_name) (ck_source: control_source) (ck_field: "string option")
    (ck_map_indices: "u64 list")

definition control_key_tuple ::
    "control_key \<Rightarrow> node_name \<times> control_source \<times> string option \<times> u64 list" where
  "control_key_tuple k = (ck_node k, ck_source k, ck_field k, ck_map_indices k)"

lemma control_key_tuple_inj: "control_key_tuple a = control_key_tuple b \<longleftrightarrow> a = b"
  by (cases a; cases b) (auto simp: control_key_tuple_def)

instantiation control_key :: linorder
begin

definition less_eq_control_key :: "control_key \<Rightarrow> control_key \<Rightarrow> bool" where
  "a \<le> b \<longleftrightarrow> control_key_tuple a \<le> control_key_tuple b"

definition less_control_key :: "control_key \<Rightarrow> control_key \<Rightarrow> bool" where
  "a < b \<longleftrightarrow> control_key_tuple a < control_key_tuple b"

instance
  by standard (auto simp: less_eq_control_key_def less_control_key_def
      less_le_not_le simp flip: control_key_tuple_inj)

end

record eval_context =
  ctx_state :: json
  ctx_controls :: "(control_key, string) btree_map"
  ctx_channels :: "(node_name \<times> u64 list, channels) btree_map"
  ctx_local_writes :: "field_path btree_set"

definition Context_new :: "json \<Rightarrow> eval_context" where
  "Context_new state =
     \<lparr>ctx_state = state, ctx_controls = [], ctx_channels = [], ctx_local_writes = []\<rparr>"

definition clear_writes :: "eval_context \<Rightarrow> eval_context" where
  "clear_writes c = c\<lparr>ctx_local_writes := []\<rparr>"

section \<open>Facts collected from the graph\<close>

definition child_depth :: "graph_node \<Rightarrow> nat \<Rightarrow> nat" where
  "child_depth node depth = depth + (if is_map_node node then 1 else 0)"

function collect_map_depths ::
    "graph_node \<Rightarrow> nat \<Rightarrow> (node_name, nat) btree_map \<Rightarrow> (node_name, nat) btree_map" where
  "collect_map_depths node depth depths =
     fold (\<lambda>child ds. collect_map_depths child (child_depth node depth) ds) (child_nodes node)
       (bm_insert (node_name node) depth depths)"
  by pat_completeness auto
termination
  by (relation "measure (\<lambda>(n, _, _). size n)") (auto dest: child_nodes_size)

function collect_executable_depths ::
    "graph_node \<Rightarrow> nat \<Rightarrow> (node_name, nat) btree_map \<Rightarrow> (node_name, nat) btree_map" where
  "collect_executable_depths node depth depths =
     fold (\<lambda>child ds. collect_executable_depths child (child_depth node depth) ds) (child_nodes node)
       (if is_executable node then bm_insert (node_name node) depth depths else depths)"
  by pat_completeness auto
termination
  by (relation "measure (\<lambda>(n, _, _). size n)") (auto dest: child_nodes_size)

declare collect_map_depths.simps [simp del] collect_executable_depths.simps [simp del]

fun promotion_path_from :: "payload_type \<Rightarrow> bool \<Rightarrow> field_path \<Rightarrow> reducer_error + bool" where
  "promotion_path_from payload optional [] = Inr optional"
| "promotion_path_from payload optional (part # rest) =
     (case payload of
        PRecord record_fields \<Rightarrow>
          bind_res (ok_or MissingSelectedValue (bm_get record_fields part)) (\<lambda>field.
            promotion_path_from (value_type field) (optional \<or> \<not> required field) rest)
      | _ \<Rightarrow> Inl MissingSelectedValue)"

definition promotion_path_is_optional :: "payload_type \<Rightarrow> field_path \<Rightarrow> reducer_error + bool" where
  "promotion_path_is_optional schema path = promotion_path_from schema False path"

fun group_promotion :: "graph_node \<Rightarrow> (payload_type \<times> field_path list) option" where
  "group_promotion (SeqNode _ s _ ps) = Some (s, ps)"
| "group_promotion (ChoiceNode _ s _ _ ps) = Some (s, ps)"
| "group_promotion (ParNode _ s _ ps _) = Some (s, ps)"
| "group_promotion (LoopNode _ s _ _ _ _ ps) = Some (s, ps)"
| "group_promotion (MapNode _ s _ _ _ ps) = Some (s, ps)"
| "group_promotion _ = None"

definition optional_paths_of ::
    "payload_type \<Rightarrow> field_path list \<Rightarrow> reducer_error + field_path btree_set" where
  "optional_paths_of schema paths =
     try_foldl (\<lambda>optional path.
         bind_res (promotion_path_is_optional schema path) (\<lambda>is_optional.
           Inr (if is_optional then bs_insert path optional else optional)))
       [] paths"

function collect_optional_promotions ::
    "graph_node \<Rightarrow> (node_name, field_path btree_set) btree_map
       \<Rightarrow> reducer_error + (node_name, field_path btree_set) btree_map" where
  "collect_optional_promotions node optional_paths =
     bind_res
       (case group_promotion node of
          None \<Rightarrow> Inr optional_paths
        | Some (schema, paths) \<Rightarrow>
            bind_res (optional_paths_of schema paths) (\<lambda>optional.
              Inr (bm_insert (node_name node) optional optional_paths)))
       (\<lambda>collected.
          try_foldl (\<lambda>acc child. collect_optional_promotions child acc) collected (child_nodes node))"
  by pat_completeness auto
termination
  by (relation "measure (\<lambda>(n, _). size n)") (auto dest: child_nodes_size)

declare collect_optional_promotions.simps [simp del]

definition descendant_names :: "graph_node \<Rightarrow> node_name btree_set" where
  "descendant_names node = bm_keys (collect_map_depths node 0 [])"

section \<open>Validation of the history\<close>

record history_visit_identities =
  hv_ids :: "execution_id btree_set"
  hv_attempts :: "(structural_occurrence \<times> positive_integer) btree_set"
  hv_visits :: "(structural_occurrence \<times> history_position) btree_set"

definition hv_default :: history_visit_identities where
  "hv_default = \<lparr>hv_ids = [], hv_attempts = [], hv_visits = []\<rparr>"

definition hv_validate ::
    "history_visit_identities \<Rightarrow> durable_execution \<Rightarrow> execution_mode
       \<Rightarrow> reducer_error + history_visit_identities" where
  "hv_validate self execution mode =
     (let (self, valid_visit) =
        (case mode of
           LegacyAttempts \<Rightarrow>
             (let k = (de_occurrence execution, de_attempt execution)
              in (self\<lparr>hv_attempts := bs_insert k (hv_attempts self)\<rparr>, k \<notin> set (hv_attempts self)))
         | NativeV2 \<Rightarrow>
             (let k = (de_occurrence execution, de_dispatch_position execution)
              in (self\<lparr>hv_visits := bs_insert k (hv_visits self)\<rparr>, k \<notin> set (hv_visits self))))
      in if de_execution execution \<notin> set (hv_ids self) \<and> valid_visit
         then Inr (self\<lparr>hv_ids := bs_insert (de_execution execution) (hv_ids self)\<rparr>)
         else Inl InconsistentHistory)"

type_synonym instance_maps =
  "(structural_occurrence, node_instance_id) btree_map
     \<times> (node_instance_id, structural_occurrence) btree_map"

definition validate_instance_lineage ::
    "durable_execution \<Rightarrow> instance_maps \<Rightarrow> reducer_error + instance_maps" where
  "validate_instance_lineage execution = (\<lambda>(instances, inverse_instances).
     if (case bm_get instances (de_occurrence execution) of
           Some existing \<Rightarrow> existing \<noteq> de_node_instance execution | None \<Rightarrow> False)
        \<or> (case bm_get inverse_instances (de_node_instance execution) of
             Some existing \<Rightarrow> existing \<noteq> de_occurrence execution | None \<Rightarrow> False)
     then Inl InconsistentHistory
     else Inr (bm_insert (de_occurrence execution) (de_node_instance execution) instances,
               bm_insert (de_node_instance execution) (de_occurrence execution) inverse_instances))"

definition follows_finalized_visit :: "durable_execution \<Rightarrow> durable_execution \<Rightarrow> bool" where
  "follows_finalized_visit previous current =
     (case de_state previous of
        ExecSettled position _ \<Rightarrow> position < de_dispatch_position current
      | ExecVoided position _ \<Rightarrow> position < de_dispatch_position current
      | ExecActive \<Rightarrow> False)"

definition follows_failed_attempt :: "durable_execution \<Rightarrow> durable_execution \<Rightarrow> bool" where
  "follows_failed_attempt previous current \<longleftrightarrow>
     (case de_state previous of
        ExecSettled position (OutcomeError Crash _) \<Rightarrow> position < de_dispatch_position current
      | _ \<Rightarrow> False)
     \<and> checked_add (de_attempt previous) 1 = Some (de_attempt current)"

definition validate_attempt_pair ::
    "durable_execution \<times> durable_execution \<Rightarrow> reducer_error + unit" where
  "validate_attempt_pair = (\<lambda>(previous, current).
     if (de_attempt current = 1 \<and> \<not> follows_finalized_visit previous current)
        \<or> (de_attempt current \<noteq> 1 \<and> \<not> follows_failed_attempt previous current)
     then Inl InconsistentHistory else Inr ())"

definition windows2 :: "'a list \<Rightarrow> ('a \<times> 'a) list" where
  "windows2 xs = zip xs (tl xs)"

definition group_occurrences ::
    "durable_execution list \<Rightarrow> (structural_occurrence, durable_execution list) btree_map" where
  "group_occurrences executions =
     fold (\<lambda>execution m.
         bm_insert (de_occurrence execution)
           ((case bm_get m (de_occurrence execution) of None \<Rightarrow> [] | Some es \<Rightarrow> es) @ [execution]) m)
       executions []"

definition validate_occurrence_lineage :: "durable_execution list \<Rightarrow> reducer_error + unit" where
  "validate_occurrence_lineage occurrence_executions =
     (let sorted = sort_key de_dispatch_position occurrence_executions
      in if de_attempt (hd sorted) \<noteq> INITIAL_ATTEMPT then Inl InconsistentHistory
         else try_all validate_attempt_pair (windows2 sorted))"

definition validate_native_attempt_lineage :: "durable_execution list \<Rightarrow> reducer_error + unit" where
  "validate_native_attempt_lineage executions =
     try_all (\<lambda>(_, es). validate_occurrence_lineage es) (group_occurrences executions)"

definition validate_legacy_attempts ::
    "durable_execution list \<Rightarrow> structural_occurrence \<Rightarrow> reducer_error + unit" where
  "validate_legacy_attempts executions occurrence =
     (let values = sort (map de_attempt (filter (\<lambda>e. de_occurrence e = occurrence) executions))
      in if values \<noteq> [1..<Suc (length values)] then Inl InconsistentHistory else Inr ())"

definition validate_history_for_mode ::
    "durable_execution list \<Rightarrow> execution_mode \<Rightarrow> reducer_error + unit" where
  "validate_history_for_mode executions mode =
     bind_res
       (try_foldl (\<lambda>(identities, maps) execution.
            bind_res (hv_validate identities execution mode) (\<lambda>identities'.
            bind_res (validate_instance_lineage execution maps) (\<lambda>maps'.
            Inr (identities', maps'))))
          (hv_default, ([], [])) executions)
       (\<lambda>(_, (instances, _)).
          if mode = LegacyAttempts
          then try_all (validate_legacy_attempts executions) (bm_keys instances)
          else validate_native_attempt_lineage executions)"

section \<open>Visits\<close>

definition visit_field :: string where "visit_field = ''__reducer_visit''"

definition visit_key :: "node_name \<Rightarrow> u64 list \<Rightarrow> control_key" where
  "visit_key name map_indices = ControlKey name SourceGroup (Some visit_field) map_indices"

definition next_visit ::
    "node_name \<Rightarrow> u64 list \<Rightarrow> (control_key, string) btree_map \<Rightarrow> u64" where
  "next_visit name map_indices controls =
     wrapping_add
       (case bm_get controls (visit_key name map_indices) of
          None \<Rightarrow> 0
        | Some value \<Rightarrow> (case parse_u64 value of None \<Rightarrow> 0 | Some n \<Rightarrow> n)) 1"

definition mark_visit ::
    "node_name \<Rightarrow> u64 list \<Rightarrow> (control_key, string) btree_map \<Rightarrow> u64
       \<Rightarrow> (control_key, string) btree_map" where
  "mark_visit name map_indices controls visit =
     bm_insert (visit_key name map_indices) (u64_to_string visit) controls"

fun native_visits_from :: "u64 \<Rightarrow> u64 \<Rightarrow> durable_execution list \<Rightarrow> durable_execution list" where
  "native_visits_from visit requested [] = []"
| "native_visits_from visit requested (e # es) =
     (let visit' = (if de_attempt e = 1 then visit + 1 else visit)
      in if visit' = requested then e # native_visits_from visit' requested es
         else native_visits_from visit' requested es)"

definition native_visit_executions :: "durable_execution list \<Rightarrow> u64 \<Rightarrow> durable_execution list" where
  "native_visit_executions executions requested_visit =
     native_visits_from 0 requested_visit executions"

section \<open>Payload paths and bindings\<close>

definition select_segment :: "json \<Rightarrow> field_name \<Rightarrow> reducer_error + json" where
  "select_segment current segment =
     ok_or MissingSelectedValue
       (case as_object current of None \<Rightarrow> None | Some object \<Rightarrow> bm_get object segment)"

definition select :: "json \<Rightarrow> field_path \<Rightarrow> reducer_error + json" where
  "select value path = try_foldl select_segment value path"

fun set_path :: "json \<Rightarrow> field_path \<Rightarrow> json \<Rightarrow> reducer_error + json" where
  "set_path value [] selected = Inl MissingSelectedValue"
| "set_path value [last_segment] selected =
     bind_res (ok_or InvalidDurableValue (as_object value)) (\<lambda>object.
       Inr (VObject (bm_insert last_segment selected object)))"
| "set_path value (segment # rest) selected =
     bind_res (ok_or InvalidDurableValue (as_object value)) (\<lambda>object.
       bind_res
         (set_path (case bm_get object segment of None \<Rightarrow> VObject [] | Some v \<Rightarrow> v) rest selected)
         (\<lambda>child. Inr (VObject (bm_insert segment child object))))"

definition select_data :: "data_selector \<Rightarrow> json \<Rightarrow> json option \<Rightarrow> reducer_error + json" where
  "select_data selector state item =
     (case selector of
        SelState path \<Rightarrow> select state path
      | SelItem path \<Rightarrow> bind_res (ok_or MissingSelectedValue item) (\<lambda>i. select i path))"

definition bind_payload ::
    "input_binding list \<Rightarrow> json \<Rightarrow> json option \<Rightarrow> reducer_error + json" where
  "bind_payload bindings state item =
     (if bindings = [] then Inr VNull
      else try_foldl (\<lambda>value binding.
          bind_res (select_data (ib_value binding) state item) (\<lambda>selected.
            set_path value (ib_target binding) selected))
        (VObject []) bindings)"

record write_application =
  wa_name :: node_name
  wa_output :: json
  wa_signals :: "(field_name, enum_label) btree_map option"
  wa_diagnostic :: "json option"
  wa_bindings :: "write_binding list"
  wa_map_indices :: "u64 list"

definition bound_channel_value ::
    "eval_context \<Rightarrow> write_binding \<Rightarrow> u64 list \<Rightarrow> reducer_error + json" where
  "bound_channel_value context binding map_indices =
     bind_res (ok_or MissingSelectedValue
       (bm_get (ctx_channels context) (nos_node (wb_value binding), map_indices))) (\<lambda>channels.
     case nos_channel (wb_value binding) of
       ChannelOut \<Rightarrow> select (chan_output channels) (nos_path (wb_value binding))
     | ChannelDiagnostic \<Rightarrow>
         bind_res (ok_or MissingSelectedValue (chan_diagnostic channels)) (\<lambda>diagnostic.
           select diagnostic (nos_path (wb_value binding)))
     | ChannelSignal \<Rightarrow>
         (case nos_path (wb_value binding) of
            [] \<Rightarrow> Inl MissingSelectedValue
          | field # _ \<Rightarrow>
              bind_res (ok_or MissingSelectedValue (bm_get (chan_signals channels) field))
                (\<lambda>label. Inr (VString label))))"

definition apply_writes :: "eval_context \<Rightarrow> write_application \<Rightarrow> reducer_error + eval_context" where
  "apply_writes context application =
     (let channel =
            \<lparr>chan_output = wa_output application,
             chan_signals = (case wa_signals application of None \<Rightarrow> [] | Some values \<Rightarrow> values),
             chan_diagnostic = wa_diagnostic application\<rparr>;
          context = context\<lparr>ctx_channels :=
            bm_insert (wa_name application, wa_map_indices application) channel (ctx_channels context)\<rparr>
      in try_foldl (\<lambda>context binding.
             bind_res (bound_channel_value context binding (wa_map_indices application)) (\<lambda>value.
             bind_res (set_path (ctx_state context) (wb_target binding) value) (\<lambda>state.
             Inr (context\<lparr>ctx_state := state,
                          ctx_local_writes := bs_insert (wb_target binding) (ctx_local_writes context)\<rparr>))))
           context (wa_bindings application))"

section \<open>Promotion and runtime facts\<close>

definition path_contains :: "field_path \<Rightarrow> field_path \<Rightarrow> bool" where
  "path_contains parent child \<longleftrightarrow> prefix parent child"

definition promotion_candidates ::
    "field_path btree_set \<Rightarrow> field_path list \<Rightarrow> field_path btree_set" where
  "promotion_candidates local_writes promoted_paths =
     bs_of_list (concat (map (\<lambda>promoted.
        List.map_filter (\<lambda>written.
            if path_contains promoted written then Some written
            else if path_contains written promoted then Some promoted
            else None)
          local_writes) promoted_paths))"

definition promoted_write_paths ::
    "field_path btree_set \<Rightarrow> field_path list \<Rightarrow> field_path btree_set" where
  "promoted_write_paths local_writes promoted_paths =
     (let candidates = promotion_candidates local_writes promoted_paths
      in filter (\<lambda>candidate.
            \<not> list_ex (\<lambda>other. other \<noteq> candidate \<and> path_contains other candidate) candidates)
          candidates)"

definition promoted_value ::
    "json \<Rightarrow> field_path \<Rightarrow> field_path btree_set \<Rightarrow> bool \<Rightarrow> reducer_error + json option" where
  "promoted_value state path writes optional =
     (if optional \<and> promoted_write_paths writes [path] = [] then Inr None
      else case select state path of
             Inr value \<Rightarrow> Inr (Some value)
           | Inl MissingSelectedValue \<Rightarrow> if optional then Inr None else Inl MissingSelectedValue
           | Inl error \<Rightarrow> Inl error)"

definition merge_runtime_facts :: "eval_context \<Rightarrow> eval_context \<Rightarrow> eval_context" where
  "merge_runtime_facts source target =
     target\<lparr>ctx_controls := bm_extend (ctx_controls target) (ctx_controls source),
            ctx_channels := bm_extend (ctx_channels target) (ctx_channels source)\<rparr>"

record promotion_request =
  pr_node :: node_name
  pr_map_indices :: "u64 list"
  pr_paths :: "field_path list"
  pr_optional_paths :: "field_path btree_set"
  pr_mode :: eval_mode

definition promote_path ::
    "promotion_request \<Rightarrow> eval_context \<Rightarrow> eval_context \<times> promoted_value_entry list \<Rightarrow> field_path
       \<Rightarrow> reducer_error + eval_context \<times> promoted_value_entry list" where
  "promote_path request local = (\<lambda>(parent, values) path.
     bind_res (promoted_value (ctx_state local) path (ctx_local_writes local)
                 (path \<in> set (pr_optional_paths request))) (\<lambda>selected.
     case selected of
       None \<Rightarrow> Inr (parent, values)
     | Some value \<Rightarrow>
         bind_res (set_path (ctx_state parent) path value) (\<lambda>state.
           Inr (parent\<lparr>ctx_state := state\<rparr>, values @ [\<lparr>pv_path = path, pv_value = value\<rparr>]))))"

definition promote ::
    "promotion_request \<Rightarrow> eval_context \<Rightarrow> eval_context \<Rightarrow> decision list
       \<Rightarrow> reducer_error + eval_context \<times> decision list" where
  "promote request local parent decisions =
     bind_res (try_foldl (promote_path request local) (parent, []) (pr_paths request))
       (\<lambda>(parent, values).
          let parent = parent\<lparr>ctx_local_writes :=
                bs_extend (ctx_local_writes parent)
                  (promoted_write_paths (ctx_local_writes local) (pr_paths request))\<rparr>;
              decisions = (if pr_mode request = Decide \<and> values \<noteq> []
                           then decisions @ [Promote (pr_node request) (pr_map_indices request) values]
                           else decisions)
          in Inr (merge_runtime_facts local parent, decisions))"

definition is_visit_key :: "control_key \<Rightarrow> bool" where
  "is_visit_key key \<longleftrightarrow> ck_source key = SourceGroup \<and> ck_field key = Some visit_field"

definition clear_scoped_runtime_facts ::
    "eval_context \<Rightarrow> node_name btree_set \<Rightarrow> u64 list \<Rightarrow> eval_context" where
  "clear_scoped_runtime_facts context names map_indices =
     context\<lparr>
       ctx_controls := bm_retain (\<lambda>key _.
           ck_node key \<notin> set names \<or> \<not> prefix map_indices (ck_map_indices key) \<or> is_visit_key key)
         (ctx_controls context),
       ctx_channels := bm_retain (\<lambda>(name, indices) _.
           name \<notin> set names \<or> \<not> prefix map_indices indices)
         (ctx_channels context)\<rparr>"

definition merge_scoped_runtime_facts ::
    "eval_context \<Rightarrow> eval_context \<Rightarrow> node_name btree_set \<Rightarrow> u64 list \<Rightarrow> eval_context" where
  "merge_scoped_runtime_facts source target names map_indices =
     target\<lparr>
       ctx_controls := bm_extend (ctx_controls target)
         (filter (\<lambda>(key, _). ck_node key \<in> set names \<and> prefix map_indices (ck_map_indices key))
           (ctx_controls source)),
       ctx_channels := bm_extend (ctx_channels target)
         (filter (\<lambda>((name, indices), _). name \<in> set names \<and> prefix map_indices indices)
           (ctx_channels source))\<rparr>"


section \<open>Laws of payload paths\<close>

lemma select_Nil [simp]: "select v [] = Inr v"
  by (simp add: select_def)

lemma select_Cons: "select v (s # p) = bind_res (select_segment v s) (\<lambda>w. select w p)"
  by (simp add: select_def)

lemma select_append: "select v (p @ q) = bind_res (select v p) (\<lambda>w. select w q)"
  by (simp add: select_def try_foldl_append)

lemma select_segment_object [simp]:
  "select_segment (VObject m) s = ok_or MissingSelectedValue (bm_get m s)"
  by (simp add: select_segment_def)

lemma set_path_Cons:
  "p \<noteq> [] \<Longrightarrow> set_path v (s # p) x =
     bind_res (ok_or InvalidDurableValue (as_object v)) (\<lambda>object.
       bind_res (set_path (case bm_get object s of None \<Rightarrow> VObject [] | Some w \<Rightarrow> w) p x)
         (\<lambda>child. Inr (VObject (bm_insert s child object))))"
  by (cases p) auto

lemma select_missing_parent:
  "select (case bm_get m s of None \<Rightarrow> VObject [] | Some w \<Rightarrow> w) (t # q) =
   bind_res (select_segment (VObject m) s) (\<lambda>w. select w (t # q))"
  by (auto simp: select_Cons split: option.splits)

lemma set_path_below:
  "set_path v p x = Inr v' \<Longrightarrow> select v' (p @ q) = select x q"
proof (induction p arbitrary: v v')
  case (Cons s p)
  show ?case
  proof (cases "p = []")
    case True
    then show ?thesis using Cons.prems by (auto simp: res_simps select_Cons)
  next
    case False
    then show ?thesis
      using Cons.prems Cons.IH by (auto simp: set_path_Cons res_simps select_Cons)
  qed
qed simp

lemma set_path_frame:
  assumes "set_path v p x = Inr v'" and "\<not> prefix p q" and "\<not> prefix q p"
  shows "select v' q = select v q"
  using assms
proof (induction p arbitrary: v v' q)
  case (Cons s p)
  then obtain t q' where q: "q = t # q'" by (cases q) auto
  show ?case
  proof (cases "p = []")
    case True
    then show ?thesis using Cons.prems q by (auto simp: res_simps select_Cons)
  next
    case False
    then obtain m child where m: "v = VObject m"
      and child: "set_path (case bm_get m s of None \<Rightarrow> VObject [] | Some w \<Rightarrow> w) p x = Inr child"
      and v': "v' = VObject (bm_insert s child m)"
      using Cons.prems(1) by (auto simp: set_path_Cons res_simps)
    show ?thesis
    proof (cases "t = s")
      case True
      with Cons.prems q have "\<not> prefix p q'" "\<not> prefix q' p" by auto
      with Cons.IH[OF child] have "select child q' =
          select (case bm_get m s of None \<Rightarrow> VObject [] | Some w \<Rightarrow> w) q'" by blast
      moreover from \<open>\<not> prefix q' p\<close> obtain u q'' where "q' = u # q''" by (cases q') auto
      ultimately show ?thesis
        using True q m v' select_missing_parent[of m s u q''] by (simp add: select_Cons)
    qed (use q m v' in \<open>simp add: select_Cons\<close>)
  qed
qed simp

lemma set_path_ok_iff:
  "(\<exists>v'. set_path v p x = Inr v') \<longleftrightarrow>
     p \<noteq> [] \<and> (\<forall>q w. strict_prefix q p \<longrightarrow> select v q = Inr w \<longrightarrow> (\<exists>m. w = VObject m))"
proof (induction p arbitrary: v)
  case (Cons s p)
  show ?case
  proof (cases "as_object v")
    case None
    then have "\<nexists>m. v = VObject m" by auto
    moreover have "strict_prefix [] (s # p)" by simp
    ultimately show ?thesis
      using None by (cases p) (auto simp: set_path_Cons intro!: exI[of _ "[]"])
  next
    case (Some m)
    then have v: "v = VObject m" by simp
    let ?w = "case bm_get m s of None \<Rightarrow> VObject [] | Some w \<Rightarrow> w"
    have split: "(\<forall>q w. strict_prefix q (s # p) \<longrightarrow> select v q = Inr w \<longrightarrow> (\<exists>m. w = VObject m)) \<longleftrightarrow>
        (\<forall>q w. strict_prefix q p \<longrightarrow> select ?w q = Inr w \<longrightarrow> (\<exists>m. w = VObject m))" (is "?L = ?R")
    proof
      assume L: ?L
      show ?R
      proof (intro allI impI)
        fix q w assume "strict_prefix q p" and w: "select ?w q = Inr w"
        then have "strict_prefix (s # q) (s # p)" by simp
        with L w show "\<exists>m. w = VObject m"
          by (cases q; cases "bm_get m s") (fastforce simp: v select_Cons)+
      qed
    next
      assume R: ?R
      show ?L
      proof (intro allI impI)
        fix q w assume q: "strict_prefix q (s # p)" and w: "select v q = Inr w"
        show "\<exists>m. w = VObject m"
        proof (cases q)
          case Nil
          with w v show ?thesis by (auto simp: eq_commute)
        next
          case (Cons t q')
          with q have "t = s" and "strict_prefix q' p" by auto
          moreover have "select ?w q' = Inr w"
            using w Cons \<open>t = s\<close> by (auto simp: v select_Cons res_simps split: option.splits)
          ultimately show ?thesis using R by blast
        qed
      qed
    qed
    show ?thesis
    proof (cases "p = []")
      case True
      then show ?thesis using split by (simp add: v)
    next
      case False
      then show ?thesis
        using Cons.IH[of ?w] split by (auto simp: v set_path_Cons res_simps)
    qed
  qed
qed simp

lemma set_path_distinct_targets:
  assumes "try_foldl (\<lambda>v b. bind_res (f b) (\<lambda>x. set_path v (t b) x)) v bs = Inr r"
    and "b \<in> set bs" and "pairwise (\<lambda>a b. \<not> prefix (t a) (t b)) (set bs)" and "distinct bs"
  shows "\<exists>x. f b = Inr x \<and> select r (t b) = Inr x"
proof -
  have keep: "select r p = select v p"
    if "try_foldl (\<lambda>v b. bind_res (f b) (\<lambda>x. set_path v (t b) x)) v bs = Inr r"
      and "\<And>b. b \<in> set bs \<Longrightarrow> \<not> prefix (t b) p \<and> \<not> prefix p (t b)" for bs v r p
    using that by (induction bs arbitrary: v) (auto simp: res_simps dest: set_path_frame[where q = p])
  from assms show ?thesis
  proof (induction bs arbitrary: v)
    case (Cons a bs)
    from Cons.prems(1) obtain x w where x: "f a = Inr x" and w: "set_path v (t a) x = Inr w"
      and rest: "try_foldl (\<lambda>v b. bind_res (f b) (\<lambda>x. set_path v (t b) x)) w bs = Inr r"
      by (auto simp: res_simps)
    show ?case
    proof (cases "b = a")
      case True
      have "\<not> prefix (t c) (t a) \<and> \<not> prefix (t a) (t c)" if "c \<in> set bs" for c
        using Cons.prems(3,4) that by (auto simp: pairwise_def)
      then have "select r (t a) = select w (t a)" by (intro keep[OF rest]) blast
      with set_path_below[OF w, of "[]"] x True show ?thesis by simp
    next
      case False
      with Cons.prems have "b \<in> set bs" "pairwise (\<lambda>a b. \<not> prefix (t a) (t b)) (set bs)" "distinct bs"
        by (auto simp: pairwise_def)
      with Cons.IH[OF rest] show ?thesis by blast
    qed
  qed simp
qed


section \<open>Laws of promotion\<close>

lemma map_filter_set: "y \<in> set (List.map_filter f xs) \<longleftrightarrow> (\<exists>x \<in> set xs. f x = Some y)"
  by (induction xs) (auto simp: map_filter_simps split: option.splits)

lemma set_promotion_candidates:
  "set (promotion_candidates writes paths) =
     {w \<in> set writes. \<exists>p \<in> set paths. prefix p w} \<union> {p \<in> set paths. \<exists>w \<in> set writes. prefix w p}"
proof -
  have "c \<in> set (promotion_candidates writes paths) \<longleftrightarrow>
      (\<exists>p \<in> set paths. \<exists>w \<in> set writes. prefix p w \<and> c = w \<or> \<not> prefix p w \<and> prefix w p \<and> c = p)" for c
    by (auto simp: promotion_candidates_def map_filter_set path_contains_def split: if_splits)
  then show ?thesis by (auto dest: prefix_order.antisym)
qed

lemma bs_wf_filter: "bs_wf s \<Longrightarrow> bs_wf (filter P s)"
  by (simp add: bs_wf_def sorted_wrt_filter)

lemma promoted_write_paths_wf: "bs_wf (promoted_write_paths writes paths)"
  by (simp add: promoted_write_paths_def promotion_candidates_def Let_def bs_wf_filter)

lemma set_promoted_write_paths:
  "c \<in> set (promoted_write_paths writes paths) \<longleftrightarrow>
     c \<in> set (promotion_candidates writes paths)
     \<and> (\<forall>d \<in> set (promotion_candidates writes paths). prefix d c \<longrightarrow> d = c)"
  by (auto simp: promoted_write_paths_def Let_def list_ex_iff path_contains_def)

lemma minimal_prefix:
  assumes "c \<in> S"
  shows "\<exists>m \<in> S. prefix m c \<and> (\<forall>d \<in> S. prefix d m \<longrightarrow> d = m)"
  using assms
proof (induction "length c" arbitrary: c rule: less_induct)
  case less
  show ?case
  proof (cases "\<exists>d \<in> S. prefix d c \<and> d \<noteq> c")
    case True
    then obtain d where d: "d \<in> S" "prefix d c" "d \<noteq> c" by blast
    then have "length d < length c"
      by (meson prefix_length_less strict_prefix_def)
    from less(1)[OF this d(1)] d(2) show ?thesis by (meson prefix_order.trans)
  qed (use less in blast)
qed

lemma promoted_write_paths_cover:
  "c \<in> set (promotion_candidates writes paths) \<Longrightarrow>
   \<exists>m \<in> set (promoted_write_paths writes paths). prefix m c"
  using minimal_prefix[of c "set (promotion_candidates writes paths)"]
  by (auto simp: set_promoted_write_paths)

lemma promoted_write_paths_empty:
  "promoted_write_paths writes [path] = [] \<longleftrightarrow>
     (\<forall>w \<in> set writes. \<not> prefix path w \<and> \<not> prefix w path)"
proof
  assume e: "promoted_write_paths writes [path] = []"
  have "c \<notin> set (promotion_candidates writes [path])" for c
    using promoted_write_paths_cover[of c writes "[path]"] e by auto
  then show "\<forall>w \<in> set writes. \<not> prefix path w \<and> \<not> prefix w path"
    unfolding set_promotion_candidates by auto
next
  assume "\<forall>w \<in> set writes. \<not> prefix path w \<and> \<not> prefix w path"
  then have "set (promotion_candidates writes [path]) = {}"
    unfolding set_promotion_candidates by auto
  then show "promoted_write_paths writes [path] = []"
    by (simp add: promoted_write_paths_def)
qed

section \<open>Laws of visits\<close>

lemma next_visit_mark:
  "visit < u64_max \<Longrightarrow>
   next_visit name idx (mark_visit name' idx' controls visit) =
     (if (name', idx') = (name, idx) then visit + 1 else next_visit name idx controls)"
  by (auto simp: next_visit_def mark_visit_def visit_key_def parse_u64_to_string wrapping_add_exact)

definition count_visits :: "durable_execution list \<Rightarrow> nat" where
  "count_visits es = length (filter (\<lambda>e. de_attempt e = 1) es)"

lemma native_visits_below:
  "requested < visit \<Longrightarrow> native_visits_from visit requested es = []"
  by (induction es arbitrary: visit) (auto simp: Let_def)

text \<open>The visits cut a history of one occurrence into consecutive blocks.\<close>

lemma native_visits_concat:
  "concat (map (\<lambda>i. native_visits_from visit i es) [visit ..< visit + count_visits es + 1]) = es"
proof (induction es arbitrary: visit)
  case Nil
  then show ?case by (simp add: count_visits_def)
next
  case (Cons e es)
  show ?case
  proof (cases "de_attempt e = 1")
    case True
    let ?f = "\<lambda>i. native_visits_from (Suc visit) i es"
    have n: "count_visits (e # es) = Suc (count_visits es)" using True by (simp add: count_visits_def)
    have range: "[visit ..< visit + count_visits (e # es) + 1] =
        visit # Suc visit # [Suc (Suc visit) ..< Suc visit + count_visits es + 1]"
      using n by (simp add: upt_conv_Cons del: upt_Suc)
    have step: "native_visits_from visit i (e # es) = (if i = Suc visit then e # ?f i else ?f i)" for i
      using True by (simp add: Let_def)
    have "?f visit = []" by (rule native_visits_below) simp
    moreover have "concat (map ?f [Suc visit ..< Suc visit + count_visits es + 1]) = es"
      by (rule Cons.IH)
    then have "?f (Suc visit) @ concat (map ?f [Suc (Suc visit) ..< Suc visit + count_visits es + 1]) = es"
      by (simp add: upt_conv_Cons del: upt_Suc)
    moreover have m: "map (\<lambda>i. native_visits_from visit i (e # es))
          [Suc (Suc visit) ..< Suc visit + count_visits es + 1] =
        map ?f [Suc (Suc visit) ..< Suc visit + count_visits es + 1]"
      unfolding step by (intro map_cong refl) auto
    ultimately show ?thesis
      unfolding range list.map concat.simps m using step[of visit] step[of "Suc visit"]
      by (simp del: upt_Suc native_visits_from.simps)
  next
    case False
    let ?f = "\<lambda>i. native_visits_from visit i es"
    have n: "count_visits (e # es) = count_visits es" using False by (simp add: count_visits_def)
    have step: "native_visits_from visit i (e # es) = (if i = visit then e # ?f i else ?f i)" for i
      using False by (simp add: Let_def)
    have "concat (map ?f [visit ..< visit + count_visits es + 1]) = es" by (rule Cons.IH)
    then have "?f visit @ concat (map ?f [Suc visit ..< visit + count_visits es + 1]) = es"
      by (simp add: upt_conv_Cons del: upt_Suc)
    moreover have m: "map (\<lambda>i. native_visits_from visit i (e # es)) [Suc visit ..< visit + count_visits es + 1]
        = map ?f [Suc visit ..< visit + count_visits es + 1]"
      unfolding step by (intro map_cong refl) auto
    moreover have range: "[visit ..< visit + count_visits es + 1] = visit # [Suc visit ..< visit + count_visits es + 1]"
      by (simp add: upt_conv_Cons del: upt_Suc)
    ultimately show ?thesis
      unfolding n range list.map concat.simps m using step[of visit] by (simp del: upt_Suc native_visits_from.simps)
  qed
qed

lemma native_visits_unvisited:
  "es \<noteq> [] \<Longrightarrow> de_attempt (hd es) = 1 \<Longrightarrow> native_visits_from 0 0 es = []"
  by (cases es) (auto simp: Let_def native_visits_below)

section \<open>What an accepted history is\<close>

definition visit_identity :: "execution_mode \<Rightarrow> durable_execution \<Rightarrow> structural_occurrence \<times> u64" where
  "visit_identity mode e = (de_occurrence e,
     (case mode of LegacyAttempts \<Rightarrow> de_attempt e | NativeV2 \<Rightarrow> de_dispatch_position e))"

definition occurrence_history ::
    "durable_execution list \<Rightarrow> structural_occurrence \<Rightarrow> durable_execution list" where
  "occurrence_history es oc = filter (\<lambda>e. de_occurrence e = oc) es"

definition native_lineage :: "durable_execution list \<Rightarrow> bool" where
  "native_lineage es \<longleftrightarrow>
     (es \<noteq> [] \<longrightarrow> de_attempt (hd es) = 1)
     \<and> (\<forall>i. Suc i < length es \<longrightarrow>
          (if de_attempt (es ! Suc i) = 1 then follows_finalized_visit (es ! i) (es ! Suc i)
           else follows_failed_attempt (es ! i) (es ! Suc i)))"

definition history_valid :: "execution_mode \<Rightarrow> durable_execution list \<Rightarrow> bool" where
  "history_valid mode es \<longleftrightarrow>
     distinct (map de_execution es)
     \<and> distinct (map (visit_identity mode) es)
     \<and> (\<forall>a \<in> set es. \<forall>b \<in> set es. de_occurrence a = de_occurrence b \<longleftrightarrow> de_node_instance a = de_node_instance b)
     \<and> (\<forall>oc. case mode of
          LegacyAttempts \<Rightarrow>
            sort (map de_attempt (occurrence_history es oc)) = [1..<Suc (length (occurrence_history es oc))]
        | NativeV2 \<Rightarrow> native_lineage (sort_key de_dispatch_position (occurrence_history es oc)))"

definition fresh_execution :: "execution_mode \<Rightarrow> durable_execution list \<Rightarrow> durable_execution \<Rightarrow> bool" where
  "fresh_execution mode before e \<longleftrightarrow>
     de_execution e \<notin> de_execution ` set before
     \<and> visit_identity mode e \<notin> visit_identity mode ` set before
     \<and> (\<forall>d \<in> set before. de_occurrence d = de_occurrence e \<longleftrightarrow> de_node_instance d = de_node_instance e)"

definition represents ::
    "execution_mode \<Rightarrow> durable_execution list \<Rightarrow> history_visit_identities \<times> instance_maps \<Rightarrow> bool" where
  "represents mode before = (\<lambda>(ids, (instances, inverse)).
     set (hv_ids ids) = de_execution ` set before
     \<and> set (case mode of LegacyAttempts \<Rightarrow> hv_attempts ids | NativeV2 \<Rightarrow> hv_visits ids)
         = visit_identity mode ` set before
     \<and> (\<forall>oc n. bm_get instances oc = Some n \<longleftrightarrow>
          (\<exists>e \<in> set before. de_occurrence e = oc \<and> de_node_instance e = n))
     \<and> (\<forall>oc n. bm_get inverse n = Some oc \<longleftrightarrow>
          (\<exists>e \<in> set before. de_occurrence e = oc \<and> de_node_instance e = n)))"

definition history_step ::
    "execution_mode \<Rightarrow> history_visit_identities \<times> instance_maps \<Rightarrow> durable_execution
       \<Rightarrow> reducer_error + history_visit_identities \<times> instance_maps" where
  "history_step mode = (\<lambda>(identities, maps) execution.
     bind_res (hv_validate identities execution mode) (\<lambda>identities'.
     bind_res (validate_instance_lineage execution maps) (\<lambda>maps'.
     Inr (identities', maps'))))"

lemma hv_validate_ok:
  assumes "represents mode before (ids, maps)"
  shows "hv_validate ids e mode = Inr ids' \<Longrightarrow>
      de_execution e \<notin> de_execution ` set before \<and> visit_identity mode e \<notin> visit_identity mode ` set before
      \<and> set (hv_ids ids') = de_execution ` set (before @ [e])
      \<and> set (case mode of LegacyAttempts \<Rightarrow> hv_attempts ids' | NativeV2 \<Rightarrow> hv_visits ids')
         = visit_identity mode ` set (before @ [e])"
    and "fresh_execution mode before e \<Longrightarrow> \<exists>ids'. hv_validate ids e mode = Inr ids'"
  using assms
  by (cases maps; cases mode; auto simp: represents_def hv_validate_def visit_identity_def Let_def
      fresh_execution_def split: if_splits)+

lemma instance_lineage_ok:
  assumes "represents mode before (ids, maps)"
  shows "validate_instance_lineage e maps = Inr maps' \<longleftrightarrow>
      (\<forall>d \<in> set before. de_occurrence d = de_occurrence e \<longleftrightarrow> de_node_instance d = de_node_instance e)
      \<and> maps' = (bm_insert (de_occurrence e) (de_node_instance e) (fst maps),
                 bm_insert (de_node_instance e) (de_occurrence e) (snd maps))"
proof -
  obtain ins rev_ins where maps: "maps = (ins, rev_ins)" by (cases maps)
  have g: "bm_get ins oc = Some n \<longleftrightarrow> (\<exists>d \<in> set before. de_occurrence d = oc \<and> de_node_instance d = n)"
    and g': "bm_get rev_ins n = Some oc \<longleftrightarrow> (\<exists>d \<in> set before. de_occurrence d = oc \<and> de_node_instance d = n)"
    for oc n using assms by (auto simp: represents_def maps)
  have "(case bm_get ins (de_occurrence e) of None \<Rightarrow> False | Some n \<Rightarrow> n \<noteq> de_node_instance e)
      \<longleftrightarrow> (\<exists>d \<in> set before. de_occurrence d = de_occurrence e \<and> de_node_instance d \<noteq> de_node_instance e)"
    by (cases "bm_get ins (de_occurrence e)") (auto, (metis g option.distinct(1) option.inject)+)
  moreover have "(case bm_get rev_ins (de_node_instance e) of None \<Rightarrow> False | Some oc \<Rightarrow> oc \<noteq> de_occurrence e)
      \<longleftrightarrow> (\<exists>d \<in> set before. de_node_instance d = de_node_instance e \<and> de_occurrence d \<noteq> de_occurrence e)"
    by (cases "bm_get rev_ins (de_node_instance e)") (auto, (metis g' option.distinct(1) option.inject)+)
  ultimately show ?thesis
    by (auto simp: validate_instance_lineage_def maps)
qed

lemma represents_insert:
  assumes "represents mode before (ids, maps)" and "fresh_execution mode before e"
    and "hv_validate ids e mode = Inr ids'"
  shows "represents mode (before @ [e]) (ids',
      (bm_insert (de_occurrence e) (de_node_instance e) (fst maps),
       bm_insert (de_node_instance e) (de_occurrence e) (snd maps)))"
  using hv_validate_ok(1)[OF assms(1,3)] assms(1,2)
  by (cases maps) (auto simp: represents_def fresh_execution_def)

lemma history_step_ok:
  assumes "represents mode before st"
  shows "history_step mode st e = Inr st' \<Longrightarrow> fresh_execution mode before e \<and> represents mode (before @ [e]) st'"
    and "fresh_execution mode before e \<Longrightarrow> \<exists>st'. history_step mode st e = Inr st'"
proof -
  obtain ids maps where st: "st = (ids, maps)" by (cases st)
  note r = assms[unfolded st]
  show "fresh_execution mode before e \<and> represents mode (before @ [e]) st'"
    if "history_step mode st e = Inr st'"
  proof -
    from that obtain ids' maps' where v: "hv_validate ids e mode = Inr ids'"
      and l: "validate_instance_lineage e maps = Inr maps'" and st': "st' = (ids', maps')"
      by (auto simp: history_step_def st res_simps)
    have f: "fresh_execution mode before e"
      using hv_validate_ok(1)[OF r v] instance_lineage_ok[OF r] l by (auto simp: fresh_execution_def)
    show ?thesis
      using f represents_insert[OF r f v] instance_lineage_ok[OF r] l st' by simp
  qed
  show "\<exists>st'. history_step mode st e = Inr st'" if f: "fresh_execution mode before e"
  proof -
    obtain ids' where "hv_validate ids e mode = Inr ids'" using hv_validate_ok(2)[OF r f] by blast
    moreover obtain maps' where "validate_instance_lineage e maps = Inr maps'"
      using instance_lineage_ok[OF r, of e] f by (simp add: fresh_execution_def)
    ultimately show ?thesis by (simp add: history_step_def st)
  qed
qed

fun all_after :: "('a list \<Rightarrow> 'a \<Rightarrow> bool) \<Rightarrow> 'a list \<Rightarrow> 'a list \<Rightarrow> bool" where
  "all_after P before [] = True"
| "all_after P before (e # es) \<longleftrightarrow> P before e \<and> all_after P (before @ [e]) es"

lemma all_after_conj: "all_after (\<lambda>b e. P b e \<and> Q b e) bs es \<longleftrightarrow> all_after P bs es \<and> all_after Q bs es"
  by (induction es arbitrary: bs) auto

lemma all_after_distinct:
  "all_after (\<lambda>b e. f e \<notin> f ` set b) bs es \<longleftrightarrow>
     distinct (map f es) \<and> f ` set bs \<inter> f ` set es = {}"
  by (induction es arbitrary: bs) auto

lemma all_after_related:
  assumes "\<And>a. S a a" and "\<And>a b. S a b \<Longrightarrow> S b a"
  shows "all_after (\<lambda>b e. \<forall>d \<in> set b. S d e) bs es \<longleftrightarrow>
     (\<forall>a \<in> set bs \<union> set es. \<forall>b \<in> set es. S a b)"
  by (induction es arbitrary: bs) (auto intro: assms)

lemma history_fold_ok:
  assumes "represents mode before st"
  shows "(\<exists>st'. try_foldl (history_step mode) st es = Inr st') \<longleftrightarrow> all_after (fresh_execution mode) before es"
    and "try_foldl (history_step mode) st es = Inr st' \<Longrightarrow> represents mode (before @ es) st'"
  using assms
proof (induction es arbitrary: before st)
  case (Cons e es)
  {
    case 1
    then show ?case
      using Cons.IH(1) history_step_ok[OF 1, of e]
      by (fastforce simp: res_simps)
  next
    case 2
    then show ?case
      using Cons.IH(2) history_step_ok(1)[OF 2(2), of e] by (fastforce simp: res_simps)
  }
qed auto

lemma all_fresh_iff:
  "all_after (fresh_execution mode) [] es \<longleftrightarrow>
     distinct (map de_execution es) \<and> distinct (map (visit_identity mode) es)
     \<and> (\<forall>a \<in> set es. \<forall>b \<in> set es.
          de_occurrence a = de_occurrence b \<longleftrightarrow> de_node_instance a = de_node_instance b)"
proof -
  let ?S = "\<lambda>a b. de_occurrence a = de_occurrence b \<longleftrightarrow> de_node_instance a = de_node_instance b"
  have "fresh_execution mode = (\<lambda>b e. de_execution e \<notin> de_execution ` set b
      \<and> visit_identity mode e \<notin> visit_identity mode ` set b \<and> (\<forall>d \<in> set b. ?S d e))"
    by (intro ext) (simp add: fresh_execution_def)
  moreover have "all_after (\<lambda>b e. \<forall>d \<in> set b. ?S d e) [] es \<longleftrightarrow>
      (\<forall>a \<in> set [] \<union> set es. \<forall>b \<in> set es. ?S a b)"
    by (rule all_after_related) auto
  ultimately show ?thesis
    by (simp only: all_after_conj all_after_distinct) simp
qed

lemma windows2_all:
  "(\<forall>x \<in> set (windows2 xs). P x) \<longleftrightarrow> (\<forall>i. Suc i < length xs \<longrightarrow> P (xs ! i, xs ! Suc i))"
proof -
  have "set (windows2 xs) = {(xs ! i, xs ! Suc i) | i. Suc i < length xs}"
    by (auto simp: windows2_def set_zip) (metis Suc_lessI less_diff_conv nth_tl length_tl One_nat_def
        add.commute plus_1_eq_Suc)+
  then show ?thesis by auto
qed

lemma group_occurrences_get:
  "bm_get (group_occurrences es) oc =
     (if occurrence_history es oc = [] then None else Some (occurrence_history es oc))"
  and group_occurrences_wf: "bm_wf (group_occurrences es)"
proof -
  let ?f = "\<lambda>e m. bm_insert (de_occurrence e)
       ((case bm_get m (de_occurrence e) of None \<Rightarrow> [] | Some es \<Rightarrow> es) @ [e]) m"
  have "bm_get (fold ?f es m) oc =
      (if occurrence_history es oc = [] then bm_get m oc
       else Some ((case bm_get m oc of None \<Rightarrow> [] | Some es \<Rightarrow> es) @ occurrence_history es oc))" for m
    by (induction es arbitrary: m) (auto simp: occurrence_history_def)
  then show "bm_get (group_occurrences es) oc =
     (if occurrence_history es oc = [] then None else Some (occurrence_history es oc))"
    by (simp add: group_occurrences_def)
  have "bm_wf m \<Longrightarrow> bm_wf (fold ?f es m)" for m
    by (induction es arbitrary: m) auto
  then show "bm_wf (group_occurrences es)" by (simp add: group_occurrences_def)
qed

lemma validate_occurrence_lineage_ok:
  assumes "es \<noteq> []"
  shows "validate_occurrence_lineage es = Inr () \<longleftrightarrow> native_lineage (sort_key de_dispatch_position es)"
proof -
  have ne: "sort_key de_dispatch_position es \<noteq> []"
    using assms by (metis length_0_conv length_sort)
  have "validate_attempt_pair (a, b) = Inr () \<longleftrightarrow>
      (if de_attempt b = 1 then follows_finalized_visit a b else follows_failed_attempt a b)" for a b
    by (auto simp: validate_attempt_pair_def)
  then show ?thesis
    using ne by (auto simp: validate_occurrence_lineage_def native_lineage_def Let_def try_all_ok
        windows2_all INITIAL_ATTEMPT_def split_beta)
qed

lemma validate_native_ok:
  "validate_native_attempt_lineage es = Inr () \<longleftrightarrow>
     (\<forall>oc. native_lineage (sort_key de_dispatch_position (occurrence_history es oc)))"
proof -
  have "(oc, l) \<in> set (group_occurrences es) \<longleftrightarrow>
      l = occurrence_history es oc \<and> occurrence_history es oc \<noteq> []" for oc l
    using bm_get_iff[OF group_occurrences_wf, of es oc l]
    by (auto simp: group_occurrences_get split: if_splits)
  note member = this
  have "validate_native_attempt_lineage es = Inr () \<longleftrightarrow>
      (\<forall>oc l. (oc, l) \<in> set (group_occurrences es) \<longrightarrow> validate_occurrence_lineage l = Inr ())"
    unfolding validate_native_attempt_lineage_def try_all_ok by (auto simp: split_beta)
  then have "validate_native_attempt_lineage es = Inr () \<longleftrightarrow>
      (\<forall>oc. occurrence_history es oc \<noteq> [] \<longrightarrow> validate_occurrence_lineage (occurrence_history es oc) = Inr ())"
    unfolding member by blast
  also have "\<dots> \<longleftrightarrow> (\<forall>oc. native_lineage (sort_key de_dispatch_position (occurrence_history es oc)))"
  proof -
    have "native_lineage (sort_key de_dispatch_position [])" by (simp add: native_lineage_def)
    then show ?thesis using validate_occurrence_lineage_ok by metis
  qed
  finally show ?thesis .
qed

lemma validate_legacy_ok:
  "set ocs = de_occurrence ` set es \<Longrightarrow>
   try_all (validate_legacy_attempts es) ocs = Inr () \<longleftrightarrow>
     (\<forall>oc. sort (map de_attempt (occurrence_history es oc)) = [1..<Suc (length (occurrence_history es oc))])"
proof -
  assume keys: "set ocs = de_occurrence ` set es"
  have "occurrence_history es oc = []" if "oc \<notin> set ocs" for oc
    using that keys by (auto simp: occurrence_history_def filter_empty_conv)
  moreover have "validate_legacy_attempts es oc = Inr () \<longleftrightarrow>
      sort (map de_attempt (occurrence_history es oc)) = [1..<Suc (length (occurrence_history es oc))]" for oc
    by (simp add: validate_legacy_attempts_def occurrence_history_def Let_def del: upt_Suc)
  ultimately show ?thesis
    unfolding try_all_ok by (metis list.map(1) list.size(3) sort_key_simps(1) upt_rec less_irrefl One_nat_def)
qed

lemma validate_history_iff:
  "validate_history_for_mode es mode = Inr () \<longleftrightarrow> history_valid mode es"
proof -
  have r0: "represents mode [] (hv_default, ([], []))"
    by (cases mode) (auto simp: represents_def hv_default_def)
  have step: "validate_history_for_mode es mode =
      bind_res (try_foldl (history_step mode) (hv_default, ([], [])) es) (\<lambda>(_, (instances, _)).
        if mode = LegacyAttempts then try_all (validate_legacy_attempts es) (bm_keys instances)
        else validate_native_attempt_lineage es)"
    by (simp add: validate_history_for_mode_def history_step_def)
  have fresh: "all_after (fresh_execution mode) [] es \<longleftrightarrow>
      distinct (map de_execution es) \<and> distinct (map (visit_identity mode) es)
      \<and> (\<forall>a \<in> set es. \<forall>b \<in> set es.
           de_occurrence a = de_occurrence b \<longleftrightarrow> de_node_instance a = de_node_instance b)"
    by (simp add: all_fresh_iff)
  show ?thesis
  proof (cases "try_foldl (history_step mode) (hv_default, ([], [])) es")
    case (Inl err)
    then have "\<not> all_after (fresh_execution mode) [] es" using history_fold_ok(1)[OF r0, of es] by simp
    with fresh Inl show ?thesis by (auto simp: step history_valid_def)
  next
    case (Inr st)
    then have ok: "all_after (fresh_execution mode) [] es" using history_fold_ok(1)[OF r0, of es] by blast
    obtain ids ins rev_ins where st: "st = (ids, (ins, rev_ins))" by (cases st) auto
    have rep: "represents mode es st" using history_fold_ok(2)[OF r0 Inr] by simp
    have "oc \<in> set (bm_keys ins) \<longleftrightarrow> oc \<in> de_occurrence ` set es" for oc
    proof -
      have "oc \<in> set (bm_keys ins) \<longleftrightarrow> (\<exists>n. bm_get ins oc = Some n)"
        using bm_get_None[of ins oc] by (auto simp: bm_keys_def)
      also have "\<dots> \<longleftrightarrow> oc \<in> de_occurrence ` set es" using rep by (auto simp: represents_def st)
      finally show ?thesis .
    qed
    then have "set (bm_keys ins) = de_occurrence ` set es" by blast
    note lineage = validate_legacy_ok[OF this] validate_native_ok[of es]
    have "validate_history_for_mode es mode =
        (if mode = LegacyAttempts then try_all (validate_legacy_attempts es) (bm_keys ins)
         else validate_native_attempt_lineage es)"
      by (simp add: step Inr st)
    moreover have "history_valid mode es \<longleftrightarrow> (\<forall>oc. case mode of
          LegacyAttempts \<Rightarrow>
            sort (map de_attempt (occurrence_history es oc)) = [1..<Suc (length (occurrence_history es oc))]
        | NativeV2 \<Rightarrow> native_lineage (sort_key de_dispatch_position (occurrence_history es oc)))"
      using ok fresh by (simp only: history_valid_def) blast
    ultimately show ?thesis
      using lineage by (cases mode) (simp_all only: execution_mode.simps if_True if_False simp_thms)
  qed
qed


section \<open>Attempts inside one visit\<close>

fun attempt_chain :: "nat \<Rightarrow> durable_execution list \<Rightarrow> bool" where
  "attempt_chain a [] = True"
| "attempt_chain a (e # es) \<longleftrightarrow>
     (de_attempt e = 1 \<or> de_attempt e = Suc a) \<and> attempt_chain (de_attempt e) es"

lemma attempt_chain_nth:
  "attempt_chain a es \<longleftrightarrow>
     (es \<noteq> [] \<longrightarrow> de_attempt (hd es) = 1 \<or> de_attempt (hd es) = Suc a)
     \<and> (\<forall>i. Suc i < length es \<longrightarrow>
          de_attempt (es ! Suc i) = 1 \<or> de_attempt (es ! Suc i) = Suc (de_attempt (es ! i)))"
proof (induction es arbitrary: a)
  case (Cons e es)
  have "(\<forall>i. Suc i < length (e # es) \<longrightarrow> Q ((e # es) ! i) ((e # es) ! Suc i)) \<longleftrightarrow>
      (es \<noteq> [] \<longrightarrow> Q e (hd es)) \<and> (\<forall>i. Suc i < length es \<longrightarrow> Q (es ! i) (es ! Suc i))" for Q
    by (cases es) (auto simp: less_Suc_eq_0_disj nth_Cons split: nat.splits)
  from this[of "\<lambda>x y. de_attempt y = 1 \<or> de_attempt y = Suc (de_attempt x)"] show ?case
    using Cons[of "de_attempt e"] by auto
qed simp

lemma native_lineage_chain: "native_lineage es \<Longrightarrow> attempt_chain 0 es"
  by (auto simp: native_lineage_def attempt_chain_nth follows_failed_attempt_def checked_add_Some
      split: if_splits)

lemma visit_attempts_current:
  "attempt_chain a es \<Longrightarrow> 0 < a \<Longrightarrow>
   map de_attempt (native_visits_from v v es) = [Suc a ..< Suc a + length (native_visits_from v v es)]"
  by (induction es arbitrary: a) (auto simp: Let_def native_visits_below upt_conv_Cons simp del: upt_Suc)

lemma visit_attempts_later:
  "attempt_chain a es \<Longrightarrow> v < i \<Longrightarrow>
   map de_attempt (native_visits_from v i es) = [1 ..< Suc (length (native_visits_from v i es))]"
proof (induction es arbitrary: a v)
  case (Cons e es)
  show ?case
  proof (cases "de_attempt e = 1 \<and> i = Suc v")
    case True
    then show ?thesis
      using Cons.prems visit_attempts_current[of 1 es i]
      by (simp add: Let_def upt_conv_Cons del: upt_Suc)
  next
    case False
    then show ?thesis using Cons by (auto simp: Let_def simp del: upt_Suc)
  qed
qed simp

lemma native_visit_attempts:
  assumes "native_lineage es" and "0 < n"
  shows "map de_attempt (native_visit_executions es n) = [1 ..< Suc (length (native_visit_executions es n))]"
  unfolding native_visit_executions_def
  by (rule visit_attempts_later[OF native_lineage_chain[OF assms(1)] assms(2)])

section \<open>Evaluation rules\<close>

lemma collect_optional_promotions_eqs [exec_simps]:
  "collect_optional_promotions (StepNode st) m = Inr m"
  "collect_optional_promotions (VerifierNode vn) m = Inr m"
  "collect_optional_promotions (SucceedNode su) m = Inr m"
  "collect_optional_promotions (FailNode fa) m = Inr m"
  "collect_optional_promotions (SeqNode n s cs ps) m = bind_res (optional_paths_of s ps) (\<lambda>opt.
     try_foldl (\<lambda>acc child. collect_optional_promotions child acc) (bm_insert n opt m) cs)"
  "collect_optional_promotions (ParNode n s cs ps j) m = bind_res (optional_paths_of s ps) (\<lambda>opt.
     try_foldl (\<lambda>acc child. collect_optional_promotions child acc) (bm_insert n opt m) cs)"
  "collect_optional_promotions (LoopNode n s b u i f ps) m = bind_res (optional_paths_of s ps) (\<lambda>opt.
     collect_optional_promotions b (bm_insert n opt m))"
  "collect_optional_promotions (MapNode n s b sel i ps) m = bind_res (optional_paths_of s ps) (\<lambda>opt.
     collect_optional_promotions b (bm_insert n opt m))"
  by (simp_all add: bind_res_assoc
      collect_optional_promotions.simps[of "StepNode st"]
      collect_optional_promotions.simps[of "VerifierNode vn"]
      collect_optional_promotions.simps[of "SucceedNode su"]
      collect_optional_promotions.simps[of "FailNode fa"]
      collect_optional_promotions.simps[of "SeqNode n s cs ps"]
      collect_optional_promotions.simps[of "ParNode n s cs ps j"]
      collect_optional_promotions.simps[of "LoopNode n s b u i f ps"]
      collect_optional_promotions.simps[of "MapNode n s b sel i ps"])

declare collect_map_depths.simps [exec_simps] collect_executable_depths.simps [exec_simps]
  child_depth_def [exec_simps] is_map_node_def [exec_simps] is_executable_def [exec_simps]
  optional_paths_of_def [exec_simps] promotion_path_is_optional_def [exec_simps]
  validate_history_for_mode_def [exec_simps] validate_native_attempt_lineage_def [exec_simps]
  group_occurrences_def [exec_simps] validate_occurrence_lineage_def [exec_simps]
  validate_instance_lineage_def [exec_simps] hv_validate_def [exec_simps] hv_default_def [exec_simps]
  windows2_def [exec_simps] INITIAL_ATTEMPT_def [exec_simps] HistoryPosition_ZERO_def [exec_simps]
  next_visit_def [exec_simps] mark_visit_def [exec_simps] native_visit_executions_def [exec_simps]
  wrapping_add_def [exec_simps] checked_add_def [exec_simps] u64_max_def [exec_simps]
  bind_payload_def [exec_simps] select_data_def [exec_simps] select_def [exec_simps]
  PositiveIdentity_new_def [exec_simps] Context_new_def [exec_simps] clear_writes_def [exec_simps]
  descendant_names_def [exec_simps] bm_keys_def [exec_simps] Let_def [exec_simps]
  map_filter_simps [exec_simps] promote_def [exec_simps] promote_path_def [exec_simps]
  merge_runtime_facts_def [exec_simps] visit_key_def [exec_simps] visit_field_def [exec_simps]

end
