(* ===== verification/Reducer_Engine.thy ===== *)
theory Reducer_Engine
  imports Reducer_Values
begin

text \<open>
  The engine of the full-v1 reducer without its recursion over the graph: the state of
  \<^verbatim>\<open>Engine\<close> in \<^verbatim>\<open>full_v1_reducer.rs\<close>, guards, controls and cancellation
  (\<^verbatim>\<open>full_v1_reducer/control.rs\<close>), the bounded structural trace (\<^verbatim>\<open>full_v1_reducer/trace.rs\<close>)
  and the evaluation of one executable visit (\<^verbatim>\<open>full_v1_reducer/evaluation.rs\<close> and
  \<^verbatim>\<open>evaluation/state.rs\<close>).

  A method on \<open>&mut self\<close> takes the engine and returns the new one. The first argument of
  \<open>trace_terminal\<close> is the length of the text \<^verbatim>\<open>serde_json::to_writer\<close> writes for a value.
\<close>

section \<open>Boundaries, traversals and statuses\<close>

record execution_boundary =
  eb_node :: node_name
  eb_map_indices :: "u64 list"
  eb_loop_iterations :: "u64 list"
  eb_attempt :: u64

record traversal =
  tr_map_indices :: "u64 list"
  tr_loop_iterations :: "u64 list"
  tr_boundary :: "execution_boundary option"
  tr_item :: "json option"
  tr_mode :: eval_mode
  tr_cutoff :: history_position

datatype status =
    Pending
  | Continue history_position
  | Terminal history_position terminal_result

definition status_position :: "status \<Rightarrow> history_position" where
  "status_position s =
     (case s of Pending \<Rightarrow> HistoryPosition_MAX | Continue p \<Rightarrow> p | Terminal p _ \<Rightarrow> p)"

definition status_after :: "status \<Rightarrow> history_position \<Rightarrow> status" where
  "status_after s prior =
     (case s of Terminal p projection \<Rightarrow> Terminal (max p prior) projection | other \<Rightarrow> other)"

record executable_spec =
  es_name :: node_name
  es_worker :: worker_ref
  es_input_bindings :: "input_binding list"
  es_write_bindings :: "write_binding list"
  es_attempt_ceiling :: positive_integer
  es_verifier :: bool

record void_cutoff =
  vc_position :: history_position
  vc_reason :: execution_void_reason

record void_scope =
  vs_map_indices :: "u64 list"
  vs_cutoff :: history_position
  vs_reason :: execution_void_reason
  vs_emit_decisions :: bool

section \<open>The trace collector\<close>

definition MAX_TRACE_RECORDS :: nat where "MAX_TRACE_RECORDS = 16384"
definition MAX_TRACE_EVALUATIONS :: nat where "MAX_TRACE_EVALUATIONS = 65536"
definition MAX_TRACE_BYTES :: nat where "MAX_TRACE_BYTES = 4 * 1024 * 1024"

datatype structural_trace_state = TraceEntered | TraceCompleted | TraceSucceeded | TraceFailed

record structural_trace =
  sx_node :: node_name
  sx_map_indices :: "u64 list"
  sx_loop_iterations :: "u64 list"
  sx_state :: structural_trace_state
  sx_branch :: "node_name option"
  sx_detail :: "string option"
  sx_output :: "json option"

record trace_collector =
  tc_records :: "structural_trace list"
  tc_evaluations :: nat
  tc_bytes :: nat

definition trace_default :: trace_collector where
  "trace_default = \<lparr>tc_records = [], tc_evaluations = 0, tc_bytes = 0\<rparr>"

definition collector_enter ::
    "trace_collector \<Rightarrow> graph_node \<Rightarrow> traversal \<Rightarrow> reducer_error + trace_collector \<times> nat option" where
  "collector_enter self node trav =
     (let self = self\<lparr>tc_evaluations := tc_evaluations self + 1\<rparr>
      in if tc_evaluations self > MAX_TRACE_EVALUATIONS then Inl TraceLimit
         else if is_executable node then Inr (self, None)
         else if length (tc_records self) \<ge> MAX_TRACE_RECORDS then Inl TraceLimit
         else
           let self = self\<lparr>tc_bytes := saturating_add (tc_bytes self)
                 (1024 + 8 * (length (tr_map_indices trav) + length (tr_loop_iterations trav)))\<rparr>
           in if tc_bytes self > MAX_TRACE_BYTES then Inl TraceLimit
              else Inr (self\<lparr>tc_records := tc_records self @
                     [\<lparr>sx_node = node_name node, sx_map_indices = tr_map_indices trav,
                       sx_loop_iterations = tr_loop_iterations trav, sx_state = TraceEntered,
                       sx_branch = None, sx_detail = None, sx_output = None\<rparr>]\<rparr>,
                   Some (length (tc_records self))))"

definition collector_finish ::
    "trace_collector \<Rightarrow> nat \<Rightarrow> status \<Rightarrow> eval_context \<Rightarrow> trace_collector" where
  "collector_finish self index status context =
     (let r = tc_records self ! index;
          r = (if status \<noteq> Pending then r\<lparr>sx_state := TraceCompleted\<rparr> else r);
          r = r\<lparr>sx_detail := map_option snd (find (\<lambda>(key, _).
                ck_node key = sx_node r \<and> ck_source key = SourceGroup
                \<and> ck_map_indices key = sx_map_indices r) (ctx_controls context))\<rparr>
      in self\<lparr>tc_records := (tc_records self)[index := r]\<rparr>)"

section \<open>The engine\<close>

record engine =
  eng_boundary :: "execution_boundary option"
  eng_executions :: "durable_execution list"
  eng_next_node_instance :: u64
  eng_next_execution :: u64
  eng_decisions :: "decision list"
  eng_map_depths :: "(node_name, nat) btree_map"
  eng_optional_promotions :: "(node_name, field_path btree_set) btree_map"
  eng_consumed_executions :: "execution_id btree_set"
  eng_void_cutoffs :: "(execution_id, void_cutoff) btree_map"
  eng_execution_mode :: execution_mode
  eng_trace :: "trace_collector option"

record reduction_input =
  ri_initial_input :: json
  ri_executions :: "durable_execution list"
  ri_next_node_instance :: u64
  ri_next_execution :: u64

definition execution_out_of_graph ::
    "reduction_input \<Rightarrow> (node_name, nat) btree_map \<Rightarrow> durable_execution \<Rightarrow> bool" where
  "execution_out_of_graph input executable_depths execution \<longleftrightarrow>
     de_execution execution \<ge> ri_next_execution input
     \<or> de_node_instance execution \<ge> ri_next_node_instance input
     \<or> (case bm_get executable_depths (so_node (de_occurrence execution)) of
          None \<Rightarrow> True
        | Some depth \<Rightarrow> depth \<noteq> length (so_map_indices (de_occurrence execution)))"

definition Engine_new ::
    "reduction_input \<Rightarrow> graph_node \<Rightarrow> execution_mode \<Rightarrow> reducer_error + engine" where
  "Engine_new input root mode =
     bind_res (validate_history_for_mode (ri_executions input) mode) (\<lambda>_.
     bind_res (collect_optional_promotions root []) (\<lambda>optional_promotions.
     if list_ex (execution_out_of_graph input (collect_executable_depths root 0 []))
          (ri_executions input)
     then Inl InconsistentHistory
     else Inr
       \<lparr>eng_boundary = None,
        eng_executions = ri_executions input,
        eng_next_node_instance = ri_next_node_instance input,
        eng_next_execution = ri_next_execution input,
        eng_decisions = [],
        eng_map_depths = collect_map_depths root 0 [],
        eng_optional_promotions = optional_promotions,
        eng_consumed_executions = [],
        eng_void_cutoffs = [],
        eng_execution_mode = mode,
        eng_trace = None\<rparr>))"

definition execution_accounted :: "engine \<Rightarrow> durable_execution \<Rightarrow> bool" where
  "execution_accounted self execution \<longleftrightarrow>
     de_execution execution \<in> set (eng_consumed_executions self)
     \<and> (case de_state execution of
          ExecVoided position reason \<Rightarrow>
            (case bm_get (eng_void_cutoffs self) (de_execution execution) of
               None \<Rightarrow> False
             | Some cutoff \<Rightarrow> position > vc_position cutoff \<and> reason = vc_reason cutoff)
        | ExecActive \<Rightarrow> True
        | ExecSettled _ _ \<Rightarrow> True)"

definition ensure_history_consumed :: "engine \<Rightarrow> reducer_error + unit" where
  "ensure_history_consumed self =
     (if list_all (execution_accounted self) (eng_executions self) then Inr ()
      else Inl InconsistentHistory)"

definition push_decision :: "decision \<Rightarrow> engine \<Rightarrow> engine" where
  "push_decision d self = self\<lparr>eng_decisions := eng_decisions self @ [d]\<rparr>"

definition is_void_of :: "execution_id \<Rightarrow> decision \<Rightarrow> bool" where
  "is_void_of execution d = (case d of VoidLoser existing _ \<Rightarrow> existing = execution | _ \<Rightarrow> False)"

definition push_void_decision :: "engine \<Rightarrow> execution_id \<Rightarrow> execution_void_reason \<Rightarrow> engine" where
  "push_void_decision self execution reason =
     (if \<not> list_ex (is_void_of execution) (eng_decisions self)
      then push_decision (VoidLoser execution reason) self else self)"

fun unique_voids :: "execution_id btree_set \<Rightarrow> decision list \<Rightarrow> decision list" where
  "unique_voids seen [] = []"
| "unique_voids seen (VoidLoser e r # ds) =
     (if e \<notin> set seen then VoidLoser e r # unique_voids (bs_insert e seen) ds
      else unique_voids seen ds)"
| "unique_voids seen (d # ds) = d # unique_voids seen ds"

definition dispatch_position_of :: "durable_execution list \<Rightarrow> execution_id \<Rightarrow> history_position" where
  "dispatch_position_of executions execution =
     (case find (\<lambda>candidate. de_execution candidate = execution) executions of
        None \<Rightarrow> HistoryPosition_MAX
      | Some candidate \<Rightarrow> de_dispatch_position candidate)"

definition void_entries ::
    "durable_execution list \<Rightarrow> decision list
       \<Rightarrow> (nat \<times> (history_position \<times> execution_id \<times> decision)) list" where
  "void_entries executions decisions =
     List.map_filter (\<lambda>(index, d).
         case d of
           VoidLoser execution _ \<Rightarrow>
             Some (index, (dispatch_position_of executions execution, execution, d))
         | _ \<Rightarrow> None)
       (enumerate 0 decisions)"

definition canonical_voids :: "durable_execution list \<Rightarrow> decision list \<Rightarrow> decision list" where
  "canonical_voids executions decisions =
     (let decisions = unique_voids [] decisions;
          entries = void_entries executions decisions;
          slots = map fst entries;
          voids = sort_key (\<lambda>(position, execution, _). (position, execution)) (map snd entries)
      in fold (\<lambda>(index, (_, _, d)) ds. ds[index := d]) (zip slots voids) decisions)"

definition canonicalize_void_decisions :: "engine \<Rightarrow> engine" where
  "canonicalize_void_decisions self =
     self\<lparr>eng_decisions := canonical_voids (eng_executions self) (eng_decisions self)\<rparr>"

section \<open>Guards and controls\<close>

definition map_depth_of :: "engine \<Rightarrow> node_name \<Rightarrow> nat" where
  "map_depth_of self name = (case bm_get (eng_map_depths self) name of None \<Rightarrow> 0 | Some d \<Rightarrow> d)"

definition control_key_selected ::
    "engine \<Rightarrow> control_selector \<Rightarrow> u64 list \<Rightarrow> control_key \<Rightarrow> bool" where
  "control_key_selected self selector map_indices key \<longleftrightarrow>
     (let depth = map_depth_of self (cs_name selector);
          aggregate = depth > length map_indices
      in ck_node key = cs_name selector
         \<and> ck_source key = cs_source selector
         \<and> ck_field key = cs_field selector
         \<and> (if aggregate
            then prefix map_indices (ck_map_indices key) \<and> length (ck_map_indices key) = depth
            else depth \<le> length map_indices \<and> ck_map_indices key = take depth map_indices))"

definition control_values ::
    "engine \<Rightarrow> control_selector \<Rightarrow> eval_context \<Rightarrow> u64 list \<Rightarrow> string list" where
  "control_values self selector context map_indices =
     map snd (filter (\<lambda>(key, _). control_key_selected self selector map_indices key)
       (ctx_controls context))"

function guard :: "engine \<Rightarrow> guard \<Rightarrow> eval_context \<Rightarrow> u64 list \<Rightarrow> reducer_error + bool" where
  "guard self (GIn value labels) context map_indices =
     Inr (list_ex (\<lambda>actual. actual \<in> set labels) (control_values self value context map_indices))"
| "guard self (GAll guards) context map_indices =
     try_foldl (\<lambda>matches g.
         if matches then guard self g context map_indices else Inr False) True guards"
| "guard self (GAny guards) context map_indices =
     try_foldl (\<lambda>matches g.
         if matches then Inr True else guard self g context map_indices) False guards"
| "guard self (GNot g) context map_indices =
     bind_res (guard self g context map_indices) (\<lambda>b. Inr (\<not> b))"
| "guard self (GKOfN k values labels) context map_indices =
     Inr (length (filter (\<lambda>selector.
         list_ex (\<lambda>actual. actual \<in> set labels) (control_values self selector context map_indices))
       values) \<ge> k)"
| "guard self (GKOfMap k value labels) context map_indices =
     Inr (length (filter (\<lambda>actual. actual \<in> set labels)
       (control_values self value context map_indices)) \<ge> k)"
  by pat_completeness auto
termination
  by (relation "measure (\<lambda>(_, g, _, _). size g)")
    (auto dest!: size_member_list simp: less_Suc_eq_le)

definition set_control ::
    "engine \<Rightarrow> node_name \<Rightarrow> control_source \<Rightarrow> string option \<Rightarrow> string \<Rightarrow> u64 list
       \<Rightarrow> eval_context \<Rightarrow> eval_context" where
  "set_control self node source field label map_indices context =
     context\<lparr>ctx_controls :=
       bm_insert (ControlKey node source field (take (map_depth_of self node) map_indices)) label
         (ctx_controls context)\<rparr>"

definition set_group_control ::
    "engine \<Rightarrow> node_name \<Rightarrow> string \<Rightarrow> string \<Rightarrow> u64 list \<Rightarrow> eval_context \<Rightarrow> eval_context" where
  "set_group_control self node field label map_indices context =
     set_control self node SourceGroup (Some field) label map_indices context"

definition continue_decision :: "engine \<Rightarrow> node_name \<Rightarrow> eval_mode \<Rightarrow> engine" where
  "continue_decision self node mode =
     (if mode = Decide then push_decision (ContinueDecision node) self else self)"

section \<open>Cancellation\<close>

definition record_void_cutoff ::
    "engine \<Rightarrow> execution_id \<Rightarrow> history_position \<Rightarrow> execution_void_reason
       \<Rightarrow> engine \<times> execution_void_reason" where
  "record_void_cutoff self execution position reason =
     (let fresh = \<lparr>vc_position = position, vc_reason = reason\<rparr>;
          cutoff = (case bm_get (eng_void_cutoffs self) execution of None \<Rightarrow> fresh | Some c \<Rightarrow> c);
          cutoff = (if position < vc_position cutoff then fresh else cutoff)
      in (self\<lparr>eng_void_cutoffs := bm_insert execution cutoff (eng_void_cutoffs self)\<rparr>,
          vc_reason cutoff))"

definition not_settled :: "durable_execution \<Rightarrow> bool" where
  "not_settled execution = (case de_state execution of ExecSettled _ _ \<Rightarrow> False | _ \<Rightarrow> True)"

definition loser_key :: "durable_execution \<Rightarrow> history_position \<times> execution_id \<times> bool" where
  "loser_key execution =
     (de_dispatch_position execution, de_execution execution, de_state execution = ExecActive)"

definition void_loser ::
    "void_scope \<Rightarrow> history_position \<times> execution_id \<times> bool \<Rightarrow> engine \<Rightarrow> engine" where
  "void_loser scope = (\<lambda>(_, execution, active) self.
     let (self, reason) = record_void_cutoff self execution (vs_cutoff scope) (vs_reason scope)
     in if active \<and> vs_emit_decisions scope then push_void_decision self execution reason else self)"

definition void_active_descendants :: "engine \<Rightarrow> graph_node \<Rightarrow> void_scope \<Rightarrow> engine" where
  "void_active_descendants self node scope =
     (let descendants = descendant_names node;
          losers = sort (map loser_key (filter (\<lambda>execution.
              de_execution execution \<in> set (eng_consumed_executions self)
              \<and> so_node (de_occurrence execution) \<in> set descendants
              \<and> prefix (vs_map_indices scope) (so_map_indices (de_occurrence execution))
              \<and> not_settled execution) (eng_executions self)))
      in fold (void_loser scope) losers self)"

definition void_map_losers :: "engine \<Rightarrow> graph_node \<Rightarrow> void_scope \<Rightarrow> u64 list \<Rightarrow> engine" where
  "void_map_losers self body scope winner_scope =
     (let descendants = descendant_names body;
          losers = sort (map loser_key (filter (\<lambda>execution.
              de_execution execution \<in> set (eng_consumed_executions self)
              \<and> so_node (de_occurrence execution) \<in> set descendants
              \<and> prefix (vs_map_indices scope) (so_map_indices (de_occurrence execution))
              \<and> \<not> prefix winner_scope (so_map_indices (de_occurrence execution))
              \<and> not_settled execution) (eng_executions self)))
      in fold (void_loser scope) losers self)"

section \<open>Tracing on the engine\<close>

definition trace_enter ::
    "engine \<Rightarrow> graph_node \<Rightarrow> traversal \<Rightarrow> reducer_error + engine \<times> nat option" where
  "trace_enter self node trav =
     (case eng_trace self of
        None \<Rightarrow> Inr (self, None)
      | Some trace \<Rightarrow>
          bind_res (collector_enter trace node trav) (\<lambda>(trace, index).
            Inr (self\<lparr>eng_trace := Some trace\<rparr>, index)))"

definition trace_finish :: "engine \<Rightarrow> nat option \<Rightarrow> status \<Rightarrow> eval_context \<Rightarrow> engine" where
  "trace_finish self index status context =
     (case (eng_trace self, index) of
        (Some trace, Some i) \<Rightarrow> self\<lparr>eng_trace := Some (collector_finish trace i status context)\<rparr>
      | _ \<Rightarrow> self)"

fun mark_branch :: "node_name \<Rightarrow> node_name \<Rightarrow> structural_trace list \<Rightarrow> structural_trace list" where
  "mark_branch node branch [] = []"
| "mark_branch node branch (r # rs) =
     (if sx_node r = node then r\<lparr>sx_branch := Some branch\<rparr> # rs
      else r # mark_branch node branch rs)"

definition trace_branch :: "engine \<Rightarrow> node_name \<Rightarrow> node_name \<Rightarrow> engine" where
  "trace_branch self node branch =
     (case eng_trace self of
        None \<Rightarrow> self
      | Some trace \<Rightarrow> self\<lparr>eng_trace := Some (trace\<lparr>tc_records :=
          rev (mark_branch node branch (rev (tc_records trace)))\<rparr>)\<rparr>)"

definition trace_terminal ::
    "(json \<Rightarrow> nat) \<Rightarrow> engine \<Rightarrow> nat option \<Rightarrow> status \<Rightarrow> reducer_error + engine" where
  "trace_terminal json_len self index status =
     (case (eng_trace self, index, status) of
        (Some trace, Some i, Terminal _ projection) \<Rightarrow>
          (let r = tc_records trace ! i
           in case projection of
                Succeeded output \<Rightarrow>
                  (let bytes = saturating_add (tc_bytes trace) (json_len output)
                   in if bytes > MAX_TRACE_BYTES then Inl TraceLimit
                      else Inr (self\<lparr>eng_trace := Some (trace\<lparr>
                             tc_bytes := bytes,
                             tc_records := (tc_records trace)[i :=
                               r\<lparr>sx_state := TraceSucceeded, sx_output := Some output\<rparr>]\<rparr>)\<rparr>))
              | Failed reason _ \<Rightarrow>
                  Inr (self\<lparr>eng_trace := Some (trace\<lparr>
                    tc_records := (tc_records trace)[i :=
                      r\<lparr>sx_state := TraceFailed, sx_detail := Some reason\<rparr>]\<rparr>)\<rparr>))
      | _ \<Rightarrow> Inr self)"

definition trace_checkpoint :: "engine \<Rightarrow> nat" where
  "trace_checkpoint self =
     (case eng_trace self of None \<Rightarrow> 0 | Some trace \<Rightarrow> length (tc_records trace))"

definition take_trace_since :: "engine \<Rightarrow> nat \<Rightarrow> engine \<times> structural_trace list" where
  "take_trace_since self checkpoint =
     (case eng_trace self of
        None \<Rightarrow> (self, [])
      | Some trace \<Rightarrow>
          (self\<lparr>eng_trace := Some (trace\<lparr>tc_records := take checkpoint (tc_records trace)\<rparr>)\<rparr>,
           drop checkpoint (tc_records trace)))"

definition restore_trace :: "engine \<Rightarrow> structural_trace list \<Rightarrow> reducer_error + engine" where
  "restore_trace self records =
     (case eng_trace self of
        None \<Rightarrow> Inr self
      | Some trace \<Rightarrow>
          if saturating_add (length (tc_records trace)) (length records) > MAX_TRACE_RECORDS
          then Inl TraceLimit
          else Inr (self\<lparr>eng_trace := Some (trace\<lparr>tc_records := tc_records trace @ records\<rparr>)\<rparr>))"

section \<open>One executable visit\<close>

record executable_visit =
  ev_occurrence :: structural_occurrence
  ev_matching :: "durable_execution list"
  ev_executions :: "durable_execution list"
  ev_number :: u64
  ev_attempt :: positive_integer
  ev_existing :: "durable_execution option"

datatype visit_resolution = Exhausted | Ready executable_visit

definition attempts_exhausted_reason :: "reducer_error + enum_label" where
  "attempts_exhausted_reason =
     (case EnumLabel_new ''attempts_exhausted'' of
        Inl _ \<Rightarrow> Inl InconsistentHistory | Inr label \<Rightarrow> Inr label)"

definition attempts_exhausted :: "reducer_error + status" where
  "attempts_exhausted =
     bind_res attempts_exhausted_reason (\<lambda>reason.
       Inr (Terminal HistoryPosition_ZERO (Failed reason None)))"

definition matching_executions ::
    "engine \<Rightarrow> structural_occurrence \<Rightarrow> durable_execution list" where
  "matching_executions self occurrence =
     filter (\<lambda>execution. de_occurrence execution = occurrence) (eng_executions self)"

definition resolve_visit ::
    "engine \<Rightarrow> executable_spec \<Rightarrow> eval_context \<Rightarrow> u64 list \<Rightarrow> reducer_error + visit_resolution" where
  "resolve_visit self spec context map_indices =
     (let occurrence = StructuralOccurrence (es_name spec) map_indices;
          matching = matching_executions self occurrence;
          number = next_visit (es_name spec) map_indices (ctx_controls context)
      in case eng_execution_mode self of
           LegacyAttempts \<Rightarrow>
             (case PositiveInteger_new number of
                Inl _ \<Rightarrow> Inl InconsistentHistory
              | Inr attempt \<Rightarrow>
                  if attempt > es_attempt_ceiling spec then Inr Exhausted
                  else
                    let matching = sort_key de_attempt matching;
                        existing = find (\<lambda>execution. de_attempt execution = attempt) matching
                    in Inr (Ready
                         \<lparr>ev_occurrence = occurrence, ev_matching = matching,
                          ev_executions = (case existing of None \<Rightarrow> [] | Some e \<Rightarrow> [e]),
                          ev_number = number, ev_attempt = attempt, ev_existing = existing\<rparr>))
         | NativeV2 \<Rightarrow>
             (let matching = sort_key de_dispatch_position matching;
                  executions = native_visit_executions matching number;
                  existing = (if executions = [] then None else Some (last executions));
                  attempt = (case existing of None \<Rightarrow> INITIAL_ATTEMPT | Some e \<Rightarrow> de_attempt e)
              in if attempt > es_attempt_ceiling spec then Inl InconsistentHistory
                 else Inr (Ready
                   \<lparr>ev_occurrence = occurrence, ev_matching = matching,
                    ev_executions = executions,
                    ev_number = number, ev_attempt = attempt, ev_existing = existing\<rparr>)))"

definition record_boundary ::
    "engine \<Rightarrow> executable_spec \<Rightarrow> traversal \<Rightarrow> u64 \<Rightarrow> reducer_error + engine" where
  "record_boundary self spec trav attempt =
     (let boundary = (case tr_boundary trav of
            Some b \<Rightarrow> b
          | None \<Rightarrow> \<lparr>eb_node = es_name spec, eb_map_indices = tr_map_indices trav,
                     eb_loop_iterations = tr_loop_iterations trav, eb_attempt = attempt\<rparr>)
      in if (case eng_boundary self of None \<Rightarrow> False | Some current \<Rightarrow> current \<noteq> boundary)
         then Inl InconsistentHistory
         else Inr (self\<lparr>eng_boundary := Some boundary\<rparr>))"

definition allocate_execution :: "engine \<Rightarrow> reducer_error + engine \<times> execution_id" where
  "allocate_execution self =
     (case PositiveIdentity_new (eng_next_execution self) of
        Inl _ \<Rightarrow> Inl IdentityOutOfRange
      | Inr execution \<Rightarrow>
          bind_res (ok_or IdentityOutOfRange (checked_add (eng_next_execution self) 1)) (\<lambda>next.
            Inr (self\<lparr>eng_next_execution := next\<rparr>, execution)))"

definition allocate_node_instance :: "engine \<Rightarrow> reducer_error + engine \<times> node_instance_id" where
  "allocate_node_instance self =
     (case PositiveIdentity_new (eng_next_node_instance self) of
        Inl _ \<Rightarrow> Inl IdentityOutOfRange
      | Inr allocated \<Rightarrow>
          bind_res (ok_or IdentityOutOfRange (checked_add (eng_next_node_instance self) 1)) (\<lambda>next.
            Inr (self\<lparr>eng_next_node_instance := next\<rparr>, allocated)))"

definition last_iteration :: "traversal \<Rightarrow> u64" where
  "last_iteration trav =
     (if tr_loop_iterations trav = [] then 0 else last (tr_loop_iterations trav))"

definition dispatch_missing ::
    "engine \<Rightarrow> executable_spec \<Rightarrow> executable_visit \<Rightarrow> json \<Rightarrow> traversal
       \<Rightarrow> reducer_error + engine \<times> status" where
  "dispatch_missing self spec visit input trav =
     (if tr_mode trav = Probe \<or> tr_cutoff trav \<noteq> HistoryPosition_MAX then Inr (self, Pending)
      else
        bind_res
          (if ev_matching visit = [] then allocate_node_instance self
           else Inr (self, de_node_instance (last (ev_matching visit))))
          (\<lambda>(self, node_instance).
        bind_res (record_boundary self spec trav (ev_attempt visit)) (\<lambda>self.
        bind_res (allocate_execution self) (\<lambda>(self, execution).
        Inr (push_decision
               (Dispatch node_instance execution (ev_occurrence visit) (ev_attempt visit)
                  (last_iteration trav) (es_worker spec) input) self, Pending)))))"

definition dispatch_retry ::
    "engine \<Rightarrow> executable_spec \<Rightarrow> traversal \<Rightarrow> durable_execution \<Rightarrow> json
       \<Rightarrow> reducer_error + engine \<times> status" where
  "dispatch_retry self spec trav previous input =
     (if tr_mode trav = Probe \<or> tr_cutoff trav \<noteq> HistoryPosition_MAX then Inr (self, Pending)
      else
        bind_res (ok_or IdentityOutOfRange (checked_add (de_attempt previous) 1)) (\<lambda>value.
        bind_res (case PositiveInteger_new value of
                    Inl _ \<Rightarrow> Inl IdentityOutOfRange | Inr attempt \<Rightarrow> Inr attempt) (\<lambda>attempt.
        bind_res (record_boundary self spec trav attempt) (\<lambda>self.
        bind_res (allocate_execution self) (\<lambda>(self, execution).
        Inr (push_decision
               (Dispatch (de_node_instance previous) execution (de_occurrence previous) attempt
                  (last_iteration trav) (es_worker spec) input) self, Pending))))))"

definition apply_outcome ::
    "engine \<Rightarrow> executable_spec \<Rightarrow> eval_context \<Rightarrow> u64 list \<Rightarrow> worker_outcome
       \<Rightarrow> reducer_error + eval_context \<times> bool" where
  "apply_outcome self spec context map_indices outcome =
     (case outcome of
        OutcomeError code _ \<Rightarrow>
          Inr (set_control self (es_name spec) SourceError None (worker_error_code_str code)
                 map_indices context, False)
      | Verified output _ \<Rightarrow>
          if es_verifier spec then Inl InconsistentHistory
          else bind_res (apply_writes context
                 \<lparr>wa_name = es_name spec, wa_output = output, wa_signals = None,
                  wa_diagnostic = None, wa_bindings = es_write_bindings spec,
                  wa_map_indices = map_indices\<rparr>) (\<lambda>context. Inr (context, True))
      | Verifier output signals diagnostic _ \<Rightarrow>
          if \<not> es_verifier spec then Inl InconsistentHistory
          else
            let context = fold (\<lambda>(field, label).
                  set_control self (es_name spec) SourceSignal (Some field) label map_indices)
                signals context
            in bind_res (apply_writes context
                 \<lparr>wa_name = es_name spec, wa_output = output, wa_signals = Some signals,
                  wa_diagnostic = Some diagnostic, wa_bindings = es_write_bindings spec,
                  wa_map_indices = map_indices\<rparr>) (\<lambda>context. Inr (context, True)))"

definition promote_writes ::
    "engine \<Rightarrow> executable_spec \<Rightarrow> eval_context \<Rightarrow> traversal \<Rightarrow> reducer_error + engine" where
  "promote_writes self spec context trav =
     (if tr_mode trav \<noteq> Decide \<or> es_write_bindings spec = [] then Inr self
      else bind_res (try_map (\<lambda>binding.
               bind_res (select (ctx_state context) (wb_target binding)) (\<lambda>value.
                 Inr \<lparr>pv_path = wb_target binding, pv_value = value\<rparr>))
             (es_write_bindings spec)) (\<lambda>values.
           Inr (push_decision (Promote (es_name spec) (tr_map_indices trav) values) self)))"

type_synonym eval_result = "reducer_error + engine \<times> eval_context \<times> status"

definition with_context :: "eval_context \<Rightarrow> reducer_error + engine \<times> status \<Rightarrow> eval_result" where
  "with_context context r = bind_res r (\<lambda>(self, status). Inr (self, context, status))"

definition retryable_crash :: "engine \<Rightarrow> executable_spec \<Rightarrow> durable_execution \<Rightarrow> worker_outcome \<Rightarrow> bool" where
  "retryable_crash self spec execution outcome \<longleftrightarrow>
     eng_execution_mode self = NativeV2
     \<and> (case outcome of OutcomeError Crash _ \<Rightarrow> True | _ \<Rightarrow> False)
     \<and> de_attempt execution < es_attempt_ceiling spec"

definition finish_existing_execution ::
    "engine \<Rightarrow> executable_spec \<Rightarrow> eval_context \<Rightarrow> traversal \<Rightarrow> durable_execution \<Rightarrow> json
       \<Rightarrow> eval_result" where
  "finish_existing_execution self spec context trav execution input =
     (if de_dispatch_position execution > tr_cutoff trav then Inr (self, context, Pending)
      else case de_state execution of
        ExecSettled position outcome \<Rightarrow>
          if position > tr_cutoff trav then Inr (self, context, Pending)
          else if retryable_crash self spec execution outcome
          then with_context context (dispatch_retry self spec trav execution input)
          else
            bind_res (apply_outcome self spec context (tr_map_indices trav) outcome)
              (\<lambda>(context, writes_applied).
            bind_res (if writes_applied then promote_writes self spec context trav else Inr self)
              (\<lambda>self.
            Inr (continue_decision self (es_name spec) (tr_mode trav), context, Continue position)))
      | _ \<Rightarrow> Inr (self, context, Pending))"

definition consume_visit :: "engine \<Rightarrow> json \<Rightarrow> durable_execution list \<Rightarrow> reducer_error + engine" where
  "consume_visit self input executions =
     try_foldl (\<lambda>self execution.
         if de_input execution \<noteq> input then Inl InconsistentHistory
         else Inr (self\<lparr>eng_consumed_executions :=
                bs_insert (de_execution execution) (eng_consumed_executions self)\<rparr>))
       self executions"

definition eval_executable ::
    "engine \<Rightarrow> executable_spec \<Rightarrow> eval_context \<Rightarrow> traversal \<Rightarrow> eval_result" where
  "eval_executable self spec context trav =
     bind_res (resolve_visit self spec context (tr_map_indices trav)) (\<lambda>resolution.
     case resolution of
       Exhausted \<Rightarrow> bind_res attempts_exhausted (\<lambda>status. Inr (self, context, status))
     | Ready visit \<Rightarrow>
         bind_res (bind_payload (es_input_bindings spec) (ctx_state context) (tr_item trav)) (\<lambda>input.
         bind_res (consume_visit self input (ev_executions visit)) (\<lambda>self.
         let context = context\<lparr>ctx_controls :=
               mark_visit (es_name spec) (tr_map_indices trav) (ctx_controls context)
                 (ev_number visit)\<rparr>
         in case ev_existing visit of
              None \<Rightarrow> with_context context (dispatch_missing self spec visit input trav)
            | Some execution \<Rightarrow>
                finish_existing_execution self spec context trav execution input)))"

fun executable_spec_of :: "graph_node \<Rightarrow> executable_spec option" where
  "executable_spec_of (StepNode step) = Some
     \<lparr>es_name = st_name step, es_worker = st_worker step,
      es_input_bindings = st_input_bindings step, es_write_bindings = st_write_bindings step,
      es_attempt_ceiling = st_attempts step, es_verifier = False\<rparr>"
| "executable_spec_of (VerifierNode verifier) = Some
     \<lparr>es_name = vn_name verifier, es_worker = vn_worker verifier,
      es_input_bindings = vn_input_bindings verifier,
      es_write_bindings = vn_write_bindings verifier,
      es_attempt_ceiling = vn_attempts verifier, es_verifier = True\<rparr>"
| "executable_spec_of _ = None"

definition eval_worker_node :: "engine \<Rightarrow> graph_node \<Rightarrow> eval_context \<Rightarrow> traversal \<Rightarrow> eval_result" where
  "eval_worker_node self node context trav =
     (case executable_spec_of node of
        Some spec \<Rightarrow> eval_executable self spec context trav
      | None \<Rightarrow> Inl InconsistentHistory)"

definition eval_terminal_node ::
    "engine \<Rightarrow> graph_node \<Rightarrow> eval_context \<Rightarrow> traversal \<Rightarrow> reducer_error + status" where
  "eval_terminal_node self node context trav =
     (case node of
        SucceedNode terminal \<Rightarrow>
          bind_res (bind_payload (su_bindings terminal) (ctx_state context) (tr_item trav)) (\<lambda>output.
            Inr (Terminal HistoryPosition_ZERO (Succeeded output)))
      | FailNode terminal \<Rightarrow>
          Inr (Terminal HistoryPosition_ZERO (Failed (fa_reason terminal) None))
      | _ \<Rightarrow> Inl InconsistentHistory)"


section \<open>Guards\<close>

fun guard_holds :: "engine \<Rightarrow> guard \<Rightarrow> eval_context \<Rightarrow> u64 list \<Rightarrow> bool" where
  "guard_holds self (GIn value labels) context idx \<longleftrightarrow>
     (\<exists>actual \<in> set (control_values self value context idx). actual \<in> set labels)"
| "guard_holds self (GAll guards) context idx \<longleftrightarrow> (\<forall>g \<in> set guards. guard_holds self g context idx)"
| "guard_holds self (GAny guards) context idx \<longleftrightarrow> (\<exists>g \<in> set guards. guard_holds self g context idx)"
| "guard_holds self (GNot g) context idx \<longleftrightarrow> \<not> guard_holds self g context idx"
| "guard_holds self (GKOfN k values labels) context idx \<longleftrightarrow>
     k \<le> length (filter (\<lambda>selector.
       \<exists>actual \<in> set (control_values self selector context idx). actual \<in> set labels) values)"
| "guard_holds self (GKOfMap k value labels) context idx \<longleftrightarrow>
     k \<le> length (filter (\<lambda>actual. actual \<in> set labels) (control_values self value context idx))"

lemma try_foldl_all:
  "(\<And>x. x \<in> set xs \<Longrightarrow> f x = Inr (P x)) \<Longrightarrow>
   try_foldl (\<lambda>m x. if m then f x else Inr False) b xs = Inr (b \<and> (\<forall>x \<in> set xs. P x))"
  by (induction xs arbitrary: b) auto

lemma try_foldl_any:
  "(\<And>x. x \<in> set xs \<Longrightarrow> f x = Inr (P x)) \<Longrightarrow>
   try_foldl (\<lambda>m x. if m then Inr True else f x) b xs = Inr (b \<or> (\<exists>x \<in> set xs. P x))"
  by (induction xs arbitrary: b) auto

lemma guard_eq_holds: "guard self g context idx = Inr (guard_holds self g context idx)"
proof (induction self g "context" idx rule: guard.induct)
  case (2 self guards "context" idx)
  then have "guard self g context idx = Inr (guard_holds self g context idx)" if "g \<in> set guards" for g
    using that by blast
  then show ?case by (simp add: try_foldl_all)
next
  case (3 self guards "context" idx)
  then have "guard self g context idx = Inr (guard_holds self g context idx)" if "g \<in> set guards" for g
    using that by blast
  then show ?case by (simp add: try_foldl_any)
qed (auto simp: list_ex_iff)

section \<open>Canonical order of cancellations\<close>

definition is_void :: "decision \<Rightarrow> bool" where
  "is_void d = (case d of VoidLoser _ _ \<Rightarrow> True | _ \<Rightarrow> False)"

definition void_id :: "decision \<Rightarrow> execution_id" where
  "void_id d = (case d of VoidLoser e _ \<Rightarrow> e | _ \<Rightarrow> 0)"

lemma is_void_simps [simp]:
  "is_void (VoidLoser e r)" "\<not> is_void (Dispatch i e oc a it w v)" "\<not> is_void (ContinueDecision n)"
  "\<not> is_void (Promote n idx vs)" "\<not> is_void (TerminalDecision t)" "void_id (VoidLoser e r) = e"
  by (simp_all add: is_void_def void_id_def)

definition void_ids :: "decision list \<Rightarrow> execution_id list" where
  "void_ids ds = map void_id (filter is_void ds)"

lemma void_ids_simps [simp]:
  "void_ids [] = []" "void_ids (d # ds) = (if is_void d then void_id d # void_ids ds else void_ids ds)"
  "void_ids (ds @ ds') = void_ids ds @ void_ids ds'"
  by (simp_all add: void_ids_def)

definition void_rank :: "durable_execution list \<Rightarrow> decision \<Rightarrow> history_position \<times> execution_id" where
  "void_rank es d = (dispatch_position_of es (void_id d), void_id d)"

fun scatter :: "('a \<Rightarrow> bool) \<Rightarrow> 'a list \<Rightarrow> 'a list \<Rightarrow> 'a list" where
  "scatter P (x # xs) (y # ys) = (if P x then y # scatter P xs ys else x # scatter P xs (y # ys))"
| "scatter P xs _ = xs"

lemma scatter_Nil2 [simp]: "scatter P xs [] = xs"
  by (cases xs) auto

lemma fold_update_scatter:
  "length pre = n \<Longrightarrow>
   fold (\<lambda>(i, y) ds. ds[i := y]) (zip (map fst (filter (\<lambda>(_, x). P x) (enumerate n xs))) ys) (pre @ xs)
     = pre @ scatter P xs ys"
proof (induction P xs ys arbitrary: pre n rule: scatter.induct)
  case (1 P x xs y ys)
  show ?case
  proof (cases "P x")
    case True
    then show ?thesis using 1(1)[OF True, of "pre @ [y]" "Suc n"] 1(3) by (simp add: list_update_append)
  next
    case False
    then show ?thesis using 1(2)[OF False, of "pre @ [x]" "Suc n"] 1(3) by simp
  qed
qed auto

lemma scatter_laws:
  assumes "length ys = length (filter P xs)" and "\<forall>y \<in> set ys. P y"
  shows "filter P (scatter P xs ys) = ys"
    and "filter (\<lambda>x. \<not> P x) (scatter P xs ys) = filter (\<lambda>x. \<not> P x) xs"
    and "map P (scatter P xs ys) = map P xs"
  using assms by (induction P xs ys rule: scatter.induct) (auto split: if_splits)

lemma insort_key_map: "insort_key f (g x) (map g xs) = map g (insort_key (\<lambda>x. f (g x)) x xs)"
  by (induction xs) auto

lemma sort_key_map_comp: "sort_key f (map g xs) = map g (sort_key (\<lambda>x. f (g x)) xs)"
  by (induction xs) (auto simp: insort_key_map)

lemma void_entries_eq:
  "void_entries es ds =
     map (\<lambda>(i, d). (i, (dispatch_position_of es (void_id d), void_id d, d)))
       (filter (\<lambda>(_, d). is_void d) (enumerate 0 ds))"
proof -
  have "List.map_filter (\<lambda>(index, d).
         case d of
           VoidLoser execution _ \<Rightarrow>
             Some (index, (dispatch_position_of es execution, execution, d))
         | _ \<Rightarrow> None) xs =
     map (\<lambda>(i, d). (i, (dispatch_position_of es (void_id d), void_id d, d)))
       (filter (\<lambda>(_, d). is_void d) xs)" for xs :: "(nat \<times> decision) list"
  proof (induction xs)
    case (Cons x xs)
    then show ?case by (cases x; cases "snd x") (simp_all add: map_filter_simps)
  qed (simp add: map_filter_simps)
  then show ?thesis by (simp add: void_entries_def)
qed

lemma canonical_voids_eq:
  "canonical_voids es ds =
     scatter is_void (unique_voids [] ds)
       (sort_key (void_rank es) (filter is_void (unique_voids [] ds)))"
proof -
  define D where "D = unique_voids [] ds"
  let ?T = "\<lambda>d. (dispatch_position_of es (void_id d), void_id d, d)"
  have slots: "map fst (void_entries es D) = map fst (filter (\<lambda>(_, d). is_void d) (enumerate 0 D))"
    by (simp add: void_entries_eq split_beta comp_def)
  have "map snd (filter (\<lambda>(_, d). is_void d) (enumerate n D)) = filter is_void D" for n
    by (induction D arbitrary: n) auto
  then have "map snd (void_entries es D) = map ?T (filter is_void D)"
    by (simp add: void_entries_eq split_beta comp_def)
      (metis (no_types, lifting) comp_apply map_map map_eq_conv)
  then have voids: "sort_key (\<lambda>(position, execution, _). (position, execution)) (map snd (void_entries es D))
      = map ?T (sort_key (void_rank es) (filter is_void D))"
    by (simp add: sort_key_map_comp void_rank_def[abs_def])
  have "canonical_voids es ds =
      fold (\<lambda>(index, d) ds. ds[index := d])
        (zip (map fst (filter (\<lambda>(_, d). is_void d) (enumerate 0 D)))
             (sort_key (void_rank es) (filter is_void D))) D"
    unfolding canonical_voids_def Let_def D_def[symmetric] slots voids zip_map2 fold_map
    by (intro fold_cong refl) auto
  also have "\<dots> = scatter is_void D (sort_key (void_rank es) (filter is_void D))"
    using fold_update_scatter[of "[]" 0 is_void D] by simp
  finally show ?thesis by (simp add: D_def)
qed

lemma unique_voids_laws:
  "filter (\<lambda>d. \<not> is_void d) (unique_voids seen ds) = filter (\<lambda>d. \<not> is_void d) ds"
  "distinct (void_ids (unique_voids seen ds))"
  "set (void_ids (unique_voids seen ds)) = set (void_ids ds) - set seen"
  "set (unique_voids seen ds) \<subseteq> set ds"
  by (induction seen ds rule: unique_voids.induct) auto

lemma canonical_voids_laws:
  shows "filter (\<lambda>d. \<not> is_void d) (canonical_voids es ds) = filter (\<lambda>d. \<not> is_void d) ds"
    and "sorted (map (void_rank es) (filter is_void (canonical_voids es ds)))"
    and "distinct (void_ids (canonical_voids es ds))"
    and "set (void_ids (canonical_voids es ds)) = set (void_ids ds)"
    and "set (canonical_voids es ds) \<subseteq> set ds"
proof -
  let ?D = "unique_voids [] ds"
  let ?V = "sort_key (void_rank es) (filter is_void ?D)"
  have len: "length ?V = length (filter is_void ?D)" and all: "\<forall>y \<in> set ?V. is_void y" by auto
  note laws = scatter_laws[OF len all]
  show "filter (\<lambda>d. \<not> is_void d) (canonical_voids es ds) = filter (\<lambda>d. \<not> is_void d) ds"
    by (simp add: canonical_voids_eq laws(2) unique_voids_laws(1))
  have v: "filter is_void (canonical_voids es ds) = ?V" by (simp add: canonical_voids_eq laws(1))
  show "sorted (map (void_rank es) (filter is_void (canonical_voids es ds)))" by (simp add: v)
  have ids: "mset (void_ids (canonical_voids es ds)) = mset (void_ids ?D)"
    by (simp add: void_ids_def v)
  then show "distinct (void_ids (canonical_voids es ds))"
    using unique_voids_laws(2)[of "[]" ds] by (metis mset_eq_imp_distinct_iff)
  show "set (void_ids (canonical_voids es ds)) = set (void_ids ds)"
    using mset_eq_setD[OF ids] unique_voids_laws(3)[of "[]" ds] by simp
  have "set (canonical_voids es ds) \<subseteq> set (filter is_void (canonical_voids es ds)) \<union>
      set (filter (\<lambda>d. \<not> is_void d) (canonical_voids es ds))" by auto
  also have "\<dots> \<subseteq> set ds"
    unfolding v using unique_voids_laws(4)[of "[]" ds]
    by (auto simp: canonical_voids_eq laws(2) unique_voids_laws(1))
  finally show "set (canonical_voids es ds) \<subseteq> set ds" .
qed

section \<open>Evaluation rules\<close>

declare Engine_new_def [exec_simps] execution_out_of_graph_def [exec_simps]
  execution_accounted_def [exec_simps] ensure_history_consumed_def [exec_simps]
  push_decision_def [exec_simps] push_void_decision_def [exec_simps] is_void_of_def [exec_simps]
  dispatch_position_of_def [exec_simps] void_entries_def [exec_simps] canonical_voids_def [exec_simps]
  canonicalize_void_decisions_def [exec_simps] map_depth_of_def [exec_simps]
  control_key_selected_def [exec_simps] control_values_def [exec_simps] set_control_def [exec_simps]
  set_group_control_def [exec_simps] continue_decision_def [exec_simps]
  record_void_cutoff_def [exec_simps] not_settled_def [exec_simps] loser_key_def [exec_simps]
  void_loser_def [exec_simps] void_active_descendants_def [exec_simps] void_map_losers_def [exec_simps]
  trace_enter_def [exec_simps] trace_finish_def [exec_simps] trace_branch_def [exec_simps]
  trace_terminal_def [exec_simps] trace_checkpoint_def [exec_simps] take_trace_since_def [exec_simps]
  restore_trace_def [exec_simps] collector_enter_def [exec_simps] collector_finish_def [exec_simps]
  trace_default_def [exec_simps] attempts_exhausted_def [exec_simps]
  matching_executions_def [exec_simps] resolve_visit_def [exec_simps] record_boundary_def [exec_simps]
  allocate_execution_def [exec_simps] allocate_node_instance_def [exec_simps]
  last_iteration_def [exec_simps] dispatch_missing_def [exec_simps] dispatch_retry_def [exec_simps]
  apply_outcome_def [exec_simps] promote_writes_def [exec_simps] with_context_def [exec_simps]
  retryable_crash_def [exec_simps] finish_existing_execution_def [exec_simps]
  consume_visit_def [exec_simps] eval_executable_def [exec_simps] eval_worker_node_def [exec_simps]
  eval_terminal_node_def [exec_simps] status_position_def [exec_simps] status_after_def [exec_simps]

end
