(* ===== verification/Value_Properties.thy ===== *)
theory Value_Properties
  imports Reducer_Engine
begin

text \<open>
  The properties of the value layer: payload types and their values, stable references, log
  messages, token counters, payload paths, promotions, histories and visits.
\<close>

section \<open>Payload types and values\<close>

text \<open>The subtype rules of the protocol reference (\<^verbatim>\<open>docs/reference/cluster/graph.md\<close>).\<close>

inductive documented_subtype :: "payload_type \<Rightarrow> payload_type \<Rightarrow> bool" where
  same_primitive: "t \<in> {PNull, PBoolean, PInteger, PNumber, PString} \<Longrightarrow> documented_subtype t t"
| widen_integer: "documented_subtype PInteger PNumber"
| array_items: "documented_subtype s t \<Longrightarrow> documented_subtype (PArray s) (PArray t)"
| enum_labels: "set xs \<subseteq> set ys \<Longrightarrow> documented_subtype (PEnum xs) (PEnum ys)"
| record_fields:
    "(\<And>n tf. (n, tf) \<in> set tgt \<Longrightarrow> required tf \<Longrightarrow> \<exists>sf. bm_get src n = Some sf \<and> required sf) \<Longrightarrow>
     (\<And>n tf sf. (n, tf) \<in> set tgt \<Longrightarrow> bm_get src n = Some sf \<Longrightarrow>
        documented_subtype (value_type sf) (value_type tf)) \<Longrightarrow>
     documented_subtype (PRecord src) (PRecord tgt)"

inductive_simps documented_subtype_simps:
  "documented_subtype PNull t" "documented_subtype PBoolean t" "documented_subtype PInteger t"
  "documented_subtype PNumber t" "documented_subtype PString t" "documented_subtype (PArray s) t"
  "documented_subtype (PEnum xs) t" "documented_subtype (PRecord fs) t"

lemma documented_subtype_iff: "documented_subtype s t \<longleftrightarrow> is_subtype_of s t"
proof (induction s arbitrary: t rule: payload_induct)
  case (PRecord fs)
  have field: "field_subtype fs n tf \<longleftrightarrow>
      (required tf \<longrightarrow> (\<exists>sf. bm_get fs n = Some sf \<and> required sf))
      \<and> (\<forall>sf. bm_get fs n = Some sf \<longrightarrow> documented_subtype (value_type sf) (value_type tf))" for n tf
  proof (cases "bm_get fs n")
    case (Some sf)
    show ?thesis using PRecord.IH[OF bm_get_SomeD[OF Some], of "value_type tf"]
      by (simp add: field_subtype_def Some)
  qed (simp add: field_subtype_def)
  show ?case
    by (cases t) (simp_all add: subtype_record documented_subtype_simps(8) field, blast)
qed (auto simp: documented_subtype_simps)

text \<open>C18. The subtype check decides the documented rules: \<open>is_subtype_of\<close> answers yes exactly
  for the pairs derivable from the rule table of the protocol reference (equal primitives, integer to
  number, arrays covariantly, enums by inclusion, records by width and depth).\<close>

theorem is_subtype_of_documented: "is_subtype_of s t \<longleftrightarrow> documented_subtype s t"
  by (simp add: documented_subtype_iff)

text \<open>C19. Validation is exact: \<open>validate_value\<close> accepts a JSON value at a type exactly when the value
  conforms to the type, with closed records, at every depth.\<close>

theorem validate_value_exact: "validate_value t v = Inr u \<longleftrightarrow> conforms t v"
  by (simp add: validate_value_def validate_value_at_iff)

text \<open>C20. Subtyping is sound for consumers: a value that validates at a type can be read at every
  supertype, where the reader ignores undeclared fields.\<close>

theorem subtype_sound:
  assumes "validate_value s v = Inr ()" and "is_subtype_of s t"
  shows "conforms_open t v"
  using assms by (auto simp: validate_value_def validate_value_at_iff intro: subtype_conforms_open)

definition demo_source_type :: payload_type where
  "demo_source_type = PRecord [(''n'', RecordField PInteger True), (''s'', RecordField PString False)]"

definition demo_target_type :: payload_type where
  "demo_target_type = PRecord [(''list'', RecordField (PArray PNull) True), (''n'', RecordField PNumber True)]"

definition demo_value :: json where
  "demo_value = VObject [(''n'', VNumber (PosInt 7))]"

lemma demo_value_valid: "validate_value demo_source_type demo_value = Inr ()"
  by (simp add: validate_value_def validate_value_at_iff demo_source_type_def demo_value_def
      is_json_integer_def)

theorem subtype_sound_witness:
  "conforms_open (PRecord [(''n'', RecordField PNumber True)]) demo_value"
  by (rule subtype_sound[OF demo_value_valid])
    (simp add: demo_source_type_def subtype_record field_subtype_def)

text \<open>C21. Materialisation is sound: when \<open>materialized_subtype_of\<close> admits a source type for a target
  type, the type it reports is a subtype of the target, and filling the missing fields of any value
  that validates at the source gives a value readable at the target.\<close>

theorem materialize_admitted:
  assumes "materialized_subtype_of s t = Some s'" and "payload_wf t" and "validate_value s v = Inr ()"
  shows "is_subtype_of s' t \<and> conforms_open t (materialize_missing_fields t v)"
  using assms materialized_subtype_eq materialize_sound materialized_source_subtype
  by (auto simp: validate_value_def validate_value_at_iff)

lemma demo_materialized:
  "materialized_subtype_of demo_source_type demo_target_type
     = Some (PRecord [(''list'', RecordField (PArray PNull) True), (''n'', RecordField PInteger True),
                      (''s'', RecordField PString False)])"
  by (simp add: materialized_subtype_of_def demo_source_type_def demo_target_type_def materialized_record_eq
      materialized_record_fields_def materialize_record_field_def materialized_source_type.simps
      subtype_record field_subtype_def)

theorem materialize_admitted_witness:
  "conforms_open demo_target_type (materialize_missing_fields demo_target_type demo_value)"
  using materialize_admitted[OF demo_materialized _ demo_value_valid]
  by (simp add: demo_target_type_def bm_wf_def)

section \<open>References, messages and counters\<close>

text \<open>Stable references: a reference is accepted exactly when it has the form
  \<open>name@version\<close> with an identifier-like name and a canonical positive decimal version, within 256
  characters; the version is then recovered without ambiguity.\<close>

theorem validate_stable_ref_exact:
  "validate_stable_ref value = Inr () \<longleftrightarrow>
     (\<exists>first rest version. value = (first # rest) @ CHR ''@'' # version
        \<and> length value \<le> 256
        \<and> (is_ascii_alphabetic first \<or> first = CHR ''_'') \<and> list_all ref_name_char (first # rest)
        \<and> version \<noteq> [] \<and> hd version \<noteq> CHR ''0'' \<and> list_all is_digit_char version)"
  (is "?l \<longleftrightarrow> ?r")
proof
  assume ?l
  then obtain name version where sp: "rsplit_once (CHR ''@'') value = Some (name, version)"
    and ok: "length value \<le> 256" "name \<noteq> []" "version \<noteq> []" "list_all ref_name_char name"
      "list_all is_digit_char version"
      "case name of c # _ \<Rightarrow> is_ascii_alphabetic c \<or> c = CHR ''_'' | [] \<Rightarrow> False"
      "\<not> (case version of c # _ \<Rightarrow> c = CHR ''0'' | [] \<Rightarrow> False)"
    by (auto simp: validate_stable_ref_def res_simps split: if_splits)
  obtain c r where "name = c # r" using ok(2) by (cases name) auto
  moreover have "hd version \<noteq> CHR ''0''" using ok(3,7) by (cases version) auto
  ultimately show ?r using ok sp by (auto simp: rsplit_once_Some)
next
  assume ?r
  then obtain c r version where v: "value = (c # r) @ CHR ''@'' # version"
    and ok: "length value \<le> 256" "is_ascii_alphabetic c \<or> c = CHR ''_''" "list_all ref_name_char (c # r)"
      "version \<noteq> []" "hd version \<noteq> CHR ''0''" "list_all is_digit_char version" by blast
  have "CHR ''@'' \<notin> set version" using ok(6) digit_not_at by (auto simp: list_all_iff)
  then have sp: "rsplit_once (CHR ''@'') value = Some (c # r, version)"
    by (simp add: rsplit_once_Some v)
  have "\<not> (case version of c # _ \<Rightarrow> c = CHR ''0'' | [] \<Rightarrow> False)"
    using ok(5) by (cases version) auto
  then show ?l using ok sp by (simp add: validate_stable_ref_def)
qed

text \<open>Diagnostics are never lost to redaction: the message a worker failure is recorded with
  (visible text, bounded) always fits the bounds of a log message, holds no control character, and is
  therefore never replaced by the redaction marker.\<close>

theorem diagnostic_never_redacted:
  "let message = bounded_log_text (visible_text text) MAX_LOG_MESSAGE_BYTES
   in BoundedLogMessage_new message = Inr message
      \<and> unwrap_or_redacted (BoundedLogMessage_new message) = message
      \<and> utf8_length message \<le> MAX_LOG_MESSAGE_BYTES
      \<and> list_all (\<lambda>c. \<not> is_control c) message"
proof -
  let ?m = "bounded_log_text (visible_text text) MAX_LOG_MESSAGE_BYTES"
  have len: "utf8_length ?m \<le> MAX_LOG_MESSAGE_BYTES"
    by (rule bounded_log_text_bound) (simp add: MAX_LOG_MESSAGE_BYTES_def)
  have vis: "\<not> is_control c" if "c \<in> set ?m" for c
    using bounded_log_text_chars[OF that] visible_text_no_control by blast
  have "BoundedLogMessage_new ?m = Inr ?m"
    using len vis by (auto simp: BoundedLogMessage_new_def list_ex_iff)
  then show ?thesis using len vis by (simp add: unwrap_or_redacted_def list_all_iff)
qed

definition exact_optional_sum :: "token_count option \<Rightarrow> token_count option \<Rightarrow> token_count option" where
  "exact_optional_sum a b = (case (a, b) of (Some x, Some y) \<Rightarrow> Some (x + y) | _ \<Rightarrow> None)"

definition in_safe_range :: "token_count option \<Rightarrow> bool" where
  "in_safe_range a = (case a of Some x \<Rightarrow> x \<le> MAX_SAFE_GENERATION | None \<Rightarrow> True)"

lemma delta_add_optional_iff:
  "delta_add_optional_tokens a b = Some c \<longleftrightarrow> c = exact_optional_sum a b \<and> in_safe_range c"
  by (auto simp: delta_add_optional_tokens_def exact_optional_sum_def in_safe_range_def
      token_checked_add_iff split: option.splits)

lemma delta_add_optional_None: "delta_add_optional_tokens a b = None \<longleftrightarrow> \<not> in_safe_range (exact_optional_sum a b)"
  using delta_add_optional_iff[of a b] by (cases "delta_add_optional_tokens a b") auto

lemma token_checked_add_None: "token_checked_add a b = None \<longleftrightarrow> MAX_SAFE_GENERATION < a + b"
  using token_checked_add_iff[of a b "a + b"] token_checked_add_iff[of a b]
  by (cases "token_checked_add a b") (fastforce simp: not_le)+

text \<open>Token usage deltas add exactly or not at all: the sum of two deltas exists exactly when
  every pair of counters both sides report adds up within the safe integer range, and then each
  counter is the exact sum and a cache counter is reported exactly when both sides report it.\<close>

theorem delta_checked_add_exact:
  "delta_checked_add a b = Some c \<longleftrightarrow>
     c = \<lparr>td_input_tokens = td_input_tokens a + td_input_tokens b,
          td_output_tokens = td_output_tokens a + td_output_tokens b,
          td_cache_read_input_tokens =
            exact_optional_sum (td_cache_read_input_tokens a) (td_cache_read_input_tokens b),
          td_cache_creation_input_tokens =
            exact_optional_sum (td_cache_creation_input_tokens a) (td_cache_creation_input_tokens b)\<rparr>
     \<and> td_input_tokens c \<le> MAX_SAFE_GENERATION \<and> td_output_tokens c \<le> MAX_SAFE_GENERATION
     \<and> in_safe_range (td_cache_read_input_tokens c) \<and> in_safe_range (td_cache_creation_input_tokens c)"
  by (auto simp: delta_checked_add_def token_checked_add_iff token_checked_add_None delta_add_optional_iff
      delta_add_optional_None split: option.splits)

section \<open>Payload paths, bindings and promotions\<close>

text \<open>Writing a payload path: after \<open>set_path\<close>, reading at or below the written path gives the
  corresponding part of the written value, and reading a path that is neither above nor below it gives
  what was there before.\<close>

theorem set_path_select:
  assumes "set_path v p x = Inr v'"
  shows "select v' (p @ q) = select x q \<and> (\<not> prefix p r \<longrightarrow> \<not> prefix r p \<longrightarrow> select v' r = select v r)"
  using set_path_below[OF assms] set_path_frame[OF assms] by blast

theorem set_path_select_witness:
  "select (VObject [(''a'', VObject [(''b'', VNull)])]) ([''a'', ''b''] @ []) = select VNull []"
proof -
  have "set_path (VObject []) [''a'', ''b''] VNull = Inr (VObject [(''a'', VObject [(''b'', VNull)])])"
    by simp
  from set_path_select[OF this] show ?thesis by blast
qed

text \<open>When a write can fail: \<open>set_path\<close> succeeds exactly when the path is not empty and every
  value that already stands on the way to its last segment is an object.\<close>

theorem set_path_total:
  "(\<exists>v'. set_path v p x = Inr v') \<longleftrightarrow>
     p \<noteq> [] \<and> (\<forall>q w. strict_prefix q p \<longrightarrow> select v q = Inr w \<longrightarrow> as_object w \<noteq> None)"
proof -
  have "as_object w \<noteq> None \<longleftrightarrow> (\<exists>m. w = VObject m)" for w by (cases "as_object w") auto
  then show ?thesis by (simp only: set_path_ok_iff)
qed

theorem set_path_total_witness:
  "(\<exists>v'. set_path (VObject [(''a'', VObject [])]) [''a'', ''b''] VNull = Inr v')
   \<and> select (VObject [(''a'', VObject [])]) [''a''] = Inr (VObject []) \<and> as_object (VObject []) \<noteq> None"
proof -
  have w: "\<exists>v'. set_path (VObject [(''a'', VObject [])]) [''a'', ''b''] VNull = Inr v'" by simp
  have sel: "select (VObject [(''a'', VObject [])]) [''a''] = Inr (VObject [])" by (simp add: select_Cons)
  have "as_object (VObject []) \<noteq> None"
    using set_path_total[of "VObject [(''a'', VObject [])]" "[''a'', ''b'']" VNull] w sel by auto
  with w sel show ?thesis by blast
qed

text \<open>C17. Input bindings deliver: when the targets of the bindings are pairwise incomparable, the
  payload \<open>bind_payload\<close> builds holds, at the target of every binding, the value its selector reads.\<close>

theorem bind_payload_delivers:
  assumes "bind_payload bindings state item = Inr payload" and "b \<in> set bindings"
    and "pairwise (\<lambda>a b. \<not> prefix (ib_target a) (ib_target b)) (set bindings)" and "distinct bindings"
  shows "\<exists>x. select_data (ib_value b) state item = Inr x \<and> select payload (ib_target b) = Inr x"
proof -
  have "bindings \<noteq> []" using assms(2) by auto
  then show ?thesis
    using set_path_distinct_targets[of "\<lambda>b. select_data (ib_value b) state item" ib_target, OF _ assms(2,3,4)]
      assms(1) by (simp add: bind_payload_def)
qed

definition demo_bindings :: "input_binding list" where
  "demo_bindings = [\<lparr>ib_target = [''x''], ib_value = SelState [''a'']\<rparr>,
                    \<lparr>ib_target = [''y''], ib_value = SelItem [''v'']\<rparr>]"

theorem bind_payload_delivers_witness:
  "\<exists>x. select_data (SelItem [''v'']) (VObject [(''a'', VNull)]) (Some (VObject [(''v'', VBool True)])) = Inr x
     \<and> select (VObject [(''x'', VNull), (''y'', VBool True)]) [''y''] = Inr x"
  using bind_payload_delivers[of demo_bindings "VObject [(''a'', VNull)]" "Some (VObject [(''v'', VBool True)])"
      "VObject [(''x'', VNull), (''y'', VBool True)]" "\<lparr>ib_target = [''y''], ib_value = SelItem [''v'']\<rparr>"]
  by (simp add: demo_bindings_def bind_payload_def select_data_def select_Cons pairwise_def)

text \<open>Promoted writes: the write paths a group hands to its parent are an antichain of paths that
  were written and promoted, one lying above the other; conversely every written path at or below a
  promoted one, and every promoted path at or below a written one, is covered by a member.\<close>

theorem promoted_write_paths_antichain:
  "bs_wf (promoted_write_paths writes paths)
   \<and> (\<forall>c \<in> set (promoted_write_paths writes paths).
        (\<exists>w \<in> set writes. \<exists>p \<in> set paths. (prefix p w \<and> c = w) \<or> (prefix w p \<and> c = p))
        \<and> (\<forall>d \<in> set (promoted_write_paths writes paths). prefix d c \<longrightarrow> d = c))
   \<and> (\<forall>w \<in> set writes. \<forall>p \<in> set paths.
        (prefix p w \<longrightarrow> (\<exists>m \<in> set (promoted_write_paths writes paths). prefix m w))
        \<and> (prefix w p \<longrightarrow> (\<exists>m \<in> set (promoted_write_paths writes paths). prefix m p)))"
proof (intro conjI ballI)
  show "bs_wf (promoted_write_paths writes paths)" by (rule promoted_write_paths_wf)
next
  fix c assume c: "c \<in> set (promoted_write_paths writes paths)"
  show "\<exists>w \<in> set writes. \<exists>p \<in> set paths. (prefix p w \<and> c = w) \<or> (prefix w p \<and> c = p)"
    using c by (auto simp: set_promoted_write_paths set_promotion_candidates)
  fix d assume "d \<in> set (promoted_write_paths writes paths)"
  then show "prefix d c \<longrightarrow> d = c" using c by (auto simp: set_promoted_write_paths)
next
  fix w p assume wp: "w \<in> set writes" "p \<in> set paths"
  show "prefix p w \<longrightarrow> (\<exists>m \<in> set (promoted_write_paths writes paths). prefix m w)"
    using wp by (auto intro!: promoted_write_paths_cover simp: set_promotion_candidates)
  show "prefix w p \<longrightarrow> (\<exists>m \<in> set (promoted_write_paths writes paths). prefix m p)"
    using wp by (auto intro!: promoted_write_paths_cover simp: set_promotion_candidates)
qed

theorem promoted_write_paths_antichain_witness:
  "\<exists>m \<in> set (promoted_write_paths [[''a''], [''a'', ''b'']] [[''a'', ''b'', ''c'']]).
     prefix m [''a'', ''b'', ''c'']"
  using promoted_write_paths_antichain[of "[[''a''], [''a'', ''b'']]" "[[''a'', ''b'', ''c'']]"]
  by fastforce

section \<open>Histories and visits\<close>

text \<open>C16. Validation of a history is exact: \<open>validate_history_for_mode\<close> accepts an execution history
  exactly when the execution identities are distinct, no visit is recorded twice, occurrences and node
  instances correspond one to one, and the attempts of every occurrence form a lineage (consecutive
  attempts under the legacy mode; under native-v2 every retry follows a settled crash and every new
  visit a finalized one).\<close>

theorem validate_history_exact:
  "validate_history_for_mode es mode = Inr () \<longleftrightarrow> history_valid mode es"
  by (rule validate_history_iff)

text \<open>Visits partition an occurrence: the executions of the visits 1, 2, ... of a valid native-v2
  occurrence, concatenated, are its executions in dispatch order, and the attempts within each visit
  are numbered 1, 2, ... without gaps.\<close>

theorem native_visits_partition:
  assumes "native_lineage es" and "es \<noteq> []"
  shows "concat (map (native_visit_executions es) [1 ..< count_visits es + 1]) = es
    \<and> (\<forall>n \<ge> 1. map de_attempt (native_visit_executions es n)
                 = [1 ..< Suc (length (native_visit_executions es n))])"
proof -
  have "de_attempt (hd es) = 1" using assms by (simp add: native_lineage_def)
  then have "native_visits_from 0 0 es = []" using native_visits_unvisited assms(2) by blast
  moreover have "[0 ..< 0 + count_visits es + 1] = 0 # [1 ..< count_visits es + 1]"
    by (simp only: upt_conv_Cons) simp
  ultimately have "concat (map (native_visit_executions es) [1 ..< count_visits es + 1]) = es"
    using native_visits_concat[of 0 es]
    by (simp only: native_visit_executions_def[abs_def] list.map concat.simps append_Nil)
  then show ?thesis using native_visit_attempts[OF assms(1)] by simp
qed

definition demo_attempts :: "durable_execution list" where
  "demo_attempts =
     (let e = \<lparr>de_dispatch_position = 1, de_node_instance = 1, de_execution = 1,
               de_occurrence = StructuralOccurrence ''a'' [], de_attempt = 1, de_input = VNull,
               de_state = ExecSettled 2 (OutcomeError Crash DeclaredFailure)\<rparr>
      in [e, e\<lparr>de_dispatch_position := 3, de_execution := 2, de_attempt := 2, de_state := ExecActive\<rparr>])"

theorem native_visits_partition_witness:
  "concat (map (native_visit_executions demo_attempts) [1 ..< count_visits demo_attempts + 1]) = demo_attempts"
  using native_visits_partition[of demo_attempts]
  by (simp add: demo_attempts_def native_lineage_def follows_failed_attempt_def checked_add_def
      u64_max_def less_Suc_eq)

section \<open>Cancellations\<close>

text \<open>The canonical order of cancellations: \<open>canonical_voids\<close> keeps every other decision in place
  and in order, keeps exactly one decision for every voided execution, and lists them by the
  dispatch position (then identity) of the execution.\<close>

theorem canonical_voids_order:
  "filter (\<lambda>d. \<not> is_void d) (canonical_voids es ds) = filter (\<lambda>d. \<not> is_void d) ds
   \<and> distinct (void_ids (canonical_voids es ds))
   \<and> set (void_ids (canonical_voids es ds)) = set (void_ids ds)
   \<and> sorted (map (void_rank es) (filter is_void (canonical_voids es ds)))
   \<and> set (canonical_voids es ds) \<subseteq> set ds"
  by (intro conjI canonical_voids_laws)

text \<open>Guards never fail and short-circuiting does not change their value: \<open>guard\<close> returns the
  truth value of the guard formula over the control values in scope.\<close>

theorem guard_total: "guard self g context idx = Inr (guard_holds self g context idx)"
  by (rule guard_eq_holds)

end
