(* ===== verification/Reducer.thy ===== *)
theory Reducer
  imports Reducer_Engine
begin

text \<open>
  The recursion of the full-v1 reducer over the graph: sequences and loops
  (\<^verbatim>\<open>full_v1_reducer/evaluation.rs\<close>), choices and parallel groups
  (\<^verbatim>\<open>full_v1_reducer/groups.rs\<close>), maps (\<^verbatim>\<open>full_v1_reducer/groups/map.rs\<close>), \<open>eval\<close> itself and the
  entry points \<open>reduce\<close> and \<open>reduce_with_trace\<close> of \<^verbatim>\<open>full_v1_reducer.rs\<close>.

  Each group operation takes the evaluator \<open>ev\<close> it calls on its children; \<open>eval\<close> ties the knot
  and terminates because the children of a node are smaller than the node.
\<close>

section \<open>Sequences and loops\<close>

type_synonym evaluator = "graph_node \<Rightarrow> engine \<Rightarrow> eval_context \<Rightarrow> traversal \<Rightarrow> eval_result"

definition promote_group ::
    "engine \<Rightarrow> node_name \<Rightarrow> field_path list \<Rightarrow> traversal \<Rightarrow> eval_context \<Rightarrow> eval_context
       \<Rightarrow> reducer_error + engine \<times> eval_context" where
  "promote_group self name paths trav local parent =
     bind_res (ok_or InconsistentHistory (bm_get (eng_optional_promotions self) name))
       (\<lambda>optional_paths.
     bind_res (promote \<lparr>pr_node = name, pr_map_indices = tr_map_indices trav, pr_paths = paths,
                        pr_optional_paths = optional_paths, pr_mode = tr_mode trav\<rparr>
                 local parent (eng_decisions self)) (\<lambda>(parent, decisions).
     Inr (self\<lparr>eng_decisions := decisions\<rparr>, parent)))"

fun eval_children ::
    "evaluator \<Rightarrow> traversal \<Rightarrow> graph_node list \<Rightarrow> engine \<Rightarrow> eval_context \<Rightarrow> history_position
       \<Rightarrow> eval_result" where
  "eval_children ev trav [] self local position = Inr (self, local, Continue position)"
| "eval_children ev trav (child # children) self local position =
     bind_res (ev child self local trav) (\<lambda>(self, local, status).
     case status of
       Continue child_position \<Rightarrow>
         eval_children ev trav children self local (max position child_position)
     | other \<Rightarrow> Inr (self, local, status_after other position))"

definition eval_sequence ::
    "evaluator \<Rightarrow> node_name \<Rightarrow> graph_node list \<Rightarrow> field_path list
       \<Rightarrow> engine \<Rightarrow> eval_context \<Rightarrow> traversal \<Rightarrow> eval_result" where
  "eval_sequence ev name children promoted_state_paths self context trav =
     bind_res (eval_children ev trav children self (clear_writes context) HistoryPosition_ZERO)
       (\<lambda>(self, local, status).
     case status of
       Continue position \<Rightarrow>
         bind_res (promote_group self name promoted_state_paths trav local context)
           (\<lambda>(self, context).
         Inr (continue_decision self name (tr_mode trav), context, Continue position))
     | other \<Rightarrow> Inr (self, context, other))"

datatype loop_exit =
    LoopConverged history_position
  | LoopExhausted history_position
  | LoopStopped status

fun loop_rounds ::
    "evaluator \<Rightarrow> graph_node \<Rightarrow> guard option \<Rightarrow> node_name btree_set \<Rightarrow> traversal
       \<Rightarrow> nat \<Rightarrow> u64 \<Rightarrow> engine \<Rightarrow> eval_context \<Rightarrow> history_position
       \<Rightarrow> reducer_error + engine \<times> eval_context \<times> loop_exit" where
  "loop_rounds ev body until loop_names trav 0 iteration self local position =
     Inr (self, local, LoopExhausted position)"
| "loop_rounds ev body until loop_names trav (Suc remaining) iteration self local position =
     (let local = clear_writes
            (clear_scoped_runtime_facts local loop_names (tr_map_indices trav))
      in bind_res (ev body self local
                    (trav\<lparr>tr_loop_iterations := tr_loop_iterations trav @ [iteration]\<rparr>))
           (\<lambda>(self, local, status).
         case status of
           Continue body_position \<Rightarrow>
             (let position = max position body_position
              in bind_res (case until of
                             Some g \<Rightarrow> guard self g local (tr_map_indices trav)
                           | None \<Rightarrow> Inr False) (\<lambda>converged.
                 if converged then Inr (self, local, LoopConverged position)
                 else loop_rounds ev body until loop_names trav remaining (iteration + 1)
                        self local position))
         | other \<Rightarrow> Inr (self, local, LoopStopped (status_after other position))))"

definition loop_scope :: "node_name \<Rightarrow> graph_node \<Rightarrow> node_name btree_set" where
  "loop_scope name body = bs_insert name (descendant_names body)"

definition finish_loop ::
    "node_name \<Rightarrow> graph_node \<Rightarrow> field_path list \<Rightarrow> engine \<Rightarrow> eval_context \<Rightarrow> traversal
       \<Rightarrow> eval_context \<Rightarrow> history_position \<Rightarrow> string \<Rightarrow> eval_result" where
  "finish_loop name body promoted_state_paths self context trav local position label =
     (let context = clear_scoped_runtime_facts context (loop_scope name body) (tr_map_indices trav);
          local = set_group_control self name ''terminated'' label (tr_map_indices trav) local
      in bind_res (promote_group self name promoted_state_paths trav local context)
           (\<lambda>(self, context).
         Inr (continue_decision self name (tr_mode trav), context, Continue position)))"

definition eval_loop ::
    "evaluator \<Rightarrow> node_name \<Rightarrow> graph_node \<Rightarrow> guard option \<Rightarrow> positive_integer \<Rightarrow> field_path list
       \<Rightarrow> engine \<Rightarrow> eval_context \<Rightarrow> traversal \<Rightarrow> eval_result" where
  "eval_loop ev name body until max_iterations promoted_state_paths self context trav =
     bind_res (loop_rounds ev body until (loop_scope name body) trav max_iterations 1
                 self context HistoryPosition_ZERO) (\<lambda>(self, local, exit).
     case exit of
       LoopConverged position \<Rightarrow>
         finish_loop name body promoted_state_paths self context trav local position ''converged''
     | LoopExhausted position \<Rightarrow>
         finish_loop name body promoted_state_paths self context trav local position ''exhausted''
     | LoopStopped status \<Rightarrow> Inr (self, context, status))"

section \<open>Choices\<close>

definition choice_selected ::
    "engine \<Rightarrow> eval_context \<Rightarrow> traversal \<Rightarrow> (guard \<times> graph_node) list \<Rightarrow> graph_node option
       \<Rightarrow> graph_node option" where
  "choice_selected self local trav branches otherwise =
     (case find (\<lambda>(when, _). guard self when local (tr_map_indices trav) = Inr True) branches of
        Some (_, node) \<Rightarrow> Some node
      | None \<Rightarrow> otherwise)"

definition eval_choice ::
    "evaluator \<Rightarrow> node_name \<Rightarrow> (guard \<times> graph_node) list \<Rightarrow> graph_node option \<Rightarrow> field_path list
       \<Rightarrow> engine \<Rightarrow> eval_context \<Rightarrow> traversal \<Rightarrow> eval_result" where
  "eval_choice ev name branches otherwise promoted_state_paths self context trav =
     (let local = clear_writes context
      in case choice_selected self local trav branches otherwise of
           None \<Rightarrow> Inl MissingChoiceRoute
         | Some selected \<Rightarrow>
             bind_res (ev selected (trace_branch self name (node_name selected)) local trav)
               (\<lambda>(self, local, status).
             case status of
               Continue position \<Rightarrow>
                 bind_res (promote_group self name promoted_state_paths trav local context)
                   (\<lambda>(self, context).
                 Inr (continue_decision self name (tr_mode trav),
                      merge_runtime_facts local context, Continue position))
             | other \<Rightarrow> Inr (self, context, other)))"

section \<open>Parallel groups\<close>

datatype parallel_control_result = Reached | Unreachable

fun probe_parallel ::
    "evaluator \<Rightarrow> eval_context \<Rightarrow> traversal \<Rightarrow> graph_node list \<Rightarrow> engine
       \<Rightarrow> reducer_error + engine \<times> (status \<times> eval_context) list" where
  "probe_parallel ev context trav [] self = Inr (self, [])"
| "probe_parallel ev context trav (branch # branches) self =
     bind_res (ev branch self (clear_writes context) (trav\<lparr>tr_mode := Probe\<rparr>))
       (\<lambda>(self, branch_context, status).
     bind_res (probe_parallel ev context trav branches self) (\<lambda>(self, probes).
     Inr (self, (status, branch_context) # probes)))"

definition parallel_join_required :: "join \<Rightarrow> nat \<Rightarrow> reducer_error + nat" where
  "parallel_join_required j branch_count =
     (case j of
        JAll \<Rightarrow> Inr branch_count
      | JAny \<Rightarrow> Inr 1
      | JFirst _ \<Rightarrow> Inr 1
      | JQuorum k \<Rightarrow> Inr k)"

definition complete_branch ::
    "engine \<Rightarrow> join \<Rightarrow> traversal \<Rightarrow> (nat \<times> history_position) list \<Rightarrow> nat \<times> status \<times> eval_context
       \<Rightarrow> reducer_error + (nat \<times> history_position) list" where
  "complete_branch self j trav completed = (\<lambda>(index, status, branch_context).
     case status of
       Continue position \<Rightarrow>
         bind_res (case j of
                     JFirst when \<Rightarrow> guard self when branch_context (tr_map_indices trav)
                   | _ \<Rightarrow> Inr True) (\<lambda>satisfies.
           Inr (if satisfies then completed @ [(index, position)] else completed))
     | _ \<Rightarrow> Inr completed)"

definition parallel_completions ::
    "engine \<Rightarrow> join \<Rightarrow> (status \<times> eval_context) list \<Rightarrow> traversal
       \<Rightarrow> reducer_error + (nat \<times> history_position) list \<times> nat" where
  "parallel_completions self j probes trav =
     bind_res (try_foldl (complete_branch self j trav) [] (enumerate 0 probes)) (\<lambda>completed.
     bind_res (parallel_join_required j (length probes)) (\<lambda>needed.
     Inr (completed, needed)))"

definition record_parallel_control ::
    "engine \<Rightarrow> node_name \<Rightarrow> join \<Rightarrow> traversal \<Rightarrow> parallel_control_result \<Rightarrow> eval_context
       \<Rightarrow> eval_context" where
  "record_parallel_control self name j trav result context =
     (let first = (case j of JFirst _ \<Rightarrow> True | _ \<Rightarrow> False);
          label = (case (first, result) of
              (True, Reached) \<Rightarrow> ''satisfied''
            | (True, Unreachable) \<Rightarrow> ''no_satisfier''
            | (False, Reached) \<Rightarrow> ''reached''
            | (False, Unreachable) \<Rightarrow> ''quorum_unreachable'')
      in set_group_control self name (if first then ''raced'' else ''joined'') label
           (tr_map_indices trav) context)"

definition max_position :: "history_position list \<Rightarrow> history_position" where
  "max_position positions = fold max positions HistoryPosition_ZERO"

definition decide_branches ::
    "evaluator \<Rightarrow> eval_context \<Rightarrow> traversal \<Rightarrow> graph_node list \<Rightarrow> engine \<Rightarrow> reducer_error + engine" where
  "decide_branches ev context trav branches self =
     try_foldl (\<lambda>self branch. bind_res (ev branch self context trav) (\<lambda>(self, _, _). Inr self))
       self branches"

definition unreached_parallel_join ::
    "evaluator \<Rightarrow> node_name \<Rightarrow> graph_node list \<Rightarrow> join \<Rightarrow> engine \<Rightarrow> eval_context \<Rightarrow> traversal
       \<Rightarrow> (status \<times> eval_context) list \<Rightarrow> nat \<Rightarrow> nat
       \<Rightarrow> reducer_error + engine \<times> eval_context \<times> status option" where
  "unreached_parallel_join ev name branches j self context trav probes completed needed =
     (if completed \<ge> needed then Inr (self, context, None)
      else if \<not> list_all (\<lambda>(status, _). status \<noteq> Pending) probes
      then bind_res (if tr_mode trav = Decide then decide_branches ev context trav branches self
                     else Inr self) (\<lambda>self.
           Inr (self, context, Some Pending))
      else
        let context = record_parallel_control self name j trav Unreachable context;
            self = continue_decision self name (tr_mode trav);
            position = max_position (filter (\<lambda>p. p \<noteq> HistoryPosition_MAX)
              (map (\<lambda>(status, _). status_position status) probes))
        in Inr (self, context, Some (Continue position)))"

definition join_branch_writes ::
    "field_path list \<Rightarrow> eval_context \<Rightarrow> eval_context \<Rightarrow> reducer_error + eval_context" where
  "join_branch_writes promoted_state_paths branch_context joined =
     try_foldl (\<lambda>joined path.
         bind_res (select (ctx_state branch_context) path) (\<lambda>value.
         bind_res (set_path (ctx_state joined) path value) (\<lambda>state.
         Inr (joined\<lparr>ctx_state := state,
                     ctx_local_writes := bs_insert path (ctx_local_writes joined)\<rparr>))))
       joined (promoted_write_paths (ctx_local_writes branch_context) promoted_state_paths)"

definition join_winner ::
    "evaluator \<Rightarrow> graph_node list \<Rightarrow> field_path list \<Rightarrow> eval_context \<Rightarrow> traversal \<Rightarrow> history_position
       \<Rightarrow> engine \<times> eval_context \<Rightarrow> nat \<times> history_position
       \<Rightarrow> reducer_error + engine \<times> eval_context" where
  "join_winner ev branches promoted_state_paths context trav join_position =
     (\<lambda>(self, joined) (index, _).
     if index \<ge> length branches then Inl InconsistentHistory
     else
       let branch = branches ! index
       in bind_res (ev branch self (clear_writes context) (trav\<lparr>tr_cutoff := join_position\<rparr>))
            (\<lambda>(self, branch_context, status).
          case status of
            Continue _ \<Rightarrow>
              bind_res (join_branch_writes promoted_state_paths branch_context joined) (\<lambda>joined.
              Inr (self, merge_scoped_runtime_facts branch_context joined
                           (descendant_names branch) (tr_map_indices trav)))
          | _ \<Rightarrow> Inl InconsistentHistory))"

definition join_parallel_winners ::
    "evaluator \<Rightarrow> graph_node list \<Rightarrow> field_path list \<Rightarrow> engine \<Rightarrow> eval_context \<Rightarrow> traversal
       \<Rightarrow> (nat \<times> history_position) list
       \<Rightarrow> reducer_error + engine \<times> eval_context \<times> history_position \<times> nat btree_set" where
  "join_parallel_winners ev branches promoted_state_paths self context trav winners =
     (let join_position = max_position (map snd winners);
          winner_set = bs_of_list (map fst winners)
      in bind_res
           (try_foldl (join_winner ev branches promoted_state_paths context trav join_position)
              (self, clear_writes context) winners)
           (\<lambda>(self, joined). Inr (self, joined, join_position, winner_set)))"

definition emit_parallel_promotion ::
    "engine \<Rightarrow> node_name \<Rightarrow> field_path list \<Rightarrow> eval_context \<Rightarrow> traversal \<Rightarrow> reducer_error + engine" where
  "emit_parallel_promotion self name promoted_state_paths joined trav =
     (if tr_mode trav \<noteq> Decide \<or> promoted_state_paths = [] then Inr self
      else
        bind_res (ok_or InconsistentHistory (bm_get (eng_optional_promotions self) name))
          (\<lambda>optional_paths.
        bind_res (try_foldl (\<lambda>values path.
             bind_res (promoted_value (ctx_state joined) path (ctx_local_writes joined)
                         (path \<in> set optional_paths)) (\<lambda>selected.
             Inr (case selected of
                    Some value \<Rightarrow> values @ [\<lparr>pv_path = path, pv_value = value\<rparr>]
                  | None \<Rightarrow> values))) [] promoted_state_paths) (\<lambda>values.
        Inr (if values = [] then self
             else push_decision (Promote name (tr_map_indices trav) values) self))))"

definition void_parallel_losers ::
    "graph_node list \<Rightarrow> nat btree_set \<Rightarrow> void_scope \<Rightarrow> engine \<Rightarrow> engine" where
  "void_parallel_losers branches winners scope self =
     fold (\<lambda>(index, branch) self.
         if index \<in> set winners then self else void_active_descendants self branch scope)
       (enumerate 0 branches) self"

definition finish_parallel_join ::
    "node_name \<Rightarrow> graph_node list \<Rightarrow> field_path list \<Rightarrow> join \<Rightarrow> engine \<Rightarrow> eval_context \<Rightarrow> traversal
       \<Rightarrow> nat \<Rightarrow> nat \<Rightarrow> eval_context \<Rightarrow> history_position \<Rightarrow> nat btree_set \<Rightarrow> eval_result" where
  "finish_parallel_join name branches promoted_state_paths j self context trav
       branch_count needed joined position winners =
     bind_res (emit_parallel_promotion self name promoted_state_paths joined trav) (\<lambda>self.
     let context = joined\<lparr>ctx_local_writes :=
           bs_extend (ctx_local_writes joined) (ctx_local_writes context)\<rparr>;
         context = record_parallel_control self name j trav Reached context;
         self = (if needed < branch_count
                 then void_parallel_losers branches winners
                        \<lparr>vs_map_indices = tr_map_indices trav, vs_cutoff = position,
                         vs_reason = ParallelJoin,
                         vs_emit_decisions = (tr_mode trav = Decide)\<rparr> self
                 else self)
     in Inr (continue_decision self name (tr_mode trav), context, Continue position))"

definition eval_parallel ::
    "evaluator \<Rightarrow> node_name \<Rightarrow> graph_node list \<Rightarrow> field_path list \<Rightarrow> join
       \<Rightarrow> engine \<Rightarrow> eval_context \<Rightarrow> traversal \<Rightarrow> eval_result" where
  "eval_parallel ev name branches promoted_state_paths j self context trav =
     (let checkpoint = trace_checkpoint self
      in bind_res (probe_parallel ev context trav branches self) (\<lambda>(self, probes).
         let (self, probe_trace) = take_trace_since self checkpoint
         in bind_res (parallel_completions self j probes trav) (\<lambda>(completed, needed).
            let ordered = sort_key (\<lambda>(index, position). (position, index)) completed
            in bind_res (unreached_parallel_join ev name branches j self context trav probes
                           (length ordered) needed) (\<lambda>(self, context, unreached).
               case unreached of
                 Some status \<Rightarrow>
                   bind_res (if status \<noteq> Pending then restore_trace self probe_trace else Inr self)
                     (\<lambda>self. Inr (self, context, status))
               | None \<Rightarrow>
                   bind_res (join_parallel_winners ev branches promoted_state_paths self context trav
                               (take needed ordered)) (\<lambda>(self, joined, position, winners).
                   finish_parallel_join name branches promoted_state_paths j self context trav
                     (length probes) needed joined position winners)))))"

section \<open>Maps\<close>

record map_item_result =
  mi_status :: status
  mi_context :: eval_context
  mi_scope :: "u64 list"

definition terminal_entry :: "nat \<times> map_item_result \<Rightarrow> (nat \<times> history_position \<times> status) option" where
  "terminal_entry = (\<lambda>(index, result).
     case mi_status result of
       Terminal position _ \<Rightarrow> Some (index, position, mi_status result)
     | _ \<Rightarrow> None)"

definition earliest_terminal :: "map_item_result list \<Rightarrow> (nat \<times> status) option" where
  "earliest_terminal results =
     (case sort_key (\<lambda>(index, position, _). (position, index))
             (List.map_filter terminal_entry (enumerate 0 results)) of
        [] \<Rightarrow> None
      | (index, _, status) # _ \<Rightarrow> Some (index, status))"

definition map_overflow ::
    "node_name \<Rightarrow> engine \<Rightarrow> eval_context \<Rightarrow> traversal \<Rightarrow> engine \<times> eval_context \<times> status" where
  "map_overflow name self context trav =
     (let context = set_group_control self name ''overflow'' ''overflow'' (tr_map_indices trav) context
      in (continue_decision self name (tr_mode trav), context, Continue HistoryPosition_ZERO))"

fun evaluate_map_items ::
    "evaluator \<Rightarrow> graph_node \<Rightarrow> eval_context \<Rightarrow> traversal \<Rightarrow> eval_mode \<Rightarrow> (nat \<times> json) list \<Rightarrow> engine
       \<Rightarrow> reducer_error + engine \<times> map_item_result list" where
  "evaluate_map_items ev body context trav mode [] self = Inr (self, [])"
| "evaluate_map_items ev body context trav mode ((index, item) # items) self =
     (let scope = tr_map_indices trav @ [index]
      in bind_res (ev body self (clear_writes context)
                    (trav\<lparr>tr_map_indices := scope, tr_item := Some item, tr_mode := mode\<rparr>))
           (\<lambda>(self, item_context, status).
         bind_res (evaluate_map_items ev body context trav mode items self) (\<lambda>(self, results).
         Inr (self, \<lparr>mi_status = status, mi_context = item_context, mi_scope = scope\<rparr> # results))))"

definition finish_terminal_map_item ::
    "evaluator \<Rightarrow> graph_node \<Rightarrow> engine \<Rightarrow> eval_context \<Rightarrow> traversal \<Rightarrow> json list
       \<Rightarrow> map_item_result list \<Rightarrow> nat \<Rightarrow> status \<Rightarrow> reducer_error + engine \<times> status" where
  "finish_terminal_map_item ev body self context trav items probes index terminal =
     (if index \<ge> length probes then Inl InconsistentHistory
      else
        let terminal_scope = mi_scope (probes ! index)
        in bind_res
             (if tr_mode trav = Decide
              then if index \<ge> length items then Inl InconsistentHistory
                   else bind_res (ev body self context
                          (trav\<lparr>tr_map_indices := terminal_scope, tr_item := Some (items ! index),
                                tr_cutoff := status_position terminal\<rparr>))
                          (\<lambda>(self, _, status). Inr (self, status))
              else Inr (self, terminal))
             (\<lambda>(self, terminal).
           Inr (void_map_losers self body
                  \<lparr>vs_map_indices = tr_map_indices trav, vs_cutoff = status_position terminal,
                   vs_reason = MapTerminal, vs_emit_decisions = (tr_mode trav = Decide)\<rparr>
                  terminal_scope, terminal)))"

definition collect_map_path ::
    "map_item_result list \<Rightarrow> eval_context \<times> field_path list \<Rightarrow> field_path
       \<Rightarrow> reducer_error + eval_context \<times> field_path list" where
  "collect_map_path results = (\<lambda>(local, collected_paths) path.
     if list_ex (\<lambda>item. promoted_write_paths (ctx_local_writes (mi_context item)) [path] = []) results
     then Inr (local, collected_paths)
     else
       bind_res (try_map (\<lambda>item. select (ctx_state (mi_context item)) path) results) (\<lambda>values.
       bind_res (set_path (ctx_state local) path (VArray values)) (\<lambda>state.
       Inr (local\<lparr>ctx_state := state, ctx_local_writes := bs_insert path (ctx_local_writes local)\<rparr>,
            collected_paths @ [path]))))"

definition finish_map ::
    "node_name \<Rightarrow> graph_node \<Rightarrow> field_path list \<Rightarrow> engine \<Rightarrow> eval_context \<Rightarrow> traversal
       \<Rightarrow> map_item_result list \<Rightarrow> eval_result" where
  "finish_map name body promoted_state_paths self context trav results =
     bind_res (try_foldl (collect_map_path results) (context, []) promoted_state_paths)
       (\<lambda>(local, collected_paths).
     let local = set_group_control self name ''overflow'' ''ok'' (tr_map_indices trav) local
     in bind_res (promote_group self name collected_paths trav local context) (\<lambda>(self, context).
        let context = fold (\<lambda>item context.
              merge_scoped_runtime_facts (mi_context item) context (descendant_names body)
                (mi_scope item)) results context
        in Inr (continue_decision self name (tr_mode trav), context,
                Continue (max_position (map (\<lambda>item. status_position (mi_status item)) results)))))"

definition eval_map ::
    "evaluator \<Rightarrow> node_name \<Rightarrow> graph_node \<Rightarrow> data_selector \<Rightarrow> positive_integer \<Rightarrow> field_path list
       \<Rightarrow> engine \<Rightarrow> eval_context \<Rightarrow> traversal \<Rightarrow> eval_result" where
  "eval_map ev name body over max_items promoted_state_paths self context trav =
     bind_res (select_data over (ctx_state context) (tr_item trav)) (\<lambda>selected.
     bind_res (ok_or InvalidDurableValue (as_array selected)) (\<lambda>items.
     if length items > max_items then Inr (map_overflow name self context trav)
     else
       let checkpoint = trace_checkpoint self
       in bind_res (evaluate_map_items ev body context trav Probe (enumerate 0 items) self)
            (\<lambda>(self, probes).
          let (self, probe_trace) = take_trace_since self checkpoint
          in case earliest_terminal probes of
               Some (index, terminal) \<Rightarrow>
                 bind_res (if tr_mode trav = Probe
                           then restore_trace self (filter (\<lambda>r.
                                  prefix (mi_scope (probes ! index)) (sx_map_indices r)) probe_trace)
                           else Inr self) (\<lambda>self.
                 with_context context
                   (finish_terminal_map_item ev body self context trav items probes index terminal))
             | None \<Rightarrow>
                 bind_res (if tr_mode trav = Probe
                           then bind_res (restore_trace self probe_trace) (\<lambda>self.
                                  Inr (self, probes))
                           else evaluate_map_items ev body context trav (tr_mode trav)
                                  (enumerate 0 items) self) (\<lambda>(self, results).
                 if list_ex (\<lambda>result. mi_status result = Pending) results
                 then Inr (self, context, Pending)
                 else finish_map name body promoted_state_paths self context trav results))))"

section \<open>The evaluator\<close>

definition eval_group_node ::
    "evaluator \<Rightarrow> engine \<Rightarrow> graph_node \<Rightarrow> eval_context \<Rightarrow> traversal \<Rightarrow> eval_result" where
  "eval_group_node ev self node context trav =
     (case node of
        SeqNode name _ children paths \<Rightarrow> eval_sequence ev name children paths self context trav
      | ChoiceNode name _ branches otherwise paths \<Rightarrow>
          eval_choice ev name branches otherwise paths self context trav
      | ParNode name _ branches paths j \<Rightarrow> eval_parallel ev name branches paths j self context trav
      | LoopNode name _ body until max_iterations _ paths \<Rightarrow>
          eval_loop ev name body until max_iterations paths self context trav
      | MapNode name _ body over max_items paths \<Rightarrow>
          eval_map ev name body over max_items paths self context trav
      | _ \<Rightarrow> Inl InconsistentHistory)"

definition is_terminal_node :: "graph_node \<Rightarrow> bool" where
  "is_terminal_node node = (case node of SucceedNode _ \<Rightarrow> True | FailNode _ \<Rightarrow> True | _ \<Rightarrow> False)"

definition is_atomic_group :: "graph_node \<Rightarrow> bool" where
  "is_atomic_group node =
     (case node of ParNode _ _ _ _ _ \<Rightarrow> True | MapNode _ _ _ _ _ _ \<Rightarrow> True | _ \<Rightarrow> False)"

definition enter_boundary :: "graph_node \<Rightarrow> traversal \<Rightarrow> traversal" where
  "enter_boundary node trav =
     (if tr_boundary trav = None \<and> is_atomic_group node
      then trav\<lparr>tr_boundary := Some
             \<lparr>eb_node = node_name node, eb_map_indices = tr_map_indices trav,
              eb_loop_iterations = tr_loop_iterations trav, eb_attempt = 0\<rparr>\<rparr>
      else trav)"

definition eval_dispatch ::
    "evaluator \<Rightarrow> engine \<Rightarrow> graph_node \<Rightarrow> eval_context \<Rightarrow> traversal \<Rightarrow> eval_result" where
  "eval_dispatch ev self node context trav =
     (if is_executable node then eval_worker_node self node context trav
      else if is_terminal_node node
      then bind_res (eval_terminal_node self node context trav) (\<lambda>status. Inr (self, context, status))
      else eval_group_node ev self node context trav)"

definition eval_step :: "(json \<Rightarrow> nat) \<Rightarrow> evaluator \<Rightarrow> evaluator" where
  "eval_step json_len ev node self context trav =
     (let trav = enter_boundary node trav
      in bind_res (trace_enter self node trav) (\<lambda>(self, trace).
         bind_res (eval_dispatch ev self node context trav) (\<lambda>(self, context, status).
         let self = trace_finish self trace status context
         in bind_res (if is_terminal_node node then trace_terminal json_len self trace status
                      else Inr self) (\<lambda>self.
            Inr (self, context, status)))))"

lemma eval_children_cong:
  "(\<And>c. c \<in> set children \<Longrightarrow> ev c = ev' c) \<Longrightarrow>
   eval_children ev trav children self local position =
   eval_children ev' trav children self local position"
  by (induction children arbitrary: self local position)
    (auto intro!: bind_res_cong split: status.splits)

lemma loop_rounds_cong:
  assumes "ev body = ev' body"
  shows "loop_rounds ev body until names trav n i self local position =
         loop_rounds ev' body until names trav n i self local position"
  using assms
  by (induction n arbitrary: i self local position)
    (auto simp: Let_def intro!: bind_res_cong split: status.splits)

lemma probe_parallel_cong:
  "(\<And>c. c \<in> set branches \<Longrightarrow> ev c = ev' c) \<Longrightarrow>
   probe_parallel ev context trav branches self = probe_parallel ev' context trav branches self"
  by (induction branches arbitrary: self) (auto intro!: bind_res_cong)

lemma evaluate_map_items_cong:
  assumes "ev body = ev' body"
  shows "evaluate_map_items ev body context trav mode items self =
         evaluate_map_items ev' body context trav mode items self"
  using assms
  by (induction ev body "context" trav mode items self rule: evaluate_map_items.induct)
    (auto simp: Let_def intro!: bind_res_cong)

lemma decide_branches_cong:
  assumes "\<And>c. c \<in> set branches \<Longrightarrow> ev c = ev' c"
  shows "decide_branches ev context trav branches self = decide_branches ev' context trav branches self"
  unfolding decide_branches_def using assms by (auto intro!: try_foldl_cong)

lemma join_winner_cong:
  assumes "\<And>c. c \<in> set branches \<Longrightarrow> ev c = ev' c"
  shows "join_winner ev branches paths context trav p = join_winner ev' branches paths context trav p"
  unfolding join_winner_def using assms by (auto simp: fun_eq_iff Let_def)

lemma choice_selected_child:
  "choice_selected self local trav branches otherwise = Some n \<Longrightarrow>
   n \<in> set (child_nodes (ChoiceNode name state branches otherwise paths))"
  by (auto simp: choice_selected_def find_Some_iff split: option.splits) (metis in_set_conv_nth snd_conv image_eqI)+

lemma eval_step_cong [fundef_cong]:
  assumes "jl = jl'" and "n = n'" and "\<And>c. c \<in> set (child_nodes n') \<Longrightarrow> ev c = ev' c"
  shows "eval_step jl ev n = eval_step jl' ev' n'"
proof -
  have "eval_group_node ev self n' context trav = eval_group_node ev' self n' context trav"
    for self "context" trav
  proof (cases n')
    case (SeqNode name s children paths)
    then show ?thesis
      using assms(3) eval_children_cong[of children ev ev']
      by (simp add: eval_group_node_def eval_sequence_def)
  next
    case (ChoiceNode name s branches otherwise paths)
    have "ev c = ev' c" if "choice_selected self l trav branches otherwise = Some c" for self l trav c
      using choice_selected_child[OF that] assms(3) ChoiceNode by blast
    then show ?thesis
      unfolding ChoiceNode by (auto simp: eval_group_node_def eval_choice_def Let_def split: option.splits)
  next
    case (ParNode name s branches paths j)
    then have c: "\<And>c. c \<in> set branches \<Longrightarrow> ev c = ev' c" using assms(3) by simp
    show ?thesis
      unfolding ParNode eval_group_node_def eval_parallel_def unreached_parallel_join_def
        join_parallel_winners_def
      by (simp add: probe_parallel_cong[OF c] decide_branches_cong[OF c] join_winner_cong[OF c]
          cong: if_cong)
  next
    case (LoopNode name s body until m x paths)
    then have "ev body = ev' body" using assms(3) by simp
    then show ?thesis
      unfolding LoopNode eval_group_node_def eval_loop_def by (simp add: loop_rounds_cong[of ev body ev'])
  next
    case (MapNode name s body over m paths)
    then have c: "ev body = ev' body" using assms(3) by simp
    show ?thesis
      unfolding MapNode eval_group_node_def eval_map_def finish_terminal_map_item_def
      by (simp add: evaluate_map_items_cong[of ev body ev', OF c] c cong: if_cong option.case_cong)
  qed (simp_all add: eval_group_node_def)
  then show ?thesis
    unfolding assms(1,2) by (simp add: fun_eq_iff eval_step_def eval_dispatch_def cong: if_cong)
qed

function eval :: "(json \<Rightarrow> nat) \<Rightarrow> evaluator" where
  "eval json_len node = eval_step json_len (eval json_len) node"
  by pat_completeness auto
termination
  by (relation "measure (\<lambda>(_, n). size n)") (auto dest: child_nodes_size)

declare eval.simps [simp del]

section \<open>Reduction\<close>

record reduction =
  rd_boundary :: "execution_boundary option"
  rd_decisions :: "decision list"
  rd_terminal :: "terminal_result option"

record traced_reduction =
  tx_reduction :: reduction
  tx_trace :: "structural_trace list"
  tx_evaluations :: nat

definition root_traversal :: traversal where
  "root_traversal =
     \<lparr>tr_map_indices = [], tr_loop_iterations = [], tr_boundary = None, tr_item = None,
      tr_mode = Decide, tr_cutoff = HistoryPosition_MAX\<rparr>"

definition initial_state :: "graph_node \<Rightarrow> reduction_input \<Rightarrow> json" where
  "initial_state root input =
     (case node_state root of
        Some state \<Rightarrow> materialize_missing_fields state (ri_initial_input input)
      | None \<Rightarrow> ri_initial_input input)"

definition terminal_of :: "status \<Rightarrow> terminal_result option" where
  "terminal_of status = (case status of Terminal _ projection \<Rightarrow> Some projection | _ \<Rightarrow> None)"

definition evaluate ::
    "(json \<Rightarrow> nat) \<Rightarrow> graph_node \<Rightarrow> execution_mode \<Rightarrow> reduction_input \<Rightarrow> bool
       \<Rightarrow> reducer_error + traced_reduction" where
  "evaluate json_len root mode input trace =
     bind_res (Engine_new input root mode) (\<lambda>engine.
     let engine = engine\<lparr>eng_trace := (if trace then Some trace_default else None)\<rparr>
     in bind_res (eval json_len root engine (Context_new (initial_state root input)) root_traversal)
          (\<lambda>(engine, _, status).
        bind_res (ensure_history_consumed engine) (\<lambda>_.
        let engine = canonicalize_void_decisions engine;
            terminal = terminal_of status;
            engine = (case terminal of
                Some projection \<Rightarrow> push_decision (TerminalDecision projection) engine
              | None \<Rightarrow> engine)
        in Inr \<lparr>tx_reduction = \<lparr>rd_boundary = eng_boundary engine,
                               rd_decisions = eng_decisions engine, rd_terminal = terminal\<rparr>,
               tx_trace = (case eng_trace engine of None \<Rightarrow> [] | Some t \<Rightarrow> tc_records t),
               tx_evaluations = (case eng_trace engine of None \<Rightarrow> 0 | Some t \<Rightarrow> tc_evaluations t)\<rparr>)))"

definition reduce ::
    "(json \<Rightarrow> nat) \<Rightarrow> graph_node \<Rightarrow> execution_mode \<Rightarrow> reduction_input \<Rightarrow> reducer_error + reduction" where
  "reduce json_len root mode input =
     bind_res (evaluate json_len root mode input False) (\<lambda>result. Inr (tx_reduction result))"

definition reduce_with_trace ::
    "(json \<Rightarrow> nat) \<Rightarrow> graph_node \<Rightarrow> execution_mode \<Rightarrow> reduction_input
       \<Rightarrow> reducer_error + traced_reduction" where
  "reduce_with_trace json_len root mode input = evaluate json_len root mode input True"

section \<open>Evaluation rules\<close>

declare promote_group_def [exec_simps] eval_sequence_def [exec_simps] loop_scope_def [exec_simps]
  finish_loop_def [exec_simps] eval_loop_def [exec_simps] choice_selected_def [exec_simps]
  eval_choice_def [exec_simps] parallel_join_required_def [exec_simps] complete_branch_def [exec_simps]
  parallel_completions_def [exec_simps] record_parallel_control_def [exec_simps]
  max_position_def [exec_simps] decide_branches_def [exec_simps] unreached_parallel_join_def [exec_simps]
  join_branch_writes_def [exec_simps] join_winner_def [exec_simps] join_parallel_winners_def [exec_simps]
  emit_parallel_promotion_def [exec_simps] void_parallel_losers_def [exec_simps]
  finish_parallel_join_def [exec_simps] eval_parallel_def [exec_simps] terminal_entry_def [exec_simps]
  earliest_terminal_def [exec_simps] map_overflow_def [exec_simps]
  finish_terminal_map_item_def [exec_simps] collect_map_path_def [exec_simps] finish_map_def [exec_simps]
  eval_map_def [exec_simps] eval_group_node_def [exec_simps] is_terminal_node_def [exec_simps]
  is_atomic_group_def [exec_simps] enter_boundary_def [exec_simps] eval_dispatch_def [exec_simps]
  eval_step_def [exec_simps] eval.simps [exec_simps] root_traversal_def [exec_simps]
  initial_state_def [exec_simps] terminal_of_def [exec_simps] evaluate_def [exec_simps]
  reduce_def [exec_simps] reduce_with_trace_def [exec_simps]

end
