(* ===== verification/Reducer_Laws.thy ===== *)
theory Reducer_Laws
  imports Reducer
begin

text \<open>
  Laws of the reducer that hold through its whole recursion. The locale \<open>engine_relation\<close> states
  what a relation between engines has to satisfy on the few primitive operations that change an
  engine; it proves once, by induction over the graph, that \<open>eval\<close> then obeys the relation. The
  interpretations below instantiate it with the relations behind the reducer's properties.
\<close>

section \<open>Shapes of the primitive operations\<close>

definition within :: "traversal \<Rightarrow> status \<Rightarrow> bool" where
  "within t s \<longleftrightarrow> (s \<noteq> Pending \<longrightarrow> status_position s \<le> tr_cutoff t)"

definition sub_traversal :: "traversal \<Rightarrow> traversal \<Rightarrow> bool" where
  "sub_traversal t' t \<longleftrightarrow>
     prefix (tr_map_indices t) (tr_map_indices t')
     \<and> (tr_mode t = Probe \<longrightarrow> tr_mode t' = Probe)
     \<and> tr_cutoff t' \<le> tr_cutoff t"

definition retraced :: "engine \<Rightarrow> engine \<Rightarrow> bool" where
  "retraced e e' \<longleftrightarrow> (\<exists>x. e' = e\<lparr>eng_trace := x\<rparr>)"

lemma within_simps [simp]:
  "within t Pending" "within t (Continue p) \<longleftrightarrow> p \<le> tr_cutoff t"
  "within t (Terminal p r) \<longleftrightarrow> p \<le> tr_cutoff t"
  by (simp_all add: within_def status_position_def)

lemma within_after: "within t s \<Longrightarrow> p \<le> tr_cutoff t \<Longrightarrow> within t (status_after s p)"
  by (cases s) (auto simp: status_after_def)

lemma retracedI [simp, intro]: "retraced e (e\<lparr>eng_trace := x\<rparr>)"
  by (auto simp: retraced_def)

lemma retraced_self [simp, intro]: "retraced e e"
  unfolding retraced_def by (intro exI[of _ "eng_trace e"]) simp

lemma retraced_trans: "retraced a b \<Longrightarrow> retraced b c \<Longrightarrow> retraced a c"
  by (auto simp: retraced_def)

lemma trace_enter_engine: "trace_enter e n t = Inr (e', i) \<Longrightarrow> retraced e e'"
  by (auto simp: trace_enter_def res_simps split: option.splits)

lemma trace_finish_engine: "retraced e (trace_finish e i s c)"
  by (auto simp: trace_finish_def split: option.splits)

lemma trace_terminal_engine: "trace_terminal jl e i s = Inr e' \<Longrightarrow> retraced e e'"
  by (auto simp: trace_terminal_def Let_def
      split: option.splits status.splits terminal_result.splits if_splits)

lemma trace_branch_engine: "retraced e (trace_branch e n b)"
  by (auto simp: trace_branch_def split: option.splits)

lemma take_trace_engine: "take_trace_since e k = (e', r) \<Longrightarrow> retraced e e'"
  by (auto simp: take_trace_since_def split: option.splits)

lemma restore_trace_engine: "restore_trace e r = Inr e' \<Longrightarrow> retraced e e'"
  by (auto simp: restore_trace_def split: option.splits if_splits)

lemma promote_decisions:
  "promote request local parent ds = Inr (parent', ds') \<Longrightarrow>
   ds' = ds \<or> pr_mode request = Decide \<and> (\<exists>vs. ds' = ds @ [Promote (pr_node request) (pr_map_indices request) vs])"
  by (auto simp: promote_def res_simps Let_def split: if_splits)

lemma promote_group_engine:
  "promote_group e n ps t l p = Inr (e', p') \<Longrightarrow>
   e' = e \<or> tr_mode t = Decide \<and> (\<exists>vs. e' = push_decision (Promote n (tr_map_indices t) vs) e)"
  by (auto simp: promote_group_def res_simps push_decision_def dest!: promote_decisions)

lemma emit_parallel_promotion_engine:
  "emit_parallel_promotion e n ps j t = Inr e' \<Longrightarrow>
   e' = e \<or> tr_mode t = Decide \<and> (\<exists>vs. e' = push_decision (Promote n (tr_map_indices t) vs) e)"
  by (auto simp: emit_parallel_promotion_def res_simps split: if_splits)

lemma push_void_engine:
  "eng_executions (push_void_decision e x r) = eng_executions e"
  "eng_consumed_executions (push_void_decision e x r) = eng_consumed_executions e"
  by (simp_all add: push_void_decision_def push_decision_def)

lemma void_loser_engine [simp]:
  "eng_executions (void_loser sc l e) = eng_executions e"
  "eng_consumed_executions (void_loser sc l e) = eng_consumed_executions e"
  by (cases l; simp add: void_loser_def record_void_cutoff_def Let_def push_void_engine)+

lemma fold_void_engine [simp]:
  "eng_executions (fold (void_loser sc) ls e) = eng_executions e"
  "eng_consumed_executions (fold (void_loser sc) ls e) = eng_consumed_executions e"
  by (induction ls arbitrary: e) auto

lemma void_active_engine [simp]:
  "eng_executions (void_active_descendants e n sc) = eng_executions e"
  "eng_consumed_executions (void_active_descendants e n sc) = eng_consumed_executions e"
  by (simp_all add: void_active_descendants_def)

lemma max_position_le: "(\<And>p. p \<in> set ps \<Longrightarrow> p \<le> c) \<Longrightarrow> max_position ps \<le> c"
proof -
  assume a: "\<And>p. p \<in> set ps \<Longrightarrow> p \<le> c"
  have "m \<le> c \<Longrightarrow> fold max ps m \<le> c" for m using a by (induction ps arbitrary: m) auto
  then show ?thesis by (simp add: max_position_def HistoryPosition_ZERO_def)
qed

lemma finish_existing_within:
  "finish_existing_execution e spec c t x i = Inr (e', c', s) \<Longrightarrow> within t s"
  by (auto simp: finish_existing_execution_def with_context_def dispatch_retry_def res_simps
      split: if_splits durable_execution_state.splits)

lemma dispatch_missing_pending:
  "with_context c (dispatch_missing e spec v i t) = Inr (e', c', s) \<Longrightarrow> s = Pending"
  by (auto simp: with_context_def dispatch_missing_def res_simps split: if_splits)

lemma eval_executable_within:
  "eval_executable e spec c t = Inr (e', c', s) \<Longrightarrow> within t s"
  unfolding eval_executable_def
  by (elim bind_resE)
    (auto simp: Let_def attempts_exhausted_def HistoryPosition_ZERO_def res_simps
      dest: finish_existing_within dispatch_missing_pending split: visit_resolution.splits option.splits)

lemma terminal_entry_Some:
  "terminal_entry (j, r) = Some (i, p, s) \<longleftrightarrow> i = j \<and> s = mi_status r \<and> (\<exists>x. s = Terminal p x)"
  by (cases "mi_status r") (auto simp: terminal_entry_def)

lemma terminal_entry_member:
  "(i, p, s) \<in> set (List.map_filter terminal_entry (enumerate 0 rs)) \<longleftrightarrow>
     i < length rs \<and> s = mi_status (rs ! i) \<and> (\<exists>r. s = Terminal p r)"
proof -
  have "(i, p, s) \<in> set (List.map_filter terminal_entry (enumerate 0 rs)) \<longleftrightarrow>
      (\<exists>j < length rs. terminal_entry (j, rs ! j) = Some (i, p, s))"
    by (auto simp: map_filter_set in_set_enumerate_eq Bex_def)
  also have "\<dots> \<longleftrightarrow> i < length rs \<and> s = mi_status (rs ! i) \<and> (\<exists>r. s = Terminal p r)"
    by (auto simp: terminal_entry_Some)
  finally show ?thesis .
qed

lemma earliest_terminal_member:
  "earliest_terminal rs = Some (i, s) \<Longrightarrow>
   i < length rs \<and> s = mi_status (rs ! i) \<and> (\<exists>p r. s = Terminal p r)"
proof -
  assume "earliest_terminal rs = Some (i, s)"
  then obtain p rest where "sort_key (\<lambda>(index, position, _). (position, index))
      (List.map_filter terminal_entry (enumerate 0 rs)) = (i, p, s) # rest"
    by (auto simp: earliest_terminal_def split: list.splits)
  then have "(i, p, s) \<in> set (List.map_filter terminal_entry (enumerate 0 rs))"
    by (metis list.set_intros(1) set_sort)
  then show ?thesis unfolding terminal_entry_member by blast
qed

section \<open>Shapes of one executable visit\<close>

definition spec_occurrence :: "executable_spec \<Rightarrow> traversal \<Rightarrow> structural_occurrence" where
  "spec_occurrence spec t = StructuralOccurrence (es_name spec) (tr_map_indices t)"

definition dispatch_boundary :: "executable_spec \<Rightarrow> traversal \<Rightarrow> u64 \<Rightarrow> execution_boundary" where
  "dispatch_boundary spec t attempt =
     (case tr_boundary t of
        Some b \<Rightarrow> b
      | None \<Rightarrow> \<lparr>eb_node = es_name spec, eb_map_indices = tr_map_indices t,
                 eb_loop_iterations = tr_loop_iterations t, eb_attempt = attempt\<rparr>)"

text \<open>Executions are only consumed for the occurrence that is evaluated.\<close>

definition consume_step :: "executable_spec \<Rightarrow> traversal \<Rightarrow> engine \<Rightarrow> engine \<Rightarrow> bool" where
  "consume_step spec t e e' \<longleftrightarrow>
     (\<exists>c. e' = e\<lparr>eng_consumed_executions := c\<rparr> \<and> set (eng_consumed_executions e) \<subseteq> set c
        \<and> set c \<subseteq> set (eng_consumed_executions e) \<union>
            {de_execution x | x. x \<in> set (eng_executions e) \<and> de_occurrence x = spec_occurrence spec t})"

text \<open>
  A dispatch happens only while deciding without a cutoff; it takes the next execution identity,
  keeps the boundary of the reduction, respects the attempt ceiling, and reuses the node instance
  of the occurrence or allocates the next one.
\<close>

definition instance_step ::
    "structural_occurrence \<Rightarrow> engine \<Rightarrow> node_instance_id \<Rightarrow> u64 \<Rightarrow> bool" where
  "instance_step oc e inst ni \<longleftrightarrow>
     (\<exists>x \<in> set (eng_executions e). de_occurrence x = oc \<and> de_node_instance x = inst)
       \<and> ni = eng_next_node_instance e
     \<or> (\<forall>x \<in> set (eng_executions e). de_occurrence x \<noteq> oc) \<and> inst = eng_next_node_instance e
       \<and> 0 < inst \<and> ni = inst + 1 \<and> ni \<le> u64_max"

definition dispatch_step :: "executable_spec \<Rightarrow> traversal \<Rightarrow> engine \<Rightarrow> engine \<Rightarrow> bool" where
  "dispatch_step spec t e e' \<longleftrightarrow>
     (\<exists>inst ni attempt input.
        tr_mode t = Decide \<and> tr_cutoff t = HistoryPosition_MAX
        \<and> 0 < eng_next_execution e \<and> eng_next_execution e < u64_max
        \<and> 0 < attempt \<and> attempt \<le> es_attempt_ceiling spec
        \<and> instance_step (spec_occurrence spec t) e inst ni
        \<and> (eng_boundary e = None \<or> eng_boundary e = Some (dispatch_boundary spec t attempt))
        \<and> e' = push_decision
             (Dispatch inst (eng_next_execution e) (spec_occurrence spec t) attempt (last_iteration t)
                (es_worker spec) input)
             (e\<lparr>eng_next_node_instance := ni,
                eng_boundary := Some (dispatch_boundary spec t attempt),
                eng_next_execution := eng_next_execution e + 1\<rparr>))"

lemma record_boundary_ok:
  "record_boundary e spec t a = Inr e' \<longleftrightarrow>
     (eng_boundary e = None \<or> eng_boundary e = Some (dispatch_boundary spec t a))
     \<and> e' = e\<lparr>eng_boundary := Some (dispatch_boundary spec t a)\<rparr>"
  by (auto simp: record_boundary_def dispatch_boundary_def Let_def split: option.splits)

lemma allocate_execution_ok:
  "allocate_execution e = Inr (e', x) \<longleftrightarrow>
     0 < eng_next_execution e \<and> eng_next_execution e < u64_max \<and> x = eng_next_execution e
     \<and> e' = e\<lparr>eng_next_execution := eng_next_execution e + 1\<rparr>"
  by (auto simp: allocate_execution_def PositiveIdentity_new_def res_simps checked_add_Some)

lemma allocate_node_instance_ok:
  "allocate_node_instance e = Inr (e', i) \<longleftrightarrow>
     0 < eng_next_node_instance e \<and> eng_next_node_instance e < u64_max \<and> i = eng_next_node_instance e
     \<and> e' = e\<lparr>eng_next_node_instance := eng_next_node_instance e + 1\<rparr>"
  by (auto simp: allocate_node_instance_def PositiveIdentity_new_def res_simps checked_add_Some)

definition visit_ok :: "engine \<Rightarrow> executable_spec \<Rightarrow> traversal \<Rightarrow> executable_visit \<Rightarrow> bool" where
  "visit_ok e spec t v \<longleftrightarrow>
     ev_occurrence v = spec_occurrence spec t
     \<and> set (ev_matching v) = {x \<in> set (eng_executions e). de_occurrence x = spec_occurrence spec t}
     \<and> set (ev_executions v) \<subseteq> set (ev_matching v)
     \<and> ev_attempt v \<le> es_attempt_ceiling spec
     \<and> (\<forall>x. ev_existing v = Some x \<longrightarrow> x \<in> set (ev_matching v))
     \<and> (ev_existing v = None \<longrightarrow> 0 < ev_attempt v)"

lemma native_visits_subset: "set (native_visits_from v n es) \<subseteq> set es"
  by (induction es arbitrary: v) (auto simp: Let_def)

lemma find_member: "find P xs = Some x \<Longrightarrow> x \<in> set xs"
  by (auto simp: find_Some_iff)

lemma set_matching_executions:
  "set (matching_executions e oc) = {x \<in> set (eng_executions e). de_occurrence x = oc}"
  by (auto simp: matching_executions_def)

lemma resolve_visit_ok:
  assumes "resolve_visit e spec x (tr_map_indices t) = Inr (Ready v)"
  shows "visit_ok e spec t v"
proof (cases "eng_execution_mode e")
  case LegacyAttempts
  let ?m = "matching_executions e (spec_occurrence spec t)"
  let ?n = "next_visit (es_name spec) (tr_map_indices t) (ctx_controls x)"
  from assms LegacyAttempts obtain a where "PositiveInteger_new ?n = Inr a" "a \<le> es_attempt_ceiling spec"
    and v: "v = \<lparr>ev_occurrence = spec_occurrence spec t, ev_matching = sort_key de_attempt ?m,
         ev_executions = (case find (\<lambda>d. de_attempt d = a) (sort_key de_attempt ?m) of None \<Rightarrow> [] | Some e \<Rightarrow> [e]),
         ev_number = ?n, ev_attempt = a,
         ev_existing = find (\<lambda>d. de_attempt d = a) (sort_key de_attempt ?m)\<rparr>"
    by (auto simp: resolve_visit_def Let_def spec_occurrence_def split: sum.splits if_splits)
  moreover from this have "0 < a" by (auto simp: PositiveInteger_new_def split: if_splits)
  ultimately show ?thesis
    using find_member[of _ "sort_key de_attempt ?m"]
    by (auto simp: visit_ok_def set_matching_executions split: option.splits)
next
  case NativeV2
  let ?m = "sort_key de_dispatch_position (matching_executions e (spec_occurrence spec t))"
  let ?n = "next_visit (es_name spec) (tr_map_indices t) (ctx_controls x)"
  let ?x = "native_visit_executions ?m ?n"
  from assms NativeV2 have
    v: "v = \<lparr>ev_occurrence = spec_occurrence spec t, ev_matching = ?m, ev_executions = ?x, ev_number = ?n,
         ev_attempt = (if ?x = [] then INITIAL_ATTEMPT else de_attempt (last ?x)),
         ev_existing = (if ?x = [] then None else Some (last ?x))\<rparr>"
    and "(if ?x = [] then INITIAL_ATTEMPT else de_attempt (last ?x)) \<le> es_attempt_ceiling spec"
    by (auto simp: resolve_visit_def Let_def spec_occurrence_def split: if_splits)
  moreover have sub: "set ?x \<subseteq> set ?m"
    using native_visits_subset[of 0 ?n ?m] by (simp add: native_visit_executions_def)
  moreover have "last ?x \<in> set ?m" if "?x \<noteq> []"
    using last_in_set[OF that] sub by blast
  ultimately show ?thesis
    by (auto simp: visit_ok_def set_matching_executions INITIAL_ATTEMPT_def)
qed

lemma consume_visit_step:
  assumes "consume_visit e i xs = Inr e'"
    and "set xs \<subseteq> {x \<in> set (eng_executions e). de_occurrence x = spec_occurrence spec t}"
  shows "consume_step spec t e e'"
proof -
  have "\<exists>c. e' = e\<lparr>eng_consumed_executions := c\<rparr>
      \<and> set c = set (eng_consumed_executions e) \<union> de_execution ` set xs"
    using assms(1)
  proof (induction xs arbitrary: e)
    case Nil
    then show ?case by (auto simp: consume_visit_def intro!: exI[of _ "eng_consumed_executions e"])
  next
    case (Cons x xs)
    let ?e = "e\<lparr>eng_consumed_executions := bs_insert (de_execution x) (eng_consumed_executions e)\<rparr>"
    from Cons.prems have "consume_visit ?e i xs = Inr e'"
      by (auto simp: consume_visit_def split: if_splits)
    from Cons.IH[OF this] show ?case by auto
  qed
  then obtain c where "e' = e\<lparr>eng_consumed_executions := c\<rparr>"
    and "set c = set (eng_consumed_executions e) \<union> de_execution ` set xs" by blast
  then show ?thesis using assms(2) unfolding consume_step_def by (intro exI[of _ c]) auto
qed

lemma consume_step_keeps:
  "consume_step spec t e e' \<Longrightarrow> eng_executions e' = eng_executions e"
  by (auto simp: consume_step_def)

lemma dispatch_missing_step:
  assumes "dispatch_missing e spec v i t = Inr (e', s)"
    and "visit_ok e spec t v" and "ev_existing v = None"
  shows "e' = e \<or> dispatch_step spec t e e'"
proof -
  let ?oc = "spec_occurrence spec t"
  have inst: "instance_step ?oc e inst ni \<and> e1 = e\<lparr>eng_next_node_instance := ni\<rparr>"
    if "(if ev_matching v = [] then allocate_node_instance e
         else Inr (e, de_node_instance (last (ev_matching v)))) = Inr (e1, inst)"
      and "ni = eng_next_node_instance e1" for e1 inst ni
  proof (cases "ev_matching v = []")
    case True
    then have "\<forall>x \<in> set (eng_executions e). de_occurrence x \<noteq> ?oc"
      using assms(2) by (auto simp: visit_ok_def)
    then show ?thesis
      using that True by (auto simp: instance_step_def allocate_node_instance_ok)
  next
    case False
    with last_in_set[OF False] assms(2) have "last (ev_matching v) \<in> set (eng_executions e)"
      "de_occurrence (last (ev_matching v)) = ?oc" by (auto simp: visit_ok_def)
    then show ?thesis using that False by (auto simp: instance_step_def)
  qed
  show ?thesis
  proof (cases "tr_mode t = Probe \<or> tr_cutoff t \<noteq> HistoryPosition_MAX")
    case True
    then show ?thesis using assms(1) by (simp add: dispatch_missing_def)
  next
    case False
    with assms(1) obtain e1 inst e2 e3 x where
      i: "(if ev_matching v = [] then allocate_node_instance e
         else Inr (e, de_node_instance (last (ev_matching v)))) = Inr (e1, inst)"
      and b: "record_boundary e1 spec t (ev_attempt v) = Inr e2"
      and a: "allocate_execution e2 = Inr (e3, x)"
      and e': "e' = push_decision (Dispatch inst x (ev_occurrence v) (ev_attempt v)
                  (last_iteration t) (es_worker spec) i) e3"
      unfolding dispatch_missing_def by (auto elim!: bind_resE)
    obtain ni where in': "instance_step ?oc e inst ni" and e1: "e1 = e\<lparr>eng_next_node_instance := ni\<rparr>"
      using inst[OF i refl] by blast
    have "tr_mode t = Decide" using False by (cases "tr_mode t") auto
    then have "dispatch_step spec t e e'"
      unfolding dispatch_step_def
      using in' b a e' False assms(2,3)
      by (intro exI[of _ inst] exI[of _ ni] exI[of _ "ev_attempt v"] exI[of _ i])
        (auto simp: e1 record_boundary_ok allocate_execution_ok visit_ok_def)
    then show ?thesis ..
  qed
qed

lemma dispatch_retry_step:
  assumes "dispatch_retry e spec t x i = Inr (e', s)"
    and "x \<in> set (eng_executions e)" and "de_occurrence x = spec_occurrence spec t"
    and "de_attempt x < es_attempt_ceiling spec"
  shows "e' = e \<or> dispatch_step spec t e e'"
proof (cases "tr_mode t = Probe \<or> tr_cutoff t \<noteq> HistoryPosition_MAX")
  case True
  then show ?thesis using assms(1) by (simp add: dispatch_retry_def)
next
  case False
  with assms(1) obtain a e2 e3 y where
    a: "checked_add (de_attempt x) 1 = Some a" "PositiveInteger_new a = Inr a"
    and b: "record_boundary e spec t a = Inr e2"
    and y: "allocate_execution e2 = Inr (e3, y)"
    and e': "e' = push_decision (Dispatch (de_node_instance x) y (de_occurrence x) a
                  (last_iteration t) (es_worker spec) i) e3"
    unfolding dispatch_retry_def
    by (auto simp: PositiveInteger_new_def res_simps split: sum.splits if_splits)
  have "tr_mode t = Decide" using False by (cases "tr_mode t") auto
  then have "dispatch_step spec t e e'"
    unfolding dispatch_step_def
    using a b y e' False assms(2-4)
    by (intro exI[of _ "de_node_instance x"] exI[of _ "eng_next_node_instance e"] exI[of _ a] exI[of _ i])
      (auto simp: record_boundary_ok allocate_execution_ok checked_add_Some instance_step_def)
  then show ?thesis ..
qed

definition only_progress :: "decision list \<Rightarrow> bool" where
  "only_progress ds \<longleftrightarrow>
     (\<forall>d \<in> set ds. case d of Promote _ _ _ \<Rightarrow> True | ContinueDecision _ \<Rightarrow> True | _ \<Rightarrow> False)"

lemma finish_existing_shape:
  assumes "finish_existing_execution e spec c t x i = Inr (e', c', s)"
    and "x \<in> set (eng_executions e)" and "de_occurrence x = spec_occurrence spec t"
  shows "(s = Pending \<and> (e' = e \<or> dispatch_step spec t e e'))
     \<or> (\<exists>ds. e' = e\<lparr>eng_decisions := eng_decisions e @ ds\<rparr> \<and> only_progress ds \<and> (tr_mode t = Probe \<longrightarrow> ds = []))"
proof -
  have progress: "\<exists>ds. continue_decision e1 n m = e\<lparr>eng_decisions := eng_decisions e @ ds\<rparr>
      \<and> only_progress ds \<and> (m = Probe \<longrightarrow> ds = [])"
    if "e1 = e \<or> m = Decide \<and> (\<exists>vs. e1 = push_decision (Promote n' idx vs) e)" for e1 n n' m idx
  proof (cases m)
    case Decide
    with that obtain vs where "e1 = e\<lparr>eng_decisions := eng_decisions e @ vs\<rparr>" "only_progress vs"
      by (auto simp: push_decision_def only_progress_def intro: that[of "[]"])
    then show ?thesis
      by (intro exI[of _ "vs @ [ContinueDecision n]"])
        (auto simp: Decide continue_decision_def push_decision_def only_progress_def)
  qed (use that in \<open>auto simp: continue_decision_def only_progress_def intro!: exI[of _ "[]"]\<close>)
  have writes: "e1 = e \<or> tr_mode t = Decide \<and> (\<exists>vs. e1 = push_decision (Promote (es_name spec) (tr_map_indices t) vs) e)"
    if "(if w then promote_writes e spec c1 t else Inr e) = Inr e1" for w c1 e1
    using that by (auto simp: promote_writes_def res_simps split: if_splits)
  show ?thesis
  proof (cases "de_state x")
    case (ExecSettled p out)
    show ?thesis
    proof (cases "de_dispatch_position x \<le> tr_cutoff t \<and> p \<le> tr_cutoff t")
      case le: True
      show ?thesis
      proof (cases "retryable_crash e spec x out")
        case True
        with assms(1) le ExecSettled obtain e2 s2 where "dispatch_retry e spec t x i = Inr (e2, s2)" "e' = e2" "s = s2"
          by (auto simp: finish_existing_execution_def with_context_def res_simps)
        then show ?thesis
          using dispatch_retry_step[OF _ assms(2,3)] True
          by (auto simp: retryable_crash_def dispatch_retry_def res_simps split: if_splits)
      next
        case False
        with assms(1) le ExecSettled obtain c1 w e1 where
          "(if w then promote_writes e spec c1 t else Inr e) = Inr e1"
          "e' = continue_decision e1 (es_name spec) (tr_mode t)"
          by (auto simp: finish_existing_execution_def elim!: bind_resE)
        then show ?thesis using progress[OF writes] by blast
      qed
    qed (use assms(1) ExecSettled in \<open>auto simp: finish_existing_execution_def split: if_splits\<close>)
  qed (use assms(1) in \<open>auto simp: finish_existing_execution_def split: if_splits\<close>)
qed

lemma eval_executable_shape:
  assumes "eval_executable e spec c t = Inr (e', c', s)"
  shows "\<exists>e1. consume_step spec t e e1 \<and>
     ((s = Pending \<and> (e' = e1 \<or> dispatch_step spec t e1 e'))
      \<or> (\<exists>ds. e' = e1\<lparr>eng_decisions := eng_decisions e1 @ ds\<rparr> \<and> only_progress ds
            \<and> (tr_mode t = Probe \<longrightarrow> ds = [])))"
proof -
  from assms obtain res where res: "resolve_visit e spec c (tr_map_indices t) = Inr res"
    by (auto simp: eval_executable_def elim!: bind_resE)
  show ?thesis
  proof (cases res)
    case Exhausted
    with assms res have "e' = e" by (auto simp: eval_executable_def res_simps)
    moreover have "consume_step spec t e e"
      unfolding consume_step_def by (intro exI[of _ "eng_consumed_executions e"]) auto
    ultimately show ?thesis
      by (intro exI[of _ e]) (auto simp: only_progress_def intro: exI[of _ "[]"])
  next
    case (Ready v)
    note ok = resolve_visit_ok[OF res[unfolded Ready]]
    from assms res Ready obtain i e1 where
      con: "consume_visit e i (ev_executions v) = Inr e1"
      and rest: "(case ev_existing v of
              None \<Rightarrow> with_context (c\<lparr>ctx_controls := mark_visit (es_name spec) (tr_map_indices t) (ctx_controls c)
                 (ev_number v)\<rparr>) (dispatch_missing e1 spec v i t)
            | Some x \<Rightarrow> finish_existing_execution e1 spec (c\<lparr>ctx_controls := mark_visit (es_name spec) (tr_map_indices t) (ctx_controls c)
                 (ev_number v)\<rparr>) t x i) = Inr (e', c', s)"
      by (auto simp: eval_executable_def Let_def elim!: bind_resE)
    have step: "consume_step spec t e e1"
      using consume_visit_step[OF con] ok by (auto simp: visit_ok_def)
    have ok1: "visit_ok e1 spec t v" using ok unfolding visit_ok_def consume_step_keeps[OF step] by blast
    show ?thesis
    proof (cases "ev_existing v")
      case None
      with rest have "s = Pending" by (auto dest: dispatch_missing_pending)
      moreover from rest None have "dispatch_missing e1 spec v i t = Inr (e', s)"
        by (auto simp: with_context_def res_simps)
      ultimately show ?thesis using dispatch_missing_step[OF _ ok1 None] step by blast
    next
      case (Some x)
      with ok1 have x: "x \<in> set (eng_executions e1)" "de_occurrence x = spec_occurrence spec t"
        by (auto simp: visit_ok_def)
      from rest Some have fin: "finish_existing_execution e1 spec
          (c\<lparr>ctx_controls := mark_visit (es_name spec) (tr_map_indices t) (ctx_controls c) (ev_number v)\<rparr>)
          t x i = Inr (e', c', s)" by simp
      from finish_existing_shape[OF fin x] step show ?thesis by blast
    qed
  qed
qed

section \<open>Case analysis of the group operations\<close>

lemma eval_children_Cons:
  assumes "eval_children ev t (c # cs) e l p = Inr (e', l', s)"
  obtains (stop) e1 s1 where "ev c e l t = Inr (e1, l', s1)" "\<And>q. s1 \<noteq> Continue q"
      "e' = e1" "s = status_after s1 p"
    | (go) e1 l1 q where "ev c e l t = Inr (e1, l1, Continue q)"
      "eval_children ev t cs e1 l1 (max p q) = Inr (e', l', s)"
proof -
  from assms obtain e1 l1 s1 where c: "ev c e l t = Inr (e1, l1, s1)"
    and rest: "(case s1 of Continue p1 \<Rightarrow> eval_children ev t cs e1 l1 (max p p1)
      | other \<Rightarrow> Inr (e1, l1, status_after other p)) = Inr (e', l', s)"
    by (auto simp: res_simps)
  then show ?thesis using stop go by (cases s1) auto
qed

lemma eval_sequence_cases:
  assumes "eval_sequence ev n cs ps e x t = Inr (e', x', s)"
  obtains (stop) l where "eval_children ev t cs e (clear_writes x) HistoryPosition_ZERO = Inr (e', l, s)"
      "\<And>q. s \<noteq> Continue q"
    | (finished) e1 l p e2 where
      "eval_children ev t cs e (clear_writes x) HistoryPosition_ZERO = Inr (e1, l, Continue p)"
      "promote_group e1 n ps t l x = Inr (e2, x')"
      "e' = continue_decision e2 n (tr_mode t)" "s = Continue p"
proof -
  from assms obtain e1 l s1 where c: "eval_children ev t cs e (clear_writes x) HistoryPosition_ZERO = Inr (e1, l, s1)"
    and rest: "(case s1 of
       Continue p \<Rightarrow> bind_res (promote_group e1 n ps t l x) (\<lambda>(self, context).
         Inr (continue_decision self n (tr_mode t), context, Continue p))
     | other \<Rightarrow> Inr (e1, x, other)) = Inr (e', x', s)"
    by (auto simp: eval_sequence_def res_simps)
  then show ?thesis using stop finished by (cases s1) (auto simp: res_simps)
qed

lemma loop_rounds_Suc:
  assumes "loop_rounds ev body u names t (Suc n) i e l p = Inr (e', l', ex)"
  obtains (stop) e1 l1 s1 where
      "ev body e (clear_writes (clear_scoped_runtime_facts l names (tr_map_indices t)))
         (t\<lparr>tr_loop_iterations := tr_loop_iterations t @ [i]\<rparr>) = Inr (e1, l1, s1)"
      "\<And>q. s1 \<noteq> Continue q" "e' = e1" "ex = LoopStopped (status_after s1 p)"
    | (converged) e1 l1 q where
      "ev body e (clear_writes (clear_scoped_runtime_facts l names (tr_map_indices t)))
         (t\<lparr>tr_loop_iterations := tr_loop_iterations t @ [i]\<rparr>) = Inr (e1, l1, Continue q)"
      "e' = e1" "ex = LoopConverged (max p q)"
    | (again) e1 l1 q where
      "ev body e (clear_writes (clear_scoped_runtime_facts l names (tr_map_indices t)))
         (t\<lparr>tr_loop_iterations := tr_loop_iterations t @ [i]\<rparr>) = Inr (e1, l1, Continue q)"
      "loop_rounds ev body u names t n (i + 1) e1 l1 (max p q) = Inr (e', l', ex)"
proof -
  from assms obtain e1 l1 s1 where
    b: "ev body e (clear_writes (clear_scoped_runtime_facts l names (tr_map_indices t)))
         (t\<lparr>tr_loop_iterations := tr_loop_iterations t @ [i]\<rparr>) = Inr (e1, l1, s1)"
    and rest: "(case s1 of
        Continue bp \<Rightarrow>
          bind_res (case u of Some g \<Rightarrow> guard e1 g l1 (tr_map_indices t) | None \<Rightarrow> Inr False) (\<lambda>converged.
            if converged then Inr (e1, l1, LoopConverged (max p bp))
            else loop_rounds ev body u names t n (i + 1) e1 l1 (max p bp))
      | other \<Rightarrow> Inr (e1, l1, LoopStopped (status_after other p))) = Inr (e', l', ex)"
    unfolding loop_rounds.simps Let_def by (elim bind_resE) (auto split: prod.splits)
  then show ?thesis
    using stop converged again by (cases s1) (auto elim!: bind_resE split: if_splits)
qed

lemma eval_loop_cases:
  assumes "eval_loop ev n body u m ps e x t = Inr (e', x', s)"
  obtains (stop) l where
      "loop_rounds ev body u (loop_scope n body) t m 1 e x HistoryPosition_ZERO = Inr (e', l, LoopStopped s)"
    | (finished) e1 l ex p e2 l2 x2 where
      "loop_rounds ev body u (loop_scope n body) t m 1 e x HistoryPosition_ZERO = Inr (e1, l, ex)"
      "ex = LoopConverged p \<or> ex = LoopExhausted p"
      "promote_group e1 n ps t l2 x2 = Inr (e2, x')"
      "e' = continue_decision e2 n (tr_mode t)" "s = Continue p"
proof -
  from assms obtain e1 l ex where
    l: "loop_rounds ev body u (loop_scope n body) t m 1 e x HistoryPosition_ZERO = Inr (e1, l, ex)"
    and rest: "(case ex of
       LoopConverged p \<Rightarrow> finish_loop n body ps e1 x t l p ''converged''
     | LoopExhausted p \<Rightarrow> finish_loop n body ps e1 x t l p ''exhausted''
     | LoopStopped s \<Rightarrow> Inr (e1, x, s)) = Inr (e', x', s)"
    by (auto simp: eval_loop_def res_simps)
  then show ?thesis
    using stop finished by (cases ex) (auto simp: finish_loop_def Let_def elim!: bind_resE)
qed

lemma eval_choice_cases:
  assumes "eval_choice ev n bs ot ps e x t = Inr (e', x', s)"
  obtains (stop) c l where "choice_selected e (clear_writes x) t bs ot = Some c"
      "ev c (trace_branch e n (node_name c)) (clear_writes x) t = Inr (e', l, s)" "\<And>q. s \<noteq> Continue q"
    | (finished) c e1 l p e2 x2 where "choice_selected e (clear_writes x) t bs ot = Some c"
      "ev c (trace_branch e n (node_name c)) (clear_writes x) t = Inr (e1, l, Continue p)"
      "promote_group e1 n ps t l x = Inr (e2, x2)"
      "e' = continue_decision e2 n (tr_mode t)" "s = Continue p"
proof -
  from assms obtain c where sel: "choice_selected e (clear_writes x) t bs ot = Some c"
    by (auto simp: eval_choice_def Let_def split: option.splits)
  with assms obtain e1 l s1 where
    c: "ev c (trace_branch e n (node_name c)) (clear_writes x) t = Inr (e1, l, s1)"
    and rest: "(case s1 of
       Continue p \<Rightarrow> bind_res (promote_group e1 n ps t l x) (\<lambda>(self, context).
         Inr (continue_decision self n (tr_mode t), merge_runtime_facts l context, Continue p))
     | other \<Rightarrow> Inr (e1, x, other)) = Inr (e', x', s)"
    by (auto simp: eval_choice_def res_simps Let_def)
  then show ?thesis using sel stop finished by (cases s1) (auto simp: res_simps)
qed

definition ordered_completions :: "(nat \<times> history_position) list \<Rightarrow> (nat \<times> history_position) list" where
  "ordered_completions completed = sort_key (\<lambda>(index, position). (position, index)) completed"

lemma eval_parallel_cases:
  assumes "eval_parallel ev n bs ps j e x t = Inr (e', x', s)"
  obtains (unreached) e1 probes e2 tr completed needed e3 where
      "probe_parallel ev x t bs e = Inr (e1, probes)"
      "take_trace_since e1 (trace_checkpoint e) = (e2, tr)"
      "parallel_completions e2 j probes t = Inr (completed, needed)"
      "unreached_parallel_join ev n bs j e2 x t probes (length completed) needed = Inr (e3, x', Some s)"
      "(if s \<noteq> Pending then restore_trace e3 tr else Inr e3) = Inr e'"
    | (joined) e1 probes e2 tr completed needed e4 jd q w where
      "probe_parallel ev x t bs e = Inr (e1, probes)"
      "take_trace_since e1 (trace_checkpoint e) = (e2, tr)"
      "parallel_completions e2 j probes t = Inr (completed, needed)"
      "needed \<le> length completed"
      "join_parallel_winners ev bs ps e2 x t (take needed (ordered_completions completed))
         = Inr (e4, jd, q, w)"
      "finish_parallel_join n bs ps j e4 x t (length probes) needed jd q w = Inr (e', x', s)"
proof -
  from assms obtain e1 probes e2 tr completed needed e3 x3 u where
    a: "probe_parallel ev x t bs e = Inr (e1, probes)"
      "take_trace_since e1 (trace_checkpoint e) = (e2, tr)"
      "parallel_completions e2 j probes t = Inr (completed, needed)"
    and un: "unreached_parallel_join ev n bs j e2 x t probes (length completed) needed = Inr (e3, x3, u)"
    and rest: "(case u of
        Some status \<Rightarrow> bind_res (if status \<noteq> Pending then restore_trace e3 tr else Inr e3)
                     (\<lambda>self. Inr (self, x3, status))
      | None \<Rightarrow> bind_res (join_parallel_winners ev bs ps e3 x3 t (take needed (ordered_completions completed)))
             (\<lambda>(self, joined, position, winners).
                   finish_parallel_join n bs ps j self x3 t
                     (length probes) needed joined position winners)) = Inr (e', x', s)"
    unfolding eval_parallel_def Let_def ordered_completions_def by (auto elim!: bind_resE split: prod.splits)
  show ?thesis
  proof (cases u)
    case None
    with un have "e3 = e2" "x3 = x" "needed \<le> length completed"
      by (auto simp: unreached_parallel_join_def Let_def elim!: bind_resE split: if_splits)
    with a rest None show ?thesis using joined by (auto elim!: bind_resE)
  next
    case (Some st)
    with rest have "x3 = x'" "st = s" "(if s \<noteq> Pending then restore_trace e3 tr else Inr e3) = Inr e'"
      by (auto elim!: bind_resE split: if_splits)
    with a un Some show ?thesis using unreached by blast
  qed
qed

lemma join_winner_cases:
  assumes "join_winner ev bs ps x t p (e, jd) (i, q) = Inr b"
  obtains c2 r where "i < length bs"
    "ev (bs ! i) e (clear_writes x) (t\<lparr>tr_cutoff := p\<rparr>) = Inr (fst b, c2, Continue r)"
proof -
  from assms have i: "i < length bs" by (auto simp: join_winner_def split: if_splits)
  with assms obtain e2 c2 s2 where ev: "ev (bs ! i) e (clear_writes x) (t\<lparr>tr_cutoff := p\<rparr>) = Inr (e2, c2, s2)"
    and rest: "(case s2 of
          Continue _ \<Rightarrow> bind_res (join_branch_writes ps c2 jd) (\<lambda>joined.
            Inr (e2, merge_scoped_runtime_facts c2 joined (descendant_names (bs ! i)) (tr_map_indices t)))
        | _ \<Rightarrow> Inl InconsistentHistory) = Inr b"
    by (auto simp: join_winner_def Let_def elim!: bind_resE)
  then show ?thesis using that i by (cases s2) (auto simp: res_simps)
qed

lemma finish_terminal_cases:
  assumes "finish_terminal_map_item ev body e x t items probes i tm = Inr (e', s)"
  obtains e1 where "i < length probes"
    "tr_mode t = Decide \<Longrightarrow> \<exists>c1. ev body e x
       (t\<lparr>tr_map_indices := mi_scope (probes ! i), tr_item := Some (items ! i),
          tr_cutoff := status_position tm\<rparr>) = Inr (e1, c1, s)"
    "tr_mode t \<noteq> Decide \<Longrightarrow> e1 = e \<and> s = tm"
    "e' = void_map_losers e1 body
       \<lparr>vs_map_indices = tr_map_indices t, vs_cutoff = status_position s,
        vs_reason = MapTerminal, vs_emit_decisions = (tr_mode t = Decide)\<rparr> (mi_scope (probes ! i))"
proof -
  let ?scope = "mi_scope (probes ! i)"
  from assms have i: "i < length probes" by (auto simp: finish_terminal_map_item_def split: if_splits)
  with assms obtain e1 where
    run: "(if tr_mode t = Decide
              then if i \<ge> length items then Inl InconsistentHistory
                   else bind_res (ev body e x
                          (t\<lparr>tr_map_indices := ?scope, tr_item := Some (items ! i),
                                tr_cutoff := status_position tm\<rparr>))
                          (\<lambda>(self, _, status). Inr (self, status))
              else Inr (e, tm)) = Inr (e1, s)"
    and e': "e' = void_map_losers e1 body
                  \<lparr>vs_map_indices = tr_map_indices t, vs_cutoff = status_position s,
                   vs_reason = MapTerminal, vs_emit_decisions = (tr_mode t = Decide)\<rparr> ?scope"
    by (auto simp: finish_terminal_map_item_def Let_def elim!: bind_resE)
  show ?thesis
    by (rule that[OF i _ _ e']) (use run in \<open>auto simp: res_simps split: if_splits\<close>)
qed

lemma eval_map_cases:
  assumes "eval_map ev n body over m ps e x t = Inr (e', x', s)"
  obtains (overflow) "e' = continue_decision e n (tr_mode t)" "s = Continue HistoryPosition_ZERO"
    | (ended) items e1 probes e2 tr i tm e3 where
      "evaluate_map_items ev body x t Probe (enumerate 0 items) e = Inr (e1, probes)"
      "take_trace_since e1 (trace_checkpoint e) = (e2, tr)"
      "earliest_terminal probes = Some (i, tm)"
      "retraced e2 e3"
      "finish_terminal_map_item ev body e3 x t items probes i tm = Inr (e', s)"
    | (items) items e1 probes e2 tr e3 results where
      "evaluate_map_items ev body x t Probe (enumerate 0 items) e = Inr (e1, probes)"
      "take_trace_since e1 (trace_checkpoint e) = (e2, tr)"
      "(if tr_mode t = Probe then bind_res (restore_trace e2 tr) (\<lambda>self. Inr (self, probes))
        else evaluate_map_items ev body x t (tr_mode t) (enumerate 0 items) e2) = Inr (e3, results)"
      "if list_ex (\<lambda>result. mi_status result = Pending) results then e' = e3 \<and> s = Pending
       else finish_map n body ps e3 x t results = Inr (e', x', s)"
      "length items \<le> m"
proof -
  from assms obtain v its where v: "select_data over (ctx_state x) (tr_item t) = Inr v"
    and its: "as_array v = Some its"
    by (auto simp: eval_map_def res_simps)
  show ?thesis
  proof (cases "length its > m")
    case True
    then show ?thesis using assms v its overflow by (auto simp: eval_map_def map_overflow_def Let_def)
  next
    case False
    with assms v its obtain e1 probes where
      pr: "evaluate_map_items ev body x t Probe (enumerate 0 its) e = Inr (e1, probes)"
      by (auto simp: eval_map_def Let_def elim!: bind_resE)
    obtain e2 tr where tk: "take_trace_since e1 (trace_checkpoint e) = (e2, tr)"
      by (cases "take_trace_since e1 (trace_checkpoint e)")
    note eqs = assms[unfolded eval_map_def v its bind_res_Inr ok_or_simps Let_def pr prod.case tk]
    show ?thesis
    proof (cases "earliest_terminal probes")
      case (Some it)
      obtain i tm where it: "it = (i, tm)" by (cases it)
      from eqs Some it False obtain e3 where
        r: "(if tr_mode t = Probe
             then restore_trace e2 (filter (\<lambda>r. prefix (mi_scope (probes ! i)) (sx_map_indices r)) tr)
             else Inr e2) = Inr e3"
        and f: "finish_terminal_map_item ev body e3 x t its probes i tm = Inr (e', s)"
        by (auto simp: with_context_def res_simps)
      have "retraced e2 e3" using r by (auto split: if_splits dest!: restore_trace_engine)
      then show ?thesis using ended pr tk Some it f by blast
    next
      case None
      with eqs False obtain e3 results where
        r: "(if tr_mode t = Probe then bind_res (restore_trace e2 tr) (\<lambda>self. Inr (self, probes))
             else evaluate_map_items ev body x t (tr_mode t) (enumerate 0 its) e2) = Inr (e3, results)"
        and rest: "(if list_ex (\<lambda>result. mi_status result = Pending) results then Inr (e3, x, Pending)
             else finish_map n body ps e3 x t results) = Inr (e', x', s)"
        by (auto elim!: bind_resE)
      show ?thesis by (rule items[OF pr tk r]) (use rest False in \<open>auto split: if_splits\<close>)
    qed
  qed
qed

lemma eval_cases:
  assumes "eval jl n e x t = Inr (e', x', s)"
  obtains e1 e2 where "retraced e e1"
    "eval_dispatch (eval jl) e1 n x (enter_boundary n t) = Inr (e2, x', s)" "retraced e2 e'"
proof -
  from assms obtain e1 i e2 where en: "trace_enter e n (enter_boundary n t) = Inr (e1, i)"
    and di: "eval_dispatch (eval jl) e1 n x (enter_boundary n t) = Inr (e2, x', s)"
    and te: "(if is_terminal_node n then trace_terminal jl (trace_finish e2 i s x') i s
              else Inr (trace_finish e2 i s x')) = Inr e'"
    by (subst (asm) eval.simps) (auto simp: eval_step_def Let_def elim!: bind_resE)
  have "retraced (trace_finish e2 i s x') e'"
    using te trace_terminal_engine by (auto split: if_splits)
  then have "retraced e2 e'" by (rule retraced_trans[OF trace_finish_engine])
  then show ?thesis using that trace_enter_engine[OF en] di by blast
qed

section \<open>Relations that evaluation obeys\<close>

locale engine_relation =
  fixes nodes :: "graph_node \<Rightarrow> bool" and R :: "traversal \<Rightarrow> engine \<Rightarrow> engine \<Rightarrow> bool"
  assumes children: "nodes n \<Longrightarrow> c \<in> set (child_nodes n) \<Longrightarrow> nodes c"
    and trans: "R t a b \<Longrightarrow> R t b d \<Longrightarrow> R t a d"
    and sub: "sub_traversal t' t \<Longrightarrow> R t' a b \<Longrightarrow> R t a b"
    and trace: "R t e (e\<lparr>eng_trace := tc\<rparr>)"
    and continue: "tr_mode t = Decide \<Longrightarrow> R t e (push_decision (ContinueDecision name) e)"
    and promote: "tr_mode t = Decide \<Longrightarrow> R t e (push_decision (Promote name idx vs) e)"
    and void: "x \<in> set (eng_executions e) \<Longrightarrow> not_settled x \<Longrightarrow>
      de_execution x \<in> set (eng_consumed_executions e) \<Longrightarrow>
      prefix (tr_map_indices t) (so_map_indices (de_occurrence x)) \<Longrightarrow>
      (vs_emit_decisions sc \<Longrightarrow> tr_mode t = Decide) \<Longrightarrow> R t e (void_loser sc (loser_key x) e)"
    and consume: "consume_step spec t e e' \<Longrightarrow> R t e e'"
    and dispatch: "nodes n \<Longrightarrow> executable_spec_of n = Some spec \<Longrightarrow> dispatch_step spec t e e' \<Longrightarrow> R t e e'"
begin

lemma refl: "R t e e"
  using trace[of t e "eng_trace e"] by simp

lemma retraced_R: "retraced e e' \<Longrightarrow> R t e e'"
  by (auto simp: retraced_def trace)

lemma continue_R: "R t e (continue_decision e n (tr_mode t))"
  by (auto simp: continue_decision_def refl continue)

lemma promote_group_R: "promote_group e n ps t l p = Inr (e', p') \<Longrightarrow> R t e e'"
  by (auto dest!: promote_group_engine intro: refl promote)

lemma emit_promotion_R: "emit_parallel_promotion e n ps j t = Inr e' \<Longrightarrow> R t e e'"
  by (auto dest!: emit_parallel_promotion_engine intro: refl promote)

lemma progress_R:
  "tr_mode t = Decide \<or> ds = [] \<Longrightarrow> only_progress ds \<Longrightarrow> R t e (e\<lparr>eng_decisions := eng_decisions e @ ds\<rparr>)"
proof (induction ds arbitrary: e)
  case Nil
  then show ?case by (simp add: refl)
next
  case (Cons d ds)
  have "R t e (push_decision d e)"
    using Cons.prems by (cases d) (auto simp: only_progress_def intro: continue promote)
  moreover have "R t (push_decision d e)
      ((push_decision d e)\<lparr>eng_decisions := eng_decisions (push_decision d e) @ ds\<rparr>)"
    using Cons by (auto simp: only_progress_def)
  ultimately show ?case using trans by (fastforce simp: push_decision_def)
qed

lemma exec:
  assumes "nodes n" and "executable_spec_of n = Some spec"
    and "eval_executable e spec c t = Inr (e', c', s)"
  shows "R t e e'"
proof -
  obtain e1 where e1: "R t e e1" and
    "(e' = e1 \<or> dispatch_step spec t e1 e') \<or>
     (\<exists>ds. e' = e1\<lparr>eng_decisions := eng_decisions e1 @ ds\<rparr> \<and> only_progress ds
            \<and> (tr_mode t = Probe \<longrightarrow> ds = []))"
    using eval_executable_shape[OF assms(3)] consume by blast
  moreover have "tr_mode t = Decide \<or> tr_mode t = Probe" by (cases "tr_mode t") auto
  ultimately have "R t e1 e'"
    using dispatch[OF assms(1,2)] progress_R refl by blast
  with e1 show ?thesis by (rule trans)
qed

lemma fold_void_R:
  assumes "\<And>l. l \<in> set ls \<Longrightarrow> \<exists>x. l = loser_key x \<and> x \<in> set (eng_executions e) \<and> not_settled x
      \<and> de_execution x \<in> set (eng_consumed_executions e)
      \<and> prefix (tr_map_indices t) (so_map_indices (de_occurrence x))"
    and "vs_emit_decisions sc \<Longrightarrow> tr_mode t = Decide"
  shows "R t e (fold (void_loser sc) ls e)"
  using assms(1)
proof (induction ls arbitrary: e)
  case Nil
  then show ?case by (simp add: refl)
next
  case (Cons l ls)
  from Cons.prems[of l] obtain x where x: "l = loser_key x" "x \<in> set (eng_executions e)" "not_settled x"
    "de_execution x \<in> set (eng_consumed_executions e)"
    "prefix (tr_map_indices t) (so_map_indices (de_occurrence x))" by auto
  have "R t e (void_loser sc l e)" unfolding x(1) by (rule void[OF x(2-5) assms(2)])
  moreover have "R t (void_loser sc l e) (fold (void_loser sc) ls (void_loser sc l e))"
    using Cons.prems by (intro Cons.IH) simp
  ultimately show ?case by (auto intro: trans)
qed

lemma void_active_R:
  assumes "vs_map_indices sc = tr_map_indices t" and "vs_emit_decisions sc \<Longrightarrow> tr_mode t = Decide"
  shows "R t e (void_active_descendants e n sc)"
  unfolding void_active_descendants_def Let_def
  by (rule fold_void_R) (use assms in auto)

lemma void_map_R:
  assumes "vs_map_indices sc = tr_map_indices t" and "vs_emit_decisions sc \<Longrightarrow> tr_mode t = Decide"
  shows "R t e (void_map_losers e n sc w)"
  unfolding void_map_losers_def Let_def
  by (rule fold_void_R) (use assms in auto)

lemma void_parallel_R:
  assumes "vs_map_indices sc = tr_map_indices t" and "vs_emit_decisions sc \<Longrightarrow> tr_mode t = Decide"
  shows "R t e (void_parallel_losers bs ws sc e)"
proof -
  have "R t e (fold (\<lambda>(index, branch) self.
      if index \<in> set ws then self else void_active_descendants self branch sc) ibs e)" for ibs
  proof (induction ibs arbitrary: e)
    case (Cons ib ibs)
    have "R t e (if fst ib \<in> set ws then e else void_active_descendants e (snd ib) sc)"
      using void_active_R[OF assms] refl by simp
    from trans[OF this Cons.IH] show ?case by (simp add: case_prod_unfold)
  qed (simp add: refl)
  then show ?thesis by (simp add: void_parallel_losers_def)
qed

text \<open>What the induction hypothesis gives about the evaluator of the children.\<close>

definition obeys :: "evaluator \<Rightarrow> graph_node \<Rightarrow> bool" where
  "obeys ev c \<longleftrightarrow>
     (\<forall>e x t e' x' s. ev c e x t = Inr (e', x', s) \<longrightarrow> R t e e' \<and> within t s)"

lemma obeysD: "obeys ev c \<Longrightarrow> ev c e x t = Inr (e', x', s) \<Longrightarrow> R t e e' \<and> within t s"
  by (auto simp: obeys_def)

lemma children_R:
  assumes "\<And>c. c \<in> set cs \<Longrightarrow> obeys ev c"
    and "eval_children ev t cs e l p = Inr (e', l', s)" and "p \<le> tr_cutoff t"
  shows "R t e e' \<and> within t s"
  using assms
proof (induction cs arbitrary: e l p)
  case Nil
  then show ?case by (auto intro: refl)
next
  case (Cons c cs)
  have ok: "obeys ev c" "\<And>c. c \<in> set cs \<Longrightarrow> obeys ev c" using Cons.prems(1) by auto
  from Cons.prems(2) show ?case
  proof (cases rule: eval_children_Cons)
    case (stop e1 s1)
    then show ?thesis using obeysD[OF ok(1) stop(1)] Cons.prems(3) within_after by blast
  next
    case (go e1 l1 q)
    then have "max p q \<le> tr_cutoff t" using obeysD[OF ok(1) go(1)] Cons.prems(3) by simp
    from Cons.IH[OF ok(2) go(2) this] show ?thesis using obeysD[OF ok(1) go(1)] trans by blast
  qed
qed

lemma sequence_R:
  assumes "\<And>c. c \<in> set cs \<Longrightarrow> obeys ev c"
    and "eval_sequence ev n cs ps e x t = Inr (e', x', s)"
  shows "R t e e' \<and> within t s"
  using assms(2)
proof (cases rule: eval_sequence_cases)
  case (stop l)
  then show ?thesis using children_R[OF assms(1) stop(1)] by (simp add: HistoryPosition_ZERO_def)
next
  case (finished e1 l p e2)
  have "R t e e1 \<and> within t (Continue p)"
    using children_R[OF assms(1) finished(1)] by (simp add: HistoryPosition_ZERO_def)
  then show ?thesis
    using finished(3,4) trans[OF trans[OF _ promote_group_R[OF finished(2)]] continue_R] by blast
qed

lemma rounds_R:
  assumes "obeys ev body"
    and "loop_rounds ev body u names t n i e l p = Inr (e', l', ex)" and "p \<le> tr_cutoff t"
  shows "R t e e' \<and> (case ex of LoopStopped s \<Rightarrow> within t s
      | LoopConverged q \<Rightarrow> q \<le> tr_cutoff t | LoopExhausted q \<Rightarrow> q \<le> tr_cutoff t)"
  using assms(2,3)
proof (induction n arbitrary: i e l p)
  case 0
  then show ?case by (auto intro: refl)
next
  case (Suc n)
  let ?t = "t\<lparr>tr_loop_iterations := tr_loop_iterations t @ [i]\<rparr>"
  have round: "R t e e1 \<and> within t s1" if "ev body e c ?t = Inr (e1, l1, s1)" for c e1 l1 s1
  proof -
    have "sub_traversal ?t t" by (simp add: sub_traversal_def)
    then show ?thesis using obeysD[OF assms(1) that] sub by (auto simp: within_def)
  qed
  from Suc.prems(1) show ?case
  proof (cases rule: loop_rounds_Suc)
    case (stop e1 l1 s1)
    then show ?thesis using round[OF stop(1)] within_after[of t s1 p] Suc.prems(2) by simp
  next
    case (converged e1 l1 q)
    then show ?thesis using round[OF converged(1)] Suc.prems(2) by simp
  next
    case (again e1 l1 q)
    then have "max p q \<le> tr_cutoff t" using round[OF again(1)] Suc.prems(2) by simp
    from Suc.IH[OF again(2) this] show ?thesis using round[OF again(1)] trans by blast
  qed
qed

lemma loop_R:
  assumes "obeys ev body" and "eval_loop ev n body u m ps e x t = Inr (e', x', s)"
  shows "R t e e' \<and> within t s"
  using assms(2)
proof (cases rule: eval_loop_cases)
  case (stop l)
  then show ?thesis using rounds_R[OF assms(1) stop] by (simp add: HistoryPosition_ZERO_def)
next
  case (finished e1 l ex p e2 l2 x2)
  have "R t e e1 \<and> p \<le> tr_cutoff t"
    using rounds_R[OF assms(1) finished(1)] finished(2) by (auto simp: HistoryPosition_ZERO_def)
  then show ?thesis
    using finished(4,5) trans[OF trans[OF _ promote_group_R[OF finished(3)]] continue_R] by auto
qed

lemma choice_R:
  assumes "\<And>c. choice_selected e (clear_writes x) t bs ot = Some c \<Longrightarrow> obeys ev c"
    and "eval_choice ev n bs ot ps e x t = Inr (e', x', s)"
  shows "R t e e' \<and> within t s"
  using assms(2)
proof (cases rule: eval_choice_cases)
  case (stop c l)
  then show ?thesis
    using obeysD[OF assms(1)[OF stop(1)] stop(2)] trans[OF retraced_R[OF trace_branch_engine]] by blast
next
  case (finished c e1 l p e2 x2)
  have "R t e e1 \<and> within t (Continue p)"
    using obeysD[OF assms(1)[OF finished(1)] finished(2)] trans[OF retraced_R[OF trace_branch_engine]] by blast
  then show ?thesis
    using finished(4,5) trans[OF trans[OF _ promote_group_R[OF finished(3)]] continue_R] by blast
qed

lemma probe_sub: "sub_traversal (t\<lparr>tr_mode := Probe\<rparr>) t"
  by (simp add: sub_traversal_def)

lemma probes_R:
  assumes "\<And>c. c \<in> set bs \<Longrightarrow> obeys ev c" and "probe_parallel ev x t bs e = Inr (e', probes)"
  shows "R t e e' \<and> (\<forall>(s, _) \<in> set probes. within t s) \<and> length probes = length bs"
  using assms
proof (induction bs arbitrary: e probes)
  case Nil
  then show ?case by (auto intro: refl)
next
  case (Cons b bs)
  from Cons.prems(2) obtain e1 x1 s1 rest where
    b: "ev b e (clear_writes x) (t\<lparr>tr_mode := Probe\<rparr>) = Inr (e1, x1, s1)"
    and rest: "probe_parallel ev x t bs e1 = Inr (e', rest)" and probes: "probes = (s1, x1) # rest"
    by (auto simp: res_simps)
  have "R t e e1 \<and> within t s1"
    using obeysD[OF Cons.prems(1) b] sub[OF probe_sub] by (auto simp: within_def)
  moreover have "R t e1 e' \<and> (\<forall>(s, _) \<in> set rest. within t s) \<and> length rest = length bs"
    using Cons.IH[OF _ rest] Cons.prems(1) by auto
  ultimately show ?case using probes by (auto intro: trans)
qed

lemma completions_within:
  assumes "parallel_completions e j probes t = Inr (completed, needed)"
    and "\<forall>(s, _) \<in> set probes. within t s"
  shows "\<forall>(_, p) \<in> set completed. p \<le> tr_cutoff t"
proof -
  from assms(1) have f: "try_foldl (complete_branch e j t) [] (enumerate 0 probes) = Inr completed"
    by (auto simp: parallel_completions_def res_simps)
  show ?thesis
  proof (rule try_foldl_invariant[OF f])
    fix acc y acc'
    assume y: "y \<in> set (enumerate 0 probes)" and acc: "\<forall>(_, p) \<in> set acc. p \<le> tr_cutoff t"
      and step: "complete_branch e j t acc y = Inr acc'"
    obtain i s c where yi: "y = (i, s, c)" by (cases y)
    with y have "(s, c) \<in> set probes"
      by (auto simp: enumerate_eq_zip dest: set_zip_rightD)
    with assms(2) have "within t s" by auto
    with step acc yi show "\<forall>(_, p) \<in> set acc'. p \<le> tr_cutoff t"
      by (cases s) (auto simp: complete_branch_def res_simps split: if_splits)
  qed simp
qed

lemma decide_R:
  assumes "\<And>c. c \<in> set bs \<Longrightarrow> obeys ev c" and "decide_branches ev x t bs e = Inr e'"
  shows "R t e e'"
  using assms(2) unfolding decide_branches_def
proof (rule try_foldl_relation)
  fix e1 b e2 assume "b \<in> set bs" and "bind_res (ev b e1 x t) (\<lambda>(self, _, _). Inr self) = Inr e2"
  then show "R t e1 e2" using obeysD[OF assms(1)] by (auto simp: res_simps)
qed (auto intro: refl trans)

lemma unreached_R:
  assumes "\<And>c. c \<in> set bs \<Longrightarrow> obeys ev c"
    and "unreached_parallel_join ev n bs j e x t probes k needed = Inr (e', x', u)"
    and "\<forall>(s, _) \<in> set probes. within t s"
  shows "R t e e' \<and> (\<forall>s. u = Some s \<longrightarrow> within t s)"
proof -
  have "max_position (filter (\<lambda>p. p \<noteq> HistoryPosition_MAX)
      (map (\<lambda>(status, _). status_position status) probes)) \<le> tr_cutoff t"
    using assms(3) by (intro max_position_le) (auto simp: within_def status_position_def split: status.splits)
  then show ?thesis
    using assms(2) by (auto simp: unreached_parallel_join_def res_simps Let_def split: if_splits
        intro: refl continue_R decide_R[OF assms(1)])
qed

lemma winners_R:
  assumes "\<And>c. c \<in> set bs \<Longrightarrow> obeys ev c"
    and "join_parallel_winners ev bs ps e x t ws = Inr (e', joined, p, w)"
    and "\<forall>(_, q) \<in> set ws. q \<le> tr_cutoff t"
  shows "R t e e' \<and> p \<le> tr_cutoff t"
proof -
  have p: "p = max_position (map snd ws)"
    and f: "try_foldl (join_winner ev bs ps x t p) (e, clear_writes x) ws = Inr (e', joined)"
    using assms(2) by (auto simp: join_parallel_winners_def res_simps Let_def)
  have le: "p \<le> tr_cutoff t" unfolding p using assms(3) by (intro max_position_le) auto
  have "R t (fst (e, clear_writes x)) (fst (e', joined))"
    using f
  proof (rule try_foldl_relation[where R = "\<lambda>a b. R t (fst a) (fst b)"])
    fix a y b assume h: "join_winner ev bs ps x t p a y = Inr b"
    obtain e1 jd i q where ay: "a = (e1, jd)" "y = (i, q)" by (cases a; cases y)
    from h obtain c2 r where i: "i < length bs"
      and ev: "ev (bs ! i) e1 (clear_writes x) (t\<lparr>tr_cutoff := p\<rparr>) = Inr (fst b, c2, Continue r)"
      unfolding ay by (rule join_winner_cases)
    have "sub_traversal (t\<lparr>tr_cutoff := p\<rparr>) t" using le by (simp add: sub_traversal_def)
    then show "R t (fst a) (fst b)"
      using obeysD[OF assms(1)[OF nth_mem[OF i]] ev] sub by (auto simp: ay)
  qed (auto intro: refl trans)
  then show ?thesis using le by simp
qed

lemma finish_parallel_R:
  assumes "finish_parallel_join n bs ps j e x t k needed joined p w = Inr (e', x', s)"
    and "p \<le> tr_cutoff t"
  shows "R t e e' \<and> within t s"
proof -
  from assms(1) obtain e1 where e1: "emit_parallel_promotion e n ps joined t = Inr e1"
    and s: "s = Continue p" and e': "e' = continue_decision
      (if needed < k then void_parallel_losers bs w
                        \<lparr>vs_map_indices = tr_map_indices t, vs_cutoff = p, vs_reason = ParallelJoin,
                         vs_emit_decisions = (tr_mode t = Decide)\<rparr> e1 else e1) n (tr_mode t)"
    by (auto simp: finish_parallel_join_def res_simps Let_def)
  have "R t e1 (if needed < k then void_parallel_losers bs w
                        \<lparr>vs_map_indices = tr_map_indices t, vs_cutoff = p, vs_reason = ParallelJoin,
                         vs_emit_decisions = (tr_mode t = Decide)\<rparr> e1 else e1)"
    by (auto intro: refl void_parallel_R)
  from trans[OF trans[OF emit_promotion_R[OF e1] this] continue_R] show ?thesis
    using assms(2) by (simp add: e' s)
qed

lemma parallel_R:
  assumes "\<And>c. c \<in> set bs \<Longrightarrow> obeys ev c" and "eval_parallel ev n bs ps j e x t = Inr (e', x', s)"
  shows "R t e e' \<and> within t s"
  using assms(2)
proof (cases rule: eval_parallel_cases)
  case (unreached e1 probes e2 tr completed needed e3)
  note p = probes_R[OF assms(1) unreached(1)]
  have "R t e e2" using p trans retraced_R[OF take_trace_engine[OF unreached(2)]] by blast
  moreover have "R t e2 e3 \<and> within t s" using unreached_R[OF assms(1) unreached(4)] p by blast
  moreover have "R t e3 e'"
    using unreached(5) by (auto split: if_splits intro: refl retraced_R dest!: restore_trace_engine)
  ultimately show ?thesis using trans by blast
next
  case (joined e1 probes e2 tr completed needed e4 jd q w)
  note p = probes_R[OF assms(1) joined(1)]
  have "R t e e2" using p trans retraced_R[OF take_trace_engine[OF joined(2)]] by blast
  moreover have "\<forall>(_, q) \<in> set (take needed (ordered_completions completed)). q \<le> tr_cutoff t"
    using completions_within[OF joined(3)] p by (auto simp: ordered_completions_def dest!: in_set_takeD)
  ultimately show ?thesis
    using winners_R[OF assms(1) joined(5)] finish_parallel_R[OF joined(6)] trans by blast
qed

lemma items_R:
  assumes "obeys ev body" and "tr_mode t = Probe \<Longrightarrow> mode = Probe"
    and "evaluate_map_items ev body x t mode items e = Inr (e', results)"
  shows "R t e e' \<and> (\<forall>r \<in> set results. within t (mi_status r)) \<and> length results = length items
      \<and> (\<forall>r \<in> set results. prefix (tr_map_indices t) (mi_scope r))"
  using assms(3)
proof (induction items arbitrary: e results)
  case Nil
  then show ?case by (auto intro: refl)
next
  case (Cons ii items)
  obtain i item where ii: "ii = (i, item)" by (cases ii)
  let ?t = "t\<lparr>tr_map_indices := tr_map_indices t @ [i], tr_item := Some item, tr_mode := mode\<rparr>"
  from Cons.prems obtain e1 x1 s1 rest where
    b: "ev body e (clear_writes x) ?t = Inr (e1, x1, s1)"
    and rest: "evaluate_map_items ev body x t mode items e1 = Inr (e', rest)"
    and results: "results = \<lparr>mi_status = s1, mi_context = x1, mi_scope = tr_map_indices t @ [i]\<rparr> # rest"
    by (auto simp: ii res_simps Let_def)
  have "sub_traversal ?t t" using assms(2) by (simp add: sub_traversal_def)
  then have "R t e e1 \<and> within t s1"
    using obeysD[OF assms(1) b] sub by (auto simp: within_def)
  with Cons.IH[OF rest] show ?case by (auto simp: results intro: trans)
qed

lemma finish_map_R:
  assumes "finish_map n body ps e x t results = Inr (e', x', s)"
    and "\<forall>r \<in> set results. within t (mi_status r)" and "\<forall>r \<in> set results. mi_status r \<noteq> Pending"
  shows "R t e e' \<and> within t s"
proof -
  have "max_position (map (\<lambda>item. status_position (mi_status item)) results) \<le> tr_cutoff t"
    using assms(2,3) by (intro max_position_le) (auto simp: within_def)
  then show ?thesis
    using assms(1)
    by (auto simp: finish_map_def res_simps Let_def dest!: promote_group_R intro: trans continue_R)
qed

lemma finish_terminal_R:
  assumes "obeys ev body"
    and "finish_terminal_map_item ev body e x t items probes i tm = Inr (e', s)"
    and "within t tm" and "tm \<noteq> Pending"
    and "\<forall>r \<in> set probes. prefix (tr_map_indices t) (mi_scope r)"
  shows "R t e e' \<and> within t s"
  using assms(2)
proof (rule finish_terminal_cases)
  fix e1
  let ?t = "t\<lparr>tr_map_indices := mi_scope (probes ! i), tr_item := Some (items ! i),
      tr_cutoff := status_position tm\<rparr>"
  assume i: "i < length probes" and run: "tr_mode t = Decide \<Longrightarrow> \<exists>c1. ev body e x ?t = Inr (e1, c1, s)"
    and keep: "tr_mode t \<noteq> Decide \<Longrightarrow> e1 = e \<and> s = tm"
    and e': "e' = void_map_losers e1 body
       \<lparr>vs_map_indices = tr_map_indices t, vs_cutoff = status_position s,
        vs_reason = MapTerminal, vs_emit_decisions = (tr_mode t = Decide)\<rparr> (mi_scope (probes ! i))"
  have le: "status_position tm \<le> tr_cutoff t" using assms(3,4) by (simp add: within_def)
  then have st: "sub_traversal ?t t" using assms(5) i by (simp add: sub_traversal_def)
  have "R t e e1 \<and> within t s"
  proof (cases "tr_mode t = Decide")
    case True
    with run obtain c1 where ev: "ev body e x ?t = Inr (e1, c1, s)" by blast
    have w: "within t s" using obeysD[OF assms(1) ev] le by (auto simp: within_def)
    then show ?thesis using obeysD[OF assms(1) ev] sub[OF st] by blast
  qed (use keep assms(3) refl in auto)
  then show "R t e e' \<and> within t s" unfolding e' by (auto intro!: trans[OF _ void_map_R])
qed

lemma map_R:
  assumes "obeys ev body" and "eval_map ev n body over m ps e x t = Inr (e', x', s)"
  shows "R t e e' \<and> within t s"
  using assms(2)
proof (cases rule: eval_map_cases)
  case overflow
  then show ?thesis by (simp add: continue_R HistoryPosition_ZERO_def)
next
  case (ended items e1 probes e2 tr i tm e3)
  note p = items_R[OF assms(1) _ ended(1)]
  have "R t e e2" using p trans retraced_R[OF take_trace_engine[OF ended(2)]] by auto
  moreover have "R t e2 e3" by (rule retraced_R[OF ended(4)])
  moreover have "R t e3 e' \<and> within t s"
    using finish_terminal_R[OF assms(1) ended(5)] p earliest_terminal_member[OF ended(3)] by auto
  ultimately show ?thesis using trans by blast
next
  case (items items e1 probes e2 tr e3 results)
  note p = items_R[OF assms(1) _ items(1)]
  have e2: "R t e e2" using p trans retraced_R[OF take_trace_engine[OF items(2)]] by auto
  have r: "R t e2 e3 \<and> (\<forall>r \<in> set results. within t (mi_status r))"
    using items(3) p items_R[OF assms(1), of t "tr_mode t" x "enumerate 0 items" e2 e3 results]
    by (auto simp: res_simps split: if_splits intro: retraced_R dest!: restore_trace_engine)
  moreover have "R t e3 e' \<and> within t s"
    using items(4) r finish_map_R[of n body ps e3 x t results e' x' s]
    by (auto simp: list_ex_iff split: if_splits intro: refl)
  ultimately show ?thesis using e2 trans by blast
qed

lemma dispatch_R:
  assumes "nodes n" and "\<And>c. c \<in> set (child_nodes n) \<Longrightarrow> obeys ev c"
    and "eval_dispatch ev e n x t = Inr (e', x', s)"
  shows "R t e e' \<and> within t s"
proof (cases n)
  case (StepNode st)
  with assms(1,3) show ?thesis
    by (auto simp: eval_dispatch_def is_executable_def eval_worker_node_def
        intro: exec[OF assms(1)] dest: eval_executable_within)
next
  case (VerifierNode v)
  with assms(1,3) show ?thesis
    by (auto simp: eval_dispatch_def is_executable_def eval_worker_node_def
        intro: exec[OF assms(1)] dest: eval_executable_within)
next
  case (ChoiceNode name st bs ot ps)
  then show ?thesis
    using assms(2,3) choice_R[of e x t bs ot ev name ps e' x' s] choice_selected_child
    by (auto simp: eval_dispatch_def is_executable_def is_terminal_node_def eval_group_node_def)
next
  case (SeqNode name st cs ps)
  then show ?thesis
    using assms(2,3) sequence_R[of cs ev name ps e x t e' x' s]
    by (simp add: eval_dispatch_def is_executable_def is_terminal_node_def eval_group_node_def)
next
  case (ParNode name st bs ps j)
  then show ?thesis
    using assms(2,3) parallel_R[of bs ev name ps j e x t e' x' s]
    by (simp add: eval_dispatch_def is_executable_def is_terminal_node_def eval_group_node_def)
qed (use assms(2,3) loop_R map_R in
    \<open>auto simp: eval_dispatch_def is_executable_def is_terminal_node_def eval_group_node_def
       eval_terminal_node_def res_simps HistoryPosition_ZERO_def intro: refl\<close>)

lemma enter_boundary_sub: "sub_traversal (enter_boundary n t) t"
  by (simp add: enter_boundary_def sub_traversal_def)

lemma eval_R:
  assumes "nodes n" and "eval jl n e x t = Inr (e', x', s)"
  shows "R t e e' \<and> within t s"
  using assms
proof (induction n arbitrary: e x t e' x' s rule: graph_induct)
  case (node n)
  have kids: "obeys (eval jl) c" if "c \<in> set (child_nodes n)" for c
    unfolding obeys_def using node.IH[OF that children[OF node.prems(1) that]] by blast
  from node.prems(2) obtain e1 e2 where a: "retraced e e1"
    and b: "eval_dispatch (eval jl) e1 n x (enter_boundary n t) = Inr (e2, x', s)" and c: "retraced e2 e'"
    by (rule eval_cases)
  have d: "R (enter_boundary n t) e1 e2 \<and> within (enter_boundary n t) s"
    by (rule dispatch_R[OF node.prems(1) kids b])
  then have "within t s" by (simp add: within_def enter_boundary_def split: if_splits)
  moreover have "R t e e'"
    using trans[OF retraced_R[OF a] trans[OF sub[OF enter_boundary_sub conjunct1[OF d]] retraced_R[OF c]]] .
  ultimately show ?case by simp
qed

end

end
