(* ===== verification/Reducer_Relations.thy ===== *)
theory Reducer_Relations
  imports Reducer_Laws
begin

text \<open>
  Interpretations of \<open>engine_relation\<close>: the inputs of a reduction stay fixed, decisions are appended
  with consecutive dispatch identities and never while probing, every dispatch originates from an
  executable node of the graph within its attempt ceiling, and cancellations name active
  executions once. The properties of \<open>reduce\<close> follow from them.
\<close>

section \<open>Relations of the engine\<close>

text \<open>The inputs of a reduction are never changed.\<close>

definition engine_fixed :: "traversal \<Rightarrow> engine \<Rightarrow> engine \<Rightarrow> bool" where
  "engine_fixed t e e' \<longleftrightarrow>
     eng_executions e' = eng_executions e \<and> eng_map_depths e' = eng_map_depths e
     \<and> eng_optional_promotions e' = eng_optional_promotions e
     \<and> eng_execution_mode e' = eng_execution_mode e"

lemma push_void_fixed: "engine_fixed t e (push_void_decision e x r)"
  by (simp add: engine_fixed_def push_void_decision_def push_decision_def)

interpretation fixed: engine_relation "\<lambda>_. True" engine_fixed
  by unfold_locales
    (auto simp: engine_fixed_def push_decision_def void_loser_def loser_key_def record_void_cutoff_def
      push_void_decision_def Let_def consume_step_def dispatch_step_def)

text \<open>Decisions are appended, dispatches take consecutive identities, and probes emit nothing.\<close>

definition is_dispatch :: "decision \<Rightarrow> bool" where
  "is_dispatch d = (case d of Dispatch _ _ _ _ _ _ _ \<Rightarrow> True | _ \<Rightarrow> False)"

definition dispatches :: "decision list \<Rightarrow> decision list" where
  "dispatches ds = filter is_dispatch ds"

definition is_terminal_decision :: "decision \<Rightarrow> bool" where
  "is_terminal_decision d = (case d of TerminalDecision _ \<Rightarrow> True | _ \<Rightarrow> False)"

lemma is_dispatch_simps [simp]:
  "is_dispatch (Dispatch i e oc a it w v)" "\<not> is_dispatch (VoidLoser e r)"
  "\<not> is_dispatch (ContinueDecision n)" "\<not> is_dispatch (Promote n idx vs)"
  "\<not> is_dispatch (TerminalDecision p)" "is_terminal_decision (TerminalDecision p)"
  "\<not> is_terminal_decision (VoidLoser e r)" "\<not> is_terminal_decision (ContinueDecision n)"
  "\<not> is_terminal_decision (Promote n idx vs)" "\<not> is_terminal_decision (Dispatch i e oc a it w v)"
  by (simp_all add: is_dispatch_def is_terminal_decision_def)

lemma dispatches_simps [simp]:
  "dispatches [] = []"
  "dispatches (d # ds) = (if is_dispatch d then d # dispatches ds else dispatches ds)"
  "dispatches (ds @ ds') = dispatches ds @ dispatches ds'"
  by (simp_all add: dispatches_def)

definition emits_new :: "traversal \<Rightarrow> engine \<Rightarrow> engine \<Rightarrow> decision list \<Rightarrow> bool" where
  "emits_new t e e' ds \<longleftrightarrow>
     eng_decisions e' = eng_decisions e @ ds
     \<and> (\<forall>d \<in> set ds. \<not> is_terminal_decision d)
     \<and> map dp_execution (dispatches ds) = [eng_next_execution e ..< eng_next_execution e']
     \<and> eng_next_execution e \<le> eng_next_execution e'
     \<and> eng_next_node_instance e \<le> eng_next_node_instance e'
     \<and> (eng_boundary e \<noteq> None \<longrightarrow> eng_boundary e' = eng_boundary e)
     \<and> (if dispatches ds = []
        then eng_boundary e' = eng_boundary e \<and> eng_next_node_instance e' = eng_next_node_instance e
          \<and> eng_next_execution e' = eng_next_execution e
        else eng_boundary e' \<noteq> None \<and> 0 < eng_next_execution e \<and> eng_next_execution e' \<le> u64_max
          \<and> tr_mode t = Decide \<and> HistoryPosition_MAX \<le> tr_cutoff t)
     \<and> (tr_mode t = Probe \<longrightarrow> ds = [])"

definition emits :: "traversal \<Rightarrow> engine \<Rightarrow> engine \<Rightarrow> bool" where
  "emits t e e' \<longleftrightarrow> (\<exists>ds. emits_new t e e' ds)"

lemma emits_newD:
  assumes "emits_new t e e' ds"
  shows "eng_decisions e' = eng_decisions e @ ds"
    and "\<forall>d \<in> set ds. \<not> is_terminal_decision d"
    and "eng_next_node_instance e \<le> eng_next_node_instance e'"
    and "eng_boundary e \<noteq> None \<longrightarrow> eng_boundary e' = eng_boundary e"
    and "if dispatches ds = []
        then eng_boundary e' = eng_boundary e \<and> eng_next_node_instance e' = eng_next_node_instance e
          \<and> eng_next_execution e' = eng_next_execution e
        else eng_boundary e' \<noteq> None \<and> 0 < eng_next_execution e \<and> eng_next_execution e' \<le> u64_max
          \<and> tr_mode t = Decide \<and> HistoryPosition_MAX \<le> tr_cutoff t"
    and "tr_mode t = Probe \<longrightarrow> ds = []"
  using assms unfolding emits_new_def by blast+

lemma emits_same:
  assumes "eng_decisions e' = eng_decisions e" and "eng_next_execution e' = eng_next_execution e"
    and "eng_next_node_instance e' = eng_next_node_instance e" and "eng_boundary e' = eng_boundary e"
  shows "emits t e e'"
  unfolding emits_def emits_new_def using assms by (intro exI[of _ "[]"]) simp

lemma emits_push:
  assumes "tr_mode t = Decide" and "\<not> is_dispatch d" and "\<not> is_terminal_decision d"
  shows "emits t e (push_decision d e)"
  unfolding emits_def emits_new_def using assms by (intro exI[of _ "[d]"]) (simp add: push_decision_def)

lemma emits_trans:
  assumes "emits t a b" and "emits t b d"
  shows "emits t a d"
proof -
  obtain ds where ds: "emits_new t a b ds" using assms(1) by (auto simp: emits_def)
  obtain ds' where ds': "emits_new t b d ds'" using assms(2) by (auto simp: emits_def)
  let ?x = "eng_next_execution a" and ?y = "eng_next_execution b" and ?z = "eng_next_execution d"
  have le: "?x \<le> ?y" "?y \<le> ?z" using ds ds' unfolding emits_new_def by blast+
  have "[?x ..< ?z] = [?x ..< ?y] @ [?y ..< ?z]"
    using upt_add_eq_append[OF le(1), of "?z - ?y"] le by simp
  moreover have "map dp_execution (dispatches ds) = [?x ..< ?y]" "map dp_execution (dispatches ds') = [?y ..< ?z]"
    using ds ds' unfolding emits_new_def by blast+
  ultimately have ids: "map dp_execution (dispatches (ds @ ds')) = [?x ..< ?z]"
    by (simp only: dispatches_simps map_append)
  note f = emits_newD[OF ds] and f' = emits_newD[OF ds']
  have "emits_new t a d (ds @ ds')"
    unfolding emits_new_def
  proof (intro conjI ids)
    show "eng_decisions d = eng_decisions a @ ds @ ds'" using f(1) f'(1) by simp
    show "\<forall>x \<in> set (ds @ ds'). \<not> is_terminal_decision x" using f(2) f'(2) by auto
    show "eng_next_node_instance a \<le> eng_next_node_instance d" using f(3) f'(3) by simp
    show "eng_boundary a \<noteq> None \<longrightarrow> eng_boundary d = eng_boundary a" using f(4) f'(4) by simp
    show "tr_mode t = Probe \<longrightarrow> ds @ ds' = []" using f(6) f'(6) by simp
    show "if dispatches (ds @ ds') = []
        then eng_boundary d = eng_boundary a \<and> eng_next_node_instance d = eng_next_node_instance a
          \<and> ?z = ?x
        else eng_boundary d \<noteq> None \<and> 0 < ?x \<and> ?z \<le> u64_max
          \<and> tr_mode t = Decide \<and> HistoryPosition_MAX \<le> tr_cutoff t"
      using f(4,5) f'(4,5) le by (cases "dispatches ds = []"; cases "dispatches ds' = []") simp_all
  qed (use le in simp)
  then show ?thesis by (auto simp: emits_def)
qed

lemma emits_sub: "sub_traversal t' t \<Longrightarrow> emits t' a b \<Longrightarrow> emits t a b"
  by (cases "tr_mode t"; cases "tr_mode t'")
    (auto simp: emits_def emits_new_def sub_traversal_def intro: exI[of _ "[]"] split: if_splits)

lemma emits_void:
  assumes "vs_emit_decisions sc \<Longrightarrow> tr_mode t = Decide"
  shows "emits t e (void_loser sc l e)"
proof -
  obtain p x active where l: "l = (p, x, active)" by (cases l)
  let ?e = "fst (record_void_cutoff e x (vs_cutoff sc) (vs_reason sc))"
  let ?r = "snd (record_void_cutoff e x (vs_cutoff sc) (vs_reason sc))"
  have a: "emits t e ?e" by (rule emits_same) (simp_all add: record_void_cutoff_def Let_def)
  have b: "emits t ?e (if active \<and> vs_emit_decisions sc then push_void_decision ?e x ?r else ?e)"
    using assms by (auto simp: push_void_decision_def intro: emits_push emits_same)
  from emits_trans[OF a b] show ?thesis
    unfolding void_loser_def l by (simp only: case_prod_unfold fst_conv snd_conv Let_def)
qed

lemma emits_dispatch: "dispatch_step spec t e e' \<Longrightarrow> emits t e e'"
  unfolding dispatch_step_def emits_def emits_new_def
  by (elim exE conjE) (rule exI, auto simp: push_decision_def instance_step_def)

interpretation emission: engine_relation "\<lambda>_. True" emits
proof unfold_locales
  show "emits t e (e\<lparr>eng_trace := tc\<rparr>)" for t e tc by (rule emits_same) simp_all
  show "emits t e e'" if "consume_step spec t e e'" for spec t e e'
    using that by (auto simp: consume_step_def intro!: emits_same)
qed (auto intro: emits_trans emits_sub emits_push emits_void emits_dispatch)

text \<open>Where a dispatch comes from: an executable node of the graph, within its ceiling.\<close>

definition dispatch_origin :: "graph_node \<Rightarrow> traversal \<Rightarrow> engine \<Rightarrow> decision \<Rightarrow> bool" where
  "dispatch_origin root t e d \<longleftrightarrow>
     (\<exists>n spec. n \<in> set (all_nodes root) \<and> executable_spec_of n = Some spec
        \<and> so_node (dp_occurrence d) = es_name spec
        \<and> prefix (tr_map_indices t) (so_map_indices (dp_occurrence d))
        \<and> dp_worker d = es_worker spec
        \<and> 0 < dp_attempt d \<and> dp_attempt d \<le> es_attempt_ceiling spec)
     \<and> ((\<exists>x \<in> set (eng_executions e). de_occurrence x = dp_occurrence d \<and> de_node_instance x = dp_node_instance d)
        \<or> (\<forall>x \<in> set (eng_executions e). de_occurrence x \<noteq> dp_occurrence d)
           \<and> eng_next_node_instance e \<le> dp_node_instance d)"

definition originates :: "graph_node \<Rightarrow> traversal \<Rightarrow> engine \<Rightarrow> engine \<Rightarrow> bool" where
  "originates root t e e' \<longleftrightarrow>
     eng_executions e' = eng_executions e
     \<and> eng_next_node_instance e \<le> eng_next_node_instance e'
     \<and> (\<exists>ds. eng_decisions e' = eng_decisions e @ ds \<and> (\<forall>d \<in> set (dispatches ds). dispatch_origin root t e d))"

lemma originates_same:
  "eng_executions e' = eng_executions e \<Longrightarrow> eng_next_node_instance e' = eng_next_node_instance e \<Longrightarrow>
   eng_decisions e' = eng_decisions e @ ds \<Longrightarrow> dispatches ds = [] \<Longrightarrow> originates root t e e'"
  unfolding originates_def by (auto intro!: exI[of _ ds])

lemma dispatch_origin_mono:
  "eng_executions e' = eng_executions e \<Longrightarrow> eng_next_node_instance e \<le> eng_next_node_instance e' \<Longrightarrow>
   dispatch_origin root t e' d \<Longrightarrow> dispatch_origin root t e d"
  unfolding dispatch_origin_def by auto

lemma originates_trans: "originates root t a b \<Longrightarrow> originates root t b d \<Longrightarrow> originates root t a d"
proof -
  assume a: "originates root t a b" and b: "originates root t b d"
  obtain ds where ds: "eng_decisions b = eng_decisions a @ ds" "\<forall>x \<in> set (dispatches ds). dispatch_origin root t a x"
    using a by (auto simp: originates_def)
  obtain ds' where ds': "eng_decisions d = eng_decisions b @ ds'" "\<forall>x \<in> set (dispatches ds'). dispatch_origin root t b x"
    using b by (auto simp: originates_def)
  have "dispatch_origin root t a x" if "x \<in> set (dispatches (ds @ ds'))" for x
    using that ds ds' a dispatch_origin_mono[of b a root t x] by (auto simp: originates_def)
  then show ?thesis
    using a b ds ds' unfolding originates_def by (intro conjI exI[of _ "ds @ ds'"]) auto
qed

lemma originates_sub: "sub_traversal t' t \<Longrightarrow> originates root t' a b \<Longrightarrow> originates root t a b"
  unfolding originates_def dispatch_origin_def sub_traversal_def
  using prefix_order.trans by fastforce

lemma originates_void: "originates root t e (void_loser sc l e)"
  by (cases l)
    (auto simp: void_loser_def record_void_cutoff_def push_void_decision_def push_decision_def Let_def
      intro: originates_same[where ds = "[]"] originates_same[where ds = "[VoidLoser _ _]"])

lemma originates_dispatch:
  "n \<in> set (all_nodes root) \<Longrightarrow> executable_spec_of n = Some spec \<Longrightarrow> dispatch_step spec t e e' \<Longrightarrow>
   originates root t e e'"
  unfolding dispatch_step_def originates_def dispatch_origin_def
  by (elim exE conjE) (intro conjI exI, auto simp: push_decision_def instance_step_def spec_occurrence_def)

interpretation origin: engine_relation "\<lambda>n. n \<in> set (all_nodes root)" "originates root" for root
proof unfold_locales
  show "originates root t e (e\<lparr>eng_trace := tc\<rparr>)" for t e tc
    by (rule originates_same[where ds = "[]"]) simp_all
  show "originates root t e e'" if "consume_step spec t e e'" for spec t e e'
    using that by (auto simp: consume_step_def intro!: originates_same[where ds = "[]"])
  show "originates root t e (push_decision (ContinueDecision name) e)" for t e name
    by (rule originates_same[where ds = "[ContinueDecision name]"]) (simp_all add: push_decision_def)
  show "originates root t e (push_decision (Promote name idx vs) e)" for t e name idx vs
    by (rule originates_same[where ds = "[Promote name idx vs]"]) (simp_all add: push_decision_def)
qed (blast intro: all_nodes_closed originates_trans originates_sub originates_void originates_dispatch)+

text \<open>Cancellations name active executions of the history, each at most once.\<close>

definition active_id :: "engine \<Rightarrow> execution_id \<Rightarrow> bool" where
  "active_id e x \<longleftrightarrow> (\<exists>d \<in> set (eng_executions e). de_execution d = x \<and> de_state d = ExecActive)"

definition cancels :: "traversal \<Rightarrow> engine \<Rightarrow> engine \<Rightarrow> bool" where
  "cancels t e e' \<longleftrightarrow>
     eng_executions e' = eng_executions e
     \<and> (distinct (void_ids (eng_decisions e)) \<longrightarrow> distinct (void_ids (eng_decisions e')))
     \<and> (\<forall>x \<in> set (void_ids (eng_decisions e')). x \<in> set (void_ids (eng_decisions e)) \<or> active_id e x)"

lemma list_ex_is_void_of: "list_ex (is_void_of x) ds \<longleftrightarrow> x \<in> set (void_ids ds)"
  by (induction ds) (auto simp: is_void_of_def is_void_def void_id_def split: decision.splits)

lemma cancels_void:
  assumes "x \<in> set (eng_executions e)"
  shows "cancels t e (void_loser sc (loser_key x) e)"
  using assms
  by (auto simp: cancels_def void_loser_def loser_key_def record_void_cutoff_def Let_def
      push_void_decision_def push_decision_def list_ex_is_void_of active_id_def)

interpretation cancellation: engine_relation "\<lambda>_. True" cancels
proof unfold_locales
  show "cancels t a d" if "cancels t a b" "cancels t b d" for t a b d
    using that by (auto simp: cancels_def active_id_def)
  show "cancels t e (void_loser sc (loser_key x) e)" if "x \<in> set (eng_executions e)" for t e sc x
    using that by (rule cancels_void)
qed (auto simp: cancels_def push_decision_def consume_step_def dispatch_step_def)


section \<open>Settled evaluations dispatch nothing\<close>

text \<open>Every settlement of the history lies before the open end of the position range.\<close>

definition bounded_history :: "durable_execution list \<Rightarrow> bool" where
  "bounded_history es \<longleftrightarrow>
     (\<forall>x \<in> set es. case de_state x of ExecSettled p _ \<Rightarrow> p < HistoryPosition_MAX | _ \<Rightarrow> True)"

definition calm :: "engine \<Rightarrow> engine \<Rightarrow> bool" where
  "calm e e' \<longleftrightarrow> eng_next_execution e' = eng_next_execution e \<and> eng_executions e' = eng_executions e"

definition before_end :: "status \<Rightarrow> bool" where
  "before_end s \<longleftrightarrow> (s \<noteq> Pending \<longrightarrow> status_position s < HistoryPosition_MAX)"

definition quiet :: "engine \<Rightarrow> engine \<Rightarrow> status \<Rightarrow> bool" where
  "quiet e e' s \<longleftrightarrow> (s \<noteq> Pending \<longrightarrow> calm e e') \<and> before_end s"

lemma calm_refl [simp]: "calm e e"
  by (simp add: calm_def)

lemma calm_trans: "calm a b \<Longrightarrow> calm b d \<Longrightarrow> calm a d"
  by (simp add: calm_def)

lemma calm_retraced: "retraced e e' \<Longrightarrow> calm e e'"
  by (auto simp: retraced_def calm_def)

lemma before_end_simps [simp]:
  "before_end Pending" "before_end (Continue p) \<longleftrightarrow> p < HistoryPosition_MAX"
  "before_end (Terminal p r) \<longleftrightarrow> p < HistoryPosition_MAX"
  by (simp_all add: before_end_def status_position_def)

lemma ZERO_before_end [simp]: "HistoryPosition_ZERO < HistoryPosition_MAX"
  by (simp add: HistoryPosition_ZERO_def HistoryPosition_MAX_def i64_max_def)

lemma before_end_after: "before_end s \<Longrightarrow> p < HistoryPosition_MAX \<Longrightarrow> before_end (status_after s p)"
  by (cases s) (auto simp: status_after_def)

lemma after_Pending: "status_after s p = Pending \<longleftrightarrow> s = Pending"
  by (cases s) (auto simp: status_after_def)

lemma calm_promote_group: "promote_group e n ps t l p = Inr (e', p') \<Longrightarrow> calm e e'"
  by (auto simp: calm_def push_decision_def dest!: promote_group_engine)

lemma calm_continue: "calm e (continue_decision e n m)"
  by (simp add: calm_def continue_decision_def push_decision_def)

lemma calm_void_loser: "calm e (void_loser sc l e)"
  by (cases l) (simp add: calm_def void_loser_def record_void_cutoff_def push_void_decision_def
      push_decision_def Let_def)

lemma calm_fold_void: "calm e (fold (void_loser sc) ls e)"
  by (induction ls arbitrary: e) (auto intro: calm_trans calm_void_loser)

lemma calm_voids: "calm e (void_active_descendants e n sc)" "calm e (void_map_losers e n sc w)"
  by (simp_all add: void_active_descendants_def void_map_losers_def Let_def calm_fold_void)

lemma calm_parallel_losers: "calm e (void_parallel_losers bs ws sc e)"
proof -
  have "calm e (fold (\<lambda>(index, branch) self.
      if index \<in> set ws then self else void_active_descendants self branch sc) ibs e)" for ibs
  proof (induction ibs arbitrary: e)
    case (Cons ib ibs)
    have "calm e (if fst ib \<in> set ws then e else void_active_descendants e (snd ib) sc)"
      using calm_voids(1) by simp
    from calm_trans[OF this Cons.IH] show ?case by (simp add: case_prod_unfold)
  qed simp
  then show ?thesis by (simp add: void_parallel_losers_def)
qed

text \<open>Under a probe or a cutoff the relation \<open>emits\<close> already gives calm.\<close>

lemma eval_calm:
  assumes "eval jl n e x t = Inr (e', x', s)"
    and "tr_mode t = Probe \<or> tr_cutoff t < HistoryPosition_MAX"
  shows "calm e e'"
proof -
  have "emits t e e'" using emission.eval_R[OF _ assms(1)] by simp
  then obtain ds where ds: "emits_new t e e' ds" by (auto simp: emits_def)
  then have "dispatches ds = []"
    using emits_newD(5)[OF ds] assms(2) by (metis eval_mode.distinct(1) leD)
  with emits_newD(5)[OF ds] have "eng_next_execution e' = eng_next_execution e" by simp
  moreover have "engine_fixed t e e'" using fixed.eval_R[OF _ assms(1)] by simp
  ultimately show ?thesis by (simp add: calm_def engine_fixed_def)
qed

lemma eval_executions: "eval jl n e x t = Inr (e', x', s) \<Longrightarrow> eng_executions e' = eng_executions e"
  using fixed.eval_R by (auto simp: engine_fixed_def)

text \<open>The induction hypothesis for a child.\<close>

definition settles :: "(json \<Rightarrow> nat) \<Rightarrow> graph_node \<Rightarrow> bool" where
  "settles jl c \<longleftrightarrow>
     (\<forall>e x t e' x' s. bounded_history (eng_executions e) \<longrightarrow> eval jl c e x t = Inr (e', x', s) \<longrightarrow> quiet e e' s)"

lemma settlesD:
  "settles jl c \<Longrightarrow> eval jl c e x t = Inr (e', x', s) \<Longrightarrow> bounded_history (eng_executions e) \<Longrightarrow>
   quiet e e' s \<and> bounded_history (eng_executions e')"
  using eval_executions by (auto simp: settles_def)

lemma max_position_less:
  "(\<And>p. p \<in> set ps \<Longrightarrow> p < HistoryPosition_MAX) \<Longrightarrow> max_position ps < HistoryPosition_MAX"
  using max_position_le[of ps "HistoryPosition_MAX - 1"]
  by (fastforce simp: HistoryPosition_MAX_def i64_max_def)

lemma finish_existing_before_end:
  assumes "finish_existing_execution e spec c t x i = Inr (e', c', s)"
    and "case de_state x of ExecSettled p _ \<Rightarrow> p < HistoryPosition_MAX | _ \<Rightarrow> True"
  shows "before_end s"
  using assms
  by (cases "de_state x")
    (auto simp: finish_existing_execution_def with_context_def dispatch_retry_def res_simps split: if_splits)

lemma executable_before_end:
  assumes "eval_executable e spec c t = Inr (e', c', s)" and "bounded_history (eng_executions e)"
  shows "before_end s"
proof -
  from assms(1) obtain res where res: "resolve_visit e spec c (tr_map_indices t) = Inr res"
    by (auto simp: eval_executable_def elim!: bind_resE)
  show ?thesis
  proof (cases res)
    case Exhausted
    with assms(1) res show ?thesis by (auto simp: eval_executable_def attempts_exhausted_def res_simps)
  next
    case (Ready v)
    with assms(1) res obtain i e1 c1 where
      rest: "(case ev_existing v of
              None \<Rightarrow> with_context c1 (dispatch_missing e1 spec v i t)
            | Some x \<Rightarrow> finish_existing_execution e1 spec c1 t x i) = Inr (e', c', s)"
      by (auto simp: eval_executable_def Let_def elim!: bind_resE)
    show ?thesis
    proof (cases "ev_existing v")
      case None
      with rest show ?thesis by (auto dest: dispatch_missing_pending)
    next
      case (Some x)
      then have "x \<in> set (eng_executions e)"
        using resolve_visit_ok[OF res[unfolded Ready]] by (auto simp: visit_ok_def)
      then show ?thesis
        using rest Some assms(2) finish_existing_before_end by (auto simp: bounded_history_def)
    qed
  qed
qed

lemma executable_quiet:
  assumes "eval_executable e spec c t = Inr (e', c', s)" and "bounded_history (eng_executions e)"
  shows "quiet e e' s"
proof -
  have "calm e e'" if "s \<noteq> Pending"
    using eval_executable_shape[OF assms(1)] that by (auto simp: calm_def consume_step_def)
  moreover have "before_end s" by (rule executable_before_end[OF assms])
  ultimately show ?thesis by (simp add: quiet_def)
qed

lemma children_quiet:
  assumes "\<And>c. c \<in> set cs \<Longrightarrow> settles jl c"
    and "eval_children (eval jl) t cs e l p = Inr (e', l', s)" and "p < HistoryPosition_MAX"
    and "bounded_history (eng_executions e)"
  shows "quiet e e' s"
  using assms
proof (induction cs arbitrary: e l p)
  case Nil
  then show ?case by (auto simp: quiet_def)
next
  case (Cons c cs)
  have ok: "settles jl c" "\<And>c. c \<in> set cs \<Longrightarrow> settles jl c" using Cons.prems(1) by auto
  from Cons.prems(2) show ?case
  proof (cases rule: eval_children_Cons)
    case (stop e1 s1)
    then show ?thesis using settlesD[OF ok(1) stop(1) Cons.prems(4)] Cons.prems(3)
      by (auto simp: quiet_def after_Pending intro: before_end_after)
  next
    case (go e1 l1 q)
    have q: "calm e e1" "q < HistoryPosition_MAX" "bounded_history (eng_executions e1)"
      using settlesD[OF ok(1) go(1) Cons.prems(4)] by (auto simp: quiet_def)
    then have "quiet e1 e' s" using Cons.IH[OF ok(2) go(2)] Cons.prems(3) by simp
    then show ?thesis using q(1) by (auto simp: quiet_def intro: calm_trans)
  qed
qed

lemma sequence_quiet:
  assumes "\<And>c. c \<in> set cs \<Longrightarrow> settles jl c" and "bounded_history (eng_executions e)"
    and "eval_sequence (eval jl) n cs ps e x t = Inr (e', x', s)"
  shows "quiet e e' s"
  using assms(3)
proof (cases rule: eval_sequence_cases)
  case (stop l)
  then show ?thesis using children_quiet[OF assms(1) stop(1) _ assms(2)] by simp
next
  case (finished e1 l p e2)
  have "quiet e e1 (Continue p)" using children_quiet[OF assms(1) finished(1) _ assms(2)] by simp
  then show ?thesis
    using finished calm_promote_group[OF finished(2)] calm_continue by (auto simp: quiet_def intro: calm_trans)
qed

lemma rounds_quiet:
  assumes "settles jl body"
    and "loop_rounds (eval jl) body u names t n i e l p = Inr (e', l', ex)" and "p < HistoryPosition_MAX"
    and "bounded_history (eng_executions e)"
  shows "case ex of LoopStopped s \<Rightarrow> quiet e e' s
      | LoopConverged q \<Rightarrow> quiet e e' (Continue q) | LoopExhausted q \<Rightarrow> quiet e e' (Continue q)"
  using assms(2-4)
proof (induction n arbitrary: i e l p)
  case 0
  then show ?case by (auto simp: quiet_def)
next
  case (Suc n)
  from Suc.prems(1) show ?case
  proof (cases rule: loop_rounds_Suc)
    case (stop e1 l1 s1)
    then show ?thesis using settlesD[OF assms(1) stop(1) Suc.prems(3)] Suc.prems(2)
      by (auto simp: quiet_def after_Pending intro: before_end_after)
  next
    case (converged e1 l1 q)
    then show ?thesis using settlesD[OF assms(1) converged(1) Suc.prems(3)] Suc.prems(2)
      by (auto simp: quiet_def)
  next
    case (again e1 l1 q)
    have q: "calm e e1" "q < HistoryPosition_MAX" "bounded_history (eng_executions e1)"
      using settlesD[OF assms(1) again(1) Suc.prems(3)] by (auto simp: quiet_def)
    then show ?thesis
      using Suc.IH[OF again(2)] Suc.prems(2) by (auto simp: quiet_def intro: calm_trans split: loop_exit.splits)
  qed
qed

lemma loop_quiet:
  assumes "settles jl body" and "bounded_history (eng_executions e)"
    and "eval_loop (eval jl) n body u m ps e x t = Inr (e', x', s)"
  shows "quiet e e' s"
  using assms(3)
proof (cases rule: eval_loop_cases)
  case (stop l)
  then show ?thesis using rounds_quiet[OF assms(1) stop _ assms(2)] by simp
next
  case (finished e1 l ex p e2 l2 x2)
  have "quiet e e1 (Continue p)"
    using rounds_quiet[OF assms(1) finished(1) _ assms(2)] finished(2) by auto
  then show ?thesis
    using finished(4,5) calm_promote_group[OF finished(3)] calm_continue
    by (auto simp: quiet_def intro: calm_trans)
qed

lemma choice_quiet:
  assumes "\<And>c. choice_selected e (clear_writes x) t bs ot = Some c \<Longrightarrow> settles jl c"
    and "bounded_history (eng_executions e)"
    and "eval_choice (eval jl) n bs ot ps e x t = Inr (e', x', s)"
  shows "quiet e e' s"
proof -
  have b: "calm e (trace_branch e n c)" for c by (rule calm_retraced[OF trace_branch_engine])
  then have h: "bounded_history (eng_executions (trace_branch e n c))" for c
    using assms(2) by (simp add: calm_def)
  from assms(3) show ?thesis
  proof (cases rule: eval_choice_cases)
    case (stop c l)
    then show ?thesis using settlesD[OF assms(1)[OF stop(1)] stop(2) h] b by (auto simp: quiet_def intro: calm_trans)
  next
    case (finished c e1 l p e2 x2)
    have "calm e e1 \<and> p < HistoryPosition_MAX"
      using settlesD[OF assms(1)[OF finished(1)] finished(2) h] calm_trans[OF b] by (auto simp: quiet_def)
    then show ?thesis
      using finished(4,5) calm_promote_group[OF finished(3)] calm_continue
      by (auto simp: quiet_def intro: calm_trans)
  qed
qed

lemma probes_quiet:
  assumes "\<And>c. c \<in> set bs \<Longrightarrow> settles jl c" and "bounded_history (eng_executions e)"
    and "probe_parallel (eval jl) x t bs e = Inr (e', probes)"
  shows "calm e e' \<and> (\<forall>(s, _) \<in> set probes. before_end s)"
  using assms
proof (induction bs arbitrary: e probes)
  case (Cons b bs)
  from Cons.prems(3) obtain e1 x1 s1 rest where
    b: "eval jl b e (clear_writes x) (t\<lparr>tr_mode := Probe\<rparr>) = Inr (e1, x1, s1)"
    and rest: "probe_parallel (eval jl) x t bs e1 = Inr (e', rest)" and probes: "probes = (s1, x1) # rest"
    by (auto simp: res_simps)
  have "settles jl b" using Cons.prems(1) by simp
  from settlesD[OF this b Cons.prems(2)]
  have s1: "before_end s1" and h1: "bounded_history (eng_executions e1)" by (auto simp: quiet_def)
  moreover have "calm e e1" using eval_calm[OF b] by simp
  moreover have "calm e1 e' \<and> (\<forall>(s, _) \<in> set rest. before_end s)"
    using Cons.IH[OF _ h1 rest] Cons.prems(1) by auto
  ultimately show ?case using probes by (auto intro: calm_trans)
qed auto

lemma completions_quiet:
  assumes "parallel_completions e j probes t = Inr (completed, needed)"
    and "\<forall>(s, _) \<in> set probes. before_end s"
  shows "\<forall>(_, p) \<in> set completed. p < HistoryPosition_MAX"
proof -
  from assms(1) have f: "try_foldl (complete_branch e j t) [] (enumerate 0 probes) = Inr completed"
    by (auto simp: parallel_completions_def res_simps)
  show ?thesis
  proof (rule try_foldl_invariant[OF f])
    fix acc y acc'
    assume y: "y \<in> set (enumerate 0 probes)" and acc: "\<forall>(_, p) \<in> set acc. p < HistoryPosition_MAX"
      and step: "complete_branch e j t acc y = Inr acc'"
    obtain i s c where yi: "y = (i, s, c)" by (cases y)
    with y have "(s, c) \<in> set probes"
      by (auto simp: enumerate_eq_zip dest: set_zip_rightD)
    with assms(2) have "before_end s" by auto
    with step acc yi show "\<forall>(_, p) \<in> set acc'. p < HistoryPosition_MAX"
      by (cases s) (auto simp: complete_branch_def res_simps split: if_splits)
  qed simp
qed

lemma winners_quiet:
  assumes "join_parallel_winners (eval jl) bs ps e x t ws = Inr (e', joined, p, w)"
    and "\<forall>(_, q) \<in> set ws. q < HistoryPosition_MAX"
  shows "calm e e' \<and> p < HistoryPosition_MAX"
proof -
  have p: "p = max_position (map snd ws)"
    and f: "try_foldl (join_winner (eval jl) bs ps x t p) (e, clear_writes x) ws = Inr (e', joined)"
    using assms(1) by (auto simp: join_parallel_winners_def res_simps Let_def)
  have le: "p < HistoryPosition_MAX" unfolding p using assms(2) by (intro max_position_less) auto
  have "calm (fst (e, clear_writes x)) (fst (e', joined))"
    using f
  proof (rule try_foldl_relation[where R = "\<lambda>a b. calm (fst a) (fst b)"])
    fix a y b assume h: "join_winner (eval jl) bs ps x t p a y = Inr b"
    obtain e1 jd i q where ay: "a = (e1, jd)" "y = (i, q)" by (cases a; cases y)
    from h obtain c2 r where
      ev: "eval jl (bs ! i) e1 (clear_writes x) (t\<lparr>tr_cutoff := p\<rparr>) = Inr (fst b, c2, Continue r)"
      unfolding ay by (rule join_winner_cases)
    show "calm (fst a) (fst b)" using eval_calm[OF ev] le by (simp add: ay)
  qed (auto intro: calm_trans)
  then show ?thesis using le by simp
qed

lemma finish_parallel_quiet:
  assumes "finish_parallel_join n bs ps j e x t k needed joined p w = Inr (e', x', s)"
    and "p < HistoryPosition_MAX"
  shows "quiet e e' s"
proof -
  from assms(1) obtain e1 where e1: "emit_parallel_promotion e n ps joined t = Inr e1"
    and s: "s = Continue p" and e': "e' = continue_decision
      (if needed < k then void_parallel_losers bs w
                        \<lparr>vs_map_indices = tr_map_indices t, vs_cutoff = p, vs_reason = ParallelJoin,
                         vs_emit_decisions = (tr_mode t = Decide)\<rparr> e1 else e1) n (tr_mode t)"
    by (auto simp: finish_parallel_join_def res_simps Let_def)
  have "calm e e1" using emit_parallel_promotion_engine[OF e1] by (auto simp: calm_def push_decision_def)
  then show ?thesis
    using assms(2) calm_parallel_losers calm_continue unfolding e' s quiet_def
    by (auto simp: calm_def)
qed

lemma parallel_quiet:
  assumes "\<And>c. c \<in> set bs \<Longrightarrow> settles jl c" and "bounded_history (eng_executions e)"
    and "eval_parallel (eval jl) n bs ps j e x t = Inr (e', x', s)"
  shows "quiet e e' s"
  using assms(3)
proof (cases rule: eval_parallel_cases)
  case (unreached e1 probes e2 tr completed needed e3)
  have p: "calm e e1" "\<forall>(s, _) \<in> set probes. before_end s"
    using probes_quiet[OF assms(1,2) unreached(1)] by auto
  have "quiet e2 e3 s"
  proof (cases "s = Pending")
    case False
    with unreached(4) have "e3 = continue_decision e2 n (tr_mode t)"
      and "s = Continue (max_position (filter (\<lambda>p. p \<noteq> HistoryPosition_MAX)
              (map (\<lambda>(status, _). status_position status) probes)))"
      by (auto simp: unreached_parallel_join_def Let_def elim!: bind_resE split: if_splits)
    moreover have "max_position (filter (\<lambda>p. p \<noteq> HistoryPosition_MAX)
              (map (\<lambda>(status, _). status_position status) probes)) < HistoryPosition_MAX"
      using p(2) by (intro max_position_less)
        (auto simp: before_end_def status_position_def split: status.splits)
    ultimately show ?thesis by (simp add: quiet_def calm_continue)
  qed (simp add: quiet_def)
  moreover have "calm e3 e'"
    using unreached(5) calm_retraced[OF restore_trace_engine] by (auto split: if_splits)
  ultimately show ?thesis
    using p(1) calm_retraced[OF take_trace_engine[OF unreached(2)]] by (auto simp: quiet_def calm_def)
next
  case (joined e1 probes e2 tr completed needed e4 jd q w)
  have p: "calm e e1" "\<forall>(s, _) \<in> set probes. before_end s"
    using probes_quiet[OF assms(1,2) joined(1)] by auto
  have "\<forall>(_, q) \<in> set (take needed (ordered_completions completed)). q < HistoryPosition_MAX"
    using completions_quiet[OF joined(3) p(2)] by (auto simp: ordered_completions_def dest!: in_set_takeD)
  note w = winners_quiet[OF joined(5) this]
  have "quiet e4 e' s" using finish_parallel_quiet[OF joined(6)] w by simp
  then show ?thesis
    using p(1) w calm_retraced[OF take_trace_engine[OF joined(2)]] by (auto simp: quiet_def calm_def)
qed

lemma items_quiet:
  assumes "settles jl body" and "bounded_history (eng_executions e)"
    and "evaluate_map_items (eval jl) body x t mode items e = Inr (e', results)"
  shows "eng_executions e' = eng_executions e \<and> (\<forall>r \<in> set results. before_end (mi_status r))
    \<and> (mode = Probe \<or> (\<forall>r \<in> set results. mi_status r \<noteq> Pending) \<longrightarrow> calm e e')"
  using assms(2,3)
proof (induction items arbitrary: e results)
  case (Cons ii items)
  obtain i item where ii: "ii = (i, item)" by (cases ii)
  let ?t = "t\<lparr>tr_map_indices := tr_map_indices t @ [i], tr_item := Some item, tr_mode := mode\<rparr>"
  from Cons.prems(2) obtain e1 x1 s1 rest where
    b: "eval jl body e (clear_writes x) ?t = Inr (e1, x1, s1)"
    and rest: "evaluate_map_items (eval jl) body x t mode items e1 = Inr (e', rest)"
    and results: "results = \<lparr>mi_status = s1, mi_context = x1, mi_scope = tr_map_indices t @ [i]\<rparr> # rest"
    by (auto simp: ii res_simps Let_def)
  have q: "quiet e e1 s1" "bounded_history (eng_executions e1)"
    using settlesD[OF assms(1) b Cons.prems(1)] by auto
  have "calm e e1" if "mode = Probe" using eval_calm[OF b] that by simp
  with q Cons.IH[OF q(2) rest] eval_executions[OF b] show ?case
    by (auto simp: results quiet_def intro: calm_trans)
qed auto

lemma finish_map_calm:
  "finish_map n body ps e x t results = Inr (e', x', s) \<Longrightarrow>
   calm e e' \<and> s = Continue (max_position (map (\<lambda>item. status_position (mi_status item)) results))"
  by (auto simp: finish_map_def res_simps Let_def dest!: calm_promote_group intro: calm_trans calm_continue)

lemma map_quiet:
  assumes "settles jl body" and "bounded_history (eng_executions e)"
    and "eval_map (eval jl) n body over m ps e x t = Inr (e', x', s)"
  shows "quiet e e' s"
  using assms(3)
proof (cases rule: eval_map_cases)
  case overflow
  then show ?thesis by (simp add: quiet_def calm_continue)
next
  case (ended items e1 probes e2 tr i tm e3)
  have p: "calm e e1" "\<forall>r \<in> set probes. before_end (mi_status r)"
    using items_quiet[OF assms(1,2) ended(1)] by auto
  have e3: "calm e e3"
    using p(1) calm_retraced[OF take_trace_engine[OF ended(2)]] calm_retraced[OF ended(4)]
    by (simp add: calm_def)
  have tm: "before_end tm" "tm \<noteq> Pending"
    using earliest_terminal_member[OF ended(3)] p(2) by auto
  from ended(5) show ?thesis
  proof (rule finish_terminal_cases)
    fix e4
    let ?t = "t\<lparr>tr_map_indices := mi_scope (probes ! i), tr_item := Some (items ! i),
      tr_cutoff := status_position tm\<rparr>"
    assume run: "tr_mode t = Decide \<Longrightarrow> \<exists>c1. eval jl body e3 x ?t = Inr (e4, c1, s)"
      and keep: "tr_mode t \<noteq> Decide \<Longrightarrow> e4 = e3 \<and> s = tm"
      and e': "e' = void_map_losers e4 body
       \<lparr>vs_map_indices = tr_map_indices t, vs_cutoff = status_position s,
        vs_reason = MapTerminal, vs_emit_decisions = (tr_mode t = Decide)\<rparr> (mi_scope (probes ! i))"
    have "calm e3 e4 \<and> before_end s"
    proof (cases "tr_mode t = Decide")
      case True
      with run obtain c1 where ev: "eval jl body e3 x ?t = Inr (e4, c1, s)" by blast
      have "calm e3 e4" using eval_calm[OF ev] tm by (simp add: before_end_def)
      moreover have "before_end s"
        using settlesD[OF assms(1) ev] e3 assms(2) by (auto simp: quiet_def calm_def)
      ultimately show ?thesis ..
    qed (use keep tm in simp)
    then show "quiet e e' s"
      using e3 calm_voids(2) unfolding e' by (auto simp: quiet_def calm_def)
  qed
next
  case (items items e1 probes e2 tr e3 results)
  have p: "calm e e1" "\<forall>r \<in> set probes. before_end (mi_status r)"
    using items_quiet[OF assms(1,2) items(1)] by auto
  have e2: "calm e e2"
    using p(1) calm_retraced[OF take_trace_engine[OF items(2)]] by (simp add: calm_def)
  then have h2: "bounded_history (eng_executions e2)" using assms(2) by (simp add: calm_def)
  have r: "\<forall>r \<in> set results. before_end (mi_status r)"
    "(\<forall>r \<in> set results. mi_status r \<noteq> Pending) \<Longrightarrow> calm e2 e3"
    using items(3) p(2) items_quiet[OF assms(1) h2, of x t "tr_mode t" "enumerate 0 items" e3 results]
    by (auto simp: res_simps split: if_splits intro: calm_retraced dest!: restore_trace_engine)
  show ?thesis
  proof (cases "list_ex (\<lambda>result. mi_status result = Pending) results")
    case True
    then show ?thesis using items(4) by (simp add: quiet_def)
  next
    case False
    then have np: "\<forall>r \<in> set results. mi_status r \<noteq> Pending" by (simp add: list_ex_iff)
    from False items(4) have "calm e3 e'"
      and s: "s = Continue (max_position (map (\<lambda>item. status_position (mi_status item)) results))"
      using finish_map_calm by auto
    moreover have "max_position (map (\<lambda>item. status_position (mi_status item)) results) < HistoryPosition_MAX"
      using r(1) np by (intro max_position_less) (auto simp: before_end_def)
    ultimately show ?thesis using e2 r(2)[OF np] by (auto simp: quiet_def calm_def)
  qed
qed

lemma eval_settles: "settles jl n"
proof (induction n rule: graph_induct)
  case (node n)
  have "quiet e e' s"
    if h: "bounded_history (eng_executions e)" and d: "eval_dispatch (eval jl) e n x t = Inr (e', x', s)"
    for e x t e' x' s
  proof (cases n)
    case (SeqNode name st cs ps)
    then show ?thesis
      using node d sequence_quiet[of cs jl e name ps x t e' x' s] h
      by (simp add: eval_dispatch_def is_executable_def is_terminal_node_def eval_group_node_def)
  next
    case (ParNode name st bs ps j)
    then show ?thesis
      using node d parallel_quiet[of bs jl e name ps j x t e' x' s] h
      by (simp add: eval_dispatch_def is_executable_def is_terminal_node_def eval_group_node_def)
  next
    case (ChoiceNode name st bs ot ps)
    then show ?thesis
      using node d choice_quiet[of e x t bs ot jl name ps e' x' s] h choice_selected_child
      by (auto simp: eval_dispatch_def is_executable_def is_terminal_node_def eval_group_node_def)
  qed (use node d h loop_quiet map_quiet executable_quiet in
      \<open>auto simp: eval_dispatch_def is_executable_def is_terminal_node_def eval_group_node_def
         eval_worker_node_def eval_terminal_node_def res_simps quiet_def\<close>)
  note dispatch = this
  show ?case
    unfolding settles_def
  proof (intro allI impI)
    fix e x t e' x' s
    assume h: "bounded_history (eng_executions e)" and ev: "eval jl n e x t = Inr (e', x', s)"
    from ev obtain e1 e2 where a: "calm e e1"
      and b: "eval_dispatch (eval jl) e1 n x (enter_boundary n t) = Inr (e2, x', s)" and c: "calm e2 e'"
      by (rule eval_cases) (use calm_retraced in blast)
    have "quiet e1 e2 s" using dispatch[OF _ b] h a by (simp add: calm_def)
    then show "quiet e e' s" using a c by (auto simp: quiet_def calm_def)
  qed
qed

end
