(* ===== verification/Reducer_Dispatch.thy ===== *)
theory Reducer_Dispatch
  imports Reducer_Relations
begin

text \<open>
  How the dispatches of one reduction spread over the graph. Everything that is not pending
  dispatches nothing, so a sequence, a choice and a loop dispatch from one child; the branches of a
  parallel group and the items of a map dispatch side by side. The locale \<open>dispatch_spread\<close> carries a
  predicate on the dispatches of a node through the evaluator; it is interpreted to show that an
  occurrence is dispatched at most once and that dispatches stay within the concurrency of the graph.
\<close>

section \<open>New dispatches\<close>

definition node_names :: "graph_node \<Rightarrow> node_name list" where
  "node_names n = map node_name (all_nodes n)"

definition new_dispatches :: "engine \<Rightarrow> engine \<Rightarrow> decision list" where
  "new_dispatches e e' = dispatches (drop (length (eng_decisions e)) (eng_decisions e'))"

lemma new_dispatches_emits: "emits_new t e e' ds \<Longrightarrow> new_dispatches e e' = dispatches ds"
  using emits_newD(1) by (auto simp: new_dispatches_def)

lemma new_dispatches_calm: "emits t e e' \<Longrightarrow> calm e e' \<Longrightarrow> new_dispatches e e' = []"
proof -
  assume "emits t e e'" and c: "calm e e'"
  then obtain ds where ds: "emits_new t e e' ds" by (auto simp: emits_def)
  then have "map dp_execution (dispatches ds) = [eng_next_execution e ..< eng_next_execution e']"
    unfolding emits_new_def by blast
  with c have "dispatches ds = []" by (simp add: calm_def)
  with new_dispatches_emits[OF ds] show ?thesis by simp
qed

lemma new_dispatches_trans:
  "emits t a b \<Longrightarrow> emits t b d \<Longrightarrow> new_dispatches a d = new_dispatches a b @ new_dispatches b d"
  by (auto simp: emits_def new_dispatches_def dest!: emits_newD(1))

lemma executable_spec_name: "executable_spec_of n = Some spec \<Longrightarrow> es_name spec = node_name n"
  by (cases n) auto

lemma node_names_child: "c \<in> set (child_nodes n) \<Longrightarrow> set (node_names c) \<subseteq> set (node_names n)"
  using all_nodes_child by (fastforce simp: node_names_def)

lemma distinct_node_names:
  assumes "distinct (node_names n)"
  shows "c \<in> set (child_nodes n) \<Longrightarrow> distinct (node_names c)"
    and "i < j \<Longrightarrow> j < length (child_nodes n) \<Longrightarrow>
      set (node_names (child_nodes n ! i)) \<inter> set (node_names (child_nodes n ! j)) = {}"
proof -
  have eq: "node_names n = node_name n # concat (map node_names (child_nodes n))"
    by (simp add: node_names_def[abs_def] all_nodes.simps[of n] map_concat comp_def)
  have gen: "distinct (concat (map node_names cs)) \<Longrightarrow> (\<forall>c \<in> set cs. distinct (node_names c))
      \<and> (\<forall>i j. i < j \<longrightarrow> j < length cs \<longrightarrow> set (node_names (cs ! i)) \<inter> set (node_names (cs ! j)) = {})" for cs
  proof (induction cs)
    case (Cons c cs)
    then have IH: "\<forall>c \<in> set cs. distinct (node_names c)"
      "\<And>i j. i < j \<Longrightarrow> j < length cs \<Longrightarrow> set (node_names (cs ! i)) \<inter> set (node_names (cs ! j)) = {}"
      and dis: "distinct (node_names c)" "set (node_names c) \<inter> set (concat (map node_names cs)) = {}"
      by auto
    have "set (node_names ((c # cs) ! i)) \<inter> set (node_names ((c # cs) ! j)) = {}"
      if "i < j" "j < length (c # cs)" for i j
    proof (cases i)
      case 0
      with that have "(c # cs) ! j \<in> set cs" by (cases j) auto
      with dis(2) 0 show ?thesis by auto
    next
      case (Suc i')
      with that IH(2)[of i' "j - 1"] show ?thesis by (cases j) auto
    qed
    with IH(1) dis(1) show ?case by simp
  qed simp
  show "c \<in> set (child_nodes n) \<Longrightarrow> distinct (node_names c)"
    and "i < j \<Longrightarrow> j < length (child_nodes n) \<Longrightarrow>
      set (node_names (child_nodes n ! i)) \<inter> set (node_names (child_nodes n ! j)) = {}"
    using gen[of "child_nodes n"] assms unfolding eq by auto
qed

lemma new_dispatches_after:
  "emits t a b \<Longrightarrow> calm a b \<Longrightarrow> emits t b d \<Longrightarrow> new_dispatches a d = new_dispatches b d"
  using new_dispatches_trans[of t a b d] new_dispatches_calm[of t a b] by simp

lemma new_dispatches_before:
  "emits t a b \<Longrightarrow> emits t b d \<Longrightarrow> calm b d \<Longrightarrow> new_dispatches a d = new_dispatches a b"
  using new_dispatches_trans[of t a b d] new_dispatches_calm[of t b d] by simp

lemma eval_emits: "eval jl c e x t = Inr (e', x', s) \<Longrightarrow> emits t e e'"
  using emission.eval_R by blast

lemma eval_Continue_calm:
  assumes "eval jl c e x t = Inr (e', x', Continue p)" and "bounded_history (eng_executions e)"
  shows "calm e e'" and "bounded_history (eng_executions e')"
  using settlesD[OF eval_settles assms] by (auto simp: quiet_def)

lemma obeys_emission: "emission.obeys (eval jl) c"
  unfolding emission.obeys_def using emission.eval_R by blast

lemma group_tail_calm:
  assumes "promote_group e1 n ps t l x = Inr (e2, x2)" and "e' = continue_decision e2 n (tr_mode t)"
  shows "emits t e1 e' \<and> calm e1 e'"
  using emission.trans[OF emission.promote_group_R[OF assms(1)] emission.continue_R]
    calm_trans[OF calm_promote_group[OF assms(1)] calm_continue]
  unfolding assms(2) by simp

lemma probes_calm:
  assumes "bounded_history (eng_executions e)" and "probe_parallel (eval jl) x t bs e = Inr (e1, probes)"
    and "take_trace_since e1 k = (e2, tr)"
  shows "emits t e e2 \<and> calm e e2"
  using probes_quiet[OF eval_settles assms(1,2)] emission.probes_R[OF obeys_emission assms(2)]
    calm_retraced[OF take_trace_engine[OF assms(3)]] emission.retraced_R[OF take_trace_engine[OF assms(3)]]
    emits_trans calm_trans by blast

section \<open>Spreading over the graph\<close>

locale dispatch_spread =
  fixes P :: "graph_node \<Rightarrow> u64 list \<Rightarrow> decision list \<Rightarrow> bool"
  assumes none: "P n idx []"
    and leaf: "executable_spec_of n = Some spec \<Longrightarrow>
      dp_occurrence d = StructuralOccurrence (es_name spec) idx \<Longrightarrow> dp_worker d = es_worker spec \<Longrightarrow> P n idx [d]"
    and inner: "c \<in> set (child_nodes n) \<Longrightarrow> \<not> is_atomic_group n \<Longrightarrow> P c idx ds \<Longrightarrow> P n idx ds"
    and par: "list_all2 (\<lambda>b ds. P b idx ds) bs dss \<Longrightarrow> P (ParNode name st bs ps j) idx (concat dss)"
    and map: "list_all2 (\<lambda>i ds. P body (idx @ [i]) ds) is dss \<Longrightarrow> distinct is \<Longrightarrow> length is \<le> m \<Longrightarrow>
      P (MapNode name st body over m ps) idx (concat dss)"
begin

definition spreads :: "(json \<Rightarrow> nat) \<Rightarrow> graph_node \<Rightarrow> bool" where
  "spreads jl c \<longleftrightarrow>
     (\<forall>e x t e' x' s. bounded_history (eng_executions e) \<longrightarrow> eval jl c e x t = Inr (e', x', s) \<longrightarrow>
        P c (tr_map_indices t) (new_dispatches e e'))"

lemma spreadsD:
  "spreads jl c \<Longrightarrow> eval jl c e x t = Inr (e', x', s) \<Longrightarrow> bounded_history (eng_executions e) \<Longrightarrow>
   P c (tr_map_indices t) (new_dispatches e e')"
  unfolding spreads_def by blast

lemma executable_spreads:
  assumes "eval_executable e spec c t = Inr (e', c', s)" and "executable_spec_of n = Some spec"
  shows "P n (tr_map_indices t) (new_dispatches e e')"
proof -
  from eval_executable_shape[OF assms(1)] obtain e1 where "consume_step spec t e e1" and
    "e' = e1 \<or> dispatch_step spec t e1 e' \<or>
     (\<exists>ds. e' = e1\<lparr>eng_decisions := eng_decisions e1 @ ds\<rparr> \<and> only_progress ds)" by blast
  moreover have "dispatches ds = []" if "only_progress ds" for ds
    using that by (induction ds) (auto simp: only_progress_def split: decision.splits)
  ultimately show ?thesis
    using none leaf[OF assms(2)]
    by (auto simp: new_dispatches_def consume_step_def dispatch_step_def push_decision_def
        spec_occurrence_def)
qed

text \<open>Children in order: the dispatches come from one of them.\<close>

lemma children_spread:
  assumes "\<And>c. c \<in> set cs \<Longrightarrow> spreads jl c"
    and "eval_children (eval jl) t cs e l p = Inr (e', l', s)" and "p \<le> tr_cutoff t"
    and "bounded_history (eng_executions e)"
  shows "new_dispatches e e' = [] \<or> (\<exists>c \<in> set cs. P c (tr_map_indices t) (new_dispatches e e'))"
  using assms
proof (induction cs arbitrary: e l p)
  case Nil
  then show ?case by (simp add: new_dispatches_def)
next
  case (Cons c cs)
  have ok: "spreads jl c" "\<And>c. c \<in> set cs \<Longrightarrow> spreads jl c" using Cons.prems(1) by auto
  from Cons.prems(2) show ?case
  proof (cases rule: eval_children_Cons)
    case (stop e1 s1)
    then show ?thesis using spreadsD[OF ok(1) stop(1) Cons.prems(4)] by auto
  next
    case (go e1 l1 q)
    note c = eval_Continue_calm[OF go(1) Cons.prems(4)]
    have q: "emits t e e1" "max p q \<le> tr_cutoff t"
      using emission.eval_R[OF _ go(1)] Cons.prems(3) by auto
    have "emits t e1 e'" using emission.children_R[OF obeys_emission go(2) q(2)] by simp
    then have "new_dispatches e e' = new_dispatches e1 e'" using new_dispatches_after[OF q(1) c(1)] by blast
    then show ?thesis using Cons.IH[OF ok(2) go(2) q(2) c(2)] by auto
  qed
qed

lemma sequence_spread:
  assumes "\<And>c. c \<in> set cs \<Longrightarrow> spreads jl c" and "bounded_history (eng_executions e)"
    and "eval_sequence (eval jl) n cs ps e x t = Inr (e', x', s)"
  shows "new_dispatches e e' = [] \<or> (\<exists>c \<in> set cs. P c (tr_map_indices t) (new_dispatches e e'))"
  using assms(3)
proof (cases rule: eval_sequence_cases)
  case (stop l)
  then show ?thesis using children_spread[OF assms(1) stop(1) _ assms(2)] by (simp add: HistoryPosition_ZERO_def)
next
  case (finished e1 l p e2)
  have "emits t e e1"
    using emission.children_R[OF obeys_emission finished(1)] by (simp add: HistoryPosition_ZERO_def)
  then have "new_dispatches e e' = new_dispatches e e1"
    using new_dispatches_before group_tail_calm[OF finished(2,3)] by blast
  then show ?thesis
    using children_spread[OF assms(1) finished(1) _ assms(2)] by (simp add: HistoryPosition_ZERO_def)
qed

lemma rounds_spread:
  assumes "spreads jl body"
    and "loop_rounds (eval jl) body u names t n i e l p = Inr (e', l', ex)" and "p \<le> tr_cutoff t"
    and "bounded_history (eng_executions e)"
  shows "P body (tr_map_indices t) (new_dispatches e e')"
  using assms(2-4)
proof (induction n arbitrary: i e l p)
  case 0
  then show ?case by (auto simp: new_dispatches_def dispatches_def none)
next
  case (Suc n)
  let ?t = "t\<lparr>tr_loop_iterations := tr_loop_iterations t @ [i]\<rparr>"
  have st: "sub_traversal ?t t" by (simp add: sub_traversal_def)
  from Suc.prems(1) show ?case
  proof (cases rule: loop_rounds_Suc)
    case (stop e1 l1 s1)
    then show ?thesis using spreadsD[OF assms(1) stop(1) Suc.prems(3)] by simp
  next
    case (converged e1 l1 q)
    then show ?thesis using spreadsD[OF assms(1) converged(1) Suc.prems(3)] by simp
  next
    case (again e1 l1 q)
    note c = eval_Continue_calm[OF again(1) Suc.prems(3)]
    have q: "emits t e e1" "max p q \<le> tr_cutoff t"
      using emission.eval_R[OF _ again(1)] emits_sub[OF st] Suc.prems(2) by auto
    have "emits t e1 e'" using emission.rounds_R[OF obeys_emission again(2) q(2)] by simp
    then have "new_dispatches e e' = new_dispatches e1 e'" using new_dispatches_after[OF q(1) c(1)] by blast
    then show ?thesis using Suc.IH[OF again(2) q(2) c(2)] by simp
  qed
qed

lemma loop_spread:
  assumes "spreads jl body" and "bounded_history (eng_executions e)"
    and "eval_loop (eval jl) n body u m ps e x t = Inr (e', x', s)"
  shows "P body (tr_map_indices t) (new_dispatches e e')"
  using assms(3)
proof (cases rule: eval_loop_cases)
  case (stop l)
  then show ?thesis using rounds_spread[OF assms(1) stop _ assms(2)] by (simp add: HistoryPosition_ZERO_def)
next
  case (finished e1 l ex p e2 l2 x2)
  have "emits t e e1"
    using emission.rounds_R[OF obeys_emission finished(1)] by (simp add: HistoryPosition_ZERO_def)
  then have "new_dispatches e e' = new_dispatches e e1"
    using new_dispatches_before group_tail_calm[OF finished(3,4)] by blast
  then show ?thesis
    using rounds_spread[OF assms(1) finished(1) _ assms(2)] by (simp add: HistoryPosition_ZERO_def)
qed

lemma choice_spread:
  assumes "\<And>c. choice_selected e (clear_writes x) t bs ot = Some c \<Longrightarrow> spreads jl c"
    and "bounded_history (eng_executions e)"
    and "eval_choice (eval jl) n bs ot ps e x t = Inr (e', x', s)"
  shows "\<exists>c. choice_selected e (clear_writes x) t bs ot = Some c \<and> P c (tr_map_indices t) (new_dispatches e e')"
proof -
  have b: "calm e (trace_branch e n c)" "emits t e (trace_branch e n c)" for c
    by (rule calm_retraced[OF trace_branch_engine], rule emission.retraced_R[OF trace_branch_engine])
  have h: "bounded_history (eng_executions (trace_branch e n c))" for c
    using assms(2) b(1)[of c] by (simp add: calm_def)
  from assms(3) show ?thesis
  proof (cases rule: eval_choice_cases)
    case (stop c l)
    then show ?thesis
      using new_dispatches_after[OF b(2,1) eval_emits[OF stop(2)]] spreadsD[OF assms(1)[OF stop(1)] stop(2) h] by auto
  next
    case (finished c e1 l p e2 x2)
    have "new_dispatches e e1 = new_dispatches (trace_branch e n (node_name c)) e1"
      using new_dispatches_after[OF b(2,1) eval_emits[OF finished(2)]] by blast
    moreover have "new_dispatches e e' = new_dispatches e e1"
      using new_dispatches_before[OF emits_trans[OF b(2) eval_emits[OF finished(2)]]]
        group_tail_calm[OF finished(3,4)] by blast
    ultimately show ?thesis using finished(1) spreadsD[OF assms(1)[OF finished(1)] finished(2) h] by auto
  qed
qed

text \<open>Branches and items side by side.\<close>

lemma decide_spread:
  assumes "\<And>c. c \<in> set bs \<Longrightarrow> spreads jl c"
    and "bounded_history (eng_executions e)" and "decide_branches (eval jl) x t bs e = Inr e'"
  shows "\<exists>dss. list_all2 (\<lambda>b ds. P b (tr_map_indices t) ds) bs dss \<and> new_dispatches e e' = concat dss"
  using assms
proof (induction bs arbitrary: e)
  case Nil
  then show ?case by (simp add: decide_branches_def new_dispatches_def)
next
  case (Cons b bs)
  from Cons.prems(3) obtain e1 x1 s1 where b: "eval jl b e x t = Inr (e1, x1, s1)"
    and rest: "decide_branches (eval jl) x t bs e1 = Inr e'"
    by (auto simp: decide_branches_def res_simps)
  have h1: "bounded_history (eng_executions e1)" using eval_executions[OF b] Cons.prems(2) by simp
  obtain dss where dss: "list_all2 (\<lambda>b ds. P b (tr_map_indices t) ds) bs dss" "new_dispatches e1 e' = concat dss"
    using Cons.IH[OF _ h1 rest] Cons.prems(1) by auto
  have "new_dispatches e e' = new_dispatches e e1 @ new_dispatches e1 e'"
    by (rule new_dispatches_trans[OF eval_emits[OF b] emission.decide_R[OF obeys_emission rest]])
  moreover have "P b (tr_map_indices t) (new_dispatches e e1)"
    using spreadsD[OF _ b Cons.prems(2)] Cons.prems(1) by simp
  ultimately show ?case using dss by (intro exI[of _ "new_dispatches e e1 # dss"]) simp
qed

lemma parallel_pending_spread:
  assumes "\<And>c. c \<in> set bs \<Longrightarrow> spreads jl c" and "bounded_history (eng_executions e)"
    and "eval_parallel (eval jl) n bs ps j e x t = Inr (e', x', Pending)"
  shows "P (ParNode n st bs ps j) (tr_map_indices t) (new_dispatches e e')"
  using assms(3)
proof (cases rule: eval_parallel_cases)
  case (unreached e1 probes e2 tr completed needed e3)
  have c: "emits t e e2" "calm e e2" using probes_calm[OF assms(2) unreached(1,2)] by auto
  then have h2: "bounded_history (eng_executions e2)" using assms(2) by (simp add: calm_def)
  from unreached(4,5) have "decide_branches (eval jl) x t bs e2 = Inr e' \<or> e' = e2"
    by (auto simp: unreached_parallel_join_def Let_def elim!: bind_resE split: if_splits)
  then show ?thesis
  proof
    assume d: "decide_branches (eval jl) x t bs e2 = Inr e'"
    have "new_dispatches e e' = new_dispatches e2 e'"
      using new_dispatches_after[OF c emission.decide_R[OF obeys_emission d]] .
    then show ?thesis using decide_spread[OF assms(1) h2 d] par by auto
  next
    assume "e' = e2"
    then show ?thesis using new_dispatches_calm[OF c] none by simp
  qed
next
  case (joined e1 probes e2 tr completed needed e4 jd q w)
  then show ?thesis by (auto simp: finish_parallel_join_def Let_def res_simps)
qed

lemma items_spread:
  assumes "spreads jl body" and "bounded_history (eng_executions e)"
    and "tr_mode t = Probe \<Longrightarrow> mode = Probe"
    and "evaluate_map_items (eval jl) body x t mode items e = Inr (e', results)"
  shows "\<exists>dss. list_all2 (\<lambda>i ds. P body (tr_map_indices t @ [i]) ds) (List.map fst items) dss
     \<and> new_dispatches e e' = concat dss"
  using assms(2,4)
proof (induction items arbitrary: e results)
  case Nil
  then show ?case by (simp add: new_dispatches_def)
next
  case (Cons ii items)
  obtain i item where ii: "ii = (i, item)" by (cases ii)
  let ?t = "t\<lparr>tr_map_indices := tr_map_indices t @ [i], tr_item := Some item, tr_mode := mode\<rparr>"
  from Cons.prems(2) obtain e1 x1 s1 rs where
    b: "eval jl body e (clear_writes x) ?t = Inr (e1, x1, s1)"
    and rest: "evaluate_map_items (eval jl) body x t mode items e1 = Inr (e', rs)"
    by (auto simp: ii res_simps Let_def)
  have h1: "bounded_history (eng_executions e1)" using eval_executions[OF b] Cons.prems(1) by simp
  obtain dss where dss: "list_all2 (\<lambda>i ds. P body (tr_map_indices t @ [i]) ds) (List.map fst items) dss"
    "new_dispatches e1 e' = concat dss"
    using Cons.IH[OF h1 rest] by auto
  have st: "sub_traversal ?t t" using assms(3) by (simp add: sub_traversal_def)
  have "new_dispatches e e' = new_dispatches e e1 @ new_dispatches e1 e'"
    using new_dispatches_trans[OF emits_sub[OF st eval_emits[OF b]]]
      emission.items_R[OF obeys_emission assms(3) rest] by blast
  moreover have "P body (tr_map_indices t @ [i]) (new_dispatches e e1)"
    using spreadsD[OF assms(1) b Cons.prems(1)] by simp
  ultimately show ?case using dss by (intro exI[of _ "new_dispatches e e1 # dss"]) (simp add: ii)
qed

text \<open>A map whose terminal item is re-evaluated dispatches nothing.\<close>

lemma terminal_item_calm:
  assumes "finish_terminal_map_item (eval jl) body e3 x t items probes i tm = Inr (e', Pending)"
    and "before_end tm" "tm \<noteq> Pending" and "bounded_history (eng_executions e3)"
  shows "calm e3 e'"
  using assms(1)
proof (rule finish_terminal_cases)
  fix e4
  let ?t = "t\<lparr>tr_map_indices := mi_scope (probes ! i), tr_item := Some (items ! i),
    tr_cutoff := status_position tm\<rparr>"
  let ?sc = "\<lparr>vs_map_indices = tr_map_indices t, vs_cutoff = status_position Pending,
      vs_reason = MapTerminal, vs_emit_decisions = (tr_mode t = Decide)\<rparr>"
  assume run: "tr_mode t = Decide \<Longrightarrow> \<exists>c1. eval jl body e3 x ?t = Inr (e4, c1, Pending)"
    and keep: "tr_mode t \<noteq> Decide \<Longrightarrow> e4 = e3 \<and> Pending = tm"
    and e': "e' = void_map_losers e4 body ?sc (mi_scope (probes ! i))"
  have dec: "tr_mode t = Decide" using keep assms(3) by blast
  with run obtain c1 where ev: "eval jl body e3 x ?t = Inr (e4, c1, Pending)" by blast
  have "calm e3 e4" using eval_calm[OF ev] assms(2,3) by (simp add: before_end_def)
  moreover have "calm e4 e'" unfolding e' by (rule calm_voids(2))
  ultimately show ?thesis using calm_trans by blast
qed

lemma map_pending_spread:
  assumes "spreads jl body" and "bounded_history (eng_executions e)"
    and "eval_map (eval jl) n body over m ps e x t = Inr (e', x', Pending)"
  shows "P (MapNode n st body over m ps) (tr_map_indices t) (new_dispatches e e')"
  using assms(3)
proof (cases rule: eval_map_cases)
  case overflow
  then show ?thesis by simp
next
  case (ended items e1 probes e2 tr i tm e3)
  have p: "calm e e1" "\<forall>r \<in> set probes. before_end (mi_status r)"
    using items_quiet[OF eval_settles assms(2) ended(1)] by auto
  have "calm e e3"
    using p(1) calm_retraced[OF take_trace_engine[OF ended(2)]] calm_retraced[OF ended(4)] calm_trans by blast
  moreover have tm: "before_end tm" "tm \<noteq> Pending"
    using earliest_terminal_member[OF ended(3)] p(2) by auto
  moreover have "emits t e e'"
    using emission.map_R[OF obeys_emission assms(3)] by simp
  ultimately show ?thesis
    using terminal_item_calm[OF ended(5)] assms(2) new_dispatches_calm calm_trans none
    by (metis calm_def)
next
  case (items items e1 probes e2 tr e3 results)
  have "calm e e1" "emits t e e1"
    using items_quiet[OF eval_settles assms(2) items(1)] emission.items_R[OF obeys_emission _ items(1)] by auto
  then have e2: "calm e e2" "emits t e e2"
    using calm_retraced[OF take_trace_engine[OF items(2)]] emission.retraced_R[OF take_trace_engine[OF items(2)]]
      emits_trans calm_trans by blast+
  have h2: "bounded_history (eng_executions e2)" using assms(2) e2 by (simp add: calm_def)
  have e3: "e' = e3"
    using items(4) finish_map_calm[of n body ps e3 x t results e' x' Pending] by (auto split: if_splits)
  show ?thesis
  proof (cases "tr_mode t = Probe")
    case True
    with items(3) have r: "retraced e2 e3" by (auto simp: res_simps dest!: restore_trace_engine)
    have "calm e e'" "emits t e e'"
      unfolding e3 using e2 calm_trans[OF _ calm_retraced[OF r]] emits_trans[OF _ emission.retraced_R[OF r]] by auto
    then show ?thesis using new_dispatches_calm none by simp
  next
    case False
    then have r: "evaluate_map_items (eval jl) body x t (tr_mode t) (enumerate 0 items) e2 = Inr (e3, results)"
      using items(3) by simp
    obtain dss where dss: "list_all2 (\<lambda>i ds. P body (tr_map_indices t @ [i]) ds) [0..<length items] dss"
      "new_dispatches e2 e3 = concat dss"
      using items_spread[OF assms(1) h2 _ r] by auto
    have "emits t e2 e3" using emission.items_R[OF obeys_emission _ r] by simp
    then have "new_dispatches e e' = new_dispatches e2 e3"
      using new_dispatches_after[OF e2(2,1)] e3 by blast
    then show ?thesis using map[OF dss(1) _ ] dss(2) items(5) by simp
  qed
qed

lemma eval_spreads: "spreads jl n"
proof (induction n rule: graph_induct)
  case (node n)
  note kids = node.IH
  have "P n (tr_map_indices t) (new_dispatches e e')"
    if h: "bounded_history (eng_executions e)" and d: "eval_dispatch (eval jl) e n x t = Inr (e', x', Pending)"
    for e x t e' x'
  proof (cases n)
    case (SeqNode name st cs ps)
    then show ?thesis
      using kids d sequence_spread[of cs jl e name ps x t e' x' Pending] h none inner[of _ n]
      by (auto simp: eval_dispatch_def is_executable_def is_terminal_node_def eval_group_node_def is_atomic_group_def)
  next
    case (ParNode name st bs ps j)
    then show ?thesis
      using kids d parallel_pending_spread[of bs jl e name ps j x t e' x' st] h
      by (simp add: eval_dispatch_def is_executable_def is_terminal_node_def eval_group_node_def)
  next
    case (ChoiceNode name st bs ot ps)
    have "eval_choice (eval jl) name bs ot ps e x t = Inr (e', x', Pending)"
      using d ChoiceNode
      by (simp add: eval_dispatch_def is_executable_def is_terminal_node_def eval_group_node_def)
    moreover have "c \<in> set (child_nodes n)" if "choice_selected e (clear_writes x) t bs ot = Some c" for c
      unfolding ChoiceNode by (rule choice_selected_child[OF that])
    ultimately show ?thesis
      using kids choice_spread[of e x t bs ot jl name ps e' x' Pending] h inner[of _ n]
      by (auto simp: ChoiceNode is_atomic_group_def)
  next
    case (LoopNode name st body u m f ps)
    then show ?thesis
      using kids d loop_spread[of jl body e name u m ps x t e' x' Pending] h inner[of body n]
      by (simp add: eval_dispatch_def is_executable_def is_terminal_node_def eval_group_node_def is_atomic_group_def)
  next
    case (MapNode name st body over m ps)
    then show ?thesis
      using kids d map_pending_spread[of jl body e name over m ps x t e' x' st] h
      by (simp add: eval_dispatch_def is_executable_def is_terminal_node_def eval_group_node_def)
  next
    case (StepNode step)
    then show ?thesis
      using d executable_spreads[of e _ x t e' x' Pending n]
      by (simp add: eval_dispatch_def is_executable_def eval_worker_node_def)
  next
    case (VerifierNode v)
    then show ?thesis
      using d executable_spreads[of e _ x t e' x' Pending n]
      by (simp add: eval_dispatch_def is_executable_def eval_worker_node_def)
  qed (use d none in
      \<open>auto simp: eval_dispatch_def is_executable_def is_terminal_node_def
         eval_terminal_node_def res_simps new_dispatches_def dispatches_def\<close>)
  note dispatch = this
  show ?case
    unfolding spreads_def
  proof (intro allI impI)
    fix e x t e' x' s
    assume h: "bounded_history (eng_executions e)" and ev: "eval jl n e x t = Inr (e', x', s)"
    show "P n (tr_map_indices t) (new_dispatches e e')"
    proof (cases "s = Pending")
      case True
      from ev obtain e1 e2 where a: "retraced e e1"
        and b: "eval_dispatch (eval jl) e1 n x (enter_boundary n t) = Inr (e2, x', Pending)" and c: "retraced e2 e'"
        unfolding True by (rule eval_cases)
      have h1: "bounded_history (eng_executions e1)" using h calm_retraced[OF a] by (simp add: calm_def)
      have "eng_decisions e1 = eng_decisions e" "eng_decisions e' = eng_decisions e2"
        using a c by (auto simp: retraced_def)
      then show ?thesis using dispatch[OF h1 b] by (simp add: new_dispatches_def enter_boundary_def split: if_splits)
    next
      case False
      then have "calm e e'" using settlesD[OF eval_settles ev h] by (simp add: quiet_def)
      then show ?thesis using new_dispatches_calm[OF eval_emits[OF ev]] none by simp
    qed
  qed
qed

end

section \<open>One dispatch per occurrence\<close>

definition once :: "graph_node \<Rightarrow> u64 list \<Rightarrow> decision list \<Rightarrow> bool" where
  "once n idx ds \<longleftrightarrow>
     (\<forall>d \<in> set ds. so_node (dp_occurrence d) \<in> set (node_names n) \<and> prefix idx (so_map_indices (dp_occurrence d)))
     \<and> (distinct (node_names n) \<longrightarrow> distinct (map dp_occurrence ds))"

lemma once_branches:
  assumes "list_all2 (\<lambda>b ds. once b idx ds) bs dss"
  shows "(\<forall>d \<in> set (concat dss). \<exists>b \<in> set bs. so_node (dp_occurrence d) \<in> set (node_names b)
          \<and> prefix idx (so_map_indices (dp_occurrence d)))
     \<and> (distinct (concat (map node_names bs)) \<longrightarrow> distinct (map dp_occurrence (concat dss)))"
  using assms
proof (induction bs dss rule: list_all2_induct)
  case (Cons b bs ds dss)
  then show ?case by (fastforce simp: once_def)
qed simp

lemma once_items:
  assumes "list_all2 (\<lambda>i ds. once body (idx @ [i]) ds) is dss" and "distinct is"
  shows "(\<forall>d \<in> set (concat dss). \<exists>i \<in> set is. so_node (dp_occurrence d) \<in> set (node_names body)
          \<and> prefix (idx @ [i]) (so_map_indices (dp_occurrence d)))
     \<and> (distinct (node_names body) \<longrightarrow> distinct (map dp_occurrence (concat dss)))"
  using assms
proof (induction "is" dss rule: list_all2_induct)
  case (Cons i "is" ds dss)
  have "dp_occurrence d \<noteq> dp_occurrence d'" if d: "d \<in> set ds" "d' \<in> set (concat dss)" for d d'
  proof -
    have "prefix (idx @ [i]) (so_map_indices (dp_occurrence d))" using Cons.hyps(1) d(1) by (auto simp: once_def)
    moreover obtain k where "k \<in> set is" "prefix (idx @ [k]) (so_map_indices (dp_occurrence d'))"
      using Cons d(2) by fastforce
    moreover have "k \<noteq> i" using \<open>k \<in> set is\<close> Cons.prems by auto
    ultimately show ?thesis by (auto simp: prefix_def)
  qed
  then show ?case using Cons by (fastforce simp: once_def)
qed simp

lemma node_names_eq: "node_names n = node_name n # concat (map node_names (child_nodes n))"
  by (simp add: node_names_def[abs_def] all_nodes.simps[of n] map_concat comp_def)

interpretation occurrence: dispatch_spread once
proof unfold_locales
  show "once n idx []" for n idx by (simp add: once_def)
  show "once n idx [d]" if "executable_spec_of n = Some spec"
    "dp_occurrence d = StructuralOccurrence (es_name spec) idx" for n spec d idx
    using that executable_spec_name[OF that(1)] by (simp add: once_def node_names_eq[of n])
  show "once n idx ds" if "c \<in> set (child_nodes n)" "once c idx ds" for c n idx ds
    using that node_names_child[OF that(1)] distinct_node_names(1)[OF _ that(1)] by (auto simp: once_def)
  show "once (ParNode name st bs ps j) idx (concat dss)" if "list_all2 (\<lambda>b ds. once b idx ds) bs dss"
    for idx bs dss name st ps j
    using once_branches[OF that] by (fastforce simp: once_def node_names_eq[of "ParNode name st bs ps j"])
  show "once (MapNode name st body over m ps) idx (concat dss)"
    if "list_all2 (\<lambda>i ds. once body (idx @ [i]) ds) is dss" "distinct is"
    for body idx "is" dss m name st over ps
    using once_items[OF that] by (fastforce simp: once_def node_names_eq[of "MapNode name st body over m ps"] prefix_def)
qed

lemma eval_once:
  assumes "distinct (node_names n)" and "eval jl n e x t = Inr (e', x', s)"
    and "bounded_history (eng_executions e)"
  shows "distinct (map dp_occurrence (new_dispatches e e'))"
  using occurrence.spreadsD[OF occurrence.eval_spreads assms(2,3)] assms(1) by (simp add: once_def)

end
