(* ===== verification/Reducer_Trace.thy ===== *)
theory Reducer_Trace
  imports Reducer_Relations
begin

text \<open>
  The structural trace is an observation: erasing the collector from every engine of a traced
  evaluation gives the untraced evaluation. The two runs can only differ when the trace exceeds one
  of its own bounds.
\<close>

section \<open>Erasing the trace\<close>

definition erase :: "engine \<Rightarrow> engine" where
  "erase e = e\<lparr>eng_trace := None\<rparr>"

definition erase_fst :: "engine \<times> 'a \<Rightarrow> engine \<times> 'a" where
  "erase_fst p = (erase (fst p), snd p)"

text \<open>The untraced run does the same, or the traced run ran out of its budget.\<close>

definition agrees :: "('a \<Rightarrow> 'a) \<Rightarrow> reducer_error + 'a \<Rightarrow> reducer_error + 'a \<Rightarrow> bool" where
  "agrees er r r0 \<longleftrightarrow>
     (case r of Inl err \<Rightarrow> err = TraceLimit \<or> r0 = Inl err | Inr a \<Rightarrow> r0 = Inr (er a))"

lemma agrees_simps [simp]:
  "agrees er (Inr a) r0 \<longleftrightarrow> r0 = Inr (er a)"
  "agrees er (Inl err) r0 \<longleftrightarrow> err = TraceLimit \<or> r0 = Inl err"
  by (simp_all add: agrees_def)

lemma agrees_bind:
  assumes "agrees er r r0" and "\<And>a. r = Inr a \<Longrightarrow> agrees er' (f a) (f0 (er a))"
  shows "agrees er' (bind_res r f) (bind_res r0 f0)"
  using assms by (cases r) (auto simp: agrees_def split: sum.splits)

lemma agrees_bind_same:
  assumes "\<And>a. r = Inr a \<Longrightarrow> agrees er' (f a) (f0 a)"
  shows "agrees er' (bind_res r f) (bind_res r f0)"
  using assms by (cases r) auto

lemma erase_fst_pair [simp]: "erase_fst (e, a) = (erase e, a)"
  by (simp add: erase_fst_def)

lemma erase_fields [simp]:
  "eng_boundary (erase e) = eng_boundary e" "eng_executions (erase e) = eng_executions e"
  "eng_next_node_instance (erase e) = eng_next_node_instance e"
  "eng_next_execution (erase e) = eng_next_execution e" "eng_decisions (erase e) = eng_decisions e"
  "eng_map_depths (erase e) = eng_map_depths e" "eng_optional_promotions (erase e) = eng_optional_promotions e"
  "eng_consumed_executions (erase e) = eng_consumed_executions e"
  "eng_void_cutoffs (erase e) = eng_void_cutoffs e" "eng_execution_mode (erase e) = eng_execution_mode e"
  "eng_trace (erase e) = None"
  by (simp_all add: erase_def)

lemma erase_updates [simp]:
  "(erase e)\<lparr>eng_boundary := b\<rparr> = erase (e\<lparr>eng_boundary := b\<rparr>)"
  "(erase e)\<lparr>eng_next_node_instance := n\<rparr> = erase (e\<lparr>eng_next_node_instance := n\<rparr>)"
  "(erase e)\<lparr>eng_next_execution := n\<rparr> = erase (e\<lparr>eng_next_execution := n\<rparr>)"
  "(erase e)\<lparr>eng_decisions := ds\<rparr> = erase (e\<lparr>eng_decisions := ds\<rparr>)"
  "(erase e)\<lparr>eng_consumed_executions := c\<rparr> = erase (e\<lparr>eng_consumed_executions := c\<rparr>)"
  "(erase e)\<lparr>eng_void_cutoffs := v\<rparr> = erase (e\<lparr>eng_void_cutoffs := v\<rparr>)"
  "erase (e\<lparr>eng_trace := tc\<rparr>) = erase e"
  "erase (erase e) = erase e"
  by (simp_all add: erase_def)

lemma retraced_erase: "retraced e e' \<Longrightarrow> erase e' = erase e"
  by (auto simp: retraced_def)

lemma map_depth_erase [simp]: "map_depth_of (erase e) n = map_depth_of e n"
  by (simp add: map_depth_of_def)

lemma control_values_erase [simp]: "control_values (erase e) sel c idx = control_values e sel c idx"
  by (simp add: control_values_def control_key_selected_def)

lemma guard_erase [simp]: "guard (erase e) g c idx = guard e g c idx"
proof -
  have "guard_holds (erase e) g c idx = guard_holds e g c idx"
    by (induction e g c idx rule: guard_holds.induct) auto
  then show ?thesis by (simp add: guard_eq_holds)
qed

lemma set_control_erase [simp]: "set_control (erase e) = set_control e"
  by (intro ext) (simp add: set_control_def)

lemma set_group_control_erase [simp]: "set_group_control (erase e) = set_group_control e"
  by (intro ext) (simp add: set_group_control_def)

lemma push_decision_erase [simp]: "push_decision d (erase e) = erase (push_decision d e)"
  by (simp add: push_decision_def)

lemma continue_erase [simp]: "continue_decision (erase e) n m = erase (continue_decision e n m)"
  by (simp add: continue_decision_def)

lemma push_void_erase [simp]: "push_void_decision (erase e) x r = erase (push_void_decision e x r)"
  by (simp add: push_void_decision_def)

lemma void_loser_erase [simp]: "void_loser sc l (erase e) = erase (void_loser sc l e)"
  by (cases l) (simp add: void_loser_def record_void_cutoff_def Let_def)

lemma fold_void_erase [simp]: "fold (void_loser sc) ls (erase e) = erase (fold (void_loser sc) ls e)"
  by (induction ls arbitrary: e) auto

lemma voids_erase [simp]:
  "void_active_descendants (erase e) n sc = erase (void_active_descendants e n sc)"
  "void_map_losers (erase e) n sc w = erase (void_map_losers e n sc w)"
  by (simp_all add: void_active_descendants_def void_map_losers_def Let_def)

lemma void_parallel_erase [simp]:
  "void_parallel_losers bs ws sc (erase e) = erase (void_parallel_losers bs ws sc e)"
proof -
  have "fold (\<lambda>(index, branch) self.
      if index \<in> set ws then self else void_active_descendants self branch sc) ibs (erase e) =
    erase (fold (\<lambda>(index, branch) self.
      if index \<in> set ws then self else void_active_descendants self branch sc) ibs e)" for ibs
    by (induction ibs arbitrary: e) auto
  then show ?thesis by (simp add: void_parallel_losers_def)
qed

section \<open>Operations of one visit\<close>

lemma resolve_visit_erase [simp]: "resolve_visit (erase e) spec c idx = resolve_visit e spec c idx"
  by (simp add: resolve_visit_def matching_executions_def)

lemma consume_visit_erase: "agrees erase (consume_visit e i xs) (consume_visit (erase e) i xs)"
  by (induction xs arbitrary: e) (simp_all add: consume_visit_def)

lemma record_boundary_erase: "agrees erase (record_boundary e spec t a) (record_boundary (erase e) spec t a)"
  by (simp add: record_boundary_def Let_def)

lemma allocate_erase:
  "agrees erase_fst (allocate_execution e) (allocate_execution (erase e))"
  "agrees erase_fst (allocate_node_instance e) (allocate_node_instance (erase e))"
  by (auto simp: allocate_execution_def allocate_node_instance_def PositiveIdentity_new_def checked_add_def)

lemma dispatch_missing_erase:
  "agrees erase_fst (dispatch_missing e spec v i t) (dispatch_missing (erase e) spec v i t)"
  unfolding dispatch_missing_def
  by (auto intro!: agrees_bind[where er = erase_fst] agrees_bind[OF record_boundary_erase] allocate_erase
      simp: erase_fst_def split: prod.splits)

lemma dispatch_retry_erase:
  "agrees erase_fst (dispatch_retry e spec t x i) (dispatch_retry (erase e) spec t x i)"
  unfolding dispatch_retry_def
  by (auto intro!: agrees_bind_same agrees_bind[OF record_boundary_erase] agrees_bind[OF allocate_erase(1)]
      simp: erase_fst_def split: prod.splits)

lemma with_context_erase:
  "agrees erase_fst r r0 \<Longrightarrow> agrees erase_fst (with_context c r) (with_context c r0)"
  unfolding with_context_def by (rule agrees_bind) (auto simp: erase_fst_def split: prod.splits)

lemma apply_outcome_erase [simp]: "apply_outcome (erase e) = apply_outcome e"
  unfolding apply_outcome_def[abs_def] set_control_erase ..

lemma promote_writes_erase: "agrees erase (promote_writes e spec c t) (promote_writes (erase e) spec c t)"
  by (auto simp: promote_writes_def intro!: agrees_bind_same)

lemma finish_existing_erase:
  "agrees erase_fst (finish_existing_execution e spec c t x i) (finish_existing_execution (erase e) spec c t x i)"
proof -
  have "agrees erase (if w then promote_writes e spec c' t else Inr e)
      (if w then promote_writes (erase e) spec c' t else Inr (erase e))" for w c'
    by (simp add: promote_writes_erase)
  then show ?thesis
    unfolding finish_existing_execution_def retryable_crash_def
    by (auto intro!: with_context_erase dispatch_retry_erase agrees_bind_same
        agrees_bind[where er = erase] simp: erase_fst_def split: durable_execution_state.splits prod.splits)
qed

lemma eval_executable_erase:
  "agrees erase_fst (eval_executable e spec c t) (eval_executable (erase e) spec c t)"
  unfolding eval_executable_def
  by (auto intro!: agrees_bind_same agrees_bind[OF consume_visit_erase] with_context_erase
      dispatch_missing_erase finish_existing_erase
      simp: erase_fst_def Let_def split: visit_resolution.splits option.splits)

section \<open>Group operations\<close>

definition mirrors :: "evaluator \<Rightarrow> graph_node \<Rightarrow> bool" where
  "mirrors ev c \<longleftrightarrow> (\<forall>e x t. agrees erase_fst (ev c e x t) (ev c (erase e) x t))"

lemma mirrorsD: "mirrors ev c \<Longrightarrow> agrees erase_fst (ev c e x t) (ev c (erase e) x t)"
  by (simp add: mirrors_def)

lemma promote_group_erase:
  "agrees erase_fst (promote_group e n ps t l p) (promote_group (erase e) n ps t l p)"
  unfolding promote_group_def by (auto intro!: agrees_bind_same simp: erase_fst_def split: prod.splits)

lemma group_tail_erase:
  "agrees erase_fst
     (bind_res (promote_group e n ps t l p) (\<lambda>(self, context).
        Inr (continue_decision self n (tr_mode t), f context, Continue q)))
     (bind_res (promote_group (erase e) n ps t l p) (\<lambda>(self, context).
        Inr (continue_decision self n (tr_mode t), f context, Continue q)))"
  by (rule agrees_bind[OF promote_group_erase]) (auto simp: erase_fst_def split: prod.splits)

lemma children_erase:
  "(\<And>c. c \<in> set cs \<Longrightarrow> mirrors ev c) \<Longrightarrow>
   agrees erase_fst (eval_children ev t cs e l p) (eval_children ev t cs (erase e) l p)"
proof (induction cs arbitrary: e l p)
  case (Cons c cs)
  have "mirrors ev c" using Cons.prems by simp
  then show ?case
    using Cons by (auto intro!: agrees_bind[OF mirrorsD] simp: erase_fst_def split: status.splits prod.splits)
qed simp

lemma sequence_erase:
  assumes "\<And>c. c \<in> set cs \<Longrightarrow> mirrors ev c"
  shows "agrees erase_fst (eval_sequence ev n cs ps e x t) (eval_sequence ev n cs ps (erase e) x t)"
  unfolding eval_sequence_def
  by (rule agrees_bind[OF children_erase[OF assms]])
    (auto simp: erase_fst_def split: status.splits prod.splits
      intro!: group_tail_erase[where f = "\<lambda>c. c", simplified erase_fst_def])

lemma rounds_erase:
  assumes "mirrors ev body"
  shows "agrees erase_fst (loop_rounds ev body u names t n i e l p) (loop_rounds ev body u names t n i (erase e) l p)"
proof (induction n arbitrary: i e l p)
  case (Suc n)
  then show ?case
    by (auto intro!: agrees_bind[OF mirrorsD[OF assms]] agrees_bind_same
        simp: erase_fst_def Let_def split: status.splits prod.splits option.splits)
qed simp

lemma loop_erase:
  assumes "mirrors ev body"
  shows "agrees erase_fst (eval_loop ev n body u m ps e x t) (eval_loop ev n body u m ps (erase e) x t)"
  unfolding eval_loop_def
  by (rule agrees_bind[OF rounds_erase[OF assms]])
    (auto simp: erase_fst_def finish_loop_def Let_def split: loop_exit.splits prod.splits
      intro!: group_tail_erase[where f = "\<lambda>c. c", simplified erase_fst_def])

lemma choice_selected_erase [simp]: "choice_selected (erase e) c t bs ot = choice_selected e c t bs ot"
  by (simp add: choice_selected_def)

lemma choice_erase:
  assumes "\<And>c. choice_selected e (clear_writes x) t bs ot = Some c \<Longrightarrow> mirrors ev c"
  shows "agrees erase_fst (eval_choice ev n bs ot ps e x t) (eval_choice ev n bs ot ps (erase e) x t)"
proof (cases "choice_selected e (clear_writes x) t bs ot")
  case None
  then show ?thesis by (simp add: eval_choice_def Let_def)
next
  case (Some c)
  have b: "trace_branch (erase e) n b = erase (trace_branch e n b)" for b
    using retraced_erase[OF trace_branch_engine[of e n b]] by (simp add: trace_branch_def)
  from Some show ?thesis
    unfolding eval_choice_def Let_def
    by (auto intro!: agrees_bind[OF mirrorsD[OF assms[OF Some]]] group_tail_erase[simplified erase_fst_def]
        simp: b erase_fst_def split: status.splits prod.splits)
qed

lemma probes_erase:
  "(\<And>c. c \<in> set bs \<Longrightarrow> mirrors ev c) \<Longrightarrow>
   agrees erase_fst (probe_parallel ev x t bs e) (probe_parallel ev x t bs (erase e))"
proof (induction bs arbitrary: e)
  case (Cons b bs)
  have "mirrors ev b" using Cons.prems by simp
  moreover have "agrees erase_fst (probe_parallel ev x t bs e1) (probe_parallel ev x t bs (erase e1))" for e1
    using Cons by simp
  ultimately show ?case
    by (auto intro!: agrees_bind[OF mirrorsD] agrees_bind[where r = "probe_parallel _ _ _ _ _" and er = erase_fst]
        simp: erase_fst_def split: prod.splits)
qed simp

lemma completions_erase [simp]: "parallel_completions (erase e) j probes t = parallel_completions e j probes t"
proof -
  have "complete_branch (erase e) j t = complete_branch e j t"
    unfolding complete_branch_def guard_erase ..
  then show ?thesis by (simp add: parallel_completions_def)
qed

lemma decide_erase:
  "(\<And>c. c \<in> set bs \<Longrightarrow> mirrors ev c) \<Longrightarrow>
   agrees erase (decide_branches ev x t bs e) (decide_branches ev x t bs (erase e))"
proof (induction bs arbitrary: e)
  case (Cons b bs)
  have b: "mirrors ev b" using Cons.prems by simp
  have "agrees erase (bind_res (ev b e x t) (\<lambda>(self, _, _). Inr self))
      (bind_res (ev b (erase e) x t) (\<lambda>(self, _, _). Inr self))"
    by (rule agrees_bind[OF mirrorsD[OF b]]) (auto simp: erase_fst_def split: prod.splits)
  then show ?case
    unfolding decide_branches_def try_foldl.simps
    by (rule agrees_bind) (use Cons in \<open>auto simp: decide_branches_def\<close>)
qed (simp add: decide_branches_def)

lemma record_parallel_control_erase [simp]: "record_parallel_control (erase e) = record_parallel_control e"
  by (intro ext) (simp add: record_parallel_control_def)

lemma unreached_erase:
  assumes "\<And>c. c \<in> set bs \<Longrightarrow> mirrors ev c"
  shows "agrees erase_fst (unreached_parallel_join ev n bs j e x t probes k needed)
     (unreached_parallel_join ev n bs j (erase e) x t probes k needed)"
proof -
  have "agrees erase (if d then decide_branches ev x t bs e else Inr e)
      (if d then decide_branches ev x t bs (erase e) else Inr (erase e))" for d
    using decide_erase[OF assms] by simp
  then have "agrees erase_fst
      (bind_res (if d then decide_branches ev x t bs e else Inr e) (\<lambda>self. Inr (self, x, Some Pending)))
      (bind_res (if d then decide_branches ev x t bs (erase e) else Inr (erase e))
        (\<lambda>self. Inr (self, x, Some Pending)))" for d
    by (rule agrees_bind) simp
  then show ?thesis unfolding unreached_parallel_join_def by (simp only: Let_def if_split agrees_simps
      record_parallel_control_erase continue_erase erase_fst_pair) simp
qed

lemma winner_erase:
  assumes "\<And>c. c \<in> set bs \<Longrightarrow> mirrors ev c"
  shows "agrees erase_fst (join_winner ev bs ps x t p (e, jd) w) (join_winner ev bs ps x t p (erase e, jd) w)"
proof (cases w)
  case (Pair i q)
  show ?thesis
  proof (cases "i < length bs")
    case True
    then have "mirrors ev (bs ! i)" using assms by simp
    with True Pair show ?thesis
      by (auto simp: join_winner_def Let_def erase_fst_def split: prod.splits status.splits
          intro!: agrees_bind[OF mirrorsD] agrees_bind_same)
  qed (simp add: Pair join_winner_def)
qed

lemma winners_fold_erase:
  assumes "\<And>c. c \<in> set bs \<Longrightarrow> mirrors ev c"
  shows "agrees erase_fst (try_foldl (join_winner ev bs ps x t p) s ws)
     (try_foldl (join_winner ev bs ps x t p) (erase_fst s) ws)"
proof (induction ws arbitrary: s)
  case (Cons w ws)
  obtain e jd where s: "s = (e, jd)" by (cases s)
  show ?case
    unfolding try_foldl.simps s erase_fst_pair
    by (rule agrees_bind[where er = erase_fst]) (use winner_erase[OF assms] Cons.IH in auto)
qed simp

lemma join_winners_erase:
  assumes "\<And>c. c \<in> set bs \<Longrightarrow> mirrors ev c"
  shows "agrees erase_fst (join_parallel_winners ev bs ps e x t ws) (join_parallel_winners ev bs ps (erase e) x t ws)"
  unfolding join_parallel_winners_def Let_def
  by (rule agrees_bind[where er = erase_fst])
    (use winners_fold_erase[OF assms, where s = "(e, clear_writes x)"] in
      \<open>auto simp: erase_fst_def split: prod.splits\<close>)

lemma emit_promotion_erase:
  "agrees erase (emit_parallel_promotion e n ps jd t) (emit_parallel_promotion (erase e) n ps jd t)"
  unfolding emit_parallel_promotion_def by (auto intro!: agrees_bind_same)

lemma finish_parallel_erase:
  "agrees erase_fst (finish_parallel_join n bs ps j e x t k needed jd p w)
     (finish_parallel_join n bs ps j (erase e) x t k needed jd p w)"
  unfolding finish_parallel_join_def
  by (rule agrees_bind[OF emit_promotion_erase]) (simp add: Let_def)

lemma take_trace_erase [simp]: "take_trace_since (erase e) k = (erase e, [])"
  by (simp add: take_trace_since_def)

lemma restore_trace_erase:
  "agrees erase (restore_trace e tr) (restore_trace (erase e) tr')"
  by (auto simp: restore_trace_def split: option.splits)

lemma parallel_erase:
  assumes "\<And>c. c \<in> set bs \<Longrightarrow> mirrors ev c"
  shows "agrees erase_fst (eval_parallel ev n bs ps j e x t) (eval_parallel ev n bs ps j (erase e) x t)"
  unfolding eval_parallel_def Let_def
proof (rule agrees_bind[OF probes_erase[OF assms]])
  fix a assume "probe_parallel ev x t bs e = Inr a"
  obtain e1 probes where a: "a = (e1, probes)" by (cases a)
  obtain e2 tr where tk: "take_trace_since e1 (trace_checkpoint e) = (e2, tr)"
    by (cases "take_trace_since e1 (trace_checkpoint e)")
  have e2: "erase e1 = erase e2" using retraced_erase[OF take_trace_engine[OF tk]] by simp
  show "agrees erase_fst
      (case a of (self, probes) \<Rightarrow> case take_trace_since self (trace_checkpoint e) of (self, probe_trace) \<Rightarrow>
        bind_res (parallel_completions self j probes t) (\<lambda>(completed, needed).
          bind_res (unreached_parallel_join ev n bs j self x t probes
             (length (sort_key (\<lambda>(index, position). (position, index)) completed)) needed)
           (\<lambda>(self, context, unreached). case unreached of
               None \<Rightarrow> bind_res (join_parallel_winners ev bs ps self context t
                   (take needed (sort_key (\<lambda>(index, position). (position, index)) completed)))
                 (\<lambda>(self, joined, position, winners).
                   finish_parallel_join n bs ps j self context t (length probes) needed joined position winners)
             | Some status \<Rightarrow> bind_res (if status \<noteq> Pending then restore_trace self probe_trace else Inr self)
                     (\<lambda>self. Inr (self, context, status)))))
      (case erase_fst a of (self, probes) \<Rightarrow> case take_trace_since self (trace_checkpoint (erase e)) of (self, probe_trace) \<Rightarrow>
        bind_res (parallel_completions self j probes t) (\<lambda>(completed, needed).
          bind_res (unreached_parallel_join ev n bs j self x t probes
             (length (sort_key (\<lambda>(index, position). (position, index)) completed)) needed)
           (\<lambda>(self, context, unreached). case unreached of
               None \<Rightarrow> bind_res (join_parallel_winners ev bs ps self context t
                   (take needed (sort_key (\<lambda>(index, position). (position, index)) completed)))
                 (\<lambda>(self, joined, position, winners).
                   finish_parallel_join n bs ps j self context t (length probes) needed joined position winners)
             | Some status \<Rightarrow> bind_res (if status \<noteq> Pending then restore_trace self probe_trace else Inr self)
                     (\<lambda>self. Inr (self, context, status)))))"
    unfolding a erase_fst_pair prod.case tk take_trace_erase e2 completions_erase
    by (rule agrees_bind_same)
      (auto split: prod.splits option.splits simp: erase_fst_def
        intro!: agrees_bind[OF unreached_erase[OF assms]] agrees_bind[OF join_winners_erase[OF assms]]
          finish_parallel_erase[simplified erase_fst_def] agrees_bind[OF restore_trace_erase])
qed

lemma items_erase:
  assumes "mirrors ev body"
  shows "agrees erase_fst (evaluate_map_items ev body x t mode items e)
     (evaluate_map_items ev body x t mode items (erase e))"
proof (induction items arbitrary: e)
  case (Cons ii items)
  obtain i item where ii: "ii = (i, item)" by (cases ii)
  show ?case
    unfolding ii evaluate_map_items.simps Let_def
    by (rule agrees_bind[OF mirrorsD[OF assms]])
      (auto simp: erase_fst_def split: prod.splits
        intro!: agrees_bind[OF Cons.IH, simplified erase_fst_def])
qed simp

lemma finish_terminal_erase:
  assumes "mirrors ev body"
  shows "agrees erase_fst (finish_terminal_map_item ev body e x t items probes i tm)
     (finish_terminal_map_item ev body (erase e) x t items probes i tm)"
proof -
  have "agrees erase_fst
     (if tr_mode t = Decide
      then if i \<ge> length items then Inl InconsistentHistory
           else bind_res (ev body e x t') (\<lambda>(self, _, status). Inr (self, status))
      else Inr (e, tm))
     (if tr_mode t = Decide
      then if i \<ge> length items then Inl InconsistentHistory
           else bind_res (ev body (erase e) x t') (\<lambda>(self, _, status). Inr (self, status))
      else Inr (erase e, tm))" for t'
    by (auto intro!: agrees_bind[OF mirrorsD[OF assms]] simp: erase_fst_def split: prod.splits)
  then have "agrees erase_fst
     (bind_res (if tr_mode t = Decide
        then if i \<ge> length items then Inl InconsistentHistory
             else bind_res (ev body e x t') (\<lambda>(self, _, status). Inr (self, status))
        else Inr (e, tm)) (\<lambda>(self, terminal). Inr (void_map_losers self body (sc terminal) w, terminal)))
     (bind_res (if tr_mode t = Decide
        then if i \<ge> length items then Inl InconsistentHistory
             else bind_res (ev body (erase e) x t') (\<lambda>(self, _, status). Inr (self, status))
        else Inr (erase e, tm)) (\<lambda>(self, terminal). Inr (void_map_losers self body (sc terminal) w, terminal)))"
    for t' sc w
    by (rule agrees_bind) (auto simp: erase_fst_def split: prod.splits)
  then show ?thesis
    unfolding finish_terminal_map_item_def Let_def by (cases "i < length probes") simp_all
qed

lemma finish_map_erase:
  "agrees erase_fst (finish_map n body ps e x t rs) (finish_map n body ps (erase e) x t rs)"
  unfolding finish_map_def Let_def
  by (rule agrees_bind_same)
    (auto split: prod.splits intro!: agrees_bind[OF promote_group_erase] simp: erase_fst_def)

lemma map_erase:
  assumes "mirrors ev body"
  shows "agrees erase_fst (eval_map ev n body over m ps e x t) (eval_map ev n body over m ps (erase e) x t)"
proof -
  have tail: "agrees erase_fst
     (case earliest_terminal probes of
        Some (index, terminal) \<Rightarrow>
          bind_res (if tr_mode t = Probe then restore_trace e2 (f index) else Inr e2) (\<lambda>self.
            with_context x (finish_terminal_map_item ev body self x t items probes index terminal))
      | None \<Rightarrow>
          bind_res (if tr_mode t = Probe
                    then bind_res (restore_trace e2 tr) (\<lambda>self. Inr (self, probes))
                    else evaluate_map_items ev body x t (tr_mode t) (enumerate 0 items) e2)
            (\<lambda>(self, results).
               if list_ex (\<lambda>result. mi_status result = Pending) results then Inr (self, x, Pending)
               else finish_map n body ps self x t results))
     (case earliest_terminal probes of
        Some (index, terminal) \<Rightarrow>
          bind_res (if tr_mode t = Probe then restore_trace (erase e2) (f0 index) else Inr (erase e2)) (\<lambda>self.
            with_context x (finish_terminal_map_item ev body self x t items probes index terminal))
      | None \<Rightarrow>
          bind_res (if tr_mode t = Probe
                    then bind_res (restore_trace (erase e2) tr0) (\<lambda>self. Inr (self, probes))
                    else evaluate_map_items ev body x t (tr_mode t) (enumerate 0 items) (erase e2))
            (\<lambda>(self, results).
               if list_ex (\<lambda>result. mi_status result = Pending) results then Inr (self, x, Pending)
               else finish_map n body ps self x t results))" for probes e2 items tr tr0 f f0
  proof (cases "earliest_terminal probes")
    case None
    have "agrees erase_fst
       (if tr_mode t = Probe then bind_res (restore_trace e2 tr) (\<lambda>self. Inr (self, probes))
        else evaluate_map_items ev body x t (tr_mode t) (enumerate 0 items) e2)
       (if tr_mode t = Probe then bind_res (restore_trace (erase e2) tr0) (\<lambda>self. Inr (self, probes))
        else evaluate_map_items ev body x t (tr_mode t) (enumerate 0 items) (erase e2))"
      using items_erase[OF assms] by (auto intro!: agrees_bind[OF restore_trace_erase] simp: erase_fst_def)
    then show ?thesis
      unfolding None option.case
      by (rule agrees_bind) (auto simp: erase_fst_def finish_map_erase[simplified erase_fst_def] split: prod.splits)
  next
    case (Some it)
    obtain i tm where it: "it = (i, tm)" by (cases it)
    have "agrees erase (if tr_mode t = Probe then restore_trace e2 (f i) else Inr e2)
        (if tr_mode t = Probe then restore_trace (erase e2) (f0 i) else Inr (erase e2))"
      using restore_trace_erase by simp
    then show ?thesis
      unfolding Some it option.case prod.case
      by (rule agrees_bind) (rule with_context_erase[OF finish_terminal_erase[OF assms]])
  qed
  have after: "agrees erase_fst
     (let checkpoint = trace_checkpoint e in
      bind_res (evaluate_map_items ev body x t Probe (enumerate 0 items) e) (\<lambda>(self, probes).
        let (self, probe_trace) = take_trace_since self checkpoint in
        case earliest_terminal probes of
        Some (index, terminal) \<Rightarrow>
          bind_res (if tr_mode t = Probe
                    then restore_trace self (filter (\<lambda>r. prefix (mi_scope (probes ! index)) (sx_map_indices r)) probe_trace)
                    else Inr self) (\<lambda>self.
            with_context x (finish_terminal_map_item ev body self x t items probes index terminal))
      | None \<Rightarrow>
          bind_res (if tr_mode t = Probe
                    then bind_res (restore_trace self probe_trace) (\<lambda>self. Inr (self, probes))
                    else evaluate_map_items ev body x t (tr_mode t) (enumerate 0 items) self)
            (\<lambda>(self, results).
               if list_ex (\<lambda>result. mi_status result = Pending) results then Inr (self, x, Pending)
               else finish_map n body ps self x t results)))
     (let checkpoint = trace_checkpoint (erase e) in
      bind_res (evaluate_map_items ev body x t Probe (enumerate 0 items) (erase e)) (\<lambda>(self, probes).
        let (self, probe_trace) = take_trace_since self checkpoint in
        case earliest_terminal probes of
        Some (index, terminal) \<Rightarrow>
          bind_res (if tr_mode t = Probe
                    then restore_trace self (filter (\<lambda>r. prefix (mi_scope (probes ! index)) (sx_map_indices r)) probe_trace)
                    else Inr self) (\<lambda>self.
            with_context x (finish_terminal_map_item ev body self x t items probes index terminal))
      | None \<Rightarrow>
          bind_res (if tr_mode t = Probe
                    then bind_res (restore_trace self probe_trace) (\<lambda>self. Inr (self, probes))
                    else evaluate_map_items ev body x t (tr_mode t) (enumerate 0 items) self)
            (\<lambda>(self, results).
               if list_ex (\<lambda>result. mi_status result = Pending) results then Inr (self, x, Pending)
               else finish_map n body ps self x t results)))" for items
    unfolding Let_def
  proof (rule agrees_bind[OF items_erase[OF assms]], goal_cases)
    case (1 a)
    obtain e1 probes where a: "a = (e1, probes)" by (cases a)
    obtain e2 tr where tk: "take_trace_since e1 (trace_checkpoint e) = (e2, tr)"
      by (cases "take_trace_since e1 (trace_checkpoint e)")
    have e2: "erase e1 = erase e2" using retraced_erase[OF take_trace_engine[OF tk]] by simp
    show ?case
      unfolding a erase_fst_pair prod.case tk take_trace_erase e2 by (rule tail)
  qed
  show ?thesis
    unfolding eval_map_def
    by (intro agrees_bind_same) (use after in \<open>simp add: map_overflow_def Let_def\<close>)
qed

lemma dispatch_erase:
  assumes "\<And>c. c \<in> set (child_nodes n) \<Longrightarrow> mirrors ev c"
  shows "agrees erase_fst (eval_dispatch ev e n x t) (eval_dispatch ev (erase e) n x t)"
proof (cases n)
  case (ChoiceNode name st bs ot ps)
  then show ?thesis
    using assms choice_erase[of e x t bs ot ev name ps] choice_selected_child
    by (auto simp: eval_dispatch_def is_executable_def is_terminal_node_def eval_group_node_def)
qed (use assms in \<open>auto simp: eval_dispatch_def is_executable_def is_terminal_node_def eval_group_node_def
    eval_worker_node_def eval_terminal_node_def eval_executable_erase sequence_erase parallel_erase
    loop_erase map_erase intro!: agrees_bind_same\<close>)

lemma trace_finish_erase [simp]: "trace_finish (erase e) None s c = erase e"
  by (simp add: trace_finish_def)

lemma eval_mirrors: "mirrors (eval jl) n"
proof (induction n rule: graph_induct)
  case (node n)
  show ?case
    unfolding mirrors_def
  proof (intro allI)
    fix e x t
    let ?t = "enter_boundary n t"
    have e0: "eval jl n (erase e) x t =
        bind_res (eval_dispatch (eval jl) (erase e) n x ?t) (\<lambda>(self, context, status). Inr (self, context, status))"
    proof -
      have "trace_terminal jl (trace_finish e1 None s c) None s = Inr (trace_finish e1 None s c)" for e1 s c
        by (auto simp: trace_terminal_def split: option.splits)
      moreover have "trace_finish e1 None s c = e1" for e1 s c
        by (auto simp: trace_finish_def split: option.splits)
      ultimately show ?thesis
        by (subst eval.simps) (simp add: eval_step_def Let_def trace_enter_def case_prod_unfold cong: if_cong)
    qed
    show "agrees erase_fst (eval jl n e x t) (eval jl n (erase e) x t)"
    proof (cases "trace_enter e n ?t")
      case (Inl err)
      have "err = TraceLimit"
        using Inl by (auto simp: trace_enter_def collector_enter_def Let_def split: option.splits if_splits)
      then show ?thesis by (subst eval.simps) (simp add: eval_step_def Let_def Inl)
    next
      case (Inr a)
      obtain e1 i where a: "a = (e1, i)" by (cases a)
      have e1: "erase e = erase e1" using retraced_erase[OF trace_enter_engine[OF Inr[unfolded a]]] by simp
      have fin: "agrees erase_fst
          (bind_res (if is_terminal_node n then trace_terminal jl (trace_finish e2 i s c) i s
                     else Inr (trace_finish e2 i s c)) (\<lambda>self. Inr (self, c, s)))
          (Inr (erase e2, c, s))" for e2 c s
      proof (cases "if is_terminal_node n then trace_terminal jl (trace_finish e2 i s c) i s
                     else Inr (trace_finish e2 i s c)")
        case (Inl err)
        then have "err = TraceLimit"
          by (auto simp: trace_terminal_def Let_def split: if_splits option.splits status.splits terminal_result.splits)
        then show ?thesis using Inl by simp
      next
        case (Inr e3)
        then have "retraced (trace_finish e2 i s c) e3"
          using trace_terminal_engine by (auto split: if_splits)
        then have "erase e3 = erase e2"
          using retraced_erase retraced_trans[OF trace_finish_engine] by blast
        then show ?thesis using Inr by simp
      qed
      show ?thesis
        unfolding e1 e0[unfolded e1]
        by (subst eval.simps, simp only: eval_step_def Let_def Inr a bind_res_Inr prod.case)
          (rule agrees_bind[OF dispatch_erase[OF node.IH]], use fin in \<open>auto split: prod.splits\<close>)
    qed
  qed
qed

text \<open>The observed reduction and the plain one.\<close>

lemma evaluate_erase:
  "case evaluate jl root mode input True of
     Inr tx \<Rightarrow> reduce jl root mode input = Inr (tx_reduction tx)
   | Inl err \<Rightarrow> err = TraceLimit \<or> reduce jl root mode input = Inl err"
proof (cases "Engine_new input root mode")
  case (Inl err)
  then show ?thesis by (simp add: evaluate_def reduce_def)
next
  case (Inr e)
  let ?e = "e\<lparr>eng_trace := Some trace_default\<rparr>"
  have e: "e\<lparr>eng_trace := None\<rparr> = erase ?e" by (simp add: erase_def)
  have run: "agrees erase_fst (eval jl root ?e x root_traversal) (eval jl root (e\<lparr>eng_trace := None\<rparr>) x root_traversal)"
    for x unfolding e using eval_mirrors mirrorsD by blast
  show ?thesis
  proof (cases "eval jl root ?e (Context_new (initial_state root input)) root_traversal")
    case (Inl err)
    then show ?thesis
      using run[of "Context_new (initial_state root input)"] Inr by (auto simp: evaluate_def reduce_def)
  next
    case inr: (Inr r)
    obtain e1 c s where r: "r = (e1, c, s)" by (cases r)
    have r0: "eval jl root (e\<lparr>eng_trace := None\<rparr>) (Context_new (initial_state root input)) root_traversal
        = Inr (erase e1, c, s)"
      using run[of "Context_new (initial_state root input)"] inr r by simp
    have "ensure_history_consumed (erase e1) = ensure_history_consumed e1"
    proof -
      have "execution_accounted (erase e1) = execution_accounted e1"
        unfolding execution_accounted_def erase_fields ..
      then show ?thesis by (simp add: ensure_history_consumed_def)
    qed
    then show ?thesis
      using Inr inr r r0
      by (auto simp: evaluate_def reduce_def Let_def canonicalize_void_decisions_def push_decision_def
          bind_res_def split: option.splits sum.splits)
  qed
qed

end
