(* ===== verification/Reducer_Properties.thy ===== *)
theory Reducer_Properties
  imports Reducer_Dispatch Reducer_Trace
begin

text \<open>
  The properties of a whole reduction (\<^verbatim>\<open>reduce\<close> and \<^verbatim>\<open>reduce_with_trace\<close> of
  \<^verbatim>\<open>full_v1_reducer.rs\<close>), drawn from the interpretations of \<open>engine_relation\<close>, with a race of two
  workers as the running example.
\<close>

section \<open>Anatomy of a reduction\<close>

lemma Engine_new_ok:
  assumes "Engine_new input root mode = Inr e"
  shows "eng_decisions e = []" and "eng_executions e = ri_executions input"
    and "eng_next_execution e = ri_next_execution input"
    and "eng_next_node_instance e = ri_next_node_instance input"
    and "eng_boundary e = None" and "eng_trace e = None" and "eng_execution_mode e = mode"
    and "history_valid mode (ri_executions input)"
    and "\<forall>x \<in> set (ri_executions input). \<not> execution_out_of_graph input (collect_executable_depths root 0 []) x"
  using assms by (auto simp: Engine_new_def res_simps list_ex_iff validate_history_iff split: if_splits)

lemma reduce_cases:
  assumes "reduce jl root mode input = Inr r"
  obtains e0 e c s where "Engine_new input root mode = Inr e0"
    "eval jl root e0 (Context_new (initial_state root input)) root_traversal = Inr (e, c, s)"
    "ensure_history_consumed e = Inr ()"
    "rd_boundary r = eng_boundary e" "rd_terminal r = terminal_of s"
    "rd_decisions r = canonical_voids (ri_executions input) (eng_decisions e)
       @ (case terminal_of s of None \<Rightarrow> [] | Some p \<Rightarrow> [TerminalDecision p])"
proof -
  from assms obtain e0 e c s where new: "Engine_new input root mode = Inr e0"
    and ev: "eval jl root (e0\<lparr>eng_trace := None\<rparr>) (Context_new (initial_state root input)) root_traversal = Inr (e, c, s)"
    and con: "ensure_history_consumed e = Inr ()"
    and r: "rd_boundary r = eng_boundary e" "rd_terminal r = terminal_of s"
      "rd_decisions r = canonical_voids (eng_executions e) (eng_decisions e)
       @ (case terminal_of s of None \<Rightarrow> [] | Some p \<Rightarrow> [TerminalDecision p])"
    by (auto simp: reduce_def evaluate_def Let_def canonicalize_void_decisions_def push_decision_def
        elim!: bind_resE split: option.splits)
  have "e0\<lparr>eng_trace := None\<rparr> = e0" using Engine_new_ok(6)[OF new] by simp
  moreover from this have "eng_executions e = ri_executions input"
    using eval_executions[OF ev] Engine_new_ok(2)[OF new] by simp
  ultimately show ?thesis using that new ev con r by simp
qed

lemma dispatches_non_void: "dispatches ds = dispatches (filter (\<lambda>d. \<not> is_void d) ds)"
  by (induction ds) (auto simp: is_void_def split: decision.splits)

lemma dispatches_canonical [simp]: "dispatches (canonical_voids es ds) = dispatches ds"
  using dispatches_non_void[of ds] dispatches_non_void[of "canonical_voids es ds"]
  by (simp add: canonical_voids_laws(1))

lemma dispatches_terminal [simp]:
  "dispatches (case x of None \<Rightarrow> [] | Some p \<Rightarrow> [TerminalDecision p]) = []"
  by (simp split: option.splits)

lemma void_ids_terminal [simp]:
  "void_ids (case x of None \<Rightarrow> [] | Some p \<Rightarrow> [TerminalDecision p]) = []"
  by (simp split: option.splits)

lemma reduce_emits:
  assumes "reduce jl root mode input = Inr r"
  obtains e0 e c s where "Engine_new input root mode = Inr e0"
    "eval jl root e0 (Context_new (initial_state root input)) root_traversal = Inr (e, c, s)"
    "emits_new root_traversal e0 e (eng_decisions e)"
    "dispatches (rd_decisions r) = dispatches (eng_decisions e)"
    "rd_boundary r = eng_boundary e" "rd_terminal r = terminal_of s"
proof -
  from assms obtain e0 e c s where new: "Engine_new input root mode = Inr e0"
    and ev: "eval jl root e0 (Context_new (initial_state root input)) root_traversal = Inr (e, c, s)"
    and r: "rd_boundary r = eng_boundary e" "rd_terminal r = terminal_of s"
      "rd_decisions r = canonical_voids (ri_executions input) (eng_decisions e)
       @ (case terminal_of s of None \<Rightarrow> [] | Some p \<Rightarrow> [TerminalDecision p])"
    by (rule reduce_cases)
  obtain ds where ds: "emits_new root_traversal e0 e ds" using eval_emits[OF ev] by (auto simp: emits_def)
  then have "eng_decisions e = ds" using emits_newD(1)[OF ds] Engine_new_ok(1)[OF new] by simp
  with that new ev r ds show ?thesis by simp
qed

lemma emits_new_ids:
  assumes "emits_new t e e' ds"
  shows "map dp_execution (dispatches ds) = [eng_next_execution e ..< eng_next_execution e']"
    and "eng_next_execution e \<le> eng_next_execution e'"
  using assms unfolding emits_new_def by blast+

lemma eval_emits_all:
  assumes "Engine_new input root mode = Inr e0" and "eval jl root e0 x root_traversal = Inr (e, c, s)"
  shows "emits_new root_traversal e0 e (eng_decisions e)"
proof -
  obtain ds where ds: "emits_new root_traversal e0 e ds"
    using eval_emits[OF assms(2)] by (auto simp: emits_def)
  then show ?thesis using emits_newD(1)[OF ds] Engine_new_ok(1)[OF assms(1)] by simp
qed

lemma reduce_origin:
  assumes "Engine_new input root mode = Inr e0" and "eval jl root e0 x root_traversal = Inr (e, c, s)"
    and "d \<in> set (dispatches (eng_decisions e))"
  shows "dispatch_origin root root_traversal e0 d"
  using origin.eval_R[OF all_nodes_self assms(2)] assms(3) Engine_new_ok(1)[OF assms(1)]
  by (auto simp: originates_def)

section \<open>Concrete runs\<close>

text \<open>A race of two workers followed by success, before and after the first settlement.\<close>

definition demo_step :: "node_name \<Rightarrow> graph_node" where
  "demo_step n = StepNode
     \<lparr>st_name = n, st_worker = ''worker@1'', st_instructions = None, st_input = PNull,
      st_output = PRecord [], st_input_bindings = [], st_write_bindings = [], st_timeout_ms = None,
      st_attempts = 2\<rparr>"

definition demo_race :: graph_node where
  "demo_race = SeqNode ''root'' (PRecord [])
     [ParNode ''race'' (PRecord []) [demo_step ''a'', demo_step ''b''] [] JAny,
      SucceedNode \<lparr>su_name = ''ok'', su_output = PNull, su_bindings = []\<rparr>] []"

definition demo_execution ::
    "history_position \<Rightarrow> u64 \<Rightarrow> node_name \<Rightarrow> durable_execution_state \<Rightarrow> durable_execution" where
  "demo_execution position i n state =
     \<lparr>de_dispatch_position = position, de_node_instance = i, de_execution = i,
      de_occurrence = StructuralOccurrence n [], de_attempt = 1, de_input = VNull, de_state = state\<rparr>"

definition demo_input :: "durable_execution list \<Rightarrow> reduction_input" where
  "demo_input es =
     \<lparr>ri_initial_input = VObject [], ri_executions = es,
      ri_next_node_instance = length es + 1, ri_next_execution = length es + 1\<rparr>"

definition demo_settled :: "durable_execution list" where
  "demo_settled =
     [demo_execution 1 1 ''a'' ExecActive,
      demo_execution 2 2 ''b'' (ExecSettled 3 (Verified VNull []))]"

definition demo_race_started :: reduction where
  "demo_race_started =
     \<lparr>rd_boundary = Some \<lparr>eb_node = ''race'', eb_map_indices = [], eb_loop_iterations = [],
                          eb_attempt = 0\<rparr>,
      rd_decisions =
        [Dispatch 1 1 (StructuralOccurrence ''a'' []) 1 0 ''worker@1'' VNull,
         Dispatch 2 2 (StructuralOccurrence ''b'' []) 1 0 ''worker@1'' VNull],
      rd_terminal = None\<rparr>"

definition demo_race_finished :: reduction where
  "demo_race_finished =
     \<lparr>rd_boundary = None,
      rd_decisions =
        [ContinueDecision ''b'', VoidLoser 1 ParallelJoin, ContinueDecision ''race'',
         TerminalDecision (Succeeded VNull)],
      rd_terminal = Some (Succeeded VNull)\<rparr>"

lemma demo_race_start: "reduce (\<lambda>_. 1) demo_race NativeV2 (demo_input []) = Inr demo_race_started"
  by (simp add: exec_simps demo_race_def demo_step_def demo_input_def demo_race_started_def)

lemma demo_race_finish: "reduce (\<lambda>_. 1) demo_race NativeV2 (demo_input demo_settled) = Inr demo_race_finished"
  by (simp add: exec_simps demo_race_def demo_step_def demo_input_def demo_race_finished_def
      demo_settled_def demo_execution_def HistoryPosition_MAX_def i64_max_def apply_writes_def
      clear_scoped_runtime_facts_def merge_scoped_runtime_facts_def bm_extend_def bm_retain_def
      promoted_write_paths_def promotion_candidates_def promoted_value_def bs_extend_def bs_of_list_def)

section \<open>Properties of reductions\<close>

text \<open>Which histories the reducer reads at all: those that are consistent under its mode and that
  belong to the graph and to the identity counters it is given.\<close>

lemma reduce_accepts:
  assumes "reduce jl root mode input = Inr r"
  shows "history_valid mode (ri_executions input)"
    and "x \<in> set (ri_executions input) \<Longrightarrow> de_execution x < ri_next_execution input"
    and "x \<in> set (ri_executions input) \<Longrightarrow> de_node_instance x < ri_next_node_instance input"
    and "x \<in> set (ri_executions input) \<Longrightarrow>
      bm_get (collect_executable_depths root 0 []) (so_node (de_occurrence x))
        = Some (length (so_map_indices (de_occurrence x)))"
proof -
  obtain e where new: "Engine_new input root mode = Inr e" using assms by (rule reduce_cases)
  show "history_valid mode (ri_executions input)" by (rule Engine_new_ok(8)[OF new])
  assume "x \<in> set (ri_executions input)"
  then have "\<not> execution_out_of_graph input (collect_executable_depths root 0 []) x"
    using Engine_new_ok(9)[OF new] by blast
  then show "de_execution x < ri_next_execution input" "de_node_instance x < ri_next_node_instance input"
    "bm_get (collect_executable_depths root 0 []) (so_node (de_occurrence x))
        = Some (length (so_map_indices (de_occurrence x)))"
    by (auto simp: execution_out_of_graph_def split: option.splits)
qed

text \<open>The identities of the dispatches and the cancellations of a reduction.\<close>

lemma reduce_ids:
  assumes "reduce jl root mode input = Inr r"
  shows "map dp_execution (dispatches (rd_decisions r)) =
           [ri_next_execution input ..< ri_next_execution input + length (dispatches (rd_decisions r))]
    \<and> (\<forall>d \<in> set (dispatches (rd_decisions r)).
         dp_execution d < u64_max \<and> dp_execution d \<notin> de_execution ` set (ri_executions input)
         \<and> ((\<exists>x \<in> set (ri_executions input).
               de_occurrence x = dp_occurrence d \<and> de_node_instance x = dp_node_instance d)
            \<or> (\<forall>x \<in> set (ri_executions input).
               de_occurrence x \<noteq> dp_occurrence d \<and> de_node_instance x \<noteq> dp_node_instance d)))"
proof -
  from assms obtain e0 e c s where new: "Engine_new input root mode = Inr e0"
    and ev: "eval jl root e0 (Context_new (initial_state root input)) root_traversal = Inr (e, c, s)"
    and em: "emits_new root_traversal e0 e (eng_decisions e)"
    and ds: "dispatches (rd_decisions r) = dispatches (eng_decisions e)"
    by (rule reduce_emits)
  let ?ds = "dispatches (eng_decisions e)"
  have ids: "map dp_execution ?ds = [ri_next_execution input ..< eng_next_execution e]"
    using emits_new_ids(1)[OF em] Engine_new_ok(3)[OF new] by simp
  have "length ?ds = eng_next_execution e - ri_next_execution input" using arg_cong[OF ids, of length] by simp
  moreover have "ri_next_execution input \<le> eng_next_execution e"
    using emits_new_ids(2)[OF em] Engine_new_ok(3)[OF new] by simp
  ultimately have "map dp_execution ?ds = [ri_next_execution input ..< ri_next_execution input + length ?ds]"
    using ids by simp
  moreover have "dp_execution d < u64_max \<and> dp_execution d \<notin> de_execution ` set (ri_executions input)"
    if d: "d \<in> set ?ds" for d
  proof -
    have "dp_execution d \<in> set (map dp_execution ?ds)" using d by simp
    then have "ri_next_execution input \<le> dp_execution d" "dp_execution d < eng_next_execution e"
      unfolding ids by auto
    moreover have "eng_next_execution e \<le> u64_max" using emits_newD(5)[OF em] d by (auto split: if_splits)
    ultimately show ?thesis using reduce_accepts(2)[OF assms] by fastforce
  qed
  moreover have "(\<exists>x \<in> set (ri_executions input).
               de_occurrence x = dp_occurrence d \<and> de_node_instance x = dp_node_instance d)
            \<or> (\<forall>x \<in> set (ri_executions input).
               de_occurrence x \<noteq> dp_occurrence d \<and> de_node_instance x \<noteq> dp_node_instance d)"
    if d: "d \<in> set ?ds" for d
    using reduce_origin[OF new ev d] reduce_accepts(3)[OF assms]
    by (fastforce simp: dispatch_origin_def Engine_new_ok[OF new])
  ultimately show ?thesis by (simp add: ds)
qed

lemma reduce_cancels:
  assumes "reduce jl root mode input = Inr r"
  shows "distinct (void_ids (rd_decisions r))
    \<and> (\<forall>i \<in> set (void_ids (rd_decisions r)).
         \<exists>x \<in> set (ri_executions input). de_execution x = i \<and> de_state x = ExecActive)
    \<and> sorted (map (void_rank (ri_executions input)) (filter is_void (rd_decisions r)))"
proof -
  from assms obtain e0 e c s where new: "Engine_new input root mode = Inr e0"
    and ev: "eval jl root e0 (Context_new (initial_state root input)) root_traversal = Inr (e, c, s)"
    and r: "rd_decisions r = canonical_voids (ri_executions input) (eng_decisions e)
       @ (case terminal_of s of None \<Rightarrow> [] | Some p \<Rightarrow> [TerminalDecision p])"
    by (rule reduce_cases)
  let ?D = "canonical_voids (ri_executions input) (eng_decisions e)"
  have ids: "void_ids (rd_decisions r) = void_ids ?D" "filter is_void (rd_decisions r) = filter is_void ?D"
    by (simp_all add: r is_void_def split: option.splits)
  have "cancels root_traversal e0 e" using cancellation.eval_R[OF _ ev] by blast
  then have "\<forall>i \<in> set (void_ids ?D).
      \<exists>x \<in> set (ri_executions input). de_execution x = i \<and> de_state x = ExecActive"
    by (simp add: cancels_def active_id_def canonical_voids_laws(4) Engine_new_ok[OF new])
  then show ?thesis unfolding ids using canonical_voids_laws(2,3) by blast
qed

text \<open>C1. Dispatch identities of a reduction: the executions it dispatches take exactly the
  consecutive identities from the next free one of the input on, none of them is an execution of
  the history, they all fit in 64 bits, and the node instance of a dispatch is either the one the
  history already gave its occurrence or a fresh one.\<close>

theorem reduce_dispatch_ids:
  assumes "reduce jl root mode input = Inr r"
  shows "map dp_execution (dispatches (rd_decisions r)) =
           [ri_next_execution input ..< ri_next_execution input + length (dispatches (rd_decisions r))]
    \<and> (\<forall>d \<in> set (dispatches (rd_decisions r)).
         dp_execution d < u64_max \<and> dp_execution d \<notin> de_execution ` set (ri_executions input)
         \<and> ((\<exists>x \<in> set (ri_executions input).
               de_occurrence x = dp_occurrence d \<and> de_node_instance x = dp_node_instance d)
            \<or> (\<forall>x \<in> set (ri_executions input).
               de_occurrence x \<noteq> dp_occurrence d \<and> de_node_instance x \<noteq> dp_node_instance d)))"
  by (rule reduce_ids[OF assms])

theorem reduce_dispatch_ids_witness:
  "map dp_execution (dispatches (rd_decisions demo_race_started)) = [1, 2]"
  using reduce_dispatch_ids[OF demo_race_start]
  by (simp add: demo_race_started_def demo_input_def)

text \<open>C2. At most one dispatch per occurrence: in one reduction of a graph whose nodes have
  distinct names, and over a history whose settlements lie before the last position, no
  occurrence (node and map indices) is dispatched twice.\<close>

theorem reduce_once:
  assumes "reduce jl root mode input = Inr r" and "distinct (node_names root)"
    and "bounded_history (ri_executions input)"
  shows "distinct (map dp_occurrence (dispatches (rd_decisions r)))"
proof -
  from assms(1) obtain e0 e c s where new: "Engine_new input root mode = Inr e0"
    and ev: "eval jl root e0 (Context_new (initial_state root input)) root_traversal = Inr (e, c, s)"
    and ds: "dispatches (rd_decisions r) = dispatches (eng_decisions e)"
    by (rule reduce_emits)
  have "distinct (map dp_occurrence (new_dispatches e0 e))"
    by (rule eval_once[OF assms(2) ev]) (use assms(3) Engine_new_ok(2)[OF new] in simp)
  then show ?thesis by (simp add: new_dispatches_def Engine_new_ok(1)[OF new] ds)
qed

theorem reduce_once_witness:
  "distinct (map dp_occurrence (dispatches (rd_decisions demo_race_started)))"
  by (rule reduce_once[OF demo_race_start])
    (simp_all add: demo_race_def demo_step_def demo_input_def bounded_history_def node_names_def all_nodes.simps)

text \<open>C3. A finished run starts no work: a reduction that ends with a terminal result dispatches
  nothing and reports no boundary, and its decisions end with that result, which occurs nowhere else;
  a reduction without a terminal result carries no terminal decision.\<close>

theorem reduce_terminal:
  assumes "reduce jl root mode input = Inr r" and "bounded_history (ri_executions input)"
  shows "case rd_terminal r of
      None \<Rightarrow> filter is_terminal_decision (rd_decisions r) = []
    | Some p \<Rightarrow> dispatches (rd_decisions r) = [] \<and> rd_boundary r = None
        \<and> (\<exists>ds. rd_decisions r = ds @ [TerminalDecision p] \<and> filter is_terminal_decision ds = [])"
proof -
  from assms(1) obtain e0 e c s where new: "Engine_new input root mode = Inr e0"
    and ev: "eval jl root e0 (Context_new (initial_state root input)) root_traversal = Inr (e, c, s)"
    and r: "rd_boundary r = eng_boundary e" "rd_terminal r = terminal_of s"
      "rd_decisions r = canonical_voids (ri_executions input) (eng_decisions e)
       @ (case terminal_of s of None \<Rightarrow> [] | Some p \<Rightarrow> [TerminalDecision p])"
    by (rule reduce_cases)
  have em: "emits_new root_traversal e0 e (eng_decisions e)"
    by (rule eval_emits_all[OF new ev])
  let ?ds = "canonical_voids (ri_executions input) (eng_decisions e)"
  have no: "filter is_terminal_decision ?ds = []"
    using emits_newD(2)[OF em] canonical_voids_laws(5)[of "ri_executions input" "eng_decisions e"]
    by (auto simp: filter_empty_conv)
  show ?thesis
  proof (cases "terminal_of s")
    case None
    then show ?thesis using r no by simp
  next
    case (Some p)
    then have "s \<noteq> Pending" by (auto simp: terminal_of_def)
    then have "calm e0 e"
      using settlesD[OF eval_settles ev] assms(2) Engine_new_ok(2)[OF new] by (auto simp: quiet_def)
    then have "dispatches (eng_decisions e) = []"
      using new_dispatches_calm[of root_traversal e0 e] new_dispatches_emits[OF em] em
      by (auto simp: emits_def)
    moreover from this have "eng_boundary e = None"
      using emits_newD(5)[OF em] Engine_new_ok(5)[OF new] by simp
    ultimately show ?thesis using r Some no by simp
  qed
qed

theorem reduce_terminal_witness:
  "dispatches (rd_decisions demo_race_finished) = [] \<and> rd_boundary demo_race_finished = None"
  using reduce_terminal[OF demo_race_finish]
  by (simp add: demo_race_finished_def demo_input_def demo_settled_def demo_execution_def
      bounded_history_def HistoryPosition_MAX_def i64_max_def)

text \<open>C5. Where dispatches come from: every dispatched execution runs the worker of an executable node
  of the graph, under the name of that node, with a positive attempt number that does not exceed the
  attempt ceiling the graph gives the node.\<close>

theorem reduce_dispatch_origin:
  assumes "reduce jl root mode input = Inr r" and "d \<in> set (dispatches (rd_decisions r))"
  shows "\<exists>n spec. n \<in> set (all_nodes root) \<and> executable_spec_of n = Some spec
      \<and> so_node (dp_occurrence d) = es_name spec \<and> dp_worker d = es_worker spec
      \<and> 0 < dp_attempt d \<and> dp_attempt d \<le> es_attempt_ceiling spec"
proof -
  from assms(1) obtain e0 e c s where new: "Engine_new input root mode = Inr e0"
    and ev: "eval jl root e0 (Context_new (initial_state root input)) root_traversal = Inr (e, c, s)"
    and ds: "dispatches (rd_decisions r) = dispatches (eng_decisions e)"
    by (rule reduce_emits)
  have "dispatch_origin root root_traversal e0 d" using assms(2) ds reduce_origin[OF new ev] by simp
  then show ?thesis unfolding dispatch_origin_def by blast
qed

theorem reduce_dispatch_origin_witness:
  "\<exists>n spec. n \<in> set (all_nodes demo_race) \<and> executable_spec_of n = Some spec
      \<and> ''a'' = es_name spec \<and> ''worker@1'' = es_worker spec \<and> 1 \<le> es_attempt_ceiling spec"
  using reduce_dispatch_origin[OF demo_race_start,
      of "Dispatch 1 1 (StructuralOccurrence ''a'' []) 1 0 ''worker@1'' VNull"]
  by (auto simp: demo_race_started_def)

text \<open>C4. Cancellations of a reduction: no execution is voided twice, every voided execution is an
  active execution of the history, and the void decisions stand in the order of the dispatch
  positions of the executions they cancel.\<close>

theorem reduce_voids:
  assumes "reduce jl root mode input = Inr r"
  shows "distinct (void_ids (rd_decisions r))
    \<and> (\<forall>i \<in> set (void_ids (rd_decisions r)).
         \<exists>x \<in> set (ri_executions input). de_execution x = i \<and> de_state x = ExecActive)
    \<and> sorted (map (void_rank (ri_executions input)) (filter is_void (rd_decisions r)))"
  by (rule reduce_cancels[OF assms])

theorem reduce_voids_witness:
  "void_ids (rd_decisions demo_race_finished) = [1]
    \<and> (\<exists>x \<in> set demo_settled. de_execution x = 1 \<and> de_state x = ExecActive)"
  using reduce_voids[OF demo_race_finish]
  by (simp add: demo_race_finished_def demo_input_def is_void_def void_id_def)

text \<open>A reduction reports the boundary of its traversal exactly when it dispatches something.\<close>

theorem reduce_boundary:
  assumes "reduce jl root mode input = Inr r"
  shows "rd_boundary r = None \<longleftrightarrow> dispatches (rd_decisions r) = []"
proof -
  from assms obtain e0 e c s where new: "Engine_new input root mode = Inr e0"
    and em: "emits_new root_traversal e0 e (eng_decisions e)"
    and r: "dispatches (rd_decisions r) = dispatches (eng_decisions e)" "rd_boundary r = eng_boundary e"
    by (rule reduce_emits)
  show ?thesis using emits_newD(5)[OF em] Engine_new_ok(5)[OF new] by (auto simp: r split: if_splits)
qed

theorem reduce_boundary_witness:
  "rd_boundary demo_race_started = None \<longleftrightarrow> dispatches (rd_decisions demo_race_started) = []"
  by (rule reduce_boundary[OF demo_race_start])

text \<open>C6. Observing a reduction does not change it: the reduction \<open>reduce_with_trace\<close> returns next to
  its trace is the one \<open>reduce\<close> returns, and an error of the observed run other than the limit of the
  trace itself is the error of the plain run.\<close>

theorem reduce_with_trace_agrees:
  "case reduce_with_trace jl root mode input of
     Inr tx \<Rightarrow> reduce jl root mode input = Inr (tx_reduction tx)
   | Inl err \<Rightarrow> err = TraceLimit \<or> reduce jl root mode input = Inl err"
  unfolding reduce_with_trace_def by (rule evaluate_erase)

text \<open>The depth of an executable node counts the maps around it: \<open>executable_at root name depth\<close> says that
  a step or verifier called \<open>name\<close> stands below \<open>root\<close> inside \<open>depth\<close> maps.\<close>

inductive executable_at :: "graph_node \<Rightarrow> node_name \<Rightarrow> nat \<Rightarrow> bool" where
  executable_here: "is_executable node \<Longrightarrow> executable_at node (node_name node) 0"
| executable_in_map:
    "is_map_node node \<Longrightarrow> child \<in> set (child_nodes node) \<Longrightarrow> executable_at child name d \<Longrightarrow>
     executable_at node name (Suc d)"
| executable_below:
    "\<not> is_map_node node \<Longrightarrow> child \<in> set (child_nodes node) \<Longrightarrow> executable_at child name d \<Longrightarrow>
     executable_at node name d"

lemma collect_executable_depths_sound:
  "bm_get (collect_executable_depths node depth depths) name = Some x \<Longrightarrow>
   bm_get depths name = Some x \<or> (\<exists>d. executable_at node name d \<and> x = depth + d)"
proof (induction node depth depths rule: collect_executable_depths.induct)
  case (1 node depth depths)
  let ?here = "if is_executable node then bm_insert (node_name node) depth depths else depths"
  let ?ok = "\<lambda>ds. bm_get ds name = Some x \<longrightarrow>
    bm_get depths name = Some x \<or> (\<exists>d. executable_at node name d \<and> x = depth + d)"
  have here: "?ok ?here"
    by (auto simp: bm_get_insert dest: executable_here split: if_splits)
  have child: "?ok (collect_executable_depths c (child_depth node depth) ds)"
    if "c \<in> set (child_nodes node)" and "?ok ds" for c ds
  proof
    assume "bm_get (collect_executable_depths c (child_depth node depth) ds) name = Some x"
    from "1.IH"[OF that(1) this] that(2)
    show "bm_get depths name = Some x \<or> (\<exists>d. executable_at node name d \<and> x = depth + d)"
      using executable_in_map[OF _ that(1)] executable_below[OF _ that(1)]
      by (cases "is_map_node node") (fastforce simp: child_depth_def)+
  qed
  have "?ok (fold (\<lambda>c ds. collect_executable_depths c (child_depth node depth) ds) cs ds)"
    if "set cs \<subseteq> set (child_nodes node)" and "?ok ds" for cs ds
    using that child by (induction cs arbitrary: ds) auto
  from this[OF subset_refl here] "1.prems" show ?case
    by (simp add: collect_executable_depths.simps[of node depth])
qed

text \<open>C7. Which histories a reduction accepts: a history it reduces is consistent under its mode
  (identities, instances and attempt lineage), every execution of it has identities below the next
  free ones, and each names an executable node of the graph, with one map index for every map around
  that node.\<close>

theorem reduce_history:
  assumes "reduce jl root mode input = Inr r"
  shows "history_valid mode (ri_executions input)
    \<and> (\<forall>x \<in> set (ri_executions input).
         de_execution x < ri_next_execution input
         \<and> de_node_instance x < ri_next_node_instance input
         \<and> executable_at root (so_node (de_occurrence x)) (length (so_map_indices (de_occurrence x))))"
  using reduce_accepts[OF assms] collect_executable_depths_sound[of root 0 "[]"] by fastforce

theorem reduce_history_witness:
  "history_valid NativeV2 demo_settled \<and> executable_at demo_race ''b'' 0"
  using reduce_history[OF demo_race_finish]
  by (simp add: demo_input_def demo_settled_def demo_execution_def)

end
