(* ===== verification/Run_Plan.thy ===== *)
theory Run_Plan
  imports Observation
begin

text \<open>
  The secret-free description of a run (\<^verbatim>\<open>crates/openengine-cluster-protocol/src/native_v2_run.rs\<close> and
  its modules): checked strings, source identities, declared environments and connections, node
  bindings, agent settings and the runtime plan, with the connection requirements derived from them.

  A string is the list of its UTF-8 bytes; \<open>chars\<close> decodes it where the code looks at characters. The
  \<^verbatim>\<open>url\<close> crate is the parameter \<open>parse_url\<close>, which returns the parts of a URL the code asks for.
\<close>

section \<open>Characters of a string\<close>

definition utf8_extra :: "nat \<Rightarrow> nat" where
  "utf8_extra b = (if b < 192 then 0 else if b < 224 then 1 else if b < 240 then 2 else 3)"

definition utf8_lead :: "nat \<Rightarrow> nat" where
  "utf8_lead b = (if b < 192 then b else if b < 224 then b mod 32 else if b < 240 then b mod 16 else b mod 8)"

function decode_utf8 :: "nat list \<Rightarrow> utext" where
  "decode_utf8 [] = []"
| "decode_utf8 (b # bs) =
     foldl (\<lambda>acc c. acc * 64 + c mod 64) (utf8_lead b) (take (utf8_extra b) bs)
       # decode_utf8 (drop (utf8_extra b) bs)"
  by pat_completeness auto
termination
  by (relation "measure length") auto

definition chars :: "string \<Rightarrow> utext" where
  "chars s = decode_utf8 (map of_char s)"

definition is_whitespace :: "nat \<Rightarrow> bool" where
  "is_whitespace c \<longleftrightarrow>
     (9 \<le> c \<and> c \<le> 13) \<or> c = 32 \<or> c = 133 \<or> c = 160 \<or> c = 5760 \<or> (8192 \<le> c \<and> c \<le> 8202)
     \<or> c = 8232 \<or> c = 8233 \<or> c = 8239 \<or> c = 8287 \<or> c = 12288"

definition has_control :: "string \<Rightarrow> bool" where
  "has_control s \<longleftrightarrow> list_ex is_control (chars s)"

definition is_ascii_graphic :: "char \<Rightarrow> bool" where
  "is_ascii_graphic c \<longleftrightarrow> (let n = (of_char c :: nat) in 33 \<le> n \<and> n \<le> 126)"

definition is_lower_hex :: "char \<Rightarrow> bool" where
  "is_lower_hex c \<longleftrightarrow> is_digit_char c \<or> c \<in> {CHR ''a'', CHR ''b'', CHR ''c'', CHR ''d'', CHR ''e'', CHR ''f''}"

text \<open>\<^verbatim>\<open>str::contains\<close>, \<^verbatim>\<open>starts_with\<close> and \<^verbatim>\<open>ends_with\<close> with a string pattern, and \<^verbatim>\<open>split_once\<close>.\<close>

fun contains_str :: "string \<Rightarrow> string \<Rightarrow> bool" where
  "contains_str pattern [] \<longleftrightarrow> pattern = []"
| "contains_str pattern (c # s) \<longleftrightarrow> prefix pattern (c # s) \<or> contains_str pattern s"

definition starts_with :: "string \<Rightarrow> string \<Rightarrow> bool" where
  "starts_with pattern s \<longleftrightarrow> take (length pattern) s = pattern"

definition ends_with :: "string \<Rightarrow> string \<Rightarrow> bool" where
  "ends_with pattern s \<longleftrightarrow> starts_with (rev pattern) (rev s)"

fun find_str :: "string \<Rightarrow> string \<Rightarrow> nat option" where
  "find_str pattern [] = (if pattern = [] then Some 0 else None)"
| "find_str pattern (c # s) =
     (if starts_with pattern (c # s) then Some 0 else map_option Suc (find_str pattern s))"

definition split_once :: "string \<Rightarrow> string \<Rightarrow> (string \<times> string) option" where
  "split_once pattern s =
     map_option (\<lambda>i. (take i s, drop (i + length pattern) s)) (find_str pattern s)"

section \<open>Checked strings\<close>

type_synonym run_value_error = string

definition validate_non_control_text :: "string \<Rightarrow> nat \<Rightarrow> string \<Rightarrow> run_value_error + unit" where
  "validate_non_control_text value maximum message =
     (if value = [] \<or> length (chars value) > maximum \<or> has_control value then Inl message else Inr ())"

definition validate_non_control_bytes :: "string \<Rightarrow> nat \<Rightarrow> string \<Rightarrow> run_value_error + unit" where
  "validate_non_control_bytes value maximum message =
     (if value = [] \<or> length value > maximum \<or> has_control value then Inl message else Inr ())"

definition validate_title :: "string \<Rightarrow> run_value_error + unit" where
  "validate_title value =
     validate_non_control_text value 256 ''run title must be 1..=256 non-control characters''"

definition valid_repository_part :: "string \<Rightarrow> bool" where
  "valid_repository_part value \<longleftrightarrow>
     value \<noteq> [] \<and> length value \<le> 100
     \<and> list_all (\<lambda>c. is_ascii_alphanumeric c \<or> c \<in> {CHR ''-'', CHR ''_'', CHR ''.''}) value"

definition validate_legacy_repository :: "string \<Rightarrow> run_value_error + unit" where
  "validate_legacy_repository value =
     (case split_once ''/'' value of
        None \<Rightarrow> Inl ''source repository must have the form owner/name''
      | Some (owner, name) \<Rightarrow>
          if length value > 255 \<or> contains_str ''/'' name
             \<or> \<not> valid_repository_part owner \<or> \<not> valid_repository_part name
          then Inl ''source repository must have the form owner/name''
          else Inr ())"

definition validate_repository :: "string \<Rightarrow> run_value_error + unit" where
  "validate_repository value =
     validate_non_control_bytes value 255 ''source repository ID must be 1..=255 non-control bytes''"

definition validate_branch :: "string \<Rightarrow> run_value_error + unit" where
  "validate_branch value =
     (if value \<noteq> [] \<and> length value \<le> 255
         \<and> \<not> starts_with ''-'' value \<and> \<not> ends_with ''.'' value \<and> \<not> ends_with ''/'' value
         \<and> \<not> ends_with ''.lock'' value \<and> \<not> contains_str ''..'' value \<and> \<not> contains_str [CHR ''@'', CHR 0x7B] value
         \<and> list_all (\<lambda>c. is_ascii_graphic c
              \<and> c \<notin> {CHR ''~'', CHR ''^'', CHR '':'', CHR ''?'', CHR ''*'', CHR ''['', CHR 0x5C}) value
      then Inr ()
      else Inl ''source target branch is not a valid bounded Git branch'')"

definition validate_revision :: "string \<Rightarrow> run_value_error + unit" where
  "validate_revision value =
     (if (length value = 40 \<or> length value = 64) \<and> list_all is_lower_hex value then Inr ()
      else Inl ''source base revision must be exactly 40 or 64 lowercase hexadecimal characters'')"

definition validate_model :: "string \<Rightarrow> run_value_error + unit" where
  "validate_model value =
     validate_non_control_text value 2048 ''model ID must be 1..=2048 non-control characters''"

definition validate_runtime_id :: "string \<Rightarrow> run_value_error + unit" where
  "validate_runtime_id value =
     validate_non_control_bytes value 128 ''runtime identifier must be 1..=128 non-control bytes''"

definition validate_environment_name :: "string \<Rightarrow> run_value_error + unit" where
  "validate_environment_name value =
     (let first = (case value of c # _ \<Rightarrow> is_ascii_alphabetic c \<or> c = CHR ''_'' | [] \<Rightarrow> False)
      in if length value \<le> 128 \<and> first \<and> list_all (\<lambda>c. is_ascii_alphanumeric c \<or> c = CHR ''_'') (tl value)
         then Inr ()
         else Inl ''environment variable name must match [A-Za-z_][A-Za-z0-9_]* and be at most 128 bytes'')"

definition validate_connection_key :: "string \<Rightarrow> run_value_error + unit" where
  "validate_connection_key value =
     validate_non_control_bytes value 128 ''connection key must be 1..=128 non-control bytes''"

definition validate_profile_name :: "string \<Rightarrow> run_value_error + unit" where
  "validate_profile_name value =
     (if length value \<le> 64
         \<and> (case value of c # _ \<Rightarrow> is_ascii_alphanumeric c | [] \<Rightarrow> False)
         \<and> list_all (\<lambda>c. is_ascii_alphanumeric c \<or> c \<in> {CHR ''-'', CHR ''_'', CHR ''.''}) (tl value)
      then Inr ()
      else Inl ''run profile name must match [A-Za-z0-9][A-Za-z0-9._-]{0,63}'')"

text \<open>\<^verbatim>\<open>NativeV2String::new\<close>, for the validator of its kind.\<close>

definition NativeV2String_new :: "(string \<Rightarrow> run_value_error + unit) \<Rightarrow> string \<Rightarrow> run_value_error + string" where
  "NativeV2String_new validate value = bind_res (validate value) (\<lambda>_. Inr value)"

type_synonym run_title = string
type_synonym source_repository_id = string
type_synonym source_branch_id = string
type_synonym source_revision_id = string
type_synonym model_id = string
type_synonym environment_variable_name = string
type_synonym connection_key = string

section \<open>Source identities\<close>

record url =
  url_scheme :: string
  url_host :: "string option"
  url_username :: string
  url_password :: "string option"
  url_query :: "string option"
  url_fragment :: "string option"
  url_port :: "nat option"
  url_text :: string

type_synonym url_parser = "string \<Rightarrow> url option"

definition REMOTE_MESSAGE :: string where
  "REMOTE_MESSAGE = ''Git remote must be a credential-free HTTPS or SSH locator''"

definition valid_remote_host :: "url \<Rightarrow> bool" where
  "valid_remote_host url = (case url_host url of Some host \<Rightarrow> \<not> starts_with ''-'' host | None \<Rightarrow> False)"

definition validate_url_authority :: "string \<Rightarrow> unit + unit" where
  "validate_url_authority value =
     bind_res (ok_or () (split_once ''://'' value)) (\<lambda>(scheme, remainder).
     let authority = takeWhile (\<lambda>c. c \<noteq> CHR ''/'') remainder
     in if authority = [] \<or> starts_with ''@'' authority
           \<or> length (filter (\<lambda>c. c = CHR ''@'') authority) > 1
           \<or> (scheme = ''https'' \<and> contains_str ''@'' authority)
        then Inl () else Inr ())"

definition validate_remote_url :: "url_parser \<Rightarrow> string \<Rightarrow> unit + unit" where
  "validate_remote_url parse_url value =
     bind_res (validate_url_authority value) (\<lambda>_.
     bind_res (ok_or () (parse_url value)) (\<lambda>url.
     if \<not> valid_remote_host url \<or> url_password url \<noteq> None \<or> url_query url \<noteq> None \<or> url_fragment url \<noteq> None
     then Inl ()
     else if url_scheme url \<in> {''https'', ''ssh''} then Inr () else Inl ()))"

definition validate_ssh_shorthand :: "url_parser \<Rightarrow> string \<Rightarrow> unit + unit" where
  "validate_ssh_shorthand parse_url value =
     bind_res (ok_or () (case find_str ''['' value of
         Some start \<Rightarrow> map_option (\<lambda>e. start + e + 1) (find_str '']:'' (drop start value))
       | None \<Rightarrow> find_str '':'' value)) (\<lambda>delimiter.
     let authority = take delimiter value; path = drop (delimiter + 1) value
     in if length authority = 1 \<and> is_ascii_alphabetic (hd authority) then Inl ()
        else if authority = [] \<or> path = [] \<or> starts_with '':'' path \<or> contains_str ''/'' authority
           \<or> contains_str ''?'' path \<or> contains_str ''#'' path
        then Inl ()
        else validate_remote_url parse_url (''ssh://'' @ authority @ ''/repository''))"

definition validate_remote :: "url_parser \<Rightarrow> string \<Rightarrow> run_value_error + unit" where
  "validate_remote parse_url value =
     bind_res (validate_non_control_bytes value 2048 REMOTE_MESSAGE) (\<lambda>_.
     if starts_with ''-'' value \<or> list_ex is_whitespace (chars value) \<or> contains_str [CHR 0x5C] value
     then Inl REMOTE_MESSAGE
     else
       case (if starts_with ''https://'' value \<or> starts_with ''ssh://'' value
             then validate_remote_url parse_url value
             else if contains_str ''://'' value then Inl ()
             else validate_ssh_shorthand parse_url value) of
         Inl _ \<Rightarrow> Inl REMOTE_MESSAGE
       | Inr _ \<Rightarrow> Inr ())"

definition trim_end_slashes :: "string \<Rightarrow> string" where
  "trim_end_slashes s = rev (dropWhile (\<lambda>c. c = CHR ''/'') (rev s))"

definition validate_forge_base_url :: "url_parser \<Rightarrow> string \<Rightarrow> run_value_error + unit" where
  "validate_forge_base_url parse_url value =
     (let invalid = ''forge base URL must be canonical credential-free HTTPS''
      in bind_res (validate_non_control_bytes value 2048 invalid) (\<lambda>_.
         bind_res (ok_or invalid (parse_url value)) (\<lambda>parsed.
         if url_scheme parsed \<noteq> ''https'' \<or> url_host parsed = None \<or> url_username parsed \<noteq> []
            \<or> url_password parsed \<noteq> None \<or> url_query parsed \<noteq> None \<or> url_fragment parsed \<noteq> None
            \<or> trim_end_slashes (url_text parsed) \<noteq> value
         then Inl invalid else Inr ())))"

definition validate_forge_provider :: "string \<Rightarrow> run_value_error + unit" where
  "validate_forge_provider value =
     validate_non_control_bytes value 128 ''source forge provider ID must be 1..=128 non-control bytes''"

record source_forge_identity =
  fi_provider :: string
  fi_repository :: source_repository_id
  fi_base_url :: "string option"

record resolved_git_remote =
  gr_url :: string
  gr_forge :: "source_forge_identity option"
  gr_connection :: "connection_key option"

record resolved_source =
  rs_repository :: source_repository_id
  rs_branch :: source_branch_id
  rs_revision :: source_revision_id
  rs_remote :: "resolved_git_remote option"

definition ResolvedSource_try_from :: "resolved_source \<Rightarrow> run_value_error + resolved_source" where
  "ResolvedSource_try_from wire =
     bind_res (if rs_remote wire = None then validate_legacy_repository (rs_repository wire) else Inr ())
       (\<lambda>_. Inr wire)"

definition requires_git_transport :: "resolved_source \<Rightarrow> bool" where
  "requires_git_transport self \<longleftrightarrow> rs_remote self \<noteq> None \<or> length (rs_revision self) = 64"

type_synonym connection_requirements = "(connection_key, environment_variable_name btree_set) btree_map"

definition remote_connection_requirements :: "resolved_git_remote \<Rightarrow> connection_requirements" where
  "remote_connection_requirements self =
     (case gr_connection self of
        None \<Rightarrow> []
      | Some key \<Rightarrow>
          let names = (if starts_with ''https://'' (gr_url self) then [''GIT_USERNAME'', ''GIT_PASSWORD'']
                       else [''GIT_SSH_PRIVATE_KEY'', ''GIT_SSH_KNOWN_HOSTS'']);
              names = filter (\<lambda>name. NativeV2String_new validate_environment_name name = Inr name) names
          in bm_insert key (bs_of_list names) [])"

section \<open>Declared environments and connections\<close>

definition MAX_DECLARED_ENVIRONMENT_NAMES :: nat where "MAX_DECLARED_ENVIRONMENT_NAMES = 64"
definition MAX_DECLARED_CONNECTIONS :: nat where "MAX_DECLARED_CONNECTIONS = 64"

type_synonym declared_environment = "environment_variable_name btree_set"
type_synonym declared_connections = "(connection_key, declared_environment) btree_map"

definition DeclaredEnvironment_new ::
    "environment_variable_name list \<Rightarrow> run_value_error + declared_environment" where
  "DeclaredEnvironment_new values =
     (if length values > MAX_DECLARED_ENVIRONMENT_NAMES
      then Inl ''declared environment contains more than 64 names''
      else let unique = bs_of_list values
           in if length unique \<noteq> length values then Inl ''declared environment contains a duplicate name''
              else Inr unique)"

definition environment_names :: "declared_connections \<Rightarrow> environment_variable_name list" where
  "environment_names self = concat (map snd self)"

definition DeclaredConnections_new ::
    "(connection_key \<times> declared_environment) list \<Rightarrow> run_value_error + declared_connections" where
  "DeclaredConnections_new values =
     (if length values > MAX_DECLARED_CONNECTIONS then Inl ''node declares more than 64 connections''
      else
        let unique = bm_extend [] values
        in if length unique \<noteq> length values then Inl ''node declares a duplicate connection key''
           else if list_ex (\<lambda>(_, environment). environment = []) unique
           then Inl ''declared connection must require at least one environment name''
           else
             let names = environment_names unique
             in if length names > MAX_DECLARED_ENVIRONMENT_NAMES
                then Inl ''node connections declare more than 64 environment names''
                else if length (bs_of_list names) \<noteq> length names
                then Inl ''an environment name cannot be declared by two node connections''
                else Inr unique)"

definition DeclaredConnections_single ::
    "string \<Rightarrow> declared_environment \<Rightarrow> run_value_error + declared_connections" where
  "DeclaredConnections_single key environment =
     bind_res (NativeV2String_new validate_connection_key key) (\<lambda>key.
     DeclaredConnections_new [(key, environment)])"

text \<open>Static connection values and the Git credentials read from them.\<close>

definition MAX_CONNECTION_VALUE_BYTES :: nat where "MAX_CONNECTION_VALUE_BYTES = 65536"
definition MAX_CONNECTION_BYTES :: nat where "MAX_CONNECTION_BYTES = 262144"

type_synonym static_connection_values = "(environment_variable_name, string) btree_map"

definition connection_value_size ::
    "u64 \<Rightarrow> environment_variable_name \<times> string \<Rightarrow> run_value_error + u64" where
  "connection_value_size bytes entry =
     (case entry of (name, value) \<Rightarrow>
       if value = [] \<or> contains_str [CHR 0x00] value \<or> length value > MAX_CONNECTION_VALUE_BYTES
       then Inl ''static connection values must be non-empty, NUL-free, and at most 64 KiB''
       else ok_or ''static connection exceeds the aggregate size bound''
              (case checked_add bytes (length name) of
                 None \<Rightarrow> None | Some bytes \<Rightarrow> checked_add bytes (length value)))"

definition StaticConnectionValues_new ::
    "static_connection_values \<Rightarrow> run_value_error + static_connection_values" where
  "StaticConnectionValues_new values =
     (if values = [] \<or> length values > MAX_DECLARED_ENVIRONMENT_NAMES
      then Inl ''static connection must contain 1..=64 fields''
      else bind_res (try_foldl connection_value_size 0 values) (\<lambda>bytes.
        if bytes > MAX_CONNECTION_BYTES then Inl ''static connection exceeds the aggregate size bound''
        else Inr values))"

datatype git_transport_credentials =
    Https string string
  | Ssh string string

definition credential_fields :: "git_transport_credentials \<Rightarrow> (string \<times> string) list" where
  "credential_fields self =
     (case self of
        Https username password \<Rightarrow> [(''GIT_USERNAME'', username), (''GIT_PASSWORD'', password)]
      | Ssh private_key known_hosts \<Rightarrow>
          [(''GIT_SSH_PRIVATE_KEY'', private_key), (''GIT_SSH_KNOWN_HOSTS'', known_hosts)])"

definition connection_values :: "git_transport_credentials \<Rightarrow> run_value_error + static_connection_values" where
  "connection_values self =
     bind_res (try_map (\<lambda>(name, value).
         bind_res (NativeV2String_new validate_environment_name name) (\<lambda>name. Inr (name, value)))
       (credential_fields self)) (\<lambda>fields.
     StaticConnectionValues_new (bm_extend [] fields))"

definition from_connection_values ::
    "static_connection_values \<Rightarrow> run_value_error + git_transport_credentials option" where
  "from_connection_values values =
     (let get = bm_get values
      in case (get ''GIT_USERNAME'', get ''GIT_PASSWORD'', get ''GIT_SSH_PRIVATE_KEY'', get ''GIT_SSH_KNOWN_HOSTS'') of
           (Some username, Some password, None, None) \<Rightarrow>
             if length values = 2 then Inr (Some (Https username password))
             else Inl ''Git source connection requires exactly one complete HTTPS or SSH credential shape''
         | (None, None, Some private_key, Some known_hosts) \<Rightarrow>
             if length values = 2 then Inr (Some (Ssh private_key known_hosts))
             else Inl ''Git source connection requires exactly one complete HTTPS or SSH credential shape''
         | (None, None, None, None) \<Rightarrow> Inr None
         | _ \<Rightarrow> Inl ''Git source connection requires exactly one complete HTTPS or SSH credential shape'')"


section \<open>Node bindings\<close>

datatype runtime_lane = RuntimeLane (lane_harness: string) (lane_provider: string)

definition lane_tuple :: "runtime_lane \<Rightarrow> string \<times> string" where
  "lane_tuple lane = (lane_harness lane, lane_provider lane)"

lemma lane_tuple_inj: "lane_tuple a = lane_tuple b \<longleftrightarrow> a = b"
  by (cases a; cases b) (auto simp: lane_tuple_def)

instantiation runtime_lane :: linorder
begin

definition less_eq_runtime_lane :: "runtime_lane \<Rightarrow> runtime_lane \<Rightarrow> bool" where
  "a \<le> b \<longleftrightarrow> lane_tuple a \<le> lane_tuple b"

definition less_runtime_lane :: "runtime_lane \<Rightarrow> runtime_lane \<Rightarrow> bool" where
  "a < b \<longleftrightarrow> lane_tuple a < lane_tuple b"

instance
  by standard (auto simp: less_eq_runtime_lane_def less_runtime_lane_def less_le_not_le
      simp flip: lane_tuple_inj)

end

definition RuntimeLane_new :: "string \<Rightarrow> string \<Rightarrow> run_value_error + runtime_lane" where
  "RuntimeLane_new harness provider =
     bind_res (NativeV2String_new validate_runtime_id harness) (\<lambda>harness.
     bind_res (NativeV2String_new validate_runtime_id provider) (\<lambda>provider.
     Inr (RuntimeLane harness provider)))"

definition lane_display :: "runtime_lane \<Rightarrow> string" where
  "lane_display lane = lane_harness lane @ ''/'' @ lane_provider lane"

datatype reasoning_effort = EffortLow | EffortMedium | EffortHigh | EffortXhigh | EffortMax

datatype session_scope = ScopeExecution | ScopeNodeInstance

datatype pull_request_feedback = Consider | Ignore

datatype decision_api = Systemone

text \<open>A double is not a number, infinite, or a mantissa with a binary exponent.\<close>

datatype f64 = NotANumber | InfiniteFloat | FiniteFloat int int

definition in_unit_interval :: "int \<Rightarrow> int \<Rightarrow> bool" where
  "in_unit_interval m e \<longleftrightarrow>
     0 \<le> m \<and> (if 0 \<le> e then m * 2 ^ nat e \<le> 1 else m \<le> 2 ^ nat (- e))"

definition DecisionProbability_new :: "f64 \<Rightarrow> run_value_error + f64" where
  "DecisionProbability_new value =
     (case value of
        FiniteFloat m e \<Rightarrow>
          if in_unit_interval m e then Inr value else Inl ''decision probability must be in 0..=1''
      | _ \<Rightarrow> Inl ''decision probability must be in 0..=1'')"

definition ScriptCommand_new :: "string list \<Rightarrow> run_value_error + string list" where
  "ScriptCommand_new command =
     (if command = [] \<or> length command > 128
         \<or> list_all is_whitespace (chars (hd command))
         \<or> list_ex (\<lambda>argument. length argument > 8192 \<or> contains_str [CHR 0x00] argument) command
         \<or> sum_list (map length command) > 65536
      then Inl ''script command requires an executable and at most 128 bounded, NUL-free arguments''
      else Inr command)"

definition MAX_HARNESS_CONFIG_BYTES :: nat where "MAX_HARNESS_CONFIG_BYTES = 65536"

type_synonym harness_configuration = "(string, json) btree_map"

definition invalid_arguments :: "json \<Rightarrow> bool" where
  "invalid_arguments args =
     (case as_array args of
        None \<Rightarrow> True
      | Some args \<Rightarrow>
          list_ex (\<lambda>arg. case as_str arg of None \<Rightarrow> True | Some arg \<Rightarrow> contains_str [CHR 0x00] arg) args)"

definition HarnessConfiguration_new ::
    "(json \<Rightarrow> nat option) \<Rightarrow> json \<Rightarrow> run_value_error + harness_configuration" where
  "HarnessConfiguration_new encoded_len value =
     (case value of
        VObject object \<Rightarrow>
          if list_ex (\<lambda>(key, _). key \<notin> {''args'', ''options''}) object
          then Inl ''harnessConfig supports only args and options''
          else if (case bm_get object ''args'' of Some args \<Rightarrow> invalid_arguments args | None \<Rightarrow> False)
          then Inl ''harnessConfig.args must be an array of NUL-free argument strings''
          else if (case bm_get object ''options'' of Some options \<Rightarrow> as_object options = None | None \<Rightarrow> False)
          then Inl ''harnessConfig.options must be an object''
          else (case encoded_len (VObject object) of
                  None \<Rightarrow> Inl ''harnessConfig cannot be encoded''
                | Some len \<Rightarrow>
                    if len > MAX_HARNESS_CONFIG_BYTES then Inl ''harnessConfig exceeds 65536 encoded bytes''
                    else Inr object)
      | _ \<Rightarrow> Inl ''harnessConfig must be an object'')"

definition harness_args :: "harness_configuration \<Rightarrow> string list option" where
  "harness_args self =
     (case bm_get self ''args'' of
        None \<Rightarrow> None
      | Some args \<Rightarrow> map_option (List.map_filter as_str) (as_array args))"

definition harness_options :: "harness_configuration \<Rightarrow> (string, json) btree_map option" where
  "harness_options self =
     (case bm_get self ''options'' of None \<Rightarrow> None | Some options \<Rightarrow> as_object options)"

record agent_binding =
  ab_lane :: "runtime_lane option"
  ab_model :: model_id
  ab_effort :: "reasoning_effort option"
  ab_harness_config :: "harness_configuration option"
  ab_context_window :: "nat option"
  ab_max_tokens :: "nat option"
  ab_session_scope :: session_scope
  ab_connections :: declared_connections

record decision_binding =
  db_api :: decision_api
  db_model :: model_id
  db_min_probability :: f64
  db_uncertain_label :: enum_label
  db_connections :: declared_connections

datatype node_runtime_binding =
    AgentBinding agent_binding
  | ScriptBinding "string list" declared_connections
  | DecisionBinding decision_binding
  | CommentDeliveryBinding declared_connections
  | GitDeliveryBinding declared_connections pull_request_feedback

definition declared_connections :: "node_runtime_binding \<Rightarrow> declared_connections" where
  "declared_connections self =
     (case self of
        AgentBinding agent \<Rightarrow> ab_connections agent
      | ScriptBinding _ connections \<Rightarrow> connections
      | DecisionBinding decision \<Rightarrow> db_connections decision
      | CommentDeliveryBinding connections \<Rightarrow> connections
      | GitDeliveryBinding connections _ \<Rightarrow> connections)"

definition binding_harness_config :: "node_runtime_binding \<Rightarrow> harness_configuration option" where
  "binding_harness_config self =
     (case self of AgentBinding agent \<Rightarrow> ab_harness_config agent | _ \<Rightarrow> None)"

definition binding_context_window :: "node_runtime_binding \<Rightarrow> nat option" where
  "binding_context_window self =
     (case self of AgentBinding agent \<Rightarrow> ab_context_window agent | _ \<Rightarrow> None)"

definition binding_max_tokens :: "node_runtime_binding \<Rightarrow> nat option" where
  "binding_max_tokens self = (case self of AgentBinding agent \<Rightarrow> ab_max_tokens agent | _ \<Rightarrow> None)"

definition MIN_MODEL_CONTEXT_WINDOW :: nat where "MIN_MODEL_CONTEXT_WINDOW = 1"
definition MAX_MODEL_CONTEXT_WINDOW :: nat where "MAX_MODEL_CONTEXT_WINDOW = 10000000"
definition MIN_MODEL_MAX_TOKENS :: nat where "MIN_MODEL_MAX_TOKENS = 1"
definition MAX_MODEL_MAX_TOKENS :: nat where "MAX_MODEL_MAX_TOKENS = 10000000"

definition validate_context_window :: "nat \<Rightarrow> run_value_error + unit" where
  "validate_context_window value =
     (if MIN_MODEL_CONTEXT_WINDOW \<le> value \<and> value \<le> MAX_MODEL_CONTEXT_WINDOW then Inr ()
      else Inl ''contextWindow must be in 1..=10000000'')"

definition validate_max_tokens :: "nat \<Rightarrow> run_value_error + unit" where
  "validate_max_tokens value =
     (if MIN_MODEL_MAX_TOKENS \<le> value \<and> value \<le> MAX_MODEL_MAX_TOKENS then Inr ()
      else Inl ''maxTokens must be in 1..=10000000'')"

definition validate_model_limits :: "node_runtime_binding \<Rightarrow> run_value_error + unit" where
  "validate_model_limits self =
     (case self of
        AgentBinding agent \<Rightarrow>
          bind_res (case ab_context_window agent of Some value \<Rightarrow> validate_context_window value | None \<Rightarrow> Inr ())
            (\<lambda>_. case ab_max_tokens agent of Some value \<Rightarrow> validate_max_tokens value | None \<Rightarrow> Inr ())
      | _ \<Rightarrow> Inr ())"

text \<open>A limit in a plan that is read back: the number as the visitor sees it, then its bounds.\<close>

definition limit_checked :: "string \<Rightarrow> nat \<Rightarrow> nat \<Rightarrow> int \<Rightarrow> run_value_error + nat option" where
  "limit_checked field minimum maximum value =
     (if int minimum \<le> value \<and> value \<le> int maximum then Inr (Some (nat value))
      else Inl (field @ '' must be in '' @ u64_to_string minimum @ ''..='' @ u64_to_string maximum))"

definition deserialize_optional_model_limit ::
    "string \<Rightarrow> nat \<Rightarrow> nat \<Rightarrow> json \<Rightarrow> run_value_error + nat option" where
  "deserialize_optional_model_limit field minimum maximum value =
     (case value of
        VNull \<Rightarrow> Inr None
      | VNumber (PosInt n) \<Rightarrow> limit_checked field minimum maximum (int n)
      | VNumber (NegInt i) \<Rightarrow> limit_checked field minimum maximum i
      | VNumber (Float _ _) \<Rightarrow>
          Inl (field @ '' must be in '' @ u64_to_string minimum @ ''..='' @ u64_to_string maximum)
      | _ \<Rightarrow> Inl ''invalid type'')"

section \<open>Run-wide settings\<close>

record active_memory_config =
  am_repository :: bool
  am_graph :: bool
  am_budget_bytes :: nat

definition active_memory_default :: active_memory_config where
  "active_memory_default = \<lparr>am_repository = True, am_graph = True, am_budget_bytes = 2048\<rparr>"

definition active_memory_enabled :: "active_memory_config \<Rightarrow> bool" where
  "active_memory_enabled self \<longleftrightarrow> am_repository self \<or> am_graph self"

definition active_memory_validate :: "active_memory_config \<Rightarrow> run_value_error + unit" where
  "active_memory_validate self =
     (if \<not> (1 \<le> am_budget_bytes self \<and> am_budget_bytes self \<le> 16384)
      then Inl ''memory budgetBytes must be in 1..=16384'' else Inr ())"

record postmortem_config =
  pc_enabled :: bool
  pc_source_node :: "node_name option"
  pc_timeout_ms :: nat

definition postmortem_default :: postmortem_config where
  "postmortem_default = \<lparr>pc_enabled = True, pc_source_node = None, pc_timeout_ms = 120000\<rparr>"

definition postmortem_validate :: "postmortem_config \<Rightarrow> run_value_error + unit" where
  "postmortem_validate self =
     (if \<not> (1 \<le> pc_timeout_ms self \<and> pc_timeout_ms self \<le> 600000)
      then Inl ''postmortem timeoutMs must be in 1..=600000'' else Inr ())"

record global_agents_config =
  ga_postmortem :: postmortem_config

definition MAX_RUNTIME_SCRIPT_BYTES :: nat where "MAX_RUNTIME_SCRIPT_BYTES = 65536"
definition MAX_RUNTIME_VARIABLE_BYTES :: nat where "MAX_RUNTIME_VARIABLE_BYTES = 262144"

record runtime_environment =
  re_setup :: "string option"
  re_startup :: "string option"
  re_variables :: "(environment_variable_name, string) btree_map"
  re_connections :: declared_connections

definition reserved_variable :: "string \<Rightarrow> bool" where
  "reserved_variable name \<longleftrightarrow>
     name \<in> {''HOME'', ''PATH'', ''TMPDIR'', ''ZEROSHOT_TOOLS'', ''CODEX_HOME'', ''CLAUDE_CONFIG_DIR'', ''COPILOT_HOME''}"

definition environment_validate :: "runtime_environment \<Rightarrow> run_value_error + unit" where
  "environment_validate self =
     (let scripts = (case re_setup self of None \<Rightarrow> [] | Some s \<Rightarrow> [s])
                    @ (case re_startup self of None \<Rightarrow> [] | Some s \<Rightarrow> [s])
      in if list_ex (\<lambda>script. length script > MAX_RUNTIME_SCRIPT_BYTES \<or> contains_str [CHR 0x00] script) scripts
         then Inl ''environment scripts must be at most 65536 bytes and contain no NUL''
         else if length (re_variables self) > 64
            \<or> sum_list (map (\<lambda>(name, value). length name + length value) (re_variables self))
                > MAX_RUNTIME_VARIABLE_BYTES
            \<or> list_ex (\<lambda>(_, value). contains_str [CHR 0x00] value) (re_variables self)
         then Inl ''environment variables exceed 64 names or 256 KiB, or contain NUL''
         else if list_ex reserved_variable (bm_keys (re_variables self) @ environment_names (re_connections self))
         then Inl ''environment variable name is reserved by the target''
         else if list_ex (\<lambda>name. bm_get (re_variables self) name \<noteq> None) (environment_names (re_connections self))
         then Inl ''environment variables and connections must have distinct names''
         else Inr ())"

section \<open>The runtime plan\<close>

datatype run_size = Small | Medium | Large | Xl | GpuT4

record runtime_plan =
  rp_harness :: string
  rp_provider :: string
  rp_size :: run_size
  rp_workspace_checkpoints :: bool
  rp_active_memory :: active_memory_config
  rp_global_agents :: global_agents_config
  rp_nodes :: "(node_name, node_runtime_binding) btree_map"

definition RuntimePlan_new ::
    "runtime_lane \<Rightarrow> run_size \<Rightarrow> (node_name, node_runtime_binding) btree_map \<Rightarrow> runtime_plan" where
  "RuntimePlan_new lane run_size nodes =
     \<lparr>rp_harness = lane_harness lane, rp_provider = lane_provider lane, rp_size = run_size,
      rp_workspace_checkpoints = True, rp_active_memory = active_memory_default,
      rp_global_agents = \<lparr>ga_postmortem = postmortem_default\<rparr>, rp_nodes = nodes\<rparr>"

definition plan_lane :: "runtime_plan \<Rightarrow> runtime_lane" where
  "plan_lane self = RuntimeLane (rp_harness self) (rp_provider self)"

definition effective_lane :: "runtime_plan \<Rightarrow> node_runtime_binding \<Rightarrow> runtime_lane option" where
  "effective_lane self binding =
     (case binding of
        AgentBinding agent \<Rightarrow> Some (case ab_lane agent of Some lane \<Rightarrow> lane | None \<Rightarrow> plan_lane self)
      | _ \<Rightarrow> None)"

definition plan_lanes :: "runtime_plan \<Rightarrow> runtime_lane btree_set" where
  "plan_lanes self = bs_of_list (List.map_filter (\<lambda>(_, binding). effective_lane self binding) (rp_nodes self))"

definition has_lane_overrides :: "runtime_plan \<Rightarrow> bool" where
  "has_lane_overrides self =
     list_ex (\<lambda>(_, binding). case binding of AgentBinding agent \<Rightarrow> ab_lane agent \<noteq> None | _ \<Rightarrow> False)
       (rp_nodes self)"

text \<open>\<^verbatim>\<open>requirements.entry(key).or_default().extend(fields)\<close>.\<close>

definition require_fields ::
    "connection_key \<times> environment_variable_name list \<Rightarrow> connection_requirements \<Rightarrow> connection_requirements" where
  "require_fields entry requirements =
     (case entry of (key, names) \<Rightarrow>
       bm_insert key
         (bs_extend (case bm_get requirements key of Some known \<Rightarrow> known | None \<Rightarrow> []) names) requirements)"

definition plan_connection_requirements :: "runtime_plan \<Rightarrow> connection_requirements" where
  "plan_connection_requirements self =
     fold (\<lambda>(_, binding). fold require_fields (declared_connections binding)) (rp_nodes self) []"

definition run_connection_requirements ::
    "runtime_plan \<Rightarrow> runtime_environment option \<Rightarrow> connection_requirements" where
  "run_connection_requirements runtime environment =
     (let requirements = plan_connection_requirements runtime
      in case environment of
           None \<Rightarrow> requirements
         | Some environment \<Rightarrow> fold require_fields (re_connections environment) requirements)"

definition run_connection_requirements_with_source ::
    "runtime_plan \<Rightarrow> runtime_environment option \<Rightarrow> resolved_source option \<Rightarrow> connection_requirements" where
  "run_connection_requirements_with_source runtime environment source =
     (let requirements = run_connection_requirements runtime environment
      in case source of
           None \<Rightarrow> requirements
         | Some source \<Rightarrow>
             (case rs_remote source of
                None \<Rightarrow> requirements
              | Some remote \<Rightarrow> fold require_fields (remote_connection_requirements remote) requirements))"

section \<open>Laws\<close>

text \<open>Requirements accumulate: each key holds the union of all names declared for it.\<close>

definition required_fields :: "connection_requirements \<Rightarrow> connection_key \<Rightarrow> environment_variable_name set" where
  "required_fields requirements key =
     (case bm_get requirements key of Some names \<Rightarrow> set names | None \<Rightarrow> {})"

definition declared_fields :: "(connection_key \<times> environment_variable_name list) list \<Rightarrow> connection_key
    \<Rightarrow> environment_variable_name set" where
  "declared_fields entries key = (\<Union>(k, names) \<in> set entries. if k = key then set names else {})"

definition requirements_wf :: "connection_requirements \<Rightarrow> bool" where
  "requirements_wf requirements \<longleftrightarrow> bm_wf requirements \<and> (\<forall>(k, names) \<in> set requirements. bs_wf names)"

lemma required_fields_Nil [simp]: "required_fields [] key = {}"
  by (simp add: required_fields_def)

lemma declared_fields_simps [simp]:
  "declared_fields [] key = {}"
  "declared_fields ((k, fs) # es) key = (if k = key then set fs else {}) \<union> declared_fields es key"
  "declared_fields (es @ es') key = declared_fields es key \<union> declared_fields es' key"
  by (auto simp: declared_fields_def split: if_splits)

lemma requirements_wf_Nil [simp]: "requirements_wf []"
  by (simp add: requirements_wf_def)

lemma required_fields_require [simp]:
  "required_fields (require_fields (k, fs) r) key =
     required_fields r key \<union> (if k = key then set fs else {})"
  by (auto simp: required_fields_def require_fields_def split: option.splits)

lemma requirements_wf_require [intro]:
  "requirements_wf r \<Longrightarrow> requirements_wf (require_fields e r)"
  unfolding requirements_wf_def require_fields_def
  by (auto split: prod.splits option.splits simp: set_bm_insert dest: bm_get_SomeD)

lemma required_fields_fold:
  "required_fields (fold require_fields es r) key = required_fields r key \<union> declared_fields es key"
  by (induction es arbitrary: r) auto

lemma requirements_wf_fold [intro]:
  "requirements_wf r \<Longrightarrow> requirements_wf (fold require_fields es r)"
  by (induction es arbitrary: r) auto

lemma plan_requirements_fold:
  "required_fields (fold (\<lambda>(_, binding). fold require_fields (declared_connections binding)) nodes r) key =
     required_fields r key \<union> (\<Union>(_, binding) \<in> set nodes. declared_fields (declared_connections binding) key)"
  by (induction nodes arbitrary: r) (auto simp: required_fields_fold)

lemma plan_requirements_wf:
  "requirements_wf r \<Longrightarrow>
   requirements_wf (fold (\<lambda>(_, binding). fold require_fields (declared_connections binding)) nodes r)"
  by (induction nodes arbitrary: r) auto

lemma run_connection_requirements_wf:
  "requirements_wf (run_connection_requirements_with_source runtime environment source)"
  by (auto simp: run_connection_requirements_with_source_def run_connection_requirements_def Let_def
      plan_connection_requirements_def intro!: plan_requirements_wf requirements_wf_fold split: option.splits)

text \<open>Printable text has no control characters.\<close>

lemma decode_utf8_ascii: "list_all (\<lambda>b. b < 128) bs \<Longrightarrow> decode_utf8 bs = bs"
  by (induction bs rule: decode_utf8.induct) (auto simp: utf8_extra_def utf8_lead_def)

lemma chars_ascii: "list_all (\<lambda>c. of_char c < (128::nat)) s \<Longrightarrow> chars s = map of_char s"
  by (simp add: chars_def decode_utf8_ascii list_all_iff)

lemma graphic_no_control:
  assumes "list_all is_ascii_graphic s"
  shows "\<not> has_control s"
proof -
  have "chars s = map of_char s"
    using assms by (intro chars_ascii) (auto simp: list_all_iff is_ascii_graphic_def Let_def)
  with assms show ?thesis
    by (auto simp: has_control_def list_ex_iff list_all_iff is_ascii_graphic_def is_control_def Let_def)
qed

end
