(* ===== verification/Ledger_State.thy ===== *)
theory Ledger_State
  imports Reducer_Values Run_Plan
begin

text \<open>
  The event-sourced projection of one run (\<^verbatim>\<open>zeroshot/src/v2_run_ledger.rs\<close> and
  \<^verbatim>\<open>v2_run_ledger/state.rs\<close>): the run snapshot, the events that change it, and \<open>apply_event\<close> with
  every guard of the source. A handler that mutates the snapshot returns the new one; its callers
  drop the snapshot on an error, so the partly mutated value is never read.

  Code outside the repository is a parameter, collected in the record \<open>codec\<close>: the encoded length
  \<^verbatim>\<open>serde_json::to_vec\<close> gives an event and an admitted run (\<open>None\<close> when encoding fails) and the digest
  \<^verbatim>\<open>Sha256\<close> computes.
\<close>

section \<open>Identities of a run\<close>

type_synonym idempotency_key = string
type_synonym sha256_digest = string

record admitted_run =
  ad_title :: run_title
  ad_graph :: compiled_graph_ir
  ad_initial_input :: json
  ad_runtime :: runtime_plan
  ad_environment :: "runtime_environment option"
  ad_source :: "resolved_source option"

record execution_ref =
  er_run_id :: run_id
  er_node :: node_name
  er_node_instance :: node_instance_id
  er_execution :: execution_id

section \<open>Cursors\<close>

definition INITIAL_CURSOR :: cursor where "INITIAL_CURSOR = ''v2:0''"

definition initial_cursor :: cursor where "initial_cursor = INITIAL_CURSOR"

definition cursor_for :: "u64 \<Rightarrow> cursor" where
  "cursor_for sequence = ''v2:'' @ u64_to_string sequence"

definition strip_prefix :: "string \<Rightarrow> string \<Rightarrow> string option" where
  "strip_prefix p s = (if prefix p s then Some (drop (length p) s) else None)"

section \<open>Run data\<close>

datatype run_phase = Admitted | Running | Stopping | Finished

datatype protocol_phase = PhaseAdmitting | PhaseRunning | PhaseFinished

definition phase_protocol_phase :: "run_phase \<Rightarrow> protocol_phase" where
  "phase_protocol_phase self =
     (case self of Admitted \<Rightarrow> PhaseAdmitting | Running \<Rightarrow> PhaseRunning
      | Stopping \<Rightarrow> PhaseRunning | Finished \<Rightarrow> PhaseFinished)"

datatype node_state =
    NodeActive
  | NodeSettled (ns_at: cursor) (ns_outcome: worker_outcome)
  | NodeVoided (ns_at: cursor) (ns_reason: execution_void_reason)

record node_snapshot =
  nd_reference :: execution_ref
  nd_occurrence :: structural_occurrence
  nd_attempt :: positive_integer
  nd_input :: json
  nd_started_at :: cursor
  nd_state :: node_state
  nd_failure_diagnostic :: bool

definition node_outcome :: "node_snapshot \<Rightarrow> worker_outcome option" where
  "node_outcome self = (case nd_state self of NodeSettled _ outcome \<Rightarrow> Some outcome | _ \<Rightarrow> None)"

record primary_graph_completion =
  pg_result :: terminal_result
  pg_auxiliary_pending :: bool
  pg_delivery_execution :: "execution_id option"

record run_snapshot =
  sn_run_id :: run_id
  sn_title :: run_title
  sn_source :: "resolved_source option"
  sn_size :: run_size
  sn_cursor :: cursor
  sn_phase :: run_phase
  sn_force_stop_requested :: bool
  sn_executions :: "(execution_id, node_snapshot) btree_map"
  sn_execution_seed :: "durable_execution list"
  sn_primary_graph :: "primary_graph_completion option"
  sn_terminal :: "terminal_result option"
  sn_token_usage :: "token_usage option"
  sn_failure_context :: "failure_context option"

definition snapshot_empty ::
    "run_id \<Rightarrow> run_title \<Rightarrow> resolved_source option \<Rightarrow> run_size \<Rightarrow> run_snapshot" where
  "snapshot_empty run_id title source run_size =
     \<lparr>sn_run_id = run_id, sn_title = title, sn_source = source, sn_size = run_size,
      sn_cursor = initial_cursor, sn_phase = Admitted, sn_force_stop_requested = False,
      sn_executions = [], sn_execution_seed = [], sn_primary_graph = None, sn_terminal = None,
      sn_token_usage = None, sn_failure_context = None\<rparr>"

definition snapshot_admitted :: "run_id \<Rightarrow> admitted_run \<Rightarrow> run_snapshot" where
  "snapshot_admitted run_id admitted =
     snapshot_empty run_id (ad_title admitted) (ad_source admitted) (rp_size (ad_runtime admitted))"

definition replay_seed :: "run_snapshot \<Rightarrow> run_snapshot" where
  "replay_seed self = snapshot_empty (sn_run_id self) (sn_title self) (sn_source self) (sn_size self)"

definition execution_output :: "run_snapshot \<Rightarrow> execution_id \<Rightarrow> json option" where
  "execution_output self execution =
     (case (case bm_get (sn_executions self) execution of
              Some node \<Rightarrow> (case nd_state node of NodeSettled _ outcome \<Rightarrow> Some outcome | _ \<Rightarrow> None)
            | None \<Rightarrow>
                (case find (\<lambda>prior. de_execution prior = execution) (sn_execution_seed self) of
                   Some prior \<Rightarrow>
                     (case de_state prior of ExecSettled _ outcome \<Rightarrow> Some outcome | _ \<Rightarrow> None)
                 | None \<Rightarrow> None)) of
        Some (Verifier output _ _ _) \<Rightarrow> Some output
      | _ \<Rightarrow> None)"

definition delivery_receipt :: "run_snapshot \<Rightarrow> json option" where
  "delivery_receipt self =
     (case sn_primary_graph self of
        None \<Rightarrow> None
      | Some primary \<Rightarrow>
          (case pg_delivery_execution primary of
             None \<Rightarrow> None
           | Some execution \<Rightarrow> execution_output self execution))"

definition node_is_active :: "node_snapshot \<Rightarrow> bool" where
  "node_is_active node \<longleftrightarrow> nd_state node = NodeActive"

definition active_executions :: "run_snapshot \<Rightarrow> node_snapshot list" where
  "active_executions self = filter node_is_active (map snd (sn_executions self))"

section \<open>Events and errors\<close>

datatype safe_log_stream = LogOutput | LogError | LogSystem

type_synonym safe_log_line = utext
type_synonym unix_timestamp_millis = u64

record node_completion =
  nc_reference :: execution_ref
  nc_outcome :: worker_outcome

datatype run_event =
    PriorExecution durable_execution
  | RunStarted
  | NodeStarted execution_ref structural_occurrence positive_integer json
  | NodeCompleted node_completion
  | ExecutionVoided execution_ref execution_void_reason
  | SafeLog "execution_id option" unix_timestamp_millis safe_log_stream safe_log_line
      "failure_diagnostic_kind option"
  | TokenUsageObserved execution_id "token_usage_delta option"
  | RunTokenUsageObserved "token_usage_delta option"
  | PrimaryGraphCompleted terminal_result bool "execution_id option"
  | ForceStopRequested
  | TerminalEvent terminal_result

datatype run_ledger_error =
    RunNotFound
  | SubmissionConflict run_id
  | RunIdConflict
  | InvalidCursor
  | CursorAhead
  | AdmittedRunTooLarge
  | EventTooLarge
  | SafeLogTooLarge
  | InvalidSafeLog
  | InvalidEvent string
  | Storage
  | SqliteStorage string
  | Corrupt

definition MAX_ADMITTED_RUN_BYTES :: nat where "MAX_ADMITTED_RUN_BYTES = 2 * 1024 * 1024"
definition MAX_EVENT_BYTES :: nat where "MAX_EVENT_BYTES = 1024 * 1024"
definition MAX_PRIOR_EXECUTION_BYTES :: nat where
  "MAX_PRIOR_EXECUTION_BYTES = 2 * MAX_EVENT_BYTES + 1024"
definition MAX_SAFE_LOG_BYTES :: nat where "MAX_SAFE_LOG_BYTES = 16 * 1024"
definition MAX_REPLAY_EVENTS :: nat where "MAX_REPLAY_EVENTS = 256"
definition MAX_REPLAY_BYTES :: nat where "MAX_REPLAY_BYTES = MAX_PRIOR_EXECUTION_BYTES"

definition SafeLogLine_new :: "utext \<Rightarrow> run_ledger_error + safe_log_line" where
  "SafeLogLine_new value =
     (case (utf8_length value \<le> MAX_SAFE_LOG_BYTES, 0 \<in> set value) of
        (False, _) \<Rightarrow> Inl SafeLogTooLarge
      | (_, True) \<Rightarrow> Inl InvalidSafeLog
      | (True, False) \<Rightarrow> Inr value)"

definition cursor_sequence :: "cursor \<Rightarrow> run_ledger_error + u64" where
  "cursor_sequence cursor =
     ok_or InvalidCursor
       (case strip_prefix ''v2:'' cursor of None \<Rightarrow> None | Some value \<Rightarrow> parse_u64 value)"

record codec =
  cd_event :: "run_event \<Rightarrow> nat option"
  cd_admitted :: "admitted_run \<Rightarrow> nat option"
  cd_sha256 :: "nat list \<Rightarrow> nat list"

definition bounded_json :: "nat option \<Rightarrow> nat \<Rightarrow> unit + unit" where
  "bounded_json bytes maximum =
     (case bytes of None \<Rightarrow> Inl () | Some len \<Rightarrow> if len \<le> maximum then Inr () else Inl ())"

definition validate_event :: "codec \<Rightarrow> run_event \<Rightarrow> run_ledger_error + unit" where
  "validate_event cd event =
     (let maximum = (case event of PriorExecution _ \<Rightarrow> MAX_PRIOR_EXECUTION_BYTES | _ \<Rightarrow> MAX_EVENT_BYTES)
      in case bounded_json (cd_event cd event) maximum of Inl _ \<Rightarrow> Inl EventTooLarge | Inr _ \<Rightarrow> Inr ())"

text \<open>The public selector of an execution: a prefixed hexadecimal digest.\<close>

definition MAX_EXECUTION_REF_BYTES :: nat where "MAX_EXECUTION_REF_BYTES = 128"

definition PublicExecutionRef_new :: "string \<Rightarrow> unit + string" where
  "PublicExecutionRef_new value =
     (if value = [] then Inl ()
      else if length value > MAX_EXECUTION_REF_BYTES \<or> list_ex (\<lambda>c. is_control (of_char c)) value
      then Inl () else Inr value)"

definition hex_byte :: "nat \<Rightarrow> string" where
  "hex_byte b = [char_of (hex_digit_code (b div 16 mod 16)), char_of (hex_digit_code (b mod 16))]"

definition public_execution :: "codec \<Rightarrow> execution_ref \<Rightarrow> unit + string" where
  "public_execution cd self =
     (let bytes = (\<lambda>s. map of_char s :: nat list);
          digest = cd_sha256 cd
            (bytes ''zeroshot/native-v2/execution-ref/v1'' @ [0]
             @ bytes (er_run_id self) @ [0]
             @ bytes (er_node self) @ [0]
             @ bytes (u64_to_string (er_node_instance self)) @ [0]
             @ bytes (u64_to_string (er_execution self)))
      in PublicExecutionRef_new (''nv2-'' @ concat (map hex_byte digest)))"

section \<open>Preparing and applying events\<close>

definition is_force_stopped :: "enum_label \<Rightarrow> bool" where
  "is_force_stopped reason \<longleftrightarrow> reason = ''force_stopped''"

definition prepare_result :: "run_snapshot \<Rightarrow> terminal_result \<Rightarrow> terminal_result" where
  "prepare_result snapshot result =
     (case result of
        Failed reason context \<Rightarrow>
          if context = None \<and> \<not> is_force_stopped reason
          then Failed reason (sn_failure_context snapshot) else result
      | _ \<Rightarrow> result)"

definition prepare_event :: "run_snapshot \<Rightarrow> run_event \<Rightarrow> run_event" where
  "prepare_event snapshot event =
     (case event of
        TerminalEvent result \<Rightarrow> TerminalEvent (prepare_result snapshot result)
      | PrimaryGraphCompleted result pending execution \<Rightarrow>
          PrimaryGraphCompleted (prepare_result snapshot result) pending execution
      | _ \<Rightarrow> event)"

definition require_running :: "run_snapshot \<Rightarrow> run_ledger_error + unit" where
  "require_running snapshot =
     (if sn_phase snapshot = Running \<and> sn_primary_graph snapshot = None then Inr ()
      else Inl (InvalidEvent ''run is not dispatchable''))"

definition require_run :: "run_snapshot \<Rightarrow> execution_ref \<Rightarrow> run_ledger_error + unit" where
  "require_run snapshot reference =
     (if sn_run_id snapshot = er_run_id reference then Inr ()
      else Inl (InvalidEvent ''execution belongs to another run''))"

definition active_node :: "run_snapshot \<Rightarrow> execution_ref \<Rightarrow> run_ledger_error + node_snapshot" where
  "active_node snapshot reference =
     bind_res (ok_or (InvalidEvent ''execution was not dispatched'')
                 (bm_get (sn_executions snapshot) (er_execution reference))) (\<lambda>node.
     if nd_reference node \<noteq> reference
     then Inl (InvalidEvent ''execution reference does not match dispatch'')
     else if \<not> node_is_active node then Inl (InvalidEvent ''execution is already settled'')
     else Inr node)"

definition put_node :: "run_snapshot \<Rightarrow> execution_id \<Rightarrow> node_snapshot \<Rightarrow> run_snapshot" where
  "put_node snapshot execution node =
     snapshot\<lparr>sn_executions := bm_insert execution node (sn_executions snapshot)\<rparr>"

definition apply_prior_execution ::
    "run_snapshot \<Rightarrow> durable_execution \<Rightarrow> run_ledger_error + run_snapshot" where
  "apply_prior_execution snapshot execution =
     (if sn_phase snapshot \<noteq> Admitted
         \<or> de_state execution = ExecActive
         \<or> (sn_execution_seed snapshot \<noteq> []
            \<and> (let previous = last (sn_execution_seed snapshot)
               in de_execution previous \<ge> de_execution execution
                  \<or> de_dispatch_position previous \<ge> de_dispatch_position execution))
      then Inl (InvalidEvent ''invalid prerequisite execution'')
      else Inr (snapshot\<lparr>sn_execution_seed := sn_execution_seed snapshot @ [execution]\<rparr>))"

definition apply_run_started :: "run_snapshot \<Rightarrow> run_ledger_error + run_snapshot" where
  "apply_run_started snapshot =
     (if sn_phase snapshot \<noteq> Admitted then Inl (InvalidEvent ''run already started'')
      else Inr (snapshot\<lparr>sn_phase := Running\<rparr>))"

definition require_new_dispatch :: "run_snapshot \<Rightarrow> execution_ref \<Rightarrow> run_ledger_error + unit" where
  "require_new_dispatch snapshot reference =
     (if sn_force_stop_requested snapshot then Inl (InvalidEvent ''cannot dispatch after force-stop'')
      else if bm_get (sn_executions snapshot) (er_execution reference) \<noteq> None
         \<or> list_ex (\<lambda>prior. de_execution prior = er_execution reference) (sn_execution_seed snapshot)
      then Inl (InvalidEvent ''execution was already dispatched'')
      else Inr ())"

definition apply_node_started ::
    "run_snapshot \<Rightarrow> execution_ref \<Rightarrow> structural_occurrence \<Rightarrow> positive_integer \<Rightarrow> json \<Rightarrow> u64
       \<Rightarrow> run_ledger_error + run_snapshot" where
  "apply_node_started snapshot reference occurrence attempt input sequence =
     bind_res (require_running snapshot) (\<lambda>_.
     bind_res (require_run snapshot reference) (\<lambda>_.
     bind_res (require_new_dispatch snapshot reference) (\<lambda>_.
     Inr (put_node snapshot (er_execution reference)
       \<lparr>nd_reference = reference, nd_occurrence = occurrence, nd_attempt = attempt, nd_input = input,
        nd_started_at = cursor_for sequence, nd_state = NodeActive, nd_failure_diagnostic = False\<rparr>))))"

definition outcome_has_artifacts :: "worker_outcome \<Rightarrow> bool" where
  "outcome_has_artifacts outcome =
     (case outcome of
        Verified _ artifacts \<Rightarrow> artifacts \<noteq> []
      | Verifier _ _ _ artifacts \<Rightarrow> artifacts \<noteq> []
      | _ \<Rightarrow> False)"

definition apply_node_completed ::
    "run_snapshot \<Rightarrow> node_completion \<Rightarrow> u64 \<Rightarrow> run_ledger_error + run_snapshot" where
  "apply_node_completed snapshot completion sequence =
     bind_res (require_run snapshot (nc_reference completion)) (\<lambda>_.
     if outcome_has_artifacts (nc_outcome completion)
     then Inl (InvalidEvent ''native-v2 node outcomes cannot contain artifact references'')
     else
       (case outcome_validate (nc_outcome completion) of
          Inl _ \<Rightarrow> Inl (InvalidEvent ''invalid worker outcome'')
        | Inr _ \<Rightarrow>
            bind_res (active_node snapshot (nc_reference completion)) (\<lambda>node.
            Inr (put_node snapshot (er_execution (nc_reference completion))
              (node\<lparr>nd_state := NodeSettled (cursor_for sequence) (nc_outcome completion)\<rparr>)))))"

definition apply_execution_voided ::
    "run_snapshot \<Rightarrow> execution_ref \<Rightarrow> execution_void_reason \<Rightarrow> u64 \<Rightarrow> run_ledger_error + run_snapshot" where
  "apply_execution_voided snapshot reference reason sequence =
     bind_res (require_run snapshot reference) (\<lambda>_.
     bind_res (active_node snapshot reference) (\<lambda>node.
     Inr (put_node snapshot (er_execution reference)
       (node\<lparr>nd_state := NodeVoided (cursor_for sequence) reason\<rparr>))))"

definition diagnostic_execution ::
    "codec \<Rightarrow> run_snapshot \<Rightarrow> execution_id option
       \<Rightarrow> run_ledger_error + run_snapshot \<times> active_execution option" where
  "diagnostic_execution cd snapshot execution =
     (case execution of
        Some i \<Rightarrow>
          bind_res (ok_or (InvalidEvent ''diagnostic execution was not dispatched'')
                      (bm_get (sn_executions snapshot) i)) (\<lambda>node.
          let node = node\<lparr>nd_failure_diagnostic := True\<rparr>
          in case public_execution cd (nd_reference node) of
               Inl _ \<Rightarrow> Inl Corrupt
             | Inr public \<Rightarrow>
                 Inr (put_node snapshot i node,
                      Some \<lparr>ae_execution = public, ae_node = er_node (nd_reference node)\<rparr>))
      | None \<Rightarrow> Inr (snapshot, None))"

definition get_failure_context :: "run_snapshot \<Rightarrow> failure_context" where
  "get_failure_context snapshot =
     (case sn_failure_context snapshot of Some c \<Rightarrow> c | None \<Rightarrow> failure_context_default)"

definition apply_failure_diagnostic ::
    "codec \<Rightarrow> run_snapshot \<Rightarrow> execution_id option \<Rightarrow> safe_log_stream \<Rightarrow> safe_log_line
       \<Rightarrow> failure_diagnostic_kind option \<Rightarrow> u64 \<Rightarrow> run_ledger_error + run_snapshot" where
  "apply_failure_diagnostic cd snapshot execution stream line diagnostic sequence =
     (case diagnostic of
        None \<Rightarrow> Inr snapshot
      | Some kind \<Rightarrow>
          if stream \<noteq> LogError
          then Inl (InvalidEvent ''failure diagnostic must use the error stream'')
          else if kind = Incomplete
          then Inr (snapshot\<lparr>sn_failure_context :=
                 Some ((get_failure_context snapshot)\<lparr>fc_incomplete := True\<rparr>)\<rparr>)
          else
            bind_res (diagnostic_execution cd snapshot execution) (\<lambda>(snapshot, public).
            let message = unwrap_or_redacted (BoundedLogMessage_new
                  (bounded_log_text (visible_text line) MAX_LOG_MESSAGE_BYTES));
                diagnostic = \<lparr>fd_message = message, fd_execution = public,
                              fd_cursor = Some (cursor_for sequence)\<rparr>;
                context = get_failure_context snapshot
            in Inr (snapshot\<lparr>sn_failure_context := Some
                 (if execution = None \<and> fc_primary context = None
                  then context\<lparr>fc_primary := Some diagnostic\<rparr>
                  else failure_context_record context diagnostic)\<rparr>)))"

definition apply_safe_log ::
    "codec \<Rightarrow> run_snapshot \<Rightarrow> execution_id option \<Rightarrow> safe_log_stream \<Rightarrow> safe_log_line
       \<Rightarrow> failure_diagnostic_kind option \<Rightarrow> u64 \<Rightarrow> run_ledger_error + run_snapshot" where
  "apply_safe_log cd snapshot execution stream line diagnostic sequence =
     (if (case execution of Some i \<Rightarrow> bm_get (sn_executions snapshot) i = None | None \<Rightarrow> False)
      then Inl (InvalidEvent ''log references an unknown execution'')
      else apply_failure_diagnostic cd snapshot execution stream line diagnostic sequence)"

definition add_tokens :: "token_count \<Rightarrow> token_count \<Rightarrow> run_ledger_error + token_count" where
  "add_tokens left right = ok_or (InvalidEvent ''token usage overflow'') (token_checked_add left right)"

definition add_optional_tokens ::
    "token_count option \<Rightarrow> token_count option \<Rightarrow> run_ledger_error + token_count option" where
  "add_optional_tokens left right =
     (case (left, right) of
        (Some l, Some r) \<Rightarrow> bind_res (add_tokens l r) (\<lambda>t. Inr (Some t))
      | _ \<Rightarrow> Inr None)"

definition add_usage ::
    "run_snapshot \<Rightarrow> token_usage_delta option \<Rightarrow> run_ledger_error + run_snapshot" where
  "add_usage snapshot usage =
     (case (sn_token_usage snapshot, usage) of
        (None, Some usage) \<Rightarrow>
          Inr (snapshot\<lparr>sn_token_usage := Some
            \<lparr>tu_input_tokens = td_input_tokens usage, tu_output_tokens = td_output_tokens usage,
             tu_cache_read_input_tokens = td_cache_read_input_tokens usage,
             tu_cache_creation_input_tokens = td_cache_creation_input_tokens usage,
             tu_complete = True\<rparr>\<rparr>)
      | (None, None) \<Rightarrow>
          Inr (snapshot\<lparr>sn_token_usage := Some
            \<lparr>tu_input_tokens = 0, tu_output_tokens = 0, tu_cache_read_input_tokens = None,
             tu_cache_creation_input_tokens = None, tu_complete = False\<rparr>\<rparr>)
      | (Some sum_total, Some usage) \<Rightarrow>
          bind_res (add_tokens (tu_input_tokens sum_total) (td_input_tokens usage)) (\<lambda>input.
          bind_res (add_tokens (tu_output_tokens sum_total) (td_output_tokens usage)) (\<lambda>output.
          bind_res (add_optional_tokens (tu_cache_read_input_tokens sum_total)
                      (td_cache_read_input_tokens usage)) (\<lambda>cache_read.
          bind_res (add_optional_tokens (tu_cache_creation_input_tokens sum_total)
                      (td_cache_creation_input_tokens usage)) (\<lambda>cache_creation.
          Inr (snapshot\<lparr>sn_token_usage := Some
            (sum_total\<lparr>tu_input_tokens := input, tu_output_tokens := output,
                   tu_cache_read_input_tokens := cache_read,
                   tu_cache_creation_input_tokens := cache_creation\<rparr>)\<rparr>)))))
      | (Some sum_total, None) \<Rightarrow>
          Inr (snapshot\<lparr>sn_token_usage := Some (sum_total\<lparr>tu_complete := False\<rparr>)\<rparr>))"

definition require_active_execution :: "run_snapshot \<Rightarrow> execution_id \<Rightarrow> run_ledger_error + unit" where
  "require_active_execution snapshot execution =
     (case bm_get (sn_executions snapshot) execution of
        Some node \<Rightarrow>
          if node_is_active node then Inr ()
          else Inl (InvalidEvent ''token usage references a settled execution'')
      | None \<Rightarrow> Inl (InvalidEvent ''token usage references an unknown execution''))"

definition apply_token_usage ::
    "run_snapshot \<Rightarrow> execution_id \<Rightarrow> token_usage_delta option \<Rightarrow> run_ledger_error + run_snapshot" where
  "apply_token_usage snapshot execution usage =
     bind_res (require_active_execution snapshot execution) (\<lambda>_. add_usage snapshot usage)"

definition apply_primary_graph_completed ::
    "run_snapshot \<Rightarrow> terminal_result \<Rightarrow> bool \<Rightarrow> execution_id option
       \<Rightarrow> run_ledger_error + run_snapshot" where
  "apply_primary_graph_completed snapshot result auxiliary_pending delivery_execution =
     (if \<not> (sn_phase snapshot = Running \<or> sn_phase snapshot = Stopping)
      then Inl (InvalidEvent ''primary graph has not started'')
      else if sn_primary_graph snapshot \<noteq> None
      then Inl (InvalidEvent ''primary graph already completed'')
      else if active_executions snapshot \<noteq> []
      then Inl (InvalidEvent ''primary graph still has active executions'')
      else if (case delivery_execution of
                 Some execution \<Rightarrow> execution_output snapshot execution = None | None \<Rightarrow> False)
      then Inl (InvalidEvent ''delivery evidence references no completed verifier'')
      else Inr (snapshot\<lparr>sn_primary_graph := Some
             \<lparr>pg_result = result, pg_auxiliary_pending = auxiliary_pending,
              pg_delivery_execution = delivery_execution\<rparr>\<rparr>))"

definition apply_force_stop :: "run_snapshot \<Rightarrow> run_ledger_error + run_snapshot" where
  "apply_force_stop snapshot =
     (if sn_force_stop_requested snapshot
      then Inl (InvalidEvent ''force-stop was already requested'')
      else Inr (snapshot\<lparr>sn_force_stop_requested := True, sn_phase := Stopping\<rparr>))"

definition apply_terminal :: "run_snapshot \<Rightarrow> terminal_result \<Rightarrow> run_ledger_error + run_snapshot" where
  "apply_terminal snapshot result =
     (if active_executions snapshot \<noteq> []
      then Inl (InvalidEvent ''cannot finish with active executions'')
      else Inr (snapshot\<lparr>
             sn_primary_graph :=
               map_option (\<lambda>primary. primary\<lparr>pg_auxiliary_pending := False\<rparr>) (sn_primary_graph snapshot),
             sn_terminal := Some result, sn_phase := Finished\<rparr>))"

definition apply_observation_event ::
    "codec \<Rightarrow> run_snapshot \<Rightarrow> run_event \<Rightarrow> u64 \<Rightarrow> run_ledger_error + run_snapshot" where
  "apply_observation_event cd snapshot event sequence =
     (case event of
        SafeLog execution _ stream line diagnostic \<Rightarrow>
          apply_safe_log cd snapshot execution stream line diagnostic sequence
      | TokenUsageObserved execution usage \<Rightarrow> apply_token_usage snapshot execution usage
      | RunTokenUsageObserved usage \<Rightarrow> add_usage snapshot usage
      | _ \<Rightarrow> Inl (InvalidEvent ''invalid observation event''))"

definition apply_event_kind ::
    "codec \<Rightarrow> run_snapshot \<Rightarrow> run_event \<Rightarrow> u64 \<Rightarrow> run_ledger_error + run_snapshot" where
  "apply_event_kind cd snapshot event sequence =
     (case event of
        PriorExecution execution \<Rightarrow> apply_prior_execution snapshot execution
      | RunStarted \<Rightarrow> apply_run_started snapshot
      | NodeStarted reference occurrence attempt input \<Rightarrow>
          apply_node_started snapshot reference occurrence attempt input sequence
      | NodeCompleted completion \<Rightarrow> apply_node_completed snapshot completion sequence
      | ExecutionVoided reference reason \<Rightarrow> apply_execution_voided snapshot reference reason sequence
      | SafeLog _ _ _ _ _ \<Rightarrow> apply_observation_event cd snapshot event sequence
      | TokenUsageObserved _ _ \<Rightarrow> apply_observation_event cd snapshot event sequence
      | RunTokenUsageObserved _ \<Rightarrow> apply_observation_event cd snapshot event sequence
      | PrimaryGraphCompleted result auxiliary_pending delivery_execution \<Rightarrow>
          apply_primary_graph_completed snapshot result auxiliary_pending delivery_execution
      | ForceStopRequested \<Rightarrow> apply_force_stop snapshot
      | TerminalEvent result \<Rightarrow> apply_terminal snapshot result)"

definition apply_event ::
    "codec \<Rightarrow> run_snapshot \<Rightarrow> run_event \<Rightarrow> u64 \<Rightarrow> run_ledger_error + run_snapshot" where
  "apply_event cd snapshot event sequence =
     (if sn_terminal snapshot \<noteq> None then Inl (InvalidEvent ''run is already terminal'')
      else
        bind_res (validate_event cd event) (\<lambda>_.
        bind_res (apply_event_kind cd snapshot event sequence) (\<lambda>snapshot.
        Inr (snapshot\<lparr>sn_cursor := cursor_for sequence\<rparr>))))"

end
