(* ===== verification/Ledger_Laws.thy ===== *)
theory Ledger_Laws
  imports Ledger_State
begin

text \<open>
  What the projection of a run promises. \<open>event_step\<close> states declaratively which events a run admits
  in which state and what each changes; \<open>apply_event_kind\<close> computes exactly that relation. The
  invariant \<open>run_ok\<close> and the relation \<open>extends\<close> (settlements are final, facts are only added) follow
  by cases on the step and by rule induction over \<open>reaches\<close>.
\<close>

section \<open>Cursors\<close>

lemma initial_cursor_for: "initial_cursor = cursor_for 0"
  by (simp add: initial_cursor_def INITIAL_CURSOR_def cursor_for_def u64_to_string.simps digit_char_def char_of_def bit_0)

lemma cursor_for_sequence [simp]: "n \<le> u64_max \<Longrightarrow> cursor_sequence (cursor_for n) = Inr n"
  by (simp add: cursor_sequence_def cursor_for_def strip_prefix_def parse_u64_to_string)

lemma cursor_for_inj [simp]: "cursor_for m = cursor_for n \<longleftrightarrow> m = n"
  using u64_to_string_inj by (auto simp: cursor_for_def)

section \<open>The steps of a run\<close>

definition fresh_seed :: "run_snapshot \<Rightarrow> durable_execution \<Rightarrow> bool" where
  "fresh_seed s e \<longleftrightarrow>
     (sn_execution_seed s \<noteq> [] \<longrightarrow>
        de_execution (last (sn_execution_seed s)) < de_execution e
        \<and> de_dispatch_position (last (sn_execution_seed s)) < de_dispatch_position e)"

definition node_at :: "run_snapshot \<Rightarrow> execution_ref \<Rightarrow> node_snapshot \<Rightarrow> bool" where
  "node_at s r node \<longleftrightarrow>
     bm_get (sn_executions s) (er_execution r) = Some node \<and> nd_reference node = r
     \<and> nd_state node = NodeActive \<and> er_run_id r = sn_run_id s"

definition unused :: "run_snapshot \<Rightarrow> execution_id \<Rightarrow> bool" where
  "unused s x \<longleftrightarrow> bm_get (sn_executions s) x = None \<and> x \<notin> de_execution ` set (sn_execution_seed s)"

text \<open>Which outcomes an execution may settle with: a result or a verdict without artifacts, or a failure
  whose reason belongs to its code.\<close>

inductive recordable :: "worker_outcome \<Rightarrow> bool" where
  "recordable (Verified v [])"
| "recordable (Verifier v verdicts w [])"
| "recordable (OutcomeError code DeclaredFailure)"
| "reason \<in> {PolicyDenied, InteractiveInputRequired, AuthenticationRequired} \<Longrightarrow>
   recordable (OutcomeError Refusal reason)"
| "recordable (OutcomeError Malformed MalformedResult)"

text \<open>What a run keeps of its failures: the last five diagnostics, marked incomplete once one was dropped.\<close>

inductive remembers :: "failure_context \<Rightarrow> failure_diagnostic \<Rightarrow> failure_context \<Rightarrow> bool" for c d where
  "length (fc_recorded c) \<noteq> 5 \<Longrightarrow> remembers c d (c\<lparr>fc_recorded := fc_recorded c @ [d]\<rparr>)"
| "fc_recorded c = oldest # rest \<Longrightarrow> length rest = 4 \<Longrightarrow>
   remembers c d (c\<lparr>fc_recorded := rest @ [d], fc_incomplete := True\<rparr>)"

definition known_failures :: "run_snapshot \<Rightarrow> failure_context" where
  "known_failures s = (case sn_failure_context s of
     Some c \<Rightarrow> c | None \<Rightarrow> \<lparr>fc_primary = None, fc_recorded = [], fc_incomplete = False\<rparr>)"

definition diagnostic_at :: "u64 \<Rightarrow> safe_log_line \<Rightarrow> active_execution option \<Rightarrow> failure_diagnostic" where
  "diagnostic_at n line public =
     \<lparr>fd_message = bounded_log_text (visible_text line) 16384, fd_execution = public,
      fd_cursor = Some (cursor_for n)\<rparr>"

text \<open>What a log line changes: an ordinary line nothing; a line that marks the diagnostics incomplete only
  that mark; a failure of the run becomes the primary failure if there is none yet and is remembered
  otherwise; a failure of an execution flags that execution and is remembered with its public name.
  Every diagnostic stands on the error stream.\<close>

inductive records_diagnostic ::
    "codec \<Rightarrow> u64 \<Rightarrow> run_snapshot \<Rightarrow> execution_id option \<Rightarrow> safe_log_stream \<Rightarrow> safe_log_line
       \<Rightarrow> failure_diagnostic_kind option \<Rightarrow> run_snapshot \<Rightarrow> bool" for cd n s where
  "records_diagnostic cd n s ex stream line None s"
| "records_diagnostic cd n s ex LogError line (Some Incomplete)
     (s\<lparr>sn_failure_context := Some ((known_failures s)\<lparr>fc_incomplete := True\<rparr>)\<rparr>)"
| "fc_primary (known_failures s) = None \<Longrightarrow>
   records_diagnostic cd n s None LogError line (Some Failure)
     (s\<lparr>sn_failure_context := Some ((known_failures s)\<lparr>fc_primary := Some (diagnostic_at n line None)\<rparr>)\<rparr>)"
| "fc_primary (known_failures s) \<noteq> None \<Longrightarrow> remembers (known_failures s) (diagnostic_at n line None) c \<Longrightarrow>
   records_diagnostic cd n s None LogError line (Some Failure) (s\<lparr>sn_failure_context := Some c\<rparr>)"
| "bm_get (sn_executions s) x = Some node \<Longrightarrow> public_execution cd (nd_reference node) = Inr public \<Longrightarrow>
   remembers (known_failures s)
     (diagnostic_at n line (Some \<lparr>ae_execution = public, ae_node = er_node (nd_reference node)\<rparr>)) c \<Longrightarrow>
   records_diagnostic cd n s (Some x) LogError line (Some Failure)
     ((put_node s x (node\<lparr>nd_failure_diagnostic := True\<rparr>))\<lparr>sn_failure_context := Some c\<rparr>)"

text \<open>What a usage report changes: the counters are exact sums that JavaScript represents (at most
  \<open>2\<^sup>53 - 1\<close>), a cache counter survives only while every report has one, and a missing report makes the
  usage incomplete.\<close>

definition sum_reported :: "token_count option \<Rightarrow> token_count option \<Rightarrow> token_count option" where
  "sum_reported a b = (case (a, b) of (Some x, Some y) \<Rightarrow> Some (x + y) | _ \<Rightarrow> None)"

definition representable :: "token_count option \<Rightarrow> bool" where
  "representable t \<longleftrightarrow> (\<forall>x. t = Some x \<longrightarrow> x \<le> 2 ^ 53 - 1)"

inductive counts_usage :: "run_snapshot \<Rightarrow> token_usage_delta option \<Rightarrow> run_snapshot \<Rightarrow> bool" for s where
  "sn_token_usage s = None \<Longrightarrow>
   counts_usage s (Some d) (s\<lparr>sn_token_usage := Some
     \<lparr>tu_input_tokens = td_input_tokens d, tu_output_tokens = td_output_tokens d,
      tu_cache_read_input_tokens = td_cache_read_input_tokens d,
      tu_cache_creation_input_tokens = td_cache_creation_input_tokens d, tu_complete = True\<rparr>\<rparr>)"
| "sn_token_usage s = None \<Longrightarrow>
   counts_usage s None (s\<lparr>sn_token_usage := Some
     \<lparr>tu_input_tokens = 0, tu_output_tokens = 0, tu_cache_read_input_tokens = None,
      tu_cache_creation_input_tokens = None, tu_complete = False\<rparr>\<rparr>)"
| "sn_token_usage s = Some t \<Longrightarrow>
   i = tu_input_tokens t + td_input_tokens d \<Longrightarrow> o' = tu_output_tokens t + td_output_tokens d \<Longrightarrow>
   r = sum_reported (tu_cache_read_input_tokens t) (td_cache_read_input_tokens d) \<Longrightarrow>
   w = sum_reported (tu_cache_creation_input_tokens t) (td_cache_creation_input_tokens d) \<Longrightarrow>
   list_all representable [Some i, Some o', r, w] \<Longrightarrow>
   counts_usage s (Some d) (s\<lparr>sn_token_usage := Some
     \<lparr>tu_input_tokens = i, tu_output_tokens = o', tu_cache_read_input_tokens = r,
      tu_cache_creation_input_tokens = w, tu_complete = tu_complete t\<rparr>\<rparr>)"
| "sn_token_usage s = Some t \<Longrightarrow>
   counts_usage s None (s\<lparr>sn_token_usage := Some (t\<lparr>tu_complete := False\<rparr>)\<rparr>)"

inductive event_step :: "codec \<Rightarrow> u64 \<Rightarrow> run_snapshot \<Rightarrow> run_event \<Rightarrow> run_snapshot \<Rightarrow> bool"
  for cd n s where
  step_prior:
    "sn_phase s = Admitted \<Longrightarrow> de_state e \<noteq> ExecActive \<Longrightarrow> fresh_seed s e \<Longrightarrow>
     event_step cd n s (PriorExecution e) (s\<lparr>sn_execution_seed := sn_execution_seed s @ [e]\<rparr>)"
| step_started:
    "sn_phase s = Admitted \<Longrightarrow> event_step cd n s RunStarted (s\<lparr>sn_phase := Running\<rparr>)"
| step_node:
    "sn_phase s = Running \<Longrightarrow> sn_primary_graph s = None \<Longrightarrow> \<not> sn_force_stop_requested s \<Longrightarrow>
     er_run_id r = sn_run_id s \<Longrightarrow> unused s (er_execution r) \<Longrightarrow>
     event_step cd n s (NodeStarted r oc a v)
       (put_node s (er_execution r)
          \<lparr>nd_reference = r, nd_occurrence = oc, nd_attempt = a, nd_input = v,
           nd_started_at = cursor_for n, nd_state = NodeActive, nd_failure_diagnostic = False\<rparr>)"
| step_completed:
    "node_at s (nc_reference c) node \<Longrightarrow> recordable (nc_outcome c) \<Longrightarrow>
     event_step cd n s (NodeCompleted c)
       (put_node s (er_execution (nc_reference c))
          (node\<lparr>nd_state := NodeSettled (cursor_for n) (nc_outcome c)\<rparr>))"
| step_voided:
    "node_at s r node \<Longrightarrow>
     event_step cd n s (ExecutionVoided r reason)
       (put_node s (er_execution r) (node\<lparr>nd_state := NodeVoided (cursor_for n) reason\<rparr>))"
| step_log:
    "(\<And>x. ex = Some x \<Longrightarrow> bm_get (sn_executions s) x \<noteq> None) \<Longrightarrow>
     records_diagnostic cd n s ex stream line kind s' \<Longrightarrow>
     event_step cd n s (SafeLog ex ts stream line kind) s'"
| step_usage:
    "bm_get (sn_executions s) x = Some node \<Longrightarrow> nd_state node = NodeActive \<Longrightarrow>
     counts_usage s usage s' \<Longrightarrow> event_step cd n s (TokenUsageObserved x usage) s'"
| step_run_usage:
    "counts_usage s usage s' \<Longrightarrow> event_step cd n s (RunTokenUsageObserved usage) s'"
| step_primary:
    "sn_phase s \<in> {Running, Stopping} \<Longrightarrow> sn_primary_graph s = None \<Longrightarrow> active_executions s = [] \<Longrightarrow>
     (\<And>x. delivery = Some x \<Longrightarrow> execution_output s x \<noteq> None) \<Longrightarrow>
     event_step cd n s (PrimaryGraphCompleted result pending delivery)
       (s\<lparr>sn_primary_graph := Some \<lparr>pg_result = result, pg_auxiliary_pending = pending,
                                     pg_delivery_execution = delivery\<rparr>\<rparr>)"
| step_force:
    "\<not> sn_force_stop_requested s \<Longrightarrow>
     event_step cd n s ForceStopRequested (s\<lparr>sn_force_stop_requested := True, sn_phase := Stopping\<rparr>)"
| step_terminal:
    "active_executions s = [] \<Longrightarrow>
     event_step cd n s (TerminalEvent result)
       (s\<lparr>sn_primary_graph := map_option (\<lambda>p. p\<lparr>pg_auxiliary_pending := False\<rparr>) (sn_primary_graph s),
           sn_terminal := Some result, sn_phase := Finished\<rparr>)"

section \<open>The observation handlers\<close>

lemma recordable_iff: "recordable out \<longleftrightarrow> \<not> outcome_has_artifacts out \<and> outcome_validate out = Inr ()"
proof (cases out)
  case (OutcomeError code reason)
  then show ?thesis
    by (cases code; cases reason)
      (simp_all add: recordable.simps outcome_has_artifacts_def outcome_validate_def valid_failure_pair_def)
qed (auto simp: recordable.simps outcome_has_artifacts_def outcome_validate_def)

lemma remembers_iff: "remembers c d c' \<longleftrightarrow> c' = failure_context_record c d"
proof (cases "length (fc_recorded c) = 5")
  case True
  then obtain oldest rest where "fc_recorded c = oldest # rest" "length rest = 4"
    by (cases "fc_recorded c") auto
  then show ?thesis by (auto simp: remembers.simps failure_context_record_def MAX_RECORDED_FAILURES_def)
qed (auto simp: remembers.simps failure_context_record_def MAX_RECORDED_FAILURES_def)

lemma known_failures_eq: "get_failure_context s = known_failures s"
  by (simp add: get_failure_context_def known_failures_def failure_context_default_def split: option.splits)

lemma known_failures_put [simp]: "known_failures (put_node s x node) = known_failures s"
  by (simp add: known_failures_def put_node_def)

lemma diagnostic_execution_iff:
  "diagnostic_execution cd s ex = Inr (t, public) \<longleftrightarrow>
     (ex = None \<and> t = s \<and> public = None)
     \<or> (\<exists>x node p. ex = Some x \<and> bm_get (sn_executions s) x = Some node
          \<and> public_execution cd (nd_reference node) = Inr p
          \<and> t = put_node s x (node\<lparr>nd_failure_diagnostic := True\<rparr>)
          \<and> public = Some \<lparr>ae_execution = p, ae_node = er_node (nd_reference node)\<rparr>)"
proof (cases ex)
  case (Some x)
  show ?thesis
  proof (cases "bm_get (sn_executions s) x")
    case (Some node)
    then show ?thesis using \<open>ex = Some x\<close>
      by (cases "public_execution cd (nd_reference node)") (auto simp: diagnostic_execution_def ok_or_def)
  qed (simp add: Some diagnostic_execution_def ok_or_def)
qed (auto simp: diagnostic_execution_def)

text \<open>A message cut to the bounds of a log message is never redacted.\<close>

lemma bounded_message:
  "unwrap_or_redacted (BoundedLogMessage_new (bounded_log_text (visible_text line) MAX_LOG_MESSAGE_BYTES))
     = bounded_log_text (visible_text line) 16384"
proof -
  let ?m = "bounded_log_text (visible_text line) MAX_LOG_MESSAGE_BYTES"
  have "utf8_length ?m \<le> MAX_LOG_MESSAGE_BYTES"
    by (rule bounded_log_text_bound) (simp add: MAX_LOG_MESSAGE_BYTES_def)
  moreover have "\<not> is_control c" if "c \<in> set ?m" for c
    using bounded_log_text_chars[OF that] visible_text_no_control by blast
  ultimately have "BoundedLogMessage_new ?m = Inr ?m" by (auto simp: BoundedLogMessage_new_def list_ex_iff)
  then show ?thesis by (simp add: unwrap_or_redacted_def MAX_LOG_MESSAGE_BYTES_def)
qed

lemma records_diagnostic_iff:
  "records_diagnostic cd n s ex stream line kind s' \<longleftrightarrow>
     apply_failure_diagnostic cd s ex stream line kind n = Inr s'"
proof (cases kind)
  case (Some k)
  show ?thesis
  proof (cases "k = Incomplete \<or> stream \<noteq> LogError")
    case False
    then have k: "k = Failure" "stream = LogError" by (cases k; auto)+
    have "apply_failure_diagnostic cd s ex stream line kind n =
      bind_res (diagnostic_execution cd s ex) (\<lambda>(t, public).
        Inr (t\<lparr>sn_failure_context := Some (if ex = None \<and> fc_primary (known_failures t) = None
              then (known_failures t)\<lparr>fc_primary := Some (diagnostic_at n line public)\<rparr>
              else failure_context_record (known_failures t) (diagnostic_at n line public))\<rparr>))"
      unfolding apply_failure_diagnostic_def Some k bounded_message known_failures_eq diagnostic_at_def
      by (simp add: Let_def cong: bind_res_cong)
    then show ?thesis
      by (cases ex)
        (auto simp: records_diagnostic.simps bind_res_eq_Inr diagnostic_execution_iff remembers_iff Some k)
  qed (auto simp: records_diagnostic.simps apply_failure_diagnostic_def Some known_failures_eq)
qed (auto simp: records_diagnostic.simps apply_failure_diagnostic_def)

lemma add_tokens_iff: "add_tokens a b = Inr c \<longleftrightarrow> c = a + b \<and> representable (Some (a + b))"
  by (auto simp: add_tokens_def ok_or_eq_Inr token_checked_add_iff representable_def MAX_SAFE_GENERATION_def)

lemma add_optional_tokens_iff:
  "add_optional_tokens a b = Inr c \<longleftrightarrow> c = sum_reported a b \<and> representable (sum_reported a b)"
  by (auto simp: add_optional_tokens_def sum_reported_def add_tokens_iff res_simps representable_def
      split: option.splits)

lemma counts_usage_iff: "counts_usage s usage s' \<longleftrightarrow> add_usage s usage = Inr s'"
  by (cases "sn_token_usage s"; cases usage)
    (auto simp: counts_usage.simps add_usage_def add_tokens_iff add_optional_tokens_iff res_simps)

lemmas handler_iffs = recordable_iff records_diagnostic_iff counts_usage_iff

declare event_step.cases [cases del]

lemmas event_step_cases [consumes 1, constraints 2, case_names step_prior step_started step_node step_completed
    step_voided step_log step_usage step_run_usage step_primary step_force step_terminal,
    cases pred: event_step] =
  event_step.cases[unfolded handler_iffs conj_imp_eq_imp_imp]

inductive_simps event_step_inversion:
  "event_step cd n s (PriorExecution e) s'" "event_step cd n s RunStarted s'"
  "event_step cd n s (NodeStarted r oc a v) s'" "event_step cd n s (NodeCompleted c) s'"
  "event_step cd n s (ExecutionVoided r reason) s'" "event_step cd n s (SafeLog ex ts stream line kind) s'"
  "event_step cd n s (TokenUsageObserved x usage) s'" "event_step cd n s (RunTokenUsageObserved usage) s'"
  "event_step cd n s (PrimaryGraphCompleted result pending delivery) s'"
  "event_step cd n s ForceStopRequested s'" "event_step cd n s (TerminalEvent result) s'"

lemmas event_step_simps = event_step_inversion[unfolded handler_iffs]

lemma active_node_at:
  "sn_run_id s = er_run_id r \<Longrightarrow> active_node s r = Inr node \<longleftrightarrow> node_at s r node"
  by (auto simp: active_node_def node_at_def node_is_active_def res_simps split: if_splits)

lemma require_run_ok: "require_run s r = Inr u \<longleftrightarrow> sn_run_id s = er_run_id r"
  by (simp add: require_run_def)

lemma node_at_run: "node_at s r node \<Longrightarrow> sn_run_id s = er_run_id r"
  by (simp add: node_at_def)

lemma require_new_dispatch_ok:
  "require_new_dispatch s r = Inr u \<longleftrightarrow> \<not> sn_force_stop_requested s \<and> unused s (er_execution r)"
proof -
  have "list_ex (\<lambda>p. de_execution p = er_execution r) (sn_execution_seed s) \<longleftrightarrow>
      er_execution r \<in> de_execution ` set (sn_execution_seed s)" by (auto simp: list_ex_iff) (metis imageI)
  then show ?thesis by (simp add: require_new_dispatch_def unused_def)
qed

lemma apply_node_started_iff:
  "apply_node_started s r oc a v n = Inr s' \<longleftrightarrow> event_step cd n s (NodeStarted r oc a v) s'"
  by (auto simp: apply_node_started_def require_running_def require_run_def require_new_dispatch_ok
      event_step_simps res_simps split: if_splits)

lemma apply_node_completed_iff:
  "apply_node_completed s c n = Inr s' \<longleftrightarrow> event_step cd n s (NodeCompleted c) s'"
proof (cases "sn_run_id s = er_run_id (nc_reference c)")
  case True
  then show ?thesis
    by (auto simp: apply_node_completed_def require_run_def event_step_simps active_node_at res_simps
        split: sum.splits if_splits)
qed (auto simp: apply_node_completed_def require_run_def event_step_simps node_at_def)

lemma apply_execution_voided_iff:
  "apply_execution_voided s r reason n = Inr s' \<longleftrightarrow> event_step cd n s (ExecutionVoided r reason) s'"
proof (cases "sn_run_id s = er_run_id r")
  case True
  then show ?thesis
    by (auto simp: apply_execution_voided_def require_run_def event_step_simps active_node_at res_simps)
qed (auto simp: apply_execution_voided_def require_run_def event_step_simps node_at_def)

lemma apply_prior_execution_iff:
  "apply_prior_execution s e = Inr s' \<longleftrightarrow> event_step cd n s (PriorExecution e) s'"
  by (auto simp: apply_prior_execution_def event_step_simps fresh_seed_def Let_def)

lemma apply_token_usage_iff:
  "apply_token_usage s x usage = Inr s' \<longleftrightarrow> event_step cd n s (TokenUsageObserved x usage) s'"
  by (auto simp: apply_token_usage_def require_active_execution_def event_step_simps node_is_active_def
      res_simps split: option.splits if_splits)

text \<open>The handlers compute the step relation.\<close>

lemma apply_event_kind_iff: "apply_event_kind cd s ev n = Inr s' \<longleftrightarrow> event_step cd n s ev s'"
proof (cases ev)
  case (SafeLog ex ts stream line kind)
  then show ?thesis
    by (auto simp: apply_event_kind_def apply_observation_event_def apply_safe_log_def event_step_simps
        split: option.splits)
next
  case (PrimaryGraphCompleted result pending delivery)
  then show ?thesis
    by (auto simp: apply_event_kind_def apply_primary_graph_completed_def event_step_simps
        split: option.splits)
qed (simp_all add: apply_event_kind_def apply_observation_event_def apply_node_started_iff[where cd = cd]
    apply_node_completed_iff[where cd = cd] apply_execution_voided_iff[where cd = cd]
    apply_prior_execution_iff[where cd = cd and n = n] apply_token_usage_iff[where cd = cd and n = n],
    auto simp: apply_run_started_def apply_force_stop_def apply_terminal_def event_step_simps)

lemma validate_event_iff:
  "validate_event cd ev = Inr () \<longleftrightarrow>
     (\<exists>bytes. cd_event cd ev = Some bytes
        \<and> bytes \<le> (case ev of PriorExecution _ \<Rightarrow> 2 * 1024 ^ 2 + 1024 | _ \<Rightarrow> 1024 ^ 2))"
  by (cases "cd_event cd ev"; cases ev)
    (auto simp: validate_event_def bounded_json_def MAX_PRIOR_EXECUTION_BYTES_def MAX_EVENT_BYTES_def)

lemma apply_event_iff:
  "apply_event cd s ev n = Inr s' \<longleftrightarrow>
     sn_terminal s = None \<and> validate_event cd ev = Inr ()
     \<and> (\<exists>t. event_step cd n s ev t \<and> s' = t\<lparr>sn_cursor := cursor_for n\<rparr>)"
  by (auto simp: apply_event_def res_simps apply_event_kind_iff)

section \<open>Shapes of the observation handlers\<close>

lemma diagnostic_execution_shape:
  assumes "diagnostic_execution cd s ex = Inr (s', public)"
  shows "s' = s \<or> (\<exists>x node. bm_get (sn_executions s) x = Some node
      \<and> s' = put_node s x (node\<lparr>nd_failure_diagnostic := True\<rparr>))"
proof (cases ex)
  case (Some x)
  then obtain node where node: "bm_get (sn_executions s) x = Some node"
    and p: "(case public_execution cd (nd_reference node) of
               Inl _ \<Rightarrow> Inl Corrupt
             | Inr public \<Rightarrow> Inr (put_node s x (node\<lparr>nd_failure_diagnostic := True\<rparr>),
                      Some \<lparr>ae_execution = public,
                    ae_node = er_node (nd_reference (node\<lparr>nd_failure_diagnostic := True\<rparr>))\<rparr>)) = Inr (s', public)"
    using assms by (auto simp: diagnostic_execution_def Let_def ok_or_eq_Inr elim!: bind_resE)
  from p show ?thesis using node by (cases "public_execution cd (nd_reference node)") auto
qed (use assms in \<open>simp add: diagnostic_execution_def\<close>)

definition context_bounded :: "failure_context option \<Rightarrow> bool" where
  "context_bounded fc = (case fc of Some c \<Rightarrow> length (fc_recorded c) \<le> MAX_RECORDED_FAILURES | None \<Rightarrow> True)"

lemma failure_diagnostic_shape:
  assumes "apply_failure_diagnostic cd s ex stream line kind n = Inr s'"
  obtains fc t where "s' = t\<lparr>sn_failure_context := fc\<rparr>"
    "t = s \<or> (\<exists>x node. bm_get (sn_executions s) x = Some node
       \<and> t = put_node s x (node\<lparr>nd_failure_diagnostic := True\<rparr>))"
    "context_bounded (sn_failure_context s) \<longrightarrow> context_bounded fc"
proof (cases kind)
  case None
  then show ?thesis using assms that[where t = s and fc = "sn_failure_context s"] by (simp add: apply_failure_diagnostic_def)
next
  case (Some k)
  have bound: "context_bounded (sn_failure_context u) \<Longrightarrow>
      length (fc_recorded (get_failure_context u)) \<le> MAX_RECORDED_FAILURES" for u
    by (auto simp: context_bounded_def get_failure_context_def failure_context_default_def split: option.splits)
  show ?thesis
  proof (cases "k = Incomplete")
    case True
    then show ?thesis using assms Some that[where t = s] bound[of s]
      by (auto simp: apply_failure_diagnostic_def context_bounded_def split: if_splits)
  next
    case False
    obtain t public where t: "diagnostic_execution cd s ex = Inr (t, public)"
      and s': "\<exists>d. s' = t\<lparr>sn_failure_context := Some
          (if ex = None \<and> fc_primary (get_failure_context t) = None
           then (get_failure_context t)\<lparr>fc_primary := Some d\<rparr>
           else failure_context_record (get_failure_context t) d)\<rparr>"
      using assms Some False
      by (auto simp: apply_failure_diagnostic_def Let_def elim!: bind_resE split: if_splits)
    have "sn_failure_context t = sn_failure_context s"
      using diagnostic_execution_shape[OF t] by (auto simp: put_node_def)
    then show ?thesis using s' that[OF _ diagnostic_execution_shape[OF t]] bound[of t]
      failure_context_record_bound by (auto simp: context_bounded_def)
  qed
qed

lemma add_usage_shape: "add_usage s usage = Inr s' \<Longrightarrow> \<exists>u. s' = s\<lparr>sn_token_usage := u\<rparr>"
  by (auto simp: add_usage_def elim!: bind_resE split: option.splits)

section \<open>The invariant\<close>

definition settled_at :: "u64 \<Rightarrow> u64 \<Rightarrow> cursor \<Rightarrow> bool" where
  "settled_at p n at \<longleftrightarrow> (\<exists>q. at = cursor_for q \<and> p < q \<and> q \<le> n)"

definition node_ok :: "u64 \<Rightarrow> run_id \<Rightarrow> execution_id \<Rightarrow> node_snapshot \<Rightarrow> bool" where
  "node_ok n rid x node \<longleftrightarrow>
     er_execution (nd_reference node) = x \<and> er_run_id (nd_reference node) = rid
     \<and> (\<exists>p. nd_started_at node = cursor_for p \<and> 0 < p \<and> p \<le> n
          \<and> (case nd_state node of
               NodeActive \<Rightarrow> True
             | NodeSettled at out \<Rightarrow>
                 settled_at p n at \<and> \<not> outcome_has_artifacts out \<and> outcome_validate out = Inr ()
             | NodeVoided at _ \<Rightarrow> settled_at p n at))"

definition nodes_ok :: "u64 \<Rightarrow> run_snapshot \<Rightarrow> bool" where
  "nodes_ok n s \<longleftrightarrow>
     bm_wf (sn_executions s)
     \<and> (\<forall>x node. bm_get (sn_executions s) x = Some node \<longrightarrow>
          node_ok n (sn_run_id s) x node \<and> x \<notin> de_execution ` set (sn_execution_seed s))
     \<and> (\<forall>x y a b. bm_get (sn_executions s) x = Some a \<longrightarrow> bm_get (sn_executions s) y = Some b \<longrightarrow>
          nd_started_at a = nd_started_at b \<longrightarrow> x = y)"

definition seed_ok :: "run_snapshot \<Rightarrow> bool" where
  "seed_ok s \<longleftrightarrow>
     sorted_wrt (\<lambda>a b. de_execution a < de_execution b \<and> de_dispatch_position a < de_dispatch_position b)
       (sn_execution_seed s)
     \<and> (\<forall>e \<in> set (sn_execution_seed s). de_state e \<noteq> ExecActive)"

definition phase_ok :: "run_snapshot \<Rightarrow> bool" where
  "phase_ok s \<longleftrightarrow>
     (sn_terminal s \<noteq> None \<longleftrightarrow> sn_phase s = Finished)
     \<and> (sn_phase s = Stopping \<longrightarrow> sn_force_stop_requested s)
     \<and> (sn_force_stop_requested s \<longrightarrow> sn_phase s \<in> {Stopping, Finished})
     \<and> (sn_phase s = Admitted \<longrightarrow> sn_executions s = [] \<and> sn_primary_graph s = None)
     \<and> (sn_primary_graph s \<noteq> None \<or> sn_terminal s \<noteq> None \<longrightarrow> active_executions s = [])
     \<and> (sn_terminal s \<noteq> None \<longrightarrow> (\<forall>p. sn_primary_graph s = Some p \<longrightarrow> \<not> pg_auxiliary_pending p))"

definition evidence_ok :: "run_snapshot \<Rightarrow> bool" where
  "evidence_ok s \<longleftrightarrow>
     context_bounded (sn_failure_context s)
     \<and> (\<forall>p x. sn_primary_graph s = Some p \<longrightarrow> pg_delivery_execution p = Some x \<longrightarrow>
          execution_output s x \<noteq> None)"

definition run_ok :: "u64 \<Rightarrow> run_snapshot \<Rightarrow> bool" where
  "run_ok n s \<longleftrightarrow> sn_cursor s = cursor_for n \<and> nodes_ok n s \<and> seed_ok s \<and> phase_ok s \<and> evidence_ok s"

lemma active_executions_empty:
  "bm_wf (sn_executions s) \<Longrightarrow> active_executions s = [] \<longleftrightarrow>
     (\<forall>x node. bm_get (sn_executions s) x = Some node \<longrightarrow> nd_state node \<noteq> NodeActive)"
  by (force simp: active_executions_def filter_empty_conv node_is_active_def bm_get_iff)

lemma nodes_okD:
  "nodes_ok n s \<Longrightarrow> bm_get (sn_executions s) x = Some node \<Longrightarrow> node_ok n (sn_run_id s) x node"
  "nodes_ok n s \<Longrightarrow> bm_wf (sn_executions s)"
  by (simp_all add: nodes_ok_def)

lemma settled_at_mono: "settled_at p n at \<Longrightarrow> n \<le> m \<Longrightarrow> settled_at p m at"
  by (auto simp: settled_at_def)

lemma node_ok_mono: "node_ok n rid x node \<Longrightarrow> n \<le> m \<Longrightarrow> node_ok m rid x node"
  unfolding node_ok_def
  by (elim conjE exE, intro conjI exI, assumption+)
    (auto intro: settled_at_mono split: node_state.splits)

lemma nodes_ok_mono: "nodes_ok n s \<Longrightarrow> n \<le> m \<Longrightarrow> nodes_ok m s"
  unfolding nodes_ok_def by (auto intro: node_ok_mono)

text \<open>Replacing a node by one with the same identity and start keeps the nodes in order.\<close>

lemma nodes_ok_put:
  assumes "nodes_ok n s" and "bm_get (sn_executions s) x = Some node"
    and "node_ok n (sn_run_id s) x node'" and "nd_started_at node' = nd_started_at node"
  shows "nodes_ok n (put_node s x node')"
  using assms unfolding nodes_ok_def put_node_def by (auto split: if_splits)

lemma node_ok_flag [simp]: "node_ok n rid x (node\<lparr>nd_failure_diagnostic := b\<rparr>) = node_ok n rid x node"
  by (simp add: node_ok_def)

text \<open>Updates of other fields.\<close>

lemma nodes_ok_cong:
  "sn_executions t = sn_executions s \<Longrightarrow> sn_run_id t = sn_run_id s \<Longrightarrow>
   sn_execution_seed t = sn_execution_seed s \<Longrightarrow> nodes_ok n t = nodes_ok n s"
  by (simp add: nodes_ok_def)

lemma nodes_ok_settle:
  assumes "nodes_ok n s" and "node_at s r node"
    and "case st of NodeActive \<Rightarrow> True
      | NodeSettled at out \<Rightarrow> at = cursor_for (Suc n) \<and> \<not> outcome_has_artifacts out \<and> outcome_validate out = Inr ()
      | NodeVoided at _ \<Rightarrow> at = cursor_for (Suc n)"
  shows "nodes_ok (Suc n) (put_node s (er_execution r) (node\<lparr>nd_state := st\<rparr>))"
proof (rule nodes_ok_put[OF nodes_ok_mono[OF assms(1) le_SucI[OF order_refl]]])
  show "bm_get (sn_executions s) (er_execution r) = Some node" using assms(2) by (simp add: node_at_def)
  then have "node_ok n (sn_run_id s) (er_execution r) node" using assms(1) by (simp add: nodes_ok_def)
  then show "node_ok (Suc n) (sn_run_id s) (er_execution r) (node\<lparr>nd_state := st\<rparr>)"
    using assms(3) unfolding node_ok_def
    by (elim conjE exE, intro conjI exI) (auto simp: settled_at_def split: node_state.splits)
qed simp

lemma nodes_ok_start:
  assumes "nodes_ok n s" and "unused s (er_execution r)" and "er_run_id r = sn_run_id s"
  shows "nodes_ok (Suc n) (put_node s (er_execution r)
      \<lparr>nd_reference = r, nd_occurrence = oc, nd_attempt = a, nd_input = v,
       nd_started_at = cursor_for (Suc n), nd_state = NodeActive, nd_failure_diagnostic = False\<rparr>)"
proof -
  have ok: "nodes_ok (Suc n) s" using nodes_ok_mono[OF assms(1)] by simp
  have old: "nd_started_at b \<noteq> cursor_for (Suc n)" "cursor_for (Suc n) \<noteq> nd_started_at b"
    if get: "bm_get (sn_executions s) y = Some b" for y b
  proof -
    obtain p where "nd_started_at b = cursor_for p" "p \<le> n"
      using nodes_okD(1)[OF assms(1) get] by (auto simp: node_ok_def)
    then show "nd_started_at b \<noteq> cursor_for (Suc n)" "cursor_for (Suc n) \<noteq> nd_started_at b" by auto
  qed
  show ?thesis
    using ok assms(2,3) old unfolding nodes_ok_def put_node_def unused_def
    by (auto simp: node_ok_def split: if_splits)
qed

lemma nodes_ok_seed:
  "sn_executions s = [] \<Longrightarrow> nodes_ok n (s\<lparr>sn_execution_seed := es\<rparr>)"
  by (simp add: nodes_ok_def)

lemma event_step_nodes:
  assumes "event_step cd (Suc n) s ev s'" and "nodes_ok n s" and "phase_ok s"
  shows "nodes_ok (Suc n) s'"
  using assms(1)
proof cases
  case (step_prior e)
  then show ?thesis using assms(3) by (simp add: phase_ok_def nodes_ok_seed)
next
  case (step_node r oc a v)
  then show ?thesis using nodes_ok_start[OF assms(2)] by simp
next
  case (step_completed c node)
  then show ?thesis using nodes_ok_settle[OF assms(2)] by simp
next
  case (step_voided r node reason)
  then show ?thesis using nodes_ok_settle[OF assms(2)] by simp
next
  case (step_log ex stream line kind ts)
  obtain fc t where s': "s' = t\<lparr>sn_failure_context := fc\<rparr>"
    and t: "t = s \<or> (\<exists>x node. bm_get (sn_executions s) x = Some node
      \<and> t = put_node s x (node\<lparr>nd_failure_diagnostic := True\<rparr>))"
    using step_log by (blast elim: failure_diagnostic_shape)
  have ok: "nodes_ok (Suc n) s" using nodes_ok_mono[OF assms(2)] by simp
  have "nodes_ok (Suc n) t"
    using t ok nodes_ok_put[OF ok] nodes_okD(1)[OF ok] by fastforce
  then show ?thesis using nodes_ok_cong[of s' t] s' by simp
next
  case (step_usage x node usage)
  then show ?thesis using nodes_ok_mono[OF assms(2)] nodes_ok_cong[of s' s] by (auto dest: add_usage_shape)
next
  case (step_run_usage usage)
  then show ?thesis using nodes_ok_mono[OF assms(2)] nodes_ok_cong[of s' s] by (auto dest: add_usage_shape)
qed (use nodes_ok_mono[OF assms(2)] nodes_ok_cong[of s' s] in auto)

lemma event_step_seed:
  assumes "event_step cd n s ev s'" and "seed_ok s"
  shows "seed_ok s'"
  using assms(1)
proof cases
  case (step_prior e)
  have "de_execution a < de_execution e \<and> de_dispatch_position a < de_dispatch_position e"
    if "a \<in> set (sn_execution_seed s)" for a
  proof -
    let ?l = "sn_execution_seed s"
    have "?l \<noteq> []" using that by auto
    then have l: "?l = butlast ?l @ [last ?l]" by simp
    have le: "de_execution a \<le> de_execution (last ?l)" "de_dispatch_position a \<le> de_dispatch_position (last ?l)"
    proof -
      have "a = last ?l \<or> a \<in> set (butlast ?l)" using that by (subst (asm) l) auto
      moreover have "sorted_wrt (\<lambda>a b. de_execution a < de_execution b
          \<and> de_dispatch_position a < de_dispatch_position b) (butlast ?l @ [last ?l])"
        using assms(2) l by (simp add: seed_ok_def)
      ultimately show "de_execution a \<le> de_execution (last ?l)"
        "de_dispatch_position a \<le> de_dispatch_position (last ?l)" by (auto simp: sorted_wrt_append)
    qed
    then show ?thesis using step_prior \<open>?l \<noteq> []\<close> by (auto simp: fresh_seed_def)
  qed
  then show ?thesis using assms(2) step_prior by (auto simp: seed_ok_def sorted_wrt_append)
next
  case (step_log ex stream line kind ts)
  then obtain fc t where "s' = t\<lparr>sn_failure_context := fc\<rparr>" "sn_execution_seed t = sn_execution_seed s"
    by (auto elim!: failure_diagnostic_shape simp: put_node_def)
  then show ?thesis using assms(2) by (simp add: seed_ok_def)
qed (use assms(2) in \<open>auto simp: seed_ok_def put_node_def dest!: add_usage_shape\<close>)

lemma active_put:
  assumes "bm_wf (sn_executions s)" and "active_executions s = []" and "nd_state node \<noteq> NodeActive"
  shows "active_executions (put_node s x node) = []"
  using assms by (auto simp: active_executions_empty put_node_def)

lemma phase_ok_cong:
  assumes "phase_ok s" and "sn_terminal t = sn_terminal s" and "sn_phase t = sn_phase s"
    and "sn_force_stop_requested t = sn_force_stop_requested s" and "sn_primary_graph t = sn_primary_graph s"
    and "sn_executions s = [] \<longrightarrow> sn_executions t = []"
    and "active_executions s = [] \<longrightarrow> active_executions t = []"
  shows "phase_ok t"
  using assms unfolding phase_ok_def by auto

lemma node_at_not_empty: "node_at s r node \<Longrightarrow> sn_executions s \<noteq> []"
  by (auto simp: node_at_def)

lemma node_at_active: "bm_wf (sn_executions s) \<Longrightarrow> node_at s r node \<Longrightarrow> active_executions s \<noteq> []"
  by (auto simp: node_at_def active_executions_empty)

lemma phase_ok_settle:
  assumes "phase_ok s" and "bm_wf (sn_executions s)" and "node_at s r node"
  shows "phase_ok (put_node s x node')"
  using node_at_not_empty[OF assms(3)] node_at_active[OF assms(2,3)]
  by (intro phase_ok_cong[OF assms(1)]) (simp_all add: put_node_def)

lemma failure_diagnostic_phase:
  assumes "apply_failure_diagnostic cd s ex stream line kind n = Inr s'" and "bm_wf (sn_executions s)"
  shows "sn_terminal s' = sn_terminal s" "sn_phase s' = sn_phase s"
    "sn_force_stop_requested s' = sn_force_stop_requested s" "sn_primary_graph s' = sn_primary_graph s"
    "sn_executions s = [] \<longrightarrow> sn_executions s' = []"
    "active_executions s = [] \<longrightarrow> active_executions s' = []"
proof -
  from assms(1) obtain fc t where s': "s' = t\<lparr>sn_failure_context := fc\<rparr>"
    and t: "t = s \<or> (\<exists>x node. bm_get (sn_executions s) x = Some node
       \<and> t = put_node s x (node\<lparr>nd_failure_diagnostic := True\<rparr>))"
    by (rule failure_diagnostic_shape)
  show "sn_terminal s' = sn_terminal s" "sn_phase s' = sn_phase s"
    "sn_force_stop_requested s' = sn_force_stop_requested s" "sn_primary_graph s' = sn_primary_graph s"
    "sn_executions s = [] \<longrightarrow> sn_executions s' = []"
    using s' t by (auto simp: put_node_def)
  have "active_executions s' = active_executions t" using s' by (simp add: active_executions_def)
  moreover have "active_executions s = [] \<longrightarrow> active_executions t = []"
    using t assms(2) by (auto simp: active_executions_empty intro!: active_put)
  ultimately show "active_executions s = [] \<longrightarrow> active_executions s' = []" by simp
qed

lemma event_step_phase:
  assumes "event_step cd n s ev s'" and "phase_ok s" and "sn_terminal s = None" and "bm_wf (sn_executions s)"
  shows "phase_ok s'"
  using assms(1)
proof cases
  case (step_completed c node)
  then show ?thesis using phase_ok_settle[OF assms(2,4)] by blast
next
  case (step_voided r node reason)
  then show ?thesis using phase_ok_settle[OF assms(2,4)] by blast
next
  case (step_log ex stream line kind ts)
  then show ?thesis by (intro phase_ok_cong[OF assms(2)] failure_diagnostic_phase[OF _ assms(4)])
next
  case (step_usage x node usage)
  then show ?thesis
    by (auto intro!: phase_ok_cong[OF assms(2)] simp: active_executions_def dest!: add_usage_shape)
next
  case (step_run_usage usage)
  then show ?thesis
    by (auto intro!: phase_ok_cong[OF assms(2)] simp: active_executions_def dest!: add_usage_shape)
qed (use assms(2,3) in \<open>auto simp: phase_ok_def put_node_def active_executions_def\<close>)

section \<open>Facts are only added\<close>

definition node_extends :: "node_snapshot \<Rightarrow> node_snapshot \<Rightarrow> bool" where
  "node_extends a b \<longleftrightarrow>
     nd_reference b = nd_reference a \<and> nd_occurrence b = nd_occurrence a \<and> nd_attempt b = nd_attempt a
     \<and> nd_input b = nd_input a \<and> nd_started_at b = nd_started_at a
     \<and> (nd_state a \<noteq> NodeActive \<longrightarrow> nd_state b = nd_state a)
     \<and> (nd_failure_diagnostic a \<longrightarrow> nd_failure_diagnostic b)"

definition phase_rank :: "run_phase \<Rightarrow> nat" where
  "phase_rank p = (case p of Admitted \<Rightarrow> 0 | Running \<Rightarrow> 1 | Stopping \<Rightarrow> 2 | Finished \<Rightarrow> 3)"

definition extends :: "run_snapshot \<Rightarrow> run_snapshot \<Rightarrow> bool" where
  "extends s s' \<longleftrightarrow>
     sn_run_id s' = sn_run_id s \<and> sn_title s' = sn_title s \<and> sn_source s' = sn_source s
     \<and> sn_size s' = sn_size s
     \<and> (\<forall>x a. bm_get (sn_executions s) x = Some a \<longrightarrow>
          (\<exists>b. bm_get (sn_executions s') x = Some b \<and> node_extends a b))
     \<and> prefix (sn_execution_seed s) (sn_execution_seed s')
     \<and> phase_rank (sn_phase s) \<le> phase_rank (sn_phase s')
     \<and> (sn_force_stop_requested s \<longrightarrow> sn_force_stop_requested s')
     \<and> (\<forall>p. sn_primary_graph s = Some p \<longrightarrow>
          (\<exists>q. sn_primary_graph s' = Some q \<and> pg_result q = pg_result p
             \<and> pg_delivery_execution q = pg_delivery_execution p))
     \<and> (sn_terminal s \<noteq> None \<longrightarrow> sn_terminal s' = sn_terminal s)"

lemma node_extends_refl [simp]: "node_extends a a"
  by (simp add: node_extends_def)

lemma node_extends_trans: "node_extends a b \<Longrightarrow> node_extends b c \<Longrightarrow> node_extends a c"
  by (auto simp: node_extends_def)

lemma extends_refl [simp]: "extends s s"
  by (simp add: extends_def)

lemma extends_node:
  assumes "extends s s'" and "bm_get (sn_executions s) x = Some a"
  obtains b where "bm_get (sn_executions s') x = Some b" "node_extends a b"
proof -
  have "\<forall>x a. bm_get (sn_executions s) x = Some a \<longrightarrow>
      (\<exists>b. bm_get (sn_executions s') x = Some b \<and> node_extends a b)"
    using assms(1) unfolding extends_def by (elim conjE)
  then have "\<exists>b. bm_get (sn_executions s') x = Some b \<and> node_extends a b" using assms(2) by metis
  then show ?thesis using that by metis
qed

lemma extendsD:
  assumes "extends s s'"
  shows "sn_run_id s' = sn_run_id s" "sn_title s' = sn_title s" "sn_source s' = sn_source s"
    "sn_size s' = sn_size s" "prefix (sn_execution_seed s) (sn_execution_seed s')"
    "phase_rank (sn_phase s) \<le> phase_rank (sn_phase s')"
    "sn_force_stop_requested s \<longrightarrow> sn_force_stop_requested s'"
    "\<forall>p. sn_primary_graph s = Some p \<longrightarrow> (\<exists>q. sn_primary_graph s' = Some q \<and> pg_result q = pg_result p
             \<and> pg_delivery_execution q = pg_delivery_execution p)"
    "sn_terminal s \<noteq> None \<longrightarrow> sn_terminal s' = sn_terminal s"
  using assms unfolding extends_def by blast+

lemma extends_trans:
  assumes "extends a b" and "extends b c"
  shows "extends a c"
proof -
  note ab = extendsD[OF assms(1)] and bc = extendsD[OF assms(2)]
  show ?thesis unfolding extends_def
  proof (intro conjI)
    show "\<forall>x n. bm_get (sn_executions a) x = Some n \<longrightarrow>
        (\<exists>z. bm_get (sn_executions c) x = Some z \<and> node_extends n z)"
    proof (intro allI impI)
      fix x n assume "bm_get (sn_executions a) x = Some n"
      with assms(1) obtain m where m: "bm_get (sn_executions b) x = Some m" "node_extends n m"
        by (rule extends_node)
      from assms(2) m(1) obtain z where "bm_get (sn_executions c) x = Some z" "node_extends m z"
        by (rule extends_node)
      with m(2) show "\<exists>z. bm_get (sn_executions c) x = Some z \<and> node_extends n z"
        using node_extends_trans by blast
    qed
    show "prefix (sn_execution_seed a) (sn_execution_seed c)"
      using ab(5) bc(5) by (rule prefix_order.trans)
    show "phase_rank (sn_phase a) \<le> phase_rank (sn_phase c)" using ab(6) bc(6) by simp
    show "\<forall>p. sn_primary_graph a = Some p \<longrightarrow> (\<exists>q. sn_primary_graph c = Some q \<and> pg_result q = pg_result p
             \<and> pg_delivery_execution q = pg_delivery_execution p)"
      using ab(8) bc(8) by metis
  qed (use ab bc in simp_all)
qed

text \<open>A step that leaves the executions alone.\<close>

lemma extends_frame:
  assumes "sn_executions s' = sn_executions s" and "sn_run_id s' = sn_run_id s" and "sn_title s' = sn_title s"
    and "sn_source s' = sn_source s" and "sn_size s' = sn_size s"
    and "prefix (sn_execution_seed s) (sn_execution_seed s')"
    and "phase_rank (sn_phase s) \<le> phase_rank (sn_phase s')"
    and "sn_force_stop_requested s \<longrightarrow> sn_force_stop_requested s'"
    and "sn_primary_graph s = None \<or> sn_primary_graph s' = sn_primary_graph s
       \<or> sn_primary_graph s' = map_option (\<lambda>p. p\<lparr>pg_auxiliary_pending := False\<rparr>) (sn_primary_graph s)"
    and "sn_terminal s = None"
  shows "extends s s'"
  unfolding extends_def using assms by (intro conjI) (auto simp del: not_None_eq)

lemma extends_put:
  "bm_get (sn_executions s) x = Some a \<Longrightarrow> node_extends a b \<Longrightarrow> extends s (put_node s x b)"
  by (auto simp: extends_def put_node_def)

lemma event_step_extends:
  assumes "event_step cd n s ev s'" and "phase_ok s" and "sn_terminal s = None"
  shows "extends s s'"
  using assms(1)
proof cases
  case (step_node r oc a v)
  then show ?thesis by (auto simp: extends_def put_node_def unused_def)
next
  case (step_completed c node)
  then show ?thesis by (auto simp: node_at_def node_extends_def intro!: extends_put)
next
  case (step_voided r node reason)
  then show ?thesis by (auto simp: node_at_def node_extends_def intro!: extends_put)
next
  case (step_log ex stream line kind ts)
  obtain fc t where s': "s' = t\<lparr>sn_failure_context := fc\<rparr>"
    and t: "t = s \<or> (\<exists>x node. bm_get (sn_executions s) x = Some node
      \<and> t = put_node s x (node\<lparr>nd_failure_diagnostic := True\<rparr>))"
    using step_log by (blast elim: failure_diagnostic_shape)
  have "extends s t" using t by (auto simp: node_extends_def intro!: extends_put)
  then show ?thesis using s' by (simp add: extends_def)
next
  case (step_force)
  then have "sn_phase s \<in> {Admitted, Running}"
    using assms(2,3) by (cases "sn_phase s") (auto simp: phase_ok_def)
  then show ?thesis using step_force assms(3) by (intro extends_frame) (auto simp: phase_rank_def)
next
  case (step_terminal result)
  then show ?thesis using assms(3)
    by (intro extends_frame) (auto simp: phase_rank_def split: run_phase.splits)
qed (use assms(3) in \<open>auto simp: phase_rank_def intro!: extends_frame dest!: add_usage_shape\<close>)

lemma find_append_Some: "find P xs = Some x \<Longrightarrow> find P (xs @ ys) = Some x"
  by (induction xs) auto

lemma extends_output:
  assumes "extends s s'" and "execution_output s x = Some v"
    and "\<And>y. bm_get (sn_executions s') y \<noteq> None \<Longrightarrow> bm_get (sn_executions s) y = None \<Longrightarrow>
      y \<notin> de_execution ` set (sn_execution_seed s)"
  shows "execution_output s' x = Some v"
proof (cases "bm_get (sn_executions s) x")
  case (Some a)
  then obtain b where "bm_get (sn_executions s') x = Some b" "node_extends a b"
    using extends_node[OF assms(1)] by metis
  then show ?thesis using assms(2) Some
    by (auto simp: execution_output_def node_extends_def split: node_state.splits)
next
  case None
  then obtain prior where f: "find (\<lambda>p. de_execution p = x) (sn_execution_seed s) = Some prior"
    using assms(2) by (auto simp: execution_output_def split: option.splits)
  then have "x \<in> de_execution ` set (sn_execution_seed s)" by (auto simp: find_Some_iff)
  then have "bm_get (sn_executions s') x = None" using None assms(3) by blast
  moreover obtain zs where "sn_execution_seed s' = sn_execution_seed s @ zs"
    using assms(1) by (auto simp: extends_def prefix_def)
  ultimately show ?thesis using assms(2) None find_append_Some[OF f] f by (simp add: execution_output_def)
qed

lemma event_step_evidence:
  assumes "event_step cd (Suc n) s ev s'" and "nodes_ok n s" and "phase_ok s" and "evidence_ok s"
    and "sn_terminal s = None"
  shows "evidence_ok s'"
proof -
  have ext: "extends s s'" by (rule event_step_extends[OF assms(1,3,5)])
  have new: "y \<notin> de_execution ` set (sn_execution_seed s)" if "bm_get (sn_executions s') y \<noteq> None" for y
  proof -
    have "y \<notin> de_execution ` set (sn_execution_seed s')"
      using event_step_nodes[OF assms(1-3)] that unfolding nodes_ok_def by blast
    moreover have "set (sn_execution_seed s) \<subseteq> set (sn_execution_seed s')"
      using ext by (auto simp: extends_def dest: set_mono_prefix)
    ultimately show ?thesis by blast
  qed
  have kept: "execution_output s x \<noteq> None \<Longrightarrow> execution_output s' x \<noteq> None" for x
    using extends_output[OF ext _ new] by blast
  have "context_bounded (sn_failure_context s')"
    using assms(1)
  proof cases
    case (step_log ex stream line kind ts)
    then show ?thesis using assms(4) by (auto elim!: failure_diagnostic_shape simp: evidence_ok_def)
  qed (use assms(4) in \<open>auto simp: evidence_ok_def put_node_def dest!: add_usage_shape\<close>)
  moreover have "execution_output s' x \<noteq> None"
    if "sn_primary_graph s' = Some p" "pg_delivery_execution p = Some x" for p x
  proof (cases "sn_primary_graph s")
    case (Some q)
    then have "pg_delivery_execution q = Some x" using ext that by (auto simp: extends_def)
    then show ?thesis using assms(4) Some kept by (auto simp: evidence_ok_def)
  next
    case None
    have "\<exists>r b. ev = PrimaryGraphCompleted r b (Some x) \<and> execution_output s x \<noteq> None"
      using assms(1)
    proof cases
      case (step_log ex stream line kind ts)
      then show ?thesis using that None failure_diagnostic_phase(4)[OF _ nodes_okD(2)[OF assms(2)]] by fastforce
    qed (use that None in \<open>auto simp: put_node_def dest!: add_usage_shape\<close>)
    then show ?thesis using kept by blast
  qed
  ultimately show ?thesis by (auto simp: evidence_ok_def)
qed

section \<open>Events and replays\<close>

lemma run_ok_admitted: "run_ok 0 (snapshot_admitted rid admitted)"
  by (simp add: run_ok_def snapshot_admitted_def snapshot_empty_def initial_cursor_for nodes_ok_def
      seed_ok_def phase_ok_def evidence_ok_def context_bounded_def active_executions_def)

lemma cursor_update_simps [simp]:
  "execution_output (s\<lparr>sn_cursor := c\<rparr>) x = execution_output s x"
  "active_executions (s\<lparr>sn_cursor := c\<rparr>) = active_executions s"
  by (simp_all add: execution_output_def active_executions_def cong: option.case_cong)

lemma run_ok_cursor:
  "nodes_ok n s \<Longrightarrow> seed_ok s \<Longrightarrow> phase_ok s \<Longrightarrow> evidence_ok s \<Longrightarrow> run_ok n (s\<lparr>sn_cursor := cursor_for n\<rparr>)"
  by (simp add: run_ok_def nodes_ok_def seed_ok_def phase_ok_def evidence_ok_def)

lemma apply_event_ok:
  assumes "apply_event cd s ev (Suc n) = Inr s'" and "run_ok n s"
  shows "run_ok (Suc n) s'" and "extends s s'"
proof -
  from assms(1) obtain t where live: "sn_terminal s = None" and st: "event_step cd (Suc n) s ev t"
    and s': "s' = t\<lparr>sn_cursor := cursor_for (Suc n)\<rparr>" by (auto simp: apply_event_iff)
  have ok: "nodes_ok n s" "seed_ok s" "phase_ok s" "evidence_ok s" using assms(2) by (simp_all add: run_ok_def)
  show "run_ok (Suc n) s'" unfolding s'
    using event_step_nodes[OF st ok(1,3)] event_step_seed[OF st ok(2)]
      event_step_phase[OF st ok(3) live nodes_okD(2)[OF ok(1)]] event_step_evidence[OF st ok(1,3,4) live]
    by (rule run_ok_cursor)
  show "extends s s'" using event_step_extends[OF st ok(3) live] by (simp add: s' extends_def)
qed

text \<open>Applying a recorded sequence of events after position \<open>n\<close>.\<close>

fun replay :: "codec \<Rightarrow> run_snapshot \<Rightarrow> u64 \<Rightarrow> run_event list \<Rightarrow> run_ledger_error + run_snapshot" where
  "replay cd s n [] = Inr s"
| "replay cd s n (ev # evs) = bind_res (apply_event cd s ev (Suc n)) (\<lambda>t. replay cd t (Suc n) evs)"

lemma replay_append:
  "replay cd s n (xs @ ys) = bind_res (replay cd s n xs) (\<lambda>t. replay cd t (n + length xs) ys)"
  by (induction xs arbitrary: s n) (auto simp: bind_res_assoc)

lemma replay_ok:
  assumes "replay cd s n evs = Inr s'" and "run_ok n s"
  shows "run_ok (n + length evs) s' \<and> extends s s'"
  using assms
proof (induction evs arbitrary: s n)
  case (Cons ev evs)
  from Cons.prems(1) obtain t where t: "apply_event cd s ev (Suc n) = Inr t" and rest: "replay cd t (Suc n) evs = Inr s'"
    by (auto elim: bind_resE)
  note step = apply_event_ok[OF t Cons.prems(2)]
  from Cons.IH[OF rest step(1)] step(2) show ?case by (auto intro: extends_trans)
qed simp

lemma replay_valid:
  "replay cd s n evs = Inr s' \<Longrightarrow> ev \<in> set evs \<Longrightarrow> validate_event cd ev = Inr ()"
  by (induction evs arbitrary: s n) (auto simp: apply_event_iff elim!: bind_resE)

end
