(* ===== verification/Ledger.thy ===== *)
theory Ledger
  imports Ledger_Laws
begin

text \<open>
  The run ledger port (\<^verbatim>\<open>RunLedger\<close> of \<^verbatim>\<open>zeroshot/src/v2_run_ledger.rs\<close>) and its deterministic
  in-memory implementation (\<^verbatim>\<open>v2_run_ledger/fake.rs\<close>). Every method takes the mutex for its whole
  body, so a method is one state transformer; a method that fails leaves the state as it was.

  The locale \<open>run_ledger\<close> states what a client of the port may rely on: appending extends the
  durable log of one run, snapshots are the replay of the log, and pages are a non-empty piece of the
  log strictly after the requested position. It is interpreted on the in-memory ledger.
\<close>

section \<open>Stored values\<close>

record create_run =
  cr_run_id :: run_id
  cr_submission_key :: idempotency_key
  cr_submission_digest :: sha256_digest
  cr_admitted :: admitted_run

record stored_run =
  sr_submission_key :: idempotency_key
  sr_submission_digest :: sha256_digest
  sr_admitted :: admitted_run
  sr_snapshot :: run_snapshot

datatype create_run_outcome = Created (outcome_stored: stored_run) | Existing (outcome_stored: stored_run)

record stored_run_event =
  se_cursor :: cursor
  se_event :: run_event

record append_result =
  ap_snapshot :: run_snapshot
  ap_events :: "stored_run_event list"

record snapshot_and_tail =
  tl_snapshot :: run_snapshot
  tl_events :: "stored_run_event list"

record run_summary =
  sm_run_id :: run_id
  sm_title :: run_title
  sm_source :: "resolved_source option"
  sm_size :: run_size
  sm_cursor :: cursor
  sm_phase :: run_phase
  sm_force_stop_requested :: bool
  sm_active_executions :: "execution_id list"

definition run_summary_from :: "run_snapshot \<Rightarrow> run_summary" where
  "run_summary_from snapshot =
     \<lparr>sm_run_id = sn_run_id snapshot, sm_title = sn_title snapshot, sm_source = sn_source snapshot,
      sm_size = sn_size snapshot, sm_cursor = sn_cursor snapshot, sm_phase = sn_phase snapshot,
      sm_force_stop_requested = sn_force_stop_requested snapshot,
      sm_active_executions = map (\<lambda>node. er_execution (nd_reference node)) (active_executions snapshot)\<rparr>"

section \<open>The in-memory ledger\<close>

record fake_run =
  fr_stored :: stored_run
  fr_events :: "stored_run_event list"

record fake_state =
  fs_runs :: "(run_id, fake_run) btree_map"
  fs_submissions :: "(idempotency_key, run_id) btree_map"

definition FakeRunLedger_new :: fake_state where
  "FakeRunLedger_new = \<lparr>fs_runs = [], fs_submissions = []\<rparr>"

definition validate_create :: "codec \<Rightarrow> create_run \<Rightarrow> run_ledger_error + unit" where
  "validate_create cd request =
     (case bounded_json (cd_admitted cd (cr_admitted request)) MAX_ADMITTED_RUN_BYTES of
        Inl _ \<Rightarrow> Inl AdmittedRunTooLarge
      | Inr _ \<Rightarrow> Inr ())"

definition create_or_get ::
    "codec \<Rightarrow> fake_state \<Rightarrow> create_run \<Rightarrow> run_ledger_error + create_run_outcome \<times> fake_state" where
  "create_or_get cd state request =
     bind_res (validate_create cd request) (\<lambda>_.
     case bm_get (fs_submissions state) (cr_submission_key request) of
       Some existing_id \<Rightarrow>
         bind_res (ok_or Corrupt (bm_get (fs_runs state) existing_id)) (\<lambda>run.
         let existing = fr_stored run
         in if sr_submission_digest existing = cr_submission_digest request
               \<and> sr_admitted existing = cr_admitted request
            then Inr (Existing existing, state)
            else Inl (SubmissionConflict existing_id))
     | None \<Rightarrow>
         if bm_get (fs_runs state) (cr_run_id request) \<noteq> None then Inl RunIdConflict
         else
           (let stored =
              \<lparr>sr_submission_key = cr_submission_key request,
               sr_submission_digest = cr_submission_digest request,
               sr_admitted = cr_admitted request,
               sr_snapshot = snapshot_admitted (cr_run_id request) (cr_admitted request)\<rparr>
            in Inr (Created stored,
                 state\<lparr>fs_submissions :=
                          bm_insert (cr_submission_key request) (cr_run_id request) (fs_submissions state),
                       fs_runs :=
                          bm_insert (cr_run_id request) \<lparr>fr_stored = stored, fr_events = []\<rparr>
                            (fs_runs state)\<rparr>)))"

definition ledger_get :: "fake_state \<Rightarrow> run_id \<Rightarrow> stored_run option" where
  "ledger_get state run_id = map_option fr_stored (bm_get (fs_runs state) run_id)"

definition get_by_submission_key :: "fake_state \<Rightarrow> idempotency_key \<Rightarrow> stored_run option" where
  "get_by_submission_key state key =
     (case bm_get (fs_submissions state) key of
        None \<Rightarrow> None
      | Some run_id \<Rightarrow> map_option fr_stored (bm_get (fs_runs state) run_id))"

definition ledger_list :: "fake_state \<Rightarrow> run_summary list" where
  "ledger_list state = map (\<lambda>(_, run). run_summary_from (sr_snapshot (fr_stored run))) (fs_runs state)"

definition append_event ::
    "codec \<Rightarrow> run_snapshot \<times> u64 \<times> stored_run_event list \<Rightarrow> run_event
       \<Rightarrow> run_ledger_error + run_snapshot \<times> u64 \<times> stored_run_event list" where
  "append_event cd = (\<lambda>(snapshot, sequence, stored_events) event.
     let event = prepare_event snapshot event
     in bind_res (ok_or Storage (checked_add sequence 1)) (\<lambda>sequence.
        bind_res (apply_event cd snapshot event sequence) (\<lambda>snapshot.
        Inr (snapshot, sequence,
             stored_events @ [\<lparr>se_cursor = cursor_for sequence, se_event = event\<rparr>]))))"

definition append_locked ::
    "codec \<Rightarrow> fake_run \<Rightarrow> run_event list \<Rightarrow> run_ledger_error + append_result \<times> fake_run" where
  "append_locked cd run events =
     (if events = [] then Inl (InvalidEvent ''event batch is empty'')
      else
        let snapshot = sr_snapshot (fr_stored run)
        in bind_res (cursor_sequence (sn_cursor snapshot)) (\<lambda>sequence.
           bind_res (try_foldl (append_event cd) (snapshot, sequence, []) events)
             (\<lambda>(snapshot, _, stored_events).
              Inr (\<lparr>ap_snapshot = snapshot, ap_events = stored_events\<rparr>,
                   run\<lparr>fr_events := fr_events run @ stored_events,
                       fr_stored := (fr_stored run)\<lparr>sr_snapshot := snapshot\<rparr>\<rparr>))))"

definition put_run :: "fake_state \<Rightarrow> run_id \<Rightarrow> fake_run \<Rightarrow> fake_state" where
  "put_run state run_id run = state\<lparr>fs_runs := bm_insert run_id run (fs_runs state)\<rparr>"

definition ledger_append ::
    "codec \<Rightarrow> fake_state \<Rightarrow> run_id \<Rightarrow> run_event list \<Rightarrow> run_ledger_error + append_result \<times> fake_state" where
  "ledger_append cd state run_id events =
     bind_res (ok_or RunNotFound (bm_get (fs_runs state) run_id)) (\<lambda>run.
     bind_res (append_locked cd run events) (\<lambda>(result, run).
     Inr (result, put_run state run_id run)))"

definition request_force_stop ::
    "codec \<Rightarrow> fake_state \<Rightarrow> run_id \<Rightarrow> run_ledger_error + append_result \<times> fake_state" where
  "request_force_stop cd state run_id =
     bind_res (ok_or RunNotFound (bm_get (fs_runs state) run_id)) (\<lambda>run.
     let snapshot = sr_snapshot (fr_stored run)
     in if sn_force_stop_requested snapshot \<or> sn_terminal snapshot \<noteq> None
        then Inr (\<lparr>ap_snapshot = snapshot, ap_events = []\<rparr>, state)
        else bind_res (append_locked cd run [ForceStopRequested]) (\<lambda>(result, run).
             Inr (result, put_run state run_id run)))"

fun page_events :: "codec \<Rightarrow> nat \<Rightarrow> stored_run_event list \<Rightarrow> run_ledger_error + stored_run_event list" where
  "page_events cd raw_bytes [] = Inr []"
| "page_events cd raw_bytes (stored # events) =
     bind_res (ok_or Corrupt (cd_event cd (se_event stored))) (\<lambda>bytes.
     if raw_bytes + bytes > MAX_REPLAY_BYTES then Inr []
     else bind_res (page_events cd (raw_bytes + bytes) events) (\<lambda>page. Inr (stored # page)))"

text \<open>\<^verbatim>\<open>usize::try_from\<close> of a \<^verbatim>\<open>u64\<close> always succeeds on the 64-bit targets.\<close>

definition replay_page :: "codec \<Rightarrow> stored_run_event list \<Rightarrow> u64 \<Rightarrow> run_ledger_error + stored_run_event list" where
  "replay_page cd events after = page_events cd 0 (take MAX_REPLAY_EVENTS (drop after events))"

definition ledger_snapshot_and_tail ::
    "codec \<Rightarrow> fake_state \<Rightarrow> run_id \<Rightarrow> cursor option \<Rightarrow> run_ledger_error + snapshot_and_tail" where
  "ledger_snapshot_and_tail cd state run_id after =
     bind_res (ok_or RunNotFound (bm_get (fs_runs state) run_id)) (\<lambda>run.
     bind_res (case after of None \<Rightarrow> Inr 0 | Some cursor \<Rightarrow> cursor_sequence cursor) (\<lambda>after.
     bind_res (cursor_sequence (sn_cursor (sr_snapshot (fr_stored run)))) (\<lambda>current.
     if after > current then Inl CursorAhead
     else bind_res (replay_page cd (fr_events run) after) (\<lambda>events.
          Inr \<lparr>tl_snapshot = sr_snapshot (fr_stored run), tl_events = events\<rparr>))))"

section \<open>Appending a batch\<close>

definition log_events :: "stored_run_event list \<Rightarrow> run_event list" where
  "log_events es = map se_event es"

definition numbered :: "u64 \<Rightarrow> stored_run_event list \<Rightarrow> bool" where
  "numbered n es \<longleftrightarrow> map se_cursor es = map cursor_for [Suc n ..< Suc n + length es]"

lemma numbered_snoc:
  "numbered n (es @ [e]) \<longleftrightarrow> numbered n es \<and> se_cursor e = cursor_for (Suc n + length es)"
  by (auto simp: numbered_def)

lemma numbered_append:
  "numbered n (xs @ ys) \<longleftrightarrow> numbered n xs \<and> numbered (n + length xs) ys"
proof (induction ys rule: rev_induct)
  case Nil
  then show ?case by (simp add: numbered_def)
next
  case (snoc y ys)
  then show ?case using numbered_snoc[of n "xs @ ys" y] numbered_snoc[of "n + length xs" ys y]
    by (auto simp: add.assoc)
qed

lemma numbered_single: "numbered n [e] \<longleftrightarrow> se_cursor e = cursor_for (Suc n)"
  by (simp add: numbered_def)

text \<open>A batch is recorded as it was prepared: its events replay to the snapshot it returns.\<close>

lemma append_events_replay:
  assumes "try_foldl (append_event cd) (s, n, stored) events = Inr (s', n', stored')"
  shows "\<exists>es. stored' = stored @ es \<and> length es = length events \<and> n' = n + length events
    \<and> (events \<noteq> [] \<longrightarrow> n' \<le> u64_max) \<and> numbered n es \<and> replay cd s n (log_events es) = Inr s'"
  using assms
proof (induction events arbitrary: s n stored)
  case Nil
  then show ?case by (auto simp: numbered_def log_events_def)
next
  case (Cons ev events)
  let ?ev = "prepare_event s ev"
  from Cons.prems obtain t where n: "n + 1 \<le> u64_max" and t: "apply_event cd s ?ev (Suc n) = Inr t"
    and rest: "try_foldl (append_event cd)
      (t, Suc n, stored @ [\<lparr>se_cursor = cursor_for (Suc n), se_event = ?ev\<rparr>]) events = Inr (s', n', stored')"
    by (auto simp: append_event_def Let_def ok_or_eq_Inr checked_add_Some elim!: bind_resE)
  from Cons.IH[OF rest] obtain es where es: "stored' = stored @ [\<lparr>se_cursor = cursor_for (Suc n), se_event = ?ev\<rparr>] @ es"
    "length es = length events" "n' = Suc n + length events" "events \<noteq> [] \<longrightarrow> n' \<le> u64_max"
    "numbered (Suc n) es" "replay cd t (Suc n) (log_events es) = Inr s'" by auto
  let ?es = "\<lparr>se_cursor = cursor_for (Suc n), se_event = ?ev\<rparr> # es"
  have "numbered n ?es"
    using numbered_append[of n "[\<lparr>se_cursor = cursor_for (Suc n), se_event = ?ev\<rparr>]" es] es(5)
    by (simp add: numbered_def)
  moreover have "n' \<le> u64_max" using es(3,4) n by (cases events) auto
  ultimately show ?case using es t by (intro exI[of _ ?es]) (simp add: log_events_def)
qed

section \<open>The invariant of the ledger\<close>

definition run_inv :: "codec \<Rightarrow> run_id \<Rightarrow> fake_run \<Rightarrow> bool" where
  "run_inv cd rid run \<longleftrightarrow>
     length (fr_events run) \<le> u64_max \<and> numbered 0 (fr_events run)
     \<and> replay cd (snapshot_admitted rid (sr_admitted (fr_stored run))) 0 (log_events (fr_events run))
         = Inr (sr_snapshot (fr_stored run))"

definition ledger_ok :: "codec \<Rightarrow> fake_state \<Rightarrow> bool" where
  "ledger_ok cd state \<longleftrightarrow>
     bm_wf (fs_runs state) \<and> bm_wf (fs_submissions state)
     \<and> (\<forall>rid run. bm_get (fs_runs state) rid = Some run \<longrightarrow>
          run_inv cd rid run
          \<and> bm_get (fs_submissions state) (sr_submission_key (fr_stored run)) = Some rid)
     \<and> (\<forall>key rid. bm_get (fs_submissions state) key = Some rid \<longrightarrow>
          (\<exists>run. bm_get (fs_runs state) rid = Some run \<and> sr_submission_key (fr_stored run) = key))"

lemma run_inv_ok:
  assumes "run_inv cd rid run"
  shows "run_ok (length (fr_events run)) (sr_snapshot (fr_stored run))"
    and "extends (snapshot_admitted rid (sr_admitted (fr_stored run))) (sr_snapshot (fr_stored run))"
    and "sn_run_id (sr_snapshot (fr_stored run)) = rid"
    and "cursor_sequence (sn_cursor (sr_snapshot (fr_stored run))) = Inr (length (fr_events run))"
proof -
  have r: "run_ok (length (fr_events run)) (sr_snapshot (fr_stored run))
      \<and> extends (snapshot_admitted rid (sr_admitted (fr_stored run))) (sr_snapshot (fr_stored run))"
    using replay_ok[OF _ run_ok_admitted] assms by (fastforce simp: run_inv_def log_events_def)
  then show "run_ok (length (fr_events run)) (sr_snapshot (fr_stored run))"
    "extends (snapshot_admitted rid (sr_admitted (fr_stored run))) (sr_snapshot (fr_stored run))" by simp_all
  show "sn_run_id (sr_snapshot (fr_stored run)) = rid"
    using r extendsD(1) by (fastforce simp: snapshot_admitted_def snapshot_empty_def)
  show "cursor_sequence (sn_cursor (sr_snapshot (fr_stored run))) = Inr (length (fr_events run))"
    using r assms by (simp add: run_ok_def run_inv_def)
qed

lemma append_locked_ok:
  assumes "append_locked cd run events = Inr (result, run')" and "run_inv cd rid run"
  shows "run_inv cd rid run'" and "fr_events run' = fr_events run @ ap_events result"
    and "ap_snapshot result = sr_snapshot (fr_stored run')"
    and "sr_admitted (fr_stored run') = sr_admitted (fr_stored run)"
    and "sr_submission_key (fr_stored run') = sr_submission_key (fr_stored run)"
    and "sr_submission_digest (fr_stored run') = sr_submission_digest (fr_stored run)"
    and "length (ap_events result) = length events" and "events \<noteq> []"
proof -
  let ?s = "sr_snapshot (fr_stored run)" and ?n = "length (fr_events run)"
  from assms(1) obtain s' n' stored where ne: "events \<noteq> []"
    and fold: "try_foldl (append_event cd) (?s, ?n, []) events = Inr (s', n', stored)"
    and res: "result = \<lparr>ap_snapshot = s', ap_events = stored\<rparr>"
    and run': "run' = run\<lparr>fr_events := fr_events run @ stored, fr_stored := (fr_stored run)\<lparr>sr_snapshot := s'\<rparr>\<rparr>"
    by (auto simp: append_locked_def Let_def run_inv_ok(4)[OF assms(2)] elim!: bind_resE split: if_splits)
  from append_events_replay[OF fold] obtain es where es: "stored = es" "length es = length events"
    "n' = ?n + length events" "n' \<le> u64_max" "numbered ?n es" "replay cd ?s ?n (log_events es) = Inr s'"
    using ne by auto
  show "run_inv cd rid run'"
    using assms(2) es by (simp add: run_inv_def run' numbered_append replay_append log_events_def)
  show "fr_events run' = fr_events run @ ap_events result" "ap_snapshot result = sr_snapshot (fr_stored run')"
    "sr_admitted (fr_stored run') = sr_admitted (fr_stored run)"
    "sr_submission_key (fr_stored run') = sr_submission_key (fr_stored run)"
    "sr_submission_digest (fr_stored run') = sr_submission_digest (fr_stored run)"
    "length (ap_events result) = length events" "events \<noteq> []"
    using es ne by (simp_all add: run' res)
qed

lemma ledger_okD:
  assumes "ledger_ok cd state"
  shows "bm_wf (fs_runs state)" and "bm_wf (fs_submissions state)"
    and "bm_get (fs_runs state) rid = Some run \<Longrightarrow> run_inv cd rid run"
    and "bm_get (fs_runs state) rid = Some run \<Longrightarrow>
      bm_get (fs_submissions state) (sr_submission_key (fr_stored run)) = Some rid"
    and "bm_get (fs_submissions state) key = Some rid \<Longrightarrow>
      \<exists>run. bm_get (fs_runs state) rid = Some run \<and> sr_submission_key (fr_stored run) = key"
  using assms unfolding ledger_ok_def by blast+

lemma ledger_ok_new: "ledger_ok cd FakeRunLedger_new"
  by (simp add: ledger_ok_def FakeRunLedger_new_def)

lemma ledger_ok_put:
  assumes "ledger_ok cd state" and "bm_get (fs_runs state) rid = Some run" and "run_inv cd rid run'"
    and "sr_submission_key (fr_stored run') = sr_submission_key (fr_stored run)"
  shows "ledger_ok cd (put_run state rid run')"
  unfolding ledger_ok_def put_run_def
proof (intro conjI allI impI)
  fix r x assume "bm_get (fs_runs (state\<lparr>fs_runs := bm_insert rid run' (fs_runs state)\<rparr>)) r = Some x"
  then have c: "r = rid \<and> x = run' \<or> r \<noteq> rid \<and> bm_get (fs_runs state) r = Some x" by (auto split: if_splits)
  then show "run_inv cd r x" using assms(3) ledger_okD(3)[OF assms(1)] by auto
  show "bm_get (fs_submissions (state\<lparr>fs_runs := bm_insert rid run' (fs_runs state)\<rparr>))
      (sr_submission_key (fr_stored x)) = Some r"
    using c assms(2,4) ledger_okD(4)[OF assms(1)] by auto
next
  fix key r assume "bm_get (fs_submissions (state\<lparr>fs_runs := bm_insert rid run' (fs_runs state)\<rparr>)) key = Some r"
  then obtain x where "bm_get (fs_runs state) r = Some x" "sr_submission_key (fr_stored x) = key"
    using ledger_okD(5)[OF assms(1)] by auto
  then show "\<exists>x. bm_get (fs_runs (state\<lparr>fs_runs := bm_insert rid run' (fs_runs state)\<rparr>)) r = Some x
      \<and> sr_submission_key (fr_stored x) = key"
    using assms(2,4) by auto
qed (use ledger_okD(1,2)[OF assms(1)] in simp_all)

text \<open>What each operation does to a ledger in order.\<close>

lemma ledger_append_cases:
  assumes "ledger_append cd state rid events = Inr (result, state')" and "ledger_ok cd state"
  obtains run run' where "bm_get (fs_runs state) rid = Some run" "run_inv cd rid run"
    "append_locked cd run events = Inr (result, run')" "state' = put_run state rid run'"
  using assms ledger_okD(3)[OF assms(2)]
  by (auto simp: ledger_append_def ok_or_eq_Inr elim!: bind_resE)

lemma ledger_append_ok:
  assumes "ledger_append cd state rid events = Inr (result, state')" and "ledger_ok cd state"
  shows "ledger_ok cd state'"
  using assms(1,2)
proof (rule ledger_append_cases)
  fix run run'
  assume r: "bm_get (fs_runs state) rid = Some run" "run_inv cd rid run"
    "append_locked cd run events = Inr (result, run')" "state' = put_run state rid run'"
  then show ?thesis
    using ledger_ok_put[OF assms(2) r(1)] append_locked_ok(1,5)[OF r(3,2)] by blast
qed

lemma request_force_stop_cases:
  assumes "request_force_stop cd state rid = Inr (result, state')"
  obtains run where "bm_get (fs_runs state) rid = Some run" "state' = state" "ap_events result = []"
      "ap_snapshot result = sr_snapshot (fr_stored run)"
      "sn_force_stop_requested (ap_snapshot result) \<or> sn_terminal (ap_snapshot result) \<noteq> None"
    | "ledger_append cd state rid [ForceStopRequested] = Inr (result, state')"
  using assms
  by (auto simp: request_force_stop_def ledger_append_def ok_or_eq_Inr Let_def elim!: bind_resE split: if_splits)

lemma request_force_stop_ok:
  assumes "request_force_stop cd state rid = Inr (result, state')" and "ledger_ok cd state"
  shows "ledger_ok cd state'"
  using assms(1) by (rule request_force_stop_cases) (use assms(2) ledger_append_ok in blast)+

lemma create_cases:
  assumes "create_or_get cd state request = Inr (outcome, state')"
  obtains (existing) rid run where "bm_get (fs_submissions state) (cr_submission_key request) = Some rid"
      "bm_get (fs_runs state) rid = Some run" "outcome = Existing (fr_stored run)" "state' = state"
      "sr_submission_digest (fr_stored run) = cr_submission_digest request"
      "sr_admitted (fr_stored run) = cr_admitted request"
    | (created) stored where "bm_get (fs_submissions state) (cr_submission_key request) = None"
      "bm_get (fs_runs state) (cr_run_id request) = None" "outcome = Created stored"
      "stored = \<lparr>sr_submission_key = cr_submission_key request,
               sr_submission_digest = cr_submission_digest request, sr_admitted = cr_admitted request,
               sr_snapshot = snapshot_admitted (cr_run_id request) (cr_admitted request)\<rparr>"
      "state' = state\<lparr>fs_submissions :=
            bm_insert (cr_submission_key request) (cr_run_id request) (fs_submissions state),
          fs_runs := bm_insert (cr_run_id request) \<lparr>fr_stored = stored, fr_events = []\<rparr> (fs_runs state)\<rparr>"
proof (cases "bm_get (fs_submissions state) (cr_submission_key request)")
  case None
  then have "bm_get (fs_runs state) (cr_run_id request) = None"
    using assms by (auto simp: create_or_get_def elim!: bind_resE split: if_splits)
  define st where "st = \<lparr>sr_submission_key = cr_submission_key request,
               sr_submission_digest = cr_submission_digest request, sr_admitted = cr_admitted request,
               sr_snapshot = snapshot_admitted (cr_run_id request) (cr_admitted request)\<rparr>"
  have "outcome = Created st \<and> state' = state\<lparr>fs_submissions :=
            bm_insert (cr_submission_key request) (cr_run_id request) (fs_submissions state),
          fs_runs := bm_insert (cr_run_id request) \<lparr>fr_stored = st, fr_events = []\<rparr> (fs_runs state)\<rparr>"
    using assms None \<open>bm_get (fs_runs state) (cr_run_id request) = None\<close>
    by (auto simp: create_or_get_def Let_def st_def elim!: bind_resE)
  with None \<open>bm_get (fs_runs state) (cr_run_id request) = None\<close> show ?thesis
    using created[of st] st_def by blast
next
  case (Some rid)
  then obtain run where "bm_get (fs_runs state) rid = Some run"
    using assms by (auto simp: create_or_get_def ok_or_eq_Inr elim!: bind_resE)
  moreover from this Some have "outcome = Existing (fr_stored run) \<and> state' = state
      \<and> sr_submission_digest (fr_stored run) = cr_submission_digest request
      \<and> sr_admitted (fr_stored run) = cr_admitted request"
    using assms by (auto simp: create_or_get_def Let_def elim!: bind_resE split: if_splits)
  ultimately show ?thesis using existing[OF Some] by blast
qed

lemma create_or_get_ok:
  assumes "create_or_get cd state request = Inr (outcome, state')" and "ledger_ok cd state"
  shows "ledger_ok cd state'"
  using assms(1)
proof (cases rule: create_cases)
  case (created stored)
  let ?r = "\<lparr>fr_stored = stored, fr_events = []\<rparr>"
  have inv: "run_inv cd (cr_run_id request) ?r"
    by (simp add: run_inv_def numbered_def log_events_def created(4))
  have other: "sr_submission_key (fr_stored x) \<noteq> cr_submission_key request"
    if "bm_get (fs_runs state) r = Some x" for r x
    using ledger_okD(4)[OF assms(2) that] created(1) by auto
  show ?thesis unfolding ledger_ok_def
  proof (intro conjI allI impI)
    fix r x assume "bm_get (fs_runs state') r = Some x"
    then have c: "r = cr_run_id request \<and> x = ?r \<or> r \<noteq> cr_run_id request \<and> bm_get (fs_runs state) r = Some x"
      by (auto simp: created(5) split: if_splits)
    then show "run_inv cd r x" using inv ledger_okD(3)[OF assms(2)] by auto
    show "bm_get (fs_submissions state') (sr_submission_key (fr_stored x)) = Some r"
      using c other ledger_okD(4)[OF assms(2)] by (auto simp: created(4,5))
  next
    fix key r assume "bm_get (fs_submissions state') key = Some r"
    then have "key = cr_submission_key request \<and> r = cr_run_id request \<or> bm_get (fs_submissions state) key = Some r"
      by (auto simp: created(5) split: if_splits)
    then show "\<exists>x. bm_get (fs_runs state') r = Some x \<and> sr_submission_key (fr_stored x) = key"
      using ledger_okD(5)[OF assms(2)] created(2) by (fastforce simp: created(4,5))
  qed (use ledger_okD(1,2)[OF assms(2)] in \<open>simp_all add: created(5)\<close>)
qed (use assms(2) in simp)

section \<open>Histories of a ledger\<close>

inductive ledger_step :: "codec \<Rightarrow> fake_state \<Rightarrow> fake_state \<Rightarrow> bool" for cd where
  step_create: "create_or_get cd state request = Inr (outcome, state') \<Longrightarrow> ledger_step cd state state'"
| step_append: "ledger_append cd state rid events = Inr (result, state') \<Longrightarrow> ledger_step cd state state'"
| step_stop: "request_force_stop cd state rid = Inr (result, state') \<Longrightarrow> ledger_step cd state state'"

inductive ledger_reachable :: "codec \<Rightarrow> fake_state \<Rightarrow> bool" for cd where
  reach_new: "ledger_reachable cd FakeRunLedger_new"
| reach_step: "ledger_reachable cd state \<Longrightarrow> ledger_step cd state state' \<Longrightarrow> ledger_reachable cd state'"

lemma ledger_step_ok: "ledger_step cd state state' \<Longrightarrow> ledger_ok cd state \<Longrightarrow> ledger_ok cd state'"
  by (cases rule: ledger_step.cases) (auto intro: create_or_get_ok ledger_append_ok request_force_stop_ok)

lemma ledger_reachable_ok: "ledger_reachable cd state \<Longrightarrow> ledger_ok cd state"
  by (induction rule: ledger_reachable.induct) (auto intro: ledger_ok_new ledger_step_ok)

section \<open>Replay pages\<close>

definition encoded_bytes :: "codec \<Rightarrow> stored_run_event list \<Rightarrow> nat" where
  "encoded_bytes cd es = sum_list (map (\<lambda>e. case cd_event cd (se_event e) of Some n \<Rightarrow> n | None \<Rightarrow> 0) es)"

definition encodable :: "codec \<Rightarrow> stored_run_event \<Rightarrow> bool" where
  "encodable cd e \<longleftrightarrow> (\<exists>n. cd_event cd (se_event e) = Some n \<and> n \<le> MAX_REPLAY_BYTES)"

lemma validate_event_encodable:
  assumes "validate_event cd (se_event e) = Inr ()"
  shows "encodable cd e"
proof -
  obtain n where "cd_event cd (se_event e) = Some n"
    "n \<le> (case se_event e of PriorExecution _ \<Rightarrow> MAX_PRIOR_EXECUTION_BYTES | _ \<Rightarrow> MAX_EVENT_BYTES)"
    using assms by (auto simp: validate_event_def Let_def bounded_json_def split: option.splits if_splits sum.splits)
  then show ?thesis
    by (auto simp: encodable_def MAX_REPLAY_BYTES_def MAX_PRIOR_EXECUTION_BYTES_def MAX_EVENT_BYTES_def
        split: run_event.splits)
qed

lemma page_events_ok:
  assumes "\<forall>e \<in> set es. encodable cd e" and "b \<le> MAX_REPLAY_BYTES"
  shows "\<exists>page. page_events cd b es = Inr page \<and> prefix page es \<and> b + encoded_bytes cd page \<le> MAX_REPLAY_BYTES"
  using assms
proof (induction es arbitrary: b)
  case (Cons e es)
  then obtain n where n: "cd_event cd (se_event e) = Some n" by (auto simp: encodable_def)
  show ?case
  proof (cases "b + n \<le> MAX_REPLAY_BYTES")
    case True
    with Cons obtain page where "page_events cd (b + n) es = Inr page" "prefix page es"
      "b + n + encoded_bytes cd page \<le> MAX_REPLAY_BYTES" by (metis list.set_intros(2))
    then show ?thesis using n True by (intro exI[of _ "e # page"]) (simp add: encoded_bytes_def)
  next
    case False
    then show ?thesis using n Cons.prems(2) by (simp add: encoded_bytes_def)
  qed
qed (simp add: encoded_bytes_def)

lemma page_events_progress:
  assumes "encodable cd e" and "page_events cd 0 (e # es) = Inr page"
  shows "page \<noteq> []"
  using assms by (auto simp: encodable_def elim!: bind_resE split: if_splits)

lemma replay_page_ok:
  assumes "\<forall>e \<in> set es. encodable cd e"
  obtains page where "replay_page cd es n = Inr page" "prefix page (drop n es)"
    "length page \<le> MAX_REPLAY_EVENTS" "encoded_bytes cd page \<le> MAX_REPLAY_BYTES"
    "n < length es \<longrightarrow> page \<noteq> []"
proof -
  let ?es = "take MAX_REPLAY_EVENTS (drop n es)"
  have enc: "\<forall>e \<in> set ?es. encodable cd e" using assms by (meson in_set_dropD in_set_takeD)
  obtain page where p: "page_events cd 0 ?es = Inr page" "prefix page ?es" "encoded_bytes cd page \<le> MAX_REPLAY_BYTES"
    using page_events_ok[OF enc, of 0] by auto
  have "page \<noteq> []" if "n < length es"
  proof -
    have "?es \<noteq> []" using that by (simp add: MAX_REPLAY_EVENTS_def)
    then obtain e r where er: "?es = e # r" by (cases ?es) auto
    have "encodable cd e" using enc er by simp
    then show ?thesis using page_events_progress p(1) er by metis
  qed
  moreover have "prefix page (drop n es)" using p(2) by (meson prefix_order.trans take_is_prefix)
  moreover have "length page \<le> MAX_REPLAY_EVENTS" using prefix_length_le[OF p(2)] by simp
  ultimately show ?thesis using that[of page] p by (simp add: replay_page_def)
qed

text \<open>A client that reads pages and resumes after the last event of each.\<close>

fun catch_up ::
    "(cursor option \<Rightarrow> run_ledger_error + snapshot_and_tail) \<Rightarrow> nat \<Rightarrow> cursor
       \<Rightarrow> run_ledger_error + stored_run_event list" where
  "catch_up tail 0 after = Inr []"
| "catch_up tail (Suc fuel) after =
     bind_res (tail (Some after)) (\<lambda>page.
     if tl_events page = [] then Inr []
     else bind_res (catch_up tail fuel (se_cursor (last (tl_events page)))) (\<lambda>rest.
          Inr (tl_events page @ rest)))"

section \<open>The port\<close>

locale run_ledger =
  fixes ok :: "'s \<Rightarrow> bool"
    and durable_log :: "'s \<Rightarrow> run_id \<Rightarrow> stored_run_event list option"
    and current :: "'s \<Rightarrow> run_id \<Rightarrow> run_snapshot option"
    and append :: "'s \<Rightarrow> run_id \<Rightarrow> run_event list \<Rightarrow> run_ledger_error + append_result \<times> 's"
    and tail :: "'s \<Rightarrow> run_id \<Rightarrow> cursor option \<Rightarrow> run_ledger_error + snapshot_and_tail"
  assumes append_ok: "ok s \<Longrightarrow> append s r evs = Inr (res, s') \<Longrightarrow> ok s'"
    and append_log: "ok s \<Longrightarrow> append s r evs = Inr (res, s') \<Longrightarrow>
      \<exists>es. durable_log s r = Some es \<and> durable_log s' r = Some (es @ ap_events res)
        \<and> current s' r = Some (ap_snapshot res) \<and> ap_events res \<noteq> []"
    and append_frame: "ok s \<Longrightarrow> append s r evs = Inr (res, s') \<Longrightarrow> r' \<noteq> r \<Longrightarrow>
      durable_log s' r' = durable_log s r' \<and> current s' r' = current s r'"
    and log_numbered: "ok s \<Longrightarrow> durable_log s r = Some es \<Longrightarrow> numbered 0 es \<and> length es \<le> u64_max"
    and tail_page: "ok s \<Longrightarrow> durable_log s r = Some es \<Longrightarrow> n \<le> length es \<Longrightarrow>
      \<exists>page. tail s r (Some (cursor_for n)) = Inr page \<and> current s r = Some (tl_snapshot page)
        \<and> prefix (tl_events page) (drop n es) \<and> (n < length es \<longrightarrow> tl_events page \<noteq> [])"
begin

lemma log_grows:
  assumes "ok s" and "append s r evs = Inr (res, s')" and "durable_log s r' = Some es"
  obtains es' where "durable_log s' r' = Some (es @ es')"
  using append_log[OF assms(1,2)] append_frame[OF assms(1,2)] assms(3)
  by (cases "r' = r") auto

lemma page_last:
  assumes "numbered 0 es" and "prefix p (drop n es)" and "p \<noteq> []" and "n \<le> length es"
  shows "se_cursor (last p) = cursor_for (n + length p)" and "n + length p \<le> length es"
proof -
  obtain zs where zs: "drop n es = p @ zs" using assms(2) by (auto simp: prefix_def)
  have len: "length p + length zs = length es - n" using arg_cong[OF zs, of length] by simp
  then show le: "n + length p \<le> length es" using assms(4) by linarith
  have "es = take n es @ butlast p @ [last p] @ zs"
    using append_take_drop_id[of n es] zs append_butlast_last_id[OF assms(3)]
    by (metis append.assoc)
  then have "numbered 0 (take n es @ butlast p @ [last p] @ zs)" using assms(1) by simp
  then have "se_cursor (last p) = cursor_for (Suc (min (length es) n + length (butlast p)))"
    by (simp only: numbered_append numbered_single length_take) (simp only: add_0)
  moreover have "Suc (min (length es) n + length (butlast p)) = n + length p"
    using assms(3,4) by (cases p) simp_all
  ultimately show "se_cursor (last p) = cursor_for (n + length p)" by simp
qed

lemma catch_up_complete:
  assumes "ok s" and "durable_log s r = Some es" and "n \<le> length es" and "length es - n < fuel"
  shows "catch_up (tail s r) fuel (cursor_for n) = Inr (drop n es)"
  using assms(3,4)
proof (induction fuel arbitrary: n)
  case (Suc fuel)
  from tail_page[OF assms(1,2) Suc.prems(1)] obtain page where
    page: "tail s r (Some (cursor_for n)) = Inr page" "prefix (tl_events page) (drop n es)"
      "n < length es \<longrightarrow> tl_events page \<noteq> []" by blast
  show ?case
  proof (cases "tl_events page = []")
    case True
    then show ?thesis using page Suc.prems(1) by auto
  next
    case False
    note last = page_last[OF log_numbered[OF assms(1,2), THEN conjunct1] page(2) False Suc.prems(1)]
    have "0 < length (tl_events page)" using False by simp
    then have "length es - (n + length (tl_events page)) < fuel" using Suc.prems(2) last(2) by linarith
    note ih = Suc.IH[OF last(2) this]
    have "drop n es = tl_events page @ drop (n + length (tl_events page)) es"
    proof -
      obtain zs where zs: "drop n es = tl_events page @ zs" using page(2) by (auto simp: prefix_def)
      have "drop (length (tl_events page) + n) es = zs"
        using arg_cong[OF zs, of "drop (length (tl_events page))"] by simp
      then show ?thesis using zs by (simp add: add.commute)
    qed
    then show ?thesis using page(1) False ih last(1) by simp
  qed
qed simp

end

definition ledger_log :: "fake_state \<Rightarrow> run_id \<Rightarrow> stored_run_event list option" where
  "ledger_log state rid = map_option fr_events (bm_get (fs_runs state) rid)"

definition ledger_current :: "fake_state \<Rightarrow> run_id \<Rightarrow> run_snapshot option" where
  "ledger_current state rid = map_option (\<lambda>run. sr_snapshot (fr_stored run)) (bm_get (fs_runs state) rid)"

lemma run_inv_encodable: "run_inv cd rid run \<Longrightarrow> e \<in> set (fr_events run) \<Longrightarrow> encodable cd e"
  by (auto intro!: validate_event_encodable replay_valid simp: run_inv_def log_events_def)

lemma ledger_tail_page:
  assumes "ledger_ok cd state" and "bm_get (fs_runs state) rid = Some run" and "n \<le> length (fr_events run)"
  obtains page where "ledger_snapshot_and_tail cd state rid (Some (cursor_for n)) = Inr page"
    "tl_snapshot page = sr_snapshot (fr_stored run)" "prefix (tl_events page) (drop n (fr_events run))"
    "length (tl_events page) \<le> MAX_REPLAY_EVENTS" "encoded_bytes cd (tl_events page) \<le> MAX_REPLAY_BYTES"
    "n < length (fr_events run) \<longrightarrow> tl_events page \<noteq> []"
proof -
  have inv: "run_inv cd rid run" using ledger_okD(3)[OF assms(1,2)] .
  then have enc: "\<forall>e \<in> set (fr_events run). encodable cd e" using run_inv_encodable by blast
  from replay_page_ok[OF enc, of n] obtain p where p: "replay_page cd (fr_events run) n = Inr p"
    "prefix p (drop n (fr_events run))" "length p \<le> MAX_REPLAY_EVENTS" "encoded_bytes cd p \<le> MAX_REPLAY_BYTES"
    "n < length (fr_events run) \<longrightarrow> p \<noteq> []" by blast
  have "n \<le> u64_max" using assms(3) inv by (simp add: run_inv_def)
  then show ?thesis
    using that[of "\<lparr>tl_snapshot = sr_snapshot (fr_stored run), tl_events = p\<rparr>"] p assms(2,3) run_inv_ok(4)[OF inv]
    by (simp add: ledger_snapshot_and_tail_def)
qed

interpretation fake: run_ledger "ledger_ok cd" ledger_log ledger_current "ledger_append cd"
  "ledger_snapshot_and_tail cd" for cd
proof unfold_locales
  show "ledger_ok cd s'" if "ledger_ok cd s" "ledger_append cd s r evs = Inr (res, s')" for s r evs res s'
    using ledger_append_ok that by blast
next
  fix s r evs res s' assume ok: "ledger_ok cd s" and ap: "ledger_append cd s r evs = Inr (res, s')"
  from ap ok obtain run run' where r: "bm_get (fs_runs s) r = Some run" "run_inv cd r run"
    "append_locked cd run evs = Inr (res, run')" "s' = put_run s r run'" by (rule ledger_append_cases)
  note a = append_locked_ok[OF r(3,2)]
  have "ap_events res \<noteq> []" using a(7,8) by auto
  then show "\<exists>es. ledger_log s r = Some es \<and> ledger_log s' r = Some (es @ ap_events res)
      \<and> ledger_current s' r = Some (ap_snapshot res) \<and> ap_events res \<noteq> []"
    using r(1,4) a(2,3) by (simp add: ledger_log_def ledger_current_def put_run_def)
  show "ledger_log s' r' = ledger_log s r' \<and> ledger_current s' r' = ledger_current s r'" if "r' \<noteq> r" for r'
    using r(4) that by (simp add: ledger_log_def ledger_current_def put_run_def)
next
  show "numbered 0 es \<and> length es \<le> u64_max" if "ledger_ok cd s" "ledger_log s r = Some es" for s r es
    using ledger_okD(3)[OF that(1)] that(2) by (auto simp: ledger_log_def run_inv_def)
next
  fix s r es n assume ok: "ledger_ok cd s" and l: "ledger_log s r = Some es" and n: "n \<le> length es"
  obtain run where run: "bm_get (fs_runs s) r = Some run" "es = fr_events run"
    using l by (auto simp: ledger_log_def)
  from ledger_tail_page[OF ok run(1)] n run obtain page where
    "ledger_snapshot_and_tail cd s r (Some (cursor_for n)) = Inr page"
    "tl_snapshot page = sr_snapshot (fr_stored run)" "prefix (tl_events page) (drop n es)"
    "n < length es \<longrightarrow> tl_events page \<noteq> []" by metis
  then show "\<exists>page. ledger_snapshot_and_tail cd s r (Some (cursor_for n)) = Inr page
      \<and> ledger_current s r = Some (tl_snapshot page) \<and> prefix (tl_events page) (drop n es)
      \<and> (n < length es \<longrightarrow> tl_events page \<noteq> [])"
    using run by (auto simp: ledger_current_def)
qed

end
