(* ===== verification/Ledger_Properties.thy ===== *)
theory Ledger_Properties
  imports Ledger
begin

text \<open>
  The properties of the run ledger: what the projection accepts, the invariant of every reachable
  ledger, event sourcing, finality, idempotent requests and complete replays.
\<close>

section \<open>A concrete run\<close>

definition demo_codec :: codec where
  "demo_codec = \<lparr>cd_event = (\<lambda>_. Some 100), cd_admitted = (\<lambda>_. Some 100),
                 cd_sha256 = (\<lambda>_. replicate 32 171)\<rparr>"

definition demo_admitted :: admitted_run where
  "demo_admitted = \<lparr>ad_title = ''demo'',
     ad_graph = \<lparr>cg_profile = FullProfile, cg_initial_input = PNull,
                 cg_policy = \<lparr>po_policy = ''policy@1'', po_default = PolicyDeny\<rparr>,
                 cg_root = SucceedNode \<lparr>su_name = ''ok'', su_output = PNull, su_bindings = []\<rparr>,
                 cg_bounds = \<lparr>sb_termination = Acyclic [''ok''], sb_max_node_executions = 1,
                              sb_peak_concurrency = 1, sb_attempts_per_node = []\<rparr>\<rparr>,
     ad_initial_input = VNull,
     ad_runtime = \<lparr>rp_harness = ''h'', rp_provider = ''p'', rp_size = Small, rp_workspace_checkpoints = True,
       rp_active_memory = active_memory_default, rp_global_agents = \<lparr>ga_postmortem = postmortem_default\<rparr>,
       rp_nodes = []\<rparr>,
     ad_environment = None, ad_source = None\<rparr>"

definition demo_request :: create_run where
  "demo_request = \<lparr>cr_run_id = ''r'', cr_submission_key = ''k'', cr_submission_digest = ''d'',
                   cr_admitted = demo_admitted\<rparr>"

definition demo_stored :: stored_run where
  "demo_stored = \<lparr>sr_submission_key = ''k'', sr_submission_digest = ''d'', sr_admitted = demo_admitted,
                  sr_snapshot = snapshot_admitted ''r'' demo_admitted\<rparr>"

definition demo_ledger :: fake_state where
  "demo_ledger = \<lparr>fs_runs = [(''r'', \<lparr>fr_stored = demo_stored, fr_events = []\<rparr>)],
                  fs_submissions = [(''k'', ''r'')]\<rparr>"

lemma demo_created: "create_or_get demo_codec FakeRunLedger_new demo_request = Inr (Created demo_stored, demo_ledger)"
  by (simp add: create_or_get_def validate_create_def bounded_json_def FakeRunLedger_new_def demo_codec_def
      demo_request_def demo_ledger_def demo_stored_def MAX_ADMITTED_RUN_BYTES_def Let_def)

lemma demo_reachable: "ledger_reachable demo_codec demo_ledger"
  using reach_step[OF reach_new step_create[OF demo_created]] .

definition demo_running :: run_snapshot where
  "demo_running = (snapshot_admitted ''r'' demo_admitted)\<lparr>sn_phase := Running, sn_cursor := cursor_for 1\<rparr>"

definition demo_started :: append_result where
  "demo_started = \<lparr>ap_snapshot = demo_running,
     ap_events = [\<lparr>se_cursor = cursor_for 1, se_event = RunStarted\<rparr>]\<rparr>"

definition demo_ledger_started :: fake_state where
  "demo_ledger_started = put_run demo_ledger ''r''
     \<lparr>fr_stored = demo_stored\<lparr>sr_snapshot := demo_running\<rparr>, fr_events = ap_events demo_started\<rparr>"

lemma demo_start:
  "ledger_append demo_codec demo_ledger ''r'' [RunStarted] = Inr (demo_started, demo_ledger_started)"
proof -
  have "cursor_sequence (sn_cursor (snapshot_admitted ''r'' demo_admitted)) = Inr 0"
    by (simp add: snapshot_admitted_def snapshot_empty_def initial_cursor_for)
  then show ?thesis
    by (simp add: ledger_append_def append_locked_def append_event_def prepare_event_def apply_event_def
        apply_event_kind_def apply_run_started_def validate_event_def bounded_json_def checked_add_def u64_max_def
        demo_ledger_def demo_stored_def demo_codec_def demo_started_def demo_ledger_started_def demo_running_def
        MAX_EVENT_BYTES_def snapshot_admitted_def snapshot_empty_def put_run_def)
qed

lemma demo_started_reachable: "ledger_reachable demo_codec demo_ledger_started"
  using reach_step[OF demo_reachable step_append[OF demo_start]] .

lemma demo_started_run:
  "bm_get (fs_runs demo_ledger_started) ''r'' =
     Some \<lparr>fr_stored = demo_stored\<lparr>sr_snapshot := demo_running\<rparr>, fr_events = ap_events demo_started\<rparr>"
  by (simp add: demo_ledger_started_def put_run_def)

section \<open>The projection of a run\<close>

text \<open>C10. What the projection accepts: \<open>apply_event\<close> accepts an event exactly when the run is not yet
  terminal, the event has an encoding within its bound (1 MiB, twice that and 1 KiB for an imported
  execution) and the event is a step of the run (\<open>event_step\<close>: for instance a dispatch needs a
  running, unstopped run without a completed graph and an unused execution; a settlement needs the
  active execution of that very reference and a recordable outcome; a failure diagnostic must stand on
  the error stream and a run keeps its primary failure and the last five others; token counters are
  exact sums; a terminal result needs that nothing is active), and then it performs that step and moves
  the cursor to the event.\<close>

theorem apply_event_exact:
  "apply_event cd s ev n = Inr s' \<longleftrightarrow>
     sn_terminal s = None
     \<and> (\<exists>bytes. cd_event cd ev = Some bytes
          \<and> bytes \<le> (case ev of PriorExecution _ \<Rightarrow> 2 * 1024 ^ 2 + 1024 | _ \<Rightarrow> 1024 ^ 2))
     \<and> (\<exists>t. event_step cd n s ev t \<and> s' = t\<lparr>sn_cursor := cursor_for n\<rparr>)"
  unfolding apply_event_iff validate_event_iff ..

text \<open>C8. The invariant of runs: in every ledger reachable through the port, the snapshot of every run
  stands at the cursor of its last event; every execution is filed under its own identity and run,
  with distinct start cursors and settlement after the start; imported executions are settled, strictly
  ordered and never dispatched again; the phase agrees with the stop flag and the terminal result; and
  nothing is active once the graph or the run is finished.\<close>

theorem ledger_run_ok:
  assumes "ledger_reachable cd state" and "bm_get (fs_runs state) rid = Some run"
  shows "run_ok (length (fr_events run)) (sr_snapshot (fr_stored run))
    \<and> sn_run_id (sr_snapshot (fr_stored run)) = rid"
  using run_inv_ok(1,3)[OF ledger_okD(3)[OF ledger_reachable_ok[OF assms(1)] assms(2)]] by blast

theorem ledger_run_ok_witness: "run_ok 1 demo_running"
  using ledger_run_ok[OF demo_started_reachable demo_started_run] by (simp add: demo_started_def)

text \<open>C9. Event sourcing: in every reachable ledger the snapshot of a run is exactly what replaying its
  recorded events from \<open>replay_seed\<close> produces, and the events carry the consecutive cursors 1, 2, ....\<close>

theorem ledger_event_sourcing:
  assumes "ledger_reachable cd state" and "bm_get (fs_runs state) rid = Some run"
  shows "replay cd (replay_seed (sr_snapshot (fr_stored run))) 0 (map se_event (fr_events run))
      = Inr (sr_snapshot (fr_stored run))
    \<and> map se_cursor (fr_events run) = map cursor_for [1 ..< Suc (length (fr_events run))]"
proof -
  have inv: "run_inv cd rid run" using ledger_okD(3)[OF ledger_reachable_ok[OF assms(1)] assms(2)] .
  have "replay_seed (sr_snapshot (fr_stored run)) = snapshot_admitted rid (sr_admitted (fr_stored run))"
    using extendsD(1-4)[OF run_inv_ok(2)[OF inv]]
    by (simp add: replay_seed_def snapshot_admitted_def snapshot_empty_def)
  then show ?thesis using inv by (simp add: run_inv_def log_events_def numbered_def del: upt_Suc)
qed

theorem ledger_event_sourcing_witness:
  "replay demo_codec (replay_seed demo_running) 0 [RunStarted] = Inr demo_running"
  using ledger_event_sourcing[OF demo_started_reachable demo_started_run] by (simp add: demo_started_def)

text \<open>C11. Facts are final: a successful append only extends the run. The identity of the run and of
  every execution stays, a settled or voided execution never changes its state again, imported
  executions stay, the phase never goes back, and a recorded graph outcome keeps its result and
  delivery evidence.\<close>

theorem ledger_append_extends:
  assumes "ledger_reachable cd state" and "ledger_append cd state rid events = Inr (result, state')"
    and "bm_get (fs_runs state) rid = Some run"
  shows "extends (sr_snapshot (fr_stored run)) (ap_snapshot result)"
proof -
  have ok: "ledger_ok cd state" by (rule ledger_reachable_ok[OF assms(1)])
  from assms(2) ok obtain r r' where r: "bm_get (fs_runs state) rid = Some r" "run_inv cd rid r"
    "append_locked cd r events = Inr (result, r')" by (rule ledger_append_cases)
  note a = append_locked_ok[OF r(3,2)]
  have "r = run" using r(1) assms(3) by simp
  have rep: "replay cd (snapshot_admitted rid (sr_admitted (fr_stored run))) 0 (log_events (fr_events run) @ log_events (ap_events result))
      = Inr (ap_snapshot result)"
    using a(1-4) \<open>r = run\<close> by (simp add: run_inv_def log_events_def)
  have "replay cd (sr_snapshot (fr_stored run)) (length (fr_events run)) (log_events (ap_events result)) = Inr (ap_snapshot result)"
    using rep r(2) \<open>r = run\<close> by (simp add: replay_append run_inv_def log_events_def)
  then show ?thesis using replay_ok run_inv_ok(1) r(2) \<open>r = run\<close> by blast
qed

theorem ledger_append_extends_witness:
  "extends (snapshot_admitted ''r'' demo_admitted) demo_running"
  using ledger_append_extends[OF demo_reachable demo_start]
  by (simp add: demo_ledger_def demo_stored_def demo_started_def)

section \<open>Requests\<close>

text \<open>Appends are atomic and isolated: a successful append records one event for each event of
  the batch after the old log of the run, returns the new snapshot, and leaves every other run and all
  submissions alone. (A failed one returns no new state at all.)\<close>

theorem ledger_append_log:
  assumes "ledger_reachable cd state" and "ledger_append cd state rid events = Inr (result, state')"
  shows "(\<exists>old. ledger_log state rid = Some old \<and> ledger_log state' rid = Some (old @ ap_events result))
    \<and> ledger_current state' rid = Some (ap_snapshot result)
    \<and> length (ap_events result) = length events
    \<and> (\<forall>other. other = rid \<or> bm_get (fs_runs state') other = bm_get (fs_runs state) other)
    \<and> fs_submissions state' = fs_submissions state"
proof -
  have ok: "ledger_ok cd state" by (rule ledger_reachable_ok[OF assms(1)])
  from assms(2) ok obtain r r' where r: "bm_get (fs_runs state) rid = Some r" "run_inv cd rid r"
    "append_locked cd r events = Inr (result, r')" "state' = put_run state rid r'" by (rule ledger_append_cases)
  show ?thesis
    using fake.append_log[OF ok assms(2)] append_locked_ok(7)[OF r(3,2)] r(4)
    by (auto simp: put_run_def)
qed

theorem ledger_append_log_witness:
  "ledger_log demo_ledger_started ''r'' = Some [\<lparr>se_cursor = cursor_for 1, se_event = RunStarted\<rparr>]"
  using ledger_append_log[OF demo_reachable demo_start]
  by (simp add: ledger_log_def demo_ledger_def demo_started_def)

text \<open>C12. Force-stop is recorded once: after a successful request the run is stopping or was already
  terminal, a further request returns the same snapshot with no new event, and the snapshot accepts no
  dispatch.\<close>

theorem force_stop_idempotent:
  assumes "ledger_reachable cd state" and "request_force_stop cd state rid = Inr (result, state')"
  shows "(sn_force_stop_requested (ap_snapshot result) \<or> sn_terminal (ap_snapshot result) \<noteq> None)
    \<and> request_force_stop cd state' rid = Inr (\<lparr>ap_snapshot = ap_snapshot result, ap_events = []\<rparr>, state')
    \<and> apply_event cd (ap_snapshot result) (NodeStarted reference occurrence attempt input) n \<noteq> Inr after"
proof -
  have ok: "ledger_ok cd state" by (rule ledger_reachable_ok[OF assms(1)])
  have stop: "\<exists>run. bm_get (fs_runs state') rid = Some run \<and> sr_snapshot (fr_stored run) = ap_snapshot result
      \<and> (sn_force_stop_requested (ap_snapshot result) \<or> sn_terminal (ap_snapshot result) \<noteq> None)"
    using assms(2)
  proof (cases rule: request_force_stop_cases)
    case 2
    from 2 ok obtain r r' where r: "bm_get (fs_runs state) rid = Some r" "run_inv cd rid r"
      "append_locked cd r [ForceStopRequested] = Inr (result, r')" "state' = put_run state rid r'"
      by (rule ledger_append_cases)
    have "sn_force_stop_requested (ap_snapshot result)"
      using r(3) by (auto simp: append_locked_def append_event_def prepare_event_def apply_event_iff
          event_step_simps Let_def elim!: bind_resE)
    then show ?thesis using r(4) append_locked_ok(3)[OF r(3,2)] by (simp add: put_run_def)
  qed auto
  have "apply_event cd (ap_snapshot result) (NodeStarted reference occurrence attempt input) n \<noteq> Inr after"
    using stop by (auto simp: apply_event_iff event_step_simps)
  then show ?thesis using stop by (auto simp: request_force_stop_def)
qed

theorem force_stop_idempotent_witness:
  "\<exists>result state'. request_force_stop demo_codec demo_ledger_started ''r'' = Inr (result, state')
     \<and> request_force_stop demo_codec state' ''r'' = Inr (\<lparr>ap_snapshot = ap_snapshot result, ap_events = []\<rparr>, state')"
proof -
  have "\<exists>result state'. request_force_stop demo_codec demo_ledger_started ''r'' = Inr (result, state')"
    by (simp add: request_force_stop_def demo_started_run demo_running_def snapshot_admitted_def
        snapshot_empty_def append_locked_def append_event_def prepare_event_def apply_event_def
        apply_event_kind_def apply_force_stop_def validate_event_def bounded_json_def checked_add_def u64_max_def
        demo_codec_def MAX_EVENT_BYTES_def)
  then show ?thesis using force_stop_idempotent[OF demo_started_reachable] by metis
qed

text \<open>C13. Submissions are idempotent: after a successful create the run is found under its submission
  key, repeating the request changes nothing and returns that run as existing, and another request
  under the same key is refused, naming the existing run.\<close>

theorem create_or_get_idempotent:
  assumes "ledger_reachable cd state" and "create_or_get cd state request = Inr (outcome, state')"
  shows "get_by_submission_key state' (cr_submission_key request) = Some (outcome_stored outcome)
    \<and> create_or_get cd state' request = Inr (Existing (outcome_stored outcome), state')
    \<and> (\<forall>other. cr_submission_key other = cr_submission_key request \<and> validate_create cd other = Inr ()
         \<and> (cr_submission_digest other, cr_admitted other) \<noteq> (cr_submission_digest request, cr_admitted request)
         \<longrightarrow> (\<exists>rid. create_or_get cd state' other = Inl (SubmissionConflict rid)
               \<and> ledger_get state' rid = Some (outcome_stored outcome)))"
proof -
  have valid: "validate_create cd request = Inr ()"
    using assms(2) by (auto simp: create_or_get_def elim!: bind_resE)
  obtain rid run where f: "bm_get (fs_submissions state') (cr_submission_key request) = Some rid"
    "bm_get (fs_runs state') rid = Some run" "fr_stored run = outcome_stored outcome"
    "sr_submission_digest (fr_stored run) = cr_submission_digest request"
    "sr_admitted (fr_stored run) = cr_admitted request"
    using assms(2) by (cases rule: create_cases) auto
  show ?thesis using f valid
    by (auto simp: get_by_submission_key_def create_or_get_def ledger_get_def)
qed

theorem create_or_get_idempotent_witness:
  "get_by_submission_key demo_ledger ''k'' = Some demo_stored
    \<and> create_or_get demo_codec demo_ledger demo_request = Inr (Existing demo_stored, demo_ledger)"
  using create_or_get_idempotent[OF reach_new demo_created] by (simp add: demo_request_def)

section \<open>Replay\<close>

text \<open>C14. Reconnecting clients see the whole log: reading pages after a cursor and resuming after the last
  event of each page, with one read more than there are events left, yields exactly the recorded events
  after that cursor.\<close>

theorem catch_up_reads_all:
  assumes "ledger_reachable cd state" and "ledger_log state rid = Some events"
    and "n \<le> length events" and "length events - n < fuel"
  shows "catch_up (ledger_snapshot_and_tail cd state rid) fuel (cursor_for n) = Inr (drop n events)"
  using fake.catch_up_complete[OF ledger_reachable_ok[OF assms(1)] assms(2-4)] .

theorem catch_up_reads_all_witness:
  "catch_up (ledger_snapshot_and_tail demo_codec demo_ledger_started ''r'') 2 (cursor_for 0)
     = Inr [\<lparr>se_cursor = cursor_for 1, se_event = RunStarted\<rparr>]"
  using catch_up_reads_all[OF demo_started_reachable, of "''r''" "[\<lparr>se_cursor = cursor_for 1, se_event = RunStarted\<rparr>]" 0 2]
  by (simp add: ledger_log_def demo_started_run demo_started_def)

text \<open>C15. Pages are bounded and make progress: a page holds at most 256 events and at most the replay
  bound of encoded bytes, it is the piece of the log right after the requested cursor, and it is not
  empty unless the cursor is at the end.\<close>

theorem replay_page_bounds:
  assumes "ledger_reachable cd state" and "bm_get (fs_runs state) rid = Some run"
    and "n \<le> length (fr_events run)"
  shows "\<exists>page. ledger_snapshot_and_tail cd state rid (Some (cursor_for n)) = Inr page
    \<and> tl_snapshot page = sr_snapshot (fr_stored run) \<and> prefix (tl_events page) (drop n (fr_events run))
    \<and> length (tl_events page) \<le> 256 \<and> encoded_bytes cd (tl_events page) \<le> MAX_REPLAY_BYTES
    \<and> (tl_events page = [] \<longleftrightarrow> n = length (fr_events run))"
proof -
  from ledger_tail_page[OF ledger_reachable_ok[OF assms(1)] assms(2,3)] obtain page where
    p: "ledger_snapshot_and_tail cd state rid (Some (cursor_for n)) = Inr page"
      "tl_snapshot page = sr_snapshot (fr_stored run)" "prefix (tl_events page) (drop n (fr_events run))"
      "length (tl_events page) \<le> MAX_REPLAY_EVENTS" "encoded_bytes cd (tl_events page) \<le> MAX_REPLAY_BYTES"
      "n < length (fr_events run) \<longrightarrow> tl_events page \<noteq> []" by blast
  have "tl_events page = [] \<longleftrightarrow> n = length (fr_events run)"
    using p(3,6) assms(3) by (cases "n = length (fr_events run)") auto
  then show ?thesis using p by (intro exI[of _ page]) (simp add: MAX_REPLAY_EVENTS_def)
qed

theorem replay_page_bounds_witness:
  "\<exists>page. ledger_snapshot_and_tail demo_codec demo_ledger_started ''r'' (Some (cursor_for 0)) = Inr page
     \<and> tl_snapshot page = demo_running \<and> length (tl_events page) \<le> 256"
  using replay_page_bounds[OF demo_started_reachable demo_started_run, of 0] by auto

section \<open>Public selectors\<close>

lemma hex_digit_range: "d < 16 \<Longrightarrow> 48 \<le> hex_digit_code d \<and> hex_digit_code d \<le> 102"
  by (auto simp: hex_digit_code_def)

lemma hex_digit_inj: "a < 16 \<Longrightarrow> b < 16 \<Longrightarrow> hex_digit_code a = hex_digit_code b \<Longrightarrow> a = b"
  by (auto simp: hex_digit_code_def split: if_splits)

lemma hex_digit_char: "d < 16 \<Longrightarrow> of_char (char_of (hex_digit_code d) :: char) = hex_digit_code d"
  using hex_digit_range[of d] by simp

lemma hex_byte_codes:
  "map of_char (hex_byte b) = [hex_digit_code (b div 16 mod 16), hex_digit_code (b mod 16)]"
proof -
  have "b div 16 mod 16 < 16" "b mod 16 < 16" by simp_all
  then show ?thesis unfolding hex_byte_def list.map by (simp only: hex_digit_char)
qed

lemma hex_byte_inj:
  assumes "a < 256" "b < 256" "hex_byte a = hex_byte b"
  shows "a = b"
proof -
  have "hex_digit_code (a div 16 mod 16) = hex_digit_code (b div 16 mod 16)"
    "hex_digit_code (a mod 16) = hex_digit_code (b mod 16)"
    using arg_cong[OF assms(3), of "map of_char :: string \<Rightarrow> nat list"] by (simp_all add: hex_byte_codes)
  then have "a div 16 mod 16 = b div 16 mod 16" "a mod 16 = b mod 16"
    using hex_digit_inj by simp_all
  moreover have "a div 16 < 16" "b div 16 < 16" using assms(1,2) by auto
  ultimately show "a = b" by (metis div_mult_mod_eq mod_less)
qed

lemma hex_bytes_inj:
  "\<forall>b \<in> set xs \<union> set ys. b < 256 \<Longrightarrow> length xs = length ys \<Longrightarrow>
   concat (map hex_byte xs) = concat (map hex_byte ys) \<Longrightarrow> xs = ys"
proof (induction xs ys rule: list_induct2')
  case (4 x xs y ys)
  then show ?case using hex_byte_inj[of x y] by (auto simp: hex_byte_def)
qed auto

lemma hex_bytes_visible:
  assumes "c \<in> set (concat (map hex_byte xs))"
  shows "\<not> is_control (of_char c)"
proof -
  obtain x where "c \<in> set (hex_byte x)" using assms by auto
  then have "of_char c \<in> set (map of_char (hex_byte x) :: nat list)" by simp
  then have "of_char c \<in> {hex_digit_code (x div 16 mod 16), hex_digit_code (x mod 16)}"
    unfolding hex_byte_codes by simp
  then show ?thesis
    using hex_digit_range[of "x div 16 mod 16"] hex_digit_range[of "x mod 16"] by (auto simp: is_control_def)
qed

text \<open>The bytes a selector digests.\<close>

definition selector_bytes :: "execution_ref \<Rightarrow> nat list" where
  "selector_bytes r =
     map of_char ''zeroshot/native-v2/execution-ref/v1'' @ [0] @ map of_char (er_run_id r) @ [0]
     @ map of_char (er_node r) @ [0] @ map of_char (u64_to_string (er_node_instance r)) @ [0]
     @ map of_char (u64_to_string (er_execution r))"

lemma public_execution_token:
  assumes "\<And>bytes. length (cd_sha256 cd bytes) = 32 \<and> (\<forall>b \<in> set (cd_sha256 cd bytes). b < 256)"
  shows "public_execution cd r = Inr (''nv2-'' @ concat (map hex_byte (cd_sha256 cd (selector_bytes r))))"
    and "length (concat (map hex_byte (cd_sha256 cd (selector_bytes r)))) = 64"
proof -
  have len: "length (concat (map hex_byte xs)) = 2 * length xs" for xs
    by (induction xs) (auto simp: hex_byte_def)
  then show "length (concat (map hex_byte (cd_sha256 cd (selector_bytes r)))) = 64" using assms by simp
  have "\<not> list_ex (\<lambda>c. is_control (of_char c)) (''nv2-'' @ concat (map hex_byte xs))" for xs
    using hex_bytes_visible by (auto simp: list_ex_iff is_control_def)
  then show "public_execution cd r = Inr (''nv2-'' @ concat (map hex_byte (cd_sha256 cd (selector_bytes r))))"
    using assms len[of "cd_sha256 cd (selector_bytes r)"]
    by (simp add: public_execution_def PublicExecutionRef_new_def selector_bytes_def Let_def
        MAX_EXECUTION_REF_BYTES_def)
qed

text \<open>Public execution selectors always exist and hide nothing but collisions of the digest: for a
  digest of 32 bytes, \<open>public_execution\<close> succeeds for every reference, and two references have the same
  selector exactly when their digests agree.\<close>

theorem public_execution_total:
  assumes "\<And>bytes. length (cd_sha256 cd bytes) = 32 \<and> (\<forall>b \<in> set (cd_sha256 cd bytes). b < 256)"
  shows "\<exists>token. public_execution cd r = Inr token \<and> length token = 68
    \<and> (\<forall>r'. public_execution cd r' = Inr token \<longleftrightarrow>
         cd_sha256 cd (selector_bytes r') = cd_sha256 cd (selector_bytes r))"
proof -
  let ?tok = "\<lambda>r. ''nv2-'' @ concat (map hex_byte (cd_sha256 cd (selector_bytes r)))"
  note tok = public_execution_token[OF assms]
  have "?tok r' = ?tok r \<longleftrightarrow> cd_sha256 cd (selector_bytes r') = cd_sha256 cd (selector_bytes r)" for r'
    using hex_bytes_inj[of "cd_sha256 cd (selector_bytes r')" "cd_sha256 cd (selector_bytes r)"] assms by auto
  then show ?thesis using tok(2) by (intro exI[of _ "?tok r"]) (simp add: tok(1))
qed

theorem public_execution_total_witness:
  "\<exists>token. public_execution demo_codec
      \<lparr>er_run_id = ''r'', er_node = ''n'', er_node_instance = 1, er_execution = 1\<rparr> = Inr token \<and> length token = 68"
proof -
  have "length (cd_sha256 demo_codec bytes) = 32 \<and> (\<forall>b \<in> set (cd_sha256 demo_codec bytes). b < 256)" for bytes
    by (simp add: demo_codec_def)
  from public_execution_total[of demo_codec, OF this] show ?thesis by blast
qed

end
