(* ===== verification/Supervisor.thy ===== *)
theory Supervisor
  imports Ledger Reducer
begin

text \<open>
  The pure parts of the native-v2 supervisor: the bridge from a ledger snapshot to the input of the
  reducer and back to ledger events (\<^verbatim>\<open>zeroshot/src/native_v2_supervisor/runtime.rs\<close>), the settlement
  of a finished dispatch (\<^verbatim>\<open>native_v2_supervisor/failure.rs\<close>) and the public failure logs that share
  the settlement transaction (\<^verbatim>\<open>native_v2_supervisor/logging.rs\<close>).

  A duration counts nanoseconds. The record \<open>clock\<close> holds what the host contributes to a log line:
  the timestamp of the batch and the text \<^verbatim>\<open>{:.1}\<close> gives to a duration in seconds.
\<close>

section \<open>Errors of the supervisor and of a node runner\<close>

datatype supervisor_error =
    SupRunNotFound
  | SupInvalidState
  | SupCleanupUnconfirmed
  | SupTask
  | SupTaskPanicked
  | SupRuntimeCleanup
  | SupCheckpoint
  | SupLedger run_ledger_error
  | SupReducer reducer_error

datatype node_runner_error =
    InvalidRole
  | SessionOpen
  | SessionLost
  | Driver
  | DriverDetail utext
  | ConnectionLost
  | CleanupUnconfirmed
  | Cancelled
  | UnsafeOutput
  | DurableOutputClosed
  | CompletionClosed
  | RunClosed
  | ExecutionAlreadyActive

definition runner_error_text :: "node_runner_error \<Rightarrow> utext" where
  "runner_error_text error =
     (case error of
        InvalidRole \<Rightarrow> text_of_string ''node role does not match its admitted runtime binding''
      | SessionOpen \<Rightarrow> text_of_string ''node session could not be opened''
      | SessionLost \<Rightarrow> text_of_string ''a reusable node session was lost and cannot be replaced''
      | Driver \<Rightarrow> text_of_string ''node execution failed''
      | DriverDetail detail \<Rightarrow> text_of_string ''node execution failed: '' @ detail
      | ConnectionLost \<Rightarrow> text_of_string ''the remote node runtime connection was lost''
      | CleanupUnconfirmed \<Rightarrow> text_of_string ''provider process cleanup could not be confirmed''
      | Cancelled \<Rightarrow> text_of_string ''node execution was cancelled''
      | UnsafeOutput \<Rightarrow> text_of_string ''live output was not safe to publish''
      | DurableOutputClosed \<Rightarrow> text_of_string ''durable output bridge closed before node completion''
      | CompletionClosed \<Rightarrow> text_of_string ''node completion channel closed''
      | RunClosed \<Rightarrow> text_of_string ''run is already closed''
      | ExecutionAlreadyActive \<Rightarrow> text_of_string ''node execution is already active'')"

definition map_err :: "('e \<Rightarrow> 'f) \<Rightarrow> 'e + 'a \<Rightarrow> 'f + 'a" where
  "map_err f r = (case r of Inl e \<Rightarrow> Inl (f e) | Inr a \<Rightarrow> Inr a)"

section \<open>From a ledger snapshot to the reducer\<close>

definition history_position_of :: "cursor \<Rightarrow> supervisor_error + history_position" where
  "history_position_of cursor =
     bind_res (map_err SupLedger (cursor_sequence cursor)) (\<lambda>sequence.
     map_err (\<lambda>_. SupInvalidState) (HistoryPosition_new sequence))"

definition durable_node_state :: "node_state \<Rightarrow> supervisor_error + durable_execution_state" where
  "durable_node_state state =
     (case state of
        NodeActive \<Rightarrow> Inr ExecActive
      | NodeSettled at outcome \<Rightarrow>
          bind_res (history_position_of at) (\<lambda>position. Inr (ExecSettled position outcome))
      | NodeVoided at reason \<Rightarrow>
          bind_res (history_position_of at) (\<lambda>position. Inr (ExecVoided position reason)))"

definition node_durable_execution :: "node_snapshot \<Rightarrow> supervisor_error + durable_execution" where
  "node_durable_execution node =
     bind_res (durable_node_state (nd_state node)) (\<lambda>state.
     bind_res (history_position_of (nd_started_at node)) (\<lambda>position.
     Inr \<lparr>de_dispatch_position = position,
          de_node_instance = er_node_instance (nd_reference node),
          de_execution = er_execution (nd_reference node),
          de_occurrence = nd_occurrence node,
          de_attempt = nd_attempt node,
          de_input = nd_input node,
          de_state = state\<rparr>))"

definition offset_position :: "history_position \<Rightarrow> u64 \<Rightarrow> supervisor_error + history_position" where
  "offset_position position offset =
     ok_or SupInvalidState
       (case checked_add position offset of
          None \<Rightarrow> None
        | Some value \<Rightarrow> (case HistoryPosition_new value of Inl _ \<Rightarrow> None | Inr p \<Rightarrow> Some p))"

definition offset_state :: "durable_execution_state \<Rightarrow> u64 \<Rightarrow> supervisor_error + durable_execution_state" where
  "offset_state state offset =
     (case state of
        ExecSettled position outcome \<Rightarrow>
          bind_res (offset_position position offset) (\<lambda>p. Inr (ExecSettled p outcome))
      | ExecVoided position reason \<Rightarrow>
          bind_res (offset_position position offset) (\<lambda>p. Inr (ExecVoided p reason))
      | ExecActive \<Rightarrow> Inr ExecActive)"

definition offset_execution :: "u64 \<Rightarrow> node_snapshot \<Rightarrow> supervisor_error + durable_execution" where
  "offset_execution offset node =
     bind_res (node_durable_execution node) (\<lambda>execution.
     bind_res (offset_position (de_dispatch_position execution) offset) (\<lambda>dispatch_position.
     bind_res (offset_state (de_state execution) offset) (\<lambda>state.
     Inr (execution\<lparr>de_dispatch_position := dispatch_position, de_state := state\<rparr>))))"

definition execution_end :: "durable_execution \<Rightarrow> history_position" where
  "execution_end execution =
     (case de_state execution of
        ExecSettled position _ \<Rightarrow> position
      | ExecVoided position _ \<Rightarrow> position
      | ExecActive \<Rightarrow> de_dispatch_position execution)"

definition seed_offset :: "durable_execution list \<Rightarrow> u64" where
  "seed_offset seed =
     foldl (\<lambda>maximum execution. max (max maximum (execution_end execution))
              (de_dispatch_position execution)) 0 seed"

definition durable_history :: "run_snapshot \<Rightarrow> supervisor_error + durable_execution list" where
  "durable_history snapshot =
     (let offset = seed_offset (sn_execution_seed snapshot)
      in bind_res (try_map (offset_execution offset) (map snd (sn_executions snapshot))) (\<lambda>executions.
         Inr (sort_key (\<lambda>execution. (de_dispatch_position execution, de_execution execution))
                (executions @ sn_execution_seed snapshot))))"

definition FIRST_IDENTITY :: u64 where "FIRST_IDENTITY = 1"

definition iter_max :: "u64 list \<Rightarrow> u64 option" where
  "iter_max xs = (case xs of [] \<Rightarrow> None | x # rest \<Rightarrow> Some (fold max rest x))"

definition next_identity :: "u64 list \<Rightarrow> supervisor_error + u64" where
  "next_identity identities =
     ok_or SupInvalidState
       (checked_add (case iter_max identities of None \<Rightarrow> FIRST_IDENTITY - 1 | Some m \<Rightarrow> m) 1)"

definition next_node_instance :: "durable_execution list \<Rightarrow> supervisor_error + u64" where
  "next_node_instance executions = next_identity (map de_node_instance executions)"

definition next_execution :: "durable_execution list \<Rightarrow> supervisor_error + u64" where
  "next_execution executions = next_identity (map de_execution executions)"

definition reduce_run ::
    "(json \<Rightarrow> nat) \<Rightarrow> admitted_run \<Rightarrow> run_snapshot \<Rightarrow> supervisor_error + reduction" where
  "reduce_run json_len admitted snapshot =
     bind_res (durable_history snapshot) (\<lambda>executions.
     bind_res (next_node_instance executions) (\<lambda>node_instance.
     bind_res (next_execution executions) (\<lambda>execution.
     map_err SupReducer
       (reduce json_len (cg_root (ad_graph admitted)) NativeV2
          \<lparr>ri_initial_input = ad_initial_input admitted, ri_executions = executions,
           ri_next_node_instance = node_instance, ri_next_execution = execution\<rparr>))))"

section \<open>From decisions to ledger events\<close>

record dispatch =
  di_reference :: execution_ref
  di_occurrence :: structural_occurrence
  di_attempt :: positive_integer
  di_iteration :: u64
  di_worker :: worker_ref
  di_input :: json

definition void_decisions :: "decision list \<Rightarrow> (execution_id \<times> execution_void_reason) list" where
  "void_decisions decisions =
     List.map_filter (\<lambda>decision.
         case decision of VoidLoser execution reason \<Rightarrow> Some (execution, reason) | _ \<Rightarrow> None) decisions"

definition dispatch_of :: "run_id \<Rightarrow> decision \<Rightarrow> dispatch option" where
  "dispatch_of run_id decision =
     (case decision of
        Dispatch node_instance execution occurrence attempt iteration worker input \<Rightarrow>
          Some \<lparr>di_reference = \<lparr>er_run_id = run_id, er_node = so_node occurrence,
                                er_node_instance = node_instance, er_execution = execution\<rparr>,
                di_occurrence = occurrence, di_attempt = attempt, di_iteration = iteration,
                di_worker = worker, di_input = input\<rparr>
      | _ \<Rightarrow> None)"

definition dispatch_decisions :: "run_id \<Rightarrow> decision list \<Rightarrow> dispatch list" where
  "dispatch_decisions run_id decisions = List.map_filter (dispatch_of run_id) decisions"

definition dispatch_event :: "dispatch \<Rightarrow> run_event" where
  "dispatch_event d = NodeStarted (di_reference d) (di_occurrence d) (di_attempt d) (di_input d)"

section \<open>Execution metadata of the graph\<close>

type_synonym duration = nat

definition duration_from_millis :: "u64 \<Rightarrow> duration" where
  "duration_from_millis ms = ms * 1000000"

record execution_catalog =
  xc_timeouts :: "(node_name, duration option) btree_map"
  xc_instructions :: "(node_name, string option) btree_map"

definition record_execution_metadata ::
    "node_name \<Rightarrow> u64 option \<Rightarrow> string option \<Rightarrow> execution_catalog \<Rightarrow> execution_catalog" where
  "record_execution_metadata name timeout_ms instructions catalog =
     catalog\<lparr>xc_timeouts := bm_insert name (map_option duration_from_millis timeout_ms) (xc_timeouts catalog),
             xc_instructions := bm_insert name instructions (xc_instructions catalog)\<rparr>"

function collect_execution_metadata :: "graph_node \<Rightarrow> execution_catalog \<Rightarrow> execution_catalog" where
  "collect_execution_metadata node catalog =
     (case node of
        StepNode step \<Rightarrow>
          record_execution_metadata (st_name step) (st_timeout_ms step) (st_instructions step) catalog
      | VerifierNode verifier \<Rightarrow>
          record_execution_metadata (vn_name verifier) (vn_timeout_ms verifier)
            (vn_instructions verifier) catalog
      | _ \<Rightarrow> fold collect_execution_metadata (child_nodes node) catalog)"
  by pat_completeness auto
termination
  by (relation "measure (\<lambda>(n, _). size n)")
    (auto dest!: size_member_list size_member_branches simp: less_Suc_eq_le trans_le_add1)

declare collect_execution_metadata.simps [simp del]

definition execution_catalog_of :: "graph_node \<Rightarrow> execution_catalog" where
  "execution_catalog_of root =
     collect_execution_metadata root \<lparr>xc_timeouts = [], xc_instructions = []\<rparr>"

section \<open>Public failure logs\<close>

record clock =
  ck_now :: unix_timestamp_millis
  ck_seconds :: "duration \<Rightarrow> string"

definition error_log ::
    "clock \<Rightarrow> execution_id option \<Rightarrow> utext \<Rightarrow> failure_diagnostic_kind option
       \<Rightarrow> run_ledger_error + run_event" where
  "error_log ck execution message diagnostic =
     bind_res (SafeLogLine_new (bounded_log_text message (MAX_SAFE_LOG_BYTES div 2))) (\<lambda>line.
     Inr (SafeLog execution (ck_now ck) LogError line diagnostic))"

definition failure_reason_text :: "worker_failure_reason \<Rightarrow> string" where
  "failure_reason_text reason =
     (case reason of
        DeclaredFailure \<Rightarrow> []
      | PolicyDenied \<Rightarrow> '': policy denied''
      | InteractiveInputRequired \<Rightarrow> '': interactive input required''
      | AuthenticationRequired \<Rightarrow> '': authentication required''
      | MalformedResult \<Rightarrow> '': result did not match the node contract'')"

definition node_failure_log ::
    "clock \<Rightarrow> execution_ref \<Rightarrow> worker_outcome \<Rightarrow> duration option \<Rightarrow> utext option
       \<Rightarrow> run_ledger_error + run_event option" where
  "node_failure_log ck reference outcome elapsed cause =
     (case outcome of
        OutcomeError code reason \<Rightarrow>
          (let timing = (case elapsed of None \<Rightarrow> [] | Some d \<Rightarrow> '' after '' @ ck_seconds ck d @ ''s'');
               cause_text = (case cause of None \<Rightarrow> [] | Some c \<Rightarrow> text_of_string '': '' @ c)
           in bind_res (error_log ck (Some (er_execution reference))
                (text_of_string (''Node '' @ er_node reference @ '' failed: ''
                   @ worker_error_code_str code @ timing @ failure_reason_text reason) @ cause_text)
                (Some Failure)) (\<lambda>event.
              Inr (Some event)))
      | _ \<Rightarrow> Inr None)"

definition log_completion_events ::
    "clock \<Rightarrow> node_completion \<Rightarrow> duration option \<Rightarrow> utext option \<Rightarrow> run_ledger_error + run_event list" where
  "log_completion_events ck completion elapsed cause =
     bind_res (node_failure_log ck (nc_reference completion) (nc_outcome completion) elapsed cause) (\<lambda>log.
     Inr ((case log of None \<Rightarrow> [] | Some event \<Rightarrow> [event]) @ [NodeCompleted completion]))"

definition runtime_failure_log :: "clock \<Rightarrow> utext \<Rightarrow> run_ledger_error + run_event" where
  "runtime_failure_log ck cause =
     error_log ck None (text_of_string ''Runtime failed: '' @ cause) (Some Failure)"

definition terminal_events :: "clock \<Rightarrow> terminal_result \<Rightarrow> run_ledger_error + run_event list" where
  "terminal_events ck result =
     bind_res (case result of
                 Failed reason _ \<Rightarrow>
                   bind_res (error_log ck None (text_of_string (''Run failed: '' @ reason)) None)
                     (\<lambda>event. Inr [event])
               | Succeeded _ \<Rightarrow> Inr []) (\<lambda>events.
     Inr (events @ [TerminalEvent result]))"

definition clear_diagnostic :: "run_event \<Rightarrow> run_event" where
  "clear_diagnostic event =
     (case event of
        SafeLog execution timestamp stream line _ \<Rightarrow> SafeLog execution timestamp stream line None
      | _ \<Rightarrow> event)"

definition clear_diagnostics :: "run_event list \<Rightarrow> run_event list" where
  "clear_diagnostics events = map clear_diagnostic events"

definition terminal_failure_events ::
    "clock \<Rightarrow> run_snapshot \<Rightarrow> string \<Rightarrow> worker_error_code \<Rightarrow> run_ledger_error + run_event list" where
  "terminal_failure_events ck snapshot reason code =
     bind_res (case EnumLabel_new reason of
                 Inl _ \<Rightarrow> Inl Corrupt | Inr label \<Rightarrow> Inr (Failed label None)) (\<lambda>terminal.
     bind_res (try_map (\<lambda>node. log_completion_events ck
                   \<lparr>nc_reference = nd_reference node, nc_outcome = declared_failure code\<rparr> None
                   (Some (text_of_string (''run '' @ reason)))) (active_executions snapshot)) (\<lambda>settlements.
     bind_res (terminal_events ck terminal) (\<lambda>last_events.
     Inr (clear_diagnostics (concat settlements) @ last_events))))"

definition clear_recorded_diagnostics :: "run_event list \<Rightarrow> run_snapshot \<Rightarrow> bool \<Rightarrow> run_event list" where
  "clear_recorded_diagnostics events snapshot has_detail =
     (if has_detail then events
      else map (\<lambda>event.
        case event of
          SafeLog (Some i) _ _ _ _ \<Rightarrow>
            (case bm_get (sn_executions snapshot) i of
               Some node \<Rightarrow> if nd_failure_diagnostic node then clear_diagnostic event else event
             | None \<Rightarrow> event)
        | _ \<Rightarrow> event) events)"

section \<open>Settlement of a finished dispatch\<close>

datatype dispatch_result =
    DispatchCompleted "node_runner_error + node_completion"
  | DispatchTimedOut
  | DispatchInterrupted
  | DurableEventFailure run_ledger_error
  | StartFailure supervisor_error

definition cleanup_unconfirmed :: "dispatch_result \<Rightarrow> bool" where
  "cleanup_unconfirmed self \<longleftrightarrow> self = DispatchCompleted (Inl CleanupUnconfirmed)"

record finished_dispatch =
  fin_execution :: execution_id
  fin_reference :: execution_ref
  fin_result :: dispatch_result
  fin_elapsed :: duration

definition terminal_drain_result :: "dispatch_result \<Rightarrow> supervisor_error + unit" where
  "terminal_drain_result result =
     (if cleanup_unconfirmed result then Inl SupCleanupUnconfirmed
      else case result of
             DurableEventFailure error \<Rightarrow> Inl (SupLedger error)
           | StartFailure error \<Rightarrow> Inl error
           | _ \<Rightarrow> Inr ())"

definition is_interruption :: "node_runner_error \<Rightarrow> bool" where
  "is_interruption error \<longleftrightarrow> error = Cancelled \<or> error = RunClosed"

definition runner_failure :: "node_runner_error \<Rightarrow> worker_outcome" where
  "runner_failure error =
     declared_failure (case error of Cancelled \<Rightarrow> Refusal | RunClosed \<Rightarrow> Refusal | _ \<Rightarrow> Crash)"

definition settled_outcome ::
    "execution_ref \<Rightarrow> dispatch_result \<Rightarrow> bool \<Rightarrow> supervisor_error + worker_outcome" where
  "settled_outcome reference result force =
     (if force then Inr (declared_failure Refusal)
      else case result of
             DispatchCompleted (Inr completion) \<Rightarrow>
               if nc_reference completion = reference then Inr (nc_outcome completion)
               else Inl SupInvalidState
           | DispatchCompleted (Inl error) \<Rightarrow> Inr (runner_failure error)
           | DispatchTimedOut \<Rightarrow> Inr (declared_failure Timeout)
           | DispatchInterrupted \<Rightarrow> Inr (declared_failure Crash)
           | DurableEventFailure error \<Rightarrow> Inl (SupLedger error)
           | StartFailure error \<Rightarrow> Inl error)"

definition settled_failure_cause :: "dispatch_result \<Rightarrow> bool \<Rightarrow> utext option" where
  "settled_failure_cause result force =
     (if force then None
      else case result of DispatchCompleted (Inl error) \<Rightarrow> Some (runner_error_text error) | _ \<Rightarrow> None)"

definition failure_log :: "clock \<Rightarrow> finished_dispatch \<Rightarrow> run_ledger_error + run_event option" where
  "failure_log ck self =
     (let log = (\<lambda>outcome. node_failure_log ck (fin_reference self) outcome (Some (fin_elapsed self))
                   (settled_failure_cause (fin_result self) False))
      in case fin_result self of
           DispatchCompleted (Inr completion) \<Rightarrow>
             if nc_reference completion = fin_reference self \<and> error_code (nc_outcome completion) \<noteq> None
             then log (nc_outcome completion) else Inr None
         | DispatchCompleted (Inl error) \<Rightarrow>
             if is_interruption error then Inr None else log (runner_failure error)
         | DispatchInterrupted \<Rightarrow> Inr None
         | DispatchTimedOut \<Rightarrow> log (declared_failure Timeout)
         | DurableEventFailure _ \<Rightarrow> Inr None
         | StartFailure _ \<Rightarrow> Inr None)"

definition option_list :: "'a option \<Rightarrow> 'a list" where
  "option_list x = (case x of None \<Rightarrow> [] | Some y \<Rightarrow> [y])"

definition synthetic_result :: "dispatch_result \<Rightarrow> bool" where
  "synthetic_result result \<longleftrightarrow>
     result = DispatchInterrupted
     \<or> (case result of DispatchCompleted (Inl error) \<Rightarrow> is_interruption error | _ \<Rightarrow> False)"

definition finished_completion_events ::
    "clock \<Rightarrow> finished_dispatch \<Rightarrow> bool \<Rightarrow> supervisor_error + run_event list" where
  "finished_completion_events ck self force =
     bind_res (if force then map_err SupLedger (failure_log ck self) else Inr None) (\<lambda>log.
     bind_res (settled_outcome (fin_reference self) (fin_result self) force) (\<lambda>outcome.
     bind_res (map_err SupLedger (log_completion_events ck
                 \<lparr>nc_reference = fin_reference self, nc_outcome = outcome\<rparr> (Some (fin_elapsed self))
                 (settled_failure_cause (fin_result self) force))) (\<lambda>completion.
     Inr (option_list log @
       (if force \<or> synthetic_result (fin_result self) then clear_diagnostics completion
        else completion)))))"

definition completed_failure :: "dispatch_result \<Rightarrow> bool" where
  "completed_failure result =
     (case result of
        DispatchCompleted (Inr completion) \<Rightarrow> error_code (nc_outcome completion) \<noteq> None
      | DispatchCompleted (Inl error) \<Rightarrow> \<not> is_interruption error
      | _ \<Rightarrow> False)"

definition preserve_interrupted_failure ::
    "dispatch_result option \<Rightarrow> dispatch_result \<Rightarrow> dispatch_result" where
  "preserve_interrupted_failure interrupted result =
     (if interrupted = Some DispatchInterrupted \<and> completed_failure result then result
      else case interrupted of Some i \<Rightarrow> i | None \<Rightarrow> result)"

definition observed_result ::
    "dispatch_result option \<Rightarrow> node_runner_error + node_completion \<Rightarrow> run_ledger_error + unit
       \<Rightarrow> dispatch_result" where
  "observed_result interrupted completion output_result =
     (let result = DispatchCompleted completion
      in if cleanup_unconfirmed result then result
         else case output_result of
                Inr _ \<Rightarrow> preserve_interrupted_failure interrupted result
              | Inl error \<Rightarrow> DurableEventFailure error)"

definition drained_result :: "dispatch_result \<Rightarrow> dispatch_result \<Rightarrow> dispatch_result" where
  "drained_result stopped finished =
     (if cleanup_unconfirmed finished then finished
      else case finished of
             DurableEventFailure error \<Rightarrow> DurableEventFailure error
           | result \<Rightarrow> preserve_interrupted_failure (Some stopped) result)"

text \<open>Live output of a running node becomes log and usage events of its execution.\<close>

datatype live_output_stream = LiveOutputStream | LiveErrorStream | LiveSystemStream

definition safe_log_stream_of :: "live_output_stream \<Rightarrow> safe_log_stream" where
  "safe_log_stream_of stream =
     (case stream of LiveOutputStream \<Rightarrow> LogOutput | LiveErrorStream \<Rightarrow> LogError | LiveSystemStream \<Rightarrow> LogSystem)"

record live_output =
  lo_stream :: live_output_stream
  lo_text :: utext
  lo_diagnostic :: "failure_diagnostic_kind option"

datatype durable_node_event =
    OutputEvent live_output unix_timestamp_millis
  | TokenUsageEvent "token_usage_delta option"

definition bridge_event :: "execution_id \<Rightarrow> durable_node_event \<Rightarrow> run_ledger_error + run_event" where
  "bridge_event execution event =
     (case event of
        OutputEvent output timestamp \<Rightarrow>
          bind_res (SafeLogLine_new (lo_text output)) (\<lambda>line.
          Inr (SafeLog (Some execution) timestamp (safe_log_stream_of (lo_stream output)) line
                 (lo_diagnostic output)))
      | TokenUsageEvent usage \<Rightarrow> Inr (TokenUsageObserved execution usage))"

definition bridge_events ::
    "execution_id \<Rightarrow> durable_node_event list \<Rightarrow> run_ledger_error + run_event list" where
  "bridge_events execution queued = try_map (bridge_event execution) queued"

end
