(* ===== verification/Supervisor_Drive.thy ===== *)
theory Supervisor_Drive
  imports Supervisor
begin

text \<open>
  The driving turn of one run (\<^verbatim>\<open>zeroshot/src/native_v2_supervisor.rs\<close> and
  \<^verbatim>\<open>native_v2_supervisor/controller.rs\<close>). A method of the supervisor is a state transformer with
  a result; the ledger behind the port is the in-memory one. \<open>drive_step\<close> interleaves the turn with
  what happens between its await points: tasks finish, running nodes publish output, a client asks
  for a force-stop and the runtime may be lost. A snapshot read before an await point is an argument
  of what follows, so a decision may rest on a stale snapshot.

  The optional ports (checkpoints, live output, postmortem, runtime cleanup) are absent, as in
  \<^verbatim>\<open>NativeV2Supervisor::new\<close>. The turn is followed up to a terminal reduction; the delivery evidence
  that finalisation checks belongs to admission.
\<close>

section \<open>State\<close>

record pending_node =
  pn_reference :: execution_ref
  pn_worker :: worker_ref
  pn_instructions :: "string option"
  pn_input :: json
  pn_binding :: node_runtime_binding
  pn_attempt :: u64
  pn_iteration :: u64
  pn_timeout :: "duration option"

record run_program =
  pm_admitted :: admitted_run
  pm_timeouts :: "(node_name, duration option) btree_map"
  pm_instructions :: "(node_name, string option) btree_map"

record supervisor =
  sp_run_id :: run_id
  sp_ledger :: fake_state
  sp_force_requested :: bool
  sp_runtime_lost :: bool
  sp_tasks :: "pending_node list"
  sp_cancellations :: "execution_id btree_set"
  sp_pending_voids :: "(execution_id, execution_void_reason) btree_map"

record host =
  ho_codec :: codec
  ho_clock :: clock
  ho_json_len :: "json \<Rightarrow> nat"

type_synonym 'a supervised = "supervisor \<Rightarrow> supervisor \<times> (supervisor_error + 'a)"

definition bind_sup :: "'a supervised \<Rightarrow> ('a \<Rightarrow> 'b supervised) \<Rightarrow> 'b supervised" where
  "bind_sup m f s = (case m s of (s, Inl e) \<Rightarrow> (s, Inl e) | (s, Inr a) \<Rightarrow> f a s)"

definition lift_res :: "supervisor_error + 'a \<Rightarrow> 'a supervised" where
  "lift_res r s = (s, r)"

section \<open>The ledger port\<close>

definition load :: "stored_run supervised" where
  "load s = (s, ok_or SupRunNotFound (ledger_get (sp_ledger s) (sp_run_id s)))"

definition sup_snapshot :: "run_snapshot supervised" where
  "sup_snapshot = bind_sup load (\<lambda>stored. lift_res (Inr (sr_snapshot stored)))"

definition append_events :: "host \<Rightarrow> run_event list \<Rightarrow> run_snapshot supervised" where
  "append_events ho events s =
     (case ledger_append (ho_codec ho) (sp_ledger s) (sp_run_id s) events of
        Inl e \<Rightarrow> (s, Inl (SupLedger e))
      | Inr (result, ledger) \<Rightarrow> (s\<lparr>sp_ledger := ledger\<rparr>, Inr (ap_snapshot result)))"

definition record_failure_logs :: "host \<Rightarrow> run_event list \<Rightarrow> supervisor \<Rightarrow> supervisor" where
  "record_failure_logs ho logs s = (if logs = [] then s else fst (append_events ho logs s))"

section \<open>Dispatch\<close>

definition is_quiescent :: "supervisor \<Rightarrow> run_snapshot \<Rightarrow> bool" where
  "is_quiescent s snapshot \<longleftrightarrow> sp_tasks s = [] \<and> active_executions snapshot = []"

definition record_dispatches :: "host \<Rightarrow> dispatch list \<Rightarrow> bool supervised" where
  "record_dispatches ho dispatches s =
     (case append_events ho (map dispatch_event dispatches) s of
        (s, Inr _) \<Rightarrow> (s, Inr True)
      | (s, Inl error) \<Rightarrow>
          (case sup_snapshot s of
             (s, Inr snapshot) \<Rightarrow>
               if sn_force_stop_requested snapshot \<or> sn_terminal snapshot \<noteq> None
               then (s, Inr False) else (s, Inl error)
           | (s, Inl _) \<Rightarrow> (s, Inl error)))"

definition start_dispatch :: "run_program \<Rightarrow> dispatch \<Rightarrow> unit supervised" where
  "start_dispatch program d s =
     (let node = er_node (di_reference d)
      in case (bm_get (rp_nodes (ad_runtime (pm_admitted program))) node, bm_get (pm_instructions program) node,
               bm_get (pm_timeouts program) node) of
           (Some binding, Some instructions, Some timeout) \<Rightarrow>
             (s\<lparr>sp_cancellations := bs_insert (er_execution (di_reference d)) (sp_cancellations s),
                sp_tasks := sp_tasks s @
                  [\<lparr>pn_reference = di_reference d, pn_worker = di_worker d,
                    pn_instructions = instructions, pn_input = di_input d, pn_binding = binding,
                    pn_attempt = di_attempt d, pn_iteration = di_iteration d, pn_timeout = timeout\<rparr>]\<rparr>,
              Inr ())
         | _ \<Rightarrow> (s, Inl SupInvalidState))"

fun start_dispatches :: "run_program \<Rightarrow> dispatch list \<Rightarrow> unit supervised" where
  "start_dispatches program [] = lift_res (Inr ())"
| "start_dispatches program (d # ds) =
     bind_sup (start_dispatch program d) (\<lambda>_. start_dispatches program ds)"

definition dispatch_all :: "host \<Rightarrow> run_program \<Rightarrow> dispatch list \<Rightarrow> bool supervised" where
  "dispatch_all ho program dispatches s =
     (if sp_force_requested s then (s, Inr False)
      else bind_sup (record_dispatches ho dispatches) (\<lambda>recorded.
             if \<not> recorded then lift_res (Inr False)
             else bind_sup (start_dispatches program dispatches) (\<lambda>_. lift_res (Inr True))) s)"

section \<open>Cancellation and settlement\<close>

fun begin_voids ::
    "(execution_id \<times> execution_void_reason) list \<Rightarrow> execution_id btree_set supervised" where
  "begin_voids [] = lift_res (Inr [])"
| "begin_voids ((execution, reason) # voids) =
     (\<lambda>s. let s = s\<lparr>sp_pending_voids := bm_insert execution reason (sp_pending_voids s)\<rparr>
      in if execution \<notin> set (sp_cancellations s) then (s, Inl SupInvalidState)
         else bind_sup (begin_voids voids) (\<lambda>targets. lift_res (Inr (bs_insert execution targets)))
                (s\<lparr>sp_cancellations := remove1 execution (sp_cancellations s)\<rparr>))"

definition has_pending_target :: "execution_id btree_set \<Rightarrow> supervisor \<Rightarrow> bool" where
  "has_pending_target targets s \<longleftrightarrow>
     list_ex (\<lambda>execution. bm_get (sp_pending_voids s) execution \<noteq> None) targets"

definition require_finished_cleanup :: "host \<Rightarrow> finished_dispatch \<Rightarrow> unit supervised" where
  "require_finished_cleanup ho finished s =
     (if \<not> cleanup_unconfirmed (fin_result finished) then (s, Inr ())
      else (case failure_log (ho_clock ho) finished of
              Inr (Some log) \<Rightarrow> record_failure_logs ho [log] s
            | _ \<Rightarrow> s, Inl SupCleanupUnconfirmed))"

definition has_failure_detail :: "dispatch_result \<Rightarrow> bool" where
  "has_failure_detail result =
     (case result of DispatchCompleted (Inl error) \<Rightarrow> error \<noteq> Driver | _ \<Rightarrow> False)"

definition settle_events ::
    "host \<Rightarrow> run_snapshot \<Rightarrow> bool \<Rightarrow> finished_dispatch \<Rightarrow> execution_void_reason option
       \<Rightarrow> supervisor_error + run_event list" where
  "settle_events ho snapshot force_requested finished pending_void =
     bind_res (case pending_void of
         Some reason \<Rightarrow>
           bind_res (map_err SupLedger (failure_log (ho_clock ho) finished)) (\<lambda>log.
           Inr (option_list log @ [ExecutionVoided (fin_reference finished) reason]))
       | None \<Rightarrow>
           finished_completion_events (ho_clock ho) finished
             (force_requested \<or> sn_force_stop_requested snapshot)) (\<lambda>events.
     Inr (clear_recorded_diagnostics events snapshot (has_failure_detail (fin_result finished))))"

definition settle :: "host \<Rightarrow> run_snapshot \<Rightarrow> finished_dispatch \<Rightarrow> unit supervised" where
  "settle ho snapshot finished s =
     (let pending_void = bm_get (sp_pending_voids s) (fin_execution finished);
          s = s\<lparr>sp_pending_voids := bm_retain (\<lambda>x _. x \<noteq> fin_execution finished) (sp_pending_voids s)\<rparr>
      in bind_sup (lift_res (settle_events ho snapshot (sp_force_requested s) finished pending_void))
           (\<lambda>events. bind_sup (append_events ho events) (\<lambda>_. lift_res (Inr ()))) s)"

section \<open>Stopping\<close>

fun drain_terminalizing_tasks :: "host \<Rightarrow> run_event list \<Rightarrow> finished_dispatch list \<Rightarrow> run_event list supervised" where
  "drain_terminalizing_tasks ho logs [] = lift_res (Inr logs)"
| "drain_terminalizing_tasks ho logs (finished # rest) =
     bind_sup (lift_res (map_err SupLedger (failure_log (ho_clock ho) finished))) (\<lambda>log s.
       let logs = logs @ option_list log
       in case terminal_drain_result (fin_result finished) of
            Inl error \<Rightarrow> (record_failure_logs ho logs s, Inl error)
          | Inr _ \<Rightarrow> drain_terminalizing_tasks ho logs rest s)"

definition append_terminal_failure ::
    "host \<Rightarrow> run_event list \<Rightarrow> run_snapshot \<Rightarrow> string \<Rightarrow> worker_error_code \<Rightarrow> terminal_result supervised" where
  "append_terminal_failure ho logs snapshot reason code =
     bind_sup (lift_res (map_err SupLedger
         (terminal_failure_events (ho_clock ho) snapshot reason code))) (\<lambda>events.
     bind_sup (append_events ho (logs @ events)) (\<lambda>appended.
     lift_res (ok_or SupInvalidState (sn_terminal appended))))"

definition stop_run ::
    "host \<Rightarrow> string \<Rightarrow> worker_error_code \<Rightarrow> run_event list \<Rightarrow> terminal_result supervised" where
  "stop_run ho reason code logs s =
     (case bind_sup sup_snapshot (\<lambda>snapshot.
             case sn_terminal snapshot of
               Some terminal \<Rightarrow> lift_res (Inr terminal)
             | None \<Rightarrow> append_terminal_failure ho logs snapshot reason code) s of
        (s, Inr terminal) \<Rightarrow> (s, Inr terminal)
      | (s, Inl error) \<Rightarrow> (record_failure_logs ho logs s, Inl error))"

definition terminalize_force :: "host \<Rightarrow> finished_dispatch list \<Rightarrow> terminal_result supervised" where
  "terminalize_force ho drained =
     bind_sup (drain_terminalizing_tasks ho [] drained) (stop_run ho ''force_stopped'' Refusal)"

definition terminalize_lost :: "host \<Rightarrow> finished_dispatch list \<Rightarrow> terminal_result supervised" where
  "terminalize_lost ho drained =
     bind_sup (drain_terminalizing_tasks ho [] drained) (stop_run ho ''runtime_lost'' Crash)"

section \<open>The driving turn\<close>

datatype drive_phase =
    Turn
  | Deciding run_snapshot
  | Waiting
  | Voiding "execution_id btree_set"
  | Settling finished_dispatch run_snapshot drive_phase
  | Forcing
  | Losing
  | Finishing terminal_result
  | Ended terminal_result
  | Broken supervisor_error

definition initialized_phase :: "supervisor \<Rightarrow> run_snapshot \<Rightarrow> drive_phase option" where
  "initialized_phase s snapshot =
     (case sn_terminal snapshot of
        Some terminal \<Rightarrow> Some (Ended terminal)
      | None \<Rightarrow>
          (case sn_primary_graph snapshot of
             Some primary \<Rightarrow> Some (Finishing (pg_result primary))
           | None \<Rightarrow>
               if sp_force_requested s \<or> sn_force_stop_requested snapshot \<or> sn_phase snapshot = Stopping
               then Some Forcing
               else if active_executions snapshot \<noteq> [] then Some Losing else None))"

definition run_program_of :: "admitted_run \<Rightarrow> run_program" where
  "run_program_of admitted =
     (let catalog = execution_catalog_of (cg_root (ad_graph admitted))
      in \<lparr>pm_admitted = admitted, pm_timeouts = xc_timeouts catalog,
          pm_instructions = xc_instructions catalog\<rparr>)"

definition initialize :: "host \<Rightarrow> (drive_phase \<times> run_program) supervised" where
  "initialize ho =
     bind_sup load (\<lambda>stored s.
       case initialized_phase s (sr_snapshot stored) of
         Some phase \<Rightarrow> (s, Inr (phase, run_program_of (sr_admitted stored)))
       | None \<Rightarrow>
           bind_sup (if sn_phase (sr_snapshot stored) = Admitted then append_events ho [RunStarted]
                     else lift_res (Inr (sr_snapshot stored))) (\<lambda>snapshot.
           if sn_phase snapshot \<noteq> Running then lift_res (Inl SupInvalidState)
           else lift_res (Inr (Turn, run_program_of (sr_admitted stored)))) s)"

definition turn :: "drive_phase supervised" where
  "turn = bind_sup sup_snapshot (\<lambda>snapshot s.
     (s, Inr (case sn_terminal snapshot of
                Some terminal \<Rightarrow> Ended terminal
              | None \<Rightarrow>
                  if sp_runtime_lost s then Losing
                  else if sp_force_requested s \<or> sn_force_stop_requested snapshot then Forcing
                  else Deciding snapshot)))"

definition advance :: "host \<Rightarrow> run_program \<Rightarrow> run_snapshot \<Rightarrow> drive_phase supervised" where
  "advance ho program snapshot =
     bind_sup (lift_res (reduce_run (ho_json_len ho) (pm_admitted program) snapshot)) (\<lambda>reduction.
     let voids = void_decisions (rd_decisions reduction)
     in if voids \<noteq> [] then bind_sup (begin_voids voids) (\<lambda>targets. lift_res (Inr (Voiding targets)))
        else
          case rd_terminal reduction of
            Some terminal \<Rightarrow> (\<lambda>s.
              if \<not> is_quiescent s snapshot then (s, Inl SupInvalidState) else (s, Inr (Finishing terminal)))
          | None \<Rightarrow> (\<lambda>s.
              let dispatches = dispatch_decisions (sp_run_id s) (rd_decisions reduction)
              in if dispatches \<noteq> []
                 then bind_sup (dispatch_all ho program dispatches) (\<lambda>_. lift_res (Inr Turn)) s
                 else (s, Inr Waiting)))"

definition begin_settle :: "host \<Rightarrow> finished_dispatch \<Rightarrow> run_snapshot supervised" where
  "begin_settle ho finished = bind_sup (require_finished_cleanup ho finished) (\<lambda>_. sup_snapshot)"

definition finish_task :: "pending_node \<Rightarrow> supervisor \<Rightarrow> supervisor" where
  "finish_task task s =
     s\<lparr>sp_tasks := remove1 task (sp_tasks s),
       sp_cancellations := filter (\<lambda>x. x \<noteq> er_execution (pn_reference task)) (sp_cancellations s)\<rparr>"

definition finishes :: "pending_node \<Rightarrow> finished_dispatch \<Rightarrow> bool" where
  "finishes task finished \<longleftrightarrow>
     fin_reference finished = pn_reference task \<and> fin_execution finished = er_execution (pn_reference task)"

definition awaits :: "supervisor \<Rightarrow> drive_phase \<Rightarrow> bool" where
  "awaits s phase =
     (case phase of Waiting \<Rightarrow> True | Voiding targets \<Rightarrow> has_pending_target targets s | _ \<Rightarrow> False)"

definition resumed :: "drive_phase \<Rightarrow> drive_phase" where
  "resumed phase = (if phase = Waiting then Turn else phase)"

definition drains :: "supervisor \<Rightarrow> finished_dispatch list \<Rightarrow> bool" where
  "drains s drained \<longleftrightarrow>
     mset (map fin_reference drained) = mset (map pn_reference (sp_tasks s))
     \<and> list_all (\<lambda>f. fin_execution f = er_execution (fin_reference f)) drained"

definition request_stop :: "host \<Rightarrow> unit supervised" where
  "request_stop ho s =
     (case request_force_stop (ho_codec ho) (sp_ledger s) (sp_run_id s) of
        Inl e \<Rightarrow> (s, Inl (SupLedger e))
      | Inr (_, ledger) \<Rightarrow> (s\<lparr>sp_ledger := ledger\<rparr>, Inr ()))"

definition BATCH_SIZE :: nat where "BATCH_SIZE = 64"

inductive drive_step ::
    "host \<Rightarrow> run_program \<Rightarrow> supervisor \<Rightarrow> drive_phase \<Rightarrow> supervisor \<Rightarrow> drive_phase \<Rightarrow> bool"
  for ho program where
  turn_ok: "turn s = (s', Inr phase) \<Longrightarrow> drive_step ho program s Turn s' phase"
| turn_err: "turn s = (s', Inl e) \<Longrightarrow> drive_step ho program s Turn s' (Broken e)"
| advance_ok: "advance ho program snapshot s = (s', Inr phase) \<Longrightarrow>
    drive_step ho program s (Deciding snapshot) s' phase"
| advance_err: "advance ho program snapshot s = (s', Inl e) \<Longrightarrow>
    drive_step ho program s (Deciding snapshot) s' (Broken e)"
| await_none: "awaits s phase \<Longrightarrow> sp_tasks s = [] \<Longrightarrow> drive_step ho program s phase s (Broken SupInvalidState)"
| await_lost: "awaits s phase \<Longrightarrow> task \<in> set (sp_tasks s) \<Longrightarrow> e = SupTask \<or> e = SupTaskPanicked \<Longrightarrow>
    drive_step ho program s phase (s\<lparr>sp_tasks := remove1 task (sp_tasks s)\<rparr>) (Broken e)"
| await_ok: "awaits s phase \<Longrightarrow> task \<in> set (sp_tasks s) \<Longrightarrow> finishes task finished \<Longrightarrow>
    begin_settle ho finished (finish_task task s) = (s', Inr snapshot) \<Longrightarrow>
    drive_step ho program s phase s' (Settling finished snapshot phase)"
| await_err: "awaits s phase \<Longrightarrow> task \<in> set (sp_tasks s) \<Longrightarrow> finishes task finished \<Longrightarrow>
    begin_settle ho finished (finish_task task s) = (s', Inl e) \<Longrightarrow>
    drive_step ho program s phase s' (Broken e)"
| voids_done: "\<not> has_pending_target targets s \<Longrightarrow> drive_step ho program s (Voiding targets) s Turn"
| settle_ok: "settle ho snapshot finished s = (s', Inr ()) \<Longrightarrow>
    drive_step ho program s (Settling finished snapshot phase) s' (resumed phase)"
| settle_err: "settle ho snapshot finished s = (s', Inl e) \<Longrightarrow>
    drive_step ho program s (Settling finished snapshot phase) s' (Broken e)"
| force_ok: "drains s drained \<Longrightarrow> terminalize_force ho drained (s\<lparr>sp_tasks := []\<rparr>) = (s', Inr terminal) \<Longrightarrow>
    drive_step ho program s Forcing s' (Ended terminal)"
| force_err: "drains s drained \<Longrightarrow> terminalize_force ho drained (s\<lparr>sp_tasks := []\<rparr>) = (s', Inl e) \<Longrightarrow>
    drive_step ho program s Forcing s' (Broken e)"
| lost_ok: "drains s drained \<Longrightarrow> terminalize_lost ho drained (s\<lparr>sp_tasks := []\<rparr>) = (s', Inr terminal) \<Longrightarrow>
    drive_step ho program s Losing s' (Ended terminal)"
| lost_err: "drains s drained \<Longrightarrow> terminalize_lost ho drained (s\<lparr>sp_tasks := []\<rparr>) = (s', Inl e) \<Longrightarrow>
    drive_step ho program s Losing s' (Broken e)"
| node_output: "task \<in> set (sp_tasks s) \<Longrightarrow> queued \<noteq> [] \<Longrightarrow> length queued \<le> BATCH_SIZE \<Longrightarrow>
    bridge_events (er_execution (pn_reference task)) queued = Inr events \<Longrightarrow>
    append_events ho events s = (s', Inr snapshot) \<Longrightarrow> drive_step ho program s phase s' phase"
| force_flag: "drive_step ho program s phase (s\<lparr>sp_force_requested := True\<rparr>) phase"
| force_request: "sp_force_requested s \<Longrightarrow> request_stop ho s = (s', Inr ()) \<Longrightarrow>
    drive_step ho program s phase s' phase"
| runtime_lost: "drive_step ho program s phase (s\<lparr>sp_runtime_lost := True\<rparr>) phase"

inductive driven :: "host \<Rightarrow> supervisor \<Rightarrow> run_program \<Rightarrow> supervisor \<Rightarrow> drive_phase \<Rightarrow> bool"
  for ho s0 where
  driven_start: "initialize ho s0 = (s, Inr (phase, program)) \<Longrightarrow> driven ho s0 program s phase"
| driven_step: "driven ho s0 program s phase \<Longrightarrow> drive_step ho program s phase s' phase' \<Longrightarrow>
    driven ho s0 program s' phase'"

end
