(* ===== verification/Supervisor_Laws.thy ===== *)
theory Supervisor_Laws
  imports Supervisor_Drive Reducer_Properties
begin

text \<open>
  Laws of the bridge between ledger and reducer: the history of a run in order is always readable
  within the position range, its identities are fresh for the next reduction, and what a batch of
  events does to the set of active executions.
\<close>

section \<open>Positions and identities\<close>

lemma history_position_of_cursor:
  "p \<le> HistoryPosition_MAX \<Longrightarrow> history_position_of (cursor_for p) = Inr p"
  by (simp add: history_position_of_def map_err_def HistoryPosition_new_def HistoryPosition_MAX_def
      i64_max_def u64_max_def)

lemma offset_position_ok:
  "p + offset \<le> HistoryPosition_MAX \<Longrightarrow> offset_position p offset = Inr (p + offset)"
  by (simp add: offset_position_def checked_add_def HistoryPosition_new_def HistoryPosition_MAX_def
      i64_max_def u64_max_def ok_or_def)

text \<open>The durable execution that a node of a run in order stands for.\<close>

definition shifted :: "u64 \<Rightarrow> u64 \<Rightarrow> node_snapshot \<Rightarrow> durable_execution \<Rightarrow> bool" where
  "shifted offset n node x \<longleftrightarrow>
     (\<exists>p. nd_started_at node = cursor_for p \<and> 0 < p \<and> p \<le> n \<and> de_dispatch_position x = p + offset
        \<and> (case nd_state node of
             NodeActive \<Rightarrow> de_state x = ExecActive
           | NodeSettled _ outcome \<Rightarrow> (\<exists>q. p < q \<and> q \<le> n \<and> de_state x = ExecSettled (q + offset) outcome)
           | NodeVoided _ reason \<Rightarrow> (\<exists>q. p < q \<and> q \<le> n \<and> de_state x = ExecVoided (q + offset) reason)))
     \<and> de_node_instance x = er_node_instance (nd_reference node)
     \<and> de_execution x = er_execution (nd_reference node)
     \<and> de_occurrence x = nd_occurrence node \<and> de_attempt x = nd_attempt node \<and> de_input x = nd_input node"

lemma offset_execution_ok:
  assumes "node_ok n rid x node" and "n + offset \<le> HistoryPosition_MAX"
  shows "\<exists>e. offset_execution offset node = Inr e \<and> shifted offset n node e"
proof -
  have at: "\<exists>q. at = cursor_for q \<and> p < q \<and> q \<le> n \<and> history_position_of at = Inr q
      \<and> offset_position q offset = Inr (q + offset)" if "settled_at p n at" for p at
    using that assms(2) history_position_of_cursor offset_position_ok by (fastforce simp: settled_at_def)
  obtain p where p: "nd_started_at node = cursor_for p" "0 < p" "p \<le> n"
    and st: "case nd_state node of NodeActive \<Rightarrow> True
             | NodeSettled at out \<Rightarrow>
                 settled_at p n at \<and> \<not> outcome_has_artifacts out \<and> outcome_validate out = Inr ()
             | NodeVoided at _ \<Rightarrow> settled_at p n at"
    using assms(1) by (auto simp: node_ok_def)
  have hp: "history_position_of (cursor_for p) = Inr p" "offset_position p offset = Inr (p + offset)"
    using p assms(2) by (auto intro!: history_position_of_cursor offset_position_ok)
  show ?thesis
  proof (cases "nd_state node")
    case NodeActive
    then show ?thesis using p hp
      by (simp add: offset_execution_def node_durable_execution_def durable_node_state_def
          offset_state_def shifted_def)
  next
    case (NodeSettled at out)
    with st obtain q where "at = cursor_for q" "p < q" "q \<le> n" "history_position_of at = Inr q"
      "offset_position q offset = Inr (q + offset)" using at by auto
    then show ?thesis using p hp NodeSettled
      by (simp add: offset_execution_def node_durable_execution_def durable_node_state_def
          offset_state_def shifted_def)
  next
    case (NodeVoided at r)
    with st obtain q where "at = cursor_for q" "p < q" "q \<le> n" "history_position_of at = Inr q"
      "offset_position q offset = Inr (q + offset)" using at by auto
    then show ?thesis using p hp NodeVoided
      by (simp add: offset_execution_def node_durable_execution_def durable_node_state_def
          offset_state_def shifted_def)
  qed
qed

lemma seed_offset_bound:
  assumes "e \<in> set seed"
  shows "execution_end e \<le> seed_offset seed" and "de_dispatch_position e \<le> seed_offset seed"
proof -
  let ?f = "\<lambda>maximum e. max (max maximum (execution_end e)) (de_dispatch_position e)"
  have mono: "m \<le> foldl ?f m xs" for m xs
  proof (induction xs arbitrary: m)
    case (Cons x xs)
    show ?case using Cons.IH[of "?f m x"] by simp
  qed simp
  obtain as bs where seed: "seed = as @ e # bs" using assms by (auto dest: split_list)
  show "execution_end e \<le> seed_offset seed" "de_dispatch_position e \<le> seed_offset seed"
    using mono[of "?f (foldl ?f 0 as) e" bs] by (simp_all add: seed_offset_def seed)
qed

lemma iter_max_some: "xs \<noteq> [] \<Longrightarrow> iter_max xs = Some (Max (set xs))"
  by (cases xs) (simp_all add: iter_max_def flip: Max.set_eq_fold)

lemma next_identity_ok:
  "next_identity xs = Inr n \<longleftrightarrow> n = Max (insert 0 (set xs)) + 1 \<and> n \<le> u64_max"
  by (cases "xs = []")
    (auto simp: next_identity_def iter_max_some FIRST_IDENTITY_def ok_or_eq_Inr checked_add_Some iter_max_def[of "[]"])

lemma next_identity_fresh: "next_identity xs = Inr n \<Longrightarrow> x \<in> set xs \<Longrightarrow> x < n"
  by (auto simp: next_identity_ok less_Suc_eq_le)

section \<open>The history of a run\<close>

lemma sorted_key_strict:
  assumes "sorted (map (\<lambda>x. (f x, g x)) xs)" and "distinct (map f xs)"
  shows "sorted_wrt (\<lambda>a b. f a < f b) xs"
proof -
  have "sorted (map f xs)"
    using assms(1) by (induction xs) (auto simp: less_eq_prod_def)
  then show ?thesis using assms(2) by (induction xs) (auto simp: order_less_le image_iff)
qed

lemma sorted_wrt_less_distinct: "sorted_wrt (\<lambda>a b. (f a :: 'a :: linorder) < f b) xs \<Longrightarrow> distinct (map f xs)"
  by (induction xs) auto

lemma shiftedD:
  assumes "shifted offset n node x"
  shows "offset < de_dispatch_position x" and "de_dispatch_position x \<le> n + offset"
    and "de_execution x = er_execution (nd_reference node)"
    and "nd_started_at node = cursor_for (de_dispatch_position x - offset)"
    and "de_state x = ExecActive \<longleftrightarrow> nd_state node = NodeActive"
    and "de_state x = ExecSettled p out \<Longrightarrow> p \<le> n + offset"
  using assms by (cases "nd_state node"; auto simp: shifted_def)+

definition stands_for :: "run_snapshot \<Rightarrow> u64 \<Rightarrow> durable_execution \<Rightarrow> bool" where
  "stands_for s n e \<longleftrightarrow>
     (\<exists>node. bm_get (sn_executions s) (de_execution e) = Some node
        \<and> shifted (seed_offset (sn_execution_seed s)) n node e)"

text \<open>The executions dispatched by the run itself, before they are merged with the imported ones.\<close>

lemma run_executions_ok:
  assumes "run_ok n s" and "n + seed_offset (sn_execution_seed s) < HistoryPosition_MAX"
  obtains xs where
    "try_map (offset_execution (seed_offset (sn_execution_seed s))) (map snd (sn_executions s)) = Inr xs"
    "map de_execution xs = map fst (sn_executions s)" "\<forall>e \<in> set xs. stands_for s n e"
    "distinct (map de_dispatch_position xs)"
proof -
  let ?o = "seed_offset (sn_execution_seed s)"
  have nodes: "nodes_ok n s" using assms(1) by (simp add: run_ok_def)
  then have wf: "bm_wf (sn_executions s)" by (simp add: nodes_ok_def)
  have node: "node_ok n (sn_run_id s) x v" if "(x, v) \<in> set (sn_executions s)" for x v
    using that nodes_okD(1)[OF nodes] wf by (simp add: bm_get_iff)
  have "\<exists>xs. list_all2 (\<lambda>(x, v) e. offset_execution ?o v = Inr e \<and> shifted ?o n v e \<and> de_execution e = x)
      kvs xs" if "set kvs \<subseteq> set (sn_executions s)" for kvs
    using that
  proof (induction kvs)
    case (Cons kv kvs)
    obtain x v where kv: "kv = (x, v)" by (cases kv)
    then have "node_ok n (sn_run_id s) x v" using Cons.prems node by simp
    from offset_execution_ok[OF this, of ?o] assms(2) obtain e where
      "offset_execution ?o v = Inr e" "shifted ?o n v e" by auto
    moreover from this \<open>node_ok n (sn_run_id s) x v\<close> have "de_execution e = x"
      by (simp add: shiftedD(3) node_ok_def)
    ultimately show ?case using Cons kv by (auto simp: list_all2_Cons1)
  qed (auto intro: exI[of _ "[]"])
  then obtain xs where xs: "list_all2 (\<lambda>(x, v) e. offset_execution ?o v = Inr e \<and> shifted ?o n v e
      \<and> de_execution e = x) (sn_executions s) xs" by blast
  have "try_map (offset_execution ?o) (map snd (sn_executions s)) = Inr xs"
    unfolding try_map_ok using xs by (auto simp: list_all2_map1 split_beta elim: list_all2_mono)
  moreover have ids: "map de_execution xs = map fst (sn_executions s)"
    using xs by (induction rule: list_all2_induct) auto
  moreover have st: "\<forall>e \<in> set xs. stands_for s n e"
    using xs wf by (fastforce simp: list_all2_conv_all_nth in_set_conv_nth stands_for_def bm_get_iff)
  moreover have "distinct (map de_dispatch_position xs)"
  proof -
    have "inj_on de_dispatch_position (set xs)"
    proof (rule inj_onI)
      fix a b assume ab: "a \<in> set xs" "b \<in> set xs" "de_dispatch_position a = de_dispatch_position b"
      with st obtain v w where v: "bm_get (sn_executions s) (de_execution a) = Some v" "shifted ?o n v a"
        and w: "bm_get (sn_executions s) (de_execution b) = Some w" "shifted ?o n w b"
        unfolding stands_for_def by meson
      then have "nd_started_at v = nd_started_at w" using ab(3) shiftedD(4) by metis
      then have "de_execution a = de_execution b" using nodes v(1) w(1) by (auto simp: nodes_ok_def)
      moreover have "distinct (map de_execution xs)" using ids wf by (simp add: bm_wf_distinct)
      ultimately show "a = b" using ab(1,2) by (auto simp: distinct_map dest: inj_onD)
    qed
    moreover have "distinct xs" using ids wf by (metis bm_wf_distinct distinct_map)
    ultimately show ?thesis by (simp add: distinct_map)
  qed
  ultimately show ?thesis using that by blast
qed

lemma durable_history_ok:
  assumes "run_ok n s" and "n + seed_offset (sn_execution_seed s) < HistoryPosition_MAX"
  obtains H where "durable_history s = Inr H"
    "sorted_wrt (\<lambda>a b. de_dispatch_position a < de_dispatch_position b) H"
    "distinct (map de_execution H)" "bounded_history H"
    "\<forall>e \<in> set H. e \<in> set (sn_execution_seed s) \<or> stands_for s n e"
    "set (map de_execution H) = fst ` set (sn_executions s) \<union> de_execution ` set (sn_execution_seed s)"
proof -
  let ?seed = "sn_execution_seed s" and ?o = "seed_offset (sn_execution_seed s)"
  from run_executions_ok[OF assms] obtain xs where
    xs: "try_map (offset_execution ?o) (map snd (sn_executions s)) = Inr xs"
      "map de_execution xs = map fst (sn_executions s)" "\<forall>e \<in> set xs. stands_for s n e"
      "distinct (map de_dispatch_position xs)" .
  have seed: "seed_ok s" and nodes: "nodes_ok n s" using assms(1) by (simp_all add: run_ok_def)
  define H where "H = sort_key (\<lambda>e. (de_dispatch_position e, de_execution e)) (xs @ ?seed)"
  have set: "set H = set xs \<union> set ?seed" and mset: "mset H = mset (xs @ ?seed)" by (simp_all add: H_def)
  have ds: "distinct (map de_execution ?seed)" "distinct (map de_dispatch_position ?seed)"
    using seed unfolding seed_ok_def
    by (auto intro!: sorted_wrt_less_distinct elim!: sorted_wrt_mono_rel[rotated])
  have above: "?o < de_dispatch_position e" if "e \<in> set xs" for e
    using xs(3) that shiftedD(1) by (auto simp: stands_for_def)
  have "de_dispatch_position e \<le> ?o" if "e \<in> set ?seed" for e using seed_offset_bound(2)[OF that] .
  then have "distinct (map de_dispatch_position (xs @ ?seed))"
    using xs(4) ds(2) above by (fastforce simp: image_iff)
  then have "distinct (map de_dispatch_position H)" by (metis mset mset_map mset_eq_imp_distinct_iff)
  then have "sorted_wrt (\<lambda>a b. de_dispatch_position a < de_dispatch_position b) H"
    by (intro sorted_key_strict[of de_dispatch_position de_execution]) (simp_all add: H_def)
  moreover have "distinct (map de_execution (xs @ ?seed))"
    using xs(2) ds(1) nodes by (auto simp: nodes_ok_def bm_wf_distinct bm_get_iff image_iff)
  then have "distinct (map de_execution H)" by (metis mset mset_map mset_eq_imp_distinct_iff)
  moreover have "set (map de_execution H) = fst ` set (sn_executions s) \<union> de_execution ` set ?seed"
    using arg_cong[OF xs(2), of set] by (simp add: set image_Un)
  moreover have "bounded_history H"
  proof -
    have "p < HistoryPosition_MAX" if "e \<in> set H" "de_state e = ExecSettled p out" for e p out
      using that xs(3) shiftedD(6) seed_offset_bound(1)[of e ?seed] assms(2)
      by (fastforce simp: set stands_for_def execution_end_def)
    then show ?thesis by (auto simp: bounded_history_def split: durable_execution_state.splits)
  qed
  moreover have "durable_history s = Inr H" by (simp add: durable_history_def xs(1) H_def)
  ultimately show ?thesis using that xs(3) by (auto simp: set)
qed

text \<open>Whenever the history of a run is read, its members are the executions of the run.\<close>

lemma durable_history_members:
  assumes "durable_history s = Inr H" and "nodes_ok n s" and "seed_ok s"
  shows "de_execution ` set H = fst ` set (sn_executions s) \<union> de_execution ` set (sn_execution_seed s)"
    and "e \<in> set H \<Longrightarrow> de_state e = ExecActive \<Longrightarrow>
      \<exists>node. bm_get (sn_executions s) (de_execution e) = Some node \<and> nd_state node = NodeActive"
proof -
  let ?o = "seed_offset (sn_execution_seed s)"
  have wf: "bm_wf (sn_executions s)" using assms(2) by (simp add: nodes_ok_def)
  from assms(1) obtain xs where xs: "list_all2 (\<lambda>v e. offset_execution ?o v = Inr e) (map snd (sn_executions s)) xs"
    and H: "set H = set xs \<union> set (sn_execution_seed s)"
    by (auto simp: durable_history_def try_map_ok elim!: bind_resE)
  have shape: "de_execution e = er_execution (nd_reference v) \<and> (de_state e = ExecActive \<longrightarrow> nd_state v = NodeActive)"
    if "offset_execution ?o v = Inr e" for v e
    using that
    by (auto simp: offset_execution_def node_durable_execution_def offset_state_def durable_node_state_def
        elim!: bind_resE split: node_state.splits durable_execution_state.splits)
  have "list_all2 (\<lambda>(x, v) e. de_execution e = x \<and> (de_state e = ExecActive \<longrightarrow> nd_state v = NodeActive))
      (sn_executions s) xs"
  proof (rule list_all2_all_nthI)
    show "length (sn_executions s) = length xs" using list_all2_lengthD[OF xs] by simp
    fix i assume i: "i < length (sn_executions s)"
    obtain x v where xv: "sn_executions s ! i = (x, v)" by force
    then have "node_ok n (sn_run_id s) x v"
      using nodes_okD(1)[OF assms(2)] nth_mem[OF i] wf by (simp add: bm_get_iff)
    then show "(case sn_executions s ! i of (x, v) \<Rightarrow> \<lambda>e. de_execution e = x
        \<and> (de_state e = ExecActive \<longrightarrow> nd_state v = NodeActive)) (xs ! i)"
      using shape[OF list_all2_nthD[OF xs, of i, simplified, OF i]] xv by (simp add: node_ok_def)
  qed
  then have pairs: "map de_execution xs = map fst (sn_executions s)"
    "\<forall>e \<in> set xs. de_state e = ExecActive \<longrightarrow> (\<exists>v. (de_execution e, v) \<in> set (sn_executions s) \<and> nd_state v = NodeActive)"
    by (induction rule: list_all2_induct) auto
  show "de_execution ` set H = fst ` set (sn_executions s) \<union> de_execution ` set (sn_execution_seed s)"
    using arg_cong[OF pairs(1), of set] by (simp add: H image_Un)
  show "\<exists>node. bm_get (sn_executions s) (de_execution e) = Some node \<and> nd_state node = NodeActive"
    if "e \<in> set H" "de_state e = ExecActive"
    using that pairs(2) assms(3) wf by (auto simp: H seed_ok_def bm_get_iff)
qed

section \<open>Active executions\<close>

definition active_refs :: "run_snapshot \<Rightarrow> execution_ref set" where
  "active_refs s = {r. \<exists>node. node_at s r node}"

definition event_active :: "run_event \<Rightarrow> execution_ref set \<Rightarrow> execution_ref set" where
  "event_active ev refs =
     (case ev of
        NodeStarted r _ _ _ \<Rightarrow> insert r refs
      | NodeCompleted c \<Rightarrow> refs - {nc_reference c}
      | ExecutionVoided r _ \<Rightarrow> refs - {r}
      | _ \<Rightarrow> refs)"

lemma event_active_prepare [simp]: "event_active (prepare_event s ev) refs = event_active ev refs"
  by (cases ev) (simp_all add: prepare_event_def event_active_def)

lemma node_at_put:
  "node_at (put_node s x v) r node \<longleftrightarrow>
     (if er_execution r = x then v = node \<and> nd_reference node = r \<and> nd_state node = NodeActive
        \<and> er_run_id r = sn_run_id s else node_at s r node)"
  by (auto simp: node_at_def put_node_def)

lemma active_refs_cong:
  "sn_executions t = sn_executions s \<Longrightarrow> sn_run_id t = sn_run_id s \<Longrightarrow> active_refs t = active_refs s"
  by (simp add: active_refs_def node_at_def)

lemma active_refs_flag:
  assumes "bm_get (sn_executions s) x = Some node"
  shows "active_refs (put_node s x (node\<lparr>nd_failure_diagnostic := b\<rparr>)) = active_refs s"
proof -
  have "(\<exists>v. node_at (put_node s x (node\<lparr>nd_failure_diagnostic := b\<rparr>)) r v) \<longleftrightarrow> (\<exists>v. node_at s r v)" for r
    using assms by (cases "er_execution r = x") (auto simp: node_at_def put_node_def)
  then show ?thesis by (simp add: active_refs_def)
qed

lemma event_step_active:
  assumes "event_step cd n s ev t" and "nodes_ok m s"
  shows "active_refs t = event_active ev (active_refs s)"
  using assms(1)
proof cases
  case (step_node r oc a v)
  then have "node_at s r' node \<Longrightarrow> er_execution r' \<noteq> er_execution r" for r' node
    by (auto simp: unused_def node_at_def)
  then show ?thesis using step_node by (auto simp: active_refs_def node_at_put event_active_def)
next
  case (step_completed c node)
  then have "node_at s r' v \<Longrightarrow> er_execution r' = er_execution (nc_reference c) \<Longrightarrow> r' = nc_reference c" for r' v
    by (auto simp: node_at_def)
  then show ?thesis using step_completed by (auto simp: active_refs_def node_at_put event_active_def)
next
  case (step_voided r node reason)
  then have "node_at s r' v \<Longrightarrow> er_execution r' = er_execution r \<Longrightarrow> r' = r" for r' v
    by (auto simp: node_at_def)
  then show ?thesis using step_voided by (auto simp: active_refs_def node_at_put event_active_def)
next
  case (step_log ex stream line kind ts)
  from step_log(3) obtain fc u where t: "t = u\<lparr>sn_failure_context := fc\<rparr>"
    and u: "u = s \<or> (\<exists>x node. bm_get (sn_executions s) x = Some node
       \<and> u = put_node s x (node\<lparr>nd_failure_diagnostic := True\<rparr>))"
    by (rule failure_diagnostic_shape)
  have "active_refs t = active_refs u" unfolding t by (rule active_refs_cong) simp_all
  then show ?thesis using u active_refs_flag step_log(1) by (auto simp: event_active_def)
qed (auto simp: event_active_def intro!: active_refs_cong dest!: add_usage_shape)

lemma active_refs_empty:
  assumes "nodes_ok n s"
  shows "active_refs s = {} \<longleftrightarrow> active_executions s = []"
  unfolding active_executions_empty[OF nodes_okD(2)[OF assms]] active_refs_def
  using nodes_okD(1)[OF assms] by (fastforce simp: node_at_def node_ok_def)

section \<open>Batches of events\<close>

text \<open>A rule to follow a batch: what holds before the first event and is kept by every accepted event
  holds after the batch.\<close>

lemma append_event_cases:
  assumes "append_event cd (s, n, stored) ev = Inr (s', n', stored')"
  obtains t where "sn_terminal s = None" "event_step cd (Suc n) s (prepare_event s ev) t"
    "s' = t\<lparr>sn_cursor := cursor_for (Suc n)\<rparr>" "n' = Suc n"
    "apply_event cd s (prepare_event s ev) (Suc n) = Inr s'"
proof -
  from assms have n: "n' = Suc n" and ap: "apply_event cd s (prepare_event s ev) (Suc n) = Inr s'"
    by (auto simp: append_event_def Let_def ok_or_eq_Inr checked_add_Some elim!: bind_resE)
  then show ?thesis using that unfolding apply_event_iff by blast
qed

lemma try_foldl_batch:
  assumes "try_foldl (append_event cd) (s, n, stored) events = Inr (s', n', stored')" and "run_ok n s"
    and "P s pre"
    and "\<And>s t n ev pre. run_ok n s \<Longrightarrow> sn_terminal s = None \<Longrightarrow> ev \<in> set events \<Longrightarrow>
      event_step cd (Suc n) s (prepare_event s ev) t \<Longrightarrow> P s pre \<Longrightarrow>
      P (t\<lparr>sn_cursor := cursor_for (Suc n)\<rparr>) (pre @ [ev])"
  shows "P s' (pre @ events)"
  using assms
proof (induction events arbitrary: s n stored pre)
  case (Cons ev events)
  from Cons.prems(1) obtain u m st where ev: "append_event cd (s, n, stored) ev = Inr (u, m, st)"
    and rest: "try_foldl (append_event cd) (u, m, st) events = Inr (s', n', stored')"
    by (auto elim!: bind_resE)
  from append_event_cases[OF ev] obtain t where t: "sn_terminal s = None"
    "event_step cd (Suc n) s (prepare_event s ev) t" "u = t\<lparr>sn_cursor := cursor_for (Suc n)\<rparr>" "m = Suc n"
    "apply_event cd s (prepare_event s ev) (Suc n) = Inr u" .
  have "P u (pre @ [ev])" unfolding t(3) using Cons.prems(3,4) Cons.prems(2) t(1,2) by simp
  with Cons.IH[of u m st "pre @ [ev]"] rest apply_event_ok(1)[OF t(5) Cons.prems(2)] Cons.prems(4) t(4)
  show ?case by simp
qed simp

lemma append_locked_batch:
  assumes "append_locked cd run events = Inr (result, run')" and "run_inv cd rid run"
    and "P (sr_snapshot (fr_stored run)) []"
    and "\<And>s t n ev pre. run_ok n s \<Longrightarrow> sn_terminal s = None \<Longrightarrow> ev \<in> set events \<Longrightarrow>
      event_step cd (Suc n) s (prepare_event s ev) t \<Longrightarrow> P s pre \<Longrightarrow>
      P (t\<lparr>sn_cursor := cursor_for (Suc n)\<rparr>) (pre @ [ev])"
  shows "P (sr_snapshot (fr_stored run')) events"
proof -
  from assms(1) obtain s' n' stored where
    fold: "try_foldl (append_event cd) (sr_snapshot (fr_stored run), length (fr_events run), []) events
        = Inr (s', n', stored)"
    and run': "sr_snapshot (fr_stored run') = s'"
    by (auto simp: append_locked_def Let_def run_inv_ok(4)[OF assms(2)] elim!: bind_resE split: if_splits)
  show ?thesis
    unfolding run' using try_foldl_batch[OF fold run_inv_ok(1)[OF assms(2)], of P "[]"] assms(3,4) by simp
qed

definition batch_active :: "run_event list \<Rightarrow> execution_ref set \<Rightarrow> execution_ref set" where
  "batch_active events refs = fold event_active events refs"

lemma append_locked_active:
  assumes "append_locked cd run events = Inr (result, run')" and "run_inv cd rid run"
  shows "active_refs (sr_snapshot (fr_stored run')) = batch_active events (active_refs (sr_snapshot (fr_stored run)))"
proof -
  let ?P = "\<lambda>s pre. active_refs s = batch_active pre (active_refs (sr_snapshot (fr_stored run)))"
  show ?thesis
  proof (rule append_locked_batch[OF assms, of ?P])
    fix s t n ev pre
    assume ok: "run_ok n s" and st: "event_step cd (Suc n) s (prepare_event s ev) t" and p: "?P s pre"
    have "active_refs (t\<lparr>sn_cursor := cursor_for (Suc n)\<rparr>) = active_refs t"
      by (rule active_refs_cong) simp_all
    also have "\<dots> = event_active ev (active_refs s)"
      using event_step_active[OF st, of n] ok by (simp add: run_ok_def)
    finally show "?P (t\<lparr>sn_cursor := cursor_for (Suc n)\<rparr>) (pre @ [ev])" using p by (simp add: batch_active_def)
  qed (simp add: batch_active_def)
qed

text \<open>Observations leave the executions alone but for the diagnostic flag.\<close>

definition node_core :: "node_snapshot \<Rightarrow> node_snapshot" where
  "node_core node = node\<lparr>nd_failure_diagnostic := False\<rparr>"

definition same_core :: "run_snapshot \<Rightarrow> run_snapshot \<Rightarrow> bool" where
  "same_core s t \<longleftrightarrow>
     sn_run_id t = sn_run_id s \<and> sn_execution_seed t = sn_execution_seed s
     \<and> sn_primary_graph t = sn_primary_graph s \<and> sn_terminal t = sn_terminal s
     \<and> (\<forall>x. map_option node_core (bm_get (sn_executions t) x) = map_option node_core (bm_get (sn_executions s) x))"

definition is_observation :: "run_event \<Rightarrow> bool" where
  "is_observation ev =
     (case ev of
        SafeLog _ _ _ _ _ \<Rightarrow> True
      | TokenUsageObserved _ _ \<Rightarrow> True
      | RunTokenUsageObserved _ \<Rightarrow> True
      | ForceStopRequested \<Rightarrow> True
      | _ \<Rightarrow> False)"

lemma same_core_refl [simp]: "same_core s s"
  by (simp add: same_core_def)

lemma same_core_trans: "same_core s t \<Longrightarrow> same_core t u \<Longrightarrow> same_core s u"
  by (simp add: same_core_def)

lemma is_observation_prepare: "is_observation ev \<Longrightarrow> prepare_event s ev = ev"
  by (cases ev) (simp_all add: is_observation_def prepare_event_def)

lemma event_step_core:
  assumes "event_step cd n s ev t" and "is_observation ev"
  shows "same_core s t"
  using assms(1)
proof cases
  case (step_log ex stream line kind ts)
  from step_log(3) obtain fc u where t: "t = u\<lparr>sn_failure_context := fc\<rparr>"
    and u: "u = s \<or> (\<exists>x node. bm_get (sn_executions s) x = Some node
       \<and> u = put_node s x (node\<lparr>nd_failure_diagnostic := True\<rparr>))"
    by (rule failure_diagnostic_shape)
  then show ?thesis by (auto simp: same_core_def put_node_def node_core_def)
qed (use assms(2) in \<open>auto simp: is_observation_def same_core_def dest!: add_usage_shape\<close>)

lemma append_locked_core:
  assumes "append_locked cd run events = Inr (result, run')" and "run_inv cd rid run"
    and "\<forall>ev \<in> set events. is_observation ev"
  shows "same_core (sr_snapshot (fr_stored run)) (sr_snapshot (fr_stored run'))"
proof (rule append_locked_batch[OF assms(1,2), of "\<lambda>s _. same_core (sr_snapshot (fr_stored run)) s"])
  fix s t n ev
  assume "ev \<in> set events" and "event_step cd (Suc n) s (prepare_event s ev) t"
    and p: "same_core (sr_snapshot (fr_stored run)) s"
  then have "same_core s t" using event_step_core assms(3) is_observation_prepare by metis
  with p show "same_core (sr_snapshot (fr_stored run)) (t\<lparr>sn_cursor := cursor_for (Suc n)\<rparr>)"
    by (simp add: same_core_def)
qed simp

lemma same_core_active:
  assumes "same_core s t"
  shows "active_refs t = active_refs s"
proof -
  have eq: "nd_reference a = nd_reference b \<and> nd_state a = nd_state b" if "node_core a = node_core b" for a b
    using arg_cong[OF that, of nd_reference] arg_cong[OF that, of nd_state] by (simp add: node_core_def)
  have "r \<in> active_refs b" if c: "same_core a b" and "r \<in> active_refs a" for a b r
  proof -
    from that obtain v where v: "node_at a r v" by (auto simp: active_refs_def)
    then have "map_option node_core (bm_get (sn_executions b) (er_execution r)) = Some (node_core v)"
      using c by (simp add: same_core_def node_at_def)
    then obtain w where w: "bm_get (sn_executions b) (er_execution r) = Some w" "node_core w = node_core v" by auto
    then have "node_at b r w" using v eq[OF w(2)] c by (simp add: node_at_def same_core_def)
    then show ?thesis by (auto simp: active_refs_def)
  qed
  moreover have "same_core t s" using assms by (simp add: same_core_def)
  ultimately show ?thesis using assms by blast
qed

text \<open>A driven run stays open until it is finished on purpose.\<close>

definition open_run :: "run_snapshot \<Rightarrow> bool" where
  "open_run s \<longleftrightarrow> sn_terminal s = None \<and> sn_primary_graph s = None \<and> sn_phase s \<in> {Running, Stopping}"

definition is_closing :: "run_event \<Rightarrow> bool" where
  "is_closing ev = (case ev of PrimaryGraphCompleted _ _ _ \<Rightarrow> True | TerminalEvent _ \<Rightarrow> True | _ \<Rightarrow> False)"

lemma event_step_open:
  assumes "event_step cd n s ev t" and "\<not> is_closing ev" and "open_run s"
  shows "open_run t"
  using assms(1)
proof cases
  case (step_log ex stream line kind ts)
  from step_log(3) obtain fc u where t: "t = u\<lparr>sn_failure_context := fc\<rparr>"
    and u: "u = s \<or> (\<exists>x node. bm_get (sn_executions s) x = Some node
       \<and> u = put_node s x (node\<lparr>nd_failure_diagnostic := True\<rparr>))"
    by (rule failure_diagnostic_shape)
  then show ?thesis using assms(3) by (auto simp: open_run_def put_node_def)
qed (use assms(2,3) in \<open>auto simp: is_closing_def open_run_def put_node_def dest!: add_usage_shape\<close>)

lemma is_closing_prepare [simp]: "is_closing (prepare_event s ev) = is_closing ev"
  by (cases ev) (simp_all add: is_closing_def prepare_event_def)

lemma append_locked_open:
  assumes "append_locked cd run events = Inr (result, run')" and "run_inv cd rid run"
    and "\<forall>ev \<in> set events. \<not> is_closing ev" and "open_run (sr_snapshot (fr_stored run))"
  shows "open_run (sr_snapshot (fr_stored run'))"
proof (rule append_locked_batch[OF assms(1,2), of "\<lambda>s _. open_run s"])
  fix s t n ev
  assume ev: "ev \<in> set events" and st: "event_step cd (Suc n) s (prepare_event s ev) t" and s: "open_run s"
  have "\<not> is_closing (prepare_event s ev)" using assms(3) ev by simp
  from event_step_open[OF st this s] show "open_run (t\<lparr>sn_cursor := cursor_for (Suc n)\<rparr>)"
    by (simp add: open_run_def)
qed (rule assms(4))

end
