(* ===== verification/Supervisor_Invariant.thy ===== *)
theory Supervisor_Invariant
  imports Supervisor_Laws
begin

text \<open>
  The invariant of a driven run: between its steps the supervisor owns one task for every active
  execution of the ledger and no other, and every task can still be cancelled or already has a
  pending cancellation. It is kept by every step of \<open>drive_step\<close>, whatever the nodes, the clients and
  the host do in between.
\<close>

section \<open>The ledger behind the supervisor\<close>

definition current :: "host \<Rightarrow> supervisor \<Rightarrow> run_snapshot \<Rightarrow> bool" where
  "current ho s snap \<longleftrightarrow>
     ledger_ok (ho_codec ho) (sp_ledger s)
     \<and> (\<exists>run. bm_get (fs_runs (sp_ledger s)) (sp_run_id s) = Some run \<and> sr_snapshot (fr_stored run) = snap)"

lemma currentD:
  assumes "current ho s snap"
  obtains n where "run_ok n snap" "nodes_ok n snap" "seed_ok snap" "phase_ok snap" "sn_run_id snap = sp_run_id s"
  using assms ledger_okD(3) run_inv_ok(1,3) by (fastforce simp: current_def run_ok_def)

lemma sup_snapshot_current: "current ho s snap \<Longrightarrow> sup_snapshot s = (s, Inr snap)"
  by (auto simp: current_def sup_snapshot_def bind_sup_def load_def lift_res_def ledger_get_def)

lemma current_cong:
  "sp_ledger t = sp_ledger s \<Longrightarrow> sp_run_id t = sp_run_id s \<Longrightarrow> current ho t snap = current ho s snap"
  by (simp add: current_def)

definition same_tasks :: "supervisor \<Rightarrow> supervisor \<Rightarrow> bool" where
  "same_tasks s s' \<longleftrightarrow>
     sp_run_id s' = sp_run_id s \<and> sp_tasks s' = sp_tasks s
     \<and> sp_cancellations s' = sp_cancellations s \<and> sp_pending_voids s' = sp_pending_voids s"

lemma append_events_err: "append_events ho evs s = (s', Inl e) \<Longrightarrow> s' = s"
  by (auto simp: append_events_def split: sum.splits prod.splits)

lemma append_events_cases:
  assumes "append_events ho evs s = (s', Inr snap')" and "current ho s snap"
  obtains run run' result where "append_locked (ho_codec ho) run evs = Inr (result, run')"
    "run_inv (ho_codec ho) (sp_run_id s) run" "sr_snapshot (fr_stored run) = snap"
    "sr_snapshot (fr_stored run') = snap'" "same_tasks s s'" "current ho s' snap'"
proof -
  from assms(1) obtain result led where la: "ledger_append (ho_codec ho) (sp_ledger s) (sp_run_id s) evs = Inr (result, led)"
    and s': "s' = s\<lparr>sp_ledger := led\<rparr>" "snap' = ap_snapshot result"
    by (auto simp: append_events_def split: sum.splits prod.splits)
  have ok: "ledger_ok (ho_codec ho) (sp_ledger s)" using assms(2) by (simp add: current_def)
  from la ok obtain run run' where run: "bm_get (fs_runs (sp_ledger s)) (sp_run_id s) = Some run"
    "run_inv (ho_codec ho) (sp_run_id s) run" "append_locked (ho_codec ho) run evs = Inr (result, run')"
    "led = put_run (sp_ledger s) (sp_run_id s) run'" by (rule ledger_append_cases)
  have "ledger_ok (ho_codec ho) led" by (rule ledger_append_ok[OF la ok])
  moreover have "bm_get (fs_runs led) (sp_run_id s) = Some run'" by (simp add: run(4) put_run_def)
  moreover have "snap' = sr_snapshot (fr_stored run')" using append_locked_ok(3)[OF run(3,2)] s' by simp
  ultimately show ?thesis using that[OF run(3,2)] run(1) assms(2) s' by (auto simp: current_def same_tasks_def)
qed

lemma append_events_ok:
  assumes "append_events ho evs s = (s', Inr snap')" and "current ho s snap"
  shows "same_tasks s s'" and "current ho s' snap'"
    and "active_refs snap' = batch_active evs (active_refs snap)"
    and "\<forall>ev \<in> set evs. is_observation ev \<Longrightarrow> same_core snap snap'"
    and "\<forall>ev \<in> set evs. \<not> is_closing ev \<Longrightarrow> open_run snap \<Longrightarrow> open_run snap'"
    and "evs \<noteq> []" and "sn_terminal snap = None"
proof -
  from assms obtain run run' result where a: "append_locked (ho_codec ho) run evs = Inr (result, run')"
    "run_inv (ho_codec ho) (sp_run_id s) run" "sr_snapshot (fr_stored run) = snap"
    "sr_snapshot (fr_stored run') = snap'" "same_tasks s s'" "current ho s' snap'"
    by (rule append_events_cases)
  show "same_tasks s s'" "current ho s' snap'" by (fact a(5), fact a(6))
  show "active_refs snap' = batch_active evs (active_refs snap)"
    using append_locked_active[OF a(1,2)] a(3,4) by simp
  show "\<forall>ev \<in> set evs. is_observation ev \<Longrightarrow> same_core snap snap'"
    using append_locked_core[OF a(1,2)] a(3,4) by simp
  show "\<forall>ev \<in> set evs. \<not> is_closing ev \<Longrightarrow> open_run snap \<Longrightarrow> open_run snap'"
    using append_locked_open[OF a(1,2)] a(3,4) by simp
  show ne: "evs \<noteq> []" using append_locked_ok(8)[OF a(1,2)] .
  then obtain ev rest where "evs = ev # rest" by (cases evs) auto
  then show "sn_terminal snap = None"
    using a(1) by (auto simp: append_locked_def Let_def a(3) append_event_def apply_event_def
        elim!: bind_resE split: if_splits)
qed

text \<open>Operations that keep the run and the order of the ledger.\<close>

definition keeps :: "host \<Rightarrow> 'a supervised \<Rightarrow> bool" where
  "keeps ho m \<longleftrightarrow> (\<forall>s snap. current ho s snap \<longrightarrow> (\<exists>snap'. current ho (fst (m s)) snap'))"

lemma keepsD: "keeps ho m \<Longrightarrow> m s = (s', r) \<Longrightarrow> current ho s snap \<Longrightarrow> \<exists>snap'. current ho s' snap'"
  unfolding keeps_def by (metis fst_conv)

lemma keeps_bind [intro]: "keeps ho m \<Longrightarrow> (\<And>a. keeps ho (f a)) \<Longrightarrow> keeps ho (bind_sup m f)"
  unfolding keeps_def bind_sup_def
  by (auto split: prod.splits sum.splits) (metis fst_conv)+

lemma keeps_lift [simp, intro]: "keeps ho (lift_res r)"
  by (auto simp: keeps_def lift_res_def)

lemma keeps_append [simp, intro]: "keeps ho (append_events ho evs)"
proof -
  have "\<exists>snap'. current ho (fst (append_events ho evs s)) snap'" if "current ho s snap" for s snap
  proof (cases "append_events ho evs s")
    case (Pair s' r)
    then show ?thesis using append_events_err[of ho evs s] append_events_ok(2)[of ho evs s] that
      by (cases r) fastforce+
  qed
  then show ?thesis by (auto simp: keeps_def)
qed

lemma keeps_snapshot [simp, intro]: "keeps ho sup_snapshot"
  by (auto simp: keeps_def sup_snapshot_current)

lemma record_failure_logs_keeps: "current ho s snap \<Longrightarrow> \<exists>snap'. current ho (record_failure_logs ho logs s) snap'"
  using keeps_append[of ho logs] unfolding keeps_def record_failure_logs_def by auto

section \<open>Tasks and cancellation handles\<close>

definition pending_ids :: "supervisor \<Rightarrow> execution_id set" where
  "pending_ids s = fst ` set (sp_pending_voids s)"

definition tracks :: "supervisor \<Rightarrow> execution_ref set \<Rightarrow> bool" where
  "tracks s refs \<longleftrightarrow> distinct (map pn_reference (sp_tasks s)) \<and> pn_reference ` set (sp_tasks s) = refs"

definition handles :: "supervisor \<Rightarrow> execution_id set \<Rightarrow> bool" where
  "handles s ids \<longleftrightarrow>
     bs_wf (sp_cancellations s) \<and> bm_wf (sp_pending_voids s)
     \<and> set (sp_cancellations s) \<inter> pending_ids s = {}
     \<and> set (sp_cancellations s) \<union> pending_ids s = ids"

lemma active_refs_inj:
  "r \<in> active_refs s \<Longrightarrow> r' \<in> active_refs s \<Longrightarrow> er_execution r = er_execution r' \<Longrightarrow> r = r'"
  unfolding active_refs_def node_at_def mem_Collect_eq by (metis option.inject)

lemma bs_wf_remove1: "bs_wf xs \<Longrightarrow> bs_wf (remove1 x xs) \<and> set (remove1 x xs) = set xs - {x}"
  by (simp add: bs_wf_def strict_sorted_iff sorted_remove1)

text \<open>Requesting cancellations moves handles to the pending voids.\<close>

lemma begin_voids_ok:
  assumes "begin_voids voids s = (s', Inr targets)" and "handles s ids"
  shows "handles s' ids \<and> set targets = fst ` set voids \<and> pending_ids s' = pending_ids s \<union> set targets
    \<and> sp_tasks s' = sp_tasks s \<and> sp_ledger s' = sp_ledger s \<and> sp_run_id s' = sp_run_id s"
  using assms
proof (induction voids arbitrary: s targets)
  case Nil
  then show ?case by (auto simp: lift_res_def)
next
  case (Cons v voids)
  obtain x reason where v: "v = (x, reason)" by (cases v)
  let ?s = "s\<lparr>sp_pending_voids := bm_insert x reason (sp_pending_voids s),
              sp_cancellations := remove1 x (sp_cancellations s)\<rparr>"
  from Cons.prems(1) obtain ts where x: "x \<in> set (sp_cancellations s)"
    and rest: "begin_voids voids ?s = (s', Inr ts)" and targets: "targets = bs_insert x ts"
    by (auto simp: v Let_def bind_sup_def lift_res_def split: if_splits prod.splits sum.splits)
  have keys: "fst ` set (bm_insert x reason m) = insert x (fst ` set m)" for m :: "(execution_id, execution_void_reason) btree_map"
    by (induction m) auto
  have "handles ?s ids"
    using Cons.prems(2) x by (auto simp: handles_def pending_ids_def keys bs_wf_remove1)
  from Cons.IH[OF rest this] show ?case by (auto simp: v targets pending_ids_def keys)
qed

lemma begin_voids_reasons:
  assumes "begin_voids voids s = (s', Inr targets)" and "distinct (map fst voids)"
  shows "bm_get (sp_pending_voids s') x
    = (case map_of voids x of Some reason \<Rightarrow> Some reason | None \<Rightarrow> bm_get (sp_pending_voids s) x)"
  using assms
proof (induction voids arbitrary: s targets)
  case (Cons v voids)
  obtain y reason where v: "v = (y, reason)" by (cases v)
  let ?s = "s\<lparr>sp_pending_voids := bm_insert y reason (sp_pending_voids s),
              sp_cancellations := remove1 y (sp_cancellations s)\<rparr>"
  from Cons.prems(1) obtain ts where "begin_voids voids ?s = (s', Inr ts)"
    by (auto simp: v Let_def bind_sup_def lift_res_def split: if_splits prod.splits sum.splits)
  from Cons.IH[OF this] Cons.prems(2)
  have "bm_get (sp_pending_voids s') x
      = (case map_of voids x of Some r \<Rightarrow> Some r | None \<Rightarrow> bm_get (bm_insert y reason (sp_pending_voids s)) x)"
    by (cases "map_of voids x") (simp_all add: v)
  moreover have "map_of voids y = None" using Cons.prems(2) by (simp add: v map_of_eq_None_iff)
  ultimately show ?case by (cases "x = y"; cases "map_of voids x") (simp_all add: v)
qed (simp add: lift_res_def)

lemma void_decisions_member: "(x, reason) \<in> set (void_decisions ds) \<longleftrightarrow> VoidLoser x reason \<in> set ds"
proof -
  have "(case d of VoidLoser execution reason \<Rightarrow> Some (execution, reason) | _ \<Rightarrow> None) = Some (x, reason)
      \<longleftrightarrow> d = VoidLoser x reason" for d by (cases d) simp_all
  then show ?thesis by (simp add: void_decisions_def map_filter_set)
qed

text \<open>The voids a decision starts carry the reasons of the reduction.\<close>

lemma begin_voids_decided:
  assumes "begin_voids (void_decisions ds) s = (s', Inr targets)" and "distinct (map fst (void_decisions ds))"
    and "sp_pending_voids s = []"
  shows "bm_get (sp_pending_voids s') x = Some reason \<longleftrightarrow> VoidLoser x reason \<in> set ds"
proof -
  have "bm_get (sp_pending_voids s') x = map_of (void_decisions ds) x"
    using begin_voids_reasons[OF assms(1,2), of x] assms(3) by (cases "map_of (void_decisions ds) x") simp_all
  then show ?thesis using map_of_eq_Some_iff[OF assms(2)] by (simp add: void_decisions_member)
qed

lemma begin_voids_succeeds:
  assumes "distinct (map fst voids)" and "fst ` set voids \<subseteq> set (sp_cancellations s)"
  shows "\<exists>s' targets. begin_voids voids s = (s', Inr targets)"
  using assms
proof (induction voids arbitrary: s)
  case (Cons v voids)
  obtain x reason where v: "v = (x, reason)" by (cases v)
  let ?s = "s\<lparr>sp_pending_voids := bm_insert x reason (sp_pending_voids s),
              sp_cancellations := remove1 x (sp_cancellations s)\<rparr>"
  have "fst ` set voids \<subseteq> set (sp_cancellations ?s)"
    using Cons.prems by (auto simp: v) (metis in_set_remove1 image_eqI fst_conv subsetD)
  with Cons obtain s' ts where "begin_voids voids ?s = (s', Inr ts)" by fastforce
  then show ?case using Cons.prems(2) by (simp add: v Let_def bind_sup_def lift_res_def)
qed (simp add: lift_res_def)

lemma begin_voids_keeps [intro]: "keeps ho (begin_voids voids)"
proof -
  have "sp_ledger (fst (begin_voids voids s)) = sp_ledger s \<and> sp_run_id (fst (begin_voids voids s)) = sp_run_id s" for s
  proof (induction voids arbitrary: s)
    case (Cons v voids)
    obtain x reason where v: "v = (x, reason)" by (cases v)
    let ?s = "s\<lparr>sp_pending_voids := bm_insert x reason (sp_pending_voids s),
              sp_cancellations := remove1 x (sp_cancellations s)\<rparr>"
    show ?case using Cons.IH[of ?s]
      by (cases "begin_voids voids ?s"; cases "snd (begin_voids voids ?s)")
        (simp_all add: v Let_def bind_sup_def lift_res_def)
  qed (simp add: lift_res_def)
  then show ?thesis unfolding keeps_def using current_cong by blast
qed

section \<open>What a reduction of a run decides\<close>

lemma dispatch_decisions_ids:
  "map (\<lambda>d. er_execution (di_reference d)) (dispatch_decisions rid ds) = map dp_execution (dispatches ds)"
  by (induction ds)
    (auto simp: dispatch_decisions_def dispatch_of_def is_dispatch_def map_filter_simps split: decision.splits)

lemma dispatch_decisions_run: "d \<in> set (dispatch_decisions rid ds) \<Longrightarrow> er_run_id (di_reference d) = rid"
proof -
  assume "d \<in> set (dispatch_decisions rid ds)"
  then obtain x where "dispatch_of rid x = Some d" by (auto simp: dispatch_decisions_def map_filter_set)
  then show ?thesis by (cases x) (auto simp: dispatch_of_def)
qed

lemma void_decisions_ids: "map fst (void_decisions ds) = void_ids ds"
  by (induction ds) (auto simp: void_decisions_def is_void_def void_id_def map_filter_simps split: decision.splits)

lemma reduce_run_cases:
  assumes "reduce_run jl admitted snap = Inr red"
  obtains H ni ne where "durable_history snap = Inr H" "next_node_instance H = Inr ni" "next_execution H = Inr ne"
    "reduce jl (cg_root (ad_graph admitted)) NativeV2
       \<lparr>ri_initial_input = ad_initial_input admitted, ri_executions = H,
        ri_next_node_instance = ni, ri_next_execution = ne\<rparr> = Inr red"
  using assms unfolding reduce_run_def map_err_def
  by (elim bind_resE) (auto split: sum.splits)

lemma reduce_run_dispatches:
  assumes "reduce_run jl admitted snap = Inr red" and "nodes_ok n snap" and "seed_ok snap"
  shows "distinct (map (\<lambda>d. er_execution (di_reference d)) (dispatch_decisions rid (rd_decisions red)))"
    and "d \<in> set (dispatch_decisions rid (rd_decisions red)) \<Longrightarrow> unused snap (er_execution (di_reference d))"
proof -
  from assms(1) obtain H ni ne where H: "durable_history snap = Inr H"
    and red: "reduce jl (cg_root (ad_graph admitted)) NativeV2
       \<lparr>ri_initial_input = ad_initial_input admitted, ri_executions = H,
        ri_next_node_instance = ni, ri_next_execution = ne\<rparr> = Inr red"
    by (rule reduce_run_cases)
  note ids = reduce_ids[OF red, simplified]
  have "distinct (map dp_execution (dispatches (rd_decisions red)))" using ids by (metis distinct_upt)
  then show "distinct (map (\<lambda>d. er_execution (di_reference d)) (dispatch_decisions rid (rd_decisions red)))"
    by (simp only: dispatch_decisions_ids)
  assume "d \<in> set (dispatch_decisions rid (rd_decisions red))"
  then have "er_execution (di_reference d) \<in> set (map dp_execution (dispatches (rd_decisions red)))"
    unfolding dispatch_decisions_ids[of rid, symmetric] by simp
  then obtain dd where "dd \<in> set (dispatches (rd_decisions red))" "dp_execution dd = er_execution (di_reference d)"
    by auto
  then have "er_execution (di_reference d) \<notin> de_execution ` set H" using ids by metis
  then show "unused snap (er_execution (di_reference d))"
    unfolding durable_history_members(1)[OF H assms(2,3)] by (simp add: unused_def bm_get_None)
qed

lemma reduce_run_voids:
  assumes "reduce_run jl admitted snap = Inr red" and "nodes_ok n snap" and "seed_ok snap"
  shows "distinct (map fst (void_decisions (rd_decisions red)))"
    and "x \<in> fst ` set (void_decisions (rd_decisions red)) \<Longrightarrow> x \<in> er_execution ` active_refs snap"
proof -
  from assms(1) obtain H ni ne where H: "durable_history snap = Inr H"
    and red: "reduce jl (cg_root (ad_graph admitted)) NativeV2
       \<lparr>ri_initial_input = ad_initial_input admitted, ri_executions = H,
        ri_next_node_instance = ni, ri_next_execution = ne\<rparr> = Inr red"
    by (rule reduce_run_cases)
  note voids = reduce_cancels[OF red, simplified]
  show "distinct (map fst (void_decisions (rd_decisions red)))" unfolding void_decisions_ids using voids by blast
  assume "x \<in> fst ` set (void_decisions (rd_decisions red))"
  then have "x \<in> set (void_ids (rd_decisions red))" by (metis void_decisions_ids set_map)
  then obtain e where e: "e \<in> set H" "de_execution e = x" "de_state e = ExecActive" using voids by blast
  from durable_history_members(2)[OF H assms(2,3) e(1,3)] e(2) obtain node where
    node: "bm_get (sn_executions snap) x = Some node" "nd_state node = NodeActive" by auto
  then have "node_ok n (sn_run_id snap) x node" using nodes_okD(1)[OF assms(2)] by blast
  then have "node_at snap (nd_reference node) node" "er_execution (nd_reference node) = x"
    using node by (auto simp: node_ok_def node_at_def)
  then show "x \<in> er_execution ` active_refs snap" by (auto simp: active_refs_def intro!: rev_image_eqI)
qed

section \<open>Dispatch\<close>

lemma start_dispatches_ok:
  assumes "start_dispatches program ds s = (s', Inr ())"
  shows "map pn_reference (sp_tasks s') = map pn_reference (sp_tasks s) @ map di_reference ds
    \<and> set (sp_cancellations s') = set (sp_cancellations s) \<union> (\<lambda>d. er_execution (di_reference d)) ` set ds
    \<and> (bs_wf (sp_cancellations s) \<longrightarrow> bs_wf (sp_cancellations s'))
    \<and> sp_pending_voids s' = sp_pending_voids s \<and> sp_ledger s' = sp_ledger s \<and> sp_run_id s' = sp_run_id s"
  using assms
proof (induction ds arbitrary: s)
  case Nil
  then show ?case by (auto simp: lift_res_def)
next
  case (Cons d ds)
  from Cons.prems obtain s1 where s1: "start_dispatch program d s = (s1, Inr ())"
    and rest: "start_dispatches program ds s1 = (s', Inr ())"
    by (auto simp: bind_sup_def split: prod.splits sum.splits)
  from s1 have "map pn_reference (sp_tasks s1) = map pn_reference (sp_tasks s) @ [di_reference d]
    \<and> sp_cancellations s1 = bs_insert (er_execution (di_reference d)) (sp_cancellations s)
    \<and> sp_pending_voids s1 = sp_pending_voids s \<and> sp_ledger s1 = sp_ledger s \<and> sp_run_id s1 = sp_run_id s"
    by (auto simp: start_dispatch_def Let_def split: option.splits)
  with Cons.IH[OF rest] show ?case by (auto simp: insert_commute)
qed

lemma start_dispatches_keeps [intro]: "keeps ho (start_dispatches program ds)"
proof (induction ds)
  case (Cons d ds)
  have "keeps ho (start_dispatch program d)"
    unfolding keeps_def start_dispatch_def
    by (auto simp: Let_def current_def split: option.splits)
  then show ?case using Cons by auto
qed simp

lemma batch_active_dispatches: "batch_active (map dispatch_event ds) refs = refs \<union> di_reference ` set ds"
  by (induction ds arbitrary: refs) (auto simp: batch_active_def dispatch_event_def event_active_def)

section \<open>Shapes of settlement batches\<close>

lemma error_log_observation: "error_log ck ex m k = Inr ev \<Longrightarrow> is_observation ev"
  by (auto simp: error_log_def is_observation_def elim!: bind_resE)

lemma node_failure_log_observation: "node_failure_log ck r out el cause = Inr (Some ev) \<Longrightarrow> is_observation ev"
  by (cases out) (auto simp: node_failure_log_def Let_def elim!: bind_resE dest: error_log_observation)

lemma failure_log_observation: "failure_log ck fin = Inr (Some ev) \<Longrightarrow> is_observation ev"
  by (auto simp: failure_log_def Let_def split: dispatch_result.splits sum.splits if_splits
      dest: node_failure_log_observation)

text \<open>A batch that observes and then ends the execution of one reference.\<close>

definition ends_with :: "execution_ref \<Rightarrow> run_event list \<Rightarrow> bool" where
  "ends_with r evs \<longleftrightarrow>
     (\<exists>obs e. evs = obs @ [e] \<and> (\<forall>ev \<in> set obs. is_observation ev)
        \<and> ((\<exists>out. e = NodeCompleted \<lparr>nc_reference = r, nc_outcome = out\<rparr>) \<or> (\<exists>reason. e = ExecutionVoided r reason)))"

lemma clear_diagnostic_shape:
  "is_observation (clear_diagnostic ev) = is_observation ev"
  "\<not> is_observation ev \<Longrightarrow> clear_diagnostic ev = ev"
  by (cases ev; simp add: clear_diagnostic_def is_observation_def)+

lemma ends_with_map:
  assumes "ends_with r evs"
    and "\<And>ev. is_observation (f ev) = is_observation ev" "\<And>ev. \<not> is_observation ev \<Longrightarrow> f ev = ev"
  shows "ends_with r (map f evs)"
proof -
  from assms(1) obtain obs e where evs: "evs = obs @ [e]" "\<forall>ev \<in> set obs. is_observation ev"
    and e: "(\<exists>out. e = NodeCompleted \<lparr>nc_reference = r, nc_outcome = out\<rparr>) \<or> (\<exists>reason. e = ExecutionVoided r reason)"
    unfolding ends_with_def by blast
  from e have "f e = e" by (intro assms(3)) (auto simp: is_observation_def)
  then show ?thesis using evs e assms(2) unfolding ends_with_def by (intro exI[of _ "map f obs"] exI[of _ e]) auto
qed

lemma ends_with_prepend:
  assumes "ends_with r evs" and "\<forall>ev \<in> set obs. is_observation ev"
  shows "ends_with r (obs @ evs)"
proof -
  from assms(1) obtain obs' e where evs: "evs = obs' @ [e]" "\<forall>ev \<in> set obs'. is_observation ev"
    and e: "(\<exists>out. e = NodeCompleted \<lparr>nc_reference = r, nc_outcome = out\<rparr>) \<or> (\<exists>reason. e = ExecutionVoided r reason)"
    unfolding ends_with_def by blast
  then show ?thesis using assms(2) unfolding ends_with_def
    by (intro exI[of _ "obs @ obs'"] exI[of _ e] conjI e) auto
qed

lemma ends_with_single:
  "ends_with (nc_reference c) [NodeCompleted c]" "ends_with r [ExecutionVoided r reason]"
  by (cases c; auto simp: ends_with_def)+

lemma log_completion_events_ends:
  assumes "log_completion_events ck c el cause = Inr evs"
  shows "ends_with (nc_reference c) evs"
proof -
  from assms obtain lg where lg: "node_failure_log ck (nc_reference c) (nc_outcome c) el cause = Inr lg"
    and evs: "evs = (case lg of None \<Rightarrow> [] | Some event \<Rightarrow> [event]) @ [NodeCompleted c]"
    by (auto simp: log_completion_events_def elim!: bind_resE)
  show ?thesis unfolding evs
    by (rule ends_with_prepend[OF ends_with_single(1)])
      (use lg node_failure_log_observation in \<open>auto split: option.splits\<close>)
qed

lemma option_list_observation: "failure_log ck fin = Inr lg \<Longrightarrow> \<forall>ev \<in> set (option_list lg). is_observation ev"
  by (cases lg) (auto simp: option_list_def dest: failure_log_observation)

lemma finished_completion_ends:
  assumes "finished_completion_events ck fin force = Inr evs"
  shows "ends_with (fin_reference fin) evs"
proof -
  from assms obtain lg out evs0 where lg: "(if force then map_err SupLedger (failure_log ck fin) else Inr None) = Inr lg"
    and evs0: "map_err SupLedger (log_completion_events ck
                 \<lparr>nc_reference = fin_reference fin, nc_outcome = out\<rparr> (Some (fin_elapsed fin))
                 (settled_failure_cause (fin_result fin) force)) = Inr evs0"
    and evs: "evs = option_list lg @
       (if force \<or> synthetic_result (fin_result fin) then clear_diagnostics evs0 else evs0)"
    by (auto simp: finished_completion_events_def elim!: bind_resE)
  have obs: "\<forall>ev \<in> set (option_list lg). is_observation ev"
    using lg option_list_observation[of ck fin lg]
    by (auto simp: map_err_def option_list_def split: if_splits sum.splits)
  have e0: "ends_with (fin_reference fin) evs0"
    using evs0 log_completion_events_ends[of ck "\<lparr>nc_reference = fin_reference fin, nc_outcome = out\<rparr>"]
    by (auto simp: map_err_def split: sum.splits)
  then have "ends_with (fin_reference fin) (clear_diagnostics evs0)"
    unfolding clear_diagnostics_def by (rule ends_with_map) (simp_all add: clear_diagnostic_shape)
  with e0 obs show ?thesis unfolding evs by (auto intro: ends_with_prepend)
qed

lemma settle_events_ends:
  assumes "settle_events ho snap force fin pending = Inr evs"
  shows "ends_with (fin_reference fin) evs"
proof -
  from assms obtain evs0 where evs0: "(case pending of
         Some reason \<Rightarrow>
           bind_res (map_err SupLedger (failure_log (ho_clock ho) fin)) (\<lambda>log.
           Inr (option_list log @ [ExecutionVoided (fin_reference fin) reason]))
       | None \<Rightarrow> finished_completion_events (ho_clock ho) fin (force \<or> sn_force_stop_requested snap)) = Inr evs0"
    and evs: "evs = clear_recorded_diagnostics evs0 snap (has_failure_detail (fin_result fin))"
    by (auto simp: settle_events_def elim!: bind_resE)
  have "ends_with (fin_reference fin) evs0"
  proof (cases pending)
    case (Some reason)
    with evs0 obtain lg where lg: "failure_log (ho_clock ho) fin = Inr lg"
      and e: "evs0 = option_list lg @ [ExecutionVoided (fin_reference fin) reason]"
      by (auto simp: map_err_def elim!: bind_resE split: sum.splits)
    show ?thesis unfolding e by (rule ends_with_prepend[OF ends_with_single(2) option_list_observation[OF lg]])
  qed (use evs0 finished_completion_ends in auto)
  then show ?thesis
    unfolding evs clear_recorded_diagnostics_def
    by (auto intro!: ends_with_map simp: clear_diagnostic_shape is_observation_def clear_diagnostic_def
        split: run_event.splits option.splits)
qed

lemma ends_with_active:
  assumes "ends_with r evs"
  shows "batch_active evs refs = refs - {r}" and "\<forall>ev \<in> set evs. \<not> is_closing ev"
proof -
  from assms obtain obs e where evs: "evs = obs @ [e]" "\<forall>ev \<in> set obs. is_observation ev"
    and e: "(\<exists>out. e = NodeCompleted \<lparr>nc_reference = r, nc_outcome = out\<rparr>) \<or> (\<exists>reason. e = ExecutionVoided r reason)"
    unfolding ends_with_def by blast
  have obs: "event_active ev A = A \<and> \<not> is_closing ev" if "is_observation ev" for ev A
    using that by (cases ev) (simp_all add: event_active_def is_observation_def is_closing_def)
  have "fold event_active obs refs = refs"
    using evs(2) by (induction obs arbitrary: refs) (simp_all add: obs)
  moreover have "event_active e refs = refs - {r}" using e by (elim disjE exE) (simp_all add: event_active_def)
  ultimately show "batch_active evs refs = refs - {r}" by (simp add: evs(1) batch_active_def)
  have "\<not> is_closing e" using e by (auto simp: is_closing_def)
  then show "\<forall>ev \<in> set evs. \<not> is_closing ev" using evs obs by auto
qed

section \<open>The invariant\<close>

definition owns :: "host \<Rightarrow> supervisor \<Rightarrow> run_snapshot \<Rightarrow> bool" where
  "owns ho s snap \<longleftrightarrow>
     current ho s snap \<and> open_run snap \<and> tracks s (active_refs snap)
     \<and> handles s (er_execution ` active_refs snap)"

definition owns_but :: "host \<Rightarrow> supervisor \<Rightarrow> run_snapshot \<Rightarrow> finished_dispatch \<Rightarrow> bool" where
  "owns_but ho s snap fin \<longleftrightarrow>
     current ho s snap \<and> open_run snap
     \<and> fin_reference fin \<in> active_refs snap \<and> fin_execution fin = er_execution (fin_reference fin)
     \<and> tracks s (active_refs snap - {fin_reference fin})
     \<and> bs_wf (sp_cancellations s) \<and> bm_wf (sp_pending_voids s)
     \<and> set (sp_cancellations s) \<inter> pending_ids s = {} \<and> fin_execution fin \<notin> set (sp_cancellations s)
     \<and> set (sp_cancellations s) \<union> (pending_ids s - {fin_execution fin})
         = er_execution ` (active_refs snap - {fin_reference fin})"

fun drive_ok :: "host \<Rightarrow> supervisor \<Rightarrow> drive_phase \<Rightarrow> bool" where
  "drive_ok ho s Turn \<longleftrightarrow> (\<exists>snap. owns ho s snap) \<and> sp_pending_voids s = []"
| "drive_ok ho s Waiting \<longleftrightarrow> (\<exists>snap. owns ho s snap) \<and> sp_pending_voids s = []"
| "drive_ok ho s (Deciding old) \<longleftrightarrow>
     (\<exists>snap. owns ho s snap \<and> same_core old snap) \<and> (\<exists>n. run_ok n old) \<and> open_run old
     \<and> sp_pending_voids s = []"
| "drive_ok ho s (Voiding targets) \<longleftrightarrow> (\<exists>snap. owns ho s snap) \<and> pending_ids s \<subseteq> set targets"
| "drive_ok ho s (Settling fin old phase) \<longleftrightarrow>
     (\<exists>snap. owns_but ho s snap fin)
     \<and> (phase = Waiting \<and> sp_pending_voids s = []
        \<or> (\<exists>targets. phase = Voiding targets \<and> pending_ids s \<subseteq> set targets))"
| "drive_ok ho s Forcing \<longleftrightarrow>
     (\<exists>snap. current ho s snap \<and> distinct (map pn_reference (sp_tasks s))
        \<and> pn_reference ` set (sp_tasks s) \<subseteq> active_refs snap)"
| "drive_ok ho s Losing \<longleftrightarrow>
     (\<exists>snap. current ho s snap \<and> distinct (map pn_reference (sp_tasks s))
        \<and> pn_reference ` set (sp_tasks s) \<subseteq> active_refs snap)"
| "drive_ok ho s (Finishing terminal) \<longleftrightarrow>
     (\<exists>snap. current ho s snap \<and> active_refs snap = {}) \<and> sp_tasks s = []"
| "drive_ok ho s (Ended terminal) \<longleftrightarrow> (\<exists>snap. current ho s snap \<and> sn_terminal snap = Some terminal)"
| "drive_ok ho s (Broken e) \<longleftrightarrow> (\<exists>snap. current ho s snap)"

lemma ownsD:
  assumes "owns ho s snap"
  shows "current ho s snap" "open_run snap" "tracks s (active_refs snap)" "handles s (er_execution ` active_refs snap)"
  using assms by (simp_all add: owns_def)

lemma owns_cong:
  "current ho t snap' \<Longrightarrow> open_run snap' \<Longrightarrow> active_refs snap' = active_refs snap \<Longrightarrow> same_tasks s t \<Longrightarrow>
   owns ho s snap \<Longrightarrow> owns ho t snap'"
  by (simp add: owns_def same_tasks_def tracks_def handles_def pending_ids_def)

lemma turn_kept:
  assumes "turn s = (s', Inr phase)" and "drive_ok ho s Turn"
  shows "drive_ok ho s' phase"
proof -
  from assms(2) obtain snap where o: "owns ho s snap" and p: "sp_pending_voids s = []" by auto
  have "s' = s \<and> phase = (if sp_runtime_lost s then Losing
      else if sp_force_requested s \<or> sn_force_stop_requested snap then Forcing else Deciding snap)"
    using assms(1) ownsD(2)[OF o]
    by (auto simp: turn_def bind_sup_def sup_snapshot_current[OF ownsD(1)[OF o]] open_run_def)
  moreover from ownsD(1)[OF o] obtain n where "run_ok n snap" by (rule currentD)
  ultimately show ?thesis using o p by (auto simp: owns_def tracks_def)
qed

lemma dispatch_all_cases:
  assumes "dispatch_all ho program ds s = (s', Inr b)" and "current ho s snap"
  obtains "s' = s" | s1 snap1 where "append_events ho (map dispatch_event ds) s = (s1, Inr snap1)"
    "start_dispatches program ds s1 = (s', Inr ())"
proof (cases "sp_force_requested s")
  case False
  show ?thesis
  proof (cases "append_events ho (map dispatch_event ds) s")
    case (Pair s1 r)
    show ?thesis
    proof (cases r)
      case (Inl e)
      then have "s1 = s" using append_events_err Pair by blast
      then show ?thesis using assms False Pair Inl that(1)
        by (auto simp: dispatch_all_def record_dispatches_def bind_sup_def lift_res_def
            sup_snapshot_current split: if_splits)
    next
      case (Inr snap1)
      then show ?thesis using assms False Pair that(2)[of s1 snap1]
        by (auto simp: dispatch_all_def record_dispatches_def bind_sup_def lift_res_def
            split: prod.splits sum.splits)
    qed
  qed
qed (use assms that in \<open>simp add: dispatch_all_def\<close>)

lemma dispatch_kept:
  assumes "owns ho s snap" and "append_events ho (map dispatch_event ds) s = (s1, Inr snap1)"
    and "start_dispatches program ds s1 = (s', Inr ())"
    and "distinct (map (\<lambda>d. er_execution (di_reference d)) ds)" and "\<forall>d \<in> set ds. unused snap (er_execution (di_reference d))"
    and "sp_pending_voids s = []"
  shows "owns ho s' snap1 \<and> sp_pending_voids s' = []"
proof -
  note o = ownsD[OF assms(1)]
  note a = append_events_ok[OF assms(2) o(1)] and d = start_dispatches_ok[OF assms(3)]
  have refs: "active_refs snap1 = active_refs snap \<union> di_reference ` set ds"
    using a(3) by (simp add: batch_active_dispatches)
  have new: "er_execution (di_reference d) \<notin> er_execution ` active_refs snap" if "d \<in> set ds" for d
    using assms(5) that by (auto simp: unused_def active_refs_def node_at_def)
  have "current ho s' snap1" using a(2) d current_cong[of s' s1] by simp
  moreover have "open_run snap1"
    using a(5) o(2) by (simp add: dispatch_event_def is_closing_def)
  moreover have "tracks s' (active_refs snap1)"
  proof -
    have "distinct (map di_reference ds)" using assms(4) by (auto simp: distinct_map inj_on_def)
    moreover have "di_reference ` set ds \<inter> active_refs snap = {}" using new by blast
    moreover have tasks: "map pn_reference (sp_tasks s') = map pn_reference (sp_tasks s) @ map di_reference ds"
      using d a(1) by (simp add: same_tasks_def)
    moreover have "pn_reference ` set (sp_tasks s') = active_refs snap \<union> di_reference ` set ds"
      using arg_cong[OF tasks, of set] o(3) by (simp add: tracks_def)
    ultimately show ?thesis using o(3) by (auto simp: tracks_def refs)
  qed
  moreover have "handles s' (er_execution ` active_refs snap1)"
  proof -
    have "pending_ids s' = {}" "sp_pending_voids s' = []" "set (sp_cancellations s) = er_execution ` active_refs snap"
      using d a(1) assms(6) o(4) by (auto simp: same_tasks_def pending_ids_def handles_def)
    then show ?thesis
      using d a(1) o(4) by (auto simp: handles_def same_tasks_def refs image_Un image_image)
  qed
  ultimately show ?thesis using d a(1) assms(6) by (simp add: owns_def same_tasks_def)
qed

lemma same_core_unused: "same_core s t \<Longrightarrow> unused s x = unused t x"
  unfolding same_core_def unused_def by (metis map_option_is_None)

lemma advance_cases:
  assumes "advance ho program old s = (s', r)"
  obtains (failed) e where "s' = s" "r = Inl e"
    | (voids) red voids where "reduce_run (ho_json_len ho) (pm_admitted program) old = Inr red"
        "voids = void_decisions (rd_decisions red)" "voids \<noteq> []"
        "bind_sup (begin_voids voids) (\<lambda>targets. lift_res (Inr (Voiding targets))) s = (s', r)"
    | (ended) red terminal where "s' = s" "r = Inr (Finishing terminal)" "is_quiescent s old"
        "reduce_run (ho_json_len ho) (pm_admitted program) old = Inr red" "rd_terminal red = Some terminal"
    | (dispatched) red ds where "reduce_run (ho_json_len ho) (pm_admitted program) old = Inr red"
        "void_decisions (rd_decisions red) = []" "rd_terminal red = None"
        "ds = dispatch_decisions (sp_run_id s) (rd_decisions red)" "ds \<noteq> []"
        "bind_sup (dispatch_all ho program ds) (\<lambda>_. lift_res (Inr Turn)) s = (s', r)"
    | (idle) red where "s' = s" "r = Inr Waiting"
        "reduce_run (ho_json_len ho) (pm_admitted program) old = Inr red"
        "void_decisions (rd_decisions red) = []" "rd_terminal red = None"
        "dispatch_decisions (sp_run_id s) (rd_decisions red) = []"
proof (cases "reduce_run (ho_json_len ho) (pm_admitted program) old")
  case (Inl e)
  then show ?thesis using assms failed by (auto simp: advance_def bind_sup_def lift_res_def)
next
  case (Inr red)
  then have a: "(let voids = void_decisions (rd_decisions red)
     in if voids \<noteq> [] then bind_sup (begin_voids voids) (\<lambda>targets. lift_res (Inr (Voiding targets)))
        else
          case rd_terminal red of
            Some terminal \<Rightarrow> (\<lambda>s.
              if \<not> is_quiescent s old then (s, Inl SupInvalidState) else (s, Inr (Finishing terminal)))
          | None \<Rightarrow> (\<lambda>s.
              let dispatches = dispatch_decisions (sp_run_id s) (rd_decisions red)
              in if dispatches \<noteq> []
                 then bind_sup (dispatch_all ho program dispatches) (\<lambda>_. lift_res (Inr Turn)) s
                 else (s, Inr Waiting))) s = (s', r)"
    using assms by (simp add: advance_def bind_sup_def[of "lift_res (Inr red)" for red] lift_res_def)
  show ?thesis
  proof (cases "void_decisions (rd_decisions red) = []")
    case v: True
    show ?thesis
    proof (cases "rd_terminal red")
      case None
      then show ?thesis using a v Inr dispatched idle by (auto simp: Let_def split: if_splits)
    next
      case (Some terminal)
      then show ?thesis using a v Inr ended failed by (auto split: if_splits)
    qed
  qed (use a Inr voids in \<open>simp add: Let_def\<close>)
qed

lemma advance_kept:
  assumes "advance ho program old s = (s', Inr phase)" and "drive_ok ho s (Deciding old)"
  shows "drive_ok ho s' phase"
proof -
  from assms(2) obtain snap n where o: "owns ho s snap" and core: "same_core old snap"
    and old: "nodes_ok n old" "seed_ok old" and p: "sp_pending_voids s = []" by (auto simp: run_ok_def)
  show ?thesis using assms(1)
  proof (cases rule: advance_cases)
    case (voids red vs)
    then obtain targets where b: "begin_voids vs s = (s', Inr targets)" and ph: "phase = Voiding targets"
      by (auto simp: bind_sup_def lift_res_def split: prod.splits sum.splits)
    note bv = begin_voids_ok[OF b ownsD(4)[OF o]]
    have "current ho s' snap" using ownsD(1)[OF o] bv current_cong[of s' s] by simp
    moreover have "pending_ids s = {}" using p by (simp add: pending_ids_def)
    ultimately show ?thesis using bv ownsD[OF o] ph by (auto simp: owns_def tracks_def)
  next
    case (ended red terminal)
    then have "active_refs snap = {}" "sp_tasks s = []"
      using ownsD(3)[OF o] by (auto simp: is_quiescent_def tracks_def)
    then show ?thesis using ended ownsD(1)[OF o] by auto
  next
    case (dispatched red ds)
    then obtain b where d: "dispatch_all ho program ds s = (s', Inr b)" and ph: "phase = Turn"
      by (auto simp: bind_sup_def lift_res_def split: prod.splits sum.splits)
    show ?thesis using d ownsD(1)[OF o]
    proof (cases rule: dispatch_all_cases)
      case 1
      then show ?thesis using o p ph by auto
    next
      case (2 s1 snap1)
      note r = reduce_run_dispatches[where rid = "sp_run_id s", OF dispatched(1) old]
      have "\<forall>d \<in> set ds. unused snap (er_execution (di_reference d))"
        using r(2) dispatched(4) same_core_unused[OF core] by simp
      from dispatch_kept[OF o 2 _ this p] r(1) dispatched(4) show ?thesis by (auto simp: ph)
    qed
  qed (use o p in auto)
qed

lemma advance_keeps: "keeps ho (advance ho program old)"
proof -
  have disp: "keeps ho (dispatch_all ho program ds)" for ds
  proof -
    have rec: "keeps ho (record_dispatches ho ds)"
      unfolding keeps_def
    proof (intro allI impI)
      fix s snap assume c: "current ho s snap"
      obtain s1 r where a: "append_events ho (map dispatch_event ds) s = (s1, r)" by force
      from keepsD[OF keeps_append a c] obtain snap1 where "current ho s1 snap1" by blast
      then show "\<exists>snap'. current ho (fst (record_dispatches ho ds s)) snap'"
        by (cases r) (auto simp: record_dispatches_def a sup_snapshot_current)
    qed
    have "keeps ho (bind_sup (record_dispatches ho ds) (\<lambda>recorded.
             if \<not> recorded then lift_res (Inr False)
             else bind_sup (start_dispatches program ds) (\<lambda>_. lift_res (Inr True))))"
      by (rule keeps_bind[OF rec]) auto
    then show ?thesis unfolding keeps_def dispatch_all_def by auto
  qed
  show ?thesis unfolding keeps_def
  proof (intro allI impI)
    fix s snap assume c: "current ho s snap"
    obtain s' r where a: "advance ho program old s = (s', r)" by force
    then have "\<exists>snap'. current ho s' snap'"
    proof (cases rule: advance_cases)
      case (voids red vs)
      have "keeps ho (bind_sup (begin_voids vs) (\<lambda>targets. lift_res (Inr (Voiding targets))))" by auto
      from keepsD[OF this voids(4) c] show ?thesis .
    next
      case (dispatched red ds)
      have "keeps ho (bind_sup (dispatch_all ho program ds) (\<lambda>_. lift_res (Inr Turn)))" using disp by auto
      from keepsD[OF this dispatched(6) c] show ?thesis .
    qed (use c in auto)
    then show "\<exists>snap'. current ho (fst (advance ho program old s)) snap'" by (simp add: a)
  qed
qed

lemma begin_settle_ok:
  assumes "begin_settle ho fin s = (s', Inr snap')" and "current ho s snap"
  shows "s' = s \<and> snap' = snap"
  using assms
  by (auto simp: begin_settle_def require_finished_cleanup_def bind_sup_def sup_snapshot_current
      split: if_splits)

lemma begin_settle_keeps: "keeps ho (begin_settle ho fin)"
proof -
  have "keeps ho (require_finished_cleanup ho fin)"
    unfolding keeps_def require_finished_cleanup_def
    using record_failure_logs_keeps by (auto split: sum.splits option.splits)
  then show ?thesis by (auto simp: begin_settle_def)
qed

lemma remove1_refs:
  assumes "distinct (map pn_reference ts)" and "t \<in> set ts"
  shows "distinct (map pn_reference (remove1 t ts))"
    and "pn_reference ` set (remove1 t ts) = pn_reference ` set ts - {pn_reference t}"
proof -
  have d: "distinct ts" using assms(1) by (simp add: distinct_map)
  then show "distinct (map pn_reference (remove1 t ts))"
    using assms(1) by (auto simp: distinct_map intro: inj_on_subset)
  have "inj_on pn_reference (set ts)" using assms(1) by (simp add: distinct_map)
  then show "pn_reference ` set (remove1 t ts) = pn_reference ` set ts - {pn_reference t}"
    using assms(2) d by (auto simp: inj_on_def)
qed

lemma finish_task_kept:
  assumes "owns ho s snap" and "t \<in> set (sp_tasks s)" and "finishes t fin"
  shows "owns_but ho (finish_task t s) snap fin"
proof -
  note o = ownsD[OF assms(1)]
  let ?r = "pn_reference t"
  have fin: "fin_reference fin = ?r" "fin_execution fin = er_execution ?r"
    using assms(3) by (simp_all add: finishes_def)
  have r: "?r \<in> active_refs snap" using o(3) assms(2) by (auto simp: tracks_def)
  have cur: "current ho (finish_task t s) snap"
    using o(1) current_cong[of "finish_task t s" s] by (simp add: finish_task_def)
  have tr: "tracks (finish_task t s) (active_refs snap - {?r})"
    using o(3) remove1_refs[OF _ assms(2)] by (simp add: tracks_def finish_task_def)
  have ids: "er_execution ` (active_refs snap - {?r}) = er_execution ` active_refs snap - {er_execution ?r}"
    using r active_refs_inj by blast
  have c: "set (sp_cancellations (finish_task t s)) = set (sp_cancellations s) - {er_execution ?r}"
    "bs_wf (sp_cancellations s) \<Longrightarrow> bs_wf (sp_cancellations (finish_task t s))"
    "sp_pending_voids (finish_task t s) = sp_pending_voids s" "pending_ids (finish_task t s) = pending_ids s"
    by (auto simp: finish_task_def bs_wf_filter pending_ids_def)
  show ?thesis
    using o(2,4) cur tr r unfolding owns_but_def handles_def fin c ids
    by (intro conjI) (auto intro: c(2))
qed

lemma await_kept:
  assumes "awaits s phase" and "t \<in> set (sp_tasks s)" and "finishes t fin" and "drive_ok ho s phase"
    and "begin_settle ho fin (finish_task t s) = (s', Inr snap')"
  shows "drive_ok ho s' (Settling fin snap' phase)"
proof -
  have ph: "phase = Waiting \<or> (\<exists>targets. phase = Voiding targets)"
    using assms(1) by (auto simp: awaits_def split: drive_phase.splits)
  with assms(4) obtain snap where o: "owns ho s snap" by auto
  from finish_task_kept[OF o assms(2,3)] have b: "owns_but ho (finish_task t s) snap fin" .
  then have "s' = finish_task t s"
    using begin_settle_ok[OF assms(5)] by (auto simp: owns_but_def)
  moreover have "sp_pending_voids (finish_task t s) = sp_pending_voids s" by (simp add: finish_task_def)
  ultimately show ?thesis using b ph assms(4) by (auto simp: pending_ids_def)
qed

lemma settle_kept:
  assumes "settle ho old fin s = (s', Inr ())" and "drive_ok ho s (Settling fin old phase)"
  shows "drive_ok ho s' (resumed phase)"
proof -
  from assms(2) obtain snap where b: "owns_but ho s snap fin"
    and ph: "phase = Waiting \<and> sp_pending_voids s = []
        \<or> (\<exists>targets. phase = Voiding targets \<and> pending_ids s \<subseteq> set targets)" by auto
  let ?x = "fin_execution fin"
  define s1 where "s1 = s\<lparr>sp_pending_voids := bm_retain (\<lambda>x _. x \<noteq> ?x) (sp_pending_voids s)\<rparr>"
  from assms(1) obtain evs snap' where
    evs: "settle_events ho old (sp_force_requested s) fin (bm_get (sp_pending_voids s) ?x) = Inr evs"
    and ap: "append_events ho evs s1 = (s', Inr snap')"
    by (auto simp: settle_def Let_def s1_def bind_sup_def lift_res_def split: prod.splits sum.splits)
  have c: "current ho s1 snap" using b current_cong[of s1 s] by (simp add: owns_but_def s1_def)
  note a = append_events_ok[OF ap c]
  note e = ends_with_active[OF settle_events_ends[OF evs]]
  have refs: "active_refs snap' = active_refs snap - {fin_reference fin}" using a(3) e(1) by simp
  have op: "open_run snap'" using a(5) e(2) b by (simp add: owns_but_def)
  have pend: "pending_ids s1 = pending_ids s - {?x}"
    by (auto simp: s1_def pending_ids_def bm_retain_def)
  have tasks: "sp_tasks s' = sp_tasks s" "sp_cancellations s' = sp_cancellations s"
      "sp_pending_voids s' = bm_retain (\<lambda>x _. x \<noteq> ?x) (sp_pending_voids s)"
    using a(1) by (simp_all add: same_tasks_def s1_def)
  have pend': "pending_ids s' = pending_ids s - {?x}"
    using a(1) pend by (simp add: same_tasks_def pending_ids_def)
  have "tracks s' (active_refs snap')" using b by (simp add: owns_but_def tracks_def tasks refs)
  moreover have "handles s' (er_execution ` active_refs snap')"
    using b unfolding owns_but_def handles_def pend' tasks refs by (intro conjI bm_wf_retain) blast+
  ultimately have "owns ho s' snap'" using a(2) op by (simp add: owns_def)
  moreover note pend'
  moreover have "sp_pending_voids s' = []" if "sp_pending_voids s = []"
    using a(1) that by (simp add: same_tasks_def s1_def bm_retain_def)
  ultimately show ?thesis using ph by (auto simp: resumed_def)
qed

lemma settle_keeps: "keeps ho (settle ho old fin)"
proof -
  have k: "keeps ho (bind_sup (lift_res r) (\<lambda>events. bind_sup (append_events ho events) (\<lambda>_. lift_res (Inr ()))))"
    for r by auto
  show ?thesis unfolding keeps_def settle_def Let_def
  proof (intro allI impI)
    fix s :: supervisor and snap
    let ?s = "s\<lparr>sp_pending_voids := bm_retain (\<lambda>x _. x \<noteq> fin_execution fin) (sp_pending_voids s)\<rparr>"
    assume "current ho s snap"
    then have "current ho ?s snap" using current_cong[of ?s s] by simp
    with k show "\<exists>snap'. current ho (fst (bind_sup (lift_res (settle_events ho old (sp_force_requested ?s) fin
        (bm_get (sp_pending_voids s) (fin_execution fin))))
        (\<lambda>events. bind_sup (append_events ho events) (\<lambda>_. lift_res (Inr ()))) ?s)) snap'"
      unfolding keeps_def by blast
  qed
qed

section \<open>Stopping and observation\<close>

lemma drain_keeps: "keeps ho (drain_terminalizing_tasks ho logs drained)"
proof (induction drained arbitrary: logs)
  case (Cons fin rest)
  have "keeps ho (\<lambda>s. let logs = logs @ option_list lg
       in case terminal_drain_result (fin_result fin) of
            Inl error \<Rightarrow> (record_failure_logs ho logs s, Inl error)
          | Inr _ \<Rightarrow> drain_terminalizing_tasks ho logs rest s)" for lg
    using Cons record_failure_logs_keeps unfolding keeps_def Let_def by (auto split: sum.splits)
  then show ?case by auto
qed simp

lemma stop_run_ok:
  assumes "stop_run ho reason code logs s = (s', Inr terminal)" and "current ho s snap"
  shows "\<exists>snap'. current ho s' snap' \<and> sn_terminal snap' = Some terminal"
proof (cases "sn_terminal snap")
  case None
  from assms None obtain evs snap' where ap: "append_events ho (logs @ evs) s = (s', Inr snap')"
    and t: "ok_or SupInvalidState (sn_terminal snap') = Inr terminal"
    by (auto simp: stop_run_def append_terminal_failure_def bind_sup_def lift_res_def sup_snapshot_current
        split: prod.splits sum.splits)
  then show ?thesis using append_events_ok(2)[OF ap assms(2)] by (auto simp: ok_or_eq_Inr)
next
  case (Some t)
  then show ?thesis using assms by (auto simp: stop_run_def bind_sup_def lift_res_def sup_snapshot_current)
qed

lemma stop_run_keeps: "keeps ho (stop_run ho reason code logs)"
  unfolding keeps_def
proof (intro allI impI)
  fix s snap assume c: "current ho s snap"
  let ?m = "bind_sup sup_snapshot (\<lambda>snapshot.
             case sn_terminal snapshot of
               Some terminal \<Rightarrow> lift_res (Inr terminal)
             | None \<Rightarrow> append_terminal_failure ho logs snapshot reason code)"
  have "keeps ho (append_terminal_failure ho logs snapshot reason code)" for snapshot
    unfolding append_terminal_failure_def by auto
  then have "keeps ho ?m" by (intro keeps_bind) (auto split: option.splits)
  moreover obtain s1 r where m: "?m s = (s1, r)" by force
  ultimately obtain snap1 where "current ho s1 snap1" using keepsD c by blast
  then show "\<exists>snap'. current ho (fst (stop_run ho reason code logs s)) snap'"
    using record_failure_logs_keeps by (cases r) (auto simp: stop_run_def m)
qed

lemma terminalize_ok:
  assumes "bind_sup (drain_terminalizing_tasks ho [] drained) (stop_run ho reason code) s = (s', Inr terminal)"
    and "current ho s snap"
  shows "\<exists>snap'. current ho s' snap' \<and> sn_terminal snap' = Some terminal"
proof -
  from assms(1) obtain s1 logs where d: "drain_terminalizing_tasks ho [] drained s = (s1, Inr logs)"
    and st: "stop_run ho reason code logs s1 = (s', Inr terminal)"
    by (auto simp: bind_sup_def split: prod.splits sum.splits)
  from keepsD[OF drain_keeps d assms(2)] obtain snap1 where "current ho s1 snap1" by blast
  from stop_run_ok[OF st this] show ?thesis .
qed

lemma terminalize_keeps:
  "keeps ho (bind_sup (drain_terminalizing_tasks ho [] drained) (stop_run ho reason code))"
  by (intro keeps_bind drain_keeps stop_run_keeps)

lemma observation_not_closing: "is_observation ev \<Longrightarrow> \<not> is_closing ev"
  by (cases ev) (simp_all add: is_observation_def is_closing_def)

lemma observation_kept:
  assumes "append_events ho evs s = (s', Inr snap')" and "\<forall>ev \<in> set evs. is_observation ev"
    and "drive_ok ho s phase"
  shows "drive_ok ho s' phase"
proof -
  obtain snap where c: "current ho s snap"
    using assms(3) by (cases phase) (auto simp: owns_def owns_but_def)
  note a = append_events_ok[OF assms(1) c]
  have core: "same_core snap snap'" by (rule a(4)[OF assms(2)])
  then have refs: "active_refs snap' = active_refs snap" by (rule same_core_active)
  have op: "open_run snap \<Longrightarrow> open_run snap'" using a(5) assms(2) observation_not_closing by blast
  have only: "x = snap" if "current ho s x" for x using that c by (auto simp: current_def)
  have own: "owns ho s x \<Longrightarrow> owns ho s' snap' \<and> x = snap" for x
  proof -
    assume x: "owns ho s x"
    then have "x = snap" using only ownsD(1) by blast
    then show ?thesis using owns_cong[OF a(2) op[OF ownsD(2)] refs a(1)] x by simp
  qed
  have but: "owns_but ho s x fin \<Longrightarrow> owns_but ho s' snap' fin" for x fin
  proof -
    assume b: "owns_but ho s x fin"
    then have "x = snap" using only by (simp add: owns_but_def)
    then show ?thesis
      using b a(1,2) op unfolding owns_but_def same_tasks_def tracks_def pending_ids_def refs
      by (elim conjE) (intro conjI, simp_all)
  qed
  have part: "drive_ok ho s' phase'" if "drive_ok ho s phase'" "phase' = Forcing \<or> phase' = Losing" for phase'
  proof -
    have "distinct (map pn_reference (sp_tasks s)) \<and> pn_reference ` set (sp_tasks s) \<subseteq> active_refs snap"
      using that only by (elim disjE) (simp, metis)+
    then have "current ho s' snap' \<and> distinct (map pn_reference (sp_tasks s'))
        \<and> pn_reference ` set (sp_tasks s') \<subseteq> active_refs snap'"
      using a(1,2) refs by (simp add: same_tasks_def)
    then show ?thesis using that(2) by (elim disjE) auto
  qed
  have same: "sp_tasks s' = sp_tasks s" "sp_pending_voids s' = sp_pending_voids s" "pending_ids s' = pending_ids s"
    using a(1) by (simp_all add: same_tasks_def pending_ids_def)
  show ?thesis
  proof (cases phase)
    case (Deciding old)
    then obtain x where "owns ho s x" "same_core old x" "\<exists>n. run_ok n old" "open_run old" "sp_pending_voids s = []"
      using assms(3) by auto
    moreover from this have "owns ho s' snap'" "same_core old snap'"
      using own same_core_trans[OF _ core] by blast+
    ultimately show ?thesis using Deciding same by auto
  next
    case (Ended terminal)
    then show ?thesis using assms(3) only a(7) by auto
  next
    case (Settling fin old ph)
    then show ?thesis using assms(3) but same by auto
  next
    case (Finishing terminal)
    then have "active_refs snap' = {}" using assms(3) only refs by auto
    then show ?thesis using Finishing assms(3) same a(2) by auto
  next
    case (Voiding targets)
    then show ?thesis using assms(3) own same by auto
  next
    case Turn
    then show ?thesis using assms(3) own same by auto
  next
    case Waiting
    then show ?thesis using assms(3) own same by auto
  next
    case Forcing
    show ?thesis using part[OF assms(3)] Forcing by blast
  next
    case Losing
    show ?thesis using part[OF assms(3)] Losing by blast
  next
    case (Broken e)
    then show ?thesis using a(2) by auto
  qed
qed

lemma bridge_events_observe:
  "bridge_events x queued = Inr evs \<Longrightarrow> \<forall>ev \<in> set evs. is_observation ev"
  unfolding bridge_events_def
proof (induction queued arbitrary: evs)
  case (Cons q queued)
  then show ?case
    by (cases q) (auto simp: bridge_event_def is_observation_def elim!: bind_resE)
qed simp

lemma request_stop_append:
  assumes "request_stop ho s = (s', Inr ())"
  shows "s' = s \<or> (\<exists>snap'. append_events ho [ForceStopRequested] s = (s', Inr snap'))"
proof -
  from assms obtain result led where
    r: "request_force_stop (ho_codec ho) (sp_ledger s) (sp_run_id s) = Inr (result, led)"
    and s': "s' = s\<lparr>sp_ledger := led\<rparr>"
    by (auto simp: request_stop_def split: sum.splits prod.splits)
  from r show ?thesis by (rule request_force_stop_cases) (auto simp: s' append_events_def)
qed

section \<open>Every driven state is in order\<close>

lemma drive_ok_current: "drive_ok ho s phase \<Longrightarrow> \<exists>snap. current ho s snap"
  by (cases phase) (auto simp: owns_def owns_but_def)

lemma drive_ok_cong:
  assumes "drive_ok ho s phase" and "same_tasks s t" and "sp_ledger t = sp_ledger s"
  shows "drive_ok ho t phase"
proof -
  have f: "sp_tasks t = sp_tasks s" "sp_cancellations t = sp_cancellations s"
    "sp_pending_voids t = sp_pending_voids s" "pending_ids t = pending_ids s"
    using assms(2) by (simp_all add: same_tasks_def pending_ids_def)
  have c: "current ho t = current ho s"
    by (rule ext, rule current_cong) (use assms(2,3) in \<open>simp_all add: same_tasks_def\<close>)
  have "owns ho t = owns ho s" "owns_but ho t = owns_but ho s"
    by (simp_all add: fun_eq_iff owns_def owns_but_def tracks_def handles_def c f)
  with assms(1) show ?thesis by (cases phase) (simp_all add: c f)
qed

lemma drive_step_kept:
  assumes "drive_step ho program s phase s' phase'" and "drive_ok ho s phase"
  shows "drive_ok ho s' phase'"
  using assms
proof (cases rule: drive_step.cases)
  case turn_ok
  then show ?thesis using turn_kept assms(2) by simp
next
  case (turn_err e)
  have "keeps ho turn" unfolding turn_def by (rule keeps_bind[OF keeps_snapshot]) (auto simp: keeps_def)
  then show ?thesis using turn_err keepsD drive_ok_current[OF assms(2)] by fastforce
next
  case (advance_ok old)
  then show ?thesis using advance_kept assms(2) by simp
next
  case (advance_err old e)
  then show ?thesis using keepsD[OF advance_keeps] drive_ok_current[OF assms(2)] by fastforce
next
  case await_none
  then show ?thesis using drive_ok_current[OF assms(2)] by simp
next
  case (await_lost task e)
  then show ?thesis using drive_ok_current[OF assms(2)]
      current_cong[of "s\<lparr>sp_tasks := remove1 task (sp_tasks s)\<rparr>" s] by auto
next
  case (await_ok task fin snap)
  then show ?thesis using await_kept assms(2) by simp
next
  case (await_err task fin e)
  from drive_ok_current[OF assms(2)] obtain snap where "current ho (finish_task task s) snap"
    using current_cong[of "finish_task task s" s] by (auto simp: finish_task_def)
  then show ?thesis using keepsD[OF begin_settle_keeps await_err(5)] await_err(1) by simp
next
  case (voids_done targets)
  then have "\<forall>x \<in> set targets. x \<notin> pending_ids s"
    by (simp add: has_pending_target_def list_ex_iff bm_get_None pending_ids_def)
  moreover have "pending_ids s \<subseteq> set targets" using voids_done assms(2) by simp
  ultimately have "pending_ids s = {}" by blast
  then have "sp_pending_voids s = []" by (simp add: pending_ids_def)
  then show ?thesis using voids_done assms(2) by simp
next
  case (settle_ok old fin ph)
  then show ?thesis using settle_kept assms(2) by simp
next
  case (settle_err old fin e ph)
  then show ?thesis using keepsD[OF settle_keeps] drive_ok_current[OF assms(2)] by fastforce
next
  case (force_ok drained terminal)
  from drive_ok_current[OF assms(2)] obtain snap where "current ho (s\<lparr>sp_tasks := []\<rparr>) snap"
    using current_cong[of "s\<lparr>sp_tasks := []\<rparr>" s] by auto
  then show ?thesis using terminalize_ok[OF force_ok(4)[unfolded terminalize_force_def]] force_ok(2) by simp
next
  case (force_err drained e)
  from drive_ok_current[OF assms(2)] obtain snap where "current ho (s\<lparr>sp_tasks := []\<rparr>) snap"
    using current_cong[of "s\<lparr>sp_tasks := []\<rparr>" s] by auto
  then show ?thesis using keepsD[OF terminalize_keeps force_err(4)[unfolded terminalize_force_def]] force_err(2) by simp
next
  case (lost_ok drained terminal)
  from drive_ok_current[OF assms(2)] obtain snap where "current ho (s\<lparr>sp_tasks := []\<rparr>) snap"
    using current_cong[of "s\<lparr>sp_tasks := []\<rparr>" s] by auto
  then show ?thesis using terminalize_ok[OF lost_ok(4)[unfolded terminalize_lost_def]] lost_ok(2) by simp
next
  case (lost_err drained e)
  from drive_ok_current[OF assms(2)] obtain snap where "current ho (s\<lparr>sp_tasks := []\<rparr>) snap"
    using current_cong[of "s\<lparr>sp_tasks := []\<rparr>" s] by auto
  then show ?thesis using keepsD[OF terminalize_keeps lost_err(4)[unfolded terminalize_lost_def]] lost_err(2) by simp
next
  case (node_output task queued evs snap)
  then show ?thesis using observation_kept[OF _ bridge_events_observe] assms(2) by blast
next
  case force_flag
  then show ?thesis using drive_ok_cong[OF assms(2)] by (simp add: same_tasks_def)
next
  case force_request
  then show ?thesis using request_stop_append[of ho s s'] assms(2)
      observation_kept[of ho "[ForceStopRequested]" s s'] by (auto simp: is_observation_def)
next
  case runtime_lost
  then show ?thesis using drive_ok_cong[OF assms(2)] by (simp add: same_tasks_def)
qed

definition drive_start :: "host \<Rightarrow> supervisor \<Rightarrow> bool" where
  "drive_start ho s \<longleftrightarrow>
     ledger_reachable (ho_codec ho) (sp_ledger s)
     \<and> sp_tasks s = [] \<and> sp_cancellations s = [] \<and> sp_pending_voids s = []"

lemma initialize_kept:
  assumes "initialize ho s = (s', Inr (phase, program))" and "drive_start ho s"
  shows "drive_ok ho s' phase"
proof -
  have lok: "ledger_ok (ho_codec ho) (sp_ledger s)"
    using assms(2) ledger_reachable_ok by (auto simp: drive_start_def)
  from assms(1) obtain stored where st: "ledger_get (sp_ledger s) (sp_run_id s) = Some stored"
    by (auto simp: initialize_def bind_sup_def load_def ok_or_def split: option.splits)
  define snap where "snap = sr_snapshot stored"
  have c: "current ho s snap" using lok st by (auto simp: current_def snap_def ledger_get_def)
  then obtain n where n: "nodes_ok n snap" and ph: "phase_ok snap" by (rule currentD)
  have start: "sp_tasks s = []" "sp_cancellations s = []" "sp_pending_voids s = []"
    using assms(2) by (simp_all add: drive_start_def)
  have fresh: "owns ho t x" if "current ho t x" "open_run x" "active_refs x = {}" "same_tasks s t" for t x
    using that start by (simp add: owns_def tracks_def handles_def same_tasks_def pending_ids_def)
  show ?thesis
  proof (cases "initialized_phase s snap")
    case (Some p)
    then have "s' = s \<and> phase = p"
      using assms(1) st by (auto simp: initialize_def bind_sup_def load_def snap_def)
    moreover have "drive_ok ho s p"
    proof -
      have "active_refs snap = {}" if "sn_primary_graph snap \<noteq> None"
        using ph that active_refs_empty[OF n] by (simp add: phase_ok_def)
      then show ?thesis using Some c start
        by (auto simp: initialized_phase_def split: option.splits if_splits)
    qed
    ultimately show ?thesis by simp
  next
    case None
    then have idle: "sn_terminal snap = None" "sn_primary_graph snap = None" "active_refs snap = {}"
      using active_refs_empty[OF n] by (auto simp: initialized_phase_def split: option.splits if_splits)
    show ?thesis
    proof (cases "sn_phase snap = Admitted")
      case True
      with None assms(1) st obtain snap' where ap: "append_events ho [RunStarted] s = (s', Inr snap')"
        and run: "sn_phase snap' = Running" and p: "phase = Turn"
        by (auto simp: initialize_def bind_sup_def load_def snap_def lift_res_def
            split: prod.splits sum.splits if_splits)
      note a = append_events_ok[OF ap c]
      have "active_refs snap' = {}" using a(3) idle(3) by (simp add: batch_active_def event_active_def)
      moreover have "open_run snap'"
      proof -
        from ap c obtain run run' result where x: "append_locked (ho_codec ho) run [RunStarted] = Inr (result, run')"
          "run_inv (ho_codec ho) (sp_run_id s) run" "sr_snapshot (fr_stored run) = snap"
          "sr_snapshot (fr_stored run') = snap'" by (rule append_events_cases)
        have "sn_terminal snap' = None \<and> sn_primary_graph snap' = None"
          unfolding x(4)[symmetric]
          by (rule append_locked_batch[OF x(1,2), of "\<lambda>s _. sn_terminal s = None \<and> sn_primary_graph s = None"])
            (auto simp: x(3) idle prepare_event_def event_step_simps)
        then show ?thesis using run by (simp add: open_run_def)
      qed
      ultimately show ?thesis using fresh[OF a(2)] a(1) p start by (auto simp: same_tasks_def)
    next
      case False
      with None assms(1) st have x: "s' = s" "phase = Turn" "sn_phase snap = Running"
        by (auto simp: initialize_def bind_sup_def load_def snap_def lift_res_def split: if_splits)
      then have "open_run snap" using idle by (simp add: open_run_def)
      then show ?thesis using fresh[OF c] idle(3) x start by (auto simp: same_tasks_def)
    qed
  qed
qed

lemma driven_ok: "driven ho s0 program s phase \<Longrightarrow> drive_start ho s0 \<Longrightarrow> drive_ok ho s phase"
  by (induction rule: driven.induct) (auto intro: initialize_kept drive_step_kept)

end
