(* ===== verification/Supervisor_Accept.thy ===== *)
theory Supervisor_Accept
  imports Supervisor_Invariant Ledger_Properties
begin

text \<open>
  Acceptance: the batches the supervisor appends are accepted by the ledger. Encoding is a parameter,
  so a batch is accepted when its events fit their bound; \<open>encodes_small\<close> names what that means for
  the logs, settlements and terminal results the supervisor writes on its own.
\<close>

section \<open>Accepted batches\<close>

definition accepts :: "codec \<Rightarrow> u64 \<Rightarrow> run_snapshot \<Rightarrow> run_event list \<Rightarrow> run_snapshot \<Rightarrow> bool" where
  "accepts cd n s evs t \<longleftrightarrow>
     (\<forall>stored. \<exists>stored'. try_foldl (append_event cd) (s, n, stored) evs = Inr (t, n + length evs, stored'))"

lemma accepts_Nil [simp]: "accepts cd n s [] s"
  by (simp add: accepts_def)

lemma accepts_Cons:
  assumes "n < u64_max" and "apply_event cd s (prepare_event s ev) (Suc n) = Inr u" and "accepts cd (Suc n) u evs t"
  shows "accepts cd n s (ev # evs) t"
  using assms by (auto simp: accepts_def append_event_def Let_def checked_add_def ok_or_def)

lemma accepts_append:
  assumes "accepts cd n s xs t" and "accepts cd (n + length xs) t ys u"
  shows "accepts cd n s (xs @ ys) u"
proof -
  have "try_foldl f a (xs @ ys) = bind_res (try_foldl f a xs) (\<lambda>b. try_foldl f b ys)" for f :: "'s \<Rightarrow> run_event \<Rightarrow> 'e + 's" and a
    by (induction xs arbitrary: a) (simp_all add: bind_res_assoc)
  moreover have "\<exists>stored'. bind_res (try_foldl (append_event cd) (s, n, stored) xs)
      (\<lambda>b. try_foldl (append_event cd) b ys) = Inr (u, n + length (xs @ ys), stored')" for stored
  proof -
    obtain mid where "try_foldl (append_event cd) (s, n, stored) xs = Inr (t, n + length xs, mid)"
      using assms(1) unfolding accepts_def by blast
    moreover obtain fin where "try_foldl (append_event cd) (t, n + length xs, mid) ys = Inr (u, n + length xs + length ys, fin)"
      using assms(2) unfolding accepts_def by blast
    ultimately show ?thesis by (auto simp: add.assoc)
  qed
  ultimately show ?thesis unfolding accepts_def by metis
qed

lemma accepted_append:
  assumes "current ho s snap" and "run_ok n snap" and "accepts (ho_codec ho) n snap evs t" and "evs \<noteq> []"
  shows "\<exists>s'. append_events ho evs s = (s', Inr t)"
proof -
  from assms(1) obtain run where run: "bm_get (fs_runs (sp_ledger s)) (sp_run_id s) = Some run"
    "sr_snapshot (fr_stored run) = snap" "run_inv (ho_codec ho) (sp_run_id s) run"
    using ledger_okD(3) by (auto simp: current_def)
  have "cursor_for n = cursor_for (length (fr_events run))"
    using assms(2) run_inv_ok(1)[OF run(3)] run(2) by (simp add: run_ok_def)
  then have "cursor_sequence (sn_cursor snap) = Inr n"
    using run_inv_ok(4)[OF run(3)] run(2) by simp
  then have "\<exists>result run'. append_locked (ho_codec ho) run evs = Inr (result, run') \<and> ap_snapshot result = t"
    using assms(3,4) spec[OF assms(3)[unfolded accepts_def], of "[]"]
    by (auto simp: append_locked_def Let_def run(2))
  then show ?thesis by (auto simp: append_events_def ledger_append_def run(1) ok_or_def)
qed

section \<open>Small events\<close>

definition small_event :: "run_event \<Rightarrow> bool" where
  "small_event ev =
     (case ev of
        SafeLog _ _ _ line _ \<Rightarrow> utf8_length line \<le> MAX_SAFE_LOG_BYTES
      | NodeCompleted c \<Rightarrow> error_code (nc_outcome c) \<noteq> None
      | ExecutionVoided _ _ \<Rightarrow> True
      | TerminalEvent (Failed _ fc) \<Rightarrow> context_bounded fc
      | _ \<Rightarrow> False)"

definition encodes_small :: "codec \<Rightarrow> bool" where
  "encodes_small cd \<longleftrightarrow>
     (\<forall>ev. small_event ev \<longrightarrow> validate_event cd ev = Inr ())
     \<and> (\<forall>bytes. length (cd_sha256 cd bytes) = 32 \<and> (\<forall>b \<in> set (cd_sha256 cd bytes). b < 256))"

lemma encodes_smallD:
  assumes "encodes_small cd"
  shows "small_event ev \<Longrightarrow> validate_event cd ev = Inr ()"
    and "\<exists>token. public_execution cd r = Inr token"
  using assms public_execution_token(1)[of cd] by (auto simp: encodes_small_def)

lemma bounded_log_text_no_null: "0 \<notin> set (bounded_log_text text maximum)"
proof -
  have marker: "0 \<notin> set DIAGNOSTIC_TRUNCATION_MARKER"
    by (simp add: DIAGNOSTIC_TRUNCATION_MARKER_def text_of_string_def)
  have chars: "0 \<notin> set (map log_char text)" by (auto simp: log_char_def is_control_def)
  have "set (utf8_prefix (map log_char text) m) \<subseteq> set (map log_char text)" for m
    by (rule set_mono_prefix[OF utf8_prefix_prefix])
  moreover have "set (utf8_suffix (map log_char text) m) \<subseteq> set (map log_char text)" for m
    by (rule set_mono_suffix[OF utf8_suffix_suffix])
  ultimately show ?thesis
    using marker chars unfolding bounded_log_text_def Let_def by (auto split: if_splits)
qed

lemma error_log_ok:
  obtains line where "error_log ck ex m k = Inr (SafeLog ex (ck_now ck) LogError line k)"
    "utf8_length line \<le> MAX_SAFE_LOG_BYTES"
proof -
  let ?line = "bounded_log_text m (MAX_SAFE_LOG_BYTES div 2)"
  have "utf8_length ?line \<le> MAX_SAFE_LOG_BYTES div 2"
    by (rule bounded_log_text_bound) (simp add: MAX_SAFE_LOG_BYTES_def)
  then have "utf8_length ?line \<le> MAX_SAFE_LOG_BYTES" by (simp add: MAX_SAFE_LOG_BYTES_def)
  then show ?thesis
    using that bounded_log_text_no_null by (auto simp: error_log_def SafeLogLine_new_def)
qed

section \<open>Logs are accepted\<close>

text \<open>What a run can record in its state: it is open to events and has room in its log.\<close>

definition writable :: "u64 \<Rightarrow> run_snapshot \<Rightarrow> bool" where
  "writable n s \<longleftrightarrow> run_ok n s \<and> sn_terminal s = None"

definition known_log :: "run_snapshot \<Rightarrow> run_event \<Rightarrow> bool" where
  "known_log s ev \<longleftrightarrow>
     (\<exists>ex ts line kind. ev = SafeLog ex ts LogError line kind \<and> utf8_length line \<le> MAX_SAFE_LOG_BYTES
        \<and> (\<forall>x. ex = Some x \<longrightarrow> bm_get (sn_executions s) x \<noteq> None))"

lemma known_log_core: "same_core s t \<Longrightarrow> known_log s ev \<Longrightarrow> known_log t ev"
  unfolding known_log_def same_core_def by (metis map_option_is_None)

lemma log_accepted:
  assumes "encodes_small cd" and "writable n s" and "known_log s ev"
  shows "\<exists>t. apply_event cd s (prepare_event s ev) (Suc n) = Inr t \<and> same_core s t \<and> writable (Suc n) t"
proof -
  from assms(3) obtain ex ts line kind where ev: "ev = SafeLog ex ts LogError line kind"
    and line: "utf8_length line \<le> MAX_SAFE_LOG_BYTES"
    and known: "\<forall>x. ex = Some x \<longrightarrow> bm_get (sn_executions s) x \<noteq> None" by (auto simp: known_log_def)
  have "\<exists>t. apply_failure_diagnostic cd s ex LogError line kind (Suc n) = Inr t"
  proof (cases ex)
    case None
    then show ?thesis
      by (auto simp: apply_failure_diagnostic_def diagnostic_execution_def Let_def split: option.splits)
  next
    case (Some x)
    then obtain node where "bm_get (sn_executions s) x = Some node" using known by auto
    moreover obtain token where "public_execution cd (nd_reference node) = Inr token"
      using encodes_smallD(2)[OF assms(1)] by blast
    ultimately show ?thesis using Some
      by (auto simp: apply_failure_diagnostic_def diagnostic_execution_def ok_or_def Let_def split: option.splits)
  qed
  then obtain t where "event_step cd (Suc n) s ev t" using known by (auto simp: ev event_step_simps)
  moreover have "small_event ev" by (simp add: ev small_event_def line)
  ultimately have ap: "apply_event cd s ev (Suc n) = Inr (t\<lparr>sn_cursor := cursor_for (Suc n)\<rparr>)"
    and core: "same_core s t"
    using assms(2) encodes_smallD(1)[OF assms(1)] event_step_core[of cd "Suc n" s ev t]
    by (auto simp: apply_event_iff writable_def ev is_observation_def)
  have "run_ok (Suc n) (t\<lparr>sn_cursor := cursor_for (Suc n)\<rparr>)"
    using apply_event_ok(1)[OF ap] assms(2) by (simp add: writable_def)
  then show ?thesis using ap core assms(2)
    by (intro exI[of _ "t\<lparr>sn_cursor := cursor_for (Suc n)\<rparr>"])
      (simp add: ev prepare_event_def same_core_def writable_def)
qed

lemma logs_accepted:
  assumes "encodes_small cd" and "writable n s" and "\<forall>ev \<in> set logs. known_log s ev" and "n + length logs \<le> u64_max"
  shows "\<exists>t. accepts cd n s logs t \<and> same_core s t \<and> writable (n + length logs) t"
  using assms(2-4)
proof (induction logs arbitrary: n s)
  case (Cons ev logs)
  from log_accepted[OF assms(1) Cons.prems(1)] Cons.prems(2) obtain u where
    u: "apply_event cd s (prepare_event s ev) (Suc n) = Inr u" "same_core s u" "writable (Suc n) u" by auto
  with Cons.IH[of "Suc n" u] Cons.prems known_log_core obtain t where
    t: "accepts cd (Suc n) u logs t" "same_core u t" "writable (Suc n + length logs) t" by auto
  have "accepts cd n s (ev # logs) t" using accepts_Cons[OF _ u(1) t(1)] Cons.prems(3) by simp
  then show ?case using t(3) same_core_trans[OF u(2) t(2)] by auto
next
  case Nil
  then have "accepts cd n s [] s \<and> same_core s s \<and> writable (n + length []) s" by simp
  then show ?case by blast
qed

text \<open>A settlement of an active execution is accepted and ends exactly that execution.\<close>

lemma settlement_accepted:
  assumes "writable n s" and "r \<in> active_refs s"
    and "(\<exists>out. e = NodeCompleted \<lparr>nc_reference = r, nc_outcome = out\<rparr> \<and> \<not> outcome_has_artifacts out
             \<and> outcome_validate out = Inr ())
         \<or> (\<exists>reason. e = ExecutionVoided r reason)"
    and "validate_event cd e = Inr ()"
  shows "\<exists>t. apply_event cd s (prepare_event s e) (Suc n) = Inr t \<and> writable (Suc n) t
    \<and> active_refs t = active_refs s - {r}"
proof -
  from assms(2) obtain node where node: "node_at s r node" by (auto simp: active_refs_def)
  have prep: "prepare_event s e = e"
    using assms(3) by (elim disjE exE conjE) (simp_all add: prepare_event_def)
  have "\<exists>t. event_step cd (Suc n) s e t"
    using assms(3)
  proof (elim disjE exE conjE)
    fix out assume e: "e = NodeCompleted \<lparr>nc_reference = r, nc_outcome = out\<rparr>"
      and ok: "\<not> outcome_has_artifacts out" "outcome_validate out = Inr ()"
    from step_completed[of s "\<lparr>nc_reference = r, nc_outcome = out\<rparr>" node cd "Suc n"] node ok
    show ?thesis unfolding e by (intro exI) (simp add: recordable_iff)
  next
    fix reason assume "e = ExecutionVoided r reason"
    then show ?thesis using step_voided[OF node] by blast
  qed
  then obtain t where t: "event_step cd (Suc n) s e t" ..
  let ?t = "t\<lparr>sn_cursor := cursor_for (Suc n)\<rparr>"
  have ap: "apply_event cd s e (Suc n) = Inr ?t"
    using t assms(1,4) by (auto simp: apply_event_iff writable_def)
  have "active_refs ?t = active_refs t" by (rule active_refs_cong) simp_all
  also have "\<dots> = event_active e (active_refs s)"
    using event_step_active[OF t, of n] assms(1) by (simp add: writable_def run_ok_def)
  also have "\<dots> = active_refs s - {r}"
    using assms(3) by (elim disjE exE conjE) (simp_all add: event_active_def)
  finally have "active_refs ?t = active_refs s - {r}" .
  moreover have "\<exists>x v. t = put_node s x v"
    using assms(3) t by (elim disjE exE conjE) (simp_all add: event_step_simps, blast+)
  then have "sn_terminal ?t = None" using assms(1) by (auto simp: put_node_def writable_def)
  moreover have "run_ok (Suc n) ?t" using apply_event_ok(1)[OF ap] assms(1) by (simp add: writable_def)
  ultimately show ?thesis using ap unfolding prep writable_def by blast
qed

section \<open>Stopping a run is accepted\<close>

lemma active_executions_refs:
  assumes "nodes_ok n s"
  shows "nd_reference ` set (active_executions s) = active_refs s"
    and "distinct (map nd_reference (active_executions s))"
proof -
  have wf: "bm_wf (sn_executions s)" using assms by (simp add: nodes_ok_def)
  have key: "er_execution (nd_reference v) = x \<and> er_run_id (nd_reference v) = sn_run_id s"
    if "(x, v) \<in> set (sn_executions s)" for x v
    using nodes_okD(1)[OF assms, of x v] that wf by (simp add: bm_get_iff node_ok_def)
  have "r \<in> nd_reference ` set (active_executions s) \<longleftrightarrow> (\<exists>v. node_at s r v)" for r
  proof
    assume "r \<in> nd_reference ` set (active_executions s)"
    then obtain x v where v: "(x, v) \<in> set (sn_executions s)" "nd_state v = NodeActive" "r = nd_reference v"
      by (auto simp: active_executions_def node_is_active_def)
    then have "node_at s r v" using key[OF v(1)] wf by (simp add: node_at_def bm_get_iff)
    then show "\<exists>v. node_at s r v" ..
  next
    assume "\<exists>v. node_at s r v"
    then obtain v where "(er_execution r, v) \<in> set (sn_executions s)" "nd_reference v = r" "nd_state v = NodeActive"
      using wf by (auto simp: node_at_def bm_get_iff)
    then show "r \<in> nd_reference ` set (active_executions s)"
      by (force simp: active_executions_def node_is_active_def)
  qed
  then show "nd_reference ` set (active_executions s) = active_refs s" by (auto simp: active_refs_def)
  have "map (\<lambda>v. er_execution (nd_reference v)) (map snd (sn_executions s)) = map fst (sn_executions s)"
    using key by auto
  then have "distinct (map (\<lambda>v. er_execution (nd_reference v)) (map snd (sn_executions s)))"
    using bm_wf_distinct[OF wf] by (simp only:)
  then have "distinct (map nd_reference (map snd (sn_executions s)))"
    by (auto simp: distinct_map inj_on_def)
  then show "distinct (map nd_reference (active_executions s))"
    unfolding active_executions_def by (rule distinct_map_filter)
qed

lemma declared_completion_ok:
  obtains line where
    "log_completion_events ck \<lparr>nc_reference = r, nc_outcome = declared_failure code\<rparr> el cause
       = Inr [SafeLog (Some (er_execution r)) (ck_now ck) LogError line (Some Failure),
              NodeCompleted \<lparr>nc_reference = r, nc_outcome = declared_failure code\<rparr>]"
    "utf8_length line \<le> MAX_SAFE_LOG_BYTES"
proof -
  obtain m where m: "node_failure_log ck r (declared_failure code) el cause =
      bind_res (error_log ck (Some (er_execution r)) m (Some Failure)) (\<lambda>event. Inr (Some event))"
    by (simp add: node_failure_log_def declared_failure_def Let_def)
  obtain line where "error_log ck (Some (er_execution r)) m (Some Failure)
      = Inr (SafeLog (Some (er_execution r)) (ck_now ck) LogError line (Some Failure))"
    "utf8_length line \<le> MAX_SAFE_LOG_BYTES" by (rule error_log_ok)
  then show ?thesis using that by (simp add: log_completion_events_def m)
qed

lemma active_ref_known: "r \<in> active_refs s \<Longrightarrow> bm_get (sn_executions s) (er_execution r) \<noteq> None"
  by (auto simp: active_refs_def node_at_def)

lemma declared_failure_ok: "\<not> outcome_has_artifacts (declared_failure code)" "outcome_validate (declared_failure code) = Inr ()"
  by (simp_all add: outcome_has_artifacts_def outcome_validate_def declared_failure_def valid_failure_pair_def)

lemma settlement_logged:
  assumes "encodes_small cd" and "writable n s" and "r \<in> active_refs s" and "n + 2 \<le> u64_max"
  obtains evs t where
    "log_completion_events ck \<lparr>nc_reference = r, nc_outcome = declared_failure code\<rparr> None cause = Inr evs"
    "length evs = 2" "accepts cd n s (clear_diagnostics evs) t" "writable (n + 2) t" "active_refs t = active_refs s - {r}"
proof -
  let ?done = "NodeCompleted \<lparr>nc_reference = r, nc_outcome = declared_failure code\<rparr>"
  obtain line where lg: "log_completion_events ck \<lparr>nc_reference = r, nc_outcome = declared_failure code\<rparr> None cause
       = Inr [SafeLog (Some (er_execution r)) (ck_now ck) LogError line (Some Failure), ?done]"
    and line: "utf8_length line \<le> MAX_SAFE_LOG_BYTES" by (rule declared_completion_ok)
  let ?log = "SafeLog (Some (er_execution r)) (ck_now ck) LogError line None"
  have "known_log s ?log" using active_ref_known[OF assms(3)] line by (auto simp: known_log_def)
  from log_accepted[OF assms(1,2) this] obtain u where
    u: "apply_event cd s (prepare_event s ?log) (Suc n) = Inr u" "same_core s u" "writable (Suc n) u" by blast
  have refs: "active_refs u = active_refs s" by (rule same_core_active[OF u(2)])
  have "validate_event cd ?done = Inr ()"
    by (rule encodes_smallD(1)[OF assms(1)]) (simp add: small_event_def error_code_def declared_failure_def)
  moreover have "(\<exists>out. ?done = NodeCompleted \<lparr>nc_reference = r, nc_outcome = out\<rparr> \<and> \<not> outcome_has_artifacts out
      \<and> outcome_validate out = Inr ()) \<or> (\<exists>reason. ?done = ExecutionVoided r reason)"
    by (intro disjI1 exI[of _ "declared_failure code"] conjI refl declared_failure_ok)
  moreover have "r \<in> active_refs u" using assms(3) unfolding refs .
  ultimately have "\<exists>v. apply_event cd u (prepare_event u ?done) (Suc (Suc n)) = Inr v \<and> writable (Suc (Suc n)) v
      \<and> active_refs v = active_refs u - {r}"
    by (intro settlement_accepted[OF u(3)])
  then obtain v where v: "apply_event cd u (prepare_event u ?done) (Suc (Suc n)) = Inr v" "writable (Suc (Suc n)) v"
    "active_refs v = active_refs s - {r}" unfolding refs by (elim exE conjE)
  have "accepts cd n s [?log, ?done] v"
    using accepts_Cons[OF _ u(1) accepts_Cons[OF _ v(1) accepts_Nil]] assms(4) by simp
  then show ?thesis using that[OF lg] v(2,3) by (simp add: clear_diagnostics_def clear_diagnostic_def)
qed

lemma settlements_accepted:
  assumes "encodes_small cd" and "writable n s" and "nd_reference ` set ns \<subseteq> active_refs s"
    and "distinct (map nd_reference ns)" and "n + 2 * length ns \<le> u64_max"
  shows "\<exists>evs t. try_map (\<lambda>node. log_completion_events ck
        \<lparr>nc_reference = nd_reference node, nc_outcome = declared_failure code\<rparr> None cause) ns = Inr evs
      \<and> length (concat evs) = 2 * length ns \<and> accepts cd n s (clear_diagnostics (concat evs)) t
      \<and> writable (n + 2 * length ns) t \<and> active_refs t = active_refs s - nd_reference ` set ns"
    (is "\<exists>evs t. try_map ?f ns = Inr evs \<and> _")
  using assms(2-5)
proof (induction ns arbitrary: n s)
  case Nil
  then show ?case by (intro exI[of _ "[]"] exI[of _ s]) (simp add: clear_diagnostics_def)
next
  case (Cons node ns)
  let ?r = "nd_reference node"
  have "?r \<in> active_refs s" "n + 2 \<le> u64_max" using Cons.prems(2,4) by simp_all
  from settlement_logged[OF assms(1) Cons.prems(1) this, of ck code cause] obtain es v where
    es: "?f node = Inr es" "length es = 2" and v: "accepts cd n s (clear_diagnostics es) v" "writable (n + 2) v"
      "active_refs v = active_refs s - {?r}" .
  have "?r \<notin> nd_reference ` set ns" using Cons.prems(3) by simp
  then have "nd_reference ` set ns \<subseteq> active_refs v" using Cons.prems(2) v(3) by (simp add: subset_Diff_insert)
  moreover have "distinct (map nd_reference ns)" "n + 2 + 2 * length ns \<le> u64_max" using Cons.prems(3,4) by simp_all
  ultimately obtain evs t where t: "try_map ?f ns = Inr evs"
      "length (concat evs) = 2 * length ns" "accepts cd (n + 2) v (clear_diagnostics (concat evs)) t"
      "writable (n + 2 + 2 * length ns) t" "active_refs t = active_refs v - nd_reference ` set ns"
    using Cons.IH[OF v(2)] by blast
  have len: "length (clear_diagnostics es) = 2" by (simp add: es(2) clear_diagnostics_def)
  have "accepts cd n s (clear_diagnostics es @ clear_diagnostics (concat evs)) t"
    by (rule accepts_append[OF v(1)]) (simp only: len t(3))
  then have acc: "accepts cd n s (clear_diagnostics (concat (es # evs))) t" by (simp add: clear_diagnostics_def)
  have len: "length (concat (es # evs)) = 2 * length (node # ns)" using t(2) es(2) by simp
  have run: "try_map ?f (node # ns) = Inr (es # evs)" using t(1) es(1) by simp
  have "n + 2 + 2 * length ns = n + 2 * length (node # ns)" by simp
  with t(4) have wr: "writable (n + 2 * length (node # ns)) t" by (simp only:)
  have "active_refs t = active_refs s - nd_reference ` set (node # ns)"
    unfolding t(5) v(3) by auto
  with run len acc wr have "try_map ?f (node # ns) = Inr (es # evs) \<and> length (concat (es # evs)) = 2 * length (node # ns)
    \<and> accepts cd n s (clear_diagnostics (concat (es # evs))) t \<and> writable (n + 2 * length (node # ns)) t
    \<and> active_refs t = active_refs s - nd_reference ` set (node # ns)" by (intro conjI)
  then show ?case by (intro exI)
qed

lemma terminal_accepted:
  assumes "encodes_small cd" and "writable n s" and "active_refs s = {}"
  shows "\<exists>t fc. apply_event cd s (prepare_event s (TerminalEvent (Failed reason None))) (Suc n) = Inr t
    \<and> sn_terminal t = Some (Failed reason fc) \<and> active_refs t = {}
    \<and> (is_force_stopped reason \<longrightarrow> fc = None)"
proof -
  obtain fc where fc: "prepare_event s (TerminalEvent (Failed reason None)) = TerminalEvent (Failed reason fc)"
    "fc = None \<or> fc = sn_failure_context s" "is_force_stopped reason \<longrightarrow> fc = None"
    by (cases "is_force_stopped reason") (simp_all add: prepare_event_def prepare_result_def)
  have ok: "nodes_ok n s" "evidence_ok s" using assms(2) by (simp_all add: writable_def run_ok_def)
  have none: "active_executions s = []" using active_refs_empty[OF ok(1)] assms(3) by simp
  have "small_event (TerminalEvent (Failed reason fc))"
    using fc(2) ok(2) by (auto simp: small_event_def evidence_ok_def context_bounded_def)
  then have valid: "validate_event cd (TerminalEvent (Failed reason fc)) = Inr ()"
    by (rule encodes_smallD(1)[OF assms(1)])
  obtain t where st: "event_step cd (Suc n) s (TerminalEvent (Failed reason fc)) t"
    and t: "sn_terminal t = Some (Failed reason fc)" "sn_executions t = sn_executions s" "sn_run_id t = sn_run_id s"
    using none by (auto simp: event_step_simps)
  have "active_refs (t\<lparr>sn_cursor := cursor_for (Suc n)\<rparr>) = active_refs s"
    by (rule active_refs_cong) (simp_all add: t)
  moreover have "apply_event cd s (TerminalEvent (Failed reason fc)) (Suc n) = Inr (t\<lparr>sn_cursor := cursor_for (Suc n)\<rparr>)"
    using st valid assms(2) unfolding apply_event_iff writable_def by blast
  ultimately show ?thesis using t(1) assms(3) fc(3) unfolding fc(1)
    by (intro exI[of _ "t\<lparr>sn_cursor := cursor_for (Suc n)\<rparr>"] exI[of _ fc]) simp
qed

lemma terminal_failure_accepted:
  assumes "encodes_small cd" and "writable n s" and "EnumLabel_new reason = Inr reason"
    and "\<forall>ev \<in> set logs. known_log s ev"
    and "n + length logs + 2 * length (active_executions s) + 2 \<le> u64_max"
  obtains evs t fc where "terminal_failure_events ck s reason code = Inr evs" "accepts cd n s (logs @ evs) t"
    "evs \<noteq> []" "sn_terminal t = Some (Failed reason fc)" "active_refs t = {}" "is_force_stopped reason \<longrightarrow> fc = None"
proof -
  let ?ns = "active_executions s" and ?n1 = "n + length logs"
  obtain u where u: "accepts cd n s logs u" "same_core s u" "writable ?n1 u"
    using logs_accepted[OF assms(1,2,4)] assms(5) by auto
  have ok: "nodes_ok n s" using assms(2) by (simp add: writable_def run_ok_def)
  have "nd_reference ` set ?ns \<subseteq> active_refs u"
    using active_executions_refs(1)[OF ok] same_core_active[OF u(2)] by simp
  from settlements_accepted[OF assms(1) u(3) this active_executions_refs(2)[OF ok], of ck code
      "Some (text_of_string (''run '' @ reason))"] assms(5)
  obtain evs v where v: "try_map (\<lambda>node. log_completion_events ck
        \<lparr>nc_reference = nd_reference node, nc_outcome = declared_failure code\<rparr> None
        (Some (text_of_string (''run '' @ reason)))) ?ns = Inr evs"
    "length (concat evs) = 2 * length ?ns" "accepts cd ?n1 u (clear_diagnostics (concat evs)) v"
    "writable (?n1 + 2 * length ?ns) v" "active_refs v = active_refs u - nd_reference ` set ?ns" by auto
  have none: "active_refs v = {}"
    using v(5) active_executions_refs(1)[OF ok] same_core_active[OF u(2)] by simp
  obtain line where lg: "error_log ck None (text_of_string (''Run failed: '' @ reason)) None
      = Inr (SafeLog None (ck_now ck) LogError line None)" and line: "utf8_length line \<le> MAX_SAFE_LOG_BYTES"
    by (rule error_log_ok)
  let ?log = "SafeLog None (ck_now ck) LogError line None"
  let ?last = "TerminalEvent (Failed reason None)"
  let ?n2 = "?n1 + 2 * length ?ns"
  from log_accepted[OF assms(1) v(4), of ?log] line obtain w where
    w: "apply_event cd v (prepare_event v ?log) (Suc ?n2) = Inr w" "same_core v w" "writable (Suc ?n2) w"
    by (auto simp: known_log_def)
  from terminal_accepted[OF assms(1) w(3), of reason] same_core_active[OF w(2)] none obtain t fc where
    t: "apply_event cd w (prepare_event w ?last) (Suc (Suc ?n2)) = Inr t" "sn_terminal t = Some (Failed reason fc)"
      "active_refs t = {}" "is_force_stopped reason \<longrightarrow> fc = None" by auto
  have last2: "accepts cd ?n2 v [?log, ?last] t"
    using accepts_Cons[OF _ w(1) accepts_Cons[OF _ t(1) accepts_Nil]] assms(5) by simp
  have "length (clear_diagnostics (concat evs)) = 2 * length ?ns" using v(2) by (simp add: clear_diagnostics_def)
  then have "accepts cd n s (logs @ clear_diagnostics (concat evs) @ [?log, ?last]) t"
    by (intro accepts_append[OF u(1)] accepts_append[OF v(3)]) (simp add: last2)
  moreover have "terminal_failure_events ck s reason code = Inr (clear_diagnostics (concat evs) @ [?log, ?last])"
    using v(1) lg by (simp add: terminal_failure_events_def assms(3) terminal_events_def)
  ultimately show ?thesis using that t(2-4) by blast
qed

end
