(* ===== verification/Supervisor_Progress.thy ===== *)
theory Supervisor_Progress
  imports Supervisor_Accept
begin

text \<open>
  Progress of the driving turn: the dispatches a reduction asks for are recorded and started, a
  finished dispatch is settled, and a stopped run reaches its terminal result.
\<close>

section \<open>The execution catalog\<close>

definition catalogued :: "execution_catalog \<Rightarrow> node_name \<Rightarrow> bool" where
  "catalogued cat x \<longleftrightarrow> bm_get (xc_timeouts cat) x \<noteq> None \<and> bm_get (xc_instructions cat) x \<noteq> None"

lemma record_execution_metadata_catalogued [simp]:
  "catalogued (record_execution_metadata x t i cat) y \<longleftrightarrow> y = x \<or> catalogued cat y"
  by (auto simp: catalogued_def record_execution_metadata_def bm_get_insert)

lemma fold_mono:
  assumes "\<And>c a. c \<in> set cs \<Longrightarrow> P a \<Longrightarrow> P (f c a)" and "P a"
  shows "P (fold f cs a)"
  using assms by (induction cs arbitrary: a) auto

lemma fold_reaches:
  assumes "\<And>c a. c \<in> set cs \<Longrightarrow> P a \<Longrightarrow> P (f c a)" and "c \<in> set cs" and "\<And>a. P (f c a)"
  shows "P (fold f cs a)"
  using assms
proof (induction cs arbitrary: a)
  case (Cons d cs)
  show ?case
  proof (cases "c = d")
    case True
    then show ?thesis using fold_mono[of cs P f "f d a"] Cons.prems by auto
  next
    case False
    then show ?thesis using Cons by simp
  qed
qed simp

lemma collect_keeps: "catalogued cat x \<Longrightarrow> catalogued (collect_execution_metadata n cat) x"
proof (induction n arbitrary: cat rule: graph_induct)
  case (node n)
  have "catalogued (fold collect_execution_metadata (child_nodes n) cat) x"
    by (rule fold_mono) (use node in auto)
  then show ?case using node(2) by (subst collect_execution_metadata.simps) (auto split: graph_node.split)
qed

lemma collect_catalogues:
  assumes "n \<in> set (all_nodes root)" and "executable_spec_of n = Some spec"
  shows "catalogued (collect_execution_metadata root cat) (es_name spec)"
  using assms(1)
proof (induction root arbitrary: cat rule: graph_induct)
  case (node root)
  show ?case
  proof (cases "n = root")
    case True
    then show ?thesis using assms(2)
      by (subst collect_execution_metadata.simps) (auto split: graph_node.splits)
  next
    case False
    with node.prems obtain k where k: "k \<in> set (child_nodes root)" "n \<in> set (all_nodes k)"
      by (subst (asm) all_nodes.simps) auto
    have "catalogued (fold collect_execution_metadata (child_nodes root) cat) (es_name spec)"
      by (rule fold_reaches[OF _ k(1)]) (use collect_keeps node.IH[OF k] in auto)
    then show ?thesis using k(1)
      by (subst collect_execution_metadata.simps) (auto split: graph_node.split)
  qed
qed


lemma driven_program: "driven ho s0 program s phase \<Longrightarrow> program = run_program_of (pm_admitted program)"
proof (induction rule: driven.induct)
  case (driven_start s phase program)
  then obtain admitted where "program = run_program_of admitted"
    by (auto simp: initialize_def bind_sup_def load_def lift_res_def split: option.splits sum.splits if_splits prod.splits)
  then show ?case by (simp add: run_program_of_def Let_def)
qed

lemma program_catalogued:
  assumes "n \<in> set (all_nodes (cg_root (ad_graph admitted)))" and "executable_spec_of n = Some spec"
  shows "bm_get (pm_timeouts (run_program_of admitted)) (es_name spec) \<noteq> None"
    and "bm_get (pm_instructions (run_program_of admitted)) (es_name spec) \<noteq> None"
  using collect_catalogues[OF assms] by (simp_all add: run_program_of_def execution_catalog_of_def catalogued_def Let_def)

section \<open>Dispatches are recorded and started\<close>

definition recorded :: "run_snapshot \<Rightarrow> dispatch \<Rightarrow> bool" where
  "recorded s d \<longleftrightarrow>
     (\<exists>node. node_at s (di_reference d) node \<and> nd_occurrence node = di_occurrence d
        \<and> nd_attempt node = di_attempt d \<and> nd_input node = di_input d)"

definition dispatchable :: "run_snapshot \<Rightarrow> dispatch list \<Rightarrow> bool" where
  "dispatchable s ds \<longleftrightarrow>
     sn_phase s = Running \<and> sn_primary_graph s = None \<and> \<not> sn_force_stop_requested s
     \<and> distinct (map (\<lambda>d. er_execution (di_reference d)) ds)
     \<and> (\<forall>d \<in> set ds. er_run_id (di_reference d) = sn_run_id s \<and> unused s (er_execution (di_reference d)))"

lemma dispatch_accepted:
  assumes "writable n s" and "dispatchable s (d # ds)" and "validate_event cd (dispatch_event d) = Inr ()"
  shows "\<exists>t. apply_event cd s (prepare_event s (dispatch_event d)) (Suc n) = Inr t \<and> writable (Suc n) t
    \<and> dispatchable t ds \<and> recorded t d \<and> (\<forall>d'. recorded s d' \<longrightarrow> recorded t d')
    \<and> sn_execution_seed t = sn_execution_seed s"
proof -
  let ?r = "di_reference d"
  let ?node = "\<lparr>nd_reference = ?r, nd_occurrence = di_occurrence d, nd_attempt = di_attempt d, nd_input = di_input d,
    nd_started_at = cursor_for (Suc n), nd_state = NodeActive, nd_failure_diagnostic = False\<rparr>"
  let ?t = "(put_node s (er_execution ?r) ?node)\<lparr>sn_cursor := cursor_for (Suc n)\<rparr>"
  have "event_step cd (Suc n) s (dispatch_event d) (put_node s (er_execution ?r) ?node)"
    using assms(2) by (simp add: dispatch_event_def event_step_simps dispatchable_def)
  then have ap: "apply_event cd s (dispatch_event d) (Suc n) = Inr ?t"
    using assms(1,3) by (auto simp: apply_event_iff writable_def)
  have "writable (Suc n) ?t"
    using apply_event_ok(1)[OF ap] assms(1) by (simp add: writable_def put_node_def)
  moreover have "dispatchable ?t ds"
    using assms(2) by (auto simp: dispatchable_def put_node_def unused_def image_iff)
  moreover have at: "node_at ?t r v \<longleftrightarrow> node_at (put_node s (er_execution ?r) ?node) r v" for r v
    by (simp add: node_at_def put_node_def)
  have "recorded ?t d" using assms(2) by (simp add: recorded_def at node_at_put dispatchable_def)
  moreover have "recorded ?t d'" if "recorded s d'" for d'
  proof -
    have "er_execution (di_reference d') \<noteq> er_execution ?r"
      using that assms(2) by (auto simp: recorded_def node_at_def dispatchable_def unused_def)
    then show ?thesis using that by (simp add: recorded_def at node_at_put)
  qed
  moreover have "prepare_event s (dispatch_event d) = dispatch_event d"
    by (simp add: dispatch_event_def prepare_event_def)
  moreover have "sn_execution_seed ?t = sn_execution_seed s" by (simp add: put_node_def)
  ultimately show ?thesis using ap by metis
qed

lemma dispatches_accepted:
  assumes "writable n s" and "dispatchable s ds" and "\<forall>d \<in> set ds. validate_event cd (dispatch_event d) = Inr ()"
    and "n + length ds \<le> u64_max"
  shows "\<exists>t. accepts cd n s (map dispatch_event ds) t \<and> writable (n + length ds) t
    \<and> (\<forall>d. d \<in> set ds \<or> recorded s d \<longrightarrow> recorded t d) \<and> sn_execution_seed t = sn_execution_seed s"
  using assms
proof (induction ds arbitrary: n s)
  case (Cons d ds)
  from dispatch_accepted[OF Cons.prems(1,2), of cd] Cons.prems(3) obtain u where
    u: "apply_event cd s (prepare_event s (dispatch_event d)) (Suc n) = Inr u" "writable (Suc n) u"
      "dispatchable u ds" "recorded u d" "\<forall>d'. recorded s d' \<longrightarrow> recorded u d'"
      "sn_execution_seed u = sn_execution_seed s" by auto
  from Cons.IH[OF u(2,3)] Cons.prems(3,4) obtain t where
    t: "accepts cd (Suc n) u (map dispatch_event ds) t" "writable (Suc n + length ds) t"
      "\<forall>d. d \<in> set ds \<or> recorded u d \<longrightarrow> recorded t d" "sn_execution_seed t = sn_execution_seed u" by auto
  have "accepts cd n s (map dispatch_event (d # ds)) t"
    using accepts_Cons[OF _ u(1) t(1)] Cons.prems(4) by simp
  then show ?case using t(2-4) u(4-6) by (intro exI[of _ t]) auto
next
  case Nil
  then show ?case by (intro exI[of _ s]) simp
qed


lemma start_dispatches_succeed:
  assumes "\<forall>d \<in> set ds. bm_get (rp_nodes (ad_runtime (pm_admitted program))) (er_node (di_reference d)) \<noteq> None
      \<and> bm_get (pm_instructions program) (er_node (di_reference d)) \<noteq> None
      \<and> bm_get (pm_timeouts program) (er_node (di_reference d)) \<noteq> None"
  shows "\<exists>s'. start_dispatches program ds s = (s', Inr ())"
  using assms
proof (induction ds arbitrary: s)
  case (Cons d ds)
  then show ?case by (fastforce simp: start_dispatch_def bind_sup_def Let_def)
qed (simp add: lift_res_def)

lemma dispatch_decisions_member:
  assumes "d \<in> set (dispatch_decisions rid decisions)"
  obtains dec where "dec \<in> set (dispatches decisions)" "dispatch_of rid dec = Some d"
    "er_node (di_reference d) = so_node (dp_occurrence dec)"
proof -
  from assms obtain dec where dec: "dec \<in> set decisions" "dispatch_of rid dec = Some d"
    by (auto simp: dispatch_decisions_def map_filter_def)
  have "is_dispatch dec \<and> er_node (di_reference d) = so_node (dp_occurrence dec)"
    using dec(2) by (cases dec rule: decision.exhaust) (auto simp: dispatch_of_def)
  then show ?thesis using that[of dec] dec by (simp add: dispatches_def)
qed

lemma dispatch_decisions_origin:
  assumes "reduce_run jl admitted snap = Inr red" and "d \<in> set (dispatch_decisions rid (rd_decisions red))"
  shows "\<exists>n spec. n \<in> set (all_nodes (cg_root (ad_graph admitted))) \<and> executable_spec_of n = Some spec
    \<and> er_node (di_reference d) = es_name spec"
proof -
  from assms(2) obtain dec where dec: "dec \<in> set (dispatches (rd_decisions red))"
    "er_node (di_reference d) = so_node (dp_occurrence dec)" by (rule dispatch_decisions_member)
  from assms(1) obtain H ni ne where red: "reduce jl (cg_root (ad_graph admitted)) NativeV2
       \<lparr>ri_initial_input = ad_initial_input admitted, ri_executions = H,
        ri_next_node_instance = ni, ri_next_execution = ne\<rparr> = Inr red" by (rule reduce_run_cases)
  from red obtain e0 e c st where "Engine_new \<lparr>ri_initial_input = ad_initial_input admitted, ri_executions = H,
        ri_next_node_instance = ni, ri_next_execution = ne\<rparr> (cg_root (ad_graph admitted)) NativeV2 = Inr e0"
    "eval jl (cg_root (ad_graph admitted)) e0 (Context_new (initial_state (cg_root (ad_graph admitted))
        \<lparr>ri_initial_input = ad_initial_input admitted, ri_executions = H,
        ri_next_node_instance = ni, ri_next_execution = ne\<rparr>)) root_traversal = Inr (e, c, st)"
    "dispatches (rd_decisions red) = dispatches (eng_decisions e)" by (rule reduce_emits)
  with reduce_origin[OF this(1,2), of dec] dec have "dispatch_origin (cg_root (ad_graph admitted)) root_traversal e0 dec"
    by simp
  then show ?thesis unfolding dispatch_origin_def dec(2) by blast
qed


text \<open>A batch of dispatches that is appended and started leads back to the next turn.\<close>

lemma log_current:
  assumes "current ho s snap"
  obtains log where "ledger_log (sp_ledger s) (sp_run_id s) = Some log"
    "ledger_current (sp_ledger s) (sp_run_id s) = Some snap" "run_ok (length log) snap"
proof -
  from assms obtain run where run: "bm_get (fs_runs (sp_ledger s)) (sp_run_id s) = Some run"
    "sr_snapshot (fr_stored run) = snap" "run_inv (ho_codec ho) (sp_run_id s) run"
    using ledger_okD(3) by (auto simp: current_def)
  with run_inv_ok(1)[OF run(3)] that[of "fr_events run"] show ?thesis
    by (simp add: ledger_log_def ledger_current_def)
qed

lemma current_unique:
  assumes "current ho s snap" and "ledger_current (sp_ledger s) (sp_run_id s) = Some snap'"
  shows "snap' = snap"
  using assms by (auto simp: current_def ledger_current_def)

lemma append_events_log:
  assumes "append_events ho evs s = (s', Inr snap')" and "current ho s snap"
    and "ledger_log (sp_ledger s) (sp_run_id s) = Some log"
  obtains es where "ledger_log (sp_ledger s') (sp_run_id s') = Some (log @ es)" "length es = length evs"
    "ledger_current (sp_ledger s') (sp_run_id s') = Some snap'" "run_ok (length log + length evs) snap'"
proof -
  from assms(1) obtain res where ap: "ledger_append (ho_codec ho) (sp_ledger s) (sp_run_id s) evs = Inr (res, sp_ledger s')"
    "sp_run_id s' = sp_run_id s" "snap' = ap_snapshot res"
    by (auto simp: append_events_def split: sum.splits prod.splits)
  have ok: "ledger_ok (ho_codec ho) (sp_ledger s)" using assms(2) by (simp add: current_def)
  from ap(1) ok obtain run run' where "append_locked (ho_codec ho) run evs = Inr (res, run')"
    "run_inv (ho_codec ho) (sp_run_id s) run" by (rule ledger_append_cases)
  then have len: "length (ap_events res) = length evs" by (rule append_locked_ok(7))
  have log: "ledger_log (sp_ledger s') (sp_run_id s') = Some (log @ ap_events res)"
    "ledger_current (sp_ledger s') (sp_run_id s') = Some snap'"
    using fake.append_log[OF ok ap(1)] assms(3) ap(2,3) by auto
  from append_events_ok(2)[OF assms(1,2)] obtain log' where
    l': "ledger_log (sp_ledger s') (sp_run_id s') = Some log'" "run_ok (length log') snap'" by (rule log_current)
  moreover have "length log' = length log + length evs" using log(1) l'(1) len by (simp flip: len)
  ultimately have "run_ok (length log + length evs) snap'" by simp
  with that log len show ?thesis by blast
qed

lemma owns_writable:
  assumes "owns ho s snap" and "ledger_log (sp_ledger s) (sp_run_id s) = Some log"
  shows "writable (length log) snap"
  using ownsD(1,2)[OF assms(1)] assms(2) log_current[OF ownsD(1)[OF assms(1)]]
  by (auto simp: writable_def open_run_def)


lemma advance_dispatches:
  assumes "drive_ok ho s (Deciding old)" and "program = run_program_of (pm_admitted program)"
    and "reduce_run (ho_json_len ho) (pm_admitted program) old = Inr red"
    and "void_decisions (rd_decisions red) = []" and "rd_terminal red = None"
    and "ds = dispatch_decisions (sp_run_id s) (rd_decisions red)" and "ds \<noteq> []"
    and "\<not> sp_force_requested s"
    and "ledger_current (sp_ledger s) (sp_run_id s) = Some snap" and "\<not> sn_force_stop_requested snap"
    and "ledger_log (sp_ledger s) (sp_run_id s) = Some log" and "length log + length ds \<le> u64_max"
    and "\<forall>d \<in> set ds. validate_event (ho_codec ho) (dispatch_event d) = Inr ()"
    and "\<forall>d \<in> set ds. bm_get (rp_nodes (ad_runtime (pm_admitted program))) (er_node (di_reference d)) \<noteq> None"
  obtains s' snap' where "advance ho program old s = (s', Inr Turn)"
    "map pn_reference (sp_tasks s') = map pn_reference (sp_tasks s) @ map di_reference ds"
    "ledger_current (sp_ledger s') (sp_run_id s') = Some snap'" "\<forall>d \<in> set ds. recorded snap' d"
    "run_ok (length log + length ds) snap'" "sp_run_id s' = sp_run_id s"
    "sn_execution_seed snap' = sn_execution_seed snap"
    "\<forall>d \<in> set ds. unused snap (er_execution (di_reference d))"
proof -
  from assms(1) obtain now n where own: "owns ho s now" and core: "same_core old now"
    and old: "run_ok n old" by auto
  have now: "now = snap" using current_unique[OF ownsD(1)[OF own] assms(9)] by simp
  note cur = ownsD(1)[OF own, unfolded now]
  have ok: "nodes_ok n old" "seed_ok old" using old by (simp_all add: run_ok_def)
  have rid: "sn_run_id snap = sp_run_id s" using currentD[OF cur] by metis
  have fresh: "\<forall>d \<in> set ds. unused snap (er_execution (di_reference d))"
    using reduce_run_dispatches(2)[OF assms(3) ok] same_core_unused[OF core] now assms(6) by blast
  moreover have "sn_phase snap = Running \<and> sn_primary_graph snap = None"
    using ownsD(2)[OF own] currentD[OF cur] assms(10) unfolding now by (auto simp: open_run_def phase_ok_def)
  ultimately have "dispatchable snap ds"
    using reduce_run_dispatches(1)[OF assms(3) ok] dispatch_decisions_run assms(6,10)
    by (simp add: dispatchable_def rid)
  from dispatches_accepted[OF owns_writable[OF own assms(11), unfolded now] this assms(13,12)] obtain t where
    t: "accepts (ho_codec ho) (length log) snap (map dispatch_event ds) t" "\<forall>d \<in> set ds. recorded t d"
      "sn_execution_seed t = sn_execution_seed snap" by blast
  have "run_ok (length log) snap" using owns_writable[OF own assms(11)] by (simp add: writable_def now)
  from accepted_append[OF cur this t(1)] assms(7) obtain s1 where
    ap: "append_events ho (map dispatch_event ds) s = (s1, Inr t)" by auto
  have known: "\<forall>d \<in> set ds. bm_get (pm_instructions program) (er_node (di_reference d)) \<noteq> None
      \<and> bm_get (pm_timeouts program) (er_node (di_reference d)) \<noteq> None"
    using dispatch_decisions_origin[OF assms(3)] program_catalogued assms(2,6) by metis
  then obtain s' where st: "start_dispatches program ds s1 = (s', Inr ())"
    using start_dispatches_succeed[of ds program s1] assms(14) by blast
  note stok = start_dispatches_ok[OF st] and apok = append_events_ok(1)[OF ap cur]
  from append_events_log[OF ap cur assms(11)] obtain es where
    es: "ledger_current (sp_ledger s1) (sp_run_id s1) = Some t" "run_ok (length log + length ds) t" by auto
  have "advance ho program old s = (s', Inr Turn)"
    using assms(3-8) ap st by (simp add: advance_def dispatch_all_def record_dispatches_def bind_sup_def lift_res_def)
  then show ?thesis
    using that[of s' t] stok apok es t(2,3) fresh by (simp add: same_tasks_def)
qed

text \<open>What is recorded is what the next reduction reads back.\<close>

lemma recorded_history:
  assumes "run_ok n s" and "n + seed_offset (sn_execution_seed s) < HistoryPosition_MAX" and "recorded s d"
    and "er_execution (di_reference d) \<notin> de_execution ` set (sn_execution_seed s)"
  shows "\<exists>H e. durable_history s = Inr H \<and> e \<in> set H \<and> de_execution e = er_execution (di_reference d)
    \<and> de_node_instance e = er_node_instance (di_reference d) \<and> de_occurrence e = di_occurrence d
    \<and> de_attempt e = di_attempt d \<and> de_input e = di_input d \<and> de_state e = ExecActive"
proof -
  from assms(1,2) obtain H where H: "durable_history s = Inr H"
    "\<forall>e \<in> set H. e \<in> set (sn_execution_seed s) \<or> stands_for s n e"
    "set (map de_execution H) = fst ` set (sn_executions s) \<union> de_execution ` set (sn_execution_seed s)"
    by (rule durable_history_ok)
  from assms(3) obtain node where node: "node_at s (di_reference d) node" "nd_occurrence node = di_occurrence d"
    "nd_attempt node = di_attempt d" "nd_input node = di_input d" by (auto simp: recorded_def)
  then have "er_execution (di_reference d) \<in> set (map de_execution H)"
    unfolding H(3) by (force simp: node_at_def dest: bm_get_SomeD)
  then obtain e where e: "e \<in> set H" "de_execution e = er_execution (di_reference d)" by auto
  then have "stands_for s n e" using H(2) assms(4) by (metis image_eqI)
  then have sh: "shifted (seed_offset (sn_execution_seed s)) n node e"
    using node(1) e(2) by (auto simp: stands_for_def node_at_def)
  have ref: "nd_reference node = di_reference d" using node(1) by (simp add: node_at_def)
  have "de_state e = ExecActive" using shiftedD(5)[OF sh] node(1) by (simp add: node_at_def)
  moreover have "de_node_instance e = er_node_instance (di_reference d)" "de_occurrence e = di_occurrence d"
    "de_attempt e = di_attempt d" "de_input e = di_input d"
    using sh node(2-4) unfolding shifted_def ref by (elim conjE; simp)+
  ultimately show ?thesis using H(1) e by (intro exI[of _ H] exI[of _ e]) simp
qed


section \<open>Stopping a run ends it\<close>

lemma known_logI:
  "utf8_length line \<le> MAX_SAFE_LOG_BYTES \<Longrightarrow> bm_get (sn_executions s) x \<noteq> None \<Longrightarrow>
   known_log s (SafeLog (Some x) ts LogError line k)"
  by (simp add: known_log_def)

lemma node_failure_log_known:
  obtains lg where "node_failure_log ck r out el cause = Inr lg" "length (option_list lg) \<le> 1"
    "\<And>s ev. bm_get (sn_executions s) (er_execution r) \<noteq> None \<Longrightarrow> ev \<in> set (option_list lg) \<Longrightarrow> known_log s ev"
proof (cases out)
  case (OutcomeError code reason)
  then obtain m where m: "node_failure_log ck r out el cause =
      bind_res (error_log ck (Some (er_execution r)) m (Some Failure)) (\<lambda>event. Inr (Some event))"
    by (simp add: node_failure_log_def Let_def)
  obtain line where "error_log ck (Some (er_execution r)) m (Some Failure)
      = Inr (SafeLog (Some (er_execution r)) (ck_now ck) LogError line (Some Failure))"
    "utf8_length line \<le> MAX_SAFE_LOG_BYTES" by (rule error_log_ok)
  then show ?thesis
    using that[of "Some (SafeLog (Some (er_execution r)) (ck_now ck) LogError line (Some Failure))"] known_logI
    by (simp add: m option_list_def)
qed (use that[of None] in \<open>simp_all add: node_failure_log_def option_list_def\<close>)

lemma failure_log_known:
  obtains lg where "failure_log ck fin = Inr lg" "length (option_list lg) \<le> 1"
    "\<And>s ev. bm_get (sn_executions s) (er_execution (fin_reference fin)) \<noteq> None \<Longrightarrow> ev \<in> set (option_list lg) \<Longrightarrow>
       known_log s ev"
proof -
  have "failure_log ck fin = Inr None \<or> (\<exists>out. failure_log ck fin =
      node_failure_log ck (fin_reference fin) out (Some (fin_elapsed fin)) (settled_failure_cause (fin_result fin) False))"
    by (auto simp: failure_log_def Let_def split: dispatch_result.splits sum.splits)
  then show ?thesis
  proof (elim disjE exE)
    assume "failure_log ck fin = Inr None"
    then show ?thesis using that[of None] by (simp add: option_list_def)
  next
    fix out assume out: "failure_log ck fin =
      node_failure_log ck (fin_reference fin) out (Some (fin_elapsed fin)) (settled_failure_cause (fin_result fin) False)"
    obtain lg where "node_failure_log ck (fin_reference fin) out (Some (fin_elapsed fin))
        (settled_failure_cause (fin_result fin) False) = Inr lg" "length (option_list lg) \<le> 1"
      "\<And>s ev. bm_get (sn_executions s) (er_execution (fin_reference fin)) \<noteq> None \<Longrightarrow>
         ev \<in> set (option_list lg) \<Longrightarrow> known_log s ev" by (rule node_failure_log_known) blast
    then show ?thesis using that[of lg] out by simp
  qed
qed

lemma drain_succeeds:
  assumes "\<forall>f \<in> set drained. terminal_drain_result (fin_result f) = Inr ()
      \<and> bm_get (sn_executions snap) (er_execution (fin_reference f)) \<noteq> None"
    and "\<forall>ev \<in> set logs. known_log snap ev"
  shows "\<exists>logs'. drain_terminalizing_tasks ho logs drained s = (s, Inr logs')
    \<and> length logs' \<le> length logs + length drained \<and> (\<forall>ev \<in> set logs'. known_log snap ev)"
  using assms
proof (induction drained arbitrary: logs)
  case (Cons f drained)
  obtain lg where lg: "failure_log (ho_clock ho) f = Inr lg" "length (option_list lg) \<le> 1"
    "\<And>s ev. bm_get (sn_executions s) (er_execution (fin_reference f)) \<noteq> None \<Longrightarrow> ev \<in> set (option_list lg) \<Longrightarrow>
       known_log s ev" by (rule failure_log_known) blast
  have "\<forall>ev \<in> set (logs @ option_list lg). known_log snap ev" using Cons.prems lg(3)[of snap] by auto
  with Cons.IH[of "logs @ option_list lg"] Cons.prems(1) obtain logs' where
    "drain_terminalizing_tasks ho (logs @ option_list lg) drained s = (s, Inr logs')"
    "length logs' \<le> length (logs @ option_list lg) + length drained" "\<forall>ev \<in> set logs'. known_log snap ev" by auto
  then show ?case using lg(1,2) Cons.prems(1)
    by (intro exI[of _ logs']) (simp add: bind_sup_def lift_res_def map_err_def Let_def)
qed (simp add: lift_res_def)

lemma stop_run_succeeds:
  assumes "current ho s snap" and "encodes_small (ho_codec ho)" and "EnumLabel_new reason = Inr reason"
    and "\<forall>ev \<in> set logs. known_log snap ev"
    and "ledger_log (sp_ledger s) (sp_run_id s) = Some log"
    and "length log + length logs + 2 * length (active_executions snap) + 2 \<le> u64_max"
  shows "\<exists>s' t snap'. stop_run ho reason code logs s = (s', Inr t) \<and> sp_run_id s' = sp_run_id s
    \<and> current ho s' snap' \<and> sn_terminal snap' = Some t
    \<and> (sn_terminal snap = None \<longrightarrow> (\<exists>fc. t = Failed reason fc \<and> (is_force_stopped reason \<longrightarrow> fc = None)))"
proof (cases "sn_terminal snap")
  case (Some t)
  then show ?thesis using assms(1) sup_snapshot_current[OF assms(1)]
    by (intro exI[of _ s] exI[of _ t] exI[of _ snap]) (simp add: stop_run_def bind_sup_def lift_res_def)
next
  case None
  have ok: "run_ok (length log) snap" using log_current[OF assms(1)] assms(5) by auto
  then have wr: "writable (length log) snap" using None by (simp add: writable_def)
  obtain evs t fc where ev: "terminal_failure_events (ho_clock ho) snap reason code = Inr evs"
    "accepts (ho_codec ho) (length log) snap (logs @ evs) t" "evs \<noteq> []"
    "sn_terminal t = Some (Failed reason fc)" "active_refs t = {}" "is_force_stopped reason \<longrightarrow> fc = None"
    using terminal_failure_accepted[OF assms(2) wr assms(3,4,6)] by metis
  from accepted_append[OF assms(1) ok ev(2)] ev(3) obtain s' where
    ap: "append_events ho (logs @ evs) s = (s', Inr t)" by auto
  have "stop_run ho reason code logs s = (s', Inr (Failed reason fc))"
    using ap ev(1,4) None sup_snapshot_current[OF assms(1)]
    by (simp add: stop_run_def append_terminal_failure_def bind_sup_def lift_res_def map_err_def ok_or_def)
  then show ?thesis using append_events_ok(1,2)[OF ap assms(1)] ev(4,6)
    by (intro exI[of _ s'] exI[of _ "Failed reason fc"] exI[of _ t]) (simp add: same_tasks_def)
qed

lemma finished_inactive:
  assumes "current ho s snap" and "sn_terminal snap \<noteq> None"
  shows "active_executions snap = []"
proof -
  from assms(1) obtain n where "phase_ok snap" by (rule currentD)
  then show ?thesis using assms(2) by (simp add: phase_ok_def)
qed

lemma terminalize_succeeds:
  assumes "current ho s snap" and "drains s drained" and "pn_reference ` set (sp_tasks s) \<subseteq> active_refs snap"
    and "\<forall>f \<in> set drained. terminal_drain_result (fin_result f) = Inr ()"
    and "encodes_small (ho_codec ho)" and "EnumLabel_new reason = Inr reason"
    and "ledger_log (sp_ledger s) (sp_run_id s) = Some log"
    and "length log + length drained + 2 * length (active_executions snap) + 2 \<le> u64_max"
  shows "\<exists>s' t snap'. bind_sup (drain_terminalizing_tasks ho [] drained) (stop_run ho reason code) (s\<lparr>sp_tasks := []\<rparr>)
      = (s', Inr t) \<and> ledger_current (sp_ledger s') (sp_run_id s) = Some snap'
    \<and> sn_terminal snap' = Some t \<and> active_executions snap' = []
    \<and> (sn_terminal snap = None \<longrightarrow> (\<exists>fc. t = Failed reason fc \<and> (is_force_stopped reason \<longrightarrow> fc = None)))"
proof -
  let ?s = "s\<lparr>sp_tasks := []\<rparr>"
  have cur: "current ho ?s snap" using current_cong[of ?s s] assms(1) by simp
  have "set_mset (mset (map fin_reference drained)) = set_mset (mset (map pn_reference (sp_tasks s)))"
    using assms(2) unfolding drains_def by (rule arg_cong[OF conjunct1])
  then have "fin_reference ` set drained = pn_reference ` set (sp_tasks s)" by simp
  then have "\<forall>f \<in> set drained. fin_reference f \<in> active_refs snap" using assms(3) by blast
  then have "\<forall>f \<in> set drained. terminal_drain_result (fin_result f) = Inr ()
      \<and> bm_get (sn_executions snap) (er_execution (fin_reference f)) \<noteq> None"
    using assms(4) active_ref_known by blast
  from drain_succeeds[OF this, of "[]" ho ?s] obtain logs where
    logs: "drain_terminalizing_tasks ho [] drained ?s = (?s, Inr logs)" "length logs \<le> length drained"
      "\<forall>ev \<in> set logs. known_log snap ev" by auto
  have log: "ledger_log (sp_ledger ?s) (sp_run_id ?s) = Some log" using assms(7) by simp
  have room: "length log + length logs + 2 * length (active_executions snap) + 2 \<le> u64_max"
    using logs(2) assms(8) by linarith
  from stop_run_succeeds[OF cur assms(5,6) logs(3) log room, of code] obtain s' t snap' where st: "stop_run ho reason code logs ?s = (s', Inr t)" "sp_run_id s' = sp_run_id ?s"
    "current ho s' snap'" "sn_terminal snap' = Some t"
    "sn_terminal snap = None \<longrightarrow> (\<exists>fc. t = Failed reason fc \<and> (is_force_stopped reason \<longrightarrow> fc = None))" by (elim exE conjE)
  have "ledger_current (sp_ledger s') (sp_run_id s) = Some snap'" using log_current[OF st(3)] st(2) by simp
  moreover have "active_executions snap' = []" using finished_inactive[OF st(3)] st(4) by simp
  ultimately show ?thesis using st(1,4,5) logs(1) by (intro exI[of _ s'] exI[of _ t] exI[of _ snap']) (simp add: bind_sup_def)
qed


section \<open>A finished dispatch is settled\<close>

text \<open>The event that settles a finished dispatch: the void the reducer asked for, or its outcome.\<close>

definition settlement :: "finished_dispatch \<Rightarrow> execution_void_reason option \<Rightarrow> worker_outcome \<Rightarrow> run_event" where
  "settlement fin pending out =
     (case pending of
        Some reason \<Rightarrow> ExecutionVoided (fin_reference fin) reason
      | None \<Rightarrow> NodeCompleted \<lparr>nc_reference = fin_reference fin, nc_outcome = out\<rparr>)"

definition settled_state :: "execution_void_reason option \<Rightarrow> worker_outcome \<Rightarrow> cursor \<Rightarrow> node_state" where
  "settled_state pending out c =
     (case pending of Some reason \<Rightarrow> NodeVoided c reason | None \<Rightarrow> NodeSettled c out)"

lemma known_log_clear: "known_log s ev \<Longrightarrow> known_log s (clear_diagnostic ev)"
  by (auto simp: known_log_def clear_diagnostic_def)

lemma clear_recorded_shape:
  assumes "\<forall>ev \<in> set logs. known_log s ev"
  shows "\<exists>logs'. clear_recorded_diagnostics (logs @ [settlement fin pending out]) snap b = logs' @ [settlement fin pending out]
    \<and> length logs' = length logs \<and> (\<forall>ev \<in> set logs'. known_log s ev)"
proof -
  let ?f = "\<lambda>event. case event of
          SafeLog (Some i) _ _ _ _ \<Rightarrow>
            (case bm_get (sn_executions snap) i of
               Some node \<Rightarrow> if nd_failure_diagnostic node then clear_diagnostic event else event
             | None \<Rightarrow> event)
        | _ \<Rightarrow> event"
  have "?f ev = ev \<or> ?f ev = clear_diagnostic ev" for ev
    by (cases ev) (auto split: option.split)
  then have "known_log s (?f ev)" if "known_log s ev" for ev using that known_log_clear[OF that] by metis
  moreover have "?f (settlement fin pending out) = settlement fin pending out"
    by (simp add: settlement_def split: option.split)
  ultimately show ?thesis
    using assms unfolding clear_recorded_diagnostics_def
    by (cases b) (auto intro!: exI[of _ "map ?f logs"] exI[of _ logs])
qed

lemma completion_shape:
  assumes "settled_outcome (fin_reference fin) (fin_result fin) force = Inr out"
    and "bm_get (sn_executions s) (er_execution (fin_reference fin)) \<noteq> None"
  shows "\<exists>logs. finished_completion_events ck fin force = Inr (logs @ [settlement fin None out])
    \<and> length logs \<le> 2 \<and> (\<forall>ev \<in> set logs. known_log s ev)"
proof -
  obtain lg where lg: "failure_log ck fin = Inr lg" "length (option_list lg) \<le> 1"
    "\<And>s ev. bm_get (sn_executions s) (er_execution (fin_reference fin)) \<noteq> None \<Longrightarrow> ev \<in> set (option_list lg) \<Longrightarrow>
       known_log s ev" by (rule failure_log_known) blast
  obtain lg2 where lg2: "node_failure_log ck (fin_reference fin) out (Some (fin_elapsed fin))
      (settled_failure_cause (fin_result fin) force) = Inr lg2" "length (option_list lg2) \<le> 1"
    "\<And>s ev. bm_get (sn_executions s) (er_execution (fin_reference fin)) \<noteq> None \<Longrightarrow> ev \<in> set (option_list lg2) \<Longrightarrow>
       known_log s ev" by (rule node_failure_log_known) blast
  let ?first = "if force then option_list lg else []"
  let ?second = "if force \<or> synthetic_result (fin_result fin) then map clear_diagnostic (option_list lg2) else option_list lg2"
  have "finished_completion_events ck fin force = Inr ((?first @ ?second) @ [settlement fin None out])"
    using lg(1) lg2(1) assms(1)
    by (simp add: finished_completion_events_def log_completion_events_def map_err_def clear_diagnostics_def
        clear_diagnostic_def settlement_def option_list_def split: option.split)
  moreover have "\<forall>ev \<in> set (?first @ ?second). known_log s ev"
    using lg(3)[OF assms(2)] lg2(3)[OF assms(2)] known_log_clear by (auto split: if_splits)
  moreover have "length (?first @ ?second) \<le> 2" using lg(2) lg2(2) by simp
  ultimately show ?thesis by blast
qed

lemma settle_events_shape:
  assumes "bm_get (sn_executions s) (er_execution (fin_reference fin)) \<noteq> None"
    and "pending = None \<Longrightarrow>
      settled_outcome (fin_reference fin) (fin_result fin) (force \<or> sn_force_stop_requested snap) = Inr out"
  shows "\<exists>logs. settle_events ho snap force fin pending = Inr (logs @ [settlement fin pending out])
    \<and> length logs \<le> 2 \<and> (\<forall>ev \<in> set logs. known_log s ev)"
proof -
  obtain lg where lg: "failure_log (ho_clock ho) fin = Inr lg" "length (option_list lg) \<le> 1"
    "\<And>s ev. bm_get (sn_executions s) (er_execution (fin_reference fin)) \<noteq> None \<Longrightarrow> ev \<in> set (option_list lg) \<Longrightarrow>
       known_log s ev" by (rule failure_log_known) blast
  have "\<exists>logs. (case pending of
         Some reason \<Rightarrow>
           bind_res (map_err SupLedger (failure_log (ho_clock ho) fin)) (\<lambda>log.
           Inr (option_list log @ [ExecutionVoided (fin_reference fin) reason]))
       | None \<Rightarrow> finished_completion_events (ho_clock ho) fin (force \<or> sn_force_stop_requested snap))
       = Inr (logs @ [settlement fin pending out]) \<and> length logs \<le> 2 \<and> (\<forall>ev \<in> set logs. known_log s ev)"
  proof (cases pending)
    case None
    then show ?thesis using completion_shape[OF assms(2)[OF None] assms(1), of "ho_clock ho"] by simp
  next
    case (Some reason)
    then show ?thesis using lg(1,2) lg(3)[OF assms(1)]
      by (intro exI[of _ "option_list lg"]) (simp add: map_err_def settlement_def)
  qed
  then obtain logs where logs: "(case pending of
         Some reason \<Rightarrow>
           bind_res (map_err SupLedger (failure_log (ho_clock ho) fin)) (\<lambda>log.
           Inr (option_list log @ [ExecutionVoided (fin_reference fin) reason]))
       | None \<Rightarrow> finished_completion_events (ho_clock ho) fin (force \<or> sn_force_stop_requested snap))
       = Inr (logs @ [settlement fin pending out])" "length logs \<le> 2" "\<forall>ev \<in> set logs. known_log s ev"
    by (elim exE conjE)
  show ?thesis using clear_recorded_shape[OF logs(3), of fin pending out snap] logs(2)
    unfolding settle_events_def logs(1) by fastforce
qed


lemma settlement_step:
  assumes "writable n s" and "fin_reference fin \<in> active_refs s"
    and "pending = None \<Longrightarrow> \<not> outcome_has_artifacts out \<and> outcome_validate out = Inr ()"
    and "validate_event cd (settlement fin pending out) = Inr ()"
  shows "\<exists>t node. apply_event cd s (prepare_event s (settlement fin pending out)) (Suc n) = Inr t
    \<and> active_refs t = active_refs s - {fin_reference fin}
    \<and> bm_get (sn_executions t) (er_execution (fin_reference fin)) = Some node
    \<and> nd_reference node = fin_reference fin \<and> nd_state node = settled_state pending out (cursor_for (Suc n))"
proof -
  have "(\<exists>o'. settlement fin pending out = NodeCompleted \<lparr>nc_reference = fin_reference fin, nc_outcome = o'\<rparr>
      \<and> \<not> outcome_has_artifacts o' \<and> outcome_validate o' = Inr ())
    \<or> (\<exists>reason. settlement fin pending out = ExecutionVoided (fin_reference fin) reason)"
    using assms(3) by (auto simp: settlement_def split: option.split)
  from settlement_accepted[OF assms(1,2) this assms(4)] obtain t where
    t: "apply_event cd s (prepare_event s (settlement fin pending out)) (Suc n) = Inr t"
      "active_refs t = active_refs s - {fin_reference fin}" by blast
  have prep: "prepare_event s (settlement fin pending out) = settlement fin pending out"
    by (simp add: settlement_def prepare_event_def split: option.split)
  from t(1) obtain u where u: "event_step cd (Suc n) s (settlement fin pending out) u"
    "t = u\<lparr>sn_cursor := cursor_for (Suc n)\<rparr>" by (auto simp: apply_event_iff prep)
  have "\<exists>node. bm_get (sn_executions u) (er_execution (fin_reference fin)) = Some node
      \<and> nd_reference node = fin_reference fin \<and> nd_state node = settled_state pending out (cursor_for (Suc n))"
    using u(1) by (cases pending)
      (auto simp: settlement_def settled_state_def event_step_simps put_node_def node_at_def)
  then show ?thesis using t u(2) by auto
qed

lemma settle_succeeds:
  assumes "drive_ok ho s (Settling fin old phase)" and "encodes_small (ho_codec ho)"
    and "pending = bm_get (sp_pending_voids s) (fin_execution fin)"
    and "pending = None \<Longrightarrow> settled_outcome (fin_reference fin) (fin_result fin)
        (sp_force_requested s \<or> sn_force_stop_requested old) = Inr out
      \<and> \<not> outcome_has_artifacts out \<and> outcome_validate out = Inr ()"
    and "validate_event (ho_codec ho) (settlement fin pending out) = Inr ()"
    and "ledger_log (sp_ledger s) (sp_run_id s) = Some log" and "length log + 3 \<le> u64_max"
  obtains s' snap' node c where "settle ho old fin s = (s', Inr ())"
    "ledger_current (sp_ledger s') (sp_run_id s) = Some snap'"
    "bm_get (sn_executions snap') (fin_execution fin) = Some node" "nd_reference node = fin_reference fin"
    "nd_state node = settled_state pending out c"
proof -
  from assms(1) obtain snap where own: "owns_but ho s snap fin" by auto
  then have cur: "current ho s snap" and op: "open_run snap" and act: "fin_reference fin \<in> active_refs snap"
    and ex: "fin_execution fin = er_execution (fin_reference fin)" by (simp_all add: owns_but_def)
  have ok: "run_ok (length log) snap" using log_current[OF cur] assms(6) by auto
  then have wr: "writable (length log) snap" using op by (simp add: writable_def open_run_def)
  from settle_events_shape[of snap fin pending "sp_force_requested s" old out ho] active_ref_known[OF act] assms(4)
  obtain logs where logs: "settle_events ho old (sp_force_requested s) fin pending = Inr (logs @ [settlement fin pending out])"
    "length logs \<le> 2" "\<forall>ev \<in> set logs. known_log snap ev" by blast
  obtain u where u: "accepts (ho_codec ho) (length log) snap logs u" "same_core snap u"
    "writable (length log + length logs) u"
    using logs_accepted[OF assms(2) wr logs(3)] logs(2) assms(7) by auto
  have "fin_reference fin \<in> active_refs u" using act same_core_active[OF u(2)] by simp
  from settlement_step[OF u(3) this _ assms(5)] assms(4) obtain t node where
    t: "apply_event (ho_codec ho) u (prepare_event u (settlement fin pending out)) (Suc (length log + length logs)) = Inr t"
      "bm_get (sn_executions t) (er_execution (fin_reference fin)) = Some node" "nd_reference node = fin_reference fin"
      "nd_state node = settled_state pending out (cursor_for (Suc (length log + length logs)))" by blast
  have "accepts (ho_codec ho) (length log) snap (logs @ [settlement fin pending out]) t"
    using accepts_append[OF u(1) accepts_Cons[OF _ t(1) accepts_Nil]] logs(2) assms(7) by simp
  moreover let ?s = "s\<lparr>sp_pending_voids := bm_retain (\<lambda>x _. x \<noteq> fin_execution fin) (sp_pending_voids s)\<rparr>"
  have cur': "current ho ?s snap" using cur current_cong[of ?s s] by simp
  ultimately obtain s' where ap: "append_events ho (logs @ [settlement fin pending out]) ?s = (s', Inr t)"
    using accepted_append[OF cur' ok] by blast
  have "sp_run_id s' = sp_run_id s" using append_events_ok(1)[OF ap cur'] by (simp add: same_tasks_def)
  moreover have "ledger_current (sp_ledger s') (sp_run_id s') = Some t"
    using log_current[OF append_events_ok(2)[OF ap cur']] by metis
  ultimately have "ledger_current (sp_ledger s') (sp_run_id s) = Some t" by simp
  moreover have "settle ho old fin s = (s', Inr ())"
    using logs(1) ap assms(3) by (simp add: settle_def bind_sup_def lift_res_def Let_def)
  ultimately show ?thesis using that t(2-4) ex by simp
qed

end
