(* ===== verification/Supervisor_Properties.thy ===== *)
theory Supervisor_Properties
  imports Supervisor_Progress
begin

text \<open>
  The properties of the driving supervisor: it tracks exactly the executions the ledger holds active,
  its cancellations and dispatches never miss, every finished dispatch is settled, what it records is
  what the next reduction reads back, and a stopped run ends. The race of two workers, driven step by
  step, is the running example.
\<close>

section \<open>A driven race\<close>

definition race_host :: host where
  "race_host = \<lparr>ho_codec = demo_codec, ho_clock = \<lparr>ck_now = 0, ck_seconds = (\<lambda>_. ''0.0'')\<rparr>, ho_json_len = (\<lambda>_. 1)\<rparr>"

definition race_binding :: node_runtime_binding where
  "race_binding = ScriptBinding [''make''] []"

definition race_admitted :: admitted_run where
  "race_admitted = demo_admitted
     \<lparr>ad_graph := (ad_graph demo_admitted)\<lparr>cg_initial_input := PRecord [], cg_root := demo_race\<rparr>,
      ad_initial_input := VObject [],
      ad_runtime := (ad_runtime demo_admitted)\<lparr>rp_nodes := [(''a'', race_binding), (''b'', race_binding)]\<rparr>\<rparr>"

definition race_stored :: stored_run where
  "race_stored = \<lparr>sr_submission_key = ''k'', sr_submission_digest = ''d'', sr_admitted = race_admitted,
                  sr_snapshot = snapshot_admitted ''r'' race_admitted\<rparr>"

definition race_snap :: "run_phase \<Rightarrow> u64 \<Rightarrow> (execution_id, node_snapshot) btree_map \<Rightarrow> run_snapshot" where
  "race_snap phase n nodes =
     \<lparr>sn_run_id = ''r'', sn_title = ''demo'', sn_source = None, sn_size = Small,
      sn_cursor = cursor_for n, sn_phase = phase, sn_force_stop_requested = False,
      sn_executions = nodes, sn_execution_seed = [], sn_primary_graph = None, sn_terminal = None,
      sn_token_usage = None, sn_failure_context = None\<rparr>"

definition race_ref :: "node_name \<Rightarrow> u64 \<Rightarrow> execution_ref" where
  "race_ref name i = \<lparr>er_run_id = ''r'', er_node = name, er_node_instance = i, er_execution = i\<rparr>"

definition race_node :: "node_name \<Rightarrow> u64 \<Rightarrow> node_state \<Rightarrow> node_snapshot" where
  "race_node name i state =
     \<lparr>nd_reference = race_ref name i, nd_occurrence = StructuralOccurrence name [], nd_attempt = 1,
      nd_input = VNull, nd_started_at = cursor_for (i + 1), nd_state = state, nd_failure_diagnostic = False\<rparr>"

definition race_task :: "node_name \<Rightarrow> u64 \<Rightarrow> pending_node" where
  "race_task name i =
     \<lparr>pn_reference = race_ref name i, pn_worker = ''worker@1'', pn_instructions = None, pn_input = VNull,
      pn_binding = race_binding, pn_attempt = 1, pn_iteration = 0, pn_timeout = None\<rparr>"

fun race_log :: "u64 \<Rightarrow> run_event list \<Rightarrow> stored_run_event list" where
  "race_log n [] = []"
| "race_log n (e # es) = \<lparr>se_cursor = cursor_for (Suc n), se_event = e\<rparr> # race_log (Suc n) es"

lemma race_log_append: "race_log n (xs @ ys) = race_log n xs @ race_log (n + length xs) ys"
  by (induction xs arbitrary: n) auto

definition race_sup :: "run_snapshot \<Rightarrow> run_event list \<Rightarrow> pending_node list \<Rightarrow> supervisor" where
  "race_sup snap evs tasks =
     \<lparr>sp_run_id = ''r'',
      sp_ledger = \<lparr>fs_runs = [(''r'', \<lparr>fr_stored = race_stored\<lparr>sr_snapshot := snap\<rparr>, fr_events = race_log 0 evs\<rparr>)],
        fs_submissions = [(''k'', ''r'')]\<rparr>,
      sp_force_requested = False, sp_runtime_lost = False, sp_tasks = tasks,
      sp_cancellations = map (\<lambda>t. er_execution (pn_reference t)) tasks, sp_pending_voids = []\<rparr>"

lemma race_sup_simps [simp]:
  "sp_run_id (race_sup snap evs tasks) = ''r''" "sp_pending_voids (race_sup snap evs tasks) = []"
  "\<not> sp_force_requested (race_sup snap evs tasks)" "sp_tasks (race_sup snap evs tasks) = tasks"
  "(race_sup snap evs tasks)\<lparr>sp_pending_voids := []\<rparr> = race_sup snap evs tasks"
  by (simp_all add: race_sup_def)

definition race_events :: "run_event list" where
  "race_events = [RunStarted, NodeStarted (race_ref ''a'' 1) (StructuralOccurrence ''a'' []) 1 VNull,
     NodeStarted (race_ref ''b'' 2) (StructuralOccurrence ''b'' []) 1 VNull]"

definition race_program :: run_program where
  "race_program = \<lparr>pm_admitted = race_admitted, pm_timeouts = [(''a'', None), (''b'', None)],
     pm_instructions = [(''a'', None), (''b'', None)]\<rparr>"

abbreviation race_created :: supervisor where
  "race_created \<equiv> race_sup (snapshot_admitted ''r'' race_admitted) [] []"

abbreviation race_snap1 :: run_snapshot where
  "race_snap1 \<equiv> race_snap Running 1 []"

abbreviation race_snap3 :: run_snapshot where
  "race_snap3 \<equiv> race_snap Running 3 [(1, race_node ''a'' 1 NodeActive), (2, race_node ''b'' 2 NodeActive)]"

abbreviation race_started :: supervisor where "race_started \<equiv> race_sup race_snap1 [RunStarted] []"

abbreviation race_running :: supervisor where
  "race_running \<equiv> race_sup race_snap3 race_events [race_task ''a'' 1, race_task ''b'' 2]"

lemmas race_defs = race_host_def race_admitted_def race_stored_def race_snap_def race_ref_def race_node_def
  race_task_def race_sup_def race_events_def demo_admitted_def demo_codec_def

lemma race_valid [simp]: "validate_event demo_codec ev = Inr ()"
  by (simp add: validate_event_def bounded_json_def demo_codec_def MAX_EVENT_BYTES_def MAX_PRIOR_EXECUTION_BYTES_def
      split: run_event.split)

lemma race_admitted_snap: "snapshot_admitted ''r'' race_admitted = race_snap Admitted 0 []"
  by (simp add: race_defs snapshot_admitted_def snapshot_empty_def initial_cursor_for)

lemma race_start: "drive_start race_host race_created"
proof -
  have "create_or_get demo_codec FakeRunLedger_new
      \<lparr>cr_run_id = ''r'', cr_submission_key = ''k'', cr_submission_digest = ''d'', cr_admitted = race_admitted\<rparr>
      = Inr (Created race_stored, sp_ledger race_created)"
    by (simp add: create_or_get_def validate_create_def bounded_json_def FakeRunLedger_new_def race_sup_def
        race_stored_def MAX_ADMITTED_RUN_BYTES_def Let_def demo_codec_def)
  from reach_step[OF reach_new step_create[OF this]] show ?thesis
    by (simp add: drive_start_def race_sup_def race_host_def)
qed

lemma race_append:
  assumes "try_foldl (append_event demo_codec) (race_snap phase n nodes, n, []) evs = Inr (snap, m, race_log n evs)"
    and "evs \<noteq> []" and "n = length old" and "n \<le> u64_max"
  shows "append_events race_host evs (race_sup (race_snap phase n nodes) old tasks) =
    (race_sup snap (old @ evs) tasks, Inr snap)"
proof -
  have cur: "cursor_sequence (sn_cursor (race_snap phase n nodes)) = Inr n" using assms(4) by (simp add: race_snap_def)
  show ?thesis using assms(1,2) cur
    by (simp add: race_sup_def race_host_def append_events_def ledger_append_def append_locked_def put_run_def
        ok_or_def race_log_append assms(3) Let_def)
qed

lemma race_initialize: "initialize race_host race_created = (race_started, Inr (Turn, race_program))"
proof -
  have "append_events race_host [RunStarted] race_created = (race_started, Inr race_snap1)"
    unfolding race_admitted_snap
    by (subst race_append[of Admitted 0 "[]" "[RunStarted]" race_snap1 1 "[]"])
      (simp_all add: append_event_def checked_add_def ok_or_def u64_max_def prepare_event_def apply_event_def
        apply_event_kind_def apply_run_started_def race_snap_def)
  moreover have "run_program_of race_admitted = race_program"
    by (simp add: run_program_of_def execution_catalog_of_def race_program_def race_admitted_def demo_race_def demo_step_def
        collect_execution_metadata.simps record_execution_metadata_def Let_def)
  moreover have "sn_phase race_snap1 = Running" by (simp add: race_snap_def)
  moreover have "load race_created = (race_created, Inr race_stored)"
    by (simp add: load_def ledger_get_def race_sup_def ok_or_def race_stored_def)
  moreover have "initialized_phase race_created (sr_snapshot race_stored) = None \<and> sn_phase (sr_snapshot race_stored) = Admitted"
    by (simp add: race_stored_def race_admitted_snap initialized_phase_def race_snap_def race_sup_def active_executions_def)
  ultimately show ?thesis
    by (simp add: initialize_def bind_sup_def lift_res_def) (simp add: race_stored_def)
qed


lemma race_turn: "turn (race_sup (race_snap Running n nodes) evs tasks)
    = (race_sup (race_snap Running n nodes) evs tasks, Inr (Deciding (race_snap Running n nodes)))"
  by (simp add: turn_def sup_snapshot_def load_def ledger_get_def ok_or_def bind_sup_def lift_res_def race_sup_def
      race_snap_def)

definition race_history :: "(execution_id, node_snapshot) btree_map \<Rightarrow> durable_execution list" where
  "race_history nodes = map (\<lambda>(i, node). demo_execution (i + 1) i (er_node (nd_reference node))
     (case nd_state node of NodeSettled _ out \<Rightarrow> ExecSettled 4 out | _ \<Rightarrow> ExecActive)) nodes"

lemma race_reduce:
  assumes "nodes = [] \<or> nodes = [(1, race_node ''a'' 1 NodeActive), (2, race_node ''b'' 2 state)]"
    and "state = NodeActive \<or> state = NodeSettled (cursor_for 4) (Verified VNull [])"
  shows "reduce_run (ho_json_len race_host) race_admitted (race_snap Running n nodes) =
    map_err SupReducer (reduce (\<lambda>_. 1) demo_race NativeV2 (demo_input (race_history nodes)))"
proof -
  have at: "history_position_of (cursor_for p) = Inr p" if "p \<le> 4" for p
    using that by (intro history_position_of_cursor) (simp add: HistoryPosition_MAX_def i64_max_def)
  have off: "offset_position p 0 = Inr p" if "p \<le> 4" for p
    using that offset_position_ok[of p 0] by (simp add: HistoryPosition_MAX_def i64_max_def)
  have "durable_history (race_snap Running n nodes) = Inr (race_history nodes)"
    using assms
    by (auto simp: durable_history_def race_snap_def seed_offset_def race_node_def race_ref_def race_history_def
        offset_execution_def node_durable_execution_def durable_node_state_def offset_state_def demo_execution_def at off
        insort_key.simps)
  moreover have "next_node_instance (race_history nodes) = Inr (length (race_history nodes) + 1)
      \<and> next_execution (race_history nodes) = Inr (length (race_history nodes) + 1)"
    using assms
    by (auto simp: next_node_instance_def next_execution_def next_identity_def iter_max_def race_history_def
        demo_execution_def checked_add_def ok_or_def u64_max_def FIRST_IDENTITY_def)
  ultimately show ?thesis
    by (simp add: reduce_run_def race_host_def race_admitted_def demo_input_def)
qed

lemma race_history_active:
  "race_history [(1, race_node ''a'' 1 NodeActive), (2, race_node ''b'' 2 NodeActive)]
     = [demo_execution 2 1 ''a'' ExecActive, demo_execution 3 2 ''b'' ExecActive]"
  "race_history [(1, race_node ''a'' 1 NodeActive), (2, race_node ''b'' 2 (NodeSettled c (Verified VNull [])))]
     = [demo_execution 2 1 ''a'' ExecActive, demo_execution 3 2 ''b'' (ExecSettled 4 (Verified VNull []))]"
  by (simp_all add: race_history_def race_node_def race_ref_def eval_nat_numeral)

lemma race_reduce_start:
  "reduce_run (ho_json_len race_host) race_admitted race_snap1 = Inr demo_race_started"
  using race_reduce[of "[]" NodeActive 1] demo_race_start by (simp add: race_history_def map_err_def)

lemma race_waits: "reduce (\<lambda>_. 1) demo_race NativeV2 (demo_input [demo_execution 2 1 ''a'' ExecActive, demo_execution 3 2 ''b'' ExecActive])
    = Inr \<lparr>rd_boundary = None, rd_decisions = [], rd_terminal = None\<rparr>"
  by (simp add: exec_simps demo_race_def demo_step_def demo_input_def demo_execution_def HistoryPosition_MAX_def i64_max_def
      apply_writes_def clear_scoped_runtime_facts_def merge_scoped_runtime_facts_def bm_extend_def bm_retain_def
      promoted_write_paths_def promotion_candidates_def promoted_value_def bs_extend_def bs_of_list_def)

lemma race_cancels: "reduce (\<lambda>_. 1) demo_race NativeV2 (demo_input [demo_execution 2 1 ''a'' ExecActive,
    demo_execution 3 2 ''b'' (ExecSettled 4 (Verified VNull []))]) = Inr demo_race_finished"
  by (simp add: exec_simps demo_race_def demo_step_def demo_input_def demo_execution_def HistoryPosition_MAX_def i64_max_def
      apply_writes_def clear_scoped_runtime_facts_def merge_scoped_runtime_facts_def bm_extend_def bm_retain_def
      promoted_write_paths_def promotion_candidates_def promoted_value_def bs_extend_def bs_of_list_def demo_race_finished_def)


abbreviation race_ids :: "dispatch list" where
  "race_ids \<equiv> dispatch_decisions ''r'' (rd_decisions demo_race_started)"

lemma race_dispatches:
  "race_ids = [\<lparr>di_reference = race_ref ''a'' 1, di_occurrence = StructuralOccurrence ''a'' [], di_attempt = 1,
      di_iteration = 0, di_worker = ''worker@1'', di_input = VNull\<rparr>,
    \<lparr>di_reference = race_ref ''b'' 2, di_occurrence = StructuralOccurrence ''b'' [], di_attempt = 1,
      di_iteration = 0, di_worker = ''worker@1'', di_input = VNull\<rparr>]"
  "void_decisions (rd_decisions demo_race_started) = []" "rd_terminal demo_race_started = None"
  by (simp_all add: demo_race_started_def dispatch_decisions_def dispatch_of_def void_decisions_def map_filter_simps race_ref_def)

lemma race_advance: "advance race_host race_program race_snap1 race_started = (race_running, Inr Turn)"
proof -
  have "try_foldl (append_event demo_codec) (race_snap1, 1, []) (map dispatch_event race_ids)
      = Inr (race_snap3, 3, race_log 1 (map dispatch_event race_ids))"
    by (simp add: race_dispatches dispatch_event_def append_event_def checked_add_def ok_or_def u64_max_def prepare_event_def
        apply_event_def apply_event_kind_def apply_node_started_def require_running_def require_run_def
        require_new_dispatch_def race_snap_def put_node_def race_ref_def race_node_def numeral_3_eq_3)
  from race_append[OF this, of "[RunStarted]" "[]"]
  have ap: "append_events race_host (map dispatch_event race_ids) race_started
      = (race_sup race_snap3 race_events [], Inr race_snap3)"
    by (simp add: race_dispatches race_events_def dispatch_event_def u64_max_def)
  have st: "start_dispatches race_program race_ids (race_sup race_snap3 race_events []) = (race_running, Inr ())"
    by (simp add: race_dispatches start_dispatch_def bind_sup_def lift_res_def race_program_def race_admitted_def race_ref_def
        race_sup_def race_task_def Let_def)
  have "sp_run_id race_started = ''r''" "pm_admitted race_program = race_admitted" "\<not> sp_force_requested race_started"
    by (simp_all add: race_sup_def race_program_def)
  then show ?thesis
    using race_reduce_start ap st race_dispatches(2,3) race_dispatches(1)
    by (simp add: advance_def dispatch_all_def record_dispatches_def bind_sup_def lift_res_def)
qed

lemma race_driven:
  "driven race_host race_created race_program race_started Turn"
  "driven race_host race_created race_program race_started (Deciding race_snap1)"
  "driven race_host race_created race_program race_running Turn"
  "driven race_host race_created race_program race_running (Deciding race_snap3)"
proof -
  show 1: "driven race_host race_created race_program race_started Turn" by (rule driven_start[OF race_initialize])
  show 2: "driven race_host race_created race_program race_started (Deciding race_snap1)"
    by (rule driven_step[OF 1 turn_ok[OF race_turn]])
  show 3: "driven race_host race_created race_program race_running Turn"
    by (rule driven_step[OF 2 advance_ok[OF race_advance]])
  show "driven race_host race_created race_program race_running (Deciding race_snap3)"
    by (rule driven_step[OF 3 turn_ok[OF race_turn]])
qed

text \<open>The second worker finishes first: its dispatch is settled and the first one is cancelled.\<close>

definition race_done :: finished_dispatch where
  "race_done = \<lparr>fin_execution = 2, fin_reference = race_ref ''b'' 2,
     fin_result = DispatchCompleted (Inr \<lparr>nc_reference = race_ref ''b'' 2, nc_outcome = Verified VNull []\<rparr>), fin_elapsed = 0\<rparr>"

abbreviation race_half :: supervisor where "race_half \<equiv> race_sup race_snap3 race_events [race_task ''a'' 1]"

abbreviation race_snap4 :: run_snapshot where
  "race_snap4 \<equiv> race_snap Running 4 [(1, race_node ''a'' 1 NodeActive),
     (2, race_node ''b'' 2 (NodeSettled (cursor_for 4) (Verified VNull [])))]"

abbreviation race_settled :: supervisor where
  "race_settled \<equiv> race_sup race_snap4
     (race_events @ [NodeCompleted \<lparr>nc_reference = race_ref ''b'' 2, nc_outcome = Verified VNull []\<rparr>]) [race_task ''a'' 1]"

lemma race_wait: "advance race_host race_program race_snap3 race_running = (race_running, Inr Waiting)"
proof -
  have "reduce_run (ho_json_len race_host) race_admitted race_snap3 = Inr \<lparr>rd_boundary = None, rd_decisions = [], rd_terminal = None\<rparr>"
    by (subst race_reduce[of _ NodeActive]) (simp_all add: race_history_active race_waits map_err_def del: One_nat_def)
  then show ?thesis
    by (simp add: advance_def bind_sup_def lift_res_def race_program_def void_decisions_def dispatch_decisions_def map_filter_simps)
qed

lemma race_finish: "finishes (race_task ''b'' 2) race_done" "finish_task (race_task ''b'' 2) race_running = race_half"
  "begin_settle race_host race_done race_half = (race_half, Inr race_snap3)"
  by (simp_all add: finishes_def race_task_def race_done_def race_ref_def finish_task_def race_sup_def begin_settle_def
      require_finished_cleanup_def cleanup_unconfirmed_def bind_sup_def sup_snapshot_def load_def ledger_get_def ok_or_def
      lift_res_def)

lemma race_settle: "settle race_host race_snap3 race_done race_half = (race_settled, Inr ())"
proof -
  let ?c = "NodeCompleted \<lparr>nc_reference = race_ref ''b'' 2, nc_outcome = Verified VNull []\<rparr>"
  have "try_foldl (append_event demo_codec) (race_snap3, 3, []) [?c] = Inr (race_snap4, 4, race_log 3 [?c])"
    by (simp add: append_event_def checked_add_def ok_or_def u64_max_def prepare_event_def apply_event_def
        apply_event_kind_def apply_node_completed_def require_run_def active_node_def node_is_active_def
        outcome_has_artifacts_def outcome_validate_def race_snap_def put_node_def race_ref_def race_node_def)
  from race_append[OF this, of race_events "[race_task ''a'' 1]"]
  have "append_events race_host [?c] race_half = (race_settled, Inr race_snap4)"
    by (simp add: race_events_def u64_max_def)
  moreover have "settle_events race_host race_snap3 False race_done None = Inr [?c]"
    by (simp add: settle_events_def race_done_def finished_completion_events_def settled_outcome_def
        log_completion_events_def node_failure_log_def clear_recorded_diagnostics_def has_failure_detail_def option_list_def
        synthetic_result_def map_err_def race_snap_def)
  ultimately show ?thesis by (simp add: settle_def bind_sup_def lift_res_def bm_retain_def)
qed

lemma race_driven_on:
  "driven race_host race_created race_program race_half (Settling race_done race_snap3 Waiting)"
  "driven race_host race_created race_program race_settled (Deciding race_snap4)"
proof -
  have 1: "driven race_host race_created race_program race_running Waiting"
    by (rule driven_step[OF race_driven(4) advance_ok[OF race_wait]])
  have "drive_step race_host race_program race_running Waiting race_half (Settling race_done race_snap3 Waiting)"
    by (rule await_ok[OF _ _ race_finish(1)]) (simp_all only: race_finish(2,3), simp_all add: awaits_def race_sup_def)
  with 1 show 2: "driven race_host race_created race_program race_half (Settling race_done race_snap3 Waiting)"
    by (rule driven_step)
  have "drive_step race_host race_program race_half (Settling race_done race_snap3 Waiting) race_settled Turn"
    using settle_ok[OF race_settle, of race_program Waiting] by (simp add: resumed_def)
  with 2 have "driven race_host race_created race_program race_settled Turn" by (rule driven_step)
  then show "driven race_host race_created race_program race_settled (Deciding race_snap4)"
    by (rule driven_step[OF _ turn_ok[OF race_turn]])
qed


definition race_cancelling :: supervisor where
  "race_cancelling = race_settled\<lparr>sp_cancellations := [], sp_pending_voids := [(1, ParallelJoin)]\<rparr>"

lemma race_reduce_cancel:
  "reduce_run (ho_json_len race_host) (pm_admitted race_program) race_snap4 = Inr demo_race_finished"
  unfolding race_program_def run_program.simps
  by (subst race_reduce[of _ "NodeSettled (cursor_for 4) (Verified VNull [])"])
    (simp_all add: race_history_active race_cancels map_err_def del: One_nat_def)

lemma race_voids: "void_decisions (rd_decisions demo_race_finished) = [(1, ParallelJoin)]"
  by (simp add: void_decisions_def demo_race_finished_def map_filter_simps)

lemma race_cancel: "advance race_host race_program race_snap4 race_settled = (race_cancelling, Inr (Voiding [1]))"
  using race_reduce_cancel race_voids
  by (simp add: advance_def bind_sup_def lift_res_def race_sup_def race_task_def race_ref_def Let_def race_cancelling_def)

lemma race_driven_cancelling: "driven race_host race_created race_program race_cancelling (Voiding [1])"
  by (rule driven_step[OF race_driven_on(2) advance_ok[OF race_cancel]])

section \<open>Properties of a driven run\<close>

text \<open>C34. The supervisor tracks the ledger: whatever finishes, fails, logs or stops in between, whenever
  the driver takes its turn, decides or waits, its tasks are exactly the active executions of the
  ledger, each once; it holds one cancellation handle per task and no unsettled void.\<close>

theorem driven_tasks:
  assumes "driven ho s0 program s phase" and "drive_start ho s0"
    and "phase = Turn \<or> phase = Waiting \<or> phase = Deciding old"
  shows "\<exists>snap. ledger_current (sp_ledger s) (sp_run_id s) = Some snap
    \<and> mset (map pn_reference (sp_tasks s)) = mset (map nd_reference (active_executions snap))
    \<and> set (sp_cancellations s) = er_execution ` pn_reference ` set (sp_tasks s)
    \<and> distinct (sp_cancellations s) \<and> sp_pending_voids s = []"
proof -
  from driven_ok[OF assms(1,2)] assms(3) obtain snap where own: "owns ho s snap" and none: "sp_pending_voids s = []"
    by auto
  from ownsD(1)[OF own] obtain log where "ledger_log (sp_ledger s) (sp_run_id s) = Some log"
    and cur: "ledger_current (sp_ledger s) (sp_run_id s) = Some snap" and "run_ok (length log) snap" by (rule log_current)
  then have refs: "nd_reference ` set (active_executions snap) = active_refs snap"
    "distinct (map nd_reference (active_executions snap))"
    using active_executions_refs[of "length log" snap] by (simp_all add: run_ok_def)
  have tasks: "distinct (map pn_reference (sp_tasks s))" "pn_reference ` set (sp_tasks s) = active_refs snap"
    using ownsD(3)[OF own] by (simp_all add: tracks_def)
  have "mset (map pn_reference (sp_tasks s)) = mset (map nd_reference (active_executions snap))"
    using refs tasks by (simp add: set_eq_iff_mset_eq_distinct[symmetric] del: mset_map)
  moreover have "set (sp_cancellations s) = er_execution ` pn_reference ` set (sp_tasks s)" "distinct (sp_cancellations s)"
    using ownsD(4)[OF own] none tasks(2) bs_wf_distinct by (auto simp: handles_def pending_ids_def)
  ultimately show ?thesis using cur none by blast
qed

theorem driven_tasks_witness:
  "mset (map pn_reference (sp_tasks race_running)) = mset (map nd_reference (active_executions race_snap3))"
  using driven_tasks[OF race_driven(3) race_start, of undefined]
  by (auto simp: ledger_current_def race_sup_def)

text \<open>C35. Cancellations reach their target: when the reducer voids losing executions in a deciding turn,
  the driver never misses one. It moves to cancelling exactly the voided executions, each of which is a
  task of the driver, and the reasons it keeps for their settlement are exactly the reducer's.\<close>

theorem driven_voids:
  assumes "driven ho s0 program s (Deciding old)" and "drive_start ho s0"
    and "reduce_run (ho_json_len ho) (pm_admitted program) old = Inr red"
    and "void_decisions (rd_decisions red) \<noteq> []"
  shows "\<exists>s' targets. advance ho program old s = (s', Inr (Voiding targets))
    \<and> set targets = fst ` set (void_decisions (rd_decisions red))
    \<and> set targets \<subseteq> er_execution ` pn_reference ` set (sp_tasks s')
    \<and> (\<forall>x reason. bm_get (sp_pending_voids s') x = Some reason \<longleftrightarrow> VoidLoser x reason \<in> set (rd_decisions red))
    \<and> set (sp_cancellations s') = set (sp_cancellations s) - set targets"
proof -
  let ?voids = "void_decisions (rd_decisions red)"
  from driven_ok[OF assms(1,2)] obtain snap n where own: "owns ho s snap" and core: "same_core old snap"
    and old: "run_ok n old" and none: "sp_pending_voids s = []" by auto
  have ok: "nodes_ok n old" "seed_ok old" using old by (simp_all add: run_ok_def)
  have h: "handles s (er_execution ` active_refs snap)" by (rule ownsD(4)[OF own])
  then have can: "set (sp_cancellations s) = er_execution ` active_refs snap"
    using none by (simp add: handles_def pending_ids_def)
  have sub: "fst ` set ?voids \<subseteq> er_execution ` active_refs snap"
    using reduce_run_voids(2)[OF assms(3) ok] same_core_active[OF core] by auto
  then obtain s' targets where bv: "begin_voids ?voids s = (s', Inr targets)"
    using begin_voids_succeeds[OF reduce_run_voids(1)[OF assms(3) ok], of s] can by auto
  note b = begin_voids_ok[OF bv h]
  have "set targets \<subseteq> er_execution ` pn_reference ` set (sp_tasks s')"
    using b sub ownsD(3)[OF own] by (simp add: tracks_def)
  moreover have pend: "pending_ids s' = set targets" using b none by (simp add: pending_ids_def)
  moreover have "handles s' (er_execution ` active_refs snap)" using b by simp
  then have "set (sp_cancellations s') \<inter> set targets = {}"
    "set (sp_cancellations s') \<union> set targets = set (sp_cancellations s)"
    unfolding handles_def pend can by (elim conjE; simp only:)+
  then have "set (sp_cancellations s') = set (sp_cancellations s) - set targets" by blast
  moreover have "advance ho program old s = (s', Inr (Voiding targets))"
    using assms(3,4) bv by (simp add: advance_def bind_sup_def lift_res_def)
  ultimately show ?thesis
    using b begin_voids_decided[OF bv reduce_run_voids(1)[OF assms(3) ok] none] by blast
qed

theorem driven_voids_witness:
  "\<exists>s'. advance race_host race_program race_snap4 race_settled = (s', Inr (Voiding [1]))
     \<and> bm_get (sp_pending_voids s') 1 = Some ParallelJoin
     \<and> set (sp_cancellations s') = set (sp_cancellations race_settled) - {1}"
proof -
  have "VoidLoser 1 ParallelJoin \<in> set (rd_decisions demo_race_finished)"
    using race_voids void_decisions_member by (metis list.set_intros(1))
  with driven_voids[OF race_driven_on(2) race_start race_reduce_cancel] race_voids obtain s' targets where
    t: "advance race_host race_program race_snap4 race_settled = (s', Inr (Voiding targets))"
      "bm_get (sp_pending_voids s') 1 = Some ParallelJoin" "set (sp_cancellations s') = set (sp_cancellations race_settled) - {1}" "set targets = {1}" by auto
  then have "targets = [1]" using race_cancel by simp
  with t show ?thesis by blast
qed

text \<open>C36. Dispatches are recorded and started: when a deciding turn asks for dispatches, no stop was
  requested, the dispatch events fit their bound, the log has room and every node is bound to a
  runtime, the turn records the whole batch, starts one task per dispatch in order, after the running
  ones, and goes on with the next turn. The metadata of the nodes is never missing.\<close>

theorem driven_dispatches:
  assumes "driven ho s0 program s (Deciding old)" and "drive_start ho s0"
    and "reduce_run (ho_json_len ho) (pm_admitted program) old = Inr red"
    and "void_decisions (rd_decisions red) = []" and "rd_terminal red = None"
    and "ds = dispatch_decisions (sp_run_id s) (rd_decisions red)" and "ds \<noteq> []"
    and "\<not> sp_force_requested s"
    and "ledger_current (sp_ledger s) (sp_run_id s) = Some snap" and "\<not> sn_force_stop_requested snap"
    and "ledger_log (sp_ledger s) (sp_run_id s) = Some log" and "length log + length ds \<le> u64_max"
    and "\<forall>d \<in> set ds. validate_event (ho_codec ho) (dispatch_event d) = Inr ()"
    and "\<forall>d \<in> set ds. bm_get (rp_nodes (ad_runtime (pm_admitted program))) (er_node (di_reference d)) \<noteq> None"
  shows "\<exists>s' snap'. advance ho program old s = (s', Inr Turn)
    \<and> map pn_reference (sp_tasks s') = map pn_reference (sp_tasks s) @ map di_reference ds
    \<and> ledger_current (sp_ledger s') (sp_run_id s) = Some snap'
    \<and> sn_cursor snap' = cursor_for (length log + length ds)
    \<and> (\<forall>d \<in> set ds. \<exists>node. bm_get (sn_executions snap') (er_execution (di_reference d)) = Some node
         \<and> nd_reference node = di_reference d \<and> nd_occurrence node = di_occurrence d
         \<and> nd_attempt node = di_attempt d \<and> nd_input node = di_input d \<and> nd_state node = NodeActive)"
proof -
  obtain s' snap' where "advance ho program old s = (s', Inr Turn)"
    "map pn_reference (sp_tasks s') = map pn_reference (sp_tasks s) @ map di_reference ds"
    "ledger_current (sp_ledger s') (sp_run_id s') = Some snap'" "\<forall>d \<in> set ds. recorded snap' d"
    "run_ok (length log + length ds) snap'" "sp_run_id s' = sp_run_id s"
    by (rule advance_dispatches[OF driven_ok[OF assms(1,2)] driven_program[OF assms(1)] assms(3-14)])
  then show ?thesis by (intro exI[of _ s'] exI[of _ snap']) (auto simp: recorded_def node_at_def run_ok_def)
qed

lemma race_bound:
  "length (race_log 0 [RunStarted]) + length race_ids \<le> u64_max"
  "\<forall>d \<in> set race_ids. validate_event (ho_codec race_host) (dispatch_event d) = Inr ()"
  "\<forall>d \<in> set race_ids. bm_get (rp_nodes (ad_runtime (pm_admitted race_program))) (er_node (di_reference d)) \<noteq> None"
  by (simp_all add: race_dispatches u64_max_def race_host_def race_program_def race_admitted_def race_ref_def)

lemma race_started_facts:
  "ledger_current (sp_ledger race_started) (sp_run_id race_started) = Some race_snap1"
  "\<not> sn_force_stop_requested race_snap1"
  "ledger_log (sp_ledger race_started) (sp_run_id race_started) = Some (race_log 0 [RunStarted])"
  "race_ids = dispatch_decisions (sp_run_id race_started) (rd_decisions demo_race_started)" "race_ids \<noteq> []"
  "reduce_run (ho_json_len race_host) (pm_admitted race_program) race_snap1 = Inr demo_race_started"
  using race_reduce_start
  by (simp_all add: ledger_current_def ledger_log_def race_sup_def race_snap_def race_dispatches race_program_def)

theorem driven_dispatches_witness:
  "\<exists>s'. advance race_host race_program race_snap1 race_started = (s', Inr Turn)
     \<and> map pn_reference (sp_tasks s') = [race_ref ''a'' 1, race_ref ''b'' 2]"
  using driven_dispatches[OF race_driven(2) race_start race_started_facts(6) race_dispatches(2,3)
      race_started_facts(4,5) race_sup_simps(3) race_started_facts(1-3) race_bound]
  by (auto simp: race_dispatches)

text \<open>C37. What is dispatched is read back: after such a turn, while positions are left below the last
  one, the history the next reduction starts from holds for every dispatch of the batch an active
  execution with its identity, node instance, occurrence, attempt and input.\<close>

theorem dispatch_roundtrip:
  assumes "driven ho s0 program s (Deciding old)" and "drive_start ho s0"
    and "reduce_run (ho_json_len ho) (pm_admitted program) old = Inr red"
    and "void_decisions (rd_decisions red) = []" and "rd_terminal red = None"
    and "ds = dispatch_decisions (sp_run_id s) (rd_decisions red)" and "ds \<noteq> []"
    and "\<not> sp_force_requested s"
    and "ledger_current (sp_ledger s) (sp_run_id s) = Some snap" and "\<not> sn_force_stop_requested snap"
    and "ledger_log (sp_ledger s) (sp_run_id s) = Some log" and "length log + length ds \<le> u64_max"
    and "\<forall>d \<in> set ds. validate_event (ho_codec ho) (dispatch_event d) = Inr ()"
    and "\<forall>d \<in> set ds. bm_get (rp_nodes (ad_runtime (pm_admitted program))) (er_node (di_reference d)) \<noteq> None"
    and "length log + length ds + seed_offset (sn_execution_seed snap) < HistoryPosition_MAX" and "d \<in> set ds"
  shows "\<exists>s' snap' H e. advance ho program old s = (s', Inr Turn)
    \<and> ledger_current (sp_ledger s') (sp_run_id s) = Some snap' \<and> durable_history snap' = Inr H
    \<and> e \<in> set H \<and> de_execution e = er_execution (di_reference d)
    \<and> de_node_instance e = er_node_instance (di_reference d) \<and> de_occurrence e = di_occurrence d
    \<and> de_attempt e = di_attempt d \<and> de_input e = di_input d \<and> de_state e = ExecActive"
proof -
  obtain s' snap' where adv: "advance ho program old s = (s', Inr Turn)"
    and cur: "ledger_current (sp_ledger s') (sp_run_id s') = Some snap'" and rec: "\<forall>d \<in> set ds. recorded snap' d"
    and ok: "run_ok (length log + length ds) snap'" and rid: "sp_run_id s' = sp_run_id s"
    and seed: "sn_execution_seed snap' = sn_execution_seed snap"
    and new: "\<forall>d \<in> set ds. unused snap (er_execution (di_reference d))"
    by (rule advance_dispatches[OF driven_ok[OF assms(1,2)] driven_program[OF assms(1)] assms(3-14)])
  have "er_execution (di_reference d) \<notin> de_execution ` set (sn_execution_seed snap')"
    using new assms(16) seed by (auto simp: unused_def)
  from recorded_history[OF ok _ _ this] assms(15,16) seed rec adv cur rid show ?thesis by auto
qed

theorem dispatch_roundtrip_witness:
  "\<exists>s' snap' H e. advance race_host race_program race_snap1 race_started = (s', Inr Turn)
     \<and> ledger_current (sp_ledger s') ''r'' = Some snap' \<and> durable_history snap' = Inr H
     \<and> e \<in> set H \<and> de_execution e = 2 \<and> de_occurrence e = StructuralOccurrence ''b'' [] \<and> de_state e = ExecActive"
proof -
  have "length (race_log 0 [RunStarted]) + length race_ids + seed_offset (sn_execution_seed race_snap1) < HistoryPosition_MAX"
    by (simp add: race_dispatches race_snap_def seed_offset_def HistoryPosition_MAX_def i64_max_def)
  moreover have "race_ids ! 1 \<in> set race_ids" by (simp add: race_dispatches)
  ultimately show ?thesis
    using dispatch_roundtrip[OF race_driven(2) race_start race_started_facts(6) race_dispatches(2,3)
      race_started_facts(4,5) race_sup_simps(3) race_started_facts(1-3) race_bound, of "race_ids ! 1"]
    by (simp add: race_dispatches race_ref_def) blast
qed


text \<open>The outcome a finished dispatch reports: the result of its own node, a refusal when it was cancelled,
  its run was closed or a stop was requested, a timeout, or a crash.\<close>

inductive reports :: "finished_dispatch \<Rightarrow> bool \<Rightarrow> worker_outcome \<Rightarrow> bool" for fin where
  reports_stopped: "reports fin True (OutcomeError Refusal DeclaredFailure)"
| reports_result: "fin_result fin = DispatchCompleted (Inr c) \<Longrightarrow> nc_reference c = fin_reference fin \<Longrightarrow>
    reports fin False (nc_outcome c)"
| reports_cancelled: "fin_result fin = DispatchCompleted (Inl e) \<Longrightarrow> e \<in> {Cancelled, RunClosed} \<Longrightarrow>
    reports fin False (OutcomeError Refusal DeclaredFailure)"
| reports_failed: "fin_result fin = DispatchCompleted (Inl e) \<Longrightarrow> e \<notin> {Cancelled, RunClosed} \<Longrightarrow>
    reports fin False (OutcomeError Crash DeclaredFailure)"
| reports_timeout: "fin_result fin = DispatchTimedOut \<Longrightarrow> reports fin False (OutcomeError Timeout DeclaredFailure)"
| reports_interrupted: "fin_result fin = DispatchInterrupted \<Longrightarrow>
    reports fin False (OutcomeError Crash DeclaredFailure)"

lemma reports_iff:
  "reports fin stop out \<longleftrightarrow> settled_outcome (fin_reference fin) (fin_result fin) stop = Inr out"
proof (cases "fin_result fin")
  case (DispatchCompleted r)
  show ?thesis
  proof (cases r)
    case (Inl e)
    then show ?thesis using DispatchCompleted
      by (cases stop; cases e)
        (auto simp: reports.simps settled_outcome_def runner_failure_def declared_failure_def)
  qed (cases stop; auto simp: DispatchCompleted reports.simps settled_outcome_def declared_failure_def)
qed (cases stop; auto simp: reports.simps settled_outcome_def declared_failure_def)+

text \<open>A reason the reducer gave for voiding an execution, in a deciding turn of the same session.\<close>

definition decided_void ::
    "host \<Rightarrow> supervisor \<Rightarrow> run_program \<Rightarrow> execution_id \<Rightarrow> execution_void_reason \<Rightarrow> bool" where
  "decided_void ho s0 program x reason \<longleftrightarrow>
     (\<exists>s old red. driven ho s0 program s (Deciding old)
        \<and> reduce_run (ho_json_len ho) (pm_admitted program) old = Inr red
        \<and> VoidLoser x reason \<in> set (rd_decisions red))"

definition voids_decided :: "host \<Rightarrow> supervisor \<Rightarrow> run_program \<Rightarrow> supervisor \<Rightarrow> bool" where
  "voids_decided ho s0 program s \<longleftrightarrow>
     (\<forall>x reason. bm_get (sp_pending_voids s) x = Some reason \<longrightarrow> decided_void ho s0 program x reason)"

lemma voids_decided_cong:
  "sp_pending_voids t = sp_pending_voids s \<Longrightarrow> voids_decided ho s0 program s \<Longrightarrow> voids_decided ho s0 program t"
  by (simp add: voids_decided_def)

lemma advance_voids_decided:
  assumes "driven ho s0 program s (Deciding old)" and "drive_start ho s0"
    and "advance ho program old s = (s', Inr phase)" and "drive_ok ho s' phase"
  shows "voids_decided ho s0 program s'"
proof -
  from driven_ok[OF assms(1,2)] obtain n where old: "run_ok n old" and none: "sp_pending_voids s = []" by auto
  from assms(3) obtain red where red: "reduce_run (ho_json_len ho) (pm_admitted program) old = Inr red"
    by (auto simp: advance_def bind_sup_def lift_res_def split: sum.splits)
  let ?voids = "void_decisions (rd_decisions red)"
  show ?thesis
  proof (cases "?voids = []")
    case False
    then obtain targets where bv: "begin_voids ?voids s = (s', Inr targets)"
      using assms(3) red by (auto simp: advance_def bind_sup_def lift_res_def split: prod.splits sum.splits)
    have "distinct (map fst ?voids)" using reduce_run_voids(1)[OF red, of n] old by (simp add: run_ok_def)
    from begin_voids_decided[OF bv this none] show ?thesis
      using assms(1) red by (auto simp: voids_decided_def decided_void_def)
  next
    case True
    then have "phase \<in> {Turn, Waiting} \<or> (\<exists>t. phase = Finishing t \<and> s' = s)"
      using assms(3) red
      by (auto simp: advance_def bind_sup_def lift_res_def Let_def split: option.splits if_splits prod.splits sum.splits)
    then have "sp_pending_voids s' = []" using assms(4) none by auto
    then show ?thesis by (simp add: voids_decided_def)
  qed
qed

lemma bm_get_retain_key: "bm_get (bm_retain (\<lambda>k _. Q k) m) x = (if Q x then bm_get m x else None)"
  by (induction m) (auto simp: bm_retain_def bm_get_def)

definition cancels :: "drive_phase \<Rightarrow> bool" where
  "cancels phase = (case phase of Voiding _ \<Rightarrow> True | Settling _ _ _ \<Rightarrow> True | _ \<Rightarrow> False)"

lemma drive_step_voids_decided:
  assumes "drive_step ho program s phase s' phase'" and "driven ho s0 program s phase" and "drive_start ho s0"
    and "cancels phase \<Longrightarrow> voids_decided ho s0 program s" and "cancels phase'"
  shows "voids_decided ho s0 program s'"
proof -
  have ok: "drive_ok ho s phase" by (rule driven_ok[OF assms(2,3)])
  have keep: "voids_decided ho s0 program s'" if "same_tasks s s'" "phase' = phase"
    using assms(4,5) that voids_decided_cong[of s' s] by (simp add: same_tasks_def)
  from drive_ok_current[OF ok] obtain snap where cur: "current ho s snap" by blast
  show ?thesis
    using assms(1)
  proof (cases rule: drive_step.cases)
    case turn_ok
    have "\<not> cancels phase'" using turn_ok
      by (auto simp: turn_def bind_sup_def cancels_def split: prod.splits sum.splits option.splits if_splits)
    then show ?thesis using assms(5) by simp
  next
    case (advance_ok old)
    then show ?thesis
      using advance_voids_decided[OF _ assms(3)] assms(2) drive_step_kept[OF assms(1) ok] by blast
  next
    case (await_ok task fin snapshot)
    then have ph: "phase = Waiting \<or> cancels phase"
      by (auto simp: awaits_def cancels_def split: drive_phase.splits)
    have "voids_decided ho s0 program s"
    proof (cases "phase = Waiting")
      case True
      then show ?thesis using ok by (simp add: voids_decided_def)
    qed (use ph assms(4) in blast)
    moreover have "current ho (finish_task task s) snap"
      using cur current_cong[of "finish_task task s" s] by (simp add: finish_task_def)
    then have "s' = finish_task task s" using begin_settle_ok[OF await_ok(5)] by blast
    ultimately show ?thesis by (simp add: voids_decided_def finish_task_def)
  next
    case (settle_ok old fin ph)
    then have "voids_decided ho s0 program s" using assms(4) by (simp add: cancels_def)
    let ?s = "s\<lparr>sp_pending_voids := bm_retain (\<lambda>x _. x \<noteq> fin_execution fin) (sp_pending_voids s)\<rparr>"
    obtain evs snap' where "append_events ho evs ?s = (s', Inr snap')"
      using settle_ok by (auto simp: settle_def Let_def bind_sup_def lift_res_def split: prod.splits sum.splits)
    from append_events_ok(1)[OF this, of snap] cur current_cong[of ?s s]
    have "sp_pending_voids s' = sp_pending_voids ?s" by (simp add: same_tasks_def)
    with \<open>voids_decided ho s0 program s\<close> show ?thesis
      by (simp add: voids_decided_def bm_get_retain_key)
  next
    case (node_output task queued evs snapshot)
    then show ?thesis using keep append_events_ok(1)[OF _ cur] by blast
  next
    case force_request
    then show ?thesis using request_stop_append[of ho s s'] keep append_events_ok(1)[OF _ cur]
      by (auto simp: same_tasks_def)
  qed (use assms(5) keep in \<open>auto simp: cancels_def same_tasks_def\<close>)
qed

lemma driven_voids_decided:
  "driven ho s0 program s phase \<Longrightarrow> drive_start ho s0 \<Longrightarrow> cancels phase \<Longrightarrow> voids_decided ho s0 program s"
proof (induction rule: driven.induct)
  case (driven_start s phase program)
  have "\<not> cancels phase" using driven_start(1)
    by (auto simp: initialize_def initialized_phase_def cancels_def bind_sup_def lift_res_def
        split: prod.splits sum.splits option.splits if_splits)
  then show ?case using driven_start(3) by simp
next
  case (driven_step program s phase s' phase')
  then show ?case using drive_step_voids_decided by blast
qed

text \<open>C38. A finished dispatch is settled: once the driver has collected a finished task, it records the
  settlement and leaves no error, provided that the task reports a recordable outcome or was voided, that
  the settlement encodes within 1 MiB, that the codec keeps the small log events within their bound (with
  a 32 byte digest), and that the log has room for three events. The execution is then voided with a
  reason the reducer gave for it in a deciding turn of this session, or settled with the outcome it
  reported (\<open>reports\<close>: its own result, a refusal for a cancelled task and for every task under a
  force-stop, a timeout, or a crash).\<close>

theorem driven_settlement:
  assumes "driven ho s0 program s (Settling fin old phase)" and "drive_start ho s0" and "encodes_small (ho_codec ho)"
    and "pending = bm_get (sp_pending_voids s) (fin_execution fin)"
    and "pending = None \<Longrightarrow>
      reports fin (sp_force_requested s \<or> sn_force_stop_requested old) out \<and> recordable out"
    and "cd_event (ho_codec ho) (case pending of
           Some reason \<Rightarrow> ExecutionVoided (fin_reference fin) reason
         | None \<Rightarrow> NodeCompleted \<lparr>nc_reference = fin_reference fin, nc_outcome = out\<rparr>) = Some bytes"
    and "bytes \<le> 1024 ^ 2"
    and "ledger_log (sp_ledger s) (sp_run_id s) = Some log" and "length log + 3 \<le> u64_max"
  shows "\<exists>s' snap' node c. settle ho old fin s = (s', Inr ())
    \<and> ledger_current (sp_ledger s') (sp_run_id s) = Some snap'
    \<and> bm_get (sn_executions snap') (fin_execution fin) = Some node \<and> nd_reference node = fin_reference fin
    \<and> nd_state node = (case pending of Some reason \<Rightarrow> NodeVoided c reason | None \<Rightarrow> NodeSettled c out)
    \<and> (\<forall>reason. pending = Some reason \<longrightarrow>
         (\<exists>s1 seen red. driven ho s0 program s1 (Deciding seen)
            \<and> reduce_run (ho_json_len ho) (pm_admitted program) seen = Inr red
            \<and> VoidLoser (fin_execution fin) reason \<in> set (rd_decisions red)))"
proof -
  have valid: "validate_event (ho_codec ho) (settlement fin pending out) = Inr ()"
    using assms(6,7) by (auto simp: validate_event_iff settlement_def split: option.split)
  note outcome = assms(5)[unfolded reports_iff recordable_iff]
  obtain s' snap' node c where
    "settle ho old fin s = (s', Inr ())" "ledger_current (sp_ledger s') (sp_run_id s) = Some snap'"
    "bm_get (sn_executions snap') (fin_execution fin) = Some node" "nd_reference node = fin_reference fin"
    "nd_state node = settled_state pending out c"
    by (rule settle_succeeds[OF driven_ok[OF assms(1,2)] assms(3,4) outcome valid assms(8,9)])
  moreover have "decided_void ho s0 program (fin_execution fin) reason" if "pending = Some reason" for reason
    using driven_voids_decided[OF assms(1,2)] that assms(4) by (simp add: cancels_def voids_decided_def)
  ultimately show ?thesis unfolding settled_state_def decided_void_def by blast
qed

lemma race_encodes: "encodes_small (ho_codec race_host)"
  by (simp add: encodes_small_def race_host_def) (simp add: demo_codec_def)

theorem driven_settlement_witness:
  "\<exists>s' snap' node c. settle race_host race_snap3 race_done race_half = (s', Inr ())
     \<and> ledger_current (sp_ledger s') ''r'' = Some snap'
     \<and> bm_get (sn_executions snap') 2 = Some node \<and> nd_state node = NodeSettled c (Verified VNull [])"
proof -
  have "reports race_done (sp_force_requested race_half \<or> sn_force_stop_requested race_snap3) (Verified VNull [])
    \<and> recordable (Verified VNull [])"
    by (simp add: reports_iff settled_outcome_def race_done_def race_snap_def recordable.simps)
  moreover have "cd_event (ho_codec race_host) ev = Some 100" for ev by (simp add: race_host_def demo_codec_def)
  moreover have "ledger_log (sp_ledger race_half) (sp_run_id race_half) = Some (race_log 0 race_events)"
    by (simp add: ledger_log_def race_sup_def)
  moreover have "length (race_log 0 race_events) + 3 \<le> u64_max" by (simp add: race_events_def u64_max_def)
  moreover have "None = bm_get (sp_pending_voids race_half) (fin_execution race_done)" by simp
  moreover have "fin_execution race_done = 2" by (simp add: race_done_def)
  ultimately show ?thesis
    using driven_settlement[OF race_driven_on(1) race_start race_encodes, of None "Verified VNull []" 100 "race_log 0 race_events"]
    by (simp del: One_nat_def) blast
qed

text \<open>C39. A stopped run ends: from the stopping phase, whatever the outcomes of the drained tasks (as long
  as each could be drained) and with room in the log, \<open>terminalize_force\<close> returns the terminal result of
  the ledger and nothing is left active; unless the run had already ended, the result is the failure
  \<^verbatim>\<open>force_stopped\<close>. Likewise a run that lost its runtime ends with \<^verbatim>\<open>runtime_lost\<close>.\<close>

theorem stopped_run_ends:
  assumes "driven ho s0 program s phase" and "drive_start ho s0"
    and "(phase, stop, reason) \<in> {(Forcing, terminalize_force, ''force_stopped''), (Losing, terminalize_lost, ''runtime_lost'')}"
    and "drains s drained" and "\<forall>f \<in> set drained. terminal_drain_result (fin_result f) = Inr ()"
    and "encodes_small (ho_codec ho)"
    and "ledger_current (sp_ledger s) (sp_run_id s) = Some snap" and "ledger_log (sp_ledger s) (sp_run_id s) = Some log"
    and "length log + length drained + 2 * length (active_executions snap) + 2 \<le> u64_max"
  shows "\<exists>s' terminal final. stop ho drained (s\<lparr>sp_tasks := []\<rparr>) = (s', Inr terminal)
    \<and> ledger_current (sp_ledger s') (sp_run_id s) = Some final
    \<and> sn_terminal final = Some terminal \<and> active_executions final = []
    \<and> (sn_terminal snap = None \<longrightarrow> (\<exists>detail. terminal = Failed reason detail
         \<and> (reason = ''force_stopped'' \<longrightarrow> detail = None)))"
proof -
  from driven_ok[OF assms(1,2)] assms(3) obtain now where now: "current ho s now"
    "pn_reference ` set (sp_tasks s) \<subseteq> active_refs now" by auto
  then have cur: "current ho s snap" "pn_reference ` set (sp_tasks s) \<subseteq> active_refs snap"
    using current_unique[OF now(1) assms(7)] by simp_all
  have labels: "EnumLabel_new ''force_stopped'' = Inr ''force_stopped''" "EnumLabel_new ''runtime_lost'' = Inr ''runtime_lost''"
    "is_force_stopped ''force_stopped''"
    by (simp_all add: EnumLabel_new_def validate_identifier_def MAX_IDENTIFIER_LENGTH_def is_force_stopped_def
        is_ascii_alphabetic_def is_ascii_alphanumeric_def)
  note ends = terminalize_succeeds[OF cur(1) assms(4) cur(2) assms(5,6) _ assms(8,9)]
  show ?thesis
    using assms(3) ends[OF labels(1), of Refusal] ends[OF labels(2), of Crash] labels(3)
    by (auto simp: terminalize_force_def terminalize_lost_def)
qed


theorem stopped_run_ends_witness:
  "\<exists>s' final. terminalize_force race_host
       [race_done, \<lparr>fin_execution = 1, fin_reference = race_ref ''a'' 1, fin_result = DispatchInterrupted, fin_elapsed = 0\<rparr>]
       ((race_running\<lparr>sp_force_requested := True\<rparr>)\<lparr>sp_tasks := []\<rparr>) = (s', Inr (Failed ''force_stopped'' None))
     \<and> ledger_current (sp_ledger s') ''r'' = Some final \<and> sn_terminal final = Some (Failed ''force_stopped'' None)
     \<and> active_executions final = []"
proof -
  let ?s = "race_running\<lparr>sp_force_requested := True\<rparr>"
  let ?drained = "[race_done, \<lparr>fin_execution = 1, fin_reference = race_ref ''a'' 1, fin_result = DispatchInterrupted, fin_elapsed = 0\<rparr>]"
  have "drive_step race_host race_program race_running Turn ?s Turn" by (rule force_flag)
  with race_driven(3) have "driven race_host race_created race_program ?s Turn" by (rule driven_step)
  moreover have "turn ?s = (?s, Inr Forcing)"
    by (simp add: turn_def sup_snapshot_def load_def ledger_get_def ok_or_def bind_sup_def lift_res_def race_sup_def race_snap_def)
  ultimately have driven: "driven race_host race_created race_program ?s Forcing"
    by (rule driven_step[OF _ turn_ok])
  have facts: "drains ?s ?drained" "\<forall>f \<in> set ?drained. terminal_drain_result (fin_result f) = Inr ()"
    "ledger_current (sp_ledger ?s) (sp_run_id ?s) = Some race_snap3"
    "ledger_log (sp_ledger ?s) (sp_run_id ?s) = Some (race_log 0 race_events)"
    "length (race_log 0 race_events) + length ?drained + 2 * length (active_executions race_snap3) + 2 \<le> u64_max"
    "sn_terminal race_snap3 = None" "sp_run_id ?s = ''r''"
    by (simp_all add: drains_def race_done_def race_task_def race_ref_def race_sup_def terminal_drain_result_def
        cleanup_unconfirmed_def ledger_current_def ledger_log_def race_events_def active_executions_def race_snap_def
        u64_max_def race_node_def node_is_active_def)
  from stopped_run_ends[OF driven race_start _ facts(1,2) race_encodes facts(3-5), of terminalize_force "''force_stopped''"]
    facts(6,7) show ?thesis by auto
qed

text \<open>The phases in which the driver cancels losers, and what is left to do there.\<close>

fun cancelling :: "drive_phase \<Rightarrow> bool" where
  "cancelling (Voiding _) = True"
| "cancelling (Settling _ _ (Voiding _)) = True"
| "cancelling _ = False"

definition cancel_work :: "supervisor \<times> drive_phase \<Rightarrow> nat" where
  "cancel_work c = 2 * length (sp_tasks (fst c)) + (case snd c of Settling _ _ _ \<Rightarrow> 1 | _ \<Rightarrow> 0)"

lemma append_events_tasks: "append_events ho evs s = (s', r) \<Longrightarrow> sp_tasks s' = sp_tasks s"
  by (auto simp: append_events_def split: sum.splits)

lemma settle_tasks: "settle ho snap fin s = (s', r) \<Longrightarrow> sp_tasks s' = sp_tasks s"
  by (auto simp: settle_def bind_sup_def lift_res_def Let_def dest!: append_events_tasks split: sum.splits prod.splits)

lemma begin_settle_tasks: "begin_settle ho fin s = (s', r) \<Longrightarrow> sp_tasks s' = sp_tasks s"
  by (auto simp: begin_settle_def require_finished_cleanup_def record_failure_logs_def bind_sup_def sup_snapshot_def load_def
      lift_res_def append_events_def split: sum.splits prod.splits if_splits option.splits)

lemma cancelling_step:
  assumes "drive_step ho program s p s' p'" and "cancelling p" and "cancelling p'"
  shows "(p' = p \<and> sp_tasks s' = sp_tasks s) \<or> cancel_work (s', p') < cancel_work (s, p)"
  using assms
proof (cases rule: drive_step.cases)
  case (await_ok task finished snapshot)
  then have "sp_tasks s' = remove1 task (sp_tasks s)" using begin_settle_tasks[OF await_ok(5)] by (simp add: finish_task_def)
  moreover have "Suc (2 * (length (sp_tasks s) - Suc 0)) < 2 * length (sp_tasks s)"
    using await_ok(3) by (cases "sp_tasks s") auto
  moreover have "(case p of Settling _ _ _ \<Rightarrow> 1 | _ \<Rightarrow> 0) = (0 :: nat)" using await_ok(2) by (auto simp: awaits_def split: drive_phase.splits)
  ultimately show ?thesis using await_ok by (simp add: cancel_work_def length_remove1)
next
  case (settle_ok snapshot finished phase)
  then show ?thesis using assms(2) settle_tasks[OF settle_ok(3)]
    by (cases phase) (auto simp: cancel_work_def resumed_def)
qed (auto simp: append_events_tasks request_stop_def split: sum.splits)

lemma driven_sequence:
  assumes "driven ho s0 program (fst (f 0)) (snd (f 0))"
    and "\<forall>i. drive_step ho program (fst (f i)) (snd (f i)) (fst (f (Suc i))) (snd (f (Suc i)))"
  shows "driven ho s0 program (fst (f i)) (snd (f i))"
  using assms by (induction i) (auto intro: driven_step)

lemma pending_target_task:
  assumes "drive_ok ho s (Voiding targets)" and "has_pending_target targets s"
  shows "\<exists>task \<in> set (sp_tasks s). er_execution (pn_reference task) \<in> set targets"
proof -
  from assms(1) obtain snap where own: "owns ho s snap" by auto
  from assms(2) obtain x where x: "x \<in> set targets" "x \<in> pending_ids s"
    by (auto simp: has_pending_target_def list_ex_iff pending_ids_def bm_get_None)
  then have "x \<in> er_execution ` active_refs snap" using ownsD(4)[OF own] by (auto simp: handles_def)
  then have "x \<in> er_execution ` pn_reference ` set (sp_tasks s)" using ownsD(3)[OF own] by (simp add: tracks_def)
  then show ?thesis using x(1) by auto
qed

text \<open>C40. Cancelling ends: along any infinite sequence of driver and environment steps of a driven run
  that stays in the cancelling phase or in the settlements it waits for, from some point on neither the
  phase nor the tasks change (only output of running nodes and stop requests remain), and as long as a
  voided execution is pending the driver waits for a task that is one of its targets, never for nothing.
  Every collected task and every settlement brings the driver closer to that point.\<close>

theorem cancelling_ends:
  assumes "driven ho s0 program (fst (f 0)) (snd (f 0))" and "drive_start ho s0"
    and "\<forall>i. drive_step ho program (fst (f i)) (snd (f i)) (fst (f (Suc i))) (snd (f (Suc i)))"
    and "\<forall>i. cancelling (snd (f i))"
  shows "\<exists>k. \<forall>i \<ge> k. snd (f i) = snd (f k) \<and> sp_tasks (fst (f i)) = sp_tasks (fst (f k))
    \<and> (\<forall>targets. snd (f i) = Voiding targets \<and> has_pending_target targets (fst (f i)) \<longrightarrow>
         (\<exists>task \<in> set (sp_tasks (fst (f i))). er_execution (pn_reference task) \<in> set targets))"
proof -
  have progress: "(snd (f (Suc i)) = snd (f i) \<and> sp_tasks (fst (f (Suc i))) = sp_tasks (fst (f i)))
      \<or> cancel_work (f (Suc i)) < cancel_work (f i)" for i
    using cancelling_step[of ho program "fst (f i)" "snd (f i)" "fst (f (Suc i))" "snd (f (Suc i))"] assms(3,4) by simp
  obtain k where least: "cancel_work (f k) \<le> cancel_work (f i)" for i
    using ex_has_least_nat[of "\<lambda>_. True" 0 "\<lambda>i. cancel_work (f i)"] by auto
  have "snd (f i) = snd (f k) \<and> sp_tasks (fst (f i)) = sp_tasks (fst (f k))" if "k \<le> i" for i
    using that
  proof (induction i rule: dec_induct)
    case (step i)
    then have "cancel_work (f i) = cancel_work (f k)" by (simp add: cancel_work_def)
    then show ?case using progress[of i] least[of "Suc i"] step.IH by auto
  qed simp
  moreover have "\<exists>task \<in> set (sp_tasks (fst (f i))). er_execution (pn_reference task) \<in> set targets"
    if "snd (f i) = Voiding targets" "has_pending_target targets (fst (f i))" for i targets
    using driven_ok[OF driven_sequence[OF assms(1,3)] assms(2), of i] unfolding that(1)
    by (rule pending_target_task[OF _ that(2)])
  ultimately show ?thesis by blast
qed

theorem cancelling_ends_witness:
  "\<exists>task \<in> set (sp_tasks race_cancelling). er_execution (pn_reference task) = 1"
proof -
  let ?s = "race_cancelling\<lparr>sp_force_requested := True\<rparr>"
  have "drive_step race_host race_program race_cancelling (Voiding [1]) ?s (Voiding [1])" by (rule force_flag)
  with race_driven_cancelling have "driven race_host race_created race_program ?s (Voiding [1])" by (rule driven_step)
  moreover have "drive_step race_host race_program ?s (Voiding [1]) ?s (Voiding [1])"
    using force_flag[of race_host race_program ?s] by simp
  moreover have "has_pending_target [1] ?s" by (simp add: has_pending_target_def race_cancelling_def)
  ultimately show ?thesis
    using cancelling_ends[of race_host race_created race_program "\<lambda>_. (?s, Voiding [1])"] race_start by auto
qed

end
