(* ===== verification/Delivery.thy ===== *)
theory Delivery
  imports Supervisor
begin

text \<open>
  What a trusted delivery promises (\<^verbatim>\<open>zeroshot/src/native_v2_delivery.rs\<close>,
  \<^verbatim>\<open>native_v2_delivery/contract.rs\<close>, \<^verbatim>\<open>native_v2_comment_delivery/contract.rs\<close>,
  \<^verbatim>\<open>native_v2_candidate/decision/contract.rs\<close> and \<^verbatim>\<open>source_code/provider/delivery.rs\<close>): delivery modes,
  targets, the result a delivery reports, the response contracts a graph must declare for it, and the
  check that a recorded receipt certifies the admitted target.

  Reading a receipt is \<^verbatim>\<open>serde_json::from_value\<close> into a struct with \<^verbatim>\<open>deny_unknown_fields\<close>: an object
  without other keys, or an array with one element per field. URLs are parsed by the parameter
  \<open>parse_url\<close>. The source adapters behind a comment destination are the record \<open>comment_adapter\<close>.
\<close>

section \<open>Delivery modes\<close>

definition GIT_DELIVERY_PUSH_WORKER_REF :: string where
  "GIT_DELIVERY_PUSH_WORKER_REF = ''builtin.git-delivery.push@1''"
definition GIT_DELIVERY_PR_WORKER_REF :: string where
  "GIT_DELIVERY_PR_WORKER_REF = ''builtin.git-delivery.pr@1''"
definition GIT_DELIVERY_PR_V2_WORKER_REF :: string where
  "GIT_DELIVERY_PR_V2_WORKER_REF = ''builtin.git-delivery.pr@2''"
definition GIT_DELIVERY_MERGE_WORKER_REF :: string where
  "GIT_DELIVERY_MERGE_WORKER_REF = ''builtin.git-delivery.merge@1''"
definition GIT_DELIVERY_MERGE_V2_WORKER_REF :: string where
  "GIT_DELIVERY_MERGE_V2_WORKER_REF = ''builtin.git-delivery.merge@2''"
definition GIT_DELIVERY_MERGE_V3_WORKER_REF :: string where
  "GIT_DELIVERY_MERGE_V3_WORKER_REF = ''builtin.git-delivery.merge@3''"
definition COMMENT_DELIVERY_WORKER_REF :: string where
  "COMMENT_DELIVERY_WORKER_REF = ''builtin.comment-delivery.post@1''"

lemmas delivery_worker_refs [exec_simps] =
  GIT_DELIVERY_PUSH_WORKER_REF_def GIT_DELIVERY_PR_WORKER_REF_def GIT_DELIVERY_PR_V2_WORKER_REF_def
  GIT_DELIVERY_MERGE_WORKER_REF_def GIT_DELIVERY_MERGE_V2_WORKER_REF_def
  GIT_DELIVERY_MERGE_V3_WORKER_REF_def COMMENT_DELIVERY_WORKER_REF_def

datatype delivery_mode = ModePush | ModePullRequest | ModePullRequestV2 | ModeMergeV1 | ModeMerge | ModeMergeV3

definition mode_worker_ref :: "delivery_mode \<Rightarrow> string" where
  "mode_worker_ref self =
     (case self of
        ModePush \<Rightarrow> GIT_DELIVERY_PUSH_WORKER_REF
      | ModePullRequest \<Rightarrow> GIT_DELIVERY_PR_WORKER_REF
      | ModePullRequestV2 \<Rightarrow> GIT_DELIVERY_PR_V2_WORKER_REF
      | ModeMergeV1 \<Rightarrow> GIT_DELIVERY_MERGE_WORKER_REF
      | ModeMerge \<Rightarrow> GIT_DELIVERY_MERGE_V2_WORKER_REF
      | ModeMergeV3 \<Rightarrow> GIT_DELIVERY_MERGE_V3_WORKER_REF)"

definition mode_from_worker :: "worker_ref \<Rightarrow> delivery_mode option" where
  "mode_from_worker worker =
     (if worker = GIT_DELIVERY_PUSH_WORKER_REF then Some ModePush
      else if worker = GIT_DELIVERY_PR_WORKER_REF then Some ModePullRequest
      else if worker = GIT_DELIVERY_PR_V2_WORKER_REF then Some ModePullRequestV2
      else if worker = GIT_DELIVERY_MERGE_WORKER_REF then Some ModeMergeV1
      else if worker = GIT_DELIVERY_MERGE_V2_WORKER_REF then Some ModeMerge
      else if worker = GIT_DELIVERY_MERGE_V3_WORKER_REF then Some ModeMergeV3
      else None)"

definition mode_label :: "delivery_mode \<Rightarrow> string" where
  "mode_label self =
     (case self of
        ModePush \<Rightarrow> ''push'' | ModePullRequest \<Rightarrow> ''pr'' | ModePullRequestV2 \<Rightarrow> ''pr''
      | ModeMergeV1 \<Rightarrow> ''merge'' | ModeMerge \<Rightarrow> ''merge'' | ModeMergeV3 \<Rightarrow> ''merge'')"

definition success_outcome :: "delivery_mode \<Rightarrow> string" where
  "success_outcome self =
     (case self of
        ModePush \<Rightarrow> ''pushed'' | ModePullRequest \<Rightarrow> ''opened'' | ModePullRequestV2 \<Rightarrow> ''ready''
      | ModeMergeV1 \<Rightarrow> ''merged'' | ModeMerge \<Rightarrow> ''merged'' | ModeMergeV3 \<Rightarrow> ''merged'')"

definition result_version :: "delivery_mode \<Rightarrow> string" where
  "result_version self =
     (case self of
        ModePush \<Rightarrow> ''v1'' | ModePullRequest \<Rightarrow> ''v1'' | ModeMergeV1 \<Rightarrow> ''v1''
      | ModePullRequestV2 \<Rightarrow> ''v2'' | ModeMerge \<Rightarrow> ''v2''
      | ModeMergeV3 \<Rightarrow> ''v3'')"

definition includes_merge_revision :: "delivery_mode \<Rightarrow> bool" where
  "includes_merge_revision self \<longleftrightarrow> self \<in> {ModeMerge, ModeMergeV3}"

definition creates_review :: "delivery_mode \<Rightarrow> bool" where
  "creates_review self \<longleftrightarrow> self \<noteq> ModePush"

definition considers_feedback :: "delivery_mode \<Rightarrow> bool" where
  "considers_feedback self \<longleftrightarrow> self \<in> {ModePullRequestV2, ModeMergeV3}"

definition is_merge :: "delivery_mode \<Rightarrow> bool" where
  "is_merge self \<longleftrightarrow> self \<in> {ModeMergeV1, ModeMerge, ModeMergeV3}"

datatype source_capability =
    CapRead | CapComment | CapBranch | CapCommit | CapPush | CapPullRequest | CapChecks
  | CapAutoMerge | CapMergeQueue | CapMerge

definition required_capabilities :: "delivery_mode \<Rightarrow> source_capability list" where
  "required_capabilities self =
     (case self of
        ModePush \<Rightarrow> [CapRead, CapPush]
      | ModePullRequest \<Rightarrow> [CapRead, CapPush, CapPullRequest]
      | ModePullRequestV2 \<Rightarrow> [CapRead, CapPush, CapPullRequest, CapChecks]
      | ModeMergeV1 \<Rightarrow> [CapRead, CapPush, CapPullRequest, CapChecks, CapMerge]
      | ModeMerge \<Rightarrow> [CapRead, CapPush, CapPullRequest, CapChecks, CapMerge]
      | ModeMergeV3 \<Rightarrow> [CapRead, CapPush, CapPullRequest, CapChecks, CapMerge])"

section \<open>Targets\<close>

definition valid_delivery_repository :: "string \<Rightarrow> bool" where
  "valid_delivery_repository value \<longleftrightarrow> value \<noteq> [] \<and> length value \<le> 2048 \<and> \<not> has_control value"

definition is_ascii_control :: "char \<Rightarrow> bool" where
  "is_ascii_control c \<longleftrightarrow> (let n = (of_char c :: nat) in n < 32 \<or> n = 127)"

definition is_ascii_whitespace :: "char \<Rightarrow> bool" where
  "is_ascii_whitespace c \<longleftrightarrow> (let n = (of_char c :: nat) in n = 32 \<or> n = 9 \<or> n = 10 \<or> n = 12 \<or> n = 13)"

definition valid_git_branch :: "string \<Rightarrow> bool" where
  "valid_git_branch value \<longleftrightarrow>
     value \<noteq> [] \<and> length value \<le> 256 \<and> \<not> starts_with ''-'' value \<and> \<not> contains_str ''..'' value
     \<and> \<not> ends_with ''.'' value \<and> \<not> ends_with ''/'' value
     \<and> \<not> list_ex (\<lambda>c. is_ascii_control c \<or> is_ascii_whitespace c
          \<or> c \<in> {CHR ''~'', CHR ''^'', CHR '':'', CHR ''?'', CHR ''*'', CHR ''['', CHR 0x5C}) value"

definition valid_git_revision :: "string \<Rightarrow> bool" where
  "valid_git_revision value \<longleftrightarrow> (length value = 40 \<or> length value = 64) \<and> list_all is_lower_hex value"

datatype delivery_config_error = ConfigRepository | ConfigBranch | ConfigRevision | PollAttempts

record delivery_target =
  dt_repository :: string
  dt_target_branch :: string
  dt_base_revision :: string

definition DeliveryTarget_new ::
    "string \<Rightarrow> string \<Rightarrow> string \<Rightarrow> delivery_config_error + delivery_target" where
  "DeliveryTarget_new repository target_branch base_revision =
     (if \<not> valid_delivery_repository repository then Inl ConfigRepository
      else if \<not> valid_git_branch target_branch then Inl ConfigBranch
      else if \<not> valid_git_revision base_revision then Inl ConfigRevision
      else Inr \<lparr>dt_repository = repository, dt_target_branch = target_branch,
                dt_base_revision = base_revision\<rparr>)"

definition source_target :: "resolved_source \<Rightarrow> delivery_mode \<Rightarrow> delivery_config_error + delivery_target" where
  "source_target source mode =
     (let repository =
        (if creates_review mode
         then (case rs_remote source of
                 Some remote \<Rightarrow>
                   (case gr_forge remote of Some forge \<Rightarrow> fi_repository forge | None \<Rightarrow> rs_repository source)
               | None \<Rightarrow> rs_repository source)
         else rs_repository source)
      in DeliveryTarget_new repository (rs_branch source) (rs_revision source))"

record delivery_poll_policy =
  dp_maximum_attempts :: "nat option"
  dp_interval :: nat

definition DeliveryPollPolicy_new :: "nat \<Rightarrow> nat \<Rightarrow> delivery_config_error + delivery_poll_policy" where
  "DeliveryPollPolicy_new attempts interval =
     (if attempts = 0 then Inl PollAttempts
      else Inr \<lparr>dp_maximum_attempts = Some attempts, dp_interval = interval\<rparr>)"

definition poll_has_next :: "delivery_poll_policy \<Rightarrow> nat \<Rightarrow> bool" where
  "poll_has_next self completed_attempts =
     (case dp_maximum_attempts self of Some maximum \<Rightarrow> completed_attempts < maximum | None \<Rightarrow> True)"

section \<open>The result of a delivery\<close>

record source_review_receipt =
  rv_review_id :: string
  rv_repository :: string
  rv_target_branch :: string
  rv_head_branch :: string
  rv_head_revision :: string

record source_review_request =
  rq_target :: delivery_target
  rq_head_branch :: string
  rq_head_revision :: string
  rq_title :: string
  rq_description :: string
  rq_source_issue :: "u64 option"

record delivery_result =
  dr_mode :: delivery_mode
  dr_outcome :: string
  dr_review :: source_review_receipt
  dr_merge_revision :: "string option"
  dr_links :: "(string, json) btree_map option"

definition MAX_REVIEW_ID_BYTES :: nat where "MAX_REVIEW_ID_BYTES = 256"

definition valid_review_id :: "string \<Rightarrow> bool" where
  "valid_review_id value \<longleftrightarrow> value \<noteq> [] \<and> length value \<le> MAX_REVIEW_ID_BYTES \<and> \<not> has_control value"

definition valid_review :: "source_review_request \<Rightarrow> source_review_receipt \<Rightarrow> bool" where
  "valid_review request review \<longleftrightarrow>
     valid_review_id (rv_review_id review)
     \<and> rv_repository review = dt_repository (rq_target request)
     \<and> rv_target_branch review = dt_target_branch (rq_target request)
     \<and> rv_head_branch review = rq_head_branch request
     \<and> rv_head_revision review = rq_head_revision request"

definition valid_head_update :: "source_review_receipt \<Rightarrow> source_review_receipt \<Rightarrow> bool" where
  "valid_head_update previous updated \<longleftrightarrow>
     rv_review_id updated = rv_review_id previous
     \<and> rv_repository updated = rv_repository previous
     \<and> rv_target_branch updated = rv_target_branch previous
     \<and> rv_head_branch updated = rv_head_branch previous
     \<and> valid_git_revision (rv_head_revision updated)
     \<and> rv_head_revision updated \<noteq> rv_head_revision previous"

definition valid_mode_outcome :: "delivery_mode \<Rightarrow> string \<Rightarrow> bool" where
  "valid_mode_outcome mode outcome \<longleftrightarrow>
     outcome = ''repair_required''
     \<or> (case mode of
          ModePush \<Rightarrow> outcome = ''pushed''
        | ModePullRequest \<Rightarrow> outcome = ''opened''
        | ModePullRequestV2 \<Rightarrow> outcome \<in> {''ready'', ''conflict'', ''ci_failed''}
        | _ \<Rightarrow> outcome \<in> {''merged'', ''conflict'', ''ci_failed''})"

definition valid_delivery_identity :: "delivery_result \<Rightarrow> bool" where
  "valid_delivery_identity result \<longleftrightarrow>
     valid_delivery_repository (rv_repository (dr_review result))
     \<and> valid_git_branch (rv_target_branch (dr_review result))
     \<and> valid_git_branch (rv_head_branch (dr_review result))
     \<and> valid_git_revision (rv_head_revision (dr_review result))
     \<and> (if dr_mode result = ModePush then rv_review_id (dr_review result) = []
        else valid_review_id (rv_review_id (dr_review result)))"

definition valid_delivery_revision :: "delivery_result \<Rightarrow> bool" where
  "valid_delivery_revision result =
     (case dr_merge_revision result of
        Some revision \<Rightarrow>
          is_merge (dr_mode result) \<and> dr_outcome result = ''merged'' \<and> valid_git_revision revision
      | None \<Rightarrow> True)"

definition valid_delivery_result :: "delivery_result \<Rightarrow> bool" where
  "valid_delivery_result result =
     (if dr_outcome result = ''repair_required'' then dr_merge_revision result = None
      else valid_delivery_identity result \<and> valid_mode_outcome (dr_mode result) (dr_outcome result)
           \<and> valid_delivery_revision result)"

definition delivery_result_value :: "delivery_result \<Rightarrow> json" where
  "delivery_result_value result =
     (let fields = bm_extend []
            [(''version'', VString (result_version (dr_mode result))),
             (''mode'', VString (mode_label (dr_mode result))),
             (''outcome'', VString (dr_outcome result)),
             (''repository'', VString (rv_repository (dr_review result))),
             (''targetBranch'', VString (rv_target_branch (dr_review result))),
             (''headRevision'', VString (rv_head_revision (dr_review result)))];
          fields = (if dr_mode result = ModePush
                    then bm_insert ''headBranch'' (VString (rv_head_branch (dr_review result))) fields
                    else bm_insert ''pullRequestId'' (VString (rv_review_id (dr_review result))) fields);
          fields = (if includes_merge_revision (dr_mode result)
                    then bm_insert ''mergeRevision''
                           (VString (case dr_merge_revision result of Some r \<Rightarrow> r | None \<Rightarrow> [])) fields
                    else fields);
          fields = (case dr_links result of
                      Some links \<Rightarrow> bm_insert ''links'' (VObject links) fields | None \<Rightarrow> fields)
      in VObject fields)"

definition delivery_outcome :: "delivery_result \<Rightarrow> string \<Rightarrow> node_runner_error + worker_outcome" where
  "delivery_outcome result diagnostic =
     (if \<not> valid_delivery_result result then Inl Driver
      else bind_res (map_err (\<lambda>_. Driver) (FieldName_new ''delivery'')) (\<lambda>field.
           bind_res (map_err (\<lambda>_. Driver) (EnumLabel_new (dr_outcome result))) (\<lambda>label.
           Inr (Verifier (delivery_result_value result) (bm_insert field label [])
                  (VObject [(''message'', VString diagnostic)]) []))))"

definition delivery_head_branch :: "(nat list \<Rightarrow> nat list) \<Rightarrow> run_id \<Rightarrow> string" where
  "delivery_head_branch sha256 delivery_run_id =
     ''zeroshot/v2-'' @ concat (map hex_byte (take 10 (sha256 (map of_char delivery_run_id))))"


section \<open>Response contracts\<close>

datatype node_response_contract =
    WorkerContractResponse payload_type
  | VerifierContractResponse payload_type "(field_name, enum_set) btree_map" payload_type

definition contract_field ::
    "string \<Rightarrow> payload_type \<Rightarrow> contract_value_error + (field_name \<times> record_field)" where
  "contract_field name payload =
     bind_res (FieldName_new name) (\<lambda>name. Inr (name, RecordField payload True))"

definition contract_labels :: "string list \<Rightarrow> contract_value_error + enum_set" where
  "contract_labels values = bind_res (try_map EnumLabel_new values) NonEmptyEnumSet_new"

definition contract_enum :: "string list \<Rightarrow> contract_value_error + payload_type" where
  "contract_enum values = bind_res (contract_labels values) (\<lambda>labels. Inr (PEnum labels))"

definition delivery_diagnostic_schema :: "contract_value_error + payload_type" where
  "delivery_diagnostic_schema =
     bind_res (contract_field ''message'' PString) (\<lambda>field. Inr (PRecord (bm_extend [] [field])))"

definition signal_labels :: "delivery_mode \<Rightarrow> bool \<Rightarrow> contract_value_error + enum_set" where
  "signal_labels mode repair =
     (let labels =
        (case mode of
           ModePush \<Rightarrow> [''pushed'']
         | ModePullRequest \<Rightarrow> [''opened'']
         | ModePullRequestV2 \<Rightarrow> [''ready'', ''conflict'', ''ci_failed'']
         | _ \<Rightarrow> [''merged'', ''conflict'', ''ci_failed''])
      in contract_labels (if repair then labels @ [''repair_required''] else labels))"

definition review_links_schema :: "contract_value_error + payload_type" where
  "review_links_schema =
     bind_res (try_map (\<lambda>name.
         bind_res (FieldName_new name) (\<lambda>name. Inr (name, RecordField PString False))) [''url'', ''commitUrl''])
       (\<lambda>fields. Inr (PRecord (bm_extend [] fields)))"

definition delivery_identity_fields ::
    "delivery_mode \<Rightarrow> contract_value_error + (field_name \<times> record_field) list" where
  "delivery_identity_fields mode =
     bind_res (bind_res (contract_enum [result_version mode]) (contract_field ''version'')) (\<lambda>version.
     bind_res (contract_field ''repository'' PString) (\<lambda>repository.
     bind_res (contract_field ''targetBranch'' PString) (\<lambda>target_branch.
     bind_res (contract_field ''headRevision'' PString) (\<lambda>head_revision.
     bind_res (contract_field (if mode = ModePush then ''headBranch'' else ''pullRequestId'') PString) (\<lambda>identity.
     bind_res (if mode \<noteq> ModePush
               then bind_res (bind_res review_links_schema (contract_field ''links'')) (\<lambda>links. Inr [links])
               else Inr []) (\<lambda>links.
     bind_res (if includes_merge_revision mode
               then bind_res (contract_field ''mergeRevision'' PString) (\<lambda>field. Inr [field])
               else Inr []) (\<lambda>merge_revision.
     Inr ([version, repository, target_branch, head_revision, identity] @ links @ merge_revision))))))))"

definition delivery_mode_fields ::
    "delivery_mode \<Rightarrow> bool \<Rightarrow> contract_value_error + (field_name \<times> record_field) list" where
  "delivery_mode_fields mode repair =
     bind_res (bind_res (contract_enum [mode_label mode]) (contract_field ''mode'')) (\<lambda>label.
     bind_res (bind_res (signal_labels mode repair) (\<lambda>labels. contract_field ''outcome'' (PEnum labels)))
       (\<lambda>outcome. Inr [label, outcome]))"

definition result_schema :: "delivery_mode \<Rightarrow> bool \<Rightarrow> contract_value_error + payload_type" where
  "result_schema mode repair =
     bind_res (delivery_identity_fields mode) (\<lambda>fields.
     bind_res (delivery_mode_fields mode repair) (\<lambda>more.
     Inr (PRecord (bm_extend [] (fields @ more)))))"

definition delivery_result_schema :: "delivery_mode \<Rightarrow> contract_value_error + payload_type" where
  "delivery_result_schema mode = result_schema mode True"

definition compatible_result_schema ::
    "payload_type \<Rightarrow> delivery_mode \<Rightarrow> bool \<Rightarrow> contract_value_error + bool" where
  "compatible_result_schema output mode repair =
     bind_res (result_schema mode repair) (\<lambda>expected.
     if output = expected then Inr True
     else
       let expected = (case expected of
                         PRecord members \<Rightarrow> PRecord (bm_retain (\<lambda>name _. name \<noteq> ''links'') members)
                       | _ \<Rightarrow> expected)
       in Inr (output = expected))"

definition delivery_contract_matches ::
    "delivery_mode \<Rightarrow> payload_type \<Rightarrow> (field_name, enum_set) btree_map \<Rightarrow> payload_type
       \<Rightarrow> contract_value_error + bool" where
  "delivery_contract_matches mode output signals diagnostic =
     bind_res (FieldName_new ''delivery'') (\<lambda>field.
     bind_res (try_map (\<lambda>repair.
         bind_res (compatible_result_schema output mode repair) (\<lambda>compatible.
         if \<not> compatible then Inr False
         else bind_res (signal_labels mode repair) (\<lambda>labels. Inr (bm_get signals field = Some labels))))
       [True, False]) (\<lambda>matching.
     if \<not> list_ex (\<lambda>m. m) matching then Inr False
     else bind_res delivery_diagnostic_schema (\<lambda>expected.
          Inr (diagnostic = expected \<and> length signals = 1))))"

definition validate_delivery_contract ::
    "delivery_mode \<Rightarrow> node_response_contract \<Rightarrow> node_runner_error + unit" where
  "validate_delivery_contract mode response =
     (case response of
        VerifierContractResponse output signals diagnostic \<Rightarrow>
          bind_res (map_err (\<lambda>_. Driver) (delivery_contract_matches mode output signals diagnostic))
            (\<lambda>matches. if matches then Inr () else Inl Driver)
      | _ \<Rightarrow> Inl InvalidRole)"

definition supports_links :: "node_response_contract \<Rightarrow> bool" where
  "supports_links response =
     (case response of
        VerifierContractResponse (PRecord members) _ _ \<Rightarrow> list_ex (\<lambda>(name, _). name = ''links'') members
      | _ \<Rightarrow> False)"

definition supports_repair :: "node_response_contract \<Rightarrow> bool" where
  "supports_repair response =
     (case response of
        VerifierContractResponse _ signals _ \<Rightarrow>
          list_ex (\<lambda>(_, labels). list_ex (\<lambda>label. label = ''repair_required'') labels) signals
      | _ \<Rightarrow> False)"

section \<open>Receipts\<close>

text \<open>Reading a struct: its keys, or its elements in field order.\<close>

definition serde_struct :: "string list \<Rightarrow> json \<Rightarrow> (string \<Rightarrow> json option) option" where
  "serde_struct names value =
     (case value of
        VObject object \<Rightarrow>
          if list_all (\<lambda>(key, _). key \<in> set names) object then Some (bm_get object) else None
      | VArray items \<Rightarrow>
          if length items = length names then Some (map_of (zip names items)) else None
      | _ \<Rightarrow> None)"

definition serde_string :: "json option \<Rightarrow> string option" where
  "serde_string field = (case field of Some v \<Rightarrow> as_str v | None \<Rightarrow> None)"

definition serde_option :: "(json \<Rightarrow> 'a option) \<Rightarrow> json option \<Rightarrow> 'a option option" where
  "serde_option read field =
     (case field of
        None \<Rightarrow> Some None
      | Some VNull \<Rightarrow> Some None
      | Some v \<Rightarrow> map_option Some (read v))"

record delivery_links_wire =
  lw_url :: "string option"
  lw_commit_url :: "string option"

record delivery_result_wire =
  rw_version :: string
  rw_mode :: string
  rw_outcome :: string
  rw_repository :: string
  rw_target_branch :: string
  rw_head_revision :: string
  rw_head_branch :: "string option"
  rw_pull_request_id :: "string option"
  rw_merge_revision :: "string option"
  rw_links :: "delivery_links_wire option"

definition read_links_wire :: "json \<Rightarrow> delivery_links_wire option" where
  "read_links_wire value =
     (case serde_struct [''url'', ''commitUrl''] value of
        None \<Rightarrow> None
      | Some field \<Rightarrow>
          (case (serde_option as_str (field ''url''), serde_option as_str (field ''commitUrl'')) of
             (Some url, Some commit_url) \<Rightarrow> Some \<lparr>lw_url = url, lw_commit_url = commit_url\<rparr>
           | _ \<Rightarrow> None))"

definition result_wire_fields :: "string list" where
  "result_wire_fields =
     [''version'', ''mode'', ''outcome'', ''repository'', ''targetBranch'', ''headRevision'', ''headBranch'',
      ''pullRequestId'', ''mergeRevision'', ''links'']"

definition read_result_wire :: "json \<Rightarrow> delivery_result_wire option" where
  "read_result_wire value =
     (case serde_struct result_wire_fields value of
        None \<Rightarrow> None
      | Some field \<Rightarrow>
          (case (serde_string (field ''version''), serde_string (field ''mode''), serde_string (field ''outcome''),
                 serde_string (field ''repository''), serde_string (field ''targetBranch''),
                 serde_string (field ''headRevision''), serde_option as_str (field ''headBranch''),
                 serde_option as_str (field ''pullRequestId''), serde_option as_str (field ''mergeRevision''),
                 serde_option read_links_wire (field ''links'')) of
             (Some version, Some mode, Some outcome, Some repository, Some target_branch, Some head_revision,
              Some head_branch, Some pull_request_id, Some merge_revision, Some links) \<Rightarrow>
               Some \<lparr>rw_version = version, rw_mode = mode, rw_outcome = outcome, rw_repository = repository,
                     rw_target_branch = target_branch, rw_head_revision = head_revision,
                     rw_head_branch = head_branch, rw_pull_request_id = pull_request_id,
                     rw_merge_revision = merge_revision, rw_links = links\<rparr>
           | _ \<Rightarrow> None))"

definition checked_public_url :: "url_parser \<Rightarrow> string \<Rightarrow> url option" where
  "checked_public_url parse_url value =
     (if length value > 2048 \<or> has_control value then None
      else case parse_url value of
        None \<Rightarrow> None
      | Some parsed \<Rightarrow>
          if url_scheme parsed = ''https'' \<and> url_host parsed \<noteq> None \<and> url_username parsed = []
             \<and> url_password parsed = None \<and> url_query parsed = None
          then Some parsed else None)"

text \<open>The origin of a checked URL, whose scheme is \<^verbatim>\<open>https\<close>: its host and its port, 443 by default.\<close>

definition same_public_origin :: "url_parser \<Rightarrow> string \<Rightarrow> string \<Rightarrow> bool" where
  "same_public_origin parse_url destination link =
     (case (checked_public_url parse_url destination, checked_public_url parse_url link) of
        (Some destination, Some link) \<Rightarrow>
          url_host destination = url_host link
          \<and> case_option 443 id (url_port destination) = case_option 443 id (url_port link)
      | _ \<Rightarrow> False)"

definition valid_result_links :: "url_parser \<Rightarrow> delivery_result_wire \<Rightarrow> bool" where
  "valid_result_links parse_url result =
     (case map_option (\<lambda>links. (lw_url links, lw_commit_url links)) (rw_links result) of
        None \<Rightarrow> True
      | Some (None, None) \<Rightarrow> True
      | Some (Some url, Some commit) \<Rightarrow> same_public_origin parse_url url commit
      | _ \<Rightarrow> False)"

definition valid_pull_request_receipt :: "delivery_result_wire \<Rightarrow> bool" where
  "valid_pull_request_receipt result =
     (case rw_pull_request_id result of Some i \<Rightarrow> valid_review_id i | None \<Rightarrow> False)"

definition receipt_mode_matches :: "delivery_result_wire \<Rightarrow> delivery_mode \<Rightarrow> bool" where
  "receipt_mode_matches result mode =
     (case mode of
        ModePush \<Rightarrow>
          (case rw_head_branch result of Some b \<Rightarrow> valid_git_branch b | None \<Rightarrow> False)
          \<and> rw_pull_request_id result = None \<and> rw_merge_revision result = None
      | ModePullRequest \<Rightarrow> valid_pull_request_receipt result \<and> rw_merge_revision result = None
      | ModePullRequestV2 \<Rightarrow> valid_pull_request_receipt result \<and> rw_merge_revision result = None
      | ModeMergeV1 \<Rightarrow> valid_pull_request_receipt result \<and> rw_merge_revision result = None
      | _ \<Rightarrow> valid_pull_request_receipt result
             \<and> (case rw_merge_revision result of Some r \<Rightarrow> valid_git_revision r | None \<Rightarrow> False))"

definition receipt_matches_target ::
    "url_parser \<Rightarrow> delivery_result_wire \<Rightarrow> delivery_mode \<Rightarrow> delivery_target \<Rightarrow> bool" where
  "receipt_matches_target parse_url result mode target \<longleftrightarrow>
     valid_result_links parse_url result
     \<and> rw_repository result = dt_repository target
     \<and> rw_target_branch result = dt_target_branch target
     \<and> valid_git_revision (rw_head_revision result)
     \<and> rw_head_revision result \<noteq> dt_base_revision target
     \<and> receipt_mode_matches result mode"

definition is_matching_success_receipt ::
    "url_parser \<Rightarrow> json \<Rightarrow> delivery_mode \<Rightarrow> delivery_target \<Rightarrow> bool" where
  "is_matching_success_receipt parse_url output mode target =
     (case read_result_wire output of
        None \<Rightarrow> False
      | Some result \<Rightarrow>
          rw_version result = result_version mode \<and> rw_mode result = mode_label mode
          \<and> rw_outcome result = success_outcome mode \<and> receipt_matches_target parse_url result mode target)"


section \<open>Comment delivery\<close>

datatype source_discussion_kind = DiscussionIssue | DiscussionPullRequest

record source_comment_destination =
  sd_provider :: string
  sd_base_url :: "string option"
  sd_repository :: string
  sd_discussion_id :: string
  sd_kind :: source_discussion_kind
  sd_url :: string

text \<open>The registered source adapters resolve and check comment destinations.\<close>

record comment_adapter =
  ca_destination :: "string \<Rightarrow> string + source_comment_destination"
  ca_destination_with_context ::
    "string \<Rightarrow> source_forge_identity option \<Rightarrow> string + source_comment_destination"
  ca_review_scope :: "source_comment_destination \<Rightarrow> json \<Rightarrow> string + unit"
  ca_valid_destination :: "source_comment_destination \<Rightarrow> bool"
  ca_valid_permalink :: "source_comment_destination \<Rightarrow> string \<Rightarrow> string \<Rightarrow> bool"

definition comment_field ::
    "string \<Rightarrow> payload_type \<Rightarrow> bool \<Rightarrow> contract_value_error + (field_name \<times> record_field)" where
  "comment_field name payload is_required =
     bind_res (FieldName_new name) (\<lambda>name. Inr (name, RecordField payload is_required))"

definition review_scope_schema :: "contract_value_error + payload_type" where
  "review_scope_schema =
     bind_res (try_map (\<lambda>name. comment_field name PString False)
         [''baseRepository'', ''baseBranch'', ''baseRevision'', ''headRepository'', ''headBranch'', ''headRevision''])
       (\<lambda>fields. Inr (PRecord (bm_extend [] fields)))"

definition comment_input_schema :: "contract_value_error + payload_type" where
  "comment_input_schema =
     bind_res (comment_field ''url'' PString True) (\<lambda>url.
     bind_res (comment_field ''body'' PString True) (\<lambda>body.
     bind_res (bind_res review_scope_schema (\<lambda>scope. comment_field ''reviewScope'' scope False)) (\<lambda>scope.
     Inr (PRecord (bm_extend [] [url, body, scope])))))"

definition comment_result_schema :: "contract_value_error + payload_type" where
  "comment_result_schema =
     bind_res (try_map (\<lambda>name. comment_field name PString True)
         [''version'', ''mode'', ''outcome'', ''destinationUrl'', ''repository'', ''discussionKind'',
          ''discussionId'', ''commentId'', ''url'', ''bodyHash'']) (\<lambda>fields.
     bind_res (FieldName_new ''sourceRevision'') (\<lambda>revision.
     bind_res (comment_field ''receipt''
         (PRecord (bm_insert revision (RecordField PString False) (bm_extend [] fields))) True) (\<lambda>receipt.
     Inr (PRecord (bm_extend [] [receipt])))))"

definition comment_signal_labels :: "contract_value_error + (field_name, enum_set) btree_map" where
  "comment_signal_labels =
     bind_res (FieldName_new ''delivery'') (\<lambda>field.
     bind_res (bind_res (EnumLabel_new ''posted'') (\<lambda>label. NonEmptyEnumSet_new [label])) (\<lambda>labels.
     Inr (bm_insert field labels [])))"

definition comment_diagnostic_schema :: "contract_value_error + payload_type" where
  "comment_diagnostic_schema =
     bind_res (comment_field ''message'' PString True) (\<lambda>field. Inr (PRecord (bm_extend [] [field])))"

definition validate_comment_contract :: "node_response_contract \<Rightarrow> node_runner_error + unit" where
  "validate_comment_contract response =
     (case response of
        VerifierContractResponse output signals diagnostic \<Rightarrow>
          bind_res (map_err (\<lambda>_. Driver) comment_result_schema) (\<lambda>expected.
          if output \<noteq> expected then Inl InvalidRole
          else bind_res (map_err (\<lambda>_. Driver) comment_signal_labels) (\<lambda>expected.
          if signals \<noteq> expected then Inl InvalidRole
          else bind_res (map_err (\<lambda>_. Driver) comment_diagnostic_schema) (\<lambda>expected.
          if diagnostic = expected then Inr () else Inl InvalidRole)))
      | _ \<Rightarrow> Inl InvalidRole)"

record comment_receipt =
  cr_version :: string
  cr_mode :: string
  cr_outcome :: string
  cr_destination_url :: string
  cr_repository :: string
  cr_discussion_kind :: string
  cr_discussion_id :: string
  cr_comment_id :: string
  cr_url :: string
  cr_body_hash :: string
  cr_source_revision :: "string option"

definition comment_receipt_fields :: "string list" where
  "comment_receipt_fields =
     [''version'', ''mode'', ''outcome'', ''destinationUrl'', ''repository'', ''discussionKind'', ''discussionId'',
      ''commentId'', ''url'', ''bodyHash'', ''sourceRevision'']"

definition read_comment_receipt :: "json \<Rightarrow> comment_receipt option" where
  "read_comment_receipt value =
     (case serde_struct comment_receipt_fields value of
        None \<Rightarrow> None
      | Some field \<Rightarrow>
          (case (serde_string (field ''version''), serde_string (field ''mode''), serde_string (field ''outcome''),
                 serde_string (field ''destinationUrl''), serde_string (field ''repository''),
                 serde_string (field ''discussionKind''), serde_string (field ''discussionId''),
                 serde_string (field ''commentId''), serde_string (field ''url''), serde_string (field ''bodyHash''),
                 serde_option as_str (field ''sourceRevision'')) of
             (Some version, Some mode, Some outcome, Some destination_url, Some repository, Some discussion_kind,
              Some discussion_id, Some comment_id, Some url, Some body_hash, Some source_revision) \<Rightarrow>
               Some \<lparr>cr_version = version, cr_mode = mode, cr_outcome = outcome,
                     cr_destination_url = destination_url, cr_repository = repository,
                     cr_discussion_kind = discussion_kind, cr_discussion_id = discussion_id,
                     cr_comment_id = comment_id, cr_url = url, cr_body_hash = body_hash,
                     cr_source_revision = source_revision\<rparr>
           | _ \<Rightarrow> None))"

definition read_comment_output :: "json \<Rightarrow> comment_receipt option" where
  "read_comment_output value =
     (case serde_struct [''receipt''] value of
        None \<Rightarrow> None
      | Some field \<Rightarrow> (case field ''receipt'' of Some v \<Rightarrow> read_comment_receipt v | None \<Rightarrow> None))"

definition valid_digest :: "string \<Rightarrow> bool" where
  "valid_digest value \<longleftrightarrow> length value = 64 \<and> list_all is_lower_hex value"

definition valid_id :: "string \<Rightarrow> bool" where
  "valid_id value \<longleftrightarrow> value \<noteq> [] \<and> length value \<le> 256 \<and> list_all is_ascii_graphic value"

definition valid_receipt_fields :: "comment_receipt \<Rightarrow> bool" where
  "valid_receipt_fields receipt \<longleftrightarrow>
     cr_version receipt = ''v1'' \<and> cr_mode receipt = ''comment'' \<and> cr_outcome receipt = ''posted''
     \<and> valid_digest (cr_body_hash receipt)"

definition discussion_kind_label :: "source_discussion_kind \<Rightarrow> string" where
  "discussion_kind_label kind =
     (case kind of DiscussionIssue \<Rightarrow> ''issue'' | DiscussionPullRequest \<Rightarrow> ''pull_request'')"

definition receipt_matches_destination ::
    "comment_adapter \<Rightarrow> comment_receipt \<Rightarrow> source_comment_destination \<Rightarrow> bool" where
  "receipt_matches_destination ca receipt destination \<longleftrightarrow>
     cr_repository receipt = sd_repository destination
     \<and> cr_discussion_kind receipt = discussion_kind_label (sd_kind destination)
     \<and> cr_discussion_id receipt = sd_discussion_id destination
     \<and> valid_id (cr_comment_id receipt)
     \<and> ca_valid_permalink ca destination (cr_comment_id receipt) (cr_url receipt)"

definition is_matching_comment_receipt_for ::
    "comment_adapter \<Rightarrow> json \<Rightarrow> source_comment_destination \<Rightarrow> string option \<Rightarrow> bool" where
  "is_matching_comment_receipt_for ca output destination source_revision =
     (case read_comment_output output of
        None \<Rightarrow> False
      | Some receipt \<Rightarrow>
          ca_valid_destination ca destination \<and> valid_receipt_fields receipt
          \<and> cr_destination_url receipt = sd_url destination
          \<and> receipt_matches_destination ca receipt destination
          \<and> cr_source_revision receipt = source_revision)"

section \<open>Decision contracts\<close>

record decision_contract =
  dc_signal :: field_name
  dc_options :: enum_set

definition decision_failure :: "string \<Rightarrow> node_runner_error" where
  "decision_failure message = DriverDetail (text_of_string message)"

definition decision_record :: "(field_name \<times> payload_type) list \<Rightarrow> payload_type" where
  "decision_record members =
     PRecord (bm_extend [] (map (\<lambda>(name, payload). (name, RecordField payload True)) members))"

definition decision_field_name :: "string \<Rightarrow> node_runner_error + field_name" where
  "decision_field_name value =
     map_err (\<lambda>_. decision_failure ''invalid decision field name'') (FieldName_new value)"

definition output_schema :: "enum_set \<Rightarrow> node_runner_error + payload_type" where
  "output_schema options =
     bind_res (decision_field_name ''choice'') (\<lambda>choice.
     bind_res (decision_field_name ''probabilities'') (\<lambda>probabilities.
     bind_res (try_map (\<lambda>label. bind_res (decision_field_name label) (\<lambda>name. Inr (name, PNumber))) options)
       (\<lambda>labels.
     bind_res (decision_field_name ''model'') (\<lambda>model.
     Inr (decision_record [(choice, PEnum options), (probabilities, decision_record labels), (model, PString)])))))"

definition diagnostic_schema :: "node_runner_error + payload_type" where
  "diagnostic_schema =
     bind_res (decision_field_name ''message'') (\<lambda>message. Inr (decision_record [(message, PString)]))"

definition validate_decision_connections :: "declared_connections \<Rightarrow> node_runner_error + unit" where
  "validate_decision_connections connections =
     (let fields = environment_names connections
      in if length fields = 2 \<and> ''DECISION_ENDPOINT'' \<in> set fields \<and> ''DECISION_API_KEY'' \<in> set fields
         then Inr ()
         else Inl (decision_failure
                ''decision connections must declare exactly DECISION_ENDPOINT and DECISION_API_KEY''))"

definition decision_options ::
    "(field_name, enum_set) btree_map \<Rightarrow> enum_label \<Rightarrow> node_runner_error + (field_name \<times> enum_set)" where
  "decision_options signals uncertain_label =
     (if length signals \<noteq> 1 then Inl (decision_failure ''decision verifier requires exactly one signal'')
      else case signals of
        [] \<Rightarrow> Inl (decision_failure ''missing decision signal'')
      | (signal, labels) # _ \<Rightarrow>
          if uncertain_label \<notin> set labels
          then Inl (decision_failure ''decision uncertainLabel must be a declared signal label'')
          else
            let options = filter (\<lambda>label. label \<noteq> uncertain_label) labels
            in if length options < 2
               then Inl (decision_failure ''decision verifier requires at least two options besides uncertainLabel'')
               else bind_res (map_err (\<lambda>_. decision_failure ''invalid decision options'')
                      (NonEmptyEnumSet_new options)) (\<lambda>options. Inr (signal, options)))"

definition validate_decision_contract ::
    "node_response_contract \<Rightarrow> node_runtime_binding \<Rightarrow> node_runner_error + decision_contract" where
  "validate_decision_contract response binding =
     (case binding of
        DecisionBinding decision \<Rightarrow>
          bind_res (validate_decision_connections (db_connections decision)) (\<lambda>_.
          case response of
            VerifierContractResponse output signals diagnostic \<Rightarrow>
              bind_res (decision_options signals (db_uncertain_label decision)) (\<lambda>(signal, options).
              bind_res (output_schema options) (\<lambda>expected.
              if output \<noteq> expected
              then Inl (decision_failure
                ''decision verifier must declare choice, probabilities and model output and a message diagnostic'')
              else bind_res diagnostic_schema (\<lambda>expected.
              if diagnostic \<noteq> expected
              then Inl (decision_failure
                ''decision verifier must declare choice, probabilities and model output and a message diagnostic'')
              else Inr \<lparr>dc_signal = signal, dc_options = options\<rparr>)))
          | _ \<Rightarrow> Inl (decision_failure ''decision binding requires a verifier''))
      | _ \<Rightarrow> Inl InvalidRole)"

end
