(* ===== verification/Verifier_Control.thy ===== *)
theory Verifier_Control
  imports Graph
begin

text \<open>
  The control analysis of the graph verifier (\<^verbatim>\<open>crates/openengine-cluster-server/src/graph_verifier\<close>):
  diagnostics and their paths (\<^verbatim>\<open>diagnostics.rs\<close>), completion predicates (\<^verbatim>\<open>graph_verifier.rs\<close>), and the
  finite space of control assignments in which guards are decided (\<^verbatim>\<open>choice.rs\<close>, \<^verbatim>\<open>assignments.rs\<close>,
  \<^verbatim>\<open>assignments/outcomes.rs\<close>, \<^verbatim>\<open>assignments/aggregate.rs\<close>).

  An assignment gives every control key the number of times each label was reported. Tuples stand for
  the structs that the code orders field by field, so that \<open>BTreeSet\<close>s of them iterate as in the code.
\<close>

section \<open>Limits\<close>

definition FULL_V1_MAX_GRAPH_NODES :: u64 where "FULL_V1_MAX_GRAPH_NODES = 4096"
definition FULL_V1_MAX_GRAPH_DEPTH :: u64 where "FULL_V1_MAX_GRAPH_DEPTH = 64"
definition FULL_V1_MAX_GUARD_NODES :: u64 where "FULL_V1_MAX_GUARD_NODES = 4096"
definition FULL_V1_MAX_GUARD_ASSIGNMENTS :: u64 where "FULL_V1_MAX_GUARD_ASSIGNMENTS = 65536"
definition FULL_V1_MAX_MAP_ITEMS :: u64 where "FULL_V1_MAX_MAP_ITEMS = 1024"
definition FULL_V1_MAX_ATTEMPTS_PER_NODE :: u64 where "FULL_V1_MAX_ATTEMPTS_PER_NODE = 100"
definition FULL_V1_MAX_NODE_EXECUTIONS :: u64 where "FULL_V1_MAX_NODE_EXECUTIONS = 65536"
definition FULL_V1_MAX_LOOP_ENTRIES :: u64 where "FULL_V1_MAX_LOOP_ENTRIES = 65536"
definition FULL_V1_MAX_PEAK_CONCURRENCY :: u64 where "FULL_V1_MAX_PEAK_CONCURRENCY = 1024"

section \<open>Map entries\<close>

text \<open>\<^verbatim>\<open>map.entry(key).or_default()\<close> followed by an update of the entry.\<close>

definition bm_entry :: "'k::linorder \<Rightarrow> 'v \<Rightarrow> ('v \<Rightarrow> 'v) \<Rightarrow> ('k, 'v) btree_map \<Rightarrow> ('k, 'v) btree_map" where
  "bm_entry key initial update entries =
     bm_insert key (update (case bm_get entries key of Some v \<Rightarrow> v | None \<Rightarrow> initial)) entries"

definition bm_remove :: "'k \<Rightarrow> ('k, 'v) btree_map \<Rightarrow> ('k, 'v) btree_map" where
  "bm_remove key = bm_retain (\<lambda>k _. k \<noteq> key)"

definition bm_map_values :: "('k \<Rightarrow> 'v \<Rightarrow> 'w) \<Rightarrow> ('k, 'v) btree_map \<Rightarrow> ('k, 'w) btree_map" where
  "bm_map_values f entries = map (\<lambda>(k, v). (k, f k v)) entries"

definition bm_has :: "('k, 'v) btree_map \<Rightarrow> 'k \<Rightarrow> bool" where
  "bm_has entries key \<longleftrightarrow> bm_get entries key \<noteq> None"

fun find_first :: "('a \<Rightarrow> 'b option) \<Rightarrow> 'a list \<Rightarrow> 'b option" where
  "find_first f [] = None"
| "find_first f (x # xs) = (case f x of Some y \<Rightarrow> Some y | None \<Rightarrow> find_first f xs)"

lemma find_first_cong [fundef_cong]:
  "xs = ys \<Longrightarrow> (\<And>x. x \<in> set ys \<Longrightarrow> f x = g x) \<Longrightarrow> find_first f xs = find_first g ys"
  by (induction xs arbitrary: ys) (auto split: option.splits)

section \<open>Diagnostics\<close>

datatype diagnostic_path_segment = FieldSegment field_name | IndexSegment nat | NodeSegment node_name

datatype graph_diagnostic_code =
    SchemaSafety
  | Reachability
  | ChoiceExhaustiveness
  | LoopExitSatisfiability
  | MissingBound
  | WriteConflict
  | CeilingExceeded
  | CyclicReference
  | UndefinedRead
  | InvalidGraphShape

datatype diagnostic_severity = SeverityError | SeverityWarning | SeverityInfo

record graph_diagnostic =
  gd_severity :: diagnostic_severity
  gd_code :: graph_diagnostic_code
  gd_message :: string
  gd_path :: "diagnostic_path_segment list"
  gd_related_nodes :: "node_name list"

definition u32_max :: nat where "u32_max = 2 ^ 32 - 1"

definition path_segment_key :: "diagnostic_path_segment \<Rightarrow> nat \<times> string \<times> nat" where
  "path_segment_key segment =
     (case segment of
        FieldSegment name \<Rightarrow> (0, name, 0)
      | IndexSegment index \<Rightarrow> (1, [], index)
      | NodeSegment name \<Rightarrow> (2, name, 0))"

definition diagnostic_code_rank :: "graph_diagnostic_code \<Rightarrow> nat" where
  "diagnostic_code_rank code =
     (case code of
        SchemaSafety \<Rightarrow> 0
      | Reachability \<Rightarrow> 1
      | ChoiceExhaustiveness \<Rightarrow> 2
      | LoopExitSatisfiability \<Rightarrow> 3
      | MissingBound \<Rightarrow> 4
      | WriteConflict \<Rightarrow> 5
      | CeilingExceeded \<Rightarrow> 6
      | CyclicReference \<Rightarrow> 7
      | UndefinedRead \<Rightarrow> 8
      | InvalidGraphShape \<Rightarrow> 9)"

text \<open>\<open>compare_paths\<close> compares segment by segment and then by length: the order of lists of keys.\<close>

definition path_key :: "diagnostic_path_segment list \<Rightarrow> (nat \<times> string \<times> nat) list" where
  "path_key path = map path_segment_key path"

definition sort_diagnostics :: "graph_diagnostic list \<Rightarrow> graph_diagnostic list" where
  "sort_diagnostics diagnostics =
     sort_key (\<lambda>d. (path_key (gd_path d), diagnostic_code_rank (gd_code d), gd_message d, gd_related_nodes d)) diagnostics"

definition verifier_field_name :: "string \<Rightarrow> field_name option" where
  "verifier_field_name value = (case FieldName_new value of Inr name \<Rightarrow> Some name | Inl _ \<Rightarrow> None)"

definition verifier_enum_label :: "string \<Rightarrow> enum_label option" where
  "verifier_enum_label value = (case EnumLabel_new value of Inr label \<Rightarrow> Some label | Inl _ \<Rightarrow> None)"

definition field_segment :: "string \<Rightarrow> diagnostic_path_segment" where
  "field_segment value =
     (case verifier_field_name value of Some name \<Rightarrow> FieldSegment name | None \<Rightarrow> IndexSegment u32_max)"

definition index_segment :: "nat \<Rightarrow> diagnostic_path_segment" where
  "index_segment value = IndexSegment (if value \<le> u32_max then value else u32_max)"

definition with_field :: "diagnostic_path_segment list \<Rightarrow> string \<Rightarrow> diagnostic_path_segment list" where
  "with_field path field = path @ [field_segment field]"

definition diagnostic_field_path ::
    "diagnostic_path_segment list \<Rightarrow> string list \<Rightarrow> diagnostic_path_segment list" where
  "diagnostic_field_path path names = path @ map field_segment names"

definition indexed_field_path ::
    "diagnostic_path_segment list \<Rightarrow> string \<Rightarrow> nat \<Rightarrow> diagnostic_path_segment list" where
  "indexed_field_path path field index = with_field path field @ [index_segment index]"

definition child_path ::
    "diagnostic_path_segment list \<Rightarrow> string \<Rightarrow> nat \<Rightarrow> node_name \<Rightarrow> diagnostic_path_segment list" where
  "child_path path field index name = indexed_field_path path field index @ [NodeSegment name]"

definition named_child_path ::
    "diagnostic_path_segment list \<Rightarrow> string \<Rightarrow> node_name \<Rightarrow> diagnostic_path_segment list" where
  "named_child_path path field name = with_field path field @ [NodeSegment name]"

definition guard_path ::
    "diagnostic_path_segment list \<Rightarrow> string \<Rightarrow> nat \<Rightarrow> string \<Rightarrow> diagnostic_path_segment list" where
  "guard_path path collection index field = indexed_field_path path collection index @ [field_segment field]"

definition choice_branch_node_path ::
    "diagnostic_path_segment list \<Rightarrow> nat \<Rightarrow> node_name \<Rightarrow> diagnostic_path_segment list" where
  "choice_branch_node_path path index name =
     indexed_field_path path ''branches'' index @ [field_segment ''node'', NodeSegment name]"

section \<open>Guards\<close>

fun guard_node_count :: "guard \<Rightarrow> u64" where
  "guard_node_count (GAll guards) = 1 + sum_list (map guard_node_count guards)"
| "guard_node_count (GAny guards) = 1 + sum_list (map guard_node_count guards)"
| "guard_node_count (GNot inner) = 1 + guard_node_count inner"
| "guard_node_count (GIn _ _) = 1"
| "guard_node_count (GKOfN _ _ _) = 1"
| "guard_node_count (GKOfMap _ _ _) = 1"

fun guard_selectors :: "guard \<Rightarrow> control_selector list" where
  "guard_selectors (GIn selector _) = [selector]"
| "guard_selectors (GKOfMap _ selector _) = [selector]"
| "guard_selectors (GAll guards) = concat (map guard_selectors guards)"
| "guard_selectors (GAny guards) = concat (map guard_selectors guards)"
| "guard_selectors (GNot inner) = guard_selectors inner"
| "guard_selectors (GKOfN _ selectors _) = selectors"

fun collect_guard_selector_uses :: "bool \<Rightarrow> guard \<Rightarrow> (control_selector \<times> bool) list" where
  "collect_guard_selector_uses map_aggregate (GIn selector _) = [(selector, map_aggregate)]"
| "collect_guard_selector_uses map_aggregate (GKOfMap _ selector _) = [(selector, True)]"
| "collect_guard_selector_uses map_aggregate (GAll guards) =
     concat (map (collect_guard_selector_uses map_aggregate) guards)"
| "collect_guard_selector_uses map_aggregate (GAny guards) =
     concat (map (collect_guard_selector_uses map_aggregate) guards)"
| "collect_guard_selector_uses map_aggregate (GNot inner) = collect_guard_selector_uses map_aggregate inner"
| "collect_guard_selector_uses map_aggregate (GKOfN _ selectors _) =
     map (\<lambda>selector. (selector, map_aggregate)) selectors"

definition guard_selector_uses :: "guard \<Rightarrow> (control_selector \<times> bool) list" where
  "guard_selector_uses guard' = collect_guard_selector_uses False guard'"

section \<open>Completion predicates\<close>

datatype completion_predicate =
    Always
  | Never
  | WhenGuard guard
  | NotCompleted completion_predicate
  | AllCompleted "completion_predicate list"
  | AnyCompleted "completion_predicate list"
  | AtLeast u64 "completion_predicate list"

definition completion_not :: "completion_predicate \<Rightarrow> completion_predicate" where
  "completion_not predicate =
     (case predicate of Always \<Rightarrow> Never | Never \<Rightarrow> Always | _ \<Rightarrow> NotCompleted predicate)"

fun combine_all :: "completion_predicate list \<Rightarrow> completion_predicate list \<Rightarrow> completion_predicate" where
  "combine_all [] combined =
     (case combined of [] \<Rightarrow> Always | [predicate] \<Rightarrow> predicate | _ \<Rightarrow> AllCompleted combined)"
| "combine_all (predicate # rest) combined =
     (case predicate of
        Never \<Rightarrow> Never
      | Always \<Rightarrow> combine_all rest combined
      | AllCompleted nested \<Rightarrow> combine_all rest (combined @ nested)
      | _ \<Rightarrow> combine_all rest (combined @ [predicate]))"

definition completion_all :: "completion_predicate list \<Rightarrow> completion_predicate" where
  "completion_all predicates = combine_all predicates []"

fun combine_any :: "completion_predicate list \<Rightarrow> completion_predicate list \<Rightarrow> completion_predicate" where
  "combine_any [] combined =
     (case combined of [] \<Rightarrow> Never | [predicate] \<Rightarrow> predicate | _ \<Rightarrow> AnyCompleted combined)"
| "combine_any (predicate # rest) combined =
     (case predicate of
        Always \<Rightarrow> Always
      | Never \<Rightarrow> combine_any rest combined
      | AnyCompleted nested \<Rightarrow> combine_any rest (combined @ nested)
      | _ \<Rightarrow> combine_any rest (combined @ [predicate]))"

definition completion_any :: "completion_predicate list \<Rightarrow> completion_predicate" where
  "completion_any predicates = combine_any predicates []"

definition completion_at_least :: "u64 \<Rightarrow> completion_predicate list \<Rightarrow> completion_predicate" where
  "completion_at_least number predicates =
     (if number = 0 then Always
      else if number > length predicates then Never
      else if number = length predicates then completion_all predicates
      else AtLeast number predicates)"

fun completion_guards :: "completion_predicate \<Rightarrow> guard list" where
  "completion_guards (WhenGuard g) = [g]"
| "completion_guards (NotCompleted predicate) = completion_guards predicate"
| "completion_guards (AllCompleted predicates) = concat (map completion_guards predicates)"
| "completion_guards (AnyCompleted predicates) = concat (map completion_guards predicates)"
| "completion_guards (AtLeast _ predicates) = concat (map completion_guards predicates)"
| "completion_guards Always = []"
| "completion_guards Never = []"

datatype parallel_join_correlation =
    Joined completion_predicate
  | First completion_predicate completion_predicate

definition correlation_guards :: "parallel_join_correlation \<Rightarrow> guard list" where
  "correlation_guards correlation =
     (case correlation of
        Joined completion \<Rightarrow> completion_guards completion
      | First satisfaction all_completions \<Rightarrow> completion_guards satisfaction @ completion_guards all_completions)"

definition correlation_field :: "parallel_join_correlation \<Rightarrow> string" where
  "correlation_field correlation = (case correlation of Joined _ \<Rightarrow> ''joined'' | First _ _ \<Rightarrow> ''raced'')"

record execution_correlation =
  ec_owner :: node_name
  ec_presence :: completion_predicate

section \<open>Control assignments\<close>

datatype control_source_key = KeySignal | KeyError | KeyGroup | KeyExecution

fun control_source_key_rank :: "control_source_key \<Rightarrow> nat" where
  "control_source_key_rank KeySignal = 0"
| "control_source_key_rank KeyError = 1"
| "control_source_key_rank KeyGroup = 2"
| "control_source_key_rank KeyExecution = 3"

lemma control_source_key_rank_inj: "control_source_key_rank a = control_source_key_rank b \<longleftrightarrow> a = b"
  by (cases a; cases b) auto

instantiation control_source_key :: linorder
begin

definition less_eq_control_source_key :: "control_source_key \<Rightarrow> control_source_key \<Rightarrow> bool" where
  "a \<le> b \<longleftrightarrow> control_source_key_rank a \<le> control_source_key_rank b"

definition less_control_source_key :: "control_source_key \<Rightarrow> control_source_key \<Rightarrow> bool" where
  "a < b \<longleftrightarrow> control_source_key_rank a < control_source_key_rank b"

instance
  by standard (auto simp: less_eq_control_source_key_def less_control_source_key_def
      simp flip: control_source_key_rank_inj)

end

text \<open>A key names a node, a source and a field; an assigned control counts the labels it reported.\<close>

type_synonym selector_key = "node_name \<times> control_source_key \<times> field_name option"
type_synonym assigned_control = "(enum_label, u64) btree_map"
type_synonym assignment = "(selector_key, assigned_control) btree_map"

abbreviation key_name :: "selector_key \<Rightarrow> node_name" where "key_name key \<equiv> fst key"
abbreviation key_source :: "selector_key \<Rightarrow> control_source_key" where "key_source key \<equiv> fst (snd key)"
abbreviation key_field :: "selector_key \<Rightarrow> field_name option" where "key_field key \<equiv> snd (snd key)"

definition selector_key :: "control_selector \<Rightarrow> selector_key" where
  "selector_key selector =
     (cs_name selector,
      (case cs_source selector of SourceSignal \<Rightarrow> KeySignal | SourceError \<Rightarrow> KeyError | SourceGroup \<Rightarrow> KeyGroup),
      cs_field selector)"

definition assigned_control :: "enum_label option \<Rightarrow> u64 \<Rightarrow> assigned_control" where
  "assigned_control label occurrences = (case label of Some l \<Rightarrow> [(l, occurrences)] | None \<Rightarrow> [])"

definition selector_matches :: "control_selector \<Rightarrow> enum_label list \<Rightarrow> assignment \<Rightarrow> bool" where
  "selector_matches selector labels assignment =
     (case bm_get assignment (selector_key selector) of
        None \<Rightarrow> False
      | Some control \<Rightarrow> list_ex (\<lambda>label. case bm_get control label of Some number \<Rightarrow> number > 0 | None \<Rightarrow> False) labels)"

definition selector_occurrences :: "control_selector \<Rightarrow> enum_label list \<Rightarrow> assignment \<Rightarrow> u64" where
  "selector_occurrences selector labels assignment =
     (case bm_get assignment (selector_key selector) of
        None \<Rightarrow> 0
      | Some control \<Rightarrow> sum_list (List.map_filter (bm_get control) labels))"

fun evaluate_guard :: "guard \<Rightarrow> assignment \<Rightarrow> bool" where
  "evaluate_guard (GIn selector labels) assignment = selector_matches selector labels assignment"
| "evaluate_guard (GAll guards) assignment = list_all (\<lambda>g. evaluate_guard g assignment) guards"
| "evaluate_guard (GAny guards) assignment = list_ex (\<lambda>g. evaluate_guard g assignment) guards"
| "evaluate_guard (GNot inner) assignment = (\<not> evaluate_guard inner assignment)"
| "evaluate_guard (GKOfN number selectors labels) assignment =
     (length (filter (\<lambda>selector. selector_matches selector labels assignment) selectors) \<ge> number)"
| "evaluate_guard (GKOfMap number selector labels) assignment =
     (selector_occurrences selector labels assignment \<ge> number)"

fun completion_evaluate :: "completion_predicate \<Rightarrow> assignment \<Rightarrow> bool" where
  "completion_evaluate Always assignment = True"
| "completion_evaluate Never assignment = False"
| "completion_evaluate (WhenGuard g) assignment = evaluate_guard g assignment"
| "completion_evaluate (NotCompleted predicate) assignment = (\<not> completion_evaluate predicate assignment)"
| "completion_evaluate (AllCompleted predicates) assignment =
     list_all (\<lambda>predicate. completion_evaluate predicate assignment) predicates"
| "completion_evaluate (AnyCompleted predicates) assignment =
     list_ex (\<lambda>predicate. completion_evaluate predicate assignment) predicates"
| "completion_evaluate (AtLeast number predicates) assignment =
     (length (filter (\<lambda>predicate. completion_evaluate predicate assignment) predicates) \<ge> number)"

section \<open>Domains\<close>

definition error_labels :: "enum_label list" where
  "error_labels = List.map_filter verifier_enum_label [''timeout'', ''crash'', ''malformed'', ''refusal'']"

definition parallel_join_domain :: "graph_node \<Rightarrow> bool \<Rightarrow> bool" where
  "parallel_join_domain node first =
     (case node of
        ParNode _ _ _ _ join \<Rightarrow> (case join of JFirst _ \<Rightarrow> True | _ \<Rightarrow> False) = first
      | _ \<Rightarrow> False)"

definition group_domain_labels :: "graph_node \<Rightarrow> string \<Rightarrow> string list option" where
  "group_domain_labels node field =
     (if field = ''terminated'' then
        (case node of LoopNode _ _ _ _ _ _ _ \<Rightarrow> Some [''converged'', ''exhausted''] | _ \<Rightarrow> None)
      else if field = ''overflow'' then (if is_map_node node then Some [''ok'', ''overflow''] else None)
      else if field = ''joined'' then
        (if parallel_join_domain node False then Some [''reached'', ''quorum_unreachable''] else None)
      else if field = ''raced'' then
        (if parallel_join_domain node True then Some [''satisfied'', ''no_satisfier''] else None)
      else None)"

definition group_domain :: "graph_node \<Rightarrow> field_name option \<Rightarrow> enum_label list option" where
  "group_domain node field =
     (case field of
        None \<Rightarrow> None
      | Some field \<Rightarrow> map_option (List.map_filter verifier_enum_label) (group_domain_labels node field))"

definition selector_key_domain :: "selector_key \<Rightarrow> graph_node \<Rightarrow> enum_label list" where
  "selector_key_domain key node =
     (case key_source key of
        KeySignal \<Rightarrow>
          (case (node, key_field key) of
             (VerifierNode verifier, Some field) \<Rightarrow>
               (case bm_get (vn_signals verifier) field of Some labels \<Rightarrow> labels | None \<Rightarrow> [])
           | _ \<Rightarrow> [])
      | KeyError \<Rightarrow> error_labels
      | KeyGroup \<Rightarrow> (case group_domain node (key_field key) of Some labels \<Rightarrow> labels | None \<Rightarrow> [])
      | KeyExecution \<Rightarrow> List.map_filter verifier_enum_label [''executed''])"

section \<open>Outcomes of one execution\<close>

record outcome_keys =
  ok_emitted :: "selector_key list"
  ok_errors :: "selector_key list"
  ok_executions :: "selector_key list"

definition outcome_keys_of :: "selector_key list \<Rightarrow> outcome_keys" where
  "outcome_keys_of keys =
     \<lparr>ok_emitted = filter (\<lambda>key. key_source key = KeySignal \<or> key_source key = KeyGroup) keys,
      ok_errors = filter (\<lambda>key. key_source key = KeyError) keys,
      ok_executions = filter (\<lambda>key. key_source key = KeyExecution) keys\<rparr>"

definition successful_outcome_count :: "graph_node \<Rightarrow> selector_key list \<Rightarrow> u64 option" where
  "successful_outcome_count node emitted =
     opt_foldl (\<lambda>number key.
         case checked_mul number (length (selector_key_domain key node)) of
           None \<Rightarrow> None
         | Some number \<Rightarrow> if number > FULL_V1_MAX_GUARD_ASSIGNMENTS then None else Some number) 1 emitted"

definition runtime_errors_for_node :: "graph_node \<Rightarrow> enum_label list" where
  "runtime_errors_for_node node = (if is_executable node then error_labels else [])"

definition cartesian_emitted_outcomes ::
    "assignment list \<Rightarrow> selector_key \<Rightarrow> enum_label list \<Rightarrow> assignment list" where
  "cartesian_emitted_outcomes partial key labels =
     concat (map (\<lambda>start. map (\<lambda>label. bm_insert key (assigned_control (Some label) 1) start) labels) partial)"

definition insert_empty_controls :: "assignment \<Rightarrow> selector_key list \<Rightarrow> assignment" where
  "insert_empty_controls assignment keys =
     fold (\<lambda>key. bm_insert key (assigned_control None 0)) keys assignment"

definition insert_execution_controls :: "assignment \<Rightarrow> selector_key list \<Rightarrow> assignment" where
  "insert_execution_controls assignment keys =
     (case verifier_enum_label ''executed'' of
        None \<Rightarrow> assignment
      | Some executed \<Rightarrow> fold (\<lambda>key. bm_insert key (assigned_control (Some executed) 1)) keys assignment)"

definition successful_outcomes :: "graph_node \<Rightarrow> outcome_keys \<Rightarrow> assignment list" where
  "successful_outcomes node keys =
     map (\<lambda>assignment. insert_execution_controls (insert_empty_controls assignment (ok_errors keys)) (ok_executions keys))
       (fold (\<lambda>key successful. cartesian_emitted_outcomes successful key (selector_key_domain key node))
          (ok_emitted keys) [[]])"

text \<open>\<^verbatim>\<open>Vec::dedup\<close> drops repeated neighbours.\<close>

definition with_runtime_errors :: "assignment list \<Rightarrow> enum_label list \<Rightarrow> outcome_keys \<Rightarrow> assignment list" where
  "with_runtime_errors outcomes runtime_errors keys =
     remdups_adj (outcomes @ map (\<lambda>error.
       fold (\<lambda>key. bm_insert key (assigned_control (Some error) 1)) (ok_errors keys)
         (insert_execution_controls (insert_empty_controls [] (ok_emitted keys)) (ok_executions keys))) runtime_errors)"

definition per_execution_outcomes :: "graph_node \<Rightarrow> selector_key list \<Rightarrow> assignment list option" where
  "per_execution_outcomes node keys =
     (let keys = outcome_keys_of keys; runtime_errors = runtime_errors_for_node node
      in case successful_outcome_count node (ok_emitted keys) of
           None \<Rightarrow> None
         | Some successful_count \<Rightarrow>
             (case checked_add successful_count (length runtime_errors) of
                None \<Rightarrow> None
              | Some total_outcomes \<Rightarrow>
                  if total_outcomes > FULL_V1_MAX_GUARD_ASSIGNMENTS then None
                  else Some (with_runtime_errors (successful_outcomes node keys) runtime_errors keys)))"

definition group_control_dimensions :: "graph_node \<Rightarrow> selector_key list \<Rightarrow> assignment list list" where
  "group_control_dimensions node keys =
     map (\<lambda>key. map (\<lambda>label. [(key, assigned_control (Some label) 1)])
         (case group_domain node (key_field key) of Some labels \<Rightarrow> labels | None \<Rightarrow> []))
       (filter (\<lambda>key. key_source key = KeyGroup) keys)"

definition single_outcome_dimension :: "graph_node \<Rightarrow> selector_key list \<Rightarrow> assignment list option" where
  "single_outcome_dimension node keys =
     (case per_execution_outcomes node keys of
        None \<Rightarrow> None
      | Some choices \<Rightarrow> if length choices \<le> FULL_V1_MAX_GUARD_ASSIGNMENTS then Some choices else None)"

section \<open>Outcomes of several map items\<close>

text \<open>The number of weak compositions of at most \<open>maximum\<close> occurrences across \<open>labels\<close> values.\<close>

fun distribution_loop :: "u64 \<Rightarrow> u64 list \<Rightarrow> u64 \<Rightarrow> u64 option" where
  "distribution_loop maximum [] number = Some number"
| "distribution_loop maximum (divisor # divisors) number =
     (case checked_add maximum divisor of
        None \<Rightarrow> None
      | Some numerator \<Rightarrow>
          (case checked_mul number numerator of
             None \<Rightarrow> None
           | Some product \<Rightarrow>
               let number = product div divisor
               in if number > FULL_V1_MAX_GUARD_ASSIGNMENTS then Some number
                  else distribution_loop maximum divisors number))"

definition bounded_distribution_count :: "u64 \<Rightarrow> nat \<Rightarrow> u64 option" where
  "bounded_distribution_count maximum labels = distribution_loop maximum [1..<Suc labels] 1"

text \<open>The next nondecreasing sequence of outcome indexes: the last index that can grow is raised, and the
  ones after it are set to the same value.\<close>

definition rposition :: "('a \<Rightarrow> bool) \<Rightarrow> 'a list \<Rightarrow> nat option" where
  "rposition P xs =
     (case filter (\<lambda>i. P (xs ! i)) [0..<length xs] of [] \<Rightarrow> None | is \<Rightarrow> Some (last is))"

definition next_occurrences :: "nat \<Rightarrow> nat list \<Rightarrow> nat list option" where
  "next_occurrences outcomes indexes =
     (case rposition (\<lambda>outcome. outcome + 1 < outcomes) indexes of
        None \<Rightarrow> None
      | Some position \<Rightarrow>
          Some (take position indexes @ replicate (length indexes - position) (indexes ! position + 1)))"

lemma rposition_SomeD:
  assumes "rposition P xs = Some i"
  shows "i < length xs" "P (xs ! i)"
proof -
  obtain k ks where f: "filter (\<lambda>i. P (xs ! i)) [0..<length xs] = k # ks" and i: "i = last (k # ks)"
    using assms by (cases "filter (\<lambda>i. P (xs ! i)) [0..<length xs]") (simp_all add: rposition_def)
  have "i \<in> set (filter (\<lambda>i. P (xs ! i)) [0..<length xs])" unfolding f i by (rule last_in_set) simp
  then show "i < length xs" "P (xs ! i)" by auto
qed

lemma next_occurrences_descends:
  assumes "next_occurrences outcomes xs = Some ys"
  shows "(map (\<lambda>x. outcomes - x) ys, map (\<lambda>x. outcomes - x) xs) \<in> lex less_than"
proof -
  from assms obtain p where p: "rposition (\<lambda>x. x + 1 < outcomes) xs = Some p"
    and ys: "ys = take p xs @ replicate (length xs - p) (xs ! p + 1)"
    by (auto simp: next_occurrences_def split: option.splits)
  note r = rposition_SomeD[OF p]
  have "ys = take p xs @ (xs ! p + 1) # replicate (length xs - p - 1) (xs ! p + 1)"
    using ys r(1) by (cases "length xs - p") auto
  moreover have "xs = take p xs @ xs ! p # drop (Suc p) xs" using r(1) by (rule id_take_nth_drop)
  ultimately have "map (\<lambda>x. outcomes - x) ys = map (\<lambda>x. outcomes - x) (take p xs) @ (outcomes - (xs ! p + 1)) #
        map (\<lambda>x. outcomes - x) (replicate (length xs - p - 1) (xs ! p + 1))"
    "map (\<lambda>x. outcomes - x) xs = map (\<lambda>x. outcomes - x) (take p xs) @ (outcomes - xs ! p) # map (\<lambda>x. outcomes - x) (drop (Suc p) xs)"
    by (metis list.simps(9) map_append)+
  moreover have "length (replicate (length xs - p - 1) (xs ! p + 1)) = length (drop (Suc p) xs)" using r(1) by simp
  ultimately show ?thesis using r(2) unfolding lex_conv by fastforce
qed

function occurrences_from :: "nat \<Rightarrow> nat list \<Rightarrow> nat list list" where
  "occurrences_from outcomes indexes =
     indexes # (case next_occurrences outcomes indexes of
                  None \<Rightarrow> [] | Some following \<Rightarrow> occurrences_from outcomes following)"
  by pat_completeness auto
termination
  by (relation "inv_image (lex less_than) (\<lambda>(outcomes, xs). map (\<lambda>x. outcomes - x) xs)")
    (auto intro: wf_lex simp: next_occurrences_descends)

declare occurrences_from.simps [simp del]

text \<open>The sequences that \<open>for_each_outcome_multiset\<close> visits, in order.\<close>

definition outcome_multisets :: "nat \<Rightarrow> u64 \<Rightarrow> nat list list" where
  "outcome_multisets outcomes maximum =
     [] # (if outcomes = 0 then []
           else concat (map (\<lambda>occurrences. occurrences_from outcomes (replicate occurrences 0)) [1..<Suc maximum]))"

fun visit_until :: "('a \<Rightarrow> 's \<Rightarrow> bool \<times> 's) \<Rightarrow> 'a list \<Rightarrow> 's \<Rightarrow> bool \<times> 's" where
  "visit_until visit [] s = (True, s)"
| "visit_until visit (x # xs) s = (case visit x s of (True, s) \<Rightarrow> visit_until visit xs s | (False, s) \<Rightarrow> (False, s))"

definition for_each_outcome_multiset ::
    "nat \<Rightarrow> u64 \<Rightarrow> (nat list \<Rightarrow> 's \<Rightarrow> bool \<times> 's) \<Rightarrow> 's \<Rightarrow> bool \<times> 's" where
  "for_each_outcome_multiset outcomes maximum visit s = visit_until visit (outcome_multisets outcomes maximum) s"

definition add_counts :: "assigned_control \<Rightarrow> assigned_control \<Rightarrow> assigned_control option" where
  "add_counts target counts =
     opt_foldl (\<lambda>target (label, number).
         map_option (\<lambda>summed. bm_insert label summed target)
           (checked_add (case bm_get target label of Some n \<Rightarrow> n | None \<Rightarrow> 0) number)) target counts"

definition combine_outcome_occurrences ::
    "selector_key list \<Rightarrow> assignment list \<Rightarrow> nat list \<Rightarrow> assignment option" where
  "combine_outcome_occurrences keys outcomes occurrences =
     opt_foldl (\<lambda>combined index.
         if index < length outcomes then
           opt_foldl (\<lambda>combined (key, control).
               map_option (\<lambda>counts. bm_insert key counts combined)
                 (add_counts (case bm_get combined key of Some c \<Rightarrow> c | None \<Rightarrow> assigned_control None 0) control))
             combined (outcomes ! index)
         else None)
       (bm_extend [] (map (\<lambda>key. (key, assigned_control None 0)) keys)) occurrences"

definition aggregate_assignments_from_outcomes ::
    "selector_key list \<Rightarrow> assignment list \<Rightarrow> u64 \<Rightarrow> assignment list option" where
  "aggregate_assignments_from_outcomes keys outcomes maximum =
     (case bounded_distribution_count maximum (length outcomes) of
        None \<Rightarrow> None
      | Some expected \<Rightarrow>
          if expected > FULL_V1_MAX_GUARD_ASSIGNMENTS then None
          else
            (case for_each_outcome_multiset (length outcomes) maximum (\<lambda>occurrences (assignments, valid).
                 if length assignments \<ge> expected then (False, (assignments, False))
                 else case combine_outcome_occurrences keys outcomes occurrences of
                   None \<Rightarrow> (False, (assignments, False))
                 | Some assignment \<Rightarrow> (True, (assignments @ [assignment], valid))) ([], True) of
               (completed, assignments, valid) \<Rightarrow>
                 if completed \<and> valid \<and> length assignments = expected then Some assignments else None))"

section \<open>Correlated controls\<close>

record node_info =
  ni_node :: graph_node
  ni_path :: "diagnostic_path_segment list"
  ni_ordinal :: nat

record map_aggregate =
  ma_owner :: node_name
  ma_maximum :: u64

record dimension_inputs =
  di_nodes :: "(node_name, node_info) btree_map"
  di_map_aggregates :: "(selector_key, map_aggregate) btree_map"
  di_join_correlations :: "(node_name, parallel_join_correlation) btree_map"
  di_execution_correlations :: "(node_name, execution_correlation) btree_map"

definition control_reports :: "assigned_control \<Rightarrow> string \<Rightarrow> bool" where
  "control_reports control expected \<longleftrightarrow> list_ex (\<lambda>(label, number). label = expected \<and> number > 0) control"

definition joined_control_matches :: "assigned_control \<Rightarrow> completion_predicate \<Rightarrow> assignment \<Rightarrow> bool" where
  "joined_control_matches control completion assignment =
     (let completed = completion_evaluate completion assignment
      in control_reports control ''reached'' \<and> completed
         \<or> control_reports control ''quorum_unreachable'' \<and> \<not> completed)"

definition first_control_matches ::
    "assigned_control \<Rightarrow> completion_predicate \<Rightarrow> completion_predicate \<Rightarrow> assignment \<Rightarrow> bool" where
  "first_control_matches control satisfaction all_completions assignment =
     (let satisfied = completion_evaluate satisfaction assignment
      in control_reports control ''satisfied'' \<and> satisfied
         \<or> control_reports control ''no_satisfier'' \<and> \<not> satisfied
           \<and> completion_evaluate all_completions assignment)"

definition is_join_control :: "node_name \<Rightarrow> parallel_join_correlation \<Rightarrow> selector_key \<Rightarrow> bool" where
  "is_join_control name correlation key \<longleftrightarrow>
     key_name key = name \<and> key_source key = KeyGroup \<and> key_field key = Some (correlation_field correlation)"

definition parallel_join_control ::
    "assignment \<Rightarrow> node_name \<Rightarrow> parallel_join_correlation \<Rightarrow> assigned_control option" where
  "parallel_join_control assignment name correlation =
     map_option snd (find (\<lambda>(key, _). is_join_control name correlation key) assignment)"

definition assignment_matches_parallel_join_correlation ::
    "assignment \<Rightarrow> node_name \<Rightarrow> parallel_join_correlation \<Rightarrow> bool" where
  "assignment_matches_parallel_join_correlation assignment name correlation =
     (case parallel_join_control assignment name correlation of
        None \<Rightarrow> True
      | Some control \<Rightarrow>
          if list_all (\<lambda>(_, number). number = 0) control then True
          else
            (case correlation of
               Joined completion \<Rightarrow> joined_control_matches control completion assignment
             | First satisfaction all_completions \<Rightarrow>
                 first_control_matches control satisfaction all_completions assignment))"

definition execution_key :: "node_name \<Rightarrow> selector_key" where
  "execution_key name = (name, KeyExecution, None)"

definition empty_outcome :: "selector_key list \<Rightarrow> assignment" where
  "empty_outcome keys = bm_extend [] (map (\<lambda>key. (key, assigned_control None 0)) keys)"

definition assignment_is_empty :: "assignment \<Rightarrow> bool" where
  "assignment_is_empty assignment \<longleftrightarrow> list_all (\<lambda>(_, control). list_all (\<lambda>(_, number). number = 0) control) assignment"

definition assignment_matches_map_execution_correlation ::
    "assignment \<Rightarrow> node_name \<Rightarrow> execution_correlation \<Rightarrow> bool" where
  "assignment_matches_map_execution_correlation assignment name correlation =
     ((case bm_get assignment (execution_key name) of
         Some control \<Rightarrow> list_ex (\<lambda>(_, number). number > 0) control
       | None \<Rightarrow> False) = completion_evaluate (ec_presence correlation) assignment)"

definition correlation_control_is_present ::
    "node_name \<Rightarrow> parallel_join_correlation \<Rightarrow> selector_key btree_set \<Rightarrow> bool" where
  "correlation_control_is_present name correlation keys = list_ex (is_join_control name correlation) keys"

definition guards_selectors :: "guard list \<Rightarrow> control_selector list" where
  "guards_selectors guards = concat (map guard_selectors guards)"

definition correlation_is_available_to_scope ::
    "node_name \<Rightarrow> parallel_join_correlation \<Rightarrow> selector_key btree_set \<Rightarrow> selector_key btree_set \<Rightarrow> bool" where
  "correlation_is_available_to_scope name correlation control_keys available_keys \<longleftrightarrow>
     correlation_control_is_present name correlation control_keys
     \<and> list_all (\<lambda>selector. selector_key selector \<in> set available_keys)
         (guards_selectors (correlation_guards correlation))"

section \<open>The assignment space\<close>

definition assignments_are_compatible :: "assignment \<Rightarrow> assignment \<Rightarrow> bool" where
  "assignments_are_compatible left right \<longleftrightarrow>
     list_all (\<lambda>(key, control). case bm_get left key of None \<Rightarrow> True | Some existing \<Rightarrow> existing = control) right"

definition extend_dimension :: "assignment list \<Rightarrow> assignment list \<Rightarrow> assignment list" where
  "extend_dimension dimension assignments =
     concat (map (\<lambda>start. map (bm_extend start) (filter (assignments_are_compatible start) dimension)) assignments)"

definition enumerate_assignments :: "assignment list list \<Rightarrow> assignment list" where
  "enumerate_assignments dimensions = fold extend_dimension dimensions [[]]"

text \<open>The count stops as soon as one more assignment of a dimension would exceed the maximum.\<close>

definition compatible_assignment_count_is_bounded :: "assignment list list \<Rightarrow> u64 \<Rightarrow> bool" where
  "compatible_assignment_count_is_bounded dimensions maximum \<longleftrightarrow>
     opt_foldl (\<lambda>assignments dimension.
         let extended = extend_dimension dimension assignments
         in if length extended > maximum then None else Some extended) [[]] dimensions \<noteq> None"

definition dimension_product_is_bounded :: "assignment list list \<Rightarrow> bool" where
  "dimension_product_is_bounded dimensions \<longleftrightarrow>
     opt_foldl (\<lambda>product dimension.
         case checked_mul product (length dimension) of
           Some product \<Rightarrow> if product \<le> FULL_V1_MAX_GUARD_ASSIGNMENTS then Some product else None
         | None \<Rightarrow> None) 1 dimensions \<noteq> None"

definition scalar_dimensions_for_node ::
    "graph_node \<Rightarrow> selector_key btree_set \<Rightarrow> (selector_key, map_aggregate) btree_map \<Rightarrow> assignment list list option" where
  "scalar_dimensions_for_node node keys map_aggregates =
     (let scalar = filter (\<lambda>key. \<not> bm_has map_aggregates key) keys;
          dimensions = group_control_dimensions node scalar;
          outcomes = filter (\<lambda>key. key_source key \<noteq> KeyGroup) scalar
      in if outcomes = [] then Some dimensions
         else map_option (\<lambda>choices. dimensions @ [choices]) (single_outcome_dimension node outcomes))"

definition keys_by_node :: "selector_key list \<Rightarrow> (node_name, selector_key btree_set) btree_map" where
  "keys_by_node keys = fold (\<lambda>key. bm_entry (key_name key) [] (bs_insert key)) keys []"

definition dimensions_for_keys ::
    "(node_name, node_info) btree_map \<Rightarrow> selector_key btree_set \<Rightarrow> assignment list list option" where
  "dimensions_for_keys nodes keys =
     opt_foldl (\<lambda>dimensions (name, keys).
         case bm_get nodes name of
           None \<Rightarrow> None
         | Some info \<Rightarrow> map_option ((@) dimensions) (scalar_dimensions_for_node (ni_node info) keys []))
       [] (keys_by_node keys)"

type_synonym scope_nodes = "(node_name, selector_key list) btree_map"

definition scope_keys_of :: "scope_nodes \<Rightarrow> selector_key list" where
  "scope_keys_of scope_nodes = concat (map snd scope_nodes)"

text \<open>One pass over the joins, and the passes until no new shared key is found.\<close>

definition unscoped_dependencies ::
    "(selector_key, map_aggregate) btree_map \<Rightarrow> parallel_join_correlation \<Rightarrow> selector_key list" where
  "unscoped_dependencies map_aggregates correlation =
     filter (\<lambda>key. \<not> bm_has map_aggregates key) (map selector_key (guards_selectors (correlation_guards correlation)))"

type_synonym shared_search = "selector_key btree_set \<times> selector_key btree_set \<times> bool"

definition share_key :: "selector_key \<Rightarrow> shared_search \<Rightarrow> shared_search" where
  "share_key dependency = (\<lambda>(available, shared, discovered).
     (bs_insert dependency available, bs_insert dependency shared, discovered \<or> dependency \<notin> set shared))"

definition share_join ::
    "(selector_key, map_aggregate) btree_map \<Rightarrow> node_name \<times> parallel_join_correlation \<Rightarrow> shared_search \<Rightarrow> shared_search" where
  "share_join map_aggregates = (\<lambda>(name, correlation) (available, shared, discovered).
     if correlation_control_is_present name correlation available
     then fold share_key (unscoped_dependencies map_aggregates correlation) (available, shared, discovered)
     else (available, shared, discovered))"

definition join_dependencies ::
    "(selector_key, map_aggregate) btree_map \<Rightarrow> (node_name, parallel_join_correlation) btree_map \<Rightarrow> selector_key set" where
  "join_dependencies map_aggregates joins =
     (\<Union>(name, correlation) \<in> set joins. set (unscoped_dependencies map_aggregates correlation))"

lemma set_bs_insert_eq [simp]: "set (bs_insert x xs) = insert x (set xs)"
  by (induction x xs rule: bs_insert.induct) auto

lemma share_keys_grow:
  "fold share_key ds (a, s, d) = (a', s', d') \<Longrightarrow>
     set s \<subseteq> set s' \<and> set s' \<subseteq> set s \<union> set ds \<and> (d' \<longrightarrow> d \<or> set s \<noteq> set s')"
proof (induction ds arbitrary: a s d)
  case (Cons x ds)
  from Cons.IH[of "bs_insert x a" "bs_insert x s" "d \<or> x \<notin> set s"] Cons.prems show ?case
    by (auto simp: share_key_def)
qed simp

lemma share_joins_grow:
  "fold (share_join aggs) js (a, s, d) = (a', s', d') \<Longrightarrow>
     set s \<subseteq> set s' \<and> set s' \<subseteq> set s \<union> join_dependencies aggs js \<and> (d' \<longrightarrow> d \<or> set s \<noteq> set s')"
proof (induction js arbitrary: a s d)
  case (Cons j js)
  obtain n c where j: "j = (n, c)" by force
  obtain a1 s1 d1 where step: "share_join aggs j (a, s, d) = (a1, s1, d1)" by (cases "share_join aggs j (a, s, d)")
  then have grow: "set s \<subseteq> set s1 \<and> set s1 \<subseteq> set s \<union> set (unscoped_dependencies aggs c) \<and> (d1 \<longrightarrow> d \<or> set s \<noteq> set s1)"
    using share_keys_grow[of "unscoped_dependencies aggs c" a s d] by (auto simp: share_join_def j split: if_splits)
  from Cons.prems step have "fold (share_join aggs) js (a1, s1, d1) = (a', s', d')" by simp
  from Cons.IH[OF this] grow show ?case by (auto simp: join_dependencies_def j)
qed simp

function shared_keys_loop ::
    "(selector_key, map_aggregate) btree_map \<Rightarrow> (node_name, parallel_join_correlation) btree_map
       \<Rightarrow> selector_key btree_set \<Rightarrow> selector_key btree_set \<Rightarrow> selector_key btree_set" where
  "shared_keys_loop map_aggregates joins available shared =
     (case fold (share_join map_aggregates) joins (available, shared, False) of
        (available, shared, discovered) \<Rightarrow>
          if discovered then shared_keys_loop map_aggregates joins available shared else shared)"
  by pat_completeness auto
termination
proof (relation "measure (\<lambda>(aggs, joins, a, s). card (join_dependencies aggs joins - set s))", goal_cases)
  case (2 aggs joins a s a' q s' d)
  then have f: "fold (share_join aggs) joins (a, s, False) = (a', s', d)" and d: d by simp_all
  have fin: "finite (join_dependencies aggs joins)" by (auto simp: join_dependencies_def)
  from share_joins_grow[OF f] d have "join_dependencies aggs joins - set s' \<subset> join_dependencies aggs joins - set s"
    by blast
  then show ?case using fin by (auto intro: psubset_card_mono)
qed simp

declare shared_keys_loop.simps [simp del]

definition aggregate_shared_keys ::
    "scope_nodes \<Rightarrow> (selector_key, map_aggregate) btree_map \<Rightarrow> (node_name, parallel_join_correlation) btree_map
       \<Rightarrow> selector_key btree_set" where
  "aggregate_shared_keys scope_nodes map_aggregates joins =
     shared_keys_loop map_aggregates joins (bs_of_list (scope_keys_of scope_nodes)) []"

definition aggregate_shared_execution_keys ::
    "scope_nodes \<Rightarrow> (selector_key, map_aggregate) btree_map \<Rightarrow> (node_name, execution_correlation) btree_map
       \<Rightarrow> selector_key btree_set" where
  "aggregate_shared_execution_keys scope_nodes map_aggregates executions =
     bs_of_list (filter (\<lambda>key. \<not> bm_has map_aggregates key) (map selector_key (guards_selectors
       (concat (map (\<lambda>correlation. completion_guards (ec_presence correlation))
         (List.map_filter (bm_get executions) (bm_keys scope_nodes)))))))"

section \<open>Map scopes\<close>

definition merge_assignment_components :: "node_name btree_set list \<Rightarrow> node_name btree_set \<Rightarrow> node_name btree_set list" where
  "merge_assignment_components components correlated =
     filter (\<lambda>component. set component \<inter> set correlated = {}) components
     @ [fold (\<lambda>component merged. bs_extend merged component)
          (filter (\<lambda>component. set component \<inter> set correlated \<noteq> {}) components) correlated]"

definition scoped_guard_names :: "guard list \<Rightarrow> selector_key btree_set \<Rightarrow> node_name list" where
  "scoped_guard_names guards scope_keys =
     map cs_name (filter (\<lambda>selector. selector_key selector \<in> set scope_keys) (guards_selectors guards))"

definition correlate_join_components ::
    "(node_name, parallel_join_correlation) btree_map \<Rightarrow> selector_key btree_set \<Rightarrow> selector_key btree_set
       \<Rightarrow> node_name btree_set list \<Rightarrow> node_name btree_set list" where
  "correlate_join_components joins scope_keys available_keys components =
     fold (\<lambda>(name, correlation) components.
         if correlation_is_available_to_scope name correlation scope_keys available_keys
         then merge_assignment_components components
                (bs_extend [name] (scoped_guard_names (correlation_guards correlation) scope_keys))
         else components) joins components"

definition correlate_execution_components ::
    "(node_name, execution_correlation) btree_map \<Rightarrow> scope_nodes \<Rightarrow> selector_key btree_set
       \<Rightarrow> node_name btree_set list \<Rightarrow> node_name btree_set list" where
  "correlate_execution_components executions scope_nodes scope_keys components =
     (let always_present = filter (\<lambda>name.
            case bm_get executions name of Some correlation \<Rightarrow> ec_presence correlation = Always | None \<Rightarrow> False)
            (bm_keys scope_nodes);
          components = (if always_present = [] then components
                        else merge_assignment_components components always_present)
      in fold (\<lambda>(name, correlation) components.
             if bm_has scope_nodes name
             then merge_assignment_components components
                    (bs_extend [name] (scoped_guard_names (completion_guards (ec_presence correlation)) scope_keys))
             else components) executions components)"

definition aggregate_components ::
    "dimension_inputs \<Rightarrow> scope_nodes \<Rightarrow> selector_key btree_set \<Rightarrow> selector_key btree_set \<Rightarrow> node_name btree_set list" where
  "aggregate_components inputs scope_nodes scope_keys available_keys =
     sort_key (\<lambda>component. case component of [] \<Rightarrow> None | name # _ \<Rightarrow> Some name)
       (correlate_execution_components (di_execution_correlations inputs) scope_nodes scope_keys
         (correlate_join_components (di_join_correlations inputs) scope_keys available_keys
           (map (\<lambda>name. [name]) (bm_keys scope_nodes))))"

definition item_dimension :: "dimension_inputs \<Rightarrow> scope_nodes \<Rightarrow> node_name \<Rightarrow> assignment list option" where
  "item_dimension inputs scope_nodes name =
     (case (bm_get scope_nodes name, bm_get (di_nodes inputs) name) of
        (Some node_keys, Some info) \<Rightarrow>
          (let outcome_keys = (if bm_has (di_execution_correlations inputs) name
                               then node_keys @ [execution_key name] else node_keys)
           in map_option (\<lambda>outcomes. outcomes @ [empty_outcome outcome_keys])
                (per_execution_outcomes (ni_node info) outcome_keys))
      | _ \<Rightarrow> None)"

definition item_outcome_is_consistent ::
    "dimension_inputs \<Rightarrow> assignment \<Rightarrow> selector_key btree_set \<Rightarrow> selector_key btree_set \<Rightarrow> node_name btree_set
       \<Rightarrow> assignment \<Rightarrow> bool" where
  "item_outcome_is_consistent inputs shared_assignment available_keys key_set component assignment \<longleftrightarrow>
     \<not> assignment_is_empty assignment
     \<and> (let correlated = bm_extend shared_assignment assignment
        in list_all (\<lambda>(name, correlation).
               correlation_is_available_to_scope name correlation key_set available_keys \<longrightarrow>
               assignment_matches_parallel_join_correlation correlated name correlation) (di_join_correlations inputs)
           \<and> list_all (\<lambda>name.
               case bm_get (di_execution_correlations inputs) name of
                 Some correlation \<Rightarrow> assignment_matches_map_execution_correlation correlated name correlation
               | None \<Rightarrow> True) component)"

definition aggregate_component_dimension ::
    "dimension_inputs \<Rightarrow> scope_nodes \<Rightarrow> u64 \<Rightarrow> selector_key btree_set \<Rightarrow> assignment \<Rightarrow> node_name btree_set
       \<Rightarrow> assignment list option" where
  "aggregate_component_dimension inputs scope_nodes maximum available_keys shared_assignment component =
     (let keys = concat (map (\<lambda>name. case bm_get scope_nodes name of Some ks \<Rightarrow> ks | None \<Rightarrow> []) component);
          key_set = bs_of_list keys
      in case those (map (item_dimension inputs scope_nodes) component) of
           None \<Rightarrow> None
         | Some item_dimensions \<Rightarrow>
             if \<not> dimension_product_is_bounded item_dimensions then None
             else
               let item_outcomes = filter (item_outcome_is_consistent inputs shared_assignment available_keys key_set component)
                     (enumerate_assignments item_dimensions);
                   item_outcomes = map (bm_retain (\<lambda>key _. key_source key \<noteq> KeyExecution)) item_outcomes;
                   item_outcomes = bs_of_list (filter (\<lambda>assignment. \<not> assignment_is_empty assignment) item_outcomes)
               in aggregate_assignments_from_outcomes keys item_outcomes maximum)"

definition component_dimensions ::
    "dimension_inputs \<Rightarrow> scope_nodes \<Rightarrow> u64 \<Rightarrow> selector_key btree_set \<Rightarrow> node_name btree_set list \<Rightarrow> assignment
       \<Rightarrow> assignment list list option" where
  "component_dimensions inputs scope_nodes maximum available_keys components shared_assignment =
     those (map (aggregate_component_dimension inputs scope_nodes maximum available_keys shared_assignment) components)"

text \<open>The combinations stop with nothing as soon as one more assignment would exceed the limit.\<close>

definition combine_shared_dimensions ::
    "dimension_inputs \<Rightarrow> scope_nodes \<Rightarrow> u64 \<Rightarrow> selector_key btree_set \<Rightarrow> node_name btree_set list
       \<Rightarrow> assignment list list \<Rightarrow> assignment list list option" where
  "combine_shared_dimensions inputs scope_nodes maximum available_keys components shared_dimensions =
     map_option (\<lambda>combined. [combined])
       (opt_foldl (\<lambda>combined shared.
          case component_dimensions inputs scope_nodes maximum available_keys components shared of
            None \<Rightarrow> None
          | Some local_dimensions \<Rightarrow>
              if \<not> dimension_product_is_bounded local_dimensions then None
              else
                let combined = combined @ map (bm_extend shared) (enumerate_assignments local_dimensions)
                in if length combined > FULL_V1_MAX_GUARD_ASSIGNMENTS then None else Some combined)
         [] (enumerate_assignments shared_dimensions))"

definition aggregate_scope_dimensions ::
    "dimension_inputs \<Rightarrow> scope_nodes \<Rightarrow> u64 \<Rightarrow> selector_key btree_set \<Rightarrow> assignment list list option" where
  "aggregate_scope_dimensions inputs scope_nodes maximum shared_keys =
     (let scope_key_set = bs_of_list (scope_keys_of scope_nodes);
          available_keys = bs_extend scope_key_set shared_keys;
          components = aggregate_components inputs scope_nodes scope_key_set available_keys
      in if shared_keys = [] then component_dimensions inputs scope_nodes maximum scope_key_set components []
         else
           case dimensions_for_keys (di_nodes inputs) shared_keys of
             None \<Rightarrow> None
           | Some shared_dimensions \<Rightarrow>
               if \<not> dimension_product_is_bounded shared_dimensions then None
               else combine_shared_dimensions inputs scope_nodes maximum available_keys components shared_dimensions)"

type_synonym aggregate_scopes = "(node_name, u64 \<times> scope_nodes) btree_map"

definition add_aggregate_key ::
    "(selector_key, map_aggregate) btree_map \<Rightarrow> node_name \<times> selector_key \<Rightarrow> aggregate_scopes \<Rightarrow> aggregate_scopes option" where
  "add_aggregate_key map_aggregates = (\<lambda>(name, key) scopes.
     case bm_get map_aggregates key of
       None \<Rightarrow> Some scopes
     | Some aggregate \<Rightarrow>
         (case (case bm_get scopes (ma_owner aggregate) of
                  Some scope \<Rightarrow> scope | None \<Rightarrow> (ma_maximum aggregate, [])) of
            (maximum, scope_nodes) \<Rightarrow>
              if maximum \<noteq> ma_maximum aggregate then None
              else Some (bm_insert (ma_owner aggregate)
                     (maximum, bm_entry name [] (\<lambda>keys. keys @ [key]) scope_nodes) scopes)))"

definition build_dimensions :: "control_selector list \<Rightarrow> dimension_inputs \<Rightarrow> assignment list list option" where
  "build_dimensions selectors inputs =
     (let by_node = keys_by_node (map selector_key selectors);
          by_key = concat (map (\<lambda>(name, keys). map (Pair name) keys) by_node)
      in case opt_foldl (\<lambda>scopes named. add_aggregate_key (di_map_aggregates inputs) named scopes) [] by_key of
           None \<Rightarrow> None
         | Some aggregate_scopes \<Rightarrow>
             let shared_by_scope = bm_map_values (\<lambda>_ (_, scope_nodes).
                   bs_extend (aggregate_shared_keys scope_nodes (di_map_aggregates inputs) (di_join_correlations inputs))
                     (aggregate_shared_execution_keys scope_nodes (di_map_aggregates inputs)
                       (di_execution_correlations inputs))) aggregate_scopes;
                 shared_keys = bs_of_list (concat (map snd shared_by_scope));
                 scalar = opt_foldl (\<lambda>dimensions (name, keys).
                   case bm_get (di_nodes inputs) name of
                     None \<Rightarrow> Some dimensions
                   | Some info \<Rightarrow>
                       map_option ((@) dimensions)
                         (scalar_dimensions_for_node (ni_node info) (filter (\<lambda>key. key \<notin> set shared_keys) keys)
                           (di_map_aggregates inputs))) [] by_node
             in case scalar of
                  None \<Rightarrow> None
                | Some dimensions \<Rightarrow>
                    opt_foldl (\<lambda>dimensions (owner, maximum, scope_nodes).
                        map_option ((@) dimensions)
                          (aggregate_scope_dimensions inputs scope_nodes maximum
                            (case bm_get shared_by_scope owner of Some keys \<Rightarrow> keys | None \<Rightarrow> [])))
                      dimensions aggregate_scopes)"

section \<open>Refinement of outcomes\<close>

definition is_parallel_group_control :: "selector_key \<Rightarrow> bool" where
  "is_parallel_group_control key \<longleftrightarrow>
     key_source key = KeyGroup \<and> key_field key \<in> {Some ''joined'', Some ''raced''}"

definition control_has_failure :: "selector_key \<Rightarrow> assigned_control \<Rightarrow> bool" where
  "control_has_failure key control \<longleftrightarrow>
     key_source key = KeyError \<and> list_ex (\<lambda>(_, number). number > 0) control
     \<or> is_parallel_group_control key
       \<and> list_ex (\<lambda>(label, number). number > 0 \<and> label \<in> {''quorum_unreachable'', ''no_satisfier''}) control"

definition assignment_has_failure :: "assignment \<Rightarrow> node_name \<Rightarrow> bool" where
  "assignment_has_failure assignment name =
     (let controls = filter (\<lambda>(key, _). key_name key = name) assignment;
          signals = filter (\<lambda>(key, _). key_source key = KeySignal) controls
      in list_ex (\<lambda>(key, control). control_has_failure key control) controls
         \<or> signals \<noteq> [] \<and> sum_list (map (\<lambda>(_, control). sum_list (map snd control)) signals) = 0)"

record outcome_refinement =
  or_success :: "node_name btree_set"
  or_failed :: "node_name btree_set"

definition refinement_default :: outcome_refinement where
  "refinement_default = \<lparr>or_success = [], or_failed = []\<rparr>"

definition outcome_refinement :: "assignment list \<Rightarrow> outcome_refinement" where
  "outcome_refinement assignments =
     (let names = bs_of_list (map key_name (filter (\<lambda>key.
            key_source key = KeySignal \<or> key_source key = KeyError \<or> is_parallel_group_control key)
            (concat (map bm_keys assignments))))
      in \<lparr>or_success = filter (\<lambda>name. \<not> list_ex (\<lambda>assignment. assignment_has_failure assignment name) assignments) names,
          or_failed = filter (\<lambda>name. list_ex (\<lambda>assignment. assignment_has_failure assignment name) assignments) names\<rparr>)"

section \<open>Choices\<close>

type_synonym choice_branches = "(guard \<times> graph_node) list"

definition choice_branch_completion_predicates :: "choice_branches \<Rightarrow> completion_predicate list" where
  "choice_branch_completion_predicates branches =
     map (\<lambda>index. completion_all
         (map (\<lambda>(earlier, _). completion_not (WhenGuard earlier)) (take index branches)
          @ [WhenGuard (fst (branches ! index))])) [0..<length branches]"

definition choice_otherwise_completion_predicate :: "choice_branches \<Rightarrow> completion_predicate" where
  "choice_otherwise_completion_predicate branches =
     completion_all (map (\<lambda>(g, _). completion_not (WhenGuard g)) branches)"

record choice_reachability =
  cy_branches :: "bool list"
  cy_otherwise_reachable :: bool

definition branch_reachable :: "choice_reachability \<Rightarrow> nat \<Rightarrow> bool" where
  "branch_reachable self index = (if index < length (cy_branches self) then cy_branches self ! index else True)"

record choice_control =
  cc_branches :: "outcome_refinement list"
  cc_branch_reachable :: "bool list"
  cc_branch_completion :: "completion_predicate list"
  cc_otherwise :: outcome_refinement
  cc_otherwise_reachable :: bool
  cc_otherwise_completion :: completion_predicate
  cc_exhaustive :: bool

definition choice_control_unknown :: "choice_branches \<Rightarrow> graph_node option \<Rightarrow> choice_control" where
  "choice_control_unknown branches otherwise =
     \<lparr>cc_branches = replicate (length branches) refinement_default,
      cc_branch_reachable = replicate (length branches) True,
      cc_branch_completion = replicate (length branches) Always,
      cc_otherwise = refinement_default, cc_otherwise_reachable = otherwise \<noteq> None,
      cc_otherwise_completion = Always, cc_exhaustive = otherwise \<noteq> None\<rparr>"

definition reachability :: "choice_control \<Rightarrow> choice_reachability" where
  "reachability self =
     \<lparr>cy_branches = cc_branch_reachable self, cy_otherwise_reachable = cc_otherwise_reachable self\<rparr>"

definition choice_route :: "choice_branches \<Rightarrow> assignment \<Rightarrow> nat" where
  "choice_route branches assignment =
     length (takeWhile (\<lambda>(g, _). \<not> evaluate_guard g assignment) branches)"

definition refine_with_conditions ::
    "assignment list \<Rightarrow> (node_name \<times> completion_predicate) list \<Rightarrow> outcome_refinement \<Rightarrow> outcome_refinement" where
  "refine_with_conditions residual conditions refinement =
     (if residual = [] then refinement
      else fold (\<lambda>(name, condition) refinement.
             if list_all (completion_evaluate condition) residual
             then refinement\<lparr>or_failed := filter (\<lambda>n. n \<noteq> name) (or_failed refinement),
                             or_success := bs_insert name (or_success refinement)\<rparr>
             else refinement) conditions refinement)"

definition refine_common_choice_writes ::
    "choice_control \<Rightarrow> choice_branches \<Rightarrow> assignment list \<Rightarrow> (node_name \<times> completion_predicate) list \<Rightarrow> choice_control" where
  "refine_common_choice_writes control branches assignments conditions =
     (let residual = (\<lambda>route. filter (\<lambda>assignment. choice_route branches assignment = route) assignments)
      in control\<lparr>cc_branches := map (\<lambda>(index, refinement). refine_with_conditions (residual index) conditions refinement)
                   (enumerate 0 (cc_branches control)),
                 cc_otherwise := refine_with_conditions (residual (length branches)) conditions (cc_otherwise control)\<rparr>)"

text \<open>The uses of selectors in a guard, each with the part of the guard that was evaluated before it.\<close>

function guarded_uses :: "guard \<Rightarrow> completion_predicate \<Rightarrow> (control_selector \<times> bool \<times> completion_predicate) list"
  and guarded_uses_list :: "bool \<Rightarrow> guard list \<Rightarrow> completion_predicate \<Rightarrow> (control_selector \<times> bool \<times> completion_predicate) list" where
  "guarded_uses (GIn selector _) condition = [(selector, False, condition)]"
| "guarded_uses (GKOfMap _ selector _) condition = [(selector, True, condition)]"
| "guarded_uses (GKOfN _ selectors _) condition = map (\<lambda>selector. (selector, False, condition)) selectors"
| "guarded_uses (GNot inner) condition = guarded_uses inner condition"
| "guarded_uses (GAll guards) condition = guarded_uses_list True guards condition"
| "guarded_uses (GAny guards) condition = guarded_uses_list False guards condition"
| "guarded_uses_list conjunctive [] start = []"
| "guarded_uses_list conjunctive (child # rest) start =
     guarded_uses child start
     @ guarded_uses_list conjunctive rest
         (completion_all [start, if conjunctive then WhenGuard child else completion_not (WhenGuard child)])"
  by pat_completeness auto
termination by size_change

definition guarded_selector_uses :: "guard \<Rightarrow> (control_selector \<times> bool \<times> completion_predicate) list" where
  "guarded_selector_uses g = guarded_uses g Always"

end
