(* ===== verification/Verifier_Effects.thy ===== *)
theory Verifier_Effects
  imports Verifier_Control
begin

text \<open>
  The data flow of the graph verifier: paths and types of payloads (\<^verbatim>\<open>graph_verifier/payload.rs\<close>), what a node
  writes (\<^verbatim>\<open>effects_writes.rs\<close>), how the effects of alternatives and of parallel branches merge
  (\<^verbatim>\<open>effects.rs\<close>), and the flow that reaches a node (\<open>Flow\<close> and \<open>Effects\<close> of \<^verbatim>\<open>graph_verifier.rs\<close>).
\<close>

section \<open>Payload paths\<close>

definition executable_output :: "graph_node \<Rightarrow> payload_type option" where
  "executable_output node =
     (case node of
        StepNode step \<Rightarrow> Some (st_output step)
      | VerifierNode verifier \<Rightarrow> Some (vn_output verifier)
      | _ \<Rightarrow> None)"

definition valid_path :: "field_name list \<Rightarrow> field_path list" where
  "valid_path segments = (case FieldPath_new segments of Inr path \<Rightarrow> [path] | Inl _ \<Rightarrow> [])"

function collect_required_leaves :: "payload_type \<Rightarrow> field_name list \<Rightarrow> bool \<Rightarrow> bool \<times> field_path list" where
  "collect_required_leaves payload start is_required =
     (if \<not> is_required then (False, [])
      else
        case payload of
          PRecord entries \<Rightarrow>
            (let found = map (\<lambda>(name, field).
                   collect_required_leaves (value_type field) (start @ [name]) (required field)) entries;
                 has_required_descendant = list_ex fst found;
                 paths = concat (map snd found)
             in if \<not> has_required_descendant \<and> start \<noteq> [] then (True, paths @ valid_path start)
                else (has_required_descendant, paths))
        | _ \<Rightarrow> if start \<noteq> [] then (True, valid_path start) else (False, []))"
  by pat_completeness auto
termination
  by (relation "measure (\<lambda>(payload, _, _). size payload)") (auto dest: size_record_member)

declare collect_required_leaves.simps [simp del]

definition required_leaf_paths :: "payload_type \<Rightarrow> field_path list" where
  "required_leaf_paths payload = snd (collect_required_leaves payload [] True)"

function collect_required_descendant_paths ::
    "payload_type \<Rightarrow> field_name list \<Rightarrow> (field_path, payload_type) btree_map \<Rightarrow> (field_path, payload_type) btree_map" where
  "collect_required_descendant_paths payload start paths =
     (case payload of
        PRecord entries \<Rightarrow>
          fold (\<lambda>(name, field) paths.
            if \<not> required field then paths
            else
              case FieldPath_new (start @ [name]) of
                Inr path \<Rightarrow>
                  collect_required_descendant_paths (value_type field) (start @ [name])
                    (bm_insert path (value_type field) paths)
              | Inl _ \<Rightarrow> paths) entries paths
      | _ \<Rightarrow> paths)"
  by pat_completeness auto
termination
  by (relation "measure (\<lambda>(payload, _, _). size payload)") (auto dest: size_record_member)

declare collect_required_descendant_paths.simps [simp del]

definition required_paths_with_types :: "payload_type \<Rightarrow> (field_path, payload_type) btree_map" where
  "required_paths_with_types payload = collect_required_descendant_paths payload [] []"

definition guaranteed_write_paths ::
    "field_path \<Rightarrow> payload_type \<Rightarrow> bool \<Rightarrow> (field_path, payload_type) btree_map" where
  "guaranteed_write_paths target type definitely_present =
     (if \<not> definitely_present then []
      else collect_required_descendant_paths type target [(target, type)])"

fun display_field_path :: "field_path \<Rightarrow> string" where
  "display_field_path [] = []"
| "display_field_path [segment] = segment"
| "display_field_path (segment # rest) = segment @ ''.'' @ display_field_path rest"

fun path_type :: "payload_type \<Rightarrow> field_path \<Rightarrow> payload_type option" where
  "path_type current [] = Some current"
| "path_type current (segment # path) =
     (case current of
        PRecord entries \<Rightarrow>
          (case bm_get entries segment of None \<Rightarrow> None | Some field \<Rightarrow> path_type (value_type field) path)
      | _ \<Rightarrow> None)"

fun is_required_path :: "payload_type \<Rightarrow> field_path \<Rightarrow> bool" where
  "is_required_path current [] = True"
| "is_required_path current (segment # path) =
     (case current of
        PRecord entries \<Rightarrow>
          (case bm_get entries segment of
             None \<Rightarrow> False
           | Some field \<Rightarrow> required field \<and> is_required_path (value_type field) path)
      | _ \<Rightarrow> False)"

record selected_output =
  so_value_type :: payload_type
  so_definitely_present :: bool

definition selected_output_path :: "payload_type \<Rightarrow> field_path \<Rightarrow> selected_output option" where
  "selected_output_path payload path =
     map_option (\<lambda>type. \<lparr>so_value_type = type, so_definitely_present = is_required_path payload path\<rparr>)
       (path_type payload path)"

definition signal_path_type :: "verifier_node \<Rightarrow> field_path \<Rightarrow> payload_type option" where
  "signal_path_type verifier path =
     (case path of [field] \<Rightarrow> map_option PEnum (bm_get (vn_signals verifier) field) | _ \<Rightarrow> None)"

text \<open>Subtyping in which the paths that are defined refine the source.\<close>

function check_subtype_with_definitions ::
    "(field_path, payload_type) btree_map \<Rightarrow> payload_type \<Rightarrow> payload_type \<Rightarrow> field_name list \<Rightarrow> bool" where
  "check_subtype_with_definitions definitions source target start =
     (case (source, target) of
        (PRecord source_fields, PRecord target_fields) \<Rightarrow>
          list_all (\<lambda>(name, target_field).
            case bm_get source_fields name of
              None \<Rightarrow> \<not> required target_field
            | Some source_field \<Rightarrow>
                (let refined = (case FieldPath_new (start @ [name]) of
                       Inr path \<Rightarrow> bm_get definitions path | Inl _ \<Rightarrow> None)
                 in (\<not> required target_field \<or> required source_field \<or> refined \<noteq> None)
                    \<and> check_subtype_with_definitions definitions
                         (case refined of Some type \<Rightarrow> type | None \<Rightarrow> value_type source_field)
                         (value_type target_field) (start @ [name]))) target_fields
      | _ \<Rightarrow> is_subtype_of source target)"
  by pat_completeness auto
termination
  by (relation "measure (\<lambda>(_, _, target, _). size target)") (auto dest: size_record_member)

declare check_subtype_with_definitions.simps [simp del]

definition is_subtype_with_definitions ::
    "payload_type \<Rightarrow> payload_type \<Rightarrow> (field_path, payload_type) btree_map \<Rightarrow> bool" where
  "is_subtype_with_definitions source target definitions =
     check_subtype_with_definitions definitions source target []"

definition is_defined :: "(field_path, payload_type) btree_map \<Rightarrow> field_path \<Rightarrow> bool" where
  "is_defined defined selected = bm_has defined selected"

definition path_is_prefix :: "field_path \<Rightarrow> field_path \<Rightarrow> bool" where
  "path_is_prefix start path \<longleftrightarrow> length start \<le> length path \<and> list_all (\<lambda>(l, r). l = r) (zip start path)"

definition paths_overlap :: "field_path \<Rightarrow> field_path \<Rightarrow> bool" where
  "paths_overlap left right \<longleftrightarrow> path_is_prefix left right \<or> path_is_prefix right left"

lemma path_is_prefix_iff: "path_is_prefix p q \<longleftrightarrow> Sublist.prefix p q"
proof (induction p arbitrary: q)
  case (Cons x p)
  then show ?case by (cases q) (auto simp: path_is_prefix_def)
qed (simp add: path_is_prefix_def)

definition compatible_types :: "payload_type \<Rightarrow> payload_type \<Rightarrow> bool" where
  "compatible_types left right \<longleftrightarrow> is_subtype_of left right \<or> is_subtype_of right left"

definition common_supertype :: "payload_type \<Rightarrow> payload_type \<Rightarrow> payload_type option" where
  "common_supertype left right =
     (if is_subtype_of left right then Some right
      else if is_subtype_of right left then Some left
      else None)"

section \<open>Writes\<close>

record write_fact =
  wf_value_type :: payload_type
  wf_guaranteed_paths :: "(field_path, payload_type) btree_map"

type_synonym writes = "(field_path, write_fact) btree_map"
type_synonym outcome_writes = "(node_name, writes) btree_map"

record definition_transition =
  dt_before :: "payload_type option"
  dt_after :: "payload_type option"

record parallel_definition_effect =
  pe_name :: node_name
  pe_targets :: "field_path btree_set"
  pe_transitions :: "(field_path, definition_transition) btree_map"

definition intersect_write_facts :: "write_fact \<Rightarrow> write_fact \<Rightarrow> write_fact option" where
  "intersect_write_facts left right =
     map_option (\<lambda>type.
         \<lparr>wf_value_type = type,
          wf_guaranteed_paths = List.map_filter (\<lambda>(path, left_type).
            case bm_get (wf_guaranteed_paths right) path of
              None \<Rightarrow> None
            | Some right_type \<Rightarrow> map_option (Pair path) (common_supertype left_type right_type))
            (wf_guaranteed_paths left)\<rparr>)
       (common_supertype (wf_value_type left) (wf_value_type right))"

definition intersect_write_fact_set :: "write_fact list \<Rightarrow> write_fact option" where
  "intersect_write_fact_set writes =
     (case writes of [] \<Rightarrow> None | first # rest \<Rightarrow> opt_foldl intersect_write_facts first rest)"

definition apply_write_facts ::
    "(field_path, payload_type) btree_map \<Rightarrow> writes \<Rightarrow> (field_path, payload_type) btree_map" where
  "apply_write_facts defined writes =
     fold (\<lambda>(target, write) defined.
       bm_extend (bm_retain (\<lambda>path _. \<not> paths_overlap target path) defined) (wf_guaranteed_paths write)) writes defined"

definition compose_writes :: "writes \<Rightarrow> writes \<Rightarrow> writes" where
  "compose_writes target source =
     fold (\<lambda>(path, write) target.
       bm_insert path write (bm_retain (\<lambda>prior _. \<not> paths_overlap prior path) target)) source target"

definition parallel_definition_effect ::
    "node_name \<Rightarrow> (field_path, payload_type) btree_map \<Rightarrow> writes \<Rightarrow> parallel_definition_effect option" where
  "parallel_definition_effect name prior writes =
     (let after = apply_write_facts prior writes;
          targets = bs_of_list (bm_keys writes);
          paths = bs_of_list (filter (\<lambda>path. list_ex (\<lambda>target. paths_overlap target path) targets)
                    (bm_keys prior @ bm_keys after))
      in if list_ex (\<lambda>path. bm_get prior path \<noteq> bm_get after path) paths
         then Some \<lparr>pe_name = name, pe_targets = targets,
                    pe_transitions = map (\<lambda>path.
                      (path, \<lparr>dt_before = bm_get prior path, dt_after = bm_get after path\<rparr>)) paths\<rparr>
         else None)"

definition narrow_effect ::
    "(field_path \<Rightarrow> bool) \<Rightarrow> parallel_definition_effect \<Rightarrow> parallel_definition_effect" where
  "narrow_effect keep effect =
     (let targets = filter keep (pe_targets effect)
      in effect\<lparr>pe_targets := targets,
                pe_transitions := bm_retain (\<lambda>path _. list_ex (\<lambda>target. path_is_prefix target path) targets)
                  (pe_transitions effect)\<rparr>)"

definition effect_is_live :: "parallel_definition_effect \<Rightarrow> bool" where
  "effect_is_live effect \<longleftrightarrow> pe_targets effect \<noteq> [] \<and> pe_transitions effect \<noteq> []"

definition retain_parallel_definition_effects ::
    "parallel_definition_effect list \<Rightarrow> writes \<Rightarrow> parallel_definition_effect list \<Rightarrow> parallel_definition_effect list" where
  "retain_parallel_definition_effects existing writes incoming =
     (let conditional = bs_of_list (concat (map pe_targets incoming))
      in filter effect_is_live (map (narrow_effect (\<lambda>prior.
           \<not> list_ex (\<lambda>target. target \<notin> set conditional \<and> paths_overlap prior target) (bm_keys writes))) existing))"

definition writes_without_parallel_owners :: "writes \<Rightarrow> parallel_definition_effect list \<Rightarrow> writes" where
  "writes_without_parallel_owners writes conditional =
     bm_retain (\<lambda>target _. \<not> list_ex (\<lambda>owned. paths_overlap owned target) (concat (map pe_targets conditional))) writes"

definition merge_parallel_definition_effects ::
    "parallel_definition_effect list \<Rightarrow> writes \<Rightarrow> parallel_definition_effect list \<Rightarrow> parallel_definition_effect list" where
  "merge_parallel_definition_effects existing writes incoming =
     retain_parallel_definition_effects existing writes incoming @ incoming"

definition merge_outcome_writes ::
    "outcome_writes \<Rightarrow> node_name list \<Rightarrow> outcome_writes \<Rightarrow> node_name list \<Rightarrow> outcome_writes \<times> node_name list" where
  "merge_outcome_writes target target_order source source_order =
     (fold (\<lambda>(name, writes). bm_entry name [] (\<lambda>existing. bm_extend existing writes)) source target,
      fold (\<lambda>name order. if bm_has source name \<and> name \<notin> set order then order @ [name] else order)
        source_order target_order)"

type_synonym write_types = "(field_path, payload_type list) btree_map"

definition merge_possible_write_types :: "write_types \<Rightarrow> write_types \<Rightarrow> write_types" where
  "merge_possible_write_types target source =
     fold (\<lambda>(path, source_types). bm_entry path []
       (\<lambda>types. fold (\<lambda>type types. if type \<in> set types then types else types @ [type]) source_types types))
       source target"

section \<open>Effects and flow\<close>

type_synonym conditional_nodes = "(node_name, node_name btree_set) btree_map"

definition merge_conditional_nodes :: "conditional_nodes \<Rightarrow> conditional_nodes \<Rightarrow> conditional_nodes" where
  "merge_conditional_nodes target source =
     fold (\<lambda>(owner, nodes). bm_entry owner [] (\<lambda>existing. bs_extend existing nodes)) source target"

definition retain_conditional_nodes :: "conditional_nodes \<Rightarrow> node_name btree_set \<Rightarrow> conditional_nodes" where
  "retain_conditional_nodes conditional definite =
     bm_retain (\<lambda>_ nodes. nodes \<noteq> [])
       (bm_map_values (\<lambda>_ nodes. filter (\<lambda>name. name \<in> set definite) nodes) conditional)"

record flow =
  fl_available :: "node_name btree_set"
  fl_unavailable :: "node_name btree_set"
  fl_conditional_nodes :: conditional_nodes
  fl_defined :: "(field_path, payload_type) btree_map"
  fl_failed :: "node_name btree_set"
  fl_outcome_writes :: outcome_writes
  fl_outcome_order :: "node_name list"
  fl_parallel_definition_effects :: "parallel_definition_effect list"

definition flow_default :: flow where
  "flow_default =
     \<lparr>fl_available = [], fl_unavailable = [], fl_conditional_nodes = [], fl_defined = [], fl_failed = [],
      fl_outcome_writes = [], fl_outcome_order = [], fl_parallel_definition_effects = []\<rparr>"

record effects =
  ef_definite_nodes :: "node_name btree_set"
  ef_unavailable_nodes :: "node_name btree_set"
  ef_conditional_nodes :: conditional_nodes
  ef_definite_writes :: writes
  ef_possible_writes :: writes
  ef_possible_write_types :: write_types
  ef_outcome_writes :: outcome_writes
  ef_outcome_order :: "node_name list"
  ef_parallel_definition_effects :: "parallel_definition_effect list"
  ef_exit_failed :: "node_name btree_set"
  ef_falls_through :: bool
  ef_completion :: completion_predicate

definition effects_default :: effects where
  "effects_default =
     \<lparr>ef_definite_nodes = [], ef_unavailable_nodes = [], ef_conditional_nodes = [], ef_definite_writes = [],
      ef_possible_writes = [], ef_possible_write_types = [], ef_outcome_writes = [], ef_outcome_order = [],
      ef_parallel_definition_effects = [], ef_exit_failed = [], ef_falls_through = False, ef_completion = Never\<rparr>"

text \<open>The writes of the producers that are known to have succeeded, one producer after the other.\<close>

definition flow_resolve_successful_writes :: "flow \<Rightarrow> flow" where
  "flow_resolve_successful_writes self =
     (let successful = filter (\<lambda>name. name \<notin> set (fl_failed self)) (fl_outcome_order self);
          self = fold (\<lambda>name self.
            case bm_get (fl_outcome_writes self) name of
              None \<Rightarrow> self
            | Some writes \<Rightarrow>
                self\<lparr>fl_outcome_writes := bm_remove name (fl_outcome_writes self),
                     fl_parallel_definition_effects :=
                       retain_parallel_definition_effects (fl_parallel_definition_effects self) writes [],
                     fl_defined := apply_write_facts (fl_defined self) writes\<rparr>) successful self
      in self\<lparr>fl_outcome_order := filter (bm_has (fl_outcome_writes self)) (fl_outcome_order self)\<rparr>)"

definition reconcile_effect ::
    "parallel_definition_effect \<Rightarrow> (field_path, payload_type option) btree_map \<Rightarrow> (field_path, payload_type option) btree_map" where
  "reconcile_effect effect definitions =
     (let definitions = bm_map_values (\<lambda>path definition'.
            if list_ex (\<lambda>target. paths_overlap target path) (pe_targets effect) then None else definition') definitions
      in fold (\<lambda>(path, transition). bm_insert path (dt_after transition)) (pe_transitions effect) definitions)"

definition reconcile_parallel_definitions :: "flow \<Rightarrow> flow" where
  "reconcile_parallel_definitions self =
     (let effects = filter (\<lambda>effect. pe_name effect \<in> set (fl_available self)) (fl_parallel_definition_effects self);
          prior = fold (\<lambda>(path, transition) definitions.
            if bm_has definitions path then definitions else bm_insert path (dt_before transition) definitions)
            (concat (map pe_transitions effects)) [];
          definitions = fold reconcile_effect
            (filter (\<lambda>effect. pe_name effect \<notin> set (fl_failed self)) effects) prior
      in self\<lparr>fl_defined := fold (\<lambda>(path, definition') defined.
           case definition' of Some type \<Rightarrow> bm_insert path type defined | None \<Rightarrow> bm_remove path defined)
           definitions (fl_defined self)\<rparr>)"

definition apply_effects :: "flow \<Rightarrow> effects \<Rightarrow> flow" where
  "apply_effects self effects =
     (case merge_outcome_writes (fl_outcome_writes self) (fl_outcome_order self)
             (ef_outcome_writes effects) (ef_outcome_order effects) of
        (outcome_writes, outcome_order) \<Rightarrow>
          flow_resolve_successful_writes (reconcile_parallel_definitions
            (self\<lparr>fl_available := bs_extend (fl_available self) (ef_definite_nodes effects),
                  fl_unavailable := bs_extend (fl_unavailable self) (ef_unavailable_nodes effects),
                  fl_conditional_nodes := merge_conditional_nodes (fl_conditional_nodes self) (ef_conditional_nodes effects),
                  fl_defined := apply_write_facts (fl_defined self) (ef_definite_writes effects),
                  fl_failed := ef_exit_failed effects,
                  fl_outcome_writes := outcome_writes,
                  fl_outcome_order := outcome_order,
                  fl_parallel_definition_effects :=
                    retain_parallel_definition_effects (fl_parallel_definition_effects self)
                      (ef_definite_writes effects) (ef_parallel_definition_effects effects)
                    @ ef_parallel_definition_effects effects\<rparr>)))"

definition effects_resolve_successful_writes :: "effects \<Rightarrow> node_name btree_set \<Rightarrow> effects" where
  "effects_resolve_successful_writes self failed =
     (let successful = filter (\<lambda>name. name \<notin> set failed) (ef_outcome_order self);
          self = fold (\<lambda>name self.
            case bm_get (ef_outcome_writes self) name of
              None \<Rightarrow> self
            | Some writes \<Rightarrow>
                self\<lparr>ef_outcome_writes := bm_remove name (ef_outcome_writes self),
                     ef_parallel_definition_effects :=
                       retain_parallel_definition_effects (ef_parallel_definition_effects self) writes [],
                     ef_definite_writes := compose_writes (ef_definite_writes self) writes\<rparr>) successful self
      in self\<lparr>ef_outcome_order := filter (bm_has (ef_outcome_writes self)) (ef_outcome_order self)\<rparr>)"

text \<open>A refinement by the outcomes of a guard: the known successes and failures of earlier nodes.\<close>

definition refinement_apply :: "outcome_refinement \<Rightarrow> flow \<Rightarrow> flow" where
  "refinement_apply self flow' =
     (let unavailable = fold (\<lambda>name unavailable.
            case bm_get (fl_conditional_nodes flow') name of
              Some nodes \<Rightarrow> bs_extend unavailable nodes | None \<Rightarrow> unavailable) (or_failed self) (fl_unavailable flow');
          failed = bs_extend (filter (\<lambda>name. name \<notin> set (or_success self)) (fl_failed flow')) (or_failed self)
      in flow_resolve_successful_writes (reconcile_parallel_definitions
           (flow'\<lparr>fl_failed := failed, fl_unavailable := unavailable\<rparr>)))"

definition terminal_effects :: "node_name \<Rightarrow> flow \<Rightarrow> effects" where
  "terminal_effects name incoming =
     effects_default\<lparr>ef_definite_nodes := [name], ef_exit_failed := fl_failed incoming\<rparr>"

definition retain_promoted_writes :: "effects \<Rightarrow> field_path btree_set \<Rightarrow> effects" where
  "retain_promoted_writes effects allowed =
     (let is_promoted = (\<lambda>path. list_ex (\<lambda>promoted. path_is_prefix promoted path) allowed);
          outcome_writes = bm_retain (\<lambda>_ writes. writes \<noteq> [])
            (bm_map_values (\<lambda>_ writes. bm_retain (\<lambda>path _. is_promoted path) writes) (ef_outcome_writes effects))
      in effects\<lparr>ef_definite_writes := bm_retain (\<lambda>path _. is_promoted path) (ef_definite_writes effects),
                 ef_possible_writes := bm_retain (\<lambda>path _. is_promoted path) (ef_possible_writes effects),
                 ef_possible_write_types := bm_retain (\<lambda>path _. is_promoted path) (ef_possible_write_types effects),
                 ef_outcome_writes := outcome_writes,
                 ef_outcome_order := filter (bm_has outcome_writes) (ef_outcome_order effects),
                 ef_parallel_definition_effects :=
                   filter effect_is_live (map (narrow_effect is_promoted) (ef_parallel_definition_effects effects))\<rparr>)"

section \<open>Alternatives\<close>

definition common_writes :: "writes \<Rightarrow> writes \<Rightarrow> writes" where
  "common_writes writes other =
     List.map_filter (\<lambda>(path, write).
       case bm_get other path of
         None \<Rightarrow> None
       | Some other_write \<Rightarrow> map_option (Pair path) (intersect_write_facts write other_write)) writes"

record common_effects =
  ce_definite_nodes :: "node_name btree_set"
  ce_definite_writes :: writes
  ce_outcome_writes :: outcome_writes
  ce_parallel_definition_effects :: "parallel_definition_effect list"
  ce_conditional_nodes :: conditional_nodes

definition common_effects_retain :: "common_effects \<Rightarrow> effects \<Rightarrow> common_effects" where
  "common_effects_retain self branch =
     \<lparr>ce_definite_nodes = filter (\<lambda>name. name \<in> set (ef_definite_nodes branch)) (ce_definite_nodes self),
      ce_definite_writes = common_writes (ce_definite_writes self) (ef_definite_writes branch),
      ce_outcome_writes = List.map_filter (\<lambda>(name, writes).
        case bm_get (ef_outcome_writes branch) name of
          None \<Rightarrow> None
        | Some other \<Rightarrow> (let common = common_writes writes other in if common = [] then None else Some (name, common)))
        (ce_outcome_writes self),
      ce_parallel_definition_effects =
        filter (\<lambda>effect. effect \<in> set (ef_parallel_definition_effects branch)) (ce_parallel_definition_effects self),
      ce_conditional_nodes = List.map_filter (\<lambda>(owner, nodes).
        case bm_get (ef_conditional_nodes branch) owner of
          None \<Rightarrow> None
        | Some other \<Rightarrow>
            (let common = filter (\<lambda>name. name \<in> set other) nodes in if common = [] then None else Some (owner, common)))
        (ce_conditional_nodes self)\<rparr>"

definition all_possible_writes :: "effects list \<Rightarrow> writes" where
  "all_possible_writes branches = fold (\<lambda>branch writes. bm_extend writes (ef_possible_writes branch)) branches []"

definition all_possible_write_types :: "effects list \<Rightarrow> write_types" where
  "all_possible_write_types branches =
     fold (\<lambda>branch types. merge_possible_write_types types (ef_possible_write_types branch)) branches []"

definition merge_alternatives :: "effects list \<Rightarrow> effects" where
  "merge_alternatives branches =
     (let completing = filter ef_falls_through branches
      in case completing of
           [] \<Rightarrow> effects_default\<lparr>ef_possible_writes := all_possible_writes branches,
                                 ef_possible_write_types := all_possible_write_types branches\<rparr>
         | first # _ \<Rightarrow>
             (let common = fold (\<lambda>branch common. common_effects_retain common branch) completing
                    \<lparr>ce_definite_nodes = ef_definite_nodes first, ce_definite_writes = ef_definite_writes first,
                     ce_outcome_writes = ef_outcome_writes first,
                     ce_parallel_definition_effects = ef_parallel_definition_effects first,
                     ce_conditional_nodes = ef_conditional_nodes first\<rparr>
              in \<lparr>ef_definite_nodes = ce_definite_nodes common,
                  ef_unavailable_nodes =
                    fold (\<lambda>branch nodes. bs_extend nodes (ef_unavailable_nodes branch)) completing (ef_unavailable_nodes first),
                  ef_conditional_nodes =
                    retain_conditional_nodes (ce_conditional_nodes common) (ce_definite_nodes common),
                  ef_definite_writes = ce_definite_writes common,
                  ef_possible_writes = all_possible_writes branches,
                  ef_possible_write_types = all_possible_write_types branches,
                  ef_outcome_writes = ce_outcome_writes common,
                  ef_outcome_order = filter (bm_has (ce_outcome_writes common)) (ef_outcome_order first),
                  ef_parallel_definition_effects = ce_parallel_definition_effects common,
                  ef_exit_failed = fold (\<lambda>branch failed. bs_extend failed (ef_exit_failed branch)) completing [],
                  ef_falls_through = True,
                  ef_completion = completion_any (map ef_completion completing)\<rparr>))"

section \<open>Parallel branches\<close>

text \<open>A scenario is the set of branches that complete together.\<close>

type_synonym scenario = "nat btree_set"

definition parallel_required_completions :: "join \<Rightarrow> nat \<Rightarrow> u64" where
  "parallel_required_completions join branch_count =
     (case join of JAll \<Rightarrow> branch_count | JAny \<Rightarrow> 1 | JFirst _ \<Rightarrow> 1 | JQuorum number \<Rightarrow> number)"

definition parallel_fact_is_definite :: "scenario \<Rightarrow> u64 \<Rightarrow> (nat \<Rightarrow> bool) \<Rightarrow> bool" where
  "parallel_fact_is_definite completing needed provides \<longleftrightarrow>
     length (filter (\<lambda>index. \<not> provides index) completing) < needed"

definition branch_provides :: "effects list \<Rightarrow> (effects \<Rightarrow> bool) \<Rightarrow> nat \<Rightarrow> bool" where
  "branch_provides branches P index \<longleftrightarrow> index < length branches \<and> P (branches ! index)"

definition always_provided :: "effects list \<Rightarrow> u64 \<Rightarrow> scenario list \<Rightarrow> (effects \<Rightarrow> bool) \<Rightarrow> bool" where
  "always_provided branches needed scenarios P \<longleftrightarrow>
     list_all (\<lambda>scenario. parallel_fact_is_definite scenario needed (branch_provides branches P)) scenarios"

definition scenario_providers :: "effects list \<Rightarrow> scenario list \<Rightarrow> (effects \<Rightarrow> 'a option) \<Rightarrow> 'a list" where
  "scenario_providers branches scenarios f =
     List.map_filter (\<lambda>index. if index < length branches then f (branches ! index) else None) (concat scenarios)"

definition parallel_definition_effects ::
    "effects list \<Rightarrow> u64 \<Rightarrow> scenario list \<Rightarrow> parallel_definition_effect list" where
  "parallel_definition_effects branches needed scenarios =
     fold (\<lambda>candidate definite.
       if candidate \<in> set definite then definite
       else if always_provided branches needed scenarios
                 (\<lambda>branch. candidate \<in> set (ef_parallel_definition_effects branch))
       then definite @ [candidate] else definite) (concat (map ef_parallel_definition_effects branches)) []"

definition parallel_definite_nodes :: "effects list \<Rightarrow> u64 \<Rightarrow> scenario list \<Rightarrow> node_name btree_set" where
  "parallel_definite_nodes branches needed scenarios =
     filter (\<lambda>name. always_provided branches needed scenarios (\<lambda>branch. name \<in> set (ef_definite_nodes branch)))
       (bs_of_list (concat (map ef_definite_nodes branches)))"

definition parallel_definite_writes :: "effects list \<Rightarrow> u64 \<Rightarrow> scenario list \<Rightarrow> writes" where
  "parallel_definite_writes branches needed scenarios =
     List.map_filter (\<lambda>path.
       if always_provided branches needed scenarios (\<lambda>branch. bm_has (ef_definite_writes branch) path)
       then map_option (Pair path) (intersect_write_fact_set
              (scenario_providers branches scenarios (\<lambda>branch. bm_get (ef_definite_writes branch) path)))
       else None) (bs_of_list (concat (map (\<lambda>branch. bm_keys (ef_definite_writes branch)) branches)))"

definition outcome_write_at :: "node_name \<Rightarrow> field_path \<Rightarrow> effects \<Rightarrow> write_fact option" where
  "outcome_write_at name path branch =
     (case bm_get (ef_outcome_writes branch) name of None \<Rightarrow> None | Some writes \<Rightarrow> bm_get writes path)"

definition parallel_outcome_writes :: "effects list \<Rightarrow> u64 \<Rightarrow> scenario list \<Rightarrow> outcome_writes" where
  "parallel_outcome_writes branches needed scenarios =
     fold (\<lambda>(name, path) merged.
       if always_provided branches needed scenarios (\<lambda>branch. outcome_write_at name path branch \<noteq> None)
       then
         (case intersect_write_fact_set (scenario_providers branches scenarios (outcome_write_at name path)) of
            Some write \<Rightarrow> bm_entry name [] (bm_insert path write) merged
          | None \<Rightarrow> merged)
       else merged)
       (bs_of_list (concat (map (\<lambda>branch.
          concat (map (\<lambda>(name, writes). map (Pair name) (bm_keys writes)) (ef_outcome_writes branch))) branches))) []"

definition merge_parallel_scenarios :: "effects list \<Rightarrow> u64 \<Rightarrow> scenario list \<Rightarrow> effects" where
  "merge_parallel_scenarios branches needed scenarios =
     (let merged = effects_default\<lparr>ef_possible_writes := all_possible_writes branches,
                                   ef_possible_write_types := all_possible_write_types branches\<rparr>
      in if scenarios = [] then merged
         else
           let definite_nodes = parallel_definite_nodes branches needed scenarios;
               outcome_writes = parallel_outcome_writes branches needed scenarios
           in merged\<lparr>ef_definite_nodes := definite_nodes,
                     ef_unavailable_nodes := bs_of_list (concat (map ef_unavailable_nodes branches)),
                     ef_conditional_nodes := retain_conditional_nodes
                       (fold (\<lambda>branch nodes. merge_conditional_nodes nodes (ef_conditional_nodes branch)) branches [])
                       definite_nodes,
                     ef_definite_writes := parallel_definite_writes branches needed scenarios,
                     ef_outcome_writes := outcome_writes,
                     ef_outcome_order := filter (bm_has outcome_writes) (concat (map ef_outcome_order branches)),
                     ef_parallel_definition_effects := parallel_definition_effects branches needed scenarios,
                     ef_exit_failed := bs_of_list (concat (scenario_providers branches scenarios
                       (\<lambda>branch. Some (ef_exit_failed branch)))),
                     ef_falls_through := True\<rparr>)"

end
