(* ===== verification/Verifier_Analyzer.thy ===== *)
theory Verifier_Analyzer
  imports Verifier_Effects
begin

text \<open>
  The analyzer of the graph verifier (\<open>Analyzer\<close> of \<^verbatim>\<open>graph_verifier.rs\<close>) and its passes over the graph: the
  index of the nodes (\<^verbatim>\<open>analyzer_index.rs\<close>), the structural bounds (\<^verbatim>\<open>analyzer_bounds.rs\<close>), terminal
  coverage and the order of references (\<^verbatim>\<open>analyzer_terminal.rs\<close>).

  A method with a mutable receiver takes the analyzer as its last argument and returns the new one, after
  its result. The code keys \<open>node_fallthrough\<close> by the address of a node; here the key is the position of
  the node in the graph, the list of child indexes that leads to it from the root.
\<close>

fun map_state :: "('a \<Rightarrow> 's \<Rightarrow> 'b \<times> 's) \<Rightarrow> 'a list \<Rightarrow> 's \<Rightarrow> 'b list \<times> 's" where
  "map_state f [] s = ([], s)"
| "map_state f (x # xs) s =
     (case f x s of (y, s) \<Rightarrow> case map_state f xs s of (ys, s) \<Rightarrow> (y # ys, s))"

lemma map_state_cong [fundef_cong]:
  assumes "xs = ys" and "s = t" and "\<And>x s. x \<in> set ys \<Longrightarrow> f x s = g x s"
  shows "map_state f xs s = map_state g ys t"
  using assms(3) unfolding assms(1,2) by (induction ys arbitrary: t) (auto split: prod.splits)

lemma enumerate_memberD: "(i, x) \<in> set (enumerate n xs) \<Longrightarrow> x \<in> set xs"
  by (auto simp: enumerate_eq_zip dest: set_zip_rightD)

type_synonym position = "nat list"

record analyzer =
  an_graph :: graph_spec
  an_nodes :: "(node_name, node_info) btree_map"
  an_authored :: "node_name list"
  an_dependencies :: "(node_name, node_name btree_set) btree_map"
  an_loops :: "node_name list"
  an_attempts :: "(node_name, positive_integer) btree_map"
  an_diagnostics :: "graph_diagnostic list"
  an_guard_nodes :: u64
  an_exhaustive_choices :: "node_name btree_set"
  an_choice_reachability :: "(node_name, choice_reachability) btree_map"
  an_choice_execution_correlations :: "(node_name, execution_correlation list) btree_map"
  an_choice_write_conditions :: "(node_name, completion_predicate) btree_map"
  an_parallel_join_correlations :: "(node_name, parallel_join_correlation) btree_map"
  an_map_execution_correlations :: "(node_name, execution_correlation) btree_map"
  an_node_completion :: "(node_name, completion_predicate) btree_map"
  an_node_fallthrough :: "(position, bool) btree_map"

definition Analyzer_new :: "graph_spec \<Rightarrow> analyzer" where
  "Analyzer_new graph =
     \<lparr>an_graph = graph, an_nodes = [], an_authored = [], an_dependencies = [], an_loops = [], an_attempts = [],
      an_diagnostics = [], an_guard_nodes = 0, an_exhaustive_choices = [], an_choice_reachability = [],
      an_choice_execution_correlations = [], an_choice_write_conditions = [], an_parallel_join_correlations = [],
      an_map_execution_correlations = [], an_node_completion = [], an_node_fallthrough = []\<rparr>"

definition emit ::
    "graph_diagnostic_code \<Rightarrow> string \<Rightarrow> diagnostic_path_segment list \<Rightarrow> node_name list \<Rightarrow> analyzer \<Rightarrow> analyzer" where
  "emit code message path related_nodes self =
     self\<lparr>an_diagnostics := an_diagnostics self @
       [\<lparr>gd_severity = SeverityError, gd_code = code, gd_message = message, gd_path = path,
         gd_related_nodes = remdups_adj (sort related_nodes)\<rparr>]\<rparr>"

text \<open>A diagnostic under a condition.\<close>

definition emit_if ::
    "bool \<Rightarrow> graph_diagnostic_code \<Rightarrow> string \<Rightarrow> diagnostic_path_segment list \<Rightarrow> node_name list \<Rightarrow> analyzer \<Rightarrow> analyzer" where
  "emit_if condition code message path related_nodes self =
     (if condition then emit code message path related_nodes self else self)"

definition node_path :: "node_name \<Rightarrow> analyzer \<Rightarrow> diagnostic_path_segment list" where
  "node_path name self =
     (case bm_get (an_nodes self) name of Some info \<Rightarrow> ni_path info | None \<Rightarrow> [field_segment ''root''])"

section \<open>Index\<close>

definition add_dependency :: "node_name \<Rightarrow> node_name \<Rightarrow> analyzer \<Rightarrow> analyzer" where
  "add_dependency name dependency self =
     self\<lparr>an_dependencies := bm_entry name [] (bs_insert dependency) (an_dependencies self)\<rparr>"

definition declare_dependencies :: "node_name \<Rightarrow> analyzer \<Rightarrow> analyzer" where
  "declare_dependencies name self = self\<lparr>an_dependencies := bm_entry name [] id (an_dependencies self)\<rparr>"

definition validate_profile :: "analyzer \<Rightarrow> analyzer" where
  "validate_profile self =
     emit_if (gs_profile (an_graph self) \<noteq> FullProfile) InvalidGraphShape
       ''production full-v1 verifier accepts only openengine.graph.full/v1'' [field_segment ''profile''] [] self"

definition validate_global_limits :: "analyzer \<Rightarrow> analyzer" where
  "validate_global_limits self =
     (let self = emit_if (length (an_authored self) > FULL_V1_MAX_GRAPH_NODES) CeilingExceeded
            (''graph node count exceeds '' @ u64_to_string FULL_V1_MAX_GRAPH_NODES) [field_segment ''root''] [] self
      in emit_if (an_guard_nodes self > FULL_V1_MAX_GUARD_NODES) CeilingExceeded
           (''graph guard-node count exceeds '' @ u64_to_string FULL_V1_MAX_GUARD_NODES) [field_segment ''root''] [] self)"

definition index_identity :: "graph_node \<Rightarrow> diagnostic_path_segment list \<Rightarrow> analyzer \<Rightarrow> analyzer" where
  "index_identity node path self =
     (let name = node_name node;
          ordinal = length (an_authored self);
          self = declare_dependencies name (self\<lparr>an_authored := an_authored self @ [name]\<rparr>)
      in case bm_get (an_nodes self) name of
           Some previous \<Rightarrow>
             emit InvalidGraphShape (''duplicate node name '' @ name) path [node_name (ni_node previous)] self
         | None \<Rightarrow>
             self\<lparr>an_nodes := bm_insert name \<lparr>ni_node = node, ni_path = path, ni_ordinal = ordinal\<rparr> (an_nodes self)\<rparr>)"

definition validate_node_depth ::
    "node_name \<Rightarrow> diagnostic_path_segment list \<Rightarrow> u64 \<Rightarrow> analyzer \<Rightarrow> analyzer" where
  "validate_node_depth name path depth self =
     emit_if (depth > FULL_V1_MAX_GRAPH_DEPTH) CeilingExceeded
       (''graph depth exceeds '' @ u64_to_string FULL_V1_MAX_GRAPH_DEPTH) path [name] self"

definition index_executable ::
    "node_name \<Rightarrow> positive_integer \<Rightarrow> diagnostic_path_segment list \<Rightarrow> write_binding list \<Rightarrow> analyzer \<Rightarrow> analyzer" where
  "index_executable name attempts path bindings self =
     (let self = emit_if (attempts > FULL_V1_MAX_ATTEMPTS_PER_NODE) CeilingExceeded
            (''attempts exceeds full-v1 limit '' @ u64_to_string FULL_V1_MAX_ATTEMPTS_PER_NODE)
            (with_field path ''attempts'') [name] self;
          self = self\<lparr>an_attempts := bm_insert name attempts (an_attempts self)\<rparr>
      in fold (\<lambda>binding self.
           if nos_node (wb_value binding) \<noteq> name then add_dependency name (nos_node (wb_value binding)) self else self)
           bindings self)"

definition count_guard :: "guard \<Rightarrow> diagnostic_path_segment list \<Rightarrow> analyzer \<Rightarrow> analyzer" where
  "count_guard g path self =
     (let number = guard_node_count g;
          self = self\<lparr>an_guard_nodes := saturating_add (an_guard_nodes self) number\<rparr>;
          self = fold (\<lambda>selector self.
            if cs_name selector \<noteq> node_name (gs_root (an_graph self))
            then declare_dependencies (cs_name selector) self else self) (guard_selectors g) self
      in emit_if (number > FULL_V1_MAX_GUARD_NODES) CeilingExceeded
           (''guard contains more than '' @ u64_to_string FULL_V1_MAX_GUARD_NODES @ '' nodes'') path [] self)"

type_synonym node_indexer = "graph_node \<Rightarrow> diagnostic_path_segment list \<Rightarrow> u64 \<Rightarrow> analyzer \<Rightarrow> analyzer"

definition index_list ::
    "node_indexer \<Rightarrow> string \<Rightarrow> graph_node list \<Rightarrow> diagnostic_path_segment list \<Rightarrow> u64 \<Rightarrow> analyzer \<Rightarrow> analyzer" where
  "index_list index field children path depth self =
     fold (\<lambda>(i, child). index child (child_path path field i (node_name child)) (depth + 1)) (enumerate 0 children) self"

definition index_choice ::
    "node_indexer \<Rightarrow> choice_branches \<Rightarrow> graph_node option \<Rightarrow> diagnostic_path_segment list \<Rightarrow> u64 \<Rightarrow> analyzer \<Rightarrow> analyzer" where
  "index_choice index branches otherwise path depth self =
     (let self = fold (\<lambda>(i, when, node) self.
            index node (choice_branch_node_path path i (node_name node)) (depth + 1)
              (count_guard when (guard_path path ''branches'' i ''when'') self)) (enumerate 0 branches) self
      in case otherwise of
           Some node \<Rightarrow> index node (named_child_path path ''otherwise'' (node_name node)) (depth + 1) self
         | None \<Rightarrow> self)"

definition index_parallel ::
    "node_indexer \<Rightarrow> graph_node list \<Rightarrow> join \<Rightarrow> diagnostic_path_segment list \<Rightarrow> u64 \<Rightarrow> analyzer \<Rightarrow> analyzer" where
  "index_parallel index branches join path depth self =
     index_list index ''branches'' branches path depth
       (case join of JFirst when \<Rightarrow> count_guard when (diagnostic_field_path path [''join'', ''when'']) self | _ \<Rightarrow> self)"

definition index_loop ::
    "node_indexer \<Rightarrow> node_name \<Rightarrow> guard option \<Rightarrow> graph_node \<Rightarrow> diagnostic_path_segment list \<Rightarrow> u64 \<Rightarrow> analyzer \<Rightarrow> analyzer" where
  "index_loop index name until body path depth self =
     (let self = self\<lparr>an_loops := an_loops self @ [name]\<rparr>;
          self = (case until of Some g \<Rightarrow> count_guard g (with_field path ''until'') self | None \<Rightarrow> self)
      in index body (named_child_path path ''body'' (node_name body)) (depth + 1) self)"

definition index_children ::
    "node_indexer \<Rightarrow> graph_node \<Rightarrow> diagnostic_path_segment list \<Rightarrow> u64 \<Rightarrow> analyzer \<Rightarrow> analyzer" where
  "index_children index node path depth self =
     (case node of
        StepNode step \<Rightarrow> index_executable (st_name step) (st_attempts step) path (st_write_bindings step) self
      | VerifierNode verifier \<Rightarrow>
          index_executable (vn_name verifier) (vn_attempts verifier) path (vn_write_bindings verifier) self
      | SeqNode _ _ children _ \<Rightarrow> index_list index ''children'' children path depth self
      | ChoiceNode _ _ branches otherwise _ \<Rightarrow> index_choice index branches otherwise path depth self
      | ParNode _ _ branches _ join \<Rightarrow> index_parallel index branches join path depth self
      | LoopNode name _ body until _ _ _ \<Rightarrow> index_loop index name until body path depth self
      | MapNode _ _ body _ _ _ \<Rightarrow> index body (named_child_path path ''body'' (node_name body)) (depth + 1) self
      | SucceedNode _ \<Rightarrow> self
      | FailNode _ \<Rightarrow> self)"

lemma index_list_cong:
  assumes "\<And>c p d s. c \<in> set children \<Longrightarrow> f c p d s = g c p d s"
  shows "index_list f field children path depth self = index_list g field children path depth self"
  unfolding index_list_def
  by (rule fold_cong) (auto simp: fun_eq_iff assms dest!: enumerate_memberD)

lemma index_children_cong [fundef_cong]:
  assumes "node = node'" "path = path'" "depth = depth'" "self = self'"
    and "\<And>c p d s. c \<in> set (child_nodes node') \<Longrightarrow> f c p d s = g c p d s"
  shows "index_children f node path depth self = index_children g node' path' depth' self'"
proof -
  have "index_choice f branches otherwise p d s = index_choice g branches otherwise p d s"
    if "\<And>c p d s. c \<in> set (child_nodes (ChoiceNode n st branches otherwise ps)) \<Longrightarrow> f c p d s = g c p d s"
    for n st branches otherwise ps p d s
  proof -
    have "fold (\<lambda>(i, when, node) self. f node (choice_branch_node_path p i (node_name node)) (d + 1)
              (count_guard when (guard_path p ''branches'' i ''when'') self)) (enumerate 0 branches) s =
          fold (\<lambda>(i, when, node) self. g node (choice_branch_node_path p i (node_name node)) (d + 1)
              (count_guard when (guard_path p ''branches'' i ''when'') self)) (enumerate 0 branches) s"
      by (rule fold_cong) (force intro: that dest!: enumerate_memberD)+
    then show ?thesis by (cases otherwise) (simp_all add: index_choice_def that)
  qed
  with assms(5) show ?thesis unfolding assms(1-4)
    by (cases node') (auto simp: index_children_def index_parallel_def index_loop_def intro: index_list_cong)
qed

function index_node :: "graph_node \<Rightarrow> diagnostic_path_segment list \<Rightarrow> u64 \<Rightarrow> analyzer \<Rightarrow> analyzer" where
  "index_node node path depth self =
     index_children index_node node path depth
       (validate_node_depth (node_name node) path depth (index_identity node path self))"
  by pat_completeness auto
termination
  by (relation "measure (\<lambda>(n, _). size n)") (auto dest: child_nodes_size)

declare index_node.simps [simp del]

section \<open>Structural bounds\<close>

record node_fold =
  nf_executions :: u64
  nf_concurrency :: u64
  nf_loop_entries :: u64

definition fold_default :: node_fold where
  "fold_default = \<lparr>nf_executions = 0, nf_concurrency = 0, nf_loop_entries = 0\<rparr>"

definition ceiling :: "diagnostic_path_segment list \<Rightarrow> string \<Rightarrow> string \<Rightarrow> analyzer \<Rightarrow> analyzer" where
  "ceiling path field message self = emit CeilingExceeded message (with_field path field) [] self"

record fold_limit_context =
  fx_ceiling :: u64
  fx_path :: "diagnostic_path_segment list"
  fx_field :: string
  fx_label :: string

definition fold_limit :: "u64 \<Rightarrow> diagnostic_path_segment list \<Rightarrow> string \<Rightarrow> string \<Rightarrow> fold_limit_context" where
  "fold_limit maximum path field label =
     \<lparr>fx_ceiling = maximum, fx_path = path, fx_field = field, fx_label = label\<rparr>"

definition limit_exceeded :: "fold_limit_context \<Rightarrow> analyzer \<Rightarrow> u64 option \<times> analyzer" where
  "limit_exceeded context self =
     (None, ceiling (fx_path context) (fx_field context)
        (fx_label context @ '' exceed '' @ u64_to_string (fx_ceiling context)) self)"

fun checked_sum_from :: "u64 \<Rightarrow> u64 list \<Rightarrow> fold_limit_context \<Rightarrow> analyzer \<Rightarrow> u64 option \<times> analyzer" where
  "checked_sum_from summed [] context self = (Some summed, self)"
| "checked_sum_from summed (v # values) context self =
     (case checked_add summed v of
        Some summed \<Rightarrow>
          if summed \<le> fx_ceiling context then checked_sum_from summed values context self
          else limit_exceeded context self
      | None \<Rightarrow> limit_exceeded context self)"

definition checked_sum :: "u64 list \<Rightarrow> fold_limit_context \<Rightarrow> analyzer \<Rightarrow> u64 option \<times> analyzer" where
  "checked_sum values context self = checked_sum_from 0 values context self"

definition checked_product :: "u64 \<Rightarrow> u64 \<Rightarrow> fold_limit_context \<Rightarrow> analyzer \<Rightarrow> u64 option \<times> analyzer" where
  "checked_product left right context self =
     (case checked_mul left right of
        Some product \<Rightarrow> if product \<le> fx_ceiling context then (Some product, self) else limit_exceeded context self
      | None \<Rightarrow> limit_exceeded context self)"

definition check_fold_limits ::
    "node_fold \<Rightarrow> diagnostic_path_segment list \<Rightarrow> analyzer \<Rightarrow> node_fold option \<times> analyzer" where
  "check_fold_limits fold' path self =
     (if nf_executions fold' > FULL_V1_MAX_NODE_EXECUTIONS
      then (None, ceiling path ''kind'' ''node executions exceed full-v1 ceiling'' self)
      else if nf_concurrency fold' > FULL_V1_MAX_PEAK_CONCURRENCY
      then (None, ceiling path ''kind'' ''peak concurrency exceeds full-v1 ceiling'' self)
      else if nf_loop_entries fold' > FULL_V1_MAX_LOOP_ENTRIES
      then (None, ceiling path ''kind'' ''loop entries exceed full-v1 ceiling'' self)
      else (Some fold', self))"

text \<open>The operator \<open>?\<close> of a method that returns an option and changes the analyzer.\<close>

definition bind_opt :: "'a option \<times> 's \<Rightarrow> ('a \<Rightarrow> 's \<Rightarrow> 'b option \<times> 's) \<Rightarrow> 'b option \<times> 's" where
  "bind_opt r f = (case r of (None, s) \<Rightarrow> (None, s) | (Some a, s) \<Rightarrow> f a s)"

lemma bind_opt_cong [fundef_cong]:
  "r = r' \<Longrightarrow> (\<And>a s. r' = (Some a, s) \<Longrightarrow> f a s = g a s) \<Longrightarrow> bind_opt r f = bind_opt r' g"
  by (auto simp: bind_opt_def split: prod.splits option.splits)

lemma bind_opt_eq_Some: "bind_opt r f = (Some b, s') \<longleftrightarrow> (\<exists>a s. r = (Some a, s) \<and> f a s = (Some b, s'))"
  by (cases r) (auto simp: bind_opt_def split: option.splits)

type_synonym node_folder = "graph_node \<Rightarrow> analyzer \<Rightarrow> node_fold option \<times> analyzer"

definition fold_children :: "node_folder \<Rightarrow> graph_node list \<Rightarrow> analyzer \<Rightarrow> node_fold list \<times> analyzer" where
  "fold_children folder children self =
     (case map_state folder children self of (folds, self) \<Rightarrow> (List.map_filter id folds, self))"

definition fold_seq ::
    "node_folder \<Rightarrow> graph_node list \<Rightarrow> diagnostic_path_segment list \<Rightarrow> analyzer \<Rightarrow> node_fold option \<times> analyzer" where
  "fold_seq folder children path self =
     (case fold_children folder children self of (folds, self) \<Rightarrow>
      bind_opt (checked_sum (map nf_executions folds)
        (fold_limit FULL_V1_MAX_NODE_EXECUTIONS path ''children'' ''node executions'') self) (\<lambda>executions self.
      bind_opt (checked_sum (map nf_loop_entries folds)
        (fold_limit FULL_V1_MAX_LOOP_ENTRIES path ''children'' ''loop entries'') self) (\<lambda>loop_entries self.
      (Some \<lparr>nf_executions = executions, nf_concurrency = fold max (map nf_concurrency folds) 0,
             nf_loop_entries = loop_entries\<rparr>, self))))"

definition fold_choice ::
    "node_folder \<Rightarrow> choice_branches \<Rightarrow> graph_node option \<Rightarrow> analyzer \<Rightarrow> node_fold option \<times> analyzer" where
  "fold_choice folder branches otherwise self =
     (case fold_children folder (map snd branches) self of (folds, self) \<Rightarrow>
      bind_opt (case otherwise of
          Some node \<Rightarrow> bind_opt (folder node self) (\<lambda>last' self. (Some (folds @ [last']), self))
        | None \<Rightarrow> (Some folds, self)) (\<lambda>folds self.
      (Some \<lparr>nf_executions = fold max (map nf_executions folds) 0,
             nf_concurrency = fold max (map nf_concurrency folds) 0,
             nf_loop_entries = fold max (map nf_loop_entries folds) 0\<rparr>, self)))"

definition fold_par ::
    "node_folder \<Rightarrow> graph_node list \<Rightarrow> diagnostic_path_segment list \<Rightarrow> analyzer \<Rightarrow> node_fold option \<times> analyzer" where
  "fold_par folder branches path self =
     (case fold_children folder branches self of (folds, self) \<Rightarrow>
      bind_opt (checked_sum (map nf_executions folds)
        (fold_limit FULL_V1_MAX_NODE_EXECUTIONS path ''branches'' ''node executions'') self) (\<lambda>executions self.
      bind_opt (checked_sum (map nf_concurrency folds)
        (fold_limit FULL_V1_MAX_PEAK_CONCURRENCY path ''branches'' ''peak concurrency'') self) (\<lambda>concurrency self.
      bind_opt (checked_sum (map nf_loop_entries folds)
        (fold_limit FULL_V1_MAX_LOOP_ENTRIES path ''branches'' ''loop entries'') self) (\<lambda>loop_entries self.
      (Some \<lparr>nf_executions = executions, nf_concurrency = concurrency, nf_loop_entries = loop_entries\<rparr>, self)))))"

definition fold_map ::
    "node_folder \<Rightarrow> graph_node \<Rightarrow> positive_integer \<Rightarrow> diagnostic_path_segment list \<Rightarrow> analyzer
       \<Rightarrow> node_fold option \<times> analyzer" where
  "fold_map folder body max_items path self =
     bind_opt (folder body self) (\<lambda>body self.
     bind_opt (checked_product max_items (nf_executions body)
       (fold_limit FULL_V1_MAX_NODE_EXECUTIONS path ''maxItems'' ''node executions'') self) (\<lambda>executions self.
     bind_opt (checked_product max_items (nf_concurrency body)
       (fold_limit FULL_V1_MAX_PEAK_CONCURRENCY path ''maxItems'' ''peak concurrency'') self) (\<lambda>concurrency self.
     bind_opt (checked_product max_items (nf_loop_entries body)
       (fold_limit FULL_V1_MAX_LOOP_ENTRIES path ''maxItems'' ''loop entries'') self) (\<lambda>loop_entries self.
     (Some \<lparr>nf_executions = executions, nf_concurrency = concurrency, nf_loop_entries = loop_entries\<rparr>, self)))))"

definition fold_loop ::
    "node_folder \<Rightarrow> graph_node \<Rightarrow> positive_integer \<Rightarrow> diagnostic_path_segment list \<Rightarrow> analyzer
       \<Rightarrow> node_fold option \<times> analyzer" where
  "fold_loop folder body max_iterations path self =
     bind_opt (folder body self) (\<lambda>body self.
     bind_opt (case checked_add (nf_loop_entries body) 1 of
         Some entries \<Rightarrow> (Some entries, self)
       | None \<Rightarrow> (None, ceiling path ''maxIterations'' ''loop-entry arithmetic overflow'' self)) (\<lambda>entries self.
     bind_opt (checked_product max_iterations (nf_executions body)
       (fold_limit FULL_V1_MAX_NODE_EXECUTIONS path ''maxIterations'' ''node executions'') self) (\<lambda>executions self.
     bind_opt (checked_product max_iterations entries
       (fold_limit FULL_V1_MAX_LOOP_ENTRIES path ''maxIterations'' ''loop entries'') self) (\<lambda>loop_entries self.
     (Some \<lparr>nf_executions = executions, nf_concurrency = nf_concurrency body, nf_loop_entries = loop_entries\<rparr>, self)))))"

definition fold_group_node ::
    "node_folder \<Rightarrow> graph_node \<Rightarrow> diagnostic_path_segment list \<Rightarrow> analyzer \<Rightarrow> node_fold option \<times> analyzer" where
  "fold_group_node folder node path self =
     (case node of
        SeqNode _ _ children _ \<Rightarrow> fold_seq folder children path self
      | ChoiceNode _ _ branches otherwise _ \<Rightarrow> fold_choice folder branches otherwise self
      | ParNode _ _ branches _ _ \<Rightarrow> fold_par folder branches path self
      | MapNode _ _ body _ max_items _ \<Rightarrow> fold_map folder body max_items path self
      | LoopNode _ _ body _ max_iterations _ _ \<Rightarrow> fold_loop folder body max_iterations path self
      | _ \<Rightarrow> (None, self))"

definition fold_leaf :: "graph_node \<Rightarrow> node_fold option" where
  "fold_leaf node =
     (case node of
        StepNode _ \<Rightarrow> Some \<lparr>nf_executions = 1, nf_concurrency = 1, nf_loop_entries = 0\<rparr>
      | VerifierNode _ \<Rightarrow> Some \<lparr>nf_executions = 1, nf_concurrency = 1, nf_loop_entries = 0\<rparr>
      | SucceedNode _ \<Rightarrow> Some fold_default
      | FailNode _ \<Rightarrow> Some fold_default
      | _ \<Rightarrow> None)"

lemma fold_children_cong:
  assumes "\<And>c s. c \<in> set children \<Longrightarrow> f c s = g c s"
  shows "fold_children f children self = fold_children g children self"
  unfolding fold_children_def by (simp add: map_state_cong[OF refl refl assms])

lemma fold_group_node_cong [fundef_cong]:
  assumes "node = node'" "path = path'" "self = self'"
    and "\<And>c s. c \<in> set (child_nodes node') \<Longrightarrow> f c s = g c s"
  shows "fold_group_node f node path self = fold_group_node g node' path' self'"
proof -
  have eq: "fold_children f cs s = fold_children g cs s" if "set cs \<subseteq> set (child_nodes node')" for cs s
    using that by (intro fold_children_cong assms(4)) auto
  from assms(4) show ?thesis unfolding assms(1-3)
    by (cases node') (simp_all add: eq fold_group_node_def fold_seq_def fold_choice_def fold_par_def fold_map_def
        fold_loop_def split: option.split prod.split)
qed

function fold_node :: "graph_node \<Rightarrow> analyzer \<Rightarrow> node_fold option \<times> analyzer" where
  "fold_node node self =
     (let path = node_path (node_name node) self
      in bind_opt (case fold_leaf node of Some fold' \<Rightarrow> (Some fold', self) | None \<Rightarrow> fold_group_node fold_node node path self)
           (\<lambda>fold' self. check_fold_limits fold' path self))"
  by pat_completeness auto
termination
  by (relation "measure (\<lambda>(n, _). size n)") (auto dest: child_nodes_size)

declare fold_node.simps [simp del]

definition build_bounds :: "node_fold \<Rightarrow> node_name list \<Rightarrow> analyzer \<Rightarrow> structural_bounds option" where
  "build_bounds fold' order self =
     (case (PositiveInteger_new (max (nf_executions fold') 1), PositiveInteger_new (max (nf_concurrency fold') 1)) of
        (Inr max_node_executions, Inr peak_concurrency) \<Rightarrow>
          (let termination' =
             (if an_loops self = [] then
                (case NonEmptyVec_new order of Inr order \<Rightarrow> Some (Acyclic order) | Inl _ \<Rightarrow> None)
              else
                (case those (map (\<lambda>name. case verifier_field_name name of
                        None \<Rightarrow> None
                      | Some name \<Rightarrow> (case FieldPath_new [name] of Inr path \<Rightarrow> Some path | Inl _ \<Rightarrow> None)) (an_loops self)) of
                   None \<Rightarrow> None
                 | Some ranking \<Rightarrow>
                     (case (NonEmptyVec_new ranking, PositiveInteger_new (nf_loop_entries fold')) of
                        (Inr ranking, Inr max_iterations) \<Rightarrow> Some (Bounded ranking max_iterations)
                      | _ \<Rightarrow> None)))
           in map_option (\<lambda>witness. \<lparr>sb_termination = witness, sb_max_node_executions = max_node_executions,
                sb_peak_concurrency = peak_concurrency, sb_attempts_per_node = an_attempts self\<rparr>) termination')
      | _ \<Rightarrow> None)"

section \<open>Terminal coverage\<close>

definition may_fall_through :: "position \<Rightarrow> analyzer \<Rightarrow> bool" where
  "may_fall_through position self =
     (case bm_get (an_node_fallthrough self) position of Some falls_through \<Rightarrow> falls_through | None \<Rightarrow> True)"

type_synonym terminal_walker = "graph_node \<Rightarrow> position \<Rightarrow> analyzer \<Rightarrow> analyzer"

definition terminal_sequence ::
    "terminal_walker \<Rightarrow> node_name \<Rightarrow> graph_node list \<Rightarrow> position \<Rightarrow> analyzer \<Rightarrow> analyzer" where
  "terminal_sequence walk name children position self =
     snd (fold (\<lambda>(i, child) (reachable, self).
       let self = emit_if (\<not> reachable) Reachability ''node is unreachable after an unconditional terminal''
             (node_path (node_name child) self) [node_name child, name] self;
           self = walk child (position @ [i]) self
       in (reachable \<and> may_fall_through (position @ [i]) self, self)) (enumerate 0 children) (True, self))"

definition terminal_choice ::
    "terminal_walker \<Rightarrow> node_name \<Rightarrow> choice_branches \<Rightarrow> graph_node option \<Rightarrow> position \<Rightarrow> analyzer \<Rightarrow> analyzer" where
  "terminal_choice walk name branches otherwise position self =
     (let reachability = bm_get (an_choice_reachability self) name;
          self = fold (\<lambda>(i, node) self.
            if (case reachability of None \<Rightarrow> True | Some control \<Rightarrow> branch_reachable control i)
            then walk node (position @ [i]) self else self) (enumerate 0 (map snd branches)) self
      in case otherwise of
           Some node \<Rightarrow>
             if (case reachability of None \<Rightarrow> True | Some control \<Rightarrow> cy_otherwise_reachable control)
             then walk node (position @ [length branches]) self else self
         | None \<Rightarrow> self)"

definition terminal_children :: "terminal_walker \<Rightarrow> graph_node \<Rightarrow> position \<Rightarrow> analyzer \<Rightarrow> analyzer" where
  "terminal_children walk node position self =
     (case node of
        SeqNode name _ children _ \<Rightarrow> terminal_sequence walk name children position self
      | ChoiceNode name _ branches otherwise _ \<Rightarrow> terminal_choice walk name branches otherwise position self
      | ParNode _ _ branches _ _ \<Rightarrow>
          fold (\<lambda>(i, branch). walk branch (position @ [i])) (enumerate 0 branches) self
      | LoopNode _ _ body _ _ _ _ \<Rightarrow> walk body (position @ [0]) self
      | MapNode _ _ body _ _ _ \<Rightarrow> walk body (position @ [0]) self
      | _ \<Rightarrow> self)"

lemma terminal_children_cong [fundef_cong]:
  assumes "node = node'" "position = position'" "self = self'"
    and "\<And>c p s. c \<in> set (child_nodes node') \<Longrightarrow> f c p s = g c p s"
  shows "terminal_children f node position self = terminal_children g node' position' self'"
proof -
  have seq: "terminal_sequence f n cs p s = terminal_sequence g n cs p s"
    if "set cs \<subseteq> set (child_nodes node')" for n cs p s
    unfolding terminal_sequence_def
    by (rule arg_cong[where f = snd], rule fold_cong)
      (use that in \<open>auto simp: fun_eq_iff assms(4) Let_def dest!: enumerate_memberD\<close>)
  have par: "fold (\<lambda>(i, branch). f branch (p @ [i])) (enumerate 0 bs) s = fold (\<lambda>(i, branch). g branch (p @ [i])) (enumerate 0 bs) s"
    if "set bs \<subseteq> set (child_nodes node')" for bs p s
    by (rule fold_cong) (use that in \<open>auto simp: fun_eq_iff assms(4) dest!: enumerate_memberD\<close>)
  have choice: "terminal_choice f n bs oth p s = terminal_choice g n bs oth p s"
    if node: "set (map snd bs @ (case oth of None \<Rightarrow> [] | Some n \<Rightarrow> [n])) \<subseteq> set (child_nodes node')" for n bs oth p s
  proof -
    have "fold (\<lambda>(i, node) self. if P i then f node (p @ [i]) self else self) (enumerate 0 (map snd bs)) s =
          fold (\<lambda>(i, node) self. if P i then g node (p @ [i]) self else self) (enumerate 0 (map snd bs)) s" for P
      by (rule fold_cong) (use node in \<open>force intro: assms(4) dest!: enumerate_memberD\<close>)+
    then show ?thesis using node assms(4) by (cases oth) (simp_all add: terminal_choice_def Let_def)
  qed
  from assms(4) show ?thesis unfolding assms(1-3)
    by (cases node') (simp_all add: seq par choice terminal_children_def)
qed

function terminal_flow :: "graph_node \<Rightarrow> position \<Rightarrow> analyzer \<Rightarrow> analyzer" where
  "terminal_flow node position self = terminal_children terminal_flow node position self"
  by pat_completeness auto
termination
  by (relation "measure (\<lambda>(n, _). size n)") (auto dest: child_nodes_size)

declare terminal_flow.simps [simp del]

definition validate_terminal_coverage :: "analyzer \<Rightarrow> analyzer" where
  "validate_terminal_coverage self =
     (let root = gs_root (an_graph self);
          self = terminal_flow root [] self
      in emit_if (may_fall_through [] self) Reachability
           ''normal-success path falls through without explicit succeed or fail terminal''
           [field_segment ''root''] [node_name root] self)"

section \<open>Order of references\<close>

definition validate_reference_names :: "node_name btree_set \<Rightarrow> analyzer \<Rightarrow> analyzer" where
  "validate_reference_names known self =
     fold (\<lambda>(node, dependency) self.
       emit_if (dependency \<notin> set known) UndefinedRead (''reference names unknown node '' @ dependency)
         (node_path node self) [dependency] self)
       (concat (map (\<lambda>(node, dependencies). map (Pair node) dependencies) (an_dependencies self))) self"

definition reference_ordinal :: "analyzer \<Rightarrow> node_name \<Rightarrow> nat" where
  "reference_ordinal self name =
     (case bm_get (an_nodes self) name of Some info \<Rightarrow> ni_ordinal info | None \<Rightarrow> u64_max)"

definition reference_is_ready :: "analyzer \<Rightarrow> node_name list \<Rightarrow> node_name \<Rightarrow> bool" where
  "reference_is_ready self order node =
     (case bm_get (an_dependencies self) node of
        None \<Rightarrow> True
      | Some dependencies \<Rightarrow> list_all (\<lambda>dependency. dependency \<noteq> node \<longrightarrow> dependency \<in> set order) dependencies)"

fun min_by_key :: "('a \<Rightarrow> nat) \<Rightarrow> 'a list \<Rightarrow> 'a option" where
  "min_by_key key [] = None"
| "min_by_key key (x # xs) = Some (fold (\<lambda>y best. if key y < key best then y else best) xs x)"

definition next_reference_node :: "analyzer \<Rightarrow> node_name btree_set \<Rightarrow> node_name list \<Rightarrow> node_name option" where
  "next_reference_node self remaining order =
     min_by_key (reference_ordinal self) (filter (reference_is_ready self order) remaining)"

definition emit_reference_cycle :: "node_name btree_set \<Rightarrow> analyzer \<Rightarrow> analyzer" where
  "emit_reference_cycle remaining self =
     emit CyclicReference ''node-output/control references contain a cycle''
       (case remaining of [] \<Rightarrow> [field_segment ''root''] | name # _ \<Rightarrow> node_path name self) remaining self"

lemma min_by_key_mem: "min_by_key key xs = Some x \<Longrightarrow> x \<in> set xs"
proof -
  have "fold (\<lambda>y best. if key y < key best then y else best) ys z \<in> set (z # ys)" for ys z
    by (induction ys arbitrary: z) (fastforce split: if_splits)+
  then show "min_by_key key xs = Some x \<Longrightarrow> x \<in> set xs" by (cases xs) auto
qed

lemma next_reference_mem:
  "next_reference_node self remaining order = Some x \<Longrightarrow> x \<in> set remaining \<and> reference_is_ready self order x"
  by (auto simp: next_reference_node_def dest!: min_by_key_mem)

function reference_order ::
    "analyzer \<Rightarrow> node_name btree_set \<Rightarrow> node_name list \<Rightarrow> node_name list \<times> node_name btree_set" where
  "reference_order self remaining order =
     (if remaining = [] then (order, [])
      else
        case next_reference_node self remaining order of
          None \<Rightarrow> (order, remaining)
        | Some following \<Rightarrow> reference_order self (filter (\<lambda>name. name \<noteq> following) remaining) (order @ [following]))"
  by pat_completeness auto
termination
  by (relation "measure (\<lambda>(_, remaining, _). length remaining)")
    (auto dest!: next_reference_mem intro: length_filter_less)

declare reference_order.simps [simp del]

definition reference_topological_order :: "analyzer \<Rightarrow> node_name list \<times> analyzer" where
  "reference_topological_order self =
     (let known = bm_keys (an_nodes self);
          self = validate_reference_names known self
      in case reference_order self known [] of (order, stuck) \<Rightarrow>
           (order, if stuck = [] then self else emit_reference_cycle stuck self))"


end
