(* ===== verification/Verifier_Guards.thy ===== *)
theory Verifier_Guards
  imports Verifier_Analyzer
begin

text \<open>
  Guards in the graph verifier: the control assignments that a set of guards depends on, closed under the
  correlations of joins and map items (\<^verbatim>\<open>analyzer_assignments.rs\<close>), the legality of a guard and of the
  choice it belongs to (\<^verbatim>\<open>analyzer_guards.rs\<close>), and the writes that the branches of a choice have in common
  (\<^verbatim>\<open>analyzer_choice_writes.rs\<close>).
\<close>

section \<open>Map scopes of controls\<close>

function find_map_owner :: "graph_node \<Rightarrow> node_name \<Rightarrow> node_name option \<Rightarrow> node_name option" where
  "find_map_owner node target owner =
     (if node_name node = target then owner
      else
        let inner = (case node of MapNode name _ _ _ _ _ \<Rightarrow> Some name | _ \<Rightarrow> owner)
        in find_first (\<lambda>child. find_map_owner child target inner) (child_nodes node))"
  by pat_completeness auto
termination
  by (relation "measure (\<lambda>(n, _). size n)") (auto dest: child_nodes_size)

declare find_map_owner.simps [simp del]

definition map_owner :: "analyzer \<Rightarrow> node_name \<Rightarrow> node_name option" where
  "map_owner self target = find_map_owner (gs_root (an_graph self)) target None"

definition map_control_scope :: "analyzer \<Rightarrow> control_selector \<Rightarrow> map_aggregate option" where
  "map_control_scope self selector =
     (if \<not> bm_has (an_nodes self) (cs_name selector) then None
      else
        case map_owner self (cs_name selector) of
          None \<Rightarrow> None
        | Some owner \<Rightarrow>
            (case bm_get (an_nodes self) owner of
               None \<Rightarrow> None
             | Some info \<Rightarrow>
                 (case ni_node info of
                    MapNode _ _ _ _ max_items _ \<Rightarrow> Some \<lparr>ma_owner = owner, ma_maximum = max_items\<rparr>
                  | _ \<Rightarrow> None)))"

definition map_control_cardinality :: "analyzer \<Rightarrow> control_selector \<Rightarrow> u64 option" where
  "map_control_cardinality self selector = map_option ma_maximum (map_control_scope self selector)"

definition selector_domain :: "analyzer \<Rightarrow> control_selector \<Rightarrow> enum_label list option" where
  "selector_domain self selector =
     (case bm_get (an_nodes self) (cs_name selector) of
        None \<Rightarrow> None
      | Some info \<Rightarrow>
          (case cs_source selector of
             SourceSignal \<Rightarrow>
               (case (ni_node info, cs_field selector) of
                  (VerifierNode verifier, Some field) \<Rightarrow> bm_get (vn_signals verifier) field
                | _ \<Rightarrow> None)
           | SourceError \<Rightarrow>
               if cs_field selector \<noteq> None \<or> \<not> is_executable (ni_node info) then None else Some error_labels
           | SourceGroup \<Rightarrow> group_domain (ni_node info) (cs_field selector)))"

section \<open>Assignments of a set of guards\<close>

definition explicit_map_aggregates :: "analyzer \<Rightarrow> guard list \<Rightarrow> (selector_key, map_aggregate) btree_map" where
  "explicit_map_aggregates self guards =
     bm_extend [] (List.map_filter (\<lambda>(selector, aggregate).
       if aggregate then map_option (Pair (selector_key selector)) (map_control_scope self selector) else None)
       (concat (map guard_selector_uses guards)))"

definition is_parallel_join_selector :: "control_selector \<Rightarrow> string \<Rightarrow> bool" where
  "is_parallel_join_selector selector field \<longleftrightarrow>
     cs_source selector = SourceGroup \<and> cs_field selector = Some field"

record expansion =
  ex_expanded :: "guard list"
  ex_aggregates :: "(selector_key, map_aggregate) btree_map"
  ex_join_correlations :: "node_name btree_set"
  ex_execution_correlations :: "node_name btree_set"
  ex_discovered :: bool

definition scope_dependencies ::
    "analyzer \<Rightarrow> map_aggregate \<Rightarrow> guard list \<Rightarrow> (selector_key, map_aggregate) btree_map
       \<Rightarrow> (selector_key, map_aggregate) btree_map" where
  "scope_dependencies self aggregate guards aggregates =
     fold (\<lambda>dependency aggregates.
       case map_control_scope self dependency of
         Some scope \<Rightarrow>
           if ma_owner scope = ma_owner aggregate then bm_insert (selector_key dependency) aggregate aggregates
           else aggregates
       | None \<Rightarrow> aggregates) (guards_selectors guards) aggregates"

definition expand_join :: "analyzer \<Rightarrow> control_selector \<Rightarrow> expansion \<Rightarrow> expansion" where
  "expand_join self selector state =
     (case bm_get (an_parallel_join_correlations self) (cs_name selector) of
        None \<Rightarrow> state
      | Some correlation \<Rightarrow>
          if \<not> is_parallel_join_selector selector (correlation_field correlation)
             \<or> cs_name selector \<in> set (ex_join_correlations state)
          then state
          else
            let guards = correlation_guards correlation;
                aggregates =
                  (case bm_get (ex_aggregates state) (selector_key selector) of
                     Some aggregate \<Rightarrow> scope_dependencies self aggregate guards (ex_aggregates state)
                   | None \<Rightarrow> ex_aggregates state);
                expanded = ex_expanded state @ guards
            in state\<lparr>ex_expanded := expanded,
                     ex_aggregates := bm_extend aggregates (explicit_map_aggregates self expanded),
                     ex_join_correlations := bs_insert (cs_name selector) (ex_join_correlations state),
                     ex_discovered := True\<rparr>)"

definition expand_execution :: "analyzer \<Rightarrow> selector_key \<times> map_aggregate \<Rightarrow> expansion \<Rightarrow> expansion" where
  "expand_execution self = (\<lambda>(key, aggregate) state.
     case bm_get (an_map_execution_correlations self) (key_name key) of
       None \<Rightarrow> state
     | Some correlation \<Rightarrow>
         if ec_owner correlation \<noteq> ma_owner aggregate \<or> key_name key \<in> set (ex_execution_correlations state)
         then state
         else
           let guards = completion_guards (ec_presence correlation)
           in state\<lparr>ex_expanded := ex_expanded state @ guards,
                    ex_aggregates := scope_dependencies self aggregate guards (ex_aggregates state),
                    ex_execution_correlations := bs_insert (key_name key) (ex_execution_correlations state),
                    ex_discovered := True\<rparr>)"

definition expand_round :: "analyzer \<Rightarrow> expansion \<Rightarrow> expansion" where
  "expand_round self state =
     (let state = fold (expand_join self) (guards_selectors (ex_expanded state)) (state\<lparr>ex_discovered := False\<rparr>)
      in fold (expand_execution self) (ex_aggregates state) state)"

text \<open>Every round that discovers something takes a correlation that was not taken before.\<close>

definition open_correlations :: "analyzer \<Rightarrow> expansion \<Rightarrow> nat" where
  "open_correlations self state =
     card (fst ` set (an_parallel_join_correlations self) - set (ex_join_correlations state))
     + card (fst ` set (an_map_execution_correlations self) - set (ex_execution_correlations state))"

definition closes :: "analyzer \<Rightarrow> expansion \<Rightarrow> expansion \<Rightarrow> bool" where
  "closes self state state' \<longleftrightarrow>
     open_correlations self state' \<le> open_correlations self state
     \<and> (ex_discovered state' \<longrightarrow> ex_discovered state \<or> open_correlations self state' < open_correlations self state)"

lemma closes_refl: "closes self state state"
  by (simp add: closes_def)

lemma closes_trans: "closes self a b \<Longrightarrow> closes self b c \<Longrightarrow> closes self a c"
  by (auto simp: closes_def)

lemma card_take: "finite A \<Longrightarrow> x \<in> A \<Longrightarrow> x \<notin> S \<Longrightarrow> card (A - insert x S) < card (A - S)"
  by (rule psubset_card_mono) auto

lemma expand_join_closes: "closes self state (expand_join self selector state)"
proof (cases "expand_join self selector state = state")
  case False
  then obtain correlation where c: "bm_get (an_parallel_join_correlations self) (cs_name selector) = Some correlation"
    and new: "is_parallel_join_selector selector (correlation_field correlation)"
      "cs_name selector \<notin> set (ex_join_correlations state)"
    by (auto simp: expand_join_def split: option.splits if_splits)
  from c have "cs_name selector \<in> fst ` set (an_parallel_join_correlations self)" by (force dest: bm_get_SomeD)
  from card_take[OF _ this new(2)] c new show ?thesis
    by (simp add: expand_join_def closes_def open_correlations_def Let_def del: card_Diff_insert)
qed (simp add: closes_refl)

lemma expand_execution_closes: "closes self state (expand_execution self entry state)"
proof (cases "expand_execution self entry state = state")
  case False
  obtain key aggregate where e: "entry = (key, aggregate)" by (cases entry)
  from False e obtain correlation where c: "bm_get (an_map_execution_correlations self) (key_name key) = Some correlation"
    and new: "ec_owner correlation = ma_owner aggregate" "key_name key \<notin> set (ex_execution_correlations state)"
    by (auto simp: expand_execution_def split: option.splits if_splits)
  from c have "key_name key \<in> fst ` set (an_map_execution_correlations self)" by (force dest: bm_get_SomeD)
  from card_take[OF _ this new(2)] c new show ?thesis
    by (simp add: expand_execution_def e closes_def open_correlations_def Let_def del: card_Diff_insert)
qed (simp add: closes_refl)

lemma fold_closes:
  assumes "\<And>x state. closes self state (f x state)"
  shows "closes self state (fold f xs state)"
proof (induction xs arbitrary: state)
  case (Cons x xs)
  show ?case using closes_trans[OF assms Cons.IH] by simp
qed (simp add: closes_refl)

lemma expand_round_closes: "closes self (state\<lparr>ex_discovered := False\<rparr>) (expand_round self state)"
  unfolding expand_round_def Let_def
  by (rule closes_trans[OF fold_closes[OF expand_join_closes] fold_closes[OF expand_execution_closes]])

function expand_correlations :: "analyzer \<Rightarrow> expansion \<Rightarrow> expansion" where
  "expand_correlations self state =
     (let state' = expand_round self state
      in if ex_discovered state' then expand_correlations self state' else state')"
  by pat_completeness auto
termination
proof (relation "measure (\<lambda>(self, state). open_correlations self state)", goal_cases)
  case (2 self state state')
  then show ?case using expand_round_closes[of self state] by (simp add: closes_def open_correlations_def)
qed simp

declare expand_correlations.simps [simp del]

definition assignment_inputs ::
    "analyzer \<Rightarrow> guard list \<Rightarrow> control_selector list \<times> (selector_key, map_aggregate) btree_map \<times> node_name btree_set" where
  "assignment_inputs self guards =
     (let state = expand_correlations self
            \<lparr>ex_expanded = guards, ex_aggregates = explicit_map_aggregates self guards,
             ex_join_correlations = [], ex_execution_correlations = [], ex_discovered = False\<rparr>
      in (guards_selectors (ex_expanded state), ex_aggregates state, ex_join_correlations state))"

definition assignment_ceiling :: "diagnostic_path_segment list \<Rightarrow> analyzer \<Rightarrow> analyzer" where
  "assignment_ceiling path self =
     emit CeilingExceeded (''control assignment space exceeds '' @ u64_to_string FULL_V1_MAX_GUARD_ASSIGNMENTS) path [] self"

definition assignments_for_guards ::
    "guard list \<Rightarrow> diagnostic_path_segment list \<Rightarrow> analyzer \<Rightarrow> assignment list option \<times> analyzer" where
  "assignments_for_guards guards path self =
     (case assignment_inputs self guards of (selectors, map_aggregates, join_correlations) \<Rightarrow>
      case build_dimensions selectors
             \<lparr>di_nodes = an_nodes self, di_map_aggregates = map_aggregates,
              di_join_correlations = an_parallel_join_correlations self,
              di_execution_correlations = an_map_execution_correlations self\<rparr> of
        None \<Rightarrow> (None, assignment_ceiling path self)
      | Some dimensions \<Rightarrow>
          if \<not> compatible_assignment_count_is_bounded dimensions FULL_V1_MAX_GUARD_ASSIGNMENTS
          then (None, assignment_ceiling path self)
          else
            (Some (filter (\<lambda>assignment. list_all (\<lambda>name.
               case bm_get (an_parallel_join_correlations self) name of
                 None \<Rightarrow> True
               | Some correlation \<Rightarrow> assignment_matches_parallel_join_correlation assignment name correlation)
               join_correlations) (enumerate_assignments dimensions)), self))"

definition assignments_for_completion_predicates ::
    "completion_predicate list \<Rightarrow> diagnostic_path_segment list \<Rightarrow> analyzer \<Rightarrow> assignment list option \<times> analyzer" where
  "assignments_for_completion_predicates predicates path self =
     assignments_for_guards (concat (map completion_guards predicates)) path self"

definition guard_has_satisfying_assignment ::
    "guard \<Rightarrow> diagnostic_path_segment list \<Rightarrow> analyzer \<Rightarrow> bool \<times> analyzer" where
  "guard_has_satisfying_assignment g path self =
     (case assignments_for_guards [g] path self of (assignments, self) \<Rightarrow>
      ((case assignments of Some assignments \<Rightarrow> list_ex (evaluate_guard g) assignments | None \<Rightarrow> False), self))"

definition completion_is_satisfiable ::
    "completion_predicate \<Rightarrow> diagnostic_path_segment list \<Rightarrow> analyzer \<Rightarrow> bool option \<times> analyzer" where
  "completion_is_satisfiable predicate path self =
     (case assignments_for_completion_predicates [predicate] path self of (assignments, self) \<Rightarrow>
      (map_option (list_ex (completion_evaluate predicate)) assignments, self))"

definition restrict_completion ::
    "effects \<Rightarrow> completion_predicate \<Rightarrow> diagnostic_path_segment list \<Rightarrow> analyzer \<Rightarrow> effects \<times> analyzer" where
  "restrict_completion effects condition path self =
     (let effects = effects\<lparr>ef_completion := completion_all [condition, ef_completion effects]\<rparr>
      in if \<not> ef_falls_through effects then (effects, self)
         else
           case completion_is_satisfiable (ef_completion effects) path self of (satisfiable, self) \<Rightarrow>
             (effects\<lparr>ef_falls_through := (case satisfiable of Some b \<Rightarrow> b | None \<Rightarrow> True)\<rparr>, self))"

section \<open>Writes that the branches of a choice have in common\<close>

definition choice_path_fact :: "effects \<Rightarrow> field_path \<Rightarrow> (write_fact \<times> node_name option) option" where
  "choice_path_fact branch path =
     (let definite = map_option (\<lambda>write. (write, None)) (bm_get (ef_definite_writes branch) path);
          overlapping = filter (\<lambda>(target, _). paths_overlap target path) (ef_definite_writes branch)
      in fold (\<lambda>name earlier.
           case bm_get (ef_outcome_writes branch) name of
             None \<Rightarrow> earlier
           | Some writes \<Rightarrow>
               if list_ex (\<lambda>target. target \<noteq> path \<and> paths_overlap target path) (bm_keys writes) then None
               else
                 case bm_get writes path of
                   None \<Rightarrow> earlier
                 | Some write \<Rightarrow>
                     map_option (\<lambda>common. (common, Some name))
                       (opt_foldl (\<lambda>common (target, definite).
                          if target \<noteq> path then None else intersect_write_facts common definite) write overlapping))
           (ef_outcome_order branch) definite)"

definition choice_producer_success :: "analyzer \<Rightarrow> node_name \<Rightarrow> completion_predicate" where
  "choice_producer_success self name =
     (case bm_get (an_choice_write_conditions self) name of
        Some condition \<Rightarrow> condition
      | None \<Rightarrow>
          (case NonEmptyEnumSet_new error_labels of
             Inl _ \<Rightarrow> Never
           | Inr labels \<Rightarrow>
               completion_not (WhenGuard (GIn \<lparr>cs_name = name, cs_source = SourceError, cs_field = None\<rparr> labels))))"

definition correlate_choice_executions :: "node_name \<Rightarrow> effects list \<Rightarrow> effects \<Rightarrow> analyzer \<Rightarrow> analyzer" where
  "correlate_choice_executions choice completing merged self =
     fold (\<lambda>(branch, name) self.
       if name \<in> set (ef_definite_nodes merged)
          \<or> \<not> (case bm_get (an_nodes self) name of Some info \<Rightarrow> is_executable (ni_node info) | None \<Rightarrow> False)
       then self
       else self\<lparr>an_choice_execution_correlations :=
              bm_entry name [] (\<lambda>existing. existing @ [\<lparr>ec_owner = choice, ec_presence = ef_completion branch\<rparr>])
                (an_choice_execution_correlations self)\<rparr>)
       (concat (map (\<lambda>branch. map (Pair branch) (ef_definite_nodes branch)) completing)) self"

text \<open>The common paths, and for every completing branch the producers whose success they need.\<close>

definition common_choice_writes :: "effects list \<Rightarrow> effects \<Rightarrow> field_path list \<Rightarrow> writes \<times> node_name btree_set list" where
  "common_choice_writes completing merged candidates =
     fold (\<lambda>path (writes, requirements).
       if bm_has (ef_definite_writes merged) path then (writes, requirements)
       else
         case those (map (\<lambda>branch. choice_path_fact branch path) completing) of
           None \<Rightarrow> (writes, requirements)
         | Some facts \<Rightarrow>
             (case intersect_write_fact_set (map fst facts) of
                None \<Rightarrow> (writes, requirements)
              | Some common \<Rightarrow>
                  (bm_insert path common writes,
                   map (\<lambda>(needed, _, producer). case producer of Some name \<Rightarrow> bs_insert name needed | None \<Rightarrow> needed)
                     (zip requirements facts))))
       candidates ([], replicate (length completing) [])"

definition correlate_choice_writes :: "node_name \<Rightarrow> effects list \<Rightarrow> effects \<Rightarrow> analyzer \<Rightarrow> effects \<times> analyzer" where
  "correlate_choice_writes choice alternatives merged self =
     (let completing = filter ef_falls_through alternatives
      in case completing of
           [] \<Rightarrow> (merged, self)
         | first # _ \<Rightarrow>
             (let self = correlate_choice_executions choice completing merged self;
                  candidates = bs_of_list (bm_keys (ef_definite_writes first)
                    @ concat (map (\<lambda>(_, writes). bm_keys writes) (ef_outcome_writes first)))
              in case common_choice_writes completing merged candidates of (writes, requirements) \<Rightarrow>
                 if writes = [] then (merged, self)
                 else
                   let condition = completion_any (map (\<lambda>(branch, names).
                         completion_all (ef_completion branch # map (choice_producer_success self) names))
                         (zip completing requirements))
                   in (merged\<lparr>ef_outcome_writes := bm_insert choice writes (ef_outcome_writes merged),
                              ef_outcome_order := ef_outcome_order merged @ [choice],
                              ef_exit_failed := bs_insert choice (ef_exit_failed merged)\<rparr>,
                       self\<lparr>an_choice_write_conditions :=
                              bm_insert choice condition (an_choice_write_conditions self)\<rparr>)))"

definition invalidate_choice_writes :: "analyzer \<Rightarrow> outcome_writes \<Rightarrow> writes \<Rightarrow> outcome_writes" where
  "invalidate_choice_writes self pending later =
     bm_retain (\<lambda>_ writes. writes \<noteq> [])
       (bm_map_values (\<lambda>name writes.
          if bm_has (an_choice_write_conditions self) name
          then bm_retain (\<lambda>path _. \<not> list_ex (\<lambda>target. paths_overlap path target) (bm_keys later)) writes
          else writes) pending)"

section \<open>Legality of guards\<close>

fun first_available_correlation ::
    "node_name btree_set \<Rightarrow> completion_predicate \<Rightarrow> diagnostic_path_segment list \<Rightarrow> execution_correlation list
       \<Rightarrow> analyzer \<Rightarrow> bool \<times> analyzer" where
  "first_available_correlation available condition path [] self = (False, self)"
| "first_available_correlation available condition path (correlation # rest) self =
     (if ec_owner correlation \<notin> set available
      then first_available_correlation available condition path rest self
      else
        case bm_get (an_node_completion self) (ec_owner correlation) of
          None \<Rightarrow> first_available_correlation available condition path rest self
        | Some completion \<Rightarrow>
            (let needed = completion_all [completion, condition]
             in case assignments_for_completion_predicates [needed, ec_presence correlation] path self of
                  (None, self) \<Rightarrow> first_available_correlation available condition path rest self
                | (Some assignments, self) \<Rightarrow>
                    if list_all (\<lambda>assignment. \<not> completion_evaluate needed assignment
                         \<or> completion_evaluate (ec_presence correlation) assignment) assignments
                    then (True, self)
                    else first_available_correlation available condition path rest self))"

definition choice_error_is_available ::
    "control_selector \<Rightarrow> node_name btree_set \<Rightarrow> completion_predicate \<Rightarrow> diagnostic_path_segment list
       \<Rightarrow> analyzer \<Rightarrow> bool \<times> analyzer" where
  "choice_error_is_available selector available condition path self =
     (if cs_source selector \<noteq> SourceError then (False, self)
      else first_available_correlation available condition path
        (case bm_get (an_choice_execution_correlations self) (cs_name selector) of
           Some correlations \<Rightarrow> correlations | None \<Rightarrow> []) self)"

text \<open>A method that checks: whether the check held, and the analyzer with the diagnostic if it did not.\<close>

definition require ::
    "bool \<Rightarrow> graph_diagnostic_code \<Rightarrow> string \<Rightarrow> diagnostic_path_segment list \<Rightarrow> node_name list \<Rightarrow> analyzer
       \<Rightarrow> bool \<times> analyzer" where
  "require condition code message path related self =
     (condition, emit_if (\<not> condition) code message path related self)"

text \<open>Checks in sequence, none skipped: \<^verbatim>\<open>valid &= self.check(...)\<close>.\<close>

definition check_each :: "('a \<Rightarrow> analyzer \<Rightarrow> bool \<times> analyzer) \<Rightarrow> 'a list \<Rightarrow> analyzer \<Rightarrow> bool \<times> analyzer" where
  "check_each check xs self = (case map_state check xs self of (valid, self) \<Rightarrow> (list_all id valid, self))"

lemma check_each_cong [fundef_cong]:
  assumes "xs = ys" and "s = t" and "\<And>x s. x \<in> set ys \<Longrightarrow> f x s = g x s"
  shows "check_each f xs s = check_each g ys t"
  unfolding check_each_def by (simp add: map_state_cong[OF assms])

definition validate_selector_labels ::
    "graph_diagnostic_code \<Rightarrow> diagnostic_path_segment list \<Rightarrow> control_selector \<Rightarrow> enum_label list \<Rightarrow> string
       \<Rightarrow> analyzer \<Rightarrow> bool \<times> analyzer" where
  "validate_selector_labels code path selector labels message self =
     require (case selector_domain self selector of
                Some domain \<Rightarrow> list_all (\<lambda>label. label \<in> set domain) labels | None \<Rightarrow> True)
       code message (with_field path ''labels'') [cs_name selector] self"

definition validate_k_of_n_intersections ::
    "graph_diagnostic_code \<Rightarrow> diagnostic_path_segment list \<Rightarrow> control_selector list \<Rightarrow> enum_label list
       \<Rightarrow> analyzer \<Rightarrow> bool \<times> analyzer" where
  "validate_k_of_n_intersections code path selectors labels self =
     check_each (\<lambda>selector self.
       require (case selector_domain self selector of
                  Some domain \<Rightarrow> list_ex (\<lambda>label. label \<in> set domain) labels | None \<Rightarrow> True)
         code ''k_of_n labels do not intersect a selector domain'' (with_field path ''labels'') [cs_name selector] self)
       selectors self"

definition validate_k_of_n_labels ::
    "graph_diagnostic_code \<Rightarrow> diagnostic_path_segment list \<Rightarrow> u64 \<Rightarrow> control_selector list \<Rightarrow> enum_label list
       \<Rightarrow> analyzer \<Rightarrow> bool \<times> analyzer" where
  "validate_k_of_n_labels code path number selectors labels self =
     (case require (number \<le> length selectors) code ''k_of_n count exceeds selector count''
             (with_field path ''count'') [] self of (counted, self) \<Rightarrow>
      let union = bs_of_list (concat (List.map_filter (selector_domain self) selectors)) in
      case require (list_all (\<lambda>label. label \<in> set union) labels) code
             ''k_of_n labels exceed the selectors' combined closed domains'' (with_field path ''labels'')
             (map cs_name selectors) self of (covered, self) \<Rightarrow>
      case validate_k_of_n_intersections code path selectors labels self of (intersecting, self) \<Rightarrow>
      (counted \<and> covered \<and> intersecting, self))"

definition validate_k_of_map_labels ::
    "graph_diagnostic_code \<Rightarrow> diagnostic_path_segment list \<Rightarrow> u64 \<Rightarrow> control_selector \<Rightarrow> enum_label list
       \<Rightarrow> analyzer \<Rightarrow> bool \<times> analyzer" where
  "validate_k_of_map_labels code path number selector labels self =
     (case (case map_control_cardinality self selector of
              Some cardinality \<Rightarrow>
                require (number \<le> cardinality) code ''k_of_map count exceeds the selected map bound''
                  (with_field path ''count'') [cs_name selector] self
            | None \<Rightarrow>
                require False code ''k_of_map selector has no bounded enclosing map scope''
                  (with_field path ''value'') [cs_name selector] self) of (scoped, self) \<Rightarrow>
      case validate_selector_labels code path selector labels
             ''k_of_map labels exceed the selector's closed domain'' self of (labelled, self) \<Rightarrow>
      (scoped \<and> labelled, self))"

lemma guard_member_size: "g \<in> set gs \<Longrightarrow> size g < Suc (size_list size gs)"
  using size_list_estimation'[of g gs "size g" size] by simp

function validate_guard_labels ::
    "graph_diagnostic_code \<Rightarrow> guard \<Rightarrow> diagnostic_path_segment list \<Rightarrow> analyzer \<Rightarrow> bool \<times> analyzer" where
  "validate_guard_labels code (GIn selector labels) path self =
     validate_selector_labels code path selector labels ''guard labels exceed the selector's closed domain'' self"
| "validate_guard_labels code (GAll guards) path self =
     check_each (\<lambda>(i, child). validate_guard_labels code child (indexed_field_path path ''guards'' i))
       (enumerate 0 guards) self"
| "validate_guard_labels code (GAny guards) path self =
     check_each (\<lambda>(i, child). validate_guard_labels code child (indexed_field_path path ''guards'' i))
       (enumerate 0 guards) self"
| "validate_guard_labels code (GNot inner) path self =
     validate_guard_labels code inner (with_field path ''guard'') self"
| "validate_guard_labels code (GKOfN number selectors labels) path self =
     validate_k_of_n_labels code path number selectors labels self"
| "validate_guard_labels code (GKOfMap number selector labels) path self =
     validate_k_of_map_labels code path number selector labels self"
  by pat_completeness auto
termination
  by (relation "measure (\<lambda>(_, g, _). size g)") (auto dest: enumerate_memberD intro!: guard_member_size)

definition validate_guard ::
    "guard \<Rightarrow> node_name btree_set \<Rightarrow> diagnostic_path_segment list \<Rightarrow> graph_diagnostic_code \<Rightarrow> analyzer \<Rightarrow> bool \<times> analyzer" where
  "validate_guard g available path code self =
     (case check_each (\<lambda>(selector, map_aggregate, condition) self.
        case (if cs_name selector \<in> set available
                 \<or> map_aggregate \<and> (case map_owner self (cs_name selector) of
                     Some owner \<Rightarrow> owner \<in> set available | None \<Rightarrow> False)
              then (True, self)
              else choice_error_is_available selector available condition path self) of (dominates, self) \<Rightarrow>
        case require dominates UndefinedRead
               (''control selector '' @ cs_name selector @ '' does not dominate this guard'') path [cs_name selector] self of
          (dominates, self) \<Rightarrow>
        case require (selector_domain self selector \<noteq> None) code
               (''illegal control selector for node '' @ cs_name selector) path [cs_name selector] self of
          (legal, self) \<Rightarrow> (dominates \<and> legal, self)) (guarded_selector_uses g) self of (valid, self) \<Rightarrow>
      case validate_guard_labels code g path self of (labelled, self) \<Rightarrow> (valid \<and> labelled, self))"

section \<open>Choices\<close>

definition validate_choice_guards ::
    "node_name \<Rightarrow> choice_branches \<Rightarrow> flow \<Rightarrow> diagnostic_path_segment list \<Rightarrow> analyzer \<Rightarrow> bool \<times> analyzer" where
  "validate_choice_guards name branches incoming path self =
     check_each (\<lambda>(i, when, _) self.
       case validate_guard when (fl_available incoming) (guard_path path ''branches'' i ''when'') ChoiceExhaustiveness self of
         (valid, self) \<Rightarrow>
           (valid, fold (\<lambda>selector. add_dependency name (cs_name selector)) (guard_selectors when) self))
       (enumerate 0 branches) self"

definition residual_assignments :: "choice_branches \<Rightarrow> nat \<Rightarrow> assignment list \<Rightarrow> assignment list" where
  "residual_assignments branches i assignments =
     filter (\<lambda>assignment. evaluate_guard (fst (branches ! i)) assignment
       \<and> \<not> list_ex (\<lambda>(when, _). evaluate_guard when assignment) (take i branches)) assignments"

definition uncovered_assignments :: "choice_branches \<Rightarrow> assignment list \<Rightarrow> assignment list" where
  "uncovered_assignments branches assignments =
     filter (\<lambda>assignment. \<not> list_ex (\<lambda>(when, _). evaluate_guard when assignment) branches) assignments"

definition choice_branch_outcomes ::
    "node_name \<Rightarrow> choice_branches \<Rightarrow> assignment list \<Rightarrow> diagnostic_path_segment list \<Rightarrow> analyzer
       \<Rightarrow> outcome_refinement list \<times> bool list \<times> analyzer" where
  "choice_branch_outcomes name branches assignments path self =
     (let residuals = map (\<lambda>i. residual_assignments branches i assignments) [0..<length branches]
      in (map outcome_refinement residuals, map (\<lambda>residual. residual \<noteq> []) residuals,
          fold (\<lambda>(i, residual). emit_if (residual = []) ChoiceExhaustiveness
            ''choice branch is unreachable after excluding earlier branches''
            (guard_path path ''branches'' i ''when'') [name]) (enumerate 0 residuals) self))"

definition record_choice_exhaustiveness ::
    "node_name \<Rightarrow> graph_node option \<Rightarrow> assignment list \<Rightarrow> diagnostic_path_segment list \<Rightarrow> analyzer
       \<Rightarrow> bool \<times> bool \<times> analyzer" where
  "record_choice_exhaustiveness name otherwise uncovered path self =
     (let exhaustive = (otherwise \<noteq> None \<or> uncovered = []);
          self = emit_if (otherwise = None \<and> \<not> exhaustive) ChoiceExhaustiveness
            ''choice branches do not cover every legal control assignment'' (with_field path ''branches'') [name] self;
          otherwise_reachable = (otherwise \<noteq> None \<and> uncovered \<noteq> []);
          self = (case otherwise of
            Some node \<Rightarrow> emit_if (\<not> otherwise_reachable) ChoiceExhaustiveness
              ''choice otherwise is unreachable because earlier branches cover every legal control assignment''
              (named_child_path path ''otherwise'' (node_name node)) [name] self
          | None \<Rightarrow> self);
          self = (if exhaustive then self\<lparr>an_exhaustive_choices := bs_insert name (an_exhaustive_choices self)\<rparr> else self)
      in (exhaustive, otherwise_reachable, self))"

definition is_fail_node :: "graph_node \<Rightarrow> bool" where
  "is_fail_node node = (case node of FailNode _ \<Rightarrow> True | _ \<Rightarrow> False)"

definition validate_choice ::
    "node_name \<Rightarrow> choice_branches \<Rightarrow> graph_node option \<Rightarrow> flow \<Rightarrow> diagnostic_path_segment list \<Rightarrow> analyzer
       \<Rightarrow> choice_control \<times> analyzer" where
  "validate_choice name branches otherwise incoming path self =
     (case validate_choice_guards name branches incoming path self of (valid, self) \<Rightarrow>
      if \<not> valid then (choice_control_unknown branches otherwise, self)
      else
        let only_failures = (list_all (\<lambda>(_, node). is_fail_node node) branches
              \<and> (case otherwise of Some node \<Rightarrow> is_fail_node node | None \<Rightarrow> True));
            conditions = List.map_filter (\<lambda>name.
              if \<not> only_failures \<and> name \<in> set (fl_available incoming)
              then map_option (Pair name) (bm_get (an_choice_write_conditions self) name) else None)
              (bm_keys (fl_outcome_writes incoming));
            guards = map fst branches @ concat (map (\<lambda>(_, condition). completion_guards condition) conditions)
        in case assignments_for_guards guards (with_field path ''branches'') self of
             (None, self) \<Rightarrow> (choice_control_unknown branches otherwise, self)
           | (Some assignments, self) \<Rightarrow>
               (case choice_branch_outcomes name branches assignments path self of (outcomes, reachable, self) \<Rightarrow>
                let uncovered = uncovered_assignments branches assignments in
                case record_choice_exhaustiveness name otherwise uncovered path self of
                  (exhaustive, otherwise_reachable, self) \<Rightarrow>
                    (refine_common_choice_writes
                       \<lparr>cc_branches = outcomes, cc_branch_reachable = reachable,
                        cc_branch_completion = choice_branch_completion_predicates branches,
                        cc_otherwise = outcome_refinement uncovered, cc_otherwise_reachable = otherwise_reachable,
                        cc_otherwise_completion = choice_otherwise_completion_predicate branches,
                        cc_exhaustive = exhaustive\<rparr> branches assignments conditions, self)))"

end
