(* ===== verification/Verifier_Bindings.thy ===== *)
theory Verifier_Bindings
  imports Verifier_Guards
begin

text \<open>
  The checks of one node in the graph verifier: input and write bindings (\<^verbatim>\<open>analyzer_bindings.rs\<close>), joins,
  parallel writes and promotions (\<^verbatim>\<open>analyzer_parallel.rs\<close>), the merge of parallel branches
  (\<^verbatim>\<open>analyzer_parallel_flow.rs\<close>) and the indexed writes of maps (\<^verbatim>\<open>analyzer_maps.rs\<close>).
\<close>

definition or_option :: "'a option \<Rightarrow> 'a option \<Rightarrow> 'a option" where
  "or_option left right = (case left of Some x \<Rightarrow> Some x | None \<Rightarrow> right)"

type_synonym typed_paths = "(field_path, payload_type) btree_map"

record node_context =
  nx_incoming :: flow
  nx_state :: payload_type
  nx_item :: "payload_type option"
  nx_map_index_targets :: "typed_paths option"

definition target_override :: "typed_paths option \<Rightarrow> field_path \<Rightarrow> payload_type option" where
  "target_override targets path = (case targets of None \<Rightarrow> None | Some targets \<Rightarrow> bm_get targets path)"

section \<open>Data selectors\<close>

definition report_selected ::
    "payload_type option \<Rightarrow> bool \<Rightarrow> diagnostic_path_segment list \<Rightarrow> analyzer \<Rightarrow> analyzer" where
  "report_selected selected_type defined path self =
     (if selected_type = None
      then emit SchemaSafety ''selector path does not exist in its payload type'' path [] self
      else emit_if (\<not> defined) UndefinedRead ''selector path is not definitely defined on every reaching path'' path [] self)"

definition validate_data_selector ::
    "data_selector \<Rightarrow> node_context \<Rightarrow> diagnostic_path_segment list \<Rightarrow> analyzer \<Rightarrow> payload_type option \<times> analyzer" where
  "validate_data_selector selector context path self =
     (case selector of
        SelState selected \<Rightarrow>
          (let defined = fl_defined (nx_incoming context);
               override = target_override (nx_map_index_targets context) selected;
               indexed = (case (override, bm_get defined selected) of
                  (Some expected, Some actual) \<Rightarrow> if compatible_types actual expected then Some actual else None
                | _ \<Rightarrow> None);
               is_present = (if override \<noteq> None then indexed \<noteq> None
                  else is_required_path (nx_state context) selected \<or> is_defined defined selected);
               selected_type = or_option override (path_type (nx_state context) selected)
           in (or_option (if override \<noteq> None then indexed else bm_get defined selected) selected_type,
               report_selected selected_type is_present path self))
      | SelItem selected \<Rightarrow>
          (case nx_item context of
             None \<Rightarrow> (None, emit InvalidGraphShape ''item selector is legal only inside a map body'' path [] self)
           | Some payload \<Rightarrow>
               (path_type payload selected,
                report_selected (path_type payload selected) (is_required_path payload selected) path self)))"

section \<open>Input bindings\<close>

definition validate_target_overlap ::
    "field_path \<Rightarrow> field_path list \<Rightarrow> diagnostic_path_segment list \<Rightarrow> string \<Rightarrow> node_name list \<Rightarrow> analyzer \<Rightarrow> analyzer" where
  "validate_target_overlap target previous path message related_nodes self =
     emit_if (list_ex (\<lambda>other. paths_overlap other target) previous) WriteConflict message path related_nodes self"

definition validate_input_binding ::
    "payload_type \<Rightarrow> node_context \<Rightarrow> diagnostic_path_segment list \<Rightarrow> input_binding \<Rightarrow> analyzer \<Rightarrow> analyzer" where
  "validate_input_binding target_payload context path binding self =
     (let target = path_type target_payload (ib_target binding);
          self = emit_if (target = None) SchemaSafety ''binding target does not exist in declared payload''
            (with_field path ''target'') [] self
      in case validate_data_selector (ib_value binding) context (with_field path ''value'') self of (source, self) \<Rightarrow>
         emit_if (case (source, target) of
             (Some source, Some target) \<Rightarrow> \<not> is_subtype_of source target | _ \<Rightarrow> False)
           SchemaSafety ''binding source is not a subtype of its target'' path [] self)"

definition validate_required_binding_targets ::
    "field_path list \<Rightarrow> payload_type \<Rightarrow> diagnostic_path_segment list \<Rightarrow> string \<Rightarrow> analyzer \<Rightarrow> analyzer" where
  "validate_required_binding_targets targets target_payload path field self =
     fold (\<lambda>needed. emit_if (\<not> list_ex (\<lambda>target. path_is_prefix target needed) targets) UndefinedRead
         (''required payload target '' @ display_field_path needed @ '' is not defined by a binding'')
         (with_field path field) [])
       (required_leaf_paths target_payload) self"

definition constructible_payload :: "payload_type \<Rightarrow> bool" where
  "constructible_payload payload = (case payload of PNull \<Rightarrow> True | PRecord _ \<Rightarrow> True | _ \<Rightarrow> False)"

definition validate_input_bindings ::
    "input_binding list \<Rightarrow> payload_type \<Rightarrow> node_context \<Rightarrow> diagnostic_path_segment list \<Rightarrow> string \<Rightarrow> string
       \<Rightarrow> analyzer \<Rightarrow> analyzer" where
  "validate_input_bindings bindings target_payload context path field target_field self =
     (let self = emit_if (\<not> constructible_payload target_payload) SchemaSafety
            ''v1 field bindings cannot construct a whole non-record payload; use null or record''
            (with_field path target_field) [] self;
          self = fold (\<lambda>(i, binding) self.
            let binding_path = indexed_field_path path field i
            in validate_target_overlap (ib_target binding) (map ib_target (take i bindings))
                 (with_field binding_path ''target'') ''bindings have overlapping targets'' []
                 (validate_input_binding target_payload context binding_path binding self)) (enumerate 0 bindings) self
      in validate_required_binding_targets (map ib_target bindings) target_payload path field self)"

section \<open>Write bindings\<close>

definition selector_verifier :: "analyzer \<Rightarrow> node_name \<Rightarrow> verifier_node option" where
  "selector_verifier self name =
     (case bm_get (an_nodes self) name of
        Some info \<Rightarrow> (case ni_node info of VerifierNode verifier \<Rightarrow> Some verifier | _ \<Rightarrow> None)
      | None \<Rightarrow> None)"

definition output_selector ::
    "analyzer \<Rightarrow> node_output_selector \<Rightarrow> node_name \<Rightarrow> payload_type \<Rightarrow> selected_output option" where
  "output_selector self selector current current_output =
     (case nos_channel selector of
        ChannelOut \<Rightarrow>
          if nos_node selector = current then selected_output_path current_output (nos_path selector)
          else
            (case bm_get (an_nodes self) (nos_node selector) of
               None \<Rightarrow> None
             | Some info \<Rightarrow>
                 (case executable_output (ni_node info) of
                    None \<Rightarrow> None | Some payload \<Rightarrow> selected_output_path payload (nos_path selector)))
      | ChannelSignal \<Rightarrow>
          (case selector_verifier self (nos_node selector) of
             None \<Rightarrow> None
           | Some verifier \<Rightarrow>
               map_option (\<lambda>type. \<lparr>so_value_type = type, so_definitely_present = True\<rparr>)
                 (signal_path_type verifier (nos_path selector)))
      | ChannelDiagnostic \<Rightarrow>
          (case selector_verifier self (nos_node selector) of
             None \<Rightarrow> None
           | Some verifier \<Rightarrow> selected_output_path (vn_diagnostic verifier) (nos_path selector)))"

definition validate_output_availability ::
    "node_output_selector \<Rightarrow> node_name \<Rightarrow> flow \<Rightarrow> diagnostic_path_segment list \<Rightarrow> analyzer \<Rightarrow> analyzer" where
  "validate_output_availability selector current incoming path self =
     (let node = nos_node selector;
          self = emit_if (node \<noteq> current \<and> (node \<notin> set (fl_available incoming) \<or> node \<in> set (fl_unavailable incoming)))
            UndefinedRead (''node output '' @ node @ '' does not dominate this read'')
            (diagnostic_field_path path [''value'']) [node, current] self
      in emit_if (node \<in> set (fl_failed incoming)) UndefinedRead
           (''node output '' @ node @ '' is unavailable on its error path'')
           (diagnostic_field_path path [''value'']) [node, current] self)"

definition validate_output_selector ::
    "node_output_selector \<Rightarrow> node_name \<Rightarrow> flow \<Rightarrow> payload_type \<Rightarrow> diagnostic_path_segment list \<Rightarrow> analyzer
       \<Rightarrow> selected_output option \<times> analyzer" where
  "validate_output_selector selector current incoming current_output path self =
     (let self = validate_output_availability selector current incoming path self;
          selected = output_selector self selector current current_output
      in (selected, emit_if (selected = None) SchemaSafety ''node output selector channel or path is invalid''
            (with_field path ''value'') [nos_node selector] self))"

definition validate_write_binding ::
    "node_name \<Rightarrow> payload_type \<Rightarrow> node_context \<Rightarrow> diagnostic_path_segment list \<Rightarrow> write_binding \<Rightarrow> analyzer
       \<Rightarrow> write_fact option \<times> analyzer" where
  "validate_write_binding name payload context path binding self =
     (let declared_target = path_type (nx_state context) (wb_target binding);
          self = emit_if (declared_target = None) SchemaSafety ''write target does not exist in node state''
            (with_field path ''target'') [name] self;
          target = or_option (target_override (nx_map_index_targets context) (wb_target binding)) declared_target
      in case validate_output_selector (wb_value binding) name (nx_incoming context) payload path self of (producer, self) \<Rightarrow>
         (case (producer, target) of
            (Some producer, Some _) \<Rightarrow>
              Some \<lparr>wf_value_type = so_value_type producer,
                    wf_guaranteed_paths = guaranteed_write_paths (wb_target binding) (so_value_type producer)
                      (so_definitely_present producer)\<rparr>
          | _ \<Rightarrow> None,
          emit_if (case (producer, target) of
              (Some producer, Some target) \<Rightarrow> \<not> is_subtype_of (so_value_type producer) target | _ \<Rightarrow> False)
            SchemaSafety ''write value is not a subtype of its state target'' path
            [nos_node (wb_value binding), name] self))"

definition validate_write_bindings ::
    "write_binding list \<Rightarrow> node_name \<Rightarrow> payload_type \<Rightarrow> node_context \<Rightarrow> diagnostic_path_segment list \<Rightarrow> analyzer
       \<Rightarrow> writes \<times> analyzer" where
  "validate_write_bindings bindings name payload context path self =
     fold (\<lambda>(i, binding) (writes, self).
       let binding_path = indexed_field_path path ''writeBindings'' i
       in case validate_write_binding name payload context binding_path binding self of (producer, self) \<Rightarrow>
          ((case producer of Some write \<Rightarrow> bm_insert (wb_target binding) write writes | None \<Rightarrow> writes),
           validate_target_overlap (wb_target binding) (map wb_target (take i bindings))
             (diagnostic_field_path binding_path [''target'']) ''executable has overlapping write targets'' [name] self))
       (enumerate 0 bindings) ([], self)"

definition validate_executable ::
    "node_name \<Rightarrow> payload_type \<Rightarrow> payload_type \<Rightarrow> input_binding list \<Rightarrow> write_binding list \<Rightarrow> node_context
       \<Rightarrow> diagnostic_path_segment list \<Rightarrow> analyzer \<Rightarrow> effects \<times> analyzer" where
  "validate_executable name input payload input_bindings write_bindings context path self =
     (let self = validate_input_bindings input_bindings input context path ''inputBindings'' ''input'' self
      in case validate_write_bindings write_bindings name payload context path self of (writes, self) \<Rightarrow>
         (effects_default\<lparr>ef_definite_nodes := [name],
                          ef_possible_writes := writes,
                          ef_possible_write_types := bm_map_values (\<lambda>_ write. [wf_value_type write]) writes,
                          ef_outcome_writes := (if writes = [] then [] else [(name, writes)]),
                          ef_outcome_order := (if writes = [] then [] else [name]),
                          ef_exit_failed := bs_insert name (fl_failed (nx_incoming context)),
                          ef_falls_through := True,
                          ef_completion := Always\<rparr>, self))"

section \<open>Promotions\<close>

datatype promotion_rule = PromoteDefinite | PromoteEveryAlternative | PromoteMap

definition promotion_undefined_message :: "promotion_rule \<Rightarrow> string" where
  "promotion_undefined_message rule =
     (case rule of
        PromoteEveryAlternative \<Rightarrow> ''promoted path is not defined by every completing alternative''
      | PromoteMap \<Rightarrow> ''map promoted path has no indexed body write''
      | PromoteDefinite \<Rightarrow> ''promoted path is not definitely defined on completion'')"

record promotion_context =
  pc_group_state :: payload_type
  pc_enclosing_state :: payload_type
  pc_promoted :: "field_path list"
  pc_effects :: effects
  pc_path :: "diagnostic_path_segment list"
  pc_rule :: promotion_rule
  pc_target_overrides :: "typed_paths option"

definition guarantees :: "writes \<Rightarrow> field_path \<Rightarrow> bool" where
  "guarantees writes path = list_ex (\<lambda>(_, write). bm_has (wf_guaranteed_paths write) path) writes"

definition promotion_is_defined :: "promotion_context \<Rightarrow> field_path \<Rightarrow> bool" where
  "promotion_is_defined context path =
     (let written = guarantees (ef_definite_writes (pc_effects context)) path;
          by_outcome = list_ex (\<lambda>(_, writes). guarantees writes path) (ef_outcome_writes (pc_effects context))
      in if pc_rule context = PromoteMap then written \<or> by_outcome
         else
           let indexed = (target_override (pc_target_overrides context) path \<noteq> None);
               needed = is_required_path (pc_group_state context) path
           in (\<not> indexed \<and> needed) \<or> written \<or> (\<not> needed \<and> by_outcome))"

definition validate_promotion_target ::
    "promotion_context \<Rightarrow> field_path \<Rightarrow> diagnostic_path_segment list \<Rightarrow> analyzer \<Rightarrow> analyzer" where
  "validate_promotion_target context path diagnostic_path self =
     (case or_option (target_override (pc_target_overrides context) path) (path_type (pc_enclosing_state context) path) of
        None \<Rightarrow> emit SchemaSafety ''promoted state path does not exist in enclosing state'' diagnostic_path [] self
      | Some target \<Rightarrow>
          emit_if (case bm_get (ef_possible_write_types (pc_effects context)) path of
              Some sources \<Rightarrow> list_ex (\<lambda>source. \<not> is_subtype_of source target) sources | None \<Rightarrow> False)
            SchemaSafety ''promoted value is not a subtype of its enclosing state target'' diagnostic_path [] self)"

definition is_array_type :: "payload_type \<Rightarrow> bool" where
  "is_array_type type = (case type of PArray _ \<Rightarrow> True | _ \<Rightarrow> False)"

definition validate_promotion :: "promotion_context \<Rightarrow> nat \<Rightarrow> field_path \<Rightarrow> analyzer \<Rightarrow> analyzer" where
  "validate_promotion context i path self =
     (let diagnostic_path = indexed_field_path (pc_path context) ''promotedStatePaths'' i
      in case path_type (pc_group_state context) path of
           None \<Rightarrow> emit SchemaSafety ''promoted state path does not exist in group state'' diagnostic_path [] self
         | Some type \<Rightarrow>
             (let self = validate_promotion_target context path diagnostic_path self
              in if pc_rule context = PromoteMap \<and> \<not> is_array_type type then self
                 else emit_if (\<not> promotion_is_defined context path) UndefinedRead
                        (promotion_undefined_message (pc_rule context)) diagnostic_path [] self))"

definition restrict_promotions :: "promotion_context \<Rightarrow> analyzer \<Rightarrow> effects \<times> analyzer" where
  "restrict_promotions context self =
     (retain_promoted_writes (pc_effects context) (bs_of_list (pc_promoted context)),
      fold (\<lambda>(i, path). validate_promotion context i path) (enumerate 0 (pc_promoted context)) self)"

section \<open>Joins and parallel writes\<close>

definition promoted_branch_types :: "effects list \<Rightarrow> field_path \<Rightarrow> payload_type list" where
  "promoted_branch_types branches promoted =
     concat (map (\<lambda>branch. case bm_get (ef_possible_write_types branch) promoted of
       Some types \<Rightarrow> types | None \<Rightarrow> []) branches)"

text \<open>The pairs of a list, the earlier element first.\<close>

fun ordered_pairs :: "'a list \<Rightarrow> ('a \<times> 'a) list" where
  "ordered_pairs [] = []"
| "ordered_pairs (x # xs) = map (Pair x) xs @ ordered_pairs xs"

definition validate_parallel_promotion_types ::
    "node_name \<Rightarrow> field_path list \<Rightarrow> effects list \<Rightarrow> diagnostic_path_segment list \<Rightarrow> analyzer \<Rightarrow> analyzer" where
  "validate_parallel_promotion_types name promoted branches path self =
     fold (\<lambda>(i, promoted).
       fold (\<lambda>(left, right). emit_if (\<not> compatible_types left right) SchemaSafety
           ''parallel promotion has incompatible branch value types''
           (indexed_field_path path ''promotedStatePaths'' i) [name])
         (ordered_pairs (promoted_branch_types branches promoted))) (enumerate 0 promoted) self"

definition validate_parallel_write_conflicts ::
    "join \<Rightarrow> graph_node list \<Rightarrow> effects list \<Rightarrow> diagnostic_path_segment list \<Rightarrow> analyzer \<Rightarrow> analyzer" where
  "validate_parallel_write_conflicts join nodes branches path self =
     (if join \<noteq> JAll then self
      else fold (\<lambda>((left, left_node), (right, right_node)).
        fold (\<lambda>(left_path, right_path). emit_if (paths_overlap left_path right_path) WriteConflict
            ''parallel all branches have overlapping writes'' (with_field path ''branches'')
            [node_name left_node, node_name right_node])
          (List.product (bm_keys (ef_possible_writes left)) (bm_keys (ef_possible_writes right))))
        (ordered_pairs (zip branches nodes)) self)"

definition collect_descendant_names :: "graph_node list \<Rightarrow> node_name btree_set" where
  "collect_descendant_names branches = fold collect_names branches []"

definition validate_join ::
    "node_name \<Rightarrow> graph_node list \<Rightarrow> join \<Rightarrow> flow \<Rightarrow> diagnostic_path_segment list \<Rightarrow> analyzer \<Rightarrow> analyzer" where
  "validate_join name branches join incoming path self =
     (case join of
        JFirst when \<Rightarrow>
          snd (validate_guard when (bs_extend (fl_available incoming) (collect_descendant_names branches))
            (diagnostic_field_path path [''join'', ''when'']) InvalidGraphShape
            (fold (\<lambda>selector. add_dependency name (cs_name selector)) (guard_selectors when) self))
      | JQuorum number \<Rightarrow>
          emit_if (number > length branches) InvalidGraphShape ''parallel quorum exceeds branch count''
            (diagnostic_field_path path [''join'', ''count'']) [name] self
      | _ \<Rightarrow> self)"

definition first_guard_available_on_branch :: "analyzer \<Rightarrow> guard \<Rightarrow> effects \<Rightarrow> flow \<Rightarrow> bool" where
  "first_guard_available_on_branch self when branch incoming =
     list_all (\<lambda>(selector, map_aggregate).
       cs_name selector \<in> set (fl_available incoming)
       \<or> cs_name selector \<in> set (ef_definite_nodes branch)
       \<or> map_aggregate \<and> (case map_owner self (cs_name selector) of
           Some owner \<Rightarrow> owner \<in> set (ef_definite_nodes branch) | None \<Rightarrow> False)) (guard_selector_uses when)"

definition assume_continuation :: "effects \<Rightarrow> effects" where
  "assume_continuation effects = effects\<lparr>ef_falls_through := True, ef_completion := Always\<rparr>"

text \<open>The branches whose predicate holds under an assignment.\<close>

definition holding_branches :: "completion_predicate list \<Rightarrow> assignment \<Rightarrow> scenario" where
  "holding_branches predicates assignment =
     filter (\<lambda>i. completion_evaluate (predicates ! i) assignment) [0..<length predicates]"

definition correlate_join :: "node_name \<Rightarrow> parallel_join_correlation \<Rightarrow> analyzer \<Rightarrow> analyzer" where
  "correlate_join name correlation self =
     self\<lparr>an_parallel_join_correlations := bm_insert name correlation (an_parallel_join_correlations self)\<rparr>"

definition merge_first_parallel ::
    "node_name \<Rightarrow> effects list \<Rightarrow> flow \<Rightarrow> diagnostic_path_segment list \<Rightarrow> guard \<Rightarrow> analyzer \<Rightarrow> effects \<times> analyzer" where
  "merge_first_parallel name branches incoming path when self =
     (let satisfiers = map (\<lambda>branch.
            if first_guard_available_on_branch self when branch incoming
            then completion_all [ef_completion branch, WhenGuard when] else Never) branches;
          satisfaction = completion_any satisfiers;
          all_completions = completion_all (map ef_completion branches);
          self = correlate_join name (First satisfaction all_completions) self;
          settlement = completion_any [satisfaction, all_completions]
      in case assignments_for_completion_predicates [satisfaction, all_completions] (with_field path ''join'') self of
           (None, self) \<Rightarrow> (assume_continuation (merge_parallel_scenarios branches 1 []), self)
         | (Some assignments, self) \<Rightarrow>
             (let scenarios = bs_of_list (filter (\<lambda>s. s \<noteq> []) (map (holding_branches satisfiers) assignments))
              in ((merge_parallel_scenarios branches 1 scenarios)
                    \<lparr>ef_falls_through := list_ex (completion_evaluate settlement) assignments,
                     ef_completion := settlement\<rparr>, self)))"

definition merge_parallel ::
    "node_name \<Rightarrow> join \<Rightarrow> effects list \<Rightarrow> flow \<Rightarrow> diagnostic_path_segment list \<Rightarrow> analyzer \<Rightarrow> effects \<times> analyzer" where
  "merge_parallel name join branches incoming path self =
     (case join of
        JFirst when \<Rightarrow> merge_first_parallel name branches incoming path when self
      | _ \<Rightarrow>
          (let needed = parallel_required_completions join (length branches);
               predicates = map ef_completion branches
           in if needed > length branches
              then (assume_continuation (merge_parallel_scenarios branches needed []), self)
              else
                let completion = completion_at_least needed predicates;
                    self = correlate_join name (Joined completion) self
                in case assignments_for_completion_predicates predicates (with_field path ''join'') self of
                     (None, self) \<Rightarrow> (assume_continuation (merge_parallel_scenarios branches needed []), self)
                   | (Some assignments, self) \<Rightarrow>
                       (let scenarios = bs_of_list (filter (\<lambda>s. length s \<ge> needed)
                              (map (holding_branches predicates) assignments))
                        in ((merge_parallel_scenarios branches needed scenarios)\<lparr>ef_completion := completion\<rparr>, self))))"

section \<open>Maps\<close>

definition validate_map_selector ::
    "node_name \<Rightarrow> payload_type \<Rightarrow> data_selector \<Rightarrow> node_context \<Rightarrow> diagnostic_path_segment list \<Rightarrow> analyzer
       \<Rightarrow> payload_type option \<times> analyzer" where
  "validate_map_selector name state over context path self =
     (case validate_data_selector over (context\<lparr>nx_state := state\<rparr>) (with_field path ''over'') self of
        (Some (PArray items), self) \<Rightarrow> (Some items, self)
      | (Some _, self) \<Rightarrow>
          (None, emit SchemaSafety ''map selector must resolve to an array'' (with_field path ''over'') [name] self)
      | (None, self) \<Rightarrow> (None, self))"

definition validate_map_item_limit ::
    "node_name \<Rightarrow> positive_integer \<Rightarrow> diagnostic_path_segment list \<Rightarrow> analyzer \<Rightarrow> analyzer" where
  "validate_map_item_limit name max_items path self =
     emit_if (max_items > FULL_V1_MAX_MAP_ITEMS) CeilingExceeded
       (''maxItems exceeds full-v1 limit '' @ u64_to_string FULL_V1_MAX_MAP_ITEMS) (with_field path ''maxItems'') [name] self"

definition map_index_targets ::
    "node_name \<Rightarrow> payload_type \<Rightarrow> field_path list \<Rightarrow> node_context \<Rightarrow> diagnostic_path_segment list \<Rightarrow> analyzer
       \<Rightarrow> typed_paths \<times> typed_paths \<times> analyzer" where
  "map_index_targets name state promoted_paths context path self =
     fold (\<lambda>(i, promoted) (inherited, own, self).
       case or_option (target_override (nx_map_index_targets context) promoted) (path_type state promoted) of
         Some (PArray items) \<Rightarrow> (bm_insert promoted items inherited, bm_insert promoted items own, self)
       | Some _ \<Rightarrow>
           (bm_remove promoted inherited, own,
            emit SchemaSafety ''map promoted state path must be an array for indexed body writes''
              (indexed_field_path path ''promotedStatePaths'' i) [name] self)
       | None \<Rightarrow> (inherited, own, self)) (enumerate 0 promoted_paths)
       (case nx_map_index_targets context of Some targets \<Rightarrow> targets | None \<Rightarrow> [], [], self)"

definition map_effects :: "node_name \<Rightarrow> flow \<Rightarrow> effects \<Rightarrow> effects" where
  "map_effects name incoming body =
     effects_default\<lparr>ef_definite_nodes := [name],
                     ef_exit_failed := bs_extend (fl_failed incoming) (ef_exit_failed body),
                     ef_falls_through := True, ef_completion := Always\<rparr>"

definition indexed_map_write :: "field_path \<Rightarrow> write_fact \<Rightarrow> write_fact" where
  "indexed_map_write target element =
     (let type = PArray (wf_value_type element)
      in \<lparr>wf_value_type = type, wf_guaranteed_paths = guaranteed_write_paths target type True\<rparr>)"

definition collect_definite_indexed_write :: "effects \<Rightarrow> field_path \<Rightarrow> effects \<Rightarrow> effects" where
  "collect_definite_indexed_write body target effects =
     (case bm_get (ef_definite_writes body) target of
        None \<Rightarrow> effects
      | Some write \<Rightarrow>
          (let write = indexed_map_write target write
           in effects\<lparr>ef_definite_writes := bm_insert target write (ef_definite_writes effects),
                      ef_possible_writes := bm_insert target write (ef_possible_writes effects)\<rparr>))"

definition collect_outcome_indexed_writes :: "effects \<Rightarrow> field_path \<Rightarrow> effects \<Rightarrow> effects" where
  "collect_outcome_indexed_writes body target effects =
     fold (\<lambda>name effects.
       case outcome_write_at name target body of
         None \<Rightarrow> effects
       | Some write \<Rightarrow>
           effects\<lparr>ef_outcome_writes :=
                     bm_entry name [] (bm_insert target (indexed_map_write target write)) (ef_outcome_writes effects),
                   ef_outcome_order := (if name \<in> set (ef_outcome_order effects) then ef_outcome_order effects
                     else ef_outcome_order effects @ [name])\<rparr>) (ef_outcome_order body) effects"

definition collect_possible_indexed_write :: "effects \<Rightarrow> field_path \<Rightarrow> payload_type \<Rightarrow> effects \<Rightarrow> effects" where
  "collect_possible_indexed_write body target expected_element_type effects =
     (let types = map PArray (case bm_get (ef_possible_write_types body) target of Some types \<Rightarrow> types | None \<Rightarrow> []);
          effects = (if types = [] then effects
            else effects\<lparr>ef_possible_write_types := bm_insert target types (ef_possible_write_types effects)\<rparr>)
      in case bm_get (ef_possible_writes body) target of
           Some write \<Rightarrow>
             effects\<lparr>ef_possible_writes := bm_insert target (indexed_map_write target write) (ef_possible_writes effects)\<rparr>
         | None \<Rightarrow>
             if list_ex (\<lambda>(_, writes). bm_has writes target) (ef_outcome_writes effects)
             then effects\<lparr>ef_possible_writes := bm_insert target
                    \<lparr>wf_value_type = PArray expected_element_type,
                     wf_guaranteed_paths = guaranteed_write_paths target (PArray expected_element_type) True\<rparr>
                    (ef_possible_writes effects)\<rparr>
             else effects)"

definition collect_indexed_map_writes :: "effects \<Rightarrow> field_path list \<Rightarrow> typed_paths \<Rightarrow> effects \<Rightarrow> effects" where
  "collect_indexed_map_writes body promoted_paths index_targets effects =
     fold (\<lambda>promoted effects.
       case bm_get index_targets promoted of
         None \<Rightarrow> effects
       | Some expected_element_type \<Rightarrow>
           collect_possible_indexed_write body promoted expected_element_type
             (collect_outcome_indexed_writes body promoted (collect_definite_indexed_write body promoted effects)))
       promoted_paths effects"

definition correlate_map_execution :: "node_name \<Rightarrow> node_name \<Rightarrow> completion_predicate \<Rightarrow> analyzer \<Rightarrow> analyzer" where
  "correlate_map_execution name owner presence self =
     self\<lparr>an_map_execution_correlations :=
       bm_insert name \<lparr>ec_owner = owner, ec_presence = presence\<rparr> (an_map_execution_correlations self)\<rparr>"

definition presence_after :: "graph_node \<Rightarrow> position \<Rightarrow> completion_predicate \<Rightarrow> analyzer \<Rightarrow> completion_predicate" where
  "presence_after child position presence self =
     (if may_fall_through position self
      then completion_all [presence,
             case bm_get (an_node_completion self) (node_name child) of Some completion \<Rightarrow> completion | None \<Rightarrow> Always]
      else Never)"

type_synonym execution_collector =
  "graph_node \<Rightarrow> position \<Rightarrow> completion_predicate \<Rightarrow> analyzer \<Rightarrow> analyzer"

definition collect_map_children ::
    "execution_collector \<Rightarrow> node_name \<Rightarrow> graph_node \<Rightarrow> position \<Rightarrow> completion_predicate \<Rightarrow> analyzer \<Rightarrow> analyzer" where
  "collect_map_children collect owner node position presence self =
     (case node of
        StepNode _ \<Rightarrow> correlate_map_execution (node_name node) owner presence self
      | VerifierNode _ \<Rightarrow> correlate_map_execution (node_name node) owner presence self
      | SeqNode _ _ children _ \<Rightarrow>
          snd (fold (\<lambda>(i, child) (presence, self).
            let self = collect child (position @ [i]) presence self
            in (presence_after child (position @ [i]) presence self, self)) (enumerate 0 children) (presence, self))
      | ChoiceNode _ _ branches otherwise _ \<Rightarrow>
          (let self = fold (\<lambda>(i, node) self.
                 collect node (position @ [i])
                   (completion_all [presence, choice_branch_completion_predicates branches ! i]) self)
                 (enumerate 0 (map snd branches)) self
           in case otherwise of
                Some node \<Rightarrow> collect node (position @ [length branches])
                  (completion_all [presence, choice_otherwise_completion_predicate branches]) self
              | None \<Rightarrow> self)
      | ParNode name _ branches _ join \<Rightarrow>
          (let self = correlate_map_execution name owner presence self
           in if parallel_required_completions join (length branches) = length branches
              then fold (\<lambda>(i, branch) self. collect branch (position @ [i]) presence self) (enumerate 0 branches) self
              else self)
      | LoopNode name _ body _ _ _ _ \<Rightarrow>
          collect body (position @ [0]) presence (correlate_map_execution name owner presence self)
      | MapNode name _ _ _ _ _ \<Rightarrow> correlate_map_execution name owner presence self
      | SucceedNode _ \<Rightarrow> self
      | FailNode _ \<Rightarrow> self)"

lemma fold_enumerate_cong:
  assumes "\<And>i x s. x \<in> set xs \<Longrightarrow> f i x s = g i x s"
  shows "fold (\<lambda>(i, x). f i x) (enumerate n xs) s = fold (\<lambda>(i, x). g i x) (enumerate n xs) s"
  by (rule fold_cong) (auto simp: fun_eq_iff assms dest!: enumerate_memberD)

lemma collect_map_children_cong [fundef_cong]:
  assumes "owner = owner'" "node = node'" "position = position'" "presence = presence'" "self = self'"
    and eq: "\<And>c p q s. c \<in> set (child_nodes node') \<Longrightarrow> f c p q s = g c p q s"
  shows "collect_map_children f owner node position presence self = collect_map_children g owner' node' position' presence' self'"
  unfolding assms(1-5)
proof (cases node')
  case (SeqNode n st children ps)
  have "fold (\<lambda>(i, child) (presence, self). let self = f child (position' @ [i]) presence self
            in (presence_after child (position' @ [i]) presence self, self)) (enumerate 0 children) (presence', self') =
        fold (\<lambda>(i, child) (presence, self). let self = g child (position' @ [i]) presence self
            in (presence_after child (position' @ [i]) presence self, self)) (enumerate 0 children) (presence', self')"
    by (rule fold_enumerate_cong) (use SeqNode in \<open>auto simp: eq\<close>)
  then show "collect_map_children f owner' node' position' presence' self' = collect_map_children g owner' node' position' presence' self'"
    by (simp add: collect_map_children_def SeqNode)
next
  case (ChoiceNode n st branches otherwise ps)
  have "fold (\<lambda>(i, node) self. f node (position' @ [i])
            (completion_all [presence', choice_branch_completion_predicates branches ! i]) self) (enumerate 0 (map snd branches)) self' =
        fold (\<lambda>(i, node) self. g node (position' @ [i])
            (completion_all [presence', choice_branch_completion_predicates branches ! i]) self) (enumerate 0 (map snd branches)) self'"
    by (rule fold_enumerate_cong) (use ChoiceNode in \<open>auto simp: eq\<close>)
  then show "collect_map_children f owner' node' position' presence' self' = collect_map_children g owner' node' position' presence' self'"
    using eq by (cases otherwise) (simp_all add: collect_map_children_def ChoiceNode)
next
  case (ParNode n st branches ps join)
  have "fold (\<lambda>(i, branch) self. f branch (position' @ [i]) presence' self) (enumerate 0 branches) s =
        fold (\<lambda>(i, branch) self. g branch (position' @ [i]) presence' self) (enumerate 0 branches) s" for s
    by (rule fold_enumerate_cong) (use ParNode in \<open>auto simp: eq\<close>)
  then show "collect_map_children f owner' node' position' presence' self' = collect_map_children g owner' node' position' presence' self'"
    by (simp add: collect_map_children_def ParNode Let_def)
qed (use eq in \<open>simp_all add: collect_map_children_def\<close>)

function collect_map_node_execution ::
    "node_name \<Rightarrow> graph_node \<Rightarrow> position \<Rightarrow> completion_predicate \<Rightarrow> analyzer \<Rightarrow> analyzer" where
  "collect_map_node_execution owner node position presence self =
     collect_map_children (collect_map_node_execution owner) owner node position presence self"
  by pat_completeness auto
termination
  by (relation "measure (\<lambda>(_, n, _). size n)") (auto dest: child_nodes_size)

declare collect_map_node_execution.simps [simp del]

end
