(* ===== verification/Worker_Registry.thy ===== *)
theory Worker_Registry
  imports Run_Plan
begin

text \<open>
  Worker descriptors (\<^verbatim>\<open>crates/openengine-cluster-protocol/src/worker.rs\<close>) and the check that every
  executable node of a graph is compatible with the descriptor its worker resolves to
  (\<^verbatim>\<open>crates/openengine-cluster-server/src/worker_registry.rs\<close>). A registry is the function \<open>resolve\<close>.
\<close>

section \<open>Descriptors\<close>

definition RUNTIME_WORKER_ERRORS :: "worker_error_code list" where
  "RUNTIME_WORKER_ERRORS = [Timeout, Crash, Malformed, Refusal]"

definition BUILTIN_PROTOCOL :: string where "BUILTIN_PROTOCOL = ''builtin''"
definition BUILTIN_VERSION :: string where "BUILTIN_VERSION = ''1''"
definition BUILTIN_PROFILE :: string where "BUILTIN_PROFILE = ''openengine.worker.builtin/v1''"

record worker_protocol_binding =
  wp_protocol :: string
  wp_version :: string
  wp_profile :: string

definition builtin_v1 :: worker_protocol_binding where
  "builtin_v1 = \<lparr>wp_protocol = BUILTIN_PROTOCOL, wp_version = BUILTIN_VERSION, wp_profile = BUILTIN_PROFILE\<rparr>"

definition validate_binding_component ::
    "string \<Rightarrow> nat \<Rightarrow> bool \<Rightarrow> string \<Rightarrow> worker_contract_error + unit" where
  "validate_binding_component value maximum allow_slash kind =
     (let valid_body = (\<lambda>c. is_ascii_alphanumeric c \<or> c \<in> {CHR ''.'', CHR ''_'', CHR ''-''}
                            \<or> (allow_slash \<and> c = CHR ''/''))
      in if value = [] \<or> length value > maximum \<or> \<not> is_ascii_alphanumeric (hd value)
            \<or> \<not> is_ascii_alphanumeric (last value) \<or> \<not> list_all valid_body value
         then Inl (InvalidProtocolBindingComponent kind)
         else Inr ())"

definition binding_validate :: "worker_protocol_binding \<Rightarrow> worker_contract_error + unit" where
  "binding_validate self =
     bind_res (validate_binding_component (wp_protocol self) 64 False ''protocol'') (\<lambda>_.
     bind_res (validate_binding_component (wp_version self) 64 False ''version'') (\<lambda>_.
     bind_res (validate_binding_component (wp_profile self) 256 True ''profile'') (\<lambda>_.
     let uses_reserved_builtin =
           wp_protocol self = BUILTIN_PROTOCOL \<or> starts_with ''openengine.worker.builtin/'' (wp_profile self)
     in if uses_reserved_builtin
           \<and> (wp_protocol self, wp_version self, wp_profile self)
               \<noteq> (BUILTIN_PROTOCOL, BUILTIN_VERSION, BUILTIN_PROFILE)
        then Inl UnsupportedProtocolBinding
        else Inr ())))"

datatype autonomy_policy = Strict

record capability_policy =
  cp_autonomy :: autonomy_policy
  cp_permission_policy :: policy_ref

record verifier_contract =
  vc_signals :: "(field_name, enum_set) btree_map"
  vc_diagnostic :: payload_type

record worker_contract =
  wc_input :: payload_type
  wc_output :: payload_type
  wc_verifier :: "verifier_contract option"
  wc_errors :: "worker_error_code list"

record artifact_result_profile =
  ap_allowed_type_ids :: "string list"
  ap_allowed_media_types :: "string list"
  ap_minimum_redaction :: redaction_class

record worker_descriptor =
  wd_worker :: worker_ref
  wd_graph_profiles :: "graph_profile list"
  wd_binding :: worker_protocol_binding
  wd_contract :: worker_contract
  wd_capability_policy :: capability_policy
  wd_artifact_profile :: artifact_result_profile
  wd_credential_requirements :: "policy_ref list"

definition BoundedString256_new :: "string \<Rightarrow> string + string" where
  "BoundedString256_new value =
     (if value = [] then Inl ''value must not be empty''
      else if length (chars value) > 256 \<or> has_control value
      then Inl ''value must be at most 256 non-control characters''
      else Inr value)"

definition MediaType_new :: "string \<Rightarrow> string + string" where
  "MediaType_new value =
     (if value = [] then Inl ''media type must not be empty''
      else case BoundedString256_new value of Inl _ \<Rightarrow> Inl ''media type is invalid'' | Inr v \<Rightarrow> Inr v)"

definition TypeId_new :: "string \<Rightarrow> string + string" where
  "TypeId_new value =
     (case validate_stable_ref value of Inl _ \<Rightarrow> Inl ''type ID is invalid'' | Inr _ \<Rightarrow> Inr value)"

definition require_unique :: "'a list \<Rightarrow> string \<Rightarrow> worker_contract_error + unit" where
  "require_unique values kind =
     (if list_all (\<lambda>(index, value). \<not> list_ex (\<lambda>prior. prior = value) (take index values)) (enumerate 0 values)
      then Inr () else Inl (ContractDuplicate kind))"

definition require_unique_nonempty :: "'a list \<Rightarrow> string \<Rightarrow> worker_contract_error + unit" where
  "require_unique_nonempty values kind =
     (if values = [] then Inl (ContractEmpty kind) else require_unique values kind)"

definition validate_collections :: "worker_descriptor \<Rightarrow> worker_contract_error + unit" where
  "validate_collections self =
     bind_res (require_unique_nonempty (wd_graph_profiles self) ''graph profiles'') (\<lambda>_.
     bind_res (require_unique_nonempty (wc_errors (wd_contract self)) ''worker errors'') (\<lambda>_.
     if length (wc_errors (wd_contract self)) \<noteq> length RUNTIME_WORKER_ERRORS
        \<or> \<not> list_all (\<lambda>code. code \<in> set (wc_errors (wd_contract self))) RUNTIME_WORKER_ERRORS
     then Inl IncompleteRuntimeErrors
     else
       bind_res (require_unique_nonempty (ap_allowed_type_ids (wd_artifact_profile self)) ''artifact type IDs'') (\<lambda>_.
       bind_res (require_unique_nonempty (ap_allowed_media_types (wd_artifact_profile self)) ''artifact media types'') (\<lambda>_.
       require_unique (wd_credential_requirements self) ''credential handles''))))"

definition validate_builtin_binding :: "worker_descriptor \<Rightarrow> worker_contract_error + unit" where
  "validate_builtin_binding self =
     (if wp_protocol (wd_binding self) = BUILTIN_PROTOCOL \<and> wd_credential_requirements self \<noteq> []
      then Inl InvalidBuiltinBinding else Inr ())"

definition descriptor_validate :: "worker_descriptor \<Rightarrow> worker_contract_error + unit" where
  "descriptor_validate self =
     bind_res (binding_validate (wd_binding self)) (\<lambda>_.
     bind_res (validate_collections self) (\<lambda>_.
     validate_builtin_binding self))"

definition worker_contract_error_text :: "worker_contract_error \<Rightarrow> string" where
  "worker_contract_error_text error =
     (case error of
        UnsupportedProtocolBinding \<Rightarrow> ''unsupported worker protocol version/profile binding''
      | InvalidProtocolBindingComponent kind \<Rightarrow> ''invalid worker binding '' @ kind
      | InvalidOpaqueHandle \<Rightarrow> ''invalid opaque registry handle''
      | ContractEmpty kind \<Rightarrow> kind @ '' must not be empty''
      | ContractDuplicate kind \<Rightarrow> kind @ '' must not contain duplicates''
      | IncompleteRuntimeErrors \<Rightarrow> ''worker errors must contain timeout, crash, malformed, and refusal''
      | InvalidBuiltinBinding \<Rightarrow>
          ''openengine.worker.builtin/v1 descriptors must not declare credential requirements''
      | InvalidFailurePair \<Rightarrow> ''worker error code and failure reason are inconsistent'')"

section \<open>Compatibility of a graph with a registry\<close>

datatype worker_registry_error = WorkerNotFound worker_ref | VersionUnavailable worker_ref

definition registry_error_text :: "worker_registry_error \<Rightarrow> string" where
  "registry_error_text error =
     (case error of
        WorkerNotFound worker \<Rightarrow> ''worker descriptor not found: '' @ worker
      | VersionUnavailable worker \<Rightarrow> ''worker descriptor version is unavailable: '' @ worker)"

type_synonym worker_registry = "worker_ref \<Rightarrow> worker_registry_error + worker_descriptor"

datatype worker_compatibility_code =
    CodeRegistry | CodeDescriptorContract | CodeDescriptorIdentity | CodeGraphProfile | CodeInput
  | CodeOutput | CodeVerifierContract | CodeSignalField | CodeSignalLabels | CodeDiagnostic

record worker_compatibility_diagnostic =
  wx_code :: worker_compatibility_code
  wx_worker :: worker_ref
  wx_path :: "node_name list"
  wx_message :: string

datatype worker_node =
    WorkerStep worker_ref payload_type payload_type
  | WorkerVerifier worker_ref payload_type payload_type "(field_name, enum_set) btree_map" payload_type

type_synonym located_worker = "node_name list \<times> worker_node"

definition worker_node_of :: "graph_node \<Rightarrow> worker_node option" where
  "worker_node_of node =
     (case node of
        StepNode step \<Rightarrow> Some (WorkerStep (st_worker step) (st_input step) (st_output step))
      | VerifierNode verifier \<Rightarrow>
          Some (WorkerVerifier (vn_worker verifier) (vn_input verifier) (vn_output verifier)
                 (vn_signals verifier) (vn_diagnostic verifier))
      | _ \<Rightarrow> None)"

fun located_parts :: "worker_node \<Rightarrow> worker_ref \<times> payload_type \<times> payload_type" where
  "located_parts (WorkerStep worker input output) = (worker, input, output)"
| "located_parts (WorkerVerifier worker input output _ _) = (worker, input, output)"

function collect_workers :: "graph_node \<Rightarrow> node_name list \<Rightarrow> located_worker list" where
  "collect_workers node parent =
     (let path = parent @ [node_name node]
      in (case worker_node_of node of Some worker \<Rightarrow> [(path, worker)] | None \<Rightarrow> [])
         @ concat (map (\<lambda>child. collect_workers child path) (child_nodes node)))"
  by pat_completeness auto
termination
  by (relation "measure (\<lambda>(n, _). size n)") (auto dest: child_nodes_size)

declare collect_workers.simps [simp del]

definition check_verifier ::
    "node_name list \<Rightarrow> worker_ref \<Rightarrow> (field_name, enum_set) btree_map \<Rightarrow> payload_type \<Rightarrow> verifier_contract
       \<Rightarrow> worker_compatibility_diagnostic list" where
  "check_verifier path worker signals diagnostic descriptor =
     (let report = (\<lambda>code message. \<lparr>wx_code = code, wx_worker = worker, wx_path = path, wx_message = message\<rparr>)
      in concat (map (\<lambda>(field, labels).
           case bm_get signals field of
             None \<Rightarrow> [report CodeSignalField (''descriptor signal '' @ field @ '' is absent from graph declaration'')]
           | Some graph_labels \<Rightarrow>
               if \<not> enum_is_subset labels graph_labels
               then [report CodeSignalLabels (''descriptor labels for signal '' @ field @ '' exceed graph labels'')]
               else []) (vc_signals descriptor))
         @ (if \<not> is_subtype_of (vc_diagnostic descriptor) diagnostic
            then [report CodeDiagnostic ''descriptor diagnostic is not a subtype of graph diagnostic'']
            else []))"

definition check_descriptor ::
    "graph_profile \<Rightarrow> located_worker \<Rightarrow> worker_descriptor \<Rightarrow> worker_compatibility_diagnostic list" where
  "check_descriptor profile located descriptor =
     (case located of (path, node) \<Rightarrow>
      case located_parts node of (worker, input, output) \<Rightarrow>
      let report = (\<lambda>code message. \<lparr>wx_code = code, wx_worker = worker, wx_path = path, wx_message = message\<rparr>)
      in case descriptor_validate descriptor of
           Inl error \<Rightarrow>
             [report CodeDescriptorContract (''invalid resolved descriptor: '' @ worker_contract_error_text error)]
         | Inr _ \<Rightarrow>
             (if wd_worker descriptor \<noteq> worker
              then [report CodeDescriptorIdentity (''registry returned descriptor '' @ wd_worker descriptor
                      @ '' for requested '' @ worker)] else [])
             @ (if profile \<notin> set (wd_graph_profiles descriptor)
                then [report CodeGraphProfile (''descriptor does not allow graph profile '' @ graph_profile_str profile)]
                else [])
             @ (if \<not> is_subtype_of input (wc_input (wd_contract descriptor))
                then [report CodeInput ''graph input is not a subtype of descriptor input''] else [])
             @ (if \<not> is_subtype_of (wc_output (wd_contract descriptor)) output
                then [report CodeOutput ''descriptor output is not a subtype of graph output''] else [])
             @ (case node of
                  WorkerStep _ _ _ \<Rightarrow>
                    if wc_verifier (wd_contract descriptor) \<noteq> None
                    then [report CodeVerifierContract ''step node resolved to a verifier-only descriptor''] else []
                | WorkerVerifier _ _ _ signals diagnostic \<Rightarrow>
                    (case wc_verifier (wd_contract descriptor) of
                       Some contract \<Rightarrow> check_verifier path worker signals diagnostic contract
                     | None \<Rightarrow>
                         [report CodeVerifierContract ''verifier node resolved to a non-verifier descriptor''])))"

definition check_located ::
    "worker_registry \<Rightarrow> graph_profile \<Rightarrow> located_worker \<Rightarrow> worker_compatibility_diagnostic list" where
  "check_located resolve profile located =
     (let worker = fst (located_parts (snd located))
      in case resolve worker of
           Inr descriptor \<Rightarrow> check_descriptor profile located descriptor
         | Inl error \<Rightarrow>
             [\<lparr>wx_code = CodeRegistry, wx_worker = worker, wx_path = fst located,
               wx_message = registry_error_text error\<rparr>])"

definition check_graph_workers ::
    "graph_spec \<Rightarrow> worker_registry \<Rightarrow> worker_compatibility_diagnostic list + unit" where
  "check_graph_workers graph resolve =
     (let diagnostics = concat (map (check_located resolve (gs_profile graph)) (collect_workers (gs_root graph) []))
      in if diagnostics = [] then Inr () else Inl diagnostics)"

section \<open>Laws\<close>

lemma require_unique_distinct: "distinct values \<Longrightarrow> require_unique values kind = Inr ()"
  by (fastforce simp: require_unique_def list_all_iff list_ex_iff in_set_conv_nth nth_enumerate_eq
      nth_eq_iff_index_eq)

text \<open>The located workers are the executable nodes of the tree.\<close>

lemma collect_workers_nodes:
  "map snd (collect_workers root parent) = List.map_filter worker_node_of (all_nodes root)"
proof (induction root arbitrary: parent rule: graph_induct)
  case (node n)
  have "map snd (concat (map (\<lambda>child. collect_workers child path) (child_nodes n)))
      = concat (map (\<lambda>child. List.map_filter worker_node_of (all_nodes child)) (child_nodes n))" for path
    using node.IH by (simp add: map_concat comp_def cong: map_cong)
  then show ?case
    by (subst collect_workers.simps, subst all_nodes.simps)
      (simp add: Let_def map_filter_def filter_concat map_concat comp_def split: option.splits)
qed

end
