(* ===== verification/Verifier.thy ===== *)
theory Verifier
  imports Verifier_Bindings Worker_Registry
begin

text \<open>
  The graph verifier (\<^verbatim>\<open>crates/openengine-cluster-server/src/graph_verifier.rs\<close>): the validation of a node
  against the flow that reaches it (\<^verbatim>\<open>analyzer_nodes.rs\<close>), the analysis of a graph
  (\<^verbatim>\<open>analyzer_index.rs\<close>, \<open>analyze\<close>) and the verification that turns a specified graph into a compiled one.
\<close>

type_synonym node_validator = "graph_node \<Rightarrow> position \<Rightarrow> node_context \<Rightarrow> analyzer \<Rightarrow> effects \<times> analyzer"

section \<open>Leaves\<close>

definition validate_step ::
    "step_node \<Rightarrow> node_context \<Rightarrow> diagnostic_path_segment list \<Rightarrow> analyzer \<Rightarrow> effects \<times> analyzer" where
  "validate_step step context path self =
     validate_executable (st_name step) (st_input step) (st_output step) (st_input_bindings step)
       (st_write_bindings step) context path self"

definition validate_verifier ::
    "verifier_node \<Rightarrow> node_context \<Rightarrow> diagnostic_path_segment list \<Rightarrow> analyzer \<Rightarrow> effects \<times> analyzer" where
  "validate_verifier verifier context path self =
     validate_executable (vn_name verifier) (vn_input verifier) (vn_output verifier) (vn_input_bindings verifier)
       (vn_write_bindings verifier) context path self"

definition validate_succeed ::
    "succeed_node \<Rightarrow> node_context \<Rightarrow> diagnostic_path_segment list \<Rightarrow> analyzer \<Rightarrow> effects \<times> analyzer" where
  "validate_succeed terminal context path self =
     (terminal_effects (su_name terminal) (nx_incoming context),
      validate_input_bindings (su_bindings terminal) (su_output terminal) context path ''bindings'' ''output'' self)"

definition validate_group_state ::
    "graph_node \<Rightarrow> node_context \<Rightarrow> diagnostic_path_segment list \<Rightarrow> analyzer \<Rightarrow> analyzer" where
  "validate_group_state node context path self =
     emit_if (case node_state node of
         Some state \<Rightarrow> \<not> is_subtype_with_definitions (nx_state context) state (fl_defined (nx_incoming context))
       | None \<Rightarrow> False)
       SchemaSafety ''incoming state is not a subtype of the group's declared state''
       (with_field path ''state'') [node_name node] self"

definition promotion ::
    "payload_type \<Rightarrow> node_context \<Rightarrow> field_path list \<Rightarrow> effects \<Rightarrow> diagnostic_path_segment list \<Rightarrow> promotion_rule
       \<Rightarrow> promotion_context" where
  "promotion state context promoted effects path rule =
     \<lparr>pc_group_state = state, pc_enclosing_state = nx_state context, pc_promoted = promoted, pc_effects = effects,
      pc_path = path, pc_rule = rule, pc_target_overrides = nx_map_index_targets context\<rparr>"

section \<open>Sequences\<close>

record sequence_state =
  sq_flow :: flow
  sq_effects :: effects
  sq_falls_through :: bool
  sq_completion :: completion_predicate

definition sequence_satisfiable ::
    "bool \<Rightarrow> completion_predicate \<Rightarrow> diagnostic_path_segment list \<Rightarrow> analyzer \<Rightarrow> bool \<times> analyzer" where
  "sequence_satisfiable falls_through completion path self =
     (if \<not> falls_through then (False, self)
      else case completion_is_satisfiable completion path self of
        (satisfiable, self) \<Rightarrow> (case satisfiable of Some b \<Rightarrow> b | None \<Rightarrow> True, self))"

text \<open>The effects of a sequence extended by the effects of its next child.\<close>

definition sequence_effects :: "analyzer \<Rightarrow> effects \<Rightarrow> effects \<Rightarrow> effects" where
  "sequence_effects self effects child =
     (case merge_outcome_writes
             (invalidate_choice_writes self (ef_outcome_writes effects) (ef_possible_writes child))
             (ef_outcome_order effects) (ef_outcome_writes child) (ef_outcome_order child) of
        (outcome_writes, outcome_order) \<Rightarrow>
          effects\<lparr>ef_definite_nodes := bs_extend (ef_definite_nodes effects) (ef_definite_nodes child),
                  ef_definite_writes := compose_writes (ef_definite_writes effects) (ef_definite_writes child),
                  ef_possible_writes := bm_extend (ef_possible_writes effects) (ef_possible_writes child),
                  ef_possible_write_types :=
                    merge_possible_write_types (ef_possible_write_types effects) (ef_possible_write_types child),
                  ef_outcome_writes := outcome_writes,
                  ef_outcome_order := outcome_order,
                  ef_parallel_definition_effects :=
                    merge_parallel_definition_effects (ef_parallel_definition_effects effects)
                      (ef_definite_writes child) (ef_parallel_definition_effects child),
                  ef_unavailable_nodes := bs_extend (ef_unavailable_nodes effects) (ef_unavailable_nodes child),
                  ef_conditional_nodes :=
                    merge_conditional_nodes (ef_conditional_nodes effects) (ef_conditional_nodes child)\<rparr>)"

definition validate_seq_child ::
    "node_validator \<Rightarrow> payload_type \<Rightarrow> node_context \<Rightarrow> diagnostic_path_segment list \<Rightarrow> position \<Rightarrow> nat \<Rightarrow> graph_node
       \<Rightarrow> sequence_state \<times> analyzer \<Rightarrow> sequence_state \<times> analyzer" where
  "validate_seq_child validate state context path position i child = (\<lambda>(seq, self).
     case validate child (position @ [i]) (context\<lparr>nx_incoming := sq_flow seq, nx_state := state\<rparr>) self of
       (child_effects, self) \<Rightarrow>
         (let flow' = (sq_flow seq)\<lparr>fl_outcome_writes :=
                invalidate_choice_writes self (fl_outcome_writes (sq_flow seq)) (ef_possible_writes child_effects)\<rparr>;
              flow' = (if sq_falls_through seq then apply_effects flow' child_effects else flow');
              completion = completion_all [sq_completion seq, ef_completion child_effects];
              effects = sequence_effects self (sq_effects seq) child_effects
          in case sequence_satisfiable (sq_falls_through seq \<and> ef_falls_through child_effects) completion path self of
               (falls_through, self) \<Rightarrow>
                 (\<lparr>sq_flow = flow',
                   sq_effects = (if falls_through then effects_resolve_successful_writes effects (fl_failed flow') else effects),
                   sq_falls_through = falls_through, sq_completion = completion\<rparr>, self)))"

definition validate_seq ::
    "node_validator \<Rightarrow> node_name \<Rightarrow> payload_type \<Rightarrow> graph_node list \<Rightarrow> field_path list \<Rightarrow> node_context
       \<Rightarrow> diagnostic_path_segment list \<Rightarrow> position \<Rightarrow> analyzer \<Rightarrow> effects \<times> analyzer" where
  "validate_seq validate name state children promoted context path position self =
     (case fold (\<lambda>(i, child). validate_seq_child validate state context path position i child) (enumerate 0 children)
             (\<lparr>sq_flow = nx_incoming context, sq_effects = effects_default, sq_falls_through = True,
               sq_completion = Always\<rparr>, self) of
        (seq, self) \<Rightarrow>
          restrict_promotions (promotion state context promoted
            ((sq_effects seq)\<lparr>ef_exit_failed := fl_failed (sq_flow seq),
                              ef_falls_through := sq_falls_through seq,
                              ef_completion := sq_completion seq,
                              ef_definite_nodes := bs_insert name (ef_definite_nodes (sq_effects seq))\<rparr>)
            path PromoteDefinite) self)"

section \<open>Choices\<close>

text \<open>One route of a choice: the node under the flow that the control refines, and its effects restricted to
  the assignments that take the route.\<close>

definition validate_route ::
    "node_validator \<Rightarrow> payload_type \<Rightarrow> node_context \<Rightarrow> diagnostic_path_segment list \<Rightarrow> position \<Rightarrow> graph_node
       \<Rightarrow> outcome_refinement \<Rightarrow> completion_predicate \<Rightarrow> analyzer \<Rightarrow> effects \<times> analyzer" where
  "validate_route validate state context path position node refinement completion self =
     (let route_flow = refinement_apply refinement (nx_incoming context)
      in case validate node position (context\<lparr>nx_incoming := route_flow, nx_state := state\<rparr>) self of (effects, self) \<Rightarrow>
         case restrict_completion effects completion path self of (effects, self) \<Rightarrow>
           (effects\<lparr>ef_unavailable_nodes := bs_extend (ef_unavailable_nodes effects) (fl_unavailable route_flow)\<rparr>, self))"

definition validate_choice_branch ::
    "node_validator \<Rightarrow> payload_type \<Rightarrow> node_context \<Rightarrow> diagnostic_path_segment list \<Rightarrow> position
       \<Rightarrow> choice_control \<Rightarrow> nat \<Rightarrow> graph_node \<Rightarrow> analyzer \<Rightarrow> effects option \<times> analyzer" where
  "validate_choice_branch validate state context path position control i node self =
     (if \<not> cc_branch_reachable control ! i then (None, self)
      else
        case validate_route validate state context path (position @ [i]) node (cc_branches control ! i)
               (cc_branch_completion control ! i) self of (effects, self) \<Rightarrow> (Some effects, self))"

definition validate_choice_branches ::
    "node_validator \<Rightarrow> payload_type \<Rightarrow> choice_branches \<Rightarrow> node_context \<Rightarrow> diagnostic_path_segment list \<Rightarrow> position
       \<Rightarrow> choice_control \<Rightarrow> analyzer \<Rightarrow> effects list \<times> analyzer" where
  "validate_choice_branches validate state branches context path position control self =
     (case map_state (\<lambda>(i, node). validate_choice_branch validate state context path position control i node)
             (enumerate 0 (map snd branches)) self of
        (alternatives, self) \<Rightarrow> (List.map_filter id alternatives, self))"

definition validate_otherwise ::
    "node_validator \<Rightarrow> payload_type \<Rightarrow> nat \<Rightarrow> graph_node option \<Rightarrow> node_context \<Rightarrow> diagnostic_path_segment list
       \<Rightarrow> position \<Rightarrow> choice_control \<Rightarrow> analyzer \<Rightarrow> effects list \<times> analyzer" where
  "validate_otherwise validate state i otherwise context path position control self =
     (case (if cc_otherwise_reachable control then otherwise else None) of
        Some node \<Rightarrow>
          (case validate_route validate state context path (position @ [i]) node (cc_otherwise control)
                  (cc_otherwise_completion control) self of (effects, self) \<Rightarrow> ([effects], self))
      | None \<Rightarrow>
          if \<not> cc_exhaustive control
          then ([effects_default\<lparr>ef_unavailable_nodes := fl_unavailable (nx_incoming context),
                                 ef_exit_failed := fl_failed (nx_incoming context),
                                 ef_falls_through := True,
                                 ef_completion := cc_otherwise_completion control\<rparr>], self)
          else ([], self))"

definition validate_choice_node ::
    "node_validator \<Rightarrow> node_name \<Rightarrow> payload_type \<Rightarrow> choice_branches \<Rightarrow> graph_node option \<Rightarrow> field_path list
       \<Rightarrow> node_context \<Rightarrow> diagnostic_path_segment list \<Rightarrow> position \<Rightarrow> analyzer \<Rightarrow> effects \<times> analyzer" where
  "validate_choice_node validate name state branches otherwise promoted context path position self =
     (case validate_choice name branches otherwise (nx_incoming context) path self of (control, self) \<Rightarrow>
      let self = self\<lparr>an_choice_reachability := bm_insert name (reachability control) (an_choice_reachability self)\<rparr> in
      case validate_choice_branches validate state branches context path position control self of (alternatives, self) \<Rightarrow>
      case validate_otherwise validate state (length branches) otherwise context path position control self of (rest, self) \<Rightarrow>
      let alternatives = alternatives @ rest in
      case correlate_choice_writes name alternatives (merge_alternatives alternatives) self of (effects, self) \<Rightarrow>
        restrict_promotions (promotion state context promoted
          (effects\<lparr>ef_definite_nodes := bs_insert name (ef_definite_nodes effects)\<rparr>) path PromoteEveryAlternative) self)"

section \<open>Parallel groups, maps and loops\<close>

definition validate_par ::
    "node_validator \<Rightarrow> node_name \<Rightarrow> payload_type \<Rightarrow> graph_node list \<Rightarrow> field_path list \<Rightarrow> join \<Rightarrow> node_context
       \<Rightarrow> diagnostic_path_segment list \<Rightarrow> position \<Rightarrow> analyzer \<Rightarrow> effects \<times> analyzer" where
  "validate_par validate name state nodes promoted join context path position self =
     (let self = validate_join name nodes join (nx_incoming context) path self in
      case map_state (\<lambda>(i, branch). validate branch (position @ [i]) (context\<lparr>nx_state := state\<rparr>)) (enumerate 0 nodes) self of
        (branches, self) \<Rightarrow>
      let self = validate_parallel_write_conflicts join nodes branches path
            (validate_parallel_promotion_types name promoted branches path self) in
      case merge_parallel name join branches (nx_incoming context) path self of (effects, self) \<Rightarrow>
      let success_only_nodes = ef_definite_nodes effects;
          effects = effects\<lparr>ef_definite_nodes := bs_insert name (ef_definite_nodes effects),
            ef_conditional_nodes := bm_entry name [] (\<lambda>nodes. bs_extend nodes success_only_nodes)
              (ef_conditional_nodes effects)\<rparr> in
      case restrict_promotions (promotion state context promoted effects path
             (if join = JAll then PromoteDefinite else PromoteEveryAlternative)) self of (effects, self) \<Rightarrow>
      let owned = writes_without_parallel_owners (ef_definite_writes effects) (ef_parallel_definition_effects effects);
          own_effects = (case parallel_definition_effect name (fl_defined (nx_incoming context)) owned of
            Some effect \<Rightarrow> [effect] | None \<Rightarrow> [])
      in (effects\<lparr>ef_parallel_definition_effects := ef_parallel_definition_effects effects @ own_effects,
                  ef_exit_failed := bs_insert name (ef_exit_failed effects)\<rparr>, self))"

definition validate_map ::
    "node_validator \<Rightarrow> node_name \<Rightarrow> payload_type \<Rightarrow> graph_node \<Rightarrow> data_selector \<Rightarrow> positive_integer \<Rightarrow> field_path list
       \<Rightarrow> node_context \<Rightarrow> diagnostic_path_segment list \<Rightarrow> position \<Rightarrow> analyzer \<Rightarrow> effects \<times> analyzer" where
  "validate_map validate name state body over max_items promoted context path position self =
     (let self = validate_map_item_limit name max_items path self in
      case map_index_targets name state promoted context path self of (index_targets, own_index_targets, self) \<Rightarrow>
      case validate_map_selector name state over context path self of (item_type, self) \<Rightarrow>
      case validate body (position @ [0]) \<lparr>nx_incoming = nx_incoming context, nx_state = state, nx_item = item_type,
             nx_map_index_targets = Some index_targets\<rparr> self of (body_effects, self) \<Rightarrow>
      let self = collect_map_node_execution name body (position @ [0]) Always self in
      restrict_promotions (promotion state context promoted
        (collect_indexed_map_writes body_effects promoted own_index_targets
           (map_effects name (nx_incoming context) body_effects)) path PromoteMap) self)"

definition validate_loop_exit ::
    "node_name \<Rightarrow> guard option \<Rightarrow> node_context \<Rightarrow> diagnostic_path_segment list \<Rightarrow> effects \<Rightarrow> analyzer \<Rightarrow> analyzer" where
  "validate_loop_exit name until context path body self =
     (case until of
        None \<Rightarrow> self
      | Some until \<Rightarrow>
          (let until_path = with_field path ''until'';
               available = bs_extend (fl_available (nx_incoming context)) (ef_definite_nodes body)
           in case validate_guard until available until_path LoopExitSatisfiability self of (valid, self) \<Rightarrow>
              let self = fold (\<lambda>selector self.
                    emit_if (\<not> (cs_name selector \<in> set (ef_definite_nodes body)
                        \<and> (case bm_get (an_nodes self) (cs_name selector) of
                             None \<Rightarrow> False
                           | Some info \<Rightarrow>
                               (case ni_node info of
                                  VerifierNode _ \<Rightarrow> True
                                | StepNode _ \<Rightarrow> cs_source selector = SourceError
                                | _ \<Rightarrow> False))))
                      LoopExitSatisfiability
                      (''loop exit selector '' @ cs_name selector
                       @ '' must select a verifier or a step error guaranteed in every iteration'')
                      until_path [cs_name selector, name] self) (guard_selectors until) self in
              if \<not> valid then self
              else
                case guard_has_satisfying_assignment until until_path self of (satisfiable, self) \<Rightarrow>
                  emit_if (\<not> satisfiable) LoopExitSatisfiability ''loop exit guard is unsatisfiable'' until_path [name] self))"

definition validate_loop ::
    "node_validator \<Rightarrow> node_name \<Rightarrow> payload_type \<Rightarrow> graph_node \<Rightarrow> guard option \<Rightarrow> field_path option \<Rightarrow> field_path list
       \<Rightarrow> node_context \<Rightarrow> diagnostic_path_segment list \<Rightarrow> position \<Rightarrow> analyzer \<Rightarrow> effects \<times> analyzer" where
  "validate_loop validate name state body until max_iterations_input promoted context path position self =
     (let self = (case max_iterations_input of
            Some selected \<Rightarrow>
              emit_if (path_type (gs_initial_input (an_graph self)) selected \<noteq> Some PInteger) SchemaSafety
                ''maxIterationsInput must select an integer in initialInput''
                (with_field path ''maxIterationsInput'') [name] self
          | None \<Rightarrow> self)
      in case validate body (position @ [0]) (context\<lparr>nx_state := state\<rparr>) self of (effects, self) \<Rightarrow>
         restrict_promotions (promotion state context promoted
           (effects\<lparr>ef_definite_nodes := bs_insert name (ef_definite_nodes effects)\<rparr>) path PromoteDefinite)
           (validate_loop_exit name until context path effects self))"

section \<open>Nodes\<close>

definition validate_kind ::
    "node_validator \<Rightarrow> graph_node \<Rightarrow> node_context \<Rightarrow> diagnostic_path_segment list \<Rightarrow> position \<Rightarrow> analyzer
       \<Rightarrow> effects \<times> analyzer" where
  "validate_kind validate node context path position self =
     (case node of
        StepNode step \<Rightarrow> validate_step step context path self
      | VerifierNode verifier \<Rightarrow> validate_verifier verifier context path self
      | SeqNode name state children promoted \<Rightarrow>
          validate_seq validate name state children promoted context path position self
      | ChoiceNode name state branches otherwise promoted \<Rightarrow>
          validate_choice_node validate name state branches otherwise promoted context path position self
      | ParNode name state branches promoted join \<Rightarrow>
          validate_par validate name state branches promoted join context path position self
      | LoopNode name state body until max_iterations max_iterations_input promoted \<Rightarrow>
          validate_loop validate name state body until max_iterations_input promoted context path position self
      | MapNode name state body over max_items promoted \<Rightarrow>
          validate_map validate name state body over max_items promoted context path position self
      | SucceedNode terminal \<Rightarrow> validate_succeed terminal context path self
      | FailNode terminal \<Rightarrow> (terminal_effects (fa_name terminal) (nx_incoming context), self))"

lemma validate_seq_cong:
  assumes "\<And>c p x s. c \<in> set children \<Longrightarrow> f c p x s = g c p x s"
  shows "validate_seq f name state children promoted context path position self =
    validate_seq g name state children promoted context path position self"
proof -
  have "fold (\<lambda>(i, child). validate_seq_child f state context path position i child) (enumerate 0 children) s =
        fold (\<lambda>(i, child). validate_seq_child g state context path position i child) (enumerate 0 children) s" for s
    by (rule fold_enumerate_cong) (auto simp: validate_seq_child_def assms split: prod.splits)
  then show ?thesis by (simp add: validate_seq_def)
qed

lemma validate_choice_node_cong:
  assumes "\<And>c p x s. c \<in> set (child_nodes (ChoiceNode name state branches otherwise promoted)) \<Longrightarrow> f c p x s = g c p x s"
  shows "validate_choice_node f name state branches otherwise promoted context path position self =
    validate_choice_node g name state branches otherwise promoted context path position self"
proof -
  have "validate_choice_branches f state branches context path position control s =
        validate_choice_branches g state branches context path position control s" for control s
  proof -
    have "map_state (\<lambda>(i, node). validate_choice_branch f state context path position control i node)
            (enumerate 0 (map snd branches)) s =
          map_state (\<lambda>(i, node). validate_choice_branch g state context path position control i node)
            (enumerate 0 (map snd branches)) s"
      using assms by (intro map_state_cong)
        (auto simp: validate_choice_branch_def validate_route_def dest!: enumerate_memberD)
    then show ?thesis by (simp add: validate_choice_branches_def)
  qed
  moreover have "validate_otherwise f state i otherwise context path position control s =
        validate_otherwise g state i otherwise context path position control s" for i control s
    using assms by (cases otherwise) (simp_all add: validate_otherwise_def validate_route_def)
  ultimately show ?thesis by (simp add: validate_choice_node_def)
qed

lemma validate_par_cong:
  assumes "\<And>c p x s. c \<in> set branches \<Longrightarrow> f c p x s = g c p x s"
  shows "validate_par f name state branches promoted join context path position self =
    validate_par g name state branches promoted join context path position self"
proof -
  have "map_state (\<lambda>(i, branch). f branch (position @ [i]) (context\<lparr>nx_state := state\<rparr>)) (enumerate 0 branches) s =
        map_state (\<lambda>(i, branch). g branch (position @ [i]) (context\<lparr>nx_state := state\<rparr>)) (enumerate 0 branches) s" for s
    by (rule map_state_cong) (auto simp: assms dest!: enumerate_memberD)
  then show ?thesis by (simp add: validate_par_def)
qed

lemma validate_kind_cong [fundef_cong]:
  assumes "node = node'" "context = context'" "path = path'" "position = position'" "self = self'"
    and "\<And>c p x s. c \<in> set (child_nodes node') \<Longrightarrow> f c p x s = g c p x s"
  shows "validate_kind f node context path position self = validate_kind g node' context' path' position' self'"
  unfolding assms(1-5) using assms(6)
  by (cases node') (auto simp: validate_kind_def validate_loop_def validate_map_def
      intro: validate_seq_cong validate_choice_node_cong validate_par_cong)

function validate_node :: "graph_node \<Rightarrow> position \<Rightarrow> node_context \<Rightarrow> analyzer \<Rightarrow> effects \<times> analyzer" where
  "validate_node node position context self =
     (let path = node_path (node_name node) self;
          self = validate_group_state node context path self
      in case validate_kind validate_node node context path position self of (effects, self) \<Rightarrow>
         (effects,
          self\<lparr>an_node_completion := bm_insert (node_name node) (ef_completion effects) (an_node_completion self),
               an_node_fallthrough := bm_insert position (ef_falls_through effects) (an_node_fallthrough self)\<rparr>))"
  by pat_completeness auto
termination
  by (relation "measure (\<lambda>(n, _). size n)") (auto dest: child_nodes_size)

declare validate_node.simps [simp del]

section \<open>Analysis and verification\<close>

definition initial_state_of :: "graph_spec \<Rightarrow> payload_type" where
  "initial_state_of graph =
     (case (case node_state (gs_root graph) of
              Some state \<Rightarrow> materialized_subtype_of (gs_initial_input graph) state | None \<Rightarrow> None) of
        Some state \<Rightarrow> state | None \<Rightarrow> gs_initial_input graph)"

definition analyze :: "graph_spec \<Rightarrow> structural_bounds option \<times> analyzer" where
  "analyze graph =
     (let root = gs_root graph;
          self = validate_profile (Analyzer_new graph);
          self = index_node root [field_segment ''root'', NodeSegment (node_name root)] 1 self;
          self = validate_global_limits self;
          state = initial_state_of graph
      in case validate_node root [] \<lparr>nx_incoming = flow_default\<lparr>fl_defined := required_paths_with_types state\<rparr>,
             nx_state = state, nx_item = None, nx_map_index_targets = None\<rparr> self of (_, self) \<Rightarrow>
         let self = validate_terminal_coverage self in
         case reference_topological_order self of (order, self) \<Rightarrow>
         case fold_node root self of (folded, self) \<Rightarrow>
           (if an_diagnostics self \<noteq> [] then None
            else case folded of None \<Rightarrow> None | Some fold' \<Rightarrow> build_bounds fold' order self, self))"

datatype verification_error = Rejected "graph_diagnostic list" | VerificationInternal string

definition worker_diagnostic :: "analyzer \<Rightarrow> worker_compatibility_diagnostic \<Rightarrow> graph_diagnostic" where
  "worker_diagnostic self diagnostic =
     (let code = (if wx_code diagnostic \<in> {CodeRegistry, CodeDescriptorContract, CodeDescriptorIdentity,
                       CodeGraphProfile, CodeVerifierContract}
                  then InvalidGraphShape else SchemaSafety);
          node = (if wx_path diagnostic = [] then None
                  else case NodeName_new (last (wx_path diagnostic)) of Inr name \<Rightarrow> Some name | Inl _ \<Rightarrow> None)
      in \<lparr>gd_severity = SeverityError, gd_code = code, gd_message = wx_message diagnostic,
          gd_path = (case node of Some name \<Rightarrow> node_path name self | None \<Rightarrow> [field_segment ''root'']),
          gd_related_nodes = (case node of Some name \<Rightarrow> [name] | None \<Rightarrow> [])\<rparr>)"

text \<open>The canonical encoding of a compiled graph is a parameter: its bytes, or the reason there are none.\<close>

type_synonym canonical_encoder = "compiled_graph_ir \<Rightarrow> string + string"

definition finalize_verified ::
    "canonical_encoder \<Rightarrow> graph_spec \<Rightarrow> structural_bounds \<Rightarrow> verification_error + compiled_graph_ir" where
  "finalize_verified canonical graph bounds =
     (let compiled_ir = \<lparr>cg_profile = gs_profile graph, cg_initial_input = gs_initial_input graph,
                         cg_policy = gs_policy graph, cg_root = gs_root graph, cg_bounds = bounds\<rparr>
      in case canonical compiled_ir of
           Inl error \<Rightarrow> Inl (VerificationInternal (''validated graph could not be canonicalized: '' @ error))
         | Inr _ \<Rightarrow> Inr compiled_ir)"

definition verify_graph ::
    "canonical_encoder \<Rightarrow> graph_spec \<Rightarrow> worker_registry \<Rightarrow> verification_error + compiled_graph_ir" where
  "verify_graph canonical graph registry =
     (case analyze graph of (bounds, analyzer) \<Rightarrow>
      if an_diagnostics analyzer \<noteq> [] then Inl (Rejected (sort_diagnostics (an_diagnostics analyzer)))
      else
        case check_graph_workers graph registry of
          Inl worker_diagnostics \<Rightarrow>
            Inl (Rejected (sort_diagnostics (map (worker_diagnostic analyzer) worker_diagnostics)))
        | Inr _ \<Rightarrow>
            bind_res (ok_or (VerificationInternal ''structurally valid graph did not produce structural bounds'') bounds)
              (finalize_verified canonical graph))"

lemma verified_graph:
  assumes "verify_graph canonical graph registry = Inr ir"
  obtains bounds a where "analyze graph = (Some bounds, a)" "an_diagnostics a = []" "check_graph_workers graph registry = Inr ()"
    "ir = \<lparr>cg_profile = gs_profile graph, cg_initial_input = gs_initial_input graph, cg_policy = gs_policy graph,
           cg_root = gs_root graph, cg_bounds = bounds\<rparr>"
proof -
  obtain b a where a: "analyze graph = (b, a)" by force
  with assms have "an_diagnostics a = []" "check_graph_workers graph registry = Inr ()"
    by (auto simp: verify_graph_def split: if_splits sum.splits)
  moreover from this assms a obtain bounds where "b = Some bounds" "finalize_verified canonical graph bounds = Inr ir"
    by (auto simp: verify_graph_def ok_or_def elim!: bind_resE split: option.splits)
  ultimately show ?thesis using that a by (auto simp: finalize_verified_def Let_def split: sum.splits)
qed

end
