(* ===== verification/Admission.thy ===== *)
theory Admission
  imports Delivery Verifier
begin

text \<open>
  Admission of a run (\<^verbatim>\<open>zeroshot/src/native_v2_admission.rs\<close> and its modules): executable declarations
  and their bindings, delivery policy and concurrency, loop limits bound from the input, comment
  delivery, and the graph-local worker registry.

  Three things the code delegates are parameters, collected in the record \<open>admission_host\<close>: the
  harness registry, the source adapters (with the URL parser), and the canonical encoding of a compiled
  graph. The graph verifier itself is \<open>verify_graph\<close> of the theory \<open>Verifier\<close>.
\<close>

section \<open>Errors and submissions\<close>

datatype delivery_policy = DeliveryOptional | DeliveryRequired

datatype stack_delivery = StackMerge | StackedPullRequests

datatype admission_error =
    InvalidRuntime string
  | UnsupportedGraphProfile
  | InvalidEnvironment string
  | InitialInput payload_value_error
  | InvalidLoopLimit string
  | Attempts node_name u64
  | MissingRuntimeBinding node_name
  | UnexpectedRuntimeBinding node_name
  | InvalidRuntimeBinding node_name utext
  | MissingAgentInstructions node_name
  | DeliveryInstructionsForbidden node_name
  | DeliveryMustBeVerifier node_name
  | UnsupportedDeliveryWorker node_name worker_ref
  | DeliveryWorkerRequiresBinding node_name worker_ref
  | DeliveryNodeCount delivery_policy nat
  | DeliverySourceRequired
  | InvalidCommentDelivery string
  | InvalidSourceDelivery string
  | StackDeliveryRequired stack_delivery
  | StackAgentGitHubToken node_name
  | DeclaredEnvironmentTooLarge nat
  | InvalidDeliveryContract node_name worker_ref
  | InconsistentWorkerReuse worker_ref node_name node_name
  | ConcurrentDelivery node_name node_name
  | ConcurrentMapDelivery node_name node_name
  | WorkerDescriptorError string
  | GraphVerification verification_error

record run_submission =
  su_title :: run_title
  su_graph :: graph_spec
  su_initial_input :: json
  su_runtime :: runtime_plan
  su_environment :: "runtime_environment option"
  su_source :: "resolved_source option"
  su_submission_key :: idempotency_key

record run_submission_intent =
  si_title :: run_title
  si_graph :: graph_spec
  si_initial_input :: json
  si_runtime :: runtime_plan
  si_environment :: "runtime_environment option"
  si_branch :: "source_branch_id option"
  si_submission_key :: idempotency_key

record admission_host =
  ah_validate_runtime :: "runtime_plan \<Rightarrow> string + unit"
  ah_comments :: comment_adapter
  ah_delivery_source :: "resolved_source \<Rightarrow> source_capability list \<Rightarrow> string + unit"
  ah_canonical :: canonical_encoder

section \<open>Executable declarations\<close>

datatype leaf_kind = LeafStep | LeafVerifier

record executable_declaration =
  xd_name :: node_name
  xd_worker :: worker_ref
  xd_instructions :: "string option"
  xd_contract :: worker_contract
  xd_attempts :: u64
  xd_kind :: leaf_kind

definition step_declaration :: "step_node \<Rightarrow> executable_declaration" where
  "step_declaration step =
     \<lparr>xd_name = st_name step, xd_worker = st_worker step, xd_instructions = st_instructions step,
      xd_contract = \<lparr>wc_input = st_input step, wc_output = st_output step, wc_verifier = None,
                     wc_errors = RUNTIME_WORKER_ERRORS\<rparr>,
      xd_attempts = st_attempts step, xd_kind = LeafStep\<rparr>"

definition verifier_declaration :: "verifier_node \<Rightarrow> executable_declaration" where
  "verifier_declaration verifier =
     \<lparr>xd_name = vn_name verifier, xd_worker = vn_worker verifier, xd_instructions = vn_instructions verifier,
      xd_contract = \<lparr>wc_input = vn_input verifier, wc_output = vn_output verifier,
                     wc_verifier = Some \<lparr>vc_signals = vn_signals verifier, vc_diagnostic = vn_diagnostic verifier\<rparr>,
                     wc_errors = RUNTIME_WORKER_ERRORS\<rparr>,
      xd_attempts = vn_attempts verifier, xd_kind = LeafVerifier\<rparr>"

function collect_declarations :: "graph_node \<Rightarrow> executable_declaration list" where
  "collect_declarations node =
     (case node of
        StepNode step \<Rightarrow> [step_declaration step]
      | VerifierNode verifier \<Rightarrow> [verifier_declaration verifier]
      | _ \<Rightarrow> concat (map collect_declarations (child_nodes node)))"
  by pat_completeness auto
termination
  by (relation "measure size") (auto dest: child_nodes_size simp del: child_nodes.simps)

declare collect_declarations.simps [simp del]

definition executable_declarations :: "graph_node \<Rightarrow> executable_declaration list" where
  "executable_declarations root = collect_declarations root"

section \<open>Bindings of the executable nodes\<close>

definition MAX_AGENT_VERIFIER_ATTEMPTS :: u64 where "MAX_AGENT_VERIFIER_ATTEMPTS = 2"

definition is_git_delivery_worker :: "worker_ref \<Rightarrow> bool" where
  "is_git_delivery_worker worker \<longleftrightarrow>
     worker \<in> {GIT_DELIVERY_PUSH_WORKER_REF, GIT_DELIVERY_PR_WORKER_REF, GIT_DELIVERY_PR_V2_WORKER_REF,
               GIT_DELIVERY_MERGE_WORKER_REF, GIT_DELIVERY_MERGE_V2_WORKER_REF, GIT_DELIVERY_MERGE_V3_WORKER_REF}"

definition is_trusted_delivery_worker :: "worker_ref \<Rightarrow> bool" where
  "is_trusted_delivery_worker worker \<longleftrightarrow>
     worker = COMMENT_DELIVERY_WORKER_REF \<or> is_git_delivery_worker worker"

definition executable_runtime_roles :: "graph_node \<Rightarrow> (node_name \<times> bool) list" where
  "executable_runtime_roles root =
     map (\<lambda>declaration. (xd_name declaration, is_trusted_delivery_worker (xd_worker declaration)))
       (executable_declarations root)"

definition validate_attempts :: "executable_declaration list \<Rightarrow> admission_error + unit" where
  "validate_attempts declarations =
     (case find (\<lambda>item. xd_attempts item \<noteq> 1
          \<and> \<not> (xd_kind item = LeafVerifier \<and> \<not> is_git_delivery_worker (xd_worker item)
                \<and> xd_attempts item \<le> MAX_AGENT_VERIFIER_ATTEMPTS)) declarations of
        Some declaration \<Rightarrow> Inl (Attempts (xd_name declaration) (xd_attempts declaration))
      | None \<Rightarrow> Inr ())"

definition validate_binding_coverage ::
    "executable_declaration list \<Rightarrow> (node_name, node_runtime_binding) btree_map \<Rightarrow> admission_error + unit" where
  "validate_binding_coverage declarations bindings =
     (let executable = bs_of_list (map xd_name declarations);
          bound = bs_of_list (bm_keys bindings)
      in case filter (\<lambda>node. node \<notin> set bound) executable of
           node # _ \<Rightarrow> Inl (MissingRuntimeBinding node)
         | [] \<Rightarrow>
             (case find (\<lambda>node. node \<notin> set executable) (bm_keys bindings) of
                Some node \<Rightarrow> Inl (UnexpectedRuntimeBinding node)
              | None \<Rightarrow> Inr ()))"

definition declaration_response :: "executable_declaration \<Rightarrow> verifier_contract \<Rightarrow> node_response_contract" where
  "declaration_response declaration verifier =
     VerifierContractResponse (wc_output (xd_contract declaration)) (vc_signals verifier) (vc_diagnostic verifier)"

definition validate_decision_declaration ::
    "executable_declaration \<Rightarrow> node_runtime_binding \<Rightarrow> admission_error + unit" where
  "validate_decision_declaration declaration binding =
     (let invalid = (\<lambda>detail. InvalidRuntimeBinding (xd_name declaration) detail)
      in case wc_verifier (xd_contract declaration) of
           None \<Rightarrow> Inl (invalid (text_of_string ''decision bindings require a verifier node''))
         | Some verifier \<Rightarrow>
             if xd_attempts declaration \<noteq> 1
             then Inl (invalid (text_of_string ''decision verifiers require attempts: 1''))
             else if \<not> (case wc_input (xd_contract declaration) of
                          PRecord _ \<Rightarrow> True | PString \<Rightarrow> True | PArray _ \<Rightarrow> True | _ \<Rightarrow> False)
             then Inl (invalid (text_of_string ''decision state must be a string, record or array''))
             else
               bind_res (map_err (\<lambda>error. invalid (runner_error_text error))
                   (validate_decision_contract (declaration_response declaration verifier) binding)) (\<lambda>_. Inr ()))"

definition validate_delivery_declaration ::
    "executable_declaration \<Rightarrow> node_runtime_binding \<Rightarrow> admission_error + unit" where
  "validate_delivery_declaration declaration binding =
     (let invalid = InvalidDeliveryContract (xd_name declaration) (xd_worker declaration)
      in case mode_from_worker (xd_worker declaration) of
           None \<Rightarrow> Inr ()
         | Some mode \<Rightarrow>
             if (case binding of GitDeliveryBinding _ Ignore \<Rightarrow> True | _ \<Rightarrow> False) \<and> \<not> considers_feedback mode
             then Inl invalid
             else
               (case wc_verifier (xd_contract declaration) of
                  None \<Rightarrow> Inl invalid
                | Some verifier \<Rightarrow>
                    map_err (\<lambda>_. invalid) (validate_delivery_contract mode (declaration_response declaration verifier))))"

definition validate_comment_declaration :: "executable_declaration \<Rightarrow> admission_error + unit" where
  "validate_comment_declaration declaration =
     (let invalid = InvalidDeliveryContract (xd_name declaration) (xd_worker declaration)
      in if comment_input_schema \<noteq> Inr (wc_input (xd_contract declaration)) then Inl invalid
         else case wc_verifier (xd_contract declaration) of
           None \<Rightarrow> Inl invalid
         | Some verifier \<Rightarrow>
             map_err (\<lambda>_. invalid) (validate_comment_contract (declaration_response declaration verifier)))"

definition validate_binding_kind ::
    "executable_declaration \<Rightarrow> node_runtime_binding \<Rightarrow> admission_error + unit" where
  "validate_binding_kind declaration binding =
     (let node = xd_name declaration; worker = xd_worker declaration
      in if xd_kind declaration = LeafStep
            \<and> (case binding of GitDeliveryBinding _ _ \<Rightarrow> True | CommentDeliveryBinding _ \<Rightarrow> True | _ \<Rightarrow> False)
         then Inl (DeliveryMustBeVerifier node)
         else if worker = COMMENT_DELIVERY_WORKER_REF
         then (case binding of
                 CommentDeliveryBinding _ \<Rightarrow> validate_comment_declaration declaration
               | _ \<Rightarrow> Inl (DeliveryWorkerRequiresBinding node worker))
         else (case binding of
                 CommentDeliveryBinding _ \<Rightarrow> Inl (UnsupportedDeliveryWorker node worker)
               | GitDeliveryBinding _ _ \<Rightarrow>
                   if is_git_delivery_worker worker then validate_delivery_declaration declaration binding
                   else Inl (UnsupportedDeliveryWorker node worker)
               | _ \<Rightarrow>
                   if is_git_delivery_worker worker then Inl (DeliveryWorkerRequiresBinding node worker) else Inr ()))"

definition validate_instructions ::
    "executable_declaration \<Rightarrow> node_runtime_binding \<Rightarrow> admission_error + unit" where
  "validate_instructions declaration binding =
     (case (binding, xd_instructions declaration) of
        (AgentBinding _, None) \<Rightarrow> Inl (MissingAgentInstructions (xd_name declaration))
      | (DecisionBinding _, None) \<Rightarrow> Inl (MissingAgentInstructions (xd_name declaration))
      | (GitDeliveryBinding _ _, Some _) \<Rightarrow> Inl (DeliveryInstructionsForbidden (xd_name declaration))
      | (CommentDeliveryBinding _, Some _) \<Rightarrow> Inl (DeliveryInstructionsForbidden (xd_name declaration))
      | _ \<Rightarrow> Inr ())"

text \<open>
  One declaration. The map is indexed after the coverage check; a missing key would panic, and the
  value for that case is never read.
\<close>

definition validate_declaration_binding ::
    "(node_name, node_runtime_binding) btree_map \<Rightarrow> executable_declaration \<Rightarrow> admission_error + unit" where
  "validate_declaration_binding bindings declaration =
     (case bm_get bindings (xd_name declaration) of
        None \<Rightarrow> Inl (MissingRuntimeBinding (xd_name declaration))
      | Some binding \<Rightarrow>
          bind_res (map_err (\<lambda>error. InvalidRuntimeBinding (xd_name declaration) (text_of_string error))
              (validate_model_limits binding)) (\<lambda>_.
          if (case binding of ScriptBinding _ _ \<Rightarrow> True | _ \<Rightarrow> False)
             \<and> (xd_kind declaration \<noteq> LeafStep \<or> xd_instructions declaration \<noteq> None)
          then Inl (InvalidRuntimeBinding (xd_name declaration)
                 (text_of_string ''script bindings require a step without agent instructions''))
          else
            bind_res (case binding of
                DecisionBinding _ \<Rightarrow> validate_decision_declaration declaration binding | _ \<Rightarrow> Inr ()) (\<lambda>_.
            bind_res (validate_binding_kind declaration binding) (\<lambda>_.
            validate_instructions declaration binding))))"

definition validate_binding_kinds ::
    "executable_declaration list \<Rightarrow> (node_name, node_runtime_binding) btree_map \<Rightarrow> admission_error + unit" where
  "validate_binding_kinds declarations bindings =
     try_all (validate_declaration_binding bindings) declarations"

definition validate_delivery_policy ::
    "delivery_policy \<Rightarrow> executable_declaration list \<Rightarrow> admission_error + unit" where
  "validate_delivery_policy policy declarations =
     (let found = length (filter (\<lambda>declaration. is_trusted_delivery_worker (xd_worker declaration)) declarations)
      in if (case policy of DeliveryOptional \<Rightarrow> found \<le> 1 | DeliveryRequired \<Rightarrow> found = 1) then Inr ()
         else Inl (DeliveryNodeCount policy found))"

definition validate_declared_environment ::
    "runtime_plan \<Rightarrow> runtime_environment option \<Rightarrow> admission_error + unit" where
  "validate_declared_environment runtime environment =
     (let declared = bs_of_list (concat (map (\<lambda>(_, binding). environment_names (declared_connections binding)) (rp_nodes runtime)));
          declared = (case environment of
              None \<Rightarrow> declared
            | Some environment \<Rightarrow>
                bs_extend (bs_extend declared (environment_names (re_connections environment)))
                  (bm_keys (re_variables environment)))
      in if length declared > MAX_DECLARED_ENVIRONMENT_NAMES then Inl (DeclaredEnvironmentTooLarge (length declared))
         else Inr ())"

definition validate_executable_bindings ::
    "admission_host \<Rightarrow> delivery_policy \<Rightarrow> executable_declaration list \<Rightarrow> runtime_plan \<Rightarrow> admission_error + unit" where
  "validate_executable_bindings host policy declarations runtime =
     bind_res (map_err InvalidRuntime (ah_validate_runtime host runtime)) (\<lambda>_.
     bind_res (map_err InvalidEnvironment (active_memory_validate (rp_active_memory runtime))) (\<lambda>_.
     bind_res (map_err InvalidEnvironment (postmortem_validate (ga_postmortem (rp_global_agents runtime)))) (\<lambda>_.
     bind_res (case pc_source_node (ga_postmortem (rp_global_agents runtime)) of
         Some node \<Rightarrow>
           (case bm_get (rp_nodes runtime) node of
              Some (AgentBinding _) \<Rightarrow> Inr ()
            | _ \<Rightarrow> Inl (MissingRuntimeBinding node))
       | None \<Rightarrow> Inr ()) (\<lambda>_.
     bind_res (validate_attempts declarations) (\<lambda>_.
     bind_res (validate_binding_coverage declarations (rp_nodes runtime)) (\<lambda>_.
     bind_res (validate_binding_kinds declarations (rp_nodes runtime)) (\<lambda>_.
     bind_res (validate_delivery_policy policy declarations) (\<lambda>_.
     validate_declared_environment runtime None))))))))"

definition sole_delivery_node :: "admitted_run \<Rightarrow> (node_name \<times> delivery_mode) option" where
  "sole_delivery_node admitted =
     (case List.map_filter (\<lambda>declaration.
             map_option (\<lambda>mode. (xd_name declaration, mode)) (mode_from_worker (xd_worker declaration)))
           (executable_declarations (cg_root (ad_graph admitted))) of
        [selected] \<Rightarrow> Some selected
      | _ \<Rightarrow> None)"

definition writer_nodes :: "admitted_run \<Rightarrow> node_name btree_set" where
  "writer_nodes admitted =
     bs_of_list (map xd_name (filter (\<lambda>declaration.
       case bm_get (rp_nodes (ad_runtime admitted)) (xd_name declaration) of
         Some (DecisionBinding _) \<Rightarrow> False | _ \<Rightarrow> True)
       (executable_declarations (cg_root (ad_graph admitted)))))"


section \<open>Delivery concurrency\<close>

record found_writers =
  pw_writer :: "node_name option"
  pw_delivery :: "node_name option"

definition no_writers :: found_writers where
  "no_writers = \<lparr>pw_writer = None, pw_delivery = None\<rparr>"

definition opt_or :: "'a option \<Rightarrow> 'a option \<Rightarrow> 'a option" where
  "opt_or a b = (case a of Some x \<Rightarrow> Some x | None \<Rightarrow> b)"

definition opt_zip :: "'a option \<Rightarrow> 'b option \<Rightarrow> ('a \<times> 'b) option" where
  "opt_zip a b = (case (a, b) of (Some x, Some y) \<Rightarrow> Some (x, y) | _ \<Rightarrow> None)"

definition append_writers :: "found_writers \<Rightarrow> found_writers \<Rightarrow> found_writers" where
  "append_writers self other =
     \<lparr>pw_writer = opt_or (pw_writer self) (pw_writer other),
      pw_delivery = opt_or (pw_delivery self) (pw_delivery other)\<rparr>"

definition combine_writers ::
    "bool \<Rightarrow> found_writers \<Rightarrow> found_writers \<Rightarrow> admission_error + found_writers" where
  "combine_writers is_parallel combined following =
     (case (if is_parallel
            then opt_or (opt_zip (pw_delivery combined) (pw_writer following))
                        (opt_zip (pw_delivery following) (pw_writer combined))
            else None) of
        Some (delivery, writer) \<Rightarrow> Inl (ConcurrentDelivery delivery writer)
      | None \<Rightarrow> Inr (append_writers combined following))"

definition map_writers ::
    "node_name \<Rightarrow> positive_integer \<Rightarrow> found_writers \<Rightarrow> admission_error + found_writers" where
  "map_writers name max_items writers =
     (case pw_delivery writers of
        Some delivery \<Rightarrow> if max_items > 1 then Inl (ConcurrentMapDelivery name delivery) else Inr writers
      | None \<Rightarrow> Inr writers)"

function possible_writers :: "graph_node \<Rightarrow> admission_error + found_writers" where
  "possible_writers node =
     (case node of
        StepNode step \<Rightarrow> Inr \<lparr>pw_writer = Some (st_name step), pw_delivery = None\<rparr>
      | VerifierNode verifier \<Rightarrow>
          Inr \<lparr>pw_writer = Some (vn_name verifier),
               pw_delivery = (if mode_from_worker (vn_worker verifier) \<noteq> None
                                 \<or> vn_worker verifier = COMMENT_DELIVERY_WORKER_REF
                              then Some (vn_name verifier) else None)\<rparr>
      | SeqNode _ _ _ _ \<Rightarrow>
          try_foldl (\<lambda>combined n. bind_res (possible_writers n) (combine_writers False combined))
            no_writers (child_nodes node)
      | ChoiceNode _ _ _ _ _ \<Rightarrow>
          try_foldl (\<lambda>combined n. bind_res (possible_writers n) (combine_writers False combined))
            no_writers (child_nodes node)
      | ParNode _ _ _ _ _ \<Rightarrow>
          try_foldl (\<lambda>combined n. bind_res (possible_writers n) (combine_writers True combined))
            no_writers (child_nodes node)
      | LoopNode _ _ body _ _ _ _ \<Rightarrow> possible_writers body
      | MapNode name _ body _ max_items _ \<Rightarrow> bind_res (possible_writers body) (map_writers name max_items)
      | SucceedNode _ \<Rightarrow> Inr no_writers
      | FailNode _ \<Rightarrow> Inr no_writers)"
  by pat_completeness auto
termination
  by (relation "measure size") (auto dest: child_nodes_size simp del: child_nodes.simps)

declare possible_writers.simps [simp del]

definition validate_delivery_concurrency :: "graph_node \<Rightarrow> admission_error + unit" where
  "validate_delivery_concurrency node = bind_res (possible_writers node) (\<lambda>_. Inr ())"

section \<open>Loop limits from the input\<close>

definition as_u64 :: "json \<Rightarrow> u64 option" where
  "as_u64 value = (case value of VNumber (PosInt n) \<Rightarrow> Some n | _ \<Rightarrow> None)"

definition json_get :: "json \<Rightarrow> string \<Rightarrow> json option" where
  "json_get value key = (case as_object value of Some object \<Rightarrow> bm_get object key | None \<Rightarrow> None)"

definition input_at_path :: "json \<Rightarrow> field_path \<Rightarrow> json option" where
  "input_at_path input path = opt_foldl json_get input path"

fun join_path :: "field_path \<Rightarrow> string" where
  "join_path [] = []"
| "join_path [segment] = segment"
| "join_path (segment # rest) = segment @ ''.'' @ join_path rest"

definition bound_loop_limit ::
    "json \<Rightarrow> positive_integer \<Rightarrow> field_path option \<Rightarrow> admission_error + positive_integer" where
  "bound_loop_limit input max_iterations max_iterations_input =
     (case max_iterations_input of
        None \<Rightarrow> Inr max_iterations
      | Some path \<Rightarrow>
          (case input_at_path input path of
             None \<Rightarrow> Inr max_iterations
           | Some value \<Rightarrow>
               ok_or (InvalidLoopLimit (join_path path))
                 (case as_u64 value of
                    None \<Rightarrow> None
                  | Some value \<Rightarrow> (case PositiveInteger_new value of Inr n \<Rightarrow> Some n | Inl _ \<Rightarrow> None))))"

fun bind_input_limits :: "json \<Rightarrow> graph_node \<Rightarrow> admission_error + graph_node" where
  "bind_input_limits input (SeqNode name state children promoted) =
     bind_res (try_map (bind_input_limits input) children) (\<lambda>children.
     Inr (SeqNode name state children promoted))"
| "bind_input_limits input (ChoiceNode name state branches otherwise promoted) =
     bind_res (try_map (\<lambda>(guard, node). bind_res (bind_input_limits input node) (\<lambda>node. Inr (guard, node))) branches)
       (\<lambda>branches.
     bind_res (case otherwise of
         None \<Rightarrow> Inr None
       | Some node \<Rightarrow> bind_res (bind_input_limits input node) (\<lambda>node. Inr (Some node))) (\<lambda>otherwise.
     Inr (ChoiceNode name state branches otherwise promoted)))"
| "bind_input_limits input (ParNode name state branches promoted join) =
     bind_res (try_map (bind_input_limits input) branches) (\<lambda>branches.
     Inr (ParNode name state branches promoted join))"
| "bind_input_limits input (LoopNode name state body until max_iterations max_iterations_input promoted) =
     bind_res (bound_loop_limit input max_iterations max_iterations_input) (\<lambda>max_iterations.
     bind_res (bind_input_limits input body) (\<lambda>body.
     Inr (LoopNode name state body until max_iterations max_iterations_input promoted)))"
| "bind_input_limits input (MapNode name state body items max_items promoted) =
     bind_res (bind_input_limits input body) (\<lambda>body. Inr (MapNode name state body items max_items promoted))"
| "bind_input_limits input node = Inr node"

section \<open>Comment delivery\<close>

fun find_map :: "('a \<Rightarrow> 'b option) \<Rightarrow> 'a list \<Rightarrow> 'b option" where
  "find_map f [] = None"
| "find_map f (x # xs) = (case f x of Some y \<Rightarrow> Some y | None \<Rightarrow> find_map f xs)"

lemma find_map_cong [fundef_cong]:
  "xs = ys \<Longrightarrow> (\<And>x. x \<in> set ys \<Longrightarrow> f x = g x) \<Longrightarrow> find_map f xs = find_map g ys"
  by (induction ys arbitrary: xs) (auto split: option.splits)

definition is_comment_node :: "graph_node \<Rightarrow> bool" where
  "is_comment_node node =
     (case node of VerifierNode v \<Rightarrow> vn_worker v = COMMENT_DELIVERY_WORKER_REF | _ \<Rightarrow> False)"

function comment_node :: "graph_node \<Rightarrow> verifier_node option" where
  "comment_node root =
     (case root of
        VerifierNode node \<Rightarrow>
          if vn_worker node = COMMENT_DELIVERY_WORKER_REF then Some node
          else find_map comment_node (child_nodes root)
      | _ \<Rightarrow> find_map comment_node (child_nodes root))"
  by pat_completeness auto
termination
  by (relation "measure size") (auto dest: child_nodes_size simp del: child_nodes.simps)

declare comment_node.simps [simp del]

definition root_binding :: "verifier_node \<Rightarrow> string \<Rightarrow> admission_error + field_path option" where
  "root_binding node field =
     (case find (\<lambda>binding. ib_target binding = [field]) (vn_input_bindings node) of
        None \<Rightarrow> Inr None
      | Some binding \<Rightarrow>
          (case ib_value binding of
             SelState path \<Rightarrow> Inr (Some path)
           | _ \<Rightarrow> Inl (InvalidCommentDelivery
                    ''comment destination and scope must bind directly from caller input'')))"

fun required_path :: "payload_type \<Rightarrow> field_path \<Rightarrow> payload_type option" where
  "required_path schema [] = Some schema"
| "required_path schema (segment # path) =
     (case schema of
        PRecord members \<Rightarrow>
          (case bm_get members segment of
             None \<Rightarrow> None
           | Some field \<Rightarrow> if \<not> required field then None else required_path (value_type field) path)
      | _ \<Rightarrow> None)"

definition value_at :: "json \<Rightarrow> field_path \<Rightarrow> json option" where
  "value_at value path = opt_foldl json_get value path"

definition repeats :: "graph_node \<Rightarrow> bool" where
  "repeats node = (case node of LoopNode _ _ _ _ _ _ _ \<Rightarrow> True | MapNode _ _ _ _ _ _ \<Rightarrow> True | _ \<Rightarrow> False)"

function validate_position :: "graph_node \<Rightarrow> bool \<Rightarrow> bool \<Rightarrow> admission_error + bool" where
  "validate_position node repeated published =
     bind_res (if is_executable node
               then if published
                    then Inl (InvalidCommentDelivery ''comment delivery must be the final executable node'')
                    else if is_comment_node node \<and> repeated
                    then Inl (InvalidCommentDelivery ''comment delivery cannot execute inside a loop or map'')
                    else Inr (published \<or> is_comment_node node)
               else Inr published) (\<lambda>published.
     try_foldl (\<lambda>published child. validate_position child (repeated \<or> repeats node) published)
       published (child_nodes node))"
  by pat_completeness auto
termination
  by (relation "measure (\<lambda>(n, _, _). size n)") (auto dest: child_nodes_size)

declare validate_position.simps [simp del]

definition validate_comment_profile :: "graph_spec \<Rightarrow> admission_error + unit" where
  "validate_comment_profile graph =
     (case comment_node (gs_root graph) of
        None \<Rightarrow> Inr ()
      | Some node \<Rightarrow>
          bind_res (root_binding node ''url'') (\<lambda>url.
          bind_res (ok_or (InvalidCommentDelivery ''comment URL requires a caller input binding'') url) (\<lambda>path.
          if required_path (gs_initial_input graph) path \<noteq> Some PString
          then Inl (InvalidCommentDelivery ''comment URL must select a required string in initial input'')
          else
            bind_res (root_binding node ''reviewScope'') (\<lambda>scope.
            if (case scope of Some path \<Rightarrow> required_path (gs_initial_input graph) path = None | None \<Rightarrow> False)
            then Inl (InvalidCommentDelivery ''comment reviewScope must select a required initial input value'')
            else bind_res (validate_position (gs_root graph) False False) (\<lambda>_. Inr ())))))"

record unresolved_comment_input =
  uc_url :: string
  uc_review_scope :: "json option"

definition unresolved_input :: "graph_node \<Rightarrow> json \<Rightarrow> admission_error + unresolved_comment_input option" where
  "unresolved_input root input =
     (case comment_node root of
        None \<Rightarrow> Inr None
      | Some node \<Rightarrow>
          bind_res (root_binding node ''url'') (\<lambda>url.
          bind_res (ok_or (InvalidCommentDelivery ''comment URL requires caller input'') url) (\<lambda>path.
          bind_res (ok_or (InvalidCommentDelivery ''comment URL is missing'')
              (case value_at input path of Some value \<Rightarrow> as_str value | None \<Rightarrow> None)) (\<lambda>url.
          bind_res (root_binding node ''reviewScope'') (\<lambda>scope.
          bind_res (case scope of
              None \<Rightarrow> Inr None
            | Some path \<Rightarrow>
                bind_res (ok_or (InvalidCommentDelivery ''comment reviewScope is missing'') (value_at input path))
                  (\<lambda>value. Inr (Some value))) (\<lambda>review_scope.
          Inr (Some \<lparr>uc_url = url, uc_review_scope = review_scope\<rparr>)))))))"

record comment_input =
  cm_url :: string
  cm_destination :: source_comment_destination
  cm_review_scope :: "json option"

definition resolve_comment_input_at ::
    "comment_adapter \<Rightarrow> graph_node \<Rightarrow> json \<Rightarrow> source_forge_identity option
       \<Rightarrow> admission_error + comment_input option" where
  "resolve_comment_input_at ca root input forge =
     bind_res (unresolved_input root input) (\<lambda>unresolved.
     case unresolved of
       None \<Rightarrow> Inr None
     | Some input \<Rightarrow>
         bind_res (map_err InvalidCommentDelivery (ca_destination_with_context ca (uc_url input) forge)) (\<lambda>destination.
         bind_res (case uc_review_scope input of
             Some scope \<Rightarrow> map_err InvalidCommentDelivery (ca_review_scope ca destination scope)
           | None \<Rightarrow> Inr ()) (\<lambda>_.
         Inr (Some \<lparr>cm_url = uc_url input, cm_destination = destination, cm_review_scope = uc_review_scope input\<rparr>))))"

definition source_forge_of :: "resolved_source option \<Rightarrow> source_forge_identity option" where
  "source_forge_of source =
     (case source of
        None \<Rightarrow> None
      | Some source \<Rightarrow> (case rs_remote source of None \<Rightarrow> None | Some remote \<Rightarrow> gr_forge remote))"

definition admitted_comment_input :: "comment_adapter \<Rightarrow> admitted_run \<Rightarrow> admission_error + comment_input option" where
  "admitted_comment_input ca admitted =
     resolve_comment_input_at ca (cg_root (ad_graph admitted)) (ad_initial_input admitted)
       (source_forge_of (ad_source admitted))"

definition validate_comment_input_shape :: "comment_adapter \<Rightarrow> graph_node \<Rightarrow> json \<Rightarrow> admission_error + unit" where
  "validate_comment_input_shape ca root input =
     bind_res (unresolved_input root input) (\<lambda>unresolved.
     case unresolved of
       None \<Rightarrow> Inr ()
     | Some input \<Rightarrow>
         bind_res (map_err InvalidCommentDelivery (ca_destination ca (uc_url input))) (\<lambda>_.
         if (case uc_review_scope input of Some scope \<Rightarrow> as_object scope = None | None \<Rightarrow> False)
         then Inl (InvalidCommentDelivery ''comment reviewScope must be an object'')
         else Inr ()))"


section \<open>The graph-local worker registry\<close>

datatype runtime_role = RoleScript | RoleAgent | RoleDecision | RoleGitDelivery | RoleCommentDelivery

definition runtime_role :: "node_runtime_binding \<Rightarrow> runtime_role" where
  "runtime_role binding =
     (case binding of
        ScriptBinding _ _ \<Rightarrow> RoleScript
      | AgentBinding _ \<Rightarrow> RoleAgent
      | DecisionBinding _ \<Rightarrow> RoleDecision
      | GitDeliveryBinding _ _ \<Rightarrow> RoleGitDelivery
      | CommentDeliveryBinding _ \<Rightarrow> RoleCommentDelivery)"

record resolved_declaration =
  rz_first_node :: node_name
  rz_contract :: worker_contract
  rz_role :: runtime_role

type_synonym resolved_workers = "(worker_ref, resolved_declaration) btree_map"

definition resolve_declaration ::
    "runtime_plan \<Rightarrow> resolved_workers \<Rightarrow> executable_declaration \<Rightarrow> admission_error + resolved_workers" where
  "resolve_declaration runtime resolved declaration =
     (case bm_get (rp_nodes runtime) (xd_name declaration) of
        None \<Rightarrow> Inr resolved
      | Some binding \<Rightarrow>
          (case bm_get resolved (xd_worker declaration) of
             Some first \<Rightarrow>
               if rz_contract first \<noteq> xd_contract declaration \<or> rz_role first \<noteq> runtime_role binding
               then Inl (InconsistentWorkerReuse (xd_worker declaration) (rz_first_node first) (xd_name declaration))
               else Inr resolved
           | None \<Rightarrow>
               Inr (bm_insert (xd_worker declaration)
                 \<lparr>rz_first_node = xd_name declaration, rz_contract = xd_contract declaration,
                  rz_role = runtime_role binding\<rparr> resolved)))"

definition worker_descriptor_of ::
    "graph_spec \<Rightarrow> worker_ref \<Rightarrow> worker_contract \<Rightarrow> admission_error + worker_descriptor" where
  "worker_descriptor_of graph worker contract =
     bind_res (map_err WorkerDescriptorError (TypeId_new ''openengine.result@1'')) (\<lambda>type_id.
     bind_res (map_err WorkerDescriptorError (MediaType_new ''application/json'')) (\<lambda>media_type.
     let descriptor =
       \<lparr>wd_worker = worker, wd_graph_profiles = [FullProfile], wd_binding = builtin_v1, wd_contract = contract,
        wd_capability_policy = \<lparr>cp_autonomy = Strict, cp_permission_policy = po_policy (gs_policy graph)\<rparr>,
        wd_artifact_profile = \<lparr>ap_allowed_type_ids = [type_id], ap_allowed_media_types = [media_type],
                               ap_minimum_redaction = Internal\<rparr>,
        wd_credential_requirements = []\<rparr>
     in bind_res (map_err (\<lambda>error. WorkerDescriptorError (worker_contract_error_text error))
          (descriptor_validate descriptor)) (\<lambda>_. Inr descriptor)))"

type_synonym graph_bound_worker_registry = "(worker_ref, worker_descriptor) btree_map"

definition from_declarations ::
    "graph_spec \<Rightarrow> executable_declaration list \<Rightarrow> runtime_plan \<Rightarrow> admission_error + graph_bound_worker_registry" where
  "from_declarations graph declarations runtime =
     bind_res (try_foldl (resolve_declaration runtime) [] declarations) (\<lambda>resolved.
     bind_res (try_map (\<lambda>(worker, declaration).
         bind_res (worker_descriptor_of graph worker (rz_contract declaration)) (\<lambda>value. Inr (worker, value)))
       resolved) (\<lambda>descriptors. Inr (bm_extend [] descriptors)))"

definition graph_bound_resolve :: "graph_bound_worker_registry \<Rightarrow> worker_registry" where
  "graph_bound_resolve self worker = ok_or (WorkerNotFound worker) (bm_get self worker)"

section \<open>Admission\<close>

definition delivery_mode_of :: "graph_node \<Rightarrow> delivery_mode option" where
  "delivery_mode_of root =
     find_map (\<lambda>declaration. mode_from_worker (xd_worker declaration)) (executable_declarations root)"

definition add_capability :: "source_capability \<Rightarrow> source_capability list \<Rightarrow> source_capability list" where
  "add_capability capability capabilities =
     (if capability \<in> set capabilities then capabilities else capabilities @ [capability])"

definition delivery_capabilities :: "graph_node \<Rightarrow> source_capability list" where
  "delivery_capabilities root =
     fold (\<lambda>declaration capabilities.
         case mode_from_worker (xd_worker declaration) of
           Some mode \<Rightarrow> fold add_capability (required_capabilities mode) capabilities
         | None \<Rightarrow> capabilities)
       (executable_declarations root) []"

definition validate_source_delivery ::
    "admission_host \<Rightarrow> resolved_source option \<Rightarrow> graph_spec \<Rightarrow> admission_error + unit" where
  "validate_source_delivery host source graph =
     (let capabilities = delivery_capabilities (gs_root graph)
      in if capabilities = [] then Inr ()
         else bind_res (ok_or DeliverySourceRequired source) (\<lambda>source.
              map_err InvalidSourceDelivery (ah_delivery_source host source capabilities)))"

definition validate_graph_input :: "graph_spec \<Rightarrow> json \<Rightarrow> admission_error + unit" where
  "validate_graph_input graph initial_input =
     (if gs_profile graph \<noteq> FullProfile then Inl UnsupportedGraphProfile
      else map_err InitialInput (validate_value (gs_initial_input graph) initial_input))"

definition validate_run_environment ::
    "runtime_plan \<Rightarrow> runtime_environment option \<Rightarrow> admission_error + unit" where
  "validate_run_environment runtime environment =
     bind_res (case environment of
         Some environment \<Rightarrow> map_err InvalidEnvironment (environment_validate environment)
       | None \<Rightarrow> Inr ()) (\<lambda>_.
     validate_declared_environment runtime environment)"

record prepared_submission =
  pp_title :: run_title
  pp_graph :: graph_spec
  pp_initial_input :: json
  pp_runtime :: runtime_plan
  pp_environment :: "runtime_environment option"
  pp_declarations :: "executable_declaration list"

definition prepare_submission ::
    "admission_host \<Rightarrow> delivery_policy \<Rightarrow> run_submission_intent \<Rightarrow> admission_error + prepared_submission" where
  "prepare_submission host policy intent =
     bind_res (validate_run_environment (si_runtime intent) (si_environment intent)) (\<lambda>_.
     bind_res (validate_graph_input (si_graph intent) (si_initial_input intent)) (\<lambda>_.
     bind_res (bind_input_limits (si_initial_input intent) (gs_root (si_graph intent))) (\<lambda>root.
     let graph = (si_graph intent)\<lparr>gs_root := root\<rparr>; declarations = executable_declarations root
     in bind_res (validate_executable_bindings host policy declarations (si_runtime intent)) (\<lambda>_.
        bind_res (validate_delivery_concurrency root) (\<lambda>_.
        bind_res (validate_comment_profile graph) (\<lambda>_.
        bind_res (validate_comment_input_shape (ah_comments host) root (si_initial_input intent)) (\<lambda>_.
        Inr \<lparr>pp_title = si_title intent, pp_graph = graph, pp_initial_input = si_initial_input intent,
             pp_runtime = si_runtime intent, pp_environment = si_environment intent,
             pp_declarations = declarations\<rparr>)))))))"

definition verify_submission :: "admission_host \<Rightarrow> prepared_submission \<Rightarrow> admission_error + compiled_graph_ir" where
  "verify_submission host prepared =
     bind_res (from_declarations (pp_graph prepared) (pp_declarations prepared) (pp_runtime prepared)) (\<lambda>registry.
     map_err GraphVerification (verify_graph (ah_canonical host) (pp_graph prepared) (graph_bound_resolve registry)))"

definition submission_intent :: "run_submission \<Rightarrow> run_submission_intent" where
  "submission_intent submission =
     \<lparr>si_title = su_title submission, si_graph = su_graph submission, si_initial_input = su_initial_input submission,
      si_runtime = su_runtime submission, si_environment = su_environment submission, si_branch = None,
      si_submission_key = su_submission_key submission\<rparr>"

definition admit_with_context ::
    "admission_host \<Rightarrow> delivery_policy \<Rightarrow> run_submission \<Rightarrow> admission_error + admitted_run" where
  "admit_with_context host policy submission =
     bind_res (prepare_submission host policy (submission_intent submission)) (\<lambda>prepared.
     bind_res (validate_source_delivery host (su_source submission) (pp_graph prepared)) (\<lambda>_.
     bind_res (resolve_comment_input_at (ah_comments host) (gs_root (pp_graph prepared)) (pp_initial_input prepared)
         (source_forge_of (su_source submission))) (\<lambda>_.
     bind_res (verify_submission host prepared) (\<lambda>verified.
     Inr \<lparr>ad_title = pp_title prepared, ad_graph = verified, ad_initial_input = pp_initial_input prepared,
          ad_runtime = pp_runtime prepared, ad_environment = pp_environment prepared,
          ad_source = su_source submission\<rparr>))))"

definition validate_intent_with_context ::
    "admission_host \<Rightarrow> delivery_policy \<Rightarrow> run_submission_intent \<Rightarrow> admission_error + unit" where
  "validate_intent_with_context host policy intent =
     bind_res (prepare_submission host policy intent) (\<lambda>prepared.
     bind_res (verify_submission host prepared) (\<lambda>_. Inr ()))"

definition validate_profile_with_context ::
    "admission_host \<Rightarrow> delivery_policy \<Rightarrow> graph_spec \<Rightarrow> runtime_plan \<Rightarrow> admission_error + unit" where
  "validate_profile_with_context host policy graph runtime =
     (if gs_profile graph \<noteq> FullProfile then Inl UnsupportedGraphProfile
      else
        let declarations = executable_declarations (gs_root graph)
        in bind_res (validate_executable_bindings host policy declarations runtime) (\<lambda>_.
           bind_res (validate_delivery_concurrency (gs_root graph)) (\<lambda>_.
           bind_res (validate_comment_profile graph) (\<lambda>_.
           bind_res (from_declarations graph declarations runtime) (\<lambda>registry.
           bind_res (map_err GraphVerification (verify_graph (ah_canonical host) graph (graph_bound_resolve registry))) (\<lambda>_. Inr ()))))))"

definition stack_workers :: "stack_delivery \<Rightarrow> worker_ref list" where
  "stack_workers delivery =
     (case delivery of
        StackMerge \<Rightarrow> [GIT_DELIVERY_MERGE_V2_WORKER_REF, GIT_DELIVERY_MERGE_V3_WORKER_REF]
      | StackedPullRequests \<Rightarrow> [GIT_DELIVERY_PR_V2_WORKER_REF])"

definition validate_stack_profile ::
    "admission_host \<Rightarrow> graph_spec \<Rightarrow> runtime_plan \<Rightarrow> stack_delivery \<Rightarrow> admission_error + unit" where
  "validate_stack_profile host graph runtime delivery =
     bind_res (validate_profile_with_context host DeliveryRequired graph runtime) (\<lambda>_.
     if \<not> list_ex (\<lambda>declaration. xd_worker declaration \<in> set (stack_workers delivery))
           (executable_declarations (gs_root graph))
     then Inl (StackDeliveryRequired delivery)
     else
       case find (\<lambda>(node, binding).
           case binding of
             AgentBinding agent \<Rightarrow> ''GH_TOKEN'' \<in> set (environment_names (ab_connections agent))
           | _ \<Rightarrow> False) (rp_nodes runtime) of
         Some (node, _) \<Rightarrow> Inl (StackAgentGitHubToken node)
       | None \<Rightarrow> Inr ())"

end
