(* ===== verification/Finish.thy ===== *)
theory Finish
  imports Admission Supervisor_Progress
begin

text \<open>
  How a run ends (\<^verbatim>\<open>zeroshot/src/native_v2_supervisor.rs\<close>, \<open>finish_reduction\<close> and what it calls, and
  \<^verbatim>\<open>native_v2_supervisor/controller.rs\<close>). The terminal result of the reduction passes the delivery
  gate, is latched in the ledger as the completion of the primary graph and is then published. The
  two appends are separate await points, so a client may ask for a force-stop between them; a
  supervisor that starts over on a latched run publishes what was latched.

  Between the two appends the optional postmortem reviews the run
  (\<^verbatim>\<open>native_v2_supervisor/postmortem.rs\<close>), the checkpoints of a failed run are finished and the runtime is
  cleaned up; any of these may refuse the end of the run.

  The record \<open>finish_context\<close> holds what stands outside: the source URL parser, the comment adapters, the
  postmortem's work, the checkpoint store and the runtime cleanup. Closing the run's agent sessions and
  discarding the checkpoints of a successful run return nothing and are left out.
\<close>

section \<open>What stands outside\<close>

record postmortem_report =
  pr_completed_roles :: nat
  pr_failed_roles :: nat
  pr_published_mutations :: nat
  pr_cancelled :: bool

datatype postmortem_error =
    PostmortemUnavailable string
  | PostmortemCleanupUnconfirmed
  | PostmortemPreparation
  | PostmortemCancelled
  | PostmortemStorage

definition postmortem_error_text :: "postmortem_error \<Rightarrow> string" where
  "postmortem_error_text error =
     (case error of
        PostmortemUnavailable message \<Rightarrow> message
      | PostmortemCleanupUnconfirmed \<Rightarrow> ''postmortem provider cleanup could not be confirmed''
      | PostmortemPreparation \<Rightarrow> ''postmortem could not be prepared''
      | PostmortemCancelled \<Rightarrow> ''postmortem cancelled''
      | PostmortemStorage \<Rightarrow> ''postmortem evidence or publication is unavailable'')"

datatype run_runtime_exit = ExitCompleted | ExitFailed | ExitForceStopped | ExitRuntimeLost

record finish_context =
  fc_policy :: delivery_policy
  fc_parse_url :: url_parser
  fc_comments :: comment_adapter
  fc_postmortem :: "(admitted_run \<Rightarrow> run_snapshot \<Rightarrow> terminal_result \<Rightarrow> postmortem_error + postmortem_report) option"
  fc_checkpoints :: "(durable_execution list \<Rightarrow> unit + unit) option"
  fc_cleanup :: "(run_runtime_exit \<Rightarrow> unit + unit) option"

section \<open>Delivery evidence\<close>

text \<open>The last maximum of an iterator, as \<^verbatim>\<open>Iterator::max_by_key\<close> returns it.\<close>

definition max_by_key :: "('a \<Rightarrow> nat) \<Rightarrow> 'a list \<Rightarrow> 'a option" where
  "max_by_key key xs =
     foldl (\<lambda>best x. case best of
              None \<Rightarrow> Some x
            | Some y \<Rightarrow> if key y \<le> key x then Some x else Some y) None xs"

definition settled_position :: "durable_execution \<Rightarrow> history_position option" where
  "settled_position execution =
     (case de_state execution of ExecSettled position _ \<Rightarrow> Some position | _ \<Rightarrow> None)"

definition last_settled_writer :: "node_name btree_set \<Rightarrow> durable_execution list \<Rightarrow> durable_execution option" where
  "last_settled_writer writers history =
     map_option snd (max_by_key fst (List.map_filter (\<lambda>execution.
       map_option (\<lambda>position. (position, execution)) (settled_position execution))
       (filter (\<lambda>execution. so_node (de_occurrence execution) \<in> set writers) history)))"

definition ended_before :: "durable_execution \<Rightarrow> history_position \<Rightarrow> bool" where
  "ended_before execution dispatched =
     (case de_state execution of
        ExecSettled position _ \<Rightarrow> position < dispatched
      | ExecVoided position _ \<Rightarrow> position < dispatched
      | ExecActive \<Rightarrow> False)"

definition writers_settled :: "node_name btree_set \<Rightarrow> durable_execution list \<Rightarrow> durable_execution \<Rightarrow> bool" where
  "writers_settled writers history last_writer =
     list_all (\<lambda>execution.
       if de_execution execution = de_execution last_writer
          \<or> so_node (de_occurrence execution) \<notin> set writers then True
       else ended_before execution (de_dispatch_position last_writer)) history"

definition receipt_matches_admission :: "finish_context \<Rightarrow> admitted_run \<Rightarrow> json \<Rightarrow> bool" where
  "receipt_matches_admission fc admitted output =
     (case sole_delivery_node admitted of
        Some (_, mode) \<Rightarrow>
          (case ad_source admitted of
             None \<Rightarrow> False
           | Some source \<Rightarrow>
               (case source_target source mode of
                  Inl _ \<Rightarrow> False
                | Inr target \<Rightarrow> is_matching_success_receipt (fc_parse_url fc) output mode target))
      | None \<Rightarrow>
          (case admitted_comment_input (fc_comments fc) admitted of
             Inr (Some comment) \<Rightarrow>
               is_matching_comment_receipt_for (fc_comments fc) output (cm_destination comment)
                 (map_option rs_revision (ad_source admitted))
           | _ \<Rightarrow> False))"

definition delivery_node :: "admitted_run \<Rightarrow> node_name option" where
  "delivery_node admitted =
     opt_or (map_option fst (sole_delivery_node admitted))
       (map_option vn_name (comment_node (cg_root (ad_graph admitted))))"

definition confirmed_delivery_execution ::
    "finish_context \<Rightarrow> admitted_run \<Rightarrow> run_snapshot \<Rightarrow> execution_id option" where
  "confirmed_delivery_execution fc admitted snapshot =
     (case (delivery_node admitted, durable_history snapshot) of
        (Some node, Inr history) \<Rightarrow>
          (let writers = writer_nodes admitted
           in case last_settled_writer writers history of
                None \<Rightarrow> None
              | Some last_writer \<Rightarrow>
                  if so_node (de_occurrence last_writer) \<noteq> node then None
                  else
                    (case de_state last_writer of
                       ExecSettled _ (Verifier output _ _ _) \<Rightarrow>
                         if writers_settled writers history last_writer
                            \<and> receipt_matches_admission fc admitted output
                         then Some (de_execution last_writer) else None
                     | _ \<Rightarrow> None))
      | _ \<Rightarrow> None)"

definition requires_delivery_execution :: "finish_context \<Rightarrow> admitted_run \<Rightarrow> bool" where
  "requires_delivery_execution fc admitted \<longleftrightarrow>
     fc_policy fc = DeliveryRequired \<or> sole_delivery_node admitted \<noteq> None
     \<or> comment_node (cg_root (ad_graph admitted)) \<noteq> None"

definition enforce_delivery_terminal ::
    "finish_context \<Rightarrow> admitted_run \<Rightarrow> run_snapshot \<Rightarrow> terminal_result
       \<Rightarrow> supervisor_error + primary_graph_completion" where
  "enforce_delivery_terminal fc admitted snapshot terminal =
     (let delivery_execution = confirmed_delivery_execution fc admitted snapshot;
          accepted = (case terminal of
              Succeeded _ \<Rightarrow> requires_delivery_execution fc admitted \<longrightarrow> delivery_execution \<noteq> None
            | Failed _ _ \<Rightarrow> True)
      in bind_res (if accepted then Inr terminal
                   else bind_res (map_err (\<lambda>_. SupInvalidState) (EnumLabel_new ''delivery_unconfirmed''))
                          (\<lambda>reason. Inr (Failed reason None))) (\<lambda>result.
         Inr \<lparr>pg_result = result, pg_auxiliary_pending = False, pg_delivery_execution = delivery_execution\<rparr>))"

section \<open>Latching and publishing\<close>

text \<open>A stop request for the run and the loss of its runtime also ask the postmortem not to start.\<close>

definition enabled_postmortem ::
    "finish_context \<Rightarrow> admitted_run \<Rightarrow> supervisor
       \<Rightarrow> (admitted_run \<Rightarrow> run_snapshot \<Rightarrow> terminal_result \<Rightarrow> postmortem_error + postmortem_report) option" where
  "enabled_postmortem fc admitted s =
     (if active_memory_enabled (rp_active_memory (ad_runtime admitted))
         \<and> pc_enabled (ga_postmortem (rp_global_agents (ad_runtime admitted)))
         \<and> \<not> sp_force_requested s \<and> \<not> sp_runtime_lost s
      then fc_postmortem fc else None)"

definition postmortem_log :: "host \<Rightarrow> string \<Rightarrow> supervisor \<Rightarrow> supervisor" where
  "postmortem_log ho line s =
     (case SafeLogLine_new (text_of_string line) of
        Inr line \<Rightarrow> fst (append_events ho [SafeLog None (ck_now (ho_clock ho)) LogSystem line None] s)
      | Inl _ \<Rightarrow> s)"

definition report_message :: "postmortem_report \<Rightarrow> string" where
  "report_message report =
     ''Active Memory postmortem completed: '' @ u64_to_string (pr_completed_roles report) @ '' roles completed, ''
     @ u64_to_string (pr_failed_roles report) @ '' failed, ''
     @ u64_to_string (pr_published_mutations report) @ '' mutations published, cancelled=''
     @ (if pr_cancelled report then ''true'' else ''false'')"

definition run_postmortem ::
    "host \<Rightarrow> finish_context \<Rightarrow> admitted_run \<Rightarrow> run_snapshot \<Rightarrow> terminal_result \<Rightarrow> unit supervised" where
  "run_postmortem ho fc admitted snapshot terminal s =
     (case enabled_postmortem fc admitted s of
        None \<Rightarrow> (s, Inr ())
      | Some work \<Rightarrow>
          (let s = postmortem_log ho ''Active Memory postmortem started'' s
           in case work admitted snapshot terminal of
                Inr report \<Rightarrow> (postmortem_log ho (report_message report) s, Inr ())
              | Inl PostmortemCleanupUnconfirmed \<Rightarrow>
                  (postmortem_log ho ''Active Memory postmortem provider cleanup could not be confirmed'' s,
                   Inl SupCleanupUnconfirmed)
              | Inl error \<Rightarrow>
                  (postmortem_log ho (''Active Memory postmortem skipped or failed: '' @ postmortem_error_text error) s,
                   Inr ())))"

text \<open>The latched result, and whether this call latched it.\<close>

definition latch_result ::
    "host \<Rightarrow> finish_context \<Rightarrow> admitted_run \<Rightarrow> run_snapshot \<Rightarrow> terminal_result \<Rightarrow> (terminal_result \<times> bool) supervised" where
  "latch_result ho fc admitted snapshot terminal =
     (case sn_primary_graph snapshot of
        Some primary \<Rightarrow>
          bind_sup (if pg_auxiliary_pending primary
                    then bind_sup (append_events ho [RunTokenUsageObserved None]) (\<lambda>_. lift_res (Inr ()))
                    else lift_res (Inr ())) (\<lambda>_.
          lift_res (Inr (pg_result primary, False)))
      | None \<Rightarrow>
          bind_sup (lift_res (enforce_delivery_terminal fc admitted snapshot terminal)) (\<lambda>completion s.
          bind_sup (append_events ho [PrimaryGraphCompleted (pg_result completion)
                      (enabled_postmortem fc admitted s \<noteq> None) (pg_delivery_execution completion)]) (\<lambda>latched.
          lift_res (bind_res (ok_or SupInvalidState (sn_primary_graph latched)) (\<lambda>primary.
            Inr (pg_result primary, True)))) s))"

definition latch_primary_graph ::
    "host \<Rightarrow> finish_context \<Rightarrow> admitted_run \<Rightarrow> run_snapshot \<Rightarrow> terminal_result \<Rightarrow> terminal_result supervised" where
  "latch_primary_graph ho fc admitted snapshot terminal =
     bind_sup (latch_result ho fc admitted snapshot terminal) (\<lambda>(result, latched).
     bind_sup (if latched then run_postmortem ho fc admitted snapshot result else lift_res (Inr ())) (\<lambda>_.
     lift_res (Inr result)))"

definition finish_failed_checkpoints ::
    "finish_context \<Rightarrow> bool \<Rightarrow> run_snapshot \<Rightarrow> supervisor_error + unit" where
  "finish_failed_checkpoints fc succeeded snapshot =
     (if succeeded then Inr ()
      else case fc_checkpoints fc of
        None \<Rightarrow> Inr ()
      | Some finish \<Rightarrow> bind_res (durable_history snapshot) (\<lambda>history. map_err (\<lambda>_. SupCheckpoint) (finish history)))"

definition cleanup_runtime :: "finish_context \<Rightarrow> run_runtime_exit \<Rightarrow> supervisor_error + unit" where
  "cleanup_runtime fc exit =
     (case fc_cleanup fc of
        Some cleanup \<Rightarrow> map_err (\<lambda>_. SupRuntimeCleanup) (cleanup exit)
      | None \<Rightarrow> Inr ())"

definition close_runtime :: "finish_context \<Rightarrow> run_snapshot \<Rightarrow> terminal_result \<Rightarrow> supervisor_error + unit" where
  "close_runtime fc snapshot terminal =
     (let succeeded = (case terminal of Succeeded _ \<Rightarrow> True | Failed _ _ \<Rightarrow> False)
      in bind_res (finish_failed_checkpoints fc succeeded snapshot) (\<lambda>_.
         cleanup_runtime fc (if succeeded then ExitCompleted else ExitFailed)))"

definition append_terminal :: "host \<Rightarrow> terminal_result \<Rightarrow> terminal_result supervised" where
  "append_terminal ho terminal =
     bind_sup (lift_res (map_err SupLedger (terminal_events (ho_clock ho) terminal))) (\<lambda>events.
     bind_sup (append_events ho events) (\<lambda>appended.
     lift_res (ok_or SupInvalidState (sn_terminal appended))))"

definition finish_reduction ::
    "host \<Rightarrow> finish_context \<Rightarrow> admitted_run \<Rightarrow> run_snapshot \<Rightarrow> terminal_result \<Rightarrow> terminal_result supervised" where
  "finish_reduction ho fc admitted snapshot terminal =
     bind_sup (latch_primary_graph ho fc admitted snapshot terminal) (\<lambda>terminal.
     bind_sup (lift_res (close_runtime fc snapshot terminal)) (\<lambda>_.
     append_terminal ho terminal))"

text \<open>The interleaving of these steps with a client that asks for a force-stop, with the loss of the runtime
  and with the postmortem's own observations.\<close>

datatype finish_phase =
    Latching run_snapshot terminal_result
  | Reviewing run_snapshot terminal_result
  | Closing run_snapshot terminal_result
  | Publishing terminal_result
  | Published terminal_result
  | FinishBroken supervisor_error

inductive finish_step ::
    "host \<Rightarrow> finish_context \<Rightarrow> admitted_run \<Rightarrow> supervisor \<Rightarrow> finish_phase \<Rightarrow> supervisor \<Rightarrow> finish_phase \<Rightarrow> bool"
  for ho fc admitted where
  latch_ok: "latch_result ho fc admitted snapshot terminal s = (s', Inr (result, latched)) \<Longrightarrow>
    finish_step ho fc admitted s (Latching snapshot terminal) s'
      (if latched then Reviewing snapshot result else Closing snapshot result)"
| latch_err: "latch_result ho fc admitted snapshot terminal s = (s', Inl e) \<Longrightarrow>
    finish_step ho fc admitted s (Latching snapshot terminal) s' (FinishBroken e)"
| review_ok: "run_postmortem ho fc admitted snapshot result s = (s', Inr ()) \<Longrightarrow>
    finish_step ho fc admitted s (Reviewing snapshot result) s' (Closing snapshot result)"
| review_err: "run_postmortem ho fc admitted snapshot result s = (s', Inl e) \<Longrightarrow>
    finish_step ho fc admitted s (Reviewing snapshot result) s' (FinishBroken e)"
| close_ok: "close_runtime fc snapshot result = Inr () \<Longrightarrow>
    finish_step ho fc admitted s (Closing snapshot result) s (Publishing result)"
| close_err: "close_runtime fc snapshot result = Inl e \<Longrightarrow>
    finish_step ho fc admitted s (Closing snapshot result) s (FinishBroken e)"
| publish_ok: "append_terminal ho result s = (s', Inr terminal) \<Longrightarrow>
    finish_step ho fc admitted s (Publishing result) s' (Published terminal)"
| publish_err: "append_terminal ho result s = (s', Inl e) \<Longrightarrow>
    finish_step ho fc admitted s (Publishing result) s' (FinishBroken e)"
| finish_observe: "append_events ho evs s = (s', Inr snap') \<Longrightarrow> \<forall>ev \<in> set evs. is_observation ev \<Longrightarrow>
    finish_step ho fc admitted s phase s' phase"
| finish_flag: "finish_step ho fc admitted s phase (s\<lparr>sp_force_requested := True\<rparr>) phase"
| finish_request: "sp_force_requested s \<Longrightarrow> request_stop ho s = (s', Inr ()) \<Longrightarrow>
    finish_step ho fc admitted s phase s' phase"
| finish_lost: "finish_step ho fc admitted s phase (s\<lparr>sp_runtime_lost := True\<rparr>) phase"

inductive finishing ::
    "host \<Rightarrow> finish_context \<Rightarrow> supervisor \<Rightarrow> run_program \<Rightarrow> supervisor \<Rightarrow> finish_phase \<Rightarrow> bool"
  for ho fc s0 where
  finishing_decided: "driven ho s0 program s (Deciding snapshot) \<Longrightarrow>
    advance ho program snapshot s = (s', Inr (Finishing terminal)) \<Longrightarrow>
    finishing ho fc s0 program s' (Latching snapshot terminal)"
| finishing_resumed: "initialize ho s0 = (s, Inr (Finishing terminal, program)) \<Longrightarrow>
    load s0 = (s0, Inr stored) \<Longrightarrow>
    finishing ho fc s0 program s (Latching (sr_snapshot stored) terminal)"
| finishing_step: "finishing ho fc s0 program s phase \<Longrightarrow>
    finish_step ho fc (pm_admitted program) s phase s' phase' \<Longrightarrow> finishing ho fc s0 program s' phase'"

section \<open>What confirmed evidence shows\<close>

lemma max_by_key_Some:
  assumes "xs \<noteq> []"
  obtains x where "max_by_key key xs = Some x" "x \<in> set xs" "\<forall>y \<in> set xs. key y \<le> key x"
proof -
  let ?f = "\<lambda>best x. case best of None \<Rightarrow> Some x | Some y \<Rightarrow> if key y \<le> key x then Some x else Some y"
  have step: "\<exists>x. foldl ?f (Some b) ys = Some x \<and> x \<in> insert b (set ys) \<and> (\<forall>y \<in> insert b (set ys). key y \<le> key x)" for b ys
  proof (induction ys arbitrary: b)
    case (Cons y ys)
    from Cons[of "if key b \<le> key y then y else b"] show ?case by (fastforce split: if_splits)
  qed simp
  from assms obtain a ys where "xs = a # ys" by (cases xs) auto
  with step[of a ys] that show ?thesis by (auto simp: max_by_key_def)
qed

lemma settled_position_iff: "settled_position e = Some p \<longleftrightarrow> (\<exists>out. de_state e = ExecSettled p out)"
  by (auto simp: settled_position_def split: durable_execution_state.splits)

lemma map_filter_member: "y \<in> set (List.map_filter f xs) \<longleftrightarrow> (\<exists>x \<in> set xs. f x = Some y)"
  by (induction xs) (auto simp: List.map_filter_simps split: option.splits)

lemma last_settled_writer_SomeD:
  assumes "last_settled_writer writers history = Some w"
  obtains p out where "w \<in> set history" "so_node (de_occurrence w) \<in> set writers" "de_state w = ExecSettled p out"
    "\<forall>e \<in> set history. so_node (de_occurrence e) \<in> set writers \<longrightarrow>
       (\<forall>q out'. de_state e = ExecSettled q out' \<longrightarrow> q \<le> p)"
proof -
  let ?xs = "List.map_filter (\<lambda>execution. map_option (\<lambda>position. (position, execution)) (settled_position execution))
       (filter (\<lambda>execution. so_node (de_occurrence execution) \<in> set writers) history)"
  have mem: "(q, e) \<in> set ?xs \<longleftrightarrow> e \<in> set history \<and> so_node (de_occurrence e) \<in> set writers
      \<and> (\<exists>out. de_state e = ExecSettled q out)" for q e
    by (auto simp: map_filter_member settled_position_iff)
  from assms have "?xs \<noteq> []" by (auto simp: last_settled_writer_def max_by_key_def)
  then obtain x where x: "max_by_key fst ?xs = Some x" "x \<in> set ?xs" "\<forall>y \<in> set ?xs. fst y \<le> fst x"
    by (rule max_by_key_Some)
  obtain p where p: "x = (p, w)" using assms x(1) by (cases x) (simp add: last_settled_writer_def)
  with x(2) mem obtain out where "w \<in> set history" "so_node (de_occurrence w) \<in> set writers"
    "de_state w = ExecSettled p out" by blast
  moreover have "q \<le> p" if "e \<in> set history" "so_node (de_occurrence e) \<in> set writers" "de_state e = ExecSettled q out'" for e q out'
    using x(3) p mem[of q e] that by fastforce
  ultimately show ?thesis using that by blast
qed

text \<open>The evidence for a confirmed delivery: the delivery node's own settlement is the last one of any
  writer, every other writer ended before it was dispatched, and its receipt is the one admitted.\<close>

definition delivery_evidence ::
    "finish_context \<Rightarrow> admitted_run \<Rightarrow> durable_execution list \<Rightarrow> durable_execution \<Rightarrow> json \<Rightarrow> bool" where
  "delivery_evidence fc admitted history w output \<longleftrightarrow>
     w \<in> set history \<and> delivery_node admitted = Some (so_node (de_occurrence w))
     \<and> so_node (de_occurrence w) \<in> set (writer_nodes admitted)
     \<and> (\<exists>p signals diagnostic artifacts. de_state w = ExecSettled p (Verifier output signals diagnostic artifacts))
     \<and> (\<forall>e \<in> set history. so_node (de_occurrence e) \<in> set (writer_nodes admitted) \<longrightarrow>
          de_execution e \<noteq> de_execution w \<longrightarrow> ended_before e (de_dispatch_position w))
     \<and> receipt_matches_admission fc admitted output"

lemma confirmed_evidence:
  assumes "confirmed_delivery_execution fc admitted snapshot = Some x"
  obtains history w delivered where "durable_history snapshot = Inr history"
    "delivery_evidence fc admitted history w delivered" "de_execution w = x"
proof -
  from assms obtain node H w p delivered sg dg ar where c: "delivery_node admitted = Some node"
    "durable_history snapshot = Inr H" "last_settled_writer (writer_nodes admitted) H = Some w"
    "so_node (de_occurrence w) = node" "de_state w = ExecSettled p (Verifier delivered sg dg ar)"
    "writers_settled (writer_nodes admitted) H w" "receipt_matches_admission fc admitted delivered" "de_execution w = x"
    unfolding confirmed_delivery_execution_def Let_def
    by (auto split: option.splits sum.splits if_splits durable_execution_state.splits worker_outcome.splits)
  from c(3) obtain q out where "w \<in> set H" "so_node (de_occurrence w) \<in> set (writer_nodes admitted)"
    by (rule last_settled_writer_SomeD)
  with c have "delivery_evidence fc admitted H w delivered"
    by (auto simp: delivery_evidence_def writers_settled_def list_all_iff)
  with that c(2,8) show ?thesis by blast
qed

text \<open>Conversely, evidence of that shape is confirmed, provided executions settle after their dispatch.\<close>

lemma evidence_confirmed:
  assumes "durable_history snapshot = Inr history" and "delivery_evidence fc admitted history w output"
    and "distinct (map de_execution history)"
    and "\<And>e p out. e \<in> set history \<Longrightarrow> de_state e = ExecSettled p out \<Longrightarrow> de_dispatch_position e \<le> p"
  shows "confirmed_delivery_execution fc admitted snapshot = Some (de_execution w)"
proof -
  let ?ws = "writer_nodes admitted"
  from assms(2) obtain p sg dg ar where w: "w \<in> set history" "delivery_node admitted = Some (so_node (de_occurrence w))"
    "so_node (de_occurrence w) \<in> set ?ws" "de_state w = ExecSettled p (Verifier output sg dg ar)"
    "\<forall>e \<in> set history. so_node (de_occurrence e) \<in> set ?ws \<longrightarrow> de_execution e \<noteq> de_execution w \<longrightarrow>
       ended_before e (de_dispatch_position w)" "receipt_matches_admission fc admitted output"
    unfolding delivery_evidence_def by blast
  have "settled_position w = Some p" using w(4) by (auto simp: settled_position_iff)
  then have "(p, w) \<in> set (List.map_filter (\<lambda>e. map_option (\<lambda>position. (position, e)) (settled_position e))
      (filter (\<lambda>e. so_node (de_occurrence e) \<in> set ?ws) history))" (is "_ \<in> set ?xs")
    using w(1,3) by (auto simp: map_filter_member)
  then have "?xs \<noteq> []" by auto
  then obtain x where "max_by_key fst ?xs = Some x" by (rule max_by_key_Some)
  then have "last_settled_writer ?ws history \<noteq> None" unfolding last_settled_writer_def by simp
  then obtain v where v: "last_settled_writer ?ws history = Some v" by auto
  then obtain q out where q: "v \<in> set history" "so_node (de_occurrence v) \<in> set ?ws" "de_state v = ExecSettled q out"
    "\<forall>e \<in> set history. so_node (de_occurrence e) \<in> set ?ws \<longrightarrow> (\<forall>r out'. de_state e = ExecSettled r out' \<longrightarrow> r \<le> q)"
    by (rule last_settled_writer_SomeD)
  have "de_execution v = de_execution w"
  proof (rule ccontr)
    assume "de_execution v \<noteq> de_execution w"
    then have "q < de_dispatch_position w" using w(5) q(1-3) by (auto simp: ended_before_def)
    moreover have "p \<le> q" using q(4) w(1,3,4) by blast
    ultimately show False using assms(4)[OF w(1,4)] by simp
  qed
  then have "v = w" using assms(3) q(1) w(1) by (simp add: distinct_map inj_on_def)
  moreover have "writers_settled ?ws history w" using w(5) by (auto simp: writers_settled_def list_all_iff)
  ultimately show ?thesis using assms(1) v w by (simp add: confirmed_delivery_execution_def)
qed

text \<open>What an execution of the history delivered is its output in the snapshot.\<close>

lemma history_output:
  assumes "durable_history s = Inr H" and "nodes_ok n s" and "seed_ok s" and "e \<in> set H"
    and "de_state e = ExecSettled p (Verifier output sg dg ar)"
  shows "execution_output s (de_execution e) = Some output"
proof -
  let ?o = "seed_offset (sn_execution_seed s)"
  have wf: "bm_wf (sn_executions s)" using assms(2) by (simp add: nodes_ok_def)
  from assms(1) obtain xs where xs: "list_all2 (\<lambda>v e. offset_execution ?o v = Inr e) (map snd (sn_executions s)) xs"
    and H: "set H = set xs \<union> set (sn_execution_seed s)"
    by (auto simp: durable_history_def try_map_ok elim!: bind_resE)
  show ?thesis
  proof (cases "e \<in> set xs")
    case True
    then obtain i where i: "i < length (sn_executions s)" "e = xs ! i"
      using list_all2_lengthD[OF xs] by (auto simp: in_set_conv_nth)
    obtain x v where xv: "sn_executions s ! i = (x, v)" by force
    then have get: "bm_get (sn_executions s) x = Some v" using i(1) nth_mem[OF i(1)] wf by (simp add: bm_get_iff)
    then have "node_ok n (sn_run_id s) x v" using nodes_okD(1)[OF assms(2)] by blast
    moreover have "offset_execution ?o v = Inr e" using list_all2_nthD[OF xs, of i] i xv by simp
    ultimately have "de_execution e = x" "\<exists>at. nd_state v = NodeSettled at (Verifier output sg dg ar)"
      using assms(5)
      by (auto simp: offset_execution_def node_durable_execution_def offset_state_def durable_node_state_def
          node_ok_def elim!: bind_resE split: node_state.splits durable_execution_state.splits)
    then show ?thesis using get by (auto simp: execution_output_def)
  next
    case False
    then have seed: "e \<in> set (sn_execution_seed s)" using assms(4) H by blast
    then have "bm_get (sn_executions s) (de_execution e) = None"
      using assms(2) unfolding nodes_ok_def by (metis imageI not_Some_eq)
    moreover have "distinct (map de_execution (sn_execution_seed s))"
      using assms(3) unfolding seed_ok_def
      by (auto intro!: sorted_wrt_less_distinct elim!: sorted_wrt_mono_rel[rotated])
    then have "find (\<lambda>prior. de_execution prior = de_execution e) (sn_execution_seed s) = Some e"
      using seed by (induction "sn_execution_seed s") (auto simp: find_Some_iff in_set_conv_nth distinct_conv_nth)
    ultimately show ?thesis using assms(5) by (simp add: execution_output_def)
  qed
qed

section \<open>The gate is kept until the result is published\<close>

lemma append_events_batch:
  assumes "append_events ho evs s = (s', Inr snap')" and "current ho s snap" and "P snap []"
    and "\<And>s t n ev pre. run_ok n s \<Longrightarrow> sn_terminal s = None \<Longrightarrow> ev \<in> set evs \<Longrightarrow>
      event_step (ho_codec ho) (Suc n) s (prepare_event s ev) t \<Longrightarrow> P s pre \<Longrightarrow>
      P (t\<lparr>sn_cursor := cursor_for (Suc n)\<rparr>) (pre @ [ev])"
  shows "P snap' evs"
proof -
  from assms(1,2) obtain run run' result where x: "append_locked (ho_codec ho) run evs = Inr (result, run')"
    "run_inv (ho_codec ho) (sp_run_id s) run" "sr_snapshot (fr_stored run) = snap"
    "sr_snapshot (fr_stored run') = snap'" by (rule append_events_cases)
  show ?thesis unfolding x(4)[symmetric] by (rule append_locked_batch[OF x(1,2)]) (use x(3) assms(3,4) in auto)
qed

lemma execution_output_cong:
  "sn_executions t = sn_executions s \<Longrightarrow> sn_execution_seed t = sn_execution_seed s \<Longrightarrow>
   execution_output t x = execution_output s x"
  by (simp only: execution_output_def)

lemma same_core_output: "same_core s t \<Longrightarrow> execution_output t x = execution_output s x"
proof -
  assume c: "same_core s t"
  then have "map_option nd_state (map_option node_core (bm_get (sn_executions t) x))
      = map_option nd_state (map_option node_core (bm_get (sn_executions s) x))" by (simp add: same_core_def)
  then have state: "map_option nd_state (bm_get (sn_executions t) x) = map_option nd_state (bm_get (sn_executions s) x)"
    by (simp add: option.map_comp comp_def node_core_def)
  have seed: "sn_execution_seed t = sn_execution_seed s" using c by (simp add: same_core_def)
  show ?thesis
  proof (cases "bm_get (sn_executions t) x")
    case None
    then show ?thesis using state seed by (simp add: execution_output_def)
  next
    case (Some a)
    then obtain b where "bm_get (sn_executions s) x = Some b" "nd_state b = nd_state a"
      using state by (cases "bm_get (sn_executions s) x") auto
    then show ?thesis using Some by (simp add: execution_output_def)
  qed
qed

text \<open>The gate: a latched success that needs a delivery carries the admitted receipt.\<close>

definition gated :: "finish_context \<Rightarrow> admitted_run \<Rightarrow> run_snapshot \<Rightarrow> bool" where
  "gated fc admitted snap \<longleftrightarrow>
     (\<forall>p v. sn_primary_graph snap = Some p \<longrightarrow> pg_result p = Succeeded v \<longrightarrow> requires_delivery_execution fc admitted \<longrightarrow>
        (\<exists>doc. delivery_receipt snap = Some doc \<and> receipt_matches_admission fc admitted doc))"

definition same_verdict :: "terminal_result \<Rightarrow> terminal_result \<Rightarrow> bool" where
  "same_verdict a b =
     (case (a, b) of
        (Succeeded v, Succeeded w) \<Rightarrow> v = w
      | (Failed r _, Failed q _) \<Rightarrow> r = q
      | _ \<Rightarrow> False)"

lemma same_verdict_prepare [simp]: "same_verdict (prepare_result s r) r"
  by (cases r) (auto simp: same_verdict_def prepare_result_def)

lemma same_verdict_Succeeded: "same_verdict (Succeeded v) r \<longleftrightarrow> r = Succeeded v"
  by (cases r) (auto simp: same_verdict_def)

lemma gated_cong:
  "sn_primary_graph t = sn_primary_graph s \<or> sn_primary_graph t = map_option (\<lambda>p. p\<lparr>pg_auxiliary_pending := False\<rparr>) (sn_primary_graph s) \<Longrightarrow>
   (\<And>x. execution_output t x = execution_output s x) \<Longrightarrow> gated fc admitted s \<Longrightarrow> gated fc admitted t"
  by (auto simp: gated_def delivery_receipt_def cong: option.case_cong)

lemma gated_core: "same_core s t \<Longrightarrow> gated fc admitted s \<Longrightarrow> gated fc admitted t"
  by (rule gated_cong) (auto simp: same_core_def same_core_output)

text \<open>Only the completion of the graph could break the gate: every other event keeps it.\<close>

definition completes :: "run_event \<Rightarrow> bool" where
  "completes ev = (case ev of PrimaryGraphCompleted _ _ _ \<Rightarrow> True | _ \<Rightarrow> False)"

lemma completes_prepare [simp]: "completes (prepare_event s ev) = completes ev"
  by (cases ev) (simp_all add: completes_def prepare_event_def)

lemma observation_not_completes: "is_observation ev \<Longrightarrow> \<not> completes ev"
  by (cases ev) (simp_all add: is_observation_def completes_def)

lemma event_step_incomplete:
  assumes "event_step cd n s ev t" and "\<not> completes ev" and "sn_primary_graph s = None"
  shows "sn_primary_graph t = None"
  using assms(1)
proof cases
  case (step_log ex stream line kind ts)
  then show ?thesis using assms(3) by (auto elim!: failure_diagnostic_shape simp: put_node_def)
qed (use assms(2,3) in \<open>auto simp: completes_def put_node_def dest!: add_usage_shape\<close>)

lemma output_extends:
  assumes "extends s t" and "nodes_ok n t" and "execution_output s x = Some doc"
  shows "execution_output t x = Some doc"
proof (cases "bm_get (sn_executions s) x")
  case (Some a)
  then obtain c sg dg ar where a: "nd_state a = NodeSettled c (Verifier doc sg dg ar)"
    using assms(3) by (auto simp: execution_output_def split: node_state.splits worker_outcome.splits)
  from assms(1) Some obtain b where "bm_get (sn_executions t) x = Some b" "node_extends a b"
    unfolding extends_def by blast
  then show ?thesis using a by (simp add: execution_output_def node_extends_def)
next
  case None
  then obtain e where e: "find (\<lambda>prior. de_execution prior = x) (sn_execution_seed s) = Some e"
    using assms(3) by (auto simp: execution_output_def split: option.splits)
  obtain more where more: "sn_execution_seed t = sn_execution_seed s @ more"
    using extendsD(5)[OF assms(1)] by (auto simp: prefix_def)
  have "e \<in> set (sn_execution_seed s) \<and> de_execution e = x"
    using e by (auto simp: find_Some_iff)
  then have "x \<in> de_execution ` set (sn_execution_seed t)" by (auto simp: more)
  then have "bm_get (sn_executions t) x = None" using assms(2) unfolding nodes_ok_def by (metis not_Some_eq)
  moreover have "find P (xs @ ys) = find P xs" if "find P xs \<noteq> None" for P and xs ys :: "durable_execution list"
    using that by (induction xs) auto
  ultimately show ?thesis using assms(3) None e by (simp add: execution_output_def more)
qed

lemma gated_extends:
  assumes "extends s t" and "nodes_ok n t" and "sn_primary_graph s \<noteq> None" and "gated fc admitted s"
  shows "gated fc admitted t"
  unfolding gated_def
proof (intro allI impI)
  fix q v assume q: "sn_primary_graph t = Some q" "pg_result q = Succeeded v" "requires_delivery_execution fc admitted"
  from assms(3) obtain p where p: "sn_primary_graph s = Some p" by blast
  with extendsD(8)[OF assms(1)] q have same: "pg_result q = pg_result p"
    "pg_delivery_execution q = pg_delivery_execution p" by auto
  with assms(4) p q obtain doc where "delivery_receipt s = Some doc" "receipt_matches_admission fc admitted doc"
    unfolding gated_def by metis
  then show "\<exists>doc. delivery_receipt t = Some doc \<and> receipt_matches_admission fc admitted doc"
    using p q(1) same output_extends[OF assms(1,2)] by (auto simp: delivery_receipt_def split: option.splits)
qed

lemma append_gated:
  assumes "append_events ho evs s = (s', Inr snap')" and "current ho s snap"
    and "\<forall>ev \<in> set evs. \<not> completes ev" and "gated fc admitted snap"
  shows "gated fc admitted snap'"
proof (cases "sn_primary_graph snap")
  case None
  from assms(1,2) have "sn_primary_graph snap' = None"
    by (rule append_events_batch[where P = "\<lambda>t _. sn_primary_graph t = None"])
      (use None assms(3) event_step_incomplete in fastforce)+
  then show ?thesis by (simp add: gated_def)
next
  case (Some p)
  have "extends snap snap'"
  proof (rule append_events_batch[OF assms(1,2), of "\<lambda>t _. extends snap t"])
    fix u t n ev assume "run_ok n u" "sn_terminal u = None" "extends snap u"
      and st: "event_step (ho_codec ho) (Suc n) u (prepare_event u ev) t"
    then have "extends snap t" using event_step_extends[OF st] extends_trans by (auto simp: run_ok_def)
    then show "extends snap (t\<lparr>sn_cursor := cursor_for (Suc n)\<rparr>)" by (simp add: extends_def)
  qed simp
  moreover from append_events_ok(2)[OF assms(1,2)] obtain n where "nodes_ok n snap'" by (rule currentD)
  ultimately show ?thesis using gated_extends assms(4) Some by blast
qed

text \<open>Latching: the completion is recorded as the gate computed it.\<close>

lemma primary_appended:
  assumes "append_events ho [PrimaryGraphCompleted r b d] s = (s', Inr snap')" and "current ho s snap"
  shows "sn_primary_graph snap' = Some \<lparr>pg_result = prepare_result snap r, pg_auxiliary_pending = b, pg_delivery_execution = d\<rparr>
    \<and> sn_primary_graph snap = None \<and> sn_terminal snap' = None
    \<and> (\<forall>x. execution_output snap' x = execution_output snap x)"
proof -
  let ?P = "\<lambda>t (pre :: run_event list). if pre = [] then t = snap
    else sn_primary_graph t = Some \<lparr>pg_result = prepare_result snap r, pg_auxiliary_pending = b, pg_delivery_execution = d\<rparr>
      \<and> sn_primary_graph snap = None \<and> sn_terminal t = None \<and> (\<forall>x. execution_output t x = execution_output snap x)"
  have "?P snap' [PrimaryGraphCompleted r b d]"
  proof (rule append_events_batch[OF assms, of ?P])
    fix u t n ev pre
    assume e: "ev \<in> set [PrimaryGraphCompleted r b d]"
      and st: "event_step (ho_codec ho) (Suc n) u (prepare_event u ev) t" and p: "?P u pre" and tm: "sn_terminal u = None"
    from e st have step: "sn_primary_graph u = None"
      "t = u\<lparr>sn_primary_graph := Some \<lparr>pg_result = prepare_result u r, pg_auxiliary_pending = b, pg_delivery_execution = d\<rparr>\<rparr>"
      by (auto simp: prepare_event_def event_step_simps)
    with p have "u = snap" by (auto split: if_splits)
    moreover have "execution_output (t\<lparr>sn_cursor := cursor_for (Suc n)\<rparr>) x = execution_output u x" for x
      by (rule execution_output_cong) (simp_all add: step(2))
    ultimately show "?P (t\<lparr>sn_cursor := cursor_for (Suc n)\<rparr>) (pre @ [ev])" using step tm by simp
  qed simp
  then show ?thesis by simp
qed

lemma gate_passed:
  assumes "enforce_delivery_terminal fc admitted old terminal = Inr c" and "pg_result c = Succeeded v"
    and "requires_delivery_execution fc admitted"
  obtains x where "pg_delivery_execution c = Some x" "confirmed_delivery_execution fc admitted old = Some x"
  using assms by (cases terminal) (auto simp: enforce_delivery_terminal_def Let_def elim!: bind_resE split: if_splits)

lemma confirmed_output:
  assumes "confirmed_delivery_execution fc admitted old = Some x" and "run_ok n old" and "same_core old snap"
  obtains doc where "execution_output snap x = Some doc" "receipt_matches_admission fc admitted doc"
proof -
  from assms(1) obtain H w doc where h: "durable_history old = Inr H" "delivery_evidence fc admitted H w doc"
    "de_execution w = x" by (rule confirmed_evidence)
  then obtain p sg dg ar where w: "w \<in> set H" "de_state w = ExecSettled p (Verifier doc sg dg ar)"
    "receipt_matches_admission fc admitted doc" by (auto simp: delivery_evidence_def)
  have "execution_output old x = Some doc"
    using history_output[OF h(1) _ _ w(1,2)] assms(2) h(3) by (auto simp: run_ok_def)
  then show ?thesis using that w(3) same_core_output[OF assms(3)] by simp
qed

lemma latched_gated:
  assumes "latch_result ho fc admitted old terminal s = (s', Inr (result, latched))" and "current ho s snap"
    and "same_core old snap" and "run_ok n old" and "gated fc admitted snap" and "sn_terminal snap = None"
  obtains snap' p where "current ho s' snap'" "gated fc admitted snap'" "sn_terminal snap' = None"
    "sn_primary_graph snap' = Some p" "same_verdict (pg_result p) result"
    "sn_primary_graph old = None \<Longrightarrow> \<exists>c. enforce_delivery_terminal fc admitted old terminal = Inr c
       \<and> same_verdict (pg_result p) (pg_result c)"
proof (cases "sn_primary_graph old")
  case (Some p)
  then have sp: "sn_primary_graph snap = Some p" using assms(3) by (simp add: same_core_def)
  have refl: "same_verdict (pg_result p) (pg_result p)" by (cases "pg_result p") (auto simp: same_verdict_def)
  show ?thesis
  proof (cases "pg_auxiliary_pending p")
    case True
    with assms(1) Some obtain snap' where ap: "append_events ho [RunTokenUsageObserved None] s = (s', Inr snap')"
      and res: "result = pg_result p"
      by (auto simp: latch_result_def bind_sup_def lift_res_def split: prod.splits sum.splits)
    note a = append_events_ok[OF ap assms(2)]
    have core: "same_core snap snap'" by (rule a(4)) (simp add: is_observation_def)
    show ?thesis
      by (rule that[OF a(2) gated_core[OF core assms(5)]]) (use core sp assms(6) res refl Some in \<open>auto simp: same_core_def\<close>)
  next
    case False
    then have "s' = s" "result = pg_result p"
      using assms(1) Some by (auto simp: latch_result_def bind_sup_def lift_res_def)
    then show ?thesis using that[OF _ assms(5,6) sp] assms(2) refl Some by simp
  qed
next
  case None
  with assms(1) obtain c snap' p where c: "enforce_delivery_terminal fc admitted old terminal = Inr c"
    and ap: "append_events ho [PrimaryGraphCompleted (pg_result c) (enabled_postmortem fc admitted s \<noteq> None)
      (pg_delivery_execution c)] s = (s', Inr snap')"
    and p: "sn_primary_graph snap' = Some p" "result = pg_result p"
    by (auto simp: latch_result_def bind_sup_def lift_res_def ok_or_def elim!: bind_resE
        split: prod.splits sum.splits option.splits)
  note b = primary_appended[OF ap assms(2)]
  then have pd: "pg_delivery_execution p = pg_delivery_execution c" "pg_result p = prepare_result snap (pg_result c)"
    using p by auto
  have "gated fc admitted snap'"
    unfolding gated_def
  proof (intro allI impI)
    fix q v assume q: "sn_primary_graph snap' = Some q" "pg_result q = Succeeded v"
      and req: "requires_delivery_execution fc admitted"
    then have "pg_result c = Succeeded v" using p pd by (cases "pg_result c") (auto simp: prepare_result_def split: if_splits)
    then obtain x where x: "pg_delivery_execution c = Some x" "confirmed_delivery_execution fc admitted old = Some x"
      using gate_passed[OF c _ req] by blast
    from x(2) assms(4,3) obtain doc where "execution_output snap x = Some doc" "receipt_matches_admission fc admitted doc"
      by (rule confirmed_output)
    then show "\<exists>doc. delivery_receipt snap' = Some doc \<and> receipt_matches_admission fc admitted doc"
      using q p pd x b by (auto simp: delivery_receipt_def)
  qed
  moreover have "same_verdict (pg_result p) result"
    unfolding p(2) by (cases "pg_result p") (auto simp: same_verdict_def)
  ultimately show ?thesis
    using that[OF append_events_ok(2)[OF ap assms(2)] _ _ p(1)] b c pd by simp
qed

text \<open>The postmortem only observes.\<close>

lemma postmortem_log_keeps:
  assumes "current ho s snap"
  obtains snap' where "current ho (postmortem_log ho line s) snap'" "same_core snap snap'"
proof (cases "SafeLogLine_new (text_of_string line)")
  case (Inr shown)
  let ?ev = "SafeLog None (ck_now (ho_clock ho)) LogSystem shown None"
  obtain s' r where ap: "append_events ho [?ev] s = (s', r)" by force
  show ?thesis
  proof (cases r)
    case (Inl e)
    then have "s' = s" using ap by (auto simp: append_events_def split: sum.splits prod.splits)
    then show ?thesis using that[of snap] assms Inr ap by (simp add: postmortem_log_def same_core_def)
  next
    case (Inr snap')
    with ap have "append_events ho [?ev] s = (s', Inr snap')" by simp
    note a = append_events_ok[OF this assms]
    show ?thesis using that[OF _ a(4)] a(2) ap \<open>SafeLogLine_new (text_of_string line) = Inr shown\<close>
      by (simp add: postmortem_log_def is_observation_def)
  qed
qed (use that[of snap] assms in \<open>simp add: postmortem_log_def same_core_def\<close>)

lemma run_postmortem_keeps:
  assumes "run_postmortem ho fc admitted old result s = (s', r)" and "current ho s snap"
  obtains snap' where "current ho s' snap'" "same_core snap snap'"
proof (cases "enabled_postmortem fc admitted s")
  case None
  then show ?thesis using that[of snap] assms by (auto simp: run_postmortem_def same_core_def)
next
  case (Some work)
  obtain mid where mid: "current ho (postmortem_log ho ''Active Memory postmortem started'' s) mid" "same_core snap mid"
    using postmortem_log_keeps[OF assms(2)] by blast
  from Some assms(1) obtain line where "s' = postmortem_log ho line (postmortem_log ho ''Active Memory postmortem started'' s)"
    by (auto simp: run_postmortem_def Let_def split: sum.splits postmortem_error.splits)
  with postmortem_log_keeps[OF mid(1), of line] mid(2) same_core_trans that show ?thesis by metis
qed

text \<open>Publishing: the terminal event keeps the latched verdict.\<close>

lemma terminal_events_shape:
  assumes "terminal_events ck r = Inr evs"
  obtains logs where "evs = logs @ [TerminalEvent r]" "\<forall>ev \<in> set logs. is_observation ev"
  using assms that[of "[]"] that[of "butlast evs"] error_log_observation
  by (cases r) (auto simp: terminal_events_def elim!: bind_resE)

lemma published_gated:
  assumes "append_terminal ho result s = (s', Inr t)" and "current ho s snap" and "gated fc admitted snap"
    and "sn_primary_graph snap = Some p" and "same_verdict (pg_result p) result"
  obtains snap' q where "current ho s' snap'" "gated fc admitted snap'" "sn_terminal snap' = Some t"
    "sn_primary_graph snap' = Some q" "pg_result q = pg_result p" "same_verdict t result"
proof -
  from assms(1) obtain evs snap' where evs: "terminal_events (ho_clock ho) result = Inr evs"
    and ap: "append_events ho evs s = (s', Inr snap')" and t: "sn_terminal snap' = Some t"
    by (auto simp: append_terminal_def bind_sup_def lift_res_def map_err_def ok_or_def
        split: prod.splits sum.splits option.splits)
  from evs obtain logs where logs: "evs = logs @ [TerminalEvent result]" "\<forall>ev \<in> set logs. is_observation ev"
    by (rule terminal_events_shape)
  let ?P = "\<lambda>t (pre :: run_event list). gated fc admitted t
    \<and> (\<exists>q. sn_primary_graph t = Some q \<and> pg_result q = pg_result p)
    \<and> (\<forall>r. sn_terminal t = Some r \<longrightarrow> same_verdict r result)"
  have "sn_terminal snap = None" by (rule append_events_ok(7)[OF ap assms(2)])
  then have "?P snap []" using assms(3,4) by auto
  with ap assms(2) have "?P snap' evs"
  proof (rule append_events_batch)
    fix u t n ev pre
    assume e: "ev \<in> set evs" and st: "event_step (ho_codec ho) (Suc n) u (prepare_event u ev) t"
      and P: "?P u pre"
    show "?P (t\<lparr>sn_cursor := cursor_for (Suc n)\<rparr>) (pre @ [ev])"
    proof (cases "is_observation ev")
      case True
      then have core: "same_core u t" using st event_step_core is_observation_prepare by metis
      then have "same_core u (t\<lparr>sn_cursor := cursor_for (Suc n)\<rparr>)" by (simp add: same_core_def)
      from gated_core[OF this] this P show ?thesis by (simp add: same_core_def)
    next
      case False
      then have "ev = TerminalEvent result" using e logs by auto
      with st have tt: "t = u\<lparr>sn_primary_graph := map_option (\<lambda>p. p\<lparr>pg_auxiliary_pending := False\<rparr>) (sn_primary_graph u),
             sn_terminal := Some (prepare_result u result), sn_phase := Finished\<rparr>"
        by (auto simp: prepare_event_def event_step_simps)
      have out: "execution_output (t\<lparr>sn_cursor := cursor_for (Suc n)\<rparr>) x = execution_output u x" for x
        by (rule execution_output_cong) (simp_all add: tt)
      have "gated fc admitted (t\<lparr>sn_cursor := cursor_for (Suc n)\<rparr>)"
        by (rule gated_cong[of _ u]) (use P out in \<open>auto simp: tt\<close>)
      then show ?thesis using P by (auto simp: tt)
    qed
  qed
  then show ?thesis using that[OF append_events_ok(2)[OF ap assms(2)]] t by blast
qed

definition holds_result :: "host \<Rightarrow> finish_context \<Rightarrow> admitted_run \<Rightarrow> supervisor \<Rightarrow> terminal_result \<Rightarrow> bool" where
  "holds_result ho fc admitted s result \<longleftrightarrow>
     (\<exists>snap p. current ho s snap \<and> gated fc admitted snap
        \<and> sn_primary_graph snap = Some p \<and> same_verdict (pg_result p) result)"

fun finish_ok :: "host \<Rightarrow> finish_context \<Rightarrow> admitted_run \<Rightarrow> supervisor \<Rightarrow> finish_phase \<Rightarrow> bool" where
  "finish_ok ho fc admitted s (Latching old terminal) \<longleftrightarrow>
     (\<exists>snap. current ho s snap \<and> same_core old snap \<and> sn_terminal snap = None \<and> gated fc admitted snap)
     \<and> (\<exists>n. run_ok n old)"
| "finish_ok ho fc admitted s (Reviewing old result) \<longleftrightarrow> holds_result ho fc admitted s result"
| "finish_ok ho fc admitted s (Closing old result) \<longleftrightarrow> holds_result ho fc admitted s result"
| "finish_ok ho fc admitted s (Publishing result) \<longleftrightarrow> holds_result ho fc admitted s result"
| "finish_ok ho fc admitted s (Published t) \<longleftrightarrow>
     (\<exists>snap p. current ho s snap \<and> gated fc admitted snap \<and> sn_terminal snap = Some t
        \<and> sn_primary_graph snap = Some p \<and> same_verdict t (pg_result p))"
| "finish_ok ho fc admitted s (FinishBroken e) \<longleftrightarrow> (\<exists>snap. current ho s snap \<and> gated fc admitted snap)"

lemma same_verdict_sym: "same_verdict a b \<Longrightarrow> same_verdict b a"
  by (cases a; cases b) (auto simp: same_verdict_def)

lemma same_verdict_trans: "same_verdict a b \<Longrightarrow> same_verdict b c \<Longrightarrow> same_verdict a c"
  by (cases a; cases b; cases c) (auto simp: same_verdict_def)

lemma holds_result_core:
  assumes "holds_result ho fc admitted s result" and "\<And>snap. current ho s snap \<Longrightarrow> \<exists>snap'. current ho s' snap' \<and> same_core snap snap'"
  shows "holds_result ho fc admitted s' result"
proof -
  from assms obtain snap p snap' where "gated fc admitted snap" "sn_primary_graph snap = Some p" "same_verdict (pg_result p) result"
    "current ho s' snap'" "same_core snap snap'" unfolding holds_result_def by blast
  then show ?thesis using gated_core[of snap snap'] unfolding holds_result_def by (auto simp: same_core_def)
qed

lemma finish_ok_observed:
  assumes "finish_ok ho fc admitted s phase"
    and core: "\<And>snap. current ho s snap \<Longrightarrow> \<exists>snap'. current ho s' snap' \<and> same_core snap snap'"
  shows "finish_ok ho fc admitted s' phase"
proof -
  note held = holds_result_core[OF _ core]
  show ?thesis
  proof (cases phase)
    case (Latching old terminal)
    with assms(1) obtain snap n where o: "current ho s snap" "same_core old snap" "sn_terminal snap = None"
      "gated fc admitted snap" "run_ok n old" by auto
    moreover from core[OF o(1)] obtain snap' where "current ho s' snap'" "same_core snap snap'" by blast
    ultimately have "current ho s' snap' \<and> same_core old snap' \<and> sn_terminal snap' = None \<and> gated fc admitted snap'"
      using same_core_trans gated_core by (metis same_core_def)
    then show ?thesis using Latching o(5) by auto
  next
    case (Published t)
    with assms(1) obtain snap p where o: "current ho s snap" "gated fc admitted snap" "sn_terminal snap = Some t"
      "sn_primary_graph snap = Some p" "same_verdict t (pg_result p)" by auto
    moreover from core[OF o(1)] obtain snap' where "current ho s' snap'" "same_core snap snap'" by blast
    ultimately show ?thesis using Published gated_core[of snap snap'] by (auto simp: same_core_def)
  next
    case (FinishBroken e)
    with assms(1) obtain snap where "current ho s snap" "gated fc admitted snap" by auto
    with core gated_core show ?thesis unfolding FinishBroken by (simp, blast)
  qed (use assms(1) held in auto)
qed

lemma appended_core:
  assumes "append_events ho evs s = (s', Inr snap')" and "\<forall>ev \<in> set evs. is_observation ev" and "current ho s snap"
  shows "\<exists>snap'. current ho s' snap' \<and> same_core snap snap'"
  using append_events_ok(2,4)[OF assms(1,3)] assms(2) by blast

lemma latch_failed:
  assumes "latch_result ho fc admitted old terminal s = (s', Inl e)" and "current ho s snap"
  shows "s' = s"
proof (cases "sn_primary_graph old")
  case (Some p)
  then show ?thesis using assms(1) append_events_err[of ho "[RunTokenUsageObserved None]" s]
    by (auto simp: latch_result_def bind_sup_def lift_res_def split: prod.splits sum.splits if_splits)
next
  case None
  let ?c = "\<lambda>c. [PrimaryGraphCompleted (pg_result c) (enabled_postmortem fc admitted s \<noteq> None) (pg_delivery_execution c)]"
  have latches: "sn_primary_graph latched \<noteq> None" if "append_events ho (?c c) s = (s', Inr latched)" for c latched
    using primary_appended[OF that assms(2)] by simp
  show ?thesis using assms(1) None append_events_err[of ho _ s] latches
    by (fastforce simp: latch_result_def bind_sup_def lift_res_def ok_or_def split: prod.splits sum.splits option.splits)
qed

lemma append_terminal_gated:
  assumes "append_terminal ho result s = (s', r)" and "current ho s snap" and "gated fc admitted snap"
  shows "\<exists>snap'. current ho s' snap' \<and> gated fc admitted snap'"
proof (cases "s' = s")
  case False
  then obtain evs snap' where evs: "terminal_events (ho_clock ho) result = Inr evs"
    and ap: "append_events ho evs s = (s', Inr snap')"
    using assms(1) append_events_err[of ho _ s]
    by (auto simp: append_terminal_def bind_sup_def lift_res_def map_err_def split: prod.splits sum.splits)
  from evs obtain logs where "evs = logs @ [TerminalEvent result]" "\<forall>ev \<in> set logs. is_observation ev"
    by (rule terminal_events_shape)
  then have "\<forall>ev \<in> set evs. \<not> completes ev" using observation_not_completes by (auto simp: completes_def)
  from append_gated[OF ap assms(2) this assms(3)] append_events_ok(2)[OF ap assms(2)] show ?thesis by blast
qed (use assms(2,3) in blast)

lemma finish_step_kept:
  assumes "finish_step ho fc admitted s phase s' phase'" and "finish_ok ho fc admitted s phase"
  shows "finish_ok ho fc admitted s' phase'"
  using assms
proof (induction rule: finish_step.induct)
  case (latch_ok old terminal s s' result latched)
  then obtain snap n where c: "current ho s snap" "same_core old snap" "sn_terminal snap = None" "gated fc admitted snap"
    "run_ok n old" by auto
  from latch_ok.hyps c(1,2,5,4,3) have "holds_result ho fc admitted s' result"
    by (rule latched_gated) (auto simp: holds_result_def)
  then show ?case by simp
next
  case (latch_err old terminal s s' e)
  then obtain snap where "current ho s snap" "gated fc admitted snap" by auto
  then show ?case using latch_failed[OF latch_err.hyps] by auto
next
  case (review_err old result s s' e)
  then obtain snap where c: "current ho s snap" "gated fc admitted snap" by (auto simp: holds_result_def)
  obtain snap' where "current ho s' snap'" "same_core snap snap'"
    by (rule run_postmortem_keeps[OF review_err.hyps c(1)])
  then show ?case using gated_core[OF _ c(2)] by auto
next
  case (close_err old result e s)
  then show ?case by (auto simp: holds_result_def)
next
  case (publish_err result s s' e)
  then obtain snap where c: "current ho s snap" "gated fc admitted snap" by (auto simp: holds_result_def)
  show ?case using append_terminal_gated[OF publish_err.hyps c] by simp
next
  case (finish_lost s phase)
  have core: "\<exists>snap'. current ho (s\<lparr>sp_runtime_lost := True\<rparr>) snap' \<and> same_core snap snap'" if "current ho s snap" for snap
    using that current_cong[of "s\<lparr>sp_runtime_lost := True\<rparr>" s ho snap] by auto
  show ?case by (rule finish_ok_observed[OF finish_lost core])
next
  case (review_ok old result s s')
  have core: "\<exists>snap'. current ho s' snap' \<and> same_core snap snap'" if "current ho s snap" for snap
    using run_postmortem_keeps[OF review_ok.hyps that] by blast
  have "holds_result ho fc admitted s result" using review_ok.prems by simp
  from holds_result_core[OF this core] show ?case by simp
next
  case (publish_ok result s s' t)
  then obtain snap p where c: "current ho s snap" "gated fc admitted snap" "sn_primary_graph snap = Some p"
    "same_verdict (pg_result p) result" by (auto simp: holds_result_def)
  from publish_ok.hyps c obtain snap' q where q: "current ho s' snap'" "gated fc admitted snap'" "sn_terminal snap' = Some t"
    "sn_primary_graph snap' = Some q" "pg_result q = pg_result p" "same_verdict t result" by (rule published_gated)
  have "same_verdict t (pg_result p)" by (rule same_verdict_trans[OF q(6) same_verdict_sym[OF c(4)]])
  then show ?case using q by auto
next
  case (finish_observe evs s s' snap' phase)
  show ?case by (rule finish_ok_observed[OF finish_observe.prems]) (rule appended_core[OF finish_observe.hyps])
next
  case (finish_flag s phase)
  have core: "\<exists>snap'. current ho (s\<lparr>sp_force_requested := True\<rparr>) snap' \<and> same_core snap snap'" if "current ho s snap" for snap
    using that current_cong[of "s\<lparr>sp_force_requested := True\<rparr>" s ho snap] by auto
  show ?case by (rule finish_ok_observed[OF finish_flag core])
next
  case (finish_request s s' phase)
  from request_stop_append[OF finish_request.hyps(2)] show ?case
  proof
    assume "s' = s"
    then show ?thesis using finish_request.prems by simp
  next
    assume "\<exists>snap'. append_events ho [ForceStopRequested] s = (s', Inr snap')"
    then obtain snap' where "append_events ho [ForceStopRequested] s = (s', Inr snap')" ..
    from appended_core[OF this] show ?thesis
      by (intro finish_ok_observed[OF finish_request.prems]) (simp add: is_observation_def)
  qed
qed simp_all

lemma finishing_ok:
  assumes "finishing ho fc s0 program s phase" and "drive_start ho s0"
    and "\<And>snap. ledger_current (sp_ledger s0) (sp_run_id s0) = Some snap \<Longrightarrow> gated fc (pm_admitted program) snap"
  shows "finish_ok ho fc (pm_admitted program) s phase"
  using assms
proof (induction rule: finishing.induct)
  case (finishing_decided program s old s' terminal)
  have "drive_ok ho s (Deciding old)" by (rule driven_ok[OF finishing_decided.hyps(1) finishing_decided.prems(1)])
  then obtain snap n where o: "owns ho s snap" "same_core old snap" "run_ok n old" "open_run old" by auto
  have "s' = s" using finishing_decided.hyps(2) by (cases rule: advance_cases) (auto simp: bind_sup_def lift_res_def split: prod.splits sum.splits)
  moreover have "sn_primary_graph snap = None" "sn_terminal snap = None" using ownsD(2)[OF o(1)] by (simp_all add: open_run_def)
  ultimately show ?case using o ownsD(1)[OF o(1)] by (auto simp: gated_def)
next
  case (finishing_resumed s terminal program stored)
  have lok: "ledger_ok (ho_codec ho) (sp_ledger s0)"
    using finishing_resumed.prems(1) ledger_reachable_ok by (auto simp: drive_start_def)
  have st: "ledger_get (sp_ledger s0) (sp_run_id s0) = Some stored"
    using finishing_resumed.hyps(2) by (auto simp: load_def ok_or_def split: option.splits)
  define snap where "snap = sr_snapshot stored"
  have c: "current ho s0 snap" using lok st by (auto simp: current_def snap_def ledger_get_def)
  then obtain n where "run_ok n snap" by (rule currentD)
  moreover have "s = s0" "sn_terminal snap = None"
    using finishing_resumed.hyps(1) st
    by (auto simp: initialize_def bind_sup_def load_def snap_def initialized_phase_def lift_res_def ok_or_def
        split: option.splits prod.splits sum.splits if_splits)
  moreover have "gated fc (pm_admitted program) snap"
    using finishing_resumed.prems(2) log_current[OF c] by metis
  ultimately show ?case using c snap_def by auto
next
  case (finishing_step program s phase s' phase')
  then show ?case using finish_step_kept by blast
qed

section \<open>A decided run is published\<close>

definition bounded_result :: "terminal_result \<Rightarrow> bool" where
  "bounded_result r = (case r of Failed _ fc \<Rightarrow> context_bounded fc | Succeeded _ \<Rightarrow> True)"

definition encodes_result :: "codec \<Rightarrow> terminal_result \<Rightarrow> bool" where
  "encodes_result cd terminal \<longleftrightarrow>
     (\<forall>r b d. bounded_result r \<longrightarrow> (\<forall>v. r = Succeeded v \<longrightarrow> terminal = Succeeded v) \<longrightarrow>
        validate_event cd (PrimaryGraphCompleted r b d) = Inr () \<and> validate_event cd (TerminalEvent r) = Inr ())"

lemma bounded_prepare: "evidence_ok s \<Longrightarrow> bounded_result r \<Longrightarrow> bounded_result (prepare_result s r)"
  by (cases r) (auto simp: bounded_result_def prepare_result_def evidence_ok_def)

lemma gate_exact:
  "enforce_delivery_terminal fc admitted old terminal =
     Inr \<lparr>pg_result = (if (\<exists>v. terminal = Succeeded v) \<and> requires_delivery_execution fc admitted
                        \<and> confirmed_delivery_execution fc admitted old = None
                     then Failed ''delivery_unconfirmed'' None else terminal),
          pg_auxiliary_pending = False,
          pg_delivery_execution = confirmed_delivery_execution fc admitted old\<rparr>"
proof -
  have "EnumLabel_new ''delivery_unconfirmed'' = Inr ''delivery_unconfirmed''" by code_simp
  then show ?thesis by (cases terminal) (auto simp: enforce_delivery_terminal_def Let_def map_err_def)
qed

lemma gate_total:
  assumes "bounded_result terminal"
  obtains c where "enforce_delivery_terminal fc admitted old terminal = Inr c" "bounded_result (pg_result c)"
    "pg_delivery_execution c = confirmed_delivery_execution fc admitted old"
    "\<And>v. pg_result c = Succeeded v \<Longrightarrow> terminal = Succeeded v"
  by (rule that[OF gate_exact]) (use assms in \<open>auto simp: bounded_result_def context_bounded_def split: if_splits\<close>)

lemma accepts_single:
  assumes "apply_event cd s (prepare_event s ev) (Suc n) = Inr t" and "Suc n \<le> u64_max"
  shows "accepts cd n s [ev] t"
  using accepts_Cons[OF _ assms(1) accepts_Nil] assms(2) by simp

lemma primary_accepted:
  assumes "current ho s snap" and "run_ok n snap" and "open_run snap" and "active_refs snap = {}"
    and "Suc n \<le> u64_max" and "bounded_result r" and "encodes_result (ho_codec ho) terminal"
    and "\<And>v. r = Succeeded v \<Longrightarrow> terminal = Succeeded v"
    and "\<And>x. d = Some x \<Longrightarrow> execution_output snap x \<noteq> None"
  shows "\<exists>s' snap'. append_events ho [PrimaryGraphCompleted r b d] s = (s', Inr snap')"
proof -
  let ?r = "prepare_result snap r" and ?cd = "ho_codec ho"
  have none: "active_executions snap = []" using active_refs_empty assms(2,4) by (auto simp: run_ok_def)
  have bounded: "bounded_result ?r" using bounded_prepare assms(2,6) by (simp add: run_ok_def)
  have "v = w" if "?r = Succeeded v" "r = Succeeded w" for v w using that by (simp add: prepare_result_def)
  moreover have "?r = Succeeded v \<Longrightarrow> r = Succeeded v" for v by (cases r) (auto simp: prepare_result_def split: if_splits)
  ultimately have "validate_event ?cd (PrimaryGraphCompleted ?r b d) = Inr ()"
    using assms(7,8) bounded unfolding encodes_result_def by blast
  moreover obtain t where "event_step ?cd (Suc n) snap (PrimaryGraphCompleted ?r b d) t"
    using assms(3,9) none by (auto simp: event_step_simps open_run_def)
  ultimately have "apply_event ?cd snap (prepare_event snap (PrimaryGraphCompleted r b d)) (Suc n)
      = Inr (t\<lparr>sn_cursor := cursor_for (Suc n)\<rparr>)"
    using assms(3) by (auto simp: apply_event_iff prepare_event_def open_run_def)
  from accepted_append[OF assms(1,2) accepts_single[OF this assms(5)]] show ?thesis by auto
qed

lemma publish_accepted:
  assumes "current ho s snap" and "run_ok n snap" and "sn_terminal snap = None" and "active_refs snap = {}"
    and "n + 2 \<le> u64_max" and "bounded_result r" and "encodes_small (ho_codec ho)"
    and "encodes_result (ho_codec ho) terminal" and "\<And>v. r = Succeeded v \<Longrightarrow> terminal = Succeeded v"
  shows "\<exists>s' t. append_terminal ho r s = (s', Inr t)"
proof -
  let ?cd = "ho_codec ho"
  have last: "\<exists>t. apply_event ?cd u (prepare_event u (TerminalEvent r)) (Suc k) = Inr t \<and> sn_terminal t \<noteq> None"
    if u: "run_ok k u" "sn_terminal u = None" "active_refs u = {}" for k u
  proof -
    have none: "active_executions u = []" using active_refs_empty u(1,3) by (auto simp: run_ok_def)
    have "bounded_result (prepare_result u r)" using bounded_prepare u(1) assms(6) by (simp add: run_ok_def)
    moreover have "prepare_result u r = Succeeded v \<Longrightarrow> r = Succeeded v" for v
      by (cases r) (auto simp: prepare_result_def split: if_splits)
    ultimately have "validate_event ?cd (TerminalEvent (prepare_result u r)) = Inr ()"
      using assms(8,9) unfolding encodes_result_def by blast
    moreover obtain t where "event_step ?cd (Suc k) u (TerminalEvent (prepare_result u r)) t" "sn_terminal t \<noteq> None"
      using none by (auto simp: event_step_simps)
    ultimately show ?thesis using u(2) by (auto simp: apply_event_iff prepare_event_def)
  qed
  have "\<exists>evs t. terminal_events (ho_clock ho) r = Inr evs \<and> evs \<noteq> [] \<and> accepts ?cd n snap evs t \<and> sn_terminal t \<noteq> None"
  proof (cases r)
    case (Succeeded v)
    from last[OF assms(2-4)] obtain t where "apply_event ?cd snap (prepare_event snap (TerminalEvent r)) (Suc n) = Inr t"
      "sn_terminal t \<noteq> None" by blast
    then show ?thesis using accepts_single[of ?cd snap "TerminalEvent r" n t] assms(5) Succeeded
      by (auto simp: terminal_events_def)
  next
    case (Failed reason fc)
    obtain line where lg: "error_log (ho_clock ho) None (text_of_string (''Run failed: '' @ reason)) None
        = Inr (SafeLog None (ck_now (ho_clock ho)) LogError line None)" and line: "utf8_length line \<le> MAX_SAFE_LOG_BYTES"
      by (rule error_log_ok)
    let ?log = "SafeLog None (ck_now (ho_clock ho)) LogError line None"
    have wr: "writable n snap" using assms(2,3) by (simp add: writable_def)
    have "known_log snap ?log" using line by (simp add: known_log_def)
    from log_accepted[OF assms(7) wr this] obtain u where
      u: "apply_event ?cd snap (prepare_event snap ?log) (Suc n) = Inr u" "same_core snap u" "writable (Suc n) u" by blast
    have "active_refs u = {}" using same_core_active[OF u(2)] assms(4) by simp
    then obtain t where t: "apply_event ?cd u (prepare_event u (TerminalEvent r)) (Suc (Suc n)) = Inr t"
      "sn_terminal t \<noteq> None" using last[of "Suc n" u] u(3) by (auto simp: writable_def)
    have "accepts ?cd n snap [?log, TerminalEvent r] t"
      using accepts_Cons[OF _ u(1) accepts_single[OF t(1)]] assms(5) by simp
    then show ?thesis using t(2) lg Failed by (auto simp: terminal_events_def)
  qed
  then obtain evs t where e: "terminal_events (ho_clock ho) r = Inr evs" "evs \<noteq> []" "accepts ?cd n snap evs t"
    "sn_terminal t \<noteq> None" by blast
  from accepted_append[OF assms(1,2) e(3,2)] e(1,4) show ?thesis
    by (auto simp: append_terminal_def bind_sup_def lift_res_def map_err_def ok_or_def split: option.splits)
qed

text \<open>A log line of the postmortem adds at most one event.\<close>

lemma postmortem_log_room:
  assumes "current ho s snap" and "ledger_log (sp_ledger s) (sp_run_id s) = Some log"
  obtains snap' log' where "current ho (postmortem_log ho line s) snap'" "same_core snap snap'"
    "ledger_log (sp_ledger (postmortem_log ho line s)) (sp_run_id (postmortem_log ho line s)) = Some log'"
    "length log' \<le> length log + 1"
proof -
  obtain snap' where k: "current ho (postmortem_log ho line s) snap'" "same_core snap snap'"
    by (rule postmortem_log_keeps[OF assms(1)])
  have "\<exists>log'. ledger_log (sp_ledger (postmortem_log ho line s)) (sp_run_id (postmortem_log ho line s)) = Some log'
      \<and> length log' \<le> length log + 1"
  proof (cases "SafeLogLine_new (text_of_string line)")
    case (Inr shown)
    obtain s' r where ap: "append_events ho [SafeLog None (ck_now (ho_clock ho)) LogSystem shown None] s = (s', r)" by force
    show ?thesis
    proof (cases r)
      case (Inl e)
      then have "s' = s" using ap by (auto simp: append_events_def split: sum.splits prod.splits)
      then show ?thesis using ap assms(2) \<open>SafeLogLine_new (text_of_string line) = Inr shown\<close> by (simp add: postmortem_log_def)
    next
      case (Inr snap1)
      with ap have "append_events ho [SafeLog None (ck_now (ho_clock ho)) LogSystem shown None] s = (s', Inr snap1)" by simp
      from append_events_log[OF this assms] obtain es where
        "ledger_log (sp_ledger s') (sp_run_id s') = Some (log @ es)" "length es = 1" by auto
      then show ?thesis using ap \<open>SafeLogLine_new (text_of_string line) = Inr shown\<close> by (simp add: postmortem_log_def)
    qed
  qed (use assms(2) in \<open>simp add: postmortem_log_def\<close>)
  then show ?thesis using that[OF k] by blast
qed

lemma run_postmortem_succeeds:
  assumes "current ho s snap" and "ledger_log (sp_ledger s) (sp_run_id s) = Some log"
    and "\<And>work. fc_postmortem fc = Some work \<Longrightarrow> work admitted old result \<noteq> Inl PostmortemCleanupUnconfirmed"
  obtains s' snap' log' where "run_postmortem ho fc admitted old result s = (s', Inr ())"
    "current ho s' snap'" "same_core snap snap'" "ledger_log (sp_ledger s') (sp_run_id s') = Some log'"
    "length log' \<le> length log + 2"
proof (cases "enabled_postmortem fc admitted s")
  case None
  then show ?thesis using that[of s snap log] assms(1,2) by (simp add: run_postmortem_def)
next
  case (Some work)
  then have "fc_postmortem fc = Some work" by (simp add: enabled_postmortem_def split: if_splits)
  then have fine: "work admitted old result \<noteq> Inl PostmortemCleanupUnconfirmed" by (rule assms(3))
  let ?s = "postmortem_log ho ''Active Memory postmortem started'' s"
  obtain line where run: "run_postmortem ho fc admitted old result s = (postmortem_log ho line ?s, Inr ())"
  proof (cases "work admitted old result")
    case (Inr report)
    then show ?thesis using that Some by (simp add: run_postmortem_def)
  next
    case (Inl e)
    then show ?thesis using that Some fine by (cases e) (simp_all add: run_postmortem_def)
  qed
  obtain mid log1 where m: "current ho ?s mid" "same_core snap mid" "ledger_log (sp_ledger ?s) (sp_run_id ?s) = Some log1"
    "length log1 \<le> length log + 1" by (rule postmortem_log_room[OF assms(1,2)])
  obtain snap' log2 where e: "current ho (postmortem_log ho line ?s) snap'" "same_core mid snap'"
    "ledger_log (sp_ledger (postmortem_log ho line ?s)) (sp_run_id (postmortem_log ho line ?s)) = Some log2"
    "length log2 \<le> length log1 + 1" by (rule postmortem_log_room[OF m(1,3)])
  show ?thesis by (rule that[OF run e(1) same_core_trans[OF m(2) e(2)] e(3)]) (use m(4) e(4) in simp)
qed

lemma finish_reduction_succeeds:
  assumes "current ho s snap" and "open_run snap" and "active_refs snap = {}" and "same_core old snap"
    and "run_ok m old" and "ledger_log (sp_ledger s) (sp_run_id s) = Some log" and "length log + 5 \<le> u64_max"
    and "bounded_result terminal" and "encodes_small (ho_codec ho)" and "encodes_result (ho_codec ho) terminal"
    and "\<And>work r. fc_postmortem fc = Some work \<Longrightarrow> work admitted old r \<noteq> Inl PostmortemCleanupUnconfirmed"
    and "\<And>r. close_runtime fc old r = Inr ()"
  shows "\<exists>s' t. finish_reduction ho fc admitted old terminal s = (s', Inr t)"
proof -
  have ok: "run_ok (length log) snap" using log_current[OF assms(1)] assms(6) by auto
  have old: "sn_primary_graph old = None" using assms(2,4) by (simp add: same_core_def open_run_def)
  obtain c where c: "enforce_delivery_terminal fc admitted old terminal = Inr c" "bounded_result (pg_result c)"
    "pg_delivery_execution c = confirmed_delivery_execution fc admitted old"
    "\<And>v. pg_result c = Succeeded v \<Longrightarrow> terminal = Succeeded v" by (rule gate_total[OF assms(8), of fc admitted old]) blast
  have ev: "execution_output snap x \<noteq> None" if "pg_delivery_execution c = Some x" for x
    by (rule confirmed_output[OF _ assms(5,4)]) (use c(3) that in auto)
  let ?b = "enabled_postmortem fc admitted s \<noteq> None"
  have "Suc (length log) \<le> u64_max" using assms(7) by simp
  from primary_accepted[OF assms(1) ok assms(2,3) this c(2) assms(10) c(4), of "pg_delivery_execution c" ?b] ev obtain s1 snap1 where
    ap: "append_events ho [PrimaryGraphCompleted (pg_result c) ?b (pg_delivery_execution c)] s = (s1, Inr snap1)" by auto
  note p = primary_appended[OF ap assms(1)] and a = append_events_ok[OF ap assms(1)]
  let ?r = "prepare_result snap (pg_result c)"
  have latch: "latch_result ho fc admitted old terminal s = (s1, Inr (?r, True))"
    using p ap by (simp add: latch_result_def old c(1) bind_sup_def lift_res_def ok_or_def)
  obtain log1 where log1: "ledger_log (sp_ledger s1) (sp_run_id s1) = Some log1" "length log1 = length log + 1"
    by (rule append_events_log[OF ap assms(1,6)]) simp
  obtain s2 snap2 log2 where s2: "run_postmortem ho fc admitted old ?r s1 = (s2, Inr ())" "current ho s2 snap2" "same_core snap1 snap2"
    "ledger_log (sp_ledger s2) (sp_run_id s2) = Some log2" "length log2 \<le> length log1 + 2"
    by (rule run_postmortem_succeeds[OF a(2) log1(1) assms(11)])
  have "run_ok (length log2) snap2" using log_current[OF s2(2)] s2(4) by auto
  moreover have "active_refs snap1 = {}" using a(3) assms(3) by (simp add: batch_active_def event_active_def)
  then have "active_refs snap2 = {}" using same_core_active[OF s2(3)] by simp
  moreover have "sn_terminal snap2 = None" using s2(3) p by (simp add: same_core_def)
  moreover have "bounded_result ?r" using bounded_prepare c(2) ok by (simp add: run_ok_def)
  moreover have "?r = Succeeded v \<Longrightarrow> terminal = Succeeded v" for v
    using c(4) by (cases "pg_result c") (auto simp: prepare_result_def split: if_splits)
  ultimately have "\<exists>s' t. append_terminal ho ?r s2 = (s', Inr t)"
    using publish_accepted[OF s2(2) _ _ _ _ _ assms(9,10), of "length log2" ?r] s2(5) log1(2) assms(7) by auto
  then show ?thesis using latch s2(1) assms(12)
    by (auto simp: finish_reduction_def latch_primary_graph_def bind_sup_def lift_res_def)
qed

definition gate_verdict :: "finish_context \<Rightarrow> admitted_run \<Rightarrow> run_snapshot \<Rightarrow> terminal_result \<Rightarrow> terminal_result" where
  "gate_verdict fc admitted old terminal =
     (if (\<exists>v. terminal = Succeeded v) \<and> requires_delivery_execution fc admitted
         \<and> confirmed_delivery_execution fc admitted old = None
      then Failed ''delivery_unconfirmed'' None else terminal)"

lemma finish_reduction_verdict:
  assumes "finish_reduction ho fc admitted old terminal s = (s2, Inr t)" and "current ho s snap"
    and "same_core old snap" and "run_ok n old" and "gated fc admitted snap" and "sn_terminal snap = None"
    and "sn_primary_graph old = None"
  obtains final where "current ho s2 final" "sn_terminal final = Some t" "same_verdict t (gate_verdict fc admitted old terminal)"
proof -
  from assms(1) obtain s1 result latched s1' where
    latch: "latch_result ho fc admitted old terminal s = (s1, Inr (result, latched))"
    and mid: "s1' = s1 \<or> run_postmortem ho fc admitted old result s1 = (s1', Inr ())"
    and publish: "append_terminal ho result s1' = (s2, Inr t)"
    by (auto simp: finish_reduction_def latch_primary_graph_def bind_sup_def lift_res_def split: prod.splits sum.splits if_splits)
  from latch assms(2-6) obtain snap1 p c where l: "current ho s1 snap1" "gated fc admitted snap1"
    "sn_primary_graph snap1 = Some p" "same_verdict (pg_result p) result"
    "enforce_delivery_terminal fc admitted old terminal = Inr c" "same_verdict (pg_result p) (pg_result c)"
    by (rule latched_gated) (use assms(7) in blast)
  obtain snap2 where m: "current ho s1' snap2" "same_core snap1 snap2"
    using mid l(1) run_postmortem_keeps same_core_refl by metis
  then have "gated fc admitted snap2" "sn_primary_graph snap2 = Some p"
    using gated_core[OF m(2) l(2)] l(3) by (simp_all add: same_core_def)
  with publish m(1) obtain final where f: "current ho s2 final" "sn_terminal final = Some t" "same_verdict t result"
    using l(4) by (rule published_gated)
  have "pg_result c = gate_verdict fc admitted old terminal" using l(5) unfolding gate_exact gate_verdict_def by auto
  then have "same_verdict t (gate_verdict fc admitted old terminal)"
    using f(3) l(4,6) same_verdict_sym same_verdict_trans by metis
  with f show ?thesis by (intro that)
qed

end
