(* ===== verification/Admission_Laws.thy ===== *)
theory Admission_Laws
  imports Finish
begin

text \<open>
  What admission establishes of a run: its bindings cover exactly the executable nodes, the registry
  built from the graph agrees with the graph, loop limits taken from the input change nothing but the
  limits, a graph that passes the concurrency check dispatches a trusted delivery on its own, and the
  receipt of a delivery is recognised exactly for the target and mode it was written for.
\<close>

section \<open>Declarations and nodes\<close>

definition declaration_of :: "graph_node \<Rightarrow> executable_declaration option" where
  "declaration_of node =
     (case node of
        StepNode step \<Rightarrow> Some (step_declaration step)
      | VerifierNode verifier \<Rightarrow> Some (verifier_declaration verifier)
      | _ \<Rightarrow> None)"

lemma collect_declarations_nodes: "collect_declarations n = List.map_filter declaration_of (all_nodes n)"
proof (induction n rule: graph_induct)
  case (node n)
  then have kids: "concat (map collect_declarations (child_nodes n)) = List.map_filter declaration_of (concat (map all_nodes (child_nodes n)))"
    by (simp add: map_filter_def filter_concat map_concat comp_def cong: map_cong)
  show ?case
    by (subst collect_declarations.simps, subst all_nodes.simps)
      (cases n; use kids in \<open>simp add: declaration_of_def List.map_filter_simps\<close>)
qed

lemma declaration_members:
  "d \<in> set (executable_declarations root) \<longleftrightarrow> (\<exists>n \<in> set (all_nodes root). declaration_of n = Some d)"
  by (simp add: executable_declarations_def collect_declarations_nodes map_filter_member)

lemma declaration_spec:
  assumes "executable_spec_of n = Some spec"
  obtains d where "declaration_of n = Some d" "xd_name d = es_name spec" "xd_worker d = es_worker spec"
  using assms by (cases n) (auto simp: declaration_of_def step_declaration_def verifier_declaration_def)

section \<open>Loop limits\<close>

text \<open>The value at a path of an input, and the limit of a loop: the positive integer the input has at the path
  the loop names, or the declared limit when it names none or the input has nothing there.\<close>

inductive stands_at :: "json \<Rightarrow> field_path \<Rightarrow> json \<Rightarrow> bool" where
  "stands_at v [] v"
| "bm_get m key = Some v \<Longrightarrow> stands_at v path w \<Longrightarrow> stands_at (VObject m) (key # path) w"

inductive_simps stands_at_simps: "stands_at v [] w" "stands_at v (key # path) w"

lemma input_at_path_iff: "input_at_path v path = Some w \<longleftrightarrow> stands_at v path w"
proof (induction path arbitrary: v)
  case (Cons key path)
  have "input_at_path v (key # path) = Some w \<longleftrightarrow>
      (\<exists>m u. v = VObject m \<and> bm_get m key = Some u \<and> input_at_path u path = Some w)"
    by (cases v) (auto simp: input_at_path_def json_get_def as_object_def split: option.splits)
  then show ?case by (simp add: Cons.IH stands_at_simps)
qed (auto simp: input_at_path_def stands_at_simps)

inductive limit_from_input :: "json \<Rightarrow> positive_integer \<Rightarrow> field_path option \<Rightarrow> positive_integer \<Rightarrow> bool"
  for input m where
  limit_declared: "limit_from_input input m None m"
| limit_absent: "\<forall>v. \<not> stands_at input path v \<Longrightarrow> limit_from_input input m (Some path) m"
| limit_given: "stands_at input path (VNumber (PosInt k)) \<Longrightarrow> 1 \<le> k \<Longrightarrow> k \<le> 2 ^ 53 - 1 \<Longrightarrow>
    limit_from_input input m (Some path) k"

text \<open>Two graphs that agree in everything but the limits of their loops, which the second takes from the input.\<close>

fun same_shape :: "json \<Rightarrow> graph_node \<Rightarrow> graph_node \<Rightarrow> bool" where
  "same_shape input (SeqNode n s cs p) (SeqNode n' s' cs' p') \<longleftrightarrow>
     n' = n \<and> s' = s \<and> p' = p \<and> list_all2 (same_shape input) cs cs'"
| "same_shape input (ChoiceNode n s bs ot p) (ChoiceNode n' s' bs' ot' p') \<longleftrightarrow>
     n' = n \<and> s' = s \<and> p' = p \<and> list_all2 (\<lambda>(g, c) (g', c'). g' = g \<and> same_shape input c c') bs bs'
     \<and> rel_option (same_shape input) ot ot'"
| "same_shape input (ParNode n s bs p j) (ParNode n' s' bs' p' j') \<longleftrightarrow>
     n' = n \<and> s' = s \<and> p' = p \<and> j' = j \<and> list_all2 (same_shape input) bs bs'"
| "same_shape input (LoopNode n s b u m f p) (LoopNode n' s' b' u' m' f' p') \<longleftrightarrow>
     n' = n \<and> s' = s \<and> u' = u \<and> f' = f \<and> p' = p \<and> same_shape input b b' \<and> limit_from_input input m f m'"
| "same_shape input (MapNode n s b ov m p) (MapNode n' s' b' ov' m' p') \<longleftrightarrow>
     n' = n \<and> s' = s \<and> ov' = ov \<and> m' = m \<and> p' = p \<and> same_shape input b b'"
| "same_shape input a b \<longleftrightarrow> a = b"

lemma bound_loop_limit_from_input: "bound_loop_limit input m f = Inr m' \<Longrightarrow> limit_from_input input m f m'"
proof (cases f)
  case (Some path)
  assume ok: "bound_loop_limit input m f = Inr m'"
  show ?thesis
  proof (cases "input_at_path input path")
    case None
    then have "\<forall>v. \<not> stands_at input path v" by (simp add: input_at_path_iff[symmetric])
    then show ?thesis using None ok Some by (simp add: bound_loop_limit_def limit_absent)
  next
    case val: (Some w)
    with ok Some obtain k where "as_u64 w = Some k" "PositiveInteger_new k = Inr m'"
      by (auto simp: bound_loop_limit_def ok_or_eq_Inr split: option.splits sum.splits)
    then have "w = VNumber (PosInt m')" "1 \<le> m'" "m' \<le> 2 ^ 53 - 1"
      by (auto simp: as_u64_def PositiveInteger_new_ok MAX_SAFE_GENERATION_def split: json.splits json_number.splits)
    then show ?thesis using limit_given[of input path m' m] val Some by (simp add: input_at_path_iff)
  qed
qed (simp add: bound_loop_limit_def limit_declared)

lemma bind_input_limits_shape: "bind_input_limits input n = Inr n' \<Longrightarrow> same_shape input n n'"
proof (induction input n arbitrary: n' rule: bind_input_limits.induct)
  case (1 input name state children promoted)
  then show ?case by (auto simp: try_map_ok elim!: bind_resE list.rel_mono_strong)
next
  case (2 input name state branches otherwise promoted)
  from 2(3) obtain bs ot where
    bs: "list_all2 (\<lambda>x y. (\<lambda>(g, node). bind_res (bind_input_limits input node) (\<lambda>node. Inr (g, node))) x = Inr y) branches bs"
    and ot: "(case otherwise of None \<Rightarrow> Inr None | Some node \<Rightarrow> bind_res (bind_input_limits input node) (\<lambda>node. Inr (Some node))) = Inr ot"
    and n': "n' = ChoiceNode name state bs ot promoted"
    by (auto simp: try_map_ok elim!: bind_resE)
  have "list_all2 (\<lambda>(g, c) (g', c'). g' = g \<and> same_shape input c c') branches bs"
    using bs by (rule list.rel_mono_strong) (use 2(1) in \<open>auto elim!: bind_resE\<close>)
  moreover have "rel_option (same_shape input) otherwise ot" using ot 2(2)[of bs] bs by (cases otherwise) (auto simp: try_map_ok elim!: bind_resE)
  ultimately show ?case using n' by simp
next
  case (3 input name state branches promoted join)
  then show ?case by (auto simp: try_map_ok elim!: bind_resE list.rel_mono_strong)
next
  case (4 input name state body until m f promoted)
  then show ?case using bound_loop_limit_from_input by (auto elim!: bind_resE)
next
  case (5 input name state body items m promoted)
  then show ?case by (auto elim!: bind_resE)
qed auto

lemma bind_limits_declarations:
  "same_shape input n n' \<Longrightarrow> map node_name (all_nodes n') = map node_name (all_nodes n) \<and> collect_declarations n' = collect_declarations n"
proof (induction n arbitrary: n' rule: graph_induct)
  case (node n)
  have leaf: "list_all2 (same_shape input) (child_nodes n) (child_nodes n') \<and> node_name n' = node_name n
    \<and> declaration_of n' = declaration_of n"
    using node.prems
  proof (cases "(input, n, n')" rule: same_shape.cases)
    case (2 i a st bs ot p a' st' bs' ot' p')
    have "list_all2 (same_shape input) (map snd bs) (map snd bs')"
      using node.prems 2 by (auto simp: list_all2_map1 list_all2_map2 case_prod_unfold elim: list_all2_mono)
    then show ?thesis using node.prems 2
      by (auto simp: declaration_of_def rel_option_iff intro!: list_all2_appendI split: option.splits)
  qed (auto simp: declaration_of_def)
  have kids: "list_all2 (\<lambda>a b. map node_name (all_nodes b) = map node_name (all_nodes a)
      \<and> collect_declarations b = collect_declarations a) (child_nodes n) (child_nodes n')"
    using conjunct1[OF leaf] by (rule list.rel_mono_strong) (use node.IH in blast)
  have "map (map node_name \<circ> all_nodes) (child_nodes n') = map (map node_name \<circ> all_nodes) (child_nodes n)"
    "map collect_declarations (child_nodes n') = map collect_declarations (child_nodes n)"
    using kids by (induction rule: list_all2_induct) auto
  then show ?case
    using leaf
    by (subst (1 2) all_nodes.simps, simp add: map_concat collect_declarations_nodes[abs_def])
      (simp add: all_nodes.simps[of n] all_nodes.simps[of n'] map_filter_def filter_concat map_concat comp_def)
qed

section \<open>What an admitted run satisfies\<close>

lemma admit_cases:
  assumes "admit_with_context host policy submission = Inr admitted"
  obtains root decls reg where "bind_input_limits (su_initial_input submission) (gs_root (su_graph submission)) = Inr root"
    "cg_root (ad_graph admitted) = root" "decls = executable_declarations root"
    "ad_runtime admitted = su_runtime submission" "ad_initial_input admitted = su_initial_input submission"
    "ad_source admitted = su_source submission"
    "validate_executable_bindings host policy decls (su_runtime submission) = Inr ()"
    "validate_delivery_concurrency root = Inr ()"
    "validate_graph_input (su_graph submission) (su_initial_input submission) = Inr ()"
    "validate_source_delivery host (su_source submission) ((su_graph submission)\<lparr>gs_root := root\<rparr>) = Inr ()"
    "from_declarations ((su_graph submission)\<lparr>gs_root := root\<rparr>) decls (su_runtime submission) = Inr reg"
    "verify_graph (ah_canonical host) ((su_graph submission)\<lparr>gs_root := root\<rparr>) (graph_bound_resolve reg) = Inr (ad_graph admitted)"
    "ad_title admitted = su_title submission" "ad_environment admitted = su_environment submission"
proof -
  let ?in = "submission_intent submission"
  from assms obtain prep verified where prep: "prepare_submission host policy ?in = Inr prep"
    and src: "validate_source_delivery host (su_source submission) (pp_graph prep) = Inr ()"
    and ver: "verify_submission host prep = Inr verified"
    and ad: "admitted = \<lparr>ad_title = pp_title prep, ad_graph = verified, ad_initial_input = pp_initial_input prep,
          ad_runtime = pp_runtime prep, ad_environment = pp_environment prep, ad_source = su_source submission\<rparr>"
    by (auto simp: admit_with_context_def elim!: bind_resE)
  from prep obtain root where root: "bind_input_limits (su_initial_input submission) (gs_root (su_graph submission)) = Inr root"
    and val: "validate_executable_bindings host policy (executable_declarations root) (su_runtime submission) = Inr ()"
      "validate_delivery_concurrency root = Inr ()"
      "validate_graph_input (su_graph submission) (su_initial_input submission) = Inr ()"
    and pp: "pp_graph prep = (su_graph submission)\<lparr>gs_root := root\<rparr>" "pp_initial_input prep = su_initial_input submission"
      "pp_runtime prep = su_runtime submission" "pp_title prep = su_title submission"
      "pp_environment prep = su_environment submission" "pp_declarations prep = executable_declarations root"
    by (auto simp: prepare_submission_def submission_intent_def Let_def elim!: bind_resE)
  from ver pp obtain reg where reg: "from_declarations (pp_graph prep) (executable_declarations root) (su_runtime submission) = Inr reg"
    and vg: "verify_graph (ah_canonical host) (pp_graph prep) (graph_bound_resolve reg) = Inr verified"
    by (auto simp: verify_submission_def map_err_def split: sum.splits elim!: bind_resE)
  from vg have "cg_root verified = root" by (rule verified_graph) (simp add: pp)
  with root val src reg vg show ?thesis using that[of root _ reg] by (simp add: ad pp)
qed

lemma validated_bindings:
  assumes "validate_executable_bindings host policy decls runtime = Inr ()"
  shows "validate_attempts decls = Inr ()" "validate_binding_coverage decls (rp_nodes runtime) = Inr ()"
    "validate_binding_kinds decls (rp_nodes runtime) = Inr ()" "validate_delivery_policy policy decls = Inr ()"
  using assms by (auto simp: validate_executable_bindings_def elim!: bind_resE)

lemma coverage_exact:
  "validate_binding_coverage decls bindings = Inr () \<longleftrightarrow> set (bm_keys bindings) = xd_name ` set decls"
  by (auto simp: validate_binding_coverage_def Let_def find_None_iff find_Some_iff filter_empty_conv
      split: list.splits option.splits dest: nth_mem)

lemma binding_kinds_ok:
  assumes "validate_binding_kinds decls bindings = Inr ()" and "d \<in> set decls"
  obtains b where "bm_get bindings (xd_name d) = Some b" "validate_binding_kind d b = Inr ()"
    "validate_instructions d b = Inr ()" "validate_model_limits b = Inr ()"
proof -
  have "validate_declaration_binding bindings d = Inr ()"
    using assms by (auto simp: validate_binding_kinds_def try_all_ok)
  then show ?thesis using that
    by (auto simp: validate_declaration_binding_def map_err_def elim!: bind_resE split: option.splits sum.splits if_splits)
qed

lemma mode_from_worker_iff: "mode_from_worker w \<noteq> None \<longleftrightarrow> is_git_delivery_worker w"
  by (auto simp: mode_from_worker_def is_git_delivery_worker_def split: if_splits)

lemma trusted_delivery_iff:
  "is_trusted_delivery_worker w \<longleftrightarrow> mode_from_worker w \<noteq> None \<or> w = COMMENT_DELIVERY_WORKER_REF"
  using mode_from_worker_iff[of w] by (auto simp: is_trusted_delivery_worker_def)

text \<open>A trusted delivery worker is bound to a trusted delivery and sits on a verifier node.\<close>

lemma delivery_binding:
  assumes "validate_binding_kind d b = Inr ()"
  shows "is_git_delivery_worker (xd_worker d) \<longleftrightarrow> (\<exists>c f. b = GitDeliveryBinding c f)"
    and "xd_worker d = COMMENT_DELIVERY_WORKER_REF \<longleftrightarrow> (\<exists>c. b = CommentDeliveryBinding c)"
    and "is_trusted_delivery_worker (xd_worker d) \<Longrightarrow> xd_kind d = LeafVerifier"
proof -
  have no: "\<not> is_git_delivery_worker COMMENT_DELIVERY_WORKER_REF" by code_simp
  show git: "is_git_delivery_worker (xd_worker d) \<longleftrightarrow> (\<exists>c f. b = GitDeliveryBinding c f)"
    using assms no by (cases b) (auto simp: validate_binding_kind_def Let_def split: if_splits)
  show com: "xd_worker d = COMMENT_DELIVERY_WORKER_REF \<longleftrightarrow> (\<exists>c. b = CommentDeliveryBinding c)"
    using assms by (cases b) (auto simp: validate_binding_kind_def Let_def split: if_splits)
  show "is_trusted_delivery_worker (xd_worker d) \<Longrightarrow> xd_kind d = LeafVerifier"
    using assms git com by (cases "xd_kind d") (auto simp: is_trusted_delivery_worker_def validate_binding_kind_def Let_def split: if_splits)
qed
lemma delivery_instructions:
  assumes "validate_binding_kind d b = Inr ()" and "validate_instructions d b = Inr ()"
    and "is_trusted_delivery_worker (xd_worker d)"
  shows "xd_instructions d = None"
  using assms(2,3) delivery_binding(1,2)[OF assms(1)]
  by (auto simp: is_trusted_delivery_worker_def validate_instructions_def split: option.splits)

lemma validated_attempts:
  assumes "validate_attempts decls = Inr ()" and "d \<in> set decls"
  shows "xd_attempts d = 1 \<or> xd_kind d = LeafVerifier \<and> \<not> is_git_delivery_worker (xd_worker d) \<and> xd_attempts d \<le> 2"
  using assms by (auto simp: validate_attempts_def MAX_AGENT_VERIFIER_ATTEMPTS_def find_None_iff split: option.splits)

lemma declaration_names:
  "xd_name ` set (executable_declarations root)
     = {es_name spec | n spec. n \<in> set (all_nodes root) \<and> executable_spec_of n = Some spec}"
proof -
  have "\<exists>spec. executable_spec_of n = Some spec \<and> xd_name d = es_name spec" if "declaration_of n = Some d" for n d
    using that by (cases n) (auto simp: declaration_of_def step_declaration_def verifier_declaration_def)
  moreover have "\<exists>d. declaration_of n = Some d \<and> xd_name d = es_name spec" if "executable_spec_of n = Some spec" for n spec
    using declaration_spec[OF that] by blast
  ultimately show ?thesis unfolding set_eq_iff image_iff declaration_members mem_Collect_eq Bex_def by metis
qed

section \<open>Dispatches of a reduction\<close>

context dispatch_spread
begin

lemma reduce_spread:
  assumes "reduce jl root mode input = Inr r" and "bounded_history (ri_executions input)"
  shows "P root [] (dispatches (rd_decisions r))"
proof -
  from assms(1) obtain e0 e c s where new: "Engine_new input root mode = Inr e0"
    and ev: "eval jl root e0 (Context_new (initial_state root input)) root_traversal = Inr (e, c, s)"
    and ds: "dispatches (rd_decisions r) = dispatches (eng_decisions e)"
    by (rule reduce_emits)
  have "P root (tr_map_indices root_traversal) (new_dispatches e0 e)"
    by (rule spreadsD[OF eval_spreads ev]) (use assms(2) Engine_new_ok(2)[OF new] in simp)
  then show ?thesis by (simp add: new_dispatches_def Engine_new_ok(1)[OF new] ds root_traversal_def)
qed

lemma reduce_run_spread:
  assumes "reduce_run jl admitted snap = Inr red" and "run_ok n snap"
    and "n + seed_offset (sn_execution_seed snap) < HistoryPosition_MAX"
  shows "P (cg_root (ad_graph admitted)) [] (dispatches (rd_decisions red))"
proof -
  from assms(1) obtain H ni ne where H: "durable_history snap = Inr H"
    and r: "reduce jl (cg_root (ad_graph admitted)) NativeV2
       \<lparr>ri_initial_input = ad_initial_input admitted, ri_executions = H,
        ri_next_node_instance = ni, ri_next_execution = ne\<rparr> = Inr red" by (rule reduce_run_cases)
  have "bounded_history H" using durable_history_ok[OF assms(2,3)] H by auto
  then show ?thesis using reduce_spread[OF r] by simp
qed

end

section \<open>A delivery is dispatched alone\<close>

definition delivers :: "decision \<Rightarrow> bool" where
  "delivers d \<longleftrightarrow> is_trusted_delivery_worker (dp_worker d)"

text \<open>Deliveries sit on verifier nodes.\<close>

definition delivery_verifiers :: "graph_node \<Rightarrow> bool" where
  "delivery_verifiers n \<longleftrightarrow>
     (\<forall>m \<in> set (all_nodes n). case m of StepNode s \<Rightarrow> \<not> is_trusted_delivery_worker (st_worker s) | _ \<Rightarrow> True)"

lemma delivery_verifiers_child: "delivery_verifiers n \<Longrightarrow> c \<in> set (child_nodes n) \<Longrightarrow> delivery_verifiers c"
  using all_nodes_child by (fastforce simp: delivery_verifiers_def)

text \<open>The dispatches of a node against the writers the concurrency check found below it.\<close>

definition within_writers :: "found_writers \<Rightarrow> decision list \<Rightarrow> bool" where
  "within_writers w ds \<longleftrightarrow>
     (ds \<noteq> [] \<longrightarrow> pw_writer w \<noteq> None)
     \<and> ((\<exists>d \<in> set ds. delivers d) \<longrightarrow> pw_delivery w \<noteq> None \<and> length ds = 1)"

definition exclusive :: "graph_node \<Rightarrow> u64 list \<Rightarrow> decision list \<Rightarrow> bool" where
  "exclusive n idx ds \<longleftrightarrow>
     (delivery_verifiers n \<longrightarrow> (\<forall>w. possible_writers n = Inr w \<longrightarrow> within_writers w ds))"

definition covers_writers :: "found_writers \<Rightarrow> found_writers \<Rightarrow> bool" where
  "covers_writers a b \<longleftrightarrow>
     (pw_writer a \<noteq> None \<longrightarrow> pw_writer b \<noteq> None) \<and> (pw_delivery a \<noteq> None \<longrightarrow> pw_delivery b \<noteq> None)"

lemma covers_writersD: "covers_writers a b \<Longrightarrow> within_writers a ds \<Longrightarrow> within_writers b ds"
  by (auto simp: covers_writers_def within_writers_def)

lemma combine_writers_covers:
  assumes "combine_writers p a b = Inr c"
  shows "covers_writers a c" "covers_writers b c"
  using assms by (auto simp: combine_writers_def append_writers_def opt_or_def covers_writers_def split: option.splits)

lemma fold_writers_covers:
  assumes "try_foldl (\<lambda>combined n. bind_res (possible_writers n) (combine_writers p combined)) a cs = Inr w"
  shows "covers_writers a w \<and> (\<forall>c \<in> set cs. \<exists>wc. possible_writers c = Inr wc \<and> covers_writers wc w)"
  using assms
proof (induction cs arbitrary: a)
  case Nil
  then show ?case by (simp add: covers_writers_def)
next
  case (Cons c cs)
  from Cons.prems obtain wc b where c: "possible_writers c = Inr wc" "combine_writers p a wc = Inr b"
    and rest: "try_foldl (\<lambda>combined n. bind_res (possible_writers n) (combine_writers p combined)) b cs = Inr w"
    by (auto elim!: bind_resE)
  note IH = Cons.IH[OF rest] and cw = combine_writers_covers[OF c(2)]
  have "covers_writers a w" "covers_writers wc w" using IH cw by (auto simp: covers_writers_def)
  then show ?case using IH c(1) by auto
qed

lemmas possible_writers_simps =
  possible_writers.simps[of "StepNode x" for x, simplified]
  possible_writers.simps[of "VerifierNode x" for x, simplified]
  possible_writers.simps[of "SeqNode n st cs ps" for n st cs ps, simplified]
  possible_writers.simps[of "ChoiceNode n st bs ot ps" for n st bs ot ps, simplified]
  possible_writers.simps[of "ParNode n st bs ps j" for n st bs ps j, simplified]
  possible_writers.simps[of "LoopNode n st b u m f ps" for n st b u m f ps, simplified]
  possible_writers.simps[of "MapNode n st b ov m ps" for n st b ov m ps, simplified]
  possible_writers.simps[of "SucceedNode x" for x, simplified]
  possible_writers.simps[of "FailNode x" for x, simplified]

lemma inner_writers:
  assumes "possible_writers n = Inr w" and "c \<in> set (child_nodes n)"
  obtains wc where "possible_writers c = Inr wc" "covers_writers wc w"
proof -
  have refl: "covers_writers x x" for x by (simp add: covers_writers_def)
  show ?thesis
  proof (cases "is_map_node n \<or> (\<exists>a b c d e f g. n = LoopNode a b c d e f g)")
    case True
    then show ?thesis using assms that refl
      by (auto simp: is_map_node_def possible_writers_simps map_writers_def elim!: bind_resE
          split: graph_node.splits option.splits if_splits)
  next
    case False
    then obtain p where "try_foldl (\<lambda>combined n. bind_res (possible_writers n) (combine_writers p combined))
        no_writers (child_nodes n) = Inr w"
      using assms by (cases n) (auto simp: is_map_node_def possible_writers_simps)
    from fold_writers_covers[OF this] assms(2) that show ?thesis by blast
  qed
qed

text \<open>Side by side, a branch with a delivery excludes every other dispatching branch.\<close>

lemma parallel_writers:
  assumes "list_all2 (\<lambda>b ds. \<forall>w. possible_writers b = Inr w \<longrightarrow> within_writers w ds) bs dss"
    and "try_foldl (\<lambda>combined n. bind_res (possible_writers n) (combine_writers True combined)) a bs = Inr w"
    and "within_writers a ds0"
  shows "within_writers w (ds0 @ concat dss)"
  using assms
proof (induction bs dss arbitrary: a ds0 rule: list_all2_induct)
  case (Cons b bs ds dss)
  from Cons.prems(1) obtain wb c where b: "possible_writers b = Inr wb" "combine_writers True a wb = Inr c"
    and rest: "try_foldl (\<lambda>combined n. bind_res (possible_writers n) (combine_writers True combined)) c bs = Inr w"
    by (auto elim!: bind_resE)
  have "within_writers wb ds" using Cons.hyps(1) b(1) by blast
  then have "within_writers c (ds0 @ ds)"
    using b(2) Cons.prems(2)
    by (auto simp: within_writers_def combine_writers_def append_writers_def opt_or_def opt_zip_def split: option.splits)
  from Cons.IH[OF rest this] show ?case by simp
qed simp

interpretation delivery: dispatch_spread exclusive
proof unfold_locales
  show "exclusive n idx []" for n idx by (simp add: exclusive_def within_writers_def)
  show "exclusive n idx [d]"
    if "executable_spec_of n = Some spec" "dp_worker d = es_worker spec" for n spec d idx
    using that by (cases n)
      (auto simp: exclusive_def within_writers_def delivers_def possible_writers_simps delivery_verifiers_def
        all_nodes.simps[of "StepNode _"] trusted_delivery_iff)
  show "exclusive n idx ds" if "c \<in> set (child_nodes n)" "exclusive c idx ds" for c n idx ds
  proof -
    have "within_writers w ds" if "delivery_verifiers n" "possible_writers n = Inr w" for w
    proof -
      obtain wc where "possible_writers c = Inr wc" "covers_writers wc w"
        by (rule inner_writers[OF \<open>possible_writers n = Inr w\<close> \<open>c \<in> set (child_nodes n)\<close>])
      moreover have "delivery_verifiers c"
        by (rule delivery_verifiers_child[OF \<open>delivery_verifiers n\<close> \<open>c \<in> set (child_nodes n)\<close>])
      ultimately show ?thesis using \<open>exclusive c idx ds\<close> covers_writersD by (auto simp: exclusive_def)
    qed
    then show ?thesis by (simp add: exclusive_def)
  qed
  show "exclusive (ParNode name st bs ps j) idx (concat dss)"
    if "list_all2 (\<lambda>b ds. exclusive b idx ds) bs dss" for idx bs dss name st ps j
  proof -
    have "within_writers w (concat dss)"
      if ok: "delivery_verifiers (ParNode name st bs ps j)" "possible_writers (ParNode name st bs ps j) = Inr w" for w
    proof -
      have "list_all2 (\<lambda>b ds. \<forall>w. possible_writers b = Inr w \<longrightarrow> within_writers w ds) bs dss"
        using \<open>list_all2 (\<lambda>b ds. exclusive b idx ds) bs dss\<close>
        by (rule list.rel_mono_strong) (use delivery_verifiers_child[OF ok(1)] in \<open>auto simp: exclusive_def\<close>)
      from parallel_writers[OF this, of no_writers w "[]"] ok(2) show ?thesis
        by (simp add: possible_writers_simps within_writers_def)
    qed
    then show ?thesis by (simp add: exclusive_def)
  qed
  show "exclusive (MapNode name st body over m ps) idx (concat dss)"
    if all: "list_all2 (\<lambda>i ds. exclusive body (idx @ [i]) ds) is dss" and len: "length is \<le> m"
    for body idx "is" dss m name st over ps
  proof -
    have "within_writers w (concat dss)"
      if ok: "delivery_verifiers (MapNode name st body over m ps)" "possible_writers (MapNode name st body over m ps) = Inr w" for w
    proof -
      have body: "delivery_verifiers body" using delivery_verifiers_child[OF ok(1)] by simp
      from ok(2) have pw: "possible_writers body = Inr w" and one: "pw_delivery w \<noteq> None \<Longrightarrow> m \<le> 1"
        by (auto simp: possible_writers_simps map_writers_def
            elim!: bind_resE split: option.splits if_splits)
      have each: "\<forall>ds \<in> set dss. within_writers w ds"
        using all body pw by (auto simp: list_all2_conv_all_nth exclusive_def in_set_conv_nth)
      show ?thesis
      proof (cases "pw_delivery w = None")
        case True
        then show ?thesis using each by (auto simp: within_writers_def)
      next
        case False
        then have "length dss \<le> 1" using one len list_all2_lengthD[OF all] by simp
        then show ?thesis using each by (cases dss) (auto simp: within_writers_def)
      qed
    qed
    then show ?thesis by (simp add: exclusive_def)
  qed
qed
section \<open>The graph-local registry agrees with the graph\<close>

lemma resolve_declaration_kept:
  assumes "resolve_declaration runtime acc d = Inr acc'" and "bm_wf acc"
  shows "bm_wf acc'" and "bm_get acc w = Some z \<Longrightarrow> bm_get acc' w = Some z"
    and "bm_get (rp_nodes runtime) (xd_name d) \<noteq> None \<Longrightarrow>
      \<exists>z. bm_get acc' (xd_worker d) = Some z \<and> rz_contract z = xd_contract d"
  using assms by (auto simp: resolve_declaration_def split: option.splits if_splits)

lemma resolved_declarations:
  assumes "try_foldl (resolve_declaration runtime) acc decls = Inr res" and "bm_wf acc"
  shows "bm_wf res \<and> (\<forall>w z. bm_get acc w = Some z \<longrightarrow> bm_get res w = Some z)
    \<and> (\<forall>d \<in> set decls. bm_get (rp_nodes runtime) (xd_name d) \<noteq> None \<longrightarrow>
         (\<exists>z. bm_get res (xd_worker d) = Some z \<and> rz_contract z = xd_contract d))"
  using assms
proof (induction decls arbitrary: acc)
  case (Cons d decls)
  from Cons.prems(1) obtain b where b: "resolve_declaration runtime acc d = Inr b"
    and rest: "try_foldl (resolve_declaration runtime) b decls = Inr res" by (auto elim!: bind_resE)
  note k = resolve_declaration_kept[OF b Cons.prems(2)]
  from Cons.IH[OF rest k(1)] k(2,3) show ?case by (metis set_ConsD)
qed simp

lemma worker_descriptor_ok:
  assumes "worker_descriptor_of graph worker contract = Inr desc"
  shows "wd_worker desc = worker" "wd_contract desc = contract" "wd_graph_profiles desc = [FullProfile]"
    "descriptor_validate desc = Inr ()"
  using assms by (auto simp: worker_descriptor_of_def Let_def map_err_def elim!: bind_resE split: sum.splits)

lemma registry_resolves:
  assumes "from_declarations graph decls runtime = Inr reg" and "d \<in> set decls"
    and "bm_get (rp_nodes runtime) (xd_name d) \<noteq> None"
  obtains desc where "graph_bound_resolve reg (xd_worker d) = Inr desc"
    "worker_descriptor_of graph (xd_worker d) (xd_contract d) = Inr desc"
proof -
  let ?f = "\<lambda>(worker, declaration).
      bind_res (worker_descriptor_of graph worker (rz_contract declaration)) (\<lambda>value. Inr (worker, value))"
  from assms(1) obtain res xs where res: "try_foldl (resolve_declaration runtime) [] decls = Inr res"
    and xs: "list_all2 (\<lambda>p q. ?f p = Inr q) res xs" and reg: "reg = bm_extend [] xs"
    by (auto simp: from_declarations_def try_map_ok elim!: bind_resE)
  obtain z where wf: "bm_wf res" and z: "bm_get res (xd_worker d) = Some z" "rz_contract z = xd_contract d"
    using resolved_declarations[OF res] assms(2,3) by (auto simp: bm_wf_def)
  have keys: "map fst xs = map fst res"
    using xs by (induction rule: list_all2_induct) (auto elim!: bind_resE)
  then have wfx: "bm_wf xs" using wf by (simp add: bm_wf_def)
  from z(1) wf have "(xd_worker d, z) \<in> set res" by (simp add: bm_get_iff)
  then obtain i where i: "i < length res" "res ! i = (xd_worker d, z)" by (auto simp: in_set_conv_nth)
  with list_all2_nthD[OF xs i(1)] obtain desc where desc: "worker_descriptor_of graph (xd_worker d) (xd_contract d) = Inr desc"
    "xs ! i = (xd_worker d, desc)" by (auto simp: z(2) elim!: bind_resE)
  have "(xd_worker d, desc) \<in> set xs" using desc(2) i(1) list_all2_lengthD[OF xs] by (metis nth_mem)
  then have "bm_get xs (xd_worker d) = Some desc" using wfx by (simp add: bm_get_iff)
  then have "bm_get reg (xd_worker d) = Some desc" using bm_get_extend[OF wfx] by (simp add: reg)
  then show ?thesis using that desc(1) by (simp add: graph_bound_resolve_def ok_or_def)
qed

definition contract_wf :: "worker_contract \<Rightarrow> bool" where
  "contract_wf c \<longleftrightarrow> payload_wf (wc_input c) \<and> payload_wf (wc_output c)
     \<and> (case wc_verifier c of None \<Rightarrow> True | Some v \<Rightarrow> payload_wf (vc_diagnostic v) \<and> bm_wf (vc_signals v))"

lemma check_verifier_refl:
  assumes "bm_wf signals" and "payload_wf diagnostic"
  shows "check_verifier path worker signals diagnostic \<lparr>vc_signals = signals, vc_diagnostic = diagnostic\<rparr> = []"
proof -
  have "bm_get signals k = Some v" if "(k, v) \<in> set signals" for k v using that assms(1) by (simp add: bm_get_iff)
  then show ?thesis using assms by (auto simp: check_verifier_def Let_def subtype_refl enum_is_subset_iff)
qed

lemma check_located_agrees:
  assumes "declaration_of n = Some d" and "worker_node_of n = Some node" and "contract_wf (xd_contract d)"
    and "resolve (xd_worker d) = Inr desc" and "worker_descriptor_of graph (xd_worker d) (xd_contract d) = Inr desc"
  shows "check_located resolve FullProfile (path, node) = []"
  using assms worker_descriptor_ok[OF assms(5)]
  by (cases n) (auto simp: declaration_of_def worker_node_of_def step_declaration_def verifier_declaration_def
      contract_wf_def check_located_def check_descriptor_def Let_def subtype_refl check_verifier_refl)

lemma graph_bound_registry_agrees:
  assumes "from_declarations graph (executable_declarations (gs_root graph)) runtime = Inr reg"
    and "gs_profile graph = FullProfile" and "xd_name ` set (executable_declarations (gs_root graph)) \<subseteq> set (bm_keys (rp_nodes runtime))"
    and "\<forall>d \<in> set (executable_declarations (gs_root graph)). contract_wf (xd_contract d)"
  shows "check_graph_workers graph (graph_bound_resolve reg) = Inr ()"
proof -
  have "check_located (graph_bound_resolve reg) FullProfile located = []"
    if "located \<in> set (collect_workers (gs_root graph) [])" for located
  proof -
    obtain path node where l: "located = (path, node)" by force
    have "node \<in> set (map snd (collect_workers (gs_root graph) []))" using that l by force
    then obtain n where n: "n \<in> set (all_nodes (gs_root graph))" "worker_node_of n = Some node"
      by (auto simp: collect_workers_nodes map_filter_member)
    obtain d where d: "declaration_of n = Some d"
      using n(2) by (cases n) (simp_all add: declaration_of_def worker_node_of_def)
    then have mem: "d \<in> set (executable_declarations (gs_root graph))" using n(1) declaration_members by blast
    then have "bm_get (rp_nodes runtime) (xd_name d) \<noteq> None"
      using assms(3) mem by (auto simp: bm_keys_def bm_get_def map_of_eq_None_iff)
    from registry_resolves[OF assms(1) mem this] obtain desc where
      "graph_bound_resolve reg (xd_worker d) = Inr desc"
      "worker_descriptor_of graph (xd_worker d) (xd_contract d) = Inr desc" .
    then show ?thesis using check_located_agrees[OF d n(2)] assms(4) mem l by blast
  qed
  then show ?thesis by (simp add: check_graph_workers_def Let_def assms(2))
qed

text \<open>Every contract with the runtime errors has a descriptor, so the registry is built unless a worker
  reference is declared with two contracts or roles.\<close>

lemma worker_descriptor_total:
  assumes "wc_errors c = RUNTIME_WORKER_ERRORS"
  shows "\<exists>desc. worker_descriptor_of graph w c = Inr desc"
proof -
  have "TypeId_new ''openengine.result@1'' = Inr ''openengine.result@1''"
    "MediaType_new ''application/json'' = Inr ''application/json''"
    "binding_validate builtin_v1 = Inr ()" "require_unique_nonempty RUNTIME_WORKER_ERRORS ''worker errors'' = Inr ()"
    "list_all (\<lambda>code. code \<in> set RUNTIME_WORKER_ERRORS) RUNTIME_WORKER_ERRORS"
    by code_simp+
  moreover have "require_unique_nonempty [x] kind = Inr ()" "require_unique [] kind = Inr ()" for x :: string and kind
    by (simp_all add: require_unique_nonempty_def require_unique_distinct)
  moreover have "require_unique_nonempty [x] kind = Inr ()" for x :: graph_profile and kind
    by (simp add: require_unique_nonempty_def require_unique_distinct)
  ultimately show ?thesis
    by (simp add: worker_descriptor_of_def Let_def map_err_def descriptor_validate_def validate_collections_def
        validate_builtin_binding_def assms require_unique_distinct)
qed

lemma declaration_errors: "d \<in> set (executable_declarations root) \<Longrightarrow> wc_errors (xd_contract d) = RUNTIME_WORKER_ERRORS"
proof -
  assume "d \<in> set (executable_declarations root)"
  then obtain n where "declaration_of n = Some d" unfolding declaration_members by blast
  then show ?thesis by (cases n) (auto simp: declaration_of_def step_declaration_def verifier_declaration_def)
qed

lemma resolved_errors:
  assumes "try_foldl (resolve_declaration runtime) acc decls = Inr res"
    and "\<forall>d \<in> set decls. wc_errors (xd_contract d) = RUNTIME_WORKER_ERRORS"
    and "\<forall>(w, z) \<in> set acc. wc_errors (rz_contract z) = RUNTIME_WORKER_ERRORS"
  shows "\<forall>(w, z) \<in> set res. wc_errors (rz_contract z) = RUNTIME_WORKER_ERRORS"
  using assms
proof (induction decls arbitrary: acc)
  case (Cons d decls)
  from Cons.prems(1) obtain b where b: "resolve_declaration runtime acc d = Inr b"
    and rest: "try_foldl (resolve_declaration runtime) b decls = Inr res" by (auto elim!: bind_resE)
  have "\<forall>(w, z) \<in> set b. wc_errors (rz_contract z) = RUNTIME_WORKER_ERRORS"
    using b Cons.prems(2,3) set_bm_insert_subset
    by (fastforce simp: resolve_declaration_def split: option.splits if_splits)
  with Cons.IH[OF rest] Cons.prems(2) show ?case by simp
qed simp

lemma registry_total:
  assumes "try_foldl (resolve_declaration runtime) [] (executable_declarations root) = Inr res"
  shows "\<exists>reg. from_declarations graph (executable_declarations root) runtime = Inr reg"
proof -
  have errs: "\<forall>(w, z) \<in> set res. wc_errors (rz_contract z) = RUNTIME_WORKER_ERRORS"
    using resolved_errors[OF assms] declaration_errors by auto
  have "\<exists>xs. try_map (\<lambda>(worker, declaration).
      bind_res (worker_descriptor_of graph worker (rz_contract declaration)) (\<lambda>value. Inr (worker, value))) ps = Inr xs"
    if "set ps \<subseteq> set res" for ps
    using that
  proof (induction ps)
    case (Cons p ps)
    obtain w z where p: "p = (w, z)" by force
    then have "\<exists>desc. worker_descriptor_of graph w (rz_contract z) = Inr desc"
      using errs Cons.prems by (intro worker_descriptor_total) auto
    then show ?case using Cons p by auto
  qed simp
  from this[of res] show ?thesis using assms by (auto simp: from_declarations_def)
qed

section \<open>Deliveries of an admitted run\<close>

lemma validated_deliveries:
  assumes "validate_executable_bindings host policy (executable_declarations root) runtime = Inr ()"
  shows "delivery_verifiers root"
proof -
  have "\<not> is_trusted_delivery_worker (st_worker st)" if "StepNode st \<in> set (all_nodes root)" for st
  proof -
    have d: "step_declaration st \<in> set (executable_declarations root)"
      using that unfolding declaration_members by (force simp: declaration_of_def)
    from validated_bindings(3)[OF assms] d obtain b where "validate_binding_kind (step_declaration st) b = Inr ()"
      by (rule binding_kinds_ok)
    from delivery_binding(3)[OF this] show ?thesis by (auto simp: step_declaration_def)
  qed
  then show ?thesis by (auto simp: delivery_verifiers_def split: graph_node.splits)
qed

section \<open>Receipts of successful deliveries\<close>

text \<open>A receipt read back from the document that a delivery result is written as.\<close>

definition links_ok :: "url_parser \<Rightarrow> (string, json) btree_map option \<Rightarrow> bool" where
  "links_ok parse_url links =
     (case links of
        None \<Rightarrow> True
      | Some object \<Rightarrow>
          (case read_links_wire (VObject object) of
             None \<Rightarrow> False
           | Some wire \<Rightarrow>
               (case (lw_url wire, lw_commit_url wire) of
                  (None, None) \<Rightarrow> True
                | (Some url, Some commit) \<Rightarrow> same_public_origin parse_url url commit
                | _ \<Rightarrow> False)))"

lemma mode_identity: "result_version a = result_version b \<Longrightarrow> mode_label a = mode_label b \<Longrightarrow> a = b"
  by (cases a; cases b) (simp_all add: result_version_def mode_label_def)

lemma serde_struct_object:
  "fst ` set object \<subseteq> set names \<Longrightarrow> serde_struct names (VObject object) = Some (bm_get object)"
  by (auto simp: serde_struct_def list_all_iff)

lemma read_result_value:
  "read_result_wire (delivery_result_value r) =
     (case (case dr_links r of None \<Rightarrow> Some None | Some object \<Rightarrow> map_option Some (read_links_wire (VObject object))) of
        None \<Rightarrow> None
      | Some links \<Rightarrow>
          Some \<lparr>rw_version = result_version (dr_mode r), rw_mode = mode_label (dr_mode r), rw_outcome = dr_outcome r,
                rw_repository = rv_repository (dr_review r), rw_target_branch = rv_target_branch (dr_review r),
                rw_head_revision = rv_head_revision (dr_review r),
                rw_head_branch = (if dr_mode r = ModePush then Some (rv_head_branch (dr_review r)) else None),
                rw_pull_request_id = (if dr_mode r = ModePush then None else Some (rv_review_id (dr_review r))),
                rw_merge_revision = (if includes_merge_revision (dr_mode r)
                   then Some (case dr_merge_revision r of Some m \<Rightarrow> m | None \<Rightarrow> []) else None),
                rw_links = links\<rparr>)"
proof -
  have get: "serde_string (Some (VString v)) = Some v" "serde_option as_str (Some (VString v)) = Some (Some v)"
    "serde_option as_str None = Some None" for v by (simp_all add: serde_string_def serde_option_def as_str_def)
  have links: "serde_option read_links_wire (Some (VObject object)) = map_option Some (read_links_wire (VObject object))"
    "serde_option read_links_wire None = Some None" for object by (simp_all add: serde_option_def)
  have keys: "serde_struct result_wire_fields (delivery_result_value r) =
      Some (\<lambda>key. case delivery_result_value r of VObject object \<Rightarrow> bm_get object key | _ \<Rightarrow> None)"
    by (simp add: delivery_result_value_def bm_extend_def Let_def serde_struct_object result_wire_fields_def
        del: bm_insert.simps split: option.splits)
  show ?thesis unfolding read_result_wire_def keys
    by (simp add: delivery_result_value_def bm_extend_def Let_def get links del: bm_insert.simps split: option.splits)
qed

lemma receipt_exact:
  assumes "valid_delivery_result r"
  shows "is_matching_success_receipt parse_url (delivery_result_value r) mode target \<longleftrightarrow>
    mode = dr_mode r \<and> dr_outcome r = success_outcome mode
    \<and> rv_repository (dr_review r) = dt_repository target \<and> rv_target_branch (dr_review r) = dt_target_branch target
    \<and> rv_head_revision (dr_review r) \<noteq> dt_base_revision target
    \<and> (includes_merge_revision mode \<longrightarrow> dr_merge_revision r \<noteq> None)
    \<and> links_ok parse_url (dr_links r)"
proof (cases "mode = dr_mode r \<and> dr_outcome r = success_outcome (dr_mode r)")
  case False
  have "mode = dr_mode r \<and> dr_outcome r = success_outcome (dr_mode r)"
    if "is_matching_success_receipt parse_url (delivery_result_value r) mode target"
  proof -
    from that have "result_version (dr_mode r) = result_version mode" "mode_label (dr_mode r) = mode_label mode"
      "dr_outcome r = success_outcome mode"
      unfolding is_matching_success_receipt_def read_result_value by (auto split: option.splits)
    then show ?thesis using mode_identity by metis
  qed
  then show ?thesis using False by auto
next
  case True
  have empty: "\<not> valid_git_revision []" by (simp add: valid_git_revision_def)
  from True assms have v: "valid_delivery_identity r" "valid_delivery_revision r"
    by (cases "dr_mode r"; simp add: valid_delivery_result_def success_outcome_def)+
  from v(1) have head: "valid_git_revision (rv_head_revision (dr_review r))" "valid_git_branch (rv_head_branch (dr_review r))"
    "dr_mode r \<noteq> ModePush \<Longrightarrow> valid_review_id (rv_review_id (dr_review r))"
    by (auto simp: valid_delivery_identity_def split: if_splits)
  have links: "valid_result_links parse_url \<lparr>rw_version = a, rw_mode = b, rw_outcome = c, rw_repository = d, rw_target_branch = e,
      rw_head_revision = f, rw_head_branch = g, rw_pull_request_id = h, rw_merge_revision = i, rw_links = links\<rparr> \<longleftrightarrow>
      (case links of None \<Rightarrow> True | Some wire \<Rightarrow>
         (case (lw_url wire, lw_commit_url wire) of (None, None) \<Rightarrow> True
          | (Some url, Some commit) \<Rightarrow> same_public_origin parse_url url commit | _ \<Rightarrow> False))" for a b c d e f g h i links
    by (auto simp: valid_result_links_def split: option.splits)
  show ?thesis using True head v(2) empty
    by (cases "dr_mode r"; cases "dr_links r")
      (auto simp: is_matching_success_receipt_def read_result_value receipt_matches_target_def links links_ok_def
        receipt_mode_matches_def valid_pull_request_receipt_def valid_delivery_revision_def
        includes_merge_revision_def split: option.splits)
qed

end
