(* ===== verification/Sessions.thy ===== *)
theory Sessions
  imports Finish
begin

text \<open>
  A run over several sessions of its supervisor. A session starts on the ledger the previous one left,
  at whatever point that one stopped: in the middle of driving the run, between the latched completion
  of the graph and its publication, or after an error (\<^verbatim>\<open>NativeV2Supervisor::initialize\<close> reads the ledger
  and resumes from it). The theory shows that the delivery gate outlives the session that latched the
  result: what a supervisor writes before it finishes a run never completes the graph, and every other
  event keeps what was latched.
\<close>

section \<open>What a supervisor writes\<close>

inductive appends :: "host \<Rightarrow> (run_event \<Rightarrow> bool) \<Rightarrow> supervisor \<Rightarrow> supervisor \<Rightarrow> bool" for ho Q s where
  appends_nothing: "sp_ledger t = sp_ledger s \<Longrightarrow> sp_run_id t = sp_run_id s \<Longrightarrow> appends ho Q s t"
| appends_append: "appends ho Q s t \<Longrightarrow> append_events ho evs t = (u, Inr snap) \<Longrightarrow> \<forall>ev \<in> set evs. Q ev \<Longrightarrow>
    appends ho Q s u"
| appends_else: "appends ho Q s t \<Longrightarrow> sp_ledger u = sp_ledger t \<Longrightarrow> sp_run_id u = sp_run_id t \<Longrightarrow> appends ho Q s u"

lemma appends_refl [simp, intro]: "appends ho Q s s"
  by (rule appends_nothing) simp_all

lemma appends_trans: "appends ho Q t u \<Longrightarrow> appends ho Q s t \<Longrightarrow> appends ho Q s u"
  by (induction rule: appends.induct) (auto intro: appends_append appends_else)

lemma appends_any: "appends ho Q s t \<Longrightarrow> appends ho (\<lambda>_. True) s t"
  by (induction rule: appends.induct) (auto intro: appends_append appends_else appends_nothing)

definition writer :: "host \<Rightarrow> (run_event \<Rightarrow> bool) \<Rightarrow> 'a supervised \<Rightarrow> bool" where
  "writer ho Q m \<longleftrightarrow> (\<forall>s. appends ho Q s (fst (m s)))"

lemma writerD: "writer ho Q m \<Longrightarrow> m s = (t, r) \<Longrightarrow> appends ho Q s t"
  unfolding writer_def by (metis fst_conv)

lemma writer_bind [intro]: "writer ho Q m \<Longrightarrow> (\<And>a. writer ho Q (f a)) \<Longrightarrow> writer ho Q (bind_sup m f)"
  unfolding writer_def bind_sup_def
  by (auto split: prod.splits sum.splits) (metis fst_conv appends_trans)+

lemma writer_lift [simp, intro]: "writer ho Q (lift_res r)"
  by (simp add: writer_def lift_res_def)

lemma writer_snapshot [simp, intro]: "writer ho Q sup_snapshot"
  by (auto simp: writer_def sup_snapshot_def load_def bind_sup_def lift_res_def split: sum.splits)

lemma writer_append: "\<forall>ev \<in> set evs. Q ev \<Longrightarrow> writer ho Q (append_events ho evs)"
proof (unfold writer_def, intro allI)
  fix s assume q: "\<forall>ev \<in> set evs. Q ev"
  obtain t r where a: "append_events ho evs s = (t, r)" by force
  show "appends ho Q s (fst (append_events ho evs s))"
  proof (cases r)
    case (Inl e)
    then show ?thesis using a append_events_err by fastforce
  next
    case (Inr snap)
    then show ?thesis using a appends_append[OF appends_refl _ q] by simp
  qed
qed

lemma record_failure_logs_writes: "\<forall>ev \<in> set logs. Q ev \<Longrightarrow> appends ho Q s (record_failure_logs ho logs s)"
  using writer_append[of logs Q ho] by (simp add: record_failure_logs_def writer_def)

lemma bind_sup_lift [simp]: "bind_sup (lift_res (Inr a)) f = f a"
  by (simp add: bind_sup_def lift_res_def fun_eq_iff)

section \<open>Driving never completes the graph\<close>

abbreviation drives :: "host \<Rightarrow> 'a supervised \<Rightarrow> bool" where
  "drives ho \<equiv> writer ho (\<lambda>ev. \<not> completes ev)"

lemma observations_incomplete: "\<forall>ev \<in> set evs. is_observation ev \<Longrightarrow> \<forall>ev \<in> set evs. \<not> completes ev"
  using observation_not_completes by blast

lemma drives_silent:
  "(\<And>s. sp_ledger (fst (m s)) = sp_ledger s \<and> sp_run_id (fst (m s)) = sp_run_id s) \<Longrightarrow> drives ho m"
  by (simp add: writer_def appends_nothing)

lemma begin_voids_silent:
  "sp_ledger (fst (begin_voids voids s)) = sp_ledger s \<and> sp_run_id (fst (begin_voids voids s)) = sp_run_id s"
proof (induction voids arbitrary: s)
  case (Cons v voids)
  obtain x reason where v: "v = (x, reason)" by (cases v)
  let ?s = "s\<lparr>sp_pending_voids := bm_insert x reason (sp_pending_voids s),
              sp_cancellations := remove1 x (sp_cancellations s)\<rparr>"
  show ?case using Cons.IH[of ?s]
    by (cases "begin_voids voids ?s"; cases "snd (begin_voids voids ?s)")
      (simp_all add: v Let_def bind_sup_def lift_res_def)
qed (simp add: lift_res_def)

lemma start_dispatches_drives: "drives ho (start_dispatches program ds)"
proof (induction ds)
  case (Cons d ds)
  have "drives ho (start_dispatch program d)"
    by (rule drives_silent) (simp add: start_dispatch_def Let_def split: option.split)
  then show ?case using Cons by auto
qed simp

lemma dispatch_all_drives: "drives ho (dispatch_all ho program ds)"
proof -
  have "drives ho (append_events ho (map dispatch_event ds))"
    by (rule writer_append) (auto simp: dispatch_event_def completes_def)
  then have "appends ho (\<lambda>ev. \<not> completes ev) s (fst (record_dispatches ho ds s))" for s
    unfolding writer_def record_dispatches_def
    by (cases "append_events ho (map dispatch_event ds) s"; cases "snd (append_events ho (map dispatch_event ds) s)")
      (auto simp: sup_snapshot_def load_def bind_sup_def lift_res_def split: prod.splits sum.splits if_splits dest: spec[of _ s])
  then have "drives ho (record_dispatches ho ds)" by (simp add: writer_def)
  then have "drives ho (bind_sup (record_dispatches ho ds) (\<lambda>recorded.
       if \<not> recorded then lift_res (Inr False)
       else bind_sup (start_dispatches program ds) (\<lambda>_. lift_res (Inr True))))"
    using start_dispatches_drives by (intro writer_bind) auto
  then show ?thesis unfolding writer_def dispatch_all_def by auto
qed

lemma advance_drives: "drives ho (advance ho program old)"
  unfolding writer_def
proof
  fix s
  obtain t r where a: "advance ho program old s = (t, r)" by force
  then have "appends ho (\<lambda>ev. \<not> completes ev) s t"
  proof (cases rule: advance_cases)
    case (voids red vs)
    have "drives ho (bind_sup (begin_voids vs) (\<lambda>targets. lift_res (Inr (Voiding targets))))"
      using drives_silent[OF begin_voids_silent] by auto
    from writerD[OF this voids(4)] show ?thesis .
  next
    case (dispatched red ds)
    have "drives ho (bind_sup (dispatch_all ho program ds) (\<lambda>_. lift_res (Inr Turn)))"
      using dispatch_all_drives by auto
    from writerD[OF this dispatched(6)] show ?thesis .
  qed auto
  then show "appends ho (\<lambda>ev. \<not> completes ev) s (fst (advance ho program old s))" by (simp add: a)
qed

lemma begin_settle_drives: "drives ho (begin_settle ho fin)"
proof -
  have "drives ho (require_finished_cleanup ho fin)"
    unfolding writer_def require_finished_cleanup_def
    using record_failure_logs_writes failure_log_observation observation_not_completes
    by (auto split: sum.splits option.splits)
  then show ?thesis by (auto simp: begin_settle_def)
qed

lemma settle_drives: "settle ho old fin s = (t, r) \<Longrightarrow> appends ho (\<lambda>ev. \<not> completes ev) s t"
proof -
  let ?s = "s\<lparr>sp_pending_voids := bm_retain (\<lambda>x _. x \<noteq> fin_execution fin) (sp_pending_voids s)\<rparr>"
  assume a: "settle ho old fin s = (t, r)"
  have start: "appends ho (\<lambda>ev. \<not> completes ev) s ?s" by (rule appends_nothing) simp_all
  show ?thesis
  proof (cases "settle_events ho old (sp_force_requested s) fin (bm_get (sp_pending_voids s) (fin_execution fin))")
    case (Inl e)
    then show ?thesis using a start by (auto simp: settle_def bind_sup_def lift_res_def Let_def)
  next
    case (Inr evs)
    have "\<not> completes ev" if "\<not> is_closing ev" for ev
      using that by (cases ev) (simp_all add: completes_def is_closing_def)
    then have "drives ho (append_events ho evs)"
      using ends_with_active(2)[OF settle_events_ends[OF Inr]] by (intro writer_append) blast
    moreover obtain u q where u: "append_events ho evs ?s = (u, q)" by force
    ultimately have "appends ho (\<lambda>ev. \<not> completes ev) ?s u" by (rule writerD)
    moreover have "t = u"
      using a Inr u by (auto simp: settle_def bind_sup_def lift_res_def Let_def split: sum.splits)
    ultimately show ?thesis using start appends_trans by blast
  qed
qed

lemma drain_drives:
  assumes "drain_terminalizing_tasks ho logs drained s = (t, r)" and "\<forall>ev \<in> set logs. is_observation ev"
  shows "appends ho (\<lambda>ev. \<not> completes ev) s t \<and> (\<forall>out. r = Inr out \<longrightarrow> (\<forall>ev \<in> set out. is_observation ev))"
  using assms
proof (induction drained arbitrary: logs)
  case (Cons fin rest)
  show ?case
  proof (cases "failure_log (ho_clock ho) fin")
    case (Inl e)
    then show ?thesis using Cons.prems by (auto simp: bind_sup_def lift_res_def map_err_def)
  next
    case (Inr lg)
    have obs: "\<forall>ev \<in> set (logs @ option_list lg). is_observation ev"
      using Cons.prems(2) option_list_observation[OF Inr] by auto
    show ?thesis
    proof (cases "terminal_drain_result (fin_result fin)")
      case err: (Inl e)
      then have "t = record_failure_logs ho (logs @ option_list lg) s" "r = Inl e"
        using Cons.prems(1) Inr by (auto simp: bind_sup_def lift_res_def map_err_def Let_def)
      then show ?thesis using record_failure_logs_writes[OF observations_incomplete[OF obs]] by simp
    next
      case ok: (Inr u)
      then have "drain_terminalizing_tasks ho (logs @ option_list lg) rest s = (t, r)"
        using Cons.prems(1) Inr by (auto simp: bind_sup_def lift_res_def map_err_def Let_def)
      from Cons.IH[OF this obs] show ?thesis .
    qed
  qed
qed (auto simp: lift_res_def)

lemma terminal_failure_incomplete:
  assumes "terminal_failure_events ck snapshot reason code = Inr evs" and "ev \<in> set evs"
  shows "\<not> completes ev"
proof -
  from assms(1) obtain label settlements final where
    s: "try_map (\<lambda>node. log_completion_events ck \<lparr>nc_reference = nd_reference node, nc_outcome = declared_failure code\<rparr> None
          (Some (text_of_string (''run '' @ reason)))) (active_executions snapshot) = Inr settlements"
    and l: "terminal_events ck (Failed label None) = Inr final" and evs: "evs = clear_diagnostics (concat settlements) @ final"
    by (auto simp: terminal_failure_events_def elim!: bind_resE split: sum.splits)
  have clear: "completes (clear_diagnostic e) = completes e" for e
    by (cases e) (simp_all add: clear_diagnostic_def completes_def)
  have "\<not> completes e" if "batch \<in> set settlements" "e \<in> set batch" for batch e
  proof -
    from that(1) obtain i where i: "i < length settlements" "batch = settlements ! i"
      by (auto simp: in_set_conv_nth)
    from s have "list_all2 (\<lambda>node batch. log_completion_events ck \<lparr>nc_reference = nd_reference node,
        nc_outcome = declared_failure code\<rparr> None (Some (text_of_string (''run '' @ reason))) = Inr batch)
        (active_executions snapshot) settlements" by (simp add: try_map_ok)
    from list_all2_nthD2[OF this i(1)]
    have "log_completion_events ck \<lparr>nc_reference = nd_reference (active_executions snapshot ! i),
        nc_outcome = declared_failure code\<rparr> None (Some (text_of_string (''run '' @ reason))) = Inr batch"
      by (simp add: i(2))
    from log_completion_events_ends[OF this] that(2) show ?thesis
      using observation_not_completes by (auto simp: ends_with_def completes_def)
  qed
  moreover have "\<not> completes e" if "e \<in> set final" for e
    using l by (rule terminal_events_shape) (use that observation_not_completes in \<open>auto simp: completes_def\<close>)
  ultimately show ?thesis using assms(2) by (auto simp: evs clear_diagnostics_def clear)
qed

lemma stop_run_drives:
  assumes "\<forall>ev \<in> set logs. is_observation ev"
  shows "drives ho (stop_run ho reason code logs)"
  unfolding writer_def
proof
  fix s
  note obs = observations_incomplete[OF assms]
  let ?m = "bind_sup sup_snapshot (\<lambda>snapshot.
             case sn_terminal snapshot of
               Some terminal \<Rightarrow> lift_res (Inr terminal)
             | None \<Rightarrow> append_terminal_failure ho logs snapshot reason code)"
  have "drives ho (append_terminal_failure ho logs snapshot reason code)" for snapshot
  proof (cases "terminal_failure_events (ho_clock ho) snapshot reason code")
    case (Inl e)
    then show ?thesis
      by (intro drives_silent) (simp add: append_terminal_failure_def bind_sup_def lift_res_def map_err_def)
  next
    case (Inr evs)
    have "append_terminal_failure ho logs snapshot reason code =
        bind_sup (append_events ho (logs @ evs)) (\<lambda>appended. lift_res (ok_or SupInvalidState (sn_terminal appended)))"
      by (simp add: append_terminal_failure_def Inr map_err_def)
    moreover have "drives ho (append_events ho (logs @ evs))"
      by (rule writer_append) (use obs terminal_failure_incomplete[OF Inr] in auto)
    ultimately show ?thesis by auto
  qed
  then have "drives ho ?m" by (intro writer_bind) (auto split: option.splits)
  moreover obtain t r where m: "?m s = (t, r)" by force
  ultimately have t: "appends ho (\<lambda>ev. \<not> completes ev) s t" by (rule writerD)
  show "appends ho (\<lambda>ev. \<not> completes ev) s (fst (stop_run ho reason code logs s))"
    using t appends_trans[OF record_failure_logs_writes[OF obs] t] by (cases r) (simp_all add: stop_run_def m)
qed

lemma terminalize_drives:
  assumes "bind_sup (drain_terminalizing_tasks ho [] drained) (stop_run ho reason code) s = (t, r)"
  shows "appends ho (\<lambda>ev. \<not> completes ev) s t"
proof -
  obtain u q where d: "drain_terminalizing_tasks ho [] drained s = (u, q)" by force
  note dd = drain_drives[OF d, simplified]
  show ?thesis
  proof (cases q)
    case (Inl e)
    then show ?thesis using assms d dd by (simp add: bind_sup_def)
  next
    case (Inr logs)
    then have "stop_run ho reason code logs u = (t, r)" using assms d by (simp add: bind_sup_def)
    from writerD[OF stop_run_drives this] dd Inr show ?thesis using appends_trans by blast
  qed
qed

lemma request_stop_drives: "request_stop ho s = (t, Inr ()) \<Longrightarrow> appends ho (\<lambda>ev. \<not> completes ev) s t"
  using request_stop_append[of ho s t] appends_append[OF appends_refl, of ho "[ForceStopRequested]" s t]
  by (auto simp: completes_def)

lemma drive_step_drives:
  assumes "drive_step ho program s phase t phase'"
  shows "appends ho (\<lambda>ev. \<not> completes ev) s t"
proof -
  have turn: "drives ho turn" unfolding turn_def
    by (rule writer_bind[OF writer_snapshot]) (rule drives_silent, simp)
  have tasks: "appends ho (\<lambda>ev. \<not> completes ev) s (finish_task task s)"
    "appends ho (\<lambda>ev. \<not> completes ev) s (s\<lparr>sp_tasks := ts\<rparr>)"
    "appends ho (\<lambda>ev. \<not> completes ev) s (s\<lparr>sp_force_requested := b\<rparr>)"
    "appends ho (\<lambda>ev. \<not> completes ev) s (s\<lparr>sp_runtime_lost := b\<rparr>)" for task ts b
    by (rule appends_nothing, simp_all add: finish_task_def)+
  note end_tasks = appends_trans[OF terminalize_drives tasks(2)]
  show ?thesis using assms
  proof (cases rule: drive_step.cases)
    case (node_output task queued evs snap)
    have "\<forall>ev \<in> set evs. \<not> completes ev"
      by (rule observations_incomplete[OF bridge_events_observe[OF node_output(5)]])
    then show ?thesis using appends_append[OF appends_refl node_output(6)] by blast
  next
    case (force_ok drained terminal)
    show ?thesis by (rule end_tasks[OF force_ok(4)[unfolded terminalize_force_def]])
  next
    case (force_err drained e)
    show ?thesis by (rule end_tasks[OF force_err(4)[unfolded terminalize_force_def]])
  next
    case (lost_ok drained terminal)
    show ?thesis by (rule end_tasks[OF lost_ok(4)[unfolded terminalize_lost_def]])
  next
    case (lost_err drained e)
    show ?thesis by (rule end_tasks[OF lost_err(4)[unfolded terminalize_lost_def]])
  next
    case (await_ok task fin snap)
    show ?thesis by (rule appends_trans[OF writerD[OF begin_settle_drives await_ok(5)] tasks(1)])
  next
    case (await_err task fin e)
    show ?thesis by (rule appends_trans[OF writerD[OF begin_settle_drives await_err(5)] tasks(1)])
  qed (use tasks writerD[OF turn] writerD[OF advance_drives] settle_drives request_stop_drives in auto)
qed

lemma initialize_drives: "initialize ho s = (t, Inr (phase, program)) \<Longrightarrow> appends ho (\<lambda>ev. \<not> completes ev) s t"
proof -
  assume a: "initialize ho s = (t, Inr (phase, program))"
  then have "t = s \<or> (\<exists>snap. append_events ho [RunStarted] s = (t, Inr snap))"
    by (auto simp: initialize_def bind_sup_def load_def lift_res_def
        split: option.splits sum.splits prod.splits if_splits)
  then show ?thesis using appends_append[OF appends_refl, of ho "[RunStarted]" s t] by (auto simp: completes_def)
qed

lemma driven_writes: "driven ho s0 program s phase \<Longrightarrow> appends ho (\<lambda>ev. \<not> completes ev) s0 s"
proof (induction rule: driven.induct)
  case (driven_step program s phase s' phase')
  show ?case by (rule appends_trans[OF drive_step_drives[OF driven_step.hyps(2)] driven_step.IH])
qed (rule initialize_drives)

section \<open>The gate outlives its session\<close>

text \<open>The run of a supervisor as the ledger holds it.\<close>

definition run_of :: "supervisor \<Rightarrow> fake_run option" where
  "run_of s = bm_get (fs_runs (sp_ledger s)) (sp_run_id s)"

definition admitted_of :: "supervisor \<Rightarrow> admitted_run option" where
  "admitted_of s = map_option (\<lambda>run. sr_admitted (fr_stored run)) (run_of s)"

lemma run_of_cong:
  "sp_ledger t = sp_ledger s \<Longrightarrow> sp_run_id t = sp_run_id s \<Longrightarrow> run_of t = run_of s"
  by (simp add: run_of_def)

lemma append_admitted:
  assumes "append_events ho evs s = (t, Inr snap')" and "current ho s snap"
  shows "admitted_of t = admitted_of s"
proof -
  from assms(1) obtain result led where la: "ledger_append (ho_codec ho) (sp_ledger s) (sp_run_id s) evs = Inr (result, led)"
    and t: "t = s\<lparr>sp_ledger := led\<rparr>"
    by (auto simp: append_events_def split: sum.splits prod.splits)
  have ok: "ledger_ok (ho_codec ho) (sp_ledger s)" using assms(2) by (simp add: current_def)
  from la ok obtain run run' where run: "bm_get (fs_runs (sp_ledger s)) (sp_run_id s) = Some run"
    "run_inv (ho_codec ho) (sp_run_id s) run" "append_locked (ho_codec ho) run evs = Inr (result, run')"
    "led = put_run (sp_ledger s) (sp_run_id s) run'" by (rule ledger_append_cases)
  then show ?thesis using append_locked_ok(4)[OF run(3,2)]
    by (simp add: admitted_of_def run_of_def t put_run_def)
qed

lemma appends_kept:
  assumes "appends ho Q s t" and "current ho s snap"
  shows "\<exists>snap'. current ho t snap' \<and> admitted_of t = admitted_of s
    \<and> (Q = (\<lambda>ev. \<not> completes ev) \<longrightarrow> gated fc admitted snap \<longrightarrow> gated fc admitted snap')"
  using assms
proof (induction rule: appends.induct)
  case (appends_nothing t)
  then have "current ho t snap" "admitted_of t = admitted_of s"
    using current_cong[of t s] by (simp_all add: admitted_of_def run_of_cong[of t s])
  then show ?case by blast
next
  case (appends_append t evs u snapshot)
  then obtain mid where mid: "current ho t mid" "admitted_of t = admitted_of s"
    "Q = (\<lambda>ev. \<not> completes ev) \<longrightarrow> gated fc admitted snap \<longrightarrow> gated fc admitted mid" by blast
  show ?case
    using append_events_ok(2)[OF appends_append.hyps(2) mid(1)] append_admitted[OF appends_append.hyps(2) mid(1)]
      append_gated[OF appends_append.hyps(2) mid(1)] mid appends_append.hyps(3) by auto
next
  case (appends_else t u)
  then obtain mid where mid: "current ho t mid" "admitted_of t = admitted_of s"
    "Q = (\<lambda>ev. \<not> completes ev) \<longrightarrow> gated fc admitted snap \<longrightarrow> gated fc admitted mid" by blast
  moreover have "current ho u mid" "admitted_of u = admitted_of t"
    using mid(1) current_cong[of u t] appends_else.hyps(2,3) by (simp_all add: admitted_of_def run_of_cong[of u t])
  ultimately show ?case by auto
qed

lemma latch_result_writes: "writer ho (\<lambda>_. True) (latch_result ho fc admitted old terminal)"
proof (cases "sn_primary_graph old")
  case None
  have "writer ho (\<lambda>_. True) (\<lambda>s. bind_sup (append_events ho [PrimaryGraphCompleted (pg_result c)
        (enabled_postmortem fc admitted s \<noteq> None) (pg_delivery_execution c)]) (\<lambda>latched.
      lift_res (bind_res (ok_or SupInvalidState (sn_primary_graph latched)) (\<lambda>primary.
        Inr (pg_result primary, True)))) s)" for c
    unfolding writer_def
  proof
    fix s
    have "writer ho (\<lambda>_. True) (bind_sup (append_events ho [PrimaryGraphCompleted (pg_result c)
        (enabled_postmortem fc admitted s \<noteq> None) (pg_delivery_execution c)]) (\<lambda>latched.
      lift_res (bind_res (ok_or SupInvalidState (sn_primary_graph latched)) (\<lambda>primary.
        Inr (pg_result primary, True)))))" using writer_append by (intro writer_bind) auto
    then show "appends ho (\<lambda>_. True) s (fst (bind_sup (append_events ho [PrimaryGraphCompleted (pg_result c)
        (enabled_postmortem fc admitted s \<noteq> None) (pg_delivery_execution c)]) (\<lambda>latched.
      lift_res (bind_res (ok_or SupInvalidState (sn_primary_graph latched)) (\<lambda>primary.
        Inr (pg_result primary, True)))) s))" by (simp add: writer_def)
  qed
  then show ?thesis unfolding latch_result_def None option.case by (intro writer_bind writer_lift)
next
  case (Some p)
  have "writer ho (\<lambda>_. True) (append_events ho [RunTokenUsageObserved None])" by (rule writer_append) simp
  then show ?thesis unfolding latch_result_def Some option.case by (auto split: if_splits)
qed

lemma run_postmortem_writes: "run_postmortem ho fc admitted old result s = (t, r) \<Longrightarrow> appends ho (\<lambda>_. True) s t"
proof -
  have log: "appends ho (\<lambda>_. True) u (postmortem_log ho line u)" for line u
    using writer_append[of _ "\<lambda>_. True" ho] by (auto simp: postmortem_log_def writer_def split: sum.splits)
  assume "run_postmortem ho fc admitted old result s = (t, r)"
  then have "t = s \<or> (\<exists>line. t = postmortem_log ho line (postmortem_log ho ''Active Memory postmortem started'' s))"
    by (auto simp: run_postmortem_def Let_def split: option.splits sum.splits postmortem_error.splits)
  then show ?thesis using appends_trans[OF log log] by auto
qed

lemma append_terminal_writes: "append_terminal ho result s = (t, r) \<Longrightarrow> appends ho (\<lambda>_. True) s t"
proof -
  have "writer ho (\<lambda>_. True) (append_terminal ho result)"
    unfolding append_terminal_def using writer_append by (intro writer_bind) auto
  then show "append_terminal ho result s = (t, r) \<Longrightarrow> ?thesis" by (rule writerD)
qed

lemma finish_step_writes:
  assumes "finish_step ho fc admitted s phase t phase'"
  shows "appends ho (\<lambda>_. True) s t"
  using assms
proof (cases rule: finish_step.cases)
  case (finish_observe evs snap)
  show ?thesis by (rule appends_append[OF appends_refl finish_observe(2)]) simp
next
  case finish_flag
  then show ?thesis by (intro appends_nothing) simp_all
next
  case finish_lost
  then show ?thesis by (intro appends_nothing) simp_all
next
  case finish_request
  show ?thesis by (rule appends_any[OF request_stop_drives[OF finish_request(3)]])
next
  case (latch_ok old terminal result latched)
  show ?thesis by (rule writerD[OF latch_result_writes latch_ok(3)])
next
  case (latch_err old terminal e)
  show ?thesis by (rule writerD[OF latch_result_writes latch_err(3)])
next
  case (review_ok old result)
  show ?thesis by (rule run_postmortem_writes[OF review_ok(3)])
next
  case (review_err old result e)
  show ?thesis by (rule run_postmortem_writes[OF review_err(3)])
next
  case (publish_ok result terminal)
  show ?thesis by (rule append_terminal_writes[OF publish_ok(3)])
next
  case (publish_err result e)
  show ?thesis by (rule append_terminal_writes[OF publish_err(3)])
qed auto

lemma finishing_writes: "finishing ho fc s0 program s phase \<Longrightarrow> appends ho (\<lambda>_. True) s0 s"
proof (induction rule: finishing.induct)
  case (finishing_decided program s old s' terminal)
  have "appends ho (\<lambda>_. True) s0 s" by (rule appends_any[OF driven_writes[OF finishing_decided.hyps(1)]])
  moreover have "appends ho (\<lambda>_. True) s s'"
    by (rule appends_any[OF writerD[OF advance_drives finishing_decided.hyps(2)]])
  ultimately show ?case by (rule appends_trans[rotated])
next
  case (finishing_resumed s terminal program stored)
  show ?case by (rule appends_any[OF initialize_drives[OF finishing_resumed.hyps(1)]])
next
  case (finishing_step program s phase s' phase')
  show ?case by (rule appends_trans[OF finish_step_writes[OF finishing_step.hyps(2)] finishing_step.IH])
qed

lemma initialize_admitted:
  "initialize ho s = (t, Inr (phase, program)) \<Longrightarrow> admitted_of s = Some (pm_admitted program)"
  by (auto simp: initialize_def bind_sup_def load_def lift_res_def ok_or_def ledger_get_def admitted_of_def run_of_def
      run_program_of_def Let_def split: option.splits sum.splits prod.splits if_splits)

lemma driven_admitted: "driven ho s0 program s phase \<Longrightarrow> admitted_of s0 = Some (pm_admitted program)"
  by (induction rule: driven.induct) (auto dest: initialize_admitted)

lemma finishing_admitted: "finishing ho fc s0 program s phase \<Longrightarrow> admitted_of s0 = Some (pm_admitted program)"
  by (induction rule: finishing.induct) (auto dest: initialize_admitted driven_admitted)

section \<open>Sessions\<close>

inductive sessions :: "host \<Rightarrow> finish_context \<Rightarrow> supervisor \<Rightarrow> bool" for ho fc where
  session_first: "drive_start ho s \<Longrightarrow>
    (\<And>run. run_of s = Some run \<Longrightarrow> sn_primary_graph (sr_snapshot (fr_stored run)) = None) \<Longrightarrow> sessions ho fc s"
| session_driven: "sessions ho fc s0 \<Longrightarrow> driven ho s0 program s phase \<Longrightarrow>
    drive_start ho t \<Longrightarrow> sp_run_id t = sp_run_id s \<Longrightarrow> run_of t = run_of s \<Longrightarrow> sessions ho fc t"
| session_finishing: "sessions ho fc s0 \<Longrightarrow> finishing ho fc s0 program s phase \<Longrightarrow>
    drive_start ho t \<Longrightarrow> sp_run_id t = sp_run_id s \<Longrightarrow> run_of t = run_of s \<Longrightarrow> sessions ho fc t"
| session_client: "sessions ho fc s \<Longrightarrow> append_events ho evs s = (t, Inr snap) \<Longrightarrow>
    \<forall>ev \<in> set evs. is_observation ev \<Longrightarrow> drive_start ho t \<Longrightarrow> sessions ho fc t"

lemma sessions_start: "sessions ho fc s \<Longrightarrow> drive_start ho s"
  by (induction rule: sessions.induct)

definition gate_held :: "finish_context \<Rightarrow> supervisor \<Rightarrow> bool" where
  "gate_held fc s \<longleftrightarrow>
     (\<forall>run. run_of s = Some run \<longrightarrow> gated fc (sr_admitted (fr_stored run)) (sr_snapshot (fr_stored run)))"

lemma start_current:
  assumes "drive_start ho s" and "run_of s = Some run"
  shows "current ho s (sr_snapshot (fr_stored run))"
  using assms ledger_reachable_ok by (auto simp: drive_start_def current_def run_of_def)

lemma current_held:
  assumes "current ho s snap" and "admitted_of s = Some admitted"
  shows "gate_held fc s \<longleftrightarrow> gated fc admitted snap"
  using assms by (auto simp: current_def gate_held_def run_of_def admitted_of_def)

lemma finish_ok_gated: "finish_ok ho fc admitted s phase \<Longrightarrow> \<exists>snap. current ho s snap \<and> gated fc admitted snap"
  by (cases phase) (auto simp: holds_result_def)

lemma sessions_gate: "sessions ho fc s \<Longrightarrow> gate_held fc s"
proof (induction rule: sessions.induct)
  case (session_first s)
  then show ?case by (simp add: gate_held_def gated_def)
next
  case (session_driven s0 program s phase t)
  note adm = driven_admitted[OF session_driven.hyps(2)]
  then obtain run where run: "run_of s0 = Some run" by (auto simp: admitted_of_def)
  note cur = start_current[OF sessions_start[OF session_driven.hyps(1)] run]
  from appends_kept[OF driven_writes[OF session_driven.hyps(2)] cur, of fc "pm_admitted program"] adm
    session_driven.IH current_held[OF cur adm]
  obtain snap where "current ho s snap" "admitted_of s = Some (pm_admitted program)" "gated fc (pm_admitted program) snap"
    by auto
  from current_held[OF this(1,2)] this(3) have "gate_held fc s" by blast
  then show ?case using session_driven.hyps(5) by (simp add: gate_held_def)
next
  case (session_finishing s0 program s phase t)
  note adm = finishing_admitted[OF session_finishing.hyps(2)]
  note start = sessions_start[OF session_finishing.hyps(1)]
  from adm obtain run where run: "run_of s0 = Some run" by (auto simp: admitted_of_def)
  note cur = start_current[OF start run]
  have "gated fc (pm_admitted program) snap" if "ledger_current (sp_ledger s0) (sp_run_id s0) = Some snap" for snap
    using that log_current[OF cur] session_finishing.IH current_held[OF cur adm] by auto
  from finish_ok_gated[OF finishing_ok[OF session_finishing.hyps(2) start this]] obtain snap
    where s: "current ho s snap" "gated fc (pm_admitted program) snap" by blast
  have "admitted_of s = Some (pm_admitted program)"
    using appends_kept[OF finishing_writes[OF session_finishing.hyps(2)] cur] adm by auto
  from current_held[OF s(1) this] s(2) have "gate_held fc s" by blast
  then show ?case using session_finishing.hyps(5) by (simp add: gate_held_def)
next
  case (session_client s evs t snap)
  have "drive_start ho s" by (rule sessions_start[OF session_client.hyps(1)])
  from session_client.hyps(2) obtain run where run: "run_of s = Some run"
    by (auto simp: append_events_def ledger_append_def run_of_def ok_or_def elim!: bind_resE
        split: sum.splits option.splits prod.splits)
  note cur = start_current[OF \<open>drive_start ho s\<close> run]
  have adm: "admitted_of s = Some (sr_admitted (fr_stored run))" by (simp add: admitted_of_def run)
  have "gated fc (sr_admitted (fr_stored run)) snap"
    using append_gated[OF session_client.hyps(2) cur observations_incomplete[OF session_client.hyps(3)]]
      session_client.IH current_held[OF cur adm] by blast
  then show ?case
    using current_held[OF append_events_ok(2)[OF session_client.hyps(2) cur]]
      append_admitted[OF session_client.hyps(2) cur] adm by simp
qed

lemma session_finished:
  assumes "sessions ho fc s0" and "finishing ho fc s0 program s phase"
  shows "finish_ok ho fc (pm_admitted program) s phase"
proof (rule finishing_ok[OF assms(2) sessions_start[OF assms(1)]])
  fix snap assume l: "ledger_current (sp_ledger s0) (sp_run_id s0) = Some snap"
  note adm = finishing_admitted[OF assms(2)]
  then obtain run where run: "run_of s0 = Some run" by (auto simp: admitted_of_def)
  note cur = start_current[OF sessions_start[OF assms(1)] run]
  show "gated fc (pm_admitted program) snap"
    using l log_current[OF cur] sessions_gate[OF assms(1)] current_held[OF cur adm] by auto
qed

end
