(* ===== verification/Verifier_Laws.thy ===== *)
theory Verifier_Laws
  imports Verifier
begin

text \<open>
  Laws of the graph verifier. Validation only ever adds diagnostics and refines its own tables, which the
  locale \<open>analyzer_invariant\<close> carries through every method once, so that a graph that is accepted passed
  every check of its index; the fold of a graph bounds what can run at the same time.
\<close>

named_theorems passes "methods of the analyzer that keep its invariants"

section \<open>Invariants of validation\<close>

locale analyzer_invariant =
  fixes P :: "analyzer \<Rightarrow> bool"
  assumes emit [passes]: "P s \<Longrightarrow> P (emit code message path related s)"
    and dependencies [passes]: "P s \<Longrightarrow> P (s\<lparr>an_dependencies := dependencies\<rparr>)"
    and exhaustive_choices [passes]: "P s \<Longrightarrow> P (s\<lparr>an_exhaustive_choices := choices\<rparr>)"
    and choice_reachability [passes]: "P s \<Longrightarrow> P (s\<lparr>an_choice_reachability := reachability'\<rparr>)"
    and choice_execution_correlations [passes]: "P s \<Longrightarrow> P (s\<lparr>an_choice_execution_correlations := correlations\<rparr>)"
    and choice_write_conditions [passes]: "P s \<Longrightarrow> P (s\<lparr>an_choice_write_conditions := conditions\<rparr>)"
    and parallel_join_correlations [passes]: "P s \<Longrightarrow> P (s\<lparr>an_parallel_join_correlations := joins\<rparr>)"
    and map_execution_correlations [passes]: "P s \<Longrightarrow> P (s\<lparr>an_map_execution_correlations := executions\<rparr>)"
    and node_completion [passes]: "P s \<Longrightarrow> P (s\<lparr>an_node_completion := completion\<rparr>)"
    and node_fallthrough [passes]: "P s \<Longrightarrow> P (s\<lparr>an_node_fallthrough := fallthrough\<rparr>)"
begin

lemma emit_if_P [passes]: "P s \<Longrightarrow> P (emit_if condition code message path related s)"
  by (simp add: emit_if_def emit)

lemma add_dependency_P [passes]: "P s \<Longrightarrow> P (add_dependency name dependency s)"
  by (simp add: add_dependency_def dependencies)

lemma fold_P:
  assumes "\<And>x s. x \<in> set xs \<Longrightarrow> P s \<Longrightarrow> P (f x s)" and "P s"
  shows "P (fold f xs s)"
  using assms by (induction xs arbitrary: s) auto

lemma fold_proj_P:
  assumes "\<And>x a. x \<in> set xs \<Longrightarrow> P (h a) \<Longrightarrow> P (h (f x a))" and "P (h a)"
  shows "P (h (fold f xs a))"
  using assms by (induction xs arbitrary: a) auto

lemmas fold_snd_P = fold_proj_P[of _ snd]

lemma map_state_P:
  assumes "\<And>x s. x \<in> set xs \<Longrightarrow> P s \<Longrightarrow> P (snd (f x s))" and "P s"
  shows "P (snd (map_state f xs s))"
  using assms by (induction xs arbitrary: s) (auto simp: case_prod_beta)

lemma check_each_P:
  assumes "\<And>x s. x \<in> set xs \<Longrightarrow> P s \<Longrightarrow> P (snd (f x s))" and "P s"
  shows "P (snd (check_each f xs s))"
  using map_state_P[of xs f s, OF assms] by (simp add: check_each_def case_prod_beta)

lemma add_dependencies_P [passes]:
  "P s \<Longrightarrow> P (fold (\<lambda>selector. add_dependency name (cs_name selector)) selectors s)"
  by (intro fold_P) (auto intro: passes)

lemma require_P [passes]: "P s \<Longrightarrow> P (snd (require condition code message path related s))"
  by (simp add: require_def emit_if_P)

subsection \<open>Guards\<close>

lemma assignments_P [passes]: "P s \<Longrightarrow> P (snd (assignments_for_guards guards path s))"
  by (auto simp: assignments_for_guards_def assignment_ceiling_def intro: passes split: prod.split option.split)

lemma completion_assignments_P [passes]:
  "P s \<Longrightarrow> P (snd (assignments_for_completion_predicates predicates path s))"
  by (simp add: assignments_for_completion_predicates_def assignments_P)

lemma completion_is_satisfiable_P [passes]: "P s \<Longrightarrow> P (snd (completion_is_satisfiable predicate path s))"
  by (simp add: completion_is_satisfiable_def case_prod_beta completion_assignments_P)

lemma guard_has_satisfying_P [passes]: "P s \<Longrightarrow> P (snd (guard_has_satisfying_assignment g path s))"
  by (simp add: guard_has_satisfying_assignment_def case_prod_beta assignments_P)

lemma restrict_completion_P [passes]: "P s \<Longrightarrow> P (snd (restrict_completion effects condition path s))"
  by (simp add: restrict_completion_def Let_def case_prod_beta completion_is_satisfiable_P)

lemma first_available_P:
  "P s \<Longrightarrow> P (snd (first_available_correlation available condition path correlations s))"
proof (induction correlations arbitrary: s)
  case (Cons correlation rest)
  have "P s'" if "assignments_for_completion_predicates ps path s = (r, s')" for ps r s'
    using completion_assignments_P[OF Cons.prems, of ps path] that by simp
  then show ?case using Cons by (auto simp: Let_def split: option.split prod.split)
qed simp

lemma choice_error_P [passes]: "P s \<Longrightarrow> P (snd (choice_error_is_available selector available condition path s))"
  by (simp add: choice_error_is_available_def first_available_P)

lemma validate_guard_labels_P [passes]: "P s \<Longrightarrow> P (snd (validate_guard_labels code g path s))"
proof (induction code g path s rule: validate_guard_labels.induct)
  case (2 code guards path s)
  show ?case unfolding validate_guard_labels.simps by (rule check_each_P) (use 2 in \<open>auto split: prod.splits\<close>)
next
  case (3 code guards path s)
  show ?case unfolding validate_guard_labels.simps by (rule check_each_P) (use 3 in \<open>auto split: prod.splits\<close>)
qed (auto simp: validate_selector_labels_def validate_k_of_n_labels_def validate_k_of_map_labels_def
    validate_k_of_n_intersections_def Let_def case_prod_beta intro!: passes check_each_P split: option.split)

lemma validate_guard_P [passes]: "P s \<Longrightarrow> P (snd (validate_guard g available path code s))"
  unfolding validate_guard_def
  by (auto simp: case_prod_beta intro!: passes check_each_P)

lemma correlate_choice_executions_P [passes]: "P s \<Longrightarrow> P (correlate_choice_executions choice completing merged s)"
  unfolding correlate_choice_executions_def
  by (rule fold_P) (auto intro: passes)

lemma correlate_choice_writes_P [passes]: "P s \<Longrightarrow> P (snd (correlate_choice_writes choice alternatives merged s))"
  by (auto simp: correlate_choice_writes_def Let_def case_prod_beta intro!: passes split: list.split)

lemma choice_branch_outcomes_P: "P s \<Longrightarrow> P (snd (snd (choice_branch_outcomes name branches assignments path s)))"
  by (auto simp: choice_branch_outcomes_def Let_def case_prod_beta intro!: fold_P passes)

lemma choice_exhaustiveness_P: "P s \<Longrightarrow> P (snd (snd (record_choice_exhaustiveness name otherwise uncovered path s)))"
  by (auto simp: record_choice_exhaustiveness_def Let_def intro!: passes split: option.split)

lemma validate_choice_guards_P [passes]: "P s \<Longrightarrow> P (snd (validate_choice_guards name branches incoming path s))"
  unfolding validate_choice_guards_def
  by (rule check_each_P) (auto simp: case_prod_beta intro!: passes)

lemma validate_choice_P [passes]: "P s \<Longrightarrow> P (snd (validate_choice name branches otherwise incoming path s))"
  by (auto simp: validate_choice_def Let_def case_prod_beta prod.case_eq_if
      intro!: passes choice_branch_outcomes_P choice_exhaustiveness_P split: option.split)

subsection \<open>Bindings, promotions and joins\<close>

lemma report_selected_P [passes]: "P s \<Longrightarrow> P (report_selected selected_type defined path s)"
  by (simp add: report_selected_def passes)

lemma validate_data_selector_P [passes]: "P s \<Longrightarrow> P (snd (validate_data_selector selector context path s))"
  by (auto simp: validate_data_selector_def Let_def intro: passes split: data_selector.split option.split)

lemma validate_target_overlap_P [passes]: "P s \<Longrightarrow> P (validate_target_overlap target previous path message related s)"
  by (simp add: validate_target_overlap_def passes)

lemma validate_input_binding_P [passes]: "P s \<Longrightarrow> P (validate_input_binding payload context path binding s)"
  by (simp add: validate_input_binding_def Let_def case_prod_beta passes)

lemma validate_input_bindings_P [passes]:
  "P s \<Longrightarrow> P (validate_input_bindings bindings payload context path field target_field s)"
  unfolding validate_input_bindings_def validate_required_binding_targets_def Let_def
  by (intro fold_P) (auto intro!: passes)

lemma validate_output_selector_P [passes]:
  "P s \<Longrightarrow> P (snd (validate_output_selector selector current incoming payload path s))"
  by (simp add: validate_output_selector_def validate_output_availability_def Let_def passes)

lemma validate_write_binding_P [passes]: "P s \<Longrightarrow> P (snd (validate_write_binding name payload context path binding s))"
  by (simp add: validate_write_binding_def Let_def case_prod_beta passes)

lemma validate_write_bindings_P [passes]:
  "P s \<Longrightarrow> P (snd (validate_write_bindings bindings name payload context path s))"
  unfolding validate_write_bindings_def
  by (intro fold_snd_P) (auto simp: Let_def case_prod_beta intro!: passes)

lemma validate_executable_P [passes]:
  "P s \<Longrightarrow> P (snd (validate_executable name input payload input_bindings write_bindings context path s))"
  by (simp add: validate_executable_def Let_def case_prod_beta passes)

lemma validate_promotion_P [passes]: "P s \<Longrightarrow> P (validate_promotion context i path s)"
  by (auto simp: validate_promotion_def validate_promotion_target_def Let_def intro!: passes split: option.split)

lemma restrict_promotions_P [passes]: "P s \<Longrightarrow> P (snd (restrict_promotions context s))"
  by (auto simp: restrict_promotions_def intro!: fold_P passes)

lemma validate_parallel_promotion_types_P [passes]:
  "P s \<Longrightarrow> P (validate_parallel_promotion_types name promoted branches path s)"
  unfolding validate_parallel_promotion_types_def by (intro fold_P) (auto intro!: fold_P passes)

lemma validate_parallel_write_conflicts_P [passes]:
  "P s \<Longrightarrow> P (validate_parallel_write_conflicts join nodes branches path s)"
  unfolding validate_parallel_write_conflicts_def by (auto intro!: fold_P passes)

lemma validate_join_P [passes]: "P s \<Longrightarrow> P (validate_join name branches join incoming path s)"
  by (auto simp: validate_join_def intro!: passes split: join.split)

lemma merge_parallel_P [passes]: "P s \<Longrightarrow> P (snd (merge_parallel name join branches incoming path s))"
  by (auto simp: merge_parallel_def merge_first_parallel_def correlate_join_def Let_def case_prod_beta
      intro!: passes split: join.split option.split)

subsection \<open>Maps\<close>

lemma validate_map_selector_P [passes]: "P s \<Longrightarrow> P (snd (validate_map_selector name state over context path s))"
  using validate_data_selector_P[of s over "context\<lparr>nx_state := state\<rparr>" "with_field path ''over''"]
  by (auto simp: validate_map_selector_def intro!: passes split: prod.splits option.splits payload_type.splits)

lemma map_index_targets_P [passes]: "P s \<Longrightarrow> P (snd (snd (map_index_targets name state promoted context path s)))"
  unfolding map_index_targets_def
  by (rule fold_proj_P[of _ "\<lambda>a. snd (snd a)"])
    (auto intro!: passes split: option.split payload_type.split)

lemma validate_map_item_limit_P [passes]: "P s \<Longrightarrow> P (validate_map_item_limit name max_items path s)"
  by (simp add: validate_map_item_limit_def passes)

lemma correlate_map_execution_P [passes]: "P s \<Longrightarrow> P (correlate_map_execution name owner presence s)"
  by (simp add: correlate_map_execution_def passes)

lemma collect_map_P [passes]: "P s \<Longrightarrow> P (collect_map_node_execution owner node position presence s)"
proof (induction node arbitrary: position presence s rule: graph_induct)
  case (node n)
  show ?case
    unfolding collect_map_node_execution.simps[of owner n] collect_map_children_def
    using node.prems by (cases n)
      (auto simp: Let_def case_prod_beta intro!: node.IH passes fold_P fold_snd_P dest!: enumerate_memberD split: option.split)
qed

subsection \<open>Nodes\<close>

lemma validate_seq_P:
  assumes "\<And>c p x s. c \<in> set children \<Longrightarrow> P s \<Longrightarrow> P (snd (validate c p x s))" and "P s"
  shows "P (snd (validate_seq validate name state children promoted context path position s))"
  unfolding validate_seq_def case_prod_beta
  by (intro passes fold_snd_P)
    (auto simp: validate_seq_child_def sequence_satisfiable_def Let_def case_prod_beta
      intro!: passes assms dest!: enumerate_memberD)

lemma validate_route_P:
  assumes "\<And>p x s. P s \<Longrightarrow> P (snd (validate c p x s))" and "P s"
  shows "P (snd (validate_route validate state context path position c refinement completion s))"
  by (simp add: validate_route_def Let_def case_prod_beta passes assms)

lemma validate_choice_node_P:
  assumes "\<And>c p x s. c \<in> set (child_nodes (ChoiceNode name state branches otherwise promoted)) \<Longrightarrow> P s \<Longrightarrow>
      P (snd (validate c p x s))" and "P s"
  shows "P (snd (validate_choice_node validate name state branches otherwise promoted context path position s))"
proof -
  have "P (snd (validate_choice_branches validate state branches context path position control s))" if "P s" for control s
    unfolding validate_choice_branches_def case_prod_beta snd_conv
    by (rule map_state_P) (use assms(1) that in \<open>auto simp: validate_choice_branch_def case_prod_beta
        intro!: validate_route_P dest!: enumerate_memberD\<close>)
  moreover have "P (snd (validate_otherwise validate state i otherwise context path position control s))" if "P s" for i control s
    using assms(1) that by (auto simp: validate_otherwise_def case_prod_beta intro!: validate_route_P split: option.split)
  ultimately show ?thesis
    using assms(2) by (simp add: validate_choice_node_def Let_def case_prod_beta passes)
qed

lemma validate_par_P:
  assumes "\<And>c p x s. c \<in> set branches \<Longrightarrow> P s \<Longrightarrow> P (snd (validate c p x s))" and "P s"
  shows "P (snd (validate_par validate name state branches promoted join context path position s))"
  unfolding validate_par_def Let_def case_prod_beta snd_conv
  by (intro passes map_state_P assms(2)) (use assms(1) in \<open>auto dest!: enumerate_memberD\<close>)

lemma validate_loop_exit_P [passes]: "P s \<Longrightarrow> P (validate_loop_exit name until context path body s)"
  by (auto simp: validate_loop_exit_def Let_def case_prod_beta intro!: passes fold_P split: option.split)

lemma validate_node_P [passes]: "P s \<Longrightarrow> P (snd (validate_node node position ctx s))"
proof (induction node arbitrary: position ctx s rule: graph_induct)
  case (node n)
  have "P (snd (validate_kind validate_node n ctx path position s))" if "P s" for path s
    unfolding validate_kind_def
    using that
    by (cases n) (auto simp: validate_step_def validate_verifier_def validate_succeed_def validate_loop_def
        validate_map_def Let_def case_prod_beta
        intro!: node.IH passes validate_seq_P validate_choice_node_P validate_par_P split: option.split)
  then show ?case using node.prems
    by (simp add: validate_node.simps[of n] validate_group_state_def Let_def case_prod_beta passes)
qed

subsection \<open>Later passes\<close>

lemma terminal_flow_P [passes]: "P s \<Longrightarrow> P (terminal_flow node position s)"
proof (induction node arbitrary: position s rule: graph_induct)
  case (node n)
  have "P (terminal_children terminal_flow n position s)"
  proof (cases n)
    case (ChoiceNode name state branches otherwise promoted)
    have "P (fold (\<lambda>(i, node) self. if Q i then terminal_flow node (position @ [i]) self else self)
        (enumerate 0 (map snd branches)) s)" for Q
      by (rule fold_P) (use ChoiceNode node in \<open>force dest!: enumerate_memberD\<close>)+
    then show ?thesis using ChoiceNode node.IH
      by (cases otherwise) (simp_all add: terminal_children_def terminal_choice_def Let_def)
  qed (use node.prems in \<open>auto simp: terminal_children_def terminal_sequence_def
      Let_def case_prod_beta intro!: node.IH passes fold_P fold_snd_P dest!: enumerate_memberD\<close>)
  then show ?case by (simp add: terminal_flow.simps[of n])
qed

lemma terminal_coverage_P [passes]: "P s \<Longrightarrow> P (validate_terminal_coverage s)"
  by (simp add: validate_terminal_coverage_def Let_def passes)

lemma reference_order_P [passes]: "P s \<Longrightarrow> P (snd (reference_topological_order s))"
  by (auto simp: reference_topological_order_def validate_reference_names_def emit_reference_cycle_def Let_def
      case_prod_beta intro!: passes fold_P)

lemma limit_exceeded_P [passes]: "P s \<Longrightarrow> P (snd (limit_exceeded context s))"
  by (simp add: limit_exceeded_def ceiling_def passes)

lemma checked_sum_P [passes]: "P s \<Longrightarrow> P (snd (checked_sum xs context s))"
proof -
  have "P (snd (checked_sum_from summed xs context s))" if "P s" for summed
    using that by (induction xs arbitrary: summed) (auto intro!: passes split: option.split)
  then show "P s \<Longrightarrow> ?thesis" by (simp add: checked_sum_def)
qed

lemma checked_product_P [passes]: "P s \<Longrightarrow> P (snd (checked_product left right context s))"
  by (auto simp: checked_product_def intro!: passes split: option.split)

lemma bind_opt_P:
  assumes "P (snd r)" and "\<And>a s. P s \<Longrightarrow> P (snd (f a s))"
  shows "P (snd (bind_opt r f))"
  using assms by (cases r) (auto simp: bind_opt_def split: option.split)

lemma fold_node_P [passes]: "P s \<Longrightarrow> P (snd (fold_node node s))"
proof (induction node arbitrary: s rule: graph_induct)
  case (node n)
  have children: "P (snd (fold_children fold_node cs s))" if "P s" "set cs \<subseteq> set (child_nodes n)" for cs s
    unfolding fold_children_def case_prod_beta snd_conv by (rule map_state_P) (use node.IH that in auto)
  have "P (snd (fold_group_node fold_node n path s))" for path
    unfolding fold_group_node_def using node.prems
    by (cases n) (auto simp: fold_seq_def fold_choice_def fold_par_def fold_map_def fold_loop_def ceiling_def
        case_prod_beta intro!: bind_opt_P node.IH passes children split: option.split)
  then show ?case using node.prems
    by (auto simp: fold_node.simps[of n] Let_def check_fold_limits_def ceiling_def intro!: bind_opt_P passes
        split: option.split)
qed

end

end
