(* ===== verification/Verifier_Bounds.thy ===== *)
theory Verifier_Bounds
  imports Verifier_Laws
begin

text \<open>
  What an analysis without diagnostics established: the index holds every node once, at a legal depth and with
  legal attempts; the fold is the structural bound of the graph, and every subgraph is within the limits; and
  the order of references is a permutation of the nodes in which every node follows what it refers to.
\<close>

section \<open>The index\<close>

text \<open>What validation keeps of the index, and that it only adds diagnostics.\<close>

definition keeps_index :: "analyzer \<Rightarrow> analyzer \<Rightarrow> bool" where
  "keeps_index a b \<longleftrightarrow>
     an_graph b = an_graph a \<and> an_nodes b = an_nodes a \<and> an_authored b = an_authored a \<and> an_loops b = an_loops a
     \<and> an_attempts b = an_attempts a \<and> an_guard_nodes b = an_guard_nodes a
     \<and> Sublist.prefix (an_diagnostics a) (an_diagnostics b)"

interpretation kept: analyzer_invariant "keeps_index a" for a
  by unfold_locales (auto simp: keeps_index_def Verifier_Analyzer.emit_def)

lemma keeps_index_refl: "keeps_index a a"
  by (simp add: keeps_index_def)

lemma keeps_index_trans: "keeps_index a b \<Longrightarrow> keeps_index b c \<Longrightarrow> keeps_index a c"
  by (auto simp: keeps_index_def)

lemma keeps_index_clean: "keeps_index a b \<Longrightarrow> an_diagnostics b = [] \<Longrightarrow> an_diagnostics a = []"
  by (simp add: keeps_index_def)

definition indexed_node :: "analyzer \<Rightarrow> node_name \<Rightarrow> graph_node option" where
  "indexed_node self name = map_option ni_node (bm_get (an_nodes self) name)"

lemma indexed_node_cong: "an_nodes a = an_nodes b \<Longrightarrow> indexed_node a = indexed_node b"
  by (simp add: indexed_node_def fun_eq_iff)

definition node_attempts :: "graph_node \<Rightarrow> positive_integer option" where
  "node_attempts node =
     (case node of StepNode step \<Rightarrow> Some (st_attempts step) | VerifierNode verifier \<Rightarrow> Some (vn_attempts verifier) | _ \<Rightarrow> None)"

definition is_loop_node :: "graph_node \<Rightarrow> bool" where
  "is_loop_node node = (case node of LoopNode _ _ _ _ _ _ _ \<Rightarrow> True | _ \<Rightarrow> False)"

text \<open>The nodes of a graph with their depth, in the order of the index.\<close>

function nodes_at :: "u64 \<Rightarrow> graph_node \<Rightarrow> (graph_node \<times> u64) list" where
  "nodes_at d n = (n, d) # concat (map (nodes_at (d + 1)) (child_nodes n))"
  by pat_completeness auto
termination
  by (relation "measure (\<lambda>(_, n). size n)") (auto dest: child_nodes_size)

declare nodes_at.simps [simp del]

lemma nodes_at_all: "map fst (nodes_at d n) = all_nodes n"
proof (induction n arbitrary: d rule: graph_induct)
  case (node n)
  then show ?case
    by (simp add: nodes_at.simps[of d n] all_nodes.simps[of n] map_concat comp_def cong: map_cong)
qed

fun fresh_nodes :: "(graph_node \<times> u64) list \<Rightarrow> (node_name \<Rightarrow> graph_node option) \<Rightarrow> bool" where
  "fresh_nodes [] known = True"
| "fresh_nodes ((n, d) # ns) known \<longleftrightarrow> known (node_name n) = None \<and> fresh_nodes ns (known(node_name n \<mapsto> n))"

definition put_nodes ::
    "(graph_node \<times> u64) list \<Rightarrow> (node_name \<Rightarrow> graph_node option) \<Rightarrow> node_name \<Rightarrow> graph_node option" where
  "put_nodes ns known = fold (\<lambda>(n, _) known. known(node_name n \<mapsto> n)) ns known"

definition put_attempts ::
    "(graph_node \<times> u64) list \<Rightarrow> (node_name, positive_integer) btree_map \<Rightarrow> (node_name, positive_integer) btree_map" where
  "put_attempts ns attempts =
     fold (\<lambda>(n, _) attempts. case node_attempts n of
       Some a \<Rightarrow> bm_insert (node_name n) a attempts | None \<Rightarrow> attempts) ns attempts"

definition node_within :: "graph_node \<times> u64 \<Rightarrow> bool" where
  "node_within = (\<lambda>(n, d). d \<le> FULL_V1_MAX_GRAPH_DEPTH \<and>
     (case node_attempts n of Some a \<Rightarrow> a \<le> FULL_V1_MAX_ATTEMPTS_PER_NODE | None \<Rightarrow> True))"

lemma fresh_append: "fresh_nodes (xs @ ys) known \<longleftrightarrow> fresh_nodes xs known \<and> fresh_nodes ys (put_nodes xs known)"
proof (induction xs arbitrary: known)
  case (Cons x xs)
  obtain n d where x: "x = (n, d)" by (cases x)
  show ?case by (simp add: x Cons.IH put_nodes_def del: fun_upd_apply)
qed (simp add: put_nodes_def)

lemma put_nodes_append: "put_nodes (xs @ ys) known = put_nodes ys (put_nodes xs known)"
  by (simp add: put_nodes_def)

lemma fresh_known: "fresh_nodes ns known \<Longrightarrow> known name \<noteq> None \<Longrightarrow> name \<notin> set (map (node_name \<circ> fst) ns)"
proof (induction ns arbitrary: known)
  case (Cons x ns)
  obtain n d where x: "x = (n, d)" by (cases x)
  from Cons.prems(1) x have f: "known (node_name n) = None" "fresh_nodes ns (known(node_name n \<mapsto> n))" by simp_all
  have "(known(node_name n \<mapsto> n)) name \<noteq> None" using Cons.prems(2) by simp
  moreover have "name \<noteq> node_name n" using f(1) Cons.prems(2) by auto
  ultimately show ?case using Cons.IH[OF f(2)] by (simp add: x)
qed simp

lemma fresh_distinct: "fresh_nodes ns known \<Longrightarrow> distinct (map (node_name \<circ> fst) ns)"
proof (induction ns arbitrary: known)
  case (Cons x ns)
  obtain n d where x: "x = (n, d)" by (cases x)
  from Cons.prems x have f: "fresh_nodes ns (known(node_name n \<mapsto> n))" by simp
  from fresh_known[OF f, of "node_name n"] Cons.IH[OF f] show ?case by (simp add: x)
qed simp

lemma dom_put_nodes: "dom (put_nodes ns known) = dom known \<union> set (map (node_name \<circ> fst) ns)"
proof (induction ns arbitrary: known)
  case (Cons x ns)
  obtain n d where x: "x = (n, d)" by (cases x)
  have "put_nodes (x # ns) known = put_nodes ns (known(node_name n \<mapsto> n))" by (simp add: x put_nodes_def)
  then show ?case by (auto simp: Cons.IH x)
qed (simp add: put_nodes_def)

text \<open>The analyzer after the nodes \<open>ns\<close> were indexed.\<close>

definition indexes :: "(graph_node \<times> u64) list \<Rightarrow> analyzer \<Rightarrow> analyzer \<Rightarrow> bool" where
  "indexes ns s s' \<longleftrightarrow>
     an_graph s' = an_graph s \<and> an_authored s' = an_authored s @ map (node_name \<circ> fst) ns
     \<and> an_loops s' = an_loops s @ map node_name (filter is_loop_node (map fst ns))
     \<and> an_attempts s' = put_attempts ns (an_attempts s)
     \<and> (bm_wf (an_nodes s) \<longrightarrow> bm_wf (an_nodes s'))
     \<and> (\<exists>ds. an_diagnostics s' = an_diagnostics s @ ds
          \<and> (ds = [] \<longrightarrow> fresh_nodes ns (indexed_node s) \<and> indexed_node s' = put_nodes ns (indexed_node s) \<and> list_all node_within ns))"

lemma indexes_refl: "indexes [] s s"
  by (simp add: indexes_def put_attempts_def put_nodes_def)

lemma indexes_trans: "indexes xs a b \<Longrightarrow> indexes ys b c \<Longrightarrow> indexes (xs @ ys) a c"
  by (auto simp: indexes_def put_attempts_def fresh_append put_nodes_append)

text \<open>Steps that only add diagnostics and touch no table of the index.\<close>

lemma indexes_quiet:
  assumes "an_graph s' = an_graph s" "an_authored s' = an_authored s" "an_loops s' = an_loops s"
    "an_attempts s' = an_attempts s" "an_nodes s' = an_nodes s" "Sublist.prefix (an_diagnostics s) (an_diagnostics s')"
  shows "indexes [] s s'"
  using assms indexed_node_cong[OF assms(5)] by (auto simp: indexes_def put_attempts_def put_nodes_def Sublist.prefix_def)

lemma declared_dependencies:
  "\<exists>d. fold (\<lambda>selector self. if cs_name selector \<noteq> node_name (gs_root (an_graph self))
     then declare_dependencies (cs_name selector) self else self) selectors s = s\<lparr>an_dependencies := d\<rparr>"
proof (induction selectors arbitrary: s)
  case Nil
  show ?case by (auto intro: exI[of _ "an_dependencies s"])
next
  case (Cons a selectors)
  have "\<exists>d. (if cs_name a \<noteq> node_name (gs_root (an_graph s)) then declare_dependencies (cs_name a) s else s)
      = s\<lparr>an_dependencies := d\<rparr>"
    by (auto simp: declare_dependencies_def intro: exI[of _ "an_dependencies s"])
  then obtain d where step: "(if cs_name a \<noteq> node_name (gs_root (an_graph s)) then declare_dependencies (cs_name a) s else s)
      = s\<lparr>an_dependencies := d\<rparr>" by blast
  from Cons.IH[of "s\<lparr>an_dependencies := d\<rparr>"] show ?case by (simp only: fold.simps comp_apply step) auto
qed

lemma indexes_count_guard: "indexes [] s (count_guard g path s)"
proof -
  obtain d where d: "fold (\<lambda>selector self. if cs_name selector \<noteq> node_name (gs_root (an_graph self))
     then declare_dependencies (cs_name selector) self else self) (guard_selectors g)
     (s\<lparr>an_guard_nodes := saturating_add (an_guard_nodes s) (guard_node_count g)\<rparr>)
     = s\<lparr>an_guard_nodes := saturating_add (an_guard_nodes s) (guard_node_count g), an_dependencies := d\<rparr>"
    using declared_dependencies[of "guard_selectors g"
      "s\<lparr>an_guard_nodes := saturating_add (an_guard_nodes s) (guard_node_count g)\<rparr>"] by auto
  show ?thesis unfolding count_guard_def Let_def d
    by (rule indexes_quiet) (simp_all add: emit_if_def emit_def)
qed

text \<open>A node enters the index.\<close>

definition enters :: "graph_node \<Rightarrow> u64 \<Rightarrow> analyzer \<Rightarrow> analyzer \<Rightarrow> bool" where
  "enters n d s s' \<longleftrightarrow>
     an_graph s' = an_graph s \<and> an_authored s' = an_authored s @ [node_name n] \<and> an_loops s' = an_loops s
     \<and> an_attempts s' = an_attempts s \<and> (bm_wf (an_nodes s) \<longrightarrow> bm_wf (an_nodes s'))
     \<and> (\<exists>ds. an_diagnostics s' = an_diagnostics s @ ds
          \<and> (ds = [] \<longrightarrow> indexed_node s (node_name n) = None \<and> indexed_node s' = (indexed_node s)(node_name n \<mapsto> n)
               \<and> d \<le> FULL_V1_MAX_GRAPH_DEPTH))"

lemma index_head: "enters n d s (validate_node_depth (node_name n) path d (index_identity n path s))"
proof (cases "bm_get (an_nodes s) (node_name n)")
  case (Some info)
  then show ?thesis
    by (simp add: enters_def validate_node_depth_def index_identity_def Let_def declare_dependencies_def emit_if_def emit_def)
next
  case None
  then have "indexed_node s (node_name n) = None" by (simp add: indexed_node_def)
  with None show ?thesis
    by (auto simp: enters_def validate_node_depth_def index_identity_def Let_def declare_dependencies_def emit_if_def
        emit_def indexed_node_def fun_eq_iff)
qed

lemma enters_group:
  assumes "enters n d s s'" and "node_attempts n = None" and "\<not> is_loop_node n"
  shows "indexes [(n, d)] s s'"
  using assms by (auto simp: enters_def indexes_def put_attempts_def put_nodes_def node_within_def)

lemma enters_loop:
  assumes "enters n d s s'" and "is_loop_node n"
  shows "indexes [(n, d)] s (s'\<lparr>an_loops := an_loops s' @ [node_name n]\<rparr>)"
proof -
  have "indexed_node (s'\<lparr>an_loops := l\<rparr>) = indexed_node s'" for l by (rule indexed_node_cong) simp
  moreover have "node_attempts n = None" using assms(2) by (cases n) (simp_all add: node_attempts_def is_loop_node_def)
  ultimately show ?thesis using assms
    by (auto simp: enters_def indexes_def put_attempts_def put_nodes_def node_within_def)
qed

lemma added_dependencies:
  "\<exists>d. fold (\<lambda>binding self. if nos_node (wb_value binding) \<noteq> name
     then add_dependency name (nos_node (wb_value binding)) self else self) bindings s = s\<lparr>an_dependencies := d\<rparr>"
proof (induction bindings arbitrary: s)
  case Nil
  show ?case by (auto intro: exI[of _ "an_dependencies s"])
next
  case (Cons b bindings)
  have "\<exists>d. (if nos_node (wb_value b) \<noteq> name then add_dependency name (nos_node (wb_value b)) s else s)
      = s\<lparr>an_dependencies := d\<rparr>"
    by (auto simp: add_dependency_def intro: exI[of _ "an_dependencies s"])
  then obtain d where step: "(if nos_node (wb_value b) \<noteq> name then add_dependency name (nos_node (wb_value b)) s else s)
      = s\<lparr>an_dependencies := d\<rparr>" by blast
  from Cons.IH[of "s\<lparr>an_dependencies := d\<rparr>"] show ?case by (simp only: fold.simps comp_apply step) auto
qed

lemma enters_executable:
  assumes "enters n d s s'" and "node_attempts n = Some a"
  shows "indexes [(n, d)] s (index_executable (node_name n) a path bindings s')"
proof -
  let ?e = "emit_if (a > FULL_V1_MAX_ATTEMPTS_PER_NODE) CeilingExceeded
    (''attempts exceeds full-v1 limit '' @ u64_to_string FULL_V1_MAX_ATTEMPTS_PER_NODE)
    (with_field path ''attempts'') [node_name n] s'"
  obtain deps where deps: "index_executable (node_name n) a path bindings s' =
      ?e\<lparr>an_attempts := bm_insert (node_name n) a (an_attempts ?e), an_dependencies := deps\<rparr>"
    using added_dependencies[of "node_name n" bindings "?e\<lparr>an_attempts := bm_insert (node_name n) a (an_attempts ?e)\<rparr>"]
    by (auto simp: index_executable_def Let_def)
  have "indexed_node (?e\<lparr>an_attempts := x, an_dependencies := deps\<rparr>) = indexed_node s'" for x
    by (rule indexed_node_cong) (simp add: emit_if_def emit_def)
  moreover have "\<not> is_loop_node n" using assms(2) by (cases n) (simp_all add: node_attempts_def is_loop_node_def)
  ultimately show ?thesis using assms unfolding deps
    by (auto simp: enters_def indexes_def put_attempts_def put_nodes_def node_within_def emit_if_def emit_def)
qed

lemma indexes_children:
  assumes "\<And>c p s. c \<in> set cs \<Longrightarrow> indexes (nodes_at d c) s (index c p d s)"
  shows "indexes (concat (map (nodes_at d) cs)) s (fold (\<lambda>(i, c). index c (f i c) d) (enumerate k cs) s)"
  using assms
proof (induction cs arbitrary: s k)
  case (Cons c cs)
  from indexes_trans[OF Cons.prems Cons.IH] Cons.prems show ?case by simp
qed (simp add: indexes_refl)

lemma indexes_branches:
  assumes "\<And>c p s. c \<in> snd ` set bs \<Longrightarrow> indexes (nodes_at d c) s (index c p d s)"
  shows "indexes (concat (map (nodes_at d) (map snd bs))) s
    (fold (\<lambda>(i, when, c) self. index c (f i c) d (count_guard when (h i) self)) (enumerate k bs) s)"
  using assms
proof (induction bs arbitrary: s k)
  case (Cons b bs)
  obtain w c where b: "b = (w, c)" by (cases b)
  have "indexes (nodes_at d c) s (index c (f k c) d (count_guard w (h k) s))"
    using indexes_trans[OF indexes_count_guard Cons.prems[of c]] by (simp add: b)
  from indexes_trans[OF this Cons.IH] Cons.prems show ?case by (simp add: b)
qed (simp add: indexes_refl)

lemma index_node_indexes: "indexes (nodes_at d n) s (index_node n path d s)"
proof (induction n arbitrary: d s path rule: graph_induct)
  case (node n)
  let ?h = "validate_node_depth (node_name n) path d (index_identity n path s)"
  note head = index_head[of n d s path]
  have cs: "c \<in> set (child_nodes n) \<Longrightarrow> indexes (nodes_at (d + 1) c) s (index_node c p (d + 1) s)" for c p s
    by (rule node.IH)
  have children: "indexes (concat (map (nodes_at (d + 1)) xs)) s
      (fold (\<lambda>(i, c). index_node c (f i c) (d + 1)) (enumerate k xs) s)"
    if "set xs \<subseteq> set (child_nodes n)" for xs s f k
    by (rule indexes_children) (use cs that in blast)
  have group: "indexes ((n, d) # concat (map (nodes_at (d + 1)) (child_nodes n))) s s2"
    if "indexes [(n, d)] s s1" "indexes (concat (map (nodes_at (d + 1)) (child_nodes n))) s1 s2" for s1 s2
    using indexes_trans[OF that] by simp
  note enter = enters_group[OF head]
  have "indexes ((n, d) # concat (map (nodes_at (d + 1)) (child_nodes n))) s (index_children index_node n path d ?h)"
  proof (cases n)
    case (StepNode st)
    then show ?thesis using enters_executable[OF head, of "st_attempts st" path "st_write_bindings st"]
      by (simp add: index_children_def node_attempts_def)
  next
    case (VerifierNode v)
    then show ?thesis using enters_executable[OF head, of "vn_attempts v" path "vn_write_bindings v"]
      by (simp add: index_children_def node_attempts_def)
  next
    case (SeqNode name st children ps)
    have "indexes (concat (map (nodes_at (d + 1)) children)) ?h (index_children index_node n path d ?h)"
      using children[of children] SeqNode by (simp add: index_children_def index_list_def)
    then show ?thesis using group[OF enter] SeqNode by (simp add: node_attempts_def is_loop_node_def)
  next
    case (ParNode name st branches ps join)
    let ?g = "case join of JFirst when \<Rightarrow> count_guard when (diagnostic_field_path path [''join'', ''when'']) ?h | _ \<Rightarrow> ?h"
    have "indexes [] ?h ?g" by (auto intro: indexes_count_guard indexes_refl split: join.split)
    from indexes_trans[OF this children[of branches]] ParNode
    have "indexes (concat (map (nodes_at (d + 1)) branches)) ?h (index_children index_node n path d ?h)"
      by (cases join) (simp_all add: index_children_def index_parallel_def index_list_def)
    then show ?thesis using group[OF enter] ParNode by (simp add: node_attempts_def is_loop_node_def)
  next
    case (ChoiceNode name st branches otherwise ps)
    let ?b = "fold (\<lambda>(i, when, node) self. index_node node (choice_branch_node_path path i (node_name node)) (d + 1)
        (count_guard when (guard_path path ''branches'' i ''when'') self)) (enumerate 0 branches) ?h"
    have b: "indexes (concat (map (nodes_at (d + 1)) (map snd branches))) ?h ?b"
      by (rule indexes_branches) (use ChoiceNode cs in auto)
    have "indexes (concat (map (nodes_at (d + 1)) (child_nodes n))) ?h (index_children index_node n path d ?h)"
    proof (cases otherwise)
      case None
      then show ?thesis using b ChoiceNode by (simp add: index_children_def index_choice_def)
    next
      case (Some c)
      then show ?thesis using indexes_trans[OF b cs[of c]] ChoiceNode by (simp add: index_children_def index_choice_def)
    qed
    then show ?thesis using group[OF enter] ChoiceNode by (simp add: node_attempts_def is_loop_node_def)
  next
    case (LoopNode name st body until k inp ps)
    let ?l = "?h\<lparr>an_loops := an_loops ?h @ [node_name n]\<rparr>"
    let ?g = "case until of Some g \<Rightarrow> count_guard g (with_field path ''until'') ?l | None \<Rightarrow> ?l"
    have "indexes [] ?l ?g" by (auto intro: indexes_count_guard indexes_refl split: option.split)
    from indexes_trans[OF this cs[of body]] LoopNode
    have "indexes (concat (map (nodes_at (d + 1)) (child_nodes n))) ?l (index_children index_node n path d ?h)"
      by (cases until) (simp_all add: index_children_def index_loop_def Let_def)
    then show ?thesis using group[OF enters_loop[OF head]] LoopNode by (simp add: is_loop_node_def)
  next
    case (MapNode name st body over k ps)
    have "indexes (concat (map (nodes_at (d + 1)) (child_nodes n))) ?h (index_children index_node n path d ?h)"
      using cs[of body] MapNode by (simp add: index_children_def)
    then show ?thesis using group[OF enter] MapNode by (simp add: node_attempts_def is_loop_node_def)
  next
    case (SucceedNode t)
    then show ?thesis using enter by (simp add: index_children_def node_attempts_def is_loop_node_def)
  next
    case (FailNode t)
    then show ?thesis using enter by (simp add: index_children_def node_attempts_def is_loop_node_def)
  qed
  then show ?case by (simp only: index_node.simps[of n] nodes_at.simps[of d n])
qed

section \<open>Structural bounds\<close>

text \<open>The bounds of a graph without limits: what the fold computes when it stays within them.\<close>

function structural_fold :: "graph_node \<Rightarrow> node_fold" where
  "structural_fold n =
     (let folds = map structural_fold (child_nodes n);
          most = (\<lambda>f. fold max (map f folds) 0); summed = (\<lambda>f. sum_list (map f folds))
      in case n of
           StepNode _ \<Rightarrow> \<lparr>nf_executions = 1, nf_concurrency = 1, nf_loop_entries = 0\<rparr>
         | VerifierNode _ \<Rightarrow> \<lparr>nf_executions = 1, nf_concurrency = 1, nf_loop_entries = 0\<rparr>
         | SeqNode _ _ _ _ \<Rightarrow>
             \<lparr>nf_executions = summed nf_executions, nf_concurrency = most nf_concurrency,
              nf_loop_entries = summed nf_loop_entries\<rparr>
         | ChoiceNode _ _ _ _ _ \<Rightarrow>
             \<lparr>nf_executions = most nf_executions, nf_concurrency = most nf_concurrency,
              nf_loop_entries = most nf_loop_entries\<rparr>
         | ParNode _ _ _ _ _ \<Rightarrow>
             \<lparr>nf_executions = summed nf_executions, nf_concurrency = summed nf_concurrency,
              nf_loop_entries = summed nf_loop_entries\<rparr>
         | MapNode _ _ _ _ items _ \<Rightarrow>
             \<lparr>nf_executions = items * summed nf_executions, nf_concurrency = items * summed nf_concurrency,
              nf_loop_entries = items * summed nf_loop_entries\<rparr>
         | LoopNode _ _ _ _ iterations _ _ \<Rightarrow>
             \<lparr>nf_executions = iterations * summed nf_executions, nf_concurrency = summed nf_concurrency,
              nf_loop_entries = iterations * (summed nf_loop_entries + 1)\<rparr>
         | SucceedNode _ \<Rightarrow> fold_default
         | FailNode _ \<Rightarrow> fold_default)"
  by pat_completeness auto
termination
  by (relation "measure size") (auto dest: child_nodes_size)

declare structural_fold.simps [simp del]

definition within_limits :: "node_fold \<Rightarrow> bool" where
  "within_limits f \<longleftrightarrow> nf_executions f \<le> FULL_V1_MAX_NODE_EXECUTIONS
     \<and> nf_concurrency f \<le> FULL_V1_MAX_PEAK_CONCURRENCY \<and> nf_loop_entries f \<le> FULL_V1_MAX_LOOP_ENTRIES"

definition bounded_folds :: "graph_node \<Rightarrow> bool" where
  "bounded_folds n \<longleftrightarrow> (\<forall>m \<in> set (all_nodes n). within_limits (structural_fold m))"

text \<open>A method of the fold succeeds and leaves the analyzer alone, or it reports.\<close>

definition louder :: "analyzer \<Rightarrow> analyzer \<Rightarrow> bool" where
  "louder s s' \<longleftrightarrow> length (an_diagnostics s) < length (an_diagnostics s')"

definition succeeds :: "'a option \<times> analyzer \<Rightarrow> analyzer \<Rightarrow> 'a \<Rightarrow> bool \<Rightarrow> bool" where
  "succeeds r s v Q \<longleftrightarrow> r = (Some v, s) \<and> Q \<or> louder s (snd r)"

lemma louder_keeps: "louder s a \<Longrightarrow> keeps_index a b \<Longrightarrow> louder s b"
  by (auto simp: louder_def keeps_index_def Sublist.prefix_def)

lemma louder_emit: "louder s (emit code message path related s)"
  by (simp add: louder_def emit_def)

lemma succeeds_bind:
  assumes "succeeds r s v Q" and "\<And>a s. keeps_index s (snd (f a s))" and "Q \<Longrightarrow> succeeds (f v s) s w R"
  shows "succeeds (bind_opt r f) s w (Q \<and> R)"
proof (cases "louder s (snd r)")
  case True
  then have "louder s (snd (bind_opt r f))"
    using louder_keeps[OF True assms(2)] by (cases r) (auto simp: bind_opt_def split: option.split)
  then show ?thesis by (simp add: succeeds_def)
next
  case False
  then show ?thesis using assms(1,3) by (auto simp: succeeds_def bind_opt_def)
qed

lemma checked_sum_succeeds: "succeeds (checked_sum xs context s) s (sum_list xs) True"
proof -
  have "succeeds (checked_sum_from k xs context s) s (k + sum_list xs) True" for k
  proof (induction xs arbitrary: k)
    case (Cons x xs)
    from Cons.IH[of "k + x"] show ?case
      by (auto simp: succeeds_def limit_exceeded_def ceiling_def louder_emit checked_add_def add.assoc)
  qed (simp add: succeeds_def)
  from this[of 0] show ?thesis by (simp add: checked_sum_def)
qed

lemma checked_product_succeeds: "succeeds (checked_product a b context s) s (a * b) True"
  by (auto simp: checked_product_def succeeds_def limit_exceeded_def ceiling_def louder_emit checked_mul_def)

lemma check_fold_limits_succeeds: "succeeds (check_fold_limits f path s) s f (within_limits f)"
  by (auto simp: check_fold_limits_def succeeds_def ceiling_def louder_emit within_limits_def)

lemma fold_children_succeeds:
  assumes "\<And>c s. c \<in> set cs \<Longrightarrow> succeeds (f c s) s (g c) (Q c)" and "\<And>c s. keeps_index s (snd (f c s))"
  shows "fold_children f cs s = (map g cs, s) \<and> (\<forall>c \<in> set cs. Q c) \<or> louder s (snd (fold_children f cs s))"
  using assms(1)
proof (induction cs arbitrary: s)
  case Nil
  then show ?case by (simp add: fold_children_def map_filter_simps)
next
  case (Cons c cs)
  obtain r s1 where r: "f c s = (r, s1)" by force
  have next_keeps: "keeps_index s1 (snd (map_state f cs s1))"
    by (rule kept.map_state_P) (auto intro: keeps_index_refl keeps_index_trans assms(2))
  show ?case
  proof (cases "louder s s1")
    case True
    then show ?thesis using louder_keeps[OF True next_keeps]
      by (simp add: fold_children_def r case_prod_beta)
  next
    case False
    then have "r = Some (g c)" "s1 = s" "Q c" using Cons.prems[of c s] r by (auto simp: succeeds_def)
    with Cons.IH[of s] Cons.prems r show ?thesis
      by (auto simp: fold_children_def case_prod_beta map_filter_simps)
  qed
qed


lemma succeeds_then:
  assumes "succeeds r s v True" and "\<And>a s. keeps_index s (snd (f a s))" and "succeeds (f v s) s w R"
  shows "succeeds (bind_opt r f) s w R"
  using succeeds_bind[OF assms(1,2), where w = w and R = R] assms(3) by simp

lemma succeeds_Some: "succeeds (Some v, s) s v True"
  by (simp add: succeeds_def)

lemma succeeds_children:
  assumes "fold_children f cs s = (map g cs, s) \<and> Q \<or> louder s (snd (fold_children f cs s))"
    and "\<And>fs s. keeps_index s (snd (k fs s))" and "succeeds (k (map g cs) s) s w R"
  shows "succeeds (case fold_children f cs s of (folds, self) \<Rightarrow> k folds self) s w (Q \<and> R)"
proof (cases "louder s (snd (fold_children f cs s))")
  case True
  then show ?thesis using louder_keeps[OF True assms(2)] by (simp add: succeeds_def case_prod_beta)
next
  case False
  then show ?thesis using assms(1,3) by (auto simp: succeeds_def)
qed

lemma choice_rest_succeeds:
  assumes "\<And>c s. otherwise = Some c \<Longrightarrow> succeeds (f c s) s (g c) (Q c)"
  shows "succeeds (case otherwise of
      Some node \<Rightarrow> bind_opt (f node s) (\<lambda>last' self. (Some (folds @ [last']), self))
    | None \<Rightarrow> (Some folds, s)) s
    (folds @ map g (case otherwise of None \<Rightarrow> [] | Some n \<Rightarrow> [n]))
    (\<forall>c \<in> set (case otherwise of None \<Rightarrow> [] | Some n \<Rightarrow> [n]). Q c)"
proof (cases otherwise)
  case (Some c)
  then show ?thesis using assms[OF Some, of s]
    by (auto simp: succeeds_def bind_opt_def split: prod.splits option.splits)
qed (simp add: succeeds_def)

lemma fold_group_succeeds:
  assumes IH: "\<And>c s. c \<in> set (child_nodes n) \<Longrightarrow> succeeds (f c s) s (structural_fold c) (bounded_folds c)"
    and keep: "\<And>c s. keeps_index s (snd (f c s))" and "fold_leaf n = None"
  shows "succeeds (fold_group_node f n path s) s (structural_fold n) (\<forall>c \<in> set (child_nodes n). bounded_folds c)"
proof -
  have children: "fold_children f cs s = (map structural_fold cs, s) \<and> (\<forall>c \<in> set cs. bounded_folds c)
      \<or> louder s (snd (fold_children f cs s))" if "set cs \<subseteq> set (child_nodes n)" for cs
    by (rule fold_children_succeeds) (use IH keep that in auto)
  note quiet = kept.bind_opt_P passes keeps_index_refl
  note steps = succeeds_then[OF checked_sum_succeeds] succeeds_then[OF checked_product_succeeds] succeeds_Some
  show ?thesis
  proof (cases n)
    case (SeqNode name st cs ps)
    let ?fs = "map structural_fold cs"
    have "succeeds (fold_seq f cs path s) s
        \<lparr>nf_executions = sum_list (map nf_executions ?fs), nf_concurrency = fold max (map nf_concurrency ?fs) 0,
         nf_loop_entries = sum_list (map nf_loop_entries ?fs)\<rparr> ((\<forall>c \<in> set cs. bounded_folds c) \<and> True)"
      unfolding fold_seq_def
      by (intro succeeds_children[OF children] steps) (use SeqNode in \<open>auto intro!: quiet\<close>)
    then show ?thesis by (simp add: fold_group_node_def SeqNode structural_fold.simps[of "SeqNode _ _ _ _"] Let_def)
  next
    case (ParNode name st cs ps j)
    let ?fs = "map structural_fold cs"
    have "succeeds (fold_par f cs path s) s
        \<lparr>nf_executions = sum_list (map nf_executions ?fs), nf_concurrency = sum_list (map nf_concurrency ?fs),
         nf_loop_entries = sum_list (map nf_loop_entries ?fs)\<rparr> ((\<forall>c \<in> set cs. bounded_folds c) \<and> True)"
      unfolding fold_par_def
      by (intro succeeds_children[OF children] steps) (use ParNode in \<open>auto intro!: quiet\<close>)
    then show ?thesis by (simp add: fold_group_node_def ParNode structural_fold.simps[of "ParNode _ _ _ _ _"] Let_def)
  next
    case (ChoiceNode name st bs oth ps)
    let ?cs = "case oth of None \<Rightarrow> [] | Some n \<Rightarrow> [n]"
    let ?fs = "map structural_fold (map snd bs) @ map structural_fold ?cs"
    have "succeeds (fold_choice f bs oth s) s
        \<lparr>nf_executions = fold max (map nf_executions ?fs) 0, nf_concurrency = fold max (map nf_concurrency ?fs) 0,
         nf_loop_entries = fold max (map nf_loop_entries ?fs) 0\<rparr>
        ((\<forall>c \<in> set (map snd bs). bounded_folds c) \<and> ((\<forall>c \<in> set ?cs. bounded_folds c) \<and> True))"
      unfolding fold_choice_def
      by (intro succeeds_children[OF children] succeeds_bind[OF choice_rest_succeeds] succeeds_Some)
        (use ChoiceNode IH keep in \<open>auto intro!: quiet simp: succeeds_Some split: option.split\<close>)
    then show ?thesis
      by (simp add: fold_group_node_def ChoiceNode structural_fold.simps[of "ChoiceNode _ _ _ _ _"] Let_def ball_Un)
  next
    case (MapNode name st body over k ps)
    have "succeeds (fold_map f body k path s) s
        \<lparr>nf_executions = k * nf_executions (structural_fold body), nf_concurrency = k * nf_concurrency (structural_fold body),
         nf_loop_entries = k * nf_loop_entries (structural_fold body)\<rparr> (bounded_folds body \<and> True)"
      unfolding fold_map_def
      by (intro succeeds_bind[OF IH] steps) (use MapNode in \<open>auto intro!: quiet\<close>)
    then show ?thesis by (simp add: fold_group_node_def MapNode structural_fold.simps[of "MapNode _ _ _ _ _ _"] Let_def)
  next
    case (LoopNode name st body u k inp ps)
    have plus: "succeeds (case checked_add (nf_loop_entries x) 1 of Some entries \<Rightarrow> (Some entries, s)
        | None \<Rightarrow> (None, ceiling path ''maxIterations'' ''loop-entry arithmetic overflow'' s)) s (nf_loop_entries x + 1) True" for x s
      by (auto simp: checked_add_def succeeds_def ceiling_def louder_emit)
    have "succeeds (fold_loop f body k path s) s
        \<lparr>nf_executions = k * nf_executions (structural_fold body), nf_concurrency = nf_concurrency (structural_fold body),
         nf_loop_entries = k * (nf_loop_entries (structural_fold body) + 1)\<rparr> (bounded_folds body \<and> True)"
      unfolding fold_loop_def
      by (intro succeeds_bind[OF IH] succeeds_then[OF plus] steps)
        (use LoopNode in \<open>auto simp: ceiling_def intro!: quiet split: option.split\<close>)
    then show ?thesis by (simp add: fold_group_node_def LoopNode structural_fold.simps[of "LoopNode _ _ _ _ _ _ _"] Let_def)
  qed (use assms(3) in \<open>simp_all add: fold_leaf_def\<close>)
qed

lemma fold_node_succeeds: "succeeds (fold_node n s) s (structural_fold n) (bounded_folds n)"
proof (induction n arbitrary: s rule: graph_induct)
  case (node n)
  let ?Q = "\<forall>c \<in> set (child_nodes n). bounded_folds c"
  have "succeeds (case fold_leaf n of Some fold' \<Rightarrow> (Some fold', s) | None \<Rightarrow> fold_group_node fold_node n path s) s
      (structural_fold n) ?Q" for path
  proof (cases "fold_leaf n")
    case None
    then show ?thesis using fold_group_succeeds[OF node.IH kept.fold_node_P[OF keeps_index_refl] None] by simp
  next
    case (Some f)
    then have "structural_fold n = f" "child_nodes n = []"
      by (cases n; simp add: fold_leaf_def structural_fold.simps)+
    then show ?thesis using Some by (simp add: succeeds_def)
  qed
  moreover have "keeps_index s (snd (check_fold_limits f path s))" for f path s
    by (auto simp: check_fold_limits_def ceiling_def intro: passes keeps_index_refl)
  ultimately have "succeeds (fold_node n s) s (structural_fold n) (?Q \<and> within_limits (structural_fold n))"
    unfolding fold_node.simps[of n] Let_def
    by (intro succeeds_bind) (auto intro: check_fold_limits_succeeds)
  moreover have "bounded_folds n \<longleftrightarrow> ?Q \<and> within_limits (structural_fold n)"
    by (auto simp: bounded_folds_def all_nodes.simps[of n])
  ultimately show ?case by simp
qed

section \<open>The order of references\<close>

definition references :: "analyzer \<Rightarrow> node_name \<Rightarrow> node_name set" where
  "references self name = (case bm_get (an_dependencies self) name of None \<Rightarrow> {} | Some ds \<Rightarrow> set ds - {name})"

text \<open>Every reference of a node stands before it.\<close>

definition respects_references :: "analyzer \<Rightarrow> node_name list \<Rightarrow> bool" where
  "respects_references self order \<longleftrightarrow> (\<forall>i < length order. references self (order ! i) \<subseteq> set (take i order))"

lemma respects_snoc:
  assumes "respects_references self order" and "reference_is_ready self order name"
  shows "respects_references self (order @ [name])"
proof -
  have "references self name \<subseteq> set order"
    using assms(2) by (auto simp: references_def reference_is_ready_def list_all_iff split: option.splits)
  with assms(1) show ?thesis by (auto simp: respects_references_def nth_append less_Suc_eq)
qed

lemma reference_order_sound:
  assumes "reference_order self remaining order = (result, stuck)" and "distinct (order @ remaining)"
    and "respects_references self order"
  shows "mset result + mset stuck = mset order + mset remaining \<and> respects_references self result"
  using assms
proof (induction self remaining order rule: reference_order.induct)
  case (1 self remaining order)
  note run = 1(2)[unfolded reference_order.simps[of self remaining order]]
  show ?case
  proof (cases "remaining = []")
    case True
    then show ?thesis using run 1(4) by simp
  next
    case False
    show ?thesis
    proof (cases "next_reference_node self remaining order")
      case None
      then show ?thesis using run 1(4) False by auto
    next
      case (Some name)
      note ready = next_reference_mem[OF Some]
      have d: "distinct remaining" "name \<in> set remaining" using 1(3) ready by auto
      have split: "mset remaining = add_mset name (mset (filter (\<lambda>n. n \<noteq> name) remaining))"
      proof -
        have "{#x \<in># mset remaining. x = name#} = {#name#}"
          using d by (simp add: filter_eq_replicate_mset distinct_count_atmost_1)
        then show ?thesis using multiset_partition[of "mset remaining" "\<lambda>x. x = name"] by (simp add: mset_filter)
      qed
      from run False Some
      have r: "reference_order self (filter (\<lambda>n. n \<noteq> name) remaining) (order @ [name]) = (result, stuck)" by simp
      have "distinct ((order @ [name]) @ filter (\<lambda>n. n \<noteq> name) remaining)" using 1(3) ready by auto
      note rest = 1(1)[OF False Some r this respects_snoc[OF 1(4)]]
      have "mset order + mset remaining = mset (order @ [name]) + mset (filter (\<lambda>n. n \<noteq> name) remaining)"
        by (subst split) simp
      then show ?thesis using rest ready by metis
    qed
  qed
qed

lemma reference_topological_order_clean:
  assumes "reference_topological_order s = (order, s')" and "an_diagnostics s' = []" and "distinct (bm_keys (an_nodes s))"
  shows "mset order = mset (bm_keys (an_nodes s)) \<and> respects_references s' order"
proof -
  let ?v = "validate_reference_names (bm_keys (an_nodes s)) s"
  obtain stuck where r: "reference_order ?v (bm_keys (an_nodes s)) [] = (order, stuck)"
    and s': "s' = (if stuck = [] then ?v else emit_reference_cycle stuck ?v)"
    using assms(1) by (auto simp: reference_topological_order_def Let_def split: prod.splits)
  from assms(2) s' have "stuck = []" "s' = ?v" by (auto simp: emit_reference_cycle_def emit_def split: if_splits)
  with reference_order_sound[OF r] assms(3) show ?thesis by (simp add: respects_references_def)
qed

section \<open>The analysis\<close>

lemma keeps_global_limits: "keeps_index s (validate_global_limits s)"
  by (simp add: validate_global_limits_def Let_def passes keeps_index_refl)

lemma global_limits_clean:
  "an_diagnostics (validate_global_limits s) = [] \<Longrightarrow>
     length (an_authored s) \<le> FULL_V1_MAX_GRAPH_NODES \<and> an_guard_nodes s \<le> FULL_V1_MAX_GUARD_NODES"
  by (auto simp: validate_global_limits_def Let_def emit_if_def emit_def split: if_splits)

text \<open>What an analysis without diagnostics established.\<close>

lemma analyze_clean:
  assumes "analyze graph = (bounds, a)" and "an_diagnostics a = []"
  shows "gs_profile graph = FullProfile" "distinct (map node_name (all_nodes (gs_root graph)))"
    "length (all_nodes (gs_root graph)) \<le> FULL_V1_MAX_GRAPH_NODES"
    "list_all node_within (nodes_at 1 (gs_root graph))" "bounded_folds (gs_root graph)"
    "an_attempts a = put_attempts (nodes_at 1 (gs_root graph)) []"
    "an_loops a = map node_name (filter is_loop_node (all_nodes (gs_root graph)))"
    "\<exists>order. bounds = build_bounds (structural_fold (gs_root graph)) order a
       \<and> mset order = mset (map node_name (all_nodes (gs_root graph))) \<and> respects_references a order"
proof -
  let ?root = "gs_root graph"
  let ?ns = "nodes_at 1 ?root"
  define s0 where "s0 = validate_profile (Analyzer_new graph)"
  define s1 where "s1 = index_node ?root [field_segment ''root'', NodeSegment (node_name ?root)] 1 s0"
  define s2 where "s2 = validate_global_limits s1"
  define s3 where "s3 = snd (validate_node ?root [] \<lparr>nx_incoming = flow_default\<lparr>fl_defined :=
    required_paths_with_types (initial_state_of graph)\<rparr>, nx_state = initial_state_of graph, nx_item = None,
    nx_map_index_targets = None\<rparr> s2)"
  define s4 where "s4 = validate_terminal_coverage s3"
  obtain order s5 where order: "reference_topological_order s4 = (order, s5)" by force
  obtain folded where folded: "fold_node ?root s5 = (folded, a)"
    and bounds: "bounds = (case folded of None \<Rightarrow> None | Some f \<Rightarrow> build_bounds f order a)"
    using assms order unfolding analyze_def Let_def s0_def[symmetric] s1_def[symmetric] s2_def[symmetric]
    by (auto simp: s3_def s4_def split: prod.splits)
  have k24: "keeps_index s2 s4" unfolding s3_def s4_def by (intro passes keeps_index_refl)
  have k45: "keeps_index s4 s5" using kept.reference_order_P[OF keeps_index_refl[of s4]] order by simp
  have k5a: "keeps_index s5 a" using kept.fold_node_P[OF keeps_index_refl[of s5], of ?root] folded by simp
  have k1a: "keeps_index s1 a"
    using keeps_global_limits[of s1] k24 k45 k5a keeps_index_trans unfolding s2_def by blast
  have clean: "an_diagnostics s5 = []" "an_diagnostics s2 = []" "an_diagnostics s1 = []"
    using keeps_index_clean[OF _ assms(2)] k5a keeps_index_trans[OF keeps_index_trans[OF k24 k45] k5a] k1a by blast+
  have idx: "indexes ?ns s0 s1" unfolding s1_def by (rule index_node_indexes)
  with clean(3) have d0: "an_diagnostics s0 = []" by (simp add: indexes_def)
  then show "gs_profile graph = FullProfile"
    by (auto simp: s0_def validate_profile_def emit_if_def emit_def Analyzer_new_def split: if_splits)
  then have s0: "s0 = Analyzer_new graph"
    by (simp add: s0_def validate_profile_def emit_if_def Analyzer_new_def)
  have empty: "indexed_node s0 = Map.empty" by (simp add: s0 Analyzer_new_def indexed_node_def fun_eq_iff)
  from idx clean(3) d0 have fresh: "fresh_nodes ?ns Map.empty" and at: "indexed_node s1 = put_nodes ?ns Map.empty"
    and within: "list_all node_within ?ns" by (simp_all add: indexes_def empty)
  show "list_all node_within ?ns" by (rule within)
  have names: "map (node_name \<circ> fst) ?ns = map node_name (all_nodes ?root)"
    by (simp flip: nodes_at_all[of 1 ?root] map_map)
  show dist: "distinct (map node_name (all_nodes ?root))" using fresh_distinct[OF fresh] by (simp only: names)
  from global_limits_clean[of s1] clean(2) idx show "length (all_nodes ?root) \<le> FULL_V1_MAX_GRAPH_NODES"
    by (simp add: s2_def indexes_def s0 Analyzer_new_def flip: nodes_at_all[of 1 ?root])
  show "an_attempts a = put_attempts ?ns []" "an_loops a = map node_name (filter is_loop_node (all_nodes ?root))"
    using idx k1a by (simp_all add: indexes_def keeps_index_def s0 Analyzer_new_def nodes_at_all)
  have "\<not> louder s5 a" using clean(1) assms(2) by (simp add: louder_def)
  with fold_node_succeeds[of ?root s5] folded have f: "folded = Some (structural_fold ?root)" "bounded_folds ?root" "s5 = a"
    by (auto simp: succeeds_def)
  then show "bounded_folds ?root" by simp
  have nodes: "an_nodes s4 = an_nodes s1" using keeps_global_limits[of s1] k24 by (simp add: keeps_index_def s2_def)
  have wf: "bm_wf (an_nodes s1)" using idx by (simp add: indexes_def s0 Analyzer_new_def)
  have "dom (indexed_node s1) = set (map node_name (all_nodes ?root))" unfolding at dom_put_nodes names by simp
  then have "set (bm_keys (an_nodes s1)) = set (map node_name (all_nodes ?root))"
    by (auto simp: indexed_node_def dom_def bm_keys_def bm_get_def map_of_eq_None_iff dest: map_of_SomeD weak_map_of_SomeI)
  then have keys: "mset (bm_keys (an_nodes s1)) = mset (map node_name (all_nodes ?root))"
    using set_eq_iff_mset_eq_distinct[OF _ dist, of "bm_keys (an_nodes s1)"] bm_wf_distinct[OF wf]
    unfolding bm_keys_def by blast
  from reference_topological_order_clean[OF order clean(1)] bm_wf_distinct[OF wf]
  have "mset order = mset (bm_keys (an_nodes s1)) \<and> respects_references s5 order"
    by (simp add: nodes bm_keys_def)
  with keys f bounds
  show "\<exists>order. bounds = build_bounds (structural_fold ?root) order a
       \<and> mset order = mset (map node_name (all_nodes ?root)) \<and> respects_references a order" by auto
qed

end
