(* ===== verification/Verifier_Example.thy ===== *)
theory Verifier_Example
  imports Verifier_Bounds
begin

text \<open>
  The analysis of a small graph, step by step: one verifier without bindings, then a succeed terminal. The
  analyzer reports nothing and derives the bounds of one execution.
\<close>

section \<open>Methods on nodes without bindings\<close>

lemma no_guard_assignments: "assignments_for_guards [] path s = (Some [[]], s)"
proof -
  have "explicit_map_aggregates s [] = []" by (simp add: explicit_map_aggregates_def map_filter_simps bm_extend_def)
  moreover have "expand_round s \<lparr>ex_expanded = [], ex_aggregates = [], ex_join_correlations = [],
      ex_execution_correlations = [], ex_discovered = False\<rparr> = \<lparr>ex_expanded = [], ex_aggregates = [],
      ex_join_correlations = [], ex_execution_correlations = [], ex_discovered = False\<rparr>"
    by (simp add: expand_round_def guards_selectors_def)
  ultimately have "assignment_inputs s [] = ([], [], [])"
    by (simp add: assignment_inputs_def expand_correlations.simps Let_def guards_selectors_def)
  then show ?thesis
    by (simp add: assignments_for_guards_def build_dimensions_def keys_by_node_def bm_map_values_def bs_of_list_def
        compatible_assignment_count_is_bounded_def enumerate_assignments_def Let_def)
qed

lemma always_satisfiable: "sequence_satisfiable True Always path s = (True, s)"
  by (simp add: sequence_satisfiable_def completion_is_satisfiable_def assignments_for_completion_predicates_def
      no_guard_assignments)

lemma completion_all_Always: "completion_all [Always, p] = completion_all [p]"
  by (simp add: completion_all_def)

lemma silent_executable:
  "validate_executable name PNull payload [] [] context path s =
     (effects_default\<lparr>ef_definite_nodes := [name], ef_exit_failed := bs_insert name (fl_failed (nx_incoming context)),
        ef_falls_through := True, ef_completion := Always\<rparr>, s)"
  by (simp add: validate_executable_def validate_input_bindings_def constructible_payload_def emit_if_def
      validate_required_binding_targets_def required_leaf_paths_def collect_required_leaves.simps[of PNull]
      validate_write_bindings_def effects_default_def bm_map_values_def Let_def)

lemma silent_succeed:
  "validate_succeed \<lparr>su_name = name, su_output = PNull, su_bindings = []\<rparr> context path s =
     (terminal_effects name (nx_incoming context), s)"
  by (simp add: validate_succeed_def validate_input_bindings_def constructible_payload_def emit_if_def
      validate_required_binding_targets_def required_leaf_paths_def collect_required_leaves.simps[of PNull] Let_def)

section \<open>The graph\<close>

definition small_root :: "verifier_node \<Rightarrow> graph_node" where
  "small_root v = SeqNode ''root'' (PRecord [])
     [VerifierNode v, SucceedNode \<lparr>su_name = ''ok'', su_output = PNull, su_bindings = []\<rparr>] []"

definition silent_verifier :: "verifier_node \<Rightarrow> bool" where
  "silent_verifier v \<longleftrightarrow> vn_name v = ''publish'' \<and> vn_attempts v = 1 \<and> vn_input v = PNull
     \<and> vn_input_bindings v = [] \<and> vn_write_bindings v = []"

lemma validate_small_leaves:
  assumes "silent_verifier v"
  shows "validate_node (VerifierNode v) p x s =
      (effects_default\<lparr>ef_definite_nodes := [''publish''], ef_exit_failed := bs_insert ''publish'' (fl_failed (nx_incoming x)),
         ef_falls_through := True, ef_completion := Always\<rparr>,
       s\<lparr>an_node_completion := bm_insert ''publish'' Always (an_node_completion s),
         an_node_fallthrough := bm_insert p True (an_node_fallthrough s)\<rparr>)"
    "validate_node (SucceedNode \<lparr>su_name = ''ok'', su_output = PNull, su_bindings = []\<rparr>) p x s =
      (terminal_effects ''ok'' (nx_incoming x),
       s\<lparr>an_node_completion := bm_insert ''ok'' Never (an_node_completion s),
         an_node_fallthrough := bm_insert p False (an_node_fallthrough s)\<rparr>)"
  using assms
  by (simp_all add: validate_node.simps[of "VerifierNode v"] validate_node.simps[of "SucceedNode _"] validate_group_state_def
      validate_kind_def validate_verifier_def silent_executable silent_succeed silent_verifier_def emit_if_def
      effects_default_def terminal_effects_def Let_def)

lemma terminal_effects_fields:
  "ef_falls_through (terminal_effects n f) = False" "ef_completion (terminal_effects n f) = Never"
  by (simp_all add: terminal_effects_def effects_default_def)

lemma validate_small_root:
  assumes "silent_verifier v" and "nx_state x = PRecord []"
  shows "snd (validate_node (small_root v) [] x s) =
    s\<lparr>an_node_completion := bm_insert ''root'' Never (bm_insert ''ok'' Never (bm_insert ''publish'' Always (an_node_completion s))),
      an_node_fallthrough := bm_insert [] False (bm_insert [1] False (bm_insert [0] True (an_node_fallthrough s)))\<rparr>"
proof -
  have "is_subtype_with_definitions (PRecord []) (PRecord []) d" for d
    by (simp add: is_subtype_with_definitions_def check_subtype_with_definitions.simps)
  then have group: "validate_group_state (SeqNode n (PRecord []) cs ps) x path s = s" for n cs ps path s
    by (simp add: validate_group_state_def assms(2) emit_if_def)
  show ?thesis
    unfolding small_root_def validate_node.simps[of "SeqNode _ _ _ _"]
    by (simp add: Let_def group validate_kind_def validate_seq_def validate_seq_child_def validate_small_leaves[OF assms(1)]
       always_satisfiable sequence_satisfiable_def[of False] terminal_effects_fields completion_all_def
       restrict_promotions_def promotion_def retain_promoted_writes_def case_prod_beta)
qed

definition small_graph :: "policy_binding \<Rightarrow> verifier_node \<Rightarrow> graph_spec" where
  "small_graph p v = \<lparr>gs_profile = FullProfile, gs_initial_input = PRecord [], gs_policy = p, gs_root = small_root v\<rparr>"

definition small_bounds :: structural_bounds where
  "small_bounds = \<lparr>sb_termination = Acyclic [''root'', ''publish'', ''ok''], sb_max_node_executions = 1,
     sb_peak_concurrency = 1, sb_attempts_per_node = [(''publish'', 1)]\<rparr>"

definition small_index :: "policy_binding \<Rightarrow> verifier_node \<Rightarrow> diagnostic_path_segment list \<Rightarrow> analyzer" where
  "small_index p v f = (Analyzer_new (small_graph p v))
     \<lparr>an_nodes := [(''ok'', \<lparr>ni_node = SucceedNode \<lparr>su_name = ''ok'', su_output = PNull, su_bindings = []\<rparr>,
                             ni_path = child_path f ''children'' 1 ''ok'', ni_ordinal = 2\<rparr>),
                   (''publish'', \<lparr>ni_node = VerifierNode v, ni_path = child_path f ''children'' 0 ''publish'', ni_ordinal = 1\<rparr>),
                   (''root'', \<lparr>ni_node = small_root v, ni_path = f, ni_ordinal = 0\<rparr>)],
      an_authored := [''root'', ''publish'', ''ok''],
      an_dependencies := [(''ok'', []), (''publish'', []), (''root'', [])],
      an_attempts := [(''publish'', 1)]\<rparr>"

lemma small_indexed:
  assumes "silent_verifier v"
  shows "index_node (small_root v) f 1 (Analyzer_new (small_graph p v)) = small_index p v f"
  using assms
  by (simp add: silent_verifier_def small_index_def small_root_def small_graph_def Analyzer_new_def index_node.simps[of "SeqNode _ _ _ _"]
      index_node.simps[of "VerifierNode _"] index_node.simps[of "SucceedNode _"] index_children_def index_list_def
      validate_node_depth_def index_identity_def declare_dependencies_def bm_entry_def emit_if_def index_executable_def
      FULL_V1_MAX_GRAPH_DEPTH_def FULL_V1_MAX_ATTEMPTS_PER_NODE_def Let_def)

lemma small_order:
  assumes "an_nodes s = an_nodes (small_index p v f)" and "an_dependencies s = [(''ok'', []), (''publish'', []), (''root'', [])]"
  shows "reference_topological_order s = ([''root'', ''publish'', ''ok''], s)"
  using assms
  by (simp add: reference_topological_order_def small_index_def validate_reference_names_def bm_keys_def
      reference_order.simps[of s "_ # _"] reference_order.simps[of s "[]"] next_reference_node_def reference_is_ready_def
      reference_ordinal_def Let_def)

lemma small_fold: "fold_node (small_root v) s = (Some \<lparr>nf_executions = 1, nf_concurrency = 1, nf_loop_entries = 0\<rparr>, s)"
proof -
  have leaves: "fold_node (VerifierNode v) s = (Some \<lparr>nf_executions = 1, nf_concurrency = 1, nf_loop_entries = 0\<rparr>, s)"
    "fold_node (SucceedNode t) s = (Some fold_default, s)" for v t s
    by (simp_all add: fold_node.simps[of "VerifierNode _"] fold_node.simps[of "SucceedNode _"] fold_leaf_def bind_opt_def
        check_fold_limits_def fold_default_def FULL_V1_MAX_NODE_EXECUTIONS_def FULL_V1_MAX_PEAK_CONCURRENCY_def
        FULL_V1_MAX_LOOP_ENTRIES_def Let_def)
  show ?thesis
    by (simp add: small_root_def fold_node.simps[of "SeqNode _ _ _ _"] fold_leaf_def fold_group_node_def fold_seq_def
        fold_children_def leaves fold_default_def map_filter_simps checked_sum_def fold_limit_def checked_add_def u64_max_def
        bind_opt_def check_fold_limits_def FULL_V1_MAX_NODE_EXECUTIONS_def FULL_V1_MAX_PEAK_CONCURRENCY_def
        FULL_V1_MAX_LOOP_ENTRIES_def Let_def)
qed

lemma small_terminals:
  assumes "an_graph s = small_graph p v"
    and "an_node_fallthrough s = bm_insert [] False (bm_insert [1] False (bm_insert [0] True []))"
  shows "validate_terminal_coverage s = s"
proof -
  have leaves: "terminal_flow (VerifierNode v) q s = s" "terminal_flow (SucceedNode t) q s = s" for v t q s
    by (simp_all add: terminal_flow.simps[of "VerifierNode _"] terminal_flow.simps[of "SucceedNode _"] terminal_children_def)
  show ?thesis
    by (simp add: validate_terminal_coverage_def assms small_graph_def small_root_def terminal_flow.simps[of "SeqNode _ _ _ _"]
        terminal_children_def terminal_sequence_def leaves emit_if_def may_fall_through_def Let_def)
qed

lemma small_initial: "initial_state_of (small_graph p v) = PRecord []"
  by (simp add: initial_state_of_def small_graph_def small_root_def materialized_subtype_of_def
      materialized_source_type.simps[of "PRecord _" "PRecord _"] materialized_record_fields_def)

lemma small_analysis:
  assumes "silent_verifier v"
  obtains a where "analyze (small_graph p v) = (Some small_bounds, a)" "an_diagnostics a = []"
proof -
  let ?g = "small_graph p v"
  let ?s = "small_index p v [field_segment ''root'', NodeSegment ''root'']"
  have root: "gs_root ?g = small_root v" "node_name (small_root v) = ''root''" by (simp_all add: small_graph_def small_root_def)
  have profile: "validate_profile (Analyzer_new ?g) = Analyzer_new ?g"
    by (simp add: validate_profile_def emit_if_def Analyzer_new_def small_graph_def)
  have limits: "validate_global_limits ?s = ?s"
    by (simp add: validate_global_limits_def emit_if_def small_index_def Analyzer_new_def FULL_V1_MAX_GRAPH_NODES_def
        FULL_V1_MAX_GUARD_NODES_def)
  let ?t = "?s\<lparr>an_node_completion := bm_insert ''root'' Never (bm_insert ''ok'' Never (bm_insert ''publish'' Always [])),
      an_node_fallthrough := bm_insert [] False (bm_insert [1] False (bm_insert [0] True []))\<rparr>"
  let ?x = "\<lparr>nx_incoming = flow_default\<lparr>fl_defined := required_paths_with_types (PRecord [])\<rparr>, nx_state = PRecord [],
      nx_item = None, nx_map_index_targets = None\<rparr>"
  have valid: "snd (validate_node (small_root v) [] ?x ?s) = ?t"
    using validate_small_root[OF assms, of ?x ?s] by (simp add: small_index_def Analyzer_new_def)
  have terminals: "validate_terminal_coverage ?t = ?t"
    by (rule small_terminals) (simp_all add: small_index_def Analyzer_new_def)
  have order: "reference_topological_order ?t = ([''root'', ''publish'', ''ok''], ?t)"
    by (rule small_order) (simp_all add: small_index_def)
  have clean: "an_diagnostics ?t = []" by (simp add: small_index_def Analyzer_new_def)
  have "build_bounds \<lparr>nf_executions = 1, nf_concurrency = 1, nf_loop_entries = 0\<rparr> [''root'', ''publish'', ''ok''] ?t = Some small_bounds"
    by (simp add: build_bounds_def small_index_def Analyzer_new_def PositiveInteger_new_def NonEmptyVec_new_def small_bounds_def
        MAX_COLLECTION_ITEMS_def MAX_SAFE_GENERATION_def Let_def)
  then have "analyze ?g = (Some small_bounds, ?t)"
    unfolding analyze_def Let_def root profile small_indexed[OF assms] limits small_initial case_prod_beta
    by (simp only: valid terminals order small_fold clean fst_conv snd_conv option.case simp_thms if_False)
  with clean that show ?thesis by blast
qed

end
