(* ===== verification/Admission_Properties.thy ===== *)
theory Admission_Properties
  imports Admission_Laws Sessions Supervisor_Properties Verifier_Example
begin

text \<open>
  Admission, trusted delivery and the end of a run: properties of \<open>Admission\<close>, \<open>Delivery\<close> and
  \<open>Finish\<close>, with a run that publishes a branch as the running example.
\<close>

section \<open>A run that pushes a branch\<close>

definition push_output :: payload_type where
  "push_output = (case delivery_result_schema ModePush of Inr t \<Rightarrow> t | Inl _ \<Rightarrow> PNull)"

definition push_signals :: "(field_name, enum_set) btree_map" where
  "push_signals = (case signal_labels ModePush True of Inr labels \<Rightarrow> [(''delivery'', labels)] | Inl _ \<Rightarrow> [])"

definition push_diagnostic :: payload_type where
  "push_diagnostic = (case delivery_diagnostic_schema of Inr t \<Rightarrow> t | Inl _ \<Rightarrow> PNull)"

definition push_root :: graph_node where
  "push_root = SeqNode ''root'' (PRecord [])
     [VerifierNode \<lparr>vn_name = ''publish'', vn_worker = GIT_DELIVERY_PUSH_WORKER_REF, vn_input = PNull,
        vn_output = push_output, vn_input_bindings = [], vn_write_bindings = [], vn_timeout_ms = None,
        vn_attempts = 1, vn_signals = push_signals, vn_diagnostic = push_diagnostic, vn_instructions = None\<rparr>,
      SucceedNode \<lparr>su_name = ''ok'', su_output = PNull, su_bindings = []\<rparr>] []"

definition push_graph :: graph_spec where
  "push_graph = \<lparr>gs_profile = FullProfile, gs_initial_input = PRecord [],
     gs_policy = \<lparr>po_policy = ''policy@1'', po_default = PolicyDeny\<rparr>, gs_root = push_root\<rparr>"

definition push_source :: resolved_source where
  "push_source = \<lparr>rs_repository = ''acme/app'', rs_branch = ''main'', rs_revision = replicate 40 (CHR ''a''), rs_remote = None\<rparr>"

definition push_runtime :: runtime_plan where
  "push_runtime = \<lparr>rp_harness = ''h'', rp_provider = ''p'', rp_size = Small, rp_workspace_checkpoints = True,
     rp_active_memory = \<lparr>am_repository = False, am_graph = False, am_budget_bytes = 256\<rparr>,
     rp_global_agents = \<lparr>ga_postmortem = \<lparr>pc_enabled = False, pc_source_node = None, pc_timeout_ms = 1\<rparr>\<rparr>,
     rp_nodes = [(''publish'', GitDeliveryBinding [] Consider)]\<rparr>"

definition push_submission :: run_submission where
  "push_submission = \<lparr>su_title = ''push'', su_graph = push_graph, su_initial_input = VObject [],
     su_runtime = push_runtime,
     su_environment = None, su_source = Some push_source, su_submission_key = ''k''\<rparr>"

definition push_comments :: comment_adapter where
  "push_comments = \<lparr>ca_destination = (\<lambda>_. Inl ''none''), ca_destination_with_context = (\<lambda>_ _. Inl ''none''),
     ca_review_scope = (\<lambda>_ _. Inl ''none''), ca_valid_destination = (\<lambda>_. False), ca_valid_permalink = (\<lambda>_ _ _. False)\<rparr>"

definition push_host :: admission_host where
  "push_host = \<lparr>ah_validate_runtime = (\<lambda>_. Inr ()), ah_comments = push_comments,
     ah_delivery_source = (\<lambda>_ _. Inr ()), ah_canonical = (\<lambda>_. Inr '''')\<rparr>"

definition push_admitted :: admitted_run where
  "push_admitted = \<lparr>ad_title = ''push'',
     ad_graph = \<lparr>cg_profile = FullProfile, cg_initial_input = PRecord [],
       cg_policy = \<lparr>po_policy = ''policy@1'', po_default = PolicyDeny\<rparr>, cg_root = push_root, cg_bounds = small_bounds\<rparr>,
     ad_initial_input = VObject [], ad_runtime = push_runtime, ad_environment = None,
     ad_source = Some push_source\<rparr>"

lemma push_bindings:
  "validate_attempts (executable_declarations push_root) = Inr ()"
  "validate_binding_coverage (executable_declarations push_root) [(''publish'', GitDeliveryBinding [] Consider)] = Inr ()"
  "validate_binding_kinds (executable_declarations push_root) [(''publish'', GitDeliveryBinding [] Consider)] = Inr ()"
  "validate_delivery_policy DeliveryRequired (executable_declarations push_root) = Inr ()"
  by code_simp+

lemma push_nodes: "rp_nodes push_runtime = [(''publish'', GitDeliveryBinding [] Consider)]"
  by (simp add: push_runtime_def)

lemma push_environment: "validate_declared_environment push_runtime None = Inr ()"
  by (simp add: validate_declared_environment_def push_nodes Let_def declared_connections_def environment_names_def
      bs_of_list_def MAX_DECLARED_ENVIRONMENT_NAMES_def)

lemma push_validated:
  "validate_executable_bindings push_host DeliveryRequired (executable_declarations push_root) push_runtime = Inr ()"
  unfolding validate_executable_bindings_def push_nodes push_bindings push_environment
  by (simp add: push_host_def push_runtime_def active_memory_validate_def postmortem_validate_def map_err_def)

lemma push_declarations:
  "executable_declarations push_root = [hd (executable_declarations push_root)]"
  "xd_name (hd (executable_declarations push_root)) = ''publish''"
  by (simp_all add: executable_declarations_def collect_declarations.simps push_root_def verifier_declaration_def)

lemma push_contract: "\<forall>d \<in> set (executable_declarations push_root). contract_wf (xd_contract d)"
proof -
  have "contract_wf (xd_contract (hd (executable_declarations push_root)))" by code_simp
  then show ?thesis by (subst push_declarations(1)) simp
qed

lemma push_registry:
  obtains reg where "from_declarations push_graph (executable_declarations push_root) push_runtime = Inr reg"
    "check_graph_workers push_graph (graph_bound_resolve reg) = Inr ()"
proof -
  have root: "gs_root push_graph = push_root" "gs_profile push_graph = FullProfile" by (simp_all add: push_graph_def)
  have "try_foldl (resolve_declaration push_runtime) [] [d] \<noteq> Inl e" for d e
    by (simp add: resolve_declaration_def split: option.splits)
  then obtain res where "try_foldl (resolve_declaration push_runtime) [] (executable_declarations push_root) = Inr res"
    using push_declarations(1) by (metis sum.exhaust)
  then obtain reg where reg: "from_declarations push_graph (executable_declarations push_root) push_runtime = Inr reg"
    using registry_total by blast
  have "xd_name ` set (executable_declarations push_root) \<subseteq> set (bm_keys (rp_nodes push_runtime))"
    by (subst push_declarations(1)) (simp add: push_declarations(2) push_nodes bm_keys_def)
  then have "check_graph_workers push_graph (graph_bound_resolve reg) = Inr ()"
    using graph_bound_registry_agrees[of push_graph push_runtime reg] reg push_contract by (simp add: root)
  with reg that show ?thesis by blast
qed

lemma push_analysis:
  obtains a where "analyze push_graph = (Some small_bounds, a)" "an_diagnostics a = []"
proof -
  let ?v = "\<lparr>vn_name = ''publish'', vn_worker = GIT_DELIVERY_PUSH_WORKER_REF, vn_input = PNull,
        vn_output = push_output, vn_input_bindings = [], vn_write_bindings = [], vn_timeout_ms = None,
        vn_attempts = 1, vn_signals = push_signals, vn_diagnostic = push_diagnostic, vn_instructions = None\<rparr>"
  have "push_graph = small_graph \<lparr>po_policy = ''policy@1'', po_default = PolicyDeny\<rparr> ?v" "silent_verifier ?v"
    by (simp_all add: push_graph_def push_root_def small_graph_def small_root_def silent_verifier_def)
  with small_analysis[of ?v] that show ?thesis by metis
qed

lemma push_admission: "admit_with_context push_host DeliveryRequired push_submission = Inr push_admitted"
proof -
  have limits: "bind_input_limits (VObject []) push_root = Inr push_root" by (simp add: push_root_def)
  have env: "validate_run_environment push_runtime None = Inr ()" by (simp add: validate_run_environment_def push_environment)
  have graph: "push_graph\<lparr>gs_root := push_root\<rparr> = push_graph" "gs_root push_graph = push_root" by (simp_all add: push_graph_def)
  have checks: "validate_graph_input push_graph (VObject []) = Inr ()" "validate_delivery_concurrency push_root = Inr ()"
    "validate_comment_profile push_graph = Inr ()" "comment_node push_root = None" by code_simp+
  then have comment: "validate_comment_input_shape push_comments push_root (VObject []) = Inr ()"
    "resolve_comment_input_at push_comments push_root (VObject []) forge = Inr None" for forge
    by (simp_all add: validate_comment_input_shape_def resolve_comment_input_at_def unresolved_input_def)
  have prepared: "prepare_submission push_host DeliveryRequired (submission_intent push_submission) =
      Inr \<lparr>pp_title = ''push'', pp_graph = push_graph, pp_initial_input = VObject [], pp_runtime = push_runtime,
           pp_environment = None, pp_declarations = executable_declarations push_root\<rparr>"
    by (simp add: prepare_submission_def submission_intent_def push_submission_def env checks limits graph push_validated
        comment push_host_def[THEN arg_cong[of _ _ ah_comments]] Let_def)
  obtain reg where reg: "from_declarations push_graph (executable_declarations push_root) push_runtime = Inr reg"
    "check_graph_workers push_graph (graph_bound_resolve reg) = Inr ()" by (rule push_registry)
  have host: "ah_comments push_host = push_comments" "ah_canonical push_host ir = Inr ''''"
    "ah_delivery_source push_host src caps = Inr ()" for ir src caps
    by (simp_all add: push_host_def)
  obtain a where analysis: "analyze push_graph = (Some small_bounds, a)" "an_diagnostics a = []" by (rule push_analysis)
  have verified: "finalize_verified (ah_canonical push_host) push_graph small_bounds = Inr (ad_graph push_admitted)"
    by (simp add: finalize_verified_def host push_admitted_def push_graph_def Let_def)
  have src: "validate_source_delivery push_host (Some push_source) push_graph = Inr ()"
    by (simp add: validate_source_delivery_def host ok_or_def map_err_def Let_def)
  have sub: "su_source push_submission = Some push_source" by (simp add: push_submission_def)
  show ?thesis
    by (simp add: admit_with_context_def prepared comment graph reg verify_submission_def verify_graph_def analysis host(1,3) src sub verified
        ok_or_def map_err_def)
      (simp add: push_admitted_def)
qed

section \<open>Admission\<close>

text \<open>C31. Bindings of an admitted run: the runtime bindings name exactly the executable nodes of the
  admitted graph. A node runs a trusted delivery worker exactly when it is bound to a trusted delivery,
  and then it is a verifier without instructions. No node has more than two attempts, and only a
  verifier that is no Git delivery (another trusted delivery included) may have a second one.\<close>

theorem admitted_bindings:
  assumes "admit_with_context host policy submission = Inr admitted"
  shows "set (bm_keys (rp_nodes (ad_runtime admitted))) =
      {es_name spec | n spec. n \<in> set (all_nodes (cg_root (ad_graph admitted))) \<and> executable_spec_of n = Some spec}
    \<and> (\<forall>d \<in> set (executable_declarations (cg_root (ad_graph admitted))).
         (\<exists>b. bm_get (rp_nodes (ad_runtime admitted)) (xd_name d) = Some b
            \<and> (is_git_delivery_worker (xd_worker d) \<longleftrightarrow> (\<exists>c f. b = GitDeliveryBinding c f))
            \<and> (xd_worker d = COMMENT_DELIVERY_WORKER_REF \<longleftrightarrow> (\<exists>c. b = CommentDeliveryBinding c)))
         \<and> (is_trusted_delivery_worker (xd_worker d) \<longrightarrow> xd_kind d = LeafVerifier \<and> xd_instructions d = None)
         \<and> (xd_attempts d = 1
            \<or> xd_kind d = LeafVerifier \<and> \<not> is_git_delivery_worker (xd_worker d) \<and> xd_attempts d \<le> 2))"
proof -
  from assms obtain root decls where root: "cg_root (ad_graph admitted) = root" "decls = executable_declarations root"
    and rt: "ad_runtime admitted = su_runtime submission"
    and val: "validate_executable_bindings host policy decls (su_runtime submission) = Inr ()" by (rule admit_cases)
  note v = validated_bindings[OF val]
  have names: "xd_name ` set decls = {es_name spec | n spec. n \<in> set (all_nodes root) \<and> executable_spec_of n = Some spec}"
    unfolding root(2) by (rule declaration_names)
  have each: "(\<exists>b. bm_get (rp_nodes (su_runtime submission)) (xd_name d) = Some b
            \<and> (is_git_delivery_worker (xd_worker d) \<longleftrightarrow> (\<exists>c f. b = GitDeliveryBinding c f))
            \<and> (xd_worker d = COMMENT_DELIVERY_WORKER_REF \<longleftrightarrow> (\<exists>c. b = CommentDeliveryBinding c)))
         \<and> (is_trusted_delivery_worker (xd_worker d) \<longrightarrow> xd_kind d = LeafVerifier \<and> xd_instructions d = None)
         \<and> (xd_attempts d = 1
            \<or> xd_kind d = LeafVerifier \<and> \<not> is_git_delivery_worker (xd_worker d) \<and> xd_attempts d \<le> 2)"
    if d: "d \<in> set decls" for d
  proof -
    from v(3) d obtain b where b: "bm_get (rp_nodes (su_runtime submission)) (xd_name d) = Some b"
      "validate_binding_kind d b = Inr ()" "validate_instructions d b = Inr ()" by (rule binding_kinds_ok)
    show ?thesis using b delivery_binding[OF b(2)] delivery_instructions[OF b(2,3)] validated_attempts[OF v(1) d] by blast
  qed
  have "set (bm_keys (rp_nodes (su_runtime submission))) = xd_name ` set decls"
    using coverage_exact v(2) by blast
  then show ?thesis unfolding rt root(1) using names each unfolding root(2) by simp
qed

theorem admitted_bindings_witness:
  "set (bm_keys (rp_nodes (ad_runtime push_admitted))) =
      {es_name spec | n spec. n \<in> set (all_nodes (cg_root (ad_graph push_admitted))) \<and> executable_spec_of n = Some spec}"
  using admitted_bindings[OF push_admission] by blast

text \<open>C28. A trusted delivery has the run to itself: when a reduction of an admitted run dispatches a
  Git or comment delivery, it dispatches nothing else with it, whatever parallel branches and map items
  the graph has. The snapshot satisfies the run invariant, as every snapshot of a reachable ledger does,
  and its positions are below their limit.\<close>

theorem admitted_delivery_alone:
  assumes "admit_with_context host policy submission = Inr admitted"
    and "reduce_run jl admitted snap = Inr red" and "run_ok n snap"
    and "n + seed_offset (sn_execution_seed snap) < HistoryPosition_MAX"
    and "d \<in> set (dispatches (rd_decisions red))" and "is_trusted_delivery_worker (dp_worker d)"
  shows "dispatches (rd_decisions red) = [d]"
proof -
  from assms(1) obtain root decls where root: "cg_root (ad_graph admitted) = root" "decls = executable_declarations root"
    and val: "validate_executable_bindings host policy decls (su_runtime submission) = Inr ()"
    and con: "validate_delivery_concurrency root = Inr ()" by (rule admit_cases)
  have "delivery_verifiers root" using validated_deliveries[OF val[unfolded root(2)]] .
  moreover obtain w where w: "possible_writers root = Inr w"
    using con by (auto simp: validate_delivery_concurrency_def elim!: bind_resE)
  moreover have "exclusive root [] (dispatches (rd_decisions red))"
    using delivery.reduce_run_spread[OF assms(2-4)] by (simp add: root(1))
  ultimately have "within_writers w (dispatches (rd_decisions red))" by (simp add: exclusive_def)
  then have "length (dispatches (rd_decisions red)) = 1"
    using assms(5,6) by (auto simp: within_writers_def delivers_def)
  then show ?thesis using assms(5) by (cases "dispatches (rd_decisions red)") auto
qed

definition push_started :: reduction where
  "push_started =
     \<lparr>rd_boundary = Some \<lparr>eb_node = ''publish'', eb_map_indices = [], eb_loop_iterations = [], eb_attempt = 1\<rparr>,
      rd_decisions = [Dispatch 1 1 (StructuralOccurrence ''publish'' []) 1 0 GIT_DELIVERY_PUSH_WORKER_REF VNull],
      rd_terminal = None\<rparr>"

definition push_snap :: run_snapshot where
  "push_snap = race_snap Running 1 []"

lemma push_start: "reduce_run (\<lambda>_. 1) push_admitted push_snap = Inr push_started"
proof -
  have "durable_history push_snap = Inr []" by (simp add: durable_history_def push_snap_def race_snap_def Let_def)
  moreover have "next_node_instance [] = Inr 1" "next_execution [] = Inr 1"
    by (simp_all add: next_node_instance_def next_execution_def next_identity_def iter_max_def FIRST_IDENTITY_def checked_add_def ok_or_def u64_max_def)
  moreover have "reduce (\<lambda>_. 1) push_root NativeV2 (demo_input []) = Inr push_started"
    by (simp add: exec_simps push_root_def demo_input_def push_started_def)
  ultimately show ?thesis by (simp add: reduce_run_def push_admitted_def demo_input_def map_err_def)
qed


lemma push_snap_ok: "run_ok 1 push_snap"
  by (simp add: push_snap_def race_snap_def run_ok_def nodes_ok_def seed_ok_def phase_ok_def evidence_ok_def bm_wf_def context_bounded_def)

theorem admitted_delivery_alone_witness:
  "dispatches (rd_decisions push_started) =
     [Dispatch 1 1 (StructuralOccurrence ''publish'' []) 1 0 GIT_DELIVERY_PUSH_WORKER_REF VNull]"
proof -
  have "1 + seed_offset (sn_execution_seed push_snap) < HistoryPosition_MAX"
    by (simp add: push_snap_def race_snap_def seed_offset_def HistoryPosition_MAX_def i64_max_def)
  moreover have "is_trusted_delivery_worker GIT_DELIVERY_PUSH_WORKER_REF" by code_simp
  ultimately show ?thesis
    using admitted_delivery_alone[OF push_admission push_start push_snap_ok,
        of "Dispatch 1 1 (StructuralOccurrence ''publish'' []) 1 0 GIT_DELIVERY_PUSH_WORKER_REF VNull"]
    by (simp add: push_started_def dispatches_def)
qed

section \<open>The end of a delivered run\<close>

definition push_result :: delivery_result where
  "push_result = \<lparr>dr_mode = ModePush, dr_outcome = ''pushed'',
     dr_review = \<lparr>rv_review_id = [], rv_repository = ''acme/app'', rv_target_branch = ''main'',
       rv_head_branch = ''feature'', rv_head_revision = replicate 40 (CHR ''b'')\<rparr>,
     dr_merge_revision = None, dr_links = None\<rparr>"

definition push_verdict :: worker_outcome where
  "push_verdict = Verifier (delivery_result_value push_result) [(''delivery'', ''pushed'')]
     (VObject [(''message'', VString ''done'')]) []"

definition push_at ::
    "run_phase \<Rightarrow> u64 \<Rightarrow> (execution_id, node_snapshot) btree_map \<Rightarrow> primary_graph_completion option
       \<Rightarrow> terminal_result option \<Rightarrow> run_snapshot" where
  "push_at phase n nodes primary result =
     (race_snap phase n nodes)\<lparr>sn_title := ''push'', sn_source := Some push_source, sn_primary_graph := primary,
        sn_terminal := result\<rparr>"

definition push_stored :: "run_snapshot \<Rightarrow> stored_run" where
  "push_stored snap = \<lparr>sr_submission_key = ''k'', sr_submission_digest = ''d'', sr_admitted = push_admitted,
                       sr_snapshot = snap\<rparr>"

definition push_sup :: "run_snapshot \<Rightarrow> run_event list \<Rightarrow> supervisor" where
  "push_sup snap evs = (race_sup snap evs [])\<lparr>sp_ledger := \<lparr>fs_runs = [(''r'', \<lparr>fr_stored = push_stored snap,
     fr_events = race_log 0 evs\<rparr>)], fs_submissions = [(''k'', ''r'')]\<rparr>\<rparr>"

definition push_events :: "run_event list" where
  "push_events = [RunStarted, NodeStarted (race_ref ''publish'' 1) (StructuralOccurrence ''publish'' []) 1 VNull,
     NodeCompleted \<lparr>nc_reference = race_ref ''publish'' 1, nc_outcome = push_verdict\<rparr>,
     PrimaryGraphCompleted (Succeeded VNull) False (Some 1)]"

definition push_primary :: primary_graph_completion where
  "push_primary = \<lparr>pg_result = Succeeded VNull, pg_auxiliary_pending = False, pg_delivery_execution = Some 1\<rparr>"

abbreviation push_delivered :: "(execution_id, node_snapshot) btree_map" where
  "push_delivered \<equiv> [(1, race_node ''publish'' 1 (NodeSettled (cursor_for 3) push_verdict))]"

definition push_latched :: run_snapshot where
  "push_latched = push_at Running 4 push_delivered (Some push_primary) None"

definition push_published :: run_snapshot where
  "push_published = push_at Finished 5 push_delivered (Some push_primary) (Some (Succeeded VNull))"

definition push_context :: finish_context where
  "push_context = \<lparr>fc_policy = DeliveryRequired, fc_parse_url = (\<lambda>_. None), fc_comments = push_comments,
     fc_postmortem = Some (\<lambda>_ _ _. Inl PostmortemPreparation), fc_checkpoints = None, fc_cleanup = Some (\<lambda>_. Inr ())\<rparr>"

lemma push_closes: "close_runtime push_context old r = Inr ()"
  by (simp add: close_runtime_def finish_failed_checkpoints_def cleanup_runtime_def push_context_def map_err_def Let_def)

lemma push_work: "fc_postmortem push_context = Some (\<lambda>_ _ _. Inl PostmortemPreparation)"
  by (simp add: push_context_def)

lemma push_created: "snapshot_admitted ''r'' push_admitted = push_at Admitted 0 [] None None"
  by (simp add: snapshot_admitted_def snapshot_empty_def initial_cursor_for push_admitted_def push_at_def race_snap_def
      push_runtime_def)

lemma push_append:
  assumes "try_foldl (append_event demo_codec) (snap, length old, []) evs = Inr (snap', m, race_log (length old) evs)"
    and "evs \<noteq> []" and "sn_cursor snap = cursor_for (length old)" and "length old \<le> u64_max"
  shows "append_events race_host evs (push_sup snap old) = (push_sup snap' (old @ evs), Inr snap')"
  using assms
  by (simp add: push_sup_def push_stored_def race_sup_def race_host_def append_events_def ledger_append_def append_locked_def
      put_run_def ok_or_def race_log_append Let_def)

lemmas push_apply = append_event_def checked_add_def ok_or_def u64_max_def prepare_event_def apply_event_def
  apply_event_kind_def push_at_def race_snap_def race_node_def race_ref_def

lemma push_verdict_ok: "outcome_validate push_verdict = Inr ()" "\<not> outcome_has_artifacts push_verdict"
  by (simp_all add: push_verdict_def outcome_validate_def outcome_has_artifacts_def)

lemma push_apply_started:
  "append_event demo_codec (push_at Admitted 0 [] None None, 0, acc) RunStarted
     = Inr (push_at Running 1 [] None None, 1, acc @ [\<lparr>se_cursor = cursor_for 1, se_event = RunStarted\<rparr>])"
  by (simp add: push_apply apply_run_started_def)

lemma push_apply_dispatched:
  "append_event demo_codec (push_at Running 1 [] None None, 1, acc) (push_events ! 1)
     = Inr (push_at Running 2 [(1, race_node ''publish'' 1 NodeActive)] None None, 2,
         acc @ [\<lparr>se_cursor = cursor_for 2, se_event = push_events ! 1\<rparr>])"
  by (simp add: push_events_def push_apply apply_node_started_def require_run_def put_node_def require_new_dispatch_def
      require_running_def numeral_2_eq_2)

lemma push_apply_settled:
  "append_event demo_codec (push_at Running 2 [(1, race_node ''publish'' 1 NodeActive)] None None, 2, acc) (push_events ! 2)
     = Inr (push_at Running 3 push_delivered None None, 3, acc @ [\<lparr>se_cursor = cursor_for 3, se_event = push_events ! 2\<rparr>])"
  by (simp add: push_events_def push_apply apply_node_completed_def require_run_def active_node_def node_is_active_def
      push_verdict_ok put_node_def)

lemma push_apply_latched:
  "append_event demo_codec (push_at Running 3 push_delivered None None, 3, acc) (push_events ! 3)
     = Inr (push_latched, 4, acc @ [\<lparr>se_cursor = cursor_for 4, se_event = push_events ! 3\<rparr>])"
  by (simp add: push_events_def push_apply apply_primary_graph_completed_def active_executions_def node_is_active_def
      push_latched_def push_primary_def prepare_result_def execution_output_def push_verdict_def)

lemma push_apply_published:
  "append_event demo_codec (push_latched, 4, acc) (TerminalEvent (Succeeded VNull))
     = Inr (push_published, 5, acc @ [\<lparr>se_cursor = cursor_for 5, se_event = TerminalEvent (Succeeded VNull)\<rparr>])"
  by (simp add: push_apply apply_terminal_def active_executions_def node_is_active_def push_latched_def push_published_def
      push_primary_def prepare_result_def)

lemma push_latching: "append_events race_host push_events (push_sup (push_at Admitted 0 [] None None) [])
    = (push_sup push_latched push_events, Inr push_latched)"
proof -
  have evs: "[RunStarted, push_events ! 1, push_events ! 2, push_events ! 3] = push_events" by (simp add: push_events_def)
  have "try_foldl (append_event demo_codec) (push_at Admitted 0 [] None None, 0, [])
        [RunStarted, push_events ! 1, push_events ! 2, push_events ! 3]
      = Inr (push_latched, 4, race_log 0 [RunStarted, push_events ! 1, push_events ! 2, push_events ! 3])"
    using push_apply_dispatched push_apply_settled push_apply_latched
    by (simp add: push_apply_started eval_nat_numeral)
  then show ?thesis
    using push_append[of "push_at Admitted 0 [] None None" "[]" push_events push_latched 4] unfolding evs
    by (simp add: push_at_def race_snap_def push_events_def)
qed

lemma push_publishing: "append_events race_host [TerminalEvent (Succeeded VNull)] (push_sup push_latched push_events)
    = (push_sup push_published (push_events @ [TerminalEvent (Succeeded VNull)]), Inr push_published)"
proof -
  have n: "length push_events = 4" "sn_cursor push_latched = cursor_for 4"
    by (simp_all add: push_events_def push_latched_def push_at_def race_snap_def)
  show ?thesis using push_apply_published
    by (intro push_append[of _ _ _ _ 5]) (simp_all add: n u64_max_def)
qed

lemma push_reachable:
  assumes "append_events race_host evs (push_sup (push_at Admitted 0 [] None None) []) = (push_sup snap evs, Inr snap)"
  shows "drive_start race_host (push_sup snap evs)"
proof -
  let ?s0 = "push_sup (push_at Admitted 0 [] None None) []"
  have "create_or_get demo_codec FakeRunLedger_new
      \<lparr>cr_run_id = ''r'', cr_submission_key = ''k'', cr_submission_digest = ''d'', cr_admitted = push_admitted\<rparr>
      = Inr (Created (push_stored (push_at Admitted 0 [] None None)), sp_ledger ?s0)"
    by (simp add: create_or_get_def validate_create_def bounded_json_def FakeRunLedger_new_def push_sup_def
        push_stored_def MAX_ADMITTED_RUN_BYTES_def Let_def demo_codec_def push_created)
  then have "ledger_reachable demo_codec (sp_ledger ?s0)" by (rule reach_step[OF reach_new step_create])
  moreover obtain result where "ledger_append demo_codec (sp_ledger ?s0) ''r'' evs = Inr (result, sp_ledger (push_sup snap evs))"
    using assms by (auto simp: append_events_def race_host_def push_sup_def race_sup_def split: sum.splits prod.splits)
  ultimately have "ledger_reachable demo_codec (sp_ledger (push_sup snap evs))" by (metis reach_step step_append)
  then show ?thesis by (simp add: drive_start_def race_host_def push_sup_def race_sup_def)
qed

lemma push_drive_start: "drive_start race_host (push_sup push_latched push_events)"
  by (rule push_reachable[OF push_latching])

lemma push_resumed:
  "initialize race_host (push_sup push_latched push_events)
     = (push_sup push_latched push_events, Inr (Finishing (Succeeded VNull), run_program_of push_admitted))"
  "load (push_sup push_latched push_events) = (push_sup push_latched push_events, Inr (push_stored push_latched))"
  by (simp_all add: initialize_def bind_sup_def load_def ledger_get_def push_sup_def race_sup_def ok_or_def push_stored_def
      initialized_phase_def push_latched_def push_at_def race_snap_def push_primary_def)

definition push_execution :: durable_execution where
  "push_execution = demo_execution 2 1 ''publish'' (ExecSettled 3 push_verdict)"

lemma push_history: "durable_history (push_at phase n push_delivered primary result) = Inr [push_execution]"
proof -
  have at: "history_position_of (cursor_for 2) = Inr 2" "history_position_of (cursor_for 3) = Inr 3"
    by (intro history_position_of_cursor; simp add: HistoryPosition_MAX_def i64_max_def)+
  have off: "offset_position 2 0 = Inr 2" "offset_position 3 0 = Inr 3"
    using offset_position_ok[of 2 0] offset_position_ok[of 3 0] by (simp_all add: HistoryPosition_MAX_def i64_max_def)
  from at off show ?thesis
    by (simp add: durable_history_def push_at_def race_snap_def seed_offset_def race_node_def race_ref_def
        offset_execution_def node_durable_execution_def durable_node_state_def offset_state_def demo_execution_def
        push_execution_def numeral_2_eq_2)
qed

lemma push_receipt:
  "receipt_matches_admission push_context push_admitted (delivery_result_value push_result)"
  "requires_delivery_execution push_context push_admitted"
  by code_simp+

text \<open>C29. Delivery evidence is decided exactly: in a history whose executions are distinct and settle no
  earlier than they are dispatched, an execution is the confirmed delivery exactly when it is a settled
  run of the delivery node, every other run of a writing node ended before it was dispatched, and its
  receipt matches what was admitted.\<close>

theorem confirmed_delivery_exact:
  assumes "durable_history snapshot = Inr history" and "distinct (map de_execution history)"
    and "\<forall>e \<in> set history. \<forall>p out. de_state e = ExecSettled p out \<longrightarrow> de_dispatch_position e \<le> p"
  shows "confirmed_delivery_execution fc admitted snapshot = Some x \<longleftrightarrow>
    (\<exists>w document p signals diagnostic artifacts. w \<in> set history \<and> de_execution w = x
       \<and> delivery_node admitted = Some (so_node (de_occurrence w))
       \<and> so_node (de_occurrence w) \<in> set (writer_nodes admitted)
       \<and> de_state w = ExecSettled p (Verifier document signals diagnostic artifacts)
       \<and> (\<forall>e \<in> set history. so_node (de_occurrence e) \<in> set (writer_nodes admitted) \<longrightarrow>
            de_execution e \<noteq> x \<longrightarrow> ended_before e (de_dispatch_position w))
       \<and> receipt_matches_admission fc admitted document)"
    (is "_ \<longleftrightarrow> ?rhs")
proof -
  have rhs: "?rhs \<longleftrightarrow> (\<exists>w document. delivery_evidence fc admitted history w document \<and> de_execution w = x)"
    unfolding delivery_evidence_def by blast
  show ?thesis unfolding rhs
  proof
    assume "confirmed_delivery_execution fc admitted snapshot = Some x"
    from confirmed_evidence[OF this] obtain H w document where "durable_history snapshot = Inr H"
      "delivery_evidence fc admitted H w document" "de_execution w = x" .
    with assms(1) show "\<exists>w document. delivery_evidence fc admitted history w document \<and> de_execution w = x" by auto
  next
    assume "\<exists>w document. delivery_evidence fc admitted history w document \<and> de_execution w = x"
    then show "confirmed_delivery_execution fc admitted snapshot = Some x"
      using evidence_confirmed[OF assms(1) _ assms(2)] assms(3) by blast
  qed
qed

theorem confirmed_delivery_exact_witness: "confirmed_delivery_execution push_context push_admitted push_latched = Some 1"
proof -
  have "durable_history push_latched = Inr [push_execution]" unfolding push_latched_def by (rule push_history)
  moreover have "delivery_node push_admitted = Some ''publish''" "writer_nodes push_admitted = [''publish'']" by code_simp+
  ultimately show ?thesis
    using confirmed_delivery_exact[of push_latched "[push_execution]" push_context push_admitted 1] push_receipt(1)
    by (simp add: push_execution_def demo_execution_def push_verdict_def)
qed

text \<open>C30. A decided run is published: when a deciding turn finds the graph terminal, the log has room and
  the result fits its event, finishing the run succeeds. The ledger then holds the terminal result; it
  has the verdict of the graph, except that a success without the delivery the run requires is published
  as the failure \<^verbatim>\<open>delivery_unconfirmed\<close>.\<close>

theorem decided_run_published:
  assumes "driven ho s0 program s (Deciding old)" and "drive_start ho s0"
    and "advance ho program old s = (s', Inr (Finishing terminal))" and "bounded_result terminal"
    and "ledger_log (sp_ledger s) (sp_run_id s) = Some log" and "length log + 5 \<le> u64_max"
    and "encodes_small (ho_codec ho)" and "encodes_result (ho_codec ho) terminal"
    and "\<forall>work r. fc_postmortem fc = Some work \<longrightarrow> work (pm_admitted program) old r \<noteq> Inl PostmortemCleanupUnconfirmed"
    and "\<forall>r. close_runtime fc old r = Inr ()"
  shows "\<exists>s2 t final. finish_reduction ho fc (pm_admitted program) old terminal s' = (s2, Inr t)
    \<and> ledger_current (sp_ledger s2) (sp_run_id s2) = Some final \<and> sn_terminal final = Some t
    \<and> same_verdict t
        (if (\<exists>v. terminal = Succeeded v) \<and> requires_delivery_execution fc (pm_admitted program)
            \<and> confirmed_delivery_execution fc (pm_admitted program) old = None
         then Failed ''delivery_unconfirmed'' None else terminal)"
proof -
  let ?ad = "pm_admitted program"
  have "drive_ok ho s (Deciding old)" by (rule driven_ok[OF assms(1,2)])
  then obtain snap n where o: "owns ho s snap" "same_core old snap" "run_ok n old" by auto
  from assms(3) have adv: "s' = s" "is_quiescent s old"
    by (cases rule: advance_cases; auto simp: bind_sup_def lift_res_def split: prod.splits sum.splits)+
  note cur = ownsD(1)[OF o(1)] and op = ownsD(2)[OF o(1)]
  have none: "active_refs snap = {}" using ownsD(3)[OF o(1)] adv(2) by (simp add: is_quiescent_def tracks_def)
  from finish_reduction_succeeds[OF cur op none o(2,3) assms(5,6,4,7,8), of fc ?ad] assms(9,10) obtain s2 t where
    fin: "finish_reduction ho fc ?ad old terminal s = (s2, Inr t)" by blast
  have "gated fc ?ad snap" "sn_terminal snap = None" "sn_primary_graph old = None"
    using op o(2) by (simp_all add: gated_def open_run_def same_core_def)
  with fin cur o(2,3) obtain final where f: "current ho s2 final" "sn_terminal final = Some t"
    "same_verdict t (gate_verdict fc ?ad old terminal)" by (rule finish_reduction_verdict)
  moreover have "ledger_current (sp_ledger s2) (sp_run_id s2) = Some final" using f(1) by (rule log_current)
  ultimately show ?thesis using fin adv(1) unfolding gate_verdict_def by blast
qed

definition push_settled :: run_snapshot where
  "push_settled = push_at Running 3 push_delivered None None"

lemma push_settled_history: "durable_history push_settled = Inr [push_execution]"
  unfolding push_settled_def by (rule push_history)

lemma push_decides: "reduce (\<lambda>_. 1) push_root NativeV2 (demo_input [push_execution]) =
    Inr \<lparr>rd_boundary = None, rd_decisions = [ContinueDecision ''publish'', TerminalDecision (Succeeded VNull)],
         rd_terminal = Some (Succeeded VNull)\<rparr>"
  by (simp add: exec_simps push_root_def demo_input_def push_execution_def demo_execution_def push_verdict_def
      HistoryPosition_MAX_def i64_max_def apply_writes_def clear_scoped_runtime_facts_def merge_scoped_runtime_facts_def
      bm_extend_def bm_retain_def promoted_write_paths_def promotion_candidates_def promoted_value_def bs_extend_def
      bs_of_list_def)

lemma push_confirmed: "confirmed_delivery_execution push_context push_admitted push_settled = Some 1"
proof -
  have "delivery_node push_admitted = Some ''publish''" "writer_nodes push_admitted = [''publish'']" by code_simp+
  then show ?thesis using push_receipt(1)
    by (simp add: confirmed_delivery_execution_def push_settled_history push_execution_def demo_execution_def
        last_settled_writer_def max_by_key_def map_filter_simps settled_position_def push_verdict_def writers_settled_def)
qed

abbreviation push_done :: supervisor where "push_done \<equiv> push_sup push_settled (take 3 push_events)"

lemma push_settling: "append_events race_host (take 3 push_events) (push_sup (push_at Admitted 0 [] None None) [])
    = (push_done, Inr push_settled)"
proof -
  have evs: "[RunStarted, push_events ! 1, push_events ! 2] = take 3 push_events" by (simp add: push_events_def)
  have "try_foldl (append_event demo_codec) (push_at Admitted 0 [] None None, 0, []) [RunStarted, push_events ! 1, push_events ! 2]
      = Inr (push_settled, 3, race_log 0 [RunStarted, push_events ! 1, push_events ! 2])"
    using push_apply_dispatched push_apply_settled
    by (simp add: push_apply_started push_settled_def eval_nat_numeral)
  then show ?thesis
    using push_append[of "push_at Admitted 0 [] None None" "[]" "take 3 push_events" push_settled 3] unfolding evs
    by (simp add: push_at_def race_snap_def push_events_def)
qed

lemma push_deciding:
  "driven race_host push_done (run_program_of push_admitted) push_done (Deciding push_settled)"
proof -
  have "initialize race_host push_done = (push_done, Inr (Turn, run_program_of push_admitted))"
    by (simp add: initialize_def bind_sup_def load_def ledger_get_def push_sup_def race_sup_def ok_or_def push_stored_def
      initialized_phase_def push_settled_def push_at_def race_snap_def lift_res_def active_executions_def node_is_active_def
      race_node_def)
  then have "driven race_host push_done (run_program_of push_admitted) push_done Turn" by (rule driven_start)
  moreover have "turn push_done = (push_done, Inr (Deciding push_settled))"
    by (simp add: turn_def sup_snapshot_def load_def ledger_get_def ok_or_def bind_sup_def lift_res_def push_sup_def
        race_sup_def push_stored_def push_settled_def push_at_def race_snap_def)
  ultimately show ?thesis by (rule driven_step[OF _ turn_ok])
qed

lemma push_advance:
  "advance race_host (run_program_of push_admitted) push_settled push_done = (push_done, Inr (Finishing (Succeeded VNull)))"
proof -
  have "next_node_instance [push_execution] = Inr 2" "next_execution [push_execution] = Inr 2"
    by (simp_all add: next_node_instance_def next_execution_def next_identity_def iter_max_def push_execution_def
        demo_execution_def checked_add_def ok_or_def u64_max_def)
  then have "reduce_run (ho_json_len race_host) push_admitted push_settled =
      Inr \<lparr>rd_boundary = None, rd_decisions = [ContinueDecision ''publish'', TerminalDecision (Succeeded VNull)],
         rd_terminal = Some (Succeeded VNull)\<rparr>"
    using push_decides push_settled_history
    by (simp add: reduce_run_def push_admitted_def demo_input_def map_err_def race_host_def numeral_2_eq_2)
  moreover have "is_quiescent push_done push_settled"
    by (simp add: is_quiescent_def push_sup_def race_sup_def push_settled_def push_at_def race_snap_def
        active_executions_def node_is_active_def race_node_def)
  ultimately show ?thesis
    by (simp add: advance_def bind_sup_def lift_res_def run_program_of_def Let_def void_decisions_def map_filter_simps)
qed

theorem decided_run_published_witness:
  "\<exists>s2 t. finish_reduction race_host push_context push_admitted push_settled (Succeeded VNull) push_done = (s2, Inr t)
     \<and> same_verdict t (Succeeded VNull)"
proof -
  have "ledger_log (sp_ledger push_done) (sp_run_id push_done) = Some (race_log 0 (take 3 push_events))"
    by (simp add: ledger_log_def push_sup_def race_sup_def)
  moreover have "length (race_log 0 (take 3 push_events)) + 5 \<le> u64_max" by (simp add: push_events_def u64_max_def)
  moreover have "bounded_result (Succeeded VNull)" "encodes_result (ho_codec race_host) (Succeeded VNull)"
    by (simp_all add: bounded_result_def encodes_result_def race_host_def)
  moreover have "pm_admitted (run_program_of push_admitted) = push_admitted" by (simp add: run_program_of_def Let_def)
  ultimately show ?thesis
    using decided_run_published[OF push_deciding push_reachable[OF push_settling] push_advance _ _ _ race_encodes, of _ push_context]
    by (auto simp: push_confirmed push_closes push_work)
qed

text \<open>C27. The delivery gate: over any number of sessions of its supervisor, each started where the one before
  stopped (while driving, between the latched result and its publication, or after an error), whatever
  stops a client asks for, whether the runtime is lost and whatever the postmortem observes, the published
  result of a run has the verdict of the completed primary graph; and a success of a run that requires a
  delivery is published only with the receipt of the delivery in the ledger, and the receipt matches what
  was admitted. The first session found the graph of the run incomplete, and the delivery policy and the
  adapters are the same in every session.\<close>

theorem delivery_gate:
  assumes "sessions ho fc s0" and "finishing ho fc s0 program s (Published t)"
  shows "\<exists>snap p. ledger_current (sp_ledger s) (sp_run_id s) = Some snap
    \<and> sn_terminal snap = Some t \<and> sn_primary_graph snap = Some p \<and> same_verdict t (pg_result p)
    \<and> (\<forall>v. t = Succeeded v \<longrightarrow> requires_delivery_execution fc (pm_admitted program) \<longrightarrow>
         (\<exists>document. delivery_receipt snap = Some document
            \<and> receipt_matches_admission fc (pm_admitted program) document))"
proof -
  from session_finished[OF assms] obtain snap p where c: "current ho s snap" "gated fc (pm_admitted program) snap"
    "sn_terminal snap = Some t" "sn_primary_graph snap = Some p" "same_verdict t (pg_result p)" by auto
  from c(1) have "ledger_current (sp_ledger s) (sp_run_id s) = Some snap" by (rule log_current)
  moreover have "pg_result p = Succeeded v" if "t = Succeeded v" for v
    using c(5) that by (simp add: same_verdict_Succeeded)
  then have "\<exists>document. delivery_receipt snap = Some document \<and> receipt_matches_admission fc (pm_admitted program) document"
    if "t = Succeeded v" "requires_delivery_execution fc (pm_admitted program)" for v
    using c(2,4) that unfolding gated_def by blast
  ultimately show ?thesis using c(3-5) by (intro exI[of _ snap] exI[of _ p]) simp
qed

text \<open>The first session decides the run, latches its success and stops; the second one finds it latched.\<close>

lemma push_decided:
  "finishing race_host push_context push_done (run_program_of push_admitted)
     (push_sup push_latched push_events) (Reviewing push_settled (Succeeded VNull))"
proof -
  have adm: "pm_admitted (run_program_of push_admitted) = push_admitted" by (simp add: run_program_of_def Let_def)
  have off: "enabled_postmortem push_context push_admitted push_done = None"
    by (simp add: enabled_postmortem_def push_admitted_def push_runtime_def active_memory_enabled_def)
  have evs: "take 3 push_events @ [push_events ! 3] = push_events" "push_events ! 3 = PrimaryGraphCompleted (Succeeded VNull) False (Some 1)"
    by (simp_all add: push_events_def)
  have n: "length push_events = 4" "sn_cursor push_settled = cursor_for 3"
    by (simp_all add: push_events_def push_settled_def push_at_def race_snap_def)
  have "append_events race_host [push_events ! 3] push_done = (push_sup push_latched (take 3 push_events @ [push_events ! 3]), Inr push_latched)"
    using push_apply_latched[folded push_settled_def]
    by (intro push_append[of _ _ _ _ 4]) (simp_all add: n u64_max_def)
  then have ap: "append_events race_host [PrimaryGraphCompleted (Succeeded VNull) False (Some 1)] push_done
      = (push_sup push_latched push_events, Inr push_latched)" unfolding evs(1) unfolding evs(2) .
  have "sn_primary_graph push_settled = None" "sn_primary_graph push_latched = Some push_primary"
    by (simp_all add: push_settled_def push_latched_def push_at_def)
  then have "latch_result race_host push_context push_admitted push_settled (Succeeded VNull) push_done
      = (push_sup push_latched push_events, Inr (Succeeded VNull, True))"
    using ap by (simp add: latch_result_def gate_exact push_confirmed off bind_sup_def lift_res_def push_primary_def)
  from latch_ok[OF this] show ?thesis
    using finishing_step[OF finishing_decided[OF push_deciding push_advance]] by (simp add: adm)
qed

lemma push_sessions: "sessions race_host push_context (push_sup push_latched push_events)"
proof -
  have "sessions race_host push_context push_done"
    by (rule session_first[OF push_reachable[OF push_settling]])
      (auto simp: run_of_def push_sup_def race_sup_def push_stored_def push_settled_def push_at_def race_snap_def)
  from session_finishing[OF this push_decided push_drive_start] show ?thesis by simp
qed

theorem delivery_gate_witness:
  "\<exists>p document. sn_primary_graph push_published = Some p \<and> same_verdict (Succeeded VNull) (pg_result p)
     \<and> delivery_receipt push_published = Some document \<and> receipt_matches_admission push_context push_admitted document"
proof -
  let ?s = "push_sup push_latched push_events" and ?p = "run_program_of push_admitted"
  let ?t = "push_sup push_published (push_events @ [TerminalEvent (Succeeded VNull)])"
  have adm: "pm_admitted ?p = push_admitted" by (simp add: run_program_of_def Let_def)
  have latch: "latch_result race_host push_context push_admitted push_latched (Succeeded VNull) ?s
      = (?s, Inr (Succeeded VNull, False))"
    by (simp add: latch_result_def push_latched_def push_at_def push_primary_def bind_sup_def lift_res_def)
  have result: "sn_terminal push_published = Some (Succeeded VNull)" by (simp add: push_published_def push_at_def)
  then have publish: "append_terminal race_host (Succeeded VNull) ?s = (?t, Inr (Succeeded VNull))"
    by (simp add: append_terminal_def bind_sup_def lift_res_def terminal_events_def map_err_def push_publishing ok_or_def)
  have "finishing race_host push_context ?s ?p ?s (Latching push_latched (Succeeded VNull))"
    using finishing_resumed[OF push_resumed, of push_context] by (simp add: push_stored_def)
  then have "finishing race_host push_context ?s ?p ?s (Closing push_latched (Succeeded VNull))"
    using finishing_step latch_ok[OF latch] by (fastforce simp: adm)
  then have "finishing race_host push_context ?s ?p ?s (Publishing (Succeeded VNull))"
    by (rule finishing_step) (rule close_ok, simp add: push_closes)
  then have fin: "finishing race_host push_context ?s ?p ?t (Published (Succeeded VNull))"
    by (rule finishing_step) (rule publish_ok[OF publish])
  have cur: "ledger_current (sp_ledger ?t) (sp_run_id ?t) = Some push_published"
    by (simp add: ledger_current_def push_sup_def push_stored_def race_sup_def)
  show ?thesis using delivery_gate[OF push_sessions fin] cur push_receipt(2) by (auto simp: adm)
qed

text \<open>C32. Admission changes nothing but loop limits: the admitted run has the submitted title, runtime plan,
  environment, input and source, and its graph has the submitted profile, declared input and policy and
  differs from the submitted one only in the iteration limits of loops, each of which is the positive
  integer that the input has at the path the loop names and otherwise the declared limit. The input
  conforms to the graph's input type, and the graph has at most one trusted delivery, and exactly one
  under the required policy.\<close>

theorem admission_faithful:
  assumes "admit_with_context host policy submission = Inr admitted"
  shows "same_shape (su_initial_input submission) (gs_root (su_graph submission)) (cg_root (ad_graph admitted))
    \<and> cg_profile (ad_graph admitted) = gs_profile (su_graph submission)
    \<and> cg_initial_input (ad_graph admitted) = gs_initial_input (su_graph submission)
    \<and> cg_policy (ad_graph admitted) = gs_policy (su_graph submission)
    \<and> ad_title admitted = su_title submission \<and> ad_environment admitted = su_environment submission
    \<and> ad_runtime admitted = su_runtime submission \<and> ad_initial_input admitted = su_initial_input submission
    \<and> ad_source admitted = su_source submission
    \<and> conforms (gs_initial_input (su_graph submission)) (ad_initial_input admitted)
    \<and> (let found = length (filter (\<lambda>d. is_trusted_delivery_worker (xd_worker d))
                     (executable_declarations (cg_root (ad_graph admitted))))
       in found \<le> 1 \<and> (policy = DeliveryRequired \<longrightarrow> found = 1))"
proof -
  from assms obtain root reg where root: "bind_input_limits (su_initial_input submission) (gs_root (su_graph submission)) = Inr root"
    "cg_root (ad_graph admitted) = root"
    and same: "ad_runtime admitted = su_runtime submission" "ad_initial_input admitted = su_initial_input submission"
      "ad_source admitted = su_source submission"
      "ad_title admitted = su_title submission" "ad_environment admitted = su_environment submission"
    and val: "validate_executable_bindings host policy (executable_declarations root) (su_runtime submission) = Inr ()"
    and inp: "validate_graph_input (su_graph submission) (su_initial_input submission) = Inr ()"
    and ver: "verify_graph (ah_canonical host) ((su_graph submission)\<lparr>gs_root := root\<rparr>) (graph_bound_resolve reg)
      = Inr (ad_graph admitted)"
    by (rule admit_cases) blast
  from ver have graph: "cg_profile (ad_graph admitted) = gs_profile (su_graph submission)"
    "cg_initial_input (ad_graph admitted) = gs_initial_input (su_graph submission)"
    "cg_policy (ad_graph admitted) = gs_policy (su_graph submission)"
    by (rule verified_graph, simp)+
  have "conforms (gs_initial_input (su_graph submission)) (su_initial_input submission)"
    using inp by (auto simp: validate_graph_input_def map_err_def validate_value_def validate_value_at_iff split: if_splits sum.splits)
  moreover have "same_shape (su_initial_input submission) (gs_root (su_graph submission)) root"
    by (rule bind_input_limits_shape[OF root(1)])
  moreover note validated_bindings(4)[OF val]
  ultimately show ?thesis using same graph root(2)
    by (auto simp: validate_delivery_policy_def Let_def split: if_splits delivery_policy.splits)
qed

theorem admission_faithful_witness:
  "same_shape (VObject []) push_root (cg_root (ad_graph push_admitted))
   \<and> length (filter (\<lambda>d. is_trusted_delivery_worker (xd_worker d)) (executable_declarations push_root)) = 1"
proof -
  have "gs_root (su_graph push_submission) = push_root" "cg_root (ad_graph push_admitted) = push_root"
    "su_initial_input push_submission = VObject []"
    by (simp_all add: push_submission_def push_graph_def push_admitted_def)
  then show ?thesis using admission_faithful[OF push_admission] by (simp add: Let_def)
qed

text \<open>C33. Receipts are exact: the document that a worker reports for a delivery result is accepted as the
  success receipt of a mode and target exactly when the result has that mode and its success outcome,
  names that repository and branch, moved the head away from the base revision, has a merge revision
  where the mode asks for one, and its links agree.\<close>

theorem delivery_receipt_exact:
  assumes "delivery_outcome result detail = Inr (Verifier document signals diagnostic artifacts)"
  shows "is_matching_success_receipt parse_url document mode target \<longleftrightarrow>
    mode = dr_mode result \<and> dr_outcome result = success_outcome mode
    \<and> rv_repository (dr_review result) = dt_repository target
    \<and> rv_target_branch (dr_review result) = dt_target_branch target
    \<and> rv_head_revision (dr_review result) \<noteq> dt_base_revision target
    \<and> (includes_merge_revision mode \<longrightarrow> dr_merge_revision result \<noteq> None)
    \<and> links_ok parse_url (dr_links result)"
proof -
  from assms have "valid_delivery_result result" "document = delivery_result_value result"
    by (auto simp: delivery_outcome_def split: if_splits elim!: bind_resE)
  then show ?thesis using receipt_exact by simp
qed

theorem delivery_receipt_exact_witness:
  "is_matching_success_receipt (\<lambda>_. None) (delivery_result_value push_result) ModePush
     \<lparr>dt_repository = ''acme/app'', dt_target_branch = ''main'', dt_base_revision = replicate 40 (CHR ''a'')\<rparr>"
proof -
  have "delivery_outcome push_result ''done'' = Inr (Verifier (delivery_result_value push_result) [(''delivery'', ''pushed'')]
      (VObject [(''message'', VString ''done'')]) [])" by code_simp
  from delivery_receipt_exact[OF this] show ?thesis
    by (simp add: push_result_def success_outcome_def includes_merge_revision_def links_ok_def)
qed

end
