(* ===== verification/Verifier_Counting.thy ===== *)
theory Verifier_Counting
  imports Verifier_Control
begin

text \<open>
  The outcomes of the items of a map: the sequences of outcome indexes that the enumeration visits stand for
  the multisets of at most \<open>maximum\<close> outcomes, each once, and the checked product that bounds their number
  beforehand is the binomial coefficient.
\<close>

section \<open>The enumeration\<close>

lemma rposition_last:
  assumes "rposition P xs = Some p" and "p < q" and "q < length xs"
  shows "\<not> P (xs ! q)"
proof
  assume "P (xs ! q)"
  let ?is = "filter (\<lambda>i. P (xs ! i)) [0..<length xs]"
  have "sorted ?is" using sorted_filter[of "\<lambda>i. i" "[0..<length xs]"] by simp
  moreover have q: "q \<in> set ?is" using assms(3) \<open>P (xs ! q)\<close> by simp
  moreover have "p = last ?is" using assms(1) by (auto simp: rposition_def split: list.splits)
  ultimately have "q \<le> p" by (cases ?is rule: rev_cases) (auto simp: sorted_append)
  then show False using assms(2) by simp
qed

lemma rposition_None: "rposition P xs = None \<Longrightarrow> q < length xs \<Longrightarrow> \<not> P (xs ! q)"
  by (auto simp: rposition_def filter_empty_conv split: list.splits)

lemma less_list_conv:
  assumes "length xs = length ys"
  shows "xs < (ys :: nat list) \<longleftrightarrow> (\<exists>q < length xs. take q xs = take q ys \<and> xs ! q < ys ! q)"
  using assms by (auto simp: list_less_def lexord_take_index_conv)

text \<open>The nondecreasing sequences of \<open>n\<close> outcome indexes.\<close>

definition occurrence_space :: "nat \<Rightarrow> nat \<Rightarrow> nat list set" where
  "occurrence_space outcomes n = {xs. length xs = n \<and> sorted xs \<and> set xs \<subseteq> {..<outcomes}}"

lemma occurrence_space_nth: "zs \<in> occurrence_space outcomes n \<Longrightarrow> q < n \<Longrightarrow> zs ! q < outcomes"
  by (auto simp: occurrence_space_def subset_iff)

lemma next_None_greatest:
  assumes "next_occurrences outcomes xs = None" and "zs \<in> occurrence_space outcomes (length xs)"
  shows "zs \<le> xs"
proof -
  have "\<not> xs < zs"
  proof
    assume "xs < zs"
    then obtain q where q: "q < length xs" "xs ! q < zs ! q"
      using less_list_conv[of xs zs] assms(2) by (auto simp: occurrence_space_def)
    have "rposition (\<lambda>x. x + 1 < outcomes) xs = None" using assms(1) by (auto simp: next_occurrences_def split: option.splits)
    from rposition_None[OF this q(1)] q(2) have "\<not> zs ! q < outcomes" by simp
    then show False using occurrence_space_nth[OF assms(2) q(1)] by simp
  qed
  then show ?thesis by simp
qed

lemma next_Some_least:
  assumes "next_occurrences outcomes xs = Some ys" and "xs \<in> occurrence_space outcomes n"
  shows "ys \<in> occurrence_space outcomes n" "xs < ys" "zs \<in> occurrence_space outcomes n \<Longrightarrow> xs < zs \<Longrightarrow> ys \<le> zs"
proof -
  from assms(1) obtain p where p: "rposition (\<lambda>x. x + 1 < outcomes) xs = Some p"
    and ys: "ys = take p xs @ replicate (length xs - p) (xs ! p + 1)"
    by (auto simp: next_occurrences_def split: option.splits)
  note r = rposition_SomeD[OF p]
  have len: "length ys = length xs" "length xs = n" using r(1) ys assms(2) by (simp_all add: occurrence_space_def)
  have low: "take p ys = take p xs" and high: "\<And>i. p \<le> i \<Longrightarrow> i < length xs \<Longrightarrow> ys ! i = xs ! p + 1"
    using r(1) by (simp_all add: ys nth_append)
  have "x \<le> xs ! p" if "x \<in> set (take p xs)" for x
    using that assms(2) r(1) by (auto simp: occurrence_space_def in_set_conv_nth sorted_iff_nth_mono)
  then have "sorted ys" using assms(2) by (auto simp: ys occurrence_space_def sorted_append le_Suc_eq)
  moreover have "set ys \<subseteq> {..<outcomes}"
    using assms(2) r(2) set_take_subset[of p xs] by (auto simp: ys occurrence_space_def)
  ultimately show "ys \<in> occurrence_space outcomes n" using len by (simp add: occurrence_space_def)
  show "xs < ys" unfolding less_list_conv[OF len(1)[symmetric]] using low high[of p] r(1) by (auto intro!: exI[of _ p])
  show "ys \<le> zs" if zs: "zs \<in> occurrence_space outcomes n" and "xs < zs"
  proof -
    have lz: "length zs = length xs" "sorted zs" using zs len by (simp_all add: occurrence_space_def)
    from \<open>xs < zs\<close> obtain q where q: "q < length xs" "take q xs = take q zs" "xs ! q < zs ! q"
      using less_list_conv[of xs zs] lz by auto
    have "q \<le> p"
    proof (rule ccontr)
      assume "\<not> q \<le> p"
      with rposition_last[OF p, of q] q have "\<not> zs ! q < outcomes" by simp
      then show False using occurrence_space_nth[OF zs] q(1) len(2) by simp
    qed
    have "\<not> zs < ys"
    proof
      assume "zs < ys"
      then obtain r where r': "r < length xs" "take r zs = take r ys" "zs ! r < ys ! r"
        using less_list_conv[of zs ys] lz len by auto
      show False
      proof (cases "r < p")
        case True
        then have "ys ! r = xs ! r" using low by (metis nth_take)
        moreover have "r \<noteq> q" using q(3) r'(3) \<open>ys ! r = xs ! r\<close> by auto
        moreover have "zs ! r = xs ! r" if "r < q" using q(2) that by (metis nth_take)
        moreover have "zs ! q = xs ! q" if "q < r" using r'(2) low that True by (metis nth_take less_trans)
        ultimately show False using r'(3) q(3) by (cases r q rule: linorder_cases) auto
      next
        case False
        then have "xs ! p + 1 > zs ! r" using high[of r] r' by simp
        moreover have "zs ! p \<le> zs ! r" using lz r'(1) False by (simp add: sorted_iff_nth_mono)
        moreover have "xs ! p < zs ! p"
        proof (cases "q = p")
          case False
          then have "q < p" using \<open>q \<le> p\<close> by simp
          have "zs ! q = ys ! q" using r'(2) \<open>q < p\<close> \<open>\<not> r < p\<close> by (metis nth_take less_le_trans not_less)
          also have "ys ! q = xs ! q" using low \<open>q < p\<close> by (metis nth_take)
          finally show ?thesis using q(3) by simp
        qed (use q in simp)
        ultimately show False by simp
      qed
    qed
    then show ?thesis by simp
  qed
qed

lemma occurrences_from_exact:
  assumes "xs \<in> occurrence_space outcomes n"
  shows "set (occurrences_from outcomes xs) = {zs \<in> occurrence_space outcomes n. xs \<le> zs}
    \<and> distinct (occurrences_from outcomes xs)"
  using assms
proof (induction outcomes xs rule: occurrences_from.induct)
  case (1 outcomes xs)
  have n: "n = length xs" using 1(2) by (simp add: occurrence_space_def)
  show ?case
  proof (cases "next_occurrences outcomes xs")
    case None
    then show ?thesis using next_None_greatest[OF None] 1(2)
      by (auto simp: occurrences_from.simps[of outcomes xs] n dest: antisym)
  next
    case (Some ys)
    note least = next_Some_least[OF Some 1(2)]
    from 1(1)[OF Some least(1)] have "set (occurrences_from outcomes ys) = {zs \<in> occurrence_space outcomes n. ys \<le> zs}"
      "distinct (occurrences_from outcomes ys)" by auto
    moreover have "{zs \<in> occurrence_space outcomes n. xs \<le> zs} = insert xs {zs \<in> occurrence_space outcomes n. ys \<le> zs}"
      using least 1(2) by (auto simp: le_less)
    ultimately show ?thesis using least(2) by (auto simp: occurrences_from.simps[of outcomes xs] Some)
  qed
qed

lemma occurrences_from_zero:
  assumes "0 < outcomes"
  shows "set (occurrences_from outcomes (replicate n 0)) = occurrence_space outcomes n"
    "distinct (occurrences_from outcomes (replicate n 0))"
proof -
  have zero: "replicate n 0 \<in> occurrence_space outcomes n" using assms by (auto simp: occurrence_space_def)
  have "replicate n 0 \<le> zs" if "zs \<in> occurrence_space outcomes n" for zs
  proof -
    have "\<not> zs < replicate n 0" using that less_list_conv[of zs "replicate n 0"] by (auto simp: occurrence_space_def)
    then show ?thesis by simp
  qed
  with occurrences_from_exact[OF zero]
  show "set (occurrences_from outcomes (replicate n 0)) = occurrence_space outcomes n"
    "distinct (occurrences_from outcomes (replicate n 0))" by auto
qed

lemma sorted_mset_inj: "inj_on mset (occurrence_space outcomes n)"
  by (auto simp: inj_on_def occurrence_space_def) (metis properties_for_sort)

lemma mset_occurrence_space: "mset ` occurrence_space outcomes n = multisets_of_size {..<outcomes} n"
proof -
  have "M \<in> mset ` occurrence_space outcomes n" if "size M = n" "set_mset M \<subseteq> {..<outcomes}" for M
  proof -
    have "sorted_list_of_multiset M \<in> occurrence_space outcomes n"
      using that by (auto simp: occurrence_space_def simp flip: size_mset)
    moreover have "mset (sorted_list_of_multiset M) = M" by simp
    ultimately show ?thesis by (metis imageI)
  qed
  then show ?thesis by (auto simp: multisets_of_size_def occurrence_space_def)
qed

text \<open>Every multiset of at most \<open>maximum\<close> outcomes is visited, once.\<close>

lemma outcome_multisets_nonempty:
  "0 < outcomes \<Longrightarrow> outcome_multisets outcomes maximum =
     concat (map (\<lambda>n. occurrences_from outcomes (replicate n 0)) [0..<Suc maximum])"
proof -
  have "next_occurrences outcomes [] = None" by (simp add: next_occurrences_def rposition_def)
  then have "occurrences_from outcomes [] = [[]]" by (simp add: occurrences_from.simps[of outcomes "[]"])
  then show "0 < outcomes \<Longrightarrow> outcome_multisets outcomes maximum =
     concat (map (\<lambda>n. occurrences_from outcomes (replicate n 0)) [0..<Suc maximum])"
    by (simp add: outcome_multisets_def upt_conv_Cons del: upt_Suc)
qed

lemma outcome_multisets_exact:
  "set (map mset (outcome_multisets outcomes maximum)) = (\<Union>n \<le> maximum. multisets_of_size {..<outcomes} n)"
  "distinct (map mset (outcome_multisets outcomes maximum))"
proof -
  let ?f = "\<lambda>n. occurrences_from outcomes (replicate n 0)"
  have "set (map mset (outcome_multisets outcomes maximum)) = (\<Union>n \<le> maximum. multisets_of_size {..<outcomes} n)
      \<and> distinct (map mset (outcome_multisets outcomes maximum))"
  proof (cases "outcomes = 0")
    case True
    then have "(\<Union>n \<le> maximum. multisets_of_size {..<outcomes} n) = {{#}}" by (auto simp: multisets_of_size_def)
    then show ?thesis by (simp add: outcome_multisets_def True)
  next
    case False
    note from_zero = occurrences_from_zero[of outcomes]
    have sets: "set (map mset (?f n)) = multisets_of_size {..<outcomes} n" "distinct (map mset (?f n))" for n
      using from_zero[of n] False sorted_mset_inj[of outcomes n]
      by (simp_all add: mset_occurrence_space distinct_map)
    have unions: "set (concat (map g xs)) = (\<Union>x \<in> set xs. set (g x))" for g :: "nat \<Rightarrow> nat multiset list" and xs by simp
    have "distinct (concat (map (\<lambda>n. map mset (?f n)) [0..<k]))" for k
    proof (induction k)
      case (Suc k)
      have "multisets_of_size {..<outcomes} n \<inter> multisets_of_size {..<outcomes} k = {}" if "n < k" for n
        using that by (auto simp: multisets_of_size_def)
      moreover have "set (concat (map (\<lambda>n. map mset (?f n)) [0..<k])) = (\<Union>n < k. multisets_of_size {..<outcomes} n)"
        unfolding unions sets(1) by (simp add: atLeast0LessThan)
      ultimately have "set (concat (map (\<lambda>n. map mset (?f n)) [0..<k])) \<inter> set (map mset (?f k)) = {}"
        unfolding sets(1) by blast
      then show ?case using Suc.IH sets(2)[of k] by (simp only: upt_Suc_append[OF le0] map_append concat_append distinct_append
            list.map concat.simps append_Nil2)
    qed simp
    moreover have "set (concat (map (\<lambda>n. map mset (?f n)) [0..<Suc maximum])) = (\<Union>n \<le> maximum. multisets_of_size {..<outcomes} n)"
      unfolding unions sets(1) by (simp del: upt_Suc add: atLeast0LessThan lessThan_Suc_atMost)
    ultimately show ?thesis using False
      by (simp add: outcome_multisets_nonempty map_concat comp_def del: upt_Suc)
  qed
  then show "set (map mset (outcome_multisets outcomes maximum)) = (\<Union>n \<le> maximum. multisets_of_size {..<outcomes} n)"
    "distinct (map mset (outcome_multisets outcomes maximum))" by blast+
qed

lemma length_outcome_multisets: "length (outcome_multisets outcomes maximum) = (maximum + outcomes) choose outcomes"
proof -
  have "length (outcome_multisets outcomes maximum) = card (\<Union>n \<le> maximum. multisets_of_size {..<outcomes} n)"
    using distinct_card[OF outcome_multisets_exact(2)] outcome_multisets_exact(1) by (metis length_map)
  also have "\<dots> = (\<Sum>n \<le> maximum. (outcomes + n - 1) choose n)"
  proof (subst card_UN_disjoint)
    show "\<forall>i \<in> {..maximum}. \<forall>j \<in> {..maximum}. i \<noteq> j \<longrightarrow>
        multisets_of_size {..<outcomes} i \<inter> multisets_of_size {..<outcomes} j = {}"
      by (auto simp: multisets_of_size_def)
  qed (auto simp: card_multisets_of_size)
  also have "\<dots> = (maximum + outcomes) choose outcomes"
  proof (cases outcomes)
    case 0
    have "(\<Sum>n \<le> maximum. (n - 1) choose n) = (\<Sum>n \<in> {0}. (n - 1) choose n)"
      by (rule sum.mono_neutral_right) auto
    then show ?thesis by (simp add: 0)
  next
    case (Suc r)
    then have "(\<Sum>n \<le> maximum. (outcomes + n - 1) choose n) = Suc (r + maximum) choose maximum"
      by (simp add: sum_choose_lower)
    also have "\<dots> = (maximum + outcomes) choose outcomes"
      using binomial_symmetric[of maximum "maximum + outcomes"] by (simp add: Suc add.commute)
    finally show ?thesis .
  qed
  finally show ?thesis .
qed

section \<open>The bound beforehand\<close>

lemma distribution_step:
  assumes "1 \<le> d"
  shows "(maximum + d - 1 choose (d - 1)) * (maximum + d) div d = (maximum + d) choose d"
proof -
  obtain k where d: "d = Suc k" using assms by (cases d) auto
  have "(maximum + k choose k) * Suc (maximum + k) = (Suc (maximum + k) choose Suc k) * Suc k"
    using Suc_times_binomial_eq[of "maximum + k" k] by (simp add: mult.commute)
  then have "(maximum + k choose k) * Suc (maximum + k) div Suc k = Suc (maximum + k) choose Suc k"
    by (simp only: nonzero_mult_div_cancel_right nat.distinct not_False_eq_True)
  then show ?thesis by (simp only: d add_Suc_right diff_Suc_1)
qed

lemma distribution_mono: "d \<le> labels \<Longrightarrow> (maximum + d choose d) \<le> (maximum + labels choose labels)"
  using binomial_right_mono[of "maximum + d" "maximum + labels" maximum]
    binomial_symmetric[of d "maximum + d"] binomial_symmetric[of labels "maximum + labels"] by simp

lemma distribution_loop_exact:
  assumes "maximum + labels \<le> 2 ^ 47" and "k \<le> labels" and "number = (maximum + k choose k)"
    and "number \<le> FULL_V1_MAX_GUARD_ASSIGNMENTS"
  shows "\<exists>r. distribution_loop maximum [Suc k..<Suc labels] number = Some r
    \<and> (if (maximum + labels choose labels) \<le> FULL_V1_MAX_GUARD_ASSIGNMENTS then r = (maximum + labels choose labels)
       else FULL_V1_MAX_GUARD_ASSIGNMENTS < r)"
  using assms
proof (induction "labels - k" arbitrary: k number)
  case 0
  then show ?case by simp
next
  case (Suc j)
  let ?d = "Suc k"
  have k: "k < labels" using Suc.hyps(2) by simp
  have add: "checked_add maximum ?d = Some (maximum + ?d)" using Suc.prems(1) k by (simp add: checked_add_def u64_max_def)
  have "number * (maximum + ?d) \<le> 65536 * 2 ^ 47"
    using Suc.prems(1,4) k by (intro mult_le_mono) (simp_all add: FULL_V1_MAX_GUARD_ASSIGNMENTS_def)
  then have mul: "checked_mul number (maximum + ?d) = Some (number * (maximum + ?d))" by (simp add: checked_mul_def u64_max_def)
  have div: "number * (maximum + ?d) div ?d = (maximum + ?d choose ?d)"
    using distribution_step[of ?d maximum] Suc.prems(3) by simp
  have upt: "[?d..<Suc labels] = ?d # [Suc ?d..<Suc labels]" using k by (simp add: upt_conv_Cons)
  show ?case
  proof (cases "(maximum + ?d choose ?d) \<le> FULL_V1_MAX_GUARD_ASSIGNMENTS")
    case True
    have "j = labels - ?d" "?d \<le> labels" using Suc.hyps(2) by simp_all
    note rest = Suc.hyps(1)[OF this(1) Suc.prems(1) this(2) refl True]
    have "\<not> FULL_V1_MAX_GUARD_ASSIGNMENTS < (maximum + ?d choose ?d)" using True by (rule leD)
    with rest show ?thesis by (simp only: upt distribution_loop.simps add mul option.case Let_def div if_False)
  next
    case False
    moreover have "(maximum + ?d choose ?d) \<le> (maximum + labels choose labels)" using k by (intro distribution_mono) simp
    ultimately show ?thesis
      by (simp only: upt distribution_loop.simps add mul option.case Let_def div) (auto simp: not_le)
  qed
qed

lemma bounded_distribution_count_exact:
  assumes "maximum + labels \<le> 2 ^ 47"
  obtains r where "bounded_distribution_count maximum labels = Some r"
    "if (maximum + labels choose labels) \<le> FULL_V1_MAX_GUARD_ASSIGNMENTS then r = (maximum + labels choose labels)
     else FULL_V1_MAX_GUARD_ASSIGNMENTS < r"
proof -
  have "1 \<le> FULL_V1_MAX_GUARD_ASSIGNMENTS" by (simp add: FULL_V1_MAX_GUARD_ASSIGNMENTS_def)
  with distribution_loop_exact[OF assms, of 0 1] that show ?thesis by (auto simp: bounded_distribution_count_def)
qed

section \<open>Aggregation\<close>

lemma visit_collects:
  assumes "length collected + length xs \<le> expected"
  shows "case those (map f xs) of
      Some ys \<Rightarrow> visit_until (\<lambda>x (acc, valid). if length acc \<ge> expected then (False, (acc, False))
        else case f x of None \<Rightarrow> (False, (acc, False)) | Some y \<Rightarrow> (True, (acc @ [y], valid))) xs (collected, True)
        = (True, collected @ ys, True)
    | None \<Rightarrow> fst (visit_until (\<lambda>x (acc, valid). if length acc \<ge> expected then (False, (acc, False))
        else case f x of None \<Rightarrow> (False, (acc, False)) | Some y \<Rightarrow> (True, (acc @ [y], valid))) xs (collected, True)) = False"
  using assms
proof (induction xs arbitrary: collected)
  case (Cons x xs)
  show ?case
  proof (cases "f x")
    case None
    then show ?thesis using Cons.prems by simp
  next
    case (Some y)
    from Cons.IH[of "collected @ [y]"] Cons.prems Some show ?thesis by (auto split: option.splits)
  qed
qed simp

lemma those_length: "those xs = Some ys \<Longrightarrow> length ys = length xs"
  by (induction xs arbitrary: ys) (auto split: option.splits)

lemma aggregate_exact:
  assumes "maximum + length outcomes \<le> 2 ^ 47"
  shows "aggregate_assignments_from_outcomes keys outcomes maximum =
    (if (maximum + length outcomes choose length outcomes) \<le> FULL_V1_MAX_GUARD_ASSIGNMENTS
     then those (map (combine_outcome_occurrences keys outcomes) (outcome_multisets (length outcomes) maximum)) else None)"
proof -
  obtain r where r: "bounded_distribution_count maximum (length outcomes) = Some r"
    "if (maximum + length outcomes choose length outcomes) \<le> FULL_V1_MAX_GUARD_ASSIGNMENTS
     then r = (maximum + length outcomes choose length outcomes) else FULL_V1_MAX_GUARD_ASSIGNMENTS < r"
    by (rule bounded_distribution_count_exact[OF assms])
  show ?thesis
  proof (cases "(maximum + length outcomes choose length outcomes) \<le> FULL_V1_MAX_GUARD_ASSIGNMENTS")
    case False
    then show ?thesis using r by (simp add: aggregate_assignments_from_outcomes_def)
  next
    case True
    let ?xs = "outcome_multisets (length outcomes) maximum"
    have len: "r = length ?xs" using r(2) True by (simp add: length_outcome_multisets)
    with visit_collects[of "[]" ?xs r "combine_outcome_occurrences keys outcomes"] r True show ?thesis
      by (auto simp: aggregate_assignments_from_outcomes_def for_each_outcome_multiset_def length_outcome_multisets
          split: option.splits prod.splits dest!: those_length)
  qed
qed

end
