(* ===== verification/Verifier_Properties.thy ===== *)
theory Verifier_Properties
  imports Admission_Properties Verifier_Counting
begin

text \<open>
  What a verified graph promises to the runtime: properties of \<open>Verifier\<close>, on their own and composed with
  admission and the reducer.
\<close>

section \<open>Dispatches against the structural bound\<close>

lemma le_fold_max: "x \<in> set xs \<Longrightarrow> f x \<le> fold max (map f xs) (b :: nat)"
proof -
  have b: "b \<le> fold max ys b" for ys and b :: nat
    by (induction ys arbitrary: b) (auto intro: order_trans[OF max.cobounded2])
  show "x \<in> set xs \<Longrightarrow> f x \<le> fold max (map f xs) b"
  proof (induction xs arbitrary: b)
    case (Cons y ys)
    then show ?case using order_trans[OF max.cobounded1 b[of "max (f y) b" "map f ys"]] by auto
  qed simp
qed

lemma fold_inner:
  assumes "c \<in> set (child_nodes n)" and "\<not> is_atomic_group n"
  shows "nf_concurrency (structural_fold c) \<le> nf_concurrency (structural_fold n)"
  using assms le_fold_max[of c "child_nodes n" "nf_concurrency \<circ> structural_fold" 0]
  by (cases n) (simp_all add: is_atomic_group_def structural_fold.simps[of "SeqNode _ _ _ _"]
      structural_fold.simps[of "ChoiceNode _ _ _ _ _"] structural_fold.simps[of "LoopNode _ _ _ _ _ _ _"] Let_def comp_def)

definition concurrent :: "graph_node \<Rightarrow> u64 list \<Rightarrow> decision list \<Rightarrow> bool" where
  "concurrent n idx ds \<longleftrightarrow> length ds \<le> nf_concurrency (structural_fold n)"

lemma concurrent_branches:
  "list_all2 (\<lambda>b ds. concurrent b idx ds) bs dss \<Longrightarrow>
     length (concat dss) \<le> (\<Sum>b\<leftarrow>bs. nf_concurrency (structural_fold b))"
  by (induction rule: list_all2_induct) (auto simp: concurrent_def)

lemma concurrent_items:
  "list_all2 (\<lambda>i ds. concurrent body (idx @ [i]) ds) is dss \<Longrightarrow>
     length (concat dss) \<le> length is * nf_concurrency (structural_fold body)"
  by (induction rule: list_all2_induct) (auto simp: concurrent_def)

interpretation peak: dispatch_spread concurrent
proof unfold_locales
  show "concurrent n idx []" for n idx by (simp add: concurrent_def)
  show "concurrent n idx [d]" if "executable_spec_of n = Some spec" for n spec d idx
    using that by (cases n) (simp_all add: concurrent_def structural_fold.simps[of "StepNode _"]
        structural_fold.simps[of "VerifierNode _"])
  show "concurrent n idx ds" if "c \<in> set (child_nodes n)" "\<not> is_atomic_group n" "concurrent c idx ds" for c n idx ds
    using fold_inner[OF that(1,2)] that(3) by (simp add: concurrent_def)
  show "concurrent (ParNode name st bs ps j) idx (concat dss)" if "list_all2 (\<lambda>b ds. concurrent b idx ds) bs dss"
    for idx bs dss name st ps j
    using concurrent_branches[OF that]
    by (simp add: concurrent_def structural_fold.simps[of "ParNode _ _ _ _ _"] Let_def comp_def)
  show "concurrent (MapNode name st body over m ps) idx (concat dss)"
    if "list_all2 (\<lambda>i ds. concurrent body (idx @ [i]) ds) is dss" "length is \<le> m"
    for body idx "is" dss m name st over ps
    using order_trans[OF concurrent_items[OF that(1)] mult_le_mono1[OF that(2)]]
    by (simp add: concurrent_def structural_fold.simps[of "MapNode _ _ _ _ _ _"] Let_def)
qed

section \<open>The compiled bounds\<close>

lemma built_bounds:
  assumes "build_bounds f order a = Some b"
  shows "sb_max_node_executions b = max (nf_executions f) 1" "sb_peak_concurrency b = max (nf_concurrency f) 1"
    "sb_attempts_per_node b = an_attempts a"
    "sb_termination b = (if an_loops a = [] then Acyclic order
       else Bounded (map (\<lambda>name. [name]) (an_loops a)) (nf_loop_entries f))"
proof -
  have paths: "those (map (\<lambda>name. case verifier_field_name name of None \<Rightarrow> None
        | Some name \<Rightarrow> (case FieldPath_new [name] of Inr path \<Rightarrow> Some path | Inl _ \<Rightarrow> None)) names) = Some ranking \<Longrightarrow>
      ranking = map (\<lambda>name. [name]) names" for names ranking
    by (induction names arbitrary: ranking)
      (auto simp: verifier_field_name_def FieldName_new_def FieldPath_new_def elim!: bind_resE split: option.splits sum.splits if_splits)
  show "sb_max_node_executions b = max (nf_executions f) 1" "sb_peak_concurrency b = max (nf_concurrency f) 1"
    "sb_attempts_per_node b = an_attempts a"
    using assms by (auto simp: build_bounds_def PositiveInteger_new_def Let_def split: if_splits option.splits sum.splits)
  show "sb_termination b = (if an_loops a = [] then Acyclic order
       else Bounded (map (\<lambda>name. [name]) (an_loops a)) (nf_loop_entries f))"
    using assms by (auto simp: build_bounds_def PositiveInteger_new_def NonEmptyVec_new_def Let_def dest!: paths
        split: if_splits option.splits sum.splits)
qed

lemma put_attempts_lookup:
  assumes "distinct (map (node_name \<circ> fst) ns)"
  shows "bm_get (put_attempts ns m) k = Some a \<longleftrightarrow>
    (\<exists>n \<in> fst ` set ns. node_name n = k \<and> node_attempts n = Some a)
    \<or> bm_get m k = Some a \<and> (\<forall>n \<in> fst ` set ns. node_name n = k \<longrightarrow> node_attempts n = None)"
  using assms
proof (induction ns arbitrary: m)
  case (Cons x ns)
  obtain n d where x: "x = (n, d)" by (cases x)
  have fresh: "node_name n \<notin> node_name ` fst ` set ns" using Cons.prems by (force simp: x image_image)
  define m' where "m' = (case node_attempts n of Some a \<Rightarrow> bm_insert (node_name n) a m | None \<Rightarrow> m)"
  have "put_attempts (x # ns) m = put_attempts ns m'" by (simp add: put_attempts_def x m'_def)
  moreover have "bm_get m' k = (if k = node_name n \<and> node_attempts n \<noteq> None then node_attempts n else bm_get m k)"
    by (simp add: m'_def split: option.split)
  ultimately show ?case using Cons.IH[of m'] Cons.prems fresh by (auto simp: x image_iff split: if_splits)
qed (simp add: put_attempts_def)

text \<open>What verification established of a graph it accepted.\<close>

lemma verified_analysis:
  assumes "verify_graph canonical graph registry = Inr ir"
  obtains a order where "analyze graph = (Some (cg_bounds ir), a)" "cg_root ir = gs_root graph" "gs_profile graph = FullProfile"
    "cg_profile ir = gs_profile graph" "distinct (node_names (cg_root ir))" "length (all_nodes (cg_root ir)) \<le> FULL_V1_MAX_GRAPH_NODES"
    "list_all node_within (nodes_at 1 (cg_root ir))" "bounded_folds (cg_root ir)"
    "an_attempts a = put_attempts (nodes_at 1 (cg_root ir)) []"
    "an_loops a = map node_name (filter is_loop_node (all_nodes (cg_root ir)))"
    "build_bounds (structural_fold (cg_root ir)) order a = Some (cg_bounds ir)"
    "mset order = mset (node_names (cg_root ir))" "respects_references a order"
proof -
  from assms obtain bounds a where an: "analyze graph = (Some bounds, a)" "an_diagnostics a = []"
    and ir: "ir = \<lparr>cg_profile = gs_profile graph, cg_initial_input = gs_initial_input graph, cg_policy = gs_policy graph,
           cg_root = gs_root graph, cg_bounds = bounds\<rparr>" by (rule verified_graph)
  note clean = analyze_clean[OF an]
  from clean(8) obtain order where "Some bounds = build_bounds (structural_fold (gs_root graph)) order a"
    "mset order = mset (map node_name (all_nodes (gs_root graph)))" "respects_references a order" by blast
  with clean(1-7) an(1) that[of a order] show ?thesis by (simp add: ir node_names_def)
qed

section \<open>Bounds are always built\<close>

text \<open>Repetitions are positive, as \<^verbatim>\<open>PositiveInteger\<close> has it.\<close>

definition positive_repeats :: "graph_node \<Rightarrow> bool" where
  "positive_repeats root \<longleftrightarrow> (\<forall>n \<in> set (all_nodes root). case n of
     LoopNode _ _ _ _ iterations _ _ \<Rightarrow> 1 \<le> iterations | MapNode _ _ _ _ items _ \<Rightarrow> 1 \<le> items | _ \<Rightarrow> True)"

lemma positive_repeats_child: "positive_repeats n \<Longrightarrow> c \<in> set (child_nodes n) \<Longrightarrow> positive_repeats c"
  using all_nodes_child by (fastforce simp: positive_repeats_def)

lemma loop_entries_inner:
  assumes "c \<in> set (child_nodes n)" and "positive_repeats n"
  shows "nf_loop_entries (structural_fold c) \<le> nf_loop_entries (structural_fold n)"
proof -
  let ?f = "nf_loop_entries \<circ> structural_fold"
  have "?f c \<le> fold max (map ?f (child_nodes n)) 0" "?f c \<le> sum_list (map ?f (child_nodes n))"
    using assms(1) le_fold_max[of c "child_nodes n" ?f 0] by (auto intro: member_le_sum_list)
  moreover have "x \<le> k * x" if "1 \<le> k" for k x :: nat using that by simp
  moreover have "x \<le> k * Suc x" if "1 \<le> k" for k x :: nat using mult_le_mono[OF that, of x "Suc x"] by simp
  ultimately show ?thesis using assms all_nodes_self[of n]
    by (cases n) (fastforce simp: positive_repeats_def structural_fold.simps[of "SeqNode _ _ _ _"] comp_def
      structural_fold.simps[of "ChoiceNode _ _ _ _ _"] structural_fold.simps[of "LoopNode _ _ _ _ _ _ _"]
      structural_fold.simps[of "ParNode _ _ _ _ _"] structural_fold.simps[of "MapNode _ _ _ _ _ _"] Let_def)+
qed

lemma loop_entries_positive:
  assumes "positive_repeats n" and "m \<in> set (all_nodes n)" and "is_loop_node m"
  shows "1 \<le> nf_loop_entries (structural_fold n)"
  using assms
proof (induction n rule: graph_induct)
  case (node n)
  show ?case
  proof (cases "m = n")
    case True
    then show ?thesis using node.prems all_nodes_self[of n]
      by (cases n) (force simp: is_loop_node_def positive_repeats_def structural_fold.simps[of "LoopNode _ _ _ _ _ _ _"] Let_def)+
  next
    case False
    then obtain c where c: "c \<in> set (child_nodes n)" "m \<in> set (all_nodes c)"
      using node.prems(2) by (auto simp: all_nodes.simps[of n])
    then show ?thesis
      using order_trans[OF node.IH[OF c(1) positive_repeats_child[OF node.prems(1) c(1)] c(2) node.prems(3)]
        loop_entries_inner[OF c(1) node.prems(1)]] by simp
  qed
qed

lemma built_bounds_total:
  assumes "within_limits f" and "order \<noteq> []" and "length order \<le> MAX_COLLECTION_ITEMS"
    and "length (an_loops a) \<le> MAX_COLLECTION_ITEMS"
    and "\<And>name. name \<in> set (an_loops a) \<Longrightarrow> NodeName_new name = Inr name"
    and "an_loops a \<noteq> [] \<Longrightarrow> 1 \<le> nf_loop_entries f"
  obtains b where "build_bounds f order a = Some b"
proof -
  have field: "verifier_field_name name = Some name" if "NodeName_new name = Inr name" for name
    using that by (auto simp: verifier_field_name_def NodeName_new_def FieldName_new_def validate_identifier_def Let_def
        split: list.splits if_splits elim!: bind_resE)
  have "those (map (\<lambda>name. case verifier_field_name name of None \<Rightarrow> None
        | Some name \<Rightarrow> (case FieldPath_new [name] of Inr path \<Rightarrow> Some path | Inl _ \<Rightarrow> None)) names) = Some (map (\<lambda>name. [name]) names)"
    if "\<And>name. name \<in> set names \<Longrightarrow> NodeName_new name = Inr name" for names
    using that by (induction names) (auto simp: field FieldPath_new_def MAX_PATH_SEGMENTS_def)
  then have paths: "those (map (\<lambda>name. case verifier_field_name name of None \<Rightarrow> None
        | Some name \<Rightarrow> (case FieldPath_new [name] of Inr path \<Rightarrow> Some path | Inl _ \<Rightarrow> None)) (an_loops a))
      = Some (map (\<lambda>name. [name]) (an_loops a))" using assms(5) by blast
  have positive: "PositiveInteger_new k = Inr k" if "1 \<le> k" "k \<le> 65536" for k
    using that by (simp add: PositiveInteger_new_def MAX_SAFE_GENERATION_def)
  have "PositiveInteger_new (max (nf_executions f) 1) = Inr (max (nf_executions f) 1)"
    "PositiveInteger_new (max (nf_concurrency f) 1) = Inr (max (nf_concurrency f) 1)"
    "an_loops a \<noteq> [] \<Longrightarrow> PositiveInteger_new (nf_loop_entries f) = Inr (nf_loop_entries f)"
    using assms(1,6) by (auto intro!: positive simp: within_limits_def FULL_V1_MAX_NODE_EXECUTIONS_def
        FULL_V1_MAX_PEAK_CONCURRENCY_def FULL_V1_MAX_LOOP_ENTRIES_def)
  then show ?thesis using that assms(2-4)
    by (cases "an_loops a = []") (simp_all add: build_bounds_def NonEmptyVec_new_def paths Let_def del: max.absorb1)
qed

lemma analysis_bounds:
  assumes "analyze graph = (bounds, a)" and "an_diagnostics a = []"
    and "\<And>n. n \<in> set (all_nodes (gs_root graph)) \<Longrightarrow> NodeName_new (node_name n) = Inr (node_name n)"
    and "positive_repeats (gs_root graph)"
  obtains b where "bounds = Some b"
proof -
  let ?root = "gs_root graph"
  note clean = analyze_clean[OF assms(1,2)]
  from clean(8) obtain order where bounds: "bounds = build_bounds (structural_fold ?root) order a"
    and order: "mset order = mset (map node_name (all_nodes ?root))" by blast
  have len: "length order = length (all_nodes ?root)" using arg_cong[OF order, of size] by simp
  have small: "length (all_nodes ?root) \<le> MAX_COLLECTION_ITEMS"
    using clean(3) by (simp add: FULL_V1_MAX_GRAPH_NODES_def MAX_COLLECTION_ITEMS_def)
  have "length (an_loops a) \<le> MAX_COLLECTION_ITEMS"
    using order_trans[OF length_filter_le[of is_loop_node "all_nodes ?root"] small] by (simp add: clean(7))
  moreover have "NodeName_new name = Inr name" if "name \<in> set (an_loops a)" for name
    using that assms(3) by (auto simp: clean(7))
  moreover have "1 \<le> nf_loop_entries (structural_fold ?root)" if "an_loops a \<noteq> []"
  proof -
    from that obtain m where "m \<in> set (all_nodes ?root)" "is_loop_node m" by (auto simp: clean(7) filter_empty_conv)
    then show ?thesis by (rule loop_entries_positive[OF assms(4)])
  qed
  moreover have "within_limits (structural_fold ?root)" using clean(5) all_nodes_self by (auto simp: bounded_folds_def)
  moreover have "order \<noteq> []" "length order \<le> MAX_COLLECTION_ITEMS"
    using len small all_nodes_self[of ?root] by auto
  ultimately obtain b where "build_bounds (structural_fold ?root) order a = Some b" using built_bounds_total by metis
  with bounds that show ?thesis by simp
qed

lemma push_verified:
  obtains reg where "verify_graph (\<lambda>_. Inr []) push_graph (graph_bound_resolve reg) = Inr (ad_graph push_admitted)"
proof -
  obtain reg where reg: "check_graph_workers push_graph (graph_bound_resolve reg) = Inr ()" by (rule push_registry)
  obtain a where "analyze push_graph = (Some small_bounds, a)" "an_diagnostics a = []" by (rule push_analysis)
  with reg have "verify_graph (\<lambda>_. Inr []) push_graph (graph_bound_resolve reg) = Inr (ad_graph push_admitted)"
    by (simp add: verify_graph_def finalize_verified_def ok_or_def push_admitted_def push_graph_def Let_def)
  with that show ?thesis by blast
qed

section \<open>Properties\<close>

text \<open>C22. Concurrency of an admitted run: whatever the history of an admitted run holds, one reduction of it
  dispatches at most as many executions as the verifier computed as the peak concurrency of its graph, at most
  1024, and it dispatches no occurrence twice. The snapshot satisfies the run invariant, as every snapshot of a
  reachable ledger does, and its positions are below their limit.\<close>

theorem verified_dispatch_bound:
  assumes "admit_with_context host policy submission = Inr admitted"
    and "reduce_run jl admitted snap = Inr red" and "run_ok n snap"
    and "n + seed_offset (sn_execution_seed snap) < HistoryPosition_MAX"
  shows "length (dispatches (rd_decisions red)) \<le> sb_peak_concurrency (cg_bounds (ad_graph admitted))
    \<and> sb_peak_concurrency (cg_bounds (ad_graph admitted)) \<le> FULL_V1_MAX_PEAK_CONCURRENCY
    \<and> distinct (map dp_occurrence (dispatches (rd_decisions red)))"
proof -
  let ?root = "cg_root (ad_graph admitted)" and ?ds = "dispatches (rd_decisions red)"
  from assms(1) obtain graph reg where "verify_graph (ah_canonical host) graph (graph_bound_resolve reg) = Inr (ad_graph admitted)"
    by (rule admit_cases)
  then obtain a order where names: "distinct (node_names ?root)" and folds: "bounded_folds ?root"
    and built: "build_bounds (structural_fold ?root) order a = Some (cg_bounds (ad_graph admitted))"
    by (rule verified_analysis)
  have "concurrent ?root [] ?ds" "once ?root [] ?ds"
    using peak.reduce_run_spread[OF assms(2-4)] occurrence.reduce_run_spread[OF assms(2-4)] .
  moreover have "within_limits (structural_fold ?root)" using folds all_nodes_self by (auto simp: bounded_folds_def)
  ultimately show ?thesis using names built_bounds(2)[OF built]
    by (simp add: concurrent_def once_def within_limits_def FULL_V1_MAX_PEAK_CONCURRENCY_def)
qed

theorem verified_dispatch_bound_witness:
  "length (dispatches (rd_decisions push_started)) \<le> sb_peak_concurrency small_bounds
   \<and> sb_peak_concurrency small_bounds = 1"
proof -
  have "1 + seed_offset (sn_execution_seed push_snap) < HistoryPosition_MAX"
    by (simp add: push_snap_def race_snap_def seed_offset_def HistoryPosition_MAX_def i64_max_def)
  from verified_dispatch_bound[OF push_admission push_start push_snap_ok this] show ?thesis
    by (simp add: push_admitted_def small_bounds_def)
qed

text \<open>C24. Shape of a verified graph: verification compiles the root of the graph it was given; the graph uses
  the full profile, its nodes have distinct names, it has at most 4096 of them and no node lies deeper than 64
  levels; the compiled table of attempts holds exactly the steps and verifiers, with the attempts they declare,
  at most 100.\<close>

theorem verified_wellformed:
  assumes "verify_graph canonical graph registry = Inr ir"
  shows "cg_root ir = gs_root graph \<and> cg_profile ir = FullProfile
    \<and> distinct (node_names (cg_root ir)) \<and> length (node_names (cg_root ir)) \<le> 4096
    \<and> (\<forall>(n, d) \<in> set (nodes_at 1 (cg_root ir)). d \<le> 64)
    \<and> (\<forall>name k. bm_get (sb_attempts_per_node (cg_bounds ir)) name = Some k \<longleftrightarrow>
         (\<exists>n \<in> set (all_nodes (cg_root ir)). node_name n = name \<and> node_attempts n = Some k))
    \<and> (\<forall>n \<in> set (all_nodes (cg_root ir)). \<forall>k. node_attempts n = Some k \<longrightarrow> k \<le> 100)"
proof -
  let ?root = "cg_root ir" and ?ns = "nodes_at 1 (cg_root ir)"
  from assms obtain a order where root: "?root = gs_root graph" "gs_profile graph = FullProfile" "cg_profile ir = gs_profile graph"
    and names: "distinct (node_names ?root)" "length (all_nodes ?root) \<le> FULL_V1_MAX_GRAPH_NODES"
    and within: "list_all node_within ?ns" and attempts: "an_attempts a = put_attempts ?ns []"
    and built: "build_bounds (structural_fold ?root) order a = Some (cg_bounds ir)"
    by (rule verified_analysis)
  have nodes: "fst ` set ?ns = set (all_nodes ?root)" by (simp flip: nodes_at_all[of 1 ?root])
  have "distinct (map (node_name \<circ> fst) ?ns)"
    using names(1) by (simp add: node_names_def flip: nodes_at_all[of 1 ?root] map_map)
  note table = put_attempts_lookup[OF this, of "[]"]
  have "\<forall>(n, d) \<in> set ?ns. d \<le> 64" using within by (auto simp: list_all_iff node_within_def FULL_V1_MAX_GRAPH_DEPTH_def)
  moreover have "\<forall>n \<in> set (all_nodes ?root). \<forall>k. node_attempts n = Some k \<longrightarrow> k \<le> 100"
    using within unfolding nodes[symmetric]
    by (fastforce simp: list_all_iff node_within_def FULL_V1_MAX_ATTEMPTS_PER_NODE_def)
  moreover have "bm_get (sb_attempts_per_node (cg_bounds ir)) name = Some k \<longleftrightarrow>
      (\<exists>n \<in> set (all_nodes ?root). node_name n = name \<and> node_attempts n = Some k)" for name k
    unfolding built_bounds(3)[OF built] attempts table nodes by simp
  ultimately show ?thesis using root names by (simp add: node_names_def FULL_V1_MAX_GRAPH_NODES_def)
qed

theorem verified_wellformed_witness:
  "\<exists>reg. verify_graph (\<lambda>_. Inr []) push_graph (graph_bound_resolve reg) = Inr (ad_graph push_admitted)
     \<and> distinct (node_names push_root) \<and> length (node_names push_root) \<le> 4096"
proof -
  obtain reg where reg: "verify_graph (\<lambda>_. Inr []) push_graph (graph_bound_resolve reg) = Inr (ad_graph push_admitted)"
    by (rule push_verified)
  with verified_wellformed[OF reg] show ?thesis by (auto simp: push_admitted_def)
qed

text \<open>C23. The compiled bounds are the structural bounds of the graph: executions and peak concurrency are
  those of the fold without limits, at least one; every subgraph is within the limits of the profile; a graph
  without loops has an order of all its nodes in which each follows the nodes it refers to, and one with loops
  ranks its loops and allows as many loop entries as the fold counts.\<close>

theorem verified_bounds_exact:
  assumes "verify_graph canonical graph registry = Inr ir"
  shows "sb_max_node_executions (cg_bounds ir) = max (nf_executions (structural_fold (cg_root ir))) 1
    \<and> sb_peak_concurrency (cg_bounds ir) = max (nf_concurrency (structural_fold (cg_root ir))) 1
    \<and> (\<forall>n \<in> set (all_nodes (cg_root ir)). nf_executions (structural_fold n) \<le> 65536
         \<and> nf_concurrency (structural_fold n) \<le> 1024 \<and> nf_loop_entries (structural_fold n) \<le> 65536)
    \<and> (case sb_termination (cg_bounds ir) of
         Acyclic order \<Rightarrow> (\<forall>n \<in> set (all_nodes (cg_root ir)). \<not> is_loop_node n)
           \<and> mset order = mset (node_names (cg_root ir)) \<and> respects_references (snd (analyze graph)) order
       | Bounded ranking entries \<Rightarrow>
           ranking = map (\<lambda>n. [node_name n]) (filter is_loop_node (all_nodes (cg_root ir))) \<and> ranking \<noteq> []
           \<and> entries = nf_loop_entries (structural_fold (cg_root ir)))"
proof -
  let ?root = "cg_root ir"
  from assms obtain a order where an: "analyze graph = (Some (cg_bounds ir), a)" and folds: "bounded_folds ?root"
    and loops: "an_loops a = map node_name (filter is_loop_node (all_nodes ?root))"
    and built: "build_bounds (structural_fold ?root) order a = Some (cg_bounds ir)"
    and order: "mset order = mset (node_names ?root)" "respects_references a order"
    by (rule verified_analysis)
  have "filter is_loop_node (all_nodes ?root) = [] \<longleftrightarrow> (\<forall>n \<in> set (all_nodes ?root). \<not> is_loop_node n)"
    by (simp add: filter_empty_conv)
  then show ?thesis
    using built_bounds[OF built] folds order an loops
    by (auto simp: bounded_folds_def within_limits_def FULL_V1_MAX_NODE_EXECUTIONS_def FULL_V1_MAX_PEAK_CONCURRENCY_def
        FULL_V1_MAX_LOOP_ENTRIES_def)
qed

theorem verified_bounds_exact_witness:
  "\<exists>reg. verify_graph (\<lambda>_. Inr []) push_graph (graph_bound_resolve reg) = Inr (ad_graph push_admitted)
     \<and> sb_peak_concurrency small_bounds = max (nf_concurrency (structural_fold push_root)) 1
     \<and> respects_references (snd (analyze push_graph)) [''root'', ''publish'', ''ok'']"
proof -
  obtain reg where reg: "verify_graph (\<lambda>_. Inr []) push_graph (graph_bound_resolve reg) = Inr (ad_graph push_admitted)"
    by (rule push_verified)
  with verified_bounds_exact[OF reg] show ?thesis by (auto simp: push_admitted_def small_bounds_def)
qed

text \<open>C25. Verification always has a verdict: for a graph whose names are node names and whose repetitions are
  positive, as the types of the protocol have it, it rejects with at least one diagnostic exactly when the
  analysis or the check of its workers has one, and otherwise compiles the graph unchanged, with the bounds of
  the analysis. The internal error of an analysis without bounds is unreachable: the only internal error left
  is a compiled graph that the canonical encoder (an external library) refuses.\<close>

theorem verification_total:
  assumes "\<forall>n \<in> set (all_nodes (gs_root graph)). NodeName_new (node_name n) = Inr (node_name n)"
    and "positive_repeats (gs_root graph)"
  shows "if an_diagnostics (snd (analyze graph)) \<noteq> [] \<or> check_graph_workers graph registry \<noteq> Inr ()
    then \<exists>ds. ds \<noteq> [] \<and> verify_graph canonical graph registry = Inl (Rejected ds)
    else \<exists>bounds ir. fst (analyze graph) = Some bounds
      \<and> ir = \<lparr>cg_profile = gs_profile graph, cg_initial_input = gs_initial_input graph,
              cg_policy = gs_policy graph, cg_root = gs_root graph, cg_bounds = bounds\<rparr>
      \<and> verify_graph canonical graph registry =
          (case canonical ir of
             Inr _ \<Rightarrow> Inr ir
           | Inl e \<Rightarrow> Inl (VerificationInternal (''validated graph could not be canonicalized: '' @ e)))"
proof -
  obtain b a where an: "analyze graph = (b, a)" by force
  have sorted: "sort_diagnostics ds \<noteq> []" if "ds \<noteq> []" for ds
    using that by (simp add: sort_diagnostics_def flip: length_greater_0_conv)
  show ?thesis
  proof (cases "an_diagnostics a = []")
    case False
    then show ?thesis using an sorted by (auto simp: verify_graph_def)
  next
    case True
    obtain bounds where b: "b = Some bounds" using analysis_bounds[OF an True] assms by blast
    show ?thesis
    proof (cases "check_graph_workers graph registry")
      case (Inl ds)
      then have "ds \<noteq> []" by (auto simp: check_graph_workers_def Let_def split: if_splits)
      then show ?thesis using an True Inl sorted[of "map (worker_diagnostic a) ds"] by (simp add: verify_graph_def)
    next
      case (Inr u)
      then show ?thesis using an True b
        by (simp add: verify_graph_def ok_or_def finalize_verified_def Let_def split: sum.split)
    qed
  qed
qed

theorem verification_total_witness:
  "\<exists>reg bounds. fst (analyze push_graph) = Some bounds
     \<and> verify_graph (\<lambda>_. Inr []) push_graph (graph_bound_resolve reg) =
         Inr \<lparr>cg_profile = gs_profile push_graph, cg_initial_input = gs_initial_input push_graph,
              cg_policy = gs_policy push_graph, cg_root = gs_root push_graph, cg_bounds = bounds\<rparr>"
proof -
  have nodes: "all_nodes (gs_root push_graph) = [push_root, child_nodes push_root ! 0, child_nodes push_root ! 1]"
    by (simp add: push_graph_def push_root_def all_nodes.simps[of "SeqNode _ _ _ _"] all_nodes.simps[of "VerifierNode _"]
        all_nodes.simps[of "SucceedNode _"])
  have "NodeName_new ''root'' = Inr ''root''" "NodeName_new ''publish'' = Inr ''publish''" "NodeName_new ''ok'' = Inr ''ok''"
    by code_simp+
  then have "\<forall>n \<in> set (all_nodes (gs_root push_graph)). NodeName_new (node_name n) = Inr (node_name n)"
    "positive_repeats (gs_root push_graph)"
    unfolding positive_repeats_def nodes by (simp_all add: push_root_def)
  note verdict = verification_total[OF this, of "graph_bound_resolve reg" "\<lambda>_. Inr []" for reg]
  obtain reg where "verify_graph (\<lambda>_. Inr []) push_graph (graph_bound_resolve reg) = Inr (ad_graph push_admitted)"
    by (rule push_verified)
  with verdict[of reg] show ?thesis by (auto split: if_splits)
qed

text \<open>C26. Outcomes of map items: with a bound on items and outcomes far above the limits of the profile,
  aggregation yields one assignment for every multiset of at most that many outcomes, in a fixed order and
  without repetition, exactly when there are at most 65536 of them, and none otherwise; the number computed
  beforehand by checked multiplication is the number of multisets visited.\<close>

theorem aggregate_assignments_exact:
  assumes "maximum + length outcomes \<le> 2 ^ 47"
  shows "aggregate_assignments_from_outcomes keys outcomes maximum =
      (if length (outcome_multisets (length outcomes) maximum) \<le> 65536
       then those (map (combine_outcome_occurrences keys outcomes) (outcome_multisets (length outcomes) maximum)) else None)
    \<and> length (outcome_multisets (length outcomes) maximum) = (maximum + length outcomes) choose length outcomes
    \<and> distinct (map mset (outcome_multisets (length outcomes) maximum))
    \<and> mset ` set (outcome_multisets (length outcomes) maximum)
        = {M. size M \<le> maximum \<and> set_mset M \<subseteq> {..<length outcomes}}"
proof -
  have "(\<Union>n \<le> maximum. multisets_of_size {..<length outcomes} n) = {M. size M \<le> maximum \<and> set_mset M \<subseteq> {..<length outcomes}}"
    by (auto simp: multisets_of_size_def)
  then show ?thesis
    using aggregate_exact[OF assms] outcome_multisets_exact[of "length outcomes" maximum]
    by (simp add: length_outcome_multisets FULL_V1_MAX_GUARD_ASSIGNMENTS_def)
qed

theorem aggregate_assignments_exact_witness:
  "length (outcome_multisets 2 2) = 6
   \<and> aggregate_assignments_from_outcomes [] [[], []] 2 = those (map (combine_outcome_occurrences [] [[], []]) (outcome_multisets 2 2))"
proof -
  have facts: "length [[], [] :: assignment] = 2" "(2 + 2 choose 2) = (6 :: nat)" by (simp_all add: eval_nat_numeral)
  have "2 + 2 \<le> (2 ^ 47 :: nat)" by simp
  from aggregate_assignments_exact[of 2 "[[], []]" "[]", unfolded facts, OF this] show ?thesis by simp
qed

end
