(* ===== verification/Spec2Isabelle.thy ===== *)
theory Spec2Isabelle
  imports Value_Properties Reducer_Properties Ledger_Properties Supervisor_Properties Admission_Properties
    Verifier_Properties
begin

text \<open>
  The native-v2 engine of zeroshot, verified.

  \<^bold>\<open>The program.\<close> zeroshot runs workflow graphs whose leaves are agents, scripts and trusted delivery
  steps. A run is admitted once and then driven by a supervisor until it has a terminal result. The
  supervisor holds no state of the graph: in every turn it reads the run's snapshot from an
  event-sourced ledger, hands the execution history to a deterministic reducer and performs what the
  reducer decides: it cancels the losers of races, starts missing executions, or ends the run. What
  it performs it first records in the ledger, so that the next turn, or the next process, sees it.

  \<^bold>\<open>The theories, in the order of their imports.\<close>

  \<^item> \<open>Prelude\<close>: results, checked 64-bit arithmetic, \<^verbatim>\<open>BTreeMap\<close> and \<^verbatim>\<open>BTreeSet\<close> as sorted lists with
    the locales \<open>ordered_map\<close> and \<open>ordered_set\<close>, decimal printing and parsing.
  \<^item> \<open>Payload\<close> (\<^verbatim>\<open>crates/openengine-cluster-protocol/src/payload.rs\<close>, \<^verbatim>\<open>payload_value.rs\<close>): payload
    types, subtyping, JSON values, validation, materialisation of missing fields.
  \<^item> \<open>Graph\<close> (\<^verbatim>\<open>graph.rs\<close>, \<^verbatim>\<open>worker/outcome.rs\<close>, \<^verbatim>\<open>graph_verifier/effects_tree.rs\<close>): the nine node kinds,
    guards, joins, stable references, worker outcomes.
  \<^item> \<open>Observation\<close> (\<^verbatim>\<open>native_v2_observation.rs\<close>, \<^verbatim>\<open>logs.rs\<close>): bounded public text, failure evidence,
    token counters.
  \<^item> \<open>Reducer_Values\<close> (\<^verbatim>\<open>zeroshot/src/full_v1_reducer/history.rs\<close>, \<^verbatim>\<open>values.rs\<close>): the execution history
    and its validation, payload paths, bindings, promotion of written paths.
  \<^item> \<open>Reducer_Engine\<close> (\<^verbatim>\<open>full_v1_reducer.rs\<close>, \<^verbatim>\<open>control.rs\<close>, \<^verbatim>\<open>trace.rs\<close>, \<^verbatim>\<open>evaluation/state.rs\<close>): the
    engine state, guards, cancellation, one executable visit. \<open>Reducer\<close> (\<^verbatim>\<open>evaluation.rs\<close>,
    \<^verbatim>\<open>groups.rs\<close>, \<^verbatim>\<open>groups/map.rs\<close>, \<^verbatim>\<open>groups/state.rs\<close>): the recursion over the graph and the entry points
    \<open>reduce\<close> and \<open>reduce_with_trace\<close>.
  \<^item> \<open>Reducer_Laws\<close>, \<open>Reducer_Relations\<close>, \<open>Reducer_Dispatch\<close>, \<open>Reducer_Trace\<close>: laws of the whole
    recursion. The locale \<open>engine_relation\<close> carries a relation between engine states through every
    case of the evaluation once; it is interpreted for what stays fixed, what is emitted, where
    dispatches come from and what is cancelled.
  \<^item> \<open>Ledger_State\<close> (\<^verbatim>\<open>v2_run_ledger.rs\<close>, \<^verbatim>\<open>v2_run_ledger/state.rs\<close>): run snapshots, the eleven events
    and the projection \<open>apply_event\<close>. \<open>Ledger_Laws\<close>: the step relation \<open>event_step\<close> that specifies it
    without its handlers, and the run invariant. \<open>Ledger\<close> (\<^verbatim>\<open>v2_run_ledger/fake.rs\<close>): the \<^verbatim>\<open>RunLedger\<close> port on memory, with the
    locale \<open>run_ledger\<close> for what its clients rely on.
  \<^item> \<open>Supervisor\<close> (\<^verbatim>\<open>native_v2_supervisor/runtime.rs\<close>, \<^verbatim>\<open>logging.rs\<close>, \<^verbatim>\<open>failure.rs\<close>): the bridge from
    snapshots to histories and from decisions to events. \<open>Supervisor_Drive\<close>
    (\<^verbatim>\<open>native_v2_supervisor.rs\<close>, \<^verbatim>\<open>controller.rs\<close>): the driving turn as the step relation \<open>drive_step\<close>,
    interleaved with finishing tasks, node output, force-stops and runtime loss.
    \<open>Supervisor_Laws\<close>, \<open>Supervisor_Invariant\<close>, \<open>Supervisor_Accept\<close>, \<open>Supervisor_Progress\<close>: the invariant
    of a driven run and why its appends are accepted.
  \<^item> \<open>Run_Plan\<close> (\<^verbatim>\<open>native_v2_run.rs\<close> and its modules): submissions, sources, runtime bindings and
    environments. \<open>Worker_Registry\<close> (\<^verbatim>\<open>worker.rs\<close>, \<^verbatim>\<open>worker_registry.rs\<close>): worker descriptors and their
    comparison with a graph. \<open>Delivery\<close> (\<^verbatim>\<open>native_v2_delivery.rs\<close>, \<^verbatim>\<open>native_v2_comment_delivery.rs\<close>): the
    contracts, results and receipts of trusted deliveries.
  \<^item> The graph verifier (\<^verbatim>\<open>crates/openengine-cluster-server/src/graph_verifier.rs\<close> and every file of
    \<^verbatim>\<open>graph_verifier/\<close>). \<open>Verifier_Control\<close>: diagnostics, completion predicates and the control
    assignments of a set of guards. \<open>Verifier_Effects\<close>: what is known of the state on the way into a
    node (\<open>flow\<close>) and what a subgraph does to it (\<open>effects\<close>). \<open>Verifier_Analyzer\<close>: the analyzer, the index
    of the nodes, the structural bounds, terminal coverage and the order of references.
    \<open>Verifier_Guards\<close>, \<open>Verifier_Bindings\<close>: legality of guards, choices, bindings, promotions, parallel
    groups and maps. \<open>Verifier\<close>: the recursion \<open>validate_node\<close>, \<open>analyze\<close> and \<open>verify_graph\<close>.
    \<open>Verifier_Laws\<close>: the locale \<open>analyzer_invariant\<close>, which carries a property of the analyzer through
    every method once. \<open>Verifier_Bounds\<close>: what an analysis without diagnostics established.
    \<open>Verifier_Counting\<close>: the enumeration of the outcomes of map items. \<open>Verifier_Example\<close>: the analysis
    of a small graph, step by step.
  \<^item> \<open>Admission\<close> (\<^verbatim>\<open>native_v2_admission.rs\<close> and its modules): from a submission to an admitted run.
    \<open>Finish\<close> (\<^verbatim>\<open>native_v2_supervisor.rs\<close>, \<^verbatim>\<open>postmortem.rs\<close>): the delivery gate, the postmortem and the
    publication of the result, as the step relation \<open>finish_step\<close>. \<open>Admission_Laws\<close>: their laws.
    \<open>Sessions\<close>: a run over several sessions of its supervisor, each resuming from the ledger.
  \<^item> \<open>Value_Properties\<close>, \<open>Reducer_Properties\<close>, \<open>Ledger_Properties\<close>, \<open>Supervisor_Properties\<close>,
    \<open>Admission_Properties\<close>, \<open>Verifier_Properties\<close>: the properties, each with a witness on concrete input.

  \<^bold>\<open>What is shown.\<close> Payload validation and subtyping decide their declarative definitions. A reduction
  dispatches fresh identities, each occurrence at most once, only workers of the graph; it voids only
  active executions; a terminal result comes alone; tracing changes nothing. The ledger's projection
  performs exactly the steps of its specification, keeps the run invariant, is the replay of its
  events, only ever extends a run, and paging reads every event. A driven run keeps one task per
  active execution; dispatches are recorded before they start and read back unchanged by the next
  reduction; finished tasks are settled with what they reported or the reducer's reason; cancelling and
  stopping end. An admitted run has
  exactly the bindings its graph needs; a delivery is dispatched alone, and a success that requires one
  is published only with its receipt, also when another session finishes the run. A verified graph has distinct names and the bounds of its
  structure; the reducer never dispatches more than the peak concurrency the verifier computed;
  verification always has a verdict.

  \<^bold>\<open>Representation.\<close> \<^verbatim>\<open>Result\<close> is a sum with the error on the left. A 64-bit counter is a natural
  number with \<^verbatim>\<open>checked_add\<close> and the wrapping \<^verbatim>\<open>+\<close> written out. Strings are lists of bytes; text whose
  characters matter is a list of Unicode scalar values. All recursions terminate: over the size of the
  graph, over the iterations left in a loop, over lists. No function of the program has fuel; the paging
  client \<open>catch_up\<close>, which is not of the program, makes a given number of requests, one for each event
  at most.

  \<^bold>\<open>Parameters.\<close> JSON encoding lengths, SHA-256, the clock and the results of node tasks come from
  outside the model and are arguments (\<open>codec\<close>, \<open>clock\<close>, \<open>host\<close>, the steps of \<open>drive_step\<close>), as are the
  canonical encoding of a compiled graph and the forge checks of admission (\<open>admission_host\<close>). The code
  keys one table of the analyzer by the address of a node; the model keys it by the node's position.

  \<^bold>\<open>Not modelled.\<close> The SQLite ledger runs its statements in \<^verbatim>\<open>rusqlite\<close>; it stores the projection
  modelled here. Hosting, containers, processes, Git and forge commands are effects on external
  systems. The command line, ACP, terminal UI and active memory are front ends and prompts around the
  engine. Of the graph verifier everything is modelled; that its data-flow analysis is sound for every
  run of the reducer is not stated.
\<close>

end
